(* ===== verification/Barra_Prelude.thy ===== *)
theory Barra_Prelude
  imports Main "HOL-Library.Word" "HOL-Library.Multiset"
begin

text \<open>
  Shared vocabulary of the development: bytes and the little-endian encoding in which every
  bridge protocol of the repository puts its integers on the wire, arrays of 32-bit words, and the
  fixed-size slot tables (\<open>T h[N]\<close> with a \<open>used\<close> flag) that each daemon keeps its handles in.
  Unsigned integers of the C code are natural numbers with the reduction modulo \<open>2 ^ 32\<close> or
  \<open>2 ^ 64\<close> written out where a conversion or an addition can wrap; bytes, hashes and bit masks are
  words.
\<close>

unbundle bit_operations_syntax

type_synonym byte = "8 word"
type_synonym u32 = "32 word"
type_synonym u64 = "64 word"

named_theorems wire_simps
named_theorems table_simps

section \<open>Little-endian integers\<close>

fun le_bytes :: "nat \<Rightarrow> nat \<Rightarrow> byte list" where
  "le_bytes 0 n = []"
| "le_bytes (Suc k) n = of_nat n # le_bytes k (n div 256)"

fun le_nat :: "byte list \<Rightarrow> nat" where
  "le_nat [] = 0"
| "le_nat (b # bs) = unat b + 256 * le_nat bs"

abbreviation le32 :: "nat \<Rightarrow> byte list" where "le32 \<equiv> le_bytes 4"
abbreviation le64 :: "nat \<Rightarrow> byte list" where "le64 \<equiv> le_bytes 8"

lemma length_le_bytes [simp]: "length (le_bytes k n) = k"
  by (induction k arbitrary: n) auto

lemma le32_unfold:
  "le32 n = [of_nat n, of_nat (n div 256), of_nat (n div 65536), of_nat (n div 16777216)]"
proof -
  have four: "(4::nat) = Suc (Suc (Suc (Suc 0)))" by simp
  show ?thesis unfolding four by (simp add: div_mult2_eq [symmetric])
qed

lemma unat_byte_less: "unat (b :: byte) < 256"
  using unsigned_less [of b] by simp

lemma le_nat_le_bytes [wire_simps]: "le_nat (le_bytes k n) = n mod 256 ^ k"
proof (induction k arbitrary: n)
  case 0
  then show ?case by simp
next
  case (Suc k)
  have "unat (of_nat n :: byte) = n mod 256" by (simp add: unat_of_nat)
  then show ?case
    using Suc.IH [of "n div 256"] by (simp add: mod_mult2_eq)
qed

lemma le_nat_less: "le_nat bs < 256 ^ length bs"
proof (induction bs)
  case Nil
  then show ?case by simp
next
  case (Cons b bs)
  have "unat b < 256" by (rule unat_byte_less)
  with Cons show ?case by simp
qed

lemma le_bytes_le_nat: "le_bytes (length bs) (le_nat bs) = bs"
proof (induction bs)
  case Nil
  then show ?case by simp
next
  case (Cons b bs)
  have b: "unat b < 256" by (rule unat_byte_less)
  have h: "of_nat (unat b + 256 * le_nat bs) = b"
    unfolding word_unat_eq_iff by (subst unat_of_nat) (simp add: b take_bit_eq_mod)
  have d: "(unat b + 256 * le_nat bs) div 256 = le_nat bs" using b by simp
  show ?case by (simp only: le_nat.simps list.size add_Suc_right add_0_right le_bytes.simps h d Cons)
qed

lemma le_nat_le32: "n < 2 ^ 32 \<Longrightarrow> le_nat (le32 n) = n"
  by (simp add: le_nat_le_bytes)

lemma le_nat_le64: "n < 2 ^ 64 \<Longrightarrow> le_nat (le64 n) = n"
  by (simp add: le_nat_le_bytes)

lemma le_nat_4: "length bs = 4 \<Longrightarrow> le_nat bs < 2 ^ 32"
  using le_nat_less [of bs] by simp

section \<open>Arrays of 32-bit words\<close>

definition put32s :: "nat list \<Rightarrow> byte list" where
  "put32s xs = concat (map le32 xs)"

fun get32s :: "nat \<Rightarrow> byte list \<Rightarrow> nat list" where
  "get32s 0 bs = []"
| "get32s (Suc k) bs = le_nat (take 4 bs) # get32s k (drop 4 bs)"

lemma put32s_simps [simp]:
  "put32s [] = []"
  "put32s (x # xs) = le32 x @ put32s xs"
  by (simp_all add: put32s_def)

lemma put32s_append [simp]: "put32s (xs @ ys) = put32s xs @ put32s ys"
  by (simp add: put32s_def)

lemma length_put32s [simp]: "length (put32s xs) = 4 * length xs"
  by (induction xs) auto

lemma length_get32s [simp]: "length (get32s k bs) = k"
  by (induction k arbitrary: bs) auto

lemma get32s_put32s_append [wire_simps]:
  "get32s (length xs) (put32s xs @ r) = map (\<lambda>x. x mod 2 ^ 32) xs"
  by (induction xs) (auto simp: le_nat_le_bytes)

lemma get32s_put32s [wire_simps]: "get32s (length xs) (put32s xs) = map (\<lambda>x. x mod 2 ^ 32) xs"
  using get32s_put32s_append [of xs "[]"] by simp

lemma get32s_put32s_id:
  assumes "\<forall>x\<in>set xs. x < 2 ^ 32" and "n = length xs"
  shows "get32s n (put32s xs @ r) = xs"
  using assms by (simp add: get32s_put32s_append map_idI)

lemma get32s_bound: "x \<in> set (get32s k bs) \<Longrightarrow> 4 * k \<le> length bs \<Longrightarrow> x < 2 ^ 32"
proof (induction k arbitrary: bs)
  case 0
  then show ?case by simp
next
  case (Suc k)
  have "le_nat (take 4 bs) < 2 ^ 32"
    using Suc.prems(2) by (intro le_nat_4) simp
  with Suc show ?case by auto
qed

section \<open>FNV-1a\<close>

text \<open>
  The 64-bit hash of the daemons (pipeline cache, output fingerprint). The start value is the one in
  the code.
\<close>

definition fnv1a :: "byte list \<Rightarrow> u64" where
  "fnv1a bs = fold (\<lambda>b h. (h XOR ucast b) * 1099511628211) bs 1469598103934665603"

section \<open>Loops that stop at the first failure\<close>

text \<open>
  \<open>for(i..) if(!(r[i]=f(x[i]))){ ok=0; break; }\<close> over a state: the results if every call
  succeeded, else \<open>None\<close>, with the state the calls made so far have left.
\<close>

fun traverse :: "('q \<Rightarrow> 's \<Rightarrow> 'r option \<times> 's) \<Rightarrow> 'q list \<Rightarrow> 's \<Rightarrow> 'r list option \<times> 's" where
  "traverse f [] s = (Some [], s)"
| "traverse f (x # xs) s =
     (case f x s of
        (None, s1) \<Rightarrow> (None, s1)
      | (Some r, s1) \<Rightarrow>
          (case traverse f xs s1 of (None, s2) \<Rightarrow> (None, s2) | (Some rs, s2) \<Rightarrow> (Some (r # rs), s2)))"

lemma traverse_length: "traverse f xs s = (Some rs, s') \<Longrightarrow> length rs = length xs"
  by (induction xs arbitrary: s rs) (auto split: prod.splits option.splits)

lemma traverse_invariant:
  assumes "\<And>x s r s'. x \<in> set xs \<Longrightarrow> f x s = (r, s') \<Longrightarrow> P s \<Longrightarrow> P s'"
    and "traverse f xs s = (rs, s')" and "P s"
  shows "P s'"
  using assms
proof (induction xs arbitrary: s rs)
  case Nil
  then show ?case by simp
next
  case (Cons x xs)
  obtain r s1 where r: "f x s = (r, s1)" by (cases "f x s")
  have P1: "P s1" using Cons.prems(1) [OF _ r] Cons.prems(3) by simp
  show ?case
  proof (cases r)
    case None
    with r P1 Cons.prems(2) show ?thesis by simp
  next
    case (Some y)
    then obtain rs' where "traverse f xs s1 = (rs', s')"
      using r Cons.prems(2) by (auto split: prod.splits option.splits)
    then show ?thesis using Cons.IH [of s1 rs'] Cons.prems(1) P1 by auto
  qed
qed

section \<open>Slot tables\<close>

text \<open>
  A C array \<open>T h[N]\<close> whose entries carry a \<open>used\<close> flag is a list of options of length \<open>N\<close>:
  \<open>None\<close> is an entry with \<open>used == 0\<close> (its other fields are never read). \<open>free_slot\<close> is the loop
  \<open>for(k=0;k<N;k++) if(!h[k].used){slot=k;break;}\<close>, \<open>slot_get\<close> the test
  \<open>k<N && h[k].used\<close> with the entry read.
\<close>

fun free_slot :: "'a option list \<Rightarrow> nat option" where
  "free_slot [] = None"
| "free_slot (None # t) = Some 0"
| "free_slot (Some x # t) = map_option Suc (free_slot t)"

definition slot_get :: "'a option list \<Rightarrow> nat \<Rightarrow> 'a option" where
  "slot_get t k = (if k < length t then t ! k else None)"

definition slot_clear :: "'a option list \<Rightarrow> nat \<Rightarrow> 'a option list" where
  "slot_clear t k = t[k := None]"

fun slot_live :: "'a option list \<Rightarrow> nat" where
  "slot_live [] = 0"
| "slot_live (None # t) = slot_live t"
| "slot_live (Some x # t) = Suc (slot_live t)"

lemma free_slot_SomeD:
  "free_slot t = Some k \<Longrightarrow> k < length t \<and> t ! k = None \<and> (\<forall>j<k. t ! j \<noteq> None)"
proof (induction t arbitrary: k rule: free_slot.induct)
  case (3 x t)
  then obtain j where j: "free_slot t = Some j" "k = Suc j" by auto
  with 3 show ?case by (auto simp: less_Suc_eq_0_disj)
qed auto

lemma free_slot_None_iff: "free_slot t = None \<longleftrightarrow> None \<notin> set t"
  by (induction t rule: free_slot.induct) auto

lemma slot_live_le: "slot_live t \<le> length t"
  by (induction t rule: slot_live.induct) auto

lemma free_slot_exists: "slot_live t < length t \<Longrightarrow> \<exists>k. free_slot t = Some k"
  by (induction t rule: slot_live.induct) auto

lemma free_slot_full: "free_slot t = None \<Longrightarrow> slot_live t = length t"
  by (induction t rule: slot_live.induct) auto

lemma slot_live_alloc: "free_slot t = Some k \<Longrightarrow> slot_live (t[k := Some x]) = Suc (slot_live t)"
  by (induction t arbitrary: k rule: slot_live.induct) auto

lemma slot_get_replicate [table_simps]: "slot_get (replicate n None) k = None"
  by (simp add: slot_get_def)

lemma slot_get_update [table_simps]:
  "slot_get (t[k := x]) j = (if j = k \<and> k < length t then x else slot_get t j)"
  by (auto simp: slot_get_def)

lemma slot_get_clear [table_simps]:
  "slot_get (slot_clear t k) j = (if j = k then None else slot_get t j)"
  by (auto simp: slot_get_def slot_clear_def)

lemma length_slot_clear [table_simps, simp]: "length (slot_clear t k) = length t"
  by (simp add: slot_clear_def)

lemma slot_get_SomeD: "slot_get t k = Some x \<Longrightarrow> k < length t \<and> t ! k = Some x"
  by (auto simp: slot_get_def split: if_splits)

text \<open>
  What the entries of a table own, as a multiset: \<open>slot_sum f t\<close> adds up \<open>f x\<close> over the used
  entries. Allocation adds the new entry's share, clearing takes it away.
\<close>

fun slot_sum :: "('a \<Rightarrow> 'b multiset) \<Rightarrow> 'a option list \<Rightarrow> 'b multiset" where
  "slot_sum f [] = {#}"
| "slot_sum f (None # t) = slot_sum f t"
| "slot_sum f (Some x # t) = f x + slot_sum f t"

lemma slot_sum_replicate [table_simps]: "slot_sum f (replicate n None) = {#}"
  by (induction n) auto

lemma slot_sum_update:
  "k < length t \<Longrightarrow> slot_sum f (t[k := y]) + (case t ! k of None \<Rightarrow> {#} | Some x \<Rightarrow> f x) =
     slot_sum f t + (case y of None \<Rightarrow> {#} | Some x \<Rightarrow> f x)"
proof (induction t arbitrary: k)
  case Nil
  then show ?case by simp
next
  case (Cons z t)
  then show ?case
    by (cases k; cases z) (auto split: option.splits simp: ac_simps)
qed

lemma slot_sum_alloc:
  assumes "free_slot t = Some k"
  shows "slot_sum f (t[k := Some x]) = slot_sum f t + f x"
  using free_slot_SomeD [OF assms] slot_sum_update [of k t f "Some x"] by simp

lemma slot_sum_clear:
  assumes "slot_get t k = Some x"
  shows "slot_sum f t = slot_sum f (slot_clear t k) + f x"
  using slot_get_SomeD [OF assms] slot_sum_update [of k t f None] by (simp add: slot_clear_def)

lemma free_slot_get: "free_slot t = Some k \<Longrightarrow> slot_get t k = None"
  by (auto simp: slot_get_def dest: free_slot_SomeD)

lemma slot_sum_clear_unused: "slot_get t k = None \<Longrightarrow> slot_clear t k = t"
  by (auto simp: slot_get_def slot_clear_def list_update_same_conv list_update_beyond
      split: if_splits)

section \<open>Memory and strings\<close>

text \<open>A memory gets the given bytes; what lies behind them stays.\<close>

definition over :: "byte list \<Rightarrow> byte list \<Rightarrow> byte list" where
  "over new old = new @ drop (length new) old"

text \<open>The bytes of a C string literal, and a C string in a character array: up to the first NUL.\<close>

definition str :: "string \<Rightarrow> byte list" where
  "str s = map of_char s"

definition cstr :: "byte list \<Rightarrow> byte list" where
  "cstr bs = takeWhile (\<lambda>b. b \<noteq> 0) bs"

section \<open>Handle tables as an interface\<close>

text \<open>
  Every daemon hands out small integers for buffers, shaders, models or jobs. The interface below
  is what the protocol handlers rely on; it is interpreted for each table of the code. The derived
  facts (a fresh handle is unused before, resolvable after, and disturbs no other handle) are the
  ones the session proofs use.
\<close>

locale handle_table =
  fixes alloc :: "'t \<Rightarrow> 'v \<Rightarrow> (nat \<times> 't) option"
    and lookup :: "'t \<Rightarrow> nat \<Rightarrow> 'v option"
    and release :: "'t \<Rightarrow> nat \<Rightarrow> 't"
    and capacity :: "'t \<Rightarrow> nat"
  assumes alloc_lookup: "alloc t v = Some (k, t') \<Longrightarrow>
      lookup t' j = (if j = k then Some v else lookup t j)"
    and alloc_fresh: "alloc t v = Some (k, t') \<Longrightarrow> lookup t k = None \<and> k < capacity t"
    and alloc_capacity: "alloc t v = Some (k, t') \<Longrightarrow> capacity t' = capacity t"
    and release_lookup: "lookup (release t k) j = (if j = k then None else lookup t j)"
    and release_capacity: "capacity (release t k) = capacity t"
    and lookup_bound: "lookup t k = Some v \<Longrightarrow> k < capacity t"
    and alloc_total: "\<exists>k<capacity t. lookup t k = None \<Longrightarrow> alloc t v \<noteq> None"
begin

lemma alloc_keeps: "alloc t v = Some (k, t') \<Longrightarrow> lookup t j = Some u \<Longrightarrow> lookup t' j = Some u"
  using alloc_fresh [of t v k t'] alloc_lookup [of t v k t' j] by auto

lemma alloc_release: "alloc t v = Some (k, t') \<Longrightarrow> lookup (release t' k) j = lookup t j"
  using alloc_fresh [of t v k t'] by (auto simp: release_lookup alloc_lookup)

lemma alloc_distinct:
  "alloc t v = Some (k, t') \<Longrightarrow> alloc t' u = Some (k', t'') \<Longrightarrow> k \<noteq> k'"
  using alloc_fresh [of t' u k' t''] alloc_lookup [of t v k t' k'] by auto

lemma release_alloc: "lookup t k = Some v \<Longrightarrow> alloc (release t k) u \<noteq> None"
  using lookup_bound [of t k v] by (intro alloc_total) (auto simp: release_lookup release_capacity)

lemma release_idem: "lookup (release (release t k) k) j = lookup (release t k) j"
  by (simp add: release_lookup)

end

definition slot_alloc :: "'a option list \<Rightarrow> 'a \<Rightarrow> (nat \<times> 'a option list) option" where
  "slot_alloc t x = map_option (\<lambda>k. (k, t[k := Some x])) (free_slot t)"

interpretation slots: handle_table slot_alloc slot_get slot_clear length
proof unfold_locales
  show "\<exists>k<length t. slot_get t k = None \<Longrightarrow> slot_alloc t v \<noteq> None" for t :: "'a option list" and v
    by (auto simp: slot_alloc_def slot_get_def free_slot_None_iff in_set_conv_nth)
qed (auto simp: slot_alloc_def slot_get_update slot_get_clear free_slot_get
      dest: free_slot_SomeD slot_get_SomeD)

end
