(* ===== verification/Transport.thy ===== *)
theory Transport
  imports Barra_Prelude
begin

text \<open>
  The byte transport under every bridge. First the read and write loops of the client
  (\<open>rn\<close>, \<open>wn\<close> in src/src/barra/barra.c) and of the daemons (\<open>read_full\<close>, \<open>write_full\<close>), run
  against an arbitrary schedule of partial transfers, and the proof that a loop that returns
  delivers exactly the requested prefix of the stream whatever the chunking. Then the two ends of
  a connection as the protocol handlers see them: a queue of sent messages with the descriptors
  attached to them (SCM_RIGHTS), the table of open descriptors of the process, and the exact
  \<open>recvmsg\<close> calls of the daemons.
\<close>

section \<open>Read and write loops\<close>

text \<open>
  What one \<open>read\<close> or \<open>write\<close> call may do: move \<open>Suc k\<close> bytes (fewer at the end of the stream or
  of the request), be interrupted by a signal, or fail. An empty stream reads as end of file.
\<close>

datatype ioev = Chunk nat | Intr | Fail

datatype 'a iores = Done 'a | IoErr | Blocked

fun map_done :: "('a \<Rightarrow> 'b) \<Rightarrow> 'a iores \<times> 's \<Rightarrow> 'b iores \<times> 's" where
  "map_done f (Done x, s) = (Done (f x), s)"
| "map_done f (IoErr, s) = (IoErr, s)"
| "map_done f (Blocked, s) = (Blocked, s)"

text \<open>
  \<open>rn(fd,p,n)\<close> of barra.c: retries on \<open>EINTR\<close>; \<open>Blocked\<close> when the schedule ends before the
  request is satisfied (the call has not returned yet).
\<close>

fun rn :: "nat \<Rightarrow> ioev list \<Rightarrow> byte list \<Rightarrow> byte list iores \<times> byte list" where
  "rn n [] s = (if n = 0 then Done [] else Blocked, s)"
| "rn n (ev # evs) s =
     (if n = 0 then (Done [], s)
      else (case ev of
          Intr \<Rightarrow> rn n evs s
        | Fail \<Rightarrow> (IoErr, s)
        | Chunk k \<Rightarrow>
            if s = [] then (IoErr, s)
            else (let m = min (Suc k) (min n (length s)) in
                  map_done (\<lambda>r. take m s @ r) (rn (n - m) evs (drop m s)))))"

text \<open>\<open>read_full\<close> of the daemons: any result \<open>r <= 0\<close>, an interruption included, is an error.\<close>

fun read_full :: "nat \<Rightarrow> ioev list \<Rightarrow> byte list \<Rightarrow> byte list iores \<times> byte list" where
  "read_full n [] s = (if n = 0 then Done [] else Blocked, s)"
| "read_full n (ev # evs) s =
     (if n = 0 then (Done [], s)
      else (case ev of
          Intr \<Rightarrow> (IoErr, s)
        | Fail \<Rightarrow> (IoErr, s)
        | Chunk k \<Rightarrow>
            if s = [] then (IoErr, s)
            else (let m = min (Suc k) (min n (length s)) in
                  map_done (\<lambda>r. take m s @ r) (read_full (n - m) evs (drop m s)))))"

text \<open>\<open>wn(fd,p,n)\<close> of barra.c and \<open>write_full\<close> of the daemons: the second component is what the
  peer has received.\<close>

fun wn :: "byte list \<Rightarrow> ioev list \<Rightarrow> byte list \<Rightarrow> unit iores \<times> byte list" where
  "wn bs [] out = (if bs = [] then Done () else Blocked, out)"
| "wn bs (ev # evs) out =
     (if bs = [] then (Done (), out)
      else (case ev of
          Intr \<Rightarrow> wn bs evs out
        | Fail \<Rightarrow> (IoErr, out)
        | Chunk k \<Rightarrow> (let m = min (Suc k) (length bs) in wn (drop m bs) evs (out @ take m bs))))"

fun write_full :: "byte list \<Rightarrow> ioev list \<Rightarrow> byte list \<Rightarrow> unit iores \<times> byte list" where
  "write_full bs [] out = (if bs = [] then Done () else Blocked, out)"
| "write_full bs (ev # evs) out =
     (if bs = [] then (Done (), out)
      else (case ev of
          Intr \<Rightarrow> (IoErr, out)
        | Fail \<Rightarrow> (IoErr, out)
        | Chunk k \<Rightarrow>
            (let m = min (Suc k) (length bs) in write_full (drop m bs) evs (out @ take m bs))))"

lemma map_done_Done:
  "map_done f p = (Done y, s) \<longleftrightarrow> (\<exists>x. p = (Done x, s) \<and> y = f x)"
  by (cases "(f, p)" rule: map_done.cases) auto

lemma take_drop_min:
  assumes "m = min (Suc k) (min n (length s))"
  shows "take m s @ take (n - m) (drop m s) = take n s" and "drop (n - m) (drop m s) = drop n s"
proof -
  have m: "m + (n - m) = n" using assms by simp
  show "take m s @ take (n - m) (drop m s) = take n s" using m by (metis take_add)
  show "drop (n - m) (drop m s) = drop n s" using m by (metis drop_drop add.commute)
qed

lemma rn_sound:
  "rn n evs s = (Done bs, s') \<Longrightarrow> n \<le> length s \<and> bs = take n s \<and> s' = drop n s"
proof (induction evs arbitrary: n s bs)
  case Nil
  then show ?case by (auto split: if_splits)
next
  case (Cons ev evs)
  show ?case
  proof (cases "n = 0 \<or> ev = Intr \<or> ev = Fail")
    case True
    with Cons show ?thesis by (auto split: if_splits)
  next
    case False
    then obtain k where ev: "ev = Chunk k" and n: "n \<noteq> 0" by (cases ev) auto
    define m where m: "m = min (Suc k) (min n (length s))"
    from Cons.prems ev n have s: "s \<noteq> []" by (auto split: if_splits)
    with Cons.prems ev n obtain r where r: "rn (n - m) evs (drop m s) = (Done r, s')"
      and bs: "bs = take m s @ r" by (auto simp: Let_def m [symmetric] map_done_Done)
    from Cons.IH [OF r] show ?thesis using take_drop_min [OF m] bs m by (auto simp: min_def split: if_splits)
  qed
qed

lemma rn_complete:
  "n \<le> length s \<Longrightarrow> Fail \<notin> set evs \<Longrightarrow> n \<le> length (filter (\<lambda>e. e \<noteq> Intr) evs) \<Longrightarrow>
   rn n evs s = (Done (take n s), drop n s)"
proof (induction evs arbitrary: n s)
  case Nil
  then show ?case by simp
next
  case (Cons ev evs)
  show ?case
  proof (cases "n = 0 \<or> ev = Intr")
    case True
    with Cons show ?thesis by auto
  next
    case False
    then obtain k where ev: "ev = Chunk k" and n: "n \<noteq> 0" using Cons.prems by (cases ev) auto
    define m where m: "m = min (Suc k) (min n (length s))"
    have s: "s \<noteq> []" and m0: "0 < m" using Cons.prems n by (auto simp: m)
    have "rn (n - m) evs (drop m s) = (Done (take (n - m) (drop m s)), drop (n - m) (drop m s))"
      using Cons.prems ev m0 by (intro Cons.IH) auto
    then show ?thesis using n ev s take_drop_min [OF m] by (simp add: Let_def m [symmetric])
  qed
qed

lemma read_full_is_rn: "Intr \<notin> set evs \<Longrightarrow> read_full n evs s = rn n evs s"
  by (induction evs arbitrary: n s) (auto simp: Let_def split: ioev.splits)

lemma read_full_Done_rn: "read_full n evs s = (Done bs, s') \<Longrightarrow> rn n evs s = (Done bs, s')"
  by (induction evs arbitrary: n s bs)
    (fastforce simp: Let_def map_done_Done split: ioev.splits if_splits)+

lemma read_full_interrupted: "0 < n \<Longrightarrow> read_full n (Intr # evs) s = (IoErr, s)"
  by simp

lemma wn_sound: "wn bs evs out = (Done (), out') \<Longrightarrow> out' = out @ bs"
  by (induction evs arbitrary: bs out) (fastforce simp: Let_def split: ioev.splits if_splits)+

lemma wn_prefix: "\<exists>k. snd (wn bs evs out) = out @ take k bs"
proof (induction evs arbitrary: bs out)
  case Nil
  show ?case by (intro exI [of _ 0]) simp
next
  case (Cons ev evs)
  show ?case
  proof (cases "bs = [] \<or> ev = Fail \<or> ev = Intr")
    case True
    then show ?thesis using Cons.IH [of bs out] by (auto intro: exI [of _ 0])
  next
    case False
    then obtain k where ev: "ev = Chunk k" by (cases ev) auto
    define m where m: "m = min (Suc k) (length bs)"
    obtain j where "snd (wn (drop m bs) evs (out @ take m bs)) = (out @ take m bs) @ take j (drop m bs)"
      using Cons.IH by blast
    then have "snd (wn bs (ev # evs) out) = out @ take (m + j) bs"
      using False ev by (simp add: Let_def m [symmetric] take_add)
    then show ?thesis by blast
  qed
qed

lemma wn_complete:
  "Fail \<notin> set evs \<Longrightarrow> length bs \<le> length (filter (\<lambda>e. e \<noteq> Intr) evs) \<Longrightarrow>
   wn bs evs out = (Done (), out @ bs)"
  by (induction evs arbitrary: bs out) (auto simp: Let_def split: ioev.splits)

lemma write_full_Done_wn: "write_full bs evs out = (Done (), out') \<Longrightarrow> wn bs evs out = (Done (), out')"
  by (induction evs arbitrary: bs out) (auto simp: Let_def split: ioev.splits if_splits)

end
