(* ===== verification/Sys.thy ===== *)
theory Sys
  imports Transport
begin

text \<open>
  The process a daemon runs in: the open descriptors, the objects created at the vendor driver
  (Vulkan, Darwinn, GXP: parameters of the model, here only what a call may answer), and the
  accepted connection. Driver and descriptor tables are multisets, so that "what a function
  acquires, it returns" is an equation between multisets; a release of something not held sets
  \<open>w_bad\<close> (double free, double close).
\<close>

section \<open>Descriptors and driver objects\<close>

text \<open>
  A descriptor is its number with the open file (dma-buf) behind it; numbers are never reused in
  the model, so a second close of the same descriptor is visible. Object handles of the drivers
  are non-zero. The answer of the \<open>k\<close>-th fallible call of the process is \<open>ok k\<close>, an arbitrary
  predicate: every theorem holds for every pattern of driver failures.
\<close>

type_synonym fd = "nat \<times> nat"

record world =
  w_tick :: nat
  w_live :: "nat multiset"
  w_fds :: "fd multiset"
  w_bad :: bool

definition ext_try :: "(nat \<Rightarrow> bool) \<Rightarrow> 'a world_scheme \<Rightarrow> bool \<times> 'a world_scheme" where
  "ext_try ok w = (ok (w_tick w), w\<lparr>w_tick := Suc (w_tick w)\<rparr>)"

definition ext_new :: "(nat \<Rightarrow> bool) \<Rightarrow> 'a world_scheme \<Rightarrow> nat option \<times> 'a world_scheme" where
  "ext_new ok w =
     (if ok (w_tick w)
      then (Some (Suc (w_tick w)),
            w\<lparr>w_tick := Suc (w_tick w), w_live := add_mset (Suc (w_tick w)) (w_live w)\<rparr>)
      else (None, w\<lparr>w_tick := Suc (w_tick w)\<rparr>))"

definition ext_free :: "nat \<Rightarrow> 'a world_scheme \<Rightarrow> 'a world_scheme" where
  "ext_free x w =
     (if x \<in># w_live w then w\<lparr>w_live := w_live w - {#x#}\<rparr> else w\<lparr>w_bad := True\<rparr>)"

definition fd_dup :: "(nat \<Rightarrow> bool) \<Rightarrow> fd \<Rightarrow> 'a world_scheme \<Rightarrow> fd option \<times> 'a world_scheme" where
  "fd_dup ok f w =
     (if ok (w_tick w)
      then (Some (Suc (w_tick w), snd f),
            w\<lparr>w_tick := Suc (w_tick w), w_fds := add_mset (Suc (w_tick w), snd f) (w_fds w)\<rparr>)
      else (None, w\<lparr>w_tick := Suc (w_tick w)\<rparr>))"

definition close_fd :: "fd \<Rightarrow> 'a world_scheme \<Rightarrow> 'a world_scheme" where
  "close_fd f w =
     (if f \<in># w_fds w then w\<lparr>w_fds := w_fds w - {#f#}\<rparr> else w\<lparr>w_bad := True\<rparr>)"

text \<open>A successful import hands the duplicate to the driver: the process no longer owns it.\<close>

definition fd_give :: "fd \<Rightarrow> 'a world_scheme \<Rightarrow> 'a world_scheme" where
  "fd_give = close_fd"

fun close_all :: "fd list \<Rightarrow> 'a world_scheme \<Rightarrow> 'a world_scheme" where
  "close_all [] w = w"
| "close_all (f # fs) w = close_all fs (close_fd f w)"

fun install_fds :: "nat list \<Rightarrow> 'a world_scheme \<Rightarrow> fd list \<times> 'a world_scheme" where
  "install_fds [] w = ([], w)"
| "install_fds (d # ds) w =
     (let f = (Suc (w_tick w), d);
          (fs, w') = install_fds ds
            (w\<lparr>w_tick := Suc (w_tick w), w_fds := add_mset f (w_fds w)\<rparr>)
      in (f # fs, w'))"

text \<open>
  The accounting lemmas: what each call adds to or takes from the two multisets, and that
  \<open>w_bad\<close> stays as it was when only held things are released.
\<close>

named_theorems acct_simps

lemma ext_new_acct:
  "ext_new ok w = (r, w') \<Longrightarrow>
     w_live w' = w_live w + (case r of None \<Rightarrow> {#} | Some x \<Rightarrow> {#x#}) \<and>
     w_fds w' = w_fds w \<and> w_bad w' = w_bad w \<and> world.more w' = world.more w"
  by (auto simp: ext_new_def split: if_splits)

lemma ext_try_acct:
  "ext_try ok w = (r, w') \<Longrightarrow>
     w_live w' = w_live w \<and> w_fds w' = w_fds w \<and> w_bad w' = w_bad w \<and>
     world.more w' = world.more w"
  by (auto simp: ext_try_def)

lemma fd_dup_acct:
  "fd_dup ok f w = (r, w') \<Longrightarrow>
     w_live w' = w_live w \<and> w_fds w' = w_fds w + (case r of None \<Rightarrow> {#} | Some g \<Rightarrow> {#g#}) \<and>
     w_bad w' = w_bad w \<and> world.more w' = world.more w"
  by (auto simp: fd_dup_def split: if_splits)

lemma ext_free_acct [acct_simps]:
  "x \<in># w_live w \<Longrightarrow> w_live (ext_free x w) = w_live w - {#x#}"
  "w_fds (ext_free x w) = w_fds w"
  "x \<in># w_live w \<Longrightarrow> w_bad (ext_free x w) = w_bad w"
  "world.more (ext_free x w) = world.more w"
  by (auto simp: ext_free_def)

lemma close_fd_acct [acct_simps]:
  "w_live (close_fd f w) = w_live w"
  "f \<in># w_fds w \<Longrightarrow> w_fds (close_fd f w) = w_fds w - {#f#}"
  "f \<in># w_fds w \<Longrightarrow> w_bad (close_fd f w) = w_bad w"
  "world.more (close_fd f w) = world.more w"
  by (auto simp: close_fd_def)

lemma fd_give_acct [acct_simps]:
  "w_live (fd_give f w) = w_live w"
  "f \<in># w_fds w \<Longrightarrow> w_fds (fd_give f w) = w_fds w - {#f#}"
  "f \<in># w_fds w \<Longrightarrow> w_bad (fd_give f w) = w_bad w"
  "world.more (fd_give f w) = world.more w"
  by (auto simp: fd_give_def acct_simps)

lemma close_all_acct [acct_simps]:
  "w_live (close_all fs w) = w_live w"
  "mset fs \<subseteq># w_fds w \<Longrightarrow> w_fds (close_all fs w) = w_fds w - mset fs"
  "mset fs \<subseteq># w_fds w \<Longrightarrow> w_bad (close_all fs w) = w_bad w"
  "world.more (close_all fs w) = world.more w"
proof -
  show "w_live (close_all fs w) = w_live w"
    by (induction fs arbitrary: w) (auto simp: acct_simps)
  show "world.more (close_all fs w) = world.more w"
    by (induction fs arbitrary: w) (auto simp: acct_simps)
  have "w_fds (close_all fs w) = w_fds w - mset fs \<and> w_bad (close_all fs w) = w_bad w"
    if "mset fs \<subseteq># w_fds w"
    using that
  proof (induction fs arbitrary: w)
    case Nil
    then show ?case by simp
  next
    case (Cons f fs)
    then have f: "f \<in># w_fds w" and fs: "mset fs \<subseteq># w_fds (close_fd f w)"
      by (auto simp: acct_simps insert_subset_eq_iff)
    from Cons.IH [OF fs] f show ?case by (simp add: acct_simps)
  qed
  then show "mset fs \<subseteq># w_fds w \<Longrightarrow> w_fds (close_all fs w) = w_fds w - mset fs"
    and "mset fs \<subseteq># w_fds w \<Longrightarrow> w_bad (close_all fs w) = w_bad w" by blast+
qed

lemma install_fds_acct:
  "install_fds ds w = (fs, w') \<Longrightarrow>
     w_live w' = w_live w \<and> w_fds w' = w_fds w + mset fs \<and> w_bad w' = w_bad w \<and>
     world.more w' = world.more w \<and> map snd fs = ds \<and> length fs = length ds"
  by (induction ds arbitrary: w fs w') (fastforce simp: Let_def split: prod.splits)+

section \<open>Connections\<close>

text \<open>
  What the client has sent, message by message: the bytes of one \<open>write\<close> or \<open>sendmsg\<close> and the
  files attached to it. A connection also holds what the daemon has answered and how many bytes
  the peer will still take before it is gone (a write beyond that fails).
\<close>

type_synonym packet = "byte list \<times> nat list"

record conn =
  cq :: "packet list"
  co :: "byte list"
  croom :: nat

definition stream :: "packet list \<Rightarrow> byte list" where
  "stream ps = concat (map fst ps)"

lemma stream_simps [simp]:
  "stream [] = []" "stream (p # ps) = fst p @ stream ps" "stream (ps @ qs) = stream ps @ stream qs"
  by (simp_all add: stream_def)

text \<open>
  Plain \<open>read\<close> calls in a loop until \<open>n\<close> bytes are there (the loop is \<open>read_full\<close> of the theory
  Transport, whose result does not depend on the chunking). Descriptors attached to bytes that are
  fetched with \<open>read\<close> are discarded by the kernel.
\<close>

fun rd_bytes :: "nat \<Rightarrow> packet list \<Rightarrow> byte list \<times> packet list" where
  "rd_bytes 0 ps = ([], ps)"
| "rd_bytes (Suc n) [] = ([], [])"
| "rd_bytes (Suc n) ((d, f) # ps) =
     (if length d \<le> Suc n
      then (let (r, ps') = rd_bytes (Suc n - length d) ps in (d @ r, ps'))
      else (take (Suc n) d, (drop (Suc n) d, []) # ps))"

lemma rd_bytes_stream:
  "fst (rd_bytes n ps) = take n (stream ps) \<and> stream (snd (rd_bytes n ps)) = drop n (stream ps)"
  by (induction n ps rule: rd_bytes.induct) (auto simp: Let_def case_prod_beta)

definition rd :: "nat \<Rightarrow> conn \<Rightarrow> byte list option \<times> conn" where
  "rd n c = (let (bs, ps) = rd_bytes n (cq c)
             in (if length bs = n then Some bs else None, c\<lparr>cq := ps\<rparr>))"

definition wr :: "byte list \<Rightarrow> conn \<Rightarrow> bool \<times> conn" where
  "wr bs c =
     (if length bs \<le> croom c
      then (True, c\<lparr>co := co c @ bs, croom := croom c - length bs\<rparr>)
      else (False, c\<lparr>co := co c @ take (croom c) bs, croom := 0\<rparr>))"

text \<open>\<open>put bs c\<close>: a \<open>write_full\<close> whose result the code ignores.\<close>

definition put :: "byte list \<Rightarrow> conn \<Rightarrow> conn" where
  "put bs c = snd (wr bs c)"

definition cbytes :: "conn \<Rightarrow> nat" where
  "cbytes c = length (stream (cq c))"

lemma rd_Some: "rd n c = (Some bs, c') \<Longrightarrow>
    n \<le> cbytes c \<and> bs = take n (stream (cq c)) \<and> stream (cq c') = drop n (stream (cq c)) \<and>
    length bs = n \<and> co c' = co c \<and> croom c' = croom c"
  using rd_bytes_stream [of n "cq c"]
  by (auto simp: rd_def cbytes_def Let_def split: prod.splits if_splits)

lemma rd_None: "rd n c = (None, c') \<Longrightarrow> cbytes c < n \<and> cbytes c' = 0 \<and> co c' = co c"
  using rd_bytes_stream [of n "cq c"]
  by (auto simp: rd_def cbytes_def Let_def split: prod.splits if_splits)

lemma rd_cbytes: "rd n c = (r, c') \<Longrightarrow> cbytes c' \<le> cbytes c"
  by (cases r) (auto dest!: rd_Some rd_None simp: cbytes_def)

lemma rd_enough: "n \<le> cbytes c \<Longrightarrow> \<exists>c'. rd n c = (Some (take n (stream (cq c))), c')"
  using rd_bytes_stream [of n "cq c"] by (auto simp: rd_def cbytes_def Let_def case_prod_beta)

lemma put_cq [simp]: "cq (put bs c) = cq c"
  by (simp add: put_def wr_def)

lemma put_cbytes [simp]: "cbytes (put bs c) = cbytes c"
  by (simp add: cbytes_def)

lemma put_room: "length bs \<le> croom c \<Longrightarrow> co (put bs c) = co c @ bs \<and> croom (put bs c) = croom c - length bs"
  by (simp add: put_def wr_def)

lemma put_prefix: "\<exists>k. co (put bs c) = co c @ take k bs"
  by (auto simp: put_def wr_def intro: exI [of _ "length bs"])

lemma wr_cq: "wr bs c = (r, c') \<Longrightarrow> cq c' = cq c"
  by (auto simp: wr_def split: if_splits)

text \<open>
  A message queued whole is read whole, and the reads of one message do not look at the next.
\<close>

lemma rd_packet [wire_simps]:
  "rd n c = (Some d, c\<lparr>cq := ps\<rparr>)" if "cq c = (d, f) # ps" "length d = n" "0 < n"
  using that by (cases n) (auto simp: rd_def Let_def split: prod.splits)

lemma rd_packet_part [wire_simps]:
  "rd n c = (Some (take n d), c\<lparr>cq := (drop n d, []) # ps\<rparr>)"
  if "cq c = (d, f) # ps" "n < length d" "0 < n"
  using that by (cases n) (auto simp: rd_def Let_def split: prod.splits)

section \<open>recvmsg with descriptors\<close>

text \<open>
  \<open>recvmsg(c,&msg,MSG_WAITALL)\<close> for \<open>n\<close> bytes: descriptors attached to a message act as a barrier,
  so the call stops after the message they came with (unix(7)); a result shorter than \<open>n\<close> also
  means end of file. The kernel installs as many descriptors as the control buffer has room for
  (\<open>ctl\<close>) and drops the rest.
\<close>

fun recvmsg :: "nat \<Rightarrow> packet list \<Rightarrow> byte list \<times> nat list \<times> packet list" where
  "recvmsg 0 ps = ([], [], ps)"
| "recvmsg (Suc n) [] = ([], [], [])"
| "recvmsg (Suc n) ((d, f) # ps) =
     (if f = [] \<and> length d \<le> Suc n
      then (let (r, fs, ps') = recvmsg (Suc n - length d) ps in (d @ r, fs, ps'))
      else if length d \<le> Suc n then (d, f, ps)
      else (take (Suc n) d, f, (drop (Suc n) d, []) # ps))"

lemma recvmsg_stream:
  "recvmsg n ps = (bs, fs, ps') \<Longrightarrow>
     length bs \<le> n \<and> length bs \<le> length (stream ps) \<and> bs = take (length bs) (stream ps) \<and>
     stream ps' = drop (length bs) (stream ps)"
  by (induction n ps arbitrary: bs fs ps' rule: recvmsg.induct)
    (fastforce split: if_splits prod.splits)+

lemma recvmsg_whole [wire_simps]: "0 < n \<Longrightarrow> length d = n \<Longrightarrow> recvmsg n ((d, f) # ps) = (d, f, ps)"
  by (cases n) auto

lemma recvmsg_part [wire_simps]:
  "0 < n \<Longrightarrow> n < length d \<Longrightarrow> recvmsg n ((d, f) # ps) = (take n d, f, (drop n d, []) # ps)"
  by (cases n) auto

definition sys_recv ::
  "nat \<Rightarrow> nat \<Rightarrow> conn \<Rightarrow> 'a world_scheme \<Rightarrow> byte list \<times> fd list \<times> conn \<times> 'a world_scheme" where
  "sys_recv ctl n c w =
     (let (bs, ds, ps) = recvmsg n (cq c);
          (fs, w') = install_fds (take ctl ds) w
      in (bs, fs, c\<lparr>cq := ps\<rparr>, w'))"

lemma sys_recv_acct:
  assumes "sys_recv ctl n c w = (bs, fs, c', w')"
  shows "w_live w' = w_live w \<and> w_fds w' = w_fds w + mset fs \<and> w_bad w' = w_bad w \<and>
    world.more w' = world.more w \<and> length fs \<le> ctl \<and> cbytes c' = cbytes c - length bs \<and>
    length bs \<le> n \<and> length bs \<le> cbytes c \<and> co c' = co c \<and> croom c' = croom c \<and>
    bs = take (length bs) (stream (cq c))"
proof -
  obtain ds ps where r: "recvmsg n (cq c) = (bs, ds, ps)"
    and i: "install_fds (take ctl ds) w = (fs, w')" and c': "c' = c\<lparr>cq := ps\<rparr>"
    using assms by (auto simp: sys_recv_def Let_def split: prod.splits)
  from recvmsg_stream [OF r] install_fds_acct [OF i] c' show ?thesis
    by (auto simp: cbytes_def)
qed

text \<open>
  \<open>recv_with_fds\<close> of tpud and gxpd3 with room for \<open>ctl\<close> descriptors: on a short read or too many
  descriptors those already installed are closed.
\<close>

definition recv_fds ::
  "nat \<Rightarrow> nat \<Rightarrow> conn \<Rightarrow> 'a world_scheme \<Rightarrow> byte list option \<times> fd list \<times> conn \<times> 'a world_scheme" where
  "recv_fds ctl n c w =
     (case sys_recv ctl n c w of
        (bs, fs, c1, w1) \<Rightarrow>
          if fs \<noteq> [] then
            (if length bs \<noteq> n \<or> length fs > ctl then (None, [], c1, close_all fs w1)
             else (Some bs, fs, c1, w1))
          else if length bs \<noteq> n then (None, [], c1, w1)
          else (Some bs, [], c1, w1))"

lemma recv_fds_acct:
  assumes "recv_fds ctl n c w = (r, fs, c', w')"
  shows "w_live w' = w_live w \<and> w_fds w' = w_fds w + mset fs \<and> w_bad w' = w_bad w \<and>
    world.more w' = world.more w \<and> (r = None \<longrightarrow> fs = []) \<and>
    (\<forall>bs. r = Some bs \<longrightarrow> length bs = n \<and> cbytes c' = cbytes c - n \<and> n \<le> cbytes c \<and>
       bs = take n (stream (cq c))) \<and> cbytes c' \<le> cbytes c \<and> co c' = co c \<and> croom c' = croom c"
proof -
  obtain bs gs c1 w1 where r: "sys_recv ctl n c w = (bs, gs, c1, w1)" by (metis surj_pair)
  note A = sys_recv_acct [OF r]
  show ?thesis
    using assms A by (auto simp: recv_fds_def r acct_simps split: if_splits)
qed

section \<open>Where descriptors come from\<close>

text \<open>
  \<open>fd_msgs n ps\<close>: every message that carries descriptors has at least \<open>n\<close> bytes. A client that
  attaches descriptors only to whole command headers keeps this with \<open>n\<close> the header size, and then
  a header read that brings descriptors is never short.
\<close>

definition fd_msgs :: "nat \<Rightarrow> packet list \<Rightarrow> bool" where
  "fd_msgs n ps \<longleftrightarrow> (\<forall>(d, f)\<in>set ps. f \<noteq> [] \<longrightarrow> n \<le> length d)"

lemma fd_msgs_simps [simp]:
  "fd_msgs n []"
  "fd_msgs n ((d, f) # ps) \<longleftrightarrow> (f \<noteq> [] \<longrightarrow> n \<le> length d) \<and> fd_msgs n ps"
  "fd_msgs n (ps @ qs) \<longleftrightarrow> fd_msgs n ps \<and> fd_msgs n qs"
  by (auto simp: fd_msgs_def)

lemma rd_bytes_fd_msgs: "fd_msgs n ps \<Longrightarrow> fd_msgs n (snd (rd_bytes k ps))"
  by (induction k ps rule: rd_bytes.induct) (auto simp: Let_def case_prod_beta)

lemma rd_fd_msgs: "rd k c = (r, c') \<Longrightarrow> fd_msgs n (cq c) \<Longrightarrow> fd_msgs n (cq c')"
  using rd_bytes_fd_msgs [of n "cq c" k] by (auto simp: rd_def Let_def split: prod.splits)

lemma recvmsg_fd_msgs:
  "recvmsg k ps = (bs, fs, ps') \<Longrightarrow> fd_msgs n ps \<Longrightarrow> k \<le> n \<Longrightarrow>
     fd_msgs n ps' \<and> (fs \<noteq> [] \<longrightarrow> length bs = k)"
proof (induction ps arbitrary: k bs fs ps')
  case Nil
  then show ?case by (cases k) auto
next
  case (Cons p ps)
  obtain d f where p: "p = (d, f)" by (cases p)
  show ?case
  proof (cases k)
    case 0
    with Cons.prems show ?thesis by auto
  next
    case (Suc k')
    show ?thesis
    proof (cases "f = [] \<and> length d \<le> k")
      case True
      then obtain r where r: "recvmsg (k - length d) ps = (r, fs, ps')" and bs: "bs = d @ r"
        using Cons.prems(1) p Suc by (auto split: prod.splits)
      from Cons.IH [OF r] Cons.prems p bs True show ?thesis by auto
    next
      case False
      with Cons.prems p Suc show ?thesis by (auto split: if_splits)
    qed
  qed
qed

lemma sys_recv_fd_msgs:
  assumes "sys_recv ctl k c w = (bs, fs, c', w')" and "fd_msgs n (cq c)" and "k \<le> n"
  shows "fd_msgs n (cq c') \<and> (fs \<noteq> [] \<longrightarrow> length bs = k)"
proof -
  obtain ds ps where r: "recvmsg k (cq c) = (bs, ds, ps)"
    and i: "install_fds (take ctl ds) w = (fs, w')" and c': "c' = c\<lparr>cq := ps\<rparr>"
    using assms(1) by (auto simp: sys_recv_def Let_def split: prod.splits)
  have "fs \<noteq> [] \<longrightarrow> ds \<noteq> []" using install_fds_acct [OF i] by auto
  with recvmsg_fd_msgs [OF r assms(2,3)] c' show ?thesis by auto
qed

lemma rd_stream:
  assumes "stream (cq c) = a @ z" and "length a = n"
  shows "\<exists>c'. rd n c = (Some a, c') \<and> stream (cq c') = z \<and> co c' = co c \<and> croom c' = croom c"
proof -
  have "n \<le> cbytes c" using assms by (simp add: cbytes_def)
  then obtain c' where r: "rd n c = (Some (take n (stream (cq c))), c')" using rd_enough by blast
  from rd_Some [OF r] assms r show ?thesis by auto
qed

section \<open>Sessions\<close>

text \<open>
  Every session handler of the repository is the same loop: run the command of the current header,
  close the descriptors that came with it, fetch the next header. The interface is what the loop
  relies on: \<open>inv\<close> holds when a header is at hand, \<open>mid\<close> between two commands, \<open>last\<close> when there is
  no further header. The lemma is that such a loop ends in \<open>fin\<close>, from a state with \<open>last\<close>.
\<close>

locale session_loop =
  fixes step :: "'h \<Rightarrow> fd list \<Rightarrow> 's \<Rightarrow> 's"
    and next_cmd :: "'s \<Rightarrow> 'h option \<times> fd list \<times> 's"
    and fin :: "fd list \<Rightarrow> 's \<Rightarrow> 's"
    and loop :: "'h \<Rightarrow> fd list \<Rightarrow> 's \<Rightarrow> 's"
    and bytes :: "'s \<Rightarrow> nat"
    and inv :: "fd list \<Rightarrow> 's \<Rightarrow> bool"
    and mid :: "'s \<Rightarrow> bool"
    and last :: "fd list \<Rightarrow> 's \<Rightarrow> bool"
  assumes loop_eq: "loop hdr fds s =
      (case next_cmd (step hdr fds s) of
         (None, left, s1) \<Rightarrow> fin left s1
       | (Some hdr1, fds1, s1) \<Rightarrow> loop hdr1 fds1 s1)"
    and step_bytes: "bytes (step hdr fds s) \<le> bytes s"
    and next_bytes: "next_cmd s = (Some hdr, fds, s') \<Longrightarrow> bytes s' < bytes s"
    and step_inv: "inv fds s \<Longrightarrow> mid (step hdr fds s)"
    and next_inv: "mid s \<Longrightarrow> next_cmd s = (Some hdr, fds, s') \<Longrightarrow> inv fds s'"
    and next_last: "mid s \<Longrightarrow> next_cmd s = (None, left, s') \<Longrightarrow> last left s'"
begin

lemma loop_ends: "inv fds s \<Longrightarrow> \<exists>left s1. loop hdr fds s = fin left s1 \<and> last left s1"
proof (induction "bytes s" arbitrary: hdr fds s rule: less_induct)
  case less
  obtain r fds1 s1 where n: "next_cmd (step hdr fds s) = (r, fds1, s1)"
    by (cases "next_cmd (step hdr fds s)")
  have m: "mid (step hdr fds s)" using step_inv [OF less.prems] .
  show ?case
  proof (cases r)
    case None
    with n next_last [OF m] loop_eq [of hdr fds s] show ?thesis by auto
  next
    case (Some hdr1)
    with n next_bytes step_bytes [of hdr fds s] have "bytes s1 < bytes s" by fastforce
    moreover have "inv fds1 s1" using n Some next_inv [OF m] by simp
    ultimately show ?thesis using less.hyps [of s1 fds1 hdr1] Some n loop_eq [of hdr fds s] by simp
  qed
qed

end

end
