(* ===== verification/Pipeline_Cache.thy ===== *)
theory Pipeline_Cache
  imports Sys
begin

text \<open>
  The pipeline cache of the GPU daemons (\<open>get_pipe\<close> and \<open>fnv1a\<close> in src/src/hwbridge/gpud.c,
  gpud-zc.v1.c and gpud-zc.c): 16 entries keyed by hash, length and buffer count, filled on a miss,
  evicted round-robin, and in gpud-zc pinned for the duration of one dispatch.
\<close>

section \<open>Pipeline construction\<close>

record pcent =
  pe_hash :: u64
  pe_slen :: nat
  pe_nbuf :: nat
  pe_shader :: nat
  pe_dsl :: nat
  pe_pll :: nat
  pe_pipe :: nat

record pinent = pcent +
  pe_pin :: bool

record 'e pcache =
  pc_ents :: "'e option list"
  pc_next :: nat
  pc_hits :: nat
  pc_miss :: nat

definition PCACHE :: nat where "PCACHE = 16"

text \<open>
  Shader module, descriptor-set layout, pipeline layout and pipeline; a failing step destroys what
  the earlier ones made.
\<close>

definition make_pipe ::
  "(nat \<Rightarrow> bool) \<Rightarrow> 'a world_scheme \<Rightarrow> (nat \<times> nat \<times> nat \<times> nat) option \<times> 'a world_scheme" where
  "make_pipe ok w =
     (case ext_new ok w of
        (None, w1) \<Rightarrow> (None, w1)
      | (Some sh, w1) \<Rightarrow>
     (case ext_new ok w1 of
        (None, w2) \<Rightarrow> (None, ext_free sh w2)
      | (Some dsl, w2) \<Rightarrow>
     (case ext_new ok w2 of
        (None, w3) \<Rightarrow> (None, ext_free sh (ext_free dsl w3))
      | (Some pll, w3) \<Rightarrow>
     (case ext_new ok w3 of
        (None, w4) \<Rightarrow> (None, ext_free sh (ext_free dsl (ext_free pll w4)))
      | (Some pipe, w4) \<Rightarrow> (Some (sh, dsl, pll, pipe), w4)))))"

definition pent_objs :: "'e pcent_scheme \<Rightarrow> nat multiset" where
  "pent_objs e = {#pe_shader e, pe_dsl e, pe_pll e, pe_pipe e#}"

definition destroy_ent :: "'e pcent_scheme \<Rightarrow> 'a world_scheme \<Rightarrow> 'a world_scheme" where
  "destroy_ent e w =
     ext_free (pe_shader e) (ext_free (pe_dsl e) (ext_free (pe_pll e) (ext_free (pe_pipe e) w)))"

definition ent_match :: "u64 \<Rightarrow> nat \<Rightarrow> nat \<Rightarrow> 'e pcent_scheme option \<Rightarrow> bool" where
  "ent_match h slen nbuf x =
     (case x of None \<Rightarrow> False | Some e \<Rightarrow> pe_hash e = h \<and> pe_slen e = slen \<and> pe_nbuf e = nbuf)"

text \<open>First index below \<open>length t\<close> whose entry satisfies a test: the lookup and victim loops.\<close>

fun first_idx :: "('b \<Rightarrow> bool) \<Rightarrow> 'b list \<Rightarrow> nat option" where
  "first_idx P [] = None"
| "first_idx P (x # xs) = (if P x then Some 0 else map_option Suc (first_idx P xs))"

lemma first_idx_SomeD:
  "first_idx P xs = Some i \<Longrightarrow> i < length xs \<and> P (xs ! i) \<and> (\<forall>j<i. \<not> P (xs ! j))"
proof (induction xs arbitrary: i)
  case (Cons x xs)
  then show ?case by (auto simp: less_Suc_eq_0_disj split: if_splits)
qed simp

lemma first_idx_None: "first_idx P xs = None \<longleftrightarrow> (\<forall>x\<in>set xs. \<not> P x)"
  by (induction xs) auto

lemma make_pipe_acct:
  "make_pipe ok w = (r, w') \<Longrightarrow>
     w_live w' = w_live w + (case r of None \<Rightarrow> {#} | Some (a, b, c, d) \<Rightarrow> {#a, b, c, d#}) \<and>
     w_fds w' = w_fds w \<and> w_bad w' = w_bad w \<and> world.more w' = world.more w"
  by (auto simp: make_pipe_def acct_simps dest!: ext_new_acct split: prod.splits option.splits)

lemma make_pipe_total: "(\<forall>k. ok k) \<Longrightarrow> \<exists>x w'. make_pipe ok w = (Some x, w')"
  by (simp add: make_pipe_def ext_new_def)

lemma destroy_ent_acct:
  assumes "w_live w = L + pent_objs e"
  shows "w_live (destroy_ent e w) = L" and "w_fds (destroy_ent e w) = w_fds w"
    and "w_bad (destroy_ent e w) = w_bad w" and "world.more (destroy_ent e w) = world.more w"
  using assms by (auto simp: destroy_ent_def pent_objs_def acct_simps)

section \<open>gpud-zc.c: entries pinned during a dispatch\<close>

definition fill_ent ::
  "(nat \<Rightarrow> bool) \<Rightarrow> u64 \<Rightarrow> nat \<Rightarrow> nat \<Rightarrow> nat \<Rightarrow> pinent pcache \<Rightarrow> 'a world_scheme \<Rightarrow>
   nat option \<times> pinent pcache \<times> 'a world_scheme" where
  "fill_ent ok h slen nbuf idx pc w =
     (case make_pipe ok w of
        (None, w1) \<Rightarrow> (None, pc, w1)
      | (Some (sh, dsl, pll, pipe), w1) \<Rightarrow>
          (Some idx,
           pc\<lparr>pc_ents := (pc_ents pc)[idx := Some
             \<lparr>pe_hash = h, pe_slen = slen, pe_nbuf = nbuf, pe_shader = sh, pe_dsl = dsl,
              pe_pll = pll, pe_pipe = pipe, pe_pin = True\<rparr>]\<rparr>, w1))"

text \<open>
  The victim: the first slot from \<open>g_pc_next\<close> on, cyclically, whose entry is not pinned. It is only
  looked for when every slot is used.
\<close>

definition unpinned :: "pinent option \<Rightarrow> bool" where
  "unpinned x = (case x of None \<Rightarrow> True | Some e \<Rightarrow> \<not> pe_pin e)"

definition victim :: "pinent pcache \<Rightarrow> nat option" where
  "victim pc =
     map_option (\<lambda>t. (pc_next pc + t) mod PCACHE)
       (first_idx (\<lambda>t. unpinned (pc_ents pc ! ((pc_next pc + t) mod PCACHE))) [0..<PCACHE])"

definition pin_at :: "nat \<Rightarrow> pinent option list \<Rightarrow> pinent option list" where
  "pin_at i es = es[i := map_option (\<lambda>e. e\<lparr>pe_pin := True\<rparr>) (es ! i)]"

definition get_pipe ::
  "(nat \<Rightarrow> bool) \<Rightarrow> byte list \<Rightarrow> nat \<Rightarrow> pinent pcache \<Rightarrow> 'a world_scheme \<Rightarrow>
   nat option \<times> pinent pcache \<times> 'a world_scheme" where
  "get_pipe ok spirv nbuf pc w =
     (let h = fnv1a spirv; slen = length spirv in
      case first_idx (ent_match h slen nbuf) (pc_ents pc) of
        Some i \<Rightarrow> (Some i, pc\<lparr>pc_hits := Suc (pc_hits pc), pc_ents := pin_at i (pc_ents pc)\<rparr>, w)
      | None \<Rightarrow>
          (let pc1 = pc\<lparr>pc_miss := Suc (pc_miss pc)\<rparr> in
           case free_slot (pc_ents pc1) of
             Some idx \<Rightarrow> fill_ent ok h slen nbuf idx pc1 w
           | None \<Rightarrow>
               (case victim pc1 of
                  None \<Rightarrow> (None, pc1, w)
                | Some idx \<Rightarrow>
                    (let w1 = (case pc_ents pc1 ! idx of None \<Rightarrow> w | Some e \<Rightarrow> destroy_ent e w);
                         pc2 = pc1\<lparr>pc_next := Suc idx mod PCACHE,
                                   pc_ents := slot_clear (pc_ents pc1) idx\<rparr>
                     in fill_ent ok h slen nbuf idx pc2 w1))))"

definition unpin_all :: "pinent pcache \<Rightarrow> pinent pcache" where
  "unpin_all pc = pc\<lparr>pc_ents := map (map_option (\<lambda>e. e\<lparr>pe_pin := False\<rparr>)) (pc_ents pc)\<rparr>"

definition pcache_init :: "'e pcache" where
  "pcache_init = \<lparr>pc_ents = replicate PCACHE None, pc_next = 0, pc_hits = 0, pc_miss = 0\<rparr>"

section \<open>gpud.c and gpud-zc.v1.c: no pins\<close>

definition get_pipe_np ::
  "(nat \<Rightarrow> bool) \<Rightarrow> byte list \<Rightarrow> nat \<Rightarrow> pcent pcache \<Rightarrow> 'a world_scheme \<Rightarrow>
   nat option \<times> pcent pcache \<times> 'a world_scheme" where
  "get_pipe_np ok spirv nbuf pc w =
     (let h = fnv1a spirv; slen = length spirv;
          fill = (\<lambda>idx pc w. case make_pipe ok w of
               (None, w1) \<Rightarrow> (None, pc, w1)
             | (Some (sh, dsl, pll, pipe), w1) \<Rightarrow>
                 (Some idx, pc\<lparr>pc_ents := (pc_ents pc)[idx := Some
                    \<lparr>pe_hash = h, pe_slen = slen, pe_nbuf = nbuf, pe_shader = sh, pe_dsl = dsl,
                     pe_pll = pll, pe_pipe = pipe\<rparr>]\<rparr>, w1))
      in
      case first_idx (ent_match h slen nbuf) (pc_ents pc) of
        Some i \<Rightarrow> (Some i, pc\<lparr>pc_hits := Suc (pc_hits pc)\<rparr>, w)
      | None \<Rightarrow>
          (let pc1 = pc\<lparr>pc_miss := Suc (pc_miss pc)\<rparr> in
           case free_slot (pc_ents pc1) of
             Some idx \<Rightarrow> fill idx pc1 w
           | None \<Rightarrow>
               (let idx = pc_next pc1;
                    w1 = (case pc_ents pc1 ! idx of None \<Rightarrow> w | Some e \<Rightarrow> destroy_ent e w);
                    pc2 = pc1\<lparr>pc_next := Suc idx mod PCACHE,
                              pc_ents := slot_clear (pc_ents pc1) idx\<rparr>
                in fill idx pc2 w1)))"

section \<open>Invariant\<close>

text \<open>
  16 entries, the round-robin pointer inside them, and no two entries with one key: a lookup has at
  most one answer.
\<close>

definition ent_key :: "'e pcent_scheme \<Rightarrow> u64 \<times> nat \<times> nat" where
  "ent_key e = (pe_hash e, pe_slen e, pe_nbuf e)"

definition keys_inj :: "'e pcent_scheme option list \<Rightarrow> bool" where
  "keys_inj es \<longleftrightarrow>
     (\<forall>i j e f. slot_get es i = Some e \<longrightarrow> slot_get es j = Some f \<longrightarrow> ent_key e = ent_key f \<longrightarrow> i = j)"

definition pcache_wf :: "'e pcent_scheme pcache \<Rightarrow> bool" where
  "pcache_wf pc \<longleftrightarrow> length (pc_ents pc) = PCACHE \<and> pc_next pc < PCACHE \<and> keys_inj (pc_ents pc)"

definition holds_key :: "'e pcent_scheme pcache \<Rightarrow> nat \<Rightarrow> byte list \<times> nat \<Rightarrow> bool" where
  "holds_key pc i q =
     (i < length (pc_ents pc) \<and> ent_match (fnv1a (fst q)) (length (fst q)) (snd q) (pc_ents pc ! i))"

definition pinned_at :: "pinent pcache \<Rightarrow> nat \<Rightarrow> bool" where
  "pinned_at pc i = (case slot_get (pc_ents pc) i of None \<Rightarrow> False | Some e \<Rightarrow> pe_pin e)"

lemma ent_match_Some [simp]:
  "ent_match h s n (Some e) \<longleftrightarrow> pe_hash e = h \<and> pe_slen e = s \<and> pe_nbuf e = n"
  "\<not> ent_match h s n None"
  by (auto simp: ent_match_def)

lemma victim_SomeD:
  assumes "victim pc = Some i"
  shows "i < PCACHE" and "unpinned (pc_ents pc ! i)"
  using assms first_idx_SomeD by (fastforce simp: victim_def PCACHE_def)+

lemma victim_None:
  assumes "victim pc = None" and "i < PCACHE"
  shows "\<not> unpinned (pc_ents pc ! i)"
proof -
  define t where "t = (i + (PCACHE - pc_next pc mod PCACHE)) mod PCACHE"
  have "t < PCACHE" by (simp add: t_def PCACHE_def)
  moreover have "(pc_next pc + t) mod PCACHE = i"
  proof -
    have "(pc_next pc + t) mod PCACHE =
        (pc_next pc mod PCACHE + (i + (PCACHE - pc_next pc mod PCACHE))) mod PCACHE"
      by (simp add: t_def mod_simps)
    also have "pc_next pc mod PCACHE + (i + (PCACHE - pc_next pc mod PCACHE)) = i + PCACHE"
      using mod_less_divisor [of PCACHE "pc_next pc"] by (simp add: PCACHE_def)
    finally show ?thesis using assms(2) by simp
  qed
  ultimately show ?thesis
    using assms(1) by (auto simp: victim_def first_idx_None)
qed

lemma pcache_wf_init: "pcache_wf pcache_init"
  by (simp add: pcache_wf_def pcache_init_def PCACHE_def keys_inj_def slot_get_replicate)

lemma keys_inj_clear: "keys_inj es \<Longrightarrow> keys_inj (slot_clear es i)"
  unfolding keys_inj_def slot_get_clear by (metis option.distinct(1))

lemma keys_inj_add:
  assumes "keys_inj es" and "\<forall>x\<in>set es. \<not> ent_match (pe_hash e) (pe_slen e) (pe_nbuf e) x"
  shows "keys_inj (es[i := Some e])"
proof -
  have "ent_key f \<noteq> ent_key e" if "slot_get es j = Some f" for j f
    using assms(2) slot_get_SomeD [OF that] nth_mem [of j es] by (auto simp: ent_key_def ent_match_def)
  then show ?thesis
    using assms(1) unfolding keys_inj_def slot_get_update by (metis option.inject)
qed

lemma length_pin_at [simp]: "length (pin_at i es) = length es"
  by (simp add: pin_at_def)

lemma pin_at_nth:
  "j < length es \<Longrightarrow>
     pin_at i es ! j = (if j = i then map_option (\<lambda>e. e\<lparr>pe_pin := True\<rparr>) (es ! i) else es ! j)"
  by (auto simp: pin_at_def nth_list_update)


section \<open>What one lookup does\<close>

lemma fill_ent_spec:
  assumes f: "fill_ent ok h slen nbuf idx pc w = (r, pc', w')"
    and wf: "pcache_wf pc" and idx: "idx < PCACHE" and free: "pc_ents pc ! idx = None"
    and new: "\<forall>x\<in>set (pc_ents pc). \<not> ent_match h slen nbuf x"
  shows "pcache_wf pc'"
    and "r = Some i \<Longrightarrow> i = idx \<and> (\<exists>e. slot_get (pc_ents pc') i = Some e \<and>
           ent_match h slen nbuf (Some e) \<and> pe_pin e)"
    and "j \<noteq> idx \<Longrightarrow> slot_get (pc_ents pc') j = slot_get (pc_ents pc) j"
    and "w_live w' + slot_sum pent_objs (pc_ents pc) = w_live w + slot_sum pent_objs (pc_ents pc')"
    and "w_fds w' = w_fds w" and "w_bad w' = w_bad w" and "world.more w' = world.more w"
proof -
  have len: "length (pc_ents pc) = PCACHE" using wf by (simp add: pcache_wf_def)
  obtain m w1 where mk: "make_pipe ok w = (m, w1)" by (cases "make_pipe ok w")
  note acct = make_pipe_acct [OF mk]
  show "pcache_wf pc'"
    using f mk wf new
    by (auto simp: fill_ent_def pcache_wf_def intro!: keys_inj_add split: option.splits prod.splits)
  show "r = Some i \<Longrightarrow> i = idx \<and> (\<exists>e. slot_get (pc_ents pc') i = Some e \<and>
           ent_match h slen nbuf (Some e) \<and> pe_pin e)"
    using f mk idx len by (auto simp: fill_ent_def slot_get_update split: option.splits prod.splits)
  show "j \<noteq> idx \<Longrightarrow> slot_get (pc_ents pc') j = slot_get (pc_ents pc) j"
    using f mk by (auto simp: fill_ent_def slot_get_update split: option.splits prod.splits)
  have upd: "slot_sum pent_objs ((pc_ents pc)[idx := Some e]) = slot_sum pent_objs (pc_ents pc) + pent_objs e"
    for e using slot_sum_update [of idx "pc_ents pc" pent_objs "Some e"] idx len free by simp
  show "w_live w' + slot_sum pent_objs (pc_ents pc) = w_live w + slot_sum pent_objs (pc_ents pc')"
    using f mk acct by (auto simp: fill_ent_def upd pent_objs_def split: option.splits prod.splits)
  show "w_fds w' = w_fds w" and "w_bad w' = w_bad w" and "world.more w' = world.more w"
    using f mk acct by (auto simp: fill_ent_def split: option.splits prod.splits)
qed

text \<open>
  The three ways a lookup goes: a hit pins the entry and touches nothing else; a miss fills a free
  slot, or the slot of an unpinned victim whose objects are destroyed first; with every slot pinned
  it fails and changes nothing but the miss counter.
\<close>

lemma slot_get_pin_at:
  "slot_get (pin_at i es) j =
     (if j = i then map_option (\<lambda>e. e\<lparr>pe_pin := True\<rparr>) (slot_get es i) else slot_get es j)"
  by (auto simp: slot_get_def pin_at_nth)

lemma ent_key_pin [simp]: "ent_key (e\<lparr>pe_pin := b\<rparr>) = ent_key e"
  by (simp add: ent_key_def)

lemma pin_at_wf: "pcache_wf pc \<Longrightarrow> pcache_wf (pc\<lparr>pc_hits := n, pc_ents := pin_at i (pc_ents pc)\<rparr>)"
  by (fastforce simp: pcache_wf_def keys_inj_def slot_get_pin_at split: if_splits)

lemma slot_sum_pin_at: "slot_sum pent_objs (pin_at i es) = slot_sum pent_objs es"
proof (cases "i < length es")
  case True
  then show ?thesis
    using slot_sum_update [of i es pent_objs "map_option (\<lambda>e. e\<lparr>pe_pin := True\<rparr>) (es ! i)"]
    by (cases "es ! i") (auto simp: pin_at_def pent_objs_def)
qed (simp add: pin_at_def list_update_beyond)

definition qkey :: "byte list \<times> nat \<Rightarrow> u64 \<times> nat \<times> nat" where
  "qkey q = (fnv1a (fst q), length (fst q), snd q)"

definition pkeys :: "pinent pcache \<Rightarrow> (u64 \<times> nat \<times> nat) set" where
  "pkeys pc = {k. \<exists>i e. slot_get (pc_ents pc) i = Some e \<and> pe_pin e \<and> ent_key e = k}"

definition get_pipe_post ::
  "byte list \<times> nat \<Rightarrow> pinent pcache \<Rightarrow> 'a world_scheme \<Rightarrow> nat option \<Rightarrow> pinent pcache \<Rightarrow>
   'a world_scheme \<Rightarrow> bool" where
  "get_pipe_post q pc w r pc' w' \<longleftrightarrow>
     pcache_wf pc' \<and>
     (\<forall>i. r = Some i \<longrightarrow> holds_key pc' i q \<and> pinned_at pc' i) \<and>
     (\<forall>j k. pinned_at pc j \<and> holds_key pc j k \<longrightarrow> pinned_at pc' j \<and> holds_key pc' j k) \<and>
     pkeys pc' \<subseteq> insert (qkey q) (pkeys pc) \<and>
     w_live w' + slot_sum pent_objs (pc_ents pc) = w_live w + slot_sum pent_objs (pc_ents pc') \<and>
     w_fds w' = w_fds w \<and> w_bad w' = w_bad w \<and> world.more w' = world.more w"

lemma holds_key_slot:
  "holds_key pc i q \<longleftrightarrow> (\<exists>e. slot_get (pc_ents pc) i = Some e \<and>
     pe_hash e = fnv1a (fst q) \<and> pe_slen e = length (fst q) \<and> pe_nbuf e = snd q)"
  by (auto simp: holds_key_def slot_get_def ent_match_def split: option.splits)

lemma pinned_at_slot: "pinned_at pc i \<longleftrightarrow> (\<exists>e. slot_get (pc_ents pc) i = Some e \<and> pe_pin e)"
  by (auto simp: pinned_at_def split: option.splits)

lemma pkeysI: "(\<And>i e. slot_get (pc_ents pc') i = Some e \<Longrightarrow> pe_pin e \<Longrightarrow>
    ent_key e = k \<or> (\<exists>f. slot_get (pc_ents pc) i = Some f \<and> pe_pin f \<and> ent_key f = ent_key e)) \<Longrightarrow>
    pkeys pc' \<subseteq> insert k (pkeys pc)"
  unfolding pkeys_def by blast

lemma get_pipe_spec:
  assumes g: "get_pipe ok spirv nbuf pc w = (r, pc', w')" and wf: "pcache_wf pc"
    and own: "slot_sum pent_objs (pc_ents pc) \<subseteq># w_live w"
  shows "get_pipe_post (spirv, nbuf) pc w r pc' w'"
proof (cases "first_idx (ent_match (fnv1a spirv) (length spirv) nbuf) (pc_ents pc)")
  case (Some i)
  with g have r: "r = Some i" "w' = w"
    "pc' = pc\<lparr>pc_hits := Suc (pc_hits pc), pc_ents := pin_at i (pc_ents pc)\<rparr>"
    by (auto simp: get_pipe_def Let_def)
  from first_idx_SomeD [OF Some] obtain e where "slot_get (pc_ents pc) i = Some e"
    "pe_hash e = fnv1a spirv \<and> pe_slen e = length spirv \<and> pe_nbuf e = nbuf"
    by (auto simp: slot_get_def ent_match_def split: option.splits)
  moreover from this have "pkeys pc' \<subseteq> insert (qkey (spirv, nbuf)) (pkeys pc)"
    by (intro pkeysI) (auto simp: r slot_get_pin_at qkey_def ent_key_def split: if_splits)
  ultimately show ?thesis
    using r pin_at_wf [OF wf]
    by (auto simp: get_pipe_post_def holds_key_slot pinned_at_slot slot_get_pin_at slot_sum_pin_at
        split: if_splits)
next
  case None
  then have new: "\<forall>x\<in>set (pc_ents pc). \<not> ent_match (fnv1a spirv) (length spirv) nbuf x"
    by (simp add: first_idx_None)
  define pc1 where "pc1 = pc\<lparr>pc_miss := Suc (pc_miss pc)\<rparr>"
  have wf1: "pcache_wf pc1" and ents1: "pc_ents pc1 = pc_ents pc"
    using wf by (auto simp: pc1_def pcache_wf_def)
  have len: "length (pc_ents pc) = PCACHE" using wf by (simp add: pcache_wf_def)
  show ?thesis
  proof (cases "free_slot (pc_ents pc1)")
    case (Some idx)
    with g None have f: "fill_ent ok (fnv1a spirv) (length spirv) nbuf idx pc1 w = (r, pc', w')"
      by (simp add: get_pipe_def Let_def pc1_def)
    from free_slot_SomeD [OF Some] len ents1 have idx: "idx < PCACHE" "pc_ents pc1 ! idx = None" by auto
    note F = fill_ent_spec [OF f wf1 idx, unfolded ents1, OF new]
    have "slot_get (pc_ents pc) idx = None" using idx ents1 by (auto simp: slot_get_def)
    moreover have "pkeys pc' \<subseteq> insert (qkey (spirv, nbuf)) (pkeys pc)"
    proof (intro pkeysI)
      fix i e assume e: "slot_get (pc_ents pc') i = Some e" "pe_pin e"
      show "ent_key e = qkey (spirv, nbuf) \<or>
          (\<exists>f. slot_get (pc_ents pc) i = Some f \<and> pe_pin f \<and> ent_key f = ent_key e)"
      proof (cases "i = idx")
        case True
        show ?thesis
        proof (cases r)
          case None
          with f have "pc' = pc1" by (auto simp: fill_ent_def split: option.splits prod.splits)
          with e True \<open>slot_get (pc_ents pc) idx = None\<close> show ?thesis by (simp add: ents1)
        next
          case (Some k)
          with F(2) [OF Some] e True show ?thesis by (auto simp: qkey_def ent_key_def)
        qed
      qed (use e F(3) in auto)
    qed
    ultimately show ?thesis
      using F(1,2,4,5,6,7) F(3)
      by (auto simp: get_pipe_post_def holds_key_slot pinned_at_slot) (metis option.distinct(1))+
  next
    case full: None
    show ?thesis
    proof (cases "victim pc1")
      case None
      with g full \<open>first_idx _ _ = None\<close> have "r = None \<and> pc' = pc1 \<and> w' = w"
        by (simp add: get_pipe_def Let_def pc1_def)
      then show ?thesis
        using wf1 by (auto simp: get_pipe_post_def holds_key_slot pinned_at_slot ents1 pkeys_def)
    next
      case (Some idx)
      have idx: "idx < PCACHE" and un: "unpinned (pc_ents pc ! idx)"
        using victim_SomeD [OF Some] ents1 by auto
      obtain e where e: "pc_ents pc ! idx = Some e" and ge: "slot_get (pc_ents pc) idx = Some e"
        using full idx len ents1 nth_mem [of idx "pc_ents pc"]
        by (cases "pc_ents pc ! idx") (auto simp: free_slot_None_iff slot_get_def)
      define pc2 where "pc2 = pc1\<lparr>pc_next := Suc idx mod PCACHE, pc_ents := slot_clear (pc_ents pc1) idx\<rparr>"
      from g full Some \<open>first_idx _ _ = None\<close> e ents1
      have f: "fill_ent ok (fnv1a spirv) (length spirv) nbuf idx pc2 (destroy_ent e w) = (r, pc', w')"
        by (simp add: get_pipe_def Let_def pc1_def pc2_def)
      have ents2: "pc_ents pc2 = slot_clear (pc_ents pc) idx" by (simp add: pc2_def ents1)
      have wf2: "pcache_wf pc2"
        using wf1 keys_inj_clear by (auto simp: pcache_wf_def pc2_def PCACHE_def)
      have free2: "pc_ents pc2 ! idx = None" using idx len by (simp add: ents2 slot_clear_def)
      have new2: "\<forall>x\<in>set (pc_ents pc2). \<not> ent_match (fnv1a spirv) (length spirv) nbuf x"
        using new by (auto simp: ents2 slot_clear_def dest!: set_update_subset_insert [THEN subsetD])
      note F = fill_ent_spec [OF f wf2 idx free2 new2]
      obtain L where L: "w_live w = (L + slot_sum pent_objs (slot_clear (pc_ents pc) idx)) + pent_objs e"
        using own slot_sum_clear [OF ge, of pent_objs] by (auto simp: mset_subset_eq_exists_conv ac_simps)
      note D = destroy_ent_acct [OF L]
      have "w_live w' + slot_sum pent_objs (pc_ents pc) = w_live w + slot_sum pent_objs (pc_ents pc')"
        using F(4) D(1) L slot_sum_clear [OF ge, of pent_objs] by (simp add: ents2 ac_simps)
      moreover have "slot_get (pc_ents pc') j = slot_get (pc_ents pc) j" if "j \<noteq> idx" for j
        using F(3) [OF that] that by (simp add: ents2 slot_get_clear)
      moreover have "pkeys pc' \<subseteq> insert (qkey (spirv, nbuf)) (pkeys pc)"
      proof (intro pkeysI)
        fix i g assume g: "slot_get (pc_ents pc') i = Some g" "pe_pin g"
        show "ent_key g = qkey (spirv, nbuf) \<or>
            (\<exists>f. slot_get (pc_ents pc) i = Some f \<and> pe_pin f \<and> ent_key f = ent_key g)"
        proof (cases "i = idx")
          case True
          show ?thesis
          proof (cases r)
            case None
            with f have "pc_ents pc' = pc_ents pc2" by (auto simp: fill_ent_def split: option.splits prod.splits)
            with g True show ?thesis by (simp add: ents2 slot_get_clear)
          next
            case (Some k)
            with F(2) [OF Some] g True show ?thesis by (auto simp: qkey_def ent_key_def)
          qed
        qed (use g F(3) in \<open>auto simp: ents2 slot_get_clear\<close>)
      qed
      moreover have "\<not> pe_pin e" using un e by (simp add: unpinned_def)
      ultimately show ?thesis
        using F(1,2,5,6,7) D(2,3,4) ge
        by (auto simp: get_pipe_post_def holds_key_slot pinned_at_slot) (metis option.inject)+
    qed
  qed
qed


lemma get_pipe_fails_only_full:
  assumes g: "get_pipe ok spirv nbuf pc w = (None, pc', w')" and wf: "pcache_wf pc"
    and ok: "\<forall>k. ok k"
  shows "\<forall>i<PCACHE. pinned_at pc i" and "qkey (spirv, nbuf) \<notin> pkeys pc"
proof -
  have len: "length (pc_ents pc) = PCACHE" using wf by (simp add: pcache_wf_def)
  have nofill: "fill_ent ok h s n idx pc w \<noteq> (None, pc', w')" for h s n idx pc and w :: "'a world_scheme"
    using make_pipe_total [OF ok, of w] by (auto simp: fill_ent_def)
  from g nofill have new: "first_idx (ent_match (fnv1a spirv) (length spirv) nbuf) (pc_ents pc) = None"
    and full: "free_slot (pc_ents pc) = None"
    and vic: "victim (pc\<lparr>pc_miss := Suc (pc_miss pc)\<rparr>) = None"
    by (auto simp: get_pipe_def Let_def split: option.splits)
  show "\<forall>i<PCACHE. pinned_at pc i"
  proof (intro allI impI)
    fix i assume "i < PCACHE"
    with victim_None [OF vic this] len show "pinned_at pc i"
      by (cases "pc_ents pc ! i") (auto simp: unpinned_def pinned_at_def slot_get_def)
  qed
  show "qkey (spirv, nbuf) \<notin> pkeys pc"
  proof
    assume "qkey (spirv, nbuf) \<in> pkeys pc"
    then obtain i e where e: "slot_get (pc_ents pc) i = Some e" "ent_key e = qkey (spirv, nbuf)"
      by (auto simp: pkeys_def)
    from slot_get_SomeD [OF e(1)] have "Some e \<in> set (pc_ents pc)" by (metis nth_mem)
    with new e(2) show False by (fastforce simp: first_idx_None qkey_def ent_key_def)
  qed
qed

section \<open>Resolving the stages of one dispatch\<close>

text \<open>
  The interface the dispatch code relies on: a cache whose lookups return a slot that holds the
  requested key, and keep every slot that has been pinned. From it follows that after a whole
  dispatch has been resolved, every stage still finds its own pipeline in its slot.
\<close>

locale pinned_cache =
  fixes get :: "'q \<Rightarrow> 's \<Rightarrow> nat option \<times> 's"
    and inv :: "'s \<Rightarrow> bool"
    and holds :: "'s \<Rightarrow> nat \<Rightarrow> 'q \<Rightarrow> bool"
    and pinned :: "'s \<Rightarrow> nat \<Rightarrow> bool"
  assumes get_inv: "inv s \<Longrightarrow> get q s = (r, s') \<Longrightarrow> inv s'"
    and get_holds: "inv s \<Longrightarrow> get q s = (Some i, s') \<Longrightarrow> holds s' i q \<and> pinned s' i"
    and get_keeps: "inv s \<Longrightarrow> get q s = (r, s') \<Longrightarrow> pinned s j \<Longrightarrow> holds s j k \<Longrightarrow>
      pinned s' j \<and> holds s' j k"
begin

lemma traverse_inv: "inv s \<Longrightarrow> traverse get qs s = (rs, s') \<Longrightarrow> inv s'"
  using traverse_invariant [of qs get inv s rs s'] get_inv by blast

lemma traverse_keeps:
  "inv s \<Longrightarrow> traverse get qs s = (rs, s') \<Longrightarrow> pinned s j \<Longrightarrow> holds s j k \<Longrightarrow>
   pinned s' j \<and> holds s' j k"
  using traverse_invariant [of qs get "\<lambda>s. inv s \<and> pinned s j \<and> holds s j k" s rs s']
    get_inv get_keeps by blast

lemma traverse_holds:
  "inv s \<Longrightarrow> traverse get qs s = (Some is, s') \<Longrightarrow> list_all2 (\<lambda>q i. holds s' i q \<and> pinned s' i) qs is"
proof (induction qs arbitrary: s "is")
  case Nil
  then show ?case by simp
next
  case (Cons q qs)
  then obtain i js s1 where g: "get q s = (Some i, s1)" and t: "traverse get qs s1 = (Some js, s')"
    and "is": "is = i # js" by (auto split: prod.splits option.splits)
  from g Cons.prems(1) have "inv s1" and "holds s1 i q \<and> pinned s1 i"
    using get_inv get_holds by blast+
  with Cons.IH [OF _ t] traverse_keeps [OF _ t, of i q] show ?case by (simp add: "is")
qed

end

definition get_q ::
  "(nat \<Rightarrow> bool) \<Rightarrow> byte list \<times> nat \<Rightarrow> pinent pcache \<times> 'a world_scheme \<Rightarrow>
   nat option \<times> pinent pcache \<times> 'a world_scheme" where
  "get_q ok q s = get_pipe ok (fst q) (snd q) (fst s) (snd s)"

definition cache_inv ::
  "nat multiset \<Rightarrow> fd multiset \<Rightarrow> 'a \<Rightarrow> pinent pcache \<times> 'a world_scheme \<Rightarrow> bool" where
  "cache_inv L F m s \<longleftrightarrow>
     pcache_wf (fst s) \<and> w_live (snd s) = L + slot_sum pent_objs (pc_ents (fst s)) \<and>
     w_fds (snd s) = F \<and> \<not> w_bad (snd s) \<and> world.more (snd s) = m"

lemma get_q_spec:
  assumes "cache_inv L F m s" and "get_q ok q s = (r, s')"
  shows "get_pipe_post q (fst s) (snd s) r (fst s') (snd s')"
  using get_pipe_spec [of ok "fst q" "snd q" "fst s" "snd s" r "fst s'" "snd s'"] assms
  by (auto simp: get_q_def cache_inv_def)

interpretation zc_cache: pinned_cache "get_q ok" "cache_inv L F m"
    "\<lambda>s. holds_key (fst s)" "\<lambda>s. pinned_at (fst s)" for ok L F m
proof unfold_locales
  fix s :: "pinent pcache \<times> 'a world_scheme" and q r s'
  assume inv: "cache_inv L F m s" and g: "get_q ok q s = (r, s')"
  show "cache_inv L F m s'"
    using get_q_spec [OF inv g] inv
    by (auto simp: get_pipe_post_def cache_inv_def union_iff add.assoc) 
next
  fix s :: "pinent pcache \<times> 'a world_scheme" and q i s'
  assume inv: "cache_inv L F m s" and g: "get_q ok q s = (Some i, s')"
  show "holds_key (fst s') i q \<and> pinned_at (fst s') i"
    using get_q_spec [OF inv g] by (simp add: get_pipe_post_def)
next
  fix s :: "pinent pcache \<times> 'a world_scheme" and q r s' j k
  assume inv: "cache_inv L F m s" and g: "get_q ok q s = (r, s')"
    and "pinned_at (fst s) j" "holds_key (fst s) j k"
  then show "pinned_at (fst s') j \<and> holds_key (fst s') j k"
    using get_q_spec [OF inv g] unfolding get_pipe_post_def by blast
qed

section \<open>Capacity\<close>

lemma pkeys_full:
  assumes wf: "pcache_wf pc" and all: "\<forall>i<PCACHE. pinned_at pc i"
  shows "PCACHE \<le> card (pkeys pc)" and "finite (pkeys pc)"
proof -
  let ?k = "\<lambda>i. ent_key (the (slot_get (pc_ents pc) i))"
  have sub: "?k ` {..<PCACHE} \<subseteq> pkeys pc"
  proof
    fix k assume "k \<in> ?k ` {..<PCACHE}"
    then obtain i where "i < PCACHE" "k = ?k i" by blast
    moreover from this all obtain e where "slot_get (pc_ents pc) i = Some e" "pe_pin e"
      by (auto simp: pinned_at_slot)
    ultimately show "k \<in> pkeys pc" by (auto simp: pkeys_def)
  qed
  have "pkeys pc \<subseteq> ?k ` {..<length (pc_ents pc)}"
    by (auto simp: pkeys_def dest!: slot_get_SomeD intro!: rev_image_eqI simp: slot_get_def)
  then show fin: "finite (pkeys pc)" by (rule finite_subset) simp
  have inj: "inj_on ?k {..<PCACHE}"
  proof (rule inj_onI)
    fix i j assume "i \<in> {..<PCACHE}" "j \<in> {..<PCACHE}" and eq: "?k i = ?k j"
    then have "pinned_at pc i" and "pinned_at pc j" using all by auto
    then obtain e f where "slot_get (pc_ents pc) i = Some e" "slot_get (pc_ents pc) j = Some f"
      unfolding pinned_at_slot by blast
    with eq wf show "i = j" by (auto simp: pcache_wf_def keys_inj_def)
  qed
  have "card (?k ` {..<PCACHE}) = PCACHE" using card_image [OF inj] by simp
  with card_mono [OF fin sub] show "PCACHE \<le> card (pkeys pc)" by simp
qed

lemma resolve_total:
  assumes inv: "cache_inv L F m s" and ok: "\<forall>k. ok k"
    and keys: "pkeys (fst s) \<subseteq> K" and K: "finite K" and small: "card (K \<union> qkey ` set qs) \<le> PCACHE"
  shows "\<exists>rs s'. traverse (get_q ok) qs s = (Some rs, s')"
  using assms
proof (induction qs arbitrary: s K)
  case Nil
  then show ?case by simp
next
  case (Cons q qs)
  obtain r s1 where g: "get_q ok q s = (r, s1)" by (cases "get_q ok q s")
  have inv1: "cache_inv L F m s1" using zc_cache.get_inv [OF Cons.prems(1) g] .
  have post: "get_pipe_post q (fst s) (snd s) r (fst s1) (snd s1)"
    using get_q_spec [OF Cons.prems(1) g] .
  have wf: "pcache_wf (fst s)" using Cons.prems(1) by (simp add: cache_inv_def)
  have "r \<noteq> None"
  proof
    assume "r = None"
    then have gp: "get_pipe ok (fst q) (snd q) (fst s) (snd s) = (None, fst s1, snd s1)"
      using g by (simp add: get_q_def)
    note full = get_pipe_fails_only_full [OF gp wf Cons.prems(2)]
    have "PCACHE < card (insert (qkey q) (pkeys (fst s)))"
      using pkeys_full [OF wf full(1)] full(2) by simp
    also have "insert (qkey q) (pkeys (fst s)) \<subseteq> K \<union> qkey ` set (q # qs)"
      using Cons.prems(3) by auto
    then have "card (insert (qkey q) (pkeys (fst s))) \<le> card (K \<union> qkey ` set (q # qs))"
      using Cons.prems(4) by (intro card_mono) auto
    finally show False using Cons.prems(5) by simp
  qed
  then obtain i where r: "r = Some i" by blast
  have "pkeys (fst s1) \<subseteq> insert (qkey q) K"
    using post Cons.prems(3) unfolding get_pipe_post_def by blast
  moreover have "insert (qkey q) K \<union> qkey ` set qs = K \<union> qkey ` set (q # qs)" by auto
  ultimately have "\<exists>rs s'. traverse (get_q ok) qs s1 = (Some rs, s')"
    using Cons.prems(4,5) by (intro Cons.IH [OF inv1 ok, of "insert (qkey q) K"]) simp_all
  then show ?case using g r by auto
qed

lemma resolve_needs_room:
  assumes inv: "cache_inv L F m s" and t: "traverse (get_q ok) qs s = (Some rs, s')"
  shows "card (qkey ` set qs) \<le> PCACHE"
proof -
  have inv': "cache_inv L F m s'" using zc_cache.traverse_inv [OF inv t] .
  then have len: "length (pc_ents (fst s')) = PCACHE" by (simp add: cache_inv_def pcache_wf_def)
  have all: "list_all2 (\<lambda>q i. holds_key (fst s') i q \<and> pinned_at (fst s') i) qs rs"
    using zc_cache.traverse_holds [OF inv t] .
  have "qkey ` set qs \<subseteq> (\<lambda>i. ent_key (the (slot_get (pc_ents (fst s')) i))) ` {..<PCACHE}"
  proof
    fix k assume "k \<in> qkey ` set qs"
    then obtain n where n: "n < length qs" "k = qkey (qs ! n)" by (auto simp: in_set_conv_nth)
    with all have "holds_key (fst s') (rs ! n) (qs ! n)" by (auto simp: list_all2_conv_all_nth)
    then obtain e where e: "slot_get (pc_ents (fst s')) (rs ! n) = Some e" "ent_key e = k"
      using n(2) by (auto simp: holds_key_slot qkey_def ent_key_def)
    then show "k \<in> (\<lambda>i. ent_key (the (slot_get (pc_ents (fst s')) i))) ` {..<PCACHE}"
      using slot_get_SomeD [OF e(1)] len by (intro rev_image_eqI [of "rs ! n"]) auto
  qed
  then have "card (qkey ` set qs) \<le> card ((\<lambda>i. ent_key (the (slot_get (pc_ents (fst s')) i))) ` {..<PCACHE})"
    by (intro card_mono) auto
  also have "\<dots> \<le> PCACHE" using card_image_le [of "{..<PCACHE}"] by simp
  finally show ?thesis .
qed

text \<open>Between dispatches no entry is pinned.\<close>

lemma unpin_all_wf: "pcache_wf pc \<Longrightarrow> pcache_wf (unpin_all pc)"
proof -
  have "slot_get (map (map_option (\<lambda>e. e\<lparr>pe_pin := False\<rparr>)) es) i =
      map_option (\<lambda>e. e\<lparr>pe_pin := False\<rparr>) (slot_get es i)" for es :: "pinent option list" and i
    by (simp add: slot_get_def)
  then show "pcache_wf pc \<Longrightarrow> pcache_wf (unpin_all pc)"
    by (auto simp: pcache_wf_def unpin_all_def keys_inj_def)
qed

lemma unpin_all_pkeys [simp]: "pkeys (unpin_all pc) = {}"
  by (auto simp: pkeys_def unpin_all_def slot_get_def split: if_splits)

lemma slot_sum_unpin [simp]: "slot_sum pent_objs (pc_ents (unpin_all pc)) = slot_sum pent_objs (pc_ents pc)"
proof -
  have "slot_sum pent_objs (map (map_option (\<lambda>e. e\<lparr>pe_pin := False\<rparr>)) es) = slot_sum pent_objs es"
    for es :: "pinent option list"
    by (induction es rule: slot_live.induct) (auto simp: pent_objs_def)
  then show ?thesis by (simp add: unpin_all_def)
qed

end
