(* ===== verification/Gpu_Device.thy ===== *)
theory Gpu_Device
  imports Pipeline_Cache
begin

text \<open>
  The Vulkan side shared by the three protocols of src/src/hwbridge/gpud-zc.c: the choice of a
  memory type (\<open>pick_mem\<close>), the import of a dma-buf (\<open>import_buf\<close>), the command buffers handed to
  the queue (logged in \<open>w_subs\<close>), \<open>run_stages\<close>, and the one-shot protocol \<open>serve_v1\<close>.
\<close>

section \<open>Commands given to the queue\<close>

datatype pstage = StHost | StCompute | StTransfer

datatype access =
  HostWrite | HostRead | ShaderRead | ShaderWrite | TransferRead | TransferWrite

text \<open>
  A storage-buffer binding is the buffer, the offset and the range (\<open>None\<close> for
  \<open>VK_WHOLE_SIZE\<close>); a bound descriptor set is given by its contents.
\<close>

type_synonym binding = "nat \<times> nat \<times> nat option"

datatype gcmd =
    Barrier "pstage list" "pstage list" "access list" "access list"
  | BindPipe nat
  | BindSets nat "binding list"
  | PushConst nat "byte list"
  | Dispatch nat nat nat
  | CopyBuf nat nat nat nat nat

record gworld = world +
  w_subs :: "gcmd list list"

text \<open>
  The device as the daemon finds it at \<open>gpu_init\<close>: which driver calls succeed, the property flags
  of its memory types, the type mask \<open>vkGetMemoryFdPropertiesKHR\<close> answers for a dma-buf, the
  \<open>GPUD_IMPORT_MT\<close> override (an index below 32), the type mask of a native buffer of a given
  size, and \<open>minStorageBufferOffsetAlignment\<close>.
\<close>

record vkdev =
  vk_ok :: "nat \<Rightarrow> bool"
  vk_types :: "u32 list"
  vk_bits :: "nat \<Rightarrow> u32"
  vk_force :: "nat option"
  vk_native :: "nat \<Rightarrow> u32"
  vk_align :: nat

definition MAXBUF :: nat where "MAXBUF = 16"
definition MAXH :: nat where "MAXH = 64"
definition MAXSTAGE :: nat where "MAXSTAGE = 32"
definition MAXSPIRV :: nat where "MAXSPIRV = 16777216"
definition MAXGRP :: nat where "MAXGRP = 65535"

section \<open>Importing a dma-buf\<close>

definition DEVICE_LOCAL :: u32 where "DEVICE_LOCAL = 1"
definition HOST_VISIBLE :: u32 where "HOST_VISIBLE = 2"
definition HOST_COHERENT :: u32 where "HOST_COHERENT = 4"

definition pick_mem :: "u32 list \<Rightarrow> u32 \<Rightarrow> u32 \<Rightarrow> nat option" where
  "pick_mem types typeBits want =
     first_idx (\<lambda>i. typeBits AND push_bit i 1 \<noteq> 0 \<and> types ! i AND want = want) [0..<length types]"

definition orelse :: "'b option \<Rightarrow> 'b option \<Rightarrow> 'b option" where
  "orelse x y = (case x of Some v \<Rightarrow> Some v | None \<Rightarrow> y)"

definition import_mt :: "vkdev \<Rightarrow> u32 \<Rightarrow> nat option" where
  "import_mt V tb =
     orelse (case vk_force V of None \<Rightarrow> None
               | Some i \<Rightarrow> if tb AND push_bit i 1 \<noteq> 0 then Some i else None)
     (orelse (pick_mem (vk_types V) tb (DEVICE_LOCAL OR HOST_VISIBLE OR HOST_COHERENT))
     (orelse (pick_mem (vk_types V) tb (HOST_VISIBLE OR HOST_COHERENT))
             (pick_mem (vk_types V) tb HOST_VISIBLE)))"

text \<open>
  The two out-parameters \<open>*b\<close> and \<open>*m\<close> are passed in and returned: on a failure after
  \<open>vkCreateBuffer\<close> the buffer is destroyed but \<open>*b\<close> still holds its handle.
\<close>

definition import_buf ::
  "vkdev \<Rightarrow> fd \<Rightarrow> nat \<Rightarrow> nat \<Rightarrow> 'a world_scheme \<Rightarrow> bool \<times> nat \<times> nat \<times> 'a world_scheme" where
  "import_buf V f b m w =
     (case ext_try (vk_ok V) w of
        (False, w1) \<Rightarrow> (False, b, m, w1)
      | (True, w1) \<Rightarrow>
     (case import_mt V (vk_bits V (snd f)) of
        None \<Rightarrow> (False, b, m, w1)
      | Some mt \<Rightarrow>
     (case ext_new (vk_ok V) w1 of
        (None, w2) \<Rightarrow> (False, b, m, w2)
      | (Some b', w2) \<Rightarrow>
     (case fd_dup (vk_ok V) f w2 of
        (None, w3) \<Rightarrow> (False, b', m, ext_free b' w3)
      | (Some d, w3) \<Rightarrow>
     (case ext_new (vk_ok V) w3 of
        (None, w4) \<Rightarrow> (False, b', m, ext_free b' (close_fd d w4))
      | (Some m', w4) \<Rightarrow>
     (case ext_try (vk_ok V) (fd_give d w4) of
        (False, w5) \<Rightarrow> (False, b', m', ext_free b' (ext_free m' w5))
      | (True, w5) \<Rightarrow> (True, b', m', w5)))))))"

lemma pick_mem_SomeD:
  "pick_mem types tb want = Some i \<Longrightarrow>
     i < length types \<and> tb AND push_bit i 1 \<noteq> 0 \<and> types ! i AND want = want \<and>
     (\<forall>j<i. \<not> (tb AND push_bit j 1 \<noteq> 0 \<and> types ! j AND want = want))"
  unfolding pick_mem_def by (drule first_idx_SomeD) auto

lemma pick_mem_None:
  "pick_mem types tb want = None \<longleftrightarrow>
     (\<forall>j<length types. \<not> (tb AND push_bit j 1 \<noteq> 0 \<and> types ! j AND want = want))"
  by (auto simp: pick_mem_def first_idx_None)

text \<open>What an import adds on success: one buffer, one memory, and no descriptor.\<close>

lemma import_buf_acct:
  assumes "import_buf V f b m w = (r, b', m', w')"
  shows "w_live w' = w_live w + (if r then {#b', m'#} else {#}) \<and>
    w_fds w' = w_fds w \<and> w_bad w' = w_bad w \<and> world.more w' = world.more w"
proof -
  have give: "w_fds (fd_give d u) = F \<and> w_bad (fd_give d u) = w_bad u"
    if "w_fds u = F + {#d#}" for d F and u :: "'a world_scheme"
    using that by (simp add: acct_simps)
  show ?thesis
    using assms
    by (auto simp: import_buf_def acct_simps give
        dest!: ext_new_acct ext_try_acct fd_dup_acct split: prod.splits option.splits bool.splits)
qed

lemma import_buf_total:
  assumes "\<forall>k. vk_ok V k" and "import_mt V (vk_bits V (snd f)) \<noteq> None"
  shows "\<exists>b' m' w'. import_buf V f b m w = (True, b', m', w')"
  using assms by (auto simp: import_buf_def ext_try_def ext_new_def fd_dup_def split: option.splits)

section \<open>Submitting a command buffer\<close>

text \<open>
  Allocate a command buffer, record, create a fence, submit, wait; the fence and the command
  buffer are destroyed on every path. The recorded commands reach the GPU when the submission
  succeeds, whatever the wait says.
\<close>

definition gpu_submit :: "(nat \<Rightarrow> bool) \<Rightarrow> gcmd list \<Rightarrow> gworld \<Rightarrow> bool \<times> gworld" where
  "gpu_submit ok cmds w =
     (case ext_new ok w of
        (None, w1) \<Rightarrow> (False, w1)
      | (Some cb, w1) \<Rightarrow>
     (case ext_new ok w1 of
        (None, w2) \<Rightarrow> (False, ext_free cb w2)
      | (Some fence, w2) \<Rightarrow>
     (case ext_try ok w2 of
        (False, w3) \<Rightarrow> (False, ext_free cb (ext_free fence w3))
      | (True, w3) \<Rightarrow>
     (case ext_try ok (w3\<lparr>w_subs := w_subs w3 @ [cmds]\<rparr>) of
        (r, w4) \<Rightarrow> (r, ext_free cb (ext_free fence w4))))))"

lemma more_subs: "world.more w' = world.more w \<Longrightarrow> w_subs w' = w_subs w"
  by (cases w; cases w') simp

lemma w_subs_upd [simp]:
  "w_live (w\<lparr>w_subs := x\<rparr>) = w_live w" "w_fds (w\<lparr>w_subs := x\<rparr>) = w_fds w"
  "w_bad (w\<lparr>w_subs := x\<rparr>) = w_bad w"
  by (cases w; simp)+

lemma w_subs_release [acct_simps, simp]:
  "w_subs (ext_free x w) = w_subs w" "w_subs (close_fd f w) = w_subs w"
  "w_subs (fd_give f w) = w_subs w" "w_subs (close_all fs w) = w_subs w"
  by (rule more_subs, simp add: acct_simps)+

lemma gpu_submit_acct:
  assumes "gpu_submit ok cmds w = (r, w')"
  shows "w_live w' = w_live w \<and> w_fds w' = w_fds w \<and> w_bad w' = w_bad w \<and>
    (w_subs w' = w_subs w \<and> \<not> r \<or> w_subs w' = w_subs w @ [cmds])"
  using assms
  by (auto simp: gpu_submit_def acct_simps dest!: ext_new_acct ext_try_acct more_subs
      split: prod.splits option.splits bool.splits)

lemma gpu_submit_total: "\<forall>k. ok k \<Longrightarrow> \<exists>w'. gpu_submit ok cmds w = (True, w')"
  by (simp add: gpu_submit_def ext_new_def ext_try_def)

end
