(* ===== verification/Gpudzc_Run.thy ===== *)
theory Gpudzc_Run
  imports Gpu_Device
begin

text \<open>
  \<open>run_stages\<close> of src/src/hwbridge/gpud-zc.c (all stages of a dispatch in one command buffer with
  barriers between them) and the one-shot protocol \<open>serve_v1\<close> (GPZC).
\<close>

section \<open>Recording and running the stages\<close>

text \<open>
  A stage names its pipeline by the cache slot it was resolved to (\<open>PCacheEnt* pc\<close>).
\<close>

record stage =
  sg_pc :: nat
  sg_gx :: nat
  sg_gy :: nat
  sg_gz :: nat
  sg_bufs :: "nat list"

definition host_to_shader :: gcmd where
  "host_to_shader = Barrier [StHost] [StCompute] [HostWrite] [ShaderRead, ShaderWrite]"

definition shader_to_shader :: gcmd where
  "shader_to_shader = Barrier [StCompute] [StCompute] [ShaderWrite] [ShaderRead, ShaderWrite]"

definition shader_to_host :: gcmd where
  "shader_to_host = Barrier [StCompute] [StHost] [ShaderWrite] [HostRead]"

definition stage_cmds :: "pinent pcache \<Rightarrow> stage \<Rightarrow> gcmd list" where
  "stage_cmds pc st =
     (case slot_get (pc_ents pc) (sg_pc st) of
        None \<Rightarrow> []
      | Some e \<Rightarrow>
          [BindPipe (pe_pipe e),
           BindSets (pe_pll e) (map (\<lambda>b. (b, 0, None)) (sg_bufs st)),
           Dispatch (sg_gx st) (sg_gy st) (sg_gz st)])"

fun record_stages :: "bool \<Rightarrow> pinent pcache \<Rightarrow> stage list \<Rightarrow> gcmd list" where
  "record_stages first pc [] = []"
| "record_stages first pc (st # sts) =
     (if first then [] else [shader_to_shader]) @ stage_cmds pc st @ record_stages False pc sts"

definition cmd_buffer :: "pinent pcache \<Rightarrow> stage list \<Rightarrow> gcmd list" where
  "cmd_buffer pc sts = host_to_shader # record_stages True pc sts @ [shader_to_host]"

definition try_unit :: "(nat \<Rightarrow> bool) \<Rightarrow> 'q \<Rightarrow> 'a world_scheme \<Rightarrow> unit option \<times> 'a world_scheme" where
  "try_unit ok x w = (case ext_try ok w of (r, w1) \<Rightarrow> (if r then Some () else None, w1))"

definition run_stages ::
  "(nat \<Rightarrow> bool) \<Rightarrow> pinent pcache \<Rightarrow> stage list \<Rightarrow> gworld \<Rightarrow> bool \<times> gworld" where
  "run_stages ok pc sts w =
     (case ext_new ok w of
        (None, w1) \<Rightarrow> (False, w1)
      | (Some dpool, w1) \<Rightarrow>
     (case traverse (try_unit ok) sts w1 of
        (None, w2) \<Rightarrow> (False, ext_free dpool w2)
      | (Some _, w2) \<Rightarrow>
     (case gpu_submit ok (cmd_buffer pc sts) w2 of
        (r, w3) \<Rightarrow> (r, ext_free dpool w3))))"

lemma try_unit_acct:
  "traverse (try_unit ok) xs w = (r, w') \<Longrightarrow>
     w_live w' = w_live w \<and> w_fds w' = w_fds w \<and> w_bad w' = w_bad w \<and> world.more w' = world.more w"
  by (drule traverse_invariant [where P = "\<lambda>u. w_live u = w_live w \<and> w_fds u = w_fds w \<and>
      w_bad u = w_bad w \<and> world.more u = world.more w", rotated])
    (auto simp: try_unit_def dest!: ext_try_acct split: prod.splits)

lemma run_stages_acct:
  assumes "run_stages ok pc sts w = (r, w')"
  shows "w_live w' = w_live w \<and> w_fds w' = w_fds w \<and> w_bad w' = w_bad w \<and>
    (w_subs w' = w_subs w \<and> \<not> r \<or> w_subs w' = w_subs w @ [cmd_buffer pc sts])"
  using assms
  by (auto simp: run_stages_def acct_simps dest!: ext_new_acct try_unit_acct gpu_submit_acct more_subs
      split: prod.splits option.splits)

lemma try_unit_total: "\<forall>k. ok k \<Longrightarrow> \<exists>us w'. traverse (try_unit ok) xs w = (Some us, w')"
proof (induction xs arbitrary: w)
  case (Cons x xs)
  obtain us w' where "traverse (try_unit ok) xs (w\<lparr>w_tick := Suc (w_tick w)\<rparr>) = (Some us, w')"
    using Cons by blast
  moreover have "try_unit ok x w = (Some (), w\<lparr>w_tick := Suc (w_tick w)\<rparr>)"
    using Cons.prems by (simp add: try_unit_def ext_try_def)
  ultimately show ?case by simp
qed simp

lemma run_stages_total:
  assumes "\<forall>k. ok k"
  shows "\<exists>w'. run_stages ok pc sts w = (True, w')"
proof -
  obtain d w1 where n: "ext_new ok w = (Some d, w1)" using assms by (simp add: ext_new_def)
  obtain us w2 where t: "traverse (try_unit ok) sts w1 = (Some us, w2)"
    using try_unit_total [OF assms] by blast
  obtain w3 where s: "gpu_submit ok (cmd_buffer pc sts) w2 = (True, w3)"
    using gpu_submit_total [OF assms] by blast
  show ?thesis by (simp add: run_stages_def n t s)
qed

text \<open>The dispatches of a command buffer, in order, and the barriers between them.\<close>

fun dispatches :: "gcmd list \<Rightarrow> (nat \<times> nat \<times> nat) list" where
  "dispatches [] = []"
| "dispatches (Dispatch x y z # cs) = (x, y, z) # dispatches cs"
| "dispatches (_ # cs) = dispatches cs"

lemma dispatches_append [simp]: "dispatches (xs @ ys) = dispatches xs @ dispatches ys"
  by (induction xs rule: dispatches.induct) auto

text \<open>
  A command list is ordered when a shader-write to shader-access barrier stands between any two of
  its dispatches. \<open>armed\<close> says whether a dispatch may come before the next barrier.
\<close>

definition compute_barrier :: "gcmd \<Rightarrow> bool" where
  "compute_barrier c =
     (case c of
        Barrier s d sa da \<Rightarrow> StCompute \<in> set s \<and> StCompute \<in> set d \<and> ShaderWrite \<in> set sa \<and>
          ShaderRead \<in> set da \<and> ShaderWrite \<in> set da
      | _ \<Rightarrow> False)"

definition is_dispatch :: "gcmd \<Rightarrow> bool" where
  "is_dispatch c = (case c of Dispatch x y z \<Rightarrow> True | _ \<Rightarrow> False)"

fun ordered :: "bool \<Rightarrow> gcmd list \<Rightarrow> bool" where
  "ordered armed [] = True"
| "ordered armed (c # cs) =
     (if is_dispatch c then armed \<and> ordered False cs else ordered (armed \<or> compute_barrier c) cs)"

lemma ordered_between:
  assumes "ordered b cs" and "i < j" "j < length cs" "is_dispatch (cs ! i)" "is_dispatch (cs ! j)"
  shows "\<exists>k. i < k \<and> k < j \<and> compute_barrier (cs ! k)"
proof -
  have unarmed: "\<exists>k<j. compute_barrier (cs ! k)"
    if "ordered False cs" "j < length cs" "is_dispatch (cs ! j)" for j cs
    using that
  proof (induction cs arbitrary: j)
    case (Cons c cs)
    then show ?case
    proof (cases "compute_barrier c")
      case True
      with Cons.prems show ?thesis
        by (intro exI [of _ 0]) (cases j; auto simp: compute_barrier_def is_dispatch_def split: gcmd.splits)
    next
      case False
      with Cons.prems obtain j' where j: "j = Suc j'" "ordered False cs"
        by (cases j) (auto split: if_splits)
      with Cons obtain k where "k < j'" "compute_barrier (cs ! k)" by auto
      with j show ?thesis by (intro exI [of _ "Suc k"]) auto
    qed
  qed simp
  show ?thesis
    using assms
  proof (induction cs arbitrary: b i j)
    case (Cons c cs)
    obtain j' where j: "j = Suc j'" using Cons.prems by (cases j) auto
    show ?case
    proof (cases i)
      case 0
      with Cons.prems have "ordered False cs" by simp
      with unarmed [of cs j'] Cons.prems j obtain k where "k < j'" "compute_barrier (cs ! k)" by auto
      with 0 j show ?thesis by (intro exI [of _ "Suc k"]) auto
    next
      case (Suc i')
      obtain b' where "ordered b' cs" using Cons.prems(1) by (auto split: if_splits)
      from Cons.IH [OF this, of i' j'] Cons.prems j Suc
      obtain k where "i' < k" "k < j'" "compute_barrier (cs ! k)" by auto
      with j Suc show ?thesis by (intro exI [of _ "Suc k"]) auto
    qed
  qed simp
qed

lemma ordered_record: "(f \<Longrightarrow> b) \<Longrightarrow> ordered b (record_stages f pc sts @ [shader_to_host])"
proof (induction sts arbitrary: f b)
  case Nil
  then show ?case by (simp add: shader_to_host_def is_dispatch_def)
next
  case (Cons st sts)
  have any: "ordered c (record_stages False pc sts @ [shader_to_host])" for c
    using Cons.IH [of False c] by simp
  show ?case
    using Cons.prems any
    by (auto simp: stage_cmds_def shader_to_shader_def is_dispatch_def compute_barrier_def
        split: option.splits)
qed

lemma ordered_cmd_buffer: "ordered True (cmd_buffer pc sts)"
  using ordered_record [of True True pc sts]
  by (auto simp: cmd_buffer_def host_to_shader_def is_dispatch_def)

lemma dispatches_cmd_buffer:
  assumes "\<forall>st\<in>set sts. slot_get (pc_ents pc) (sg_pc st) \<noteq> None"
  shows "dispatches (cmd_buffer pc sts) = map (\<lambda>st. (sg_gx st, sg_gy st, sg_gz st)) sts"
proof -
  have "dispatches (record_stages f pc sts) = map (\<lambda>st. (sg_gx st, sg_gy st, sg_gz st)) sts" for f
    using assms
    by (induction sts arbitrary: f) (auto simp: stage_cmds_def shader_to_shader_def split: option.splits)
  then show ?thesis by (simp add: cmd_buffer_def host_to_shader_def shader_to_host_def)
qed

section \<open>serve_v1: one dispatch per connection\<close>

fun v1_imports :: "vkdev \<Rightarrow> fd list \<Rightarrow> gworld \<Rightarrow> bool \<times> (nat \<times> nat) list \<times> gworld" where
  "v1_imports V [] w = (True, [], w)"
| "v1_imports V (f # fs) w =
     (case import_buf V f 0 0 w of (r, b, m, w1) \<Rightarrow>
        if r then (case v1_imports V fs w1 of (r', bms, w2) \<Rightarrow> (r', (b, m) # bms, w2))
        else (False, [(b, m)], w1))"

text \<open>\<open>if(buf[i]) vkDestroyBuffer; if(mem[i]) vkFreeMemory\<close> over the local arrays.\<close>

fun v1_cleanup :: "(nat \<times> nat) list \<Rightarrow> gworld \<Rightarrow> gworld" where
  "v1_cleanup [] w = w"
| "v1_cleanup ((b, m) # bms) w =
     v1_cleanup bms
       ((if m \<noteq> 0 then ext_free m else id) ((if b \<noteq> 0 then ext_free b else id) w))"

definition status_ok :: "byte list" where "status_ok = le32 0"
definition status_err :: "byte list" where "status_err = le32 1"

definition v1_reject :: "nat list \<Rightarrow> nat \<Rightarrow> bool" where
  "v1_reject hdr nfd =
     (let slen = hdr ! 1; nbuf = hdr ! 5 in
      nbuf = 0 \<or> nbuf > MAXBUF \<or> nbuf \<noteq> nfd \<or> slen = 0 \<or> slen > MAXSPIRV \<or> slen mod 4 \<noteq> 0 \<or>
      hdr ! 2 > MAXGRP \<or> hdr ! 3 > MAXGRP \<or> hdr ! 4 > MAXGRP)"

definition serve_v1 ::
  "vkdev \<Rightarrow> nat list \<Rightarrow> fd list \<Rightarrow> conn \<Rightarrow> pinent pcache \<Rightarrow> gworld \<Rightarrow>
   conn \<times> pinent pcache \<times> gworld" where
  "serve_v1 V hdr fds c pc w =
     (let slen = hdr ! 1; nbuf = hdr ! 5 in
      if v1_reject hdr (length fds) then (put status_err c, pc, w)
      else
     (case rd (nbuf * 4) c of
        (None, c1) \<Rightarrow> (put status_err c1, pc, w)
      | (Some bsize, c1) \<Rightarrow>
     (case ext_try (vk_ok V) w of
        (False, w1) \<Rightarrow> (put status_err c1, pc, w1)
      | (True, w1) \<Rightarrow>
     (case rd slen c1 of
        (None, c2) \<Rightarrow> (put status_err c2, pc, w1)
      | (Some spirv, c2) \<Rightarrow>
     (case v1_imports V fds w1 of
        (ok1, bms, w2) \<Rightarrow>
     (case (if ok1 then get_pipe (vk_ok V) spirv nbuf pc w2 else (None, pc, w2)) of
        (p, pc1, w3) \<Rightarrow>
     (case (case p of
              None \<Rightarrow> (False, w3)
            | Some i \<Rightarrow> run_stages (vk_ok V) pc1
                [\<lparr>sg_pc = i, sg_gx = hdr ! 2, sg_gy = hdr ! 3, sg_gz = hdr ! 4,
                  sg_bufs = map fst bms\<rparr>] w3) of
        (ok2, w4) \<Rightarrow>
          (put (if ok2 then status_ok else status_err) c2, unpin_all pc1, v1_cleanup bms w4))))))))"

text \<open>
  What \<open>serve_v1\<close> owns it returns, unless an import failed after it had created its buffer: then
  the loop at the end destroys that buffer a second time.
\<close>

definition bm_objs :: "(nat \<times> nat) list \<Rightarrow> nat multiset" where
  "bm_objs bms = sum_list (map (\<lambda>(b, m). {#b, m#}) bms)"

lemma v1_cleanup_acct:
  assumes "w_live w = L + bm_objs bms" and "0 \<notin># bm_objs bms"
  shows "w_live (v1_cleanup bms w) = L \<and> w_fds (v1_cleanup bms w) = w_fds w \<and>
    w_bad (v1_cleanup bms w) = w_bad w \<and> w_subs (v1_cleanup bms w) = w_subs w"
  using assms
proof (induction bms arbitrary: w)
  case Nil
  then show ?case by (simp add: bm_objs_def)
next
  case (Cons p bms)
  obtain b m where p: "p = (b, m)" by (cases p)
  have nz: "b \<noteq> 0" "m \<noteq> 0" and zero: "0 \<notin># bm_objs bms" using Cons.prems p by (auto simp: bm_objs_def)
  have w: "w_live w = L + bm_objs bms + {#b, m#}" using Cons.prems p by (simp add: bm_objs_def ac_simps)
  have "w_live (ext_free m (ext_free b w)) = L + bm_objs bms"
    using w by (simp add: acct_simps)
  from Cons.IH [OF this zero] show ?case using nz p w by (simp add: acct_simps)
qed

lemma import_buf_nonzero:
  "import_buf V f b m w = (True, b', m', w') \<Longrightarrow> b' \<noteq> 0 \<and> m' \<noteq> 0"
  by (auto simp: import_buf_def ext_new_def split: prod.splits option.splits bool.splits if_splits)

lemma import_buf_refused:
  "\<forall>k. vk_ok V k \<Longrightarrow> import_buf V f b m w = (False, b', m', w') \<Longrightarrow> b' = b \<and> m' = m"
  by (auto simp: import_buf_def ext_new_def ext_try_def fd_dup_def split: prod.splits option.splits)

lemma v1_imports_acct:
  assumes "v1_imports V fs w = (r, bms, w')" and "r \<or> (\<forall>k. vk_ok V k)"
  shows "\<exists>own. w_live w' = w_live w + bm_objs own \<and> 0 \<notin># bm_objs own \<and>
    (\<forall>u. v1_cleanup bms u = v1_cleanup own u) \<and> (r \<longrightarrow> own = bms) \<and>
    w_fds w' = w_fds w \<and> w_bad w' = w_bad w \<and> w_subs w' = w_subs w"
  using assms
proof (induction fs arbitrary: w r bms)
  case Nil
  then show ?case by (intro exI [of _ "[]"]) (simp add: bm_objs_def)
next
  case (Cons f fs)
  obtain q b m w1 where i: "import_buf V f 0 0 w = (q, b, m, w1)" by (cases "import_buf V f 0 0 w")
  note acct = import_buf_acct [OF i]
  have subs: "w_subs w1 = w_subs w" using acct by (intro more_subs) simp
  show ?case
  proof (cases q)
    case True
    with i obtain bms' where v: "v1_imports V fs w1 = (r, bms', w')" and bms: "bms = (b, m) # bms'"
      using Cons.prems(1) by (auto split: prod.splits)
    from Cons.IH [OF v Cons.prems(2)] obtain own where own:
      "w_live w' = w_live w1 + bm_objs own" "0 \<notin># bm_objs own"
      "\<forall>u. v1_cleanup bms' u = v1_cleanup own u" "r \<longrightarrow> own = bms'"
      "w_fds w' = w_fds w1 \<and> w_bad w' = w_bad w1 \<and> w_subs w' = w_subs w1" by blast
    have "b \<noteq> 0 \<and> m \<noteq> 0" using import_buf_nonzero i True by metis
    then show ?thesis
      using own acct True bms subs
      by (intro exI [of _ "(b, m) # own"]) (auto simp: bm_objs_def)
  next
    case False
    with i Cons.prems have "r = False \<and> bms = [(b, m)] \<and> w' = w1 \<and> (\<forall>k. vk_ok V k)" by auto
    moreover from this i False have "b = 0 \<and> m = 0" using import_buf_refused [of V f 0 0 w b m w1] by simp
    ultimately show ?thesis using acct subs False
      by (intro exI [of _ "[]"]) (auto simp: bm_objs_def)
  qed
qed

end
