(* ===== verification/Gpudzc_Session.thy ===== *)
theory Gpudzc_Session
  imports Gpudzc_Run
begin

text \<open>
  The session protocol GPZ2 of src/src/hwbridge/gpud-zc.c (\<open>serve_v2\<close>): buffers are imported once
  and named by handles, a dispatch runs up to 32 stages in one round trip, and everything is given
  back when the connection ends. IMPORT and RELEASE are shared with the v3 protocol, so they work
  on any extension of the session record.
\<close>

section \<open>Session state\<close>

record hbuf =
  hb_b :: nat
  hb_m :: nat
  hb_size :: nat

record zsess =
  z_c :: conn
  z_h :: "hbuf option list"
  z_pc :: "pinent pcache"
  z_w :: gworld
  z_ndisp :: nat

definition hb_objs :: "hbuf \<Rightarrow> nat multiset" where
  "hb_objs e = {#hb_b e, hb_m e#}"

definition z_put :: "byte list \<Rightarrow> 'a zsess_scheme \<Rightarrow> 'a zsess_scheme" where
  "z_put bs s = s\<lparr>z_c := put bs (z_c s)\<rparr>"

section \<open>IMPORT and RELEASE\<close>

definition import_one ::
  "vkdev \<Rightarrow> fd \<times> nat \<Rightarrow> hbuf option list \<times> gworld \<Rightarrow> nat option \<times> hbuf option list \<times> gworld" where
  "import_one V q s =
     (case free_slot (fst s) of
        None \<Rightarrow> (None, s)
      | Some k \<Rightarrow>
          (case import_buf V (fst q) 0 0 (snd s) of
             (False, b, m, w1) \<Rightarrow> (None, fst s, w1)
           | (True, b, m, w1) \<Rightarrow>
               (Some k, (fst s)[k := Some \<lparr>hb_b = b, hb_m = m, hb_size = snd q\<rparr>], w1)))"

definition z_import :: "vkdev \<Rightarrow> nat \<Rightarrow> fd list \<Rightarrow> 'a zsess_scheme \<Rightarrow> 'a zsess_scheme" where
  "z_import V nbuf fds s =
     (if nbuf = 0 \<or> nbuf > MAXBUF \<or> nbuf \<noteq> length fds then z_put status_err s
      else
     (case rd (nbuf * 4) (z_c s) of
        (None, c1) \<Rightarrow> z_put status_err (s\<lparr>z_c := c1\<rparr>)
      | (Some bs, c1) \<Rightarrow>
     (case traverse (import_one V) (zip fds (get32s nbuf bs)) (z_h s, z_w s) of
        (r, h1, w1) \<Rightarrow>
          (let s1 = s\<lparr>z_c := c1, z_h := h1, z_w := w1\<rparr> in
           case r of
             None \<Rightarrow> z_put status_err s1
           | Some hds \<Rightarrow> z_put (put32s hds) (z_put status_ok s1)))))"

definition free_hbuf :: "hbuf \<Rightarrow> gworld \<Rightarrow> gworld" where
  "free_hbuf e w = ext_free (hb_m e) (ext_free (hb_b e) w)"

fun release_each :: "nat list \<Rightarrow> hbuf option list \<Rightarrow> gworld \<Rightarrow> hbuf option list \<times> gworld" where
  "release_each [] h w = (h, w)"
| "release_each (k # ks) h w =
     (case slot_get h k of
        None \<Rightarrow> release_each ks h w
      | Some e \<Rightarrow> release_each ks (slot_clear h k) (free_hbuf e w))"

definition z_release :: "nat \<Rightarrow> 'a zsess_scheme \<Rightarrow> 'a zsess_scheme" where
  "z_release nbuf s =
     (if nbuf = 0 \<or> nbuf > MAXBUF then z_put status_err s
      else
     (case rd (nbuf * 4) (z_c s) of
        (None, c1) \<Rightarrow> z_put status_err (s\<lparr>z_c := c1\<rparr>)
      | (Some bs, c1) \<Rightarrow>
     (case release_each (get32s nbuf bs) (z_h s) (z_w s) of
        (h1, w1) \<Rightarrow> z_put status_ok (s\<lparr>z_c := c1, z_h := h1, z_w := w1\<rparr>))))"

section \<open>DISPATCH\<close>

text \<open>One stage as read from the socket: grid, the buffers its handles name, and the SPIR-V.\<close>

record vstage =
  vs_gx :: nat
  vs_gy :: nat
  vs_gz :: nat
  vs_bufs :: "nat list"
  vs_spv :: "byte list"

definition stage_bad :: "nat \<Rightarrow> nat \<Rightarrow> nat \<Rightarrow> nat \<Rightarrow> nat \<Rightarrow> bool" where
  "stage_bad slen gx gy gz nbuf \<longleftrightarrow>
     nbuf = 0 \<or> nbuf > MAXBUF \<or> slen = 0 \<or> slen > MAXSPIRV \<or> slen mod 4 \<noteq> 0 \<or>
     gx > MAXGRP \<or> gy > MAXGRP \<or> gz > MAXGRP"

definition read_stage ::
  "vkdev \<Rightarrow> hbuf option list \<Rightarrow> nat \<Rightarrow> conn \<times> gworld \<Rightarrow> vstage option \<times> conn \<times> gworld" where
  "read_stage V h i s =
     (case rd 20 (fst s) of
        (None, c1) \<Rightarrow> (None, c1, snd s)
      | (Some sh, c1) \<Rightarrow>
     (let f = get32s 5 sh; slen = f ! 0; gx = f ! 1; gy = f ! 2; gz = f ! 3; nbuf = f ! 4 in
      if stage_bad slen gx gy gz nbuf then (None, c1, snd s)
      else
     (case rd (nbuf * 4) c1 of
        (None, c2) \<Rightarrow> (None, c2, snd s)
      | (Some hb, c2) \<Rightarrow>
     (let es = map (slot_get h) (get32s nbuf hb) in
      if None \<in> set es then (None, c2, snd s)
      else
     (case ext_try (vk_ok V) (snd s) of
        (False, w1) \<Rightarrow> (None, c2, w1)
      | (True, w1) \<Rightarrow>
     (case rd slen c2 of
        (None, c3) \<Rightarrow> (None, c3, w1)
      | (Some spv, c3) \<Rightarrow>
          (Some \<lparr>vs_gx = gx, vs_gy = gy, vs_gz = gz, vs_bufs = map (hb_b \<circ> the) es,
                 vs_spv = spv\<rparr>, c3, w1)))))))"

definition vs_query :: "vstage \<Rightarrow> byte list \<times> nat" where
  "vs_query v = (vs_spv v, length (vs_bufs v))"

definition mk_stage :: "vstage \<Rightarrow> nat \<Rightarrow> stage" where
  "mk_stage v i = \<lparr>sg_pc = i, sg_gx = vs_gx v, sg_gy = vs_gy v, sg_gz = vs_gz v, sg_bufs = vs_bufs v\<rparr>"

text \<open>Under the device lock: resolve every stage in the cache, run, unpin.\<close>

definition run_dispatch ::
  "vkdev \<Rightarrow> vstage list \<Rightarrow> pinent pcache \<Rightarrow> gworld \<Rightarrow> bool \<times> pinent pcache \<times> gworld" where
  "run_dispatch V vs pc w =
     (case traverse (get_q (vk_ok V)) (map vs_query vs) (pc, w) of
        (None, pc1, w1) \<Rightarrow> (False, unpin_all pc1, w1)
      | (Some is, pc1, w1) \<Rightarrow>
          (case run_stages (vk_ok V) pc1 (map2 mk_stage vs is) w1 of
             (r, w2) \<Rightarrow> (r, unpin_all pc1, w2)))"

definition z_dispatch :: "vkdev \<Rightarrow> nat \<Rightarrow> 'a zsess_scheme \<Rightarrow> 'a zsess_scheme" where
  "z_dispatch V nstage s =
     (case (if 1 \<le> nstage \<and> nstage \<le> MAXSTAGE
            then traverse (read_stage V (z_h s)) [0..<nstage] (z_c s, z_w s)
            else (None, z_c s, z_w s)) of
        (None, c1, w1) \<Rightarrow>
          z_put status_err (s\<lparr>z_c := c1, z_w := w1, z_ndisp := Suc (z_ndisp s)\<rparr>)
      | (Some vs, c1, w1) \<Rightarrow>
          (case run_dispatch V vs (z_pc s) w1 of
             (r, pc2, w2) \<Rightarrow>
               z_put (if r then status_ok else status_err)
                 (s\<lparr>z_c := c1, z_pc := pc2, z_w := w2, z_ndisp := Suc (z_ndisp s)\<rparr>)))"

section \<open>The session loop\<close>

definition MAGIC1 :: nat where "MAGIC1 = 0x47505A43"
definition MAGIC2 :: nat where "MAGIC2 = 0x47505A32"
definition MAGIC3 :: nat where "MAGIC3 = 0x47505A33"

definition v2_cmd :: "vkdev \<Rightarrow> nat list \<Rightarrow> fd list \<Rightarrow> zsess \<Rightarrow> zsess" where
  "v2_cmd V hdr fds s =
     (let cmd = hdr ! 1 in
      if cmd = 1 then z_import V (hdr ! 2) fds s
      else if cmd = 2 then z_dispatch V (hdr ! 2) s
      else if cmd = 3 then z_release (hdr ! 2) s
      else z_put status_err s)"

text \<open>One command, then the descriptors that came with it are closed.\<close>

definition v2_step :: "vkdev \<Rightarrow> nat list \<Rightarrow> fd list \<Rightarrow> zsess \<Rightarrow> zsess" where
  "v2_step V hdr fds s = (let s1 = v2_cmd V hdr fds s in s1\<lparr>z_w := close_all fds (z_w s1)\<rparr>)"

text \<open>
  The next header with its descriptors (room for 16). A short read ends the session without
  looking at the control data, so descriptors it brought stay open.
\<close>

definition next_hdr ::
  "nat \<Rightarrow> 'a zsess_scheme \<Rightarrow> nat list option \<times> fd list \<times> 'a zsess_scheme" where
  "next_hdr magic s =
     (case sys_recv MAXBUF 24 (z_c s) (z_w s) of
        (bs, fs, c1, w1) \<Rightarrow>
          (let hdr = get32s 6 bs in
           if length bs \<noteq> 24 then (None, [], s\<lparr>z_c := c1, z_w := w1\<rparr>)
           else if length fs > MAXBUF then (None, [], s\<lparr>z_c := c1, z_w := close_all fs w1\<rparr>)
           else if hdr ! 0 \<noteq> magic then (None, fs, s\<lparr>z_c := c1, z_w := w1\<rparr>)
           else (Some hdr, fs, s\<lparr>z_c := c1, z_w := w1\<rparr>)))"

fun free_handles :: "hbuf option list \<Rightarrow> gworld \<Rightarrow> gworld" where
  "free_handles [] w = w"
| "free_handles (None # h) w = free_handles h w"
| "free_handles (Some e # h) w = free_handles h (free_hbuf e w)"

definition v2_end :: "fd list \<Rightarrow> zsess \<Rightarrow> zsess" where
  "v2_end left s = s\<lparr>z_h := [], z_w := free_handles (z_h s) (close_all left (z_w s))\<rparr>"

definition z_bytes :: "'a zsess_scheme \<Rightarrow> nat" where
  "z_bytes s = cbytes (z_c s)"

lemma z_put_simps [simp]:
  "z_bytes (z_put bs s) = z_bytes s" "z_h (z_put bs s) = z_h s" "z_pc (z_put bs s) = z_pc s"
  "z_w (z_put bs s) = z_w s" "z_ndisp (z_put bs s) = z_ndisp s" "z_c (z_put bs s) = put bs (z_c s)"
  "zsess.more (z_put bs s) = zsess.more s"
  by (simp_all add: z_put_def z_bytes_def)

lemma z_import_bytes: "z_bytes (z_import V n fds s) \<le> z_bytes s"
  by (auto simp: z_import_def z_bytes_def Let_def dest!: rd_cbytes split: prod.splits option.splits)

lemma z_release_bytes: "z_bytes (z_release n s) \<le> z_bytes s"
  by (auto simp: z_release_def z_bytes_def dest!: rd_cbytes split: prod.splits option.splits)

text \<open>What reading one stage does to the connection and the world, whatever its outcome.\<close>

lemma read_stage_frame:
  assumes "read_stage V h i s = (r, s')"
  shows "cbytes (fst s') \<le> cbytes (fst s) \<and> (fd_msgs n (cq (fst s)) \<longrightarrow> fd_msgs n (cq (fst s'))) \<and>
    w_live (snd s') = w_live (snd s) \<and> w_fds (snd s') = w_fds (snd s) \<and>
    w_bad (snd s') = w_bad (snd s) \<and> w_subs (snd s') = w_subs (snd s)"
proof -
  have rds: "rd k c = (x, c') \<Longrightarrow>
      cbytes c' \<le> cbytes c \<and> (fd_msgs n (cq c) \<longrightarrow> fd_msgs n (cq c'))" for k c x c'
    using rd_cbytes rd_fd_msgs by blast
  have tr: "ext_try ok w = (x, w') \<Longrightarrow> w_live w' = w_live w \<and> w_fds w' = w_fds w \<and>
      w_bad w' = w_bad w \<and> w_subs w' = w_subs w" for ok x and w w' :: gworld
    using ext_try_acct more_subs by blast
  show ?thesis
    using assms
    by (auto simp: read_stage_def Let_def dest!: rds tr split: prod.splits option.splits bool.splits if_splits)
qed

lemma read_stages_frame:
  assumes "traverse (read_stage V h) is s = (r, s')"
  shows "cbytes (fst s') \<le> cbytes (fst s) \<and> (fd_msgs n (cq (fst s)) \<longrightarrow> fd_msgs n (cq (fst s'))) \<and>
    w_live (snd s') = w_live (snd s) \<and> w_fds (snd s') = w_fds (snd s) \<and>
    w_bad (snd s') = w_bad (snd s) \<and> w_subs (snd s') = w_subs (snd s)"
  by (rule traverse_invariant [OF _ assms]) (use read_stage_frame in \<open>fastforce+\<close>)

lemma z_dispatch_bytes: "z_bytes (z_dispatch V n s) \<le> z_bytes s"
proof -
  have "cbytes c1 \<le> cbytes (z_c s)"
    if "(if 1 \<le> n \<and> n \<le> MAXSTAGE then traverse (read_stage V (z_h s)) [0..<n] (z_c s, z_w s)
          else (None, z_c s, z_w s)) = (r, c1, w1)" for r c1 w1
    using that read_stages_frame [of V "z_h s" "[0..<n]" "(z_c s, z_w s)" r "(c1, w1)"]
    by (auto split: if_splits)
  then show ?thesis
    by (auto simp: z_dispatch_def z_bytes_def z_put_def split: prod.splits option.splits)
qed

lemma v2_step_bytes: "z_bytes (v2_step V hdr fds s) \<le> z_bytes s"
  using z_import_bytes [of V "hdr ! 2" fds s] z_release_bytes [of "hdr ! 2" s]
    z_dispatch_bytes [of V "hdr ! 2" s]
  by (auto simp: v2_step_def v2_cmd_def Let_def z_bytes_def z_put_def)

lemma next_hdr_bytes: "next_hdr m s = (Some hdr, fds, s') \<Longrightarrow> z_bytes s' < z_bytes s"
  by (auto simp: next_hdr_def z_bytes_def Let_def dest!: sys_recv_acct split: prod.splits if_splits)

lemma v2_next_bytes:
  "next_hdr m (v2_step V hdr fds s) = (Some hdr', fds', s') \<Longrightarrow> z_bytes s' < z_bytes s"
  using next_hdr_bytes v2_step_bytes by (meson order_less_le_trans)

function v2_loop :: "vkdev \<Rightarrow> nat list \<Rightarrow> fd list \<Rightarrow> zsess \<Rightarrow> zsess" where
  "v2_loop V hdr fds s =
     (case next_hdr MAGIC2 (v2_step V hdr fds s) of
        (None, left, s1) \<Rightarrow> v2_end left s1
      | (Some hdr1, fds1, s1) \<Rightarrow> v2_loop V hdr1 fds1 s1)"
  by pat_completeness auto
termination
  by (relation "measure (\<lambda>(V, hdr, fds, s). z_bytes s)")
    (auto dest!: sym [of "(_, _)"] v2_next_bytes)

declare v2_loop.simps [simp del]

definition serve_v2 ::
  "vkdev \<Rightarrow> nat list \<Rightarrow> fd list \<Rightarrow> conn \<Rightarrow> pinent pcache \<Rightarrow> gworld \<Rightarrow>
   conn \<times> pinent pcache \<times> gworld" where
  "serve_v2 V hdr fds c pc w =
     (let s = v2_loop V hdr fds
        \<lparr>z_c = c, z_h = replicate MAXH None, z_pc = pc, z_w = w, z_ndisp = 0\<rparr>
      in (z_c s, z_pc s, z_w s))"

section \<open>Everything a session holds is accounted for\<close>

text \<open>
  \<open>owns L F h w\<close>: the objects alive are \<open>L\<close> and the two of each used handle; the open
  descriptors are \<open>F\<close>; nothing was freed or closed twice.
\<close>

definition owns :: "nat multiset \<Rightarrow> fd multiset \<Rightarrow> hbuf option list \<Rightarrow> gworld \<Rightarrow> bool" where
  "owns L F h w \<longleftrightarrow>
     length h = MAXH \<and> w_live w = L + slot_sum hb_objs h \<and> w_fds w = F \<and> \<not> w_bad w"

lemma import_one_owns:
  assumes i: "import_one V q s = (r, s')" and own: "owns L F (fst s) (snd s)"
  shows "owns L F (fst s') (snd s') \<and> world.more (snd s') = world.more (snd s)"
proof (cases "free_slot (fst s)")
  case None
  with i own show ?thesis by (auto simp: import_one_def)
next
  case (Some k)
  obtain q' b m w1 where b: "import_buf V (fst q) 0 0 (snd s) = (q', b, m, w1)"
    by (cases "import_buf V (fst q) 0 0 (snd s)")
  note acct = import_buf_acct [OF b]
  show ?thesis
    using i own Some b acct
    by (cases q') (auto simp: import_one_def owns_def slot_sum_alloc [OF Some] hb_objs_def)
qed

lemma imports_own:
  assumes "traverse (import_one V) qs s = (r, s')" and "owns L F (fst s) (snd s)"
  shows "owns L F (fst s') (snd s') \<and> world.more (snd s') = world.more (snd s)"
  by (rule traverse_invariant [OF _ assms(1),
        where P = "\<lambda>u. owns L F (fst u) (snd u) \<and> world.more (snd u) = world.more (snd s)"])
    (use import_one_owns assms(2) in fastforce)+

lemma free_hbuf_acct:
  assumes "w_live w = L + hb_objs e"
  shows "w_live (free_hbuf e w) = L \<and> w_fds (free_hbuf e w) = w_fds w \<and>
    w_bad (free_hbuf e w) = w_bad w \<and> w_subs (free_hbuf e w) = w_subs w"
  using assms by (simp add: free_hbuf_def hb_objs_def acct_simps)

lemma release_each_owns:
  "release_each ks h w = (h', w') \<Longrightarrow> owns L F h w \<Longrightarrow> owns L F h' w' \<and> w_subs w' = w_subs w"
proof (induction ks h w arbitrary: h' w' rule: release_each.induct)
  case (2 k ks h w)
  show ?case
  proof (cases "slot_get h k")
    case None
    with 2 show ?thesis by simp
  next
    case (Some e)
    have "w_live w = (L + slot_sum hb_objs (slot_clear h k)) + hb_objs e"
      using 2(4) slot_sum_clear [OF Some, of hb_objs] by (simp add: owns_def ac_simps)
    note acct = free_hbuf_acct [OF this]
    have "owns L F (slot_clear h k) (free_hbuf e w)" using 2(4) acct by (simp add: owns_def)
    with 2(2) [OF Some] 2(3) Some acct show ?thesis by simp
  qed
qed simp

lemma free_handles_acct:
  "w_live w = L + slot_sum hb_objs h \<Longrightarrow>
     w_live (free_handles h w) = L \<and> w_fds (free_handles h w) = w_fds w \<and>
     w_bad (free_handles h w) = w_bad w \<and> w_subs (free_handles h w) = w_subs w"
proof (induction h w rule: free_handles.induct)
  case (3 e h w)
  have "w_live w = (L + slot_sum hb_objs h) + hb_objs e" using 3(2) by (simp add: ac_simps)
  from 3(1) free_hbuf_acct [OF this] show ?case by simp
qed simp_all

lemma run_dispatch_acct:
  assumes d: "run_dispatch V vs pc w = (r, pc', w')" and wf: "pcache_wf pc"
    and own: "w_live w = L + slot_sum pent_objs (pc_ents pc)" and bad: "\<not> w_bad w"
  shows "pcache_wf pc' \<and> pkeys pc' = {} \<and> w_live w' = L + slot_sum pent_objs (pc_ents pc') \<and>
    w_fds w' = w_fds w \<and> \<not> w_bad w'"
proof -
  have inv: "cache_inv L (w_fds w) (world.more w) (pc, w)"
    using wf own bad by (simp add: cache_inv_def)
  obtain x pc1 w1 where t: "traverse (get_q (vk_ok V)) (map vs_query vs) (pc, w) = (x, pc1, w1)"
    by (cases "traverse (get_q (vk_ok V)) (map vs_query vs) (pc, w)")
  have inv1: "cache_inv L (w_fds w) (world.more w) (pc1, w1)"
    using zc_cache.traverse_inv [OF inv t] .
  show ?thesis
    using d t inv1 unpin_all_wf [of pc1]
    by (auto simp: run_dispatch_def cache_inv_def dest!: run_stages_acct
        split: option.splits prod.splits)
qed

definition z_inv :: "nat multiset \<Rightarrow> fd multiset \<Rightarrow> fd list \<Rightarrow> 'a zsess_scheme \<Rightarrow> bool" where
  "z_inv L F fds s \<longleftrightarrow>
     pcache_wf (z_pc s) \<and> pkeys (z_pc s) = {} \<and> fd_msgs 24 (cq (z_c s)) \<and>
     owns (L + slot_sum pent_objs (pc_ents (z_pc s))) (F + mset fds) (z_h s) (z_w s)"

lemma z_put_inv [simp]: "z_inv L F fds (z_put bs s) = z_inv L F fds s"
  by (simp add: z_inv_def)

lemma z_import_inv:
  assumes "z_inv L F fds s"
  shows "z_inv L F fds (z_import V n fds' s)" and "zsess.more (z_import V n fds' s) = zsess.more s"
    and "w_subs (z_w (z_import V n fds' s)) = w_subs (z_w s)"
  using assms
  by (auto simp: z_import_def z_inv_def Let_def dest!: rd_fd_msgs [where n = 24] imports_own more_subs
      split: prod.splits option.splits)

lemma z_release_inv:
  assumes "z_inv L F fds s"
  shows "z_inv L F fds (z_release n s)" and "zsess.more (z_release n s) = zsess.more s"
    and "w_subs (z_w (z_release n s)) = w_subs (z_w s)"
  using assms
  by (auto simp: z_release_def z_inv_def dest!: rd_fd_msgs [where n = 24] release_each_owns
      split: prod.splits option.splits)

lemma z_dispatch_inv:
  assumes inv: "z_inv L F fds s"
  shows "z_inv L F fds (z_dispatch V n s)" and "zsess.more (z_dispatch V n s) = zsess.more s"
proof -
  have frame: "z_inv L F fds (s\<lparr>z_c := c1, z_w := w1\<rparr>)"
    if "(if 1 \<le> n \<and> n \<le> MAXSTAGE then traverse (read_stage V (z_h s)) [0..<n] (z_c s, z_w s)
          else (None, z_c s, z_w s)) = (r, c1, w1)" for r c1 w1
    using that inv read_stages_frame [of V "z_h s" "[0..<n]" "(z_c s, z_w s)" r "(c1, w1)" 24]
    by (auto simp: z_inv_def owns_def split: if_splits)
  have run: "z_inv L F fds (s\<lparr>z_c := c1, z_pc := pc2, z_w := w2\<rparr>)"
    if "z_inv L F fds (s\<lparr>z_c := c1, z_w := w1\<rparr>)" "run_dispatch V vs (z_pc s) w1 = (r, pc2, w2)"
    for c1 w1 vs r pc2 w2
    using run_dispatch_acct [OF that(2), of "L + slot_sum hb_objs (z_h s)"] that(1)
    by (auto simp: z_inv_def owns_def ac_simps)
  have nd: "z_inv L F fds (u\<lparr>z_ndisp := k\<rparr>) = z_inv L F fds u" for u :: "'a zsess_scheme" and k
    by (simp add: z_inv_def)
  obtain r c1 w1 where t: "(if 1 \<le> n \<and> n \<le> MAXSTAGE
      then traverse (read_stage V (z_h s)) [0..<n] (z_c s, z_w s)
      else (None, z_c s, z_w s)) = (r, c1, w1)"
    by (metis surj_pair)
  have "z_inv L F fds (z_dispatch V n s) \<and> zsess.more (z_dispatch V n s) = zsess.more s"
  proof (cases r)
    case None
    have "z_dispatch V n s =
        z_put status_err (s\<lparr>z_c := c1, z_w := w1, z_ndisp := Suc (z_ndisp s)\<rparr>)"
      unfolding z_dispatch_def t None by simp
    with frame [OF t] show ?thesis by (simp add: z_inv_def)
  next
    case (Some vs)
    obtain q pc2 w2 where d: "run_dispatch V vs (z_pc s) w1 = (q, pc2, w2)"
      by (metis surj_pair)
    have "z_dispatch V n s = z_put (if q then status_ok else status_err)
        (s\<lparr>z_c := c1, z_pc := pc2, z_w := w2, z_ndisp := Suc (z_ndisp s)\<rparr>)"
      unfolding z_dispatch_def t Some by (simp add: d)
    with run [OF frame [OF t] d] show ?thesis by (simp add: z_inv_def)
  qed
  then show "z_inv L F fds (z_dispatch V n s)"
    and "zsess.more (z_dispatch V n s) = zsess.more s" by simp_all
qed

lemma z_close_inv:
  assumes "z_inv L F fds s"
  shows "z_inv L F [] (s\<lparr>z_w := close_all fds (z_w s)\<rparr>)"
  using assms by (auto simp: z_inv_def owns_def acct_simps)

lemma v2_step_inv: "z_inv L F fds s \<Longrightarrow> z_inv L F [] (v2_step V hdr fds s)"
  unfolding v2_step_def Let_def
  by (intro z_close_inv)
    (auto simp: v2_cmd_def Let_def intro: z_import_inv z_dispatch_inv z_release_inv)

lemma next_hdr_inv:
  assumes inv: "z_inv L F [] s" and n: "next_hdr m s = (r, fds, s')"
  shows "z_inv L F fds s'" and "zsess.more s' = zsess.more s"
proof -
  obtain bs fs c1 w1 where r: "sys_recv MAXBUF 24 (z_c s) (z_w s) = (bs, fs, c1, w1)"
    by (metis surj_pair)
  note acct = sys_recv_acct [OF r]
  have "fd_msgs 24 (cq c1) \<and> (fs \<noteq> [] \<longrightarrow> length bs = 24)"
    using sys_recv_fd_msgs [OF r, of 24] inv by (auto simp: z_inv_def)
  then show "z_inv L F fds s'" and "zsess.more s' = zsess.more s"
    using n acct inv unfolding next_hdr_def r
    by (auto simp: z_inv_def owns_def Let_def split: if_splits)
qed

interpretation v2: session_loop "v2_step V" "next_hdr MAGIC2" v2_end "v2_loop V" z_bytes
    "z_inv L F" "z_inv L F []" "z_inv L F" for V L F
proof unfold_locales
  show "v2_loop V hdr fds s =
      (case next_hdr MAGIC2 (v2_step V hdr fds s) of
         (None, left, s1) \<Rightarrow> v2_end left s1
       | (Some hdr1, fds1, s1) \<Rightarrow> v2_loop V hdr1 fds1 s1)" for hdr fds s
    by (rule v2_loop.simps)
qed (auto intro: v2_step_bytes next_hdr_bytes v2_step_inv next_hdr_inv)

lemma v2_end_acct:
  assumes "z_inv L F left s"
  shows "w_live (z_w (v2_end left s)) = L + slot_sum pent_objs (pc_ents (z_pc s)) \<and>
    w_fds (z_w (v2_end left s)) = F \<and> \<not> w_bad (z_w (v2_end left s)) \<and>
    pcache_wf (z_pc s) \<and> pkeys (z_pc s) = {} \<and> z_pc (v2_end left s) = z_pc s"
proof -
  have w: "w_live (close_all left (z_w s)) = (L + slot_sum pent_objs (pc_ents (z_pc s))) + slot_sum hb_objs (z_h s)"
    using assms by (simp add: z_inv_def owns_def acct_simps)
  show ?thesis
    using free_handles_acct [OF w] assms by (auto simp: z_inv_def owns_def v2_end_def acct_simps)
qed

lemma serve_v2_acct:
  assumes s: "serve_v2 V hdr fds c pc w = (c', pc', w')"
    and wf: "pcache_wf pc" "pkeys pc = {}" and msgs: "fd_msgs 24 (cq c)"
    and own: "w_live w = L + slot_sum pent_objs (pc_ents pc)" "w_fds w = F + mset fds" "\<not> w_bad w"
  shows "w_live w' = L + slot_sum pent_objs (pc_ents pc') \<and> w_fds w' = F \<and> \<not> w_bad w' \<and>
    pcache_wf pc' \<and> pkeys pc' = {}"
proof -
  let ?s = "\<lparr>z_c = c, z_h = replicate MAXH None, z_pc = pc, z_w = w, z_ndisp = 0\<rparr>"
  have "z_inv L F fds ?s"
    using wf msgs own by (simp add: z_inv_def owns_def slot_sum_replicate)
  from v2.loop_ends [OF this, of V hdr] obtain left s1
    where l: "v2_loop V hdr fds ?s = v2_end left s1" and i: "z_inv L F left s1" by blast
  show ?thesis
    using s v2_end_acct [OF i] by (auto simp: serve_v2_def l Let_def)
qed

section \<open>What a well-formed dispatch does\<close>

text \<open>A stage as a client writes it: grid, handles, SPIR-V.\<close>

record cstage =
  cs_gx :: nat
  cs_gy :: nat
  cs_gz :: nat
  cs_hds :: "nat list"
  cs_spv :: "byte list"

definition enc_stage :: "cstage \<Rightarrow> byte list" where
  "enc_stage x =
     put32s [length (cs_spv x), cs_gx x, cs_gy x, cs_gz x, length (cs_hds x)] @
     put32s (cs_hds x) @ cs_spv x"

definition stage_fits :: "hbuf option list \<Rightarrow> cstage \<Rightarrow> bool" where
  "stage_fits h x \<longleftrightarrow>
     cs_hds x \<noteq> [] \<and> length (cs_hds x) \<le> MAXBUF \<and> (\<forall>k\<in>set (cs_hds x). slot_get h k \<noteq> None) \<and>
     cs_spv x \<noteq> [] \<and> length (cs_spv x) \<le> MAXSPIRV \<and> length (cs_spv x) mod 4 = 0 \<and>
     cs_gx x \<le> MAXGRP \<and> cs_gy x \<le> MAXGRP \<and> cs_gz x \<le> MAXGRP"

definition vstage_of :: "hbuf option list \<Rightarrow> cstage \<Rightarrow> vstage" where
  "vstage_of h x =
     \<lparr>vs_gx = cs_gx x, vs_gy = cs_gy x, vs_gz = cs_gz x,
      vs_bufs = map (\<lambda>k. hb_b (the (slot_get h k))) (cs_hds x), vs_spv = cs_spv x\<rparr>"

lemma get5_put32s:
  assumes "a < 2 ^ 32" "b < 2 ^ 32" "c < 2 ^ 32" "d < 2 ^ 32" "e < 2 ^ 32"
  shows "get32s 5 (put32s [a, b, c, d, e]) = [a, b, c, d, e]"
  using get32s_put32s_id [of "[a, b, c, d, e]" 5 "[]"] assms by simp

lemma read_stage_ok:
  assumes fits: "stage_fits h x" and len: "length h \<le> MAXH" and ok: "\<forall>k. vk_ok V k"
    and st: "stream (cq c) = enc_stage x @ z"
  shows "\<exists>c' w'. read_stage V h i (c, w) = (Some (vstage_of h x), c', w') \<and>
    stream (cq c') = z \<and> co c' = co c \<and> croom c' = croom c"
proof -
  let ?hdr = "put32s [length (cs_spv x), cs_gx x, cs_gy x, cs_gz x, length (cs_hds x)]"
  obtain c1 where c1: "rd 20 c = (Some ?hdr, c1)" "stream (cq c1) = put32s (cs_hds x) @ cs_spv x @ z"
      "co c1 = co c" "croom c1 = croom c"
    using rd_stream [of c ?hdr "put32s (cs_hds x) @ cs_spv x @ z" 20] st by (auto simp: enc_stage_def)
  obtain c2 where c2: "rd (length (cs_hds x) * 4) c1 = (Some (put32s (cs_hds x)), c2)"
      "stream (cq c2) = cs_spv x @ z" "co c2 = co c" "croom c2 = croom c"
    using rd_stream [of c1 "put32s (cs_hds x)" "cs_spv x @ z" "length (cs_hds x) * 4"] c1 by auto
  obtain c3 where c3: "rd (length (cs_spv x)) c2 = (Some (cs_spv x), c3)" "stream (cq c3) = z"
      "co c3 = co c" "croom c3 = croom c"
    using rd_stream [of c2 "cs_spv x" z] c2 by auto
  have hdr: "get32s 5 ?hdr = [length (cs_spv x), cs_gx x, cs_gy x, cs_gz x, length (cs_hds x)]"
    using fits by (intro get5_put32s) (auto simp: stage_fits_def MAXSPIRV_def MAXGRP_def MAXBUF_def)
  have "k < 2 ^ 32" if "k \<in> set (cs_hds x)" for k
    using that fits len slot_get_SomeD [of h k] by (fastforce simp: stage_fits_def MAXH_def)
  then have hds: "get32s (length (cs_hds x)) (put32s (cs_hds x)) = cs_hds x"
    using get32s_put32s_id [of "cs_hds x" "length (cs_hds x)" "[]"] by simp
  have some: "None \<notin> set (map (slot_get h) (cs_hds x))" using fits by (auto simp: stage_fits_def)
  have good: "\<not> stage_bad (length (cs_spv x)) (cs_gx x) (cs_gy x) (cs_gz x) (length (cs_hds x))"
    using fits by (auto simp: stage_bad_def stage_fits_def)
  have mal: "ext_try (vk_ok V) w = (True, w\<lparr>w_tick := Suc (w_tick w)\<rparr>)"
    using ok by (simp add: ext_try_def)
  show ?thesis
    using good some c3
    by (simp add: read_stage_def Let_def c1(1) hdr c2(1) hds mal c3(1) vstage_of_def
        del: put32s_simps)
qed

lemma read_stages_ok:
  assumes "\<forall>x\<in>set xs. stage_fits h x" and "length h \<le> MAXH" and "\<forall>k. vk_ok V k"
    and "stream (cq c) = concat (map enc_stage xs) @ z" and "length is = length xs"
  shows "\<exists>c' w'. traverse (read_stage V h) is (c, w) = (Some (map (vstage_of h) xs), c', w') \<and>
    stream (cq c') = z \<and> co c' = co c \<and> croom c' = croom c"
  using assms
proof (induction xs arbitrary: "is" c w)
  case Nil
  then show ?case by simp
next
  case (Cons x xs)
  obtain i js where "is": "is = i # js" "length js = length xs" using Cons.prems by (cases "is") auto
  obtain c1 w1 where r: "read_stage V h i (c, w) = (Some (vstage_of h x), c1, w1)"
    and c1: "stream (cq c1) = concat (map enc_stage xs) @ z" "co c1 = co c" "croom c1 = croom c"
    using read_stage_ok [of h x V c "concat (map enc_stage xs) @ z" i w] Cons.prems by auto
  obtain c2 w2 where "traverse (read_stage V h) js (c1, w1) = (Some (map (vstage_of h) xs), c2, w2)"
    and c2: "stream (cq c2) = z" "co c2 = co c1" "croom c2 = croom c1"
    using Cons.IH [of c1 js w1] Cons.prems c1 "is" by auto
  with r "is" c1 c2 show ?case by simp
qed

text \<open>
  With a driver that answers every call, and at most 16 different pipelines, the dispatch resolves
  every stage to a pinned pipeline made for its SPIR-V, and hands one command buffer to the queue.
\<close>

lemma run_dispatch_ok:
  assumes ok: "\<forall>k. vk_ok V k" and wf: "pcache_wf pc" "pkeys pc = {}"
    and own: "w_live w = L + slot_sum pent_objs (pc_ents pc)" and bad: "\<not> w_bad w"
    and few: "card (qkey ` set (map vs_query vs)) \<le> PCACHE"
  shows "\<exists>is pc1 pc' w'. run_dispatch V vs pc w = (True, pc', w') \<and>
    list_all2 (holds_key pc1) is (map vs_query vs) \<and>
    w_subs w' = w_subs w @ [cmd_buffer pc1 (map2 mk_stage vs is)]"
proof -
  have inv: "cache_inv L (w_fds w) (world.more w) (pc, w)"
    using wf own bad by (simp add: cache_inv_def)
  obtain "is" pc1 w1 where t: "traverse (get_q (vk_ok V)) (map vs_query vs) (pc, w) = (Some is, pc1, w1)"
    using resolve_total [OF inv ok, of "{}" "map vs_query vs"] wf few by auto
  have holds: "list_all2 (holds_key pc1) is (map vs_query vs)"
    using zc_cache.traverse_holds [OF inv t]
    by (auto simp: list_all2_conv_all_nth)
  have "w_subs w1 = w_subs w"
    using zc_cache.traverse_inv [OF inv t] by (intro more_subs) (simp add: cache_inv_def)
  moreover obtain w2 where s: "run_stages (vk_ok V) pc1 (map2 mk_stage vs is) w1 = (True, w2)"
    using run_stages_total [OF ok] by blast
  ultimately have "w_subs w2 = w_subs w @ [cmd_buffer pc1 (map2 mk_stage vs is)]"
    using run_stages_acct [OF s] by simp
  with t s holds show ?thesis by (auto simp: run_dispatch_def)
qed

end
