(* ===== verification/Gpudzc3_Run.thy ===== *)
theory Gpudzc3_Run
  imports Gpudzc_Session
begin

text \<open>
  The session protocol GPZ3 of src/src/hwbridge/gpud-zc.c (\<open>serve_v3\<close>), part one: the shader table
  (\<open>sh3_load\<close>, \<open>sh3_free\<close>), the descriptor pool of the session (\<open>dpool3_ensure\<close>), and
  \<open>run_stages3\<close>, which records stages with offsets, ranges and push constants and can leave out the
  barrier in front of a stage.
\<close>

definition MAXSH3 :: nat where "MAXSH3 = 512"
definition MAXSTAGE3 :: nat where "MAXSTAGE3 = 4096"
definition MAXPC3 :: nat where "MAXPC3 = 128"

section \<open>Shaders\<close>

record sh3 =
  s3_nbind :: nat
  s3_pcsize :: nat
  s3_shader :: nat
  s3_dsl :: nat
  s3_pll :: nat
  s3_pipe :: nat

definition s3_objs :: "sh3 \<Rightarrow> nat multiset" where
  "s3_objs e = {#s3_shader e, s3_dsl e, s3_pll e, s3_pipe e#}"

definition sh3_free :: "sh3 \<Rightarrow> gworld \<Rightarrow> gworld" where
  "sh3_free e w =
     ext_free (s3_shader e) (ext_free (s3_dsl e) (ext_free (s3_pll e) (ext_free (s3_pipe e) w)))"

text \<open>The creation steps and their undoing are those of the cache entries (\<open>make_pipe\<close>).\<close>

definition sh3_load :: "(nat \<Rightarrow> bool) \<Rightarrow> nat \<Rightarrow> nat \<Rightarrow> gworld \<Rightarrow> sh3 option \<times> gworld" where
  "sh3_load ok nbind pcsize w =
     (case make_pipe ok w of
        (None, w1) \<Rightarrow> (None, w1)
      | (Some (sh, dsl, pll, pipe), w1) \<Rightarrow>
          (Some \<lparr>s3_nbind = nbind, s3_pcsize = pcsize, s3_shader = sh, s3_dsl = dsl,
                 s3_pll = pll, s3_pipe = pipe\<rparr>, w1))"

lemma sh3_load_acct:
  "sh3_load ok n p w = (r, w') \<Longrightarrow>
     w_live w' = w_live w + (case r of None \<Rightarrow> {#} | Some e \<Rightarrow> s3_objs e) \<and> w_fds w' = w_fds w \<and>
     w_bad w' = w_bad w \<and> w_subs w' = w_subs w"
  by (auto simp: sh3_load_def s3_objs_def dest!: make_pipe_acct more_subs
      split: prod.splits option.splits)

lemma sh3_free_acct:
  "w_live w = L + s3_objs e \<Longrightarrow>
     w_live (sh3_free e w) = L \<and> w_fds (sh3_free e w) = w_fds w \<and>
     w_bad (sh3_free e w) = w_bad w \<and> w_subs (sh3_free e w) = w_subs w"
  by (auto simp: sh3_free_def s3_objs_def acct_simps)

section \<open>The descriptor pool\<close>

record dpool3 =
  dp_pool :: nat
  dp_sets :: nat
  dp_desc :: nat

definition dp_objs :: "dpool3 \<Rightarrow> nat multiset" where
  "dp_objs dp = (if dp_pool dp = 0 then {#} else {#dp_pool dp#})"

definition dp_free :: "dpool3 \<Rightarrow> gworld \<Rightarrow> gworld" where
  "dp_free dp w = (if dp_pool dp = 0 then w else ext_free (dp_pool dp) w)"

definition dpool3_ensure ::
  "(nat \<Rightarrow> bool) \<Rightarrow> nat \<Rightarrow> nat \<Rightarrow> dpool3 \<Rightarrow> gworld \<Rightarrow> bool \<times> dpool3 \<times> gworld" where
  "dpool3_ensure ok nsets ndesc dp w =
     (if dp_pool dp \<noteq> 0 \<and> nsets \<le> dp_sets dp \<and> ndesc \<le> dp_desc dp then (True, dp, w)
      else
        (let w1 = dp_free dp w;
             ms = (if nsets < 256 then 256 else nsets);
             md = (if ndesc < 1024 then 1024 else ndesc)
         in case ext_new ok w1 of
              (None, w2) \<Rightarrow> (False, dp\<lparr>dp_pool := 0\<rparr>, w2)
            | (Some p, w2) \<Rightarrow> (True, \<lparr>dp_pool = p, dp_sets = ms, dp_desc = md\<rparr>, w2)))"

lemma dp_free_acct:
  "w_live w = L + dp_objs dp \<Longrightarrow>
     w_live (dp_free dp w) = L \<and> w_fds (dp_free dp w) = w_fds w \<and>
     w_bad (dp_free dp w) = w_bad w \<and> w_subs (dp_free dp w) = w_subs w"
  by (auto simp: dp_free_def dp_objs_def acct_simps)

lemma dpool3_ensure_acct:
  assumes e: "dpool3_ensure ok ns nd dp w = (r, dp', w')" and own: "w_live w = L + dp_objs dp"
  shows "w_live w' = L + dp_objs dp' \<and> w_fds w' = w_fds w \<and> w_bad w' = w_bad w \<and>
    w_subs w' = w_subs w \<and> (r \<longrightarrow> dp_pool dp' \<noteq> 0 \<and> ns \<le> dp_sets dp' \<and> nd \<le> dp_desc dp')"
proof (cases "dp_pool dp \<noteq> 0 \<and> ns \<le> dp_sets dp \<and> nd \<le> dp_desc dp")
  case True
  with e own show ?thesis by (auto simp: dpool3_ensure_def)
next
  case False
  note free = dp_free_acct [OF own]
  obtain x w2 where n: "ext_new ok (dp_free dp w) = (x, w2)" by (metis surj_pair)
  have "w_subs w2 = w_subs (dp_free dp w)" using ext_new_acct [OF n] more_subs by blast
  moreover have "x = Some p \<Longrightarrow> p \<noteq> 0" for p
    using n by (auto simp: ext_new_def split: if_splits)
  ultimately show ?thesis
    using e False n free ext_new_acct [OF n]
    by (auto simp: dpool3_ensure_def dp_objs_def Let_def split: option.splits)
qed

section \<open>Stages with offsets and push constants\<close>

record stage3 =
  t_sh :: nat
  t_gx :: nat
  t_gy :: nat
  t_gz :: nat
  t_flags :: nat
  t_binds :: "(nat \<times> nat \<times> nat) list"
  t_pc :: "byte list"

definition bind3 :: "hbuf option list \<Rightarrow> nat \<times> nat \<times> nat \<Rightarrow> binding" where
  "bind3 h x = (case x of (k, off, rg) \<Rightarrow>
     (case slot_get h k of None \<Rightarrow> 0 | Some e \<Rightarrow> hb_b e, off, if rg = 0 then None else Some rg))"

definition stage3_cmds :: "sh3 option list \<Rightarrow> hbuf option list \<Rightarrow> stage3 \<Rightarrow> gcmd list" where
  "stage3_cmds sh h st =
     (case slot_get sh (t_sh st) of
        None \<Rightarrow> []
      | Some e \<Rightarrow>
          [BindPipe (s3_pipe e)] @
          (if t_binds st = [] then [] else [BindSets (s3_pll e) (map (bind3 h) (t_binds st))]) @
          (if t_pc st = [] then [] else [PushConst (s3_pll e) (t_pc st)]) @
          [Dispatch (t_gx st) (t_gy st) (t_gz st)])"

fun record_stages3 ::
  "bool \<Rightarrow> nat \<Rightarrow> sh3 option list \<Rightarrow> hbuf option list \<Rightarrow> stage3 list \<Rightarrow> gcmd list" where
  "record_stages3 first fl sh h [] = []"
| "record_stages3 first fl sh h (st # sts) =
     (if \<not> first \<and> even fl \<and> even (t_flags st) then [shader_to_shader] else []) @
     stage3_cmds sh h st @ record_stages3 False fl sh h sts"

definition cmd_buffer3 ::
  "nat \<Rightarrow> sh3 option list \<Rightarrow> hbuf option list \<Rightarrow> stage3 list \<Rightarrow> gcmd list" where
  "cmd_buffer3 fl sh h sts = host_to_shader # record_stages3 True fl sh h sts @ [shader_to_host]"

definition run_stages3 ::
  "(nat \<Rightarrow> bool) \<Rightarrow> dpool3 \<Rightarrow> sh3 option list \<Rightarrow> hbuf option list \<Rightarrow> stage3 list \<Rightarrow> nat \<Rightarrow> gworld \<Rightarrow>
   bool \<times> dpool3 \<times> gworld" where
  "run_stages3 ok dp sh h sts fl w =
     (case ext_try ok w of
        (False, w1) \<Rightarrow> (False, dp, w1)
      | (True, w1) \<Rightarrow>
     (case dpool3_ensure ok (length sts) (sum_list (map (length \<circ> t_binds) sts)) dp w1 of
        (False, dp1, w2) \<Rightarrow> (False, dp1, w2)
      | (True, dp1, w2) \<Rightarrow>
     (case ext_try ok w2 of
        (False, w3) \<Rightarrow> (False, dp1, w3)
      | (True, w3) \<Rightarrow>
     (case gpu_submit ok (cmd_buffer3 fl sh h sts) w3 of (r, w4) \<Rightarrow> (r, dp1, w4)))))"

lemma ext_try_gacct:
  "ext_try ok w = (r, w') \<Longrightarrow> w_live w' = w_live w \<and> w_fds w' = w_fds w \<and> w_bad w' = w_bad w \<and>
     w_subs w' = w_subs w"
  using ext_try_acct [of ok w r w'] more_subs [of w' w] by blast

lemma run_stages3_acct:
  assumes r: "run_stages3 ok dp sh h sts fl w = (r, dp', w')" and own: "w_live w = L + dp_objs dp"
  shows "w_live w' = L + dp_objs dp' \<and> w_fds w' = w_fds w \<and> w_bad w' = w_bad w \<and>
    (w_subs w' = w_subs w \<and> \<not> r \<or> w_subs w' = w_subs w @ [cmd_buffer3 fl sh h sts])"
proof -
  let ?n = "length sts" and ?m = "sum_list (map (length \<circ> t_binds) sts)"
  obtain a w1 where t1: "ext_try ok w = (a, w1)" by (metis surj_pair)
  obtain b dp1 w2 where e: "dpool3_ensure ok ?n ?m dp w1 = (b, dp1, w2)" by (metis surj_pair)
  obtain c w3 where t2: "ext_try ok w2 = (c, w3)" by (metis surj_pair)
  obtain d w4 where g: "gpu_submit ok (cmd_buffer3 fl sh h sts) w3 = (d, w4)" by (metis surj_pair)
  note accts = ext_try_gacct [OF t1] dpool3_ensure_acct [OF e, of L] ext_try_gacct [OF t2]
    gpu_submit_acct [OF g]
  show ?thesis
    using r own accts by (auto simp: run_stages3_def t1 e t2 g split: bool.splits)
qed

lemma run_stages3_total:
  assumes ok: "\<forall>k. ok k"
  shows "\<exists>dp' w'. run_stages3 ok dp sh h sts fl w = (True, dp', w')"
proof -
  have t: "ext_try ok u = (True, u\<lparr>w_tick := Suc (w_tick u)\<rparr>)" for u :: gworld
    using ok by (simp add: ext_try_def)
  have "\<exists>dp' w2. dpool3_ensure ok ns nd dp u = (True, dp', w2)" for ns nd u
    using ok by (auto simp: dpool3_ensure_def ext_new_def Let_def)
  then obtain dp1 w2 where "dpool3_ensure ok (length sts) (sum_list (map (length \<circ> t_binds) sts)) dp
      (w\<lparr>w_tick := Suc (w_tick w)\<rparr>) = (True, dp1, w2)" by blast
  moreover obtain w4 where "gpu_submit ok (cmd_buffer3 fl sh h sts) (w2\<lparr>w_tick := Suc (w_tick w2)\<rparr>) =
      (True, w4)" using gpu_submit_total [OF ok] by blast
  ultimately show ?thesis by (simp add: run_stages3_def t)
qed

text \<open>
  A barrier is left out only where the client asked for it: with the session flag clear and every
  stage flag even, the buffer is ordered like that of protocol v2.
\<close>

lemma ordered_record3:
  assumes "even fl" "\<forall>st\<in>set sts. even (t_flags st)"
  shows "(f \<Longrightarrow> b) \<Longrightarrow> ordered b (record_stages3 f fl sh h sts @ [shader_to_host])"
  using assms
proof (induction sts arbitrary: f b)
  case Nil
  then show ?case by (simp add: shader_to_host_def is_dispatch_def)
next
  case (Cons st sts)
  have any: "ordered c (record_stages3 False fl sh h sts @ [shader_to_host])" for c
    using Cons.IH [of False c] Cons.prems by simp
  show ?case
    using Cons.prems any
    by (auto simp: stage3_cmds_def shader_to_shader_def is_dispatch_def compute_barrier_def
        split: option.splits)
qed

lemma ordered_cmd_buffer3:
  "even fl \<Longrightarrow> \<forall>st\<in>set sts. even (t_flags st) \<Longrightarrow> ordered True (cmd_buffer3 fl sh h sts)"
  using ordered_record3 [of fl sts True True sh h]
  by (auto simp: cmd_buffer3_def host_to_shader_def is_dispatch_def)

lemma dispatches_cmd_buffer3:
  assumes "\<forall>st\<in>set sts. slot_get sh (t_sh st) \<noteq> None"
  shows "dispatches (cmd_buffer3 fl sh h sts) = map (\<lambda>st. (t_gx st, t_gy st, t_gz st)) sts"
proof -
  have "dispatches (record_stages3 f fl sh h sts) = map (\<lambda>st. (t_gx st, t_gy st, t_gz st)) sts" for f
    using assms
    by (induction sts arbitrary: f) (auto simp: stage3_cmds_def shader_to_shader_def split: option.splits)
  then show ?thesis by (simp add: cmd_buffer3_def host_to_shader_def shader_to_host_def)
qed

end
