(* ===== verification/Gpudzc3_Session.thy ===== *)
theory Gpudzc3_Session
  imports Gpudzc3_Run
begin

text \<open>
  The session protocol GPZ3 of src/src/hwbridge/gpud-zc.c (\<open>serve_v3\<close>), part two: the commands
  LOAD, DISPATCH (with and without stage flags), ALLOC_NATIVE, COPY, FLAGS, EXIT and UNLOAD beside
  the IMPORT and RELEASE of v2, the session loop, and \<open>serve\<close>, which tells the three protocols
  apart.
\<close>

record zsess3 = zsess +
  z_sh :: "sh3 option list"
  z_dp :: dpool3
  z_flags :: nat
  z_exit :: bool

definition sbo_align :: "vkdev \<Rightarrow> nat" where
  "sbo_align V = (if vk_align V = 0 then 16 else vk_align V)"

section \<open>LOAD and UNLOAD\<close>

definition load_bad :: "nat \<Rightarrow> nat \<Rightarrow> nat \<Rightarrow> bool" where
  "load_bad slen nbind pcsize \<longleftrightarrow>
     slen = 0 \<or> slen > MAXSPIRV \<or> slen mod 4 \<noteq> 0 \<or> nbind > MAXBUF \<or> pcsize > MAXPC3 \<or>
     pcsize mod 4 \<noteq> 0"

definition z3_load :: "vkdev \<Rightarrow> nat \<Rightarrow> nat \<Rightarrow> nat \<Rightarrow> zsess3 \<Rightarrow> zsess3" where
  "z3_load V slen nbind pcsize s =
     (if load_bad slen nbind pcsize then z_put status_err s
      else
     (case ext_try (vk_ok V) (z_w s) of
        (False, w1) \<Rightarrow> z_put status_err (s\<lparr>z_w := w1\<rparr>)
      | (True, w1) \<Rightarrow>
     (case rd slen (z_c s) of
        (None, c1) \<Rightarrow> z_put status_err (s\<lparr>z_c := c1, z_w := w1\<rparr>)
      | (Some spv, c1) \<Rightarrow>
     (case free_slot (z_sh s) of
        None \<Rightarrow> z_put status_err (s\<lparr>z_c := c1, z_w := w1\<rparr>)
      | Some k \<Rightarrow>
     (case sh3_load (vk_ok V) nbind pcsize w1 of
        (None, w2) \<Rightarrow> z_put status_err (s\<lparr>z_c := c1, z_w := w2\<rparr>)
      | (Some e, w2) \<Rightarrow>
          z_put (le32 k) (z_put status_ok
            (s\<lparr>z_c := c1, z_w := w2, z_sh := (z_sh s)[k := Some e]\<rparr>)))))))"

definition z3_unload :: "nat \<Rightarrow> zsess3 \<Rightarrow> zsess3" where
  "z3_unload k s =
     (case slot_get (z_sh s) k of
        None \<Rightarrow> z_put status_err s
      | Some e \<Rightarrow>
          z_put status_ok (s\<lparr>z_sh := slot_clear (z_sh s) k, z_w := sh3_free e (z_w s)\<rparr>))"

section \<open>DISPATCH\<close>

definition le_word :: "nat \<Rightarrow> nat \<Rightarrow> nat" where
  "le_word lo hi = hi * 2 ^ 32 + lo"

fun binds_of :: "nat list \<Rightarrow> (nat \<times> nat \<times> nat) list" where
  "binds_of (k # lo # hi # rg # xs) = (k, le_word lo hi, rg) # binds_of xs"
| "binds_of _ = []"

text \<open>
  \<open>hd>=MAXH || !h[hd].used || off>size || off%align || (rg && off+rg>size)\<close>, with the 64-bit
  addition written out.
\<close>

definition bind_bad :: "vkdev \<Rightarrow> hbuf option list \<Rightarrow> nat \<times> nat \<times> nat \<Rightarrow> bool" where
  "bind_bad V h x = (case x of (k, off, rg) \<Rightarrow>
     (case slot_get h k of
        None \<Rightarrow> True
      | Some e \<Rightarrow> off > hb_size e \<or> off mod sbo_align V \<noteq> 0 \<or>
          (rg \<noteq> 0 \<and> (off + rg) mod 2 ^ 64 > hb_size e)))"

definition read_stage3 ::
  "vkdev \<Rightarrow> bool \<Rightarrow> sh3 option list \<Rightarrow> hbuf option list \<Rightarrow> nat \<Rightarrow> conn \<Rightarrow>
   stage3 option \<times> conn" where
  "read_stage3 V flagged sh h i c =
     (case rd (if flagged then 28 else 24) c of
        (None, c1) \<Rightarrow> (None, c1)
      | (Some bs, c1) \<Rightarrow>
     (let f = get32s 6 bs; fl = (if flagged then le_nat (drop 24 bs) else 0);
          nbind = f ! 4; pcsize = f ! 5 in
      if (case slot_get sh (f ! 0) of
            None \<Rightarrow> True
          | Some e \<Rightarrow> nbind > MAXBUF \<or> nbind \<noteq> s3_nbind e \<or> pcsize \<noteq> s3_pcsize e) \<or>
         f ! 1 > MAXGRP \<or> f ! 2 > MAXGRP \<or> f ! 3 > MAXGRP
      then (None, c1)
      else
     (case rd (nbind * 16) c1 of
        (None, c2) \<Rightarrow> (None, c2)
      | (Some bd, c2) \<Rightarrow>
     (let bs = binds_of (get32s (4 * nbind) bd) in
      if \<exists>x\<in>set bs. bind_bad V h x then (None, c2)
      else
     (case rd pcsize c2 of
        (None, c3) \<Rightarrow> (None, c3)
      | (Some pc, c3) \<Rightarrow>
          (Some \<lparr>t_sh = f ! 0, t_gx = f ! 1, t_gy = f ! 2, t_gz = f ! 3, t_flags = fl,
                 t_binds = bs, t_pc = pc\<rparr>, c3))))))"

definition z3_dispatch :: "vkdev \<Rightarrow> bool \<Rightarrow> nat \<Rightarrow> zsess3 \<Rightarrow> zsess3" where
  "z3_dispatch V flagged nstage s =
     (case (if 1 \<le> nstage \<and> nstage \<le> MAXSTAGE3
            then traverse (read_stage3 V flagged (z_sh s) (z_h s)) [0..<nstage] (z_c s)
            else (None, z_c s)) of
        (None, c1) \<Rightarrow> z_put status_err (s\<lparr>z_c := c1, z_ndisp := Suc (z_ndisp s)\<rparr>)
      | (Some sts, c1) \<Rightarrow>
          (case run_stages3 (vk_ok V) (z_dp s) (z_sh s) (z_h s) sts (z_flags s) (z_w s) of
             (r, dp1, w1) \<Rightarrow>
               z_put (if r then status_ok else status_err)
                 (s\<lparr>z_c := c1, z_dp := dp1, z_w := w1, z_ndisp := Suc (z_ndisp s)\<rparr>)))"

section \<open>ALLOC_NATIVE and COPY\<close>

text \<open>
  When the memory cannot be bound, only the buffer is destroyed; the memory just allocated stays.
\<close>

definition alloc_native :: "vkdev \<Rightarrow> nat \<Rightarrow> gworld \<Rightarrow> hbuf option \<times> gworld" where
  "alloc_native V sz w =
     (case ext_new (vk_ok V) w of
        (None, w1) \<Rightarrow> (None, w1)
      | (Some b, w1) \<Rightarrow>
     (case pick_mem (vk_types V) (vk_native V sz) DEVICE_LOCAL of
        None \<Rightarrow> (None, ext_free b w1)
      | Some mt \<Rightarrow>
     (case ext_new (vk_ok V) w1 of
        (None, w2) \<Rightarrow> (None, ext_free b w2)
      | (Some m, w2) \<Rightarrow>
     (case ext_try (vk_ok V) w2 of
        (False, w3) \<Rightarrow> (None, ext_free b w3)
      | (True, w3) \<Rightarrow> (Some \<lparr>hb_b = b, hb_m = m, hb_size = sz\<rparr>, w3)))))"

definition z3_alloc :: "vkdev \<Rightarrow> nat \<Rightarrow> zsess3 \<Rightarrow> zsess3" where
  "z3_alloc V sz s =
     (case free_slot (z_h s) of
        None \<Rightarrow> z_put status_err s
      | Some k \<Rightarrow>
          if sz = 0 then z_put status_err s
          else
         (case alloc_native V sz (z_w s) of
            (None, w1) \<Rightarrow> z_put status_err (s\<lparr>z_w := w1\<rparr>)
          | (Some e, w1) \<Rightarrow>
              z_put (le32 k) (z_put status_ok (s\<lparr>z_w := w1, z_h := (z_h s)[k := Some e]\<rparr>))))"

text \<open>\<open>pl[0]+pl[2]<=h[s2].size && pl[1]+pl[2]<=h[d2].size\<close>, additions modulo \<open>2 ^ 64\<close>.\<close>

definition copy_fits :: "hbuf \<Rightarrow> hbuf \<Rightarrow> nat \<Rightarrow> nat \<Rightarrow> nat \<Rightarrow> bool" where
  "copy_fits es ed so dof n \<longleftrightarrow>
     n \<noteq> 0 \<and> (so + n) mod 2 ^ 64 \<le> hb_size es \<and> (dof + n) mod 2 ^ 64 \<le> hb_size ed"

definition copy_cmds :: "hbuf \<Rightarrow> hbuf \<Rightarrow> nat \<Rightarrow> nat \<Rightarrow> nat \<Rightarrow> gcmd list" where
  "copy_cmds es ed so dof n =
     [Barrier [StHost] [StTransfer] [HostWrite] [TransferRead],
      CopyBuf (hb_b es) (hb_b ed) so dof n,
      Barrier [StTransfer] [StHost, StCompute] [TransferWrite] [HostRead, ShaderRead]]"

definition z3_copy :: "vkdev \<Rightarrow> nat \<Rightarrow> nat \<Rightarrow> zsess3 \<Rightarrow> zsess3" where
  "z3_copy V s2 d2 s =
     (case rd 24 (z_c s) of
        (None, c1) \<Rightarrow> s\<lparr>z_c := c1\<rparr>
      | (Some pl, c1) \<Rightarrow>
          (let so = le_nat (take 8 pl); dof = le_nat (take 8 (drop 8 pl));
               n = le_nat (drop 16 pl) in
           case (slot_get (z_h s) s2, slot_get (z_h s) d2) of
             (Some es, Some ed) \<Rightarrow>
               if copy_fits es ed so dof n
               then (case gpu_submit (vk_ok V) (copy_cmds es ed so dof n) (z_w s) of
                       (r, w1) \<Rightarrow>
                         z_put (if r then status_ok else status_err) (s\<lparr>z_c := c1, z_w := w1\<rparr>))
               else z_put status_err (s\<lparr>z_c := c1\<rparr>)
           | _ \<Rightarrow> z_put status_err (s\<lparr>z_c := c1\<rparr>)))"

section \<open>The session loop\<close>

definition v3_cmd :: "vkdev \<Rightarrow> nat list \<Rightarrow> fd list \<Rightarrow> zsess3 \<Rightarrow> zsess3" where
  "v3_cmd V hdr fds s =
     (let cmd = hdr ! 1 in
      if cmd = 1 then z_import V (hdr ! 2) fds s
      else if cmd = 4 then z3_load V (hdr ! 2) (hdr ! 3) (hdr ! 4) s
      else if cmd = 5 \<or> cmd = 9 then z3_dispatch V (cmd = 9) (hdr ! 2) s
      else if cmd = 10 then z3_alloc V (hdr ! 2) s
      else if cmd = 11 then z3_copy V (hdr ! 2) (hdr ! 3) s
      else if cmd = 8 then z_put status_ok (s\<lparr>z_flags := hdr ! 2\<rparr>)
      else if cmd = 7 then (z_put status_ok s)\<lparr>z_exit := True\<rparr>
      else if cmd = 6 then z3_unload (hdr ! 2) s
      else if cmd = 3 then z_release (hdr ! 2) s
      else z_put status_err s)"

text \<open>EXIT ends the process (\<open>_exit(0)\<close>): nothing after it runs.\<close>

definition v3_step :: "vkdev \<Rightarrow> nat list \<Rightarrow> fd list \<Rightarrow> zsess3 \<Rightarrow> zsess3" where
  "v3_step V hdr fds s =
     (let s1 = v3_cmd V hdr fds s in
      if z_exit s1 then s1 else s1\<lparr>z_w := close_all fds (z_w s1)\<rparr>)"

definition v3_next :: "zsess3 \<Rightarrow> nat list option \<times> fd list \<times> zsess3" where
  "v3_next s = (if z_exit s then (None, [], s) else next_hdr MAGIC3 s)"

fun free_shaders :: "sh3 option list \<Rightarrow> gworld \<Rightarrow> gworld" where
  "free_shaders [] w = w"
| "free_shaders (None # t) w = free_shaders t w"
| "free_shaders (Some e # t) w = free_shaders t (sh3_free e w)"

definition v3_end :: "fd list \<Rightarrow> zsess3 \<Rightarrow> zsess3" where
  "v3_end left s =
     (if z_exit s then s
      else s\<lparr>z_h := [], z_sh := [],
             z_w := dp_free (z_dp s) (free_shaders (z_sh s)
                      (free_handles (z_h s) (close_all left (z_w s))))\<rparr>)"

lemma read_stage3_frame:
  assumes "read_stage3 V fl sh h i c = (r, c')"
  shows "cbytes c' \<le> cbytes c \<and> (fd_msgs n (cq c) \<longrightarrow> fd_msgs n (cq c'))"
proof -
  have rds: "rd k c = (x, c') \<Longrightarrow>
      cbytes c' \<le> cbytes c \<and> (fd_msgs n (cq c) \<longrightarrow> fd_msgs n (cq c'))" for k c x c'
    using rd_cbytes rd_fd_msgs by blast
  show ?thesis
    using assms unfolding read_stage3_def Let_def
    by (auto dest!: rds split: prod.splits option.splits if_splits)
qed

lemma read_stages3_frame:
  assumes "traverse (read_stage3 V fl sh h) is c = (r, c')"
  shows "cbytes c' \<le> cbytes c \<and> (fd_msgs n (cq c) \<longrightarrow> fd_msgs n (cq c'))"
  by (rule traverse_invariant [OF _ assms]) (use read_stage3_frame in \<open>fastforce+\<close>)

lemma z_upd_bytes [simp]:
  "z_bytes (s\<lparr>z_c := c\<rparr>) = cbytes c" "z_bytes (s\<lparr>z_w := w\<rparr>) = z_bytes s"
  "z_bytes (s\<lparr>z_h := h\<rparr>) = z_bytes s" "z_bytes (s\<lparr>z_ndisp := k\<rparr>) = z_bytes s"
  "z_bytes (t\<lparr>z_sh := x\<rparr>) = z_bytes t" "z_bytes (t\<lparr>z_dp := y\<rparr>) = z_bytes t"
  "z_bytes (t\<lparr>z_flags := k\<rparr>) = z_bytes t" "z_bytes (t\<lparr>z_exit := b\<rparr>) = z_bytes t"
  by (simp_all add: z_bytes_def)

lemma z3_load_bytes: "z_bytes (z3_load V a b p s) \<le> z_bytes s"
  by (auto simp: z3_load_def z_bytes_def dest!: rd_cbytes split: prod.splits option.splits bool.splits)

lemma z3_copy_bytes: "z_bytes (z3_copy V a b s) \<le> z_bytes s"
  by (auto simp: z3_copy_def z_bytes_def Let_def dest!: rd_cbytes split: prod.splits option.splits)

lemma z3_alloc_bytes: "z_bytes (z3_alloc V n s) = z_bytes s"
  by (auto simp: z3_alloc_def split: prod.splits option.splits)

lemma z3_unload_bytes: "z_bytes (z3_unload k s) = z_bytes s"
  by (auto simp: z3_unload_def split: option.splits)

lemma z3_dispatch_bytes: "z_bytes (z3_dispatch V fl n s) \<le> z_bytes s"
proof -
  have "cbytes c1 \<le> cbytes (z_c s)"
    if "(if 1 \<le> n \<and> n \<le> MAXSTAGE3 then traverse (read_stage3 V fl (z_sh s) (z_h s)) [0..<n] (z_c s)
          else (None, z_c s)) = (r, c1)" for r c1
    using that read_stages3_frame [of V fl "z_sh s" "z_h s" "[0..<n]" "z_c s" r c1]
    by (auto split: if_splits)
  then show ?thesis
    by (auto simp: z3_dispatch_def z_bytes_def split: prod.splits option.splits)
qed

lemma v3_cmd_bytes: "z_bytes (v3_cmd V hdr fds s) \<le> z_bytes s"
  by (simp add: v3_cmd_def Let_def z_import_bytes z_release_bytes z3_load_bytes z3_dispatch_bytes
      z3_alloc_bytes z3_copy_bytes z3_unload_bytes)

lemma v3_step_bytes: "z_bytes (v3_step V hdr fds s) \<le> z_bytes s"
  using v3_cmd_bytes [of V hdr fds s] by (auto simp: v3_step_def Let_def)

lemma v3_next_bytes: "v3_next s = (Some hdr, fds, s') \<Longrightarrow> z_bytes s' < z_bytes s"
  by (auto simp: v3_next_def next_hdr_bytes split: if_splits)

lemma v3_round_bytes:
  "v3_next (v3_step V hdr fds s) = (Some hdr', fds', s') \<Longrightarrow> z_bytes s' < z_bytes s"
  using v3_next_bytes v3_step_bytes by (meson order_less_le_trans)

function v3_loop :: "vkdev \<Rightarrow> nat list \<Rightarrow> fd list \<Rightarrow> zsess3 \<Rightarrow> zsess3" where
  "v3_loop V hdr fds s =
     (case v3_next (v3_step V hdr fds s) of
        (None, left, s1) \<Rightarrow> v3_end left s1
      | (Some hdr1, fds1, s1) \<Rightarrow> v3_loop V hdr1 fds1 s1)"
  by pat_completeness auto
termination
  by (relation "measure (\<lambda>(V, hdr, fds, s). z_bytes s)")
    (auto dest!: sym [of "(_, _)"] v3_round_bytes)

declare v3_loop.simps [simp del]

text \<open>
  The tables are allocated first; without memory for them the session returns at once, and the
  descriptors of the first header stay open. The first component says that the process has exited.
\<close>

definition serve_v3 ::
  "vkdev \<Rightarrow> nat list \<Rightarrow> fd list \<Rightarrow> conn \<Rightarrow> pinent pcache \<Rightarrow> gworld \<Rightarrow>
   bool \<times> conn \<times> pinent pcache \<times> gworld" where
  "serve_v3 V hdr fds c pc w =
     (case ext_try (vk_ok V) w of
        (False, w1) \<Rightarrow> (False, c, pc, w1)
      | (True, w1) \<Rightarrow>
     (case ext_try (vk_ok V) w1 of
        (False, w2) \<Rightarrow> (False, c, pc, w2)
      | (True, w2) \<Rightarrow>
          (let s = v3_loop V hdr fds
             \<lparr>z_c = c, z_h = replicate MAXH None, z_pc = pc, z_w = w2, z_ndisp = 0,
              z_sh = replicate MAXSH3 None, z_dp = \<lparr>dp_pool = 0, dp_sets = 0, dp_desc = 0\<rparr>,
              z_flags = 0, z_exit = False\<rparr>
           in (z_exit s, z_c s, z_pc s, z_w s))))"

definition serve ::
  "vkdev \<Rightarrow> conn \<Rightarrow> pinent pcache \<Rightarrow> gworld \<Rightarrow> bool \<times> conn \<times> pinent pcache \<times> gworld" where
  "serve V c pc w =
     (case sys_recv MAXBUF 24 c w of
        (bs, fds, c1, w1) \<Rightarrow>
          (let hdr = get32s 6 bs in
           if length bs \<noteq> 24 then (False, c1, pc, w1)
           else if length fds > MAXBUF then (False, c1, pc, close_all fds w1)
           else if hdr ! 0 = MAGIC1
           then (case serve_v1 V hdr fds c1 pc w1 of
                   (c2, pc2, w2) \<Rightarrow> (False, c2, pc2, close_all fds w2))
           else if hdr ! 0 = MAGIC2 then (False, serve_v2 V hdr fds c1 pc w1)
           else if hdr ! 0 = MAGIC3 then serve_v3 V hdr fds c1 pc w1
           else (False, c1, pc, close_all fds w1)))"

section \<open>Everything a session holds is accounted for\<close>

text \<open>
  \<open>G\<close> is the memory lost by failed ALLOC_NATIVE commands; with a driver that never fails there is
  none.
\<close>

definition z3_objs :: "zsess3 \<Rightarrow> nat multiset" where
  "z3_objs s = slot_sum s3_objs (z_sh s) + dp_objs (z_dp s)"

definition z3_inv :: "vkdev \<Rightarrow> nat multiset \<Rightarrow> fd multiset \<Rightarrow> fd list \<Rightarrow> zsess3 \<Rightarrow> bool" where
  "z3_inv V L F fds s \<longleftrightarrow>
     (\<exists>G. z_inv (L + G + z3_objs s) F fds s \<and> ((\<forall>k. vk_ok V k) \<longrightarrow> G = {#})) \<and>
     length (z_sh s) = MAXSH3 \<and> \<not> z_exit s"

lemma z3_more:
  "zsess.more s' = zsess.more s \<Longrightarrow>
     z_sh s' = z_sh s \<and> z_dp s' = z_dp s \<and> z_flags s' = z_flags s \<and> z_exit s' = z_exit s"
  by (cases s; cases s') simp

lemma z3_inv_base:
  assumes "z3_inv V L F fds s" and "\<And>L. z_inv L F fds s \<Longrightarrow> z_inv L F fds' s'"
    and "zsess.more s' = zsess.more s"
  shows "z3_inv V L F fds' s'"
  using assms z3_more [OF assms(3)] by (auto simp: z3_inv_def z3_objs_def)

lemma z3_inv_put [simp]: "z3_inv V L F fds (z_put bs s) = z3_inv V L F fds s"
proof -
  have "zsess.more (z_put bs s) = zsess.more s" by simp
  from z3_more [OF this] show ?thesis by (simp add: z3_inv_def z3_objs_def)
qed

text \<open>
  A command that changes what the session owns: the new objects against the old ones, descriptors
  as they were.
\<close>

lemma z3_inv_change:
  assumes inv: "z3_inv V L F fds s"
    and live: "\<And>X. w_live (z_w s) = X + slot_sum hb_objs (z_h s) + z3_objs s \<Longrightarrow>
      \<exists>G. w_live (z_w s') = X + G + slot_sum hb_objs (z_h s') + z3_objs s' \<and>
        ((\<forall>k. vk_ok V k) \<longrightarrow> G = {#}) \<and> w_fds (z_w s') = w_fds (z_w s) \<and> w_bad (z_w s') = w_bad (z_w s)"
    and pc: "z_pc s' = z_pc s" and msgs: "fd_msgs 24 (cq (z_c s)) \<Longrightarrow> fd_msgs 24 (cq (z_c s'))"
    and len: "length (z_sh s') = length (z_sh s)" "length (z_h s') = length (z_h s)"
    and ex: "z_exit s' = z_exit s"
  shows "z3_inv V L F fds s'"
proof -
  obtain G where z: "z_inv (L + G + z3_objs s) F fds s" and G: "(\<forall>k. vk_ok V k) \<longrightarrow> G = {#}"
    using inv by (auto simp: z3_inv_def)
  have "w_live (z_w s) =
      (L + G + slot_sum pent_objs (pc_ents (z_pc s))) + slot_sum hb_objs (z_h s) + z3_objs s"
    using z by (simp add: z_inv_def owns_def ac_simps)
  from live [OF this] obtain G' where l:
    "w_live (z_w s') = (L + G + slot_sum pent_objs (pc_ents (z_pc s))) + G' +
       slot_sum hb_objs (z_h s') + z3_objs s'"
    "(\<forall>k. vk_ok V k) \<longrightarrow> G' = {#}" "w_fds (z_w s') = w_fds (z_w s)" "w_bad (z_w s') = w_bad (z_w s)"
    by blast
  have "z_inv (L + (G + G') + z3_objs s') F fds s'"
    using z l pc msgs len by (simp add: z_inv_def owns_def ac_simps)
  then show ?thesis
    using inv G l(2) len ex unfolding z3_inv_def by auto
qed

lemma z3_load_inv:
  assumes inv: "z3_inv V L F fds s"
  shows "z3_inv V L F fds (z3_load V a b p s)"
proof -
  have step: "z3_inv V L F fds (s\<lparr>z_c := c1, z_w := w1\<rparr>)"
    if "fd_msgs 24 (cq (z_c s)) \<Longrightarrow> fd_msgs 24 (cq c1)" "w_live w1 = w_live (z_w s)"
      "w_fds w1 = w_fds (z_w s)" "w_bad w1 = w_bad (z_w s)" for c1 w1
    using that by (intro z3_inv_change [OF inv]) (auto simp: z3_objs_def)
  have upd: "z3_inv V L F fds (s\<lparr>z_c := c1, z_w := w1, z_sh := (z_sh s)[k := Some e]\<rparr>)"
    if "fd_msgs 24 (cq (z_c s)) \<Longrightarrow> fd_msgs 24 (cq c1)" "w_live w1 = w_live (z_w s) + s3_objs e"
      "w_fds w1 = w_fds (z_w s)" "w_bad w1 = w_bad (z_w s)" "free_slot (z_sh s) = Some k" for c1 w1 k e
    using that by (intro z3_inv_change [OF inv]) (auto simp: z3_objs_def slot_sum_alloc ac_simps)
  have step_w: "z3_inv V L F fds (s\<lparr>z_w := w1\<rparr>)"
    if "w_live w1 = w_live (z_w s)" "w_fds w1 = w_fds (z_w s)" "w_bad w1 = w_bad (z_w s)" for w1
    using that by (intro z3_inv_change [OF inv]) (auto simp: z3_objs_def)
  show ?thesis
  proof (cases "load_bad a b p")
    case True
    with inv show ?thesis by (simp add: z3_load_def)
  next
    case False
    obtain q w1 where t: "ext_try (vk_ok V) (z_w s) = (q, w1)" by (metis surj_pair)
    obtain r c1 where rd: "rd a (z_c s) = (r, c1)" by (metis surj_pair)
    obtain x w2 where l: "sh3_load (vk_ok V) b p w1 = (x, w2)" by (metis surj_pair)
    note T = ext_try_gacct [OF t] and R = rd_fd_msgs [OF rd] and S = sh3_load_acct [OF l]
    show ?thesis
      using False T R S
      by (cases q; cases r; cases "free_slot (z_sh s)"; cases x)
        (auto simp: z3_load_def t rd l intro!: step step_w upd)
  qed
qed

lemma z3_unload_inv:
  assumes inv: "z3_inv V L F fds s"
  shows "z3_inv V L F fds (z3_unload k s)"
proof (cases "slot_get (z_sh s) k")
  case None
  with inv show ?thesis by (simp add: z3_unload_def)
next
  case (Some e)
  have "z3_inv V L F fds (s\<lparr>z_sh := slot_clear (z_sh s) k, z_w := sh3_free e (z_w s)\<rparr>)"
  proof (intro z3_inv_change [OF inv])
    fix X assume "w_live (z_w s) = X + slot_sum hb_objs (z_h s) + z3_objs s"
    then have "w_live (z_w s) = (X + slot_sum hb_objs (z_h s) +
        (slot_sum s3_objs (slot_clear (z_sh s) k) + dp_objs (z_dp s))) + s3_objs e"
      using slot_sum_clear [OF Some, of s3_objs] by (simp add: z3_objs_def ac_simps)
    from sh3_free_acct [OF this]
    show "\<exists>G. w_live (z_w (s\<lparr>z_sh := slot_clear (z_sh s) k, z_w := sh3_free e (z_w s)\<rparr>)) =
        X + G + slot_sum hb_objs (z_h (s\<lparr>z_sh := slot_clear (z_sh s) k, z_w := sh3_free e (z_w s)\<rparr>)) +
        z3_objs (s\<lparr>z_sh := slot_clear (z_sh s) k, z_w := sh3_free e (z_w s)\<rparr>) \<and>
        ((\<forall>k. vk_ok V k) \<longrightarrow> G = {#}) \<and>
        w_fds (z_w (s\<lparr>z_sh := slot_clear (z_sh s) k, z_w := sh3_free e (z_w s)\<rparr>)) = w_fds (z_w s) \<and>
        w_bad (z_w (s\<lparr>z_sh := slot_clear (z_sh s) k, z_w := sh3_free e (z_w s)\<rparr>)) = w_bad (z_w s)"
      by (intro exI [of _ "{#}"]) (simp add: z3_objs_def)
  qed simp_all
  with Some show ?thesis by (simp add: z3_unload_def)
qed

lemma z3_dispatch_inv:
  assumes inv: "z3_inv V L F fds s"
  shows "z3_inv V L F fds (z3_dispatch V fl n s)"
proof -
  obtain r c1 where t: "(if 1 \<le> n \<and> n \<le> MAXSTAGE3
      then traverse (read_stage3 V fl (z_sh s) (z_h s)) [0..<n] (z_c s) else (None, z_c s)) = (r, c1)"
    by (metis surj_pair)
  have msgs: "fd_msgs 24 (cq (z_c s)) \<Longrightarrow> fd_msgs 24 (cq c1)"
    using t read_stages3_frame [of V fl "z_sh s" "z_h s" "[0..<n]" "z_c s" r c1 24]
    by (auto split: if_splits)
  show ?thesis
  proof (cases r)
    case None
    have "z3_inv V L F fds (s\<lparr>z_c := c1, z_ndisp := Suc (z_ndisp s)\<rparr>)"
      using msgs by (intro z3_inv_change [OF inv]) (auto simp: z3_objs_def)
    then show ?thesis unfolding z3_dispatch_def t None by simp
  next
    case (Some sts)
    obtain q dp1 w1 where u:
      "run_stages3 (vk_ok V) (z_dp s) (z_sh s) (z_h s) sts (z_flags s) (z_w s) = (q, dp1, w1)"
      by (metis surj_pair)
    have "z3_inv V L F fds (s\<lparr>z_c := c1, z_dp := dp1, z_w := w1, z_ndisp := Suc (z_ndisp s)\<rparr>)"
    proof (intro z3_inv_change [OF inv])
      fix X assume "w_live (z_w s) = X + slot_sum hb_objs (z_h s) + z3_objs s"
      then have "w_live (z_w s) = (X + slot_sum hb_objs (z_h s) + slot_sum s3_objs (z_sh s)) + dp_objs (z_dp s)"
        by (simp add: z3_objs_def ac_simps)
      from run_stages3_acct [OF u this]
      show "\<exists>G. w_live (z_w (s\<lparr>z_c := c1, z_dp := dp1, z_w := w1, z_ndisp := Suc (z_ndisp s)\<rparr>)) = X + G +
          slot_sum hb_objs (z_h (s\<lparr>z_c := c1, z_dp := dp1, z_w := w1, z_ndisp := Suc (z_ndisp s)\<rparr>)) +
          z3_objs (s\<lparr>z_c := c1, z_dp := dp1, z_w := w1, z_ndisp := Suc (z_ndisp s)\<rparr>) \<and>
          ((\<forall>k. vk_ok V k) \<longrightarrow> G = {#}) \<and>
          w_fds (z_w (s\<lparr>z_c := c1, z_dp := dp1, z_w := w1, z_ndisp := Suc (z_ndisp s)\<rparr>)) = w_fds (z_w s) \<and>
          w_bad (z_w (s\<lparr>z_c := c1, z_dp := dp1, z_w := w1, z_ndisp := Suc (z_ndisp s)\<rparr>)) = w_bad (z_w s)"
        by (intro exI [of _ "{#}"]) (simp add: z3_objs_def ac_simps)
    qed (use msgs in simp_all)
    then show ?thesis unfolding z3_dispatch_def t Some by (simp add: u)
  qed
qed

lemma alloc_native_acct:
  assumes "alloc_native V sz w = (r, w')"
  shows "\<exists>G. w_live w' = w_live w + G + (case r of None \<Rightarrow> {#} | Some e \<Rightarrow> hb_objs e) \<and>
    ((\<forall>k. vk_ok V k) \<longrightarrow> G = {#}) \<and> w_fds w' = w_fds w \<and> w_bad w' = w_bad w \<and> w_subs w' = w_subs w"
proof -
  obtain x w1 where n1: "ext_new (vk_ok V) w = (x, w1)" by (metis surj_pair)
  obtain y w2 where n2: "ext_new (vk_ok V) w1 = (y, w2)" by (metis surj_pair)
  obtain q w3 where t: "ext_try (vk_ok V) w2 = (q, w3)" by (metis surj_pair)
  note A = ext_new_acct [OF n1] and B = ext_new_acct [OF n2] and C = ext_try_gacct [OF t]
  have subs: "w_subs w1 = w_subs w" "w_subs w2 = w_subs w1"
    using more_subs [of w1 w] more_subs [of w2 w1] A B by auto
  consider "r \<noteq> None" | m where "y = Some m" "q = False" "r = None" "x \<noteq> None"
      "pick_mem (vk_types V) (vk_native V sz) DEVICE_LOCAL \<noteq> None"
    | "r = None" "x = None \<or> y = None \<or> pick_mem (vk_types V) (vk_native V sz) DEVICE_LOCAL = None"
    using assms
    by (cases x; cases y; cases q; cases "pick_mem (vk_types V) (vk_native V sz) DEVICE_LOCAL")
      (auto simp: alloc_native_def n1 n2 t)
  then show ?thesis
  proof cases
    case 1
    with assms A B C subs show ?thesis
      by (intro exI [of _ "{#}"])
        (auto simp: alloc_native_def n1 n2 t hb_objs_def split: option.splits bool.splits)
  next
    case (2 m)
    have "\<not> (\<forall>k. vk_ok V k)" using 2 t by (auto simp: ext_try_def)
    with 2 assms A B C subs show ?thesis
      by (intro exI [of _ "{#m#}"])
        (auto simp: alloc_native_def n1 n2 t acct_simps split: option.splits)
  next
    case 3
    with assms A B C subs show ?thesis
      by (intro exI [of _ "{#}"])
        (auto simp: alloc_native_def n1 n2 t acct_simps split: option.splits bool.splits)
  qed
qed

lemma z3_alloc_inv:
  assumes inv: "z3_inv V L F fds s"
  shows "z3_inv V L F fds (z3_alloc V sz s)"
proof (cases "free_slot (z_h s)")
  case None
  with inv show ?thesis by (simp add: z3_alloc_def)
next
  case (Some k)
  obtain r w1 where a: "alloc_native V sz (z_w s) = (r, w1)" by (metis surj_pair)
  obtain G where G: "w_live w1 = w_live (z_w s) + G + (case r of None \<Rightarrow> {#} | Some e \<Rightarrow> hb_objs e)"
    "(\<forall>k. vk_ok V k) \<longrightarrow> G = {#}" "w_fds w1 = w_fds (z_w s)" "w_bad w1 = w_bad (z_w s)"
    using alloc_native_acct [OF a] by blast
  have no: "z3_inv V L F fds (s\<lparr>z_w := w1\<rparr>)" if "r = None"
    using that G by (intro z3_inv_change [OF inv]) (auto simp: z3_objs_def intro!: exI [of _ G])
  have yes: "z3_inv V L F fds (s\<lparr>z_w := w1, z_h := (z_h s)[k := Some e]\<rparr>)" if "r = Some e" for e
    using that G
    by (intro z3_inv_change [OF inv])
      (auto simp: z3_objs_def slot_sum_alloc [OF Some] ac_simps intro!: exI [of _ G])
  show ?thesis
    using inv no yes by (cases r) (auto simp: z3_alloc_def Some a)
qed

lemma z3_copy_inv:
  assumes inv: "z3_inv V L F fds s"
  shows "z3_inv V L F fds (z3_copy V a b s)"
proof -
  have step: "z3_inv V L F fds (s\<lparr>z_c := c1, z_w := w1\<rparr>)"
    if "fd_msgs 24 (cq (z_c s)) \<Longrightarrow> fd_msgs 24 (cq c1)" "w_live w1 = w_live (z_w s)"
      "w_fds w1 = w_fds (z_w s)" "w_bad w1 = w_bad (z_w s)" for c1 w1
    using that by (intro z3_inv_change [OF inv]) (auto simp: z3_objs_def)
  have step_c: "z3_inv V L F fds (s\<lparr>z_c := c1\<rparr>)"
    if "fd_msgs 24 (cq (z_c s)) \<Longrightarrow> fd_msgs 24 (cq c1)" for c1
    using that by (intro z3_inv_change [OF inv]) (auto simp: z3_objs_def)
  show ?thesis
    unfolding z3_copy_def Let_def
    by (auto dest!: rd_fd_msgs [where n = 24] gpu_submit_acct intro!: step step_c
        split: prod.splits option.splits)
qed

definition v3_inv :: "vkdev \<Rightarrow> nat multiset \<Rightarrow> fd multiset \<Rightarrow> fd list \<Rightarrow> zsess3 \<Rightarrow> bool" where
  "v3_inv V L F fds s \<longleftrightarrow> z_exit s \<or> z3_inv V L F fds s"

lemma z_exit_put [simp]: "z_exit (z_put bs s) = z_exit s"
proof -
  have "zsess.more (z_put bs s) = zsess.more s" by simp
  from z3_more [OF this] show ?thesis by simp
qed

lemma v3_cmd_inv:
  assumes inv: "z3_inv V L F fds s"
  shows "v3_inv V L F fds (v3_cmd V hdr fds' s)"
proof -
  have imp: "z3_inv V L F fds (z_import V n fds' s)" for n
  proof -
    obtain G where "z_inv (L + G + z3_objs s) F fds s" using inv by (auto simp: z3_inv_def)
    from z_import_inv(2) [OF this] show ?thesis
      by (intro z3_inv_base [OF inv]) (auto intro: z_import_inv(1))
  qed
  have rel: "z3_inv V L F fds (z_release n s)" for n
  proof -
    obtain G where "z_inv (L + G + z3_objs s) F fds s" using inv by (auto simp: z3_inv_def)
    from z_release_inv(2) [OF this] show ?thesis
      by (intro z3_inv_base [OF inv]) (auto intro: z_release_inv(1))
  qed
  have fl: "z3_inv V L F fds (s\<lparr>z_flags := k\<rparr>)" for k
    by (intro z3_inv_change [OF inv]) (auto simp: z3_objs_def)
  show ?thesis
    using imp rel fl z3_load_inv [OF inv] z3_unload_inv [OF inv] z3_dispatch_inv [OF inv]
      z3_alloc_inv [OF inv] z3_copy_inv [OF inv] inv
    by (simp add: v3_cmd_def Let_def v3_inv_def)
qed

lemma v3_step_inv:
  assumes "z3_inv V L F fds s"
  shows "v3_inv V L F [] (v3_step V hdr fds s)"
proof (cases "z_exit (v3_cmd V hdr fds s)")
  case True
  then show ?thesis by (simp add: v3_step_def v3_inv_def)
next
  case False
  then have i: "z3_inv V L F fds (v3_cmd V hdr fds s)"
    using v3_cmd_inv [OF assms, of hdr fds] by (simp add: v3_inv_def)
  have "z3_inv V L F [] ((v3_cmd V hdr fds s)\<lparr>z_w := close_all fds (z_w (v3_cmd V hdr fds s))\<rparr>)"
    by (rule z3_inv_base [OF i z_close_inv]) simp_all
  with False show ?thesis by (simp add: v3_step_def v3_inv_def Let_def)
qed

lemma v3_next_inv:
  assumes inv: "v3_inv V L F [] s" and n: "v3_next s = (r, fds, s')"
  shows "v3_inv V L F fds s'" and "r \<noteq> None \<Longrightarrow> z3_inv V L F fds s'"
proof -
  have "z3_inv V L F fds s'" if "\<not> z_exit s"
  proof -
    from inv that have i: "z3_inv V L F [] s" by (simp add: v3_inv_def)
    then obtain G where z: "z_inv (L + G + z3_objs s) F [] s" by (auto simp: z3_inv_def)
    have h: "next_hdr MAGIC3 s = (r, fds, s')" using n that by (simp add: v3_next_def)
    show ?thesis
      by (rule z3_inv_base [OF i]) (auto intro: next_hdr_inv [OF _ h] next_hdr_inv(2) [OF z h])
  qed
  then show "v3_inv V L F fds s'" and "r \<noteq> None \<Longrightarrow> z3_inv V L F fds s'"
    using n by (cases "z_exit s"; auto simp: v3_inv_def v3_next_def)+
qed

interpretation v3: session_loop "v3_step V" v3_next v3_end "v3_loop V" z_bytes
    "z3_inv V L F" "v3_inv V L F []" "v3_inv V L F" for V L F
proof unfold_locales
  show "v3_loop V hdr fds s =
      (case v3_next (v3_step V hdr fds s) of
         (None, left, s1) \<Rightarrow> v3_end left s1
       | (Some hdr1, fds1, s1) \<Rightarrow> v3_loop V hdr1 fds1 s1)" for hdr fds s
    by (rule v3_loop.simps)
qed (auto intro: v3_step_bytes v3_next_bytes v3_step_inv v3_next_inv)

lemma free_shaders_acct:
  "w_live w = L + slot_sum s3_objs t \<Longrightarrow>
     w_live (free_shaders t w) = L \<and> w_fds (free_shaders t w) = w_fds w \<and>
     w_bad (free_shaders t w) = w_bad w \<and> w_subs (free_shaders t w) = w_subs w"
proof (induction t w rule: free_shaders.induct)
  case (3 e t w)
  have "w_live w = (L + slot_sum s3_objs t) + s3_objs e" using 3(2) by (simp add: ac_simps)
  from 3(1) sh3_free_acct [OF this] show ?case by simp
qed simp_all

lemma v3_end_acct:
  assumes inv: "z3_inv V L F left s"
  shows "\<exists>G. w_live (z_w (v3_end left s)) = L + G + slot_sum pent_objs (pc_ents (z_pc s)) \<and>
    ((\<forall>k. vk_ok V k) \<longrightarrow> G = {#}) \<and> w_fds (z_w (v3_end left s)) = F \<and>
    \<not> w_bad (z_w (v3_end left s)) \<and> pcache_wf (z_pc s) \<and> pkeys (z_pc s) = {} \<and>
    z_pc (v3_end left s) = z_pc s"
proof -
  obtain G where z: "z_inv (L + G + z3_objs s) F left s" and G: "(\<forall>k. vk_ok V k) \<longrightarrow> G = {#}"
    using inv by (auto simp: z3_inv_def)
  have ex: "\<not> z_exit s" using inv by (simp add: z3_inv_def)
  define w0 where "w0 = close_all left (z_w s)"
  define w1 where "w1 = free_handles (z_h s) w0"
  define w2 where "w2 = free_shaders (z_sh s) w1"
  define P where "P = L + G + slot_sum pent_objs (pc_ents (z_pc s))"
  have "w_live w0 = (P + dp_objs (z_dp s) + slot_sum s3_objs (z_sh s)) + slot_sum hb_objs (z_h s)"
    and w0: "w_fds w0 = F" "\<not> w_bad w0"
    using z by (simp_all add: w0_def z_inv_def owns_def acct_simps z3_objs_def P_def ac_simps)
  note a1 = free_handles_acct [OF this(1), folded w1_def]
  note a2 = free_shaders_acct [of w1 "P + dp_objs (z_dp s)" "z_sh s", folded w2_def]
  note a3 = dp_free_acct [of w2 P "z_dp s"]
  have "w_live (dp_free (z_dp s) w2) = P \<and> w_fds (dp_free (z_dp s) w2) = F \<and>
      \<not> w_bad (dp_free (z_dp s) w2)"
    using a1 a2 a3 w0 by simp
  moreover have "z_w (v3_end left s) = dp_free (z_dp s) w2" and "z_pc (v3_end left s) = z_pc s"
    using ex by (simp_all add: v3_end_def w0_def w1_def w2_def)
  ultimately show ?thesis
    using G z by (intro exI [of _ G]) (simp add: P_def z_inv_def)
qed

lemma serve_v3_acct:
  assumes s: "serve_v3 V hdr fds c pc w = (False, c', pc', w')"
    and wf: "pcache_wf pc" "pkeys pc = {}" and msgs: "fd_msgs 24 (cq c)"
    and own: "w_live w = L + slot_sum pent_objs (pc_ents pc)" "w_fds w = F + mset fds" "\<not> w_bad w"
    and ok: "\<forall>k. vk_ok V k"
  shows "w_live w' = L + slot_sum pent_objs (pc_ents pc') \<and> w_fds w' = F \<and> \<not> w_bad w' \<and>
    pcache_wf pc' \<and> pkeys pc' = {}"
proof -
  have t: "ext_try (vk_ok V) u = (True, u\<lparr>w_tick := Suc (w_tick u)\<rparr>)" for u :: gworld
    using ok by (simp add: ext_try_def)
  define w2 where "w2 = w\<lparr>w_tick := Suc (Suc (w_tick w))\<rparr>"
  define s0 where "s0 = \<lparr>z_c = c, z_h = replicate MAXH None, z_pc = pc, z_w = w2, z_ndisp = 0,
    z_sh = replicate MAXSH3 None, z_dp = \<lparr>dp_pool = 0, dp_sets = 0, dp_desc = 0\<rparr>,
    z_flags = 0, z_exit = False\<rparr>"
  have "z3_inv V L F fds s0"
    using wf msgs own
    by (auto simp: z3_inv_def z_inv_def owns_def slot_sum_replicate z3_objs_def dp_objs_def s0_def w2_def
        intro!: exI [of _ "{#}"])
  from v3.loop_ends [OF this, of hdr] obtain left s1
    where l: "v3_loop V hdr fds s0 = v3_end left s1" and i: "v3_inv V L F left s1" by blast
  have res: "(z_exit (v3_end left s1), z_c (v3_end left s1), z_pc (v3_end left s1), z_w (v3_end left s1)) =
      (False, c', pc', w')"
    using s by (simp add: serve_v3_def t Let_def w2_def [symmetric] s0_def [symmetric] l)
  then have "\<not> z_exit s1" by (auto simp: v3_end_def split: if_splits)
  with i have i3: "z3_inv V L F left s1" by (simp add: v3_inv_def)
  show ?thesis
    using v3_end_acct [OF i3] ok res by (auto split: if_splits)
qed

end
