(* ===== verification/Gpudzc.thy ===== *)
theory Gpudzc
  imports Gpudzc3_Session
begin

text \<open>
  The properties of the zero-copy GPU daemon src/src/hwbridge/gpud-zc.c as a whole: conservation of
  objects and descriptors over every session, the effect of imports and dispatches, the bounds of
  v3 bindings, and the places where the code lets something slip.
\<close>

section \<open>Conservation\<close>

lemma serve_v1_acct:
  assumes s: "serve_v1 V hdr fds c pc w = (c', pc', w')"
    and wf: "pcache_wf pc" "pkeys pc = {}" and ok: "\<forall>k. vk_ok V k"
    and own: "w_live w = L + slot_sum pent_objs (pc_ents pc)" "\<not> w_bad w"
  shows "w_live w' = L + slot_sum pent_objs (pc_ents pc') \<and> w_fds w' = w_fds w \<and> \<not> w_bad w' \<and>
    pcache_wf pc' \<and> pkeys pc' = {}"
proof (cases "v1_reject hdr (length fds)")
  case True
  with s wf own show ?thesis by (auto simp: serve_v1_def Let_def)
next
  case False
  obtain r1 c1 where rd1: "rd (hdr ! 5 * 4) c = (r1, c1)" by (metis surj_pair)
  obtain q w1 where t: "ext_try (vk_ok V) w = (q, w1)" by (metis surj_pair)
  obtain r2 c2 where rd2: "rd (hdr ! Suc 0) c1 = (r2, c2)" by (metis surj_pair)
  obtain ok1 bms w2 where im: "v1_imports V fds w1 = (ok1, bms, w2)" by (metis surj_pair)
  note T = ext_try_gacct [OF t]
  show ?thesis
  proof (cases "r1 = None \<or> q = False \<or> r2 = None")
    case True
    with False s wf own T show ?thesis
      by (auto simp: serve_v1_def Let_def rd1 t rd2 split: option.splits bool.splits)
  next
    case go: False
    then obtain spirv where r2: "r1 \<noteq> None" "q" "r2 = Some spirv" by auto
    obtain p pc1 w3 where gp: "(if ok1 then get_pipe (vk_ok V) spirv (hdr ! 5) pc w2
        else (None, pc, w2)) = (p, pc1, w3)" by (metis surj_pair)
    define st where "st = (\<lambda>i. \<lparr>sg_pc = i, sg_gx = hdr ! 2, sg_gy = hdr ! 3, sg_gz = hdr ! 4,
        sg_bufs = map fst bms\<rparr>)"
    obtain ok2 w4 where rs: "(case p of None \<Rightarrow> (False, w3)
        | Some i \<Rightarrow> run_stages (vk_ok V) pc1 [st i] w3) = (ok2, w4)" by (metis surj_pair)
    have res: "(c', pc', w') =
        (put (if ok2 then status_ok else status_err) c2, unpin_all pc1, v1_cleanup bms w4)"
      using s False r2
      by (auto simp: serve_v1_def Let_def rd1 t rd2 im gp rs [unfolded st_def])
    obtain own' where B: "w_live w2 = w_live w1 + bm_objs own'" "0 \<notin># bm_objs own'"
      "\<forall>u. v1_cleanup bms u = v1_cleanup own' u"
      "w_fds w2 = w_fds w1" "w_bad w2 = w_bad w1" "w_subs w2 = w_subs w1"
      using v1_imports_acct [OF im] ok by auto
    have inv2: "cache_inv (L + bm_objs own') (w_fds w) (world.more w2) (pc, w2)"
      using wf own T B by (simp add: cache_inv_def ac_simps)
    have inv3: "cache_inv (L + bm_objs own') (w_fds w) (world.more w2) (pc1, w3)"
    proof (cases ok1)
      case True
      then show ?thesis
        using gp zc_cache.get_inv [OF inv2, of "vk_ok V" "(spirv, hdr ! 5)" p "(pc1, w3)"]
        by (simp add: get_q_def)
    qed (use gp inv2 in auto)
    have "w_live w4 = w_live w3 \<and> w_fds w4 = w_fds w3 \<and> w_bad w4 = w_bad w3"
      using rs by (cases p) (auto dest!: run_stages_acct)
    then have w4: "w_live w4 = (L + slot_sum pent_objs (pc_ents pc1)) + bm_objs own'"
      "w_fds w4 = w_fds w" "\<not> w_bad w4"
      using inv3 by (simp_all add: cache_inv_def ac_simps)
    from v1_cleanup_acct [OF w4(1) B(2)] w4 B(3) inv3 unpin_all_wf [of pc1] show ?thesis
      using res by (simp add: cache_inv_def)
  qed
qed

definition balanced ::
  "pinent pcache \<Rightarrow> gworld \<Rightarrow> pinent pcache \<Rightarrow> gworld \<Rightarrow> bool" where
  "balanced pc w pc' w' \<longleftrightarrow>
     w_live w' + slot_sum pent_objs (pc_ents pc) = w_live w + slot_sum pent_objs (pc_ents pc') \<and>
     w_fds w' = w_fds w \<and> \<not> w_bad w' \<and> pcache_wf pc' \<and> pkeys pc' = {}"

definition daemon_ready :: "pinent pcache \<Rightarrow> gworld \<Rightarrow> bool" where
  "daemon_ready pc w \<longleftrightarrow>
     pcache_wf pc \<and> pkeys pc = {} \<and> slot_sum pent_objs (pc_ents pc) \<subseteq># w_live w \<and> \<not> w_bad w"

text \<open>
  C1. A connection to gpud-zc that keeps to the protocol's framing and meets a driver that answers ends
  with every descriptor it brought closed exactly once and every driver object destroyed exactly once,
  apart from the entries the pipeline cache keeps; the cache is well-formed with no entry pinned. This
  holds for each of the three protocols and for any bytes, under three conditions, each of which
  excludes a leak or a double free of the code: descriptors travel only with whole headers of 24 bytes;
  no driver call fails, unless the header is that of protocol 2, which survives failures; and nothing
  is stated of a protocol 3 session that makes the process exit.
\<close>

theorem serve_conserves:
  assumes ok: "(\<forall>k. vk_ok V k) \<or> get32s 6 (fst (sys_recv MAXBUF 24 c w)) ! 0 = MAGIC2"
    and ready: "daemon_ready pc w" and msgs: "fd_msgs 24 (cq c)"
  shows "case serve V c pc w of (ex, c', pc', w') \<Rightarrow> ex \<or> balanced pc w pc' w'"
proof -
  obtain L where L: "w_live w = L + slot_sum pent_objs (pc_ents pc)"
    using ready by (auto simp: daemon_ready_def mset_subset_eq_exists_conv ac_simps)
  obtain bs fds c1 w1 where r: "sys_recv MAXBUF 24 c w = (bs, fds, c1, w1)" by (metis surj_pair)
  note acct = sys_recv_acct [OF r]
  have m: "fd_msgs 24 (cq c1)" "length bs \<noteq> 24 \<Longrightarrow> fds = []"
    using sys_recv_fd_msgs [OF r msgs] by auto
  have wf: "pcache_wf pc" "pkeys pc = {}" and nb: "\<not> w_bad w"
    using ready by (auto simp: daemon_ready_def)
  have w1: "w_live w1 = L + slot_sum pent_objs (pc_ents pc)" "w_fds w1 = w_fds w + mset fds" "\<not> w_bad w1"
    using acct L nb by simp_all
  have bal: "balanced pc w pc' w'"
    if "w_live w' = L + slot_sum pent_objs (pc_ents pc') \<and> w_fds w' = w_fds w \<and> \<not> w_bad w' \<and>
      pcache_wf pc' \<and> pkeys pc' = {}" for pc' w'
    using that L by (simp add: balanced_def ac_simps)
  obtain ex c' pc' w' where res: "serve V c pc w = (ex, c', pc', w')" by (metis surj_pair)
  let ?hdr = "get32s 6 bs"
  show ?thesis
  proof (cases "length bs \<noteq> 24 \<or> ?hdr ! 0 \<notin> {MAGIC1, MAGIC2, MAGIC3}")
    case True
    with res r m(2) acct w1 wf L show ?thesis
      by (auto simp: serve_def Let_def acct_simps balanced_def split: if_splits)
  next
    case False
    have good: "\<forall>k. vk_ok V k" if "?hdr ! 0 \<noteq> MAGIC2" using ok that r by simp
    from False consider "?hdr ! 0 = MAGIC1" | "?hdr ! 0 = MAGIC2" | "?hdr ! 0 = MAGIC3" by auto
    then show ?thesis
    proof cases
      case 1
      obtain c2 pc2 w2 where s: "serve_v1 V ?hdr fds c1 pc w1 = (c2, pc2, w2)" by (metis surj_pair)
      have ok1: "\<forall>k. vk_ok V k" using 1 good by (simp add: MAGIC1_def MAGIC2_def)
      from serve_v1_acct [OF s wf ok1 w1(1,3)] w1(2) 1 False acct res r s show ?thesis
        by (auto simp: serve_def Let_def acct_simps intro!: bal)
    next
      case 2
      then have "ex = False \<and> serve_v2 V ?hdr fds c1 pc w1 = (c', pc', w')"
        using False acct res r by (auto simp: serve_def MAGIC1_def MAGIC2_def)
      with serve_v2_acct [OF _ wf m(1) w1] res show ?thesis by (auto intro!: bal)
    next
      case 3
      then have "serve_v3 V ?hdr fds c1 pc w1 = (ex, c', pc', w')"
        using False acct res r by (auto simp: serve_def MAGIC1_def MAGIC2_def MAGIC3_def)
      moreover have "\<forall>k. vk_ok V k" using 3 good by (simp add: MAGIC2_def MAGIC3_def)
      ultimately show ?thesis using serve_v3_acct [OF _ wf m(1) w1] res by (cases ex) (auto intro!: bal)
    qed
  qed
qed

definition dev0 :: vkdev where
  "dev0 = \<lparr>vk_ok = (\<lambda>k. True), vk_types = [7], vk_bits = (\<lambda>f. 1), vk_force = None,
           vk_native = (\<lambda>n. 1), vk_align = 16\<rparr>"

definition world0 :: gworld where
  "world0 = \<lparr>w_tick = 0, w_live = {#}, w_fds = {#}, w_bad = False, w_subs = []\<rparr>"

definition conn0 :: "packet list \<Rightarrow> conn" where
  "conn0 ps = \<lparr>cq = ps, co = [], croom = 65536\<rparr>"

lemma daemon_ready_init: "daemon_ready pcache_init world0"
  by (simp add: daemon_ready_def pcache_wf_init world0_def)
    (simp add: pcache_init_def slot_sum_replicate pkeys_def slot_get_replicate)

theorem serve_conserves_witness:
  "case serve dev0 (conn0 [(put32s [MAGIC2, 1, 1, 0, 0, 0], [5]), (put32s [4096], [])]) pcache_init world0
     of (ex, c', pc', w') \<Rightarrow> ex \<or> balanced pcache_init world0 pc' w'"
  by (rule serve_conserves) (auto simp: dev0_def daemon_ready_init conn0_def)

text \<open>
  A v2 session gives everything back whatever the driver does: imports, pipeline creations or
  submissions may fail at any point. Only the objects of cached pipelines survive, and the
  descriptors open afterwards are those of before without the ones the session was handed.
\<close>

theorem serve_v2_conserves:
  assumes ready: "daemon_ready pc w" and msgs: "fd_msgs 24 (cq c)"
    and fds: "w_fds w = F + mset fds"
  shows "case serve_v2 V hdr fds c pc w of (c', pc', w') \<Rightarrow>
    w_live w' + slot_sum pent_objs (pc_ents pc) = w_live w + slot_sum pent_objs (pc_ents pc') \<and>
    w_fds w' = F \<and> \<not> w_bad w' \<and> pcache_wf pc' \<and> pkeys pc' = {}"
proof -
  obtain L where L: "w_live w = L + slot_sum pent_objs (pc_ents pc)"
    using ready by (auto simp: daemon_ready_def mset_subset_eq_exists_conv ac_simps)
  obtain c' pc' w' where s: "serve_v2 V hdr fds c pc w = (c', pc', w')" by (metis surj_pair)
  show ?thesis
    using serve_v2_acct [OF s _ _ msgs L fds] ready L s by (simp add: daemon_ready_def ac_simps)
qed

theorem serve_v2_conserves_witness:
  "case serve_v2 (dev0\<lparr>vk_ok := (\<lambda>k. even k)\<rparr>) [MAGIC2, 1, 1, 0, 0, 0] [(1, 5)]
     (conn0 [(put32s [4096], [])]) pcache_init (world0\<lparr>w_fds := {#(1, 5)#}\<rparr>) of (c', pc', w') \<Rightarrow>
     w_live w' + slot_sum pent_objs (pc_ents (pcache_init :: pinent pcache)) =
       w_live (world0\<lparr>w_fds := {#(1, 5)#}\<rparr>) + slot_sum pent_objs (pc_ents pc') \<and>
     w_fds w' = {#} \<and> \<not> w_bad w' \<and> pcache_wf pc' \<and> pkeys pc' = {}"
  by (rule serve_v2_conserves)
    (use daemon_ready_init in \<open>auto simp: conn0_def daemon_ready_def world0_def\<close>)

section \<open>Handles\<close>

lemma import_one_alloc:
  assumes ok: "\<forall>k. vk_ok V k" and mt: "import_mt V (vk_bits V (snd (fst q))) \<noteq> None"
    and room: "slot_live h < length h"
  shows "\<exists>k e h' w'. import_one V q (h, w) = (Some k, h', w') \<and>
    slot_alloc h e = Some (k, h') \<and> hb_size e = snd q"
proof -
  obtain k where k: "free_slot h = Some k" using free_slot_exists [OF room] by blast
  obtain b m w' where i: "import_buf V (fst q) 0 0 w = (True, b, m, w')"
    using import_buf_total [OF ok mt] by blast
  show ?thesis
    by (intro exI [of _ k] exI [of _ "\<lparr>hb_b = b, hb_m = m, hb_size = snd q\<rparr>"])
      (simp add: import_one_def k i slot_alloc_def)
qed

lemma slot_alloc_live: "slot_alloc h e = Some (k, h') \<Longrightarrow> slot_live h' = Suc (slot_live h) \<and> length h' = length h"
  by (auto simp: slot_alloc_def slot_live_alloc)

lemma imports_ok:
  assumes "\<forall>k. vk_ok V k" and "\<forall>q\<in>set qs. import_mt V (vk_bits V (snd (fst q))) \<noteq> None"
    and "slot_live h + length qs \<le> length h"
  shows "\<exists>hds h' w'. traverse (import_one V) qs (h, w) = (Some hds, h', w') \<and> length h' = length h \<and>
    distinct hds \<and> length hds = length qs \<and>
    (\<forall>i<length qs. slot_get h (hds ! i) = None \<and>
       (\<exists>e. slot_get h' (hds ! i) = Some e \<and> hb_size e = snd (qs ! i))) \<and>
    (\<forall>j. j \<notin> set hds \<longrightarrow> slot_get h' j = slot_get h j)"
  using assms
proof (induction qs arbitrary: h w)
  case Nil
  then show ?case by simp
next
  case (Cons q qs)
  obtain k e h1 w1 where i: "import_one V q (h, w) = (Some k, h1, w1)"
    and al: "slot_alloc h e = Some (k, h1)" and sz: "hb_size e = snd q"
    using import_one_alloc [of V q h w] Cons.prems by auto
  note live = slot_alloc_live [OF al]
  obtain hds h' w' where t: "traverse (import_one V) qs (h1, w1) = (Some hds, h', w')"
    and len: "length h' = length h1" and d: "distinct hds" "length hds = length qs"
    and new: "\<forall>i<length qs. slot_get h1 (hds ! i) = None \<and>
       (\<exists>e. slot_get h' (hds ! i) = Some e \<and> hb_size e = snd (qs ! i))"
    and old: "\<forall>j. j \<notin> set hds \<longrightarrow> slot_get h' j = slot_get h1 j"
    using Cons.IH [of h1 w1] Cons.prems live by auto
  have k: "slot_get h1 k = Some e" "slot_get h k = None"
    using slots.alloc_lookup [OF al, of k] slots.alloc_fresh [OF al] by auto
  have knot: "k \<notin> set hds" using new d k by (auto simp: in_set_conv_nth)
  have "slot_get h (hds ! i) = None" if "i < length qs" for i
    using new that slots.alloc_lookup [OF al, of "hds ! i"] k by (auto split: if_splits)
  moreover have "slot_get h' j = slot_get h j" if "j \<noteq> k" "j \<notin> set hds" for j
    using old that slots.alloc_lookup [OF al, of j] by simp
  moreover have "slot_get h' k = Some e" using old knot k by simp
  ultimately show ?case
    using i t len live d new knot k sz
    by (intro exI [of _ "k # hds"] exI [of _ h'] exI [of _ w']) (auto simp: less_Suc_eq_0_disj)
qed

text \<open>
  C2. An IMPORT of up to 16 dma-bufs into a session with room for them answers status 0 and one
  handle per buffer: pairwise different handles that named nothing before, now resolving to buffers
  of the announced sizes; every other handle still names what it named, and the next command is
  read from the right place.
\<close>

theorem import_correct:
  assumes ok: "\<forall>k. vk_ok V k" and mt: "\<forall>f\<in>set fds. import_mt V (vk_bits V (snd f)) \<noteq> None"
    and n: "1 \<le> length fds" "length fds \<le> MAXBUF" and sz: "length sizes = length fds"
    and u32: "\<forall>x\<in>set sizes. x < 2 ^ 32"
    and room: "slot_live (z_h s) + length fds \<le> length (z_h s)"
    and inp: "stream (cq (z_c s)) = put32s sizes @ z" and out: "4 + 4 * length fds \<le> croom (z_c s)"
  shows "\<exists>hds. let s' = z_import V (length fds) fds s in
    co (z_c s') = co (z_c s) @ status_ok @ put32s hds \<and> stream (cq (z_c s')) = z \<and>
    distinct hds \<and> length hds = length fds \<and>
    (\<forall>i<length fds. slot_get (z_h s) (hds ! i) = None \<and>
       (\<exists>e. slot_get (z_h s') (hds ! i) = Some e \<and> hb_size e = sizes ! i)) \<and>
    (\<forall>j. j \<notin> set hds \<longrightarrow> slot_get (z_h s') j = slot_get (z_h s) j)"
proof -
  let ?qs = "zip fds sizes"
  have "slot_live (z_h s) + length ?qs \<le> length (z_h s)" using room sz by simp
  moreover have "\<forall>q\<in>set ?qs. import_mt V (vk_bits V (snd (fst q))) \<noteq> None"
    using mt by (metis prod.collapse set_zip_leftD)
  ultimately obtain hds h' w' where t: "traverse (import_one V) ?qs (z_h s, z_w s) = (Some hds, h', w')"
    and d: "distinct hds" "length hds = length ?qs"
    and new: "\<forall>i<length ?qs. slot_get (z_h s) (hds ! i) = None \<and>
       (\<exists>e. slot_get h' (hds ! i) = Some e \<and> hb_size e = snd (?qs ! i))"
    and old: "\<forall>j. j \<notin> set hds \<longrightarrow> slot_get h' j = slot_get (z_h s) j"
    using imports_ok [OF ok, of ?qs "z_h s" "z_w s"] by blast
  obtain c1 where c1: "rd (length fds * 4) (z_c s) = (Some (put32s sizes), c1)" "stream (cq c1) = z"
      "co c1 = co (z_c s)" "croom c1 = croom (z_c s)"
    using rd_stream [OF inp, of "length fds * 4"] sz by auto
  have g: "get32s (length fds) (put32s sizes) = sizes"
    using get32s_put32s_id [of sizes "length fds" "[]"] u32 sz by simp
  have "z_import V (length fds) fds s =
      z_put (put32s hds) (z_put status_ok (s\<lparr>z_c := c1, z_h := h', z_w := w'\<rparr>))"
    using n by (auto simp: z_import_def c1 g t)
  then show ?thesis
    using c1 d new old sz out
    by (intro exI [of _ hds]) (simp add: Let_def put_room status_ok_def)
qed

definition sess0 :: "packet list \<Rightarrow> zsess" where
  "sess0 ps = \<lparr>z_c = conn0 ps, z_h = replicate MAXH None, z_pc = pcache_init, z_w = world0, z_ndisp = 0\<rparr>"

lemma slot_live_replicate [simp]: "slot_live (replicate n None) = 0"
  by (induction n) auto

definition fds0 :: "fd list" where "fds0 = [(1, 5), (2, 6)]"
definition sizes0 :: "nat list" where "sizes0 = [4096, 64]"

theorem import_correct_witness:
  "\<exists>hds. let s' = z_import dev0 (length fds0) fds0 (sess0 [(put32s sizes0, [])]) in
    co (z_c s') = co (z_c (sess0 [(put32s sizes0, [])])) @ status_ok @ put32s hds \<and>
    stream (cq (z_c s')) = [] \<and> distinct hds \<and> length hds = length fds0 \<and>
    (\<forall>i<length fds0. slot_get (z_h (sess0 [(put32s sizes0, [])])) (hds ! i) = None \<and>
       (\<exists>e. slot_get (z_h s') (hds ! i) = Some e \<and> hb_size e = sizes0 ! i)) \<and>
    (\<forall>j. j \<notin> set hds \<longrightarrow> slot_get (z_h s') j = slot_get (z_h (sess0 [(put32s sizes0, [])])) j)"
proof (rule import_correct)
  have "import_mt dev0 1 \<noteq> None" by code_simp
  then show "\<forall>f\<in>set fds0. import_mt dev0 (vk_bits dev0 (snd f)) \<noteq> None" by (simp add: dev0_def)
qed (simp_all add: dev0_def sess0_def conn0_def MAXBUF_def MAXH_def fds0_def sizes0_def)

section \<open>Dispatches\<close>


definition hbuf0 :: hbuf where "hbuf0 = \<lparr>hb_b = 1, hb_m = 2, hb_size = 4096\<rparr>"


definition sess1 :: "packet list \<Rightarrow> zsess" where
  "sess1 ps = (sess0 ps)\<lparr>z_h := Some hbuf0 # replicate 63 None, z_w := world0\<lparr>w_live := {#1, 2#}\<rparr>\<rparr>"



text \<open>
  C4. With a driver that answers, the stages of a dispatch can be resolved in the pipeline cache
  exactly when they need at most 16 different pipelines: the cache never refuses a dispatch that
  fits and never runs one that does not.
\<close>

theorem resolve_capacity:
  assumes inv: "cache_inv L F m (pc, w)" and unpinned: "pkeys pc = {}" and ok: "\<forall>k. ok k"
  shows "(\<exists>is s'. traverse (get_q ok) qs (pc, w) = (Some is, s')) \<longleftrightarrow> card (qkey ` set qs) \<le> PCACHE"
  using resolve_total [OF inv ok, of "{}" qs] resolve_needs_room [OF inv] unpinned by auto

theorem resolve_capacity_witness:
  "(\<exists>is s'. traverse (get_q (\<lambda>k. True)) [([7], 1), ([8], 2)] (pcache_init, world0) = (Some is, s')) \<longleftrightarrow>
     card (qkey ` set [([7], 1), ([8], 2)]) \<le> PCACHE"
proof (rule resolve_capacity [of "{#}" "{#}" "world.more world0"])
  show "cache_inv {#} {#} (world.more world0) (pcache_init, world0)"
    using pcache_wf_init by (simp add: cache_inv_def world0_def)
      (simp add: pcache_init_def slot_sum_replicate)
  show "pkeys pcache_init = {}" using daemon_ready_init by (simp add: daemon_ready_def)
qed simp

section \<open>Protocol v3\<close>

lemma binds_of_bound: "x \<in> set (binds_of ns) \<Longrightarrow> \<forall>n\<in>set ns. n < 2 ^ 32 \<Longrightarrow> snd (snd x) < 2 ^ 32"
  by (induction ns rule: binds_of.induct) auto

lemma length_binds_of: "length ns = 4 * k \<Longrightarrow> length (binds_of ns) = k"
proof (induction k arbitrary: ns)
  case (Suc k)
  then obtain a b c d ms where "ns = a # b # c # d # ms"
    by (cases ns rule: binds_of.cases) auto
  with Suc show ?case by simp
qed simp

lemma read_stage3_Some:
  assumes r: "read_stage3 V fl sh h i c = (Some st, c')"
  shows "\<exists>e bd. slot_get sh (t_sh st) = Some e \<and> length (t_binds st) = s3_nbind e \<and>
    s3_nbind e \<le> MAXBUF \<and> length (t_pc st) = s3_pcsize e \<and>
    t_gx st \<le> MAXGRP \<and> t_gy st \<le> MAXGRP \<and> t_gz st \<le> MAXGRP \<and>
    length bd = s3_nbind e * 16 \<and> t_binds st = binds_of (get32s (4 * s3_nbind e) bd) \<and>
    (\<forall>x\<in>set (t_binds st). \<not> bind_bad V h x)"
proof -
  obtain x1 c1 where r1: "rd (if fl then 28 else 24) c = (x1, c1)" by (metis surj_pair)
  with r obtain bs where x1: "x1 = Some bs" by (cases x1) (auto simp: read_stage3_def)
  define f where "f = get32s 6 bs"
  note unf = read_stage3_def r1 x1 Let_def f_def [symmetric]
  obtain e where e: "slot_get sh (f ! 0) = Some e" using r by (auto simp: unf split: option.splits if_splits)
  have g: "f ! 4 \<le> MAXBUF" "f ! 4 = s3_nbind e" "f ! 5 = s3_pcsize e" "f ! 1 \<le> MAXGRP"
    "f ! 2 \<le> MAXGRP" "f ! 3 \<le> MAXGRP"
    using r e by (auto simp: unf split: if_splits)
  obtain x2 c2 where r2: "rd (s3_nbind e * 16) c1 = (x2, c2)" by (metis surj_pair)
  with r e g obtain bd where x2: "x2 = Some bd" by (cases x2) (auto simp: unf split: if_splits)
  obtain x3 c3 where r3: "rd (s3_pcsize e) c2 = (x3, c3)" by (metis surj_pair)
  with r e g r2 x2 obtain pc where x3: "x3 = Some pc"
    by (cases x3) (auto simp: unf split: if_splits)
  have good: "\<not> (\<exists>x\<in>set (binds_of (get32s (4 * s3_nbind e) bd)). bind_bad V h x)"
    using r e g r2 x2 by (auto simp: unf split: if_splits)
  have st: "st = \<lparr>t_sh = f ! 0, t_gx = f ! 1, t_gy = f ! 2, t_gz = f ! 3,
      t_flags = (if fl then le_nat (drop 24 bs) else 0),
      t_binds = binds_of (get32s (4 * s3_nbind e) bd), t_pc = pc\<rparr>"
    using r e g r2 x2 r3 x3 good by (auto simp: unf split: if_splits)
  have "length bd = s3_nbind e * 16" "length pc = s3_pcsize e"
    using rd_Some [of "s3_nbind e * 16" c1 bd c2] rd_Some [of "s3_pcsize e" c2 pc c3] r2 x2 r3 x3
    by blast+
  then show ?thesis
    using e g st good by (intro exI [of _ e] exI [of _ bd]) (simp add: length_binds_of)
qed

text \<open>A stage as a client encodes it; command 9 adds the flags word.\<close>

definition bind_words :: "nat \<times> nat \<times> nat \<Rightarrow> nat list" where
  "bind_words x = (case x of (k, off, rg) \<Rightarrow> [k, off mod 2 ^ 32, off div 2 ^ 32, rg])"

definition enc_stage3 :: "bool \<Rightarrow> stage3 \<Rightarrow> byte list" where
  "enc_stage3 flagged st =
     put32s [t_sh st, t_gx st, t_gy st, t_gz st, length (t_binds st), length (t_pc st)] @
     (if flagged then le32 (t_flags st) else []) @
     put32s (concat (map bind_words (t_binds st))) @ t_pc st"

definition stage3_fits ::
  "vkdev \<Rightarrow> bool \<Rightarrow> sh3 option list \<Rightarrow> hbuf option list \<Rightarrow> stage3 \<Rightarrow> bool" where
  "stage3_fits V flagged sh h st \<longleftrightarrow>
     (case slot_get sh (t_sh st) of
        None \<Rightarrow> False
      | Some e \<Rightarrow> length (t_binds st) = s3_nbind e \<and> length (t_pc st) = s3_pcsize e \<and>
          s3_nbind e \<le> MAXBUF \<and> s3_pcsize e \<le> MAXPC3) \<and>
     t_gx st \<le> MAXGRP \<and> t_gy st \<le> MAXGRP \<and> t_gz st \<le> MAXGRP \<and>
     t_flags st < 2 ^ 32 \<and> (flagged \<or> t_flags st = 0) \<and>
     list_all (\<lambda>(k, off, rg). \<exists>e. slot_get h k = Some e \<and> off \<le> hb_size e \<and>
       off mod sbo_align V = 0 \<and> off + rg \<le> hb_size e) (t_binds st)"

lemma binds_of_words:
  "binds_of (concat (map bind_words bs)) = bs"
  by (induction bs) (auto simp: bind_words_def le_word_def split: prod.splits)

lemma read_stage3_ok:
  assumes fits: "stage3_fits V fl sh h st" and len: "length sh \<le> MAXSH3" "length h \<le> MAXH"
    and sizes: "\<forall>k e. slot_get h k = Some e \<longrightarrow> hb_size e < 2 ^ 32"
    and inp: "stream (cq c) = enc_stage3 fl st @ z"
  shows "\<exists>c'. read_stage3 V fl sh h i c = (Some st, c') \<and> stream (cq c') = z \<and>
    co c' = co c \<and> croom c' = croom c"
proof -
  let ?f = "[t_sh st, t_gx st, t_gy st, t_gz st, length (t_binds st), length (t_pc st)]"
  let ?hdr = "put32s ?f @ (if fl then le32 (t_flags st) else [])"
  let ?ws = "concat (map bind_words (t_binds st))"
  obtain e where e: "slot_get sh (t_sh st) = Some e" "length (t_binds st) = s3_nbind e"
    "length (t_pc st) = s3_pcsize e" "s3_nbind e \<le> MAXBUF" "s3_pcsize e \<le> MAXPC3"
    using fits by (auto simp: stage3_fits_def split: option.splits)
  have hb: "\<exists>e. slot_get h k = Some e \<and> off \<le> hb_size e \<and> off mod sbo_align V = 0 \<and>
      off + rg \<le> hb_size e" if "(k, off, rg) \<in> set (t_binds st)" for k off rg
    using fits that by (auto simp: stage3_fits_def list_all_iff)
  have kb: "k < 2 ^ 32 \<and> off < 2 ^ 32 \<and> rg < 2 ^ 32" if "(k, off, rg) \<in> set (t_binds st)" for k off rg
  proof -
    from hb [OF that] obtain e where he: "slot_get h k = Some e" "off \<le> hb_size e" "off + rg \<le> hb_size e"
      by blast
    from slot_get_SomeD [OF he(1)] len(2) have "k < 2 ^ 32" by (simp add: MAXH_def)
    with he sizes show ?thesis by (meson add_leD2 order_le_less_trans)
  qed
  have lw: "length ?ws = 4 * length (t_binds st)"
    by (induction "t_binds st" rule: rev_induct)
      (simp_all add: length_concat bind_words_def case_prod_beta o_def sum_list_triv)
  define hdr where "hdr = ?hdr"
  have inp1: "stream (cq c) = hdr @ put32s ?ws @ t_pc st @ z"
    using inp by (simp add: enc_stage3_def hdr_def)
  have lhdr: "length hdr = (if fl then 28 else 24)" by (simp add: hdr_def)
  obtain c1 where c1: "rd (if fl then 28 else 24) c = (Some hdr, c1)"
    "stream (cq c1) = put32s ?ws @ t_pc st @ z" "co c1 = co c" "croom c1 = croom c"
    using rd_stream [OF inp1 lhdr] by blast
  obtain c2 where c2: "rd (s3_nbind e * 16) c1 = (Some (put32s ?ws), c2)"
    "stream (cq c2) = t_pc st @ z" "co c2 = co c" "croom c2 = croom c"
    using rd_stream [OF c1(2), of "s3_nbind e * 16"] c1 lw e by auto
  obtain c3 where c3: "rd (s3_pcsize e) c2 = (Some (t_pc st), c3)" "stream (cq c3) = z"
    "co c3 = co c" "croom c3 = croom c"
    using rd_stream [OF c2(2), of "s3_pcsize e"] c2 e by auto
  have "t_sh st < 2 ^ 32" using slot_get_SomeD [OF e(1)] len(1) by (simp add: MAXSH3_def)
  then have f: "get32s 6 hdr = ?f"
    unfolding hdr_def using fits e
    by (intro get32s_put32s_id) (auto simp: stage3_fits_def MAXGRP_def MAXBUF_def MAXPC3_def)
  have flg: "(if fl then le_nat (drop 24 hdr) else 0) = t_flags st"
    using fits by (auto simp: hdr_def stage3_fits_def le_nat_le_bytes)
  have ws: "get32s (4 * s3_nbind e) (put32s ?ws) = ?ws"
    using get32s_put32s_id [of ?ws "4 * s3_nbind e" "[]"] lw e kb
    by (fastforce simp: bind_words_def)
  have good: "\<not> (\<exists>x\<in>set (t_binds st). bind_bad V h x)"
  proof
    assume "\<exists>x\<in>set (t_binds st). bind_bad V h x"
    then obtain k off rg where x: "(k, off, rg) \<in> set (t_binds st)" "bind_bad V h (k, off, rg)" by auto
    from hb [OF x(1)] kb [OF x(1)] x(2) show False by (auto simp: bind_bad_def)
  qed
  have grp: "t_gx st \<le> MAXGRP" "t_gy st \<le> MAXGRP" "t_gz st \<le> MAXGRP"
    using fits by (simp_all add: stage3_fits_def)
  show ?thesis
    using c3 grp e good
    by (simp add: read_stage3_def c1(1) Let_def f flg c2(1) ws binds_of_words c3(1)
        del: put32s_simps put32s_append)
qed

text \<open>
  C5. Whatever a client sends, a v3 stage that passes the checks uses a loaded shader with exactly
  the bindings and push-constant bytes it was loaded for, a grid within 65535 groups, and for every
  binding a live handle, an aligned offset and a range that ends inside the buffer: the 64-bit sum
  in the check cannot wrap because sizes are 32-bit and the offset has been compared first.
\<close>

theorem stage3_bindings_in_bounds:
  assumes sizes: "\<forall>k e. slot_get h k = Some e \<longrightarrow> hb_size e < 2 ^ 32"
    and r: "read_stage3 V fl sh h i c = (Some st, c')"
  shows "(\<exists>e. slot_get sh (t_sh st) = Some e \<and> length (t_binds st) = s3_nbind e \<and>
      length (t_pc st) = s3_pcsize e) \<and>
    t_gx st \<le> 65535 \<and> t_gy st \<le> 65535 \<and> t_gz st \<le> 65535 \<and> length (t_binds st) \<le> 16 \<and>
    list_all (\<lambda>(k, off, rg). \<exists>e. slot_get h k = Some e \<and> off + rg \<le> hb_size e \<and> off \<le> hb_size e \<and>
      off mod sbo_align V = 0) (t_binds st)"
proof -
  obtain e bd where e: "slot_get sh (t_sh st) = Some e" "length (t_binds st) = s3_nbind e"
    "s3_nbind e \<le> MAXBUF" "length (t_pc st) = s3_pcsize e"
    "t_gx st \<le> MAXGRP" "t_gy st \<le> MAXGRP" "t_gz st \<le> MAXGRP"
    and bd: "length bd = s3_nbind e * 16" "t_binds st = binds_of (get32s (4 * s3_nbind e) bd)"
    and good: "\<forall>x\<in>set (t_binds st). \<not> bind_bad V h x"
    using read_stage3_Some [OF r] by blast
  have rg: "snd (snd x) < 2 ^ 32" if "x \<in> set (t_binds st)" for x
    using that get32s_bound [of _ "4 * s3_nbind e" bd] bd by (intro binds_of_bound) auto
  have "\<exists>e. slot_get h k = Some e \<and> off + rg \<le> hb_size e \<and> off \<le> hb_size e \<and> off mod sbo_align V = 0"
    if x: "(k, off, rg) \<in> set (t_binds st)" for k off rg
  proof -
    from good x have "\<not> bind_bad V h (k, off, rg)" by blast
    then obtain e where g: "slot_get h k = Some e" "off \<le> hb_size e" "off mod sbo_align V = 0"
      "rg = 0 \<or> (off + rg) mod 2 ^ 64 \<le> hb_size e"
      by (auto simp: bind_bad_def split: option.splits)
    have "hb_size e < 2 ^ 32" using sizes g(1) by blast
    then have "off + rg < 2 ^ 64" using g(2) rg [OF x] by simp
    with g show ?thesis by auto
  qed
  then show ?thesis using e by (auto simp: list_all_iff MAXGRP_def MAXBUF_def)
qed

definition sh3_0 :: sh3 where
  "sh3_0 = \<lparr>s3_nbind = 1, s3_pcsize = 4, s3_shader = 3, s3_dsl = 4, s3_pll = 5, s3_pipe = 6\<rparr>"

definition stage3_0 :: stage3 where
  "stage3_0 = \<lparr>t_sh = 0, t_gx = 4, t_gy = 1, t_gz = 1, t_flags = 0, t_binds = [(0, 256, 1024)],
                t_pc = le32 7\<rparr>"

theorem stage3_bindings_in_bounds_witness:
  "\<exists>st c'. read_stage3 dev0 False [Some sh3_0] [Some hbuf0] 0
      (conn0 [(enc_stage3 False stage3_0, [])]) = (Some st, c') \<and>
    (\<exists>e. slot_get [Some sh3_0] (t_sh st) = Some e \<and> length (t_binds st) = s3_nbind e \<and>
      length (t_pc st) = s3_pcsize e) \<and>
    t_gx st \<le> 65535 \<and> t_gy st \<le> 65535 \<and> t_gz st \<le> 65535 \<and> length (t_binds st) \<le> 16 \<and>
    list_all (\<lambda>(k, off, rg). \<exists>e. slot_get [Some hbuf0] k = Some e \<and> off + rg \<le> hb_size e \<and>
      off \<le> hb_size e \<and> off mod sbo_align dev0 = 0) (t_binds st)"
proof -
  have sz: "\<forall>k e. slot_get [Some hbuf0] k = Some e \<longrightarrow> hb_size e < 2 ^ 32"
    by (auto simp: slot_get_def hbuf0_def split: if_splits)
  have "stage3_fits dev0 False [Some sh3_0] [Some hbuf0] stage3_0"
    by (simp add: stage3_fits_def stage3_0_def sh3_0_def hbuf0_def slot_get_def dev0_def
        sbo_align_def MAXBUF_def MAXPC3_def MAXGRP_def)
  then obtain c' where r: "read_stage3 dev0 False [Some sh3_0] [Some hbuf0] 0
      (conn0 [(enc_stage3 False stage3_0, [])]) = (Some stage3_0, c')"
    using read_stage3_ok [OF _ _ _ sz, of dev0 False "[Some sh3_0]" stage3_0
        "conn0 [(enc_stage3 False stage3_0, [])]" "[]" 0]
    by (auto simp: conn0_def MAXSH3_def MAXH_def)
  from stage3_bindings_in_bounds [OF sz r] r show ?thesis by blast
qed

text \<open>
  A v3 dispatch is ordered like a v2 one as long as neither the session flag nor a stage flag
  asks for a missing barrier; a stage whose flag is set gets none in front of it, so dropping
  barriers is always the client's decision.
\<close>

definition barriers :: "gcmd list \<Rightarrow> nat" where
  "barriers cs = length (filter compute_barrier cs)"

lemma barriers_stage3 [simp]: "barriers (stage3_cmds sh h st) = 0"
  by (simp add: barriers_def stage3_cmds_def compute_barrier_def split: option.splits)

lemma barriers_append [simp]: "barriers (xs @ ys) = barriers xs + barriers ys"
  by (simp add: barriers_def)

lemma barriers_record3:
  "barriers (record_stages3 f fl sh h sts) =
     (if even fl then length (filter (\<lambda>st. even (t_flags st)) (if f then tl sts else sts)) else 0)"
proof (induction sts arbitrary: f)
  case (Cons st sts)
  have "barriers [shader_to_shader] = 1" "barriers [] = 0"
    by (simp_all add: barriers_def shader_to_shader_def compute_barrier_def)
  with Cons show ?case by auto
qed (simp add: barriers_def)

theorem stage3_barriers:
  "barriers (cmd_buffer3 fl sh h sts) =
      (if even fl then length (filter (\<lambda>st. even (t_flags st)) (tl sts)) else 0) \<and>
    (if even fl \<and> list_all (\<lambda>st. even (t_flags st)) sts
     then ordered True (cmd_buffer3 fl sh h sts) else True)"
proof -
  have "barriers (cmd_buffer3 fl sh h sts) = barriers (record_stages3 True fl sh h sts)"
    by (simp add: cmd_buffer3_def barriers_def host_to_shader_def shader_to_host_def
        compute_barrier_def)
  then show ?thesis
    using barriers_record3 [of True fl sh h sts] ordered_cmd_buffer3 [of fl sts sh h]
    by (auto simp: list_all_iff)
qed

text \<open>
  The bounds check of COPY adds in 64 bits and wraps: for any two live handles (the destination
  of at least one byte) a client can have one byte copied from the source offset \<open>2 ^ 64 - 1\<close>, far
  outside the buffer, and is told that the copy succeeded.
\<close>

theorem copy_check_wraps:
  assumes ok: "\<forall>k. vk_ok V k" and h: "slot_get (z_h s) a = Some es" "slot_get (z_h s) b = Some ed"
    and sz: "hb_size es < 2 ^ 32" "1 \<le> hb_size ed"
    and inp: "stream (cq (z_c s)) = le64 (2 ^ 64 - 1) @ le64 0 @ le64 1 @ z"
    and out: "4 \<le> croom (z_c s)"
  shows "let s' = z3_copy V a b s in
    co (z_c s') = co (z_c s) @ status_ok \<and> hb_size es < 2 ^ 64 - 1 \<and>
    w_subs (z_w s') = w_subs (z_w s) @ [copy_cmds es ed (2 ^ 64 - 1) 0 1]"
proof -
  have "stream (cq (z_c s)) = (le64 (2 ^ 64 - 1) @ le64 0 @ le64 1) @ z" using inp by simp
  then obtain c1 where c1: "rd 24 (z_c s) = (Some (le64 (2 ^ 64 - 1) @ le64 0 @ le64 1), c1)"
    "co c1 = co (z_c s)" "croom c1 = croom (z_c s)"
    using rd_stream [of "z_c s" "le64 (2 ^ 64 - 1) @ le64 0 @ le64 1" z 24] by auto
  obtain w1 where g: "gpu_submit (vk_ok V) (copy_cmds es ed (2 ^ 64 - 1) 0 1) (z_w s) = (True, w1)"
    using gpu_submit_total [OF ok] by blast
  have n: "le_nat (le64 18446744073709551615) = 18446744073709551615" "le_nat (le64 0) = 0"
    "le_nat (le64 (Suc 0)) = Suc 0"
    by (subst le_nat_le64; simp)+
  have "copy_fits es ed (2 ^ 64 - 1) 0 1" using sz by (simp add: copy_fits_def)
  then have "z3_copy V a b s = z_put status_ok (s\<lparr>z_c := c1, z_w := w1\<rparr>)"
    using c1(1) h g by (simp add: z3_copy_def Let_def n del: le_bytes.simps)
  then show ?thesis
    using c1 out gpu_submit_acct [OF g] sz by (simp add: Let_def put_room status_ok_def)
qed

definition sess3_0 :: "packet list \<Rightarrow> zsess3" where
  "sess3_0 ps = \<lparr>z_c = conn0 ps, z_h = Some hbuf0 # replicate 63 None, z_pc = pcache_init,
     z_w = world0\<lparr>w_live := {#1, 2#}\<rparr>, z_ndisp = 0, z_sh = replicate MAXSH3 None,
     z_dp = \<lparr>dp_pool = 0, dp_sets = 0, dp_desc = 0\<rparr>, z_flags = 0, z_exit = False\<rparr>"

definition copy_far :: "packet list" where
  "copy_far = [(le64 (2 ^ 64 - 1) @ le64 0 @ le64 1, [])]"

theorem copy_check_wraps_witness:
  "let s' = z3_copy dev0 0 0 (sess3_0 copy_far) in
    co (z_c s') = co (z_c (sess3_0 copy_far)) @ status_ok \<and> hb_size hbuf0 < 2 ^ 64 - 1 \<and>
    w_subs (z_w s') = w_subs (z_w (sess3_0 copy_far)) @ [copy_cmds hbuf0 hbuf0 (2 ^ 64 - 1) 0 1]"
  by (rule copy_check_wraps [where z = "[]"])
    (simp_all add: dev0_def sess3_0_def slot_get_def hbuf0_def copy_far_def conn0_def)

section \<open>What slips\<close>

text \<open>
  When the memory of a dma-buf cannot be allocated, \<open>import_buf\<close> destroys the buffer it has
  created and leaves its handle behind; \<open>serve_v1\<close> then destroys the same buffer again.
\<close>

theorem v1_destroys_buffer_twice:
  assumes rej: "\<not> v1_reject hdr 1" and w: "\<not> w_bad w" "w_live w = {#}"
    and mt: "import_mt V (vk_bits V (snd f)) \<noteq> None"
    and ok: "vk_ok V = (\<lambda>k. k \<noteq> w_tick w + 4)"
    and inp: "stream (cq c) = sizes @ spirv @ z" "length sizes = 4" "length spirv = hdr ! 1"
  shows "w_bad (snd (snd (serve_v1 V hdr [f] c pc w)))"
proof -
  have n1: "hdr ! 5 = Suc 0" using rej by (auto simp: v1_reject_def Let_def)
  obtain c1 where c1: "rd 4 c = (Some sizes, c1)" "stream (cq c1) = spirv @ z"
    using rd_stream [OF inp(1,2)] by blast
  obtain c2 where c2: "rd (hdr ! Suc 0) c1 = (Some spirv, c2)"
    using rd_stream [OF c1(2), of "hdr ! Suc 0"] inp by auto
  define w1 where "w1 = w\<lparr>w_tick := Suc (w_tick w)\<rparr>"
  have t: "ext_try (vk_ok V) w = (True, w1)" by (simp add: ext_try_def ok w1_def)
  obtain w2 where i: "import_buf V f 0 0 w1 = (False, w_tick w + 3, 0, w2)" and w2: "w_live w2 = {#}"
    using mt w
    by (auto simp: import_buf_def ext_try_def ext_new_def fd_dup_def ok w1_def acct_simps)
  show ?thesis
    using rej n1
    by (simp add: serve_v1_def Let_def c1(1) c2 t i w2 ext_free_def)
qed

theorem v1_destroys_buffer_twice_witness:
  "w_bad (snd (snd (serve_v1 (dev0\<lparr>vk_ok := (\<lambda>k. k \<noteq> 4)\<rparr>) [MAGIC1, 4, 1, 1, 1, 1] [(1, 5)]
     (conn0 [([0, 16, 0, 0, 3, 2, 35, 7], [])]) pcache_init world0)))"
proof -
  have mt: "import_mt (dev0\<lparr>vk_ok := (\<lambda>k. k \<noteq> 4)\<rparr>) 1 \<noteq> None" by code_simp
  show ?thesis
    by (rule v1_destroys_buffer_twice [where sizes = "[0, 16, 0, 0]" and spirv = "[3, 2, 35, 7]" and z = "[]"])
      (use mt in \<open>simp_all add: v1_reject_def MAXBUF_def MAXSPIRV_def MAXGRP_def world0_def dev0_def conn0_def\<close>)
qed

text \<open>
  Descriptors that come with less than a header are never closed: the connection is dropped
  and each of them stays open in the daemon.
\<close>

theorem short_header_leaks:
  assumes q: "cq c = [(d, files)]" and short: "length d < 24" "files \<noteq> []" "length files \<le> 16"
  shows "\<exists>fds. map snd fds = files \<and>
    (case serve V c pc w of (ex, c', pc', w') \<Rightarrow> w_fds w' = w_fds w + mset fds \<and> pc' = pc)"
proof -
  have r: "recvmsg 24 [(d, files)] = (d, files, [])" using short by (simp add: numeral_eq_Suc)
  obtain fds w1 where i: "install_fds files w = (fds, w1)" by (metis surj_pair)
  have "serve V c pc w = (False, c\<lparr>cq := []\<rparr>, pc, w1)"
    using short by (simp add: serve_def sys_recv_def q r i MAXBUF_def Let_def)
  with install_fds_acct [OF i] show ?thesis by (intro exI [of _ fds]) simp
qed

theorem short_header_leaks_witness:
  "\<exists>fds. map snd fds = [5] \<and>
    (case serve dev0 (conn0 [([0, 0, 0, 0], [5])]) pcache_init world0 of
       (ex, c', pc', w') \<Rightarrow> w_fds w' = w_fds world0 + mset fds \<and> pc' = pcache_init)"
  by (rule short_header_leaks [where d = "[0, 0, 0, 0]" and files = "[5]"]) (simp_all add: conn0_def)

section \<open>Releasing and memory types\<close>

lemma release_each_lookup:
  "release_each ks h w = (h', w') \<Longrightarrow> slot_get h' j = (if j \<in> set ks then None else slot_get h j)"
  by (induction ks h w rule: release_each.induct)
    (auto simp: slots.release_lookup split: option.splits if_splits)

text \<open>
  RELEASE of up to 16 handles, known or not, repeated or not, answers status 0; afterwards
  exactly these handles name nothing, every other handle names what it named, and as many handles
  can be allocated again.
\<close>

theorem release_correct:
  assumes n: "1 \<le> length ks" "length ks \<le> MAXBUF" and u32: "\<forall>k\<in>set ks. k < 2 ^ 32"
    and inp: "stream (cq (z_c s)) = put32s ks @ z" and out: "4 \<le> croom (z_c s)"
  shows "let s' = z_release (length ks) s in
    co (z_c s') = co (z_c s) @ status_ok \<and> stream (cq (z_c s')) = z \<and>
    (\<forall>j. slot_get (z_h s') j = (if j \<in> set ks then None else slot_get (z_h s) j))"
proof -
  obtain c1 where c1: "rd (length ks * 4) (z_c s) = (Some (put32s ks), c1)" "stream (cq c1) = z"
      "co c1 = co (z_c s)" "croom c1 = croom (z_c s)"
    using rd_stream [OF inp, of "length ks * 4"] by auto
  have g: "get32s (length ks) (put32s ks) = ks" using get32s_put32s_id [of ks _ "[]"] u32 by simp
  obtain h' w' where r: "release_each ks (z_h s) (z_w s) = (h', w')" by (metis surj_pair)
  have "z_release (length ks) s = z_put status_ok (s\<lparr>z_c := c1, z_h := h', z_w := w'\<rparr>)"
    using n by (auto simp: z_release_def c1 g r)
  then show ?thesis
    using c1 out release_each_lookup [OF r] by (simp add: Let_def put_room status_ok_def)
qed

definition handles0 :: "nat list" where "handles0 = [0, 9, 0]"

theorem release_correct_witness:
  "let s' = z_release (length handles0) (sess1 [(put32s handles0, [])]) in
    co (z_c s') = co (z_c (sess1 [(put32s handles0, [])])) @ status_ok \<and> stream (cq (z_c s')) = [] \<and>
    (\<forall>j. slot_get (z_h s') j =
       (if j \<in> set handles0 then None else slot_get (z_h (sess1 [(put32s handles0, [])])) j))"
  by (rule release_correct) (simp_all add: handles0_def MAXBUF_def sess1_def sess0_def conn0_def)

text \<open>
  Without an override, the memory type for an import is one the dma-buf allows and the host
  can see; it is the first device-local, host-visible and coherent one if there is any, else the
  first coherent one if there is any; and the import is refused only when no allowed type is
  host-visible.
\<close>

definition usable :: "vkdev \<Rightarrow> u32 \<Rightarrow> u32 \<Rightarrow> nat \<Rightarrow> bool" where
  "usable V tb want j \<longleftrightarrow> j < length (vk_types V) \<and> tb AND push_bit j 1 \<noteq> 0 \<and> vk_types V ! j AND want = want"

lemma pick_mem_case:
  "case pick_mem (vk_types V) tb want of
     None \<Rightarrow> (\<forall>j. \<not> usable V tb want j)
   | Some i \<Rightarrow> usable V tb want i \<and> (\<forall>j<i. \<not> usable V tb want j)"
proof (cases "pick_mem (vk_types V) tb want")
  case None
  from None [unfolded pick_mem_None] show ?thesis unfolding None usable_def by auto
next
  case (Some i)
  with pick_mem_SomeD [OF Some] show ?thesis unfolding usable_def by auto
qed

lemma and_or_imp: "(x :: u32) AND (a OR b) = a OR b \<Longrightarrow> x AND a = a \<and> x AND b = b"
  by (simp add: bit_eq_iff bit_simps) blast

theorem import_mt_choice:
  assumes "vk_force V = None"
  shows "case import_mt V tb of
      None \<Rightarrow> (\<forall>j. \<not> usable V tb HOST_VISIBLE j)
    | Some i \<Rightarrow> usable V tb HOST_VISIBLE i \<and>
        (if \<exists>j. usable V tb (DEVICE_LOCAL OR HOST_VISIBLE OR HOST_COHERENT) j
         then usable V tb (DEVICE_LOCAL OR HOST_VISIBLE OR HOST_COHERENT) i \<and>
           (\<forall>j<i. \<not> usable V tb (DEVICE_LOCAL OR HOST_VISIBLE OR HOST_COHERENT) j)
         else if \<exists>j. usable V tb (HOST_VISIBLE OR HOST_COHERENT) j
         then usable V tb (HOST_VISIBLE OR HOST_COHERENT) i \<and>
           (\<forall>j<i. \<not> usable V tb (HOST_VISIBLE OR HOST_COHERENT) j)
         else (\<forall>j<i. \<not> usable V tb HOST_VISIBLE j))"
proof -
  have vis: "usable V tb HOST_VISIBLE j"
    if "usable V tb (DEVICE_LOCAL OR HOST_VISIBLE OR HOST_COHERENT) j \<or> usable V tb (HOST_VISIBLE OR HOST_COHERENT) j"
    for j using that and_or_imp unfolding usable_def by blast
  note P = pick_mem_case [of V tb "DEVICE_LOCAL OR HOST_VISIBLE OR HOST_COHERENT"]
    pick_mem_case [of V tb "HOST_VISIBLE OR HOST_COHERENT"] pick_mem_case [of V tb HOST_VISIBLE]
  show ?thesis
    using assms P vis
    by (cases "pick_mem (vk_types V) tb (DEVICE_LOCAL OR HOST_VISIBLE OR HOST_COHERENT)";
        cases "pick_mem (vk_types V) tb (HOST_VISIBLE OR HOST_COHERENT)";
        cases "pick_mem (vk_types V) tb HOST_VISIBLE")
      (simp_all add: import_mt_def orelse_def; blast)+
qed

theorem import_mt_choice_witness:
  "case import_mt (dev0\<lparr>vk_types := [2, 6, 7, 7]\<rparr>) 14 of
      None \<Rightarrow> (\<forall>j. \<not> usable (dev0\<lparr>vk_types := [2, 6, 7, 7]\<rparr>) 14 HOST_VISIBLE j)
    | Some i \<Rightarrow> i = 2 \<and> usable (dev0\<lparr>vk_types := [2, 6, 7, 7]\<rparr>) 14 HOST_VISIBLE i"
proof -
  have "import_mt (dev0\<lparr>vk_types := [2, 6, 7, 7]\<rparr>) 14 = Some 2" by code_simp
  moreover have "vk_force (dev0\<lparr>vk_types := [2, 6, 7, 7]\<rparr>) = None" by (simp add: dev0_def)
  ultimately show ?thesis
    using import_mt_choice [of "dev0\<lparr>vk_types := [2, 6, 7, 7]\<rparr>" 14] by simp
qed

end
