(* ===== verification/Tpud_Infer.thy ===== *)
theory Tpud_Infer
  imports Sys
begin

text \<open>
  The inference core of src/src/hwbridge/tpud.c: the wakelock, the three ways of waiting for an
  output (fixed wait, fence, sentinel and stability poll), and \<open>tpu_infer_multi\<close> with the K=2 pair
  \<open>tpu_infer_pair\<close>. The accelerator is a parameter: which calls succeed, the function a model
  computes, which buffers a model fills with zeros instead, what the host sees of an output at each
  look, when a fence reports completion, and in which order two requests in flight read and write.
\<close>

section \<open>Memory, models and the environment\<close>

text \<open>
  A tensor buffer shows the memory of a dma-buf (\<open>CFile\<close>) or memory of its own (\<open>CBuf\<close>, made by
  \<open>mkbuf\<close>).
\<close>

datatype cell = CFile nat | CBuf nat

record model =
  m_in :: "nat list"
  m_out :: "nat list"

definition at0 :: "nat list \<Rightarrow> nat \<Rightarrow> nat" where
  "at0 xs k = (if k < length xs then xs ! k else 0)"

record tworld = world +
  t_mem :: "cell \<Rightarrow> byte list"
  t_sub :: nat
  t_sctr :: nat
  t_hung :: bool
  t_wl_en :: bool
  t_wl_held :: bool
  t_wl_last :: int
  t_wl_log :: "bool list"
  t_cib :: "nat option list"
  t_cob :: "nat option list"
  t_pib :: "nat option list"
  t_pob :: "nat option list"

text \<open>
  The environment. \<open>tp_zeros mid k c\<close>: in submission \<open>k\<close> the package writes zeros into \<open>c\<close> (what the
  comments of tpud.c report of LUT and softmax packages with imported dma-bufs, and of the first
  inferences outside the main thread). \<open>tp_first k\<close>: of two requests in flight the earlier one, \<open>k\<close>, is
  carried out first; \<open>tp_late k i\<close>: the one carried out second has the number \<open>k\<close> and reads byte \<open>i\<close> of its
  input after the other has written.
\<close>

record tpuenv =
  tp_ok :: "nat \<Rightarrow> bool"
  tp_graph :: "nat \<Rightarrow> byte list list \<Rightarrow> byte list list"
  tp_zeros :: "nat \<Rightarrow> nat \<Rightarrow> cell \<Rightarrow> bool"
  tp_first :: "nat \<Rightarrow> bool"
  tp_late :: "nat \<Rightarrow> nat \<Rightarrow> bool"
  tp_see :: "nat \<Rightarrow> nat \<Rightarrow> nat \<Rightarrow> byte list \<Rightarrow> byte list \<Rightarrow> byte list"
  tp_fin :: "nat \<Rightarrow> nat \<Rightarrow> bool"
  tp_clk :: "nat \<Rightarrow> nat \<Rightarrow> int"
  tp_now :: "nat \<Rightarrow> int"
  tp_us :: "nat \<Rightarrow> nat"
  tp_fence :: bool
  tp_wait_us :: int
  tp_poll_us :: int
  tp_max_wait :: int
  tp_idle_ms :: int
  tp_bounce :: "int option"
  tp_imp :: bool

section \<open>Wakelock\<close>

definition wl_write :: "tpuenv \<Rightarrow> bool \<Rightarrow> tworld \<Rightarrow> tworld" where
  "wl_write E v w =
     (case ext_try (tp_ok E) w of
        (False, w1) \<Rightarrow> w1\<lparr>t_wl_en := False\<rparr>
      | (True, w1) \<Rightarrow> w1\<lparr>t_wl_log := t_wl_log w1 @ [v]\<rparr>)"

definition wl_touch :: "tpuenv \<Rightarrow> tworld \<Rightarrow> tworld" where
  "wl_touch E w =
     (let w1 = w\<lparr>t_wl_last := tp_now E (w_tick w)\<rparr> in
      if t_wl_en w1 \<and> \<not> t_wl_held w1 then (wl_write E True w1)\<lparr>t_wl_held := True\<rparr> else w1)"

definition wl_release :: "tpuenv \<Rightarrow> tworld \<Rightarrow> tworld" where
  "wl_release E w = (if t_wl_held w then (wl_write E False w)\<lparr>t_wl_held := False\<rparr> else w)"

text \<open>One round of \<open>wl_idle_thread\<close>.\<close>

definition wl_idle :: "tpuenv \<Rightarrow> tworld \<Rightarrow> tworld" where
  "wl_idle E w =
     (if t_wl_held w \<and> tp_now E (w_tick w) - t_wl_last w > tp_idle_ms E then wl_release E w else w)"

section \<open>Sentinel and stability poll\<close>

definition next_sentinel :: "nat \<Rightarrow> nat" where
  "next_sentinel s = (let a = Suc s mod 256 in if a = 0 then 1 else a)"

definition NSAMP :: nat where "NSAMP = 64"

definition stride :: "nat \<Rightarrow> nat" where
  "stride osz = (if osz div NSAMP < 1 then 1 else osz div NSAMP)"

definition samples :: "nat \<Rightarrow> byte list \<Rightarrow> byte list" where
  "samples osz bs = map (\<lambda>s. bs ! (s * stride osz)) (filter (\<lambda>s. s * stride osz < osz) [0..<NSAMP])"

text \<open>The fingerprint \<open>MKFP\<close> is the hash of the samples.\<close>

definition mkfp :: "nat \<Rightarrow> byte list \<Rightarrow> u64" where
  "mkfp osz bs = fnv1a (samples osz bs)"

text \<open>
  One round of the loop \<open>while(waited<g_max_wait_us)\<close>, where \<open>obs i\<close> is what the host sees after
  the \<open>i\<close>-th invalidation: either the output is found stable (the fingerprint three times the same
  and then all bytes twice the same), or the loop goes on after one or two observations with a new
  stability count, the started flag and the fingerprint to compare with.
\<close>

datatype polled = PStable | PGo nat nat bool u64

definition poll_step ::
  "nat \<Rightarrow> byte \<Rightarrow> (nat \<Rightarrow> byte list) \<Rightarrow> nat \<Rightarrow> nat \<Rightarrow> bool \<Rightarrow> u64 \<Rightarrow> polled" where
  "poll_step osz sv obs i stab started prev =
     (let o1 = obs (Suc i);
          started1 = (started \<or> (\<exists>b\<in>set (samples osz o1). b \<noteq> sv));
          fp = mkfp osz o1 in
      if started1 \<and> fp = prev then
        (if 2 \<le> Suc stab then
           (let o2 = obs (Suc (Suc i)) in
            if take osz o1 = take osz o2 then PStable else PGo 2 0 started1 (mkfp osz o2))
         else PGo 1 (Suc stab) started1 fp)
      else PGo 1 0 started1 fp)"

text \<open>
  The result tells whether the output was found stable and the last observation; \<open>None\<close> is a loop
  that does not end.
\<close>

partial_function (option) poll_loop ::
  "int \<Rightarrow> int \<Rightarrow> nat \<Rightarrow> byte \<Rightarrow> (nat \<Rightarrow> byte list) \<Rightarrow> nat \<Rightarrow> int \<Rightarrow> nat \<Rightarrow> bool \<Rightarrow> u64 \<Rightarrow> (bool \<times> nat) option"
  where
  "poll_loop maxw poll osz sv obs i waited stab started prev =
     (if \<not> waited < maxw then Some (False, i)
      else case poll_step osz sv obs i stab started prev of
          PStable \<Rightarrow> Some (True, Suc (Suc i))
        | PGo n stab1 started1 prev1 \<Rightarrow>
            poll_loop maxw poll osz sv obs (i + n) (waited + poll) stab1 started1 prev1)"

text \<open>
  The spin on \<open>fenceDone\<close>: the clock is looked at only after 200000 rounds.
\<close>

partial_function (option) fence_loop ::
  "(nat \<Rightarrow> bool) \<Rightarrow> (nat \<Rightarrow> int) \<Rightarrow> int \<Rightarrow> nat \<Rightarrow> bool option" where
  "fence_loop fin clk maxw i =
     (if fin i then Some True
      else if Suc i > 200000 \<and> clk i > maxw then Some False
      else fence_loop fin clk maxw (Suc i))"

section \<open>Inference\<close>

fun store_outs ::
  "(nat \<Rightarrow> byte list \<Rightarrow> byte list) \<Rightarrow> nat \<Rightarrow> cell list \<Rightarrow> (cell \<Rightarrow> byte list) \<Rightarrow> cell \<Rightarrow> byte list" where
  "store_outs f j [] m = m"
| "store_outs f j (c # cs) m = store_outs f (Suc j) cs (m(c := f j (m c)))"

text \<open>What submission \<open>k\<close> of model \<open>mid\<close> writes into its outputs.\<close>

definition dev_run :: "tpuenv \<Rightarrow> nat \<Rightarrow> nat \<Rightarrow> byte list list \<Rightarrow> cell list \<Rightarrow> byte list list" where
  "dev_run E mid k bs outs =
     map (\<lambda>(j, r). if j < length outs \<and> tp_zeros E mid k (outs ! j) then replicate (length r) 0 else r)
       (enumerate 0 (tp_graph E mid bs))"

definition see_outs :: "tpuenv \<Rightarrow> nat \<Rightarrow> nat \<Rightarrow> byte list list \<Rightarrow> nat \<Rightarrow> byte list \<Rightarrow> byte list" where
  "see_outs E k i fin j old = tp_see E k i j old (if j < length fin then fin ! j else [])"

definition done_outs :: "byte list list \<Rightarrow> nat \<Rightarrow> byte list \<Rightarrow> byte list" where
  "done_outs fin j old = (if j < length fin then over (fin ! j) old else old)"

text \<open>
  The wait for one fenced submission (number \<open>k\<close>, result \<open>fin\<close>): spin, make the outputs visible,
  free fence and request. Without a fence object the code does not wait at all. \<open>None\<close> is a spin
  that does not end.
\<close>

definition fence_wait ::
  "tpuenv \<Rightarrow> nat \<Rightarrow> byte list list \<Rightarrow> nat option \<Rightarrow> nat \<Rightarrow> cell list \<Rightarrow> tworld \<Rightarrow> bool option \<times> tworld" where
  "fence_wait E k fin fence req outs w =
     (case fence of
        None \<Rightarrow> (Some True, ext_free req (w\<lparr>t_mem := store_outs (see_outs E k 0 fin) 0 outs (t_mem w)\<rparr>))
      | Some f \<Rightarrow>
          (case fence_loop (tp_fin E k) (tp_clk E k) (tp_max_wait E) 0 of
             None \<Rightarrow> (None, w\<lparr>t_hung := True\<rparr>)
           | Some d \<Rightarrow>
               (Some d, ext_free req (ext_free f
                 (w\<lparr>t_mem := store_outs (if d then done_outs fin else see_outs E k 0 fin) 0 outs
                                (t_mem w)\<rparr>)))))"

definition bump_sub :: "tworld \<Rightarrow> tworld" where
  "bump_sub w = w\<lparr>t_sub := Suc (t_sub w)\<rparr>"

text \<open>
  \<open>memset(oh, sv, osz)\<close> with the next sentinel value.
\<close>

definition set_sentinel :: "nat \<Rightarrow> cell \<Rightarrow> tworld \<Rightarrow> tworld" where
  "set_sentinel osz c w =
     w\<lparr>t_sctr := next_sentinel (t_sctr w),
       t_mem := (t_mem w)(c := over (replicate osz (of_nat (next_sentinel (t_sctr w)))) (t_mem w c))\<rparr>"

definition infer_wait ::
  "tpuenv \<Rightarrow> model list \<Rightarrow> nat \<Rightarrow> cell list \<Rightarrow> cell list \<Rightarrow> tworld \<Rightarrow> int \<times> nat \<times> tworld" where
  "infer_wait E ms mid ins outs w =
     (case ext_new (tp_ok E) (set_sentinel (at0 (m_out (ms ! mid)) 0) (hd outs) w) of
        (None, w1) \<Rightarrow> (-1, 0, w1)
      | (Some req, w1) \<Rightarrow>
          (let k = t_sub w1; fin = dev_run E mid k (map (t_mem w1) ins) outs; w2 = bump_sub w1 in
           (0, nat (tp_wait_us E),
            ext_free req (w2\<lparr>t_mem := store_outs (see_outs E k 0 fin) 0 outs (t_mem w2)\<rparr>))))"

definition infer_fence ::
  "tpuenv \<Rightarrow> model list \<Rightarrow> nat \<Rightarrow> cell list \<Rightarrow> cell list \<Rightarrow> tworld \<Rightarrow> int \<times> nat \<times> tworld" where
  "infer_fence E ms mid ins outs w =
     (case ext_new (tp_ok E) w of
        (None, w1) \<Rightarrow> (-1, 0, w1)
      | (Some req, w1) \<Rightarrow>
          (let k = t_sub w1; fin = dev_run E mid k (map (t_mem w1) ins) outs in
           case ext_new (tp_ok E) (bump_sub w1) of
             (fence, w2) \<Rightarrow>
               (case fence_wait E k fin fence req outs w2 of
                  (None, w3) \<Rightarrow> (-1, 0, w3)
                | (Some d, w3) \<Rightarrow> (if d then 0 else -2, tp_us E k, w3))))"

definition infer_poll ::
  "tpuenv \<Rightarrow> model list \<Rightarrow> nat \<Rightarrow> cell list \<Rightarrow> cell list \<Rightarrow> tworld \<Rightarrow> int \<times> nat \<times> tworld" where
  "infer_poll E ms mid ins outs w =
     (let osz = at0 (m_out (ms ! mid)) 0; w0 = set_sentinel osz (hd outs) w; sv = t_sctr w0 in
      case ext_new (tp_ok E) w0 of
        (None, w1) \<Rightarrow> (-1, 0, w1)
      | (Some req, w1) \<Rightarrow>
          (let k = t_sub w1; fin = dev_run E mid k (map (t_mem w1) ins) outs;
               obs = (\<lambda>i. see_outs E k i fin 0 (t_mem w1 (hd outs)));
               w2 = bump_sub w1 in
           case poll_loop (tp_max_wait E) (tp_poll_us E) osz (of_nat sv) obs 0 0 0 False (mkfp osz (obs 0)) of
             None \<Rightarrow> (-1, 0, w2\<lparr>t_hung := True\<rparr>)
           | Some (st, i) \<Rightarrow>
               (0, tp_us E k,
                ext_free req (w2\<lparr>t_mem := store_outs (see_outs E k i fin) 0 outs (t_mem w2)\<rparr>))))"

definition tpu_infer_multi ::
  "tpuenv \<Rightarrow> model list \<Rightarrow> nat \<Rightarrow> cell list \<Rightarrow> cell list \<Rightarrow> tworld \<Rightarrow> int \<times> nat \<times> tworld" where
  "tpu_infer_multi E ms mid ins outs w =
     (let w0 = wl_touch E w in
      if tp_wait_us E > 0 then infer_wait E ms mid ins outs w0
      else if tp_fence E then infer_fence E ms mid ins outs w0
      else infer_poll E ms mid ins outs w0)"

definition tpu_infer ::
  "tpuenv \<Rightarrow> model list \<Rightarrow> nat \<Rightarrow> cell \<Rightarrow> cell \<Rightarrow> tworld \<Rightarrow> int \<times> nat \<times> tworld" where
  "tpu_infer E ms mid i outc w = tpu_infer_multi E ms mid [i] [outc] w"

text \<open>
  Two submissions in flight, then both fences. Nothing in the code orders the two on the accelerator:
  either may be carried out first, and the other then finds in its input any mixture of bytes from
  before and after the first one's results. If the second request cannot be created, fence and request
  of the first are freed without waiting.
\<close>

definition mixed :: "(nat \<Rightarrow> bool) \<Rightarrow> byte list \<Rightarrow> byte list \<Rightarrow> byte list" where
  "mixed late old new = map (\<lambda>i. if i < length old \<and> \<not> late i then old ! i else new ! i) [0..<length new]"

definition pair_results ::
  "tpuenv \<Rightarrow> nat \<Rightarrow> nat \<Rightarrow> nat \<Rightarrow> cell \<Rightarrow> cell \<Rightarrow> cell \<Rightarrow> cell \<Rightarrow> (cell \<Rightarrow> byte list) \<Rightarrow> byte list list \<times> byte list list"
  where
  "pair_results E mid ka kb iA oA iB oB m =
     (if tp_first E ka then
        (let a = dev_run E mid ka [m iA] [oA]; m1 = store_outs (done_outs a) 0 [oA] m in
         (a, dev_run E mid kb [mixed (tp_late E kb) (m iB) (m1 iB)] [oB]))
      else
        (let b = dev_run E mid kb [m iB] [oB]; m1 = store_outs (done_outs b) 0 [oB] m in
         (dev_run E mid ka [mixed (tp_late E ka) (m iA) (m1 iA)] [oA], b)))"

text \<open>With one output buffer for both, the one carried out second has the last word.\<close>

definition pair_last :: "tpuenv \<Rightarrow> nat \<Rightarrow> byte list list \<Rightarrow> bool \<Rightarrow> cell \<Rightarrow> cell \<Rightarrow> tworld \<Rightarrow> tworld" where
  "pair_last E ka finA dA oA oB w =
     (if oA = oB \<and> \<not> tp_first E ka
      then w\<lparr>t_mem := store_outs (if dA then done_outs finA else see_outs E ka 1 finA) 0 [oA] (t_mem w)\<rparr>
      else w)"

definition free_opt :: "nat option \<Rightarrow> 'a world_scheme \<Rightarrow> 'a world_scheme" where
  "free_opt x w = (case x of None \<Rightarrow> w | Some o' \<Rightarrow> ext_free o' w)"

definition tpu_infer_pair ::
  "tpuenv \<Rightarrow> nat \<Rightarrow> cell \<Rightarrow> cell \<Rightarrow> cell \<Rightarrow> cell \<Rightarrow> tworld \<Rightarrow> int \<times> nat \<times> tworld" where
  "tpu_infer_pair E mid iA oA iB oB w =
     (let w0 = wl_touch E w in
      case ext_new (tp_ok E) w0 of
        (None, w1) \<Rightarrow> (-1, 0, w1)
      | (Some reqA, w1) \<Rightarrow>
          (let ka = t_sub w1 in
           case ext_new (tp_ok E) (bump_sub w1) of
             (fenA, w2) \<Rightarrow>
          (case ext_new (tp_ok E) w2 of
             (None, w3) \<Rightarrow> (-1, 0, ext_free reqA (free_opt fenA w3))
           | (Some reqB, w3) \<Rightarrow>
               (let kb = t_sub w3 in
                case ext_new (tp_ok E) (bump_sub w3) of
                  (fenB, w4) \<Rightarrow>
               (case pair_results E mid ka kb iA oA iB oB (t_mem w4) of
                  (finA, finB) \<Rightarrow>
               (case fence_wait E ka finA fenA reqA [oA] w4 of
                  (None, w5) \<Rightarrow> (-1, 0, w5)
                | (Some dA, w5) \<Rightarrow>
               (case fence_wait E kb finB fenB reqB [oB] w5 of
                  (None, w6) \<Rightarrow> (-1, 0, w6)
                | (Some dB, w6) \<Rightarrow>
                    (if dA \<and> dB then 0 else -2, tp_us E ka + tp_us E kb, pair_last E ka finA dA oA oB w6))))))))"

section \<open>Buffers and the model table\<close>

text \<open>\<open>mkbuf\<close>: memory of its own, mapped to the host.\<close>

definition mkbuf :: "tpuenv \<Rightarrow> nat \<Rightarrow> tworld \<Rightarrow> nat option \<times> tworld" where
  "mkbuf E sz w =
     (case ext_new (tp_ok E) w of
        (None, w1) \<Rightarrow> (None, w1)
      | (Some b, w1) \<Rightarrow> (Some b, w1\<lparr>t_mem := (t_mem w1)(CBuf b := replicate sz 0)\<rparr>))"

definition MAXMODELS :: nat where "MAXMODELS = 224"
definition MAXIO :: nat where "MAXIO = 8"

text \<open>
  \<open>load_model\<close> on the table: \<open>pkg\<close> is what the library reports of the package (tensor sizes), or
  \<open>None\<close> when the file cannot be opened or registered. \<open>cap\<close> is the size of the comparison buffer
  \<open>g_prev\<close>.
\<close>

definition load_model ::
  "(nat list \<times> nat list) option \<Rightarrow> model list \<times> nat \<Rightarrow> int \<times> model list \<times> nat" where
  "load_model pkg st =
     (if length (fst st) \<ge> MAXMODELS then (-1, st)
      else
     (case pkg of
        None \<Rightarrow> (-1, st)
      | Some (is, os) \<Rightarrow>
          (let M = \<lparr>m_in = take MAXIO is, m_out = take MAXIO os\<rparr>; osz = at0 (m_out M) 0 in
           (int (length (fst st)), fst st @ [M], if osz > snd st then osz else snd st))))"

fun load_models :: "(nat list \<times> nat list) option list \<Rightarrow> model list \<times> nat \<Rightarrow> (model list \<times> nat) option" where
  "load_models [] st = Some st"
| "load_models (p # ps) st =
     (case load_model p st of (r, st1) \<Rightarrow> if r < 0 then None else load_models ps st1)"

section \<open>Warm-up\<close>

fun mkbufs :: "tpuenv \<Rightarrow> nat list \<Rightarrow> tworld \<Rightarrow> nat option list \<times> tworld" where
  "mkbufs E [] w = ([], w)"
| "mkbufs E (n # ns) w =
     (case mkbuf E n w of (b, w1) \<Rightarrow> (case mkbufs E ns w1 of (bs, w2) \<Rightarrow> (b # bs, w2)))"

fun free_objs :: "nat list \<Rightarrow> 'a world_scheme \<Rightarrow> 'a world_scheme" where
  "free_objs [] w = w"
| "free_objs (b # bs) w = free_objs bs (ext_free b w)"

text \<open>One warm-up run: submit, 200 ms, invalidate the outputs.\<close>

definition warm_submit :: "tpuenv \<Rightarrow> nat \<Rightarrow> cell list \<Rightarrow> cell list \<Rightarrow> tworld \<Rightarrow> tworld" where
  "warm_submit E mid ins outs w =
     (case ext_new (tp_ok E) w of
        (None, w1) \<Rightarrow> w1
      | (Some req, w1) \<Rightarrow>
          (let k = t_sub w1; fin = dev_run E mid k (map (t_mem w1) ins) outs; w2 = bump_sub w1 in
           ext_free req (w2\<lparr>t_mem := store_outs (see_outs E k 0 fin) 0 outs (t_mem w2)\<rparr>)))"

text \<open>
  At most 12 rounds, until the output has been the same twice in a row; \<open>cmp\<close> tells whether the
  comparison buffer could be allocated.
\<close>

function warm_rounds ::
  "tpuenv \<Rightarrow> nat \<Rightarrow> nat \<Rightarrow> cell list \<Rightarrow> cell list \<Rightarrow> bool \<Rightarrow> nat \<Rightarrow> nat \<Rightarrow> byte list \<Rightarrow> tworld \<Rightarrow>
   nat \<times> nat \<times> tworld" where
  "warm_rounds E mid osz ins outs cmp it stab prev w =
     (if it < 12 \<and> stab < 2
      then (let w1 = warm_submit E mid ins outs w; cur = take osz (t_mem w1 (hd outs)) in
            warm_rounds E mid osz ins outs cmp (Suc it)
              (if 0 < it \<and> cmp \<and> prev = cur then Suc stab else 0) cur w1)
      else (it, stab, w))"
  by pat_completeness auto
termination by (relation "measure (\<lambda>(E, mid, osz, ins, outs, cmp, it, stab, prev, w). 12 - it)") auto

declare warm_rounds.simps [simp del]

text \<open>The result is the report \<open>(rounds, stable)\<close>, or \<open>None\<close> when a buffer is missing.\<close>

definition warmup :: "tpuenv \<Rightarrow> nat \<Rightarrow> model \<Rightarrow> tworld \<Rightarrow> (nat \<times> nat) option \<times> tworld" where
  "warmup E mid M w =
     (case mkbufs E (m_in M) w of
        (ib, w1) \<Rightarrow>
     (case mkbufs E (m_out M) (w1\<lparr>t_mem := fold (\<lambda>(b, n) m. case b of None \<Rightarrow> m
              | Some x \<Rightarrow> m(CBuf x := replicate n 0x5A)) (zip ib (m_in M)) (t_mem w1)\<rparr>) of
        (ob, w2) \<Rightarrow>
          if None \<in> set ib \<or> None \<in> set ob then (None, w2)
          else
            (case ext_try (tp_ok E) w2 of
               (cmp, w3) \<Rightarrow>
                 (case warm_rounds E mid (at0 (m_out M) 0) (map (CBuf \<circ> the) ib) (map (CBuf \<circ> the) ob)
                         cmp 0 0 [] w3 of
                    (it, stab, w4) \<Rightarrow>
                      (Some (it, stab), free_objs (map the ob) (free_objs (map the ib) w4))))))"

section \<open>The poll and the spin\<close>

lemma next_sentinel_range: "1 \<le> next_sentinel s \<and> next_sentinel s < 256"
  by (simp add: next_sentinel_def Let_def)

lemma next_sentinel_fresh: "s < 256 \<Longrightarrow> next_sentinel s \<noteq> s"
  by (auto simp: next_sentinel_def Let_def mod_Suc split: if_splits)

lemma poll_step_PStable:
  "poll_step osz sv obs i stab started prev = PStable \<Longrightarrow>
     take osz (obs (Suc i)) = take osz (obs (Suc (Suc i))) \<and> mkfp osz (obs (Suc i)) = prev \<and> 1 \<le> stab \<and>
     (started \<or> (\<exists>b\<in>set (samples osz (obs (Suc i))). b \<noteq> sv))"
  by (auto simp: poll_step_def Let_def split: if_splits)

lemma poll_step_PGo:
  "poll_step osz sv obs i stab started prev = PGo n stab1 started1 prev1 \<Longrightarrow>
     1 \<le> n \<and> n \<le> 2 \<and> started1 = (started \<or> (\<exists>b\<in>set (samples osz (obs (Suc i))). b \<noteq> sv))"
  by (auto simp: poll_step_def Let_def split: if_splits)

lemma poll_loop_returns:
  assumes "0 < poll"
  shows "poll_loop maxw poll osz sv obs i waited stab started prev \<noteq> None"
proof (induction "nat (maxw - waited)" arbitrary: i waited stab started prev rule: less_induct)
  case less
  have rec: "poll_loop maxw poll osz sv obs i' (waited + poll) stab' started' prev' \<noteq> None"
    if "waited < maxw" for i' stab' started' prev'
    using less.hyps [of "waited + poll"] assms that by simp
  show ?case
    by (cases "poll_step osz sv obs i stab started prev"; cases "waited < maxw")
      (simp_all add: poll_loop.simps [of maxw poll osz sv obs i waited stab started prev] rec del: not_None_eq)
qed

text \<open>At most two looks per poll interval, and at most one interval more than the limit has.\<close>

lemma poll_loop_bounded:
  assumes "0 < poll" and "poll_loop maxw poll osz sv obs i waited stab started prev = Some (b, n)"
  shows "n \<le> i + 2 * nat ((maxw - waited + poll - 1) div poll)"
  using assms(2)
proof (induction "nat (maxw - waited)" arbitrary: i waited stab started prev rule: less_induct)
  case less
  show ?case
  proof (cases "waited < maxw")
    case False
    with less.prems show ?thesis by (simp add: poll_loop.simps [of _ _ _ _ _ i])
  next
    case True
    define m where "m = nat ((maxw - waited + poll - 1) div poll)"
    have "(maxw - waited + poll - 1) div poll = (maxw - (waited + poll) + poll - 1) div poll + 1"
      using assms(1) div_add_self2 [of poll "maxw - waited - 1"] by (simp add: algebra_simps)
    moreover have "0 \<le> (maxw - (waited + poll) + poll - 1) div poll"
      using True assms(1) by (simp add: pos_imp_zdiv_nonneg_iff)
    ultimately have m: "m = Suc (nat ((maxw - (waited + poll) + poll - 1) div poll))"
      unfolding m_def by simp
    show ?thesis
    proof (cases "poll_step osz sv obs i stab started prev")
      case PStable
      with less.prems True m show ?thesis
        by (simp add: poll_loop.simps [of _ _ _ _ _ i] m_def [symmetric])
    next
      case (PGo k stab1 st1 prev1)
      with less.prems True have
        "poll_loop maxw poll osz sv obs (i + k) (waited + poll) stab1 st1 prev1 = Some (b, n)"
        by (simp add: poll_loop.simps [of _ _ _ _ _ i])
      from less.hyps [OF _ this] True assms(1) poll_step_PGo [OF PGo] m show ?thesis
        by (simp add: m_def [symmetric])
    qed
  qed
qed

lemma poll_loop_stable:
  assumes "poll_loop maxw poll osz sv obs i waited stab started prev = Some (True, n)"
  shows "i < n \<and> take osz (obs (n - 1)) = take osz (obs n) \<and>
    (started \<or> (\<exists>k. i < k \<and> k < n \<and> (\<exists>b\<in>set (samples osz (obs k)). b \<noteq> sv)))"
proof -
  let ?P = "\<lambda>(maxw :: int) (poll :: int) osz sv obs i (waited :: int) (stab :: nat) started (prev :: u64) (r :: bool \<times> nat).
    fst r \<longrightarrow> i < snd r \<and> take osz (obs (snd r - 1)) = take osz (obs (snd r)) \<and>
    (started \<or> (\<exists>k. i < k \<and> k < snd r \<and> (\<exists>b\<in>set (samples osz (obs k)). b \<noteq> sv)))"
  have "?P maxw poll osz sv obs i waited stab started prev (True, n)"
  proof (rule poll_loop.raw_induct [where P = ?P, OF _ assms])
    fix pl :: "int \<Rightarrow> int \<Rightarrow> nat \<Rightarrow> byte \<Rightarrow> (nat \<Rightarrow> byte list) \<Rightarrow> nat \<Rightarrow> int \<Rightarrow> nat \<Rightarrow> bool \<Rightarrow> u64 \<Rightarrow> (bool \<times> nat) option"
    fix maxw poll osz sv obs i waited stab started prev and y :: "bool \<times> nat"
    assume IH: "\<And>maxw poll osz sv obs i waited stab started prev y.
        pl maxw poll osz sv obs i waited stab started prev = Some y \<Longrightarrow>
        ?P maxw poll osz sv obs i waited stab started prev y"
      and step: "(if \<not> waited < maxw then Some (False, i)
        else case poll_step osz sv obs i stab started prev of PStable \<Rightarrow> Some (True, Suc (Suc i))
          | PGo n stab1 started1 prev1 \<Rightarrow>
              pl maxw poll osz sv obs (i + n) (waited + poll) stab1 started1 prev1) = Some y"
    show "?P maxw poll osz sv obs i waited stab started prev y"
    proof (cases "poll_step osz sv obs i stab started prev")
      case PStable
      with step poll_step_PStable [OF PStable] show ?thesis
        by (auto split: if_splits intro!: exI [of _ "Suc i"])
    next
      case (PGo k stab1 st1 prev1)
      note go = poll_step_PGo [OF PGo]
      show ?thesis
      proof (cases "fst y")
        case True
        with step PGo have "pl maxw poll osz sv obs (i + k) (waited + poll) stab1 st1 prev1 = Some y"
          by (auto split: if_splits)
        from IH [OF this] True have r: "i + k < snd y" "take osz (obs (snd y - 1)) = take osz (obs (snd y))"
          "st1 \<or> (\<exists>j. i + k < j \<and> j < snd y \<and> (\<exists>b\<in>set (samples osz (obs j)). b \<noteq> sv))" by auto
        have "started \<or> (\<exists>j. i < j \<and> j < snd y \<and> (\<exists>b\<in>set (samples osz (obs j)). b \<noteq> sv))"
        proof (cases st1)
          case True
          with go r(1) show ?thesis by (auto intro!: exI [of _ "Suc i"])
        next
          case False
          with r(3) obtain j where "i + k < j" "j < snd y" "\<exists>b\<in>set (samples osz (obs j)). b \<noteq> sv" by auto
          then show ?thesis by (intro disjI2 exI [of _ j]) simp
        qed
        with r go show ?thesis by auto
      qed simp
    qed
  qed
  then show ?thesis by simp
qed

text \<open>
  With an interval of zero or less and an output that keeps the sentinel, the loop never ends.
\<close>

lemma poll_loop_diverges:
  assumes "poll \<le> 0" and "waited < maxw"
    and sent: "\<forall>i. \<forall>b\<in>set (samples osz (obs i)). b = sv"
  shows "poll_loop maxw poll osz sv obs i waited stab False prev = None"
proof (rule ccontr)
  assume "poll_loop maxw poll osz sv obs i waited stab False prev \<noteq> None"
  then obtain y where y: "poll_loop maxw poll osz sv obs i waited stab False prev = Some y" by blast
  let ?P = "\<lambda>m (p :: int) z v ob (i :: nat) w (stab :: nat) st (prev :: u64) (y :: bool \<times> nat).
    m = maxw \<longrightarrow> p = poll \<longrightarrow> z = osz \<longrightarrow> v = sv \<longrightarrow> ob = obs \<longrightarrow> w < maxw \<longrightarrow> st"
  have "?P maxw poll osz sv obs i waited stab False prev y"
  proof (rule poll_loop.raw_induct [where P = ?P, OF _ y])
    fix pl :: "int \<Rightarrow> int \<Rightarrow> nat \<Rightarrow> byte \<Rightarrow> (nat \<Rightarrow> byte list) \<Rightarrow> nat \<Rightarrow> int \<Rightarrow> nat \<Rightarrow> bool \<Rightarrow> u64 \<Rightarrow> (bool \<times> nat) option"
    fix m p z v ob i w stab st prev and y :: "bool \<times> nat"
    assume IH: "\<And>m p z v ob i w stab st prev y.
        pl m p z v ob i w stab st prev = Some y \<Longrightarrow> ?P m p z v ob i w stab st prev y"
      and step: "(if \<not> w < m then Some (False, i)
        else case poll_step z v ob i stab st prev of PStable \<Rightarrow> Some (True, Suc (Suc i))
          | PGo n stab1 started1 prev1 \<Rightarrow> pl m p z v ob (i + n) (w + p) stab1 started1 prev1) = Some y"
    show "?P m p z v ob i w stab st prev y"
    proof (intro impI, rule ccontr)
      assume eq: "m = maxw" "p = poll" "z = osz" "v = sv" "ob = obs" "w < maxw" "\<not> st"
      have "poll_step z v ob i stab st prev = PGo 1 0 False (mkfp osz (obs (Suc i)))"
        using eq sent by (simp add: poll_step_def Let_def)
      with step eq have "pl maxw poll osz sv obs (i + 1) (w + poll) 0 False (mkfp osz (obs (Suc i))) = Some y"
        by simp
      from IH [OF this] eq assms(1) show False by simp
    qed
  qed
  with assms(2) show False by simp
qed

text \<open>The spin ends when the clock passes the limit after the 200000 rounds without a look at it.\<close>

lemma fence_loop_returns:
  assumes "200000 \<le> n" and "maxw < clk n" and "i \<le> n"
  shows "fence_loop fin clk maxw i \<noteq> None"
  using assms(3)
proof (induction "n - i" arbitrary: i)
  case 0
  then have "i = n" by simp
  with assms(1,2) show ?case by (subst fence_loop.simps) (simp del: not_None_eq)
next
  case (Suc k)
  then have "fence_loop fin clk maxw (Suc i) \<noteq> None" by simp
  then show ?case by (subst fence_loop.simps) auto
qed

text \<open>Every wait comes to an end: a positive poll interval and a clock that goes on.\<close>

definition waits_end :: "tpuenv \<Rightarrow> bool" where
  "waits_end E \<longleftrightarrow> 0 < tp_poll_us E \<and> (\<forall>k. \<exists>n\<ge>200000. tp_max_wait E < tp_clk E k n)"

lemma fence_wait_ends: "waits_end E \<Longrightarrow> fence_loop (tp_fin E k) (tp_clk E k) (tp_max_wait E) 0 \<noteq> None"
  using fence_loop_returns [where i = 0] by (fastforce simp: waits_end_def)

lemma poll_wait_ends: "waits_end E \<Longrightarrow> poll_loop m (tp_poll_us E) osz sv obs i wt stab st prev \<noteq> None"
  using poll_loop_returns by (simp add: waits_end_def)

section \<open>Resources and memory outside the outputs\<close>

text \<open>
  \<open>same_res w w'\<close>: objects, descriptors and the error flag as before. \<open>w\<close> and \<open>w'\<close> may differ in
  the memory of the cells in \<open>C\<close> only.
\<close>

definition same_res :: "tworld \<Rightarrow> tworld \<Rightarrow> bool" where
  "same_res w w' \<longleftrightarrow> w_live w' = w_live w \<and> w_fds w' = w_fds w \<and> w_bad w' = w_bad w"

definition mem_only :: "cell set \<Rightarrow> tworld \<Rightarrow> tworld \<Rightarrow> bool" where
  "mem_only C w w' \<longleftrightarrow> (\<forall>c. c \<notin> C \<longrightarrow> t_mem w' c = t_mem w c)"

definition bnc :: "tworld \<Rightarrow> nat option list \<times> nat option list \<times> nat option list \<times> nat option list" where
  "bnc w = (t_cib w, t_cob w, t_pib w, t_pob w)"

lemma t_more:
  "world.more w' = world.more w \<Longrightarrow> bnc w' = bnc w \<and>
     t_mem w' = t_mem w \<and> t_sub w' = t_sub w \<and> t_sctr w' = t_sctr w \<and> t_hung w' = t_hung w \<and>
     t_wl_held w' = t_wl_held w"
  by (cases w; cases w') (simp add: bnc_def)

lemma bnc_upd [simp]:
  "bnc (w\<lparr>t_mem := m\<rparr>) = bnc w" "bnc (w\<lparr>t_sub := k\<rparr>) = bnc w" "bnc (w\<lparr>t_sctr := k\<rparr>) = bnc w"
  "bnc (w\<lparr>t_hung := b\<rparr>) = bnc w" "bnc (w\<lparr>t_wl_held := b\<rparr>) = bnc w" "bnc (w\<lparr>t_wl_en := b\<rparr>) = bnc w"
  "bnc (w\<lparr>t_wl_last := i\<rparr>) = bnc w" "bnc (w\<lparr>t_wl_log := l\<rparr>) = bnc w"
  by (simp_all add: bnc_def)

lemma t_upd [simp]:
  "w_live (w\<lparr>t_mem := m\<rparr>) = w_live w" "w_fds (w\<lparr>t_mem := m\<rparr>) = w_fds w" "w_bad (w\<lparr>t_mem := m\<rparr>) = w_bad w"
  "w_live (w\<lparr>t_sub := k\<rparr>) = w_live w" "w_fds (w\<lparr>t_sub := k\<rparr>) = w_fds w" "w_bad (w\<lparr>t_sub := k\<rparr>) = w_bad w"
  "w_live (w\<lparr>t_sctr := k\<rparr>) = w_live w" "w_fds (w\<lparr>t_sctr := k\<rparr>) = w_fds w" "w_bad (w\<lparr>t_sctr := k\<rparr>) = w_bad w"
  "w_live (w\<lparr>t_hung := b\<rparr>) = w_live w" "w_fds (w\<lparr>t_hung := b\<rparr>) = w_fds w" "w_bad (w\<lparr>t_hung := b\<rparr>) = w_bad w"
  "w_live (w\<lparr>t_wl_held := b\<rparr>) = w_live w" "w_fds (w\<lparr>t_wl_held := b\<rparr>) = w_fds w" "w_bad (w\<lparr>t_wl_held := b\<rparr>) = w_bad w"
  "w_live (w\<lparr>t_wl_en := b\<rparr>) = w_live w" "w_fds (w\<lparr>t_wl_en := b\<rparr>) = w_fds w" "w_bad (w\<lparr>t_wl_en := b\<rparr>) = w_bad w"
  "w_live (w\<lparr>t_wl_last := i\<rparr>) = w_live w" "w_fds (w\<lparr>t_wl_last := i\<rparr>) = w_fds w" "w_bad (w\<lparr>t_wl_last := i\<rparr>) = w_bad w"
  "w_live (w\<lparr>t_wl_log := l\<rparr>) = w_live w" "w_fds (w\<lparr>t_wl_log := l\<rparr>) = w_fds w" "w_bad (w\<lparr>t_wl_log := l\<rparr>) = w_bad w"
  "w_live (w\<lparr>t_cib := x\<rparr>) = w_live w" "w_fds (w\<lparr>t_cib := x\<rparr>) = w_fds w" "w_bad (w\<lparr>t_cib := x\<rparr>) = w_bad w"
  "w_live (w\<lparr>t_cob := x\<rparr>) = w_live w" "w_fds (w\<lparr>t_cob := x\<rparr>) = w_fds w" "w_bad (w\<lparr>t_cob := x\<rparr>) = w_bad w"
  "w_live (w\<lparr>t_pib := x\<rparr>) = w_live w" "w_fds (w\<lparr>t_pib := x\<rparr>) = w_fds w" "w_bad (w\<lparr>t_pib := x\<rparr>) = w_bad w"
  "w_live (w\<lparr>t_pob := x\<rparr>) = w_live w" "w_fds (w\<lparr>t_pob := x\<rparr>) = w_fds w" "w_bad (w\<lparr>t_pob := x\<rparr>) = w_bad w"
  by (cases w; simp)+

lemma t_free [acct_simps, simp]:
  "t_mem (ext_free x w) = t_mem w" "t_hung (ext_free x w) = t_hung w" "t_sub (ext_free x w) = t_sub w"
  "t_mem (close_fd f w) = t_mem w" "t_hung (close_fd f w) = t_hung w" "t_sub (close_fd f w) = t_sub w"
  "t_mem (fd_give f w) = t_mem w" "t_hung (fd_give f w) = t_hung w" "t_sub (fd_give f w) = t_sub w"
  "t_mem (close_all fs w) = t_mem w" "t_hung (close_all fs w) = t_hung w" "t_sub (close_all fs w) = t_sub w"
  "bnc (ext_free x w) = bnc w" "bnc (close_fd f w) = bnc w" "bnc (fd_give f w) = bnc w" "bnc (close_all fs w) = bnc w"
  using t_more [of "ext_free x w" w] t_more [of "close_fd f w" w] t_more [of "fd_give f w" w]
    t_more [of "close_all fs w" w] by (simp_all add: acct_simps)

lemma ext_new_t:
  "ext_new ok w = (r, w') \<Longrightarrow>
     w_live w' = w_live w + (case r of None \<Rightarrow> {#} | Some x \<Rightarrow> {#x#}) \<and> w_fds w' = w_fds w \<and>
     w_bad w' = w_bad w \<and> t_mem w' = t_mem w \<and> t_sub w' = t_sub w \<and> t_sctr w' = t_sctr w \<and>
     t_hung w' = t_hung w \<and> bnc w' = bnc w"
  using ext_new_acct [of ok w r w'] t_more [of w' w] by blast

lemma ext_try_t:
  "ext_try ok w = (r, w') \<Longrightarrow>
     w_live w' = w_live w \<and> w_fds w' = w_fds w \<and> w_bad w' = w_bad w \<and> t_mem w' = t_mem w \<and>
     t_sub w' = t_sub w \<and> t_sctr w' = t_sctr w \<and> t_hung w' = t_hung w \<and> bnc w' = bnc w"
  using ext_try_acct [of ok w r w'] t_more [of w' w] by blast

lemma wl_write_t:
  "same_res w (wl_write E v w) \<and> t_mem (wl_write E v w) = t_mem w \<and>
   t_hung (wl_write E v w) = t_hung w \<and> t_sctr (wl_write E v w) = t_sctr w \<and> bnc (wl_write E v w) = bnc w"
proof -
  obtain r w1 where t: "ext_try (tp_ok E) w = (r, w1)" by (metis surj_pair)
  note A = ext_try_t [OF t]
  with A show ?thesis by (cases r) (simp_all add: wl_write_def t same_res_def)
qed

lemma wl_touch_t:
  "same_res w (wl_touch E w) \<and> t_mem (wl_touch E w) = t_mem w \<and> t_hung (wl_touch E w) = t_hung w \<and>
   t_sctr (wl_touch E w) = t_sctr w \<and> bnc (wl_touch E w) = bnc w"
proof -
  define u where "u = w\<lparr>t_wl_last := tp_now E (w_tick w)\<rparr>"
  have u: "w_live u = w_live w" "w_fds u = w_fds w" "w_bad u = w_bad w"
    "t_mem u = t_mem w" "t_hung u = t_hung w" "t_sctr u = t_sctr w" "bnc u = bnc w"
    by (simp_all add: u_def)
  show ?thesis
    using wl_write_t [of u E True] u
    by (simp add: wl_touch_def Let_def u_def [symmetric] same_res_def)
qed

lemma store_outs_other: "c \<notin> set cs \<Longrightarrow> store_outs f j cs m c = m c"
  by (induction cs arbitrary: j m) auto

lemma bump_sub_t [simp]:
  "w_live (bump_sub w) = w_live w" "w_fds (bump_sub w) = w_fds w" "w_bad (bump_sub w) = w_bad w"
  "t_mem (bump_sub w) = t_mem w" "t_hung (bump_sub w) = t_hung w" "t_sub (bump_sub w) = Suc (t_sub w)" "bnc (bump_sub w) = bnc w"
  by (simp_all add: bump_sub_def)

lemma set_sentinel_t [simp]:
  "w_live (set_sentinel n c w) = w_live w" "w_fds (set_sentinel n c w) = w_fds w"
  "w_bad (set_sentinel n c w) = w_bad w" "t_hung (set_sentinel n c w) = t_hung w"
  "c' \<noteq> c \<Longrightarrow> t_mem (set_sentinel n c w) c' = t_mem w c'" "bnc (set_sentinel n c w) = bnc w"
  by (simp_all add: set_sentinel_def)

text \<open>
  What an inference leaves behind: requests and fences are gone, and only output memory has
  changed, unless the wait never ends.
\<close>

definition infer_frame :: "tpuenv \<Rightarrow> cell set \<Rightarrow> tworld \<Rightarrow> tworld \<Rightarrow> bool" where
  "infer_frame E C w w' \<longleftrightarrow>
     (t_hung w' \<and> \<not> waits_end E) \<or> (same_res w w' \<and> mem_only C w w' \<and> t_hung w' = t_hung w \<and> bnc w' = bnc w)"

lemma fence_wait_t:
  assumes f: "fence_wait E k fin fence req outs w = (d, w')"
    and own: "w_live w = L + {#req#} + (case fence of None \<Rightarrow> {#} | Some x \<Rightarrow> {#x#})"
  shows "d = None \<and> t_hung w' \<and> \<not> waits_end E \<or>
    d \<noteq> None \<and> w_live w' = L \<and> w_fds w' = w_fds w \<and> w_bad w' = w_bad w \<and>
    mem_only (set outs) w w' \<and> t_hung w' = t_hung w \<and> bnc w' = bnc w"
  using f own
  using fence_wait_ends [of E k]
  by (auto simp: fence_wait_def acct_simps mem_only_def store_outs_other split: option.splits)

lemma infer_fence_t:
  assumes "infer_fence E ms mid ins outs w = (r, us, w')"
  shows "infer_frame E (set outs) w w'"
proof -
  obtain x w1 where n: "ext_new (tp_ok E) w = (x, w1)" by (metis surj_pair)
  note A = ext_new_t [OF n]
  show ?thesis
  proof (cases x)
    case None
    with assms n A show ?thesis by (auto simp: infer_fence_def infer_frame_def same_res_def mem_only_def)
  next
    case (Some req)
    obtain fence w2 where n2: "ext_new (tp_ok E) (bump_sub w1) = (fence, w2)" by (metis surj_pair)
    note B = ext_new_t [OF n2]
    let ?fin = "dev_run E mid (t_sub w1) (map (t_mem w1) ins) outs"
    obtain d w3 where f: "fence_wait E (t_sub w1) ?fin fence req outs w2 = (d, w3)" by (metis surj_pair)
    have own: "w_live w2 = w_live w + {#req#} + (case fence of None \<Rightarrow> {#} | Some x \<Rightarrow> {#x#})"
      using A B Some by simp
    note C = fence_wait_t [OF f own]
    show ?thesis
      using assms n n2 f Some A B C
      by (auto simp: infer_fence_def Let_def infer_frame_def same_res_def mem_only_def split: option.splits)
  qed
qed

lemma infer_wait_t:
  assumes "infer_wait E ms mid ins outs w = (r, us, w')" and "outs \<noteq> []"
  shows "infer_frame E (set outs) w w'"
proof -
  let ?w0 = "set_sentinel (at0 (m_out (ms ! mid)) 0) (hd outs) w"
  obtain x w1 where n: "ext_new (tp_ok E) ?w0 = (x, w1)" by (metis surj_pair)
  note A = ext_new_t [OF n]
  have hd: "c \<notin> set outs \<Longrightarrow> c \<noteq> hd outs" for c using assms(2) by auto
  show ?thesis
    using assms n A hd
    by (cases x) (auto simp: infer_wait_def Let_def infer_frame_def same_res_def mem_only_def acct_simps
        store_outs_other)
qed

lemma infer_poll_t:
  assumes "infer_poll E ms mid ins outs w = (r, us, w')" and "outs \<noteq> []"
  shows "infer_frame E (set outs) w w'"
proof -
  let ?w0 = "set_sentinel (at0 (m_out (ms ! mid)) 0) (hd outs) w"
  obtain x w1 where n: "ext_new (tp_ok E) ?w0 = (x, w1)" by (metis surj_pair)
  note A = ext_new_t [OF n]
  have hd: "c \<notin> set outs \<Longrightarrow> c \<noteq> hd outs" for c using assms(2) by auto
  show ?thesis
    using assms n A hd
    by (cases x) (auto simp: infer_poll_def Let_def infer_frame_def same_res_def mem_only_def acct_simps
        store_outs_other poll_wait_ends simp del: not_None_eq split: option.splits prod.splits)
qed

lemma tpu_infer_multi_t:
  assumes "tpu_infer_multi E ms mid ins outs w = (r, us, w')" and "outs \<noteq> []"
  shows "infer_frame E (set outs) w w'"
proof -
  have "infer_frame E (set outs) (wl_touch E w) w'"
    using assms infer_wait_t infer_fence_t infer_poll_t
    by (auto simp: tpu_infer_multi_def Let_def split: if_splits)
  with wl_touch_t [of w E] show ?thesis
    by (auto simp: infer_frame_def same_res_def mem_only_def)
qed

lemma free_opt_t:
  assumes "w_live w = L + (case x of None \<Rightarrow> {#} | Some y \<Rightarrow> {#y#})"
  shows "w_live (free_opt x w) = L \<and> w_fds (free_opt x w) = w_fds w \<and> w_bad (free_opt x w) = w_bad w \<and>
    world.more (free_opt x w) = world.more w"
  using assms by (cases x) (simp_all add: free_opt_def acct_simps)

lemma pair_last_t:
  "w_live (pair_last E ka fin d oA oB w) = w_live w" "w_fds (pair_last E ka fin d oA oB w) = w_fds w"
  "w_bad (pair_last E ka fin d oA oB w) = w_bad w" "t_hung (pair_last E ka fin d oA oB w) = t_hung w"
  "bnc (pair_last E ka fin d oA oB w) = bnc w" "c \<noteq> oA \<Longrightarrow> t_mem (pair_last E ka fin d oA oB w) c = t_mem w c"
  by (auto simp: pair_last_def)

lemma tpu_infer_pair_t:
  assumes "tpu_infer_pair E mid iA oA iB oB w = (r, us, w')"
  shows "infer_frame E {oA, oB} w w'"
proof -
  let ?w0 = "wl_touch E w"
  note W = wl_touch_t [of w E]
  obtain a w1 where n1: "ext_new (tp_ok E) ?w0 = (a, w1)" by (metis surj_pair)
  note A = ext_new_t [OF n1]
  show ?thesis
  proof (cases a)
    case None
    with assms n1 A W show ?thesis
      by (auto simp: tpu_infer_pair_def Let_def infer_frame_def same_res_def mem_only_def)
  next
    case (Some reqA)
    obtain fenA w2 where n2: "ext_new (tp_ok E) (bump_sub w1) = (fenA, w2)" by (metis surj_pair)
    obtain b w3 where n3: "ext_new (tp_ok E) w2 = (b, w3)" by (metis surj_pair)
    note B = ext_new_t [OF n2] and C = ext_new_t [OF n3]
    let ?FA = "case fenA of None \<Rightarrow> {#} | Some x \<Rightarrow> {#x#}"
    show ?thesis
    proof (cases b)
      case None
      have "w_live w3 = (w_live ?w0 + {#reqA#}) + ?FA" using A B C Some None by simp
      note D = free_opt_t [OF this]
      have "t_mem (free_opt fenA w3) = t_mem w3" "t_hung (free_opt fenA w3) = t_hung w3"
        "bnc (free_opt fenA w3) = bnc w3"
        using D t_more by blast+
      with assms n1 n2 n3 Some None A B C D W show ?thesis
        by (auto simp: tpu_infer_pair_def Let_def infer_frame_def same_res_def mem_only_def acct_simps)
    next
      case b: (Some reqB)
      obtain fenB w4 where n4: "ext_new (tp_ok E) (bump_sub w3) = (fenB, w4)" by (metis surj_pair)
      note D = ext_new_t [OF n4]
      let ?FB = "case fenB of None \<Rightarrow> {#} | Some x \<Rightarrow> {#x#}"
      obtain finA finB where p: "pair_results E mid (t_sub w1) (t_sub w3) iA oA iB oB (t_mem w4) = (finA, finB)"
        by (metis surj_pair)
      obtain dA w5 where fa: "fence_wait E (t_sub w1) finA fenA reqA [oA] w4 = (dA, w5)" by (metis surj_pair)
      obtain dB w6 where fb: "fence_wait E (t_sub w3) finB fenB reqB [oB] w5 = (dB, w6)" by (metis surj_pair)
      have own: "w_live w4 = (w_live ?w0 + {#reqB#} + ?FB) + {#reqA#} + ?FA"
        using A B C D Some b by (simp add: ac_simps)
      note G = fence_wait_t [OF fa own]
      show ?thesis
      proof (cases dA)
        case None
        with assms n1 n2 n3 n4 p fa Some b G show ?thesis
          by (auto simp: tpu_infer_pair_def Let_def infer_frame_def)
      next
        case dA: (Some x)
        then have "w_live w5 = w_live ?w0 + {#reqB#} + ?FB" using G by simp
        note K = fence_wait_t [OF fb this]
        show ?thesis
        proof (cases dB)
          case None
          with assms n1 n2 n3 n4 p fa fb Some b dA K show ?thesis
            by (simp add: tpu_infer_pair_def Let_def infer_frame_def)
        next
          case dB: (Some y)
          define w7 where "w7 = pair_last E (t_sub w1) finA x oA oB w6"
          have e: "w' = w7"
            using assms n1 n2 n3 n4 p fa fb Some b dA dB by (simp add: tpu_infer_pair_def Let_def w7_def)
          have "infer_frame E {oA, oB} w w6"
            using dA dB A B C D G K W by (auto simp: infer_frame_def same_res_def mem_only_def)
          then show ?thesis unfolding e by (simp add: infer_frame_def same_res_def mem_only_def w7_def pair_last_t)
        qed
      qed
    qed
  qed
qed

end
