(* ===== verification/Tpud_Session.thy ===== *)
theory Tpud_Session
  imports Tpud_Infer
begin

text \<open>
  The two protocols of src/src/hwbridge/tpud.c: inline requests (TPD2, \<open>serve_inline\<close>) and the
  zero-copy session (TPZ2, \<open>serve_zc\<close>) with IMPORT, INFER, INFER2, RELEASE, INFO, INFER_MULTI and
  INFO2, behind \<open>handle_conn\<close>.
\<close>

definition ZC_MAXH :: nat where "ZC_MAXH = 32"
definition ZC_MAXBUF :: nat where "ZC_MAXBUF = 16"
definition TPD2 :: nat where "TPD2 = 0x54504432"
definition TPZ2 :: nat where "TPZ2 = 0x54505A32"
definition MAXIMP :: nat where "MAXIMP = 512 * 1024 * 1024"

section \<open>Session state\<close>

text \<open>
  A handle owns the library buffer, the mapping and the descriptor; both views show the memory of
  the file behind the descriptor.
\<close>

record zbuf =
  zb_buf :: nat
  zb_map :: nat
  zb_size :: nat
  zb_fd :: fd

record tsess =
  s_c :: conn
  s_h :: "zbuf option list"
  s_w :: tworld

definition zb_objs :: "zbuf \<Rightarrow> nat multiset" where
  "zb_objs z = {#zb_buf z, zb_map z#}"

definition zb_cell :: "zbuf \<Rightarrow> cell" where
  "zb_cell z = CFile (snd (zb_fd z))"

definition zc_release :: "zbuf \<Rightarrow> tworld \<Rightarrow> tworld" where
  "zc_release z w = close_fd (zb_fd z) (ext_free (zb_map z) (ext_free (zb_buf z) w))"

definition s_put :: "byte list \<Rightarrow> tsess \<Rightarrow> tsess" where
  "s_put bs s = s\<lparr>s_c := put bs (s_c s)\<rparr>"

definition in_size :: "model \<Rightarrow> nat" where "in_size M = at0 (m_in M) 0"
definition out_size :: "model \<Rightarrow> nat" where "out_size M = at0 (m_out M) 0"

section \<open>Receiving with descriptors\<close>

definition recv_with_fds ::
  "nat \<Rightarrow> conn \<Rightarrow> 'a world_scheme \<Rightarrow> byte list option \<times> fd list \<times> conn \<times> 'a world_scheme" where
  "recv_with_fds = recv_fds ZC_MAXBUF"

section \<open>IMPORT and RELEASE\<close>

text \<open>
  The library gets a duplicate (its own from the successful import on); the received descriptor is
  kept for the mapping and adopted by the handle.
\<close>

definition import_dmabuf :: "tpuenv \<Rightarrow> fd \<Rightarrow> tworld \<Rightarrow> (nat \<times> nat) option \<times> tworld" where
  "import_dmabuf E f w =
     (case fd_dup (tp_ok E) f w of
        (None, w1) \<Rightarrow> (None, w1)
      | (Some d, w1) \<Rightarrow>
     (case ext_new (tp_ok E) w1 of
        (None, w2) \<Rightarrow> (None, close_fd d w2)
      | (Some b, w2) \<Rightarrow>
     (case ext_new (tp_ok E) (fd_give d w2) of
        (None, w3) \<Rightarrow> (None, ext_free b w3)
      | (Some m, w3) \<Rightarrow> (Some (b, m), w3))))"

fun t_imports ::
  "tpuenv \<Rightarrow> (fd \<times> nat) list \<Rightarrow> zbuf option list \<Rightarrow> tworld \<Rightarrow>
   bool \<times> nat list \<times> fd list \<times> zbuf option list \<times> tworld" where
  "t_imports E [] h w = (True, [], [], h, w)"
| "t_imports E ((f, sz) # qs) h w =
     (case free_slot h of
        None \<Rightarrow> (False, [], f # map fst qs, h, w)
      | Some k \<Rightarrow>
          if sz = 0 \<or> sz > MAXIMP then (False, [], f # map fst qs, h, w)
          else
         (case import_dmabuf E f w of
            (None, w1) \<Rightarrow> (False, [], f # map fst qs, h, w1)
          | (Some (b, m), w1) \<Rightarrow>
         (case t_imports E qs (h[k := Some \<lparr>zb_buf = b, zb_map = m, zb_size = sz, zb_fd = f\<rparr>]) w1 of
            (r, ks, rest, h2, w2) \<Rightarrow> (r, k # ks, rest, h2, w2))))"

definition st0 :: "byte list" where "st0 = le32 0"
definition st1 :: "byte list" where "st1 = le32 1"
definition st2 :: "byte list" where "st2 = le32 2"

text \<open>The commands return the descriptors that are still to be closed after them.\<close>

definition t_import :: "tpuenv \<Rightarrow> nat \<Rightarrow> fd list \<Rightarrow> tsess \<Rightarrow> fd list \<times> tsess" where
  "t_import E nbuf fds s =
     (if \<not> tp_imp E \<or> nbuf = 0 \<or> nbuf > ZC_MAXBUF \<or> nbuf \<noteq> length fds then (fds, s_put st1 s)
      else
     (case rd (nbuf * 4) (s_c s) of
        (None, c1) \<Rightarrow> (fds, s_put st1 (s\<lparr>s_c := c1\<rparr>))
      | (Some bs, c1) \<Rightarrow>
     (case t_imports E (zip fds (get32s nbuf bs)) (s_h s) (s_w s) of
        (r, ks, rest, h1, w1) \<Rightarrow>
          (let s1 = s\<lparr>s_c := c1, s_h := h1, s_w := w1\<rparr> in
           (rest, if r then s_put (put32s ks) (s_put st0 s1) else s_put st1 s1)))))"

fun t_releases :: "nat list \<Rightarrow> zbuf option list \<Rightarrow> tworld \<Rightarrow> zbuf option list \<times> tworld" where
  "t_releases [] h w = (h, w)"
| "t_releases (k # ks) h w =
     (case slot_get h k of
        None \<Rightarrow> t_releases ks h w
      | Some z \<Rightarrow> t_releases ks (slot_clear h k) (zc_release z w))"

definition t_release :: "nat \<Rightarrow> tsess \<Rightarrow> tsess" where
  "t_release nbuf s =
     (if nbuf = 0 \<or> nbuf > ZC_MAXBUF then s_put st1 s
      else
     (case rd (nbuf * 4) (s_c s) of
        (None, c1) \<Rightarrow> s_put st1 (s\<lparr>s_c := c1\<rparr>)
      | (Some bs, c1) \<Rightarrow>
     (case t_releases (get32s nbuf bs) (s_h s) (s_w s) of
        (h1, w1) \<Rightarrow> s_put st0 (s\<lparr>s_c := c1, s_h := h1, s_w := w1\<rparr>))))"

section \<open>INFER\<close>

text \<open>
  A bounce buffer of the table \<open>tab\<close>: made on first use and kept for the life of the process.
\<close>

definition bounce_buf ::
  "tpuenv \<Rightarrow> nat \<Rightarrow> nat option list \<Rightarrow> nat \<Rightarrow> tworld \<Rightarrow> nat option \<times> nat option list \<times> tworld" where
  "bounce_buf E sz tab k w =
     (case slot_get tab k of
        Some b \<Rightarrow> (Some b, tab, w)
      | None \<Rightarrow>
          (case mkbuf E sz w of
             (None, w1) \<Rightarrow> (None, tab, w1)
           | (Some b, w1) \<Rightarrow> (Some b, tab[k := Some b], w1)))"

definition get_cib :: "tpuenv \<Rightarrow> nat \<Rightarrow> nat \<Rightarrow> tworld \<Rightarrow> nat option \<times> tworld" where
  "get_cib E sz k w = (case bounce_buf E sz (t_cib w) k w of (r, tab, w1) \<Rightarrow> (r, w1\<lparr>t_cib := tab\<rparr>))"

definition get_cob :: "tpuenv \<Rightarrow> nat \<Rightarrow> nat \<Rightarrow> tworld \<Rightarrow> nat option \<times> tworld" where
  "get_cob E sz k w = (case bounce_buf E sz (t_cob w) k w of (r, tab, w1) \<Rightarrow> (r, w1\<lparr>t_cob := tab\<rparr>))"

definition get_pib :: "tpuenv \<Rightarrow> nat \<Rightarrow> nat \<Rightarrow> tworld \<Rightarrow> nat option \<times> tworld" where
  "get_pib E sz k w = (case bounce_buf E sz (t_pib w) k w of (r, tab, w1) \<Rightarrow> (r, w1\<lparr>t_pib := tab\<rparr>))"

definition get_pob :: "tpuenv \<Rightarrow> nat \<Rightarrow> nat \<Rightarrow> tworld \<Rightarrow> nat option \<times> tworld" where
  "get_pob E sz k w = (case bounce_buf E sz (t_pob w) k w of (r, tab, w1) \<Rightarrow> (r, w1\<lparr>t_pob := tab\<rparr>))"

text \<open>\<open>memcpy(dst, src, n)\<close> between the host views of two cells.\<close>

definition copy_cell :: "cell \<Rightarrow> cell \<Rightarrow> nat \<Rightarrow> tworld \<Rightarrow> tworld" where
  "copy_cell dst src n w = w\<lparr>t_mem := (t_mem w)(dst := over (take n (t_mem w src)) (t_mem w dst))\<rparr>"

definition us_of :: "nat \<Rightarrow> nat" where "us_of us = us mod 2 ^ 32"

text \<open>
  \<open>TPU_ZC_BOUNCE\<close>: compute in library memory and copy; mode 2 bounces the output only.
\<close>

definition zc_infer ::
  "tpuenv \<Rightarrow> model list \<Rightarrow> nat \<Rightarrow> zbuf \<Rightarrow> zbuf \<Rightarrow> tworld \<Rightarrow> byte list \<times> nat \<times> tworld" where
  "zc_infer E ms mid zi zo w =
     (case tp_bounce E of
        None \<Rightarrow>
          (case tpu_infer E ms mid (zb_cell zi) (zb_cell zo) w of
             (rc, us, w1) \<Rightarrow> if rc = 0 then (st0, us_of us, w1) else (st2, 0, w1))
      | Some bm \<Rightarrow>
          (let n = in_size (ms ! mid); m = out_size (ms ! mid) in
           case (if bm \<noteq> 2 then get_cib E n mid w else (None, w)) of
             (ib, w1) \<Rightarrow>
          (case get_cob E m mid w1 of
             (ob, w2) \<Rightarrow>
               (if (bm \<noteq> 2 \<longrightarrow> ib \<noteq> None) \<and> ob \<noteq> None then
                  (let ic = (if bm = 2 then zb_cell zi else CBuf (the ib)); oc = CBuf (the ob);
                       w3 = (if bm \<noteq> 2 then copy_cell ic (zb_cell zi) n w2 else w2) in
                   case tpu_infer E ms mid ic oc w3 of
                     (rc, us, w4) \<Rightarrow>
                       if rc = 0 then (st0, us_of us, copy_cell (zb_cell zo) oc m w4)
                       else (st2, 0, w4))
                else (st2, 0, w2)))))"

definition infer_args :: "model list \<Rightarrow> zbuf option list \<Rightarrow> nat \<Rightarrow> nat \<Rightarrow> nat \<Rightarrow> (zbuf \<times> zbuf) option" where
  "infer_args ms h mid ih oh =
     (if mid < length ms \<and> ih \<noteq> oh then
        (case (slot_get h ih, slot_get h oh) of
           (Some zi, Some zo) \<Rightarrow>
             if zb_size zi \<ge> in_size (ms ! mid) \<and> zb_size zo \<ge> out_size (ms ! mid)
             then Some (zi, zo) else None
         | _ \<Rightarrow> None)
      else None)"

text \<open>After a wait that does not end nothing more happens: no reply is written.\<close>

definition s_reply :: "byte list \<Rightarrow> nat \<Rightarrow> tsess \<Rightarrow> tsess" where
  "s_reply st us s = (if t_hung (s_w s) then s else s_put (le32 us) (s_put st s))"

definition t_infer :: "tpuenv \<Rightarrow> model list \<Rightarrow> nat \<Rightarrow> nat \<Rightarrow> nat \<Rightarrow> tsess \<Rightarrow> tsess" where
  "t_infer E ms mid ih oh s =
     (case infer_args ms (s_h s) mid ih oh of
        None \<Rightarrow> s_reply st1 0 s
      | Some (zi, zo) \<Rightarrow>
          (case zc_infer E ms mid zi zo (s_w s) of (st, us, w1) \<Rightarrow> s_reply st us (s\<lparr>s_w := w1\<rparr>)))"

section \<open>INFER2\<close>

text \<open>Both halves one after the other when there are no fences.\<close>

definition infer_two ::
  "tpuenv \<Rightarrow> model list \<Rightarrow> nat \<Rightarrow> cell \<Rightarrow> cell \<Rightarrow> cell \<Rightarrow> cell \<Rightarrow> tworld \<Rightarrow> int \<times> nat \<times> tworld" where
  "infer_two E ms mid iA oA iB oB w =
     (if tp_fence E then tpu_infer_pair E mid iA oA iB oB w
      else
        (case tpu_infer E ms mid iA oA w of
           (r1, u1, w1) \<Rightarrow>
             if t_hung w1 then (-1, 0, w1)
             else
            (case tpu_infer E ms mid iB oB w1 of
               (r2, u2, w2) \<Rightarrow> (if r1 \<noteq> 0 \<or> r2 \<noteq> 0 then -1 else 0, u1 + u2, w2))))"

definition zc_infer2 ::
  "tpuenv \<Rightarrow> model list \<Rightarrow> nat \<Rightarrow> zbuf \<times> zbuf \<Rightarrow> zbuf \<times> zbuf \<Rightarrow> tworld \<Rightarrow>
   byte list \<times> nat \<times> tworld" where
  "zc_infer2 E ms mid a b w =
     (case (case tp_bounce E of
              None \<Rightarrow>
                infer_two E ms mid (zb_cell (fst a)) (zb_cell (snd a)) (zb_cell (fst b)) (zb_cell (snd b)) w
            | Some bm \<Rightarrow>
                (let n = in_size (ms ! mid); m = out_size (ms ! mid) in
                 case (if bm \<noteq> 2 then get_pib E n (2 * mid) w else (None, w)) of (ibA, w1) \<Rightarrow>
                (case get_pob E m (2 * mid) w1 of (obA, w2) \<Rightarrow>
                (case (if bm \<noteq> 2 then get_pib E n (Suc (2 * mid)) w2 else (None, w2)) of (ibB, w3) \<Rightarrow>
                (case get_pob E m (Suc (2 * mid)) w3 of (obB, w4) \<Rightarrow>
                  (if (bm \<noteq> 2 \<longrightarrow> ibA \<noteq> None \<and> ibB \<noteq> None) \<and> obA \<noteq> None \<and> obB \<noteq> None then
                     (let iA = (if bm = 2 then zb_cell (fst a) else CBuf (the ibA));
                          iB = (if bm = 2 then zb_cell (fst b) else CBuf (the ibB));
                          w5 = (if bm \<noteq> 2 then copy_cell iB (zb_cell (fst b)) n
                                  (copy_cell iA (zb_cell (fst a)) n w4) else w4) in
                      case infer_two E ms mid iA (CBuf (the obA)) iB (CBuf (the obB)) w5 of
                        (rc, us, w6) \<Rightarrow>
                          (rc, us, if rc = 0
                                   then copy_cell (zb_cell (snd b)) (CBuf (the obB)) m
                                          (copy_cell (zb_cell (snd a)) (CBuf (the obA)) m w6)
                                   else w6))
                   else (-1, 0, w4))))))) of
        (rc, us, w7) \<Rightarrow> if rc = 0 then (st0, us_of us, w7) else (st2, 0, w7))"

definition t_infer2 :: "tpuenv \<Rightarrow> model list \<Rightarrow> nat \<Rightarrow> tsess \<Rightarrow> tsess" where
  "t_infer2 E ms mid s =
     (case rd 16 (s_c s) of
        (None, c1) \<Rightarrow> s_reply st1 0 (s\<lparr>s_c := c1\<rparr>)
      | (Some bs, c1) \<Rightarrow>
          (let hd4 = get32s 4 bs; s1 = s\<lparr>s_c := c1\<rparr> in
           case (infer_args ms (s_h s) mid (hd4 ! 0) (hd4 ! 1), infer_args ms (s_h s) mid (hd4 ! 2) (hd4 ! 3)) of
             (Some a, Some b) \<Rightarrow>
               (case zc_infer2 E ms mid a b (s_w s) of (st, us, w1) \<Rightarrow> s_reply st us (s1\<lparr>s_w := w1\<rparr>))
           | _ \<Rightarrow> s_reply st1 0 s1))"

section \<open>INFER_MULTI, INFO, INFO2\<close>

definition pick_bufs :: "zbuf option list \<Rightarrow> nat list \<Rightarrow> nat list \<Rightarrow> zbuf list option" where
  "pick_bufs h ks sizes =
     (if list_all2 (\<lambda>k n. case slot_get h k of None \<Rightarrow> False | Some z \<Rightarrow> zb_size z \<ge> n) ks sizes
      then Some (map (\<lambda>k. the (slot_get h k)) ks) else None)"

definition multi_run ::
  "tpuenv \<Rightarrow> model list \<Rightarrow> nat \<Rightarrow> nat \<Rightarrow> nat \<Rightarrow> nat list \<Rightarrow> tsess \<Rightarrow> tsess" where
  "multi_run E ms mid nin nout ks s =
     (if mid < length ms \<and> nin = length (m_in (ms ! mid)) \<and> nout = length (m_out (ms ! mid)) then
        (case (pick_bufs (s_h s) (take nin ks) (m_in (ms ! mid)),
               pick_bufs (s_h s) (drop nin ks) (m_out (ms ! mid))) of
           (Some zi, Some zo) \<Rightarrow>
             (case tpu_infer_multi E ms mid (map zb_cell zi) (map zb_cell zo) (s_w s) of
                (rc, us, w1) \<Rightarrow>
                  if rc = 0 then s_reply st0 (us_of us) (s\<lparr>s_w := w1\<rparr>)
                  else s_reply st2 0 (s\<lparr>s_w := w1\<rparr>))
         | _ \<Rightarrow> s_reply st1 0 s)
      else s_reply st1 0 s)"

definition t_infer_multi :: "tpuenv \<Rightarrow> model list \<Rightarrow> nat \<Rightarrow> nat \<Rightarrow> nat \<Rightarrow> tsess \<Rightarrow> tsess" where
  "t_infer_multi E ms mid nin nout s =
     (if nin = 0 \<or> nout = 0 \<or> nin > MAXIO \<or> nout > MAXIO then s_reply st1 0 s
      else
     (case rd ((nin + nout) * 4) (s_c s) of
        (None, c1) \<Rightarrow> s_reply st1 0 (s\<lparr>s_c := c1\<rparr>)
      | (Some bs, c1) \<Rightarrow>
          multi_run E ms mid nin nout (get32s (nin + nout) bs) (s\<lparr>s_c := c1\<rparr>)))"

definition t_info :: "model list \<Rightarrow> nat \<Rightarrow> tsess \<Rightarrow> tsess" where
  "t_info ms mid s =
     s_put (put32s (if mid < length ms
       then [0, in_size (ms ! mid), out_size (ms ! mid), length ms] else [1, 0, 0, length ms])) s"

definition t_info2 :: "model list \<Rightarrow> nat \<Rightarrow> tsess \<Rightarrow> tsess" where
  "t_info2 ms mid s =
     (if mid < length ms then
        s_put (put32s (m_in (ms ! mid) @ m_out (ms ! mid)))
          (s_put (put32s [0, length (m_in (ms ! mid)), length (m_out (ms ! mid)), length ms]) s)
      else s_put (put32s [1, 0, 0, length ms]) s)"

section \<open>The session loop\<close>

definition t_cmd :: "tpuenv \<Rightarrow> model list \<Rightarrow> nat list \<Rightarrow> fd list \<Rightarrow> tsess \<Rightarrow> fd list \<times> tsess" where
  "t_cmd E ms hdr fds s =
     (let cmd = hdr ! 1 in
      if cmd = 1 then t_import E (hdr ! 2) fds s
      else (fds,
        if cmd = 2 then t_infer E ms (hdr ! 2) (hdr ! 3) (hdr ! 4) s
        else if cmd = 7 then t_infer2 E ms (hdr ! 2) s
        else if cmd = 3 then t_release (hdr ! 2) s
        else if cmd = 4 then t_info ms (hdr ! 2) s
        else if cmd = 5 then t_infer_multi E ms (hdr ! 2) (hdr ! 3) (hdr ! 4) s
        else if cmd = 6 then t_info2 ms (hdr ! 2) s
        else s_put st1 s))"

definition t_step :: "tpuenv \<Rightarrow> model list \<Rightarrow> nat list \<Rightarrow> fd list \<Rightarrow> tsess \<Rightarrow> tsess" where
  "t_step E ms hdr fds s =
     (case t_cmd E ms hdr fds s of
        (rest, s1) \<Rightarrow> if t_hung (s_w s1) then s1 else s1\<lparr>s_w := close_all rest (s_w s1)\<rparr>)"

definition t_next :: "tsess \<Rightarrow> nat list option \<times> fd list \<times> tsess" where
  "t_next s =
     (if t_hung (s_w s) then (None, [], s)
      else
        (case recv_with_fds 24 (s_c s) (s_w s) of
           (None, fs, c1, w1) \<Rightarrow> (None, fs, s\<lparr>s_c := c1, s_w := w1\<rparr>)
         | (Some bs, fs, c1, w1) \<Rightarrow>
             (let hdr = get32s 6 bs in
              (if hdr ! 0 = TPZ2 then Some hdr else None, fs, s\<lparr>s_c := c1, s_w := w1\<rparr>))))"

fun t_free_all :: "zbuf option list \<Rightarrow> tworld \<Rightarrow> tworld" where
  "t_free_all [] w = w"
| "t_free_all (None # h) w = t_free_all h w"
| "t_free_all (Some z # h) w = t_free_all h (zc_release z w)"

definition t_end :: "fd list \<Rightarrow> tsess \<Rightarrow> tsess" where
  "t_end left s =
     (if t_hung (s_w s) then s
      else s\<lparr>s_h := [], s_w := t_free_all (s_h s) (close_all left (s_w s))\<rparr>)"

definition s_bytes :: "tsess \<Rightarrow> nat" where "s_bytes s = cbytes (s_c s)"

lemma s_put_simps [simp]:
  "s_bytes (s_put bs s) = s_bytes s" "s_h (s_put bs s) = s_h s" "s_w (s_put bs s) = s_w s"
  "s_c (s_put bs s) = put bs (s_c s)"
  by (simp_all add: s_put_def s_bytes_def)

lemma s_reply_simps [simp]:
  "s_bytes (s_reply st us s) = s_bytes s" "s_h (s_reply st us s) = s_h s" "s_w (s_reply st us s) = s_w s"
  by (simp_all add: s_reply_def)

lemma s_upd_bytes [simp]:
  "s_bytes (s\<lparr>s_c := c\<rparr>) = cbytes c" "s_bytes (s\<lparr>s_w := w\<rparr>) = s_bytes s" "s_bytes (s\<lparr>s_h := h\<rparr>) = s_bytes s"
  by (simp_all add: s_bytes_def)

lemma rd_s_bytes: "rd n (s_c s) = (r, c') \<Longrightarrow> cbytes c' \<le> s_bytes s"
  by (simp add: rd_cbytes s_bytes_def)

lemma t_import_bytes: "t_import E n fds s = (rest, s') \<Longrightarrow> s_bytes s' \<le> s_bytes s"
  by (auto simp: t_import_def Let_def dest!: rd_s_bytes split: prod.splits option.splits if_splits)

lemma t_release_bytes: "s_bytes (t_release n s) \<le> s_bytes s"
  by (auto simp: t_release_def dest!: rd_s_bytes split: prod.splits option.splits)

lemma t_infer_bytes: "s_bytes (t_infer E ms a b c s) = s_bytes s"
  by (auto simp: t_infer_def split: prod.splits option.splits)

lemma t_infer2_bytes: "s_bytes (t_infer2 E ms a s) \<le> s_bytes s"
proof -
  obtain r c1 where r: "rd 16 (s_c s) = (r, c1)" by (metis surj_pair)
  note le = rd_s_bytes [OF r]
  show ?thesis
  proof (cases r)
    case None
    then show ?thesis using le by (simp add: t_infer2_def r)
  next
    case (Some bs)
    define hd4 where "hd4 = get32s 4 bs"
    show ?thesis
      using le
      by (cases "infer_args ms (s_h s) a (hd4 ! 0) (hd4 ! 1)";
          cases "infer_args ms (s_h s) a (hd4 ! 2) (hd4 ! 3)")
        (simp_all add: t_infer2_def r Some Let_def hd4_def [symmetric] case_prod_beta)
  qed
qed

lemma multi_run_bytes: "s_bytes (multi_run E ms a b c ks s) = s_bytes s"
  by (cases "pick_bufs (s_h s) (take b ks) (m_in (ms ! a))";
      cases "pick_bufs (s_h s) (drop b ks) (m_out (ms ! a))")
    (auto simp: multi_run_def case_prod_beta)

lemma t_infer_multi_bytes: "s_bytes (t_infer_multi E ms a b c s) \<le> s_bytes s"
  by (auto simp: t_infer_multi_def multi_run_bytes dest!: rd_s_bytes split: prod.splits option.splits)

lemma t_step_bytes: "s_bytes (t_step E ms hdr fds s) \<le> s_bytes s"
proof -
  obtain rest s1 where c: "t_cmd E ms hdr fds s = (rest, s1)" by (metis surj_pair)
  have "s_bytes s1 \<le> s_bytes s"
    using c t_import_bytes t_release_bytes t_infer_bytes t_infer2_bytes t_infer_multi_bytes
    by (auto simp: t_cmd_def Let_def t_info_def t_info2_def split: if_splits)
  then show ?thesis by (simp add: t_step_def c)
qed

lemmas recv_with_fds_acct = recv_fds_acct [of ZC_MAXBUF, folded recv_with_fds_def]

lemma recv_with_fds_Some:
  "recv_with_fds n c w = (Some bs, fs, c', w') \<Longrightarrow> cbytes c' + n = cbytes c"
  using recv_with_fds_acct [of n c w "Some bs" fs c' w'] by auto

lemma t_next_bytes: "t_next s = (Some hdr, fds, s') \<Longrightarrow> s_bytes s' < s_bytes s"
  by (auto simp: t_next_def s_bytes_def Let_def dest!: recv_with_fds_Some
      split: prod.splits option.splits if_splits)

lemma t_round_bytes:
  "t_next (t_step E ms hdr fds s) = (Some hdr', fds', s') \<Longrightarrow> s_bytes s' < s_bytes s"
  using t_next_bytes t_step_bytes by (meson order_less_le_trans)

function t_loop :: "tpuenv \<Rightarrow> model list \<Rightarrow> nat list \<Rightarrow> fd list \<Rightarrow> tsess \<Rightarrow> tsess" where
  "t_loop E ms hdr fds s =
     (case t_next (t_step E ms hdr fds s) of
        (None, left, s1) \<Rightarrow> t_end left s1
      | (Some hdr1, fds1, s1) \<Rightarrow> t_loop E ms hdr1 fds1 s1)"
  by pat_completeness auto
termination
  by (relation "measure (\<lambda>(E, ms, hdr, fds, s). s_bytes s)")
    (auto dest!: sym [of "(_, _)"] t_round_bytes)

declare t_loop.simps [simp del]

definition t_serve_zc ::
  "tpuenv \<Rightarrow> model list \<Rightarrow> nat list \<Rightarrow> fd list \<Rightarrow> conn \<Rightarrow> tworld \<Rightarrow> conn \<times> tworld" where
  "t_serve_zc E ms hdr fds c w =
     (let s = t_loop E ms hdr fds \<lparr>s_c = c, s_h = replicate ZC_MAXH None, s_w = w\<rparr> in (s_c s, s_w s))"

section \<open>Inline requests\<close>

text \<open>
  One inline request after its magic number: \<open>None\<close> when the connection is given up. The model's
  library buffers are freed on every path that continues.
\<close>

definition inline_run ::
  "tpuenv \<Rightarrow> model list \<Rightarrow> nat \<Rightarrow> byte list \<Rightarrow> tworld \<Rightarrow> (bool \<times> byte list) option \<times> tworld" where
  "inline_run E ms mid inp w =
     (let n = in_size (ms ! mid); m = out_size (ms ! mid) in
      case mkbuf E n w of
        (None, w1) \<Rightarrow> (None, w1)
      | (Some ib, w1) \<Rightarrow>
          (let w2 = w1\<lparr>t_mem := (t_mem w1)(CBuf ib := over inp (t_mem w1 (CBuf ib)))\<rparr> in
           case mkbuf E m w2 of
             (None, w3) \<Rightarrow> (None, ext_free ib w3)
           | (Some ob, w3) \<Rightarrow>
               (case tpu_infer E ms mid (CBuf ib) (CBuf ob) w3 of
                  (rc, us, w4) \<Rightarrow>
                    if t_hung w4 then (None, w4)
                    else if rc = 0 then
                      (case ext_try (tp_ok E) w4 of
                         (okm, w5) \<Rightarrow>
                           (Some (okm, if okm then take m (t_mem w5 (CBuf ob)) else []),
                            ext_free ob (ext_free ib w5)))
                    else (Some (False, []), ext_free ob (ext_free ib w4)))))"

text \<open>
  One round: the flag says that the reply was written and the next request announced by its magic
  number.
\<close>

definition inline_req :: "tpuenv \<Rightarrow> model list \<Rightarrow> conn \<Rightarrow> tworld \<Rightarrow> bool \<times> conn \<times> tworld" where
  "inline_req E ms c w =
     (case rd 4 c of
        (None, c1) \<Rightarrow> (False, c1, w)
      | (Some b1, c1) \<Rightarrow>
     (case rd 4 c1 of
        (None, c2) \<Rightarrow> (False, c2, w)
      | (Some b2, c2) \<Rightarrow>
     (let mid = le_nat b1 in
      if mid \<ge> length ms \<or> le_nat b2 \<noteq> in_size (ms ! mid) then (False, put (le32 0) (put st1 c2), w)
      else
     (case ext_try (tp_ok E) w of
        (False, w1) \<Rightarrow> (False, c2, w1)
      | (True, w1) \<Rightarrow>
     (case rd (in_size (ms ! mid)) c2 of
        (None, c3) \<Rightarrow> (False, c3, w1)
      | (Some inp, c3) \<Rightarrow>
     (case inline_run E ms mid inp w1 of
        (None, w2) \<Rightarrow> (False, c3, w2)
      | (Some (ok, res), w2) \<Rightarrow>
     (case wr (if ok then st0 else st2) c3 of
        (False, c4) \<Rightarrow> (False, c4, w2)
      | (True, c4) \<Rightarrow>
     (case wr (le32 (out_size (ms ! mid))) c4 of
        (False, c5) \<Rightarrow> (False, c5, w2)
      | (True, c5) \<Rightarrow>
     (case (if ok then wr res c5 else (True, c5)) of
        (False, c6) \<Rightarrow> (False, c6, w2)
      | (True, c6) \<Rightarrow>
     (case rd 4 c6 of
        (None, c7) \<Rightarrow> (False, c7, w2)
      | (Some mg, c7) \<Rightarrow> (le_nat mg = TPD2, c7, w2)))))))))))"

lemma rd_Some_bytes: "rd n c = (Some bs, c') \<Longrightarrow> cbytes c' + n = cbytes c"
  using rd_Some [of n c bs c'] by (simp add: cbytes_def)

lemma wr_bytes: "wr bs c = (r, c') \<Longrightarrow> cbytes c' = cbytes c"
  using wr_cq [of bs c r c'] by (simp add: cbytes_def)

lemma inline_req_bytes: "inline_req E ms c w = (True, c', w') \<Longrightarrow> cbytes c' < cbytes c"
  unfolding inline_req_def Let_def
  by (auto dest!: rd_Some_bytes wr_bytes split: prod.splits option.splits bool.splits if_splits)

function serve_inline :: "tpuenv \<Rightarrow> model list \<Rightarrow> conn \<Rightarrow> tworld \<Rightarrow> conn \<times> tworld" where
  "serve_inline E ms c w =
     (case inline_req E ms c w of
        (False, c1, w1) \<Rightarrow> (c1, w1)
      | (True, c1, w1) \<Rightarrow> serve_inline E ms c1 w1)"
  by pat_completeness auto
termination
  by (relation "measure (\<lambda>(E, ms, c, w). cbytes c)")
    (auto dest!: sym [of "(_, _)"] inline_req_bytes)

declare serve_inline.simps [simp del]

definition handle_conn :: "tpuenv \<Rightarrow> model list \<Rightarrow> conn \<Rightarrow> tworld \<Rightarrow> conn \<times> tworld" where
  "handle_conn E ms c w =
     (case recv_with_fds 4 c w of
        (None, fds, c1, w1) \<Rightarrow> (c1, w1)
      | (Some bs, fds, c1, w1) \<Rightarrow>
          (if le_nat bs = TPD2 then serve_inline E ms c1 (close_all fds w1)
           else if le_nat bs = TPZ2 then
            (case rd 20 c1 of
               (None, c2) \<Rightarrow> (c2, close_all fds w1)
             | (Some hb, c2) \<Rightarrow> t_serve_zc E ms (TPZ2 # get32s 5 hb) fds c2 w1)
           else (c1, close_all fds w1)))"

end
