(* ===== verification/Tpud.thy ===== *)
theory Tpud
  imports Tpud_Session
begin

text \<open>
  The properties of the TPU daemon src/src/hwbridge/tpud.c: conservation of objects and descriptors,
  the effect of an inference with and without bounce buffers, the stability poll, the fence wait,
  the model table and the wakelock.
\<close>

section \<open>Conservation\<close>

definition single :: "nat \<Rightarrow> nat multiset" where "single b = {#b#}"

text \<open>The bounce buffers belong to the process, not to a session.\<close>

definition bounce_objs :: "tworld \<Rightarrow> nat multiset" where
  "bounce_objs w = slot_sum single (t_cib w) + slot_sum single (t_cob w) +
     slot_sum single (t_pib w) + slot_sum single (t_pob w)"

definition bounce_wf :: "tworld \<Rightarrow> bool" where
  "bounce_wf w \<longleftrightarrow> length (t_cib w) = 256 \<and> length (t_cob w) = 256 \<and>
     length (t_pib w) = 512 \<and> length (t_pob w) = 512"

lemma bnc_cong: "bnc w' = bnc w \<Longrightarrow> bounce_objs w' = bounce_objs w \<and> bounce_wf w' = bounce_wf w"
  by (simp add: bnc_def bounce_objs_def bounce_wf_def)

definition tw_ok :: "nat multiset \<Rightarrow> fd multiset \<Rightarrow> tworld \<Rightarrow> bool" where
  "tw_ok L F w \<longleftrightarrow>
     w_live w = L + bounce_objs w \<and> w_fds w = F \<and> \<not> w_bad w \<and> bounce_wf w \<and> \<not> t_hung w"

lemma tw_ok_frame: "tw_ok L F w \<Longrightarrow> infer_frame E C w w' \<Longrightarrow> (t_hung w' \<and> \<not> waits_end E) \<or> tw_ok L F w'"
  using bnc_cong [of w' w] by (auto simp: infer_frame_def tw_ok_def same_res_def)

lemma mkbuf_t:
  "mkbuf E n w = (r, w') \<Longrightarrow>
     w_live w' = w_live w + (case r of None \<Rightarrow> {#} | Some x \<Rightarrow> {#x#}) \<and> w_fds w' = w_fds w \<and>
     w_bad w' = w_bad w \<and> t_hung w' = t_hung w \<and> bnc w' = bnc w"
  by (auto simp: mkbuf_def dest!: ext_new_t split: prod.splits option.splits)

lemma bounce_buf_t:
  assumes b: "bounce_buf E n tab k w = (r, tab', w')" and k: "k < length tab"
  shows "w_live w' + slot_sum single tab = w_live w + slot_sum single tab' \<and> w_fds w' = w_fds w \<and>
    w_bad w' = w_bad w \<and> t_hung w' = t_hung w \<and> bnc w' = bnc w \<and> length tab' = length tab"
proof (cases "slot_get tab k")
  case (Some x)
  with b show ?thesis by (simp add: bounce_buf_def)
next
  case None
  obtain q w1 where m: "mkbuf E n w = (q, w1)" by (metis surj_pair)
  have "tab ! k = None" using None k by (simp add: slot_get_def)
  then have "slot_sum single (tab[k := Some x]) = slot_sum single tab + {#x#}" for x
    using slot_sum_update [OF k, of single "Some x"] by (simp add: single_def)
  with b None m mkbuf_t [OF m] show ?thesis
    by (cases q) (auto simp: bounce_buf_def)
qed

lemma bounce_buf_share:
  assumes "bounce_buf E n tab k w = (r, tab', w')" and "k < length tab"
    and "w_live w = R + slot_sum single tab"
  shows "w_live w' = R + slot_sum single tab' \<and> w_fds w' = w_fds w \<and>
    w_bad w' = w_bad w \<and> t_hung w' = t_hung w \<and> t_cib w' = t_cib w \<and> t_cob w' = t_cob w \<and>
    t_pib w' = t_pib w \<and> t_pob w' = t_pob w \<and> length tab' = length tab"
proof -
  note B = bounce_buf_t [OF assms(1,2)]
  have "w_live w' + slot_sum single tab = (R + slot_sum single tab') + slot_sum single tab"
    using B assms(3) by (simp add: ac_simps)
  then have "w_live w' = R + slot_sum single tab'" by simp
  with B show ?thesis by (simp add: bnc_def)
qed

lemma get_cib_ok:
  assumes w: "tw_ok L F w" and k: "k < 256" and g: "get_cib E n k w = (r, w')"
  shows "tw_ok L F w'"
proof -
  obtain q tab w1 where b: "bounce_buf E n (t_cib w) k w = (q, tab, w1)" by (metis surj_pair)
  have k': "k < length (t_cib w)" using w k by (simp add: tw_ok_def bounce_wf_def)
  have "w_live w = (L + slot_sum single (t_cob w) + slot_sum single (t_pib w) + slot_sum single (t_pob w)) + slot_sum single (t_cib w)"
    using w by (simp add: tw_ok_def bounce_objs_def ac_simps)
  note B = bounce_buf_share [OF b k' this]
  have w': "w' = w1\<lparr>t_cib := tab\<rparr>" using g b by (simp add: get_cib_def)
  show ?thesis
    using B w unfolding w' by (simp add: tw_ok_def bounce_objs_def bounce_wf_def ac_simps)
qed

lemma get_cob_ok:
  assumes w: "tw_ok L F w" and k: "k < 256" and g: "get_cob E n k w = (r, w')"
  shows "tw_ok L F w'"
proof -
  obtain q tab w1 where b: "bounce_buf E n (t_cob w) k w = (q, tab, w1)" by (metis surj_pair)
  have k': "k < length (t_cob w)" using w k by (simp add: tw_ok_def bounce_wf_def)
  have "w_live w = (L + slot_sum single (t_cib w) + slot_sum single (t_pib w) + slot_sum single (t_pob w)) + slot_sum single (t_cob w)"
    using w by (simp add: tw_ok_def bounce_objs_def ac_simps)
  note B = bounce_buf_share [OF b k' this]
  have w': "w' = w1\<lparr>t_cob := tab\<rparr>" using g b by (simp add: get_cob_def)
  show ?thesis
    using B w unfolding w' by (simp add: tw_ok_def bounce_objs_def bounce_wf_def ac_simps)
qed

lemma get_pib_ok:
  assumes w: "tw_ok L F w" and k: "k < 512" and g: "get_pib E n k w = (r, w')"
  shows "tw_ok L F w'"
proof -
  obtain q tab w1 where b: "bounce_buf E n (t_pib w) k w = (q, tab, w1)" by (metis surj_pair)
  have k': "k < length (t_pib w)" using w k by (simp add: tw_ok_def bounce_wf_def)
  have "w_live w = (L + slot_sum single (t_cib w) + slot_sum single (t_cob w) + slot_sum single (t_pob w)) + slot_sum single (t_pib w)"
    using w by (simp add: tw_ok_def bounce_objs_def ac_simps)
  note B = bounce_buf_share [OF b k' this]
  have w': "w' = w1\<lparr>t_pib := tab\<rparr>" using g b by (simp add: get_pib_def)
  show ?thesis
    using B w unfolding w' by (simp add: tw_ok_def bounce_objs_def bounce_wf_def ac_simps)
qed

lemma get_pob_ok:
  assumes w: "tw_ok L F w" and k: "k < 512" and g: "get_pob E n k w = (r, w')"
  shows "tw_ok L F w'"
proof -
  obtain q tab w1 where b: "bounce_buf E n (t_pob w) k w = (q, tab, w1)" by (metis surj_pair)
  have k': "k < length (t_pob w)" using w k by (simp add: tw_ok_def bounce_wf_def)
  have "w_live w = (L + slot_sum single (t_cib w) + slot_sum single (t_cob w) + slot_sum single (t_pib w)) + slot_sum single (t_pob w)"
    using w by (simp add: tw_ok_def bounce_objs_def ac_simps)
  note B = bounce_buf_share [OF b k' this]
  have w': "w' = w1\<lparr>t_pob := tab\<rparr>" using g b by (simp add: get_pob_def)
  show ?thesis
    using B w unfolding w' by (simp add: tw_ok_def bounce_objs_def bounce_wf_def ac_simps)
qed

lemma copy_cell_ok [simp]: "tw_ok L F (copy_cell d c n w) = tw_ok L F w"
  by (simp add: copy_cell_def tw_ok_def bounce_objs_def bounce_wf_def)

definition live_or_hung :: "tpuenv \<Rightarrow> nat multiset \<Rightarrow> fd multiset \<Rightarrow> tworld \<Rightarrow> bool" where
  "live_or_hung E L F w \<longleftrightarrow> (t_hung w \<and> \<not> waits_end E) \<or> tw_ok L F w"

lemma live_or_hungI: "tw_ok L F w \<Longrightarrow> live_or_hung E L F w"
  by (simp add: live_or_hung_def)

lemma copy_cell_hung [simp]: "live_or_hung E L F (copy_cell d c n w) = live_or_hung E L F w"
  by (simp add: live_or_hung_def) (simp add: copy_cell_def)

lemma tpu_infer_multi_ok:
  "tw_ok L F w \<Longrightarrow> tpu_infer_multi E ms mid ins outs w = (rc, us, w') \<Longrightarrow> outs \<noteq> [] \<Longrightarrow>
     live_or_hung E L F w'"
  using tw_ok_frame tpu_infer_multi_t unfolding live_or_hung_def by blast

lemma tpu_infer_ok:
  "tw_ok L F w \<Longrightarrow> tpu_infer E ms mid i oc w = (rc, us, w') \<Longrightarrow> live_or_hung E L F w'"
  by (simp add: tpu_infer_def tpu_infer_multi_ok)

lemma zc_infer_ok:
  assumes w: "tw_ok L F w" and mid: "mid < 224" and z: "zc_infer E ms mid zi zo w = (st, us, w')"
  shows "live_or_hung E L F w'"
proof (cases "tp_bounce E")
  case None
  obtain rc u w1 where "tpu_infer E ms mid (zb_cell zi) (zb_cell zo) w = (rc, u, w1)" by (metis surj_pair)
  with z None tpu_infer_ok [OF w] show ?thesis by (auto simp: zc_infer_def split: if_splits)
next
  case (Some bm)
  let ?n = "in_size (ms ! mid)" and ?m = "out_size (ms ! mid)"
  have k: "mid < 256" using mid by simp
  obtain ib w1 where a: "(if bm \<noteq> 2 then get_cib E ?n mid w else (None, w)) = (ib, w1)" by (metis surj_pair)
  have w1: "tw_ok L F w1" using a get_cib_ok [OF w k] w by (auto split: if_splits)
  obtain ob w2 where b: "get_cob E ?m mid w1 = (ob, w2)" by (metis surj_pair)
  have w2: "tw_ok L F w2" using get_cob_ok [OF w1 k b] .
  define ic where "ic = (if bm = 2 then zb_cell zi else CBuf (the ib))"
  define w3 where "w3 = (if bm \<noteq> 2 then copy_cell ic (zb_cell zi) ?n w2 else w2)"
  have w3: "tw_ok L F w3" using w2 by (simp add: w3_def)
  obtain rc u w4 where t: "tpu_infer E ms mid ic (CBuf (the ob)) w3 = (rc, u, w4)" by (metis surj_pair)
  note w4 = tpu_infer_ok [OF w3 t]
  show ?thesis
  proof (cases "(bm \<noteq> 2 \<longrightarrow> ib \<noteq> None) \<and> ob \<noteq> None")
    case True
    then obtain y where y: "ob = Some y" by blast
    have "w' = (if rc = 0 then copy_cell (zb_cell zo) (CBuf y) ?m w4 else w4)"
    proof (cases "bm = 2")
      case True
      with z t y a b show ?thesis
        by (simp add: zc_infer_def Some Let_def ic_def w3_def split: if_splits)
    next
      case False
      with True obtain x where "ib = Some x" by blast
      with False z t y a b show ?thesis
        by (simp add: zc_infer_def Some Let_def ic_def w3_def split: if_splits)
    qed
    with w4 show ?thesis by simp
  next
    case False
    with z have "w' = w2" unfolding zc_infer_def Some Let_def a b by (simp add: a b split: if_splits)
    with w2 show ?thesis by (simp add: live_or_hung_def)
  qed
qed

lemma infer_two_ok:
  assumes w: "tw_ok L F w" and i: "infer_two E ms mid iA oA iB oB w = (rc, us, w')"
  shows "live_or_hung E L F w'"
proof (cases "tp_fence E")
  case True
  with i tw_ok_frame [OF w tpu_infer_pair_t] show ?thesis
    by (auto simp: infer_two_def live_or_hung_def)
next
  case False
  obtain r1 u1 w1 where a: "tpu_infer E ms mid iA oA w = (r1, u1, w1)" by (metis surj_pair)
  obtain r2 u2 w2 where b: "tpu_infer E ms mid iB oB w1 = (r2, u2, w2)" by (metis surj_pair)
  note A = tpu_infer_ok [OF w a]
  show ?thesis
  proof (cases "t_hung w1")
    case True
    with i a A False show ?thesis by (simp add: infer_two_def live_or_hung_def)
  next
    case run: False
    with A have "tw_ok L F w1" by (simp add: live_or_hung_def)
    from tpu_infer_ok [OF this b] i a b False run show ?thesis by (simp add: infer_two_def)
  qed
qed

lemma zc_infer2_ok:
  assumes w: "tw_ok L F w" and mid: "mid < 224" and z: "zc_infer2 E ms mid a b w = (st, us, w')"
  shows "live_or_hung E L F w'"
proof (cases "tp_bounce E")
  case None
  obtain rc u w1 where i: "infer_two E ms mid (zb_cell (fst a)) (zb_cell (snd a)) (zb_cell (fst b))
      (zb_cell (snd b)) w = (rc, u, w1)" by (metis surj_pair)
  from infer_two_ok [OF w i] z None i show ?thesis by (auto simp: zc_infer2_def split: if_splits)
next
  case (Some bm)
  let ?n = "in_size (ms ! mid)" and ?m = "out_size (ms ! mid)"
  have k: "2 * mid < 512" "Suc (2 * mid) < 512" using mid by simp_all
  obtain ibA w1 where e1: "(if bm \<noteq> 2 then get_pib E ?n (2 * mid) w else (None, w)) = (ibA, w1)"
    by (metis surj_pair)
  have w1: "tw_ok L F w1" using e1 get_pib_ok [OF w k(1)] w by (auto split: if_splits)
  obtain obA w2 where e2: "get_pob E ?m (2 * mid) w1 = (obA, w2)" by (metis surj_pair)
  have w2: "tw_ok L F w2" using get_pob_ok [OF w1 k(1) e2] .
  obtain ibB w3 where e3: "(if bm \<noteq> 2 then get_pib E ?n (Suc (2 * mid)) w2 else (None, w2)) = (ibB, w3)"
    by (metis surj_pair)
  have w3: "tw_ok L F w3" using e3 get_pib_ok [OF w2 k(2)] w2 by (auto split: if_splits)
  obtain obB w4 where e4: "get_pob E ?m (Suc (2 * mid)) w3 = (obB, w4)" by (metis surj_pair)
  have w4: "tw_ok L F w4" using get_pob_ok [OF w3 k(2) e4] .
  define iA where "iA = (if bm = 2 then zb_cell (fst a) else CBuf (the ibA))"
  define iB where "iB = (if bm = 2 then zb_cell (fst b) else CBuf (the ibB))"
  define w5 where "w5 = (if bm \<noteq> 2 then copy_cell iB (zb_cell (fst b)) ?n
      (copy_cell iA (zb_cell (fst a)) ?n w4) else w4)"
  have w5: "tw_ok L F w5" using w4 by (simp add: w5_def)
  obtain rc u w6 where i: "infer_two E ms mid iA (CBuf (the obA)) iB (CBuf (the obB)) w5 = (rc, u, w6)"
    by (metis surj_pair)
  note w6 = infer_two_ok [OF w5 i]
  show ?thesis
  proof (cases "(bm \<noteq> 2 \<longrightarrow> ibA \<noteq> None \<and> ibB \<noteq> None) \<and> obA \<noteq> None \<and> obB \<noteq> None")
    case True
    then obtain x y where xy: "obA = Some x" "obB = Some y" by blast
    have "w' = (if rc = 0 then copy_cell (zb_cell (snd b)) (CBuf y) ?m
        (copy_cell (zb_cell (snd a)) (CBuf x) ?m w6) else w6)"
    proof (cases "bm = 2")
      case True
      with z i xy e1 e2 e3 e4 show ?thesis
        by (simp add: zc_infer2_def Some Let_def iA_def iB_def w5_def split: if_splits)
    next
      case False
      with True obtain u v where "ibA = Some u" "ibB = Some v" by blast
      with False z i xy e1 e2 e3 e4 show ?thesis
        by (simp add: zc_infer2_def Some Let_def iA_def iB_def w5_def split: if_splits)
    qed
    with w6 show ?thesis by simp
  next
    case False
    have "w' = w4"
    proof (cases "bm = 2")
      case True
      with False z e1 e2 e3 e4 show ?thesis
        by (auto simp: zc_infer2_def Some Let_def split: if_splits)
    next
      case bm: False
      with False z e1 e2 e3 e4 show ?thesis
        by (cases ibA; cases ibB; cases obA; cases obB)
          (simp_all add: zc_infer2_def Some Let_def split: if_splits)
    qed
    with w4 show ?thesis by (simp add: live_or_hung_def)
  qed
qed

subsection \<open>The session\<close>

definition zb_fds :: "zbuf \<Rightarrow> fd multiset" where "zb_fds z = {#zb_fd z#}"

text \<open>What a session holds besides the process: buffers, mappings and adopted descriptors.\<close>

definition t_own :: "nat multiset \<Rightarrow> fd multiset \<Rightarrow> fd list \<Rightarrow> tsess \<Rightarrow> bool" where
  "t_own L F fds s \<longleftrightarrow>
     tw_ok (L + slot_sum zb_objs (s_h s)) (F + mset fds + slot_sum zb_fds (s_h s)) (s_w s)"

definition t_mid :: "tpuenv \<Rightarrow> nat multiset \<Rightarrow> fd multiset \<Rightarrow> fd list \<Rightarrow> tsess \<Rightarrow> bool" where
  "t_mid E L F fds s \<longleftrightarrow> (t_hung (s_w s) \<and> \<not> waits_end E) \<or> t_own L F fds s"

lemma tw_ok_step:
  assumes "tw_ok L F w" and "world.more w' = world.more w" and "w_live w' = L' + bounce_objs w"
    and "w_fds w' = F'" and "w_bad w' = w_bad w"
  shows "tw_ok L' F' w'"
proof -
  have m: "bnc w' = bnc w" "t_hung w' = t_hung w" using t_more [OF assms(2)] by blast+
  with bnc_cong [OF m(1)] assms show ?thesis by (simp add: tw_ok_def)
qed

lemma tw_ok_free:
  assumes w: "tw_ok (L + {#x#}) F w"
  shows "tw_ok L F (ext_free x w)"
  using w by (intro tw_ok_step [OF w]) (auto simp: tw_ok_def acct_simps)

lemma tw_ok_close:
  assumes w: "tw_ok L (F + {#f#}) w"
  shows "tw_ok L F (close_fd f w)"
  using w by (intro tw_ok_step [OF w]) (auto simp: tw_ok_def acct_simps)

lemma tw_ok_close_all:
  assumes w: "tw_ok L (F + mset fs) w"
  shows "tw_ok L F (close_all fs w)"
  using w by (intro tw_ok_step [OF w]) (auto simp: tw_ok_def acct_simps)

lemma tw_ok_give:
  assumes w: "tw_ok L (F + {#f#}) w"
  shows "tw_ok L F (fd_give f w)"
  using w by (intro tw_ok_step [OF w]) (auto simp: tw_ok_def acct_simps)

lemma tw_ok_new:
  assumes c: "ext_new ok w = (r, w')" and w: "tw_ok L F w"
  shows "tw_ok (L + (case r of None \<Rightarrow> {#} | Some x \<Rightarrow> {#x#})) F w'"
proof (rule tw_ok_step [OF w])
  note A = ext_new_acct [OF c]
  show "world.more w' = world.more w" and "w_bad w' = w_bad w" using A by blast+
qed (use ext_new_acct [OF c] w in \<open>simp_all add: tw_ok_def\<close>)

lemma tw_ok_dup:
  assumes c: "fd_dup ok f w = (r, w')" and w: "tw_ok L F w"
  shows "tw_ok L (F + (case r of None \<Rightarrow> {#} | Some x \<Rightarrow> {#x#})) w'"
proof (rule tw_ok_step [OF w])
  note A = fd_dup_acct [OF c]
  show "world.more w' = world.more w" and "w_bad w' = w_bad w" using A by blast+
qed (use fd_dup_acct [OF c] w in \<open>simp_all add: tw_ok_def\<close>)

lemma tw_ok_try:
  assumes c: "ext_try ok w = (r, w')" and w: "tw_ok L F w"
  shows "tw_ok L F w'"
proof (rule tw_ok_step [OF w])
  note A = ext_try_acct [OF c]
  show "world.more w' = world.more w" and "w_bad w' = w_bad w" using A by blast+
qed (use ext_try_acct [OF c] w in \<open>simp_all add: tw_ok_def\<close>)

lemma import_dmabuf_ok:
  assumes i: "import_dmabuf E f w = (r, w')" and w: "tw_ok L F w"
  shows "tw_ok (L + (case r of None \<Rightarrow> {#} | Some (b, m) \<Rightarrow> {#b, m#})) F w'"
proof -
  obtain d w1 where d: "fd_dup (tp_ok E) f w = (d, w1)" by (metis surj_pair)
  note D = tw_ok_dup [OF d w]
  show ?thesis
  proof (cases d)
    case None
    with i d D show ?thesis by (auto simp: import_dmabuf_def)
  next
    case (Some g)
    obtain b w2 where b: "ext_new (tp_ok E) w1 = (b, w2)" by (metis surj_pair)
    note B = tw_ok_new [OF b D]
    show ?thesis
    proof (cases b)
      case None
      with i d b B Some tw_ok_close [of L F g w2] show ?thesis by (auto simp: import_dmabuf_def)
    next
      case b': (Some x)
      obtain m w3 where m: "ext_new (tp_ok E) (fd_give g w2) = (m, w3)" by (metis surj_pair)
      have "tw_ok (L + {#x#}) F (fd_give g w2)" using B b' Some by (simp add: tw_ok_give)
      note M = tw_ok_new [OF m this]
      with i d b m Some b' tw_ok_free [of L x F w3] show ?thesis
        by (cases m) (auto simp: import_dmabuf_def add_mset_commute)
    qed
  qed
qed

lemma t_imports_ok:
  "t_imports E qs h w = (r, ks, rest, h', w') \<Longrightarrow>
     tw_ok (L + slot_sum zb_objs h) (F + mset (map fst qs) + slot_sum zb_fds h) w \<Longrightarrow>
     tw_ok (L + slot_sum zb_objs h') (F + mset rest + slot_sum zb_fds h') w'"
proof (induction E qs h w arbitrary: r ks rest h' w' rule: t_imports.induct)
  case (1 E h w)
  then show ?case by auto
next
  case (2 E f sz qs h w)
  show ?case
  proof (cases "free_slot h = None \<or> sz = 0 \<or> sz > MAXIMP")
    case True
    with 2 show ?thesis by (auto split: option.splits)
  next
    case False
    then obtain k where k: "free_slot h = Some k" by auto
    obtain q w1 where i: "import_dmabuf E f w = (q, w1)" by (metis surj_pair)
    note I = import_dmabuf_ok [OF i 2(3)]
    show ?thesis
    proof (cases q)
      case None
      with 2(2) I False k i show ?thesis by (auto simp: ac_simps)
    next
      case (Some bm)
      obtain b m where bm: "bm = (b, m)" by (cases bm)
      define e where "e = \<lparr>zb_buf = b, zb_map = m, zb_size = sz, zb_fd = f\<rparr>"
      have eo: "zb_objs e = {#b, m#}" "zb_fds e = {#f#}" by (simp_all add: zb_objs_def zb_fds_def e_def)
      obtain r2 ks2 rest2 h2 w2 where t: "t_imports E qs (h[k := Some e]) w1 = (r2, ks2, rest2, h2, w2)"
        by (metis surj_pair)
      have "tw_ok (L + slot_sum zb_objs (h[k := Some e])) (F + mset (map fst qs) + slot_sum zb_fds (h[k := Some e])) w1"
        using I Some bm by (simp add: slot_sum_alloc [OF k] eo ac_simps)
      from 2(1) [OF k _ i [symmetric] Some bm [symmetric] t [unfolded e_def] this [unfolded e_def]] 2(2) False k i Some bm t
      show ?thesis by (auto simp: e_def)
    qed
  qed
qed

lemma zc_release_ok: "tw_ok (L + zb_objs z) (F + zb_fds z) w \<Longrightarrow> tw_ok L F (zc_release z w)"
  unfolding zc_release_def zb_objs_def zb_fds_def
  by (intro tw_ok_close tw_ok_free) (simp add: add_mset_commute)

lemma t_releases_ok:
  "t_releases ks h w = (h', w') \<Longrightarrow>
     tw_ok (L + slot_sum zb_objs h) (F + slot_sum zb_fds h) w \<Longrightarrow>
     tw_ok (L + slot_sum zb_objs h') (F + slot_sum zb_fds h') w'"
proof (induction ks h w arbitrary: h' w' rule: t_releases.induct)
  case (1 h w)
  then show ?case by simp
next
  case (2 k ks h w)
  show ?case
  proof (cases "slot_get h k")
    case None
    with 2 show ?thesis by simp
  next
    case (Some z)
    have "tw_ok ((L + slot_sum zb_objs (slot_clear h k)) + zb_objs z)
        ((F + slot_sum zb_fds (slot_clear h k)) + zb_fds z) w"
      using 2(4) slot_sum_clear [OF Some, of zb_objs] slot_sum_clear [OF Some, of zb_fds]
      by (simp add: ac_simps)
    from zc_release_ok [OF this] 2(2) [OF Some] 2(3) Some show ?thesis by simp
  qed
qed

lemma t_free_all_ok:
  "tw_ok (L + slot_sum zb_objs h) (F + slot_sum zb_fds h) w \<Longrightarrow> tw_ok L F (t_free_all h w)"
proof (induction h w rule: t_free_all.induct)
  case (3 z h w)
  have "tw_ok ((L + slot_sum zb_objs h) + zb_objs z) ((F + slot_sum zb_fds h) + zb_fds z) w"
    using 3(2) by (simp add: ac_simps)
  from 3(1) [OF zc_release_ok [OF this]] show ?case by simp
qed simp_all

lemma t_own_simps [simp]:
  "t_own L F fds (s_put bs s) = t_own L F fds s" "t_own L F fds (s_reply st us s) = t_own L F fds s"
  "t_own L F fds (s\<lparr>s_c := c\<rparr>) = t_own L F fds s"
  "t_mid E L F fds (s_put bs s) = t_mid E L F fds s" "t_mid E L F fds (s_reply st us s) = t_mid E L F fds s"
  "t_mid E L F fds (s\<lparr>s_c := c\<rparr>) = t_mid E L F fds s"
  by (simp_all add: t_own_def t_mid_def)

lemma t_own_mid [intro]: "t_own L F fds s \<Longrightarrow> t_mid E L F fds s"
  by (simp add: t_mid_def)

lemma t_own_alive: "t_own L F fds s \<Longrightarrow> \<not> t_hung (s_w s)"
  by (simp add: t_own_def tw_ok_def)

text \<open>A session step that only runs the accelerator: the new process state decides.\<close>

lemma t_mid_world:
  assumes "live_or_hung E (L + slot_sum zb_objs (s_h s)) (F + mset fds + slot_sum zb_fds (s_h s)) w"
  shows "t_mid E L F fds (s\<lparr>s_w := w\<rparr>)"
  using assms by (simp add: t_mid_def t_own_def live_or_hung_def)

lemma t_import_own:
  assumes t: "t_import E n fds s = (rest, s')" and o: "t_own L F fds s"
  shows "t_own L F rest s'"
proof (cases "\<not> tp_imp E \<or> n = 0 \<or> n > ZC_MAXBUF \<or> n \<noteq> length fds")
  case True
  with t o show ?thesis by (auto simp: t_import_def)
next
  case False
  obtain q c1 where r: "rd (n * 4) (s_c s) = (q, c1)" by (metis surj_pair)
  show ?thesis
  proof (cases q)
    case None
    with t o r False show ?thesis by (auto simp: t_import_def)
  next
    case (Some bs)
    obtain r ks rs h1 w1 where i: "t_imports E (zip fds (get32s n bs)) (s_h s) (s_w s) = (r, ks, rs, h1, w1)"
      by (metis surj_pair)
    have m: "map fst (zip fds (get32s n bs)) = fds" using False by simp
    have "tw_ok (L + slot_sum zb_objs h1) (F + mset rs + slot_sum zb_fds h1) w1"
      by (rule t_imports_ok [OF i]) (use o m in \<open>simp add: t_own_def\<close>)
    then have "t_own L F rs (s\<lparr>s_c := c1, s_h := h1, s_w := w1\<rparr>)" by (simp add: t_own_def)
    with t r Some i False show ?thesis by (auto simp: t_import_def Let_def split: if_splits)
  qed
qed

lemma t_release_own:
  assumes o: "t_own L F fds s"
  shows "t_own L F fds (t_release n s)"
proof -
  have "tw_ok (L + slot_sum zb_objs h) ((F + mset fds) + slot_sum zb_fds h) w"
    if "t_releases ks (s_h s) (s_w s) = (h, w)" for ks h w
    using t_releases_ok [OF that, of L "F + mset fds"] o by (simp add: t_own_def)
  then show ?thesis
    using o by (auto simp: t_release_def t_own_def split: prod.splits option.splits)
qed

lemma infer_args_mid: "infer_args ms h mid i k = Some r \<Longrightarrow> mid < length ms"
  by (auto simp: infer_args_def split: if_splits)

lemma t_infer_mid:
  assumes o: "t_own L F fds s" and len: "length ms \<le> 224"
  shows "t_mid E L F fds (t_infer E ms mid ih oh s)"
proof (cases "infer_args ms (s_h s) mid ih oh")
  case None
  with o show ?thesis by (auto simp: t_infer_def)
next
  case (Some zz)
  obtain zi zo st us w1 where z: "zz = (zi, zo)" "zc_infer E ms mid zi zo (s_w s) = (st, us, w1)"
    by (metis surj_pair)
  with zc_infer_ok [OF _ _ z(2)] o infer_args_mid [OF Some] len Some show ?thesis
    by (simp add: t_infer_def t_own_def t_mid_world)
qed

lemma t_infer2_mid:
  assumes o: "t_own L F fds s" and len: "length ms \<le> 224"
  shows "t_mid E L F fds (t_infer2 E ms mid s)"
proof -
  obtain q c1 where r: "rd 16 (s_c s) = (q, c1)" by (metis surj_pair)
  show ?thesis
  proof (cases q)
    case None
    with o r show ?thesis by (auto simp: t_infer2_def)
  next
    case (Some bs)
    define hd4 where "hd4 = get32s 4 bs"
    show ?thesis
    proof (cases "infer_args ms (s_h s) mid (hd4 ! 0) (hd4 ! 1) = None \<or>
        infer_args ms (s_h s) mid (hd4 ! 2) (hd4 ! 3) = None")
      case True
      with o r Some show ?thesis
        by (auto simp: t_infer2_def Let_def hd4_def [symmetric] split: option.splits)
    next
      case False
      then obtain a b where ab: "infer_args ms (s_h s) mid (hd4 ! 0) (hd4 ! 1) = Some a"
        "infer_args ms (s_h s) mid (hd4 ! 2) (hd4 ! 3) = Some b" by auto
      obtain st us w1 where z: "zc_infer2 E ms mid a b (s_w s) = (st, us, w1)" by (metis surj_pair)
      have "t_infer2 E ms mid s = s_reply st us (s\<lparr>s_c := c1, s_w := w1\<rparr>)"
        by (simp only: t_infer2_def r Some Let_def hd4_def [symmetric] ab z prod.case option.case)
      moreover have "t_mid E L F fds ((s\<lparr>s_c := c1\<rparr>)\<lparr>s_w := w1\<rparr>)"
        using zc_infer2_ok [OF _ _ z] o infer_args_mid [OF ab(1)] len
        by (intro t_mid_world) (simp add: t_own_def)
      ultimately show ?thesis by simp
    qed
  qed
qed

lemma multi_run_mid:
  assumes o: "t_own L F fds s" and n: "0 < nout" and ks: "length ks = nin + nout"
  shows "t_mid E L F fds (multi_run E ms mid nin nout ks s)"
proof (cases "mid < length ms \<and> nin = length (m_in (ms ! mid)) \<and> nout = length (m_out (ms ! mid))")
  case False
  then show ?thesis using t_own_mid [OF o] by (simp only: multi_run_def if_False t_own_simps)
next
  case True
  show ?thesis
  proof (cases "pick_bufs (s_h s) (take nin ks) (m_in (ms ! mid)) = None \<or>
      pick_bufs (s_h s) (drop nin ks) (m_out (ms ! mid)) = None")
    case bad: True
    then show ?thesis using True t_own_mid [OF o]
      by (auto simp: multi_run_def split: option.splits)
  next
    case False
    then obtain zi zo where z: "pick_bufs (s_h s) (take nin ks) (m_in (ms ! mid)) = Some zi"
      "pick_bufs (s_h s) (drop nin ks) (m_out (ms ! mid)) = Some zo" by auto
    have zo: "zo \<noteq> []" using z(2) n ks by (auto simp: pick_bufs_def split: if_splits)
    obtain rc us w1 where t: "tpu_infer_multi E ms mid (map zb_cell zi) (map zb_cell zo) (s_w s) = (rc, us, w1)"
      by (metis surj_pair)
    have "t_mid E L F fds (s\<lparr>s_w := w1\<rparr>)"
      using tpu_infer_multi_ok [OF _ t] o zo by (intro t_mid_world) (simp add: t_own_def)
    then show ?thesis using True z t by (simp add: multi_run_def)
  qed
qed

lemma t_infer_multi_mid:
  assumes "t_own L F fds s"
  shows "t_mid E L F fds (t_infer_multi E ms mid nin nout s)"
  using assms by (auto simp: t_infer_multi_def intro!: multi_run_mid split: prod.splits option.splits)

lemma t_step_mid:
  assumes o: "t_own L F fds s" and len: "length ms \<le> 224"
  shows "t_mid E L F [] (t_step E ms hdr fds s)"
proof -
  obtain rest s1 where c: "t_cmd E ms hdr fds s = (rest, s1)" by (metis surj_pair)
  have "t_mid E L F rest s1"
    using c t_import_own [OF _ o] t_release_own [OF o] t_infer_mid [OF o len]
      t_infer2_mid [OF o len] t_infer_multi_mid [OF o] t_own_mid [OF o]
    by (auto simp: t_cmd_def Let_def t_info_def t_info2_def split: if_splits)
  then show ?thesis
    using tw_ok_close_all [of _ "F + slot_sum zb_fds (s_h s1)" rest "s_w s1"] t_own_alive [of L F rest s1]
    by (auto simp: t_step_def c t_mid_def t_own_def ac_simps)
qed

lemma t_next_own:
  assumes m: "t_mid E L F [] s" and n: "t_next s = (r, fds, s')"
  shows "t_mid E L F fds s'" and "r \<noteq> None \<Longrightarrow> t_own L F fds s'"
proof -
  have "t_hung (s_w s) \<and> r = None \<and> s' = s \<or> t_own L F fds s'"
  proof (cases "t_hung (s_w s)")
    case True
    with n show ?thesis by (simp add: t_next_def)
  next
    case False
    with m have o: "t_own L F [] s" by (simp add: t_mid_def)
    obtain q fs c1 w1 where r: "recv_with_fds 24 (s_c s) (s_w s) = (q, fs, c1, w1)" by (metis surj_pair)
    note A = recv_with_fds_acct [OF r]
    have "tw_ok (L + slot_sum zb_objs (s_h s)) (F + mset fs + slot_sum zb_fds (s_h s)) w1"
      by (rule tw_ok_step [of _ _ "s_w s"]) (use A o in \<open>simp_all add: t_own_def tw_ok_def ac_simps\<close>)
    with n r False show ?thesis
      by (cases q) (auto simp: t_next_def t_own_def Let_def)
  qed
  then show "t_mid E L F fds s'" and "r \<noteq> None \<Longrightarrow> t_own L F fds s'"
    using m t_own_alive [of L F "[]" s] by (auto simp: t_mid_def)
qed

interpretation tz: session_loop "t_step E ms" t_next t_end "t_loop E ms" s_bytes
    "\<lambda>fds s. t_own L F fds s \<and> length ms \<le> 224" "\<lambda>s. t_mid E L F [] s \<and> length ms \<le> 224" "t_mid E L F" for E ms L F
proof unfold_locales
  show "t_loop E ms hdr fds s =
      (case t_next (t_step E ms hdr fds s) of
         (None, left, s1) \<Rightarrow> t_end left s1
       | (Some hdr1, fds1, s1) \<Rightarrow> t_loop E ms hdr1 fds1 s1)" for hdr fds s
    by (rule t_loop.simps)
qed (auto intro: t_step_bytes t_next_bytes t_step_mid t_next_own)

lemma t_serve_zc_ok:
  assumes z: "t_serve_zc E ms hdr fds c w = (c', w')" and len: "length ms \<le> 224"
    and w: "tw_ok L (F + mset fds) w"
  shows "live_or_hung E L F w'"
proof -
  let ?s = "\<lparr>s_c = c, s_h = replicate ZC_MAXH None, s_w = w\<rparr>"
  have "t_own L F fds ?s \<and> length ms \<le> 224"
    using w len by (simp add: t_own_def slot_sum_replicate)
  from tz.loop_ends [OF this, of E hdr] obtain left s1
    where l: "t_loop E ms hdr fds ?s = t_end left s1" and m: "t_mid E L F left s1" by blast
  have "live_or_hung E L F (s_w (t_end left s1))"
  proof (cases "t_hung (s_w s1)")
    case True
    with m t_own_alive show ?thesis by (auto simp: t_end_def t_mid_def live_or_hung_def)
  next
    case False
    with m have "tw_ok (L + slot_sum zb_objs (s_h s1)) (F + slot_sum zb_fds (s_h s1) + mset left) (s_w s1)"
      by (simp add: t_mid_def t_own_def ac_simps)
    from t_free_all_ok [OF tw_ok_close_all [OF this]] False show ?thesis
      by (simp add: t_end_def live_or_hung_def)
  qed
  with z l show ?thesis by (auto simp: t_serve_zc_def Let_def)
qed

lemma tw_ok_mkbuf:
  assumes "mkbuf E n w = (r, w')" and "tw_ok L F w"
  shows "tw_ok (L + (case r of None \<Rightarrow> {#} | Some x \<Rightarrow> {#x#})) F w'"
  using mkbuf_t [OF assms(1)] bnc_cong [of w' w] assms(2) by (simp add: tw_ok_def)

lemma tw_ok_mem [simp]: "tw_ok L F (w\<lparr>t_mem := m\<rparr>) = tw_ok L F w"
  by (simp add: tw_ok_def bounce_objs_def bounce_wf_def)

lemma tw_ok_alive: "tw_ok L F w \<Longrightarrow> \<not> t_hung w"
  by (simp add: tw_ok_def)

lemma inline_run_ok:
  assumes i: "inline_run E ms mid inp w = (r, w')" and w: "tw_ok L F w"
  shows "live_or_hung E L F w' \<and> (r \<noteq> None \<longrightarrow> tw_ok L F w')"
proof -
  obtain x w1 where a: "mkbuf E (in_size (ms ! mid)) w = (x, w1)" by (metis surj_pair)
  note A = tw_ok_mkbuf [OF a w]
  show ?thesis
  proof (cases x)
    case None
    with i a A show ?thesis by (auto simp: inline_run_def live_or_hung_def)
  next
    case (Some ib)
    define w2 where "w2 = w1\<lparr>t_mem := (t_mem w1)(CBuf ib := over inp (t_mem w1 (CBuf ib)))\<rparr>"
    have w2: "tw_ok (L + {#ib#}) F w2" using A Some by (simp add: w2_def)
    obtain y w3 where b: "mkbuf E (out_size (ms ! mid)) w2 = (y, w3)" by (metis surj_pair)
    note B = tw_ok_mkbuf [OF b w2]
    show ?thesis
    proof (cases y)
      case None
      with i a b B Some tw_ok_free [of L ib F w3] show ?thesis
        by (auto simp: inline_run_def live_or_hung_def w2_def [symmetric])
    next
      case y: (Some ob)
      have w3: "tw_ok (L + {#ob#} + {#ib#}) F w3" using B y by (simp add: add_mset_commute)
      obtain rc us w4 where t: "tpu_infer E ms mid (CBuf ib) (CBuf ob) w3 = (rc, us, w4)"
        by (metis surj_pair)
      note C = tpu_infer_ok [OF w3 t]
      have free: "tw_ok L F (ext_free ob (ext_free ib u))" if "tw_ok (L + {#ob#} + {#ib#}) F u" for u
        by (intro tw_ok_free that)
      show ?thesis
      proof (cases "t_hung w4")
        case True
        with i a b t Some y C show ?thesis
          by (auto simp: inline_run_def Let_def w2_def [symmetric] live_or_hung_def dest: tw_ok_alive)
      next
        case False
        with C have w4: "tw_ok (L + {#ob#} + {#ib#}) F w4" by (simp add: live_or_hung_def)
        obtain okm w5 where m: "ext_try (tp_ok E) w4 = (okm, w5)" by (metis surj_pair)
        have "tw_ok L F w'"
          using i a b t m Some y False free [OF w4] free [OF tw_ok_try [OF m w4]]
          by (auto simp: inline_run_def Let_def w2_def [symmetric] split: if_splits)
        then show ?thesis by (simp add: live_or_hung_def)
      qed
    qed
  qed
qed

lemma inline_req_ok:
  assumes q: "inline_req E ms c w = (r, c', w')" and w: "tw_ok L F w"
  shows "live_or_hung E L F w' \<and> (r \<longrightarrow> tw_ok L F w')"
proof -
  have lw: "live_or_hung E L F w" using w by (rule live_or_hungI)
  have tr: "live_or_hung E L F w1" "tw_ok L F w1" if "ext_try (tp_ok E) w = (k, w1)" for k w1
    using tw_ok_try [OF that w] by (simp_all add: live_or_hung_def)
  show ?thesis
    using q w lw
    unfolding inline_req_def Let_def
    by (simp split: option.splits prod.splits if_splits bool.splits)
      (use tr inline_run_ok in blast)+
qed

lemma serve_inline_ok:
  "serve_inline E ms c w = (c', w') \<Longrightarrow> tw_ok L F w \<Longrightarrow> live_or_hung E L F w'"
proof (induction E ms c w arbitrary: c' w' rule: serve_inline.induct)
  case (1 E ms c w)
  obtain r c1 w1 where q: "inline_req E ms c w = (r, c1, w1)" by (metis surj_pair)
  note ok = inline_req_ok [OF q 1(3)]
  show ?case
  proof (cases r)
    case True
    with 1(1) [OF q [symmetric]] 1(2) q ok show ?thesis
      by (simp add: serve_inline.simps [of E ms c w])
  next
    case False
    with 1(2) q ok show ?thesis by (simp add: serve_inline.simps [of E ms c w])
  qed
qed

lemma handle_conn_ok:
  assumes h: "handle_conn E ms c w = (c', w')" and w: "tw_ok L F w" and len: "length ms \<le> 224"
  shows "live_or_hung E L F w'"
proof -
  obtain q fds c1 w1 where r: "recv_with_fds 4 c w = (q, fds, c1, w1)" by (metis surj_pair)
  note A = recv_with_fds_acct [OF r]
  have w1: "tw_ok L (F + mset fds) w1"
    by (rule tw_ok_step [OF w]) (use A w in \<open>simp_all add: tw_ok_def\<close>)
  have cl: "tw_ok L F (close_all fds w1)" by (rule tw_ok_close_all [OF w1])
  show ?thesis
  proof (cases q)
    case None
    with h r A w1 show ?thesis by (auto simp: handle_conn_def live_or_hung_def)
  next
    case (Some bs)
    obtain hb c2 where r2: "rd 20 c1 = (hb, c2)" by (metis surj_pair)
    show ?thesis
      using h r Some r2 serve_inline_ok [OF _ cl] t_serve_zc_ok [OF _ len w1] live_or_hungI [OF cl]
      by (cases hb) (auto simp: handle_conn_def split: if_splits)
  qed
qed

end
