(* ===== verification/Tpud_Correct.thy ===== *)
theory Tpud_Correct
  imports Tpud
begin

text \<open>
  What the TPU daemon computes (src/src/hwbridge/tpud.c): the effect of an inference on the client's
  buffers, with and without bounce buffers and for the pair in flight; the waits; the model table,
  the warm-up and the wakelock. The properties are stated here.
\<close>

section \<open>The fenced path\<close>

text \<open>Submission \<open>k\<close> is seen to be complete before the limit is looked at and found exceeded.\<close>

definition in_time :: "tpuenv \<Rightarrow> nat \<Rightarrow> bool" where
  "in_time E k \<longleftrightarrow>
     (\<exists>i. tp_fin E k i \<and> (\<forall>j<i. 200000 \<le> j \<longrightarrow> tp_clk E k j \<le> tp_max_wait E))"

lemma fence_loop_done:
  assumes "fin n" and "\<forall>j<n. 200000 \<le> j \<longrightarrow> clk j \<le> maxw" and "i \<le> n"
  shows "fence_loop fin clk maxw i = Some True"
  using assms(3)
proof (induction "n - i" arbitrary: i)
  case 0
  then have "i = n" by simp
  with assms(1) show ?case by (subst fence_loop.simps) simp
next
  case (Suc k)
  then have "i < n" and "fence_loop fin clk maxw (Suc i) = Some True" by simp_all
  with assms(2) show ?case by (subst fence_loop.simps) auto
qed

lemma in_time_done: "in_time E k \<Longrightarrow> fence_loop (tp_fin E k) (tp_clk E k) (tp_max_wait E) 0 = Some True"
  using fence_loop_done [where i = 0] by (auto simp: in_time_def)

lemma ext_new_ok: "\<forall>k. ok k \<Longrightarrow> \<exists>x w'. ext_new ok w = (Some x, w') \<and> world.more w' = world.more w"
  by (simp add: ext_new_def)

lemma wl_touch_sub: "t_sub (wl_touch E w) = t_sub w"
proof -
  have "t_sub (wl_write E True u) = t_sub u" for u
  proof -
    obtain r w1 where t: "ext_try (tp_ok E) u = (r, w1)" by (metis surj_pair)
    from ext_try_t [OF t] show ?thesis by (cases r) (simp_all add: wl_write_def t)
  qed
  then show ?thesis by (simp add: wl_touch_def Let_def)
qed

text \<open>Every call of the library succeeds, the fence path is on.\<close>

definition fence_on :: "tpuenv \<Rightarrow> bool" where
  "fence_on E \<longleftrightarrow> (\<forall>k. tp_ok E k) \<and> tp_wait_us E \<le> 0 \<and> tp_fence E"

lemma infer_fence_run:
  assumes ok: "\<forall>k. tp_ok E k" and t: "in_time E (t_sub w)"
  shows "\<exists>w'. infer_fence E ms mid ins outs w = (0, tp_us E (t_sub w), w') \<and> t_hung w' = t_hung w \<and>
    t_sub w' = Suc (t_sub w) \<and>
    t_mem w' = store_outs (done_outs (dev_run E mid (t_sub w) (map (t_mem w) ins) outs)) 0 outs (t_mem w)"
proof -
  obtain req w1 where n1: "ext_new (tp_ok E) w = (Some req, w1)" using ext_new_ok [OF ok] by blast
  obtain f w2 where n2: "ext_new (tp_ok E) (bump_sub w1) = (Some f, w2)" using ext_new_ok [OF ok] by blast
  show ?thesis
    using ext_new_t [OF n1] ext_new_t [OF n2] in_time_done [OF t]
    by (simp add: infer_fence_def n1 n2 Let_def fence_wait_def)
qed

lemma infer_run:
  assumes E: "fence_on E" and t: "in_time E (t_sub w)"
  shows "\<exists>w'. tpu_infer_multi E ms mid ins outs w = (0, tp_us E (t_sub w), w') \<and> t_hung w' = t_hung w \<and>
    t_sub w' = Suc (t_sub w) \<and>
    t_mem w' = store_outs (done_outs (dev_run E mid (t_sub w) (map (t_mem w) ins) outs)) 0 outs (t_mem w)"
  using infer_fence_run [of E "wl_touch E w" ms mid ins outs] E t wl_touch_t [of w E] wl_touch_sub [of E w]
  by (simp add: tpu_infer_multi_def fence_on_def Let_def)

text \<open>The one output of a submission, and the case that the package writes it.\<close>

definition dev_one :: "tpuenv \<Rightarrow> nat \<Rightarrow> nat \<Rightarrow> cell \<Rightarrow> byte list \<Rightarrow> byte list" where
  "dev_one E mid k oc res = (if tp_zeros E mid k oc then replicate (length res) 0 else res)"

lemma dev_run_one: "tp_graph E mid bs = [res] \<Longrightarrow> dev_run E mid k bs [oc] = [dev_one E mid k oc res]"
  by (simp add: dev_run_def dev_one_def)

lemma length_dev_one [simp]: "length (dev_one E mid k oc res) = length res"
  by (simp add: dev_one_def)

lemma tpu_infer_run:
  assumes E: "fence_on E" and t: "in_time E (t_sub w)" and r: "tp_graph E mid [t_mem w i] = [res]"
  shows "\<exists>w'. tpu_infer E ms mid i oc w = (0, tp_us E (t_sub w), w') \<and> t_hung w' = t_hung w \<and>
    t_sub w' = Suc (t_sub w) \<and> t_mem w' = (t_mem w)(oc := over (dev_one E mid (t_sub w) oc res) (t_mem w oc))"
  using infer_run [OF E t, of ms mid "[i]" "[oc]"] r
  by (simp add: tpu_infer_def done_outs_def dev_run_one)


text \<open>
  Two inferences in flight: when neither writes what the other uses, their order does not matter.
\<close>

lemma mixed_same [simp]: "mixed late bs bs = bs"
  by (simp add: mixed_def map_nth)



section \<open>INFER\<close>

lemma mkbuf_run:
  assumes "\<forall>k. tp_ok E k"
  shows "\<exists>b w'. mkbuf E n w = (Some b, w') \<and> t_sub w' = t_sub w \<and> t_hung w' = t_hung w \<and>
    (\<forall>f. t_mem w' (CFile f) = t_mem w (CFile f))"
proof -
  obtain b w1 where n: "ext_new (tp_ok E) w = (Some b, w1)" using ext_new_ok [OF assms] by blast
  from ext_new_t [OF n] show ?thesis by (simp add: mkbuf_def n)
qed

text \<open>Getting a bounce buffer changes no file.\<close>

definition same_files :: "tworld \<Rightarrow> tworld \<Rightarrow> bool" where
  "same_files w w' \<longleftrightarrow> t_sub w' = t_sub w \<and> t_hung w' = t_hung w \<and>
     (\<forall>f. t_mem w' (CFile f) = t_mem w (CFile f))"

lemma bounce_run:
  assumes "\<forall>k. tp_ok E k"
  shows "\<exists>b tab' w'. bounce_buf E n tab k w = (Some b, tab', w') \<and> same_files w w'"
  using mkbuf_run [OF assms, of n w]
  by (cases "slot_get tab k") (auto simp: bounce_buf_def same_files_def)

lemma get_cib_run:
  assumes "\<forall>k. tp_ok E k"
  shows "\<exists>b w'. get_cib E n k w = (Some b, w') \<and> same_files w w'"
  using bounce_run [OF assms, of n "t_cib w" k w] by (auto simp: get_cib_def same_files_def)

lemma get_cob_run:
  assumes "\<forall>k. tp_ok E k"
  shows "\<exists>b w'. get_cob E n k w = (Some b, w') \<and> same_files w w'"
  using bounce_run [OF assms, of n "t_cob w" k w] by (auto simp: get_cob_def same_files_def)

text \<open>
  A graph reads the first \<open>n\<close> bytes of its input only, and writes \<open>m\<close> bytes.
\<close>

definition graph_sized :: "tpuenv \<Rightarrow> nat \<Rightarrow> nat \<Rightarrow> nat \<Rightarrow> bool" where
  "graph_sized E mid n m \<longleftrightarrow>
     (\<forall>x. tp_graph E mid [x] = tp_graph E mid [take n x]) \<and>
     (\<forall>x. \<exists>res. tp_graph E mid [x] = [res] \<and> length res = m)"

lemma over_take: "n \<le> length new \<Longrightarrow> take n (over new old) = take n new"
  by (simp add: over_def)

text \<open>
  What INFER leaves in the client's output: without bounce buffers zeros, if the package does that to
  imported buffers.
\<close>

definition zc_result :: "tpuenv \<Rightarrow> nat \<Rightarrow> nat \<Rightarrow> cell \<Rightarrow> byte list \<Rightarrow> byte list" where
  "zc_result E mid k oc res =
     (if tp_bounce E = None \<and> tp_zeros E mid k oc then replicate (length res) 0 else res)"

lemma zc_infer_run:
  assumes E: "fence_on E" and t: "in_time E (t_sub w)"
    and g: "graph_sized E mid (in_size (ms ! mid)) (out_size (ms ! mid))"
    and r: "tp_graph E mid [t_mem w (zb_cell zi)] = [res]"
    and n: "in_size (ms ! mid) \<le> length (t_mem w (zb_cell zi))"
    and own: "\<forall>b. \<not> tp_zeros E mid (t_sub w) (CBuf b)"
  shows "\<exists>w'. zc_infer E ms mid zi zo w = (st0, us_of (tp_us E (t_sub w)), w') \<and> t_hung w' = t_hung w \<and>
    (\<forall>f. t_mem w' (CFile f) =
      ((t_mem w)(zb_cell zo := over (zc_result E mid (t_sub w) (zb_cell zo) res) (t_mem w (zb_cell zo)))) (CFile f))"
proof (cases "tp_bounce E")
  case None
  from tpu_infer_run [OF E t r, of ms "zb_cell zo"] None show ?thesis
    by (auto simp: zc_infer_def zc_result_def dev_one_def)
next
  case (Some bm)
  let ?n = "in_size (ms ! mid)" and ?m = "out_size (ms ! mid)"
  have ok: "\<forall>k. tp_ok E k" using E by (simp add: fence_on_def)
  obtain ib w1 where a: "(if bm \<noteq> 2 then get_cib E ?n mid w else (None, w)) = (ib, w1)" by (metis surj_pair)
  have w1: "same_files w w1" "bm \<noteq> 2 \<longrightarrow> ib \<noteq> None"
    using a get_cib_run [OF ok, of ?n mid w] by (auto simp: same_files_def split: if_splits)
  obtain ob w2 where b: "get_cob E ?m mid w1 = (Some ob, w2)" "same_files w1 w2"
    using get_cob_run [OF ok] by blast
  define ic where "ic = (if bm = 2 then zb_cell zi else CBuf (the ib))"
  define w3 where "w3 = (if bm \<noteq> 2 then copy_cell ic (zb_cell zi) ?n w2 else w2)"
  have w3: "same_files w w3"
    using w1 b by (simp add: w3_def same_files_def copy_cell_def ic_def)
  have fl: "t_mem w2 (zb_cell zi) = t_mem w (zb_cell zi)"
    using w1 b by (simp add: same_files_def zb_cell_def)
  have "take ?n (t_mem w3 ic) = take ?n (t_mem w (zb_cell zi))"
    using fl n by (simp add: w3_def ic_def copy_cell_def over_take)
  with g r have r3: "tp_graph E mid [t_mem w3 ic] = [res]" unfolding graph_sized_def by metis
  have "\<exists>q. tp_graph E mid [t_mem w (zb_cell zi)] = [q] \<and> length q = ?m"
    using g by (simp add: graph_sized_def)
  with r have len: "length res = ?m" by simp
  have t3: "in_time E (t_sub w3)" "t_sub w3 = t_sub w" using w3 t by (simp_all add: same_files_def)
  obtain w4 where i: "tpu_infer E ms mid ic (CBuf ob) w3 = (0, tp_us E (t_sub w), w4)"
    and w4: "t_hung w4 = t_hung w3" "t_mem w4 = (t_mem w3)(CBuf ob := over res (t_mem w3 (CBuf ob)))"
    using tpu_infer_run [OF E t3(1) r3, of ms "CBuf ob"] t3(2) own by (auto simp: dev_one_def)
  have "zc_result E mid (t_sub w) (zb_cell zo) res = res" by (simp add: zc_result_def Some)
  note zr = this
  have z: "zc_infer E ms mid zi zo w =
      (st0, us_of (tp_us E (t_sub w)), copy_cell (zb_cell zo) (CBuf ob) ?m w4)"
    using i w1(2)
    by (auto simp: zc_infer_def Some Let_def a b(1) ic_def w3_def)
  show ?thesis
    unfolding z
    using w3 w4 len zr by (simp add: copy_cell_def same_files_def zb_cell_def over_def)
qed

lemma t_infer_run:
  assumes E: "fence_on E" and t: "in_time E (t_sub (s_w s))" and h: "\<not> t_hung (s_w s)"
    and g: "graph_sized E mid (in_size (ms ! mid)) (out_size (ms ! mid))"
    and mid: "mid < length ms" and ne: "ih \<noteq> oh"
    and zi: "slot_get (s_h s) ih = Some zi" "in_size (ms ! mid) \<le> zb_size zi"
    and zo: "slot_get (s_h s) oh = Some zo" "out_size (ms ! mid) \<le> zb_size zo"
    and r: "tp_graph E mid [t_mem (s_w s) (zb_cell zi)] = [res]"
    and n: "in_size (ms ! mid) \<le> length (t_mem (s_w s) (zb_cell zi))"
    and own: "\<forall>b. \<not> tp_zeros E mid (t_sub (s_w s)) (CBuf b)"
  shows "\<exists>w'. t_infer E ms mid ih oh s =
      s_reply st0 (us_of (tp_us E (t_sub (s_w s)))) (s\<lparr>s_w := w'\<rparr>) \<and> \<not> t_hung w' \<and>
    (\<forall>f. t_mem w' (CFile f) =
       ((t_mem (s_w s))(zb_cell zo := over (zc_result E mid (t_sub (s_w s)) (zb_cell zo) res) (t_mem (s_w s) (zb_cell zo)))) (CFile f))"
proof -
  have a: "infer_args ms (s_h s) mid ih oh = Some (zi, zo)"
    using mid ne zi zo by (simp add: infer_args_def)
  obtain w' where z: "zc_infer E ms mid zi zo (s_w s) = (st0, us_of (tp_us E (t_sub (s_w s))), w')"
    and w': "t_hung w' = t_hung (s_w s)" "\<forall>f. t_mem w' (CFile f) =
       ((t_mem (s_w s))(zb_cell zo := over (zc_result E mid (t_sub (s_w s)) (zb_cell zo) res) (t_mem (s_w s) (zb_cell zo)))) (CFile f)"
    using zc_infer_run [OF E t g r n own, of zo] by blast
  show ?thesis using h w' by (intro exI [of _ w']) (simp add: t_infer_def a z)
qed

section \<open>Properties: conservation and inference\<close>

text \<open>
  The environment of the examples: every call succeeds; a model adds one to its two input bytes; model 1
  fills imported buffers with zeros.
\<close>

definition env0 :: tpuenv where
  "env0 = \<lparr>tp_ok = (\<lambda>k. True), tp_graph = (\<lambda>m ins. [map (\<lambda>i. (if i < length (hd ins) then hd ins ! i else 0) + 1) [0, 1]]),
           tp_zeros = (\<lambda>m k c. case c of CFile f \<Rightarrow> m = 1 | CBuf b \<Rightarrow> False), tp_first = (\<lambda>k. k = 0), tp_late = (\<lambda>k. odd),
           tp_see = (\<lambda>k i j old fin. old), tp_fin = (\<lambda>k i. i = 2), tp_clk = (\<lambda>k i. int i), tp_now = int,
           tp_us = (\<lambda>k. 700), tp_fence = True, tp_wait_us = 0, tp_poll_us = 200, tp_max_wait = 200000,
           tp_idle_ms = 2000, tp_bounce = None, tp_imp = True\<rparr>"

definition model0 :: model where
  "model0 = \<lparr>m_in = [2], m_out = [2]\<rparr>"

definition tw0 :: tworld where
  "tw0 = \<lparr>w_tick = 0, w_live = {#}, w_fds = {#}, w_bad = False, t_mem = (\<lambda>c. [3, 4, 5]), t_sub = 0,
          t_sctr = 0, t_hung = False, t_wl_en = True, t_wl_held = False, t_wl_last = 0, t_wl_log = [],
          t_cib = replicate 256 None, t_cob = replicate 256 None, t_pib = replicate 512 None,
          t_pob = replicate 512 None\<rparr>"

definition tconn0 :: "packet list \<Rightarrow> conn" where
  "tconn0 ps = \<lparr>cq = ps, co = [], croom = 65536\<rparr>"

lemma tw0_simps [simp]:
  "w_live tw0 = {#}" "w_fds tw0 = {#}" "\<not> w_bad tw0" "\<not> t_hung tw0" "bounce_wf tw0" "bounce_objs tw0 = {#}"
  "t_mem tw0 c = [3, 4, 5]" "t_sub tw0 = 0"
  by (simp_all add: tw0_def bounce_wf_def bounce_objs_def slot_sum_replicate)

lemma env0_ends: "waits_end env0"
  unfolding waits_end_def by (auto simp: env0_def intro!: exI [of _ 200001])

lemma env0_simps [simp]: "fence_on env0" "in_time env0 k"
  by (auto simp: env0_def fence_on_def in_time_def)

text \<open>
  C6. A connection to tpud, inline or zero-copy and whatever its bytes are, comes to an end when the
  waits do, and gives everything back under any pattern of library failures: descriptors are as
  before, and of library objects only bounce buffers remain, which belong to the process.
\<close>

theorem tpud_conserves:
  assumes waits: "waits_end E" and models: "length ms \<le> MAXMODELS"
    and wf: "bounce_wf w" "bounce_objs w \<subseteq># w_live w" "\<not> w_bad w" "\<not> t_hung w"
  shows "case handle_conn E ms c w of (c', w') \<Rightarrow>
    w_live w' + bounce_objs w = w_live w + bounce_objs w' \<and> w_fds w' = w_fds w \<and> \<not> w_bad w' \<and>
    bounce_wf w' \<and> \<not> t_hung w'"
proof -
  obtain L where L: "w_live w = L + bounce_objs w"
    using wf by (auto simp: mset_subset_eq_exists_conv ac_simps)
  obtain c' w' where h: "handle_conn E ms c w = (c', w')" by (metis surj_pair)
  have "tw_ok L (w_fds w) w" using L wf by (simp add: tw_ok_def)
  from handle_conn_ok [OF h this] models waits have "tw_ok L (w_fds w) w'"
    by (simp add: live_or_hung_def MAXMODELS_def)
  with h L show ?thesis by (simp add: tw_ok_def ac_simps)
qed

theorem tpud_conserves_witness:
  "case handle_conn (env0\<lparr>tp_ok := (\<lambda>k. k mod 3 \<noteq> 2)\<rparr>) [model0]
     (tconn0 [(put32s [TPZ2], [7]), (put32s [1, 1, 0, 0, 0, 4096], [])]) tw0 of (c', w') \<Rightarrow>
     w_live w' + bounce_objs tw0 = w_live tw0 + bounce_objs w' \<and> w_fds w' = w_fds tw0 \<and> \<not> w_bad w' \<and>
     bounce_wf w' \<and> \<not> t_hung w'"
  by (rule tpud_conserves)
    (use env0_ends in \<open>simp_all add: waits_end_def env0_def MAXMODELS_def\<close>)

text \<open>
  C7. INFER on two imported buffers large enough for the model. Assumed: every library call succeeds,
  the fence path is on and the submission completes before the limit; the graph has one input and one
  output of the model's sizes; and the package writes its result into buffers of the library's own,
  which the comments of tpud.c state, while imported buffers may be filled with zeros instead. Then the
  reply is status 0 with the time, no other client buffer changes, and the output buffer holds the
  result of the graph on the input buffer: with bounce buffers (modes 1 and 2) for every such package,
  without them unless the package fills this imported buffer with zeros, and then it holds zeros under
  the same status 0.
\<close>

theorem tpud_infer_correct:
  assumes E: "fence_on E" and t: "in_time E (t_sub (s_w s))" and h: "\<not> t_hung (s_w s)"
    and g: "graph_sized E mid (in_size (ms ! mid)) (out_size (ms ! mid))"
    and mid: "mid < length ms" and ne: "ih \<noteq> oh"
    and zi: "slot_get (s_h s) ih = Some zi" "in_size (ms ! mid) \<le> zb_size zi"
    and zo: "slot_get (s_h s) oh = Some zo" "out_size (ms ! mid) \<le> zb_size zo"
    and n: "in_size (ms ! mid) \<le> length (t_mem (s_w s) (zb_cell zi))"
    and own: "\<forall>b. \<not> tp_zeros E mid (t_sub (s_w s)) (CBuf b)"
    and room: "8 \<le> croom (s_c s)"
  shows "let s' = t_infer E ms mid ih oh s; m = t_mem (s_w s);
             res = hd (tp_graph E mid [m (zb_cell zi)]); k = t_sub (s_w s);
             out = (if tp_bounce E = None \<and> tp_zeros E mid k (zb_cell zo) then replicate (length res) 0 else res) in
    co (s_c s') = co (s_c s) @ put32s [0, us_of (tp_us E (t_sub (s_w s)))] \<and> s_h s' = s_h s \<and>
    (\<forall>f. t_mem (s_w s') (CFile f) = (m(zb_cell zo := over out (m (zb_cell zo)))) (CFile f))"
proof -
  obtain res where r: "tp_graph E mid [t_mem (s_w s) (zb_cell zi)] = [res]"
    using g by (auto simp: graph_sized_def)
  obtain w' where i: "t_infer E ms mid ih oh s =
      s_reply st0 (us_of (tp_us E (t_sub (s_w s)))) (s\<lparr>s_w := w'\<rparr>)" "\<not> t_hung w'"
    and m: "\<forall>f. t_mem w' (CFile f) =
       ((t_mem (s_w s))(zb_cell zo := over (zc_result E mid (t_sub (s_w s)) (zb_cell zo) res) (t_mem (s_w s) (zb_cell zo)))) (CFile f)"
    using t_infer_run [OF E t h g mid ne zi zo r n own] by blast
  have "co (put (le32 u) (put st0 c)) = co c @ put32s [0, u]" if "8 \<le> croom c" for u c
    using that put_room [of st0 c] put_room [of "le32 u" "put st0 c"] by (simp add: st0_def)
  with room m show ?thesis by (auto simp: i r s_reply_def zc_result_def Let_def)
qed

definition tsess0 :: tsess where
  "tsess0 = \<lparr>s_c = tconn0 [], s_h = [Some \<lparr>zb_buf = 1, zb_map = 2, zb_size = 2, zb_fd = (1, 10)\<rparr>,
     Some \<lparr>zb_buf = 3, zb_map = 4, zb_size = 3, zb_fd = (2, 11)\<rparr>], s_w = tw0\<rparr>"

text \<open>Model 1 fills imported buffers with zeros: right with bounce buffers, zeros without.\<close>

lemma env0_sized: "mid < 2 \<Longrightarrow> graph_sized (env0\<lparr>tp_bounce := b\<rparr>) mid (in_size ([model0, model0] ! mid)) (out_size ([model0, model0] ! mid))"
  by (cases mid) (auto simp: graph_sized_def env0_def model0_def in_size_def out_size_def at0_def)

theorem tpud_infer_correct_witness:
  "\<forall>b. let s' = t_infer (env0\<lparr>tp_bounce := b\<rparr>) [model0, model0] 1 0 1 tsess0 in
     co (s_c s') = co (s_c tsess0) @ put32s [0, 700] \<and>
     t_mem (s_w s') (CFile 11) = (if b = None then [0, 0, 5] else [4, 5, 5])"
proof
  fix b
  let ?E = "env0\<lparr>tp_bounce := b\<rparr>"
  have c: "fence_on ?E" "in_time ?E k" for k by (auto simp: fence_on_def in_time_def env0_def)
  have z: "slot_get (s_h tsess0) 0 = Some \<lparr>zb_buf = 1, zb_map = 2, zb_size = 2, zb_fd = (1, 10)\<rparr>"
    "slot_get (s_h tsess0) 1 = Some \<lparr>zb_buf = 3, zb_map = 4, zb_size = 3, zb_fd = (2, 11)\<rparr>"
    by (simp_all add: tsess0_def slot_get_def)
  have e: "tp_us env0 k = 700" "tp_zeros env0 (Suc 0) k (CFile f)" "\<not> tp_zeros env0 (Suc 0) k (CBuf x)"
    "tp_graph env0 (Suc 0) [[3, 4, 5]] = [[4, 5]]" for k f x
    by (simp_all add: env0_def)
  have n: "s_w tsess0 = tw0" "8 \<le> croom (s_c tsess0)" "us_of 700 = 700"
    by (simp_all add: tsess0_def tconn0_def us_of_def)
  have sz: "in_size model0 = 2" "out_size model0 = 2"
    by (simp_all add: model0_def in_size_def out_size_def at0_def)
  show "let s' = t_infer ?E [model0, model0] 1 0 1 tsess0 in
      co (s_c s') = co (s_c tsess0) @ put32s [0, 700] \<and>
      t_mem (s_w s') (CFile 11) = (if b = None then [0, 0, 5] else [4, 5, 5])"
    using tpud_infer_correct [OF c(1) c(2) _ env0_sized [of 1 b] _ _ z(1) _ z(2)]
    by (simp add: n sz e zb_cell_def over_def Let_def)
qed



text \<open>
  Where the second request reads what the first one writes, its answer depends on the accelerator: with
  a byte of the second read before and one after the first result, it is neither of the two answers.
\<close>

lemma pair_race:
  "case infer_two env0 [model0] 0 (CFile 10) (CFile 11) (CFile 11) (CFile 12) tw0 of (rc, us, w') \<Rightarrow>
     rc = 0 \<and> take 2 (t_mem w' (CFile 12)) = [4, 6]"
proof -
  have "fence_loop (tp_fin env0 k) (tp_clk env0 k) (tp_max_wait env0) 0 = Some True" for k
    by (rule in_time_done) simp
  then show ?thesis
    by (simp add: infer_two_def env0_def tw0_def tpu_infer_pair_def wl_touch_def wl_write_def ext_try_def ext_new_def
      pair_results_def dev_run_def mixed_def done_outs_def over_def fence_wait_def bump_sub_def pair_last_def ext_free_def Let_def)
qed

section \<open>Properties: the stability poll\<close>

text \<open>
  C9. The sentinel and stability poll. With a positive interval it ends after at most two looks per
  interval; when it says that the output is stable, the last two looks saw the same bytes and the
  sentinel had been overwritten at some sampled position before.
\<close>

theorem poll_loop_correct:
  assumes "0 < poll"
  shows "\<exists>b n. poll_loop maxw poll osz sv obs 0 0 0 False fp = Some (b, n) \<and>
    n \<le> 2 * nat ((maxw + poll - 1) div poll) \<and>
    (b \<longrightarrow> 0 < n \<and> take osz (obs (n - 1)) = take osz (obs n) \<and>
       (\<exists>k<n. \<exists>x\<in>set (samples osz (obs k)). x \<noteq> sv))"
proof -
  obtain b n where p: "poll_loop maxw poll osz sv obs 0 0 0 False fp = Some (b, n)"
    using poll_loop_returns [OF assms, of maxw osz sv obs 0 0 0 False fp] by auto
  have "b \<Longrightarrow> 0 < n \<and> take osz (obs (n - 1)) = take osz (obs n) \<and>
      (\<exists>k<n. \<exists>x\<in>set (samples osz (obs k)). x \<noteq> sv)"
    using poll_loop_stable [of maxw poll osz sv obs 0 0 0 False fp n] p by auto
  with p poll_loop_bounded [OF assms p] show ?thesis by auto
qed

theorem poll_loop_correct_witness:
  "\<exists>b n. poll_loop 1000 200 2 7 (\<lambda>i. if i < 2 then [7, 7] else [1, 2]) 0 0 0 False 0 = Some (b, n) \<and>
    n \<le> 2 * nat ((1000 + 200 - 1) div 200) \<and>
    (b \<longrightarrow> 0 < n \<and> take 2 ((\<lambda>i. if i < 2 then [7, 7] else [1, 2]) (n - 1)) =
       take 2 ((\<lambda>i. if i < 2 then [7, 7] else [1, 2 :: byte]) n) \<and>
       (\<exists>k<n. \<exists>x\<in>set (samples 2 ((\<lambda>i. if i < 2 then [7, 7] else [1, 2]) k)). x \<noteq> 7))"
  by (rule poll_loop_correct) simp

text \<open>
  With an interval of zero or less the time waited never grows, and a device that leaves the
  sentinel in place keeps the daemon in the loop for ever.
\<close>

theorem poll_never_ends:
  assumes "poll \<le> 0" and "0 < maxw" and "\<forall>i. \<forall>b\<in>set (samples osz (obs i)). b = sv"
  shows "poll_loop maxw poll osz sv obs 0 0 0 False fp = None"
  using poll_loop_diverges [OF assms] .

lemma samples_replicate: "b \<in> set (samples n (replicate n x)) \<Longrightarrow> b = x"
  by (auto simp: samples_def)

theorem poll_never_ends_witness:
  "poll_loop 200000 0 4 9 (\<lambda>i. replicate 4 9) 0 0 0 False 5 = None"
  by (rule poll_never_ends) (use samples_replicate [of _ 4] in auto)

text \<open>
  On the poll path the limit is no error: a device that writes nothing is reported with return
  value 0 (a reply of status 0), and the client finds the sentinel bytes in its output.
\<close>

lemma poll_unstarted:
  assumes "0 < poll" and sent: "\<forall>i. \<forall>b\<in>set (samples osz (obs i)). b = sv"
  shows "\<exists>n. poll_loop maxw poll osz sv obs 0 0 0 False fp = Some (False, n)"
proof -
  obtain b n where p: "poll_loop maxw poll osz sv obs 0 0 0 False fp = Some (b, n)"
    using poll_loop_returns [OF assms(1), of maxw osz sv obs 0 0 0 False fp] by auto
  with poll_loop_stable [of maxw poll osz sv obs 0 0 0 False fp n] sent show ?thesis by (cases b) auto
qed

lemma samples_over: "b \<in> set (samples n (over (replicate n x) old)) \<Longrightarrow> b = x"
  by (auto simp: samples_def over_def nth_append)

theorem poll_timeout_is_success:
  assumes E: "\<forall>k. tp_ok E k" "tp_wait_us E \<le> 0" "\<not> tp_fence E" "0 < tp_poll_us E"
    and dead: "\<And>i j old fin. tp_see E (t_sub w) i j old fin = old"
    and size: "m_out (ms ! mid) = [n]"
  shows "case tpu_infer E ms mid ic oc w of (rc, us, w') \<Rightarrow>
    rc = 0 \<and> t_hung w' = t_hung w \<and>
    t_mem w' oc = over (replicate n (of_nat (next_sentinel (t_sctr w)))) (t_mem w oc)"
proof -
  define w0 where "w0 = set_sentinel n oc (wl_touch E w)"
  let ?sv = "next_sentinel (t_sctr w)"
  have s: "t_sctr w0 = ?sv" "t_hung w0 = t_hung w" "t_sub w0 = t_sub w"
    "t_mem w0 oc = over (replicate n (of_nat ?sv)) (t_mem w oc)"
    using wl_touch_t [of w E] wl_touch_sub [of E w] by (simp_all add: w0_def set_sentinel_def)
  obtain req w1 where n1: "ext_new (tp_ok E) w0 = (Some req, w1)" using ext_new_ok [OF E(1)] by blast
  note N = ext_new_t [OF n1]
  have "t_sctr w1 = t_sctr w0" using N by simp
  define obs where "obs = (\<lambda>i::nat. t_mem w1 oc)"
  have obs: "(\<lambda>i. see_outs E (t_sub w1) i fin 0 (t_mem w1 oc)) = obs" for fin
    using dead s N by (simp add: see_outs_def obs_def)
  have obs0: "see_outs E (t_sub w1) 0 fin 0 (t_mem w1 oc) = obs 0" for fin
    using obs [of fin] by (rule fun_cong)
  have "\<forall>i. \<forall>b\<in>set (samples n (obs i)). b = of_nat ?sv"
    using samples_over N s by (auto simp: obs_def)
  from poll_unstarted [OF E(4) this] obtain i where
    p: "poll_loop (tp_max_wait E) (tp_poll_us E) n (of_nat ?sv) obs 0 0 0 False (mkfp n (obs 0)) = Some (False, i)"
    by blast
  have "infer_poll E ms mid [ic] [oc] (wl_touch E w) = (0, tp_us E (t_sub w1), ext_free req
      ((bump_sub w1)\<lparr>t_mem := store_outs (see_outs E (t_sub w1) i (dev_run E mid (t_sub w1) [t_mem w1 ic] [oc])) 0 [oc] (t_mem w1)\<rparr>))"
    by (simp add: infer_poll_def Let_def size at0_def w0_def [symmetric] n1 s obs obs0 p)
  then show ?thesis
    using E N s dead
    by (simp add: tpu_infer_def tpu_infer_multi_def Let_def see_outs_def)
qed

theorem poll_timeout_is_success_witness:
  "case tpu_infer (env0\<lparr>tp_fence := False\<rparr>) [model0] 0 (CFile 10) (CFile 11) tw0 of (rc, us, w') \<Rightarrow>
     rc = 0 \<and> t_hung w' = t_hung tw0 \<and>
     t_mem w' (CFile 11) = over (replicate 2 (of_nat (next_sentinel (t_sctr tw0)))) (t_mem tw0 (CFile 11))"
  by (rule poll_timeout_is_success) (simp_all add: env0_def model0_def)

section \<open>Properties: models and warm-up\<close>

lemma load_models_inv:
  "load_models ps (ms, cap) = Some (ms', cap') \<Longrightarrow> length ms \<le> MAXMODELS \<Longrightarrow>
     \<forall>M\<in>set ms. at0 (m_out M) 0 \<le> cap \<and> length (m_in M) \<le> MAXIO \<and> length (m_out M) \<le> MAXIO \<Longrightarrow>
     length ms' = length ms + length ps \<and> length ms' \<le> MAXMODELS \<and> take (length ms) ms' = ms \<and> cap \<le> cap' \<and>
     (\<forall>M\<in>set ms'. at0 (m_out M) 0 \<le> cap' \<and> length (m_in M) \<le> MAXIO \<and> length (m_out M) \<le> MAXIO)"
proof (induction ps arbitrary: ms cap)
  case Nil
  then show ?case by simp
next
  case (Cons p ps)
  obtain r ms1 cap1 where l: "load_model p (ms, cap) = (r, ms1, cap1)" by (metis surj_pair)
  with Cons.prems have r: "\<not> r < 0" and rec: "load_models ps (ms1, cap1) = Some (ms', cap')"
    by (auto split: if_splits)
  obtain "is" os where p: "p = Some (is, os)" and room: "length ms < MAXMODELS"
    using l r by (cases p) (auto simp: load_model_def split: if_splits)
  have n: "ms1 = ms @ [\<lparr>m_in = take MAXIO is, m_out = take MAXIO os\<rparr>]"
    "cap1 = max cap (at0 (take MAXIO os) 0)"
    using l p room by (auto simp: load_model_def Let_def split: if_splits)
  have "length ms' = length ms1 + length ps \<and> length ms' \<le> MAXMODELS \<and> take (length ms1) ms' = ms1 \<and>
      cap1 \<le> cap' \<and>
      (\<forall>M\<in>set ms'. at0 (m_out M) 0 \<le> cap' \<and> length (m_in M) \<le> MAXIO \<and> length (m_out M) \<le> MAXIO)"
    using Cons.prems(3) room n by (intro Cons.IH [OF rec]) (auto simp: le_max_iff_disj)
  moreover from this have "take (length ms) ms' = ms"
    using arg_cong [of "take (length ms1) ms'" _ "take (length ms)"] n by simp
  ultimately show ?case using n by simp
qed

text \<open>
  The model table after start-up: every model of the command line has the index of its
  position, at most 224 are there, none has more than 8 inputs or outputs, and the comparison
  buffer of the stability poll is large enough for the first output of each.
\<close>

theorem load_models_correct:
  assumes "load_models ps ([], cap) = Some (ms, cap')"
  shows "length ms = length ps \<and> length ms \<le> MAXMODELS \<and>
    list_all (\<lambda>M. at0 (m_out M) 0 \<le> cap' \<and> length (m_in M) \<le> MAXIO \<and> length (m_out M) \<le> MAXIO) ms"
  using load_models_inv [OF assms] by (simp add: list_all_iff)

theorem load_models_correct_witness:
  "length [model0, model0] = length [Some ([2 :: nat], [2 :: nat]), Some ([2], [2])] \<and> length [model0, model0] \<le> MAXMODELS \<and>
    list_all (\<lambda>M. at0 (m_out M) 0 \<le> 2 \<and> length (m_in M) \<le> MAXIO \<and> length (m_out M) \<le> MAXIO) [model0, model0]"
  by (rule load_models_correct [where ps = "[Some ([2], [2]), Some ([2], [2])]" and cap = 0])
    (simp add: load_model_def MAXMODELS_def MAXIO_def at0_def model0_def Let_def)

lemma mkbufs_acct:
  "mkbufs E ns w = (bs, w') \<Longrightarrow>
     length bs = length ns \<and>
     w_live w' = w_live w + mset (concat (map (\<lambda>b. case b of None \<Rightarrow> [] | Some x \<Rightarrow> [x]) bs)) \<and>
     w_fds w' = w_fds w \<and> w_bad w' = w_bad w"
proof (induction ns arbitrary: w bs w')
  case Nil
  then show ?case by simp
next
  case (Cons n ns)
  obtain b w1 where m: "mkbuf E n w = (b, w1)" by (metis surj_pair)
  obtain cs w2 where r: "mkbufs E ns w1 = (cs, w2)" by (metis surj_pair)
  from Cons.IH [OF r] mkbuf_t [OF m] Cons.prems m r show ?case
    by (cases b) (auto simp: ac_simps)
qed

lemma all_some: "None \<notin> set bs \<Longrightarrow> concat (map (\<lambda>b. case b of None \<Rightarrow> [] | Some x \<Rightarrow> [x]) bs) = map the bs"
proof (induction bs)
  case (Cons b bs)
  then show ?case by (cases b) auto
qed simp

lemma free_objs_acct:
  "w_live w = L + mset xs \<Longrightarrow>
     w_live (free_objs xs w) = L \<and> w_fds (free_objs xs w) = w_fds w \<and> w_bad (free_objs xs w) = w_bad w"
proof (induction xs arbitrary: w)
  case Nil
  then show ?case by simp
next
  case (Cons x xs)
  then have "w_live (ext_free x w) = L + mset xs" by (simp add: acct_simps)
  from Cons.IH [OF this] Cons.prems show ?case by (simp add: acct_simps)
qed

lemma warm_submit_res: "same_res w (warm_submit E mid ins outs w)"
proof -
  obtain x w1 where n: "ext_new (tp_ok E) w = (x, w1)" by (metis surj_pair)
  from ext_new_t [OF n] show ?thesis
    by (cases x) (simp_all add: warm_submit_def n Let_def same_res_def acct_simps)
qed

lemma warm_rounds_res:
  "warm_rounds E mid osz ins outs cmp it stab prev w = (it', stab', w') \<Longrightarrow> it \<le> 12 \<Longrightarrow>
     same_res w w' \<and> it \<le> it' \<and> it' \<le> 12 \<and> (it' < 12 \<longrightarrow> 2 \<le> stab') \<and> (\<not> cmp \<longrightarrow> stab < 2 \<longrightarrow> stab' < 2)"
proof (induction E mid osz ins outs cmp it stab prev w rule: warm_rounds.induct)
  case (1 E mid osz ins outs cmp it stab prev w)
  show ?case
  proof (cases "it < 12 \<and> stab < 2")
    case False
    with 1 show ?thesis by (auto simp: warm_rounds.simps [of E] same_res_def)
  next
    case True
    with 1(2) have "warm_rounds E mid osz ins outs cmp (Suc it)
        (if 0 < it \<and> cmp \<and> prev = take osz (t_mem (warm_submit E mid ins outs w) (hd outs)) then Suc stab else 0)
        (take osz (t_mem (warm_submit E mid ins outs w) (hd outs))) (warm_submit E mid ins outs w) = (it', stab', w')"
      by (simp add: warm_rounds.simps [of _ _ _ _ _ _ it] Let_def)
    from 1(1) [OF True refl refl this] True warm_submit_res [of w E mid ins outs] show ?thesis
      by (auto simp: same_res_def split: if_splits)
  qed
qed

text \<open>
  The warm-up of a model takes at most 12 runs and stops before only when the output was
  stable; then every buffer and request is freed again. When a buffer is missing it gives up and
  leaves the other buffers allocated (their number is that of the successful allocations).
\<close>

theorem warmup_correct:
  "case warmup E mid M w of
     (Some (it, stab), w') \<Rightarrow> same_res w w' \<and> it \<le> 12 \<and> (it < 12 \<longrightarrow> 2 \<le> stab)
   | (None, w') \<Rightarrow>
       (\<exists>bs :: nat option list. length bs = length (m_in M) + length (m_out M) \<and> None \<in> set bs \<and>
          size (w_live w') = size (w_live w) + length (filter (\<lambda>b. b \<noteq> None) bs))"
proof -
  obtain ib w1 where a: "mkbufs E (m_in M) w = (ib, w1)" by (metis surj_pair)
  define w1' where "w1' = w1\<lparr>t_mem := fold (\<lambda>(b, n) m. case b of None \<Rightarrow> m
      | Some x \<Rightarrow> m(CBuf x := replicate n 0x5A)) (zip ib (m_in M)) (t_mem w1)\<rparr>"
  obtain ob w2 where b: "mkbufs E (m_out M) w1' = (ob, w2)" by (metis surj_pair)
  note A = mkbufs_acct [OF a] and B = mkbufs_acct [OF b]
  have w1': "w_live w1' = w_live w1" "w_fds w1' = w_fds w1" "w_bad w1' = w_bad w1" by (simp_all add: w1'_def)
  have cnt: "length (concat (map (\<lambda>b. case b of None \<Rightarrow> [] | Some x \<Rightarrow> [x]) bs)) =
      length (filter (\<lambda>b. b \<noteq> None) bs)" for bs :: "nat option list"
    by (induction bs) auto
  show ?thesis
  proof (cases "None \<in> set ib \<or> None \<in> set ob")
    case True
    then have u: "warmup E mid M w = (None, w2)"
      by (simp add: warmup_def a w1'_def [symmetric] b)
    have "size (w_live w2) = size (w_live w) + length (filter (\<lambda>b. b \<noteq> None) (ib @ ob))"
      using A B w1' cnt [of ib] cnt [of ob] by (simp del: not_None_eq)
    moreover have "length (ib @ ob) = length (m_in M) + length (m_out M)" using A B by simp
    moreover have "None \<in> set (ib @ ob)" using True by simp
    ultimately show ?thesis unfolding u prod.case option.case by blast
  next
    case False
    obtain cmp w3 where t: "ext_try (tp_ok E) w2 = (cmp, w3)" by (metis surj_pair)
    obtain it stab w4 where r: "warm_rounds E mid (at0 (m_out M) 0) (map (CBuf \<circ> the) ib)
        (map (CBuf \<circ> the) ob) cmp 0 0 [] w3 = (it, stab, w4)" by (metis surj_pair)
    note R = warm_rounds_res [OF r]
    have "warmup E mid M w = (Some (it, stab), free_objs (map the ob) (free_objs (map the ib) w4))"
      using False by (simp add: warmup_def a w1'_def [symmetric] b t r)
    moreover have "w_live w4 = (w_live w + mset (map the ob)) + mset (map the ib)"
      using A B w1' R ext_try_t [OF t] False by (simp add: all_some same_res_def ac_simps)
    note F = free_objs_acct [OF this]
    moreover note free_objs_acct [of "free_objs (map the ib) w4" "w_live w" "map the ob"]
    ultimately show ?thesis
      using R A B w1' ext_try_t [OF t] by (simp add: same_res_def)
  qed
qed

theorem warmup_correct_witness:
  "case warmup env0 0 model0 tw0 of
     (Some (it, stab), w') \<Rightarrow> same_res tw0 w' \<and> it \<le> 12 \<and> (it < 12 \<longrightarrow> 2 \<le> stab)
   | (None, w') \<Rightarrow>
       (\<exists>bs :: nat option list. length bs = length (m_in model0) + length (m_out model0) \<and> None \<in> set bs \<and>
          size (w_live w') = size (w_live tw0) + length (filter (\<lambda>b. b \<noteq> None) bs))"
  by (rule warmup_correct)

section \<open>Properties: the wakelock\<close>

text \<open>
  The life of the wakelock as a transition system: requests touch it, the idle thread looks at it,
  a signal releases it; between these steps other fields of the process may change freely.
\<close>

definition wl_state :: "tworld \<Rightarrow> bool \<times> bool \<times> bool list" where
  "wl_state w = (t_wl_en w, t_wl_held w, t_wl_log w)"

inductive wl_run :: "tpuenv \<Rightarrow> tworld \<Rightarrow> tworld \<Rightarrow> bool" for E w where
  wl_start: "wl_run E w w"
| wl_request: "wl_run E w u \<Longrightarrow> wl_run E w (wl_touch E u)"
| wl_idler: "wl_run E w u \<Longrightarrow> wl_run E w (wl_idle E u)"
| wl_signal: "wl_run E w u \<Longrightarrow> wl_run E w (wl_release E u)"
| wl_other: "wl_run E w u \<Longrightarrow> wl_state v = wl_state u \<Longrightarrow> wl_run E w v"

inductive_cases wl_run_lastE: "wl_run E w u"

definition wl_ok :: "bool \<times> bool \<times> bool list \<Rightarrow> bool" where
  "wl_ok s = (case s of (en, held, log) \<Rightarrow>
     en \<longrightarrow> log = map even [0..<length log] \<and> held = odd (length log))"

lemma wl_write_state:
  "wl_state (wl_write E v w) = (t_wl_en w, t_wl_held w, t_wl_log w @ [v]) \<or>
   wl_state (wl_write E v w) = (False, t_wl_held w, t_wl_log w)"
proof -
  obtain r w1 where t: "ext_try (tp_ok E) w = (r, w1)" by (metis surj_pair)
  have "world.more w1 = world.more w" using ext_try_acct [OF t] by blast
  then have "t_wl_en w1 = t_wl_en w" "t_wl_held w1 = t_wl_held w" "t_wl_log w1 = t_wl_log w"
    by (cases w; cases w1; simp)+
  then show ?thesis by (cases r) (simp_all add: wl_write_def t wl_state_def)
qed

lemma wl_ok_switch:
  assumes "wl_ok (wl_state w)" and "t_wl_en w \<longrightarrow> t_wl_held w \<noteq> v"
  shows "wl_ok (wl_state ((wl_write E v w)\<lparr>t_wl_held := v\<rparr>))"
proof -
  have s: "wl_state (u\<lparr>t_wl_held := v\<rparr>) = (fst (wl_state u), v, snd (snd (wl_state u)))" for u
    by (simp add: wl_state_def)
  show ?thesis
    using wl_write_state [of E v w] assms unfolding s
    by (elim disjE) (auto simp: wl_ok_def wl_state_def)
qed

lemma wl_ok_touch: "wl_ok (wl_state w) \<Longrightarrow> wl_ok (wl_state (wl_touch E w))"
proof -
  assume "wl_ok (wl_state w)"
  then have ok: "wl_ok (wl_state (w\<lparr>t_wl_last := t\<rparr>))" for t by (simp add: wl_state_def)
  show ?thesis using ok wl_ok_switch [OF ok, where v = True] by (simp add: wl_touch_def Let_def)
qed

lemma wl_ok_release: "wl_ok (wl_state w) \<Longrightarrow> wl_ok (wl_state (wl_release E w))"
  using wl_ok_switch [of w False E] by (simp add: wl_release_def)

text \<open>
  As long as the kernel file could be written, what tpud wrote there alternates, starting with
  "1", and the last value is the state the daemon believes in: no double acquire and no double
  release, whatever requests, idle rounds and signals come in whatever order.
\<close>

theorem wakelock_alternates:
  assumes run: "wl_run E w u" and init: "t_wl_log w = []" "\<not> t_wl_held w" and en: "t_wl_en u"
  shows "t_wl_log u = map even [0..<length (t_wl_log u)] \<and> t_wl_held u = odd (length (t_wl_log u))"
proof -
  have "wl_ok (wl_state u)"
    using run
    by (induction rule: wl_run.induct)
      (auto simp: wl_ok_touch wl_ok_release wl_idle_def, simp add: init wl_state_def wl_ok_def)
  with en show ?thesis by (simp add: wl_ok_def wl_state_def)
qed

theorem wakelock_alternates_witness:
  "let u = wl_release env0 (wl_idle env0 (wl_touch env0 (wl_touch env0 tw0))) in
   t_wl_log u = map even [0..<length (t_wl_log u)] \<and> t_wl_held u = odd (length (t_wl_log u))"
  unfolding Let_def
proof (rule wakelock_alternates [where E = env0 and w = tw0])
  show "wl_run env0 tw0 (wl_release env0 (wl_idle env0 (wl_touch env0 (wl_touch env0 tw0))))"
    by (intro wl_run.intros)
qed (simp_all add: tw0_def env0_def wl_touch_def wl_write_def wl_idle_def wl_release_def ext_try_def Let_def)

end
