(* ===== verification/Client_Base.thy ===== *)
theory Client_Base
  imports Sys
begin

text \<open>
  The client library src/src/barra/barra.c, first part: sockets, the one-shot calls to the three
  daemons, CPU operations, \<open>barra_run\<close> and \<open>barra_pipeline\<close>. What a daemon answers is the input
  of the socket, an arbitrary byte string; the peer takes \<open>k_room\<close> more bytes before it is gone.
\<close>

section \<open>Sockets\<close>

record csock =
  k_in :: "byte list"
  k_out :: "packet list"
  k_room :: nat

definition c_rn :: "nat \<Rightarrow> csock \<Rightarrow> byte list option \<times> csock" where
  "c_rn n k =
     (if n \<le> length (k_in k) then (Some (take n (k_in k)), k\<lparr>k_in := drop n (k_in k)\<rparr>)
      else (None, k\<lparr>k_in := []\<rparr>))"

definition c_wn :: "byte list \<Rightarrow> csock \<Rightarrow> unit option \<times> csock" where
  "c_wn bs k =
     (if bs = [] then (Some (), k)
      else if length bs \<le> k_room k
      then (Some (), k\<lparr>k_out := k_out k @ [(bs, [])], k_room := k_room k - length bs\<rparr>)
      else (None, k\<lparr>k_out := k_out k @ [(take (k_room k) bs, [])], k_room := 0\<rparr>))"

text \<open>
  \<open>send_hdr_fds\<close>: six words and the descriptors in one \<open>sendmsg\<close>; a descriptor that is not open
  (\<open>fd = -1\<close>, here \<open>None\<close>) makes the whole call fail with EBADF.
\<close>

definition send_hdr_fds :: "nat list \<Rightarrow> nat option list \<Rightarrow> csock \<Rightarrow> unit option \<times> csock" where
  "send_hdr_fds hdr fds k =
     (if None \<in> set fds then (None, k)
      else if 24 \<le> k_room k
      then (Some (), k\<lparr>k_out := k_out k @ [(put32s hdr, map the fds)], k_room := k_room k - 24\<rparr>)
      else if k_room k = 0 then (None, k)
      else (None, k\<lparr>k_out := k_out k @ [(take (k_room k) (put32s hdr), map the fds)], k_room := 0\<rparr>))"

definition and_then ::
  "('s \<Rightarrow> 'a option \<times> 's) \<Rightarrow> ('a \<Rightarrow> 's \<Rightarrow> 'b option \<times> 's) \<Rightarrow> 's \<Rightarrow> 'b option \<times> 's" where
  "and_then f g s = (case f s of (None, s1) \<Rightarrow> (None, s1) | (Some x, s1) \<Rightarrow> g x s1)"

fun wn_all :: "byte list list \<Rightarrow> csock \<Rightarrow> unit option \<times> csock" where
  "wn_all [] k = (Some (), k)"
| "wn_all (bs # r) k = and_then (c_wn bs) (\<lambda>_. wn_all r) k"

text \<open>\<open>send_hdr_fds(..) || wn(..) || .. || rn(s,&r,n)\<close>: header, payload, answer of \<open>n\<close> bytes.\<close>

definition c_req ::
  "nat list \<Rightarrow> nat option list \<Rightarrow> byte list list \<Rightarrow> nat \<Rightarrow> csock \<Rightarrow> byte list option \<times> csock" where
  "c_req hdr fds pay n =
     and_then (send_hdr_fds hdr fds) (\<lambda>_. and_then (wn_all pay) (\<lambda>_. c_rn n))"

section \<open>Connecting\<close>

definition sock_dir :: "byte list option \<Rightarrow> byte list" where
  "sock_dir env =
     (case env of Some d \<Rightarrow> if d = [] then str ''/opt/hwbridge'' else d
      | None \<Rightarrow> str ''/opt/hwbridge'')"

text \<open>
  The world of the client: the socket directory, what answers at a path at the \<open>n\<close>-th call, and
  what was written to the connections that have been closed.
\<close>

record cworld =
  cw_env :: "byte list option"
  cw_net :: "nat \<Rightarrow> byte list \<Rightarrow> csock option"
  cw_n :: nat
  cw_done :: "packet list list"

definition sock_path :: "cworld \<Rightarrow> byte list \<Rightarrow> byte list" where
  "sock_path w name = sock_dir (cw_env w) @ str ''/'' @ name"

definition dial :: "byte list \<Rightarrow> cworld \<Rightarrow> csock option \<times> cworld" where
  "dial name w =
     (let w1 = w\<lparr>cw_n := Suc (cw_n w)\<rparr> in
      if 108 \<le> length (sock_path w name) then (None, w1)
      else (cw_net w (cw_n w) (sock_path w name), w1))"

definition hang_up :: "csock \<Rightarrow> cworld \<Rightarrow> cworld" where
  "hang_up k w = w\<lparr>cw_done := cw_done w @ [k_out k]\<rparr>"

section \<open>One operation on one device\<close>

datatype device = BCPU | BTPU | BGPU | BDSP

record bop =
  op_dev :: device
  op_cpu :: "(byte list \<Rightarrow> nat \<Rightarrow> byte list) option"
  op_func :: "byte list option"
  op_model :: nat
  op_spv :: "byte list option"
  op_gx :: nat
  op_gy :: nat
  op_gz :: nat

definition GXPD_MAGIC :: nat where "GXPD_MAGIC = 0x47585044"
definition TPD2_MAGIC :: nat where "TPD2_MAGIC = 0x54504432"
definition GPU1_MAGIC :: nat where "GPU1_MAGIC = 0x47505531"

text \<open>
  Results are \<open>int\<close>: an answer of \<open>2 ^ 31\<close> bytes or more is a negative result, which every caller
  takes for an error (\<open>None\<close>).
\<close>

definition ret_out :: "byte list \<Rightarrow> byte list option" where
  "ret_out out = (if length out < 2 ^ 31 then Some out else None)"

text \<open>\<open>clamp_read\<close>: \<open>if(osz>cap) osz=cap; rn(s,out,osz)\<close>.\<close>

definition clamp_read :: "nat \<Rightarrow> nat \<Rightarrow> csock \<Rightarrow> byte list option \<times> csock" where
  "clamp_read cap osz = c_rn (min osz cap)"

definition dsp_talk :: "byte list \<Rightarrow> byte list \<Rightarrow> nat \<Rightarrow> csock \<Rightarrow> byte list option \<times> csock" where
  "dsp_talk func inp cap =
     and_then (wn_all [put32s [GXPD_MAGIC, length func, length inp], func, inp]) (\<lambda>_.
     and_then (c_rn 4) (\<lambda>st.
       if le_nat st \<noteq> 0 then (\<lambda>k. (None, k)) else
     and_then (c_rn 8) (\<lambda>rv.
     and_then (c_rn 4) (\<lambda>us.
     and_then (c_rn 4) (\<lambda>osz. clamp_read cap (le_nat osz))))))"

definition run_dsp :: "bop \<Rightarrow> byte list \<Rightarrow> nat \<Rightarrow> cworld \<Rightarrow> byte list option \<times> cworld" where
  "run_dsp op inp cap w =
     (case op_func op of
        None \<Rightarrow> (None, w)
      | Some func \<Rightarrow>
     (case dial (str ''gxp.sock'') w of
        (None, w1) \<Rightarrow> (None, w1)
      | (Some k, w1) \<Rightarrow>
     (case dsp_talk func inp cap k of
        (r, k1) \<Rightarrow> (Option.bind r ret_out, hang_up k1 w1))))"

definition tpu_talk :: "nat \<Rightarrow> byte list \<Rightarrow> nat \<Rightarrow> csock \<Rightarrow> byte list option \<times> csock" where
  "tpu_talk model inp cap =
     and_then (wn_all [put32s [TPD2_MAGIC, model, length inp], inp]) (\<lambda>_.
     and_then (c_rn 4) (\<lambda>st.
       if le_nat st \<noteq> 0 then (\<lambda>k. (None, k)) else
     and_then (c_rn 4) (\<lambda>osz. clamp_read cap (le_nat osz))))"

definition run_tpu :: "bop \<Rightarrow> byte list \<Rightarrow> nat \<Rightarrow> cworld \<Rightarrow> byte list option \<times> cworld" where
  "run_tpu op inp cap w =
     (case dial (str ''tpu.sock'') w of
        (None, w1) \<Rightarrow> (None, w1)
      | (Some k, w1) \<Rightarrow>
     (case tpu_talk (op_model op) inp cap k of
        (r, k1) \<Rightarrow> (Option.bind r ret_out, hang_up k1 w1)))"

definition gpu_talk ::
  "byte list \<Rightarrow> nat \<Rightarrow> nat \<Rightarrow> nat \<Rightarrow> byte list \<Rightarrow> nat \<Rightarrow> csock \<Rightarrow> byte list option \<times> csock" where
  "gpu_talk spv gx gy gz inp cap =
     and_then (wn_all [put32s [GPU1_MAGIC, length spv, gx, gy, gz, 1], put32s [length inp, 0], spv, inp])
       (\<lambda>_. clamp_read cap (length inp))"

definition run_gpu :: "bop \<Rightarrow> byte list \<Rightarrow> nat \<Rightarrow> cworld \<Rightarrow> byte list option \<times> cworld" where
  "run_gpu op inp cap w =
     (case op_spv op of
        None \<Rightarrow> (None, w)
      | Some spv \<Rightarrow>
      if spv = [] then (None, w) else
     (case dial (str ''gpu.sock'') w of
        (None, w1) \<Rightarrow> (None, w1)
      | (Some k, w1) \<Rightarrow>
     (case gpu_talk spv (op_gx op) (op_gy op) (op_gz op) inp cap k of
        (r, k1) \<Rightarrow> (Option.bind r ret_out, hang_up k1 w1))))"

definition run_cpu :: "bop \<Rightarrow> byte list \<Rightarrow> nat \<Rightarrow> byte list option" where
  "run_cpu op inp cap =
     (case op_cpu op of None \<Rightarrow> None | Some f \<Rightarrow> ret_out (take cap (f inp cap)))"

definition barra_run :: "bop \<Rightarrow> byte list \<Rightarrow> nat \<Rightarrow> cworld \<Rightarrow> byte list option \<times> cworld" where
  "barra_run op inp cap w =
     (case op_dev op of
        BCPU \<Rightarrow> (run_cpu op inp cap, w)
      | BTPU \<Rightarrow> run_tpu op inp cap w
      | BGPU \<Rightarrow> run_gpu op inp cap w
      | BDSP \<Rightarrow> run_dsp op inp cap w)"

definition devname :: "device \<Rightarrow> byte list" where
  "devname d =
     (case d of BCPU \<Rightarrow> str ''CPU'' | BTPU \<Rightarrow> str ''TPU'' | BGPU \<Rightarrow> str ''GPU'' | BDSP \<Rightarrow> str ''DSP'')"

section \<open>The pipeline\<close>

definition STAGE_CAP :: nat where "STAGE_CAP = 1048576"

text \<open>
  Two buffers \<open>a\<close> and \<open>b\<close>; \<open>to_b\<close> says which one the next stage writes (\<open>dst\<close>), and \<open>cur\<close> is what
  the previous stage has left in the other. A stage reads \<open>cur\<close> while it writes \<open>dst\<close>.
\<close>

record pipe_st =
  pi_a :: "byte list"
  pi_b :: "byte list"
  pi_to_b :: bool
  pi_first :: bool
  pi_sz :: nat

definition pi_cur :: "byte list \<Rightarrow> pipe_st \<Rightarrow> byte list" where
  "pi_cur inp p = (if pi_first p then inp else take (pi_sz p) (if pi_to_b p then pi_a p else pi_b p))"

definition pi_put :: "byte list \<Rightarrow> pipe_st \<Rightarrow> pipe_st" where
  "pi_put r p =
     (if pi_to_b p
      then p\<lparr>pi_b := over r (pi_b p), pi_to_b := False, pi_first := False, pi_sz := length r\<rparr>
      else p\<lparr>pi_a := over r (pi_a p), pi_to_b := True, pi_first := False, pi_sz := length r\<rparr>)"

fun pipe_stages ::
  "bop list \<Rightarrow> byte list \<Rightarrow> pipe_st \<Rightarrow> cworld \<Rightarrow> pipe_st option \<times> cworld" where
  "pipe_stages [] inp p w = (Some p, w)"
| "pipe_stages (op # ops) inp p w =
     (case barra_run op (pi_cur inp p) STAGE_CAP w of
        (None, w1) \<Rightarrow> (None, w1)
      | (Some r, w1) \<Rightarrow>
          if STAGE_CAP \<le> length r then (None, w1) else pipe_stages ops inp (pi_put r p) w1)"

text \<open>
  \<open>mem\<close>: the two \<open>malloc\<close>s succeeded; \<open>junk\<close> is what they return. The result is what is copied
  to \<open>out\<close>.
\<close>

definition barra_pipeline ::
  "bool \<Rightarrow> byte list \<times> byte list \<Rightarrow> bop list \<Rightarrow> byte list \<Rightarrow> nat \<Rightarrow> cworld \<Rightarrow>
   byte list option \<times> cworld" where
  "barra_pipeline mem junk ops inp cap w =
     (if \<not> mem then (None, w)
      else
     (case pipe_stages ops inp
         \<lparr>pi_a = fst junk, pi_b = snd junk, pi_to_b = False, pi_first = True, pi_sz = length inp\<rparr> w of
        (None, w1) \<Rightarrow> (None, w1)
      | (Some p, w1) \<Rightarrow> (ret_out (take cap (pi_cur inp p)), w1)))"

section \<open>The pipeline composes its stages\<close>

text \<open>Reference: the stages one after the other, each on the result of the one before.\<close>

fun compose :: "bop list \<Rightarrow> byte list \<Rightarrow> cworld \<Rightarrow> byte list option \<times> cworld" where
  "compose [] x w = (Some x, w)"
| "compose (op # ops) x w =
     (case barra_run op x STAGE_CAP w of
        (None, w1) \<Rightarrow> (None, w1)
      | (Some r, w1) \<Rightarrow> if length r < STAGE_CAP then compose ops r w1 else (None, w1))"

lemma pi_cur_put [simp]: "pi_cur inp (pi_put r p) = r"
  by (simp add: pi_cur_def pi_put_def over_def)

lemma pipe_stages_compose:
  "pipe_stages ops inp p w =
     (case compose ops (pi_cur inp p) w of
        (None, w1) \<Rightarrow> (None, w1)
      | (Some x, w1) \<Rightarrow> (fst (pipe_stages ops inp p w), w1)) \<and>
   map_option (pi_cur inp) (fst (pipe_stages ops inp p w)) = fst (compose ops (pi_cur inp p) w)"
proof (induction ops arbitrary: p w)
  case Nil
  then show ?case by simp
next
  case (Cons op ops)
  obtain r w1 where r: "barra_run op (pi_cur inp p) STAGE_CAP w = (r, w1)" by (metis surj_pair)
  show ?case
  proof (cases r)
    case None
    with r show ?thesis by simp
  next
    case (Some x)
    with r Cons.IH [of "pi_put x p" w1] show ?thesis by (simp split: prod.splits option.splits)
  qed
qed

end
