(* ===== verification/Client_Zc.thy ===== *)
theory Client_Zc
  imports Client_Base
begin

text \<open>
  The zero-copy half of src/src/barra/barra.c: shared buffers with their CPU access brackets,
  imports and releases, the GPU sessions v1, v2 and v3, the TPU session and the DSP session. Buffers
  are passed by pointer and may occur several times in one call, so a call works on a store from
  pointers to buffers.
\<close>

section \<open>Shared buffers\<close>

text \<open>
  \<open>cb_fd\<close> is the dma-buf behind the descriptor (\<open>None\<close> for -1), the handles are C integers with -1
  for "not imported". \<open>cb_cpu\<close> counts the \<open>DMA_BUF_SYNC_START\<close> minus the \<open>DMA_BUF_SYNC_END\<close>
  calls: 1 is "in the CPU access state", 0 is "closed for the devices".
\<close>

record cbuf =
  cb_fd :: "nat option"
  cb_map :: bool
  cb_size :: nat
  cb_gpu :: int
  cb_tpu :: int
  cb_dsp :: int
  cb_cpu :: int

type_synonym store = "nat \<Rightarrow> cbuf"

definition cpu_begin :: "nat \<Rightarrow> store \<Rightarrow> store" where
  "cpu_begin p zs =
     (if cb_fd (zs p) = None then zs else zs(p := (zs p)\<lparr>cb_cpu := cb_cpu (zs p) + 1\<rparr>))"

definition cpu_end :: "nat \<Rightarrow> store \<Rightarrow> store" where
  "cpu_end p zs =
     (if cb_fd (zs p) = None then zs else zs(p := (zs p)\<lparr>cb_cpu := cb_cpu (zs p) - 1\<rparr>))"

text \<open>
  \<open>barra_zc_alloc\<close>: \<open>heap\<close> is the new dma-buf if opening the heap and the allocation succeed,
  \<open>mapped\<close> says whether \<open>mmap\<close> does. On a failure the buffer is inert.
\<close>

definition cb_inert :: cbuf where
  "cb_inert = \<lparr>cb_fd = None, cb_map = False, cb_size = 0, cb_gpu = -1, cb_tpu = -1, cb_dsp = -1,
     cb_cpu = 0\<rparr>"

definition barra_zc_alloc :: "nat option \<Rightarrow> bool \<Rightarrow> nat \<Rightarrow> nat \<Rightarrow> store \<Rightarrow> bool \<times> store" where
  "barra_zc_alloc heap mapped p sz zs =
     (case heap of
        None \<Rightarrow> (False, zs(p := cb_inert))
      | Some f \<Rightarrow>
          if mapped
          then (True, cpu_begin p (zs(p := \<lparr>cb_fd = Some f, cb_map = True, cb_size = sz,
                  cb_gpu = -1, cb_tpu = -1, cb_dsp = -1, cb_cpu = 0\<rparr>)))
          else (False, zs(p := cb_inert)))"

definition barra_zc_free :: "nat \<Rightarrow> store \<Rightarrow> store" where
  "barra_zc_free p zs =
     (let zs1 = (if cb_map (zs p) then cpu_end p zs else zs) in
      zs1(p := (zs1 p)\<lparr>cb_fd := None, cb_map := False, cb_size := 0, cb_gpu := -1, cb_tpu := -1,
                cb_dsp := -1\<rparr>))"

definition ends :: "nat list \<Rightarrow> store \<Rightarrow> store" where
  "ends ps zs = fold cpu_end ps zs"

definition begins :: "nat list \<Rightarrow> store \<Rightarrow> store" where
  "begins ps zs = fold cpu_begin ps zs"

definition files_of :: "nat list \<Rightarrow> store \<Rightarrow> nat option list" where
  "files_of ps zs = map (\<lambda>p. cb_fd (zs p)) ps"

definition sizes_of :: "nat list \<Rightarrow> store \<Rightarrow> byte list" where
  "sizes_of ps zs = put32s (map (\<lambda>p. cb_size (zs p)) ps)"

section \<open>Handles\<close>

datatype chip = CGpu | CTpu | CDsp

definition zh :: "chip \<Rightarrow> cbuf \<Rightarrow> int" where
  "zh ch z = (case ch of CGpu \<Rightarrow> cb_gpu z | CTpu \<Rightarrow> cb_tpu z | CDsp \<Rightarrow> cb_dsp z)"

definition set_zh :: "chip \<Rightarrow> int \<Rightarrow> cbuf \<Rightarrow> cbuf" where
  "set_zh ch v z =
     (case ch of CGpu \<Rightarrow> z\<lparr>cb_gpu := v\<rparr> | CTpu \<Rightarrow> z\<lparr>cb_tpu := v\<rparr> | CDsp \<Rightarrow> z\<lparr>cb_dsp := v\<rparr>)"

text \<open>\<open>(int)v\<close> and \<open>(uint32_t)h\<close>.\<close>

definition s32 :: "nat \<Rightarrow> int" where
  "s32 v = (if v < 2 ^ 31 then int v else int v - 2 ^ 32)"

definition u32of :: "int \<Rightarrow> nat" where
  "u32of h = nat (h mod 2 ^ 32)"

lemma u32of_int: "v < 2 ^ 32 \<Longrightarrow> u32of (int v) = v"
  by (simp add: u32of_def)

definition put_handles :: "chip \<Rightarrow> nat list \<Rightarrow> nat list \<Rightarrow> store \<Rightarrow> store" where
  "put_handles ch ps hs zs = fold (\<lambda>(p, h) zs. zs(p := set_zh ch (s32 h) (zs p))) (zip ps hs) zs"

definition drop_handles :: "chip \<Rightarrow> nat list \<Rightarrow> store \<Rightarrow> store" where
  "drop_handles ch ps zs = fold (\<lambda>p zs. zs(p := set_zh ch (-1) (zs p))) ps zs"

text \<open>The buffers of one call that have no handle yet, each once, in the order of the call.\<close>

fun need_of :: "chip \<Rightarrow> store \<Rightarrow> nat list \<Rightarrow> nat list \<Rightarrow> nat list" where
  "need_of ch zs need [] = need"
| "need_of ch zs need (p # ps) =
     need_of ch zs (if zh ch (zs p) < 0 \<and> p \<notin> set need then need @ [p] else need) ps"

section \<open>Sessions\<close>

text \<open>
  \<open>barra_gpu\<close>, \<open>barra_gpu3\<close>, \<open>barra_tpu\<close>, \<open>barra_dsp\<close>: the socket (\<open>None\<close> for -1), for the GPU
  sessions the number of imports (unused by the others), for v3 the automatic brackets.
\<close>

record sess =
  ss_sock :: "csock option"
  ss_n :: int
  ss_auto :: bool

type_synonym cst = "store \<times> sess"

definition GPZC_MAGIC :: nat where "GPZC_MAGIC = 0x47505A43"
definition GPZ2_MAGIC :: nat where "GPZ2_MAGIC = 0x47505A32"
definition GPZ3_MAGIC :: nat where "GPZ3_MAGIC = 0x47505A33"
definition TPZ2_MAGIC :: nat where "TPZ2_MAGIC = 0x54505A32"
definition GXPZ_MAGIC :: nat where "GXPZ_MAGIC = 0x47585A32"
definition ZC_MAX :: nat where "ZC_MAX = 16"
definition ZC_STAGES :: nat where "ZC_STAGES = 32"
definition GPU3_STAGES :: nat where "GPU3_STAGES = 4096"
definition GPU3_PC :: nat where "GPU3_PC = 128"

definition barra_open :: "byte list \<Rightarrow> cworld \<Rightarrow> bool \<times> sess \<times> cworld" where
  "barra_open name w =
     (case dial name w of (r, w1) \<Rightarrow> (r \<noteq> None, \<lparr>ss_sock = r, ss_n = 0, ss_auto = True\<rparr>, w1))"

definition barra_gpu_open :: "cworld \<Rightarrow> bool \<times> sess \<times> cworld" where
  "barra_gpu_open = barra_open (str ''gpuzc.sock'')"

definition barra_gpu3_open :: "cworld \<Rightarrow> bool \<times> sess \<times> cworld" where
  "barra_gpu3_open = barra_open (str ''gpuzc.sock'')"

definition barra_tpu_open :: "cworld \<Rightarrow> bool \<times> sess \<times> cworld" where
  "barra_tpu_open = barra_open (str ''tpu.sock'')"

definition barra_dsp_open :: "cworld \<Rightarrow> bool \<times> sess \<times> cworld" where
  "barra_dsp_open = barra_open (str ''gxp.sock'')"

text \<open>\<open>barra_*_close\<close>, \<open>gpu_dead\<close>, \<open>gpu3_dead\<close>, \<open>tpu_dead\<close>, \<open>dsp_dead\<close>: the socket is closed.\<close>

definition dead :: "sess \<Rightarrow> sess" where
  "dead s = s\<lparr>ss_sock := None\<rparr>"

text \<open>
  One import (\<open>barra_gpu_import\<close>, \<open>barra_gpu3_import\<close>, \<open>barra_tpu_import\<close>,
  \<open>barra_dsp_import_ex\<close>): descriptors and sizes go out, a status and, when it is 0, the handles come
  back. A failure of the transport closes the session, an error status does not.
\<close>

definition do_import :: "chip \<Rightarrow> nat \<Rightarrow> nat \<Rightarrow> nat list \<Rightarrow> cst \<Rightarrow> bool \<times> cst" where
  "do_import ch magic opt ps st =
     (case st of (zs, s) \<Rightarrow>
     (case ss_sock s of
        None \<Rightarrow> (False, st)
      | Some k \<Rightarrow>
      if ps = [] \<or> length ps > ZC_MAX then (False, st) else
     (case c_req [magic, 1, length ps, opt, 0, 0] (files_of ps zs) [sizes_of ps zs] 4 k of
        (None, k1) \<Rightarrow> (False, zs, dead s)
      | (Some r, k1) \<Rightarrow>
      if le_nat r \<noteq> 0 then (False, zs, s\<lparr>ss_sock := Some k1\<rparr>) else
     (case c_rn (length ps * 4) k1 of
        (None, k2) \<Rightarrow> (False, zs, dead s)
      | (Some hb, k2) \<Rightarrow>
          (True, put_handles ch ps (get32s (length ps) hb) zs,
           s\<lparr>ss_sock := Some k2, ss_n := ss_n s + (if ch = CGpu then int (length ps) else 0)\<rparr>)))))"

definition barra_gpu_import :: "nat list \<Rightarrow> cst \<Rightarrow> bool \<times> cst" where
  "barra_gpu_import = do_import CGpu GPZ2_MAGIC 0"

definition barra_gpu3_import :: "nat list \<Rightarrow> cst \<Rightarrow> bool \<times> cst" where
  "barra_gpu3_import ps st =
     (if ss_sock (snd st) \<noteq> None \<and> ps \<noteq> [] \<and> length ps \<le> ZC_MAX \<and>
         (\<exists>p\<in>set ps. cb_fd (fst st p) = None \<or> cb_size (fst st p) = 0)
      then (False, st)
      else do_import CGpu GPZ3_MAGIC 0 ps st)"

definition barra_tpu_import :: "nat list \<Rightarrow> cst \<Rightarrow> bool \<times> cst" where
  "barra_tpu_import = do_import CTpu TPZ2_MAGIC 0"

definition barra_dsp_import_ex :: "bool \<Rightarrow> nat list \<Rightarrow> cst \<Rightarrow> bool \<times> cst" where
  "barra_dsp_import_ex cacheable = do_import CDsp GXPZ_MAGIC (if cacheable then 1 else 0)"

definition barra_dsp_import :: "nat list \<Rightarrow> cst \<Rightarrow> bool \<times> cst" where
  "barra_dsp_import = barra_dsp_import_ex False"

definition do_release :: "chip \<Rightarrow> nat \<Rightarrow> nat list \<Rightarrow> cst \<Rightarrow> bool \<times> cst" where
  "do_release ch magic ps st =
     (case st of (zs, s) \<Rightarrow>
     (case ss_sock s of
        None \<Rightarrow> (False, st)
      | Some k \<Rightarrow>
      if ps = [] \<or> length ps > ZC_MAX then (False, st) else
     (let hs = map (\<lambda>p. u32of (zh ch (zs p))) (filter (\<lambda>p. 0 \<le> zh ch (zs p)) ps) in
      if hs = [] then (True, st) else
     (case c_req [magic, 3, length hs, 0, 0, 0] [] [put32s hs] 4 k of
        (None, k1) \<Rightarrow> (False, zs, dead s)
      | (Some r, k1) \<Rightarrow>
      if le_nat r \<noteq> 0 then (False, zs, s\<lparr>ss_sock := Some k1\<rparr>)
      else (True, drop_handles ch ps zs, s\<lparr>ss_sock := Some k1, ss_n := ss_n s - (if ch = CGpu then int (length hs) else 0)\<rparr>)))))"

definition barra_gpu_release :: "nat list \<Rightarrow> cst \<Rightarrow> bool \<times> cst" where
  "barra_gpu_release = do_release CGpu GPZ2_MAGIC"

definition barra_gpu3_release :: "nat list \<Rightarrow> cst \<Rightarrow> bool \<times> cst" where
  "barra_gpu3_release = do_release CGpu GPZ3_MAGIC"

definition barra_tpu_release :: "nat list \<Rightarrow> cst \<Rightarrow> bool \<times> cst" where
  "barra_tpu_release = do_release CTpu TPZ2_MAGIC"

definition barra_dsp_release :: "nat list \<Rightarrow> cst \<Rightarrow> bool \<times> cst" where
  "barra_dsp_release = do_release CDsp GXPZ_MAGIC"

section \<open>GPU, protocols 1 and 2\<close>

definition barra_gpu_zc ::
  "byte list \<Rightarrow> nat \<Rightarrow> nat \<Rightarrow> nat \<Rightarrow> nat list \<Rightarrow> store \<Rightarrow> cworld \<Rightarrow> bool \<times> store \<times> cworld" where
  "barra_gpu_zc spv gx gy gz ps zs w =
     (if ps = [] \<or> length ps > ZC_MAX then (False, zs, w)
      else
     (case dial (str ''gpuzc.sock'') w of
        (None, w1) \<Rightarrow> (False, zs, w1)
      | (Some k, w1) \<Rightarrow>
     (let zs1 = ends ps zs in
     (case c_req [GPZC_MAGIC, length spv, gx, gy, gz, length ps] (files_of ps zs)
         [sizes_of ps zs, spv] 4 k of
        (r, k1) \<Rightarrow>
          ((case r of None \<Rightarrow> False | Some x \<Rightarrow> le_nat x = 0), begins ps zs1, hang_up k1 w1)))))"

record bstage =
  bg_spv :: "byte list option"
  bg_gx :: nat
  bg_gy :: nat
  bg_gz :: nat
  bg_bufs :: "nat list"

definition bstage_bad :: "bstage \<Rightarrow> bool" where
  "bstage_bad x \<longleftrightarrow>
     bg_bufs x = [] \<or> length (bg_bufs x) > ZC_MAX \<or>
     (case bg_spv x of None \<Rightarrow> True | Some spv \<Rightarrow> spv = [] \<or> length spv mod 4 \<noteq> 0)"

text \<open>Step 1 of a batch: what a stage uses and the daemon does not know yet is imported.\<close>

fun batch_imports :: "bstage list \<Rightarrow> cst \<Rightarrow> bool \<times> cst" where
  "batch_imports [] st = (True, st)"
| "batch_imports (x # xs) st =
     (if bstage_bad x then (False, st)
      else
     (let need = need_of CGpu (fst st) [] (bg_bufs x) in
      case (if need = [] then (True, st) else barra_gpu_import need st) of
        (False, st1) \<Rightarrow> (False, st1)
      | (True, st1) \<Rightarrow> batch_imports xs st1))"

definition stage_msgs :: "store \<Rightarrow> bstage \<Rightarrow> byte list list" where
  "stage_msgs zs x =
     [put32s [length (the (bg_spv x)), bg_gx x, bg_gy x, bg_gz x, length (bg_bufs x)],
      put32s (map (\<lambda>p. u32of (cb_gpu (zs p))) (bg_bufs x)), the (bg_spv x)]"

definition barra_gpu_batch :: "bstage list \<Rightarrow> cst \<Rightarrow> bool \<times> cst" where
  "barra_gpu_batch xs st =
     (if ss_sock (snd st) = None \<or> xs = [] \<or> length xs > ZC_STAGES then (False, st)
      else
     (case batch_imports xs st of
        (False, st1) \<Rightarrow> (False, st1)
      | (True, zs1, s1) \<Rightarrow>
     (case ss_sock s1 of
        None \<Rightarrow> (False, zs1, s1)
      | Some k \<Rightarrow>
     (let ps = concat (map bg_bufs xs); zs2 = ends ps zs1 in
     (case c_req [GPZ2_MAGIC, 2, length xs, 0, 0, 0] [] (concat (map (stage_msgs zs2) xs)) 4 k of
        (None, k1) \<Rightarrow> (False, begins ps zs2, dead s1)
      | (Some r, k1) \<Rightarrow> (le_nat r = 0, begins ps zs2, s1\<lparr>ss_sock := Some k1\<rparr>))))))"

definition barra_gpu_dispatch ::
  "byte list option \<Rightarrow> nat \<Rightarrow> nat \<Rightarrow> nat \<Rightarrow> nat list \<Rightarrow> cst \<Rightarrow> bool \<times> cst" where
  "barra_gpu_dispatch spv gx gy gz ps st =
     barra_gpu_batch [\<lparr>bg_spv = spv, bg_gx = gx, bg_gy = gy, bg_gz = gz, bg_bufs = ps\<rparr>] st"

section \<open>GPU, protocol 3\<close>

text \<open>
  The commands without payload from a buffer: a header, a payload, a status and perhaps one word of
  answer. The result is \<open>None\<close> for an error.
\<close>

definition call3 :: "nat list \<Rightarrow> byte list list \<Rightarrow> bool \<Rightarrow> sess \<Rightarrow> nat option \<times> sess" where
  "call3 hdr pay answer s =
     (case ss_sock s of
        None \<Rightarrow> (None, s)
      | Some k \<Rightarrow>
     (case c_req hdr [] pay 4 k of
        (None, k1) \<Rightarrow> (None, dead s)
      | (Some r, k1) \<Rightarrow>
      if le_nat r \<noteq> 0 then (None, s\<lparr>ss_sock := Some k1\<rparr>)
      else if answer then
       (case c_rn 4 k1 of
          (None, k2) \<Rightarrow> (None, dead s)
        | (Some v, k2) \<Rightarrow> (Some (le_nat v), s\<lparr>ss_sock := Some k2\<rparr>))
      else (Some 0, s\<lparr>ss_sock := Some k1\<rparr>)))"

definition barra_gpu3_load :: "byte list option \<Rightarrow> nat \<Rightarrow> nat \<Rightarrow> sess \<Rightarrow> nat option \<times> sess" where
  "barra_gpu3_load spv nbind pcsize s =
     (case spv of
        None \<Rightarrow> (None, s)
      | Some x \<Rightarrow>
          if x = [] \<or> length x mod 4 \<noteq> 0 \<or> nbind > ZC_MAX \<or> pcsize > GPU3_PC \<or> pcsize mod 4 \<noteq> 0
          then (None, s)
          else call3 [GPZ3_MAGIC, 4, length x, nbind, pcsize, 0] [x] True s)"

definition barra_gpu3_unload :: "int \<Rightarrow> sess \<Rightarrow> nat option \<times> sess" where
  "barra_gpu3_unload sh s =
     (if sh < 0 then (None, s) else call3 [GPZ3_MAGIC, 6, u32of sh, 0, 0, 0] [] False s)"

definition barra_gpu3_flags :: "nat \<Rightarrow> sess \<Rightarrow> nat option \<times> sess" where
  "barra_gpu3_flags fl s = call3 [GPZ3_MAGIC, 8, fl, 0, 0, 0] [] False s"

definition barra_gpu3_set_autosync :: "bool \<Rightarrow> sess \<Rightarrow> sess" where
  "barra_gpu3_set_autosync on s = s\<lparr>ss_auto := on\<rparr>"

definition barra_gpu3_copy ::
  "int \<Rightarrow> nat \<Rightarrow> int \<Rightarrow> nat \<Rightarrow> nat \<Rightarrow> sess \<Rightarrow> nat option \<times> sess" where
  "barra_gpu3_copy src src_off dst dst_off len s =
     (if src < 0 \<or> dst < 0 \<or> len = 0 then (None, s)
      else call3 [GPZ3_MAGIC, 11, u32of src, u32of dst, 0, 0]
             [le64 src_off @ le64 dst_off @ le64 len] False s)"

definition barra_gpu3_alloc_native :: "nat \<Rightarrow> sess \<Rightarrow> nat option \<times> sess" where
  "barra_gpu3_alloc_native sz s =
     (if sz = 0 then (None, s) else call3 [GPZ3_MAGIC, 10, sz, 0, 0, 0] [] True s)"

record cbind3 =
  bi_buf :: "nat option"
  bi_off :: nat
  bi_range :: nat

record cstage3 =
  g3_sh :: int
  g3_gx :: nat
  g3_gy :: nat
  g3_gz :: nat
  g3_binds :: "cbind3 list"
  g3_pc :: "byte list option"
  g3_pcsize :: nat
  g3_flags :: nat

definition stage3_bad :: "cstage3 \<Rightarrow> bool" where
  "stage3_bad x \<longleftrightarrow>
     g3_sh x < 0 \<or> length (g3_binds x) > ZC_MAX \<or> g3_pcsize x > GPU3_PC \<or>
     g3_pcsize x \<noteq> 0 \<and> g3_pc x = None"

fun batch3_imports :: "cstage3 list \<Rightarrow> cst \<Rightarrow> bool \<times> cst" where
  "batch3_imports [] st = (True, st)"
| "batch3_imports (x # xs) st =
     (if stage3_bad x \<or> None \<in> set (map bi_buf (g3_binds x)) then (False, st)
      else
     (let need = need_of CGpu (fst st) [] (map (the \<circ> bi_buf) (g3_binds x)) in
      case (if need = [] then (True, st) else barra_gpu3_import need st) of
        (False, st1) \<Rightarrow> (False, st1)
      | (True, st1) \<Rightarrow> batch3_imports xs st1))"

definition bind3_words :: "store \<Rightarrow> cbind3 \<Rightarrow> nat list" where
  "bind3_words zs b =
     [u32of (cb_gpu (zs (the (bi_buf b)))), bi_off b mod 2 ^ 32, bi_off b div 2 ^ 32, bi_range b]"

definition stage3_bytes :: "store \<Rightarrow> cstage3 \<Rightarrow> byte list" where
  "stage3_bytes zs x =
     put32s [u32of (g3_sh x), g3_gx x, g3_gy x, g3_gz x, length (g3_binds x), g3_pcsize x, g3_flags x] @
     put32s (concat (map (bind3_words zs) (g3_binds x))) @
     (if g3_pcsize x = 0 then [] else take (g3_pcsize x) (the (g3_pc x)))"

text \<open>
  \<open>uniq\<close>: every buffer of the batch once, in order of first use. The brackets are set once per
  buffer, and only when they are automatic. \<open>m1\<close>, \<open>m2\<close>: the two \<open>malloc\<close>s.
\<close>

fun uniq_of :: "nat list \<Rightarrow> nat list \<Rightarrow> nat list" where
  "uniq_of u [] = u"
| "uniq_of u (p # ps) = uniq_of (if p \<in> set u then u else u @ [p]) ps"

definition barra_gpu3_batch :: "bool \<Rightarrow> bool \<Rightarrow> cstage3 list \<Rightarrow> cst \<Rightarrow> bool \<times> cst" where
  "barra_gpu3_batch m1 m2 xs st =
     (if ss_sock (snd st) = None \<or> xs = [] \<or> length xs > GPU3_STAGES then (False, st)
      else
     (case batch3_imports xs st of
        (False, st1) \<Rightarrow> (False, st1)
      | (True, zs1, s1) \<Rightarrow>
     (case ss_sock s1 of
        None \<Rightarrow> (False, zs1, s1)
      | Some k \<Rightarrow>
      if \<not> m1 then (False, zs1, s1) else
     (let us = uniq_of [] (concat (map (\<lambda>x. map (the \<circ> bi_buf) (g3_binds x)) xs));
          close = (\<lambda>zs. if ss_auto s1 then ends us zs else zs);
          reopen = (\<lambda>zs. if ss_auto s1 then begins us zs else zs);
          zs2 = close zs1;
          hdr = [GPZ3_MAGIC, 9, length xs, 0, 0, 0]
      in
      if \<not> m2 then (False, reopen zs2, dead s1) else
     (case c_req hdr [] [concat (map (stage3_bytes zs2) xs)] 4 k of
        (None, k1) \<Rightarrow> (False, reopen zs2, dead s1)
      | (Some r, k1) \<Rightarrow> (le_nat r = 0, reopen zs2, s1\<lparr>ss_sock := Some k1\<rparr>))))))"

section \<open>TPU session\<close>

definition barra_tpu_info :: "nat \<Rightarrow> sess \<Rightarrow> (nat \<times> nat) option \<times> nat option \<times> sess" where
  "barra_tpu_info model s =
     (case ss_sock s of
        None \<Rightarrow> (None, None, s)
      | Some k \<Rightarrow>
     (case c_req [TPZ2_MAGIC, 4, model, 0, 0, 0] [] [] 16 k of
        (None, k1) \<Rightarrow> (None, None, s\<lparr>ss_sock := Some k1\<rparr>)
      | (Some bs, k1) \<Rightarrow>
     (let r = get32s 4 bs in
        (if r ! 0 \<noteq> 0 then None else Some (r ! 1, r ! 2), Some (r ! 3), s\<lparr>ss_sock := Some k1\<rparr>))))"

definition tpu_need :: "nat \<Rightarrow> nat \<Rightarrow> store \<Rightarrow> nat list" where
  "tpu_need i q zs = (if cb_tpu (zs i) < 0 then [i] else []) @ (if cb_tpu (zs q) < 0 then [q] else [])"

definition infer_hdr :: "nat \<Rightarrow> nat \<Rightarrow> nat \<Rightarrow> store \<Rightarrow> nat list" where
  "infer_hdr model i q zs = [TPZ2_MAGIC, 2, model, u32of (cb_tpu (zs i)), u32of (cb_tpu (zs q)), 0]"

text \<open>
  \<open>barra_tpu_infer\<close> and its two halves: input \<open>i\<close>, output \<open>q\<close>; the result is the execution time.
\<close>

definition barra_tpu_infer :: "nat \<Rightarrow> nat \<Rightarrow> nat \<Rightarrow> cst \<Rightarrow> nat option \<times> cst" where
  "barra_tpu_infer model i q st =
     (if ss_sock (snd st) = None \<or> i = q then (None, st)
      else
     (let need = tpu_need i q (fst st) in
      case (if need = [] then (True, st) else barra_tpu_import need st) of
        (False, st1) \<Rightarrow> (None, st1)
      | (True, zs1, s1) \<Rightarrow>
     (case ss_sock s1 of
        None \<Rightarrow> (None, zs1, s1)
      | Some k \<Rightarrow>
     (let zs2 = ends [i, q] zs1 in
     (case c_req (infer_hdr model i q zs2) [] [] 8 k of
        (None, k1) \<Rightarrow> (None, begins [i, q] zs2, dead s1)
      | (Some bs, k1) \<Rightarrow>
          ((if le_nat (take 4 bs) = 0 then Some (le_nat (drop 4 bs)) else None),
           begins [i, q] zs2, s1\<lparr>ss_sock := Some k1\<rparr>))))))"

definition barra_tpu_submit :: "nat \<Rightarrow> nat \<Rightarrow> nat \<Rightarrow> cst \<Rightarrow> bool \<times> cst" where
  "barra_tpu_submit model i q st =
     (if ss_sock (snd st) = None \<or> i = q then (False, st)
      else
     (let need = tpu_need i q (fst st) in
      case (if need = [] then (True, st) else barra_tpu_import need st) of
        (False, st1) \<Rightarrow> (False, st1)
      | (True, zs1, s1) \<Rightarrow>
     (case ss_sock s1 of
        None \<Rightarrow> (False, zs1, s1)
      | Some k \<Rightarrow>
     (let zs2 = ends [i, q] zs1 in
     (case send_hdr_fds (infer_hdr model i q zs2) [] k of
        (None, k1) \<Rightarrow> (False, begins [i, q] zs2, dead s1)
      | (Some _, k1) \<Rightarrow> (True, zs2, s1\<lparr>ss_sock := Some k1\<rparr>))))))"

definition barra_tpu_wait :: "nat \<Rightarrow> nat \<Rightarrow> cst \<Rightarrow> nat option \<times> cst" where
  "barra_tpu_wait i q st =
     (case st of (zs, s) \<Rightarrow>
     (case ss_sock s of
        None \<Rightarrow> (None, st)
      | Some k \<Rightarrow>
     (case c_rn 8 k of
        (None, k1) \<Rightarrow> (None, begins [i, q] zs, dead s)
      | (Some bs, k1) \<Rightarrow>
          ((if le_nat (take 4 bs) = 0 then Some (le_nat (drop 4 bs)) else None),
           begins [i, q] zs, s\<lparr>ss_sock := Some k1\<rparr>))))"

section \<open>DSP session\<close>

definition dsp_bad :: "byte list \<Rightarrow> nat list \<Rightarrow> sess \<Rightarrow> bool" where
  "dsp_bad func ps s \<longleftrightarrow>
     ss_sock s = None \<or> ps = [] \<or> length ps > ZC_MAX \<or> func = [] \<or> length func \<ge> 128"

definition dsp_imports :: "nat list \<Rightarrow> cst \<Rightarrow> bool \<times> cst" where
  "dsp_imports ps st =
     (let need = need_of CDsp (fst st) [] ps in
      if need = [] then (True, st) else barra_dsp_import need st)"

definition dsp_handles :: "nat list \<Rightarrow> store \<Rightarrow> byte list" where
  "dsp_handles ps zs = put32s (map (\<lambda>p. u32of (cb_dsp (zs p))) ps)"

text \<open>Status, value and time of a finished kernel.\<close>

definition dsp_result :: "byte list \<Rightarrow> (nat \<times> nat) option" where
  "dsp_result bs =
     (if le_nat (take 4 bs) = 0 then Some (le_nat (take 8 (drop 4 bs)), le_nat (drop 12 bs)) else None)"

definition barra_dsp_run :: "byte list \<Rightarrow> nat list \<Rightarrow> cst \<Rightarrow> (nat \<times> nat) option \<times> cst" where
  "barra_dsp_run func ps st =
     (if dsp_bad func ps (snd st) then (None, st)
      else
     (case dsp_imports ps st of
        (False, st1) \<Rightarrow> (None, st1)
      | (True, zs1, s1) \<Rightarrow>
     (case ss_sock s1 of
        None \<Rightarrow> (None, zs1, s1)
      | Some k \<Rightarrow>
     (let zs2 = ends ps zs1 in
     (case c_req [GXPZ_MAGIC, 2, length func, length ps, 0, 0] [] [func, dsp_handles ps zs2] 16 k of
        (None, k1) \<Rightarrow> (None, begins ps zs2, dead s1)
      | (Some bs, k1) \<Rightarrow> (dsp_result bs, begins ps zs2, s1\<lparr>ss_sock := Some k1\<rparr>))))))"

definition barra_dsp_submit :: "byte list \<Rightarrow> nat list \<Rightarrow> cst \<Rightarrow> nat option \<times> cst" where
  "barra_dsp_submit func ps st =
     (if dsp_bad func ps (snd st) then (None, st)
      else
     (case dsp_imports ps st of
        (False, st1) \<Rightarrow> (None, st1)
      | (True, zs1, s1) \<Rightarrow>
     (case ss_sock s1 of
        None \<Rightarrow> (None, zs1, s1)
      | Some k \<Rightarrow>
     (let zs2 = ends ps zs1 in
     (case c_req [GXPZ_MAGIC, 5, length func, length ps, 0, 0] [] [func, dsp_handles ps zs2] 8 k of
        (None, k1) \<Rightarrow> (None, begins ps zs2, dead s1)
      | (Some bs, k1) \<Rightarrow>
          if le_nat (take 4 bs) = 0 then (Some (le_nat (drop 4 bs)), zs2, s1\<lparr>ss_sock := Some k1\<rparr>)
          else (None, begins ps zs2, s1\<lparr>ss_sock := Some k1\<rparr>))))))"

definition barra_dsp_wait :: "nat \<Rightarrow> nat list \<Rightarrow> cst \<Rightarrow> (nat \<times> nat) option \<times> cst" where
  "barra_dsp_wait token ps st =
     (case st of (zs, s) \<Rightarrow>
     (case ss_sock s of
        None \<Rightarrow> (None, st)
      | Some k \<Rightarrow>
     (case c_req [GXPZ_MAGIC, 6, token, 0, 0, 0] [] [] 16 k of
        (None, k1) \<Rightarrow> (None, begins ps zs, dead s)
      | (Some bs, k1) \<Rightarrow> (dsp_result bs, begins ps zs, s\<lparr>ss_sock := Some k1\<rparr>))))"

end
