(* ===== verification/Client_Correct.thy ===== *)
theory Client_Correct
  imports Client_Zc
begin

text \<open>
  What the client library keeps: the CPU access brackets of every buffer, the handles, and the
  composition of stages. The daemon is arbitrary here: any answer, cut off anywhere.
\<close>

section \<open>Requests that go through\<close>

definition pay_msgs :: "byte list list \<Rightarrow> packet list" where
  "pay_msgs pay = map (\<lambda>b. (b, [])) (filter (\<lambda>b. b \<noteq> []) pay)"

lemma wn_all_ok:
  assumes "sum_list (map length pay) \<le> k_room k"
  shows "\<exists>k'. wn_all pay k = (Some (), k') \<and> k_in k' = k_in k \<and> k_out k' = k_out k @ pay_msgs pay \<and>
    k_room k' = k_room k - sum_list (map length pay)"
  using assms
proof (induction pay arbitrary: k)
  case Nil
  then show ?case by (simp add: pay_msgs_def)
next
  case (Cons b pay)
  define k1 where "k1 = (if b = [] then k else k\<lparr>k_out := k_out k @ [(b, [])], k_room := k_room k - length b\<rparr>)"
  have w: "c_wn b k = (Some (), k1)" using Cons.prems by (simp add: c_wn_def k1_def)
  have "sum_list (map length pay) \<le> k_room k1" using Cons.prems by (auto simp: k1_def)
  from Cons.IH [OF this] obtain k2 where "wn_all pay k1 = (Some (), k2)" "k_in k2 = k_in k1"
    "k_out k2 = k_out k1 @ pay_msgs pay" "k_room k2 = k_room k1 - sum_list (map length pay)" by blast
  with w show ?case by (simp add: and_then_def k1_def pay_msgs_def)
qed

lemma c_req_ok:
  assumes "None \<notin> set fds" and "24 + sum_list (map length pay) \<le> k_room k" and "n \<le> length (k_in k)"
  shows "\<exists>k'. c_req hdr fds pay n k = (Some (take n (k_in k)), k') \<and> k_in k' = drop n (k_in k) \<and>
    k_out k' = k_out k @ (put32s hdr, map the fds) # pay_msgs pay \<and>
    k_room k' = k_room k - 24 - sum_list (map length pay)"
proof -
  define k1 where "k1 = k\<lparr>k_out := k_out k @ [(put32s hdr, map the fds)], k_room := k_room k - 24\<rparr>"
  have s: "send_hdr_fds hdr fds k = (Some (), k1)" using assms by (simp add: send_hdr_fds_def k1_def)
  have "sum_list (map length pay) \<le> k_room k1" using assms(2) by (simp add: k1_def)
  from wn_all_ok [OF this] obtain k2 where k2: "wn_all pay k1 = (Some (), k2)" "k_in k2 = k_in k1"
    "k_out k2 = k_out k1 @ pay_msgs pay" "k_room k2 = k_room k1 - sum_list (map length pay)" by blast
  then have "c_rn n k2 = (Some (take n (k_in k)), k2\<lparr>k_in := drop n (k_in k)\<rparr>)"
    using assms(3) by (simp add: c_rn_def k1_def)
  with s k2 show ?thesis by (simp add: c_req_def and_then_def k1_def)
qed

section \<open>Brackets\<close>

text \<open>
  \<open>bal zs zs'\<close>: only handles may have changed; in particular every buffer is as open for the CPU as
  before.
\<close>

definition bal :: "store \<Rightarrow> store \<Rightarrow> bool" where
  "bal zs zs' \<longleftrightarrow>
     (\<forall>p. cb_cpu (zs' p) = cb_cpu (zs p) \<and> cb_fd (zs' p) = cb_fd (zs p) \<and>
          cb_map (zs' p) = cb_map (zs p) \<and> cb_size (zs' p) = cb_size (zs p))"

text \<open>\<open>shut ps zs zs'\<close>: the buffers are closed once per occurrence in \<open>ps\<close>.\<close>

definition shut :: "nat list \<Rightarrow> store \<Rightarrow> store \<Rightarrow> bool" where
  "shut ps zs zs' \<longleftrightarrow>
     (\<forall>p. cb_cpu (zs' p) = cb_cpu (zs p) - (if cb_fd (zs p) = None then 0 else int (count_list ps p)) \<and>
          cb_fd (zs' p) = cb_fd (zs p) \<and> cb_map (zs' p) = cb_map (zs p) \<and>
          cb_size (zs' p) = cb_size (zs p))"

lemma bal_refl [simp]: "bal zs zs"
  by (simp add: bal_def)

lemma bal_trans: "bal a b \<Longrightarrow> bal b c \<Longrightarrow> bal a c"
  by (simp add: bal_def)

lemma set_zh_sel [simp]:
  "cb_cpu (set_zh ch v z) = cb_cpu z" "cb_fd (set_zh ch v z) = cb_fd z"
  "cb_map (set_zh ch v z) = cb_map z" "cb_size (set_zh ch v z) = cb_size z"
  "zh ch (set_zh ch v z) = v"
  by (cases ch; simp add: set_zh_def zh_def)+

lemma bal_put_handles: "bal zs (put_handles ch ps hs zs)"
  unfolding put_handles_def
proof (induction ps arbitrary: hs zs)
  case (Cons p ps)
  show ?case
  proof (cases hs)
    case (Cons h hs')
    have "bal zs (zs(p := set_zh ch (s32 h) (zs p)))" by (simp add: bal_def)
    from bal_trans [OF this Cons.IH] show ?thesis
      by (simp only: \<open>hs = h # hs'\<close> zip_Cons_Cons fold.simps comp_apply prod.case)
  qed simp
qed simp

lemma bal_drop_handles: "bal zs (drop_handles ch ps zs)"
  unfolding drop_handles_def
proof (induction ps arbitrary: zs)
  case (Cons p ps)
  have "bal zs (zs(p := set_zh ch (-1) (zs p)))" by (simp add: bal_def)
  from bal_trans [OF this Cons.IH] show ?case by (simp only: fold.simps comp_apply)
qed simp

lemma shut_ends: "shut ps zs (ends ps zs)"
  unfolding ends_def
proof (induction ps arbitrary: zs)
  case Nil
  then show ?case by (simp add: shut_def)
next
  case (Cons p ps)
  from Cons.IH [of "cpu_end p zs"] show ?case by (auto simp: shut_def cpu_end_def)
qed

lemma begins_shut: "shut ps zs zs' \<Longrightarrow> bal zs (begins ps zs')"
  unfolding begins_def
proof (induction ps arbitrary: zs zs')
  case Nil
  then show ?case by (simp add: shut_def bal_def)
next
  case (Cons p ps)
  have "shut ps zs (cpu_begin p zs')" using Cons.prems by (auto simp: shut_def cpu_begin_def)
  from Cons.IH [OF this] show ?case by simp
qed

lemma bracket: "bal zs (begins ps (ends ps zs))"
  by (rule begins_shut [OF shut_ends])

lemma bracket_after: "bal zs zs1 \<Longrightarrow> bal zs (begins ps (ends ps zs1))"
  using bracket bal_trans by blast

lemma shut_after: "bal zs zs1 \<Longrightarrow> shut ps zs (ends ps zs1)"
  using shut_ends [of ps zs1] by (simp add: bal_def shut_def)

section \<open>Imports and releases\<close>

lemma do_import_bal: "bal (fst st) (fst (snd (do_import ch magic opt ps st)))"
  by (auto simp: do_import_def bal_put_handles split: prod.splits option.splits)

lemma do_import_keeps:
  "do_import ch magic opt ps st = (False, st') \<Longrightarrow> fst st' = fst st"
  by (auto simp: do_import_def split: prod.splits option.splits if_splits)

lemma do_release_bal: "bal (fst st) (fst (snd (do_release ch magic ps st)))"
  by (auto simp: do_release_def bal_drop_handles Let_def split: prod.splits option.splits)

lemmas import_defs = barra_gpu_import_def barra_gpu3_import_def barra_tpu_import_def
  barra_dsp_import_def barra_dsp_import_ex_def

lemmas release_defs = barra_gpu_release_def barra_gpu3_release_def barra_tpu_release_def
  barra_dsp_release_def

lemma import_bal:
  "bal (fst st) (fst (snd (barra_gpu_import ps st)))" "bal (fst st) (fst (snd (barra_gpu3_import ps st)))"
  "bal (fst st) (fst (snd (barra_tpu_import ps st)))" "bal (fst st) (fst (snd (barra_dsp_import ps st)))"
  by (simp_all add: import_defs do_import_bal)

lemma import_bal':
  "barra_gpu_import ps st = (r, zs1, s1) \<Longrightarrow> bal (fst st) zs1"
  "barra_gpu3_import ps st = (r, zs1, s1) \<Longrightarrow> bal (fst st) zs1"
  "barra_tpu_import ps st = (r, zs1, s1) \<Longrightarrow> bal (fst st) zs1"
  "barra_dsp_import ps st = (r, zs1, s1) \<Longrightarrow> bal (fst st) zs1"
  using import_bal [of st ps] by auto

lemma batch_imports_bal: "batch_imports xs st = (r, st1) \<Longrightarrow> bal (fst st) (fst st1)"
proof (induction xs arbitrary: st)
  case Nil
  then show ?case by simp
next
  case (Cons x xs)
  show ?case
  proof (cases "bstage_bad x")
    case True
    with Cons.prems show ?thesis by auto
  next
    case False
    obtain q st2 where q: "(if need_of CGpu (fst st) [] (bg_bufs x) = [] then (True, st)
        else barra_gpu_import (need_of CGpu (fst st) [] (bg_bufs x)) st) = (q, st2)" by (metis surj_pair)
    have b: "bal (fst st) (fst st2)" using q import_bal(1) by (metis bal_refl fst_conv snd_conv)
    show ?thesis
    proof (cases q)
      case True
      with Cons.prems q False have "batch_imports xs st2 = (r, st1)" by (simp add: Let_def)
      from Cons.IH [OF this] b show ?thesis by (rule bal_trans [rotated])
    next
      case f: False
      with Cons.prems q False b show ?thesis by (simp add: Let_def)
    qed
  qed
qed

lemma batch3_imports_bal: "batch3_imports xs st = (r, st1) \<Longrightarrow> bal (fst st) (fst st1)"
proof (induction xs arbitrary: st)
  case Nil
  then show ?case by simp
next
  case (Cons x xs)
  show ?case
  proof (cases "stage3_bad x \<or> None \<in> set (map bi_buf (g3_binds x))")
    case True
    with Cons.prems show ?thesis by auto
  next
    case False
    define need where "need = need_of CGpu (fst st) [] (map (the \<circ> bi_buf) (g3_binds x))"
    obtain q st2 where q: "(if need = [] then (True, st) else barra_gpu3_import need st) = (q, st2)"
      by (metis surj_pair)
    have b: "bal (fst st) (fst st2)" using q import_bal(2) by (metis bal_refl fst_conv snd_conv)
    have e: "batch3_imports (x # xs) st = (if q then batch3_imports xs st2 else (False, st2))"
      using False q by (auto simp: Let_def need_def [symmetric] split: prod.splits bool.splits)
    show ?thesis
    proof (cases q)
      case True
      with Cons.prems e have "batch3_imports xs st2 = (r, st1)" by simp
      from Cons.IH [OF this] b show ?thesis by (rule bal_trans [rotated])
    next
      case f: False
      with Cons.prems e b show ?thesis by simp
    qed
  qed
qed

lemma gpu_batch_bal: "bal (fst st) (fst (snd (barra_gpu_batch xs st)))"
  using batch_imports_bal [of xs st]
  by (auto simp: barra_gpu_batch_def Let_def bracket_after split: prod.splits bool.splits option.splits)

lemma gpu3_batch_bal: "bal (fst st) (fst (snd (barra_gpu3_batch m1 m2 xs st)))"
  using batch3_imports_bal [of xs st]
  by (auto simp: barra_gpu3_batch_def Let_def bracket_after split: prod.splits bool.splits option.splits)

lemma tpu_infer_bal: "bal (fst st) (fst (snd (barra_tpu_infer model i q st)))"
  by (auto simp: barra_tpu_infer_def Let_def bracket_after
      split: prod.splits bool.splits option.splits if_splits dest!: import_bal'(3))

lemma dsp_imports_bal: "dsp_imports ps st = (r, st1) \<Longrightarrow> bal (fst st) (fst st1)"
  using import_bal(4) [of st "need_of CDsp (fst st) [] ps"]
  by (auto simp: dsp_imports_def Let_def split: if_splits)

lemma dsp_run_bal: "bal (fst st) (fst (snd (barra_dsp_run func ps st)))"
  using dsp_imports_bal [of ps st]
  by (auto simp: barra_dsp_run_def Let_def bracket_after split: prod.splits bool.splits option.splits)

section \<open>Submit and wait\<close>

lemma dsp_submit_shut:
  "barra_dsp_submit func ps st = (r, st') \<Longrightarrow>
     (if r = None then bal (fst st) (fst st') else shut ps (fst st) (fst st'))"
  using dsp_imports_bal [of ps st]
  by (auto simp: barra_dsp_submit_def Let_def bracket_after shut_after
      split: prod.splits bool.splits option.splits if_splits)

lemma tpu_submit_shut:
  "barra_tpu_submit model i q st = (r, st') \<Longrightarrow>
     (if r then shut [i, q] (fst st) (fst st') else bal (fst st) (fst st'))"
  by (auto simp: barra_tpu_submit_def Let_def bracket_after shut_after
      split: prod.splits bool.splits option.splits if_splits dest!: import_bal'(3) intro: shut_after)

lemma dsp_wait_opens:
  "ss_sock s \<noteq> None \<Longrightarrow> fst (snd (barra_dsp_wait token ps (zs, s))) = begins ps zs"
  by (auto simp: barra_dsp_wait_def split: option.splits prod.splits)

lemma tpu_wait_opens:
  "ss_sock s \<noteq> None \<Longrightarrow> fst (snd (barra_tpu_wait i q (zs, s))) = begins [i, q] zs"
  by (auto simp: barra_tpu_wait_def split: option.splits prod.splits)

section \<open>Properties\<close>

text \<open>
  C19. A pipeline is the composition of its stages: the result is what the stages, applied one
  after the other, each on the whole result of the one before, produce, cut to the caller's
  capacity; it fails when a stage fails or fills its 1 MiB buffer. The two alternating buffers never
  let a stage read what it writes.
\<close>

theorem barra_pipeline_correct:
  "barra_pipeline True junk ops inp cap w =
     (case compose ops inp w of
        (None, w1) \<Rightarrow> (None, w1)
      | (Some x, w1) \<Rightarrow> (ret_out (take cap x), w1))"
proof -
  define p where "p = \<lparr>pi_a = fst junk, pi_b = snd junk, pi_to_b = False, pi_first = True,
    pi_sz = length inp\<rparr>"
  have cur: "pi_cur inp p = inp" by (simp add: pi_cur_def p_def)
  from pipe_stages_compose [of ops inp p w] show ?thesis
    by (auto simp: barra_pipeline_def p_def [symmetric] cur split: prod.splits option.splits)
qed

text \<open>
  C20. CPU access brackets: whatever the daemon answers and wherever the connection breaks, every
  synchronous call (import, release, one-shot dispatch, v2 and v3 batch, TPU inference, DSP run)
  leaves each buffer exactly as open for the CPU as it found it, also when a buffer occurs several
  times in the call.
\<close>

theorem barra_brackets_balanced:
  "bal zs (fst (snd (barra_gpu_import ps (zs, s)))) \<and>
   bal zs (fst (snd (barra_gpu3_import ps (zs, s)))) \<and>
   bal zs (fst (snd (barra_tpu_import ps (zs, s)))) \<and>
   bal zs (fst (snd (barra_dsp_import ps (zs, s)))) \<and>
   bal zs (fst (snd (barra_gpu_release ps (zs, s)))) \<and>
   bal zs (fst (snd (barra_gpu3_release ps (zs, s)))) \<and>
   bal zs (fst (snd (barra_tpu_release ps (zs, s)))) \<and>
   bal zs (fst (snd (barra_dsp_release ps (zs, s)))) \<and>
   bal zs (fst (snd (barra_gpu_zc spv gx gy gz ps zs w))) \<and>
   bal zs (fst (snd (barra_gpu_batch xs (zs, s)))) \<and>
   bal zs (fst (snd (barra_gpu3_batch m1 m2 ys (zs, s)))) \<and>
   bal zs (fst (snd (barra_tpu_infer model i q (zs, s)))) \<and>
   bal zs (fst (snd (barra_dsp_run func ps (zs, s))))"
proof -
  have "bal zs (fst (snd (barra_gpu_zc spv gx gy gz ps zs w)))"
    by (auto simp: barra_gpu_zc_def Let_def bracket split: option.splits prod.splits)
  then show ?thesis
    using import_bal [of "(zs, s)" ps] gpu_batch_bal [of "(zs, s)" xs] tpu_infer_bal [of "(zs, s)" model i q]
      gpu3_batch_bal [of "(zs, s)" m1 m2 ys] dsp_run_bal [of "(zs, s)" func ps]
      do_release_bal [of "(zs, s)"]
    by (simp add: release_defs)
qed

text \<open>
  The split DSP calls: a wait on the live session reopens the buffers of a submitted job, so the
  pair is balanced; but when the connection has died in between (here: in the wait for another job),
  the wait returns at once with an error and leaves the buffers of the job closed for good.
\<close>

lemma shut_begins_bal: "shut ps zs zs1 \<Longrightarrow> bal zs (begins ps zs1)"
  by (rule begins_shut)

theorem dsp_wait_brackets:
  assumes "barra_dsp_submit func ps (zs, s) = (Some token, zs1, s1)"
  shows "bal zs (fst (snd (barra_dsp_wait token ps (zs1, s1)))) \<and>
    barra_dsp_wait token ps (zs1, dead s1) = (None, zs1, dead s1) \<and>
    (\<forall>p\<in>set ps. cb_fd (zs p) \<noteq> None \<longrightarrow> cb_cpu (zs1 p) < cb_cpu (zs p))"
proof -
  have sh: "shut ps zs zs1" using dsp_submit_shut [OF assms] by simp
  have "ss_sock s1 \<noteq> None"
    using assms by (auto simp: barra_dsp_submit_def Let_def split: prod.splits bool.splits option.splits if_splits)
  then have "fst (snd (barra_dsp_wait token ps (zs1, s1))) = begins ps zs1" by (rule dsp_wait_opens)
  moreover have "cb_cpu (zs1 p) < cb_cpu (zs p)" if "p \<in> set ps" "cb_fd (zs p) \<noteq> None" for p
  proof -
    have "0 < count_list ps p" using that(1) count_list_0_iff [of ps p] by simp
    moreover have "cb_cpu (zs1 p) = cb_cpu (zs p) - int (count_list ps p)"
      using sh that(2) by (auto simp: shut_def)
    ultimately show ?thesis by simp
  qed
  moreover have "barra_dsp_wait token ps (zs1, dead s1) = (None, zs1, dead s1)"
    by (simp add: barra_dsp_wait_def dead_def)
  ultimately show ?thesis using begins_shut [OF sh] by simp
qed

definition cbuf0 :: cbuf where
  "cbuf0 = \<lparr>cb_fd = Some 3, cb_map = True, cb_size = 4096, cb_gpu = -1, cb_tpu = -1, cb_dsp = 0,
     cb_cpu = 1\<rparr>"

definition dsess0 :: "byte list \<Rightarrow> sess" where
  "dsess0 answer = \<lparr>ss_sock = Some \<lparr>k_in = answer, k_out = [], k_room = 1000\<rparr>, ss_n = 0, ss_auto = True\<rparr>"

theorem dsp_wait_brackets_witness:
  "\<exists>zs1 s1. barra_dsp_submit [97] [0] (\<lambda>p. cbuf0, dsess0 (le32 0 @ le32 5)) = (Some 5, zs1, s1) \<and>
    (bal (\<lambda>p. cbuf0) (fst (snd (barra_dsp_wait 5 [0] (zs1, s1)))) \<and>
     barra_dsp_wait 5 [0] (zs1, dead s1) = (None, zs1, dead s1) \<and>
     (\<forall>p\<in>set [0]. cb_fd cbuf0 \<noteq> None \<longrightarrow> cb_cpu (zs1 p) < cb_cpu cbuf0))"
proof -
  have need: "need_of CDsp (\<lambda>p. cbuf0) [] [0] = []" by (simp add: zh_def cbuf0_def)
  define k where "k = the (ss_sock (dsess0 (le32 0 @ le32 5)))"
  have k: "k_in k = le32 0 @ le32 5" "k_room k = 1000" "ss_sock (dsess0 (le32 0 @ le32 5)) = Some k"
    by (simp_all add: k_def dsess0_def)
  have pay: "24 + sum_list (map length [[97], dsp_handles [0] zs]) \<le> k_room k" for zs
    by (simp add: k dsp_handles_def)
  from c_req_ok [OF _ pay, of "[]" 8] obtain k' where
    q: "c_req [GXPZ_MAGIC, 5, 1, 1, 0, 0] [] [[97], dsp_handles [0] (ends [0] (\<lambda>p. cbuf0))] 8 k =
      (Some (le32 0 @ le32 5), k')" by (force simp: k)
  have "fst (barra_dsp_submit [97] [0] (\<lambda>p. cbuf0, dsess0 (le32 0 @ le32 5))) = Some 5"
    using q by (simp add: barra_dsp_submit_def dsp_bad_def dsp_imports_def need ZC_MAX_def k Let_def
        le_nat_le_bytes del: need_of.simps)
  then obtain zs1 s1 where r: "barra_dsp_submit [97] [0] (\<lambda>p. cbuf0, dsess0 (le32 0 @ le32 5)) = (Some 5, zs1, s1)"
    by (metis prod.collapse)
  from dsp_wait_brackets [OF r] r show ?thesis by blast
qed

end
