(* ===== verification/Gxpd3_Dsp.thy ===== *)
theory Gxpd3_Dsp
  imports Sys
begin

text \<open>
  The DSP daemon src/src/hwbridge/gxpd3.c: kernel table, name resolution, one run on a private
  buffer (\<open>gxp_run\<close>), the probe of the device and the inline protocol GXPD. libgxp is a parameter:
  which calls succeed, what a kernel computes, which functions a library has. CreateRequest and the
  setters, whose results the code does not look at, are taken to work.
\<close>

section \<open>Environment\<close>

record dworld = world +
  d_mem :: "nat \<Rightarrow> byte list"
  d_sys :: "(byte list \<times> nat) list"
  d_exit :: bool

record gxpenv =
  gx_ok :: "nat \<Rightarrow> bool"
  gx_load :: "byte list \<Rightarrow> nat option"
  gx_getfn :: "byte list \<Rightarrow> nat option"
  gx_kernel :: "nat \<Rightarrow> byte list list \<Rightarrow> int \<times> byte list list"
  gx_us :: "nat \<Rightarrow> nat"
  gx_imp :: bool
  gx_async :: bool
  gx_wait :: bool

definition GX_MAGIC :: nat where "GX_MAGIC = 0x47585044"
definition GX_MAGIC_ZC :: nat where "GX_MAGIC_ZC = 0x47585A32"
definition MAXNAME :: nat where "MAXNAME = 128"
definition GX_MAXIO :: nat where "GX_MAXIO = 16 * 1024 * 1024"
definition MAXKERN :: nat where "MAXKERN = 64"

section \<open>Kernel table\<close>

record kern =
  k_name :: "byte list"
  k_file :: "byte list"
  k_min :: nat
  k_fn :: "nat option"

definition kern_of :: "string \<Rightarrow> string \<Rightarrow> nat \<Rightarrow> kern" where
  "kern_of n f m = \<lparr>k_name = str n, k_file = str f, k_min = m, k_fn = None\<rparr>"

definition base_kernels :: "kern list" where
  "base_kernels =
     [kern_of ''vscale'' ''vscale.elf'' 8, kern_of ''vadd'' ''ker_vadd.elf'' 32,
      kern_of ''dot'' ''ker_dot.elf'' 32, kern_of ''matmul2x2'' ''ker_mm.elf'' 48,
      kern_of ''sum'' ''ker_sumloop.elf'' 8, kern_of ''softmul'' ''ker_softmul2.elf'' 12,
      kern_of ''argmax'' ''ker_argmax.elf'' 8]"

definition kern_min_in :: "kern list \<Rightarrow> byte list \<Rightarrow> nat" where
  "kern_min_in tab name = (case find (\<lambda>k. k_name k = name) tab of None \<Rightarrow> 0 | Some k \<Rightarrow> k_min k)"

definition kern_count0 :: "byte list \<Rightarrow> bool" where
  "kern_count0 name \<longleftrightarrow> name = str ''sum'' \<or> name = str ''argmax''"

text \<open>Files \<open>ker_<name>.elf\<close> of the kernel directory that are not in the table yet.\<close>

definition is_ker_file :: "byte list \<Rightarrow> bool" where
  "is_ker_file f \<longleftrightarrow>
     take 4 f = str ''ker_'' \<and> 9 \<le> length f \<and> drop (length f - 4) f = str ''.elf''"

definition ker_name :: "byte list \<Rightarrow> byte list" where
  "ker_name f = take (length f - 8) (drop 4 f)"

fun scan_kernels :: "byte list list \<Rightarrow> kern list \<Rightarrow> kern list" where
  "scan_kernels [] tab = tab"
| "scan_kernels (f # fs) tab =
     (if length tab \<ge> MAXKERN then tab
      else if \<not> is_ker_file f \<or> f \<in> k_file ` set tab then scan_kernels fs tab
      else scan_kernels fs (tab @ [\<lparr>k_name = ker_name f, k_file = f, k_min = 0, k_fn = None\<rparr>]))"

text \<open>The loading loop of \<open>gxp_init\<close>: a missing or broken file leaves the kernel without function.\<close>

definition load_kernels :: "gxpenv \<Rightarrow> kern list \<Rightarrow> kern list" where
  "load_kernels G tab = map (\<lambda>k. k\<lparr>k_fn := gx_load G (k_file k)\<rparr>) tab"

text \<open>
  Name resolution: kernels with a function, then the functions of the system library already looked
  up (at most 16 are remembered), then the system library.
\<close>

definition resolve_fn ::
  "gxpenv \<Rightarrow> kern list \<Rightarrow> byte list \<Rightarrow> (byte list \<times> nat) list \<Rightarrow> nat option \<times> (byte list \<times> nat) list" where
  "resolve_fn G tab name sys =
     (case find (\<lambda>k. k_fn k \<noteq> None \<and> k_name k = name) tab of
        Some k \<Rightarrow> (k_fn k, sys)
      | None \<Rightarrow>
     (case find (\<lambda>p. fst p = name) sys of
        Some p \<Rightarrow> (Some (snd p), sys)
      | None \<Rightarrow>
     (case gx_getfn G name of
        None \<Rightarrow> (None, sys)
      | Some fn \<Rightarrow>
          (Some fn, if length sys < 16 then sys @ [(take (MAXNAME - 1) name, fn)] else sys))))"

definition d_resolve :: "gxpenv \<Rightarrow> kern list \<Rightarrow> byte list \<Rightarrow> dworld \<Rightarrow> nat option \<times> dworld" where
  "d_resolve G tab name w =
     (case resolve_fn G tab name (d_sys w) of (r, sys) \<Rightarrow> (r, w\<lparr>d_sys := sys\<rparr>))"

section \<open>Runs\<close>

definition ext_make :: "'a world_scheme \<Rightarrow> nat \<times> 'a world_scheme" where
  "ext_make w =
     (Suc (w_tick w), w\<lparr>w_tick := Suc (w_tick w), w_live := add_mset (Suc (w_tick w)) (w_live w)\<rparr>)"

text \<open>
  \<open>gxp_run\<close>: status with return value, time and output. \<open>RunSync\<close> computes in place, so the output is
  what the kernel leaves in the buffer.
\<close>

definition gxp_run ::
  "gxpenv \<Rightarrow> kern list \<Rightarrow> byte list \<Rightarrow> byte list \<Rightarrow> dworld \<Rightarrow>
   nat \<times> int \<times> nat \<times> byte list \<times> dworld" where
  "gxp_run G tab name inp w =
     (case d_resolve G tab name w of
        (None, w1) \<Rightarrow> (4, 0, 0, [], w1)
      | (Some fn, w1) \<Rightarrow>
     (case ext_new (gx_ok G) w1 of
        (None, w2) \<Rightarrow> (5, 0, 0, [], w2)
      | (Some buf, w2) \<Rightarrow>
     (case ext_try (gx_ok G) w2 of
        (False, w3) \<Rightarrow> (6, 0, 0, [], ext_free buf w3)
      | (True, w3) \<Rightarrow>
     (case ext_make w3 of
        (req, w4) \<Rightarrow>
     (case ext_try (gx_ok G) w4 of
        (r, w5) \<Rightarrow>
          (let w6 = ext_free buf (ext_free req w5) in
           if r then
             (case gx_kernel G fn [inp] of
                (rv, outs) \<Rightarrow> (0, rv, gx_us G (w_tick w5), take (length inp) (over (hd (outs @ [inp])) inp), w6))
           else (7, 0, 0, [], w6)))))))"

text \<open>
  \<open>device_alive\<close>: run reverse_string on a small buffer. \<open>guard_device\<close>: after an error with a dead
  device the process exits; the kernel then closes and frees everything.
\<close>

definition device_alive :: "gxpenv \<Rightarrow> kern list \<Rightarrow> dworld \<Rightarrow> bool \<times> dworld" where
  "device_alive G tab w =
     (case ext_new (gx_ok G) w of
        (None, w1) \<Rightarrow> (False, w1)
      | (Some b, w1) \<Rightarrow>
     (case ext_try (gx_ok G) w1 of
        (False, w2) \<Rightarrow> (False, ext_free b w2)
      | (True, w2) \<Rightarrow>
     (case d_resolve G tab (str ''reverse_string'') w2 of
        (None, w3) \<Rightarrow> (False, ext_free b w3)
      | (Some fn, w3) \<Rightarrow>
     (case ext_make w3 of
        (req, w4) \<Rightarrow>
     (case ext_try (gx_ok G) w4 of
        (r, w5) \<Rightarrow> (r, ext_free b (ext_free req w5)))))))"

definition guard_device :: "gxpenv \<Rightarrow> kern list \<Rightarrow> nat \<Rightarrow> dworld \<Rightarrow> dworld" where
  "guard_device G tab rc w =
     (if rc = 0 then w
      else (case device_alive G tab w of (ok, w1) \<Rightarrow> if ok then w1 else w1\<lparr>d_exit := True\<rparr>))"

section \<open>The inline protocol\<close>

definition i64 :: "int \<Rightarrow> byte list" where
  "i64 v = le64 (nat (v mod 2 ^ 64))"

definition put_st :: "nat \<Rightarrow> conn \<Rightarrow> conn" where
  "put_st st c = put (le32 st) c"

definition inline_reply :: "nat \<Rightarrow> nat \<times> int \<times> nat \<times> byte list \<Rightarrow> conn \<Rightarrow> conn" where
  "inline_reply isz r c =
     (case r of (st, rv, us, out) \<Rightarrow>
        if st = 0
        then put out (put (le32 isz) (put (le32 (us mod 2 ^ 32)) (put (i64 rv) (put_st 0 c))))
        else put_st st c)"

definition gx_serve_inline :: "gxpenv \<Rightarrow> kern list \<Rightarrow> conn \<Rightarrow> dworld \<Rightarrow> conn \<times> dworld" where
  "gx_serve_inline G tab c w =
     (case rd 8 c of
        (None, c1) \<Rightarrow> (c1, w)
      | (Some two, c1) \<Rightarrow>
     (let nlen = le_nat (take 4 two); isz = le_nat (drop 4 two) in
      if nlen = 0 \<or> nlen \<ge> MAXNAME \<or> isz = 0 \<or> isz > GX_MAXIO then (put_st 1 c1, w)
      else
     (case rd nlen c1 of
        (None, c2) \<Rightarrow> (c2, w)
      | (Some nb, c2) \<Rightarrow>
     (let name = cstr nb; mi = kern_min_in tab name in
      if mi \<noteq> 0 \<and> isz < mi then (put_st 1 c2, w)
      else
     (case ext_try (gx_ok G) w of
        (False, w1) \<Rightarrow> (put_st 8 c2, w1)
      | (True, w1) \<Rightarrow>
     (case rd isz c2 of
        (None, c3) \<Rightarrow> (c3, w1)
      | (Some inp, c3) \<Rightarrow>
          if kern_count0 name \<and> le_nat (take 4 inp) * 4 > isz then (put_st 1 c3, w1)
          else
            (case gxp_run G tab name inp w1 of
               (st, rv, us, out, w2) \<Rightarrow> (inline_reply isz (st, rv, us, out) c3, w2))))))))"

section \<open>Resources\<close>

lemma d_upd [simp]:
  "w_live (w\<lparr>d_mem := m\<rparr>) = w_live w" "w_fds (w\<lparr>d_mem := m\<rparr>) = w_fds w" "w_bad (w\<lparr>d_mem := m\<rparr>) = w_bad w"
  "w_live (w\<lparr>d_sys := s\<rparr>) = w_live w" "w_fds (w\<lparr>d_sys := s\<rparr>) = w_fds w" "w_bad (w\<lparr>d_sys := s\<rparr>) = w_bad w"
  "w_live (w\<lparr>d_exit := b\<rparr>) = w_live w" "w_fds (w\<lparr>d_exit := b\<rparr>) = w_fds w" "w_bad (w\<lparr>d_exit := b\<rparr>) = w_bad w"
  by (cases w; simp)+

lemma d_more:
  "world.more w' = world.more w \<Longrightarrow> d_mem w' = d_mem w \<and> d_sys w' = d_sys w \<and> d_exit w' = d_exit w"
  by (cases w; cases w') simp

text \<open>\<open>dw_ok L F w\<close>: the process runs and holds the objects \<open>L\<close> and the descriptors \<open>F\<close>.\<close>

definition dw_ok :: "nat multiset \<Rightarrow> fd multiset \<Rightarrow> dworld \<Rightarrow> bool" where
  "dw_ok L F w \<longleftrightarrow> w_live w = L \<and> w_fds w = F \<and> \<not> w_bad w \<and> \<not> d_exit w"

lemma dw_ok_step:
  "dw_ok L F w \<Longrightarrow> world.more w' = world.more w \<Longrightarrow> w_live w' = L' \<Longrightarrow> w_fds w' = F' \<Longrightarrow>
     w_bad w' = w_bad w \<Longrightarrow> dw_ok L' F' w'"
  using d_more [of w' w] by (simp add: dw_ok_def)

lemma dw_ok_upd [simp]:
  "dw_ok L F (w\<lparr>d_mem := m\<rparr>) = dw_ok L F w" "dw_ok L F (w\<lparr>d_sys := s\<rparr>) = dw_ok L F w"
  by (simp_all add: dw_ok_def)

lemma dw_ok_free: "dw_ok (L + {#x#}) F w \<Longrightarrow> dw_ok L F (ext_free x w)"
  by (rule dw_ok_step, assumption) (auto simp: dw_ok_def acct_simps)

lemma dw_ok_close: "dw_ok L (F + {#f#}) w \<Longrightarrow> dw_ok L F (close_fd f w)"
  by (rule dw_ok_step, assumption) (auto simp: dw_ok_def acct_simps)

lemma dw_ok_close_all: "dw_ok L (F + mset fs) w \<Longrightarrow> dw_ok L F (close_all fs w)"
  by (rule dw_ok_step, assumption) (auto simp: dw_ok_def acct_simps)

lemma dw_ok_give: "dw_ok L (F + {#f#}) w \<Longrightarrow> dw_ok L F (fd_give f w)"
  by (rule dw_ok_step, assumption) (auto simp: dw_ok_def acct_simps)

lemma dw_ok_new:
  "ext_new ok w = (r, w') \<Longrightarrow> dw_ok L F w \<Longrightarrow>
     dw_ok (L + (case r of None \<Rightarrow> {#} | Some x \<Rightarrow> {#x#})) F w'"
  using ext_new_acct [of ok w r w'] d_more [of w' w] by (simp add: dw_ok_def)

lemma dw_ok_make: "ext_make w = (r, w') \<Longrightarrow> dw_ok L F w \<Longrightarrow> dw_ok (L + {#r#}) F w'"
  by (auto simp: ext_make_def dw_ok_def)

lemma dw_ok_try: "ext_try ok w = (r, w') \<Longrightarrow> dw_ok L F w \<Longrightarrow> dw_ok L F w'"
  using ext_try_acct [of ok w r w'] d_more [of w' w] by (simp add: dw_ok_def)

lemma dw_ok_dup:
  "fd_dup ok f w = (r, w') \<Longrightarrow> dw_ok L F w \<Longrightarrow>
     dw_ok L (F + (case r of None \<Rightarrow> {#} | Some x \<Rightarrow> {#x#})) w'"
  using fd_dup_acct [of ok f w r w'] d_more [of w' w] by (simp add: dw_ok_def)

lemma dw_ok_resolve: "d_resolve G tab name w = (r, w') \<Longrightarrow> dw_ok L F w \<Longrightarrow> dw_ok L F w'"
  by (auto simp: d_resolve_def split: prod.splits)

lemma gxp_run_ok:
  assumes g: "gxp_run G tab name inp w = (st, rv, us, out, w')" and w: "dw_ok L F w"
  shows "dw_ok L F w'"
proof -
  obtain f w1 where r: "d_resolve G tab name w = (f, w1)" by (metis surj_pair)
  note w1 = dw_ok_resolve [OF r w]
  show ?thesis
  proof (cases f)
    case None
    with g r w1 show ?thesis by (simp add: gxp_run_def)
  next
    case (Some fn)
    obtain b w2 where b: "ext_new (gx_ok G) w1 = (b, w2)" by (metis surj_pair)
    note w2 = dw_ok_new [OF b w1]
    show ?thesis
    proof (cases b)
      case None
      with g r Some b w2 show ?thesis by (simp add: gxp_run_def)
    next
      case b': (Some buf)
      obtain h w3 where h: "ext_try (gx_ok G) w2 = (h, w3)" by (metis surj_pair)
      have w3: "dw_ok (L + {#buf#}) F w3" using dw_ok_try [OF h w2] b' by simp
      obtain req w4 where m: "ext_make w3 = (req, w4)" by (metis surj_pair)
      obtain k w5 where k: "ext_try (gx_ok G) w4 = (k, w5)" by (metis surj_pair)
      have fin: "dw_ok L F (ext_free buf (ext_free req w5))"
        by (intro dw_ok_free dw_ok_try [OF k] dw_ok_make [OF m] w3)
      show ?thesis
        using g r Some b b' h m k fin dw_ok_free [OF w3]
        by (cases h; cases k) (auto simp: gxp_run_def Let_def split: prod.splits)
    qed
  qed
qed

lemma device_alive_ok:
  assumes g: "device_alive G tab w = (r, w')" and w: "dw_ok L F w"
  shows "dw_ok L F w'"
proof -
  obtain b w1 where b: "ext_new (gx_ok G) w = (b, w1)" by (metis surj_pair)
  note w1 = dw_ok_new [OF b w]
  show ?thesis
  proof (cases b)
    case None
    with g b w1 show ?thesis by (simp add: device_alive_def)
  next
    case (Some x)
    obtain h w2 where h: "ext_try (gx_ok G) w1 = (h, w2)" by (metis surj_pair)
    have w2: "dw_ok (L + {#x#}) F w2" using dw_ok_try [OF h w1] Some by simp
    obtain f w3 where f: "d_resolve G tab (str ''reverse_string'') w2 = (f, w3)" by (metis surj_pair)
    note w3 = dw_ok_resolve [OF f w2]
    obtain req w4 where m: "ext_make w3 = (req, w4)" by (metis surj_pair)
    obtain k w5 where k: "ext_try (gx_ok G) w4 = (k, w5)" by (metis surj_pair)
    have fin: "dw_ok L F (ext_free x (ext_free req w5))"
      by (intro dw_ok_free dw_ok_try [OF k] dw_ok_make [OF m] w3)
    show ?thesis
      using g b Some h f m k fin dw_ok_free [OF w2] dw_ok_free [OF w3]
      by (cases h; cases f) (auto simp: device_alive_def)
  qed
qed

text \<open>After an error either the device answers the probe, or the process is gone.\<close>

definition ok_or_exit :: "nat multiset \<Rightarrow> fd multiset \<Rightarrow> dworld \<Rightarrow> bool" where
  "ok_or_exit L F w \<longleftrightarrow> d_exit w \<or> dw_ok L F w"

lemma guard_device_ok: "dw_ok L F w \<Longrightarrow> ok_or_exit L F (guard_device G tab rc w)"
  using device_alive_ok [of G tab w _ _ L F]
  by (auto simp: guard_device_def ok_or_exit_def split: prod.splits)

lemma gx_serve_inline_ok:
  assumes s: "gx_serve_inline G tab c w = (c', w')" and w: "dw_ok L F w"
  shows "dw_ok L F w'"
  using s w unfolding gx_serve_inline_def Let_def
  by (auto split: prod.splits option.splits if_splits bool.splits dest: dw_ok_try gxp_run_ok)

end
