(* ===== verification/Gxpd3_Session.thy ===== *)
theory Gxpd3_Session
  imports Gxpd3_Dsp
begin

text \<open>
  The zero-copy session GXPZ of src/src/hwbridge/gxpd3.c (\<open>serve_zc\<close>): IMPORT, RUN, RELEASE, LIST,
  SUBMIT and WAIT with up to 32 jobs in flight, and the dispatcher \<open>serve\<close>.
\<close>

definition GX_MAXH :: nat where "GX_MAXH = 32"
definition GX_MAXBUF :: nat where "GX_MAXBUF = 8"
definition GX_INFLIGHT :: nat where "GX_INFLIGHT = 32"
definition NO_TOKEN :: nat where "NO_TOKEN = 0xffffffff"

section \<open>Session state\<close>

record dbuf =
  db_buf :: nat
  db_fd :: fd
  db_size :: nat

text \<open>
  A job in flight: its request object, the function, the files of its buffers in order, and the
  32-bit mask of the handles it refers to.
\<close>

record job =
  j_req :: nat
  j_fn :: nat
  j_files :: "nat list"
  j_mask :: "32 word"

record gsess =
  q_c :: conn
  q_h :: "dbuf option list"
  q_jobs :: "job option list"
  q_w :: dworld

definition db_objs :: "dbuf \<Rightarrow> nat multiset" where "db_objs z = {#db_buf z#}"
definition db_fds :: "dbuf \<Rightarrow> fd multiset" where "db_fds z = {#db_fd z#}"
definition job_objs :: "job \<Rightarrow> nat multiset" where "job_objs j = {#j_req j#}"

definition q_put :: "byte list \<Rightarrow> gsess \<Rightarrow> gsess" where
  "q_put bs s = s\<lparr>q_c := put bs (q_c s)\<rparr>"

definition gz_release :: "dbuf \<Rightarrow> dworld \<Rightarrow> dworld" where
  "gz_release z w = close_fd (db_fd z) (ext_free (db_buf z) w)"

text \<open>\<open>rmask|=(1u<<hd[i])\<close> and the test \<open>inflight_h[s]&(1u<<hd[i])\<close>.\<close>

definition hbit :: "nat \<Rightarrow> 32 word" where "hbit k = push_bit k 1"

definition rmask :: "nat list \<Rightarrow> 32 word" where
  "rmask hs = fold (\<lambda>k m. or m (hbit k)) hs 0"

definition refers :: "job \<Rightarrow> nat \<Rightarrow> bool" where
  "refers j k \<longleftrightarrow> and (j_mask j) (hbit k) \<noteq> 0"

section \<open>IMPORT\<close>

definition gx_import_one :: "gxpenv \<Rightarrow> fd \<Rightarrow> dworld \<Rightarrow> nat option \<times> dworld" where
  "gx_import_one G f w =
     (case fd_dup (gx_ok G) f w of
        (None, w1) \<Rightarrow> (None, w1)
      | (Some d, w1) \<Rightarrow>
     (case ext_new (gx_ok G) w1 of
        (None, w2) \<Rightarrow> (None, close_fd d w2)
      | (Some b, w2) \<Rightarrow>
     (case ext_try (gx_ok G) (fd_give d w2) of
        (False, w3) \<Rightarrow> (None, ext_free b w3)
      | (True, w3) \<Rightarrow> (Some b, w3))))"

fun x_imports ::
  "gxpenv \<Rightarrow> (fd \<times> nat) list \<Rightarrow> dbuf option list \<Rightarrow> dworld \<Rightarrow>
   bool \<times> nat list \<times> fd list \<times> dbuf option list \<times> dworld" where
  "x_imports G [] h w = (True, [], [], h, w)"
| "x_imports G ((f, sz) # qs) h w =
     (case free_slot h of
        None \<Rightarrow> (False, [], f # map fst qs, h, w)
      | Some k \<Rightarrow>
          if sz = 0 \<or> sz > GX_MAXIO then (False, [], f # map fst qs, h, w)
          else
         (case gx_import_one G f w of
            (None, w1) \<Rightarrow> (False, [], f # map fst qs, h, w1)
          | (Some b, w1) \<Rightarrow>
         (case x_imports G qs (h[k := Some \<lparr>db_buf = b, db_fd = f, db_size = sz\<rparr>]) w1 of
            (r, ks, rest, h2, w2) \<Rightarrow> (r, k # ks, rest, h2, w2))))"

definition x_import :: "gxpenv \<Rightarrow> nat \<Rightarrow> fd list \<Rightarrow> gsess \<Rightarrow> fd list \<times> gsess" where
  "x_import G nbuf fds s =
     (if \<not> gx_imp G \<or> nbuf = 0 \<or> nbuf > GX_MAXBUF \<or> nbuf \<noteq> length fds then (fds, q_put (le32 1) s)
      else
     (case rd (nbuf * 4) (q_c s) of
        (None, c1) \<Rightarrow> (fds, q_put (le32 1) (s\<lparr>q_c := c1\<rparr>))
      | (Some bs, c1) \<Rightarrow>
     (case x_imports G (zip fds (get32s nbuf bs)) (q_h s) (q_w s) of
        (r, ks, rest, h1, w1) \<Rightarrow>
          (let s1 = s\<lparr>q_c := c1, q_h := h1, q_w := w1\<rparr> in
           (rest, if r then q_put (put32s ks) (q_put (le32 0) s1) else q_put (le32 1) s1)))))"

section \<open>RUN, SUBMIT and WAIT\<close>

text \<open>The kernel works in place on the files of its buffers, in the order of the handles.\<close>

fun store_files :: "nat list \<Rightarrow> byte list list \<Rightarrow> (nat \<Rightarrow> byte list) \<Rightarrow> nat \<Rightarrow> byte list" where
  "store_files (f # fs) (b # bs) m = store_files fs bs (m(f := over b (m f)))"
| "store_files _ _ m = m"

definition dsp_effect :: "gxpenv \<Rightarrow> nat \<Rightarrow> nat list \<Rightarrow> dworld \<Rightarrow> int \<times> dworld" where
  "dsp_effect G fn fs w =
     (case gx_kernel G fn (map (d_mem w) fs) of
        (rv, outs) \<Rightarrow> (rv, w\<lparr>d_mem := store_files fs outs (d_mem w)\<rparr>))"

text \<open>
  The name and the handles of RUN and SUBMIT. The checks of the body: the function exists, every
  handle is in use, the first buffer covers the fixed accesses of the kernel.
\<close>

definition read_call ::
  "nat \<Rightarrow> nat \<Rightarrow> conn \<Rightarrow> (byte list \<times> nat list) option \<times> conn" where
  "read_call nlen nh c =
     (if nlen = 0 \<or> nlen \<ge> MAXNAME \<or> nh = 0 \<or> nh > GX_MAXBUF then (None, c)
      else
     (case rd nlen c of
        (None, c1) \<Rightarrow> (None, c1)
      | (Some nb, c1) \<Rightarrow>
     (case rd (nh * 4) c1 of
        (None, c2) \<Rightarrow> (None, c2)
      | (Some hb, c2) \<Rightarrow> (Some (cstr nb, get32s nh hb), c2))))"

definition call_ok :: "kern list \<Rightarrow> dbuf option list \<Rightarrow> byte list \<Rightarrow> nat list \<Rightarrow> nat option \<Rightarrow> bool" where
  "call_ok tab h name hs fn \<longleftrightarrow>
     fn \<noteq> None \<and> (\<forall>k\<in>set hs. slot_get h k \<noteq> None) \<and>
     (kern_min_in tab name \<noteq> 0 \<longrightarrow> kern_min_in tab name \<le> db_size (the (slot_get h (hd hs))))"

definition call_files :: "dbuf option list \<Rightarrow> nat list \<Rightarrow> nat list" where
  "call_files h hs = map (\<lambda>k. snd (db_fd (the (slot_get h k)))) hs"

definition run_reply :: "nat \<Rightarrow> int \<Rightarrow> nat \<Rightarrow> gsess \<Rightarrow> gsess" where
  "run_reply st rv us s = q_put (le32 (us mod 2 ^ 32)) (q_put (i64 rv) (q_put (le32 st) s))"

text \<open>\<open>RunSync\<close> with a request made for it: status 0 or 7.\<close>

definition run_sync :: "gxpenv \<Rightarrow> nat \<Rightarrow> nat list \<Rightarrow> dworld \<Rightarrow> nat \<times> int \<times> nat \<times> dworld" where
  "run_sync G fn fs w =
     (case ext_make w of
        (req, w1) \<Rightarrow>
     (case ext_try (gx_ok G) w1 of
        (False, w2) \<Rightarrow> (7, 0, 0, ext_free req w2)
      | (True, w2) \<Rightarrow>
          (case dsp_effect G fn fs w2 of
             (rv, w3) \<Rightarrow> (0, rv, gx_us G (w_tick w2), ext_free req w3))))"

definition guard :: "gxpenv \<Rightarrow> kern list \<Rightarrow> nat \<Rightarrow> gsess \<Rightarrow> gsess" where
  "guard G tab st s = s\<lparr>q_w := guard_device G tab st (q_w s)\<rparr>"

definition x_run :: "gxpenv \<Rightarrow> kern list \<Rightarrow> nat \<Rightarrow> nat \<Rightarrow> gsess \<Rightarrow> gsess" where
  "x_run G tab nlen nh s =
     (case read_call nlen nh (q_c s) of
        (None, c1) \<Rightarrow> run_reply 1 0 0 (s\<lparr>q_c := c1\<rparr>)
      | (Some (name, hs), c1) \<Rightarrow>
     (case d_resolve G tab name (q_w s) of
        (fn, w1) \<Rightarrow>
          (let s1 = s\<lparr>q_c := c1, q_w := w1\<rparr> in
           if call_ok tab (q_h s) name hs fn then
             (case run_sync G (the fn) (call_files (q_h s) hs) w1 of
                (st, rv, us, w2) \<Rightarrow> guard G tab st (run_reply st rv us (s1\<lparr>q_w := w2\<rparr>)))
           else guard G tab 4 (run_reply 4 0 0 s1))))"

definition sub_reply :: "nat \<Rightarrow> nat \<Rightarrow> gsess \<Rightarrow> gsess" where
  "sub_reply st token s = q_put (le32 token) (q_put (le32 st) s)"

definition x_submit :: "gxpenv \<Rightarrow> kern list \<Rightarrow> nat \<Rightarrow> nat \<Rightarrow> gsess \<Rightarrow> gsess" where
  "x_submit G tab nlen nh s =
     (case (if gx_async G then read_call nlen nh (q_c s) else (None, q_c s)) of
        (None, c1) \<Rightarrow> sub_reply 1 NO_TOKEN (s\<lparr>q_c := c1\<rparr>)
      | (Some (name, hs), c1) \<Rightarrow>
     (case d_resolve G tab name (q_w s) of
        (fn, w1) \<Rightarrow>
          (let s1 = s\<lparr>q_c := c1, q_w := w1\<rparr> in
           case (if call_ok tab (q_h s) name hs fn then free_slot (q_jobs s) else None) of
             None \<Rightarrow> guard G tab 4 (sub_reply 4 NO_TOKEN s1)
           | Some t \<Rightarrow>
          (case ext_make w1 of
             (req, w2) \<Rightarrow>
          (case ext_try (gx_ok G) w2 of
             (False, w3) \<Rightarrow> guard G tab 7 (sub_reply 7 NO_TOKEN (s1\<lparr>q_w := ext_free req w3\<rparr>))
           | (True, w3) \<Rightarrow>
               (let j = \<lparr>j_req = req, j_fn = the fn, j_files = call_files (q_h s) hs, j_mask = rmask hs\<rparr> in
                guard G tab 0 (sub_reply 0 t (s1\<lparr>q_jobs := (q_jobs s)[t := Some j], q_w := w3\<rparr>))))))))"

text \<open>
  Waiting for a job; its effect on memory is there when the wait returns with success.
\<close>

definition job_wait :: "gxpenv \<Rightarrow> job \<Rightarrow> dworld \<Rightarrow> int option \<times> dworld" where
  "job_wait G j w =
     (case ext_try (gx_ok G) w of
        (False, w1) \<Rightarrow> (None, w1)
      | (True, w1) \<Rightarrow> (case dsp_effect G (j_fn j) (j_files j) w1 of (rv, w2) \<Rightarrow> (Some rv, w2)))"

definition x_wait :: "gxpenv \<Rightarrow> kern list \<Rightarrow> nat \<Rightarrow> gsess \<Rightarrow> gsess" where
  "x_wait G tab token s =
     (case (if gx_wait G then slot_get (q_jobs s) token else None) of
        None \<Rightarrow> run_reply 1 0 0 s
      | Some j \<Rightarrow>
     (case job_wait G j (q_w s) of
        (r, w1) \<Rightarrow>
          (let st = (if r = None then 7 else 0); rv = (case r of None \<Rightarrow> 0 | Some v \<Rightarrow> v);
               us = (if r = None then 0 else gx_us G (w_tick w1));
               s1 = s\<lparr>q_jobs := slot_clear (q_jobs s) token, q_w := ext_free (j_req j) w1\<rparr> in
           guard G tab st (run_reply st rv us s1))))"

section \<open>RELEASE and LIST\<close>

text \<open>
  \<open>drain p\<close>: wait for the jobs that satisfy \<open>p\<close>, in table order, and free their requests.
\<close>

fun drain :: "gxpenv \<Rightarrow> (job \<Rightarrow> bool) \<Rightarrow> job option list \<Rightarrow> dworld \<Rightarrow> job option list \<times> dworld" where
  "drain G p [] w = ([], w)"
| "drain G p (None # js) w = (case drain G p js w of (js1, w1) \<Rightarrow> (None # js1, w1))"
| "drain G p (Some j # js) w =
     (if p j then
        (case drain G p js
            (ext_free (j_req j) (if gx_wait G then snd (job_wait G j w) else w)) of
           (js1, w1) \<Rightarrow> (None # js1, w1))
      else (case drain G p js w of (js1, w1) \<Rightarrow> (Some j # js1, w1)))"

text \<open>Every named handle: first the jobs that use it, then the buffer.\<close>

fun x_releases ::
  "gxpenv \<Rightarrow> nat list \<Rightarrow> dbuf option list \<Rightarrow> job option list \<Rightarrow> dworld \<Rightarrow>
   dbuf option list \<times> job option list \<times> dworld" where
  "x_releases G [] h js w = (h, js, w)"
| "x_releases G (k # ks) h js w =
     (if k < GX_MAXH then
        (case drain G (\<lambda>j. refers j k) js w of
           (js1, w1) \<Rightarrow>
             (case slot_get h k of
                None \<Rightarrow> x_releases G ks h js1 w1
              | Some z \<Rightarrow> x_releases G ks (slot_clear h k) js1 (gz_release z w1)))
      else x_releases G ks h js w)"

definition x_release :: "gxpenv \<Rightarrow> nat \<Rightarrow> gsess \<Rightarrow> gsess" where
  "x_release G nbuf s =
     (if nbuf = 0 \<or> nbuf > GX_MAXBUF then q_put (le32 1) s
      else
     (case rd (nbuf * 4) (q_c s) of
        (None, c1) \<Rightarrow> q_put (le32 1) (s\<lparr>q_c := c1\<rparr>)
      | (Some bs, c1) \<Rightarrow>
     (case x_releases G (get32s nbuf bs) (q_h s) (q_jobs s) (q_w s) of
        (h1, js1, w1) \<Rightarrow> q_put (le32 0) (s\<lparr>q_c := c1, q_h := h1, q_jobs := js1, q_w := w1\<rparr>))))"

definition listing :: "kern list \<Rightarrow> byte list" where
  "listing tab =
     (let ks = filter (\<lambda>k. k_fn k \<noteq> None) tab in
      le32 0 @ le32 (length ks) @ concat (map (\<lambda>k. le32 (length (k_name k)) @ k_name k) ks))"

definition x_list :: "kern list \<Rightarrow> gsess \<Rightarrow> gsess" where
  "x_list tab s = q_put (listing tab) s"

section \<open>The session loop\<close>

definition x_cmd :: "gxpenv \<Rightarrow> kern list \<Rightarrow> nat list \<Rightarrow> fd list \<Rightarrow> gsess \<Rightarrow> fd list \<times> gsess" where
  "x_cmd G tab hdr fds s =
     (let cmd = hdr ! 1 in
      if cmd = 1 then x_import G (hdr ! 2) fds s
      else (fds,
        if cmd = 2 then x_run G tab (hdr ! 2) (hdr ! 3) s
        else if cmd = 3 then x_release G (hdr ! 2) s
        else if cmd = 4 then x_list tab s
        else if cmd = 5 then x_submit G tab (hdr ! 2) (hdr ! 3) s
        else if cmd = 6 then x_wait G tab (hdr ! 2) s
        else q_put (le32 1) s))"

definition x_step :: "gxpenv \<Rightarrow> kern list \<Rightarrow> nat list \<Rightarrow> fd list \<Rightarrow> gsess \<Rightarrow> gsess" where
  "x_step G tab hdr fds s =
     (case x_cmd G tab hdr fds s of
        (rest, s1) \<Rightarrow> if d_exit (q_w s1) then s1 else s1\<lparr>q_w := close_all rest (q_w s1)\<rparr>)"

definition x_next :: "gsess \<Rightarrow> nat list option \<times> fd list \<times> gsess" where
  "x_next s =
     (if d_exit (q_w s) then (None, [], s)
      else
        (case recv_fds GX_MAXBUF 24 (q_c s) (q_w s) of
           (None, fs, c1, w1) \<Rightarrow> (None, fs, s\<lparr>q_c := c1, q_w := w1\<rparr>)
         | (Some bs, fs, c1, w1) \<Rightarrow>
             (let hdr = get32s 6 bs in
              (if hdr ! 0 = GX_MAGIC_ZC then Some hdr else None, fs, s\<lparr>q_c := c1, q_w := w1\<rparr>))))"

fun x_free_all :: "dbuf option list \<Rightarrow> dworld \<Rightarrow> dworld" where
  "x_free_all [] w = w"
| "x_free_all (None # h) w = x_free_all h w"
| "x_free_all (Some z # h) w = x_free_all h (gz_release z w)"

definition x_end :: "gxpenv \<Rightarrow> fd list \<Rightarrow> gsess \<Rightarrow> gsess" where
  "x_end G left s =
     (if d_exit (q_w s) then s
      else
        (case drain G (\<lambda>j. True) (q_jobs s) (close_all left (q_w s)) of
           (js, w1) \<Rightarrow> s\<lparr>q_h := [], q_jobs := js, q_w := x_free_all (q_h s) w1\<rparr>))"

definition q_bytes :: "gsess \<Rightarrow> nat" where "q_bytes s = cbytes (q_c s)"

lemma q_put_simps [simp]:
  "q_bytes (q_put bs s) = q_bytes s" "q_h (q_put bs s) = q_h s" "q_w (q_put bs s) = q_w s"
  "q_jobs (q_put bs s) = q_jobs s" "q_c (q_put bs s) = put bs (q_c s)"
  by (simp_all add: q_put_def q_bytes_def)

lemma replies_simps [simp]:
  "q_bytes (run_reply st rv us s) = q_bytes s" "q_h (run_reply st rv us s) = q_h s"
  "q_w (run_reply st rv us s) = q_w s" "q_jobs (run_reply st rv us s) = q_jobs s"
  "q_bytes (sub_reply st t s) = q_bytes s" "q_h (sub_reply st t s) = q_h s"
  "q_w (sub_reply st t s) = q_w s" "q_jobs (sub_reply st t s) = q_jobs s"
  "q_bytes (guard G tab st s) = q_bytes s" "q_h (guard G tab st s) = q_h s"
  "q_jobs (guard G tab st s) = q_jobs s" "q_w (guard G tab st s) = guard_device G tab st (q_w s)"
  "q_c (guard G tab st s) = q_c s"
  by (simp_all add: run_reply_def sub_reply_def guard_def q_bytes_def)

lemma q_upd_bytes [simp]:
  "q_bytes (s\<lparr>q_c := c\<rparr>) = cbytes c" "q_bytes (s\<lparr>q_w := w\<rparr>) = q_bytes s" "q_bytes (s\<lparr>q_h := h\<rparr>) = q_bytes s"
  "q_bytes (s\<lparr>q_jobs := j\<rparr>) = q_bytes s"
  by (simp_all add: q_bytes_def)

lemma rd_q_bytes: "rd n (q_c s) = (r, c') \<Longrightarrow> cbytes c' \<le> q_bytes s"
  by (simp add: rd_cbytes q_bytes_def)

lemma read_call_bytes: "read_call a b c = (r, c') \<Longrightarrow> cbytes c' \<le> cbytes c"
  by (auto simp: read_call_def dest!: rd_cbytes split: if_splits prod.splits option.splits)

lemma x_import_bytes: "x_import G n fds s = (rest, s') \<Longrightarrow> q_bytes s' \<le> q_bytes s"
  by (auto simp: x_import_def Let_def dest!: rd_q_bytes split: prod.splits option.splits if_splits)

lemma x_release_bytes: "q_bytes (x_release G n s) \<le> q_bytes s"
  by (auto simp: x_release_def dest!: rd_q_bytes split: prod.splits option.splits)

lemma x_run_bytes: "q_bytes (x_run G tab a b s) \<le> q_bytes s"
proof -
  obtain r c1 where c: "read_call a b (q_c s) = (r, c1)" by (metis surj_pair)
  then have "cbytes c1 \<le> q_bytes s" by (simp add: q_bytes_def read_call_bytes)
  then show ?thesis by (auto simp: x_run_def c Let_def split: prod.splits option.splits)
qed

lemma x_submit_bytes: "q_bytes (x_submit G tab a b s) \<le> q_bytes s"
proof -
  obtain r c1 where c: "(if gx_async G then read_call a b (q_c s) else (None, q_c s)) = (r, c1)"
    by (metis surj_pair)
  then have "cbytes c1 \<le> q_bytes s"
    using read_call_bytes [of a b "q_c s" r c1] by (auto simp: q_bytes_def split: if_splits)
  then show ?thesis
    by (auto simp: x_submit_def c Let_def split: prod.splits option.splits bool.splits)
qed

lemma x_wait_bytes: "q_bytes (x_wait G tab t s) = q_bytes s"
  by (auto simp: x_wait_def Let_def split: prod.splits option.splits)

lemma x_step_bytes: "q_bytes (x_step G tab hdr fds s) \<le> q_bytes s"
proof -
  obtain rest s1 where c: "x_cmd G tab hdr fds s = (rest, s1)" by (metis surj_pair)
  have "q_bytes s1 \<le> q_bytes s"
    using c x_import_bytes x_release_bytes x_run_bytes x_submit_bytes x_wait_bytes
    by (auto simp: x_cmd_def Let_def x_list_def split: if_splits)
  then show ?thesis by (simp add: x_step_def c)
qed

lemma recv_fds_Some: "recv_fds m n c w = (Some bs, fs, c', w') \<Longrightarrow> cbytes c' + n = cbytes c"
  using recv_fds_acct [of m n c w "Some bs" fs c' w'] by auto

lemma x_next_bytes: "x_next s = (Some hdr, fds, s') \<Longrightarrow> q_bytes s' < q_bytes s"
  by (auto simp: x_next_def q_bytes_def Let_def dest!: recv_fds_Some
      split: prod.splits option.splits if_splits)

lemma x_round_bytes:
  "x_next (x_step G tab hdr fds s) = (Some hdr', fds', s') \<Longrightarrow> q_bytes s' < q_bytes s"
  using x_next_bytes x_step_bytes by (meson order_less_le_trans)

function x_loop :: "gxpenv \<Rightarrow> kern list \<Rightarrow> nat list \<Rightarrow> fd list \<Rightarrow> gsess \<Rightarrow> gsess" where
  "x_loop G tab hdr fds s =
     (case x_next (x_step G tab hdr fds s) of
        (None, left, s1) \<Rightarrow> x_end G left s1
      | (Some hdr1, fds1, s1) \<Rightarrow> x_loop G tab hdr1 fds1 s1)"
  by pat_completeness auto
termination
  by (relation "measure (\<lambda>(G, tab, hdr, fds, s). q_bytes s)")
    (auto dest!: sym [of "(_, _)"] x_round_bytes)

declare x_loop.simps [simp del]

definition gx_serve_zc ::
  "gxpenv \<Rightarrow> kern list \<Rightarrow> nat list \<Rightarrow> fd list \<Rightarrow> conn \<Rightarrow> dworld \<Rightarrow> conn \<times> dworld" where
  "gx_serve_zc G tab hdr fds c w =
     (let s = x_loop G tab hdr fds \<lparr>q_c = c, q_h = replicate GX_MAXH None,
                q_jobs = replicate GX_INFLIGHT None, q_w = w\<rparr>
      in (q_c s, q_w s))"

definition gx_serve :: "gxpenv \<Rightarrow> kern list \<Rightarrow> conn \<Rightarrow> dworld \<Rightarrow> conn \<times> dworld" where
  "gx_serve G tab c w =
     (case recv_fds GX_MAXBUF 4 c w of
        (None, fds, c1, w1) \<Rightarrow> (c1, close_all fds w1)
      | (Some bs, fds, c1, w1) \<Rightarrow>
          (if le_nat bs = GX_MAGIC then gx_serve_inline G tab c1 (close_all fds w1)
           else if le_nat bs = GX_MAGIC_ZC then
            (case rd 20 c1 of
               (None, c2) \<Rightarrow> (c2, close_all fds w1)
             | (Some hb, c2) \<Rightarrow> gx_serve_zc G tab (GX_MAGIC_ZC # get32s 5 hb) fds c2 w1)
           else (c1, close_all fds w1)))"

end
