(* ===== verification/Gxpd3.thy ===== *)
theory Gxpd3
  imports Gxpd3_Session
begin

text \<open>
  The properties of the DSP daemon src/src/hwbridge/gxpd3.c: conservation of descriptors and objects,
  no job in flight without its buffers, name resolution, the kernel table, and the results of RUN,
  SUBMIT with WAIT, and inline requests.
\<close>

section \<open>Handle masks\<close>

lemma bit_hbit: "bit (hbit k) n \<longleftrightarrow> n = k \<and> n < 32"
  by (auto simp: hbit_def push_bit_of_1 bit_exp_iff)

lemma bit_rmask_fold: "bit (fold (\<lambda>k m. or m (hbit k)) hs m) n \<longleftrightarrow> bit m n \<or> n \<in> set hs \<and> n < 32"
  by (induction hs arbitrary: m) (auto simp: bit_or_iff bit_hbit)

lemma refers_bit: "refers j k \<longleftrightarrow> bit (j_mask j) k"
proof -
  have "hbit k = 2 ^ k" by (simp add: hbit_def push_bit_of_1)
  then show ?thesis by (simp add: refers_def and_exp_eq_0_iff_not_bit)
qed

lemma refers_rmask: "j_mask j = rmask hs \<Longrightarrow> refers j k \<longleftrightarrow> k \<in> set hs \<and> k < 32"
  by (simp add: refers_bit rmask_def bit_rmask_fold)

section \<open>The invariant of a session\<close>

text \<open>
  Every file a job in flight works on is the file of a handle in use that the mask of the job names.
\<close>

definition job_live :: "dbuf option list \<Rightarrow> job \<Rightarrow> bool" where
  "job_live h j \<longleftrightarrow>
     (\<forall>f\<in>set (j_files j). \<exists>k z. refers j k \<and> slot_get h k = Some z \<and> snd (db_fd z) = f)"

definition jobs_live :: "dbuf option list \<Rightarrow> job option list \<Rightarrow> bool" where
  "jobs_live h js \<longleftrightarrow> (\<forall>j. Some j \<in> set js \<longrightarrow> job_live h j)"

definition q_holds :: "nat multiset \<Rightarrow> fd multiset \<Rightarrow> dbuf option list \<Rightarrow> job option list \<Rightarrow> dworld \<Rightarrow> bool" where
  "q_holds L F h js w \<longleftrightarrow>
     dw_ok (L + slot_sum db_objs h + slot_sum job_objs js) (F + slot_sum db_fds h) w"

definition q_own :: "nat multiset \<Rightarrow> fd multiset \<Rightarrow> fd list \<Rightarrow> gsess \<Rightarrow> bool" where
  "q_own L F fds s \<longleftrightarrow>
     q_holds L (F + mset fds) (q_h s) (q_jobs s) (q_w s) \<and> length (q_h s) = GX_MAXH \<and>
     jobs_live (q_h s) (q_jobs s)"

definition q_mid :: "nat multiset \<Rightarrow> fd multiset \<Rightarrow> fd list \<Rightarrow> gsess \<Rightarrow> bool" where
  "q_mid L F fds s \<longleftrightarrow> d_exit (q_w s) \<or> q_own L F fds s"

lemma q_own_simps [simp]:
  "q_own L F fds (q_put bs s) = q_own L F fds s" "q_own L F fds (run_reply st rv us s) = q_own L F fds s"
  "q_own L F fds (sub_reply st t s) = q_own L F fds s" "q_own L F fds (s\<lparr>q_c := c\<rparr>) = q_own L F fds s"
  by (simp_all add: q_own_def)

lemma q_mid_put [simp]: "q_mid L F fds (q_put bs s) = q_mid L F fds s"
  by (simp add: q_mid_def)

lemma q_own_mid [intro]: "q_own L F fds s \<Longrightarrow> q_mid L F fds s"
  by (simp add: q_mid_def)

lemma q_own_alive: "q_own L F fds s \<Longrightarrow> \<not> d_exit (q_w s)"
  by (simp add: q_own_def q_holds_def dw_ok_def)

lemma guard_mid: "q_own L F fds s \<Longrightarrow> q_mid L F fds (guard G tab st s)"
  using guard_device_ok [of _ _ "q_w s" G tab st]
  by (auto simp: q_own_def q_mid_def q_holds_def ok_or_exit_def)

lemma q_own_world:
  assumes "q_own L F fds s"
    and "\<And>L F. dw_ok L F (q_w s) \<Longrightarrow> dw_ok L F w'"
  shows "q_own L F fds (s\<lparr>q_w := w'\<rparr>)"
  using assms by (simp add: q_own_def q_holds_def)

subsection \<open>IMPORT\<close>

lemma gx_import_one_ok:
  assumes i: "gx_import_one G f w = (r, w')" and w: "dw_ok L F w"
  shows "dw_ok (L + (case r of None \<Rightarrow> {#} | Some b \<Rightarrow> {#b#})) F w'"
proof -
  obtain d w1 where d: "fd_dup (gx_ok G) f w = (d, w1)" by (metis surj_pair)
  note D = dw_ok_dup [OF d w]
  show ?thesis
  proof (cases d)
    case None
    with i d D show ?thesis by (auto simp: gx_import_one_def)
  next
    case (Some g)
    obtain b w2 where b: "ext_new (gx_ok G) w1 = (b, w2)" by (metis surj_pair)
    note B = dw_ok_new [OF b D]
    show ?thesis
    proof (cases b)
      case None
      with i d b B Some dw_ok_close [of L F g w2] show ?thesis by (auto simp: gx_import_one_def)
    next
      case b': (Some x)
      obtain m w3 where m: "ext_try (gx_ok G) (fd_give g w2) = (m, w3)" by (metis surj_pair)
      have "dw_ok (L + {#x#}) F (fd_give g w2)" using B b' Some by (simp add: dw_ok_give)
      note M = dw_ok_try [OF m this]
      with i d b m Some b' dw_ok_free [of L x F w3] show ?thesis
        by (cases m) (auto simp: gx_import_one_def)
    qed
  qed
qed

lemma jobs_live_alloc:
  assumes "jobs_live h js" and "free_slot h = Some k"
  shows "jobs_live (h[k := Some z]) js"
proof -
  have "slot_get (h[k := Some z]) i = Some y" if "slot_get h i = Some y" for i y
    using that free_slot_get [OF assms(2)] by (auto simp: slot_get_update)
  with assms(1) show ?thesis unfolding jobs_live_def job_live_def by metis
qed

lemma x_imports_ok:
  "x_imports G qs h w = (r, ks, rest, h', w') \<Longrightarrow> q_holds L (F + mset (map fst qs)) h js w \<Longrightarrow>
     jobs_live h js \<Longrightarrow>
     q_holds L (F + mset rest) h' js w' \<and> jobs_live h' js \<and> length h' = length h"
proof (induction G qs h w arbitrary: r ks rest h' w' rule: x_imports.induct)
  case (1 G h w)
  then show ?case by auto
next
  case (2 G f sz qs h w)
  show ?case
  proof (cases "free_slot h = None \<or> sz = 0 \<or> sz > GX_MAXIO")
    case True
    with 2 show ?thesis by (auto split: option.splits)
  next
    case False
    then obtain k where k: "free_slot h = Some k" by auto
    obtain q w1 where i: "gx_import_one G f w = (q, w1)" by (metis surj_pair)
    note I = gx_import_one_ok [OF i 2(3) [unfolded q_holds_def]]
    show ?thesis
    proof (cases q)
      case None
      with 2(2,4) I False k i show ?thesis by (auto simp: q_holds_def)
    next
      case (Some b)
      define z where "z = \<lparr>db_buf = b, db_fd = f, db_size = sz\<rparr>"
      have zo: "db_objs z = {#b#}" "db_fds z = {#f#}" by (simp_all add: z_def db_objs_def db_fds_def)
      obtain r2 ks2 rest2 h2 w2 where t: "x_imports G qs (h[k := Some z]) w1 = (r2, ks2, rest2, h2, w2)"
        by (metis surj_pair)
      have "q_holds L (F + mset (map fst qs)) (h[k := Some z]) js w1"
        using I Some by (simp add: q_holds_def slot_sum_alloc [OF k] zo ac_simps)
      from 2(1) [OF k _ i [symmetric] Some t [unfolded z_def] this [unfolded z_def]]
        jobs_live_alloc [OF 2(4) k, of z] 2(2) False k i Some t
      show ?thesis by (auto simp: z_def)
    qed
  qed
qed

lemma x_import_own:
  assumes t: "x_import G n fds s = (rest, s')" and o: "q_own L F fds s"
  shows "q_own L F rest s'"
proof (cases "\<not> gx_imp G \<or> n = 0 \<or> n > GX_MAXBUF \<or> n \<noteq> length fds")
  case True
  with t o show ?thesis by (auto simp: x_import_def)
next
  case False
  obtain q c1 where r: "rd (n * 4) (q_c s) = (q, c1)" by (metis surj_pair)
  show ?thesis
  proof (cases q)
    case None
    with t o r False show ?thesis by (auto simp: x_import_def)
  next
    case (Some bs)
    obtain r ks rs h1 w1 where i: "x_imports G (zip fds (get32s n bs)) (q_h s) (q_w s) = (r, ks, rs, h1, w1)"
      by (metis surj_pair)
    have m: "map fst (zip fds (get32s n bs)) = fds" using False by simp
    have "q_holds L (F + mset rs) h1 (q_jobs s) w1 \<and> jobs_live h1 (q_jobs s) \<and> length h1 = length (q_h s)"
      by (rule x_imports_ok [OF i]) (use o m in \<open>simp_all add: q_own_def\<close>)
    then have "q_own L F rs (s\<lparr>q_c := c1, q_h := h1, q_w := w1\<rparr>)" using o by (simp add: q_own_def)
    with t r Some i False show ?thesis by (auto simp: x_import_def Let_def split: if_splits)
  qed
qed

subsection \<open>RUN, SUBMIT, WAIT\<close>

lemma dsp_effect_ok: "dsp_effect G fn fs w = (rv, w') \<Longrightarrow> dw_ok L F w \<Longrightarrow> dw_ok L F w'"
  by (auto simp: dsp_effect_def split: prod.splits)

lemma run_sync_ok:
  assumes r: "run_sync G fn fs w = (st, rv, us, w')" and w: "dw_ok L F w"
  shows "dw_ok L F w'"
proof -
  obtain req w1 where m: "ext_make w = (req, w1)" by (metis surj_pair)
  obtain k w2 where k: "ext_try (gx_ok G) w1 = (k, w2)" by (metis surj_pair)
  have w2: "dw_ok (L + {#req#}) F w2" by (rule dw_ok_try [OF k dw_ok_make [OF m w]])
  obtain v w3 where e: "dsp_effect G fn fs w2 = (v, w3)" by (metis surj_pair)
  show ?thesis
    using r m k e dw_ok_free [OF w2] dw_ok_free [OF dsp_effect_ok [OF e w2]]
    by (cases k) (auto simp: run_sync_def)
qed

lemma x_run_mid:
  assumes o: "q_own L F fds s"
  shows "q_mid L F fds (x_run G tab nlen nh s)"
proof -
  obtain r c1 where c: "read_call nlen nh (q_c s) = (r, c1)" by (metis surj_pair)
  show ?thesis
  proof (cases r)
    case None
    with o c show ?thesis by (auto simp: x_run_def)
  next
    case (Some nhs)
    obtain name hs where n: "nhs = (name, hs)" by (cases nhs)
    obtain fn w1 where f: "d_resolve G tab name (q_w s) = (fn, w1)" by (metis surj_pair)
    obtain st rv us w2 where r2: "run_sync G (the fn) (call_files (q_h s) hs) w1 = (st, rv, us, w2)"
      by (metis surj_pair)
    have "q_own L F fds ((s\<lparr>q_c := c1\<rparr>)\<lparr>q_w := w1\<rparr>)"
      by (rule q_own_world) (use o dw_ok_resolve [OF f] in simp_all)
    moreover have "q_own L F fds ((s\<lparr>q_c := c1\<rparr>)\<lparr>q_w := w2\<rparr>)"
      by (rule q_own_world) (use o dw_ok_resolve [OF f] run_sync_ok [OF r2] in simp_all)
    ultimately show ?thesis
      using c Some n f r2 by (auto simp: x_run_def Let_def intro!: guard_mid)
  qed
qed

lemma job_wait_ok: "job_wait G j w = (r, w') \<Longrightarrow> dw_ok L F w \<Longrightarrow> dw_ok L F w'"
  by (auto simp: job_wait_def dest: dw_ok_try dsp_effect_ok split: prod.splits bool.splits)

lemma job_files_live:
  assumes "call_ok tab h name hs fn" and "length h = GX_MAXH"
    and "j_mask j = rmask hs" and "j_files j = call_files h hs"
  shows "job_live h j"
proof -
  have k: "slot_get h k \<noteq> None" "k < 32" if "k \<in> set hs" for k
  proof -
    show "slot_get h k \<noteq> None" using that assms(1) by (simp add: call_ok_def)
    with slot_get_SomeD [of h k] assms(2) show "k < 32" by (auto simp: GX_MAXH_def)
  qed
  show ?thesis
    unfolding job_live_def assms(4) call_files_def
    using k refers_rmask [OF assms(3)] by fastforce
qed

lemma jobs_live_add:
  "jobs_live h js \<Longrightarrow> job_live h j \<Longrightarrow> jobs_live h (js[t := Some j])"
  using set_update_subset_insert [of js t "Some j"] by (auto simp: jobs_live_def)

lemma x_submit_mid:
  assumes o: "q_own L F fds s"
  shows "q_mid L F fds (x_submit G tab nlen nh s)"
proof -
  obtain r c1 where c: "(if gx_async G then read_call nlen nh (q_c s) else (None, q_c s)) = (r, c1)"
    by (metis surj_pair)
  show ?thesis
  proof (cases r)
    case None
    with o c show ?thesis by (auto simp: x_submit_def)
  next
    case (Some nhs)
    obtain name hs where n: "nhs = (name, hs)" by (cases nhs)
    obtain fn w1 where f: "d_resolve G tab name (q_w s) = (fn, w1)" by (metis surj_pair)
    define s1 where "s1 = s\<lparr>q_c := c1, q_w := w1\<rparr>"
    have s1: "q_own L F fds s1"
      unfolding s1_def using q_own_world [of L F fds "s\<lparr>q_c := c1\<rparr>" w1] o dw_ok_resolve [OF f] by simp
    have sel: "q_h s1 = q_h s" "q_jobs s1 = q_jobs s" "q_w s1 = w1" by (simp_all add: s1_def)
    define t where "t = (if call_ok tab (q_h s) name hs fn then free_slot (q_jobs s) else None)"
    show ?thesis
    proof (cases t)
      case None
      then have "x_submit G tab nlen nh s = guard G tab 4 (sub_reply 4 NO_TOKEN s1)"
        by (simp add: x_submit_def c Some n f Let_def t_def [symmetric] s1_def)
      with s1 show ?thesis by (simp add: guard_mid)
    next
      case t: (Some k)
      then have ok: "call_ok tab (q_h s) name hs fn" and k: "free_slot (q_jobs s) = Some k"
        by (auto simp: t_def split: if_splits)
      obtain req w2 where m: "ext_make w1 = (req, w2)" by (metis surj_pair)
      obtain b w3 where b: "ext_try (gx_ok G) w2 = (b, w3)" by (metis surj_pair)
      have w3: "dw_ok (L + {#req#}) F w3" if "dw_ok L F w1" for L F
        by (rule dw_ok_try [OF b dw_ok_make [OF m that]])
      show ?thesis
      proof (cases b)
        case False
        have "q_own L F fds (s1\<lparr>q_w := ext_free req w3\<rparr>)"
          by (rule q_own_world [OF s1]) (use w3 sel in \<open>auto intro: dw_ok_free\<close>)
        moreover have "x_submit G tab nlen nh s =
            guard G tab 7 (sub_reply 7 NO_TOKEN (s1\<lparr>q_w := ext_free req w3\<rparr>))"
          by (simp add: x_submit_def c Some n f Let_def t_def [symmetric] t s1_def m b False)
        ultimately show ?thesis by (simp add: guard_mid)
      next
        case True
        define j where "j = \<lparr>j_req = req, j_fn = the fn, j_files = call_files (q_h s) hs, j_mask = rmask hs\<rparr>"
        have "job_live (q_h s) j"
          by (rule job_files_live [OF ok]) (use o in \<open>simp_all add: j_def q_own_def\<close>)
        moreover have "job_objs j = {#req#}" by (simp add: job_objs_def j_def)
        ultimately have "q_own L F fds (s1\<lparr>q_jobs := (q_jobs s)[k := Some j], q_w := w3\<rparr>)"
          using s1 sel w3 slot_sum_alloc [OF k, of job_objs j]
          by (simp add: q_own_def q_holds_def jobs_live_add)
        moreover have "x_submit G tab nlen nh s =
            guard G tab 0 (sub_reply 0 k (s1\<lparr>q_jobs := (q_jobs s)[k := Some j], q_w := w3\<rparr>))"
          by (simp add: x_submit_def c Some n f Let_def t_def [symmetric] t s1_def m b True j_def)
        ultimately show ?thesis by (simp add: guard_mid)
      qed
    qed
  qed
qed

lemma jobs_live_clear: "jobs_live h js \<Longrightarrow> jobs_live h (slot_clear js t)"
  using set_update_subset_insert [of js t None] by (auto simp: jobs_live_def slot_clear_def)

lemma x_wait_mid:
  assumes o: "q_own L F fds s"
  shows "q_mid L F fds (x_wait G tab t s)"
proof (cases "if gx_wait G then slot_get (q_jobs s) t else None")
  case None
  then show ?thesis using q_own_mid [OF o] by (simp add: x_wait_def q_mid_def)
next
  case (Some j)
  then have j: "slot_get (q_jobs s) t = Some j" by (simp split: if_splits)
  obtain r w1 where w: "job_wait G j (q_w s) = (r, w1)" by (metis surj_pair)
  define s1 where "s1 = s\<lparr>q_jobs := slot_clear (q_jobs s) t, q_w := ext_free (j_req j) w1\<rparr>"
  have "dw_ok (L + slot_sum db_objs (q_h s) + slot_sum job_objs (slot_clear (q_jobs s) t) + {#j_req j#})
      (F + mset fds + slot_sum db_fds (q_h s)) (q_w s)"
    using o slot_sum_clear [OF j, of job_objs] by (simp add: q_own_def q_holds_def job_objs_def)
  from dw_ok_free [OF job_wait_ok [OF w this]] o have "q_own L F fds s1"
    by (simp add: s1_def q_own_def q_holds_def jobs_live_clear)
  then show ?thesis
    by (simp add: x_wait_def Some w Let_def s1_def [symmetric] guard_mid)
qed

subsection \<open>RELEASE\<close>

lemma drain_ok:
  "drain G p js w = (js', w') \<Longrightarrow> dw_ok (L + slot_sum job_objs js) F w \<Longrightarrow>
     dw_ok (L + slot_sum job_objs js') F w' \<and> length js' = length js \<and>
     (\<forall>j. Some j \<in> set js' \<longleftrightarrow> Some j \<in> set js \<and> \<not> p j)"
proof (induction G p js w arbitrary: L js' w' rule: drain.induct)
  case (1 G p w)
  then show ?case by simp
next
  case (2 G p js w)
  then show ?case by (auto split: prod.splits)
next
  case (3 G p j js w)
  show ?case
  proof (cases "p j")
    case True
    define w1 where "w1 = (if gx_wait G then snd (job_wait G j w) else w)"
    have "dw_ok (L + slot_sum job_objs js + {#j_req j#}) F w1"
      using 3(4) job_wait_ok [of G j w "fst (job_wait G j w)" w1]
      by (cases "gx_wait G") (simp_all add: w1_def job_objs_def [of j] ac_simps)
    note f = dw_ok_free [OF this]
    obtain js1 w2 where d: "drain G p js (ext_free (j_req j) w1) = (js1, w2)" by (metis surj_pair)
    note IH = 3(1) [OF True d [unfolded w1_def] f [unfolded w1_def]]
    have "js' = None # js1" and "w' = w2" using 3(3) True d by (simp_all add: w1_def)
    with IH True show ?thesis by auto
  next
    case False
    obtain js1 w2 where d: "drain G p js w = (js1, w2)" by (metis surj_pair)
    have "dw_ok ((L + {#j_req j#}) + slot_sum job_objs js) F w"
      using 3(4) by (simp add: job_objs_def [of j] ac_simps)
    note IH = 3(2) [OF False d this]
    have e: "js' = Some j # js1" "w' = w2" using 3(3) False d by simp_all
    have "dw_ok (L + slot_sum job_objs js') F w'"
      using IH unfolding e by (simp add: job_objs_def [of j])
    then show ?thesis using IH False unfolding e by auto
  qed
qed

lemma gz_release_ok: "dw_ok (L + db_objs z) (F + db_fds z) w \<Longrightarrow> dw_ok L F (gz_release z w)"
  unfolding gz_release_def db_objs_def db_fds_def by (intro dw_ok_close dw_ok_free) simp

lemma jobs_live_release:
  assumes "jobs_live h js" and "\<forall>j. Some j \<in> set js \<longrightarrow> \<not> refers j k"
  shows "jobs_live (slot_clear h k) js"
  using assms unfolding jobs_live_def job_live_def by (metis slot_get_clear)

lemma x_releases_ok:
  "x_releases G ks h js w = (h', js', w') \<Longrightarrow> q_holds L F h js w \<Longrightarrow> jobs_live h js \<Longrightarrow>
     q_holds L F h' js' w' \<and> jobs_live h' js' \<and> length h' = length h"
proof (induction G ks h js w arbitrary: h' js' w' rule: x_releases.induct)
  case (1 G h js w)
  then show ?case by simp
next
  case (2 G k ks h js w)
  show ?case
  proof (cases "k < GX_MAXH")
    case False
    with 2 show ?thesis by simp
  next
    case True
    obtain js1 w1 where d: "drain G (\<lambda>j. refers j k) js w = (js1, w1)" by (metis surj_pair)
    note D = drain_ok [OF d 2(5) [unfolded q_holds_def]]
    have live: "jobs_live h js1" using 2(6) D by (simp add: jobs_live_def)
    show ?thesis
    proof (cases "slot_get h k")
      case None
      have "q_holds L F h js1 w1" using D by (simp add: q_holds_def)
      from 2(1) [OF True d [symmetric] None _ this live] 2(4) True d None show ?thesis by simp
    next
      case (Some z)
      have "dw_ok ((L + slot_sum db_objs (slot_clear h k) + slot_sum job_objs js1) + db_objs z)
          ((F + slot_sum db_fds (slot_clear h k)) + db_fds z) w1"
        using D slot_sum_clear [OF Some, of db_objs] slot_sum_clear [OF Some, of db_fds] by (simp add: ac_simps)
      from gz_release_ok [OF this] have "q_holds L F (slot_clear h k) js1 (gz_release z w1)"
        by (simp add: q_holds_def)
      moreover have "jobs_live (slot_clear h k) js1" using live D by (intro jobs_live_release) auto
      ultimately show ?thesis
        using 2(2) [OF True d [symmetric] Some, of h' js' w'] 2(4) True d Some by simp
    qed
  qed
qed

lemma x_release_own:
  assumes o: "q_own L F fds s"
  shows "q_own L F fds (x_release G n s)"
proof (cases "n = 0 \<or> n > GX_MAXBUF")
  case True
  with o show ?thesis by (simp add: x_release_def)
next
  case False
  obtain q c1 where r: "rd (n * 4) (q_c s) = (q, c1)" by (metis surj_pair)
  show ?thesis
  proof (cases q)
    case None
    with o r False show ?thesis by (simp add: x_release_def)
  next
    case (Some bs)
    obtain h1 js1 w1 where x: "x_releases G (get32s n bs) (q_h s) (q_jobs s) (q_w s) = (h1, js1, w1)"
      by (metis surj_pair)
    from x_releases_ok [OF x, of L "F + mset fds"] o False r Some x show ?thesis
      by (simp add: x_release_def q_own_def)
  qed
qed

subsection \<open>The loop\<close>

lemma x_step_mid:
  assumes o: "q_own L F fds s"
  shows "q_mid L F [] (x_step G tab hdr fds s)"
proof -
  obtain rest s1 where c: "x_cmd G tab hdr fds s = (rest, s1)" by (metis surj_pair)
  have "q_mid L F rest s1"
    using c x_import_own [OF _ o] x_run_mid [OF o] x_release_own [OF o] x_submit_mid [OF o]
      x_wait_mid [OF o] q_own_mid [OF o]
    by (auto simp: x_cmd_def Let_def x_list_def split: if_splits)
  then show ?thesis
    using dw_ok_close_all [of _ "F + slot_sum db_fds (q_h s1)" rest "q_w s1"] q_own_alive [of L F rest s1]
    by (auto simp: x_step_def c q_mid_def q_own_def q_holds_def ac_simps)
qed

lemma x_next_own:
  assumes m: "q_mid L F [] s" and n: "x_next s = (r, fds, s')"
  shows "q_mid L F fds s'" and "r \<noteq> None \<Longrightarrow> q_own L F fds s'"
proof -
  have "d_exit (q_w s) \<and> r = None \<and> s' = s \<or> q_own L F fds s'"
  proof (cases "d_exit (q_w s)")
    case True
    with n show ?thesis by (simp add: x_next_def)
  next
    case False
    with m have o: "q_own L F [] s" by (simp add: q_mid_def)
    obtain q fs c1 w1 where r: "recv_fds GX_MAXBUF 24 (q_c s) (q_w s) = (q, fs, c1, w1)" by (metis surj_pair)
    note A = recv_fds_acct [OF r]
    have "q_holds L (F + mset fs) (q_h s) (q_jobs s) w1"
      unfolding q_holds_def
      by (rule dw_ok_step [of _ _ "q_w s"]) (use A o in \<open>simp_all add: q_own_def q_holds_def dw_ok_def ac_simps\<close>)
    with n r False o show ?thesis
      by (cases q) (auto simp: x_next_def q_own_def Let_def)
  qed
  then show "q_mid L F fds s'" and "r \<noteq> None \<Longrightarrow> q_own L F fds s'"
    using m q_own_alive by (auto simp: q_mid_def)
qed

interpretation gz: session_loop "x_step G tab" x_next "x_end G" "x_loop G tab" q_bytes
    "q_own L F" "q_mid L F []" "q_mid L F" for G tab L F
proof unfold_locales
  show "x_loop G tab hdr fds s =
      (case x_next (x_step G tab hdr fds s) of
         (None, left, s1) \<Rightarrow> x_end G left s1
       | (Some hdr1, fds1, s1) \<Rightarrow> x_loop G tab hdr1 fds1 s1)" for hdr fds s
    by (rule x_loop.simps)
qed (auto intro: x_step_bytes x_next_bytes x_step_mid x_next_own)

end
