(* ===== verification/Gxpd3_Correct.thy ===== *)
theory Gxpd3_Correct
  imports Gxpd3
begin

text \<open>
  What the DSP daemon guarantees (src/src/hwbridge/gxpd3.c): the properties of sessions, of name
  resolution and of the kernel table, and the results of RUN, SUBMIT with WAIT, inline requests and
  LIST.
\<close>

section \<open>Examples\<close>

definition gx0 :: gxpenv where
  "gx0 = \<lparr>gx_ok = (\<lambda>k. True), gx_load = (\<lambda>f. if f = str ''ker_vadd.elf'' then Some 1 else None),
          gx_getfn = (\<lambda>n. if n = str ''reverse_string'' then Some 9 else None),
          gx_kernel = (\<lambda>fn bs. (int fn, map rev bs)), gx_us = (\<lambda>k. 40), gx_imp = True, gx_async = True,
          gx_wait = True\<rparr>"

definition dw0 :: dworld where
  "dw0 = \<lparr>w_tick = 0, w_live = {#}, w_fds = {#}, w_bad = False, d_mem = (\<lambda>f. [1, 2, 3]), d_sys = [], d_exit = False\<rparr>"

definition gconn0 :: "packet list \<Rightarrow> conn" where
  "gconn0 ps = \<lparr>cq = ps, co = [], croom = 65536\<rparr>"

lemma dw0_simps [simp]:
  "w_live dw0 = {#}" "w_fds dw0 = {#}" "\<not> w_bad dw0" "\<not> d_exit dw0" "d_sys dw0 = []"
  "d_mem dw0 f = [1, 2, 3]" "w_tick dw0 = 0"
  by (simp_all add: dw0_def)

section \<open>Properties: sessions\<close>

lemma q_own_start:
  "dw_ok L (F + mset fds) w \<Longrightarrow>
     q_own L F fds \<lparr>q_c = c, q_h = replicate GX_MAXH None, q_jobs = replicate GX_INFLIGHT None, q_w = w\<rparr>"
  by (auto simp: q_own_def q_holds_def slot_sum_replicate jobs_live_def set_replicate_conv_if)

lemma x_free_all_ok:
  "dw_ok (L + slot_sum db_objs h) (F + slot_sum db_fds h) w \<Longrightarrow> dw_ok L F (x_free_all h w)"
proof (induction h w rule: x_free_all.induct)
  case (3 z h w)
  have "dw_ok ((L + slot_sum db_objs h) + db_objs z) ((F + slot_sum db_fds h) + db_fds z) w"
    using 3(2) by (simp add: ac_simps)
  from 3(1) [OF gz_release_ok [OF this]] show ?case by simp
qed simp_all

lemma slot_sum_None: "(\<forall>j. Some j \<notin> set js) \<Longrightarrow> slot_sum f js = {#}"
  by (induction f js rule: slot_sum.induct) auto

lemma gx_serve_zc_ok:
  assumes z: "gx_serve_zc G tab hdr fds c w = (c', w')" and w: "dw_ok L (F + mset fds) w"
  shows "ok_or_exit L F w'"
proof -
  let ?s = "\<lparr>q_c = c, q_h = replicate GX_MAXH None, q_jobs = replicate GX_INFLIGHT None, q_w = w\<rparr>"
  from gz.loop_ends [OF q_own_start [OF w], of G tab hdr c] obtain left s1
    where l: "x_loop G tab hdr fds ?s = x_end G left s1" and m: "q_mid L F left s1" by blast
  have "ok_or_exit L F (q_w (x_end G left s1))"
  proof (cases "d_exit (q_w s1)")
    case True
    then show ?thesis by (simp add: x_end_def ok_or_exit_def)
  next
    case False
    obtain js w1 where d: "drain G (\<lambda>j. True) (q_jobs s1) (close_all left (q_w s1)) = (js, w1)"
      by (metis surj_pair)
    have "dw_ok ((L + slot_sum db_objs (q_h s1)) + slot_sum job_objs (q_jobs s1))
        ((F + slot_sum db_fds (q_h s1)) + mset left) (q_w s1)"
      using m False by (simp add: q_mid_def q_own_def q_holds_def ac_simps)
    note D = drain_ok [OF d dw_ok_close_all [OF this]]
    then have "slot_sum job_objs js = {#}" by (intro slot_sum_None) simp
    with D have "dw_ok (L + slot_sum db_objs (q_h s1)) (F + slot_sum db_fds (q_h s1)) w1" by simp
    from x_free_all_ok [OF this] d False show ?thesis by (simp add: x_end_def ok_or_exit_def)
  qed
  with z l show ?thesis by (auto simp: gx_serve_zc_def Let_def)
qed

text \<open>
  C10. A connection to gxpd3, whatever its bytes are and whichever calls of the library fail, leaves
  descriptors and library objects as they were, with every job in flight waited for and freed - or
  the process has exited because the device no longer answers.
\<close>

theorem gxpd3_conserves:
  assumes "\<not> w_bad w" and "\<not> d_exit w"
  shows "case gx_serve G tab c w of (c', w') \<Rightarrow>
    d_exit w' \<or> w_live w' = w_live w \<and> w_fds w' = w_fds w \<and> \<not> w_bad w'"
proof -
  obtain c' w' where s: "gx_serve G tab c w = (c', w')" by (metis surj_pair)
  obtain q fds c1 w1 where r: "recv_fds GX_MAXBUF 4 c w = (q, fds, c1, w1)" by (metis surj_pair)
  note A = recv_fds_acct [OF r]
  have w: "dw_ok (w_live w) (w_fds w) w" using assms by (simp add: dw_ok_def)
  have w1: "dw_ok (w_live w) (w_fds w + mset fds) w1"
    by (rule dw_ok_step [OF w]) (use A in simp_all)
  note cl = dw_ok_close_all [OF w1]
  obtain hb c2 where r2: "rd 20 c1 = (hb, c2)" by (metis surj_pair)
  have "ok_or_exit (w_live w) (w_fds w) w'"
    using s r r2 cl gx_serve_inline_ok [OF _ cl] gx_serve_zc_ok [OF _ w1]
    by (cases q; cases hb) (auto simp: gx_serve_def ok_or_exit_def split: if_splits)
  with s show ?thesis by (auto simp: ok_or_exit_def dw_ok_def)
qed

theorem gxpd3_conserves_witness:
  "case gx_serve (gx0\<lparr>gx_ok := (\<lambda>k. k mod 4 \<noteq> 3)\<rparr>) (load_kernels gx0 base_kernels)
     (gconn0 [(put32s [GX_MAGIC_ZC], [3]), (put32s [1, 1, 0, 0, 0, 32], [])]) dw0 of (c', w') \<Rightarrow>
     d_exit w' \<or> w_live w' = w_live dw0 \<and> w_fds w' = w_fds dw0 \<and> \<not> w_bad w'"
  by (rule gxpd3_conserves) simp_all

text \<open>
  The states of a session in which a command is about to run: header, descriptors, session.
\<close>

inductive q_reach ::
  "gxpenv \<Rightarrow> kern list \<Rightarrow> nat list \<times> fd list \<times> gsess \<Rightarrow> nat list \<times> fd list \<times> gsess \<Rightarrow> bool"
  for G tab st0 where
  q_reach_start: "q_reach G tab st0 st0"
| q_reach_round: "q_reach G tab st0 (hdr, fds, s) \<Longrightarrow>
     x_next (x_step G tab hdr fds s) = (Some hdr', fds', s') \<Longrightarrow> q_reach G tab st0 (hdr', fds', s')"

lemma q_reach_own:
  "q_reach G tab st0 st \<Longrightarrow> q_own L F (fst (snd st0)) (snd (snd st0)) \<Longrightarrow>
     q_own L F (fst (snd st)) (snd (snd st))"
  by (induction rule: q_reach.induct) (auto intro: x_next_own(2) [OF x_step_mid])

text \<open>
  C11. No use after free of shared memory: the accounting invariant \<open>q_own\<close>, which a fresh session
  has (\<open>q_own_start\<close>), holds at every command of the session, and by it each file an asynchronous
  job works on belongs to a handle that is still imported and that the job's mask names - RELEASE
  waits for the jobs of a handle before it unmaps and closes the buffer.
\<close>

theorem gxpd3_jobs_keep_buffers:
  assumes reach: "q_reach G tab (hdr0, fds0, s0) (hdr, fds, s)" and start: "q_own L F fds0 s0"
    and job: "slot_get (q_jobs s) t = Some j" and f: "f \<in> set (j_files j)"
  shows "q_own L F fds s \<and> (\<exists>k z. refers j k \<and> slot_get (q_h s) k = Some z \<and> snd (db_fd z) = f)"
proof -
  have o: "q_own L F fds s" using q_reach_own [OF reach, of L F] start by simp
  moreover have "Some j \<in> set (q_jobs s)"
    using slot_get_SomeD [OF job] by (metis nth_mem)
  ultimately show ?thesis using f by (simp add: q_own_def jobs_live_def job_live_def)
qed

text \<open>A session with one buffer (handle 3) and one job on it.\<close>

definition dbuf0 :: dbuf where "dbuf0 = \<lparr>db_buf = 2, db_fd = (1, 5), db_size = 32\<rparr>"
definition job0 :: job where "job0 = \<lparr>j_req = 7, j_fn = 1, j_files = [5], j_mask = rmask [3]\<rparr>"

definition gsess0 :: "packet list \<Rightarrow> gsess" where
  "gsess0 ps = \<lparr>q_c = gconn0 ps, q_h = (replicate GX_MAXH None)[3 := Some dbuf0],
     q_jobs = (replicate GX_INFLIGHT None)[0 := Some job0],
     q_w = dw0\<lparr>w_live := {#2, 7#}, w_fds := {#(1, 5)#}\<rparr>\<rparr>"

lemma gsess0_own: "q_own {#} {#} [] (gsess0 ps)"
proof -
  have h: "slot_sum f ((replicate GX_MAXH None)[3 := Some dbuf0]) = f dbuf0" for f :: "dbuf \<Rightarrow> 'a multiset"
    using slot_sum_update [of 3 "replicate GX_MAXH None" f "Some dbuf0"]
    by (simp add: GX_MAXH_def slot_sum_replicate)
  have j: "slot_sum f ((replicate GX_INFLIGHT None)[0 := Some job0]) = f job0" for f :: "job \<Rightarrow> 'a multiset"
    using slot_sum_update [of 0 "replicate GX_INFLIGHT None" f "Some job0"]
    by (simp add: GX_INFLIGHT_def slot_sum_replicate)
  have "job_live ((replicate GX_MAXH None)[3 := Some dbuf0]) job0"
    unfolding job_live_def
    by (auto simp: job0_def refers_rmask [of job0 "[3]"] slot_get_update GX_MAXH_def dbuf0_def intro!: exI [of _ 3])
      (simp add: refers_rmask [where hs = "[3]"])
  then have "jobs_live ((replicate GX_MAXH None)[3 := Some dbuf0]) ((replicate GX_INFLIGHT None)[0 := Some job0])"
    using set_update_subset_insert [of "replicate GX_INFLIGHT None" 0 "Some job0"]
    by (auto simp: jobs_live_def)
  moreover have "db_objs dbuf0 = {#2#}" "db_fds dbuf0 = {#(1, 5)#}" "job_objs job0 = {#7#}"
    by (simp_all add: db_objs_def db_fds_def job_objs_def dbuf0_def job0_def)
  ultimately show ?thesis by (simp add: q_own_def q_holds_def gsess0_def h j dw_ok_def)
qed

theorem gxpd3_jobs_keep_buffers_witness:
  "q_own {#} {#} [] (gsess0 []) \<and> (\<exists>k z. refers job0 k \<and> slot_get (q_h (gsess0 [])) k = Some z \<and> snd (db_fd z) = 5)"
  by (rule gxpd3_jobs_keep_buffers [OF q_reach_start [of gx0 "[]" "([], [], gsess0 [])"] gsess0_own,
        where t = 0 and j = job0 and f = 5])
    (simp_all add: gsess0_def job0_def slot_get_update GX_INFLIGHT_def)

section \<open>Properties: names\<close>

definition sys_ok :: "gxpenv \<Rightarrow> (byte list \<times> nat) list \<Rightarrow> bool" where
  "sys_ok G sys \<longleftrightarrow> length sys \<le> 16 \<and> (\<forall>p\<in>set sys. gx_getfn G (fst p) = Some (snd p))"

definition resolve_spec :: "gxpenv \<Rightarrow> kern list \<Rightarrow> byte list \<Rightarrow> nat option" where
  "resolve_spec G tab name =
     (if \<exists>k\<in>set tab. k_fn k \<noteq> None \<and> k_name k = name
      then k_fn (the (find (\<lambda>k. k_fn k \<noteq> None \<and> k_name k = name) tab)) else gx_getfn G name)"

text \<open>
  C12. The cache of system functions is transparent: with a library that answers the same name the
  same way, resolving a name gives what looking it up without any cache gives, and the cache stays
  consistent and within its 16 entries.
\<close>

theorem resolve_fn_transparent:
  assumes ok: "sys_ok G sys" and len: "length name < MAXNAME"
  shows "case resolve_fn G tab name sys of (r, sys') \<Rightarrow> r = resolve_spec G tab name \<and> sys_ok G sys'"
proof (cases "find (\<lambda>k. k_fn k \<noteq> None \<and> k_name k = name) tab")
  case (Some k)
  then have "\<exists>k\<in>set tab. k_fn k \<noteq> None \<and> k_name k = name" by (auto simp: find_Some_iff)
  then show ?thesis using Some ok unfolding resolve_fn_def resolve_spec_def by (simp only: option.case prod.case if_True option.sel)
next
  case None
  then have n: "\<not> (\<exists>k\<in>set tab. k_fn k \<noteq> None \<and> k_name k = name)" by (simp only: find_None_iff) blast
  show ?thesis
  proof (cases "find (\<lambda>p. fst p = name) sys")
    case (Some p)
    then have "p \<in> set sys \<and> fst p = name" by (auto simp: find_Some_iff)
    with ok have "gx_getfn G name = Some (snd p)" by (auto simp: sys_ok_def)
    with None Some n ok show ?thesis
      unfolding resolve_fn_def resolve_spec_def by (simp only: option.case prod.case if_False)
  next
    case f: None
    have "take (MAXNAME - 1) name = name" using len by simp
    with None f n ok show ?thesis
      unfolding resolve_fn_def resolve_spec_def
      by (cases "gx_getfn G name") (simp_all only: option.case prod.case if_False, auto simp: sys_ok_def)
  qed
qed

theorem resolve_fn_transparent_witness:
  "case resolve_fn gx0 (load_kernels gx0 base_kernels) (str ''reverse_string'') [(str ''reverse_string'', 9)] of
     (r, sys') \<Rightarrow> r = resolve_spec gx0 (load_kernels gx0 base_kernels) (str ''reverse_string'') \<and> sys_ok gx0 sys'"
  by (rule resolve_fn_transparent) (simp_all add: sys_ok_def gx0_def str_def MAXNAME_def)

text \<open>
  The scan of the kernel directory keeps the fixed entries where they are, stays within 64
  entries, adds no file twice, and each added kernel is a file named after it, with no minimal size.
\<close>

definition scanned :: "byte list list \<Rightarrow> kern \<Rightarrow> bool" where
  "scanned fs k \<longleftrightarrow>
     k_file k \<in> set fs \<and> k_file k = str ''ker_'' @ k_name k @ str ''.elf'' \<and> k_name k \<noteq> [] \<and>
     k_min k = 0 \<and> k_fn k = None"

lemma is_ker_file_name:
  assumes "is_ker_file f"
  shows "f = str ''ker_'' @ ker_name f @ str ''.elf'' \<and> ker_name f \<noteq> []"
proof -
  have p: "take 4 f = str ''ker_''" "9 \<le> length f" "drop (length f - 4) f = str ''.elf''"
    using assms by (simp_all add: is_ker_file_def)
  have "f = take 4 f @ take (length f - 8) (drop 4 f) @ drop (length f - 8) (drop 4 f)"
    by (simp only: append_take_drop_id)
  moreover have "drop (length f - 8) (drop 4 f) = drop (length f - 4) f"
    using p(2) by (simp add: add.commute)
  moreover have "length (ker_name f) = length f - 8" by (simp add: ker_name_def)
  ultimately show ?thesis using p by (auto simp: ker_name_def)
qed

theorem scan_kernels_correct:
  assumes "length tab \<le> MAXKERN" and "distinct (map k_file tab)"
  shows "\<exists>new. scan_kernels fs tab = tab @ new \<and> length (tab @ new) \<le> MAXKERN \<and>
    distinct (map k_file (tab @ new)) \<and> (\<forall>k\<in>set new. scanned fs k)"
  using assms
proof (induction fs tab rule: scan_kernels.induct)
  case (1 tab)
  then show ?case by simp
next
  case (2 f fs tab)
  show ?case
  proof (cases "length tab \<ge> MAXKERN")
    case True
    with 2 show ?thesis by auto
  next
    case room: False
    show ?thesis
    proof (cases "\<not> is_ker_file f \<or> f \<in> k_file ` set tab")
      case True
      from 2(1) [OF room True 2(3,4)] room True show ?thesis by (fastforce simp: scanned_def)
    next
      case False
      let ?k = "\<lparr>k_name = ker_name f, k_file = f, k_min = 0, k_fn = None\<rparr>"
      from 2(2) [OF room False] 2(3,4) room False obtain new where
        "scan_kernels fs (tab @ [?k]) = (tab @ [?k]) @ new" "length ((tab @ [?k]) @ new) \<le> MAXKERN"
        "distinct (map k_file ((tab @ [?k]) @ new))" "\<forall>k\<in>set new. scanned fs k"
        by auto
      moreover have "scanned (f # fs) ?k" using is_ker_file_name [of f] False by (simp add: scanned_def)
      ultimately show ?thesis using room False
        by (intro exI [of _ "?k # new"]) (auto simp: scanned_def)
    qed
  qed
qed

theorem scan_kernels_correct_witness:
  "\<exists>new. scan_kernels [str ''ker_relu.elf'', str ''.'', str ''ker_vadd.elf''] base_kernels = base_kernels @ new \<and>
    length (base_kernels @ new) \<le> MAXKERN \<and> distinct (map k_file (base_kernels @ new)) \<and>
    (\<forall>k\<in>set new. scanned [str ''ker_relu.elf'', str ''.'', str ''ker_vadd.elf''] k)"
  by (rule scan_kernels_correct) (simp_all add: base_kernels_def MAXKERN_def kern_of_def str_def)

section \<open>Properties: results\<close>

text \<open>A RUN or SUBMIT request as a client writes it after the header.\<close>

definition call_bytes :: "byte list \<Rightarrow> nat list \<Rightarrow> byte list" where
  "call_bytes name hs = name @ put32s hs"

lemma read_call_ok:
  assumes "stream (cq c) = call_bytes name hs @ z" and "name \<noteq> []" "0 \<notin> set name" "length name < MAXNAME"
    and "hs \<noteq> []" "length hs \<le> GX_MAXBUF" "\<forall>k\<in>set hs. k < 2 ^ 32"
  shows "\<exists>c'. read_call (length name) (length hs) c = (Some (name, hs), c') \<and> stream (cq c') = z \<and>
    co c' = co c \<and> croom c' = croom c"
proof -
  obtain c1 where c1: "rd (length name) c = (Some name, c1)" "stream (cq c1) = put32s hs @ z"
      "co c1 = co c" "croom c1 = croom c"
    using rd_stream [of c name "put32s hs @ z"] assms(1) by (auto simp: call_bytes_def)
  obtain c2 where c2: "rd (length hs * 4) c1 = (Some (put32s hs), c2)" "stream (cq c2) = z"
      "co c2 = co c" "croom c2 = croom c"
    using rd_stream [of c1 "put32s hs" z "length hs * 4"] c1 by auto
  have "cstr name = name" using assms(3) by (auto simp: cstr_def takeWhile_eq_all_conv)
  moreover have "get32s (length hs) (put32s hs) = hs"
    using get32s_put32s_id [of hs "length hs" "[]"] assms(7) by simp
  ultimately show ?thesis
    using assms(2,4,5,6) c1 c2 by (simp add: read_call_def)
qed

text \<open>What RUN and SUBMIT need: a known function, handles in use, a first buffer that is large enough.\<close>

definition call_fits :: "gxpenv \<Rightarrow> kern list \<Rightarrow> gsess \<Rightarrow> byte list \<Rightarrow> nat list \<Rightarrow> nat \<Rightarrow> bool" where
  "call_fits G tab s name hs fn \<longleftrightarrow>
     fst (resolve_fn G tab name (d_sys (q_w s))) = Some fn \<and> call_ok tab (q_h s) name hs (Some fn) \<and>
     name \<noteq> [] \<and> 0 \<notin> set name \<and> length name < MAXNAME \<and> hs \<noteq> [] \<and> length hs \<le> GX_MAXBUF \<and>
     (\<forall>k\<in>set hs. k < 2 ^ 32)"

lemma call_fits_resolve:
  assumes "call_fits G tab s name hs fn"
  shows "\<exists>w1. d_resolve G tab name (q_w s) = (Some fn, w1) \<and> w_tick w1 = w_tick (q_w s) \<and>
    d_mem w1 = d_mem (q_w s)"
  using assms by (cases "resolve_fn G tab name (d_sys (q_w s))") (auto simp: call_fits_def d_resolve_def)

lemma put3_room:
  "length a + length b + length d \<le> croom c \<Longrightarrow> co (put d (put b (put a c))) = co c @ a @ b @ d"
  using put_room [of a c] put_room [of b "put a c"] put_room [of d "put b (put a c)"] by simp

lemma length_i64 [simp]: "length (i64 v) = 8"
  by (simp add: i64_def)

lemma x_run_effect:
  assumes ok: "\<forall>k. gx_ok G k" and fits: "call_fits G tab s name hs fn"
    and st: "stream (cq (q_c s)) = call_bytes name hs @ z" and room: "16 \<le> croom (q_c s)"
  shows "let s' = x_run G tab (length name) (length hs) s; fs = call_files (q_h s) hs;
             r = gx_kernel G fn (map (d_mem (q_w s)) fs) in
    d_mem (q_w s') = store_files fs (snd r) (d_mem (q_w s)) \<and> q_h s' = q_h s \<and> q_jobs s' = q_jobs s \<and>
    co (q_c s') = co (q_c s) @ le32 0 @ i64 (fst r) @ le32 (gx_us G (w_tick (q_w s) + 2) mod 2 ^ 32) \<and>
    stream (cq (q_c s')) = z"
proof -
  obtain c1 where c: "read_call (length name) (length hs) (q_c s) = (Some (name, hs), c1)"
    "stream (cq c1) = z" "co c1 = co (q_c s)" "croom c1 = croom (q_c s)"
    using read_call_ok [OF st] fits by (auto simp: call_fits_def)
  obtain w1 where f: "d_resolve G tab name (q_w s) = (Some fn, w1)" "w_tick w1 = w_tick (q_w s)"
    "d_mem w1 = d_mem (q_w s)"
    using call_fits_resolve [OF fits] by blast
  let ?fs = "call_files (q_h s) hs"
  obtain rv outs where k: "gx_kernel G fn (map (d_mem (q_w s)) ?fs) = (rv, outs)" by (metis surj_pair)
  define req where "req = Suc (w_tick w1)"
  define w2 where "w2 = snd (ext_make w1)"
  have m: "ext_make w1 = (req, w2)" "d_mem w2 = d_mem w1" "w_tick w2 = Suc (w_tick w1)"
    by (simp_all add: ext_make_def req_def w2_def)
  define w3 where "w3 = snd (ext_try (gx_ok G) w2)"
  have t: "ext_try (gx_ok G) w2 = (True, w3)" "d_mem w3 = d_mem w2" "w_tick w3 = Suc (w_tick w2)"
    using ok by (simp_all add: ext_try_def w3_def)
  have fr: "d_mem (ext_free x w) = d_mem w" for x and w :: dworld
    using d_more [of "ext_free x w" w] by (simp add: acct_simps)
  have r: "run_sync G fn ?fs w1 = (0, rv, gx_us G (w_tick (q_w s) + 2),
      ext_free req (w3\<lparr>d_mem := store_files ?fs outs (d_mem w3)\<rparr>))"
    using m t f k by (simp add: run_sync_def dsp_effect_def)
  have "call_ok tab (q_h s) name hs (Some fn)" using fits by (simp add: call_fits_def)
  then show ?thesis
    using c f r k m t room put3_room [of "le32 0" "i64 rv" "le32 (gx_us G (w_tick (q_w s) + 2) mod 2 ^ 32)" c1]
    by (simp add: x_run_def Let_def guard_def guard_device_def run_reply_def fr)
qed

text \<open>
  C13. RUN on imported buffers: the kernel named by the request (or the system function) is applied to
  the contents of the buffers in the order of the handles, its results are what the files then
  hold, no other file changes, and the reply carries status 0, the return value and the time.
\<close>

theorem gxpd3_run_correct:
  assumes ok: "\<forall>k. gx_ok G k" and fits: "call_fits G tab s name hs fn"
    and st: "stream (cq (q_c s)) = call_bytes name hs @ z" and room: "16 \<le> croom (q_c s)"
  shows "let s' = x_run G tab (length name) (length hs) s; fs = call_files (q_h s) hs;
             r = gx_kernel G fn (map (d_mem (q_w s)) fs) in
    d_mem (q_w s') = store_files fs (snd r) (d_mem (q_w s)) \<and> q_h s' = q_h s \<and> q_jobs s' = q_jobs s \<and>
    co (q_c s') = co (q_c s) @ le32 0 @ i64 (fst r) @ le32 (gx_us G (w_tick (q_w s) + 2) mod 2 ^ 32) \<and>
    stream (cq (q_c s')) = z"
  by (rule x_run_effect [OF ok fits st room])

lemma gsess0_fits: "call_fits gx0 (load_kernels gx0 base_kernels) (gsess0 ps) (str ''vadd'') [3] 1"
proof -
  have "resolve_fn gx0 (load_kernels gx0 base_kernels) (str ''vadd'') (d_sys (q_w (gsess0 ps))) = (Some 1, [])"
    by (simp add: resolve_fn_def load_kernels_def base_kernels_def kern_of_def gx0_def str_def gsess0_def)
  moreover have "call_ok (load_kernels gx0 base_kernels) (q_h (gsess0 ps)) (str ''vadd'') [3] (Some 1)"
    by (simp add: call_ok_def kern_min_in_def load_kernels_def base_kernels_def kern_of_def str_def
        gsess0_def slot_get_update GX_MAXH_def dbuf0_def)
  ultimately show ?thesis by (simp add: call_fits_def str_def MAXNAME_def GX_MAXBUF_def)
qed

theorem gxpd3_run_correct_witness:
  "let s = gsess0 [(call_bytes (str ''vadd'') [3], [])];
       s' = x_run gx0 (load_kernels gx0 base_kernels) (length (str ''vadd'')) (length [3 :: nat]) s;
       fs = call_files (q_h s) [3]; r = gx_kernel gx0 1 (map (d_mem (q_w s)) fs) in
    d_mem (q_w s') = store_files fs (snd r) (d_mem (q_w s)) \<and> q_h s' = q_h s \<and> q_jobs s' = q_jobs s \<and>
    co (q_c s') = co (q_c s) @ le32 0 @ i64 (fst r) @ le32 (gx_us gx0 (w_tick (q_w s) + 2) mod 2 ^ 32) \<and>
    stream (cq (q_c s')) = []"
  using gxpd3_run_correct [OF _ gsess0_fits, of "[(call_bytes (str ''vadd'') [3], [])]" "[]"]
  by (simp add: gx0_def gsess0_def gconn0_def Let_def)

lemma put2_room:
  "length a + length b \<le> croom c \<Longrightarrow> co (put b (put a c)) = co c @ a @ b \<and>
     croom (put b (put a c)) = croom c - length a - length b \<and> cq (put b (put a c)) = cq c"
  using put_room [of a c] put_room [of b "put a c"] by simp

text \<open>
  C14. SUBMIT followed by WAIT on the token it returned is RUN: SUBMIT replies status 0 and the token of
  the free slot, and consumes the request; WAIT replies status 0, the return value of the kernel on the
  buffers' contents and the time; the memory is what RUN would leave, and the job table and the
  handles are as before.
\<close>

theorem gxpd3_submit_wait_is_run:
  assumes ok: "\<forall>k. gx_ok G k" "gx_async G" "gx_wait G" and fits: "call_fits G tab s name hs fn"
    and st: "stream (cq (q_c s)) = call_bytes name hs @ z" and slot: "free_slot (q_jobs s) = Some t"
    and room: "24 \<le> croom (q_c s)"
  shows "let s1 = x_submit G tab (length name) (length hs) s; s2 = x_wait G tab t s1;
             fs = call_files (q_h s) hs; r = gx_kernel G fn (map (d_mem (q_w s)) fs) in
    d_mem (q_w s2) = store_files fs (snd r) (d_mem (q_w s)) \<and>
    d_mem (q_w s2) = d_mem (q_w (x_run G tab (length name) (length hs) s)) \<and>
    q_jobs s2 = q_jobs s \<and> q_h s2 = q_h s \<and>
    co (q_c s1) = co (q_c s) @ le32 0 @ le32 t \<and>
    co (q_c s2) = co (q_c s1) @ le32 0 @ i64 (fst r) @ le32 (gx_us G (w_tick (q_w s) + 3) mod 2 ^ 32) \<and>
    stream (cq (q_c s2)) = z"
proof -
  obtain c1 where c: "read_call (length name) (length hs) (q_c s) = (Some (name, hs), c1)"
    "stream (cq c1) = z" "co c1 = co (q_c s)" "croom c1 = croom (q_c s)"
    using read_call_ok [OF st] fits by (auto simp: call_fits_def)
  obtain w1 where f: "d_resolve G tab name (q_w s) = (Some fn, w1)" "d_mem w1 = d_mem (q_w s)"
    "w_tick w1 = w_tick (q_w s)"
    using call_fits_resolve [OF fits] by blast
  let ?fs = "call_files (q_h s) hs"
  obtain rv outs where k: "gx_kernel G fn (map (d_mem (q_w s)) ?fs) = (rv, outs)" by (metis surj_pair)
  obtain req w2 where m: "ext_make w1 = (req, w2)" "d_mem w2 = d_mem w1" "w_tick w2 = Suc (w_tick w1)"
    by (simp add: ext_make_def)
  have tr: "\<exists>w'. ext_try (gx_ok G) w = (True, w') \<and> d_mem w' = d_mem w \<and> w_tick w' = Suc (w_tick w)" for w :: dworld
    using ok(1) by (simp add: ext_try_def)
  have fr: "d_mem (ext_free x w) = d_mem w" for x and w :: dworld
    using d_more [of "ext_free x w" w] by (simp add: acct_simps)
  obtain w3 where t3: "ext_try (gx_ok G) w2 = (True, w3)" "d_mem w3 = d_mem w2" "w_tick w3 = Suc (w_tick w2)"
    using tr by blast
  obtain w4 where t4: "ext_try (gx_ok G) w3 = (True, w4)" "d_mem w4 = d_mem w3" "w_tick w4 = Suc (w_tick w3)"
    using tr by blast
  have ck: "call_ok tab (q_h s) name hs (Some fn)" using fits by (simp add: call_fits_def)
  define j where "j = \<lparr>j_req = req, j_fn = fn, j_files = ?fs, j_mask = rmask hs\<rparr>"
  define s1 where "s1 = x_submit G tab (length name) (length hs) s"
  have s1: "q_jobs s1 = (q_jobs s)[t := Some j]" "q_w s1 = w3" "q_h s1 = q_h s"
    "q_c s1 = put (le32 t) (put (le32 0) c1)"
    using c f m t3 slot ck ok(2)
    by (simp_all add: s1_def x_submit_def Let_def guard_def guard_device_def sub_reply_def j_def)
  have p1: "co (q_c s1) = co (q_c s) @ le32 0 @ le32 t" "16 \<le> croom (q_c s1)" "stream (cq (q_c s1)) = z"
    using put2_room [of "le32 0" "le32 t" c1] room c by (simp_all add: s1(4))
  have tl: "t < length (q_jobs s)" and tn: "q_jobs s ! t = None" using free_slot_SomeD [OF slot] by auto
  have g: "slot_get (q_jobs s1) t = Some j" using s1 tl by (simp add: slot_get_update)
  have w: "job_wait G j (q_w s1) = (Some rv, w4\<lparr>d_mem := store_files ?fs outs (d_mem w4)\<rparr>)"
    using s1 t4 t3 m f k by (simp add: job_wait_def dsp_effect_def j_def)
  define us where "us = le32 (gx_us G (w_tick (q_w s) + 3) mod 2 ^ 32)"
  have us: "us = le32 (gx_us G (w_tick w4) mod 2 ^ 32)" 
  proof -
    have "w_tick w4 = w_tick (q_w s) + 3" using t4(3) t3(3) m(3) f(3) by simp
    then show ?thesis by (simp only: us_def)
  qed
  have s2: "d_mem (q_w (x_wait G tab t s1)) = store_files ?fs outs (d_mem (q_w s))"
    "q_jobs (x_wait G tab t s1) = slot_clear (q_jobs s1) t" "q_h (x_wait G tab t s1) = q_h s1"
    "q_c (x_wait G tab t s1) = put us (put (i64 rv) (put (le32 0) (q_c s1)))"
    using g w ok(3) t4(2) t3(2) m(2) f(2)
    by (simp_all add: x_wait_def Let_def guard_def guard_device_def fr run_reply_def us)
  have p2: "co (q_c (x_wait G tab t s1)) = co (q_c s1) @ le32 0 @ i64 rv @ us" "stream (cq (q_c (x_wait G tab t s1))) = z"
    using put3_room [of "le32 0" "i64 rv" us "q_c s1"] p1 by (simp_all add: s2(4) us_def)
  have "slot_clear (q_jobs s1) t = q_jobs s"
    using s1 tl tn by (simp add: slot_clear_def list_update_same_conv)
  moreover have "d_mem (q_w (x_run G tab (length name) (length hs) s)) = store_files ?fs outs (d_mem (q_w s))"
  proof -
    have "run_sync G fn ?fs w1 = (0, rv, gx_us G (w_tick w3),
        ext_free req (w3\<lparr>d_mem := store_files ?fs outs (d_mem w3)\<rparr>))"
      using m t3 f k by (simp add: run_sync_def dsp_effect_def)
    then show ?thesis
      using c f ck t3 m by (simp add: x_run_def Let_def guard_device_def fr)
  qed
  ultimately show ?thesis using s1(3) s2(1-3) p1(1) p2 k by (simp add: s1_def [symmetric] us_def Let_def)
qed

theorem gxpd3_submit_wait_is_run_witness:
  "let s = gsess0 [(call_bytes (str ''vadd'') [3], [])]; tab = load_kernels gx0 base_kernels;
       s1 = x_submit gx0 tab (length (str ''vadd'')) (length [3 :: nat]) s; s2 = x_wait gx0 tab 1 s1;
       fs = call_files (q_h s) [3]; r = gx_kernel gx0 1 (map (d_mem (q_w s)) fs) in
    d_mem (q_w s2) = store_files fs (snd r) (d_mem (q_w s)) \<and>
    d_mem (q_w s2) = d_mem (q_w (x_run gx0 tab (length (str ''vadd'')) (length [3 :: nat]) s)) \<and>
    q_jobs s2 = q_jobs s \<and> q_h s2 = q_h s \<and>
    co (q_c s1) = co (q_c s) @ le32 0 @ le32 1 \<and>
    co (q_c s2) = co (q_c s1) @ le32 0 @ i64 (fst r) @ le32 (gx_us gx0 (w_tick (q_w s) + 3) mod 2 ^ 32) \<and>
    stream (cq (q_c s2)) = []"
proof -
  let ?s = "gsess0 [(call_bytes (str ''vadd'') [3], [])]"
  have "free_slot ((replicate GX_INFLIGHT None)[0 := Some job0]) = Some 1"
    by (simp add: GX_INFLIGHT_def numeral_eq_Suc)
  then have "free_slot (q_jobs ?s) = Some 1" by (simp add: gsess0_def)
  moreover have "stream (cq (q_c ?s)) = call_bytes (str ''vadd'') [3] @ []" "24 \<le> croom (q_c ?s)"
    by (simp_all add: gsess0_def gconn0_def)
  moreover have "\<forall>k. gx_ok gx0 k" "gx_async gx0" "gx_wait gx0" by (simp_all add: gx0_def)
  ultimately show ?thesis
    using gxpd3_submit_wait_is_run [OF _ _ _ gsess0_fits] unfolding Let_def by blast
qed

lemma store_files_other: "f \<notin> set fs \<Longrightarrow> store_files fs bs m f = m f"
  by (induction fs bs m rule: store_files.induct) auto

lemma store_files_agree:
  "\<forall>g\<in>set fs. m g = m' g \<Longrightarrow> f \<in> set fs \<Longrightarrow> store_files fs bs m f = store_files fs bs m' f"
proof (induction fs bs m arbitrary: m' rule: store_files.induct)
  case (1 g fs b bs m)
  show ?case
  proof (cases "f \<in> set fs")
    case True
    have "\<forall>h\<in>set fs. (m(g := over b (m g))) h = (m'(g := over b (m' g))) h" using 1(2) by simp
    from 1(1) [OF this True] show ?thesis by (simp add: fun_upd_def)
  next
    case False
    with 1 show ?thesis by (simp add: store_files_other)
  qed
qed simp_all

text \<open>
  Jobs on different buffers do not interfere: waiting for them in either order gives the same
  return values and the same memory, so a client may wait for its tokens in any order.
\<close>

theorem gxpd3_jobs_commute:
  assumes ok: "\<forall>k. gx_ok G k" and disj: "set (j_files a) \<inter> set (j_files b) = {}"
  shows "case job_wait G a w of (ra, w1) \<Rightarrow> (case job_wait G b w1 of (rb, w2) \<Rightarrow>
    (case job_wait G b w of (rb', w1') \<Rightarrow> (case job_wait G a w1' of (ra', w2') \<Rightarrow>
      ra' = ra \<and> rb' = rb \<and> d_mem w2' = d_mem w2)))"
proof -
  define m where "m = d_mem w"
  define eff where "eff j m = gx_kernel G (j_fn j) (map m (j_files j))" for j :: job and m
  define aft where "aft j m = store_files (j_files j) (snd (eff j m)) m" for j :: job and m
  have jw: "job_wait G j u = (Some (fst (eff j (d_mem u))), (snd (ext_try (gx_ok G) u))\<lparr>d_mem := aft j (d_mem u)\<rparr>)"
    for j u
    using ok by (simp add: job_wait_def ext_try_def dsp_effect_def eff_def aft_def case_prod_beta)
  have eff_aft: "eff j (aft i m) = eff j m" if "set (j_files i) \<inter> set (j_files j) = {}" for i j
  proof -
    have "map (aft i m) (j_files j) = map m (j_files j)"
      using that by (intro map_cong) (auto simp: aft_def intro!: store_files_other)
    then show ?thesis by (simp only: eff_def)
  qed
  have ab: "eff b (aft a m) = eff b m" "eff a (aft b m) = eff a m"
    using eff_aft [of a b] eff_aft [of b a] disj by (simp_all add: Int_commute)
  have "aft b (aft a m) f = aft a (aft b m) f" for f
  proof -
    consider "f \<in> set (j_files a)" "f \<notin> set (j_files b)" | "f \<in> set (j_files b)" "f \<notin> set (j_files a)"
      | "f \<notin> set (j_files a)" "f \<notin> set (j_files b)" using disj by blast
    then show ?thesis
    proof cases
      case 1
      have "\<forall>g\<in>set (j_files a). m g = aft b m g"
        using disj by (auto simp: aft_def intro!: store_files_other [symmetric])
      with 1 ab store_files_agree [of "j_files a" m "aft b m" f] show ?thesis
        by (simp add: aft_def store_files_other)
    next
      case 2
      have "\<forall>g\<in>set (j_files b). m g = aft a m g"
        using disj by (auto simp: aft_def intro!: store_files_other [symmetric])
      with 2 ab store_files_agree [of "j_files b" m "aft a m" f] show ?thesis
        by (simp add: aft_def store_files_other)
    next
      case 3
      then show ?thesis by (simp add: aft_def store_files_other)
    qed
  qed
  then have "aft a (aft b m) = aft b (aft a m)" by (intro ext) simp
  with ab show ?thesis by (simp add: jw m_def)
qed

theorem gxpd3_jobs_commute_witness:
  "case job_wait gx0 job0 dw0 of (ra, w1) \<Rightarrow> (case job_wait gx0 (job0\<lparr>j_files := [6, 6]\<rparr>) w1 of (rb, w2) \<Rightarrow>
    (case job_wait gx0 (job0\<lparr>j_files := [6, 6]\<rparr>) dw0 of (rb', w1') \<Rightarrow> (case job_wait gx0 job0 w1' of (ra', w2') \<Rightarrow>
      ra' = ra \<and> rb' = rb \<and> d_mem w2' = d_mem w2)))"
  by (rule gxpd3_jobs_commute) (simp_all add: gx0_def job0_def)

text \<open>
  The inline protocol: a well-formed request for a known function runs it once on a private
  buffer and answers status 0, return value, time, size and the whole buffer as the kernel left it.
  For "sum" and "argmax" well-formed includes that four times the count in front is at most the
  size, which still admits a count whose last element lies behind the buffer.
\<close>

definition inline_fits :: "gxpenv \<Rightarrow> kern list \<Rightarrow> byte list \<Rightarrow> byte list \<Rightarrow> bool" where
  "inline_fits G tab name inp \<longleftrightarrow>
     name \<noteq> [] \<and> 0 \<notin> set name \<and> length name < MAXNAME \<and> inp \<noteq> [] \<and> length inp \<le> GX_MAXIO \<and>
     kern_min_in tab name \<le> length inp \<and> (kern_count0 name \<longrightarrow> le_nat (take 4 inp) * 4 \<le> length inp)"

theorem gxpd3_inline_correct:
  assumes ok: "\<forall>k. gx_ok G k" and fits: "inline_fits G tab name inp"
    and fn: "fst (resolve_fn G tab name (d_sys w)) = Some fn"
    and st: "stream (cq c) = le32 (length name) @ le32 (length inp) @ name @ inp @ z"
    and room: "20 + length inp \<le> croom c"
  shows "case gx_serve_inline G tab c w of (c', w') \<Rightarrow>
    co c' = co c @ le32 0 @ i64 (fst (gx_kernel G fn [inp])) @ le32 (gx_us G (w_tick w + 5) mod 2 ^ 32) @
      le32 (length inp) @ take (length inp) (over (hd (snd (gx_kernel G fn [inp]) @ [inp])) inp) \<and>
    stream (cq c') = z \<and> d_mem w' = d_mem w"
proof -
  let ?n = "length name" and ?i = "length inp"
  obtain c1 where c1: "rd 8 c = (Some (le32 ?n @ le32 ?i), c1)" "stream (cq c1) = name @ inp @ z"
      "co c1 = co c" "croom c1 = croom c"
    using rd_stream [of c "le32 ?n @ le32 ?i" "name @ inp @ z" 8] st by auto
  obtain c2 where c2: "rd ?n c1 = (Some name, c2)" "stream (cq c2) = inp @ z" "co c2 = co c" "croom c2 = croom c"
    using rd_stream [of c1 name "inp @ z"] c1 by auto
  obtain c3 where c3: "rd ?i c2 = (Some inp, c3)" "stream (cq c3) = z" "co c3 = co c" "croom c3 = croom c"
    using rd_stream [of c2 inp z] c2 by auto
  have sz: "le_nat (le32 ?n) = ?n" "le_nat (le32 ?i) = ?i"
    using fits by (auto simp: inline_fits_def MAXNAME_def GX_MAXIO_def intro!: le_nat_le32)
  have nm: "cstr name = name" using fits by (auto simp: inline_fits_def cstr_def takeWhile_eq_all_conv)
  obtain sys where r: "resolve_fn G tab name (d_sys w) = (Some fn, sys)"
    using fn by (cases "resolve_fn G tab name (d_sys w)") auto
  define w1 where "w1 = w\<lparr>w_tick := Suc (w_tick w)\<rparr>"
  have t1: "ext_try (gx_ok G) w = (True, w1)" using ok by (simp add: ext_try_def w1_def)
  obtain rv outs where k: "gx_kernel G fn [inp] = (rv, outs)" by (metis surj_pair)
  have mem: "d_mem (ext_free x u) = d_mem u" for x and u :: dworld
    using d_more [of "ext_free x u" u] by (simp add: acct_simps)
  obtain w2 where g: "gxp_run G tab name inp w1 = (0, rv, gx_us G (w_tick w + 5), take ?i (over (hd (outs @ [inp])) inp), w2)"
    and w2: "d_mem w2 = d_mem w"
    using ok r k
    by (simp add: gxp_run_def d_resolve_def w1_def ext_new_def ext_try_def ext_make_def mem numeral_eq_Suc)
  have len: "length (take ?i (over (hd (outs @ [inp])) inp)) \<le> ?i" by simp
  have rep: "co (inline_reply ?i (0, rv, us, out) c3) = co c3 @ le32 0 @ i64 rv @ le32 (us mod 2 ^ 32) @ le32 ?i @ out \<and>
      cq (inline_reply ?i (0, rv, us, out) c3) = cq c3" if "length out \<le> ?i" for us out
    using that room c3 put_room [of "le32 0" c3] put_room [of "i64 rv" "put (le32 0) c3"]
      put_room [of "le32 (us mod 2 ^ 32)" "put (i64 rv) (put (le32 0) c3)"]
      put_room [of "le32 ?i" "put (le32 (us mod 2 ^ 32)) (put (i64 rv) (put (le32 0) c3))"]
      put_room [of out "put (le32 ?i) (put (le32 (us mod 2 ^ 32)) (put (i64 rv) (put (le32 0) c3)))"]
    by (simp add: inline_reply_def put_st_def)
  have "gx_serve_inline G tab c w =
      (inline_reply ?i (0, rv, gx_us G (w_tick w + 5), take ?i (over (hd (outs @ [inp])) inp)) c3, w2)"
    using fits c1 c2 c3 sz nm t1 g
    by (auto simp: gx_serve_inline_def Let_def inline_fits_def)
  with rep [OF len] c3 w2 k show ?thesis by simp
qed

theorem gxpd3_inline_correct_witness:
  "case gx_serve_inline gx0 (load_kernels gx0 base_kernels)
     (gconn0 [(le32 (length (str ''reverse_string'')) @ le32 (length [1, 2, 3 :: byte]), []),
       (str ''reverse_string'', []), ([1, 2, 3], [])]) dw0 of (c', w') \<Rightarrow>
    co c' = co (gconn0 []) @ le32 0 @ i64 (fst (gx_kernel gx0 9 [[1, 2, 3]])) @ le32 (gx_us gx0 (w_tick dw0 + 5) mod 2 ^ 32) @
      le32 (length [1, 2, 3 :: byte]) @
      take (length [1, 2, 3 :: byte]) (over (hd (snd (gx_kernel gx0 9 [[1, 2, 3]]) @ [[1, 2, 3]])) [1, 2, 3]) \<and>
    stream (cq c') = [] \<and> d_mem w' = d_mem dw0"
proof -
  let ?n = "str ''reverse_string''" and ?tab = "load_kernels gx0 base_kernels"
  have a: "\<forall>k. gx_ok gx0 k" by (simp add: gx0_def)
  have b: "inline_fits gx0 ?tab ?n [1, 2, 3]"
    by (simp add: inline_fits_def kern_min_in_def load_kernels_def base_kernels_def kern_of_def str_def
        MAXNAME_def GX_MAXIO_def kern_count0_def)
  have c: "fst (resolve_fn gx0 ?tab ?n (d_sys dw0)) = Some 9"
    by (simp add: resolve_fn_def load_kernels_def base_kernels_def kern_of_def gx0_def str_def)
  show ?thesis
    using gxpd3_inline_correct [OF a b c, of "gconn0 [(le32 (length ?n) @ le32 (length [1, 2, 3 :: byte]), []),
       (?n, []), ([1, 2, 3], [])]" "[]"]
    by (simp add: gconn0_def str_def)
qed

text \<open>
  LIST can be parsed back: a reader that takes the count and then as many length-prefixed names
  gets the names of the kernels that are loaded, in table order, and nothing is left over.
\<close>

fun parse_names :: "nat \<Rightarrow> byte list \<Rightarrow> byte list list \<times> byte list" where
  "parse_names 0 bs = ([], bs)"
| "parse_names (Suc n) bs =
     (let l = le_nat (take 4 bs); r = drop 4 bs in
      case parse_names n (drop l r) of (ns, rest) \<Rightarrow> (take l r # ns, rest))"

lemma parse_names_ok:
  "\<forall>n\<in>set ns. length n < 2 ^ 32 \<Longrightarrow>
     parse_names (length ns) (concat (map (\<lambda>n. le32 (length n) @ n) ns) @ z) = (ns, z)"
  by (induction ns) (simp_all add: le_nat_le32)

theorem gxpd3_list_roundtrip:
  assumes "length tab \<le> MAXKERN" and "\<forall>k\<in>set tab. length (k_name k) < 2 ^ 32" and "cq c = [(listing tab, [])]"
  shows "\<exists>c'. rd 4 c = (Some (le32 0), c') \<and>
    parse_names (le_nat (take 4 (stream (cq c')))) (drop 4 (stream (cq c'))) =
      (map k_name (filter (\<lambda>k. k_fn k \<noteq> None) tab), [])"
proof -
  let ?ks = "filter (\<lambda>k. k_fn k \<noteq> None) tab"
  have l: "listing tab = le32 0 @ le32 (length ?ks) @ concat (map (\<lambda>n. le32 (length n) @ n) (map k_name ?ks))"
    by (simp add: listing_def Let_def comp_def)
  obtain c' where c': "rd 4 c = (Some (le32 0), c')"
    "stream (cq c') = le32 (length ?ks) @ concat (map (\<lambda>n. le32 (length n) @ n) (map k_name ?ks))"
    using rd_stream [of c "le32 0" "le32 (length ?ks) @ concat (map (\<lambda>n. le32 (length n) @ n) (map k_name ?ks))" 4]
      assms(3) l by auto
  have "length ?ks \<le> length tab" by (rule length_filter_le)
  then have "length ?ks < 2 ^ 32"
    by (rule order_le_less_trans) (use assms(1) in \<open>simp add: MAXKERN_def\<close>)
  then have n: "le_nat (le32 (length ?ks)) = length (map k_name ?ks)" by (simp only: le_nat_le32 length_map)
  have "parse_names (length (map k_name ?ks)) (concat (map (\<lambda>n. le32 (length n) @ n) (map k_name ?ks)) @ []) =
      (map k_name ?ks, [])"
    using assms(2) by (intro parse_names_ok) auto
  with c' n show ?thesis by simp
qed

theorem gxpd3_list_roundtrip_witness:
  "\<exists>c'. rd 4 (gconn0 [(listing (load_kernels gx0 base_kernels), [])]) = (Some (le32 0), c') \<and>
    parse_names (le_nat (take 4 (stream (cq c')))) (drop 4 (stream (cq c'))) =
      (map k_name (filter (\<lambda>k. k_fn k \<noteq> None) (load_kernels gx0 base_kernels)), [])"
  by (rule gxpd3_list_roundtrip)
    (auto simp: load_kernels_def base_kernels_def kern_of_def MAXKERN_def gconn0_def str_def)

end
