(* ===== verification/Gpud_Run.thy ===== *)
theory Gpud_Run
  imports Pipeline_Cache
begin

text \<open>
  The GPU daemon of src/src/hwbridge/gpud.c, first half: what a compute submission does to the
  memory of the bound buffers, and the one-shot protocol GPU1 (\<open>handle\<close>), where a request brings
  the SPIR-V and all inputs and the reply carries all outputs.

  The driver is a parameter: which calls succeed, what a kernel computes from the contents of its
  bindings, and what fresh memory holds. The pipeline a cache entry names was compiled from some
  SPIR-V; \<open>w_code\<close> remembers from which, so that running a cached pipeline runs the code it was
  built from and not the code of the request.
\<close>

section \<open>The device\<close>

type_synonym grid = "nat \<times> nat \<times> nat"

record mworld = world +
  w_code :: "nat \<Rightarrow> byte list"
  w_mem :: "nat \<Rightarrow> byte list"

text \<open>
  \<open>gd_kernel spirv grid pat xs\<close>: the contents of the bindings after the dispatch, from the contents
  \<open>xs\<close> before; \<open>pat\<close> says which bindings are the same buffer. \<open>gd_junk m\<close> is what memory \<open>m\<close> holds
  when it is allocated.
\<close>

record gdev =
  gd_ok :: "nat \<Rightarrow> bool"
  gd_kernel :: "byte list \<Rightarrow> grid \<Rightarrow> nat list \<Rightarrow> byte list list \<Rightarrow> byte list list"
  gd_junk :: "nat \<Rightarrow> nat \<Rightarrow> byte"

definition fit :: "byte list \<Rightarrow> byte list \<Rightarrow> byte list" where
  "fit new old = take (length old) (over new old)"

definition same_as :: "nat list \<Rightarrow> nat list" where
  "same_as ms = map (\<lambda>m. the (first_idx (\<lambda>x. x = m) ms)) ms"

definition gpu_run ::
  "gdev \<Rightarrow> byte list \<Rightarrow> grid \<Rightarrow> nat list \<Rightarrow> (nat \<Rightarrow> byte list) \<Rightarrow> nat \<Rightarrow> byte list" where
  "gpu_run D spv g ms mem m =
     (let out = gd_kernel D spv g (same_as ms) (map mem ms) in
      case first_idx (\<lambda>x. x = m) ms of
        None \<Rightarrow> mem m
      | Some i \<Rightarrow> if i < length out then fit (out ! i) (mem m) else mem m)"

lemma length_fit [simp]: "length (fit new old) = length old"
  by (auto simp: fit_def over_def)

lemma fit_id: "length new = length old \<Longrightarrow> fit new old = new"
  by (simp add: fit_def over_def)

lemma gpu_run_length [simp]: "length (gpu_run D spv g ms mem m) = length (mem m)"
  by (simp add: gpu_run_def Let_def split: option.splits)

lemma gpu_run_other: "m \<notin> set ms \<Longrightarrow> gpu_run D spv g ms mem m = mem m"
  by (auto simp: gpu_run_def Let_def first_idx_None split: option.splits dest: first_idx_SomeD)

lemma first_idx_distinct:
  assumes "distinct ms" and "i < length ms"
  shows "first_idx (\<lambda>x. x = ms ! i) ms = Some i"
proof -
  obtain j where j: "first_idx (\<lambda>x. x = ms ! i) ms = Some j"
    using assms(2) by (cases "first_idx (\<lambda>x. x = ms ! i) ms") (auto simp: first_idx_None)
  from first_idx_SomeD [OF this] nth_eq_iff_index_eq [OF assms(1), of j i] assms(2) have "j = i" by simp
  with j show ?thesis by simp
qed

lemma same_as_distinct: "distinct ms \<Longrightarrow> same_as ms = [0..<length ms]"
  by (rule nth_equalityI) (simp_all add: same_as_def first_idx_distinct)

lemma gpu_run_distinct:
  assumes "distinct ms" and "i < length ms"
    and "i < length (gd_kernel D spv g [0..<length ms] (map mem ms))"
  shows "gpu_run D spv g ms mem (ms ! i) =
    fit (gd_kernel D spv g [0..<length ms] (map mem ms) ! i) (mem (ms ! i))"
  using assms by (simp add: gpu_run_def Let_def same_as_distinct first_idx_distinct)

section \<open>Reading 32-bit words\<close>

definition ru32 :: "conn \<Rightarrow> nat option \<times> conn" where
  "ru32 c = (case rd 4 c of (r, c1) \<Rightarrow> (map_option le_nat r, c1))"

definition ru32s :: "nat \<Rightarrow> conn \<Rightarrow> nat list option \<times> conn" where
  "ru32s k c = traverse (\<lambda>_. ru32) (replicate k ()) c"

lemma ru32_None: "ru32 c = (None, c') \<Longrightarrow> cbytes c' \<le> cbytes c"
  by (auto simp: ru32_def dest: rd_None split: prod.splits)

lemma ru32_bytes: "ru32 c = (r, c') \<Longrightarrow> cbytes c' \<le> cbytes c"
  by (auto simp: ru32_def dest: rd_cbytes split: prod.splits)

lemma ru32_Some_bytes: "ru32 c = (Some v, c') \<Longrightarrow> cbytes c' < cbytes c \<and> v < 2 ^ 32"
proof -
  assume "ru32 c = (Some v, c')"
  then obtain bs where r: "rd 4 c = (Some bs, c')" and v: "v = le_nat bs"
    by (auto simp: ru32_def split: prod.splits)
  from rd_Some [OF r] v show ?thesis using le_nat_4 [of bs] by (auto simp: cbytes_def)
qed

lemma ru32s_bytes: "ru32s k c = (r, c') \<Longrightarrow> cbytes c' \<le> cbytes c"
  unfolding ru32s_def
  by (drule traverse_invariant [where P = "\<lambda>d. cbytes d \<le> cbytes c", rotated])
    (auto dest: ru32_bytes)

lemma ru32s_length: "ru32s k c = (Some xs, c') \<Longrightarrow> length xs = k"
  using traverse_length by (fastforce simp: ru32s_def)

lemma ru32_stream:
  assumes "stream (cq c) = le32 v @ z" and "v < 2 ^ 32"
  shows "\<exists>c'. ru32 c = (Some v, c') \<and> stream (cq c') = z \<and> co c' = co c \<and> croom c' = croom c"
proof -
  from rd_stream [OF assms(1), of 4] obtain c' where
    "rd 4 c = (Some (le32 v), c') \<and> stream (cq c') = z \<and> co c' = co c \<and> croom c' = croom c"
    by auto
  then show ?thesis using assms(2) by (auto simp: ru32_def le_nat_le32)
qed

lemma ru32s_stream:
  assumes "stream (cq c) = put32s xs @ z" and "\<forall>x\<in>set xs. x < 2 ^ 32"
  shows "\<exists>c'. ru32s (length xs) c = (Some xs, c') \<and> stream (cq c') = z \<and> co c' = co c \<and>
    croom c' = croom c"
  using assms
proof (induction xs arbitrary: c)
  case Nil
  then show ?case by (simp add: ru32s_def)
next
  case (Cons x xs)
  then have s: "stream (cq c) = le32 x @ (put32s xs @ z)" and x: "x < 2 ^ 32" by simp_all
  from ru32_stream [OF s x] obtain c1 where c1: "ru32 c = (Some x, c1)"
    "stream (cq c1) = put32s xs @ z" "co c1 = co c" "croom c1 = croom c" by blast
  from Cons.IH [OF c1(2)] Cons.prems(2) obtain c2 where
    "ru32s (length xs) c1 = (Some xs, c2)" "stream (cq c2) = z" "co c2 = co c1" "croom c2 = croom c1"
    by auto
  with c1 show ?case by (simp add: ru32s_def)
qed

section \<open>One dispatch\<close>

text \<open>
  \<open>get_pipe\<close> with its effect on the driver: when the entry was compiled for this request, its
  pipeline has the code of the request.
\<close>

definition gp_pipe ::
  "gdev \<Rightarrow> byte list \<Rightarrow> nat \<Rightarrow> pcent pcache \<Rightarrow> mworld \<Rightarrow> pcent option \<times> pcent pcache \<times> mworld" where
  "gp_pipe D spv nbuf pc w =
     (case get_pipe_np (gd_ok D) spv nbuf pc w of
        (None, pc1, w1) \<Rightarrow> (None, pc1, w1)
      | (Some i, pc1, w1) \<Rightarrow>
          (case slot_get (pc_ents pc1) i of
             None \<Rightarrow> (None, pc1, w1)
           | Some e \<Rightarrow>
               (Some e, pc1,
                if pc_miss pc1 = pc_miss pc then w1
                else w1\<lparr>w_code := (w_code w1)(pe_pipe e := spv)\<rparr>)))"

text \<open>
  Descriptor pool and set, command buffer, submission; the four error codes differ between the two
  protocols. What was created is returned (0 for nothing), the callers destroy it.
\<close>

definition gp_dispatch ::
  "gdev \<Rightarrow> nat \<times> nat \<times> nat \<times> nat \<Rightarrow> pcent \<Rightarrow> grid \<Rightarrow> nat list \<Rightarrow> mworld \<Rightarrow> nat \<times> nat \<times> nat \<times> mworld"
where
  "gp_dispatch D codes e g ms w =
     (case codes of (k1, k2, k3, k4) \<Rightarrow>
     (case ext_new (gd_ok D) w of
        (None, w1) \<Rightarrow> (k1, 0, 0, w1)
      | (Some dpool, w1) \<Rightarrow>
     (case ext_try (gd_ok D) w1 of
        (False, w2) \<Rightarrow> (k2, dpool, 0, w2)
      | (True, w2) \<Rightarrow>
     (case ext_new (gd_ok D) w2 of
        (None, w3) \<Rightarrow> (k3, dpool, 0, w3)
      | (Some cb, w3) \<Rightarrow>
     (case ext_try (gd_ok D) w3 of
        (False, w4) \<Rightarrow> (k4, dpool, cb, w4)
      | (True, w4) \<Rightarrow>
          (0, dpool, cb,
           w4\<lparr>w_mem := gpu_run D (w_code w4 (pe_pipe e)) g ms (w_mem w4)\<rparr>))))))"

definition free_nz :: "nat \<Rightarrow> 'a world_scheme \<Rightarrow> 'a world_scheme" where
  "free_nz x w = (if x = 0 then w else ext_free x w)"

section \<open>GPU1: one request per connection\<close>

definition GPU1 :: nat where "GPU1 = 0x47505531"
definition GPU2 :: nat where "GPU2 = 0x47505532"
definition GP_MAXBUF :: nat where "GP_MAXBUF = 16"
definition GP_MAXSPIRV :: nat where "GP_MAXSPIRV = 16777216"
definition MAXDATA :: nat where "MAXDATA = 268435456"
definition MAXGBUF :: nat where "MAXGBUF = 256"

definition is_input :: "nat \<Rightarrow> bool" where "is_input fl \<longleftrightarrow> fl mod 2 = 1"
definition is_output :: "nat \<Rightarrow> bool" where "is_output fl \<longleftrightarrow> fl div 2 mod 2 = 1"

definition req_bad :: "nat \<Rightarrow> nat \<Rightarrow> nat \<Rightarrow> nat \<Rightarrow> nat \<Rightarrow> bool" where
  "req_bad slen gx gy gz nbuf \<longleftrightarrow>
     slen = 0 \<or> slen > GP_MAXSPIRV \<or> slen mod 4 \<noteq> 0 \<or> nbuf = 0 \<or> nbuf > GP_MAXBUF \<or>
     gx > 65535 \<or> gy > 65535 \<or> gz > 65535"

text \<open>
  Sizes and flags of the buffers, with the running total. \<open>Inl None\<close>: end of file;
  \<open>Inl (Some s)\<close>: status \<open>s\<close> is sent.
\<close>

fun read_descs :: "nat \<Rightarrow> nat \<Rightarrow> conn \<Rightarrow> (nat option + (nat \<times> nat) list) \<times> conn" where
  "read_descs 0 tot c = (Inr [], c)"
| "read_descs (Suc n) tot c =
     (case ru32 c of
        (None, c1) \<Rightarrow> (Inl None, c1)
      | (Some sz, c1) \<Rightarrow>
     (case ru32 c1 of
        (None, c2) \<Rightarrow> (Inl None, c2)
      | (Some fl, c2) \<Rightarrow>
          if sz = 0 \<or> tot + sz > MAXDATA then (Inl (Some 2), c2)
          else (case read_descs n (tot + sz) c2 of
                  (Inl e, c3) \<Rightarrow> (Inl e, c3)
                | (Inr ds, c3) \<Rightarrow> (Inr ((sz, fl) # ds), c3))))"

text \<open>Buffers and memories, filled from the stream or with zeros; \<open>buf[i]\<close>, \<open>mem[i]\<close> so far.\<close>

fun gp_bufs ::
  "gdev \<Rightarrow> (nat \<times> nat) list \<Rightarrow> conn \<Rightarrow> mworld \<Rightarrow> nat \<times> (nat \<times> nat) list \<times> conn \<times> mworld" where
  "gp_bufs D [] c w = (0, [], c, w)"
| "gp_bufs D ((sz, fl) # ds) c w =
     (case ext_new (gd_ok D) w of
        (None, w1) \<Rightarrow> (20, [], c, w1)
      | (Some b, w1) \<Rightarrow>
     (case ext_new (gd_ok D) w1 of
        (None, w2) \<Rightarrow> (21, [(b, 0)], c, w2)
      | (Some m, w2) \<Rightarrow>
     (case ext_try (gd_ok D) w2 of
        (False, w3) \<Rightarrow> (22, [(b, m)], c, w3)
      | (True, w3) \<Rightarrow>
     (case ext_try (gd_ok D) w3 of
        (False, w4) \<Rightarrow> (23, [(b, m)], c, w4)
      | (True, w4) \<Rightarrow>
     (case (if is_input fl then rd sz c else (Some (replicate sz 0), c)) of
        (None, c1) \<Rightarrow> (24, [(b, m)], c1, w4)
      | (Some bs, c1) \<Rightarrow>
     (case gp_bufs D ds c1 (w4\<lparr>w_mem := (w_mem w4)(m := bs)\<rparr>) of
        (st, bms, c2, w5) \<Rightarrow> (st, (b, m) # bms, c2, w5)))))))"

fun gp_outs :: "(nat \<times> nat) list \<Rightarrow> (nat \<times> nat) list \<Rightarrow> (nat \<Rightarrow> byte list) \<Rightarrow> conn \<Rightarrow> conn" where
  "gp_outs ((sz, fl) # ds) ((b, m) # bms) mem c =
     (if is_output fl
      then (case wr (mem m) c of
              (True, c1) \<Rightarrow> gp_outs ds bms mem c1
            | (False, c1) \<Rightarrow> c1)
      else gp_outs ds bms mem c)"
| "gp_outs ds bms mem c = c"

fun gp_cleanup :: "(nat \<times> nat) list \<Rightarrow> mworld \<Rightarrow> mworld" where
  "gp_cleanup [] w = w"
| "gp_cleanup ((b, m) # bms) w = gp_cleanup bms (free_nz m (free_nz b w))"

definition gp_exec ::
  "gdev \<Rightarrow> byte list \<Rightarrow> grid \<Rightarrow> (nat \<times> nat) list \<Rightarrow> conn \<Rightarrow> pcent pcache \<Rightarrow> mworld \<Rightarrow>
   conn \<times> pcent pcache \<times> mworld" where
  "gp_exec D spv g ds c pc w =
     (case gp_pipe D spv (length ds) pc w of
        (None, pc1, w1) \<Rightarrow> (put (le32 10) c, pc1, w1)
      | (Some e, pc1, w1) \<Rightarrow>
     (case gp_bufs D ds c w1 of
        (st1, bms, c1, w2) \<Rightarrow>
     (case (if st1 = 0 then gp_dispatch D (30, 31, 40, 41) e g (map snd bms) w2
            else (st1, 0, 0, w2)) of
        (st, dpool, cb, w3) \<Rightarrow>
          (let c2 = put (le32 st) c1;
               c3 = (if st = 0 then gp_outs ds bms (w_mem w3) c2 else c2)
           in (c3, pc1, free_nz dpool (free_nz cb (gp_cleanup bms w3)))))))"

definition gp_handle ::
  "gdev \<Rightarrow> conn \<Rightarrow> pcent pcache \<Rightarrow> mworld \<Rightarrow> conn \<times> pcent pcache \<times> mworld" where
  "gp_handle D c pc w =
     (case ru32 c of
        (None, c1) \<Rightarrow> (c1, pc, w)
      | (Some magic, c1) \<Rightarrow>
      if magic \<noteq> GPU1 then (c1, pc, w) else
     (case ru32s 5 c1 of
        (None, c2) \<Rightarrow> (c2, pc, w)
      | (Some h, c2) \<Rightarrow>
     (let slen = h ! 0; gx = h ! 1; gy = h ! 2; gz = h ! 3; nbuf = h ! 4 in
      if req_bad slen gx gy gz nbuf then (put (le32 1) c2, pc, w) else
     (case read_descs nbuf 0 c2 of
        (Inl None, c3) \<Rightarrow> (c3, pc, w)
      | (Inl (Some s), c3) \<Rightarrow> (put (le32 s) c3, pc, w)
      | (Inr ds, c3) \<Rightarrow>
     (case ext_try (gd_ok D) w of
        (False, w1) \<Rightarrow> (c3, pc, w1)
      | (True, w1) \<Rightarrow>
     (case rd slen c3 of
        (None, c4) \<Rightarrow> (c4, pc, w1)
      | (Some spv, c4) \<Rightarrow> gp_exec D spv (gx, gy, gz) ds c4 pc w1))))))"

end
