(* ===== verification/Gpud_Session.thy ===== *)
theory Gpud_Session
  imports Gpud_Run
begin

text \<open>
  The command protocol GPU2 of src/src/hwbridge/gpud.c: buffers that live as long as the
  connection, named by handles; ALLOC, FREE, UPLOAD, DOWNLOAD and RUN until the first break of the
  loop, then every buffer is destroyed. \<open>g_gb\<close> and \<open>g_gb_live\<close> are globals of the daemon, so they
  are part of the state a connection starts with.
\<close>

record gbuf =
  gb_buf :: nat
  gb_mem :: nat
  gb_size :: nat

record gpsess =
  gp_c :: conn
  gp_gb :: "gbuf option list"
  gp_live :: nat
  gp_pc :: "pcent pcache"
  gp_w :: mworld

definition gp_put :: "byte list \<Rightarrow> gpsess \<Rightarrow> bool \<times> gpsess" where
  "gp_put bs s = (case wr bs (gp_c s) of (r, c1) \<Rightarrow> (r, s\<lparr>gp_c := c1\<rparr>))"

section \<open>Buffers\<close>

definition gb_new :: "gdev \<Rightarrow> nat \<Rightarrow> mworld \<Rightarrow> (nat \<times> nat) option \<times> mworld" where
  "gb_new D sz w =
     (case ext_new (gd_ok D) w of
        (None, w1) \<Rightarrow> (None, w1)
      | (Some b, w1) \<Rightarrow>
     (case ext_new (gd_ok D) w1 of
        (None, w2) \<Rightarrow> (None, ext_free b w2)
      | (Some m, w2) \<Rightarrow>
     (case ext_try (gd_ok D) w2 of
        (False, w3) \<Rightarrow> (None, ext_free b (ext_free m w3))
      | (True, w3) \<Rightarrow>
     (case ext_try (gd_ok D) w3 of
        (False, w4) \<Rightarrow> (None, ext_free b (ext_free m w4))
      | (True, w4) \<Rightarrow>
          (Some (b, m), w4\<lparr>w_mem := (w_mem w4)(m := map (gd_junk D m) [0..<sz])\<rparr>)))))"

definition gb_create :: "gdev \<Rightarrow> nat \<Rightarrow> gpsess \<Rightarrow> nat option \<times> gpsess" where
  "gb_create D sz s =
     (case free_slot (gp_gb s) of
        None \<Rightarrow> (None, s)
      | Some h \<Rightarrow>
      if sz = 0 \<or> sz > MAXDATA \<or> gp_live s + sz > MAXDATA then (None, s) else
     (case gb_new D sz (gp_w s) of
        (None, w1) \<Rightarrow> (None, s\<lparr>gp_w := w1\<rparr>)
      | (Some (b, m), w1) \<Rightarrow>
          (Some h, s\<lparr>gp_gb := (gp_gb s)[h := Some \<lparr>gb_buf = b, gb_mem = m, gb_size = sz\<rparr>],
                     gp_live := gp_live s + sz, gp_w := w1\<rparr>)))"

definition gb_destroy :: "nat \<Rightarrow> gpsess \<Rightarrow> gpsess" where
  "gb_destroy h s =
     (case slot_get (gp_gb s) h of
        None \<Rightarrow> s
      | Some g \<Rightarrow>
          s\<lparr>gp_live := (if gp_live s \<ge> gb_size g then gp_live s - gb_size g else 0),
            gp_w := ext_free (gb_mem g) (ext_free (gb_buf g) (gp_w s)),
            gp_gb := slot_clear (gp_gb s) h\<rparr>)"

section \<open>RUN\<close>

text \<open>Handles are read one by one and checked at once.\<close>

fun read_hnds :: "nat \<Rightarrow> gbuf option list \<Rightarrow> conn \<Rightarrow> (nat + gbuf list) \<times> conn" where
  "read_hnds 0 t c = (Inr [], c)"
| "read_hnds (Suc n) t c =
     (case ru32 c of
        (None, c1) \<Rightarrow> (Inl 102, c1)
      | (Some h, c1) \<Rightarrow>
     (case slot_get t h of
        None \<Rightarrow> (Inl 103, c1)
      | Some g \<Rightarrow>
     (case read_hnds n t c1 of
        (Inl e, c2) \<Rightarrow> (Inl e, c2)
      | (Inr gs, c2) \<Rightarrow> (Inr (g # gs), c2))))"

definition cmd_run :: "gdev \<Rightarrow> gpsess \<Rightarrow> nat \<times> gpsess" where
  "cmd_run D s =
     (case ru32s 5 (gp_c s) of
        (None, c1) \<Rightarrow> (100, s\<lparr>gp_c := c1\<rparr>)
      | (Some h, c1) \<Rightarrow>
     (let slen = h ! 0; gx = h ! 1; gy = h ! 2; gz = h ! 3; nbind = h ! 4 in
      if req_bad slen gx gy gz nbind then (101, s\<lparr>gp_c := c1\<rparr>) else
     (case read_hnds nbind (gp_gb s) c1 of
        (Inl e, c2) \<Rightarrow> (e, s\<lparr>gp_c := c2\<rparr>)
      | (Inr gs, c2) \<Rightarrow>
     (case ext_try (gd_ok D) (gp_w s) of
        (False, w1) \<Rightarrow> (104, s\<lparr>gp_c := c2, gp_w := w1\<rparr>)
      | (True, w1) \<Rightarrow>
     (case rd slen c2 of
        (None, c3) \<Rightarrow> (104, s\<lparr>gp_c := c3, gp_w := w1\<rparr>)
      | (Some spv, c3) \<Rightarrow>
     (case gp_pipe D spv nbind (gp_pc s) w1 of
        (None, pc1, w2) \<Rightarrow> (105, s\<lparr>gp_c := c3, gp_pc := pc1, gp_w := w2\<rparr>)
      | (Some e, pc1, w2) \<Rightarrow>
     (case gp_dispatch D (106, 107, 108, 109) e (gx, gy, gz) (map gb_mem gs) w2 of
        (st, dpool, cb, w3) \<Rightarrow>
          (st, s\<lparr>gp_c := c3, gp_pc := pc1, gp_w := free_nz dpool (free_nz cb w3)\<rparr>))))))))"

section \<open>The command loop\<close>

text \<open>Each command returns whether the loop goes on (\<open>False\<close> is a \<open>break\<close>).\<close>

definition c_alloc :: "gdev \<Rightarrow> gpsess \<Rightarrow> bool \<times> gpsess" where
  "c_alloc D s =
     (case ru32 (gp_c s) of
        (None, c1) \<Rightarrow> (False, s\<lparr>gp_c := c1\<rparr>)
      | (Some sz, c1) \<Rightarrow>
     (case gb_create D sz (s\<lparr>gp_c := c1\<rparr>) of
        (r, s1) \<Rightarrow>
     (case gp_put (le32 (case r of None \<Rightarrow> 1 | Some h \<Rightarrow> 0)) s1 of
        (False, s2) \<Rightarrow> (False, s2)
      | (True, s2) \<Rightarrow> gp_put (le32 (case r of None \<Rightarrow> 0 | Some h \<Rightarrow> h)) s2)))"

definition c_free :: "gpsess \<Rightarrow> bool \<times> gpsess" where
  "c_free s =
     (case ru32 (gp_c s) of
        (None, c1) \<Rightarrow> (False, s\<lparr>gp_c := c1\<rparr>)
      | (Some h, c1) \<Rightarrow> gp_put (le32 0) (gb_destroy h (s\<lparr>gp_c := c1\<rparr>)))"

definition c_upload :: "gpsess \<Rightarrow> bool \<times> gpsess" where
  "c_upload s =
     (case ru32s 2 (gp_c s) of
        (None, c1) \<Rightarrow> (False, s\<lparr>gp_c := c1\<rparr>)
      | (Some a, c1) \<Rightarrow>
     (let s1 = s\<lparr>gp_c := c1\<rparr>; sz = a ! 1 in
      case slot_get (gp_gb s) (a ! 0) of
        None \<Rightarrow> (False, snd (gp_put (le32 1) s1))
      | Some g \<Rightarrow>
      if sz > gb_size g then (False, snd (gp_put (le32 1) s1)) else
     (case rd sz c1 of
        (None, c2) \<Rightarrow> (False, s\<lparr>gp_c := c2\<rparr>)
      | (Some bs, c2) \<Rightarrow>
          gp_put (le32 0)
            (s\<lparr>gp_c := c2,
               gp_w := (gp_w s)\<lparr>w_mem := (w_mem (gp_w s))
                 (gb_mem g := over bs (w_mem (gp_w s) (gb_mem g)))\<rparr>\<rparr>))))"

definition c_download :: "gpsess \<Rightarrow> bool \<times> gpsess" where
  "c_download s =
     (case ru32s 2 (gp_c s) of
        (None, c1) \<Rightarrow> (False, s\<lparr>gp_c := c1\<rparr>)
      | (Some a, c1) \<Rightarrow>
     (let s1 = s\<lparr>gp_c := c1\<rparr>; sz = a ! 1;
          g = (case slot_get (gp_gb s) (a ! 0) of
                 None \<Rightarrow> None | Some g \<Rightarrow> if sz > gb_size g then None else Some g)
      in case g of
           None \<Rightarrow> gp_put (le32 1) s1
         | Some g \<Rightarrow>
             (case gp_put (le32 0) s1 of
                (False, s2) \<Rightarrow> (False, s2)
              | (True, s2) \<Rightarrow> gp_put (take sz (w_mem (gp_w s2) (gb_mem g))) s2)))"

definition c_run :: "gdev \<Rightarrow> gpsess \<Rightarrow> bool \<times> gpsess" where
  "c_run D s = (case cmd_run D s of (st, s1) \<Rightarrow> gp_put (le32 st) s1)"

definition gp_cmd :: "gdev \<Rightarrow> nat \<Rightarrow> gpsess \<Rightarrow> bool \<times> gpsess" where
  "gp_cmd D cmd s =
     (if cmd = 1 then c_alloc D s
      else if cmd = 2 then c_free s
      else if cmd = 3 then c_upload s
      else if cmd = 4 then c_download s
      else if cmd = 5 then c_run D s
      else (False, s))"

definition gp_next :: "bool \<times> gpsess \<Rightarrow> nat option \<times> fd list \<times> (bool \<times> gpsess)" where
  "gp_next q =
     (case q of (go, s) \<Rightarrow>
      if go then (case ru32 (gp_c s) of (r, c1) \<Rightarrow> (r, [], (True, s\<lparr>gp_c := c1\<rparr>)))
      else (None, [], q))"

definition gp_step :: "gdev \<Rightarrow> nat \<Rightarrow> fd list \<Rightarrow> bool \<times> gpsess \<Rightarrow> bool \<times> gpsess" where
  "gp_step D cmd fds q = gp_cmd D cmd (snd q)"

definition gp_fin :: "fd list \<Rightarrow> bool \<times> gpsess \<Rightarrow> bool \<times> gpsess" where
  "gp_fin fds q = (False, fold gb_destroy [0..<MAXGBUF] (snd q))"

definition gp_bytes :: "bool \<times> gpsess \<Rightarrow> nat" where
  "gp_bytes q = cbytes (gp_c (snd q))"

lemma gp_next_bytes: "gp_next q = (Some cmd, fds, q') \<Longrightarrow> gp_bytes q' < gp_bytes q"
  by (auto simp: gp_next_def gp_bytes_def dest: ru32_Some_bytes split: prod.splits if_splits)

lemma gp_put_bytes: "gp_put bs s = (r, s') \<Longrightarrow> cbytes (gp_c s') = cbytes (gp_c s)"
  by (auto simp: gp_put_def cbytes_def dest: wr_cq split: prod.splits)

lemma gb_create_c: "gb_create D n s = (r, s') \<Longrightarrow> gp_c s' = gp_c s"
  by (auto simp: gb_create_def split: option.splits if_splits prod.splits)

lemma gb_destroy_c [simp]: "gp_c (gb_destroy h s) = gp_c s"
  by (simp add: gb_destroy_def split: option.splits)

lemma read_hnds_bytes: "read_hnds n t c = (r, c') \<Longrightarrow> cbytes c' \<le> cbytes c"
proof (induction n arbitrary: c r)
  case (Suc n)
  obtain v c1 where u: "ru32 c = (v, c1)" by (metis surj_pair)
  obtain v2 c2 where h: "read_hnds n t c1 = (v2, c2)" by (metis surj_pair)
  have "cbytes c2 \<le> cbytes c1" if "c2 = c'" using Suc.IH [of c1 v2] h that by simp
  then show ?case using Suc.prems u h ru32_bytes [OF u]
    by (auto split: option.splits sum.splits)
qed simp

lemma cmd_run_bytes: "cmd_run D s = (st, s') \<Longrightarrow> cbytes (gp_c s') \<le> cbytes (gp_c s)"
  by (auto simp: cmd_run_def Let_def split: prod.splits option.splits if_splits sum.splits bool.splits
      dest!: ru32s_bytes read_hnds_bytes rd_cbytes)

lemma gp_cmd_bytes: "cbytes (gp_c (snd (gp_cmd D cmd s))) \<le> cbytes (gp_c s)"
proof -
  obtain r s' where c: "gp_cmd D cmd s = (r, s')" by (metis surj_pair)
  have put: "cbytes (gp_c (snd (gp_put bs t))) = cbytes (gp_c t)" for bs t
    using gp_put_bytes [of bs t] by (metis prod.collapse)
  have "cbytes (gp_c s') \<le> cbytes (gp_c s)"
  proof -
    have "c_alloc D s = (r, s') \<Longrightarrow> ?thesis"
      by (auto simp: c_alloc_def dest!: ru32_bytes gb_create_c gp_put_bytes
          split: prod.splits option.splits bool.splits)
    moreover have "c_free s = (r, s') \<Longrightarrow> ?thesis"
      by (auto simp: c_free_def dest!: ru32_bytes gp_put_bytes split: prod.splits option.splits)
    moreover have "c_upload s = (r, s') \<Longrightarrow> ?thesis"
      by (auto simp: c_upload_def Let_def put dest!: ru32s_bytes gp_put_bytes rd_cbytes
          split: prod.splits option.splits if_splits)
    moreover have "c_download s = (r, s') \<Longrightarrow> ?thesis"
      by (auto simp: c_download_def Let_def dest!: ru32s_bytes gp_put_bytes
          split: prod.splits option.splits if_splits bool.splits)
    moreover have "c_run D s = (r, s') \<Longrightarrow> ?thesis"
      by (auto simp: c_run_def dest!: cmd_run_bytes gp_put_bytes split: prod.splits)
    ultimately show ?thesis using c by (auto simp: gp_cmd_def split: if_splits)
  qed
  then show ?thesis by (simp add: c)
qed

lemma gp_round_bytes:
  "gp_next (gp_step D cmd fds q) = (Some cmd1, fds1, q1) \<Longrightarrow> gp_bytes q1 < gp_bytes q"
  using gp_cmd_bytes [of D cmd "snd q"]
  by (auto dest!: gp_next_bytes simp: gp_bytes_def gp_step_def)

function gp_loop :: "gdev \<Rightarrow> nat \<Rightarrow> fd list \<Rightarrow> bool \<times> gpsess \<Rightarrow> bool \<times> gpsess" where
  "gp_loop D cmd fds q =
     (case gp_next (gp_step D cmd fds q) of
        (None, left, q1) \<Rightarrow> gp_fin left q1
      | (Some cmd1, fds1, q1) \<Rightarrow> gp_loop D cmd1 fds1 q1)"
  by pat_completeness auto
termination
  by (relation "measure (\<lambda>(D, cmd, fds, q). gp_bytes q)")
    (auto dest!: sym [of "(_, _)"] gp_round_bytes)

declare gp_loop.simps [simp del]

definition cmd_loop :: "gdev \<Rightarrow> gpsess \<Rightarrow> gpsess" where
  "cmd_loop D s =
     (case ru32 (gp_c s) of
        (None, c1) \<Rightarrow> s\<lparr>gp_c := c1\<rparr>
      | (Some magic, c1) \<Rightarrow>
     (case gp_next (True, s\<lparr>gp_c := c1\<rparr>) of
        (None, left, q1) \<Rightarrow> snd (gp_fin left q1)
      | (Some cmd, fds, q1) \<Rightarrow> snd (gp_loop D cmd fds q1)))"

text \<open>
  \<open>main\<close>: \<open>recv(MSG_PEEK)\<close> looks at the first four bytes when they are there (the peer has written
  its whole header by then; a shorter answer goes to \<open>handle\<close>).
\<close>

definition gpud_conn :: "gdev \<Rightarrow> gpsess \<Rightarrow> gpsess" where
  "gpud_conn D s =
     (if 4 \<le> cbytes (gp_c s) \<and> le_nat (take 4 (stream (cq (gp_c s)))) = GPU2 then cmd_loop D s
      else (case gp_handle D (gp_c s) (gp_pc s) (gp_w s) of
              (c1, pc1, w1) \<Rightarrow> s\<lparr>gp_c := c1, gp_pc := pc1, gp_w := w1\<rparr>))"

end
