(* ===== verification/Gpud.thy ===== *)
theory Gpud
  imports Gpud_Session
begin

text \<open>
  What gpud.c owns and keeps: the unpinned pipeline cache, the code behind every cached pipeline,
  the objects of the live buffers, and the running total \<open>g_gb_live\<close>.
\<close>

section \<open>The cache without pins\<close>

lemma ext_new_tick:
  "ext_new ok w = (r, w') \<Longrightarrow> w_tick w' = Suc (w_tick w) \<and> (\<forall>x. r = Some x \<longrightarrow> x = Suc (w_tick w))"
  by (auto simp: ext_new_def split: if_splits)

lemma ext_try_tick: "ext_try ok w = (r, w') \<Longrightarrow> w_tick w' = Suc (w_tick w)"
  by (auto simp: ext_try_def)

lemma ext_free_tick [simp]: "w_tick (ext_free x w) = w_tick w"
  by (simp add: ext_free_def)

lemma free_nz_tick [simp]: "w_tick (free_nz x w) = w_tick w"
  by (simp add: free_nz_def)

lemma destroy_ent_tick [simp]: "w_tick (destroy_ent e w) = w_tick w"
  by (simp add: destroy_ent_def)

lemma make_pipe_tick:
  "make_pipe ok w = (r, w') \<Longrightarrow> w_tick w < w_tick w' \<and>
     (\<forall>a b c d. r = Some (a, b, c, d) \<longrightarrow> w_tick w < d \<and> d \<le> w_tick w')"
  by (auto simp: make_pipe_def dest!: ext_new_tick split: prod.splits option.splits)

definition fill_np ::
  "(nat \<Rightarrow> bool) \<Rightarrow> u64 \<Rightarrow> nat \<Rightarrow> nat \<Rightarrow> nat \<Rightarrow> pcent pcache \<Rightarrow> 'a world_scheme \<Rightarrow>
   nat option \<times> pcent pcache \<times> 'a world_scheme" where
  "fill_np ok h slen nbuf idx pc w =
     (case make_pipe ok w of
        (None, w1) \<Rightarrow> (None, pc, w1)
      | (Some (sh, dsl, pll, pipe), w1) \<Rightarrow>
          (Some idx, pc\<lparr>pc_ents := (pc_ents pc)[idx := Some
             \<lparr>pe_hash = h, pe_slen = slen, pe_nbuf = nbuf, pe_shader = sh, pe_dsl = dsl,
              pe_pll = pll, pe_pipe = pipe\<rparr>]\<rparr>, w1))"

text \<open>
  \<open>np_post\<close>: the lookup leaves a sound cache that owns what it owned before plus what was built,
  returns an entry with the wanted key, and every other entry is an old one.
\<close>

definition np_post ::
  "byte list \<times> nat \<Rightarrow> pcent pcache \<Rightarrow> 'a world_scheme \<Rightarrow> nat option \<Rightarrow> pcent pcache \<Rightarrow>
   'a world_scheme \<Rightarrow> bool" where
  "np_post q pc w r pc' w' \<longleftrightarrow>
     pcache_wf pc' \<and>
     (\<forall>i. r = Some i \<longrightarrow> holds_key pc' i q) \<and>
     (\<forall>j e. slot_get (pc_ents pc') j = Some e \<longrightarrow>
        slot_get (pc_ents pc) j = Some e \<and> (r = Some j \<longrightarrow> pc_miss pc' = pc_miss pc) \<or>
        r = Some j \<and> pc_miss pc' \<noteq> pc_miss pc \<and> w_tick w < pe_pipe e \<and> pe_pipe e \<le> w_tick w') \<and>
     w_live w' + slot_sum pent_objs (pc_ents pc) = w_live w + slot_sum pent_objs (pc_ents pc') \<and>
     w_fds w' = w_fds w \<and> w_bad w' = w_bad w \<and> w_tick w \<le> w_tick w' \<and>
     world.more w' = world.more w"

lemma fill_np_spec:
  assumes f: "fill_np ok h (length spv) nbuf idx pc w = (r, pc', w')" and h: "h = fnv1a spv"
    and wf: "pcache_wf pc" and idx: "idx < PCACHE" and free: "pc_ents pc ! idx = None"
    and new: "\<forall>x\<in>set (pc_ents pc). \<not> ent_match h (length spv) nbuf x"
    and m: "pc_miss pc = Suc n"
  shows "np_post (spv, nbuf) (pc\<lparr>pc_miss := n\<rparr>) w r pc' w'"
proof -
  have len: "length (pc_ents pc) = PCACHE" using wf by (simp add: pcache_wf_def)
  have g: "slot_get (pc_ents pc) idx = None" using free by (simp add: slot_get_def)
  obtain q w1 where mk: "make_pipe ok w = (q, w1)" by (cases "make_pipe ok w")
  note acct = make_pipe_acct [OF mk] and tick = make_pipe_tick [OF mk]
  show ?thesis
  proof (cases q)
    case None
    with f mk have "r = None" "pc' = pc" "w' = w1" by (auto simp: fill_np_def)
    with acct tick None wf show ?thesis by (auto simp: np_post_def)
  next
    case (Some x)
    obtain a b c d where x: "x = (a, b, c, d)" by (metis surj_pair)
    define e where "e = \<lparr>pe_hash = h, pe_slen = length spv, pe_nbuf = nbuf, pe_shader = a,
      pe_dsl = b, pe_pll = c, pe_pipe = d\<rparr>"
    have r: "r = Some idx" "pc' = pc\<lparr>pc_ents := (pc_ents pc)[idx := Some e]\<rparr>" "w' = w1"
      using f mk Some x by (auto simp: fill_np_def e_def)
    have wf': "pcache_wf pc'"
      using wf new keys_inj_add [of "pc_ents pc" e idx] by (auto simp: pcache_wf_def r e_def)
    have sum: "slot_sum pent_objs ((pc_ents pc)[idx := Some e]) =
        slot_sum pent_objs (pc_ents pc) + {#a, b, c, d#}"
      using slot_sum_update [of idx "pc_ents pc" pent_objs "Some e"] idx len free
      by (simp add: pent_objs_def e_def)
    have e: "pe_hash e = h" "pe_slen e = length spv" "pe_nbuf e = nbuf" "pe_pipe e = d"
      by (simp_all add: e_def)
    have "holds_key pc' idx (spv, nbuf)"
      using e h idx len by (simp add: holds_key_slot r slot_get_update)
    moreover have "w_live w' + slot_sum pent_objs (pc_ents pc) = w_live w + slot_sum pent_objs (pc_ents pc')"
      using acct Some x by (simp add: r sum)
    moreover have "pc_miss pc' = Suc n" using m by (simp add: r)
    moreover have "slot_get (pc_ents pc) j = Some f \<and> j \<noteq> idx \<or> j = idx \<and> f = e"
      if "slot_get (pc_ents pc') j = Some f" for j f
      using that idx len by (auto simp: r slot_get_update split: if_splits)
    ultimately show ?thesis
      using acct tick Some x wf' e
      by (fastforce simp: np_post_def r(1,3))
  qed
qed

lemma get_pipe_np_spec:
  assumes g: "get_pipe_np ok spv nbuf pc w = (r, pc', w')" and wf: "pcache_wf pc"
    and own: "slot_sum pent_objs (pc_ents pc) \<subseteq># w_live w"
  shows "np_post (spv, nbuf) pc w r pc' w'"
proof (cases "first_idx (ent_match (fnv1a spv) (length spv) nbuf) (pc_ents pc)")
  case (Some i)
  with g have r: "r = Some i" "w' = w" "pc' = pc\<lparr>pc_hits := Suc (pc_hits pc)\<rparr>"
    by (auto simp: get_pipe_np_def Let_def)
  from first_idx_SomeD [OF Some] have "holds_key pc i (spv, nbuf)" by (simp add: holds_key_def)
  with wf show ?thesis by (auto simp: np_post_def r holds_key_def pcache_wf_def)
next
  case None
  then have new: "\<forall>x\<in>set (pc_ents pc). \<not> ent_match (fnv1a spv) (length spv) nbuf x"
    by (simp add: first_idx_None)
  define pc1 where "pc1 = pc\<lparr>pc_miss := Suc (pc_miss pc)\<rparr>"
  have wf1: "pcache_wf pc1" and ents1: "pc_ents pc1 = pc_ents pc" and m1: "pc_miss pc1 = Suc (pc_miss pc)"
    using wf by (auto simp: pc1_def pcache_wf_def)
  have len: "length (pc_ents pc) = PCACHE" using wf by (simp add: pcache_wf_def)
  have undo: "pc1\<lparr>pc_miss := pc_miss pc\<rparr> = pc" by (simp add: pc1_def)
  show ?thesis
  proof (cases "free_slot (pc_ents pc1)")
    case (Some idx)
    with g None have f: "fill_np ok (fnv1a spv) (length spv) nbuf idx pc1 w = (r, pc', w')"
      by (simp add: get_pipe_np_def Let_def pc1_def fill_np_def)
    from free_slot_SomeD [OF Some] len ents1 have idx: "idx < PCACHE" "pc_ents pc1 ! idx = None" by auto
    show ?thesis using fill_np_spec [OF f refl wf1 idx _ m1] new by (simp add: ents1 undo)
  next
    case full: None
    define idx where "idx = pc_next pc"
    have idx: "idx < PCACHE" using wf by (simp add: pcache_wf_def idx_def)
    obtain e where e: "pc_ents pc ! idx = Some e" and ge: "slot_get (pc_ents pc) idx = Some e"
      using full idx len ents1 nth_mem [of idx "pc_ents pc"]
      by (cases "pc_ents pc ! idx") (auto simp: free_slot_None_iff slot_get_def)
    define pc2 where "pc2 = pc1\<lparr>pc_next := Suc idx mod PCACHE, pc_ents := slot_clear (pc_ents pc1) idx\<rparr>"
    have f: "fill_np ok (fnv1a spv) (length spv) nbuf idx pc2 (destroy_ent e w) = (r, pc', w')"
      using g None full e
      by (simp add: get_pipe_np_def Let_def fill_np_def pc2_def pc1_def idx_def)
    have ents2: "pc_ents pc2 = slot_clear (pc_ents pc) idx" by (simp add: pc2_def ents1)
    have wf2: "pcache_wf pc2"
      using wf keys_inj_clear [of "pc_ents pc" idx]
      by (simp add: pcache_wf_def pc2_def ents1 PCACHE_def)
    have free2: "pc_ents pc2 ! idx = None" using idx len by (simp add: ents2 slot_clear_def)
    have new2: "\<forall>x\<in>set (pc_ents pc2). \<not> ent_match (fnv1a spv) (length spv) nbuf x"
      using new set_update_subset_insert [of "pc_ents pc" idx None]
      by (auto simp: ents2 slot_clear_def)
    have m2: "pc_miss pc2 = Suc (pc_miss pc)" by (simp add: pc2_def m1)
    define L where "L = w_live w - pent_objs e"
    have sum: "slot_sum pent_objs (pc_ents pc) = slot_sum pent_objs (pc_ents pc2) + pent_objs e"
      using slot_sum_clear [OF ge] by (simp add: ents2)
    have "pent_objs e \<subseteq># w_live w" using own sum
      by (metis mset_subset_eq_add_right subset_mset.order_trans)
    then have "w_live w = L + pent_objs e" by (simp add: L_def)
    note D = destroy_ent_acct [OF this]
    have P: "np_post (spv, nbuf) (pc2\<lparr>pc_miss := pc_miss pc\<rparr>) (destroy_ent e w) r pc' w'"
      by (rule fill_np_spec [OF f refl wf2 idx free2 new2 m2])
    have "w_live w = w_live (destroy_ent e w) + pent_objs e"
      using D(1) \<open>w_live w = L + pent_objs e\<close> by simp
    then show ?thesis
      using P D(2,3,4) sum
      by (auto simp: np_post_def ents2 slot_get_clear ac_simps split: if_splits)
  qed
qed

section \<open>The code behind a cached pipeline\<close>

text \<open>
  Every cached pipeline was compiled from a text with the hash and length of its entry. When no
  other text with that hash and length is cached, the pipeline found for a request has its code.
\<close>

definition code_inv :: "pcent pcache \<Rightarrow> mworld \<Rightarrow> bool" where
  "code_inv pc w \<longleftrightarrow>
     (\<forall>j e. slot_get (pc_ents pc) j = Some e \<longrightarrow> pe_pipe e \<le> w_tick w \<and>
        fnv1a (w_code w (pe_pipe e)) = pe_hash e \<and> length (w_code w (pe_pipe e)) = pe_slen e)"

definition no_collision :: "pcent pcache \<Rightarrow> mworld \<Rightarrow> byte list \<Rightarrow> bool" where
  "no_collision pc w spv \<longleftrightarrow>
     (\<forall>j e. slot_get (pc_ents pc) j = Some e \<longrightarrow> pe_hash e = fnv1a spv \<longrightarrow>
        pe_slen e = length spv \<longrightarrow> w_code w (pe_pipe e) = spv)"

lemma mworld_more:
  "world.more w' = world.more w \<Longrightarrow> w_code w' = w_code w \<and> w_mem w' = w_mem (w :: mworld)"
  by (cases w; cases w') simp

lemma mworld_upd [simp]:
  "w_live (w\<lparr>w_code := x\<rparr>) = w_live w" "w_fds (w\<lparr>w_code := x\<rparr>) = w_fds w"
  "w_bad (w\<lparr>w_code := x\<rparr>) = w_bad w" "w_tick (w\<lparr>w_code := x\<rparr>) = w_tick w"
  "w_live (w\<lparr>w_mem := y\<rparr>) = w_live w" "w_fds (w\<lparr>w_mem := y\<rparr>) = w_fds w"
  "w_bad (w\<lparr>w_mem := y\<rparr>) = w_bad w" "w_tick (w\<lparr>w_mem := y\<rparr>) = w_tick w"
  by (cases w; simp)+

lemma code_inv_mono:
  "code_inv pc w \<Longrightarrow> w_tick w \<le> w_tick w' \<Longrightarrow> w_code w' = w_code w \<Longrightarrow> code_inv pc w'"
  by (fastforce simp: code_inv_def)

lemma gp_pipe_spec:
  assumes g: "gp_pipe D spv nbuf pc w = (r, pc', w')" and wf: "pcache_wf pc"
    and own: "slot_sum pent_objs (pc_ents pc) \<subseteq># w_live w" and code: "code_inv pc w"
  shows "pcache_wf pc' \<and> code_inv pc' w' \<and> w_mem w' = w_mem w \<and> w_tick w \<le> w_tick w' \<and>
    w_live w' + slot_sum pent_objs (pc_ents pc) = w_live w + slot_sum pent_objs (pc_ents pc') \<and>
    w_fds w' = w_fds w \<and> w_bad w' = w_bad w \<and>
    (\<forall>e. r = Some e \<longrightarrow> fnv1a (w_code w' (pe_pipe e)) = fnv1a spv \<and>
       length (w_code w' (pe_pipe e)) = length spv \<and> pe_nbuf e = nbuf \<and>
       (no_collision pc w spv \<longrightarrow> w_code w' (pe_pipe e) = spv))"
proof -
  obtain q pc1 w1 where n: "get_pipe_np (gd_ok D) spv nbuf pc w = (q, pc1, w1)" by (metis surj_pair)
  note P = get_pipe_np_spec [OF n wf own, unfolded np_post_def]
  have same: "w_code w1 = w_code w" "w_mem w1 = w_mem w" using mworld_more P by blast+
  show ?thesis
  proof (cases q)
    case None
    with g n have r: "r = None" "pc' = pc1" "w' = w1" by (auto simp: gp_pipe_def)
    have "code_inv pc1 w1"
      using P code None same by (fastforce simp: code_inv_def)
    with P same r show ?thesis by simp
  next
    case (Some i)
    have "holds_key pc1 i (spv, nbuf)" using P Some by simp
    then obtain e where e: "slot_get (pc_ents pc1) i = Some e"
      "pe_hash e = fnv1a spv" "pe_slen e = length spv" "pe_nbuf e = nbuf"
      by (auto simp: holds_key_slot)
    define w2 where "w2 = (if pc_miss pc1 = pc_miss pc then w1
      else w1\<lparr>w_code := (w_code w1)(pe_pipe e := spv)\<rparr>)"
    have r: "r = Some e" "pc' = pc1" "w' = w2"
      using g n Some e by (auto simp: gp_pipe_def w2_def)
    have w2: "w_mem w2 = w_mem w" "w_tick w2 = w_tick w1" "w_live w2 = w_live w1"
      "w_fds w2 = w_fds w1" "w_bad w2 = w_bad w1"
      by (auto simp: w2_def same)
    have ent: "pe_pipe f \<le> w_tick w2 \<and> fnv1a (w_code w2 (pe_pipe f)) = pe_hash f \<and>
        length (w_code w2 (pe_pipe f)) = pe_slen f" if f: "slot_get (pc_ents pc1) j = Some f" for j f
    proof (cases "pc_miss pc1 = pc_miss pc")
      case True
      with P f Some have "slot_get (pc_ents pc) j = Some f" by blast
      with code same P True show ?thesis by (fastforce simp: code_inv_def w2_def)
    next
      case False
      show ?thesis
      proof (cases "j = i")
        case True
        with f e have "f = e" by simp
        moreover have "pe_pipe e \<le> w_tick w1" using P e(1) Some False by blast
        ultimately show ?thesis using e False by (simp add: w2_def)
      next
        case ji: False
        have old: "slot_get (pc_ents pc) j = Some f" using P f Some ji by blast
        have new: "w_tick w < pe_pipe e" using P e(1) Some False by blast
        have le: "pe_pipe f \<le> w_tick w" using code old by (auto simp: code_inv_def)
        with new have "pe_pipe f \<noteq> pe_pipe e" by simp
        then show ?thesis using code old le P same by (fastforce simp: code_inv_def w2_def)
      qed
    qed
    then have ci: "code_inv pc1 w2" by (simp add: code_inv_def)
    have "w_code w2 (pe_pipe e) = spv" if "no_collision pc w spv"
    proof (cases "pc_miss pc1 = pc_miss pc")
      case True
      then have "slot_get (pc_ents pc) i = Some e" using P e(1) Some by blast
      with that e True same show ?thesis by (simp add: no_collision_def w2_def)
    next
      case False
      then show ?thesis by (simp add: w2_def)
    qed
    with ci e ent [OF e(1)] P w2 show ?thesis by (simp add: r)
  qed
qed

section \<open>What a dispatch and a request own\<close>

definition nz :: "nat \<Rightarrow> nat multiset" where
  "nz x = (if x = 0 then {#} else {#x#})"

definition bm_own :: "(nat \<times> nat) list \<Rightarrow> nat multiset" where
  "bm_own bms = sum_list (map (\<lambda>(b, m). nz b + nz m) bms)"

lemma nz_simps [simp]: "nz 0 = {#}" "nz (Suc x) = {#Suc x#}"
  by (simp_all add: nz_def)

lemma free_nz_acct:
  assumes "w_live w = L + nz x"
  shows "w_live (free_nz x w) = L \<and> w_fds (free_nz x w) = w_fds w \<and>
    w_bad (free_nz x w) = w_bad w \<and> world.more (free_nz x w) = world.more w"
  using assms by (auto simp: free_nz_def nz_def acct_simps)

lemma ext_new_m:
  fixes w :: mworld
  assumes "ext_new ok w = (r, w')"
  shows "w_live w' = w_live w + (case r of None \<Rightarrow> {#} | Some x \<Rightarrow> {#x#}) \<and> w_fds w' = w_fds w \<and>
    w_bad w' = w_bad w \<and> w_tick w' = Suc (w_tick w) \<and> w_code w' = w_code w \<and> w_mem w' = w_mem w \<and>
    (\<forall>x. r = Some x \<longrightarrow> x = Suc (w_tick w))"
  using ext_new_acct [OF assms] ext_new_tick [OF assms] mworld_more [of w' w] by simp

lemma ext_try_m:
  fixes w :: mworld
  assumes "ext_try ok w = (r, w')"
  shows "w_live w' = w_live w \<and> w_fds w' = w_fds w \<and> w_bad w' = w_bad w \<and>
    w_tick w' = Suc (w_tick w) \<and> w_code w' = w_code w \<and> w_mem w' = w_mem w"
  using ext_try_acct [OF assms] ext_try_tick [OF assms] mworld_more [of w' w] by simp

lemma gp_dispatch_acct:
  assumes "gp_dispatch D (k1, k2, k3, k4) e g ms w = (st, dp, cb, w')"
    and "k1 \<noteq> 0" "k2 \<noteq> 0" "k3 \<noteq> 0" "k4 \<noteq> 0"
  shows "w_live w' = w_live w + nz dp + nz cb \<and> w_fds w' = w_fds w \<and> w_bad w' = w_bad w \<and>
    w_tick w \<le> w_tick w' \<and> w_code w' = w_code w \<and>
    w_mem w' = (if st = 0 then gpu_run D (w_code w (pe_pipe e)) g ms (w_mem w) else w_mem w)"
  using assms
  by (auto simp: gp_dispatch_def dest!: ext_new_m ext_try_m
      split: prod.splits option.splits bool.splits)

lemma gp_bufs_acct:
  assumes "gp_bufs D ds c w = (st, bms, c', w')"
  shows "w_live w' = w_live w + bm_own bms \<and> w_fds w' = w_fds w \<and> w_bad w' = w_bad w \<and>
    w_tick w \<le> w_tick w' \<and> w_code w' = w_code w \<and>
    (\<forall>m \<le> w_tick w. w_mem w' m = w_mem w m) \<and>
    (st = 0 \<longrightarrow> (\<forall>m\<in>set (map snd bms). w_tick w < m))"
  using assms
proof (induction ds arbitrary: c w st bms c' w')
  case Nil
  then show ?case by (simp add: bm_own_def)
next
  case (Cons q ds)
  obtain sz fl where q: "q = (sz, fl)" by (cases q)
  obtain r1 w1 where 1: "ext_new (gd_ok D) w = (r1, w1)" by (metis surj_pair)
  obtain r2 w2 where 2: "ext_new (gd_ok D) w1 = (r2, w2)" by (metis surj_pair)
  obtain r3 w3 where 3: "ext_try (gd_ok D) w2 = (r3, w3)" by (metis surj_pair)
  obtain r4 w4 where 4: "ext_try (gd_ok D) w3 = (r4, w4)" by (metis surj_pair)
  obtain r5 c1 where 5: "(if is_input fl then rd sz c else (Some (replicate sz 0), c)) = (r5, c1)"
    by (metis surj_pair)
  note A = ext_new_m [OF 1] ext_new_m [OF 2] ext_try_m [OF 3] ext_try_m [OF 4]
  show ?case
  proof (cases "r1 = None \<or> r2 = None \<or> \<not> r3 \<or> \<not> r4 \<or> r5 = None")
    case True
    then show ?thesis
      using Cons.prems A
      by (cases r1; cases r2; cases r3; cases r4; cases r5)
        (auto simp: q 1 2 3 4 5 bm_own_def)
  next
    case False
    then obtain b m bs where r: "r1 = Some b" "r2 = Some m" "r3" "r4" "r5 = Some bs" by auto
    define w5 where "w5 = w4\<lparr>w_mem := (w_mem w4)(m := bs)\<rparr>"
    obtain st' bms' c2 w6 where rec: "gp_bufs D ds c1 w5 = (st', bms', c2, w6)" by (metis surj_pair)
    have e: "st = st'" "bms = (b, m) # bms'" "w' = w6"
      using Cons.prems r rec by (simp_all add: q 1 2 3 4 5 w5_def)
    note I = Cons.IH [OF rec]
    have t: "w_tick w5 = Suc (Suc (Suc (Suc (w_tick w))))" "b = Suc (w_tick w)" "m = Suc (Suc (w_tick w))"
      using A r by (auto simp: w5_def)
    have w5: "w_live w5 = w_live w + {#b, m#}" "w_fds w5 = w_fds w" "w_bad w5 = w_bad w"
      "w_code w5 = w_code w" "\<And>n. n \<le> w_tick w \<Longrightarrow> w_mem w5 n = w_mem w n"
      using A r by (auto simp: w5_def)
    have own: "bm_own bms = {#b, m#} + bm_own bms'"
      using t(2,3) by (simp add: e bm_own_def)
    have "w_live w6 = w_live w + bm_own bms" using I w5 own by (simp add: ac_simps)
    moreover have "w_mem w6 n = w_mem w n" if "n \<le> w_tick w" for n
      using I w5(5) [OF that] that t(1) by simp
    moreover have "w_tick w < n" if "st' = 0" "n \<in> set (map snd bms)" for n
      using I that t by (fastforce simp: e)
    ultimately show ?thesis using I w5 t(1) by (simp add: e)
  qed
qed

lemma gp_cleanup_acct:
  assumes "w_live w = L + bm_own bms"
  shows "w_live (gp_cleanup bms w) = L \<and> w_fds (gp_cleanup bms w) = w_fds w \<and>
    w_bad (gp_cleanup bms w) = w_bad w \<and> w_tick (gp_cleanup bms w) = w_tick w \<and>
    world.more (gp_cleanup bms w) = world.more w"
  using assms
proof (induction bms arbitrary: w)
  case Nil
  then show ?case by (simp add: bm_own_def)
next
  case (Cons p bms)
  obtain b m where p: "p = (b, m)" by (cases p)
  have w: "w_live w = (L + bm_own bms + nz m) + nz b"
    using Cons.prems p by (simp add: bm_own_def ac_simps)
  note B = free_nz_acct [OF w]
  have "w_live (free_nz b w) = (L + bm_own bms) + nz m" using B by simp
  note M = free_nz_acct [OF this]
  have "w_live (free_nz m (free_nz b w)) = L + bm_own bms" using M by simp
  from Cons.IH [OF this] B M show ?case by (simp add: p)
qed

text \<open>
  A one-shot request keeps the cache sound and owns nothing afterwards; memories allocated before
  it keep their contents.
\<close>

definition gp_keeps :: "pcent pcache \<Rightarrow> mworld \<Rightarrow> pcent pcache \<Rightarrow> mworld \<Rightarrow> bool" where
  "gp_keeps pc w pc' w' \<longleftrightarrow>
     pcache_wf pc' \<and> code_inv pc' w' \<and> w_tick w \<le> w_tick w' \<and>
     w_live w' + slot_sum pent_objs (pc_ents pc) = w_live w + slot_sum pent_objs (pc_ents pc') \<and>
     w_fds w' = w_fds w \<and> w_bad w' = w_bad w \<and> (\<forall>m \<le> w_tick w. w_mem w' m = w_mem w m)"

lemma gp_exec_keeps:
  assumes g: "gp_exec D spv g ds c pc w = (c', pc', w')" and wf: "pcache_wf pc"
    and own: "slot_sum pent_objs (pc_ents pc) \<subseteq># w_live w" and code: "code_inv pc w"
  shows "gp_keeps pc w pc' w'"
proof -
  obtain r pc1 w1 where p: "gp_pipe D spv (length ds) pc w = (r, pc1, w1)" by (metis surj_pair)
  note P = gp_pipe_spec [OF p wf own code]
  show ?thesis
  proof (cases r)
    case None
    with g p P show ?thesis by (auto simp: gp_exec_def gp_keeps_def)
  next
    case (Some e)
    obtain st1 bms c1 w2 where b: "gp_bufs D ds c w1 = (st1, bms, c1, w2)" by (metis surj_pair)
    note B = gp_bufs_acct [OF b]
    obtain st dp cb w3 where d: "(if st1 = 0 then gp_dispatch D (30, 31, 40, 41) e g (map snd bms) w2
            else (st1, 0, 0, w2)) = (st, dp, cb, w3)" by (metis surj_pair)
    have r: "pc' = pc1" "w' = free_nz dp (free_nz cb (gp_cleanup bms w3))"
      using g p Some b d by (auto simp: gp_exec_def Let_def)
    have D: "w_live w3 = w_live w2 + nz dp + nz cb \<and> w_fds w3 = w_fds w2 \<and> w_bad w3 = w_bad w2 \<and>
      w_tick w2 \<le> w_tick w3 \<and> w_code w3 = w_code w2 \<and>
      (\<forall>m \<le> w_tick w1. w_mem w3 m = w_mem w2 m)"
    proof (cases "st1 = 0")
      case True
      with d have "gp_dispatch D (30, 31, 40, 41) e g (map snd bms) w2 = (st, dp, cb, w3)" by simp
      note G = gp_dispatch_acct [OF this]
      have "gpu_run D x g (map snd bms) f m = f m" if "m \<le> w_tick w1" for x f m
        using that True B by (intro gpu_run_other) (auto simp: not_less [symmetric])
      with G show ?thesis by simp
    qed (use d in auto)
    have l3: "w_live w3 = (w_live w1 + nz dp + nz cb) + bm_own bms" using B D by (simp add: ac_simps)
    note C = gp_cleanup_acct [OF l3]
    have l4: "w_live (gp_cleanup bms w3) = (w_live w1 + nz dp) + nz cb" using C by simp
    note E = free_nz_acct [OF l4]
    have l5: "w_live (free_nz cb (gp_cleanup bms w3)) = w_live w1 + nz dp" using E by simp
    note G = free_nz_acct [OF l5]
    have more: "world.more w' = world.more w3" using C E G by (simp add: r)
    note M = mworld_more [OF this]
    have tick: "w_tick w' = w_tick w3" using C by (simp add: r)
    have w1: "pcache_wf pc1" "code_inv pc1 w1" "w_mem w1 = w_mem w" "w_tick w \<le> w_tick w1"
      "w_live w1 + slot_sum pent_objs (pc_ents pc) = w_live w + slot_sum pent_objs (pc_ents pc1)"
      "w_fds w1 = w_fds w" "w_bad w1 = w_bad w"
      using P by blast+
    have w': "w_live w' = w_live w1" "w_fds w' = w_fds w1" "w_bad w' = w_bad w1"
      using C E G B D by (simp_all only: r)
    have mem: "w_mem w' m = w_mem w m" if "m \<le> w_tick w" for m
    proof -
      have m1: "m \<le> w_tick w1" using that w1(4) by simp
      then have "w_mem w3 m = w_mem w2 m" "w_mem w2 m = w_mem w1 m" using B D by blast+
      then show ?thesis using M w1(3) by simp
    qed
    have t: "w_tick w1 \<le> w_tick w'" using B D tick by linarith
    have "w_code w' = w_code w1" using B D M by simp
    then have "code_inv pc1 w'" using code_inv_mono [OF w1(2) t] by simp
    with w1 w' mem t show ?thesis by (simp add: gp_keeps_def r(1))
  qed
qed

end
