(* ===== verification/Gpud_Correct.thy ===== *)
theory Gpud_Correct
  imports Gpud
begin

text \<open>
  The invariant of a GPU2 session and the properties of gpud.c.
\<close>

section \<open>Session invariant\<close>

definition gb_objs :: "gbuf \<Rightarrow> nat multiset" where
  "gb_objs g = {#gb_buf g, gb_mem g#}"

definition gb_total :: "gbuf option list \<Rightarrow> nat" where
  "gb_total t = sum_list (map (\<lambda>x. case x of None \<Rightarrow> 0 | Some g \<Rightarrow> gb_size g) t)"

definition gb_mem_ok :: "gbuf option list \<Rightarrow> mworld \<Rightarrow> bool" where
  "gb_mem_ok t w \<longleftrightarrow>
     (\<forall>h g. slot_get t h = Some g \<longrightarrow>
        gb_mem g \<le> w_tick w \<and> length (w_mem w (gb_mem g)) = gb_size g) \<and>
     (\<forall>h h' g g'. slot_get t h = Some g \<longrightarrow> slot_get t h' = Some g' \<longrightarrow>
        gb_mem g = gb_mem g' \<longrightarrow> h = h')"

definition gp_inv :: "nat multiset \<Rightarrow> fd multiset \<Rightarrow> gpsess \<Rightarrow> bool" where
  "gp_inv L F s \<longleftrightarrow>
     w_live (gp_w s) = L + slot_sum pent_objs (pc_ents (gp_pc s)) + slot_sum gb_objs (gp_gb s) \<and>
     w_fds (gp_w s) = F \<and> \<not> w_bad (gp_w s) \<and> pcache_wf (gp_pc s) \<and> code_inv (gp_pc s) (gp_w s) \<and>
     length (gp_gb s) = MAXGBUF \<and> gp_live s = gb_total (gp_gb s) \<and> gp_live s \<le> MAXDATA \<and>
     gb_mem_ok (gp_gb s) (gp_w s)"

lemma gp_invD:
  assumes "gp_inv L F s"
  shows "w_live (gp_w s) = L + slot_sum pent_objs (pc_ents (gp_pc s)) + slot_sum gb_objs (gp_gb s)"
    and "w_fds (gp_w s) = F" and "\<not> w_bad (gp_w s)" and "pcache_wf (gp_pc s)"
    and "code_inv (gp_pc s) (gp_w s)" and "length (gp_gb s) = MAXGBUF"
    and "gp_live s = gb_total (gp_gb s)" and "gp_live s \<le> MAXDATA" and "gb_mem_ok (gp_gb s) (gp_w s)"
  using assms unfolding gp_inv_def by blast+

lemma gp_invI:
  assumes "w_live w = L + slot_sum pent_objs (pc_ents pc) + slot_sum gb_objs gb"
    and "w_fds w = F" and "\<not> w_bad w" and "pcache_wf pc" and "code_inv pc w"
    and "length gb = MAXGBUF" and "n = gb_total gb" and "n \<le> MAXDATA" and "gb_mem_ok gb w"
  shows "gp_inv L F \<lparr>gp_c = c, gp_gb = gb, gp_live = n, gp_pc = pc, gp_w = w\<rparr>"
  using assms by (simp add: gp_inv_def)

lemma gp_sess_eq:
  "s = \<lparr>gp_c = gp_c s, gp_gb = gp_gb s, gp_live = gp_live s, gp_pc = gp_pc s, gp_w = gp_w s\<rparr>"
  by simp

lemma gb_total_update:
  "k < length t \<Longrightarrow> gb_total (t[k := y]) + (case t ! k of None \<Rightarrow> 0 | Some g \<Rightarrow> gb_size g) =
     gb_total t + (case y of None \<Rightarrow> 0 | Some g \<Rightarrow> gb_size g)"
proof (induction t arbitrary: k)
  case (Cons x t)
  then show ?case by (cases k) (auto simp: gb_total_def)
qed simp

lemma gp_inv_c [simp]: "gp_inv L F (s\<lparr>gp_c := c\<rparr>) = gp_inv L F s"
  by (simp add: gp_inv_def)

lemma gp_put_inv [simp]: "gp_inv L F (snd (gp_put bs s)) = gp_inv L F s"
  by (simp add: gp_put_def split: prod.splits)

lemma gp_put_inv': "gp_put bs s = (r, s') \<Longrightarrow> gp_inv L F s' = gp_inv L F s"
  using gp_put_inv [of L F bs s] by simp

lemma gb_mem_ok_mono:
  assumes "gb_mem_ok t w" and "w_tick w \<le> w_tick w'"
    and "\<And>m. m \<le> w_tick w \<Longrightarrow> length (w_mem w' m) = length (w_mem w m)"
  shows "gb_mem_ok t w'"
  using assms by (fastforce simp: gb_mem_ok_def)

text \<open>Any change of the world that keeps ownership, ticks and sizes keeps the invariant.\<close>

lemma gp_inv_world:
  assumes i: "gp_inv L F s" and wf: "pcache_wf pc'" "code_inv pc' w'"
    and t: "w_tick (gp_w s) \<le> w_tick w'"
    and l: "w_live w' + slot_sum pent_objs (pc_ents (gp_pc s)) =
        w_live (gp_w s) + slot_sum pent_objs (pc_ents pc')"
    and f: "w_fds w' = w_fds (gp_w s)" "w_bad w' = w_bad (gp_w s)"
    and m: "\<And>m. m \<le> w_tick (gp_w s) \<Longrightarrow> length (w_mem w' m) = length (w_mem (gp_w s) m)"
  shows "gp_inv L F (s\<lparr>gp_c := c, gp_pc := pc', gp_w := w'\<rparr>)"
proof -
  note I = gp_invD [OF i]
  have mem: "gb_mem_ok (gp_gb s) w'"
    by (rule gb_mem_ok_mono [OF I(9) t m])
  have live: "w_live w' = L + slot_sum pent_objs (pc_ents pc') + slot_sum gb_objs (gp_gb s)"
    using l unfolding I(1) by (simp add: ac_simps)
  have "gp_inv L F \<lparr>gp_c = c, gp_gb = gp_gb s, gp_live = gp_live s, gp_pc = pc', gp_w = w'\<rparr>"
    using f I(2,3) by (intro gp_invI [OF live _ _ wf I(6,7,8) mem]) auto
  then show ?thesis by (cases s) simp
qed

lemma gb_new_acct:
  assumes "gb_new D n w = (r, w')"
  shows "w_live w' = w_live w + (case r of None \<Rightarrow> {#} | Some (b, m) \<Rightarrow> {#b, m#}) \<and>
    w_fds w' = w_fds w \<and> w_bad w' = w_bad w \<and> w_tick w \<le> w_tick w' \<and> w_code w' = w_code w \<and>
    (\<forall>m \<le> w_tick w. w_mem w' m = w_mem w m) \<and>
    (\<forall>b m. r = Some (b, m) \<longrightarrow> w_tick w < m \<and> m \<le> w_tick w' \<and> length (w_mem w' m) = n)"
proof -
  have fr: "w_code (ext_free x u) = w_code u" "w_mem (ext_free x u) = w_mem u" for x and u :: mworld
    using mworld_more [of "ext_free x u" u] by (simp_all add: acct_simps)
  show ?thesis
    using assms
    by (auto simp: gb_new_def acct_simps fr dest!: ext_new_m ext_try_m
        split: prod.splits option.splits bool.splits)
qed

lemma gb_create_inv:
  assumes i: "gp_inv L F s" and c: "gb_create D n s = (r, s')"
  shows "gp_inv L F s'"
proof (cases "free_slot (gp_gb s) = None \<or> n = 0 \<or> n > MAXDATA \<or> gp_live s + n > MAXDATA")
  case True
  with c i show ?thesis by (auto simp: gb_create_def split: option.splits)
next
  case False
  then obtain h where h: "free_slot (gp_gb s) = Some h" and n: "gp_live s + n \<le> MAXDATA" by auto
  obtain q w1 where g: "gb_new D n (gp_w s) = (q, w1)" by (metis surj_pair)
  note G = gb_new_acct [OF g]
  note I = gp_invD [OF i]
  have code: "code_inv (gp_pc s) w1"
    using I(5) G code_inv_mono [of "gp_pc s" "gp_w s" w1] by blast
  have mem: "gb_mem_ok (gp_gb s) w1"
    using G by (intro gb_mem_ok_mono [OF I(9)]) auto
  show ?thesis
  proof (cases q)
    case None
    have s': "s' = s\<lparr>gp_w := w1\<rparr>" using c h False g None by (auto simp: gb_create_def)
    have "gp_inv L F (s\<lparr>gp_c := gp_c s, gp_pc := gp_pc s, gp_w := w1\<rparr>)"
      using G None by (intro gp_inv_world [OF i I(4) code]) auto
    then show ?thesis by (simp add: s')
  next
    case (Some p)
    obtain b m where p: "p = (b, m)" by (cases p)
    define e where "e = \<lparr>gb_buf = b, gb_mem = m, gb_size = n\<rparr>"
    have s': "s' = s\<lparr>gp_gb := (gp_gb s)[h := Some e], gp_live := gp_live s + n, gp_w := w1\<rparr>"
      using c h False g Some p by (auto simp: gb_create_def e_def)
    have h': "h < length (gp_gb s)" "gp_gb s ! h = None" using free_slot_SomeD [OF h] by auto
    have tot: "gb_total ((gp_gb s)[h := Some e]) = gb_total (gp_gb s) + n"
      using gb_total_update [of h "gp_gb s" "Some e"] h' by (simp add: e_def)
    have sum: "slot_sum gb_objs ((gp_gb s)[h := Some e]) = slot_sum gb_objs (gp_gb s) + {#b, m#}"
      using slot_sum_alloc [OF h, of gb_objs e] by (simp add: e_def gb_objs_def)
    have e: "gb_mem e = m" "gb_size e = n" by (simp_all add: e_def)
    have mm: "w_tick (gp_w s) < m" "m \<le> w_tick w1" "length (w_mem w1 m) = n" using G Some p by auto
    have old: "gb_mem g \<le> w_tick (gp_w s)" if "slot_get (gp_gb s) k = Some g" for k g
      using I(9) that unfolding gb_mem_ok_def by blast
    then have ne: "gb_mem g \<noteq> m" if "slot_get (gp_gb s) k = Some g" for k g
      using that mm(1) by fastforce
    have mem': "gb_mem_ok ((gp_gb s)[h := Some e]) w1"
      using mem mm ne unfolding gb_mem_ok_def slot_get_update e [symmetric]
      by (auto split: if_splits) metis+
    have live: "w_live w1 = L + slot_sum pent_objs (pc_ents (gp_pc s)) +
        slot_sum gb_objs ((gp_gb s)[h := Some e])"
      using G Some p I(1) by (simp add: sum)
    have "gp_inv L F \<lparr>gp_c = gp_c s, gp_gb = (gp_gb s)[h := Some e], gp_live = gp_live s + n,
        gp_pc = gp_pc s, gp_w = w1\<rparr>"
      using G I(2,3) n I(6,7) by (intro gp_invI [OF live _ _ I(4) code _ _ _ mem']) (auto simp: tot)
    then show ?thesis unfolding s' by (cases s) simp
  qed
qed

lemma gb_destroy_inv:
  assumes i: "gp_inv L F s"
  shows "gp_inv L F (gb_destroy h s)"
proof (cases "slot_get (gp_gb s) h")
  case None
  with i show ?thesis by (simp add: gb_destroy_def)
next
  case (Some g)
  note I = gp_invD [OF i]
  from slot_get_SomeD [OF Some] have h: "h < length (gp_gb s)" "gp_gb s ! h = Some g" by auto
  have tot: "gb_total (gp_gb s) = gb_total (slot_clear (gp_gb s) h) + gb_size g"
    using gb_total_update [of h "gp_gb s" None] h by (simp add: slot_clear_def)
  have l: "w_live (gp_w s) = L + slot_sum pent_objs (pc_ents (gp_pc s)) +
      slot_sum gb_objs (slot_clear (gp_gb s) h) + {#gb_buf g, gb_mem g#}"
    using I(1) slot_sum_clear [OF Some, of gb_objs] by (simp add: gb_objs_def)
  define w1 where "w1 = ext_free (gb_mem g) (ext_free (gb_buf g) (gp_w s))"
  have w1: "w_live w1 = L + slot_sum pent_objs (pc_ents (gp_pc s)) +
      slot_sum gb_objs (slot_clear (gp_gb s) h)" "w_fds w1 = w_fds (gp_w s)"
    "w_bad w1 = w_bad (gp_w s)" "w_tick w1 = w_tick (gp_w s)"
    using l by (simp_all add: w1_def acct_simps)
  have more: "world.more w1 = world.more (gp_w s)" by (simp add: w1_def acct_simps)
  note M = mworld_more [OF more]
  have code: "code_inv (gp_pc s) w1"
    using I(5) w1(4) M by (intro code_inv_mono [OF I(5)]) auto
  have mem: "gb_mem_ok (slot_clear (gp_gb s) h) w1"
    using I(9) w1(4) M unfolding gb_mem_ok_def slot_get_clear by (auto split: if_splits)
  have d: "gb_destroy h s = s\<lparr>gp_live := gb_total (slot_clear (gp_gb s) h), gp_w := w1,
      gp_gb := slot_clear (gp_gb s) h\<rparr>"
    using Some I(7) tot by (simp add: gb_destroy_def w1_def)
  have "gp_inv L F \<lparr>gp_c = gp_c s, gp_gb = slot_clear (gp_gb s) h,
      gp_live = gb_total (slot_clear (gp_gb s) h), gp_pc = gp_pc s, gp_w = w1\<rparr>"
    using w1 I tot by (intro gp_invI [OF w1(1) _ _ I(4) code _ _ _ mem]) auto
  then show ?thesis unfolding d by (cases s) simp
qed

lemma gp_handle_keeps:
  assumes g: "gp_handle D c pc w = (c', pc', w')" and wf: "pcache_wf pc"
    and own: "slot_sum pent_objs (pc_ents pc) \<subseteq># w_live w" and code: "code_inv pc w"
  shows "gp_keeps pc w pc' w'"
proof -
  have same: "gp_keeps pc w pc w" using wf code by (simp add: gp_keeps_def)
  have try1: "gp_keeps pc w pc w1" if "ext_try ok w = (r, w1)" for ok r w1
    using ext_try_m [OF that] wf code code_inv_mono [of pc w w1] by (simp add: gp_keeps_def)
  have exec: "gp_keeps pc w pc'' w''" if t: "ext_try ok w = (r, w1)"
    and e: "gp_exec D spv gr ds c1 pc w1 = (c'', pc'', w'')" for ok r w1 spv gr ds c1 c'' pc'' w''
  proof -
    have k: "gp_keeps pc w pc w1" by (rule try1 [OF t])
    have "slot_sum pent_objs (pc_ents pc) \<subseteq># w_live w1" using ext_try_m [OF t] own by simp
    from gp_exec_keeps [OF e wf this] k have k2: "gp_keeps pc w1 pc'' w''" by (simp add: gp_keeps_def)
    show ?thesis using k2 ext_try_m [OF t] by (fastforce simp: gp_keeps_def)
  qed
  show ?thesis
    using g same try1 exec
    by (auto simp: gp_handle_def Let_def split: prod.splits option.splits if_splits sum.splits
        bool.splits)
qed

lemma gp_handle_inv:
  assumes i: "gp_inv L F s" and h: "gp_handle D c (gp_pc s) (gp_w s) = (c1, pc1, w1)"
  shows "gp_inv L F (s\<lparr>gp_c := c1, gp_pc := pc1, gp_w := w1\<rparr>)"
proof -
  have "slot_sum pent_objs (pc_ents (gp_pc s)) \<subseteq># w_live (gp_w s)"
    using i by (simp add: gp_inv_def)
  from gp_handle_keeps [OF h _ this] i have "gp_keeps (gp_pc s) (gp_w s) pc1 w1"
    by (simp add: gp_inv_def)
  then show ?thesis by (intro gp_inv_world [OF i]) (auto simp: gp_keeps_def)
qed

lemma gp_inv_same:
  assumes i: "gp_inv L F s" and t: "w_tick (gp_w s) \<le> w_tick w'"
    and l: "w_live w' = w_live (gp_w s)" "w_fds w' = w_fds (gp_w s)" "w_bad w' = w_bad (gp_w s)"
    and c: "w_code w' = w_code (gp_w s)"
    and m: "\<And>m. m \<le> w_tick (gp_w s) \<Longrightarrow> length (w_mem w' m) = length (w_mem (gp_w s) m)"
  shows "gp_inv L F (s\<lparr>gp_c := x, gp_w := w'\<rparr>)"
proof -
  note I = gp_invD [OF i]
  have "gp_inv L F (s\<lparr>gp_c := x, gp_pc := gp_pc s, gp_w := w'\<rparr>)"
    by (rule gp_inv_world [OF i I(4) code_inv_mono [OF I(5) t c] t _ l(2,3) m]) (simp add: l(1))
  then show ?thesis by (cases s) simp
qed

lemma cmd_run_inv:
  assumes i: "gp_inv L F s" and r: "cmd_run D s = (st, s')"
  shows "gp_inv L F s'"
proof -
  note I = gp_invD [OF i]
  obtain h c1 where h: "ru32s 5 (gp_c s) = (h, c1)" by (metis surj_pair)
  show ?thesis
  proof (cases "h = None \<or> req_bad (the h ! 0) (the h ! 1) (the h ! 2) (the h ! 3) (the h ! 4)")
    case True
    then have "s' = s\<lparr>gp_c := c1\<rparr>" using r h by (auto simp: cmd_run_def Let_def split: option.splits)
    with i show ?thesis by simp
  next
    case False
    then obtain f where f: "h = Some f" "\<not> req_bad (f ! 0) (f ! 1) (f ! 2) (f ! 3) (f ! 4)" by auto
    obtain x c2 where x: "read_hnds (f ! 4) (gp_gb s) c1 = (x, c2)" by (metis surj_pair)
    obtain t w1 where t: "ext_try (gd_ok D) (gp_w s) = (t, w1)" by (metis surj_pair)
    obtain y c3 where y: "rd (f ! 0) c2 = (y, c3)" by (metis surj_pair)
    note T = ext_try_m [OF t]
    have i1: "gp_inv L F (s\<lparr>gp_c := c, gp_w := w1\<rparr>)" for c
      using T by (intro gp_inv_same [OF i]) auto
    show ?thesis
    proof (cases x)
      case (Inl e)
      then have "s' = s\<lparr>gp_c := c2\<rparr>" using r h f x by (simp add: cmd_run_def Let_def)
      with i show ?thesis by simp
    next
      case (Inr gs)
      show ?thesis
      proof (cases "\<not> t \<or> y = None")
        case True
        then have "s' = s\<lparr>gp_c := if t then c3 else c2, gp_w := w1\<rparr>"
          using r h f x t y Inr by (cases t) (simp_all add: cmd_run_def Let_def)
        with i1 show ?thesis by simp
      next
        case False
        then obtain spv where ty: "t" "y = Some spv" by auto
        obtain e pc1 w2 where p: "gp_pipe D spv (f ! 4) (gp_pc s) w1 = (e, pc1, w2)"
          by (metis surj_pair)
        have own: "slot_sum pent_objs (pc_ents (gp_pc s)) \<subseteq># w_live w1"
          using T I(1) by simp
        have "code_inv (gp_pc s) w1" using T by (intro code_inv_mono [OF I(5)]) auto
        note P = gp_pipe_spec [OF p I(4) own this]
        have i2: "gp_inv L F (s\<lparr>gp_c := c3, gp_pc := pc1, gp_w := w2\<rparr>)"
          using P T by (intro gp_inv_world [OF i]) auto
        show ?thesis
        proof (cases e)
          case None
          then have "s' = s\<lparr>gp_c := c3, gp_pc := pc1, gp_w := w2\<rparr>"
            using r h f x t y Inr ty p by (simp add: cmd_run_def Let_def)
          with i2 show ?thesis by simp
        next
          case (Some e)
          obtain st1 dp cb w3 where d: "gp_dispatch D (106, 107, 108, 109) e (f ! 1, f ! 2, f ! 3)
            (map gb_mem gs) w2 = (st1, dp, cb, w3)" by (metis surj_pair)
          note A = gp_dispatch_acct [OF d]
          define w4 where "w4 = free_nz dp (free_nz cb w3)"
          have s': "s' = s\<lparr>gp_c := c3, gp_pc := pc1, gp_w := w4\<rparr>"
            using r h f x t y Inr ty p Some d by (simp add: cmd_run_def Let_def w4_def)
          have l: "w_live w3 = (w_live w2 + nz dp) + nz cb" using A by simp
          note B = free_nz_acct [OF l]
          then have "w_live (free_nz cb w3) = w_live w2 + nz dp" by simp
          note C = free_nz_acct [OF this]
          have more: "world.more w4 = world.more w3" using B C by (simp add: w4_def)
          note M = mworld_more [OF more]
          have "gp_inv L F ((s\<lparr>gp_c := c3, gp_pc := pc1, gp_w := w2\<rparr>)\<lparr>gp_c := c3, gp_w := w4\<rparr>)"
            using A B C M by (intro gp_inv_same [OF i2]) (auto simp: w4_def)
          then show ?thesis unfolding s' by (cases s) simp
        qed
      qed
    qed
  qed
qed

lemma gp_cmd_inv:
  assumes i: "gp_inv L F s"
  shows "gp_inv L F (snd (gp_cmd D cmd s))"
proof -
  have "gp_inv L F (snd (c_alloc D s))"
    using i by (auto simp: c_alloc_def dest!: gb_create_inv [rotated] gp_put_inv' [where L = L and F = F]
        split: prod.splits option.splits bool.splits)
  moreover have "gp_inv L F (snd (c_free s))"
    using i by (auto simp: c_free_def gb_destroy_inv split: prod.splits option.splits)
  moreover have "gp_inv L F (snd (c_upload s))"
  proof -
    have "gp_inv L F (s\<lparr>gp_c := c2, gp_w := (gp_w s)\<lparr>w_mem := (w_mem (gp_w s))
        (gb_mem g := over bs (w_mem (gp_w s) (gb_mem g)))\<rparr>\<rparr>)"
      if g: "slot_get (gp_gb s) k = Some g" and n: "length bs \<le> gb_size g" for c2 g bs k
    proof -
      have "length (w_mem (gp_w s) (gb_mem g)) = gb_size g"
        using gp_invD(9) [OF i] g unfolding gb_mem_ok_def by blast
      then show ?thesis using n by (intro gp_inv_same [OF i]) (auto simp: over_def)
    qed
    with i show ?thesis
      by (auto simp: c_upload_def Let_def dest: rd_Some split: prod.splits option.splits)
  qed
  moreover have "gp_inv L F (snd (c_download s))"
    using i by (auto simp: c_download_def Let_def dest!: gp_put_inv' [where L = L and F = F]
        split: prod.splits option.splits bool.splits)
  moreover have "gp_inv L F (snd (c_run D s))"
    using i cmd_run_inv [OF i] by (auto simp: c_run_def split: prod.splits)
  ultimately show ?thesis using i by (simp add: gp_cmd_def)
qed

definition gq_inv :: "nat multiset \<Rightarrow> fd multiset \<Rightarrow> fd list \<Rightarrow> bool \<times> gpsess \<Rightarrow> bool" where
  "gq_inv L F fds q \<longleftrightarrow> gp_inv L F (snd q)"

lemma gp_next_inv: "gp_next q = (r, fds, q') \<Longrightarrow> gp_inv L F (snd q) \<Longrightarrow> gp_inv L F (snd q')"
  by (auto simp: gp_next_def split: prod.splits if_splits)

interpretation g2: session_loop "gp_step D" gp_next gp_fin "gp_loop D" gp_bytes
    "gq_inv L F" "gq_inv L F []" "gq_inv L F" for D L F
proof unfold_locales
  show "gp_loop D cmd fds q =
      (case gp_next (gp_step D cmd fds q) of
         (None, left, q1) \<Rightarrow> gp_fin left q1
       | (Some cmd1, fds1, q1) \<Rightarrow> gp_loop D cmd1 fds1 q1)" for cmd fds q
    by (rule gp_loop.simps)
  show "gp_bytes (gp_step D cmd fds q) \<le> gp_bytes q" for cmd fds q
    using gp_cmd_bytes [of D cmd "snd q"] by (simp add: gp_bytes_def gp_step_def)
qed (auto simp: gq_inv_def gp_step_def gp_cmd_inv dest: gp_next_bytes gp_next_inv)

section \<open>End of a session\<close>

lemma destroy_below:
  assumes "gp_inv L F s"
  shows "gp_inv L F (fold gb_destroy [0..<n] s) \<and>
    (\<forall>h<n. slot_get (gp_gb (fold gb_destroy [0..<n] s)) h = None) \<and>
    gp_pc (fold gb_destroy [0..<n] s) = gp_pc s"
  using assms
proof (induction n)
  case (Suc n)
  define u where "u = fold gb_destroy [0..<n] s"
  have u: "gp_inv L F u" "\<forall>h<n. slot_get (gp_gb u) h = None" "gp_pc u = gp_pc s"
    using Suc by (auto simp: u_def)
  have "slot_get (gp_gb (gb_destroy n u)) h = None" if "h < Suc n" for h
    using u(2) that by (auto simp: gb_destroy_def slot_get_clear less_Suc_eq split: option.splits)
  moreover have "gp_pc (gb_destroy n u) = gp_pc s"
    using u(3) by (simp add: gb_destroy_def split: option.splits)
  ultimately show ?case using gb_destroy_inv [OF u(1), of n] by (simp add: u_def)
qed simp

lemma gp_fin_acct:
  assumes "gp_inv L F (snd q)"
  shows "gp_inv L F (snd (gp_fin fds q)) \<and> gp_gb (snd (gp_fin fds q)) = replicate MAXGBUF None \<and>
    gp_live (snd (gp_fin fds q)) = 0"
proof -
  define u where "u = snd (gp_fin fds q)"
  have u: "gp_inv L F u" "\<forall>h<MAXGBUF. slot_get (gp_gb u) h = None"
    using destroy_below [OF assms, of MAXGBUF] by (auto simp: u_def gp_fin_def)
  note I = gp_invD [OF u(1)]
  have gb: "gp_gb u = replicate MAXGBUF None"
    using u(2) I(6) by (intro nth_equalityI) (auto simp: slot_get_def)
  have "gb_total (replicate n None) = 0" for n by (simp add: gb_total_def)
  with I(7) gb u show ?thesis by (simp add: u_def)
qed

lemma gpud_conn_inv:
  assumes i: "gp_inv L F s" and g: "gp_gb s = replicate MAXGBUF None"
  shows "gp_inv L F (gpud_conn D s) \<and> gp_gb (gpud_conn D s) = replicate MAXGBUF None"
proof (cases "4 \<le> cbytes (gp_c s) \<and> le_nat (take 4 (stream (cq (gp_c s)))) = GPU2")
  case False
  obtain c1 pc1 w1 where h: "gp_handle D (gp_c s) (gp_pc s) (gp_w s) = (c1, pc1, w1)"
    by (metis surj_pair)
  from gp_handle_inv [OF i h] g False h show ?thesis by (auto simp: gpud_conn_def)
next
  case True
  then have d: "gpud_conn D s = cmd_loop D s" by (simp add: gpud_conn_def)
  obtain r c1 where m: "ru32 (gp_c s) = (r, c1)" by (metis surj_pair)
  show ?thesis
  proof (cases r)
    case None
    with m i g d show ?thesis by (simp add: cmd_loop_def)
  next
    case (Some v)
    have i1: "gp_inv L F (snd (True, s\<lparr>gp_c := c1\<rparr>))" using i by simp
    obtain x fds q1 where n: "gp_next (True, s\<lparr>gp_c := c1\<rparr>) = (x, fds, q1)" by (metis surj_pair)
    have i2: "gp_inv L F (snd q1)" by (rule gp_next_inv [OF n i1])
    show ?thesis
    proof (cases x)
      case None
      with n m Some d gp_fin_acct [OF i2] show ?thesis by (simp add: cmd_loop_def)
    next
      case (Some cmd)
      have "gq_inv L F fds q1" using i2 by (simp add: gq_inv_def)
      from g2.loop_ends [OF this, of D cmd] obtain left q2
        where "gp_loop D cmd fds q1 = gp_fin left q2" "gp_inv L F (snd q2)"
        by (auto simp: gq_inv_def)
      with n m Some \<open>r = Some v\<close> d gp_fin_acct [of L F q2 left] show ?thesis
        by (simp add: cmd_loop_def)
    qed
  qed
qed

section \<open>One-shot requests\<close>

text \<open>A buffer of a request: its flags and its contents (zeros when it is no input).\<close>

type_synonym rbuf = "nat \<times> byte list"

definition desc_of :: "rbuf \<Rightarrow> nat \<times> nat" where
  "desc_of b = (length (snd b), fst b)"

definition rb_sent :: "rbuf \<Rightarrow> byte list" where
  "rb_sent b = (if is_input (fst b) then snd b else [])"

definition rb_ok :: "rbuf \<Rightarrow> bool" where
  "rb_ok b \<longleftrightarrow> snd b \<noteq> [] \<and> fst b < 2 ^ 32 \<and>
     (is_input (fst b) \<or> snd b = replicate (length (snd b)) 0)"

definition enc_descs :: "(nat \<times> nat) list \<Rightarrow> byte list" where
  "enc_descs ds = concat (map (\<lambda>(sz, fl). le32 sz @ le32 fl) ds)"

definition enc_oneshot :: "byte list \<Rightarrow> grid \<Rightarrow> rbuf list \<Rightarrow> byte list" where
  "enc_oneshot spv g bs =
     (case g of (gx, gy, gz) \<Rightarrow>
        le32 GPU1 @ put32s [length spv, gx, gy, gz, length bs] @ enc_descs (map desc_of bs) @ spv @
        concat (map rb_sent bs))"

definition oneshot_reply :: "gdev \<Rightarrow> byte list \<Rightarrow> grid \<Rightarrow> rbuf list \<Rightarrow> byte list" where
  "oneshot_reply D spv g bs =
     le32 0 @
     concat (map2 (\<lambda>b x. if is_output (fst b) then fit x (snd b) else []) bs
       (gd_kernel D spv g [0..<length bs] (map snd bs)))"

lemma desc_of_Pair [simp]: "desc_of (fl, d) = (length d, fl)"
  by (simp add: desc_of_def)

lemma read_descs_ok:
  assumes "stream (cq c) = enc_descs (map desc_of bs) @ z" and "\<forall>b\<in>set bs. rb_ok b"
    and "n + sum_list (map (length \<circ> snd) bs) \<le> MAXDATA"
  shows "\<exists>c'. read_descs (length bs) n c = (Inr (map desc_of bs), c') \<and> stream (cq c') = z \<and>
    co c' = co c \<and> croom c' = croom c"
  using assms
proof (induction bs arbitrary: c n)
  case Nil
  then show ?case by (simp add: enc_descs_def)
next
  case (Cons b bs)
  obtain fl d where b: "b = (fl, d)" by (cases b)
  have ok: "d \<noteq> []" "fl < 2 ^ 32" using Cons.prems b by (auto simp: rb_ok_def)
  have d: "length d < 2 ^ 32" using Cons.prems b by (auto simp: MAXDATA_def)
  have s: "stream (cq c) = le32 (length d) @ le32 fl @ enc_descs (map desc_of bs) @ z"
    using Cons.prems by (simp add: enc_descs_def b)
  from ru32_stream [OF s d] obtain c1 where c1: "ru32 c = (Some (length d), c1)"
    "stream (cq c1) = le32 fl @ enc_descs (map desc_of bs) @ z" "co c1 = co c" "croom c1 = croom c"
    by blast
  from ru32_stream [OF c1(2) ok(2)] obtain c2 where c2: "ru32 c1 = (Some fl, c2)"
    "stream (cq c2) = enc_descs (map desc_of bs) @ z" "co c2 = co c1" "croom c2 = croom c1"
    by blast
  have le: "n + length d + sum_list (map (length \<circ> snd) bs) \<le> MAXDATA"
    using Cons.prems b by (simp add: comp_def)
  from Cons.IH [OF c2(2) _ le] Cons.prems obtain c3 where
    c3: "read_descs (length bs) (n + length d) c2 = (Inr (map desc_of bs), c3)"
    "stream (cq c3) = z" "co c3 = co c2" "croom c3 = croom c2" by auto
  have "\<not> (length d = 0 \<or> n + length d > MAXDATA)" using ok le by auto
  with c1 c2 c3 show ?case by (simp add: b)
qed

lemma gp_bufs_ok:
  assumes "\<forall>k. gd_ok D k" and "stream (cq c) = concat (map rb_sent bs) @ z" and "\<forall>b\<in>set bs. rb_ok b"
  shows "\<exists>bms c' w'. gp_bufs D (map desc_of bs) c w = (0, bms, c', w') \<and> stream (cq c') = z \<and>
    co c' = co c \<and> croom c' = croom c \<and> distinct (map snd bms) \<and> length bms = length bs \<and>
    map (w_mem w') (map snd bms) = map snd bs"
  using assms
proof (induction bs arbitrary: c w)
  case Nil
  then show ?case by simp
next
  case (Cons b bs)
  obtain fl d where b: "b = (fl, d)" by (cases b)
  have ok: "is_input fl \<or> d = replicate (length d) 0" using Cons.prems b by (auto simp: rb_ok_def)
  obtain x w1 where 1: "ext_new (gd_ok D) w = (Some x, w1)" using Cons.prems(1) by (simp add: ext_new_def)
  obtain m w2 where 2: "ext_new (gd_ok D) w1 = (Some m, w2)" using Cons.prems(1) by (simp add: ext_new_def)
  obtain w3 where 3: "ext_try (gd_ok D) w2 = (True, w3)" using Cons.prems(1) by (simp add: ext_try_def)
  obtain w4 where 4: "ext_try (gd_ok D) w3 = (True, w4)" using Cons.prems(1) by (simp add: ext_try_def)
  have s: "stream (cq c) = rb_sent b @ concat (map rb_sent bs) @ z" using Cons.prems by simp
  obtain c1 where 5: "(if is_input fl then rd (length d) c else (Some (replicate (length d) 0), c)) = (Some d, c1)"
    and c1: "stream (cq c1) = concat (map rb_sent bs) @ z" "co c1 = co c" "croom c1 = croom c"
    using rd_stream [of c d "concat (map rb_sent bs) @ z" "length d"] s ok
    by (cases "is_input fl") (auto simp: rb_sent_def b)
  define w5 where "w5 = w4\<lparr>w_mem := (w_mem w4)(m := d)\<rparr>"
  from Cons.IH [OF Cons.prems(1) c1(1), of w5] Cons.prems(3) obtain bms c2 w6 where
    rec: "gp_bufs D (map desc_of bs) c1 w5 = (0, bms, c2, w6)" and
    i: "stream (cq c2) = z" "co c2 = co c1" "croom c2 = croom c1" "distinct (map snd bms)"
      "length bms = length bs" "map (w_mem w6) (map snd bms) = map snd bs" by auto
  note B = gp_bufs_acct [OF rec]
  have m: "m \<le> w_tick w5"
    using ext_new_m [OF 2] ext_try_m [OF 3] ext_try_m [OF 4] by (auto simp: w5_def)
  have keep: "w_mem w6 m = d" using B m by (auto simp: w5_def)
  have "m \<notin> set (map snd bms)" using B m by fastforce
  with i c1 rec keep 5 show ?case
    by (simp add: b 1 2 3 4 w5_def [symmetric])
qed

lemma gp_outs_ok:
  assumes "length (concat (map2 (\<lambda>b m. if is_output (fst b) then mem m else []) bs (map snd bms))) \<le> croom c"
    and "length bms = length bs"
  shows "co (gp_outs (map desc_of bs) bms mem c) =
    co c @ concat (map2 (\<lambda>b m. if is_output (fst b) then mem m else []) bs (map snd bms))"
  using assms
proof (induction bs arbitrary: bms c)
  case Nil
  then show ?case by simp
next
  case (Cons b bs)
  obtain x m bms' where bms: "bms = (x, m) # bms'" using Cons.prems(2) by (cases bms) auto
  obtain fl d where b: "b = (fl, d)" by (cases b)
  show ?case
  proof (cases "is_output (fst b)")
    case True
    define c1 where "c1 = c\<lparr>co := co c @ mem m, croom := croom c - length (mem m)\<rparr>"
    have w: "wr (mem m) c = (True, c1)"
      using Cons.prems(1) True by (simp add: wr_def c1_def bms)
    have "co (gp_outs (map desc_of bs) bms' mem c1) =
        co c1 @ concat (map2 (\<lambda>b m. if is_output (fst b) then mem m else []) bs (map snd bms'))"
      using Cons.prems True by (intro Cons.IH) (auto simp: bms c1_def)
    then show ?thesis using True by (simp add: bms b w) (simp add: c1_def)
  next
    case False
    have "co (gp_outs (map desc_of bs) bms' mem c) =
        co c @ concat (map2 (\<lambda>b m. if is_output (fst b) then mem m else []) bs (map snd bms'))"
      using Cons.prems False by (intro Cons.IH) (auto simp: bms)
    then show ?thesis using False by (simp add: bms b)
  qed
qed

lemma gp_pipe_total:
  assumes ok: "\<forall>k. gd_ok D k" and wf: "pcache_wf pc"
    and own: "slot_sum pent_objs (pc_ents pc) \<subseteq># w_live w"
  shows "\<exists>e pc' w'. gp_pipe D spv n pc w = (Some e, pc', w')"
proof -
  obtain r pc1 w1 where g: "get_pipe_np (gd_ok D) spv n pc w = (r, pc1, w1)" by (metis surj_pair)
  have "r \<noteq> None"
  proof -
    have mk: "\<exists>a b c d u'. make_pipe (gd_ok D) u = (Some (a, b, c, d), u')" for u :: mworld
      using make_pipe_total [OF ok, of u] by (metis surj_pair)
    show ?thesis
    proof
      assume "r = None"
      with g mk [of w] mk [of "case pc_ents pc ! pc_next pc of None \<Rightarrow> w | Some e \<Rightarrow> destroy_ent e w"]
      show False by (auto simp: get_pipe_np_def Let_def split: option.splits prod.splits)
    qed
  qed
  then obtain i where i: "r = Some i" by blast
  have "holds_key pc1 i (spv, n)"
    using get_pipe_np_spec [OF g wf own] i by (simp add: np_post_def)
  then obtain e where "slot_get (pc_ents pc1) i = Some e" by (auto simp: holds_key_slot)
  with g i show ?thesis by (simp add: gp_pipe_def)
qed

lemma gp_dispatch_total:
  assumes "\<forall>k. gd_ok D k"
  shows "\<exists>dp cb w'. gp_dispatch D (k1, k2, k3, k4) e g ms w = (0, dp, cb, w')"
  using assms by (simp add: gp_dispatch_def ext_new_def ext_try_def)

lemma gp_exec_ok:
  assumes ok: "\<forall>k. gd_ok D k" and wf: "pcache_wf pc" "code_inv pc w"
    and own: "slot_sum pent_objs (pc_ents pc) \<subseteq># w_live w"
    and col: "no_collision pc w spv"
    and st: "stream (cq c) = concat (map rb_sent bs) @ z" and bs: "\<forall>b\<in>set bs. rb_ok b"
    and out: "length (gd_kernel D spv g [0..<length bs] (map snd bs)) = length bs"
    and room: "length (oneshot_reply D spv g bs) \<le> croom c"
  shows "\<exists>c' pc' w'. gp_exec D spv g (map desc_of bs) c pc w = (c', pc', w') \<and>
    co c' = co c @ oneshot_reply D spv g bs"
proof -
  obtain e pc1 w1 where p: "gp_pipe D spv (length bs) pc w = (Some e, pc1, w1)"
    using gp_pipe_total [OF ok wf(1) own] by blast
  have code: "w_code w1 (pe_pipe e) = spv"
    using gp_pipe_spec [OF p wf(1) own wf(2)] col by blast
  obtain bms c1 w2 where b: "gp_bufs D (map desc_of bs) c w1 = (0, bms, c1, w2)"
    and i: "co c1 = co c" "croom c1 = croom c" "distinct (map snd bms)" "length bms = length bs"
      "map (w_mem w2) (map snd bms) = map snd bs"
    using gp_bufs_ok [OF ok st bs, of w1] by blast
  obtain dp cb w3 where d: "gp_dispatch D (30, 31, 40, 41) e g (map snd bms) w2 = (0, dp, cb, w3)"
    using gp_dispatch_total [OF ok] by blast
  have code2: "w_code w2 (pe_pipe e) = spv" using gp_bufs_acct [OF b] code by simp
  have mem: "w_mem w3 = gpu_run D spv g (map snd bms) (w_mem w2)"
    using gp_dispatch_acct [OF d] code2 by simp
  define K where "K = gd_kernel D spv g [0..<length bs] (map snd bs)"
  have eq: "map2 (\<lambda>b m. if is_output (fst b) then w_mem w3 m else []) bs (map snd bms) =
      map2 (\<lambda>b x. if is_output (fst b) then fit x (snd b) else []) bs K"
  proof (rule nth_equalityI)
    show "length (map2 (\<lambda>b m. if is_output (fst b) then w_mem w3 m else []) bs (map snd bms)) =
        length (map2 (\<lambda>b x. if is_output (fst b) then fit x (snd b) else []) bs K)"
      using out i(4) by (simp add: K_def)
    fix k assume "k < length (map2 (\<lambda>b m. if is_output (fst b) then w_mem w3 m else []) bs (map snd bms))"
    then have k: "k < length bs" "k < length bms" using i(4) by auto
    have kk: "k < length (map snd bms)" using k by simp
    have ka: "k < length (gd_kernel D spv g [0..<length (map snd bms)] (map (w_mem w2) (map snd bms)))"
      using k out unfolding i(5) by (simp add: i(4))
    have old: "w_mem w2 (map snd bms ! k) = snd (bs ! k)"
      using arg_cong [OF i(5), of "\<lambda>l. l ! k"] k by simp
    have "w_mem w3 (map snd bms ! k) = fit (K ! k) (snd (bs ! k))"
      using gpu_run_distinct [OF i(3) kk ka] unfolding mem i(5) old by (simp add: K_def i(4))
    then show "map2 (\<lambda>b m. if is_output (fst b) then w_mem w3 m else []) bs (map snd bms) ! k =
        map2 (\<lambda>b x. if is_output (fst b) then fit x (snd b) else []) bs K ! k"
      using k out by (simp add: K_def)
  qed
  have room2: "length (le32 0) + length (concat (map2 (\<lambda>b x. if is_output (fst b) then fit x (snd b) else []) bs K)) \<le> croom c1"
    using room i(2) by (simp add: oneshot_reply_def K_def)
  then have put: "co (put (le32 0) c1) = co c @ le32 0 \<and> croom (put (le32 0) c1) = croom c1 - 4"
    using put_room [of "le32 0" c1] i(1) by simp
  have "co (gp_outs (map desc_of bs) bms (w_mem w3) (put (le32 0) c1)) =
      co (put (le32 0) c1) @ concat (map2 (\<lambda>b m. if is_output (fst b) then w_mem w3 m else []) bs (map snd bms))"
    using room2 put by (intro gp_outs_ok i(4)) (simp only: eq, simp)
  then have "co (gp_outs (map desc_of bs) bms (w_mem w3) (put (le32 0) c1)) = co c @ oneshot_reply D spv g bs"
    using put by (simp only: eq) (simp add: oneshot_reply_def K_def)
  then show ?thesis by (simp add: gp_exec_def p b d Let_def)
qed

end
