(* ===== verification/Gpud_Refine.thy ===== *)
theory Gpud_Refine
  imports Gpud_Correct
begin

text \<open>
  The command protocol of gpud.c against its abstract specification: a session is a partial map
  from handles to byte strings, and every command is a relation on such maps. Also the invariant at
  every command of a session and what a connection leaves behind.
\<close>

section \<open>Abstract commands\<close>

datatype gcmd2 =
    GAlloc nat
  | GFree nat
  | GUpload nat "byte list"
  | GDownload nat nat
  | GRun "byte list" grid "nat list"

fun gcode :: "gcmd2 \<Rightarrow> nat" where
  "gcode (GAlloc n) = 1"
| "gcode (GFree h) = 2"
| "gcode (GUpload h bs) = 3"
| "gcode (GDownload h n) = 4"
| "gcode (GRun spv g hs) = 5"

fun enc_gcmd :: "gcmd2 \<Rightarrow> byte list" where
  "enc_gcmd (GAlloc n) = le32 n"
| "enc_gcmd (GFree h) = le32 h"
| "enc_gcmd (GUpload h bs) = put32s [h, length bs] @ bs"
| "enc_gcmd (GDownload h n) = put32s [h, n]"
| "enc_gcmd (GRun spv g hs) =
     (case g of (gx, gy, gz) \<Rightarrow>
        put32s [length spv, gx, gy, gz, length hs] @ put32s hs @ spv)"

type_synonym gview = "nat \<Rightarrow> byte list option"

definition g_run :: "gdev \<Rightarrow> byte list \<Rightarrow> grid \<Rightarrow> nat list \<Rightarrow> gview \<Rightarrow> gview" where
  "g_run D spv g hs A =
     (let out = gd_kernel D spv g (same_as hs) (map (the \<circ> A) hs) in
      (\<lambda>h. case first_idx (\<lambda>x. x = h) hs of
             None \<Rightarrow> A h
           | Some i \<Rightarrow> map_option (\<lambda>x. if i < length out then fit (out ! i) x else x) (A h)))"

fun g_spec :: "gdev \<Rightarrow> gcmd2 \<Rightarrow> gview \<Rightarrow> byte list \<Rightarrow> gview \<Rightarrow> bool" where
  "g_spec D (GAlloc n) A r A' =
     (\<exists>h x. A h = None \<and> (\<forall>j<h. A j \<noteq> None) \<and> length x = n \<and> r = le32 0 @ le32 h \<and> A' = A(h \<mapsto> x))"
| "g_spec D (GFree h) A r A' = (r = le32 0 \<and> A' = A(h := None))"
| "g_spec D (GUpload h bs) A r A' =
     (\<exists>x. A h = Some x \<and> r = le32 0 \<and> A' = A(h \<mapsto> over bs x))"
| "g_spec D (GDownload h n) A r A' = (\<exists>x. A h = Some x \<and> r = le32 0 @ take n x \<and> A' = A)"
| "g_spec D (GRun spv g hs) A r A' = (r = le32 0 \<and> A' = g_run D spv g hs A)"

definition g_view :: "gpsess \<Rightarrow> gview" where
  "g_view s h = map_option (\<lambda>g. w_mem (gp_w s) (gb_mem g)) (slot_get (gp_gb s) h)"

fun g_ready :: "gpsess \<Rightarrow> gcmd2 \<Rightarrow> bool" where
  "g_ready s (GAlloc n) = (0 < n \<and> gp_live s + n \<le> MAXDATA \<and> (\<exists>h<MAXGBUF. g_view s h = None))"
| "g_ready s (GFree h) = (h < 2 ^ 32)"
| "g_ready s (GUpload h bs) = (\<exists>x. g_view s h = Some x \<and> length bs \<le> length x)"
| "g_ready s (GDownload h n) = (\<exists>x. g_view s h = Some x \<and> n \<le> length x)"
| "g_ready s (GRun spv g hs) =
     (spv \<noteq> [] \<and> length spv \<le> GP_MAXSPIRV \<and> length spv mod 4 = 0 \<and>
      (case g of (gx, gy, gz) \<Rightarrow> gx \<le> 65535 \<and> gy \<le> 65535 \<and> gz \<le> 65535) \<and>
      hs \<noteq> [] \<and> length hs \<le> GP_MAXBUF \<and> (\<forall>h\<in>set hs. g_view s h \<noteq> None) \<and>
      no_collision (gp_pc s) (gp_w s) spv)"

fun g_room :: "gcmd2 \<Rightarrow> nat" where
  "g_room (GDownload h n) = 4 + n"
| "g_room (GAlloc n) = 8"
| "g_room _ = 4"

section \<open>Commands implement their specification\<close>

lemma gp_put_ok:
  assumes "length bs \<le> croom (gp_c s)"
  shows "\<exists>c. gp_put bs s = (True, s\<lparr>gp_c := c\<rparr>) \<and> cq c = cq (gp_c s) \<and>
    co c = co (gp_c s) @ bs \<and> croom c = croom (gp_c s) - length bs"
  using assms
  by (intro exI [of _ "gp_c s\<lparr>co := co (gp_c s) @ bs, croom := croom (gp_c s) - length bs\<rparr>"])
    (simp add: gp_put_def wr_def)

lemma g_view_c [simp]: "g_view (s\<lparr>gp_c := c\<rparr>) = g_view s"
  by (rule ext) (simp add: g_view_def)

lemma gb_size_le:
  assumes "slot_get t h = Some g"
  shows "gb_size g \<le> gb_total t"
  using gb_total_update [of h t None] slot_get_SomeD [OF assms] by simp

lemma g_view_Some:
  assumes "gp_inv L F s" and "g_view s h = Some x"
  obtains g where "slot_get (gp_gb s) h = Some g" "w_mem (gp_w s) (gb_mem g) = x"
    "length x = gb_size g" "gb_size g \<le> MAXDATA" "h < MAXGBUF"
proof -
  from assms(2) obtain g where g: "slot_get (gp_gb s) h = Some g" "w_mem (gp_w s) (gb_mem g) = x"
    by (auto simp: g_view_def)
  note I = gp_invD [OF assms(1)]
  have "length x = gb_size g" using I(9) g unfolding gb_mem_ok_def by blast
  moreover have "gb_size g \<le> MAXDATA" using gb_size_le [OF g(1)] I(7,8) by simp
  moreover have "h < MAXGBUF" using slot_get_SomeD [OF g(1)] I(6) by simp
  ultimately show ?thesis using g that by blast
qed

text \<open>\<open>g_done\<close>: the loop goes on, the reply is sent, the rest of the stream is untouched.\<close>

definition g_done ::
  "gdev \<Rightarrow> gcmd2 \<Rightarrow> byte list \<Rightarrow> gpsess \<Rightarrow> bool \<times> gpsess \<Rightarrow> bool" where
  "g_done D cmd z s q \<longleftrightarrow>
     fst q \<and> stream (cq (gp_c (snd q))) = z \<and>
     (\<exists>r. co (gp_c (snd q)) = co (gp_c s) @ r \<and> g_spec D cmd (g_view s) r (g_view (snd q)))"

lemma alloc_refines:
  assumes ok: "\<forall>k. gd_ok D k" and i: "gp_inv L F s" and rdy: "g_ready s (GAlloc n)"
    and st: "stream (cq (gp_c s)) = le32 n @ z" and room: "8 \<le> croom (gp_c s)"
  shows "g_done D (GAlloc n) z s (c_alloc D s)"
proof -
  note I = gp_invD [OF i]
  have n: "0 < n" "gp_live s + n \<le> MAXDATA" "n < 2 ^ 32"
    using rdy by (auto simp: MAXDATA_def)
  obtain c1 where c1: "ru32 (gp_c s) = (Some n, c1)" "stream (cq c1) = z" "co c1 = co (gp_c s)"
    "croom c1 = croom (gp_c s)"
    using ru32_stream [OF st n(3)] by blast
  obtain h0 where "h0 < MAXGBUF" "slot_get (gp_gb s) h0 = None" using rdy by (auto simp: g_view_def)
  then have "None \<in> set (gp_gb s)" using I(6) by (auto simp: slot_get_def in_set_conv_nth)
  then obtain h where h: "free_slot (gp_gb s) = Some h"
    using free_slot_None_iff [of "gp_gb s"] by (cases "free_slot (gp_gb s)") auto
  note H = free_slot_SomeD [OF h]
  obtain b w1 where 1: "ext_new (gd_ok D) (gp_w s) = (Some b, w1)" using ok by (simp add: ext_new_def)
  obtain m w2 where 2: "ext_new (gd_ok D) w1 = (Some m, w2)" using ok by (simp add: ext_new_def)
  obtain w3 where 3: "ext_try (gd_ok D) w2 = (True, w3)" using ok by (simp add: ext_try_def)
  obtain w4 where 4: "ext_try (gd_ok D) w3 = (True, w4)" using ok by (simp add: ext_try_def)
  define w5 where "w5 = w4\<lparr>w_mem := (w_mem w4)(m := map (gd_junk D m) [0..<n])\<rparr>"
  define e where "e = \<lparr>gb_buf = b, gb_mem = m, gb_size = n\<rparr>"
  have m: "m = Suc (w_tick w1)" "w_tick w1 = Suc (w_tick (gp_w s))" "w_mem w4 = w_mem (gp_w s)"
    using ext_new_m [OF 1] ext_new_m [OF 2] ext_try_m [OF 3] ext_try_m [OF 4] by auto
  define s1 where "s1 = s\<lparr>gp_c := c1, gp_gb := (gp_gb s)[h := Some e], gp_live := gp_live s + n, gp_w := w5\<rparr>"
  have cr: "gb_create D n (s\<lparr>gp_c := c1\<rparr>) = (Some h, s1)"
    using h n by (simp add: gb_create_def gb_new_def 1 2 3 4 s1_def w5_def e_def)
  have old: "gb_mem g \<noteq> m" if "slot_get (gp_gb s) k = Some g" for k g
    using I(9) that m unfolding gb_mem_ok_def by fastforce
  have view: "g_view s1 = (g_view s)(h \<mapsto> map (gd_junk D m) [0..<n])"
  proof
    fix k
    show "g_view s1 k = ((g_view s)(h \<mapsto> map (gd_junk D m) [0..<n])) k"
      using old [of k] H m(3) by (cases "slot_get (gp_gb s) k")
        (auto simp: g_view_def s1_def slot_get_update e_def w5_def)
  qed
  have "g_view s h = None" using H by (simp add: g_view_def slot_get_def)
  moreover have "\<forall>j<h. g_view s j \<noteq> None" using H by (simp add: g_view_def slot_get_def)
  moreover have "croom (gp_c s1) = croom (gp_c s)" using c1 by (simp add: s1_def)
  moreover obtain c2 where c2: "gp_put (le32 0) s1 = (True, s1\<lparr>gp_c := c2\<rparr>)"
      "cq c2 = cq (gp_c s1)" "co c2 = co (gp_c s1) @ le32 0" "croom c2 = croom (gp_c s1) - 4"
    using gp_put_ok [of "le32 0" s1] room calculation(3) by auto
  moreover obtain c3 where c3: "gp_put (le32 h) (s1\<lparr>gp_c := c2\<rparr>) = (True, s1\<lparr>gp_c := c3\<rparr>)"
      "cq c3 = cq c2" "co c3 = co c2 @ le32 h"
  proof -
    have "length (le32 h) \<le> croom (gp_c (s1\<lparr>gp_c := c2\<rparr>))"
      using room calculation(3) c2(4) by (simp add: le_diff_conv)
    from gp_put_ok [OF this] that show ?thesis by auto
  qed
  moreover have "c_alloc D s = (True, s1\<lparr>gp_c := c3\<rparr>)"
    using c1 cr c2(1) c3(1) by (simp add: c_alloc_def)
  moreover have "gp_c s1 = c1" by (simp add: s1_def)
  moreover have "g_spec D (GAlloc n) (g_view s) (le32 0 @ le32 h) (g_view s1)"
    unfolding g_spec.simps view using calculation(1,2) by (intro exI conjI) auto
  ultimately show ?thesis using c1 by (auto simp: g_done_def)
qed

lemma free_refines:
  assumes i: "gp_inv L F s" and rdy: "g_ready s (GFree h)"
    and st: "stream (cq (gp_c s)) = le32 h @ z" and room: "4 \<le> croom (gp_c s)"
  shows "g_done D (GFree h) z s (c_free s)"
proof -
  have h: "h < 2 ^ 32" using rdy by simp
  obtain c1 where c1: "ru32 (gp_c s) = (Some h, c1)" "stream (cq c1) = z" "co c1 = co (gp_c s)"
    "croom c1 = croom (gp_c s)"
    using ru32_stream [OF st h] by blast
  define s1 where "s1 = gb_destroy h (s\<lparr>gp_c := c1\<rparr>)"
  have s1: "gp_c s1 = c1" by (simp add: s1_def)
  have mem: "w_mem (gp_w s1) = w_mem (gp_w s)"
    using mworld_more [of "ext_free x (ext_free y (gp_w s))" "gp_w s" for x y]
    by (simp add: s1_def gb_destroy_def acct_simps split: option.splits)
  have gb: "slot_get (gp_gb s1) k = (if k = h then None else slot_get (gp_gb s) k)" for k
    by (simp add: s1_def gb_destroy_def slot_get_clear split: option.splits)
  have "g_view s1 = (g_view s)(h := None)" by (rule ext) (simp add: g_view_def mem gb)
  moreover obtain c2 where "gp_put (le32 0) s1 = (True, s1\<lparr>gp_c := c2\<rparr>)" "cq c2 = cq c1" "co c2 = co c1 @ le32 0"
    using gp_put_ok [of "le32 0" s1] s1 c1 room by auto
  ultimately show ?thesis using c1 by (simp add: c_free_def g_done_def s1_def [symmetric])
qed

lemma upload_refines:
  assumes i: "gp_inv L F s" and rdy: "g_ready s (GUpload h bs)"
    and st: "stream (cq (gp_c s)) = put32s [h, length bs] @ bs @ z" and room: "4 \<le> croom (gp_c s)"
  shows "g_done D (GUpload h bs) z s (c_upload s)"
proof -
  note I = gp_invD [OF i]
  obtain x where x: "g_view s h = Some x" "length bs \<le> length x" using rdy by auto
  obtain g where g: "slot_get (gp_gb s) h = Some g" "w_mem (gp_w s) (gb_mem g) = x"
    "length x = gb_size g" "gb_size g \<le> MAXDATA" "h < MAXGBUF"
    using g_view_Some [OF i x(1)] by blast
  have "\<forall>v\<in>set [h, length bs]. v < 2 ^ 32" using g x by (auto simp: MAXDATA_def MAXGBUF_def)
  from ru32s_stream [OF st this] obtain c1 where c1: "ru32s 2 (gp_c s) = (Some [h, length bs], c1)"
    "stream (cq c1) = bs @ z" "co c1 = co (gp_c s)" "croom c1 = croom (gp_c s)"
    by (auto simp: numeral_2_eq_2)
  obtain c2 where c2: "rd (length bs) c1 = (Some bs, c2)" "stream (cq c2) = z" "co c2 = co c1"
    "croom c2 = croom c1"
    using rd_stream [OF c1(2) refl] by blast
  define s1 where "s1 = s\<lparr>gp_c := c2, gp_w := (gp_w s)\<lparr>w_mem := (w_mem (gp_w s))(gb_mem g := over bs x)\<rparr>\<rparr>"
  have view: "g_view s1 = (g_view s)(h \<mapsto> over bs x)"
  proof
    fix k
    have "gb_mem g' \<noteq> gb_mem g" if "slot_get (gp_gb s) k = Some g'" "k \<noteq> h" for g'
      using I(9) g(1) that unfolding gb_mem_ok_def by blast
    then show "g_view s1 k = ((g_view s)(h \<mapsto> over bs x)) k"
      using g by (cases "slot_get (gp_gb s) k") (auto simp: g_view_def s1_def)
  qed
  obtain c3 where c3: "gp_put (le32 0) s1 = (True, s1\<lparr>gp_c := c3\<rparr>)" "cq c3 = cq c2" "co c3 = co c2 @ le32 0"
    using gp_put_ok [of "le32 0" s1] c1 c2 room by (auto simp: s1_def)
  have "c_upload s = gp_put (le32 0) s1"
    using c1 c2 g x by (simp add: c_upload_def Let_def s1_def)
  with c1 c2 c3 view x show ?thesis by (simp add: g_done_def)
qed

lemma download_refines:
  assumes i: "gp_inv L F s" and rdy: "g_ready s (GDownload h n)"
    and st: "stream (cq (gp_c s)) = put32s [h, n] @ z" and room: "4 + n \<le> croom (gp_c s)"
  shows "g_done D (GDownload h n) z s (c_download s)"
proof -
  obtain x where x: "g_view s h = Some x" "n \<le> length x" using rdy by auto
  obtain g where g: "slot_get (gp_gb s) h = Some g" "w_mem (gp_w s) (gb_mem g) = x"
    "length x = gb_size g" "gb_size g \<le> MAXDATA" "h < MAXGBUF"
    using g_view_Some [OF i x(1)] by blast
  have "\<forall>v\<in>set [h, n]. v < 2 ^ 32" using g x by (auto simp: MAXDATA_def MAXGBUF_def)
  from ru32s_stream [OF st this] obtain c1 where c1: "ru32s 2 (gp_c s) = (Some [h, n], c1)"
    "stream (cq c1) = z" "co c1 = co (gp_c s)" "croom c1 = croom (gp_c s)"
    by (auto simp: numeral_2_eq_2)
  define s1 where "s1 = s\<lparr>gp_c := c1\<rparr>"
  obtain c2 where c2: "gp_put (le32 0) s1 = (True, s1\<lparr>gp_c := c2\<rparr>)" "cq c2 = cq c1"
    "co c2 = co c1 @ le32 0" "croom c2 = croom c1 - 4"
    using gp_put_ok [of "le32 0" s1] room c1 by (auto simp: s1_def)
  obtain c3 where c3: "gp_put (take n x) (s1\<lparr>gp_c := c2\<rparr>) = (True, s1\<lparr>gp_c := c3\<rparr>)" "cq c3 = cq c2"
    "co c3 = co c2 @ take n x"
  proof -
    have "length (take n x) \<le> croom (gp_c (s1\<lparr>gp_c := c2\<rparr>))" using room c1 c2 x by (simp add: s1_def)
    from gp_put_ok [OF this] that show ?thesis by auto
  qed
  have "c_download s = gp_put (take n x) (s1\<lparr>gp_c := c2\<rparr>)"
    using c1 c2 g x by (simp add: c_download_def Let_def s1_def)
  with c1 c2 c3 x show ?thesis by (simp add: g_done_def s1_def)
qed

lemma read_hnds_ok:
  assumes "stream (cq c) = put32s hs @ z" and "\<forall>h\<in>set hs. slot_get t h \<noteq> None \<and> h < 2 ^ 32"
  shows "\<exists>c'. read_hnds (length hs) t c = (Inr (map (the \<circ> slot_get t) hs), c') \<and>
    stream (cq c') = z \<and> co c' = co c \<and> croom c' = croom c"
  using assms
proof (induction hs arbitrary: c)
  case Nil
  then show ?case by simp
next
  case (Cons h hs)
  then have s: "stream (cq c) = le32 h @ (put32s hs @ z)" and h: "h < 2 ^ 32" by simp_all
  obtain g where g: "slot_get t h = Some g" using Cons.prems by auto
  from ru32_stream [OF s h] obtain c1 where c1: "ru32 c = (Some h, c1)"
    "stream (cq c1) = put32s hs @ z" "co c1 = co c" "croom c1 = croom c" by blast
  from Cons.IH [OF c1(2)] Cons.prems(2) obtain c2 where
    "read_hnds (length hs) t c1 = (Inr (map (the \<circ> slot_get t) hs), c2)" "stream (cq c2) = z"
    "co c2 = co c1" "croom c2 = croom c1" by auto
  with c1 g show ?case by simp
qed

text \<open>Distinct handles name distinct memories, so aliasing is the same in both views.\<close>

lemma first_idx_inj:
  assumes "\<forall>x\<in>set xs. f x = f y \<longrightarrow> x = y"
  shows "first_idx (\<lambda>m. m = f y) (map f xs) = first_idx (\<lambda>x. x = y) xs"
  using assms by (induction xs) auto

lemma same_as_inj:
  assumes "\<forall>x\<in>set xs. \<forall>y\<in>set xs. f x = f y \<longrightarrow> x = y"
  shows "same_as (map f xs) = same_as xs"
  using assms by (auto simp: same_as_def first_idx_inj)

lemma run_refines:
  assumes ok: "\<forall>k. gd_ok D k" and i: "gp_inv L F s" and rdy: "g_ready s (GRun spv (gx, gy, gz) hs)"
    and st: "stream (cq (gp_c s)) = put32s [length spv, gx, gy, gz, length hs] @ put32s hs @ spv @ z"
    and room: "4 \<le> croom (gp_c s)"
  shows "g_done D (GRun spv (gx, gy, gz) hs) z s (c_run D s)"
proof -
  note I = gp_invD [OF i]
  define hdr where "hdr = [length spv, gx, gy, gz, length hs]"
  define gs where "gs = map (the \<circ> slot_get (gp_gb s)) hs"
  have sp: "length spv \<le> GP_MAXSPIRV" "gx \<le> 65535" "gy \<le> 65535" "gz \<le> 65535"
    "length hs \<le> GP_MAXBUF" "no_collision (gp_pc s) (gp_w s) spv"
    and hs: "\<And>h. h \<in> set hs \<Longrightarrow> g_view s h \<noteq> None"
    and good: "\<not> req_bad (length spv) gx gy gz (length hs)"
    using rdy by (auto simp: req_bad_def)
  have len: "length hdr = 5" by (simp add: hdr_def)
  have nth: "hdr ! 0 = length spv" "hdr ! 1 = gx" "hdr ! 2 = gy" "hdr ! 3 = gz" "hdr ! 4 = length hs"
    by (simp_all add: hdr_def)
  have "\<forall>v\<in>set hdr. v < 2 ^ 32" using sp by (auto simp: hdr_def GP_MAXSPIRV_def GP_MAXBUF_def)
  from ru32s_stream [OF st [folded hdr_def] this, unfolded len] obtain c1 where
    c1: "ru32s 5 (gp_c s) = (Some hdr, c1)" "stream (cq c1) = put32s hs @ spv @ z"
    "co c1 = co (gp_c s)" "croom c1 = croom (gp_c s)" by auto
  have slot: "slot_get (gp_gb s) h \<noteq> None \<and> h < 2 ^ 32" if "h \<in> set hs" for h
    using hs [OF that] I(6) by (auto simp: g_view_def MAXGBUF_def dest: slot_get_SomeD)
  then obtain c2 where c2: "read_hnds (length hs) (gp_gb s) c1 = (Inr gs, c2)"
    "stream (cq c2) = spv @ z" "co c2 = co c1" "croom c2 = croom c1"
    using read_hnds_ok [OF c1(2), of "gp_gb s"] by (auto simp: gs_def)
  obtain w1 where t: "ext_try (gd_ok D) (gp_w s) = (True, w1)" using ok by (simp add: ext_try_def)
  note T = ext_try_m [OF t]
  obtain c3 where c3: "rd (length spv) c2 = (Some spv, c3)" "stream (cq c3) = z" "co c3 = co c2"
    "croom c3 = croom c2"
    using rd_stream [OF c2(2) refl] by blast
  have code: "code_inv (gp_pc s) w1" using T by (intro code_inv_mono [OF I(5)]) auto
  have own: "slot_sum pent_objs (pc_ents (gp_pc s)) \<subseteq># w_live w1" using T I(1) by simp
  have col: "no_collision (gp_pc s) w1 spv" using sp(6) T by (simp add: no_collision_def)
  obtain e pc1 w2 where p: "gp_pipe D spv (length hs) (gp_pc s) w1 = (Some e, pc1, w2)"
    using gp_pipe_total [OF ok I(4) own] by blast
  note P = gp_pipe_spec [OF p I(4) own code]
  have pcode: "w_code w2 (pe_pipe e) = spv" using P col by blast
  have m2: "w_mem w2 = w_mem (gp_w s)" using P T by simp
  obtain dp cb w3 where d: "gp_dispatch D (106, 107, 108, 109) e (gx, gy, gz) (map gb_mem gs) w2 = (0, dp, cb, w3)"
    using gp_dispatch_total [OF ok] by blast
  note A = gp_dispatch_acct [OF d]
  have m3: "w_mem w3 = gpu_run D spv (gx, gy, gz) (map gb_mem gs) (w_mem (gp_w s))"
    using A pcode m2 by simp
  define w4 where "w4 = free_nz dp (free_nz cb w3)"
  have "w_live w3 = (w_live w2 + nz dp) + nz cb" using A by simp
  note B = free_nz_acct [OF this]
  then have "w_live (free_nz cb w3) = w_live w2 + nz dp" by simp
  note C = free_nz_acct [OF this]
  have m4: "w_mem w4 = w_mem w3" using mworld_more [of w4 w3] B C by (simp add: w4_def)
  define s1 where "s1 = s\<lparr>gp_c := c3, gp_pc := pc1, gp_w := w4\<rparr>"
  have run: "cmd_run D s = (0, s1)"
    unfolding cmd_run_def c1(1) prod.case option.case Let_def nth
    using good c2(1) t c3(1) p d by (simp add: s1_def w4_def)
  define F where "F = (\<lambda>h. gb_mem (the (slot_get (gp_gb s) h)))"
  have ms: "map gb_mem gs = map F hs" by (simp add: gs_def F_def)
  have inj: "F h = F k \<longrightarrow> h = k" if hk: "slot_get (gp_gb s) h \<noteq> None" "slot_get (gp_gb s) k \<noteq> None" for h k
  proof -
    obtain g g' where "slot_get (gp_gb s) h = Some g" "slot_get (gp_gb s) k = Some g'" using hk by auto
    with I(9) show ?thesis unfolding gb_mem_ok_def F_def by fastforce
  qed
  have vals: "map (w_mem (gp_w s)) (map F hs) = map (the \<circ> g_view s) hs"
    using slot by (fastforce simp: g_view_def F_def)
  have same: "same_as (map F hs) = same_as hs" using inj slot by (intro same_as_inj) blast
  define out where "out = gd_kernel D spv (gx, gy, gz) (same_as hs) (map (the \<circ> g_view s) hs)"
  have view: "g_view s1 = g_run D spv (gx, gy, gz) hs (g_view s)"
  proof
    fix h
    show "g_view s1 h = g_run D spv (gx, gy, gz) hs (g_view s) h"
    proof (cases "slot_get (gp_gb s) h")
      case None
      then show ?thesis by (simp add: g_view_def s1_def g_run_def Let_def split: option.splits)
    next
      case (Some g)
      have Fh: "gb_mem g = F h" using Some by (simp add: F_def)
      have idx: "first_idx (\<lambda>m. m = F h) (map F hs) = first_idx (\<lambda>x. x = h) hs"
        using inj slot Some by (intro first_idx_inj) blast
      have "w_mem (gp_w s1) (gb_mem g) = (case first_idx (\<lambda>x. x = h) hs of None \<Rightarrow> w_mem (gp_w s) (F h)
          | Some i \<Rightarrow> if i < length out then fit (out ! i) (w_mem (gp_w s) (F h)) else w_mem (gp_w s) (F h))"
        unfolding s1_def Fh by (simp add: m4 m3 ms gpu_run_def Let_def same idx vals [unfolded map_map] out_def split: option.splits)
      moreover have "gp_gb s1 = gp_gb s" by (simp add: s1_def)
      moreover have "g_view s h = Some (w_mem (gp_w s) (F h))" using Some by (simp add: g_view_def Fh)
      ultimately show ?thesis
        using Some by (simp add: g_view_def [of s1] g_run_def Let_def out_def split: option.splits)
    qed
  qed
  obtain c4 where "gp_put (le32 0) s1 = (True, s1\<lparr>gp_c := c4\<rparr>)" "cq c4 = cq c3" "co c4 = co c3 @ le32 0"
    using gp_put_ok [of "le32 0" s1] c1 c2 c3 room by (auto simp: s1_def)
  with run view c1 c2 c3 show ?thesis by (simp add: c_run_def g_done_def)
qed

lemma gp_next_code:
  assumes "stream (cq (gp_c s)) = le32 v @ z" and "v < 2 ^ 32"
  shows "\<exists>c. gp_next (True, s) = (Some v, [], (True, s\<lparr>gp_c := c\<rparr>)) \<and> stream (cq c) = z \<and>
    co c = co (gp_c s) \<and> croom c = croom (gp_c s)"
  using ru32_stream [OF assms] by (auto simp: gp_next_def)

lemma gcmd_refines:
  assumes "\<forall>k. gd_ok D k" and "gp_inv L F s" and "g_ready s cmd"
    and "stream (cq (gp_c s)) = enc_gcmd cmd @ z" and "g_room cmd \<le> croom (gp_c s)"
  shows "g_done D cmd z s (gp_cmd D (gcode cmd) s)"
proof (cases cmd)
  case (GAlloc n)
  with assms alloc_refines [of D L F s n z] show ?thesis by (simp add: gp_cmd_def)
next
  case (GFree h)
  with assms free_refines [of L F s h z D] show ?thesis by (simp add: gp_cmd_def)
next
  case (GUpload h bs)
  with assms upload_refines [of L F s h bs z D] show ?thesis by (simp add: gp_cmd_def)
next
  case (GDownload h n)
  with assms download_refines [of L F s h n z D] show ?thesis by (simp add: gp_cmd_def)
next
  case (GRun spv g hs)
  obtain gx gy gz where g: "g = (gx, gy, gz)" by (cases g)
  with assms GRun run_refines [of D L F s spv gx gy gz hs z] show ?thesis by (simp add: gp_cmd_def)
qed

lemma g_ready_c [simp]: "g_ready (s\<lparr>gp_c := c\<rparr>) cmd = g_ready s cmd"
  by (cases cmd) simp_all

text \<open>
  C16. The command session refines its abstract specification: with a driver that answers, every
  command that the specification allows in the current map of handles is read exactly, sends the
  reply of the specification, leaves the map the specification asks for and the loop running, and
  keeps the session invariant. In particular DOWNLOAD returns what the last UPLOAD or RUN left, and
  no command touches a buffer it does not name.
\<close>

theorem gpud_session_refines:
  assumes "\<forall>k. gd_ok D k" and "gp_inv L F s" and "g_ready s cmd"
    and "stream (cq (gp_c s)) = le32 (gcode cmd) @ enc_gcmd cmd @ z"
    and "g_room cmd \<le> croom (gp_c s)"
  shows "\<exists>q s' r. gp_next (True, s) = (Some (gcode cmd), [], q) \<and>
    gp_step D (gcode cmd) [] q = (True, s') \<and> co (gp_c s') = co (gp_c s) @ r \<and>
    stream (cq (gp_c s')) = z \<and> g_spec D cmd (g_view s) r (g_view s') \<and> gp_inv L F s'"
proof -
  have "gcode cmd < 2 ^ 32" by (cases cmd) simp_all
  from gp_next_code [OF assms(4) this] obtain c where
    n: "gp_next (True, s) = (Some (gcode cmd), [], (True, s\<lparr>gp_c := c\<rparr>))"
    and c: "stream (cq c) = enc_gcmd cmd @ z" "co c = co (gp_c s)" "croom c = croom (gp_c s)" by blast
  obtain go s' where g: "gp_cmd D (gcode cmd) (s\<lparr>gp_c := c\<rparr>) = (go, s')" by (metis surj_pair)
  have "g_done D cmd z (s\<lparr>gp_c := c\<rparr>) (go, s')"
    using gcmd_refines [of D L F "s\<lparr>gp_c := c\<rparr>" cmd z] assms c g by simp
  moreover have "gp_inv L F s'" using gp_cmd_inv [of L F "s\<lparr>gp_c := c\<rparr>" D "gcode cmd"] assms(2) g by simp
  ultimately have "gp_step D (gcode cmd) [] (True, s\<lparr>gp_c := c\<rparr>) = (True, s') \<and>
      (\<exists>r. co (gp_c s') = co (gp_c s) @ r \<and> g_spec D cmd (g_view s) r (g_view s')) \<and>
      stream (cq (gp_c s')) = z \<and> gp_inv L F s'"
    using g c by (auto simp: g_done_def gp_step_def)
  with n show ?thesis by blast
qed

section \<open>Invariant and cleanup\<close>

text \<open>The states in which a session reads its commands, from the magic number on.\<close>

inductive g2_reach :: "gdev \<Rightarrow> gpsess \<Rightarrow> nat \<Rightarrow> bool \<times> gpsess \<Rightarrow> bool" for D s where
  first: "gp_next (True, s) = (Some cmd, fds, q) \<Longrightarrow> g2_reach D s cmd q"
| next_one: "g2_reach D s cmd q \<Longrightarrow> gp_next (gp_step D cmd [] q) = (Some cmd', fds, q') \<Longrightarrow>
    g2_reach D s cmd' q'"

lemma g2_reach_inv: "g2_reach D s cmd q \<Longrightarrow> gp_inv L F s \<Longrightarrow> gp_inv L F (snd q)"
proof (induction rule: g2_reach.induct)
  case (first cmd fds q)
  then show ?case using gp_next_inv by fastforce
next
  case (next_one cmd q cmd' fds q')
  then show ?case using gp_next_inv gp_cmd_inv by (fastforce simp: gp_step_def)
qed

text \<open>
  C17. At every command of a session, whatever the driver answers and the client sends: the running
  total \<open>g_gb_live\<close> is the sum of the sizes of the live buffers and at most 256 MiB, there are at
  most 256 of them, each has memory of exactly its size, and no two share memory. The subtraction
  guard of \<open>gb_destroy\<close> is therefore never needed.
\<close>

theorem gpud_budget_invariant:
  assumes "g2_reach D s cmd q" and "gp_inv L F s"
  shows "gp_live (snd q) = gb_total (gp_gb (snd q)) \<and> gp_live (snd q) \<le> MAXDATA \<and>
    slot_live (gp_gb (snd q)) \<le> MAXGBUF \<and> gb_mem_ok (gp_gb (snd q)) (gp_w (snd q)) \<and>
    (\<forall>h g. slot_get (gp_gb (snd q)) h = Some g \<longrightarrow> gb_size g \<le> gp_live (snd q))"
proof -
  note I = gp_invD [OF g2_reach_inv [OF assms]]
  show ?thesis using I(6-9) slot_live_le [of "gp_gb (snd q)"] gb_size_le by auto
qed

text \<open>
  C18. Every connection to gpud, one-shot or session, whatever it sends and whatever driver calls
  fail, ends with no live buffer and a total of zero; the only objects kept are those of the cached
  pipelines, nothing is released twice, and the cache stays well formed.
\<close>

theorem gpud_conserves:
  assumes "gp_inv L F s" and "gp_gb s = replicate MAXGBUF None" and "s' = gpud_conn D s"
  shows "w_live (gp_w s') = L + slot_sum pent_objs (pc_ents (gp_pc s')) \<and> w_fds (gp_w s') = F \<and>
    \<not> w_bad (gp_w s') \<and> gp_gb s' = replicate MAXGBUF None \<and> gp_live s' = 0 \<and>
    pcache_wf (gp_pc s') \<and> code_inv (gp_pc s') (gp_w s')"
proof -
  have i: "gp_inv L F s'" and g: "gp_gb s' = replicate MAXGBUF None"
    using gpud_conn_inv [OF assms(1,2), of D] assms(3) by auto
  have "gb_total (replicate n None) = 0" for n by (simp add: gb_total_def)
  with gp_invD [OF i] g show ?thesis by (simp add: slot_sum_replicate)
qed

section \<open>One-shot requests\<close>

lemma gpud_oneshot:
  assumes "\<forall>k. gd_ok D k" and "gp_inv L F s"
    and "stream (cq (gp_c s)) = enc_oneshot spv (gx, gy, gz) bs @ z"
    and "spv \<noteq> []" and "length spv \<le> GP_MAXSPIRV" and "length spv mod 4 = 0"
    and "gx \<le> 65535" and "gy \<le> 65535" and "gz \<le> 65535"
    and "bs \<noteq> []" and "length bs \<le> GP_MAXBUF" and "\<forall>b\<in>set bs. rb_ok b"
    and "sum_list (map (length \<circ> snd) bs) \<le> MAXDATA"
    and "no_collision (gp_pc s) (gp_w s) spv"
    and "length (gd_kernel D spv (gx, gy, gz) [0..<length bs] (map snd bs)) = length bs"
    and "length (oneshot_reply D spv (gx, gy, gz) bs) \<le> croom (gp_c s)"
  shows "co (gp_c (gpud_conn D s)) = co (gp_c s) @ oneshot_reply D spv (gx, gy, gz) bs"
proof -
  define c where "c = gp_c s"
  define hdr where "hdr = [length spv, gx, gy, gz, length bs]"
  define rest where "rest = enc_descs (map desc_of bs) @ spv @ concat (map rb_sent bs) @ z"
  note I = gp_invD [OF assms(2)]
  have s: "stream (cq c) = le32 GPU1 @ put32s hdr @ rest"
    using assms(3) by (simp add: c_def hdr_def rest_def enc_oneshot_def)
  have g1: "GPU1 < 2 ^ 32" by (simp add: GPU1_def)
  have peek: "le_nat (take 4 (stream (cq c))) \<noteq> GPU2"
    using le_nat_le32 [OF g1] by (simp add: s GPU1_def GPU2_def)
  from ru32_stream [OF s g1] obtain c1 where c1: "ru32 c = (Some GPU1, c1)"
    "stream (cq c1) = put32s hdr @ rest" "co c1 = co c" "croom c1 = croom c" by blast
  have h: "\<forall>x\<in>set hdr. x < 2 ^ 32"
    using assms(5,7,8,9,11) by (auto simp: hdr_def GP_MAXSPIRV_def GP_MAXBUF_def)
  have len: "length hdr = 5" by (simp add: hdr_def)
  from ru32s_stream [OF c1(2) h, unfolded len] obtain c2 where c2: "ru32s 5 c1 = (Some hdr, c2)"
    "stream (cq c2) = rest" "co c2 = co c1" "croom c2 = croom c1" by (auto simp: hdr_def [symmetric] len)
  obtain c3 where c3: "read_descs (length bs) 0 c2 = (Inr (map desc_of bs), c3)"
    "stream (cq c3) = spv @ concat (map rb_sent bs) @ z" "co c3 = co c2" "croom c3 = croom c2"
    using read_descs_ok [of c2 bs "spv @ concat (map rb_sent bs) @ z" 0] c2(2) assms(12,13)
    by (auto simp: rest_def)
  obtain w1 where t: "ext_try (gd_ok D) (gp_w s) = (True, w1)" using assms(1) by (simp add: ext_try_def)
  note T = ext_try_m [OF t]
  obtain c4 where c4: "rd (length spv) c3 = (Some spv, c4)" "stream (cq c4) = concat (map rb_sent bs) @ z"
    "co c4 = co c3" "croom c4 = croom c3"
    using rd_stream [OF c3(2), of "length spv"] by blast
  have good: "\<not> req_bad (length spv) gx gy gz (length bs)"
    using assms(4-11) by (auto simp: req_bad_def)
  have code: "code_inv (gp_pc s) w1" using T by (intro code_inv_mono [OF I(5)]) auto
  have own: "slot_sum pent_objs (pc_ents (gp_pc s)) \<subseteq># w_live w1" using T I(1) by simp
  have col: "no_collision (gp_pc s) w1 spv" using assms(14) T by (simp add: no_collision_def)
  have room: "length (oneshot_reply D spv (gx, gy, gz) bs) \<le> croom c4"
    using assms(16) c1 c2 c3 c4 by (simp add: c_def)
  from gp_exec_ok [OF assms(1) I(4) code own col c4(2) assms(12,15) room]
  obtain c5 pc' w' where e: "gp_exec D spv (gx, gy, gz) (map desc_of bs) c4 (gp_pc s) w1 = (c5, pc', w')"
    "co c5 = co c4 @ oneshot_reply D spv (gx, gy, gz) bs" by blast
  have nth: "hdr ! 0 = length spv" "hdr ! 1 = gx" "hdr ! 2 = gy" "hdr ! 3 = gz" "hdr ! 4 = length bs"
    by (simp_all add: hdr_def)
  have "gp_handle D c (gp_pc s) (gp_w s) = (c5, pc', w')"
    unfolding gp_handle_def c1(1) c2(1) prod.case option.case Let_def nth
    using good c3(1) t c4(1) e(1) by simp
  then have "gpud_conn D s = s\<lparr>gp_c := c5, gp_pc := pc', gp_w := w'\<rparr>"
    using peek by (simp add: gpud_conn_def c_def)
  then show ?thesis using e(2) c1(3) c2(3) c3(3) c4(3) by (simp add: c_def)
qed

text \<open>
  C15. A GPU1 request whose sizes are within the limits is answered with status 0 and, in order,
  every output buffer as the kernel of the request leaves it, starting from the inputs as sent and
  zeros in the other buffers, provided the driver answers every call and no cached pipeline was
  compiled from another text with the same FNV hash and length.
\<close>

theorem gpud_oneshot_correct:
  assumes "\<forall>k. gd_ok D k" and "gp_inv L F s"
    and "stream (cq (gp_c s)) = enc_oneshot spv (gx, gy, gz) bs @ z"
    and "spv \<noteq> []" and "length spv \<le> GP_MAXSPIRV" and "length spv mod 4 = 0"
    and "gx \<le> 65535" and "gy \<le> 65535" and "gz \<le> 65535"
    and "bs \<noteq> []" and "length bs \<le> GP_MAXBUF" and "\<forall>b\<in>set bs. rb_ok b"
    and "sum_list (map (length \<circ> snd) bs) \<le> MAXDATA"
    and "no_collision (gp_pc s) (gp_w s) spv"
    and "length (gd_kernel D spv (gx, gy, gz) [0..<length bs] (map snd bs)) = length bs"
    and "length (oneshot_reply D spv (gx, gy, gz) bs) \<le> croom (gp_c s)"
  shows "co (gp_c (gpud_conn D s)) = co (gp_c s) @ oneshot_reply D spv (gx, gy, gz) bs"
  by (rule gpud_oneshot [OF assms])

section \<open>Concrete runs\<close>

definition gdev0 :: gdev where
  "gdev0 = \<lparr>gd_ok = (\<lambda>k. True), gd_kernel = (\<lambda>spv g pat xs. map (map (\<lambda>b. b + 1)) xs),
     gd_junk = (\<lambda>m i. 0)\<rparr>"

definition mw0 :: mworld where
  "mw0 = \<lparr>w_tick = 0, w_live = {#}, w_fds = {#}, w_bad = False, w_code = (\<lambda>p. []), w_mem = (\<lambda>m. [])\<rparr>"

definition gs0 :: "byte list \<Rightarrow> gpsess" where
  "gs0 bs = \<lparr>gp_c = \<lparr>cq = [(bs, [])], co = [], croom = 1000\<rparr>, gp_gb = replicate MAXGBUF None,
     gp_live = 0, gp_pc = pcache_init, gp_w = mw0\<rparr>"

definition rbufs0 :: "rbuf list" where
  "rbufs0 = [(1, [5, 6]), (2, [0, 0, 0])]"

lemma pc_ents_init: "slot_get (pc_ents pcache_init) i = None" "slot_sum f (pc_ents pcache_init) = {#}"
  by (simp_all add: pcache_init_def slot_get_replicate slot_sum_replicate)

lemma gs0_inv: "gp_inv {#} {#} (gs0 bs)"
  unfolding gs0_def
  by (rule gp_invI)
    (simp_all add: mw0_def pc_ents_init slot_sum_replicate pcache_wf_init code_inv_def gb_total_def
      gb_mem_ok_def slot_get_replicate)

lemma gs0_sel [simp]:
  "stream (cq (gp_c (gs0 bs))) = bs" "co (gp_c (gs0 bs)) = []" "croom (gp_c (gs0 bs)) = 1000"
  "gp_gb (gs0 bs) = replicate MAXGBUF None" "gp_live (gs0 bs) = 0" "gp_pc (gs0 bs) = pcache_init"
  by (simp_all add: gs0_def)

theorem gpud_oneshot_correct_witness:
  "co (gp_c (gpud_conn gdev0 (gs0 (enc_oneshot [1, 2, 3, 4] (1, 1, 1) rbufs0 @ [])))) =
     co (gp_c (gs0 (enc_oneshot [1, 2, 3, 4] (1, 1, 1) rbufs0 @ []))) @
     oneshot_reply gdev0 [1, 2, 3, 4] (1, 1, 1) rbufs0 \<and>
   oneshot_reply gdev0 [1, 2, 3, 4] (1, 1, 1) rbufs0 = [0, 0, 0, 0, 1, 1, 1]"
proof
  show r: "oneshot_reply gdev0 [1, 2, 3, 4] (1, 1, 1) rbufs0 = [0, 0, 0, 0, 1, 1, 1]"
    by (simp add: oneshot_reply_def gdev0_def rbufs0_def is_output_def fit_def over_def le32_unfold)
  show "co (gp_c (gpud_conn gdev0 (gs0 (enc_oneshot [1, 2, 3, 4] (1, 1, 1) rbufs0 @ [])))) =
     co (gp_c (gs0 (enc_oneshot [1, 2, 3, 4] (1, 1, 1) rbufs0 @ []))) @
     oneshot_reply gdev0 [1, 2, 3, 4] (1, 1, 1) rbufs0"
    by (rule gpud_oneshot_correct [OF _ gs0_inv, where z = "[]"])
      (simp_all add: r no_collision_def pc_ents_init del: One_nat_def,
        simp_all add: gdev0_def rbufs0_def GP_MAXSPIRV_def GP_MAXBUF_def MAXDATA_def rb_ok_def is_input_def)
qed

theorem gpud_session_refines_witness:
  "\<exists>q s' r. gp_next (True, gs0 (le32 1 @ le32 8)) = (Some 1, [], q) \<and>
    gp_step gdev0 1 [] q = (True, s') \<and> co (gp_c s') = r \<and> stream (cq (gp_c s')) = [] \<and>
    g_spec gdev0 (GAlloc 8) (g_view (gs0 (le32 1 @ le32 8))) r (g_view s') \<and> gp_inv {#} {#} s'"
proof -
  have ok: "\<forall>k. gd_ok gdev0 k" by (simp add: gdev0_def)
  have rdy: "g_ready (gs0 (le32 1 @ le32 8)) (GAlloc 8)"
    by (auto simp: MAXDATA_def g_view_def slot_get_replicate MAXGBUF_def intro: exI [of _ 0])
  have st: "stream (cq (gp_c (gs0 (le32 1 @ le32 8)))) = le32 (gcode (GAlloc 8)) @ enc_gcmd (GAlloc 8) @ []"
    by simp
  have room: "g_room (GAlloc 8) \<le> croom (gp_c (gs0 (le32 1 @ le32 8)))" by simp
  from gpud_session_refines [OF ok gs0_inv rdy st room] show ?thesis
    by (simp only: gcode.simps gs0_sel append_Nil)
qed

theorem gpud_budget_invariant_witness:
  "\<exists>q. g2_reach gdev0 (gs0 (le32 1 @ le32 8)) 1 q \<and>
    (gp_live (snd q) = gb_total (gp_gb (snd q)) \<and> gp_live (snd q) \<le> MAXDATA \<and>
     slot_live (gp_gb (snd q)) \<le> MAXGBUF \<and> gb_mem_ok (gp_gb (snd q)) (gp_w (snd q)) \<and>
     (\<forall>h g. slot_get (gp_gb (snd q)) h = Some g \<longrightarrow> gb_size g \<le> gp_live (snd q)))"
proof -
  obtain c where "gp_next (True, gs0 (le32 1 @ le32 8)) =
      (Some 1, [], (True, (gs0 (le32 1 @ le32 8))\<lparr>gp_c := c\<rparr>))"
    using gp_next_code [of "gs0 (le32 1 @ le32 8)" 1 "le32 8"] by auto
  then have r: "g2_reach gdev0 (gs0 (le32 1 @ le32 8)) 1 (True, (gs0 (le32 1 @ le32 8))\<lparr>gp_c := c\<rparr>)"
    by (rule g2_reach.first)
  from gpud_budget_invariant [OF r gs0_inv] r show ?thesis by blast
qed

theorem gpud_conserves_witness:
  "w_live (gp_w (gpud_conn gdev0 (gs0 (le32 GPU2 @ le32 1)))) =
     {#} + slot_sum pent_objs (pc_ents (gp_pc (gpud_conn gdev0 (gs0 (le32 GPU2 @ le32 1))))) \<and>
   w_fds (gp_w (gpud_conn gdev0 (gs0 (le32 GPU2 @ le32 1)))) = {#} \<and>
   \<not> w_bad (gp_w (gpud_conn gdev0 (gs0 (le32 GPU2 @ le32 1)))) \<and>
   gp_gb (gpud_conn gdev0 (gs0 (le32 GPU2 @ le32 1))) = replicate MAXGBUF None \<and>
   gp_live (gpud_conn gdev0 (gs0 (le32 GPU2 @ le32 1))) = 0 \<and>
   pcache_wf (gp_pc (gpud_conn gdev0 (gs0 (le32 GPU2 @ le32 1)))) \<and>
   code_inv (gp_pc (gpud_conn gdev0 (gs0 (le32 GPU2 @ le32 1)))) (gp_w (gpud_conn gdev0 (gs0 (le32 GPU2 @ le32 1))))"
  by (rule gpud_conserves [OF gs0_inv _ refl]) simp

end
