(* ===== verification/End_To_End.thy ===== *)
theory End_To_End
  imports Client_Correct Gxpd3_Correct Gpud_Refine
begin

text \<open>
  Client and daemon together: what barra.c writes is what the daemon reads, and what the daemon
  answers is what barra.c reads. The messages of a call do not depend on the answer, so a call is
  composed by giving the daemon the messages the client has sent and the client the reply.
\<close>

section \<open>A DSP run through client and daemon\<close>

lemma ends_handles:
  "cb_dsp (ends ps zs p) = cb_dsp (zs p)" "cb_gpu (ends ps zs p) = cb_gpu (zs p)"
  by (induction ps arbitrary: zs) (auto simp: ends_def cpu_end_def)

lemma need_of_none: "\<forall>p\<in>set ps. 0 \<le> zh ch (zs p) \<Longrightarrow> need_of ch zs need ps = need"
  by (induction ps arbitrary: need) auto

lemma x_next_msg:
  assumes "\<not> d_exit (q_w s)" and "cq (q_c s) = (put32s hdr, []) # ps" and "length hdr = 6"
    and "\<forall>x\<in>set hdr. x < 2 ^ 32" and "hdr ! 0 = GX_MAGIC_ZC"
  shows "x_next s = (Some hdr, [], s\<lparr>q_c := (q_c s)\<lparr>cq := ps\<rparr>\<rparr>)"
proof -
  have g: "get32s 6 (put32s hdr) = hdr" using get32s_put32s_id [of hdr 6 "[]"] assms by simp
  have m: "recvmsg 24 ((put32s hdr, []) # ps) = (put32s hdr, [], ps)"
    using assms(3) by (intro recvmsg_whole) simp_all
  have r: "recv_fds GX_MAXBUF 24 (q_c s) (q_w s) = (Some (put32s hdr), [], (q_c s)\<lparr>cq := ps\<rparr>, q_w s)"
    unfolding recv_fds_def sys_recv_def assms(2) m using assms(3) by simp
  show ?thesis using assms(1,5) by (simp add: x_next_def r g)
qed

definition dsp_msgs :: "byte list \<Rightarrow> nat list \<Rightarrow> packet list" where
  "dsp_msgs func hs = [(put32s [GXPZ_MAGIC, 2, length func, length hs, 0, 0], []), (func, []), (put32s hs, [])]"

text \<open>
  C21. End to end: \<open>barra_dsp_run\<close> on imported buffers against a gxpd3 session. The client writes
  exactly the messages the session reads as one RUN command; with the reply the daemon then gives,
  the call succeeds with the return value and the time of the kernel, the kernel has worked in place
  on the files of the buffers, and every buffer is open for the CPU as before.
\<close>

theorem dsp_end_to_end:
  assumes ok: "\<forall>k. gx_ok G k" and fits: "call_fits G tab s func hs fn"
    and live: "\<not> d_exit (q_w s)" and dq: "cq (q_c s) = dsp_msgs func hs" and droom: "16 \<le> croom (q_c s)"
    and zs: "map (\<lambda>p. cb_dsp (zs p)) ps = map int hs"
    and k: "ss_sock c = Some k" "24 + length func + 4 * length hs \<le> k_room k"
  shows "\<exists>hdr s1 s' R k'. x_next s = (Some hdr, [], s1) \<and> x_step G tab hdr [] s1 = s' \<and>
    co (q_c s') = co (q_c s) @ R \<and>
    (let fs = call_files (q_h s) hs; r = gx_kernel G fn (map (d_mem (q_w s)) fs) in
     d_mem (q_w s') = store_files fs (snd r) (d_mem (q_w s)) \<and>
     barra_dsp_run func ps (zs, c\<lparr>ss_sock := Some (k\<lparr>k_in := R\<rparr>)\<rparr>) =
       (Some (nat (fst r mod 2 ^ 64), gx_us G (w_tick (q_w s) + 2) mod 2 ^ 32),
        begins ps (ends ps zs), c\<lparr>ss_sock := Some k'\<rparr>) \<and>
     k_out k' = k_out k @ dsp_msgs func hs)"
proof -
  define hdr where "hdr = [GXPZ_MAGIC, 2, length func, length hs, 0, 0]"
  define n where "n = length hs"
  have F: "func \<noteq> []" "length func < MAXNAME" "hs \<noteq> []" "length hs \<le> GX_MAXBUF" "\<forall>h\<in>set hs. h < 2 ^ 32"
    using fits by (auto simp: call_fits_def)
  have len: "length ps = length hs" using arg_cong [OF zs, of length] by simp
  have ps: "ps \<noteq> []" "length ps \<le> ZC_MAX"
    using F len by (auto simp: GX_MAXBUF_def ZC_MAX_def)
  have sm: "\<forall>x\<in>set hdr. x < 2 ^ 32"
    using F by (auto simp: hdr_def GXPZ_MAGIC_def MAXNAME_def GX_MAXBUF_def)
  have magic: "GXPZ_MAGIC = GX_MAGIC_ZC" by (simp add: GXPZ_MAGIC_def GX_MAGIC_ZC_def)
  define s1 where "s1 = s\<lparr>q_c := (q_c s)\<lparr>cq := [(func, []), (put32s hs, [])]\<rparr>\<rparr>"
  have nx: "x_next s = (Some hdr, [], s1)"
    unfolding s1_def using live dq sm magic
    by (intro x_next_msg) (simp_all add: dsp_msgs_def hdr_def del: put32s_simps)
  have fits1: "call_fits G tab s1 func hs fn" using fits by (simp add: s1_def call_fits_def)
  have st1: "stream (cq (q_c s1)) = call_bytes func hs @ []" by (simp add: s1_def call_bytes_def)
  have room1: "16 \<le> croom (q_c s1)" using droom by (simp add: s1_def)
  define r where "r = gx_kernel G fn (map (d_mem (q_w s)) (call_files (q_h s) hs))"
  define us where "us = gx_us G (w_tick (q_w s) + 2) mod 2 ^ 32"
  define R where "R = le32 0 @ i64 (fst r) @ le32 us"
  define s' where "s' = x_step G tab hdr [] s1"
  have run: "s' = x_run G tab (length func) (length hs) s1"
    by (simp add: s'_def x_step_def x_cmd_def hdr_def Let_def)
  have D: "d_mem (q_w s') = store_files (call_files (q_h s) hs) (snd r) (d_mem (q_w s))"
    "co (q_c s') = co (q_c s) @ R"
    using x_run_effect [OF ok fits1 st1 room1]
    by (simp_all add: run Let_def s1_def r_def us_def R_def)
  have zp: "0 \<le> cb_dsp (zs p)" if "p \<in> set ps" for p
  proof -
    have "cb_dsp (zs p) \<in> set (map int hs)" using that zs [symmetric] by simp
    then show ?thesis by auto
  qed
  have need: "need_of CDsp zs [] ps = []" using zp by (intro need_of_none) (simp add: zh_def)
  have "map (\<lambda>p. u32of (cb_dsp (zs p))) ps = map u32of (map (\<lambda>p. cb_dsp (zs p)) ps)" by simp
  also have "\<dots> = hs" unfolding zs map_map using F(5) by (intro map_idI) (simp add: u32of_int)
  finally have hd: "dsp_handles ps (ends ps zs) = put32s hs" by (simp add: dsp_handles_def ends_handles)
  have "length R = 16" by (simp add: R_def)
  then have pre: "None \<notin> set []" "24 + sum_list (map length [func, put32s hs]) \<le> k_room (k\<lparr>k_in := R\<rparr>)"
    "16 \<le> length (k_in (k\<lparr>k_in := R\<rparr>))"
    using k(2) by simp_all
  from c_req_ok [OF pre, of hdr] obtain k' where
    q: "c_req hdr [] [func, put32s hs] 16 (k\<lparr>k_in := R\<rparr>) = (Some R, k')"
      "k_out k' = k_out k @ (put32s hdr, []) # pay_msgs [func, put32s hs]"
    using \<open>length R = 16\<close> by auto
  have pay: "pay_msgs [func, put32s hs] = [(func, []), (put32s hs, [])]"
    using F by (auto simp: pay_msgs_def) (metis length_0_conv length_put32s mult_eq_0_iff zero_neq_numeral)
  have good: "\<not> dsp_bad func ps (c\<lparr>ss_sock := Some (k\<lparr>k_in := R\<rparr>)\<rparr>)"
    using F ps by (simp add: dsp_bad_def MAXNAME_def)
  have res: "dsp_result R = Some (nat (fst r mod 2 ^ 64), us)"
    by (simp add: dsp_result_def R_def le_nat_le_bytes i64_def us_def nat_mod_distrib)
  have "barra_dsp_run func ps (zs, c\<lparr>ss_sock := Some (k\<lparr>k_in := R\<rparr>)\<rparr>) =
      (Some (nat (fst r mod 2 ^ 64), us), begins ps (ends ps zs), c\<lparr>ss_sock := Some k'\<rparr>)"
    using good need q(1) hd len
    by (simp add: barra_dsp_run_def dsp_imports_def Let_def hdr_def res)
  moreover have "k_out k' = k_out k @ dsp_msgs func hs"
    using q(2) pay by (simp add: dsp_msgs_def hdr_def)
  ultimately show ?thesis
    using nx D s'_def unfolding Let_def r_def [symmetric] us_def [symmetric] by blast
qed

theorem dsp_end_to_end_witness:
  "\<exists>hdr s1 s' R k'. x_next (gsess0 (dsp_msgs (str ''vadd'') [3])) = (Some hdr, [], s1) \<and>
    x_step gx0 (load_kernels gx0 base_kernels) hdr [] s1 = s' \<and>
    co (q_c s') = co (q_c (gsess0 (dsp_msgs (str ''vadd'') [3]))) @ R \<and>
    (let fs = call_files (q_h (gsess0 (dsp_msgs (str ''vadd'') [3]))) [3];
         r = gx_kernel gx0 1 (map (d_mem (q_w (gsess0 (dsp_msgs (str ''vadd'') [3])))) fs) in
     d_mem (q_w s') = store_files fs (snd r) (d_mem (q_w (gsess0 (dsp_msgs (str ''vadd'') [3])))) \<and>
     barra_dsp_run (str ''vadd'') [0]
       (\<lambda>p. cbuf0\<lparr>cb_dsp := 3\<rparr>, (dsess0 [])\<lparr>ss_sock := Some ((the (ss_sock (dsess0 [])))\<lparr>k_in := R\<rparr>)\<rparr>) =
       (Some (nat (fst r mod 2 ^ 64), gx_us gx0 (w_tick (q_w (gsess0 (dsp_msgs (str ''vadd'') [3]))) + 2) mod 2 ^ 32),
        begins [0] (ends [0] (\<lambda>p. cbuf0\<lparr>cb_dsp := 3\<rparr>)), (dsess0 [])\<lparr>ss_sock := Some k'\<rparr>) \<and>
     k_out k' = k_out (the (ss_sock (dsess0 []))) @ dsp_msgs (str ''vadd'') [3])"
  by (rule dsp_end_to_end [OF _ gsess0_fits])
    (simp_all add: gx0_def gsess0_def gconn0_def dsess0_def str_def)

section \<open>The one-shot GPU call against gpud\<close>

lemma gpu_talk_msgs:
  assumes "24 + 8 + length spv + length inp \<le> k_room k" and "spv \<noteq> []" "inp \<noteq> []"
  shows "\<exists>k'. gpu_talk spv gx gy gz inp cap k = c_rn (min (length inp) cap) k' \<and> k_in k' = k_in k \<and>
    k_out k' = k_out k @ [(put32s [GPU1_MAGIC, length spv, gx, gy, gz, 1], []),
      (put32s [length inp, 0], []), (spv, []), (inp, [])]"
proof -
  have "sum_list (map length [put32s [GPU1_MAGIC, length spv, gx, gy, gz, 1], put32s [length inp, 0], spv, inp])
      \<le> k_room k" using assms(1) by simp
  from wn_all_ok [OF this] obtain k' where w: "wn_all [put32s [GPU1_MAGIC, length spv, gx, gy, gz, 1],
      put32s [length inp, 0], spv, inp] k = (Some (), k')" "k_in k' = k_in k"
    "k_out k' = k_out k @ pay_msgs [put32s [GPU1_MAGIC, length spv, gx, gy, gz, 1], put32s [length inp, 0], spv, inp]"
    by blast
  have ne: "put32s (x # xs) \<noteq> []" for x xs
    by (metis length_0_conv length_put32s list.distinct(1) mult_eq_0_iff zero_neq_numeral)
  have "pay_msgs [put32s [GPU1_MAGIC, length spv, gx, gy, gz, 1], put32s [length inp, 0], spv, inp] =
      [(put32s [GPU1_MAGIC, length spv, gx, gy, gz, 1], []), (put32s [length inp, 0], []), (spv, []), (inp, [])]"
    using ne assms(2,3) by (simp add: pay_msgs_def del: put32s_simps)
  with w show ?thesis by (auto simp: gpu_talk_def and_then_def clamp_read_def simp del: wn_all.simps)
qed

text \<open>
  C22. \<open>run_gpu\<close> of barra.c and \<open>handle\<close> of gpud.c do not speak the same protocol: the client sends
  buffer flags 0, so the daemon reads no input, runs the kernel on zeros and answers with the
  status word alone. The client, which expects the output and no status, fails on every input of more
  than four bytes, and takes the status word for the result on a shorter one, whatever the kernel.
\<close>

theorem run_gpu_gets_no_output:
  assumes "\<forall>k. gd_ok D k" and "gp_inv L F s" and "4 \<le> croom (gp_c s)"
    and "cq (gp_c s) = [(put32s [GPU1_MAGIC, length spv, gx, gy, gz, 1], []),
      (put32s [length inp, 0], []), (spv, []), (inp, [])]"
    and "spv \<noteq> []" and "length spv \<le> GP_MAXSPIRV" and "length spv mod 4 = 0"
    and "gx \<le> 65535" and "gy \<le> 65535" and "gz \<le> 65535" and "inp \<noteq> []" and "length inp \<le> MAXDATA"
    and "no_collision (gp_pc s) (gp_w s) spv"
    and "length (gd_kernel D spv (gx, gy, gz) [0] [replicate (length inp) 0]) = 1"
    and "24 + 8 + length spv + length inp \<le> k_room k"
  shows "co (gp_c (gpud_conn D s)) = co (gp_c s) @ le32 0 \<and>
    (\<exists>k'. gpu_talk spv gx gy gz inp cap (k\<lparr>k_in := le32 0\<rparr>) =
       (if min (length inp) cap \<le> 4 then Some (replicate (min (length inp) cap) 0) else None, k') \<and>
     k_out k' = k_out k @ cq (gp_c s))"
proof -
  define bs :: "rbuf list" where "bs = [(0, replicate (length inp) 0)]"
  have magic: "GPU1_MAGIC = GPU1" by (simp add: GPU1_MAGIC_def GPU1_def)
  have st: "stream (cq (gp_c s)) = enc_oneshot spv (gx, gy, gz) bs @ inp"
    by (simp add: assms(4) magic enc_oneshot_def bs_def enc_descs_def rb_sent_def is_input_def)
  have rep: "oneshot_reply D spv (gx, gy, gz) bs = le32 0"
    using assms(14)
    by (cases "gd_kernel D spv (gx, gy, gz) [0] [replicate (length inp) 0]")
      (simp_all add: oneshot_reply_def bs_def is_output_def)
  have reply: "co (gp_c (gpud_conn D s)) = co (gp_c s) @ oneshot_reply D spv (gx, gy, gz) bs"
  proof (rule gpud_oneshot [OF assms(1,2) st assms(5-10)])
    show "bs \<noteq> []" "length bs \<le> GP_MAXBUF" by (simp_all add: bs_def GP_MAXBUF_def)
    show "\<forall>b\<in>set bs. rb_ok b" using assms(11) by (simp add: bs_def rb_ok_def is_input_def)
    show "sum_list (map (length \<circ> snd) bs) \<le> MAXDATA" using assms(12) by (simp add: bs_def)
    show "no_collision (gp_pc s) (gp_w s) spv" by (rule assms(13))
    show "length (gd_kernel D spv (gx, gy, gz) [0..<length bs] (map snd bs)) = length bs"
      using assms(14) by (simp add: bs_def)
    show "length (oneshot_reply D spv (gx, gy, gz) bs) \<le> croom (gp_c s)"
      unfolding rep using assms(3) by simp
  qed
  obtain k' where k': "gpu_talk spv gx gy gz inp cap (k\<lparr>k_in := le32 0\<rparr>) = c_rn (min (length inp) cap) k'"
    "k_in k' = le32 0" "k_out k' = k_out k @ cq (gp_c s)"
  proof -
    have "24 + 8 + length spv + length inp \<le> k_room (k\<lparr>k_in := le32 0\<rparr>)" using assms(15) by simp
    from gpu_talk_msgs [OF this assms(5,11), of gx gy gz cap] that show ?thesis
      unfolding assms(4) by (simp del: put32s_simps) blast
  qed
  have zeros: "take n (le32 0) = replicate n 0" if "n \<le> 4" for n
  proof -
    have "replicate 4 (0 :: byte) = [0, 0, 0, 0]" by (simp add: numeral_eq_Suc)
    then have "le32 0 = replicate 4 0" by (simp add: le32_unfold)
    then show ?thesis using that by (simp only: take_replicate min.absorb1)
  qed
  define n where "n = min (length inp) cap"
  have f: "fst (c_rn n k') = (if n \<le> 4 then Some (replicate n 0) else None)"
    using zeros [of n] k'(2) by (simp add: c_rn_def)
  have o: "k_out (snd (c_rn n k')) = k_out k'" by (simp add: c_rn_def)
  have t: "gpu_talk spv gx gy gz inp cap (k\<lparr>k_in := le32 0\<rparr>) =
      (if n \<le> 4 then Some (replicate n 0) else None, snd (c_rn n k'))"
    unfolding k'(1) n_def [symmetric] f [symmetric] by simp
  show ?thesis
    unfolding n_def [symmetric]
    by (intro conjI exI [of _ "snd (c_rn n k')"] t reply [unfolded rep] trans [OF o k'(3)])
qed

theorem run_gpu_gets_no_output_witness:
  "let s = (gs0 [])\<lparr>gp_c := \<lparr>cq = [(put32s [GPU1_MAGIC, length [1, 2, 3, 4 :: byte], 1, 1, 1, 1], []),
      (put32s [length [7, 7, 7, 7, 7 :: byte], 0], []), ([1, 2, 3, 4], []), ([7, 7, 7, 7, 7], [])],
      co = [], croom = 4\<rparr>\<rparr> in
   co (gp_c (gpud_conn gdev0 s)) = co (gp_c s) @ le32 0 \<and>
    (\<exists>k'. gpu_talk [1, 2, 3, 4] 1 1 1 [7, 7, 7, 7, 7] 5 (\<lparr>k_in = [], k_out = [], k_room = 100\<rparr>\<lparr>k_in := le32 0\<rparr>) =
       (if min (length [7, 7, 7, 7, 7 :: byte]) 5 \<le> 4
        then Some (replicate (min (length [7, 7, 7, 7, 7 :: byte]) 5) 0) else None, k') \<and>
     k_out k' = k_out \<lparr>k_in = [], k_out = [], k_room = 100\<rparr> @ cq (gp_c s))"
  unfolding Let_def
  by (rule run_gpu_gets_no_output [where L = "{#}" and F = "{#}"])
    (simp_all add: gs0_inv no_collision_def pc_ents_init GP_MAXSPIRV_def MAXDATA_def del: put32s_simps,
      simp_all add: gdev0_def)

end
