(* ===== verification/Ggml_Base.thy ===== *)
theory Ggml_Base
  imports Client_Zc Complex_Main
begin

text \<open>
  The ggml backend for the GPU, src/src/ggml-gpud/ggml-gpud.cpp: enumerations, the tensor as the
  backend reads it, the shader table with its push-constant structures, and the small arithmetic
  (strides, group counts, the split of a grid over two axes).

  ggml itself is not part of the repository. What the backend asks of it (\<open>ggml_nbytes\<close>,
  \<open>ggml_nelements\<close>, \<open>ggml_is_contiguous\<close> and so on) is a field of the record \<open>ggml\<close>, a parameter of
  every function; so are the environment variables, the clock and the allocators.
\<close>

section \<open>Enumerations and tensors\<close>

datatype gtype = TF32 | TF16 | TQ4K | TQ6K | TQ80 | TI32 | TI64 | TOther nat

datatype uop = USilu | UGelu | URelu | UNeg | UGeluQuick | USigmoid | UOther nat

datatype glop = GReglu | GGeglu | GSwiglu | GlOther nat

datatype gop =
    OpNone | OpView | OpPermute | OpReshape | OpTranspose
  | OpAdd | OpMul | OpSub | OpDiv | OpScale | OpUnary | OpRmsNorm | OpCpy | OpCont | OpDup
  | OpGetRows | OpMulMat | OpRope | OpSoftMax | OpGlu | OpSetRows | OpFlashAttn | OpOther nat

text \<open>
  Pointers are numbers: \<open>tn_data\<close> an address, \<open>tn_src\<close> and \<open>tn_buf\<close> the pointers to other tensors
  and to the buffer, \<open>None\<close> for a null pointer. A buffer is named by the \<open>barra_zbuf\<close> in its context.
\<close>

record tensor =
  tn_op :: gop
  tn_type :: gtype
  tn_ne :: "nat \<Rightarrow> nat"
  tn_nb :: "nat \<Rightarrow> nat"
  tn_src :: "nat \<Rightarrow> nat option"
  tn_data :: nat
  tn_buf :: "nat option"

text \<open>The buffer type of a buffer: the dma-buf type, the native type, or another backend's.\<close>

datatype buft = BtGpud | BtNative | BtOther bool

text \<open>A \<open>float\<close> is its 32 bits; a \<open>double\<close> a rational, with the rounding of each operation a parameter.\<close>

type_synonym f32 = nat

record ggml =
  gg_t :: "nat \<Rightarrow> tensor"
  gg_nbytes :: "tensor \<Rightarrow> nat"
  gg_nelements :: "tensor \<Rightarrow> nat"
  gg_nrows :: "tensor \<Rightarrow> nat"
  gg_contig :: "tensor \<Rightarrow> bool"
  gg_contig_rows :: "tensor \<Rightarrow> bool"
  gg_empty :: "tensor \<Rightarrow> bool"
  gg_can_repeat :: "tensor \<Rightarrow> tensor \<Rightarrow> bool"
  gg_tsize :: "gtype \<Rightarrow> nat"
  gg_bsize :: "gtype \<Rightarrow> nat"
  gg_pi :: "tensor \<Rightarrow> nat \<Rightarrow> int"
  gg_pf :: "tensor \<Rightarrow> nat \<Rightarrow> f32"
  gg_uop :: "tensor \<Rightarrow> uop"
  gg_glop :: "tensor \<Rightarrow> glop"
  gg_uses :: "nat \<Rightarrow> nat"
  gg_max_src :: nat
  gg_buft :: "nat \<Rightarrow> buft"
  gg_base :: "nat \<Rightarrow> nat"
  gg_spv :: "nat \<Rightarrow> byte list"
  gg_fdiv :: "f32 \<Rightarrow> f32 \<Rightarrow> f32"
  gg_fofint :: "int \<Rightarrow> f32"
  gg_powf :: "f32 \<Rightarrow> f32 \<Rightarrow> f32"
  gg_rnd :: "rat \<Rightarrow> rat"
  gg_dt :: "nat \<Rightarrow> rat"
  gg_heap :: "nat \<Rightarrow> nat option"
  gg_mmap :: "nat \<Rightarrow> bool"
  gg_addr :: "nat \<Rightarrow> nat"
  gg_malloc :: "nat \<Rightarrow> bool \<times> bool"
  ev_maxstage :: "int option"
  ev_budget :: "rat option"
  ev_nobar :: bool
  ev_noiq6 :: bool
  ev_noiq :: bool
  ev_nogemv :: bool
  ev_fa :: bool

definition GPUD_ALIGN :: nat where "GPUD_ALIGN = 64"
definition GPUD_MAX_BUF :: nat where "GPUD_MAX_BUF = 3 * 1024 * 1024 * 1024"
definition GPUD_MAX_STAGE :: nat where "GPUD_MAX_STAGE = 4096"
definition GPUD_MAX_PC :: nat where "GPUD_MAX_PC = 128"
definition GPUD_STAGING_CAP :: nat where "GPUD_STAGING_CAP = 32 * 1048576"

definition neg_f :: "f32 \<Rightarrow> f32" where
  "neg_f b = (if b < 2 ^ 31 then b + 2 ^ 31 else b - 2 ^ 31)"

definition zero_f :: "f32 \<Rightarrow> bool" where
  "zero_f b \<longleftrightarrow> b = 0 \<or> b = 2 ^ 31"

text \<open>\<open>b > 0.0f\<close>: positive, infinity included, not a NaN.\<close>

definition pos_f :: "f32 \<Rightarrow> bool" where
  "pos_f b \<longleftrightarrow> 0 < b \<and> b \<le> 0x7F800000"

section \<open>Strides, groups, grids\<close>

definition u32c :: "nat \<Rightarrow> nat" where
  "u32c n = n mod 2 ^ 32"

definition sh_type :: "gtype \<Rightarrow> nat" where
  "sh_type t = (case t of TF32 \<Rightarrow> 0 | TF16 \<Rightarrow> 1 | TQ4K \<Rightarrow> 2 | TQ6K \<Rightarrow> 3 | TQ80 \<Rightarrow> 4 | _ \<Rightarrow> 0xFFFFFFFF)"

definition weight_type_ok :: "gtype \<Rightarrow> bool" where
  "weight_type_ok t \<longleftrightarrow> sh_type t \<noteq> 0xFFFFFFFF"

definition E :: "nat \<Rightarrow> nat \<Rightarrow> nat" where
  "E nb es = u32c (nb div es)"

definition GRP :: "nat \<Rightarrow> nat \<Rightarrow> nat" where
  "GRP n w = u32c ((n + (w - 1)) mod 2 ^ 64 div w)"

definition grid2 :: "nat \<Rightarrow> nat \<times> nat" where
  "grid2 n = (if n \<le> 65535 then (u32c n, 1) else (32768, u32c ((n + 32767) mod 2 ^ 64 div 32768)))"

section \<open>Shader table\<close>

datatype shader =
    SBinary | SUnary | SRms | SCpy | SGetRows | SMulMat | SRope | SSoftmax | SGlu | SSetRows
  | SGemvQ | SQuantQ81 | SGemvQ4kIq | SGemvQ6kIq | SGemvQ6kRp | SFlash

definition all_shaders :: "shader list" where
  "all_shaders = [SBinary, SUnary, SRms, SCpy, SGetRows, SMulMat, SRope, SSoftmax, SGlu, SSetRows,
     SGemvQ, SQuantQ81, SGemvQ4kIq, SGemvQ6kIq, SGemvQ6kRp, SFlash]"

definition sh_index :: "shader \<Rightarrow> nat" where
  "sh_index x = length (takeWhile (\<lambda>y. y \<noteq> x) all_shaders)"

text \<open>
  \<open>g_shaders\<close>: number of bindings, size of the push constants, and the mask of the bindings a
  shader writes.
\<close>

record shader_def =
  sd_nbind :: nat
  sd_pcsize :: nat
  sd_wmask :: nat

definition sdef :: "nat \<Rightarrow> nat \<Rightarrow> nat \<Rightarrow> shader_def" where
  "sdef n p w = \<lparr>sd_nbind = n, sd_pcsize = p, sd_wmask = w\<rparr>"

fun g_shaders :: "shader \<Rightarrow> shader_def" where
  "g_shaders SBinary = sdef 3 100 0x4"
| "g_shaders SUnary = sdef 2 24 0x2"
| "g_shaders SRms = sdef 3 36 0x4"
| "g_shaders SCpy = sdef 4 84 0xC"
| "g_shaders SGetRows = sdef 3 64 0x4"
| "g_shaders SMulMat = sdef 3 76 0x4"
| "g_shaders SRope = sdef 4 80 0x8"
| "g_shaders SSoftmax = sdef 4 84 0x8"
| "g_shaders SGlu = sdef 3 48 0x4"
| "g_shaders SSetRows = sdef 4 80 0xC"
| "g_shaders SGemvQ = sdef 4 80 0x8"
| "g_shaders SQuantQ81 = sdef 2 24 0x2"
| "g_shaders SGemvQ4kIq = sdef 3 80 0x4"
| "g_shaders SGemvQ6kIq = sdef 3 80 0x4"
| "g_shaders SGemvQ6kRp = sdef 3 80 0x4"
| "g_shaders SFlash = sdef 7 124 0x40"

section \<open>Push constants\<close>

text \<open>
  One record per structure, with runs of like fields (\<open>nb01, nb02, nb03\<close>) as lists, and the words
  in the order of the structure.
\<close>

record pc_binary =
  pb_ne :: "nat list"
  pb_nb0 :: "nat list"
  pb_nb1 :: "nat list"
  pb_nbd :: "nat list"
  pb_ne1 :: "nat list"
  pb_offa :: nat
  pb_offb :: nat
  pb_offd :: nat
  pb_op :: nat
  pb_n :: nat

definition w_binary :: "pc_binary \<Rightarrow> nat list" where
  "w_binary p = pb_ne p @ pb_nb0 p @ pb_nb1 p @ pb_nbd p @ pb_ne1 p @
     [pb_offa p, pb_offb p, pb_offd p, pb_op p, pb_n p]"

record pc_unary =
  pu_n :: nat
  pu_offa :: nat
  pu_offd :: nat
  pu_op :: nat
  pu_s :: f32
  pu_b :: f32

definition w_unary :: "pc_unary \<Rightarrow> nat list" where
  "w_unary p = [pu_n p, pu_offa p, pu_offd p, pu_op p, pu_s p, pu_b p]"

record pc_rms =
  pr_ne00 :: nat
  pr_nrows :: nat
  pr_nb01 :: nat
  pr_nbd1 :: nat
  pr_offa :: nat
  pr_offw :: nat
  pr_offd :: nat
  pr_fuse :: nat
  pr_eps :: f32

definition w_rms :: "pc_rms \<Rightarrow> nat list" where
  "w_rms p = [pr_ne00 p, pr_nrows p, pr_nb01 p, pr_nbd1 p, pr_offa p, pr_offw p, pr_offd p,
     pr_fuse p, pr_eps p]"

record pc_cpy =
  py_ne :: "nat list"
  py_nes :: "nat list"
  py_nbs :: "nat list"
  py_nbd :: "nat list"
  py_offa :: nat
  py_offd :: nat
  py_st :: nat
  py_dt :: nat
  py_n :: nat

definition w_cpy :: "pc_cpy \<Rightarrow> nat list" where
  "w_cpy p = py_ne p @ py_nes p @ py_nbs p @ py_nbd p @
     [py_offa p, py_offd p, py_st p, py_dt p, py_n p]"

record pc_get_rows =
  pg_ne00 :: nat
  pg_ne1 :: "nat list"
  pg_nb01 :: nat
  pg_nb1 :: "nat list"
  pg_nbd :: "nat list"
  pg_off0 :: nat
  pg_off1 :: nat
  pg_offd :: nat
  pg_type :: nat
  pg_nrows :: nat

definition w_get_rows :: "pc_get_rows \<Rightarrow> nat list" where
  "w_get_rows p = [pg_ne00 p] @ pg_ne1 p @ [pg_nb01 p] @ pg_nb1 p @ pg_nbd p @
     [pg_off0 p, pg_off1 p, pg_offd p, pg_type p, pg_nrows p]"

record pc_mul_mat =
  pm_ne00 :: nat
  pm_ne01 :: nat
  pm_ne11 :: nat
  pm_ne12 :: nat
  pm_nb0 :: "nat list"
  pm_nb1 :: "nat list"
  pm_nbd :: "nat list"
  pm_off0 :: nat
  pm_off1 :: nat
  pm_offd :: nat
  pm_type :: nat
  pm_r2 :: nat
  pm_r3 :: nat

definition w_mul_mat :: "pc_mul_mat \<Rightarrow> nat list" where
  "w_mul_mat p = [pm_ne00 p, pm_ne01 p, pm_ne11 p, pm_ne12 p] @ pm_nb0 p @ pm_nb1 p @ pm_nbd p @
     [pm_off0 p, pm_off1 p, pm_offd p, pm_type p, pm_r2 p, pm_r3 p]"

text \<open>\<open>pc_gemv\<close> is \<open>pc_mul_mat\<close> with one more field.\<close>

record pc_gemv = pc_mul_mat +
  pm_nblk :: nat

definition w_gemv :: "pc_gemv \<Rightarrow> nat list" where
  "w_gemv p = [pm_ne00 p, pm_ne01 p, pm_ne11 p, pm_ne12 p] @ pm_nb0 p @ pm_nb1 p @ pm_nbd p @
     [pm_off0 p, pm_off1 p, pm_offd p, pm_type p, pm_r2 p, pm_r3 p, pm_nblk p]"

record pc_quant =
  pq_ne00 :: nat
  pq_ncols :: nat
  pq_nb32 :: nat
  pq_offx :: nat
  pq_offq :: nat
  pq_nblk :: nat

definition w_quant :: "pc_quant \<Rightarrow> nat list" where
  "w_quant p = [pq_ne00 p, pq_ncols p, pq_nb32 p, pq_offx p, pq_offq p, pq_nblk p]"

record pc_gemv_iq =
  pv_ne00 :: nat
  pv_ne01 :: nat
  pv_ne11 :: nat
  pv_ne12 :: nat
  pv_nb0v4 :: "nat list"
  pv_nb1 :: "nat list"
  pv_nbd :: "nat list"
  pv_off0v4 :: nat
  pv_offxq :: nat
  pv_offd :: nat
  pv_r2 :: nat
  pv_r3 :: nat
  pv_n256 :: nat
  pv_xqcols :: nat

definition w_gemv_iq :: "pc_gemv_iq \<Rightarrow> nat list" where
  "w_gemv_iq p = [pv_ne00 p, pv_ne01 p, pv_ne11 p, pv_ne12 p] @ pv_nb0v4 p @ pv_nb1 p @ pv_nbd p @
     [pv_off0v4 p, pv_offxq p, pv_offd p, pv_r2 p, pv_r3 p, pv_n256 p, pv_xqcols p]"

record pc_rope =
  po_ne0 :: "nat list"
  po_n_dims :: nat
  po_nb0 :: "nat list"
  po_nbd :: "nat list"
  po_offa :: nat
  po_offp :: nat
  po_offf :: nat
  po_offd :: nat
  po_neox :: nat
  po_has_ff :: nat
  po_npairs :: nat
  po_theta :: f32
  po_freq :: f32
  po_attn :: f32

definition w_rope :: "pc_rope \<Rightarrow> nat list" where
  "w_rope p = po_ne0 p @ [po_n_dims p] @ po_nb0 p @ po_nbd p @
     [po_offa p, po_offp p, po_offf p, po_offd p, po_neox p, po_has_ff p, po_npairs p,
      po_theta p, po_freq p, po_attn p]"

record pc_softmax =
  ps_ne0 :: "nat list"
  ps_ne1 :: "nat list"
  ps_nb0 :: "nat list"
  ps_nbm :: "nat list"
  ps_nbd :: "nat list"
  ps_offa :: nat
  ps_offm :: nat
  ps_offd :: nat
  ps_mask :: nat
  ps_nrows :: nat
  ps_scale :: f32

definition w_softmax :: "pc_softmax \<Rightarrow> nat list" where
  "w_softmax p = ps_ne0 p @ ps_ne1 p @ ps_nb0 p @ ps_nbm p @ ps_nbd p @
     [ps_offa p, ps_offm p, ps_offd p, ps_mask p, ps_nrows p, ps_scale p]"

record pc_glu =
  pl_ne0 :: nat
  pl_nrows :: nat
  pl_nb01 :: nat
  pl_nb11 :: nat
  pl_nbd1 :: nat
  pl_offa :: nat
  pl_offb :: nat
  pl_offd :: nat
  pl_split :: nat
  pl_swapped :: nat
  pl_op :: nat
  pl_n :: nat

definition w_glu :: "pc_glu \<Rightarrow> nat list" where
  "w_glu p = [pl_ne0 p, pl_nrows p, pl_nb01 p, pl_nb11 p, pl_nbd1 p, pl_offa p, pl_offb p, pl_offd p,
     pl_split p, pl_swapped p, pl_op p, pl_n p]"

record pc_set_rows =
  pt_ne0 :: "nat list"
  pt_nb0 :: "nat list"
  pt_ne1 :: "nat list"
  pt_nb1 :: "nat list"
  pt_nbd :: "nat list"
  pt_offa :: nat
  pt_offi :: nat
  pt_offd :: nat
  pt_i64 :: nat
  pt_dt :: nat
  pt_nrows :: nat

definition w_set_rows :: "pc_set_rows \<Rightarrow> nat list" where
  "w_set_rows p = pt_ne0 p @ pt_nb0 p @ pt_ne1 p @ pt_nb1 p @ pt_nbd p @
     [pt_offa p, pt_offi p, pt_offd p, pt_i64 p, pt_dt p, pt_nrows p]"

record pc_flash =
  pf_D :: nat
  pf_DV :: nat
  pf_M :: nat
  pf_nbq :: "nat list"
  pf_nbk :: "nat list"
  pf_nbv :: "nat list"
  pf_nbm :: "nat list"
  pf_nbd :: "nat list"
  pf_offq :: nat
  pf_offk :: nat
  pf_offv :: nat
  pf_offm :: nat
  pf_offd :: nat
  pf_qt :: nat
  pf_maskt :: nat
  pf_gqa :: nat
  pf_nhl2 :: nat
  pf_nem2 :: nat
  pf_scale :: f32
  pf_softcap :: f32
  pf_m0 :: f32
  pf_m1 :: f32

definition w_flash :: "pc_flash \<Rightarrow> nat list" where
  "w_flash p = [pf_D p, pf_DV p, pf_M p] @ pf_nbq p @ pf_nbk p @ pf_nbv p @ pf_nbm p @ pf_nbd p @
     [pf_offq p, pf_offk p, pf_offv p, pf_offm p, pf_offd p, pf_qt p, pf_maskt p, pf_gqa p,
      pf_nhl2 p, pf_nem2 p, pf_scale p, pf_softcap p, pf_m0 p, pf_m1 p]"

end
