(* ===== verification/Ggml_Buffers.thy ===== *)
theory Ggml_Buffers
  imports Ggml_Base
begin

text \<open>
  Session and buffers of src/src/ggml-gpud/ggml-gpud.cpp: opening the session with its shaders, the
  scratch and the staging buffer, dma-buf buffers that move between CPU and GPU ownership, and native
  buffers that are filled and read through the staging buffer, with the repacking of q6_K blocks.
\<close>

section \<open>State\<close>

text \<open>
  \<open>g_zs\<close> and \<open>g_se\<close> are the client's buffers and session, the fields up to \<open>g_nback\<close> those of
  \<open>gpud_session\<close>. \<open>g_own p\<close> is the \<open>state\<close> of the buffer context \<open>p\<close> (\<open>True\<close> for 1, the device owns
  it). \<open>g_mem p i\<close> is byte \<open>i\<close> of the buffer \<open>p\<close>. Scratch and staging are the pointers 0 and 1;
  \<open>g_scr_map\<close> is the address of the scratch.
\<close>

record gst =
  g_cw :: cworld
  g_zs :: store
  g_se :: sess
  g_open :: bool
  g_sh :: "shader \<Rightarrow> int"
  g_maxstage :: int
  g_fixed :: bool
  g_budget :: rat
  g_est :: rat
  g_scr_ok :: bool
  g_scr_sz :: nat
  g_scr_map :: nat
  g_stg_ok :: bool
  g_stg_sz :: nat
  g_nback :: int
  g_own :: "nat \<Rightarrow> bool"
  g_mem :: "nat \<Rightarrow> nat \<Rightarrow> byte"
  g_tick :: nat

text \<open>The globals when the process starts.\<close>

definition gpud_session0 :: "cworld \<Rightarrow> store \<Rightarrow> (nat \<Rightarrow> nat \<Rightarrow> byte) \<Rightarrow> gst" where
  "gpud_session0 w zs mem =
     \<lparr>g_cw = w, g_zs = zs, g_se = \<lparr>ss_sock = None, ss_n = 0, ss_auto = False\<rparr>, g_open = False,
      g_sh = (\<lambda>_. 0), g_maxstage = 512, g_fixed = False, g_budget = 250, g_est = 0,
      g_scr_ok = False, g_scr_sz = 0, g_scr_map = 0, g_stg_ok = False, g_stg_sz = 0, g_nback = 0,
      g_own = (\<lambda>_. False), g_mem = mem, g_tick = 0\<rparr>"

definition SCR :: nat where "SCR = 0"
definition STG :: nat where "STG = 1"

definition mwr :: "nat \<Rightarrow> nat \<Rightarrow> byte list \<Rightarrow> (nat \<Rightarrow> nat \<Rightarrow> byte) \<Rightarrow> nat \<Rightarrow> nat \<Rightarrow> byte" where
  "mwr p off bs m =
     m(p := (\<lambda>i. if off \<le> i \<and> i < off + length bs then bs ! (i - off) else m p i))"

definition mrd :: "nat \<Rightarrow> nat \<Rightarrow> nat \<Rightarrow> (nat \<Rightarrow> nat \<Rightarrow> byte) \<Rightarrow> byte list" where
  "mrd p off n m = map (m p) [off..<off + n]"

text \<open>The calls of the client library on the session.\<close>

definition zc_begin :: "nat \<Rightarrow> 'a gst_scheme \<Rightarrow> 'a gst_scheme" where
  "zc_begin p s = s\<lparr>g_zs := cpu_begin p (g_zs s)\<rparr>"

definition zc_end :: "nat \<Rightarrow> 'a gst_scheme \<Rightarrow> 'a gst_scheme" where
  "zc_end p s = s\<lparr>g_zs := cpu_end p (g_zs s)\<rparr>"

definition zc_free :: "nat \<Rightarrow> 'a gst_scheme \<Rightarrow> 'a gst_scheme" where
  "zc_free p s = s\<lparr>g_zs := barra_zc_free p (g_zs s)\<rparr>"

definition zc_alloc :: "ggml \<Rightarrow> nat \<Rightarrow> nat \<Rightarrow> 'a gst_scheme \<Rightarrow> bool \<times> 'a gst_scheme" where
  "zc_alloc G p sz s =
     (case barra_zc_alloc (gg_heap G (g_tick s)) (gg_mmap G (g_tick s)) p sz (g_zs s) of (r, zs) \<Rightarrow>
        (r, s\<lparr>g_zs := zs, g_tick := Suc (g_tick s)\<rparr>))"

definition g3_import :: "nat \<Rightarrow> 'a gst_scheme \<Rightarrow> bool \<times> 'a gst_scheme" where
  "g3_import p s =
     (case barra_gpu3_import [p] (g_zs s, g_se s) of (r, zs, se) \<Rightarrow> (r, s\<lparr>g_zs := zs, g_se := se\<rparr>))"

definition g3_release :: "nat \<Rightarrow> 'a gst_scheme \<Rightarrow> 'a gst_scheme" where
  "g3_release p s =
     (case barra_gpu3_release [p] (g_zs s, g_se s) of (_, zs, se) \<Rightarrow> s\<lparr>g_zs := zs, g_se := se\<rparr>)"

text \<open>
  \<open>barra_gpu3_copy\<close> between two buffers of the process, with its effect on their bytes when the
  daemon reports success; after an error the bytes are not looked at.
\<close>

definition g3_copy ::
  "nat \<Rightarrow> nat \<Rightarrow> nat \<Rightarrow> nat \<Rightarrow> nat \<Rightarrow> 'a gst_scheme \<Rightarrow> bool \<times> 'a gst_scheme" where
  "g3_copy p poff q qoff n s =
     (case barra_gpu3_copy (cb_gpu (g_zs s p)) poff (cb_gpu (g_zs s q)) qoff n (g_se s) of
        (None, se) \<Rightarrow> (False, s\<lparr>g_se := se\<rparr>)
      | (Some _, se) \<Rightarrow> (True, s\<lparr>g_se := se, g_mem := mwr q qoff (mrd p poff n (g_mem s)) (g_mem s)\<rparr>))"

section \<open>Opening the session\<close>

fun load_shaders ::
  "ggml \<Rightarrow> shader list \<Rightarrow> sess \<Rightarrow> (shader \<Rightarrow> int) \<Rightarrow> bool \<times> sess \<times> (shader \<Rightarrow> int)" where
  "load_shaders G [] se h = (True, se, h)"
| "load_shaders G (x # xs) se h =
     (case barra_gpu3_load (Some (gg_spv G (sh_index x))) (sd_nbind (g_shaders x))
         (sd_pcsize (g_shaders x)) se of
        (r, se1) \<Rightarrow>
       (let v = (case r of None \<Rightarrow> -1 | Some n \<Rightarrow> s32 n); h1 = h(x := v) in
        if v < 0 then (False, dead se1, h1) else load_shaders G xs se1 h1))"

definition gpud_session_open :: "ggml \<Rightarrow> 'a gst_scheme \<Rightarrow> bool \<times> 'a gst_scheme" where
  "gpud_session_open G s =
     (if g_open s then (True, s)
      else
     (let s1 = (case ev_maxstage G of
                  Some v \<Rightarrow> if 1 \<le> v \<and> v \<le> int GPUD_MAX_STAGE
                            then s\<lparr>g_maxstage := v, g_fixed := True\<rparr> else s
                | None \<Rightarrow> s);
          s2 = (case ev_budget G of
                  Some v \<Rightarrow> if 1 \<le> v \<and> v \<le> 2000 then s1\<lparr>g_budget := v\<rparr> else s1
                | None \<Rightarrow> s1)
      in
      case barra_gpu3_open (g_cw s2) of
        (False, se, w) \<Rightarrow> (False, s2\<lparr>g_cw := w, g_se := se\<rparr>)
      | (True, se, w) \<Rightarrow>
     (case load_shaders G all_shaders se (g_sh s2) of
        (False, se1, h) \<Rightarrow> (False, s2\<lparr>g_cw := w, g_se := se1, g_sh := h\<rparr>)
      | (True, se1, h) \<Rightarrow>
       (let se2 = barra_gpu3_set_autosync False se1;
            se3 = (if ev_nobar G then snd (barra_gpu3_flags 1 se2) else se2)
        in (True, s2\<lparr>g_cw := w, g_se := se3, g_sh := h, g_open := True\<rparr>)))))"

section \<open>Scratch and staging\<close>

text \<open>\<open>(bytes + 0xFFFFFu) & ~0xFFFFFu\<close>.\<close>

definition round_mb :: "nat \<Rightarrow> nat" where
  "round_mb b = u32c (b + 0xFFFFF) div 1048576 * 1048576"

text \<open>When the new scratch cannot be had, \<open>scratch_ok\<close> is false but \<open>scratch_sz\<close> keeps its value.\<close>

definition gpud_scratch_ensure :: "ggml \<Rightarrow> nat \<Rightarrow> 'a gst_scheme \<Rightarrow> bool \<times> 'a gst_scheme" where
  "gpud_scratch_ensure G bytes s =
     (if g_scr_ok s \<and> bytes \<le> g_scr_sz s then (True, s)
      else
     (let sz = round_mb bytes;
          s1 = (if g_scr_ok s then (zc_free SCR (g3_release SCR s))\<lparr>g_scr_ok := False\<rparr> else s)
      in
      case zc_alloc G SCR sz s1 of
        (False, s2) \<Rightarrow> (False, s2)
      | (True, s2) \<Rightarrow>
     (case g3_import SCR s2 of
        (False, s3) \<Rightarrow> (False, zc_free SCR s3)
      | (True, s3) \<Rightarrow> (True, s3\<lparr>g_scr_ok := True, g_scr_sz := sz, g_scr_map := gg_addr G (g_tick s3)\<rparr>))))"

definition gpud_staging_ensure :: "ggml \<Rightarrow> nat \<Rightarrow> 'a gst_scheme \<Rightarrow> bool \<times> 'a gst_scheme" where
  "gpud_staging_ensure G bytes s =
     (let want = (if GPUD_STAGING_CAP < bytes then GPUD_STAGING_CAP else bytes) in
      if g_stg_ok s \<and> want \<le> g_stg_sz s then (True, s)
      else
     (let sz = round_mb want;
          s1 = (if g_stg_ok s then (zc_free STG (g3_release STG s))\<lparr>g_stg_ok := False\<rparr> else s)
      in
      case zc_alloc G STG sz s1 of
        (False, s2) \<Rightarrow> (False, s2)
      | (True, s2) \<Rightarrow>
     (case g3_import STG s2 of
        (False, s3) \<Rightarrow> (False, zc_free STG s3)
      | (True, s3) \<Rightarrow> (True, s3\<lparr>g_stg_ok := True, g_stg_sz := sz\<rparr>))))"

section \<open>Buffers in dma-bufs\<close>

definition gpud_buft_ours :: "ggml \<Rightarrow> nat \<Rightarrow> bool" where
  "gpud_buft_ours G b \<longleftrightarrow> gg_buft G b = BtGpud \<or> gg_buft G b = BtNative"

definition gpud_to_cpu :: "nat \<Rightarrow> 'a gst_scheme \<Rightarrow> 'a gst_scheme" where
  "gpud_to_cpu c s = (if g_own s c then (zc_begin c s)\<lparr>g_own := (g_own s)(c := False)\<rparr> else s)"

definition gpud_to_gpu :: "nat \<Rightarrow> 'a gst_scheme \<Rightarrow> 'a gst_scheme" where
  "gpud_to_gpu c s = (if g_own s c then s else (zc_end c s)\<lparr>g_own := (g_own s)(c := True)\<rparr>)"

text \<open>\<open>(const char *) t->data - (const char *) c->z.map\<close> as an unsigned number.\<close>

definition toff :: "ggml \<Rightarrow> nat \<Rightarrow> tensor \<Rightarrow> nat" where
  "toff G c t = nat ((int (tn_data t) - int (gg_base G c)) mod 2 ^ 64)"

definition gpud_buffer_free :: "nat \<Rightarrow> 'a gst_scheme \<Rightarrow> 'a gst_scheme" where
  "gpud_buffer_free c s = zc_free c (if g_open s then g3_release c s else s)"

definition gpud_buffer_memset_tensor ::
  "ggml \<Rightarrow> nat \<Rightarrow> tensor \<Rightarrow> byte \<Rightarrow> nat \<Rightarrow> nat \<Rightarrow> 'a gst_scheme \<Rightarrow> 'a gst_scheme" where
  "gpud_buffer_memset_tensor G c t v off n s =
     (gpud_to_cpu c s)\<lparr>g_mem := mwr c (toff G c t + off) (replicate n v) (g_mem s)\<rparr>"

definition gpud_buffer_set_tensor ::
  "ggml \<Rightarrow> nat \<Rightarrow> tensor \<Rightarrow> byte list \<Rightarrow> nat \<Rightarrow> 'a gst_scheme \<Rightarrow> 'a gst_scheme" where
  "gpud_buffer_set_tensor G c t data off s =
     (gpud_to_cpu c s)\<lparr>g_mem := mwr c (toff G c t + off) data (g_mem s)\<rparr>"

definition gpud_buffer_get_tensor ::
  "ggml \<Rightarrow> nat \<Rightarrow> tensor \<Rightarrow> nat \<Rightarrow> nat \<Rightarrow> 'a gst_scheme \<Rightarrow> byte list \<times> 'a gst_scheme" where
  "gpud_buffer_get_tensor G c t off n s =
     (mrd c (toff G c t + off) n (g_mem s), gpud_to_cpu c s)"

text \<open>
  \<open>gpud_buffer_cpy_tensor\<close>: \<open>src\<close> are the bytes of the source tensor, \<open>None\<close> when its buffer is not
  host memory.
\<close>

definition gpud_buffer_cpy_tensor ::
  "ggml \<Rightarrow> byte list option \<Rightarrow> nat \<Rightarrow> tensor \<Rightarrow> 'a gst_scheme \<Rightarrow> bool \<times> 'a gst_scheme" where
  "gpud_buffer_cpy_tensor G src c dst s =
     (case src of
        None \<Rightarrow> (False, s)
      | Some bs \<Rightarrow> (True, (gpud_to_cpu c s)\<lparr>g_mem := mwr c (toff G c dst) bs (g_mem s)\<rparr>))"

definition gpud_buffer_clear :: "nat \<Rightarrow> byte \<Rightarrow> 'a gst_scheme \<Rightarrow> 'a gst_scheme" where
  "gpud_buffer_clear c v s =
     (gpud_to_cpu c s)\<lparr>g_mem := mwr c 0 (replicate (cb_size (g_zs s c)) v) (g_mem s)\<rparr>"

definition page_up :: "nat \<Rightarrow> nat" where
  "page_up n = (n + 4095) div 4096 * 4096"

text \<open>\<open>p\<close> is the pointer of the new context; the result is its size.\<close>

definition gpud_buft_alloc_buffer ::
  "ggml \<Rightarrow> nat \<Rightarrow> nat \<Rightarrow> 'a gst_scheme \<Rightarrow> nat option \<times> 'a gst_scheme" where
  "gpud_buft_alloc_buffer G p n s =
     (case gpud_session_open G s of
        (False, s1) \<Rightarrow> (None, s1)
      | (True, s1) \<Rightarrow>
     (let sz = (if n = 0 then GPUD_ALIGN else n) in
      if GPUD_MAX_BUF < sz then (None, s1)
      else
     (case zc_alloc G p (u32c (page_up sz)) s1 of
        (False, s2) \<Rightarrow> (None, s2)
      | (True, s2) \<Rightarrow>
     (case g3_import p s2 of
        (False, s3) \<Rightarrow> (None, zc_free p s3)
      | (True, s3) \<Rightarrow> (Some (page_up sz), s3\<lparr>g_own := (g_own s3)(p := False)\<rparr>)))))"

section \<open>Native buffers\<close>

text \<open>
  One round through the staging buffer: fill it, end the CPU access, let the daemon copy.
\<close>

definition stage_in :: "(('a gst_scheme \<Rightarrow> nat \<Rightarrow> nat \<Rightarrow> byte)) \<Rightarrow> 'a gst_scheme \<Rightarrow> 'a gst_scheme" where
  "stage_in f s = (let s1 = zc_begin STG s in zc_end STG (s1\<lparr>g_mem := f s1\<rparr>))"

lemma zc_simps [simp]:
  "g_stg_sz (zc_begin p s) = g_stg_sz s" "g_stg_sz (zc_end p s) = g_stg_sz s"
  "g_mem (zc_begin p s) = g_mem s" "g_mem (zc_end p s) = g_mem s"
  "g_se (zc_begin p s) = g_se s" "g_se (zc_end p s) = g_se s"
  by (simp_all add: zc_begin_def zc_end_def)

lemma copy_zero: "fst (g3_copy p poff q qoff 0 s) = False"
  by (simp add: g3_copy_def barra_gpu3_copy_def)

lemma copy_stg: "g_stg_sz (snd (g3_copy p poff q qoff n s)) = g_stg_sz s"
  by (auto simp: g3_copy_def split: prod.splits option.splits)

text \<open>
  \<open>gpud_nat_upload\<close>. A staging buffer of size 0 makes the copy of 0 bytes fail, so the loop ends.
\<close>

function nat_up_loop :: "nat \<Rightarrow> nat \<Rightarrow> byte list \<Rightarrow> 'a gst_scheme \<Rightarrow> bool \<times> 'a gst_scheme" where
  "nat_up_loop c off data s =
     (if data = [] then (True, s)
      else
     (let n = (if g_stg_sz s < length data then g_stg_sz s else length data);
          r = g3_copy STG 0 c off n (stage_in (\<lambda>s1. mwr STG 0 (take n data) (g_mem s1)) s)
      in if \<not> fst r then (False, snd r) else nat_up_loop c (off + n) (drop n data) (snd r)))"
  by pat_completeness auto

termination
proof (relation "measure (\<lambda>(c, off, data, s). length data)", goal_cases)
  case (2 c off data s n r)
  then have "n \<noteq> 0" by (metis copy_zero)
  with 2 show ?case by simp
qed simp

declare nat_up_loop.simps [simp del]

definition gpud_nat_upload ::
  "ggml \<Rightarrow> nat \<Rightarrow> nat \<Rightarrow> byte list \<Rightarrow> 'a gst_scheme \<Rightarrow> bool \<times> 'a gst_scheme" where
  "gpud_nat_upload G c off data s =
     (case gpud_staging_ensure G
         (u32c (if GPUD_STAGING_CAP < length data then GPUD_STAGING_CAP else length data)) s of
        (False, s1) \<Rightarrow> (False, s1)
      | (True, s1) \<Rightarrow> nat_up_loop c off data s1)"

text \<open>\<open>gpud_nat_download\<close>: the bytes read so far are \<open>acc\<close>.\<close>

function nat_down_loop ::
  "nat \<Rightarrow> nat \<Rightarrow> nat \<Rightarrow> byte list \<Rightarrow> 'a gst_scheme \<Rightarrow> byte list option \<times> 'a gst_scheme" where
  "nat_down_loop c off sz acc s =
     (if sz = 0 then (Some acc, s)
      else
     (let n = (if g_stg_sz s < sz then g_stg_sz s else sz);
          r = g3_copy c off STG 0 n s
      in if \<not> fst r then (None, snd r)
         else nat_down_loop c (off + n) (sz - n) (acc @ mrd STG 0 n (g_mem (snd r)))
                (zc_end STG (zc_begin STG (snd r)))))"
  by pat_completeness auto

termination
proof (relation "measure (\<lambda>(c, off, sz, acc, s). sz)", goal_cases)
  case (2 c off sz acc s n r)
  then have "n \<noteq> 0" by (metis copy_zero)
  with 2 show ?case by simp
qed simp

declare nat_down_loop.simps [simp del]

definition gpud_nat_download ::
  "ggml \<Rightarrow> nat \<Rightarrow> nat \<Rightarrow> nat \<Rightarrow> 'a gst_scheme \<Rightarrow> byte list option \<times> 'a gst_scheme" where
  "gpud_nat_download G c off sz s =
     (case gpud_staging_ensure G
         (u32c (if GPUD_STAGING_CAP < sz then GPUD_STAGING_CAP else sz)) s of
        (False, s1) \<Rightarrow> (None, s1)
      | (True, s1) \<Rightarrow> nat_down_loop c off sz [] s1)"

section \<open>Repacking of q6_K\<close>

text \<open>
  A q6_K block has 210 bytes in ggml and 224 in a native buffer. The loops move as many blocks at a
  time as fit into the staging buffer.
\<close>

definition gpud_nat_q6_repack :: "tensor \<Rightarrow> bool" where
  "gpud_nat_q6_repack t \<longleftrightarrow> tn_type t = TQ6K \<and> tn_ne t 0 mod 256 = 0"

definition spread :: "byte list \<Rightarrow> nat \<Rightarrow> nat \<Rightarrow> (nat \<Rightarrow> nat \<Rightarrow> byte) \<Rightarrow> nat \<Rightarrow> nat \<Rightarrow> byte" where
  "spread data blk n m =
     fold (\<lambda>i m. mwr STG (i * 224) (take 210 (drop ((blk + i) * 210) data)) m) [0..<n] m"

function rp_up_loop ::
  "nat \<Rightarrow> nat \<Rightarrow> byte list \<Rightarrow> nat \<Rightarrow> nat \<Rightarrow> 'a gst_scheme \<Rightarrow> bool \<times> 'a gst_scheme" where
  "rp_up_loop c base data nblk blk s =
     (if \<not> blk < nblk then (True, s)
      else
     (let per = g_stg_sz s div 224;
          n = (if nblk - blk < per then nblk - blk else per);
          r = g3_copy STG 0 c (base + blk * 224) (n * 224)
                (stage_in (\<lambda>s1. spread data blk n (g_mem s1)) s)
      in if \<not> fst r then (False, snd r) else rp_up_loop c base data nblk (blk + n) (snd r)))"
  by pat_completeness auto

termination
proof (relation "measure (\<lambda>(c, base, data, nblk, blk, s). nblk - blk)", goal_cases)
  case (2 c base data nblk blk s per n r)
  then have "n \<noteq> 0" by (metis copy_zero mult_0)
  moreover have "blk < nblk" using 2 by simp
  ultimately have "nblk - (blk + n) < nblk - blk" by linarith
  then show ?case by simp
qed simp

declare rp_up_loop.simps [simp del]

definition gather :: "nat \<Rightarrow> (nat \<Rightarrow> nat \<Rightarrow> byte) \<Rightarrow> byte list" where
  "gather n m = concat (map (\<lambda>i. mrd STG (i * 224) 210 m) [0..<n])"

function rp_down_loop ::
  "nat \<Rightarrow> nat \<Rightarrow> nat \<Rightarrow> nat \<Rightarrow> byte list \<Rightarrow> 'a gst_scheme \<Rightarrow> byte list option \<times> 'a gst_scheme" where
  "rp_down_loop c base nblk blk acc s =
     (if \<not> blk < nblk then (Some acc, s)
      else
     (let per = g_stg_sz s div 224;
          n = (if nblk - blk < per then nblk - blk else per);
          r = g3_copy c (base + blk * 224) STG 0 (n * 224) s
      in if \<not> fst r then (None, snd r)
         else rp_down_loop c base nblk (blk + n) (acc @ gather n (g_mem (snd r)))
                (zc_end STG (zc_begin STG (snd r)))))"
  by pat_completeness auto

termination
proof (relation "measure (\<lambda>(c, base, nblk, blk, acc, s). nblk - blk)", goal_cases)
  case (2 c base nblk blk acc s per n r)
  then have "n \<noteq> 0" by (metis copy_zero mult_0)
  moreover have "blk < nblk" using 2 by simp
  ultimately have "nblk - (blk + n) < nblk - blk" by linarith
  then show ?case by simp
qed simp

declare rp_down_loop.simps [simp del]

text \<open>
  \<open>gpud_nat_buffer_set_tensor\<close> and \<open>_get_tensor\<close>; \<open>False\<close> and \<open>None\<close> stand for \<open>GGML_ABORT\<close>. The
  transfer of a repacked tensor has to cover all of it, in units of 210 bytes.
\<close>

definition gpud_nat_buffer_set_tensor ::
  "ggml \<Rightarrow> nat \<Rightarrow> tensor \<Rightarrow> byte list \<Rightarrow> nat \<Rightarrow> 'a gst_scheme \<Rightarrow> bool \<times> 'a gst_scheme" where
  "gpud_nat_buffer_set_tensor G c t data off s =
     (if gpud_nat_q6_repack t
      then if off \<noteq> 0 \<or> length data \<noteq> gg_nbytes G t then (False, s)
        else (case gpud_staging_ensure G GPUD_STAGING_CAP s of
                (False, s1) \<Rightarrow> (False, s1)
              | (True, s1) \<Rightarrow> rp_up_loop c (toff G c t) data (length data div 210) 0 s1)
      else gpud_nat_upload G c (toff G c t + off) data s)"

definition gpud_nat_buffer_get_tensor ::
  "ggml \<Rightarrow> nat \<Rightarrow> tensor \<Rightarrow> nat \<Rightarrow> nat \<Rightarrow> 'a gst_scheme \<Rightarrow> byte list option \<times> 'a gst_scheme" where
  "gpud_nat_buffer_get_tensor G c t off sz s =
     (if gpud_nat_q6_repack t
      then if off \<noteq> 0 \<or> sz \<noteq> gg_nbytes G t then (None, s)
        else (case gpud_staging_ensure G GPUD_STAGING_CAP s of
                (False, s1) \<Rightarrow> (None, s1)
              | (True, s1) \<Rightarrow> rp_down_loop c (toff G c t) (sz div 210) 0 [] s1)
      else gpud_nat_download G c (toff G c t + off) sz s)"

text \<open>The staging buffer is filled once, then copied until the range is full.\<close>

function nat_set_loop :: "nat \<Rightarrow> nat \<Rightarrow> nat \<Rightarrow> 'a gst_scheme \<Rightarrow> bool \<times> 'a gst_scheme" where
  "nat_set_loop c base sz s =
     (if sz = 0 then (True, s)
      else
     (let n = (if g_stg_sz s < sz then g_stg_sz s else sz);
          r = g3_copy STG 0 c base n s
      in if \<not> fst r then (False, snd r) else nat_set_loop c (base + n) (sz - n) (snd r)))"
  by pat_completeness auto

termination
proof (relation "measure (\<lambda>(c, base, sz, s). sz)", goal_cases)
  case (2 c base sz s n r)
  then have "n \<noteq> 0" by (metis copy_zero)
  with 2 show ?case by simp
qed simp

declare nat_set_loop.simps [simp del]

definition gpud_nat_buffer_memset_tensor ::
  "ggml \<Rightarrow> nat \<Rightarrow> nat \<Rightarrow> byte \<Rightarrow> nat \<Rightarrow> nat \<Rightarrow> 'a gst_scheme \<Rightarrow> bool \<times> 'a gst_scheme" where
  "gpud_nat_buffer_memset_tensor G c tbase v off sz s =
     (case gpud_staging_ensure G
         (u32c (if GPUD_STAGING_CAP < sz then GPUD_STAGING_CAP else sz)) s of
        (False, s1) \<Rightarrow> (False, s1)
      | (True, s1) \<Rightarrow>
          nat_set_loop c (tbase + off) sz
            (stage_in (\<lambda>s2. mwr STG 0
               (replicate (if g_stg_sz s1 < sz then g_stg_sz s1 else sz) v) (g_mem s2)) s1))"

definition gpud_nat_buffer_clear ::
  "ggml \<Rightarrow> nat \<Rightarrow> byte \<Rightarrow> 'a gst_scheme \<Rightarrow> bool \<times> 'a gst_scheme" where
  "gpud_nat_buffer_clear G c v s =
     gpud_nat_buffer_memset_tensor G c 0 v 0 (cb_size (g_zs s c)) s"

text \<open>
  A native buffer has no descriptor; its \<open>map\<close> is address space only, so there is nothing to open
  for the CPU. When the address space cannot be reserved, the handle stays with the daemon.
\<close>

definition gpud_nat_buft_alloc_buffer ::
  "ggml \<Rightarrow> nat \<Rightarrow> nat \<Rightarrow> 'a gst_scheme \<Rightarrow> nat option \<times> 'a gst_scheme" where
  "gpud_nat_buft_alloc_buffer G p n s =
     (case gpud_session_open G s of
        (False, s1) \<Rightarrow> (None, s1)
      | (True, s1) \<Rightarrow>
     (let sz = (if n = 0 then GPUD_ALIGN else n) in
      if GPUD_MAX_BUF < sz then (None, s1)
      else
     (case barra_gpu3_alloc_native (u32c (page_up sz)) (g_se s1) of
        (None, se) \<Rightarrow> (None, s1\<lparr>g_se := se\<rparr>)
      | (Some h, se) \<Rightarrow>
          if s32 h < 0 then (None, s1\<lparr>g_se := se\<rparr>)
          else if \<not> gg_mmap G (g_tick s1) then (None, s1\<lparr>g_se := se, g_tick := Suc (g_tick s1)\<rparr>)
          else (Some (page_up sz),
            s1\<lparr>g_se := se, g_tick := Suc (g_tick s1),
               g_zs := (g_zs s1)(p := \<lparr>cb_fd = None, cb_map = True, cb_size = u32c (page_up sz),
                   cb_gpu = s32 h, cb_tpu = -1, cb_dsp = -1, cb_cpu = 0\<rparr>),
               g_own := (g_own s1)(p := True)\<rparr>))))"

definition gpud_nat_buffer_free :: "nat \<Rightarrow> 'a gst_scheme \<Rightarrow> 'a gst_scheme" where
  "gpud_nat_buffer_free c s = (if g_open s then g3_release c s else s)"

definition gpud_nat_buft_get_alloc_size :: "ggml \<Rightarrow> tensor \<Rightarrow> nat" where
  "gpud_nat_buft_get_alloc_size G t =
     (if gpud_nat_q6_repack t
      then tn_ne t 0 div 256 * 224 * tn_ne t 1 * tn_ne t 2 * tn_ne t 3
      else gg_nbytes G t)"

section \<open>Backends\<close>

text \<open>\<open>ggml_backend_gpud_init\<close> and \<open>gpud_free\<close>: the scratch goes with the last backend.\<close>

definition ggml_backend_gpud_init :: "ggml \<Rightarrow> 'a gst_scheme \<Rightarrow> bool \<times> 'a gst_scheme" where
  "ggml_backend_gpud_init G s =
     (case gpud_session_open G s of
        (False, s1) \<Rightarrow> (False, s1)
      | (True, s1) \<Rightarrow> (True, s1\<lparr>g_nback := g_nback s1 + 1\<rparr>))"

definition gpud_free :: "'a gst_scheme \<Rightarrow> 'a gst_scheme" where
  "gpud_free s =
     (let s1 = s\<lparr>g_nback := g_nback s - 1\<rparr> in
      if g_nback s1 \<le> 0 \<and> g_scr_ok s1
      then (zc_free SCR (g3_release SCR s1))\<lparr>g_scr_ok := False, g_scr_sz := 0\<rparr>
      else s1)"

end
