(* ===== verification/Ggml_Encoder.thy ===== *)
theory Ggml_Encoder
  imports Ggml_Buffers
begin

text \<open>
  The encoder of src/src/ggml-gpud/ggml-gpud.cpp (\<open>gpud_encoder\<close>): a batch of stages with the
  tracking of byte ranges that decides which stages need a barrier, the limits that close a batch,
  and \<open>flush\<close>, which sends it.
\<close>

section \<open>Barrier tracking\<close>

text \<open>A range is \<open>[lo, hi)\<close>.\<close>

type_synonym rng = "nat \<times> nat"

definition ov :: "rng list \<Rightarrow> rng \<Rightarrow> bool" where
  "ov v r \<longleftrightarrow> list_ex (\<lambda>q. fst r < snd q \<and> fst q < snd r) v"

text \<open>The flag (1: leave the barrier out) and the new lists \<open>rd_\<close> and \<open>wr_\<close>.\<close>

definition need_barrier :: "rng list \<Rightarrow> rng list \<Rightarrow> rng list \<Rightarrow> rng list \<Rightarrow> bool" where
  "need_barrier rs ws rl wl \<longleftrightarrow>
     list_ex (ov wl) rs \<or> list_ex (\<lambda>r. ov wl r \<or> ov rl r) ws"

definition barrier_flag ::
  "rng list \<Rightarrow> rng list \<Rightarrow> rng list \<times> rng list \<Rightarrow> nat \<times> rng list \<times> rng list" where
  "barrier_flag rs ws rw =
     (case rw of (rl, wl) \<Rightarrow>
       (let need = need_barrier rs ws rl wl;
            rl1 = (if need then [] else rl);
            wl1 = (if need then [] else wl)
        in ((if need then 0 else 1), rl1 @ rs @ ws, wl1 @ ws)))"

section \<open>State of a backend\<close>

text \<open>
  What happened to the device and to the CPU is logged: batches with the estimate they were filled
  under and the result of the call, and nodes computed on the CPU. \<open>en_ops\<close> is \<open>opnames\<close>, with the ranges each stage was pushed with.
  \<open>en_ub\<close> is set where the code writes past the end of an array.
\<close>

type_synonym gop_trace = "shader \<times> rng list \<times> rng list"

datatype gev = GBatch "cstage3 list" "gop_trace list" rat bool | GCpu nat

record est = gst +
  en_st :: "cstage3 list"
  en_nbd :: nat
  en_ops :: "gop_trace list"
  en_wgs :: nat
  en_pred :: rat
  en_rd :: "rng list"
  en_wr :: "rng list"
  en_ub :: bool
  cx_qx :: "nat option"
  cx_ngpu :: nat
  cx_ncpu :: nat
  cx_nbatch :: nat
  cx_log :: "gev list"

definition en_reset :: "est \<Rightarrow> est" where
  "en_reset s = s\<lparr>en_st := [], en_nbd := 0, en_ops := [], en_wgs := 0, en_pred := 0,
     en_rd := [], en_wr := []\<rparr>"

definition en_full :: "nat \<Rightarrow> est \<Rightarrow> bool" where
  "en_full nb s =
     (if g_maxstage s \<le> int (length (en_st s)) \<or> GPUD_MAX_STAGE * 4 < en_nbd s + nb then True
      else if g_fixed s then False
      else if g_est s \<le> 0 then 64 \<le> length (en_st s)
      else 0 < length (en_st s) \<and> g_budget s \<le> en_pred s)"

section \<open>Stages\<close>

text \<open>The binding of a tensor: its 64-byte aligned base, and the rest of the offset.\<close>

definition en_bind :: "ggml \<Rightarrow> store \<Rightarrow> nat option \<Rightarrow> (cbind3 \<times> nat) option" where
  "en_bind G zs tp =
     (case tp of
        None \<Rightarrow> None
      | Some p \<Rightarrow>
     (case tn_buf (gg_t G p) of
        None \<Rightarrow> None
      | Some c \<Rightarrow>
          if \<not> gpud_buft_ours G c then None
          else
         (let off = toff G c (gg_t G p) in
          if cb_size (zs c) \<le> off then None
          else Some (\<lparr>bi_buf = Some c, bi_off = off div GPUD_ALIGN * GPUD_ALIGN, bi_range = 0\<rparr>,
                 off mod GPUD_ALIGN))))"

text \<open>The bytes of a tensor, and the check that they lie in its buffer.\<close>

definition trange :: "ggml \<Rightarrow> nat \<Rightarrow> rng" where
  "trange G p = (tn_data (gg_t G p), tn_data (gg_t G p) + gg_nbytes G (gg_t G p))"

definition sticks_out :: "ggml \<Rightarrow> store \<Rightarrow> nat \<Rightarrow> bool" where
  "sticks_out G zs p \<longleftrightarrow>
     cb_size (zs (the (tn_buf (gg_t G p)))) <
       toff G (the (tn_buf (gg_t G p))) (gg_t G p) + gg_nbytes G (gg_t G p)"

text \<open>A null tensor in the list of bindings stands for the first one.\<close>

definition binds_list :: "nat option list \<Rightarrow> nat option list" where
  "binds_list ts = map (\<lambda>x. if x = None then hd ts else x) ts"

definition writes_at :: "shader \<Rightarrow> nat \<Rightarrow> bool" where
  "writes_at x i \<longleftrightarrow> odd (sd_wmask (g_shaders x) div 2 ^ i)"

definition pick_rngs :: "(nat \<Rightarrow> bool) \<Rightarrow> rng list \<Rightarrow> rng list" where
  "pick_rngs P rs = map (\<lambda>i. rs ! i) (filter P [0..<length rs])"

text \<open>The common end of \<open>push\<close> and \<open>push_raw\<close>.\<close>

definition en_emit ::
  "ggml \<Rightarrow> shader \<Rightarrow> nat \<Rightarrow> nat \<Rightarrow> nat \<Rightarrow> cbind3 list \<Rightarrow> nat list \<Rightarrow> rng list \<Rightarrow> rng list \<Rightarrow> est \<Rightarrow> est" where
  "en_emit G x gx gy gz bs pc rs ws s =
     (case barrier_flag rs ws (en_rd s, en_wr s) of (fl, rl, wl) \<Rightarrow>
       (let wg = (gx * gy * gz) mod 2 ^ 64 in
        s\<lparr>en_st := en_st s @ [\<lparr>g3_sh = g_sh s x, g3_gx = gx, g3_gy = gy, g3_gz = gz, g3_binds = bs,
               g3_pc = Some (put32s pc), g3_pcsize = 4 * length pc, g3_flags = fl\<rparr>],
          en_nbd := en_nbd s + length bs, en_ops := en_ops s @ [(x, rs, ws)],
          en_wgs := (en_wgs s + wg) mod 2 ^ 64,
          en_pred := gg_rnd G (en_pred s + gg_rnd G (gg_rnd G (of_nat wg) * g_est s)),
          en_rd := rl, en_wr := wl\<rparr>))"

definition en_push ::
  "ggml \<Rightarrow> shader \<Rightarrow> nat \<Rightarrow> nat \<Rightarrow> nat \<Rightarrow> nat option list \<Rightarrow> nat list \<Rightarrow> est \<Rightarrow> nat list option \<times> est" where
  "en_push G x gx gy gz ts pc s =
     (if en_full (length ts) s then (None, s)
      else
     (let us = binds_list ts; bs = map (en_bind G (g_zs s)) us in
      if None \<in> set bs \<or> list_ex (\<lambda>u. sticks_out G (g_zs s) (the u)) us then (None, s)
      else
     (let rgs = map (\<lambda>u. trange G (the u)) us in
      (Some (map (snd \<circ> the) bs),
       en_emit G x gx gy gz (map (fst \<circ> the) bs) pc
         (pick_rngs (\<lambda>i. \<not> writes_at x i) rgs) (pick_rngs (writes_at x) rgs) s))))"

definition en_push_raw ::
  "ggml \<Rightarrow> shader \<Rightarrow> nat \<Rightarrow> nat \<Rightarrow> nat \<Rightarrow> cbind3 list \<Rightarrow> nat list \<Rightarrow> rng list \<Rightarrow> rng list \<Rightarrow> est \<Rightarrow>
   bool \<times> est" where
  "en_push_raw G x gx gy gz bs pc rs ws s =
     (if en_full (length bs) s then (False, s)
      else if list_ex (\<lambda>b. bi_buf b = None \<or> bi_off b mod GPUD_ALIGN \<noteq> 0) bs then (False, s)
      else (True, en_emit G x gx gy gz bs pc rs ws s))"

section \<open>Sending a batch\<close>

text \<open>
  \<open>est_wg\<close> follows the measured time per workgroup: at once upwards, by a tenth downwards.
\<close>

definition new_est :: "ggml \<Rightarrow> rat \<Rightarrow> rat \<Rightarrow> rat" where
  "new_est G old per =
     (if old \<le> 0 \<or> old < per then per
      else gg_rnd G (gg_rnd G (gg_rnd G (9 / 10) * old) + gg_rnd G (gg_rnd G (1 / 10) * per)))"

definition en_flush :: "ggml \<Rightarrow> est \<Rightarrow> bool \<times> est" where
  "en_flush G s =
     (if en_st s = [] then (True, s)
      else
     (case gg_malloc G (cx_nbatch s) of (m1, m2) \<Rightarrow>
     (case barra_gpu3_batch m1 m2 (en_st s) (g_zs s, g_se s) of (r, zs, se) \<Rightarrow>
       (let per = gg_rnd G (gg_dt G (cx_nbatch s) / gg_rnd G (of_nat (en_wgs s)));
            est = (if \<not> g_fixed s \<and> r \<and> 0 < en_wgs s then new_est G (g_est s) per else g_est s)
        in (r, en_reset (s\<lparr>g_zs := zs, g_se := se, g_est := est, cx_nbatch := Suc (cx_nbatch s),
                 cx_log := cx_log s @ [GBatch (en_st s) (en_ops s) (g_est s) r]\<rparr>))))))"

text \<open>
  \<open>GPUD_PUSH3\<close>: make room, push, then fill in the push constants that depend on the offsets. The
  array \<open>rems_\<close> has four entries; \<open>push\<close> writes one for each binding.
\<close>

definition rems_overrun :: "ggml \<Rightarrow> nat option list \<Rightarrow> est \<Rightarrow> bool" where
  "rems_overrun G ts s \<longleftrightarrow>
     4 < length ts \<and> \<not> en_full (length ts) s \<and>
     None \<notin> set (map (en_bind G (g_zs s)) (take 5 (binds_list ts)))"

definition set_pc :: "nat list \<Rightarrow> est \<Rightarrow> est" where
  "set_pc pc s = s\<lparr>en_st := butlast (en_st s) @ [(last (en_st s))\<lparr>g3_pc := Some (put32s pc)\<rparr>]\<rparr>"

definition gpud_push3 ::
  "ggml \<Rightarrow> shader \<Rightarrow> nat \<Rightarrow> nat \<Rightarrow> nat \<Rightarrow> nat option list \<Rightarrow> ('p \<Rightarrow> nat list) \<Rightarrow> 'p \<Rightarrow>
   (nat list \<Rightarrow> 'p \<Rightarrow> 'p) \<Rightarrow> est \<Rightarrow> bool \<times> est" where
  "gpud_push3 G x gx gy gz ts words pc fix_pc s =
     (case (if en_full (length ts) s then en_flush G s else (True, s)) of
        (False, s1) \<Rightarrow> (False, s1)
      | (True, s1) \<Rightarrow>
     (let s2 = s1\<lparr>en_ub := en_ub s1 \<or> rems_overrun G ts s1\<rparr> in
      case en_push G x gx gy gz ts (words pc) s2 of
        (None, s3) \<Rightarrow> (False, s3)
      | (Some rems, s3) \<Rightarrow> (True, set_pc (words (fix_pc rems pc)) s3)))"

definition gpud_push ::
  "ggml \<Rightarrow> shader \<Rightarrow> nat \<Rightarrow> nat option list \<Rightarrow> ('p \<Rightarrow> nat list) \<Rightarrow> 'p \<Rightarrow>
   (nat list \<Rightarrow> 'p \<Rightarrow> 'p) \<Rightarrow> est \<Rightarrow> bool \<times> est" where
  "gpud_push G x n ts words pc fix_pc s =
     (case grid2 n of (gx, gy) \<Rightarrow> gpud_push3 G x gx gy 1 ts words pc fix_pc s)"

end
