(* ===== verification/Ggml_Nodes.thy ===== *)
theory Ggml_Nodes
  imports Ggml_Encoder
begin

text \<open>
  Encoding of graph nodes in src/src/ggml-gpud/ggml-gpud.cpp: which nodes the shaders can do
  (\<open>gpud_supports_op\<close>) and the stages each of them becomes (\<open>encode_node\<close>, one definition per case).
  The code reads \<open>src[0]\<close> and \<open>src[1]\<close> without a test; \<open>gpud_supports_op\<close> comes first.
\<close>

definition tsrc :: "ggml \<Rightarrow> nat \<Rightarrow> nat \<Rightarrow> nat option" where
  "tsrc G p k = tn_src (gg_t G p) k"

definition src_t :: "ggml \<Rightarrow> nat \<Rightarrow> nat \<Rightarrow> tensor" where
  "src_t G p k = gg_t G (the (tsrc G p k))"

text \<open>\<open>E(t->nb[k], es)\<close> and \<open>(uint32_t) t->ne[k]\<close> for a range of \<open>k\<close>.\<close>

definition strides :: "tensor \<Rightarrow> nat \<Rightarrow> nat list \<Rightarrow> nat list" where
  "strides t es ks = map (\<lambda>k. E (tn_nb t k) es) ks"

definition dims :: "tensor \<Rightarrow> nat list \<Rightarrow> nat list" where
  "dims t ks = map (\<lambda>k. u32c (tn_ne t k)) ks"

definition byte_strides :: "tensor \<Rightarrow> nat list \<Rightarrow> nat list" where
  "byte_strides t ks = map (\<lambda>k. u32c (tn_nb t k)) ks"

type_synonym enc = "est \<Rightarrow> bool \<times> nat \<times> est"

definition no_skip :: "bool \<times> est \<Rightarrow> bool \<times> nat \<times> est" where
  "no_skip r = (fst r, 0, snd r)"

section \<open>Elementwise operations\<close>

definition enc_binary :: "ggml \<Rightarrow> nat \<Rightarrow> nat \<Rightarrow> enc" where
  "enc_binary G p op s =
     (let t = gg_t G p; s0 = src_t G p 0; s1 = src_t G p 1; ks = [0..<4];
          pc = \<lparr>pb_ne = dims t ks, pb_nb0 = strides s0 4 ks, pb_nb1 = strides s1 4 ks,
                pb_nbd = strides t 4 ks, pb_ne1 = dims s1 ks, pb_offa = 0, pb_offb = 0, pb_offd = 0,
                pb_op = op, pb_n = u32c (gg_nelements G t)\<rparr>
      in no_skip (gpud_push G SBinary (GRP (pb_n pc) 256) [tsrc G p 0, tsrc G p 1, Some p] w_binary pc
           (\<lambda>rems pc. pc\<lparr>pb_offa := rems ! 0 div 4, pb_offb := rems ! 1 div 4, pb_offd := rems ! 2 div 4\<rparr>)
           s))"

definition unary_code :: "uop \<Rightarrow> nat option" where
  "unary_code u = (case u of USilu \<Rightarrow> Some 1 | UGelu \<Rightarrow> Some 2 | URelu \<Rightarrow> Some 3 | UNeg \<Rightarrow> Some 4
     | UGeluQuick \<Rightarrow> Some 5 | USigmoid \<Rightarrow> Some 6 | UOther _ \<Rightarrow> None)"

definition enc_unary :: "ggml \<Rightarrow> nat \<Rightarrow> enc" where
  "enc_unary G p s =
     (let t = gg_t G p; n = u32c (gg_nelements G t);
          pc0 = \<lparr>pu_n = n, pu_offa = 0, pu_offd = 0, pu_op = 0, pu_s = 0, pu_b = 0\<rparr>;
          pco = (if tn_op t = OpScale then Some (pc0\<lparr>pu_s := gg_pf G t 0, pu_b := gg_pf G t 1\<rparr>)
                 else map_option (\<lambda>c. pc0\<lparr>pu_op := c\<rparr>) (unary_code (gg_uop G t)))
      in case pco of
           None \<Rightarrow> (False, 0, s)
         | Some pc \<Rightarrow>
             no_skip (gpud_push G SUnary (GRP n 256) [tsrc G p 0, Some p] w_unary pc
               (\<lambda>rems pc. pc\<lparr>pu_offa := rems ! 0 div 4, pu_offd := rems ! 1 div 4\<rparr>) s))"

text \<open>
  A RMS_NORM followed by a MUL with a weight vector becomes one stage when nothing else uses the
  norm.
\<close>

definition rms_fuses :: "ggml \<Rightarrow> nat list \<Rightarrow> nat \<Rightarrow> bool" where
  "rms_fuses G cg i \<longleftrightarrow>
     Suc i < length cg \<and>
     (let p = cg ! i; t = gg_t G p; q = cg ! Suc i; x = gg_t G q; w = src_t G q 1 in
      tn_op x = OpMul \<and> tsrc G q 0 = Some p \<and> tn_type w = TF32 \<and> tn_ne w 0 = tn_ne t 0 \<and>
      gg_nelements G w = tn_ne t 0 \<and> gg_uses G i = 1 \<and> gg_contig G x \<and>
      (case tn_buf x of None \<Rightarrow> False | Some c \<Rightarrow> gpud_buft_ours G c))"

definition enc_rms :: "ggml \<Rightarrow> nat list \<Rightarrow> nat \<Rightarrow> enc" where
  "enc_rms G cg i s =
     (let p = cg ! i; t = gg_t G p; s0 = src_t G p 0; q = cg ! Suc i; f = rms_fuses G cg i;
          out = (if f then q else p);
          pc = \<lparr>pr_ne00 = u32c (tn_ne t 0), pr_nrows = u32c (gg_nrows G t), pr_nb01 = E (tn_nb s0 1) 4,
                pr_nbd1 = E (tn_nb (gg_t G out) 1) 4, pr_offa = 0, pr_offw = 0, pr_offd = 0,
                pr_fuse = (if f then 1 else 0), pr_eps = gg_pf G t 0\<rparr>
      in case gpud_push G SRms (pr_nrows pc) [tsrc G p 0, if f then tsrc G q 1 else None, Some out]
             w_rms pc
             (\<lambda>rems pc. pc\<lparr>pr_offa := rems ! 0 div 4, pr_offw := rems ! 1 div 4,
                 pr_offd := rems ! 2 div 4\<rparr>) s of
           (r, s1) \<Rightarrow> (r, if f then 1 else 0, s1))"

definition enc_cpy :: "ggml \<Rightarrow> nat \<Rightarrow> enc" where
  "enc_cpy G p s =
     (let t = gg_t G p; s0 = src_t G p 0; es = gg_tsize G (tn_type s0); ed = gg_tsize G (tn_type t);
          ks = [0..<4];
          pc = \<lparr>py_ne = dims t ks, py_nes = dims s0 ks, py_nbs = strides s0 es ks,
                py_nbd = strides t ed ks, py_offa = 0, py_offd = 0,
                py_st = (if tn_type s0 = TF16 then 1 else 0),
                py_dt = (if tn_type t = TF16 then 1 else 0), py_n = u32c (gg_nelements G t)\<rparr>
      in no_skip (gpud_push G SCpy (GRP (py_n pc) 256) [tsrc G p 0, tsrc G p 0, Some p, Some p] w_cpy pc
           (\<lambda>rems pc. pc\<lparr>py_offa := rems ! 0 div es, py_offd := rems ! 2 div ed\<rparr>) s))"

definition enc_get_rows :: "ggml \<Rightarrow> nat \<Rightarrow> enc" where
  "enc_get_rows G p s =
     (let t = gg_t G p; s0 = src_t G p 0; s1 = src_t G p 1;
          pc = \<lparr>pg_ne00 = u32c (tn_ne s0 0), pg_ne1 = dims s1 [0, 1, 2], pg_nb01 = u32c (tn_nb s0 1),
                pg_nb1 = strides s1 4 [0, 1, 2], pg_nbd = strides t 4 [1, 2, 3],
                pg_off0 = 0, pg_off1 = 0, pg_offd = 0, pg_type = sh_type (tn_type s0),
                pg_nrows = u32c (u32c (tn_ne s1 0) * u32c (tn_ne s1 1) * u32c (tn_ne s1 2))\<rparr>
      in no_skip (gpud_push G SGetRows (pg_nrows pc) [tsrc G p 0, tsrc G p 1, Some p] w_get_rows pc
           (\<lambda>rems pc. pc\<lparr>pg_off0 := rems ! 0, pg_off1 := rems ! 1 div 4, pg_offd := rems ! 2 div 4\<rparr>)
           s))"

section \<open>Matrix products\<close>

text \<open>
  The int-dot path: the unit of the weight's offset (2 bytes for q6_K, 16 for q4_K), the condition to
  take it, and the size of the quantized \<open>x\<close> in the scratch buffer (4 bytes of header per block of
  32 values, rounded up to 16, then 32 bytes per block).
\<close>

definition iq_unit :: "tensor \<Rightarrow> nat" where
  "iq_unit w = (if tn_type w = TQ6K then 2 else 16)"

definition takes_iq :: "ggml \<Rightarrow> nat \<Rightarrow> est \<Rightarrow> bool" where
  "takes_iq G p s \<longleftrightarrow>
     (let s0 = src_t G p 0 in
      (tn_type s0 = TQ4K \<or> tn_type s0 = TQ6K \<and> \<not> ev_noiq6 G) \<and> tn_ne s0 0 mod 256 = 0 \<and>
      gg_contig G (src_t G p 1) \<and> \<not> ev_noiq G \<and>
      (case en_bind G (g_zs s) (tsrc G p 0) of
         None \<Rightarrow> False
       | Some (_, rem) \<Rightarrow> rem mod iq_unit s0 = 0))"

definition iq_cols :: "tensor \<Rightarrow> nat" where
  "iq_cols x = u32c (tn_ne x 1 * tn_ne x 2 * tn_ne x 3)"

definition iq_nblk :: "tensor \<Rightarrow> nat" where
  "iq_nblk x = u32c (u32c (tn_ne x 0) div 32 * iq_cols x)"

definition iq_need :: "tensor \<Rightarrow> nat" where
  "iq_need x = u32c (u32c (u32c (iq_nblk x * 4) + 15) div 16 * 16 + u32c (iq_nblk x * 32))"

definition scr_range :: "est \<Rightarrow> nat \<Rightarrow> rng" where
  "scr_range s need = (g_scr_map s, g_scr_map s + need)"

definition scr_bind :: cbind3 where
  "scr_bind = \<lparr>bi_buf = Some SCR, bi_off = 0, bi_range = 0\<rparr>"

definition make_room :: "ggml \<Rightarrow> nat \<Rightarrow> est \<Rightarrow> bool \<times> est" where
  "make_room G nb s = (if en_full nb s then en_flush G s else (True, s))"

text \<open>The scratch buffer grows; what is in the batch refers to the old one, so it is sent first.\<close>

definition iq_grow :: "ggml \<Rightarrow> nat \<Rightarrow> est \<Rightarrow> bool \<times> est" where
  "iq_grow G need s =
     (if g_scr_sz s < need
      then (case en_flush G s of
              (False, s1) \<Rightarrow> (False, s1)
            | (True, s1) \<Rightarrow>
                (case gpud_scratch_ensure G need s1 of
                   (False, s2) \<Rightarrow> (False, s2)
                 | (True, s2) \<Rightarrow> (True, s2\<lparr>cx_qx := None\<rparr>)))
      else (True, s))"

text \<open>Stage 1: quantize \<open>x\<close> into the scratch buffer, unless it is there already.\<close>

definition iq_quant :: "ggml \<Rightarrow> nat \<Rightarrow> est \<Rightarrow> bool \<times> est" where
  "iq_quant G x s =
     (if cx_qx s = Some x then (True, s)
      else
     (let t = gg_t G x in
      case en_bind G (g_zs s) (Some x) of
        None \<Rightarrow> (False, s)
      | Some (bx, rem) \<Rightarrow>
     (case make_room G 2 s of
        (False, s1) \<Rightarrow> (False, s1)
      | (True, s1) \<Rightarrow>
     (let pc = \<lparr>pq_ne00 = u32c (tn_ne t 0), pq_ncols = iq_cols t, pq_nb32 = u32c (tn_ne t 0) div 32,
                pq_offx = rem div 4, pq_offq = 0, pq_nblk = iq_nblk t\<rparr>
      in
      case grid2 (pq_nblk pc) of (gx, gy) \<Rightarrow>
     (case en_push_raw G SQuantQ81 gx gy 1 [bx, scr_bind] (w_quant pc) [trange G x]
         [scr_range s1 (iq_need t)] s1 of
        (False, s2) \<Rightarrow> (False, s2)
      | (True, s2) \<Rightarrow> (True, s2\<lparr>cx_qx := Some x\<rparr>))))))"

text \<open>Stage 2: the product of the weights with the quantized \<open>x\<close>.\<close>

definition iq_repacked :: "ggml \<Rightarrow> tensor \<Rightarrow> bool" where
  "iq_repacked G w \<longleftrightarrow>
     tn_type w = TQ6K \<and> (case tn_buf w of None \<Rightarrow> False | Some c \<Rightarrow> gg_buft G c = BtNative)"

definition iq_strides :: "ggml \<Rightarrow> tensor \<Rightarrow> nat list" where
  "iq_strides G w =
     (if iq_repacked G w
      then let rowu = u32c (u32c (tn_ne w 0) div 256 * 112); m = u32c (rowu * u32c (tn_ne w 1)) in
        [rowu, m, u32c (m * u32c (tn_ne w 2))]
      else map (\<lambda>k. u32c (tn_nb w k div iq_unit w)) [1, 2, 3])"

definition iq_shader :: "ggml \<Rightarrow> tensor \<Rightarrow> shader" where
  "iq_shader G w =
     (if iq_repacked G w then SGemvQ6kRp else if tn_type w = TQ6K then SGemvQ6kIq else SGemvQ4kIq)"

definition iq_gemv :: "ggml \<Rightarrow> nat \<Rightarrow> est \<Rightarrow> bool \<times> est" where
  "iq_gemv G p s =
     (let t = gg_t G p; s0 = src_t G p 0; s1 = src_t G p 1; u = iq_unit s0 in
      case (en_bind G (g_zs s) (tsrc G p 0), en_bind G (g_zs s) (Some p)) of
        (Some (bw, remw), Some (bd, remd)) \<Rightarrow>
         (case make_room G 3 s of
            (False, s1') \<Rightarrow> (False, s1')
          | (True, s1') \<Rightarrow>
         (let pc = \<lparr>pv_ne00 = u32c (tn_ne s0 0), pv_ne01 = u32c (tn_ne s0 1),
                pv_ne11 = u32c (tn_ne s1 1), pv_ne12 = u32c (tn_ne s1 2),
                pv_nb0v4 = iq_strides G s0, pv_nb1 = strides s1 4 [1, 2, 3],
                pv_nbd = strides t 4 [1, 2, 3], pv_off0v4 = remw div u, pv_offxq = iq_nblk s1,
                pv_offd = remd div 4, pv_r2 = u32c (tn_ne s1 2 div tn_ne s0 2),
                pv_r3 = u32c (tn_ne s1 3 div tn_ne s0 3), pv_n256 = u32c (tn_ne s0 0) div 256,
                pv_xqcols = u32c (tn_ne s1 0) div 32\<rparr>
          in
          case grid2 (u32c (pv_ne01 pc + 7) div 8) of (gx, gy) \<Rightarrow>
            en_push_raw G (iq_shader G s0) gx (pv_ne11 pc) (u32c (tn_ne s1 2 * tn_ne s1 3))
              [bw, scr_bind, bd] (w_gemv_iq pc)
              [trange G (the (tsrc G p 0)), scr_range s1' (iq_need s1)] [trange G p] s1'))
      | _ \<Rightarrow> (False, s))"

definition enc_iq :: "ggml \<Rightarrow> nat \<Rightarrow> enc" where
  "enc_iq G p s =
     (case iq_grow G (iq_need (src_t G p 1)) s of
        (False, s1) \<Rightarrow> (False, 0, s1)
      | (True, s1) \<Rightarrow>
     (case iq_quant G (the (tsrc G p 1)) s1 of
        (False, s2) \<Rightarrow> (False, 0, s2)
      | (True, s2) \<Rightarrow> no_skip (iq_gemv G p s2)))"

text \<open>The two kernels that read the weights as ggml stores them.\<close>

definition mm_pc :: "ggml \<Rightarrow> nat \<Rightarrow> pc_mul_mat" where
  "mm_pc G p =
     (let t = gg_t G p; s0 = src_t G p 0; s1 = src_t G p 1 in
      \<lparr>pm_ne00 = u32c (tn_ne s0 0), pm_ne01 = u32c (tn_ne s0 1), pm_ne11 = u32c (tn_ne s1 1),
       pm_ne12 = u32c (tn_ne s1 2), pm_nb0 = byte_strides s0 [1, 2, 3],
       pm_nb1 = strides s1 4 [1, 2, 3], pm_nbd = strides t 4 [1, 2, 3],
       pm_off0 = 0, pm_off1 = 0, pm_offd = 0, pm_type = sh_type (tn_type s0),
       pm_r2 = u32c (tn_ne s1 2 div tn_ne s0 2), pm_r3 = u32c (tn_ne s1 3 div tn_ne s0 3)\<rparr>)"

definition takes_gemv :: "ggml \<Rightarrow> nat \<Rightarrow> bool" where
  "takes_gemv G p \<longleftrightarrow>
     (tn_type (src_t G p 0) = TQ4K \<or> tn_type (src_t G p 0) = TQ6K) \<and>
     tn_ne (src_t G p 0) 0 mod 256 = 0 \<and> \<not> ev_nogemv G"

definition mm_z :: "ggml \<Rightarrow> nat \<Rightarrow> nat" where
  "mm_z G p = u32c (tn_ne (src_t G p 1) 2 * tn_ne (src_t G p 1) 3)"

definition enc_gemv :: "ggml \<Rightarrow> nat \<Rightarrow> enc" where
  "enc_gemv G p s =
     (let pc = pc_mul_mat.extend (mm_pc G p) (pc_gemv.fields (pm_ne00 (mm_pc G p) div 256)) in
      no_skip (gpud_push3 G SGemvQ (GRP (pm_ne01 pc) 8) (pm_ne11 pc) (mm_z G p)
        [tsrc G p 0, tsrc G p 1, tsrc G p 1, Some p] w_gemv pc
        (\<lambda>rems pc. pc\<lparr>pm_off0 := rems ! 0, pm_off1 := rems ! 1 div 4, pm_offd := rems ! 3 div 4\<rparr>) s))"

definition enc_mm :: "ggml \<Rightarrow> nat \<Rightarrow> enc" where
  "enc_mm G p s =
     (let pc = mm_pc G p in
      no_skip (gpud_push3 G SMulMat (GRP (pm_ne01 pc) 8) (pm_ne11 pc) (mm_z G p)
        [tsrc G p 0, tsrc G p 1, Some p] w_mul_mat pc
        (\<lambda>rems pc. pc\<lparr>pm_off0 := rems ! 0, pm_off1 := rems ! 1 div 4, pm_offd := rems ! 2 div 4\<rparr>) s))"

definition enc_mul_mat :: "ggml \<Rightarrow> nat \<Rightarrow> enc" where
  "enc_mul_mat G p s =
     (if takes_iq G p s then enc_iq G p s
      else if takes_gemv G p then enc_gemv G p s
      else enc_mm G p s)"

section \<open>Attention and the rest\<close>

definition F_M2 :: f32 where "F_M2 = 0xC0000000"
definition F_2 :: f32 where "F_2 = 0x40000000"
definition ROPE_NEOX :: int where "ROPE_NEOX = 2"

definition enc_rope :: "ggml \<Rightarrow> nat \<Rightarrow> enc" where
  "enc_rope G p s =
     (let t = gg_t G p; s0 = src_t G p 0; nd = gg_pi G t 1; mode = gg_pi G t 2;
          pc = \<lparr>po_ne0 = dims s0 [0, 1, 2], po_n_dims = u32of nd, po_nb0 = strides s0 4 [1, 2, 3],
                po_nbd = strides t 4 [1, 2, 3], po_offa = 0, po_offp = 0, po_offf = 0, po_offd = 0,
                po_neox = (if odd (mode div ROPE_NEOX) then 1 else 0),
                po_has_ff = (if tsrc G p 2 = None then 0 else 1),
                po_npairs = u32c (gg_nelements G s0 div 2),
                po_theta = gg_powf G (gg_pf G t 5) (gg_fdiv G F_M2 (gg_fofint G nd)),
                po_freq = gg_pf G t 6, po_attn = gg_pf G t 8\<rparr>
      in no_skip (gpud_push G SRope (GRP (po_npairs pc) 256)
           [tsrc G p 0, tsrc G p 1, if tsrc G p 2 = None then tsrc G p 1 else tsrc G p 2, Some p] w_rope pc
           (\<lambda>rems pc. pc\<lparr>po_offa := rems ! 0 div 4, po_offp := rems ! 1 div 4, po_offf := rems ! 2 div 4,
               po_offd := rems ! 3 div 4\<rparr>) s))"

definition enc_softmax :: "ggml \<Rightarrow> nat \<Rightarrow> enc" where
  "enc_softmax G p s =
     (let t = gg_t G p; s0 = src_t G p 0; m = tsrc G p 1; mt = gg_t G (the m);
          em = gg_tsize G (tn_type mt);
          pc = \<lparr>ps_ne0 = dims s0 [0, 1, 2],
                ps_ne1 = (if m = None then [1, 1, 1] else dims mt [1, 2, 3]),
                ps_nb0 = strides s0 4 [1, 2, 3],
                ps_nbm = (if m = None then [0, 0, 0] else strides mt em [1, 2, 3]),
                ps_nbd = strides t 4 [1, 2, 3], ps_offa = 0, ps_offm = 0, ps_offd = 0,
                ps_mask = (if m = None then 0 else if tn_type mt = TF16 then 1 else 2),
                ps_nrows = u32c (gg_nrows G s0), ps_scale = gg_pf G t 0\<rparr>;
          mm = (if m = None then tsrc G p 0 else m)
      in no_skip (gpud_push G SSoftmax (ps_nrows pc) [tsrc G p 0, mm, mm, Some p] w_softmax pc
           (\<lambda>rems pc. pc\<lparr>ps_offa := rems ! 0 div 4, ps_offm := (if m = None then 0 else rems ! 1 div em),
               ps_offd := rems ! 3 div 4\<rparr>) s))"

definition glu_code :: "glop \<Rightarrow> nat option" where
  "glu_code g = (case g of GReglu \<Rightarrow> Some 0 | GGeglu \<Rightarrow> Some 1 | GSwiglu \<Rightarrow> Some 2 | GlOther _ \<Rightarrow> None)"

definition enc_glu :: "ggml \<Rightarrow> nat \<Rightarrow> enc" where
  "enc_glu G p s =
     (let t = gg_t G p; s0 = src_t G p 0; m = tsrc G p 1; ne0 = u32c (tn_ne t 0);
          nrows = u32c (gg_nrows G t) in
      case glu_code (gg_glop G t) of
        None \<Rightarrow> (False, 0, s)
      | Some c \<Rightarrow>
         (let pc = \<lparr>pl_ne0 = ne0, pl_nrows = nrows, pl_nb01 = E (tn_nb s0 1) 4,
                pl_nb11 = (if m = None then 0 else E (tn_nb (gg_t G (the m)) 1) 4),
                pl_nbd1 = E (tn_nb t 1) 4, pl_offa = 0, pl_offb = 0, pl_offd = 0,
                pl_split = (if m = None then 0 else 1),
                pl_swapped = (if gg_pi G t 1 \<noteq> 0 then 1 else 0), pl_op = c, pl_n = u32c (ne0 * nrows)\<rparr>
          in no_skip (gpud_push G SGlu (GRP (pl_n pc) 256)
               [tsrc G p 0, if m = None then tsrc G p 0 else m, Some p] w_glu pc
               (\<lambda>rems pc. pc\<lparr>pl_offa := rems ! 0 div 4, pl_offb := rems ! 1 div 4,
                   pl_offd := rems ! 2 div 4\<rparr>) s)))"

definition enc_set_rows :: "ggml \<Rightarrow> nat \<Rightarrow> enc" where
  "enc_set_rows G p s =
     (let t = gg_t G p; s0 = src_t G p 0; s1 = src_t G p 1; ei = gg_tsize G (tn_type s1);
          ed = gg_tsize G (tn_type t);
          pc = \<lparr>pt_ne0 = dims s0 [0..<4], pt_nb0 = strides s0 4 [1, 2, 3], pt_ne1 = dims s1 [1, 2],
                pt_nb1 = strides s1 ei [1, 2], pt_nbd = strides t ed [1, 2, 3], pt_offa = 0,
                pt_offi = 0, pt_offd = 0, pt_i64 = (if tn_type s1 = TI64 then 1 else 0),
                pt_dt = (if tn_type t = TF16 then 1 else 0), pt_nrows = u32c (gg_nrows G s0)\<rparr>
      in no_skip (gpud_push G SSetRows (pt_nrows pc) [tsrc G p 0, tsrc G p 1, Some p, Some p]
           w_set_rows pc
           (\<lambda>rems pc. pc\<lparr>pt_offa := rems ! 0 div 4, pt_offi := rems ! 1 div ei, pt_offd := rems ! 2 div ed\<rparr>)
           s))"

text \<open>The largest power of two that is not larger than the number of heads (below \<open>2 ^ 31\<close>).\<close>

function head_log2 :: "nat \<Rightarrow> nat \<Rightarrow> nat" where
  "head_log2 k n = (if 0 < k \<and> k * 2 \<le> n then head_log2 (k * 2) n else k)"
  by pat_completeness auto

termination by (relation "measure (\<lambda>(k, n). n - k)") auto

declare head_log2.simps [simp del]

definition flash_pc :: "ggml \<Rightarrow> nat \<Rightarrow> pc_flash" where
  "flash_pc G p =
     (let t = gg_t G p; q = src_t G p 0; k = src_t G p 1; v = src_t G p 2; m = tsrc G p 3;
          mt = gg_t G (the m); esq = gg_tsize G (tn_type q);
          esm = (if m = None then 4 else gg_tsize G (tn_type mt));
          bias = gg_pf G t 1; nhl = head_log2 1 (u32c (tn_ne q 2));
          nem2 = (if m = None then 1 else u32c (tn_ne mt 2))
      in
      \<lparr>pf_D = u32c (tn_ne q 0), pf_DV = u32c (tn_ne v 1), pf_M = u32c (tn_ne k 1),
       pf_nbq = strides q esq [1, 2, 3], pf_nbk = strides k 2 [1, 2, 3], pf_nbv = strides v 2 [1, 2, 3],
       pf_nbm = (if m = None then [0, 0] else strides mt esm [1, 2]), pf_nbd = strides t 4 [1, 2, 3],
       pf_offq = 0, pf_offk = 0, pf_offv = 0, pf_offm = 0, pf_offd = 0,
       pf_qt = (if tn_type q = TF16 then 1 else 0),
       pf_maskt = (if m = None then 0 else if tn_type mt = TF16 then 1 else 2),
       pf_gqa = u32c (tn_ne q 2 div tn_ne k 2),
       pf_nhl2 = (if pos_f bias then nhl else 0),
       pf_nem2 = (if nem2 = 0 then 1 else nem2),
       pf_scale = gg_pf G t 0, pf_softcap = gg_pf G t 2,
       pf_m0 = (if pos_f bias
                then gg_powf G F_2 (gg_fdiv G (neg_f bias) (gg_fofint G (int nhl))) else 0),
       pf_m1 = (if pos_f bias
                then gg_powf G F_2 (gg_fdiv G (neg_f (gg_fdiv G bias F_2)) (gg_fofint G (int nhl)))
                else 0)\<rparr>)"

definition enc_flash :: "ggml \<Rightarrow> nat \<Rightarrow> enc" where
  "enc_flash G p s =
     (let q = src_t G p 0; m = tsrc G p 3; mm = (if m = None then tsrc G p 0 else m);
          esq = gg_tsize G (tn_type q); esm = gg_tsize G (tn_type (gg_t G (the m)))
      in no_skip (gpud_push3 G SFlash (u32c (tn_ne q 1)) (u32c (tn_ne q 2)) (u32c (tn_ne q 3))
           [tsrc G p 0, tsrc G p 0, tsrc G p 1, tsrc G p 2, mm, mm, Some p] w_flash (flash_pc G p)
           (\<lambda>rems pc. pc\<lparr>pf_offq := rems ! 0 div esq, pf_offk := rems ! 2 div 2, pf_offv := rems ! 3 div 2,
               pf_offm := (if m = None then 0 else rems ! 4 div esm), pf_offd := rems ! 6 div 4\<rparr>) s))"

definition encode_node :: "ggml \<Rightarrow> nat list \<Rightarrow> nat \<Rightarrow> enc" where
  "encode_node G cg i s =
     (let p = cg ! i in
      case tn_op (gg_t G p) of
        OpAdd \<Rightarrow> enc_binary G p 0 s
      | OpMul \<Rightarrow> enc_binary G p 1 s
      | OpSub \<Rightarrow> enc_binary G p 2 s
      | OpDiv \<Rightarrow> enc_binary G p 3 s
      | OpScale \<Rightarrow> enc_unary G p s
      | OpUnary \<Rightarrow> enc_unary G p s
      | OpRmsNorm \<Rightarrow> enc_rms G cg i s
      | OpCpy \<Rightarrow> enc_cpy G p s
      | OpCont \<Rightarrow> enc_cpy G p s
      | OpDup \<Rightarrow> enc_cpy G p s
      | OpGetRows \<Rightarrow> enc_get_rows G p s
      | OpMulMat \<Rightarrow> enc_mul_mat G p s
      | OpRope \<Rightarrow> enc_rope G p s
      | OpSoftMax \<Rightarrow> enc_softmax G p s
      | OpGlu \<Rightarrow> enc_glu G p s
      | OpSetRows \<Rightarrow> enc_set_rows G p s
      | OpFlashAttn \<Rightarrow> enc_flash G p s
      | _ \<Rightarrow> (False, 0, s))"

section \<open>What the shaders can do\<close>

definition is_f32 :: "tensor \<Rightarrow> bool" where
  "is_f32 x \<longleftrightarrow> tn_type x = TF32 \<and> tn_nb x 0 = 4"

definition src_is :: "ggml \<Rightarrow> tensor \<Rightarrow> nat \<Rightarrow> (tensor \<Rightarrow> bool) \<Rightarrow> bool" where
  "src_is G t k P \<longleftrightarrow> (case tn_src t k of None \<Rightarrow> False | Some p \<Rightarrow> P (gg_t G p))"

definition src_opt :: "ggml \<Rightarrow> tensor \<Rightarrow> nat \<Rightarrow> (tensor \<Rightarrow> bool) \<Rightarrow> bool" where
  "src_opt G t k P \<longleftrightarrow> (case tn_src t k of None \<Rightarrow> True | Some p \<Rightarrow> P (gg_t G p))"

definition f16_or_f32 :: "gtype \<Rightarrow> bool" where
  "f16_or_f32 x \<longleftrightarrow> x = TF16 \<or> x = TF32"

definition sup_mul_mat :: "ggml \<Rightarrow> tensor \<Rightarrow> bool" where
  "sup_mul_mat G t \<longleftrightarrow>
     (let s0 = gg_t G (the (tn_src t 0)); s1 = gg_t G (the (tn_src t 1)) in
      src_is G t 0 (\<lambda>x. weight_type_ok (tn_type x) \<and> tn_nb x 0 = gg_tsize G (tn_type x) \<and>
         tn_ne x 0 mod gg_bsize G (tn_type x) = 0) \<and>
      src_is G t 1 is_f32 \<and> is_f32 t \<and>
      tn_ne s1 2 mod tn_ne s0 2 = 0 \<and> tn_ne s1 3 mod tn_ne s0 3 = 0 \<and>
      (tn_ne s0 1 + 7) div 8 \<le> 65535 \<and> tn_ne s1 1 \<le> 65535 \<and> tn_ne s1 2 * tn_ne s1 3 \<le> 65535)"

definition sup_rope :: "ggml \<Rightarrow> tensor \<Rightarrow> bool" where
  "sup_rope G t \<longleftrightarrow>
     src_is G t 0 is_f32 \<and> is_f32 t \<and> src_is G t 1 (\<lambda>x. tn_type x = TI32) \<and>
     (gg_pi G t 2 = 0 \<or> gg_pi G t 2 = ROPE_NEOX) \<and> zero_f (gg_pf G t 7) \<and> src_opt G t 2 is_f32 \<and>
     even (gg_pi G t 1)"

definition sup_flash :: "ggml \<Rightarrow> tensor \<Rightarrow> bool" where
  "sup_flash G t \<longleftrightarrow>
     (let q = gg_t G (the (tn_src t 0)); k = gg_t G (the (tn_src t 1)) in
      ev_fa G \<and> tn_src t 4 = None \<and>
      src_is G t 0 (\<lambda>x. f16_or_f32 (tn_type x) \<and> tn_ne x 0 \<le> 256) \<and>
      src_is G t 1 (\<lambda>x. tn_type x = TF16) \<and>
      src_is G t 2 (\<lambda>x. tn_type x = TF16 \<and> tn_ne x 1 \<le> 256) \<and> tn_type t = TF32 \<and>
      src_opt G t 3 (\<lambda>x. f16_or_f32 (tn_type x)) \<and> tn_ne k 2 \<noteq> 0 \<and> tn_ne q 2 mod tn_ne k 2 = 0)"

definition gpud_supports_op :: "ggml \<Rightarrow> tensor \<Rightarrow> bool" where
  "gpud_supports_op G t \<longleftrightarrow>
     (case tn_op t of
        OpNone \<Rightarrow> True | OpView \<Rightarrow> True | OpPermute \<Rightarrow> True | OpReshape \<Rightarrow> True | OpTranspose \<Rightarrow> True
      | OpScale \<Rightarrow> src_is G t 0 (\<lambda>x. is_f32 x \<and> gg_contig G x) \<and> is_f32 t \<and> gg_contig G t
      | OpUnary \<Rightarrow> unary_code (gg_uop G t) \<noteq> None \<and> src_is G t 0 (\<lambda>x. is_f32 x \<and> gg_contig G x) \<and>
          is_f32 t \<and> gg_contig G t
      | OpRmsNorm \<Rightarrow> src_is G t 0 (\<lambda>x. is_f32 x \<and> gg_contig_rows G x \<and> gg_contig G x) \<and> is_f32 t \<and>
          gg_contig G t
      | OpGetRows \<Rightarrow>
          src_is G t 0 (\<lambda>x. weight_type_ok (tn_type x) \<and> tn_ne x 2 = 1 \<and> tn_ne x 3 = 1 \<and>
            tn_nb x 0 = gg_tsize G (tn_type x)) \<and>
          src_is G t 1 (\<lambda>x. tn_type x = TI32) \<and> tn_type t = TF32
      | OpMulMat \<Rightarrow> sup_mul_mat G t
      | OpRope \<Rightarrow> sup_rope G t
      | OpSoftMax \<Rightarrow> src_is G t 0 is_f32 \<and> is_f32 t \<and> src_opt G t 1 (\<lambda>x. f16_or_f32 (tn_type x)) \<and>
          tn_src t 2 = None \<and> zero_f (gg_pf G t 1)
      | OpGlu \<Rightarrow> glu_code (gg_glop G t) \<noteq> None \<and> src_is G t 0 (\<lambda>x. is_f32 x \<and> gg_contig_rows G x) \<and>
          is_f32 t \<and> src_opt G t 1 is_f32 \<and> gg_contig G t
      | OpSetRows \<Rightarrow> src_is G t 0 (\<lambda>x. is_f32 x \<and> gg_contig_rows G x) \<and>
          src_is G t 1 (\<lambda>x. tn_type x = TI64 \<or> tn_type x = TI32) \<and> f16_or_f32 (tn_type t)
      | OpFlashAttn \<Rightarrow> sup_flash G t
      | OpOther _ \<Rightarrow> False
      | op \<Rightarrow>
          if op \<in> {OpCpy, OpCont, OpDup}
          then src_is G t 0 (\<lambda>x. f16_or_f32 (tn_type x) \<and> gg_nelements G x = gg_nelements G t) \<and>
            f16_or_f32 (tn_type t)
          else src_is G t 0 (\<lambda>a. is_f32 a \<and> src_is G t 1 (\<lambda>b. is_f32 b \<and> gg_can_repeat G b a)) \<and>
            is_f32 t)"

end
