(* ===== verification/Ggml_Graph.thy ===== *)
theory Ggml_Graph
  imports Ggml_Nodes
begin

text \<open>
  \<open>gpud_graph_compute\<close> of src/src/ggml-gpud/ggml-gpud.cpp: the buffers of a graph pass to the
  device, the nodes become stages or are computed on the CPU, and the batches are sent. A graph is
  the list of its nodes' pointers.
\<close>

definition op_is_noop :: "ggml \<Rightarrow> tensor \<Rightarrow> bool" where
  "op_is_noop G t \<longleftrightarrow>
     tn_op t \<in> {OpNone, OpView, OpPermute, OpReshape, OpTranspose} \<or> gg_empty G t"

text \<open>\<open>x\<close> may be a null pointer.\<close>

definition gpud_writes_over :: "ggml \<Rightarrow> nat \<Rightarrow> nat option \<Rightarrow> bool" where
  "gpud_writes_over G p x \<longleftrightarrow>
     (case x of
        None \<Rightarrow> False
      | Some y \<Rightarrow>
          tn_buf (gg_t G p) \<noteq> None \<and> tn_buf (gg_t G p) = tn_buf (gg_t G y) \<and>
          fst (trange G p) < snd (trange G y) \<and> fst (trange G y) < snd (trange G p))"

section \<open>Ownership\<close>

definition touch :: "ggml \<Rightarrow> est \<Rightarrow> nat list \<Rightarrow> nat option \<Rightarrow> nat list" where
  "touch G s seen tp =
     (case tp of
        None \<Rightarrow> seen
      | Some p \<Rightarrow>
     (case tn_buf (gg_t G p) of
        None \<Rightarrow> seen
      | Some c \<Rightarrow> if \<not> gpud_buft_ours G c \<or> g_own s c \<or> c \<in> set seen then seen else seen @ [c]))"

definition node_refs :: "ggml \<Rightarrow> nat \<Rightarrow> nat option list" where
  "node_refs G p = Some p # map (tsrc G p) [0..<gg_max_src G]"

definition seen_bufs :: "ggml \<Rightarrow> nat list \<Rightarrow> est \<Rightarrow> nat list" where
  "seen_bufs G cg s = fold (\<lambda>p seen. fold (\<lambda>x seen. touch G s seen x) (node_refs G p) seen) cg []"

definition hand_over :: "ggml \<Rightarrow> nat list \<Rightarrow> est \<Rightarrow> est" where
  "hand_over G cg s = fold gpud_to_gpu (seen_bufs G cg s) s"

section \<open>The graph\<close>

text \<open>The result of the CPU backend is not looked at.\<close>

definition node_on_cpu :: "nat \<Rightarrow> est \<Rightarrow> est" where
  "node_on_cpu p s = s\<lparr>cx_ncpu := Suc (cx_ncpu s), cx_log := cx_log s @ [GCpu p]\<rparr>"

text \<open>The quantized \<open>x\<close> is forgotten when a node writes over its data.\<close>

definition forget_qx :: "ggml \<Rightarrow> nat list \<Rightarrow> est \<Rightarrow> est" where
  "forget_qx G ps s =
     fold (\<lambda>p s. if gpud_writes_over G p (cx_qx s) then s\<lparr>cx_qx := None\<rparr> else s) ps s"

definition try_encode :: "ggml \<Rightarrow> nat list \<Rightarrow> nat \<Rightarrow> enc" where
  "try_encode G cg i s =
     (if gpud_supports_op G (gg_t G (cg ! i)) then encode_node G cg i s else (False, 0, s))"

function graph_loop :: "ggml \<Rightarrow> nat list \<Rightarrow> nat \<Rightarrow> est \<Rightarrow> bool \<times> est" where
  "graph_loop G cg i s =
     (if \<not> i < length cg then en_flush G s
      else if op_is_noop G (gg_t G (cg ! i)) then graph_loop G cg (Suc i) s
      else
     (case try_encode G cg i s of
        (True, skip, s1) \<Rightarrow>
          graph_loop G cg (Suc (i + skip))
            (forget_qx G (take (Suc skip) (drop i cg)) (s1\<lparr>cx_ngpu := Suc (cx_ngpu s1)\<rparr>))
      | (False, _, s1) \<Rightarrow>
         (case en_flush G s1 of
            (False, s2) \<Rightarrow> (False, s2)
          | (True, s2) \<Rightarrow> graph_loop G cg (Suc i) (forget_qx G [cg ! i] (node_on_cpu (cg ! i) s2)))))"
  by pat_completeness auto

termination by (relation "measure (\<lambda>(G, cg, i, s). length cg - i)") auto

declare graph_loop.simps [simp del]

definition gpud_graph_compute :: "ggml \<Rightarrow> nat list \<Rightarrow> est \<Rightarrow> bool \<times> est" where
  "gpud_graph_compute G cg s =
     graph_loop G cg 0 ((hand_over G cg (en_reset s))\<lparr>cx_qx := None\<rparr>)"

end
