(* ===== verification/Ggml_Inv.thy ===== *)
theory Ggml_Inv
  imports Ggml_Graph Client_Correct
begin

text \<open>
  How a property of the encoder is carried through a whole graph of src/src/ggml-gpud/ggml-gpud.cpp.
  The interface \<open>graph_inv\<close> lists the few ways in which the state changes (a stage is emitted, a batch
  is sent, the scratch grows, a node runs on the CPU); what holds across them holds across
  \<open>gpud_graph_compute\<close>.
\<close>

section \<open>Stages with their shapes\<close>

text \<open>
  What every stage satisfies when it is emitted: as many bindings and push constants as the shader was
  loaded with, every binding of a whole buffer from an aligned offset inside of it, and an output.
\<close>

definition bind_ok :: "ggml \<Rightarrow> store \<Rightarrow> cbind3 \<Rightarrow> bool" where
  "bind_ok G zs b \<longleftrightarrow>
     bi_range b = 0 \<and> bi_off b mod GPUD_ALIGN = 0 \<and>
     (case bi_buf b of None \<Rightarrow> False
        | Some c \<Rightarrow> bi_off b = 0 \<or>
            bi_off b < cb_size (zs c) \<and> (\<exists>p. tn_buf (gg_t G p) = Some c))"

definition emit_ok :: "ggml \<Rightarrow> store \<Rightarrow> shader \<Rightarrow> cbind3 list \<Rightarrow> nat list \<Rightarrow> bool" where
  "emit_ok G zs x bs pc \<longleftrightarrow>
     length bs = sd_nbind (g_shaders x) \<and> 4 * length pc = sd_pcsize (g_shaders x) \<and>
     list_all (bind_ok G zs) bs"

lemma en_bind_ok: "en_bind G zs tp = Some (b, rem) \<Longrightarrow> bind_ok G zs b"
proof -
  assume a: "en_bind G zs tp = Some (b, rem)"
  have le: "off div GPUD_ALIGN * GPUD_ALIGN \<le> off" for off
    by (metis div_times_less_eq_dividend)
  from a show ?thesis
    using le by (auto simp: en_bind_def bind_ok_def Let_def GPUD_ALIGN_def split: option.splits if_splits)
qed

lemma scr_bind_ok [simp]: "bind_ok G zs scr_bind"
  by (simp add: bind_ok_def scr_bind_def GPUD_ALIGN_def)

lemma set_pc_emit:
  "length w = length pc \<Longrightarrow>
   set_pc w (en_emit G x gx gy gz bs pc rs ws s) = en_emit G x gx gy gz bs w rs ws s"
  by (cases s) (simp add: set_pc_def en_emit_def Let_def split: prod.splits)

lemma full_ub [simp]: "en_full nb (s\<lparr>en_ub := b\<rparr>) = en_full nb s"
  by (simp add: en_full_def)

lemma en_push_cases:
  assumes "en_push G x gx gy gz ts pc s = (r, s')"
  obtains (no) "r = None" "s' = s"
  | (yes) bs rs ws where "r = Some (map (snd \<circ> the) bs)" "\<not> en_full (length ts) s"
      "bs = map (en_bind G (g_zs s)) (binds_list ts)" "None \<notin> set bs"
      "rs = pick_rngs (\<lambda>i. \<not> writes_at x i) (map (\<lambda>u. trange G (the u)) (binds_list ts))"
      "ws = pick_rngs (writes_at x) (map (\<lambda>u. trange G (the u)) (binds_list ts))"
      "s' = en_emit G x gx gy gz (map (fst \<circ> the) bs) pc rs ws s"
proof -
  let ?us = "binds_list ts"
  let ?bs = "map (en_bind G (g_zs s)) ?us"
  let ?bad = "None \<in> set ?bs \<or> list_ex (\<lambda>u. sticks_out G (g_zs s) (the u)) ?us"
  show ?thesis
  proof (cases "en_full (length ts) s \<or> ?bad")
    case True
    then have "en_push G x gx gy gz ts pc s = (None, s)"
      unfolding en_push_def Let_def by (simp only: split: if_split) blast
    with assms have "r = None" "s' = s" by simp_all
    then show ?thesis by (rule no)
  next
    case False
    let ?e = "en_emit G x gx gy gz (map (fst \<circ> the) ?bs) pc
         (pick_rngs (\<lambda>i. \<not> writes_at x i) (map (\<lambda>u. trange G (the u)) ?us))
         (pick_rngs (writes_at x) (map (\<lambda>u. trange G (the u)) ?us)) s"
    from False have f: "\<not> en_full (length ts) s" "\<not> ?bad" by blast+
    have "en_push G x gx gy gz ts pc s = (Some (map (snd \<circ> the) ?bs), ?e)"
      unfolding en_push_def Let_def if_not_P [OF f(1)] if_not_P [OF f(2)] by (rule refl)
    with assms have r: "r = Some (map (snd \<circ> the) ?bs)" "s' = ?e" by simp_all
    have n: "None \<notin> set ?bs" using f(2) by blast
    show ?thesis by (rule yes [OF r(1) f(1) refl n refl refl r(2)])
  qed
qed

lemma binds_ok_map:
  assumes "bs = map (en_bind G zs) us" and "None \<notin> set bs"
  shows "list_all (bind_ok G zs) (map (fst \<circ> the) bs)"
proof -
  have "bind_ok G zs (fst (the b))" if "b \<in> set bs" for b
  proof -
    from that assms(1) obtain u where u: "b = en_bind G zs u" by auto
    have "b \<noteq> None" using that assms(2) by (metis (no_types))
    then obtain y r where "b = Some (y, r)" by (cases b) auto
    then show ?thesis using u en_bind_ok [of G zs u y r] by simp
  qed
  then show ?thesis by (auto simp: list_all_iff)
qed

lemma flush_empty: "en_st (snd (en_flush G s)) = []"
  by (simp add: en_flush_def en_reset_def Let_def split: prod.splits)

lemma flush_bal: "bal (g_zs s) (g_zs (snd (en_flush G s)))"
proof -
  have "bal (g_zs s) zs" if "barra_gpu3_batch m1 m2 (en_st s) (g_zs s, g_se s) = (r, zs, se)"
    for m1 m2 r zs se
    using gpu3_batch_bal [of "(g_zs s, g_se s)" m1 m2 "en_st s"] that by simp
  then show ?thesis by (simp add: en_flush_def en_reset_def Let_def split: prod.splits)
qed

lemma en_flush_cases:
  assumes "en_flush G s = (r, s')"
  obtains (no) "en_st s = []" "r" "s' = s"
  | (sent) zs se e where "en_st s \<noteq> []" "bal (g_zs s) zs"
      "e = (if \<not> g_fixed s \<and> r \<and> 0 < en_wgs s then new_est G (g_est s)
          (gg_rnd G (gg_dt G (cx_nbatch s) / gg_rnd G (of_nat (en_wgs s)))) else g_est s)"
      "s' = en_reset (s\<lparr>g_zs := zs, g_se := se, g_est := e, cx_nbatch := Suc (cx_nbatch s),
         cx_log := cx_log s @ [GBatch (en_st s) (en_ops s) (g_est s) r]\<rparr>)"
proof (cases "en_st s = []")
  case True
  then have "en_flush G s = (True, s)" by (simp add: en_flush_def)
  with assms have "r" "s' = s" by simp_all
  then show ?thesis by (rule no [OF True])
next
  case False
  obtain m1 m2 where m: "gg_malloc G (cx_nbatch s) = (m1, m2)" by (metis surj_pair)
  obtain q zs se where b: "barra_gpu3_batch m1 m2 (en_st s) (g_zs s, g_se s) = (q, zs, se)" by (metis surj_pair)
  have bal: "bal (g_zs s) zs" using gpu3_batch_bal [of "(g_zs s, g_se s)" m1 m2 "en_st s"] b by simp
  define e where "e = (if \<not> g_fixed s \<and> q \<and> 0 < en_wgs s then new_est G (g_est s)
      (gg_rnd G (gg_dt G (cx_nbatch s) / gg_rnd G (of_nat (en_wgs s)))) else g_est s)"
  have "en_flush G s = (q, en_reset (s\<lparr>g_zs := zs, g_se := se, g_est := e,
      cx_nbatch := Suc (cx_nbatch s),
      cx_log := cx_log s @ [GBatch (en_st s) (en_ops s) (g_est s) q]\<rparr>))"
    unfolding en_flush_def Let_def if_not_P [OF False] m b prod.case e_def by (rule refl)
  then have q: "r = q" and s': "s' = en_reset (s\<lparr>g_zs := zs, g_se := se, g_est := e,
      cx_nbatch := Suc (cx_nbatch s),
      cx_log := cx_log s @ [GBatch (en_st s) (en_ops s) (g_est s) q]\<rparr>)"
    using assms by simp_all
  show ?thesis by (rule sent [OF False bal _ s' [folded q]]) (simp only: e_def q)
qed

lemma scratch_keeps:
  assumes "gpud_scratch_ensure G n s = (r, s')"
  shows "en_st s' = en_st s" "en_ops s' = en_ops s" "en_rd s' = en_rd s" "en_wr s' = en_wr s"
    "cx_log s' = cx_log s" "en_nbd s' = en_nbd s" "en_pred s' = en_pred s" "en_wgs s' = en_wgs s"
    "g_maxstage s' = g_maxstage s" "g_fixed s' = g_fixed s" "g_budget s' = g_budget s"
    "g_est s' = g_est s" "g_sh s' = g_sh s" "en_ub s' = en_ub s" "cx_qx s' = cx_qx s"
    "cx_nbatch s' = cx_nbatch s"
  using assms
  by (auto simp: gpud_scratch_ensure_def zc_alloc_def zc_free_def g3_import_def g3_release_def Let_def
      split: prod.splits bool.splits if_splits)

lemma room_bal: "make_room G nb s = (r, s1) \<Longrightarrow> bal (g_zs s) (g_zs s1)"
  using flush_bal [of s G] by (auto simp: make_room_def split: if_splits)

lemma bind_ok_bal: "bal zs zs' \<Longrightarrow> bind_ok G zs' b = bind_ok G zs b"
  by (auto simp: bind_ok_def bal_def split: option.splits)

lemma set_shape [simp]: "length (strides t es ks) = length ks" "length (dims t ks) = length ks"
  "length (byte_strides t ks) = length ks" "length (iq_strides G t) = 3"
  by (simp_all add: strides_def dims_def byte_strides_def iq_strides_def Let_def)

lemma snd_no_skip [simp]: "snd (snd (no_skip r)) = snd r"
  by (simp add: no_skip_def)

lemmas word_defs = w_binary_def w_unary_def w_rms_def w_cpy_def w_get_rows_def w_mul_mat_def w_gemv_def
  w_quant_def w_gemv_iq_def w_rope_def w_softmax_def w_glu_def w_set_rows_def w_flash_def

section \<open>The interface\<close>

locale graph_inv =
  fixes G :: ggml and P :: "est \<Rightarrow> bool"
  assumes flush: "P s \<Longrightarrow> P (snd (en_flush G s))"
    and emit: "P s \<Longrightarrow> \<not> en_full (length bs) s \<Longrightarrow> emit_ok G (g_zs s) x bs pc \<Longrightarrow>
      P (en_emit G x gx gy gz bs pc rs ws s)"
    and ub: "P s \<Longrightarrow> P (s\<lparr>en_ub := b\<rparr>)"
    and qx: "P s \<Longrightarrow> P (s\<lparr>cx_qx := q\<rparr>)"
    and ngpu: "P s \<Longrightarrow> P (s\<lparr>cx_ngpu := n\<rparr>)"
    and cpu: "P s \<Longrightarrow> P (node_on_cpu p s)"
    and scr: "P s \<Longrightarrow> en_st s = [] \<Longrightarrow> P (snd (gpud_scratch_ensure G n s))"
begin

lemma push3:
  assumes P: "P s" and ts: "length ts = sd_nbind (g_shaders x)"
    and w: "4 * length (words pc) = sd_pcsize (g_shaders x)"
      "\<And>r. 4 * length (words (fx r pc)) = sd_pcsize (g_shaders x)"
  shows "P (snd (gpud_push3 G x gx gy gz ts words pc fx s))"
proof -
  obtain r s1 where r: "(if en_full (length ts) s then en_flush G s else (True, s)) = (r, s1)"
    by (metis surj_pair)
  have P1: "P s1" using r P flush [OF P] by (auto split: if_splits)
  show ?thesis
  proof (cases r)
    case False
    with r P1 show ?thesis by (simp add: gpud_push3_def)
  next
    case True
    define s2 where "s2 = s1\<lparr>en_ub := en_ub s1 \<or> rems_overrun G ts s1\<rparr>"
    have P2: "P s2" unfolding s2_def by (rule ub [OF P1])
    obtain o3 s3 where p: "en_push G x gx gy gz ts (words pc) s2 = (o3, s3)" by (metis surj_pair)
    from p show ?thesis
    proof (cases rule: en_push_cases)
      case no
      with p r True P2 show ?thesis by (simp add: gpud_push3_def s2_def [symmetric] Let_def)
    next
      case (yes bs rs ws)
      let ?w = "words (fx (map (snd \<circ> the) bs) pc)"
      have len: "length ?w = length (words pc)" using w(1) w(2) [of "map (snd \<circ> the) bs"] by simp
      have "P (en_emit G x gx gy gz (map (fst \<circ> the) bs) ?w rs ws s2)"
      proof (rule emit [OF P2])
        show "\<not> en_full (length (map (fst \<circ> the) bs)) s2" using yes by (simp add: binds_list_def)
        show "emit_ok G (g_zs s2) x (map (fst \<circ> the) bs) ?w"
          using yes w(2) ts binds_ok_map [OF yes(3,4)] by (simp add: emit_ok_def binds_list_def)
      qed
      then show ?thesis
        using p r True yes len by (simp add: gpud_push3_def s2_def [symmetric] Let_def set_pc_emit)
    qed
  qed
qed

lemma push:
  assumes "P s" "length ts = sd_nbind (g_shaders x)" "4 * length (words pc) = sd_pcsize (g_shaders x)"
    "\<And>r. 4 * length (words (fx r pc)) = sd_pcsize (g_shaders x)"
  shows "P (snd (gpud_push G x n ts words pc fx s))"
  unfolding gpud_push_def case_prod_beta by (rule push3) (rule assms)+

lemma push_raw:
  assumes "P s" "emit_ok G (g_zs s) x bs pc"
  shows "P (snd (en_push_raw G x gx gy gz bs pc rs ws s))"
  using assms emit by (auto simp: en_push_raw_def)

lemma room: "P s \<Longrightarrow> P (snd (make_room G nb s))"
  using flush by (auto simp: make_room_def)

lemma grow: "P s \<Longrightarrow> P (snd (iq_grow G need s))"
proof -
  assume P: "P s"
  obtain r s1 where f: "en_flush G s = (r, s1)" by (metis surj_pair)
  have P1: "P s1" and e: "en_st s1 = []" using flush [OF P] flush_empty [of G s] f by simp_all
  obtain r2 s2 where g: "gpud_scratch_ensure G need s1 = (r2, s2)" by (metis surj_pair)
  have "P s2" using scr [OF P1 e, of need] g by simp
  then show ?thesis using P P1 qx f g by (auto simp: iq_grow_def split: bool.splits)
qed

lemma quant: "P s \<Longrightarrow> P (snd (iq_quant G x s))"
proof (cases "cx_qx s = Some x \<or> en_bind G (g_zs s) (Some x) = None")
  case True
  then show "P s \<Longrightarrow> P (snd (iq_quant G x s))" by (auto simp: iq_quant_def Let_def)
next
  case False
  then obtain bx rem where q: "cx_qx s \<noteq> Some x" and b: "en_bind G (g_zs s) (Some x) = Some (bx, rem)" by auto
  assume P: "P s"
  obtain r s1 where m: "make_room G 2 s = (r, s1)" by (metis surj_pair)
  have P1: "P s1" using room [OF P, of 2] m by simp
  have bx: "bind_ok G (g_zs s1) bx" using en_bind_ok [OF b] bind_ok_bal [OF room_bal [OF m]] by simp
  show ?thesis
  proof (cases r)
    case False
    then show ?thesis using q b m P1 by (simp add: iq_quant_def Let_def)
  next
    case True
    have raw: "P (snd (en_push_raw G SQuantQ81 gx gy 1 [bx, scr_bind] (w_quant pc) rs ws s1))" for gx gy pc rs ws
      using bx by (intro push_raw P1) (simp add: emit_ok_def w_quant_def sdef_def)
    show ?thesis
      using q b m True raw qx by (auto simp: iq_quant_def Let_def split: prod.splits bool.splits) (metis snd_conv)+
  qed
qed

lemma gemv: "P s \<Longrightarrow> P (snd (iq_gemv G p s))"
proof (cases "en_bind G (g_zs s) (tsrc G p 0) = None \<or> en_bind G (g_zs s) (Some p) = None")
  case True
  then show "P s \<Longrightarrow> P (snd (iq_gemv G p s))" by (auto simp: iq_gemv_def Let_def split: option.splits)
next
  case False
  then obtain bw rw bd rd where b: "en_bind G (g_zs s) (tsrc G p 0) = Some (bw, rw)"
    "en_bind G (g_zs s) (Some p) = Some (bd, rd)" by auto
  assume P: "P s"
  obtain r s1 where m: "make_room G 3 s = (r, s1)" by (metis surj_pair)
  have P1: "P s1" using room [OF P, of 3] m by simp
  have ok: "bind_ok G (g_zs s1) bw" "bind_ok G (g_zs s1) bd"
    using en_bind_ok [OF b(1)] en_bind_ok [OF b(2)] bind_ok_bal [OF room_bal [OF m]] by simp_all
  have sh: "sd_nbind (g_shaders (iq_shader G w)) = 3" "sd_pcsize (g_shaders (iq_shader G w)) = 80" for w
    by (simp_all add: iq_shader_def sdef_def)
  have raw: "P (snd (en_push_raw G (iq_shader G w) gx gy gz [bw, scr_bind, bd] (w_gemv_iq pc) rs ws s1))"
    if "length (pv_nb0v4 pc) = 3" "length (pv_nb1 pc) = 3" "length (pv_nbd pc) = 3" for w gx gy gz pc rs ws
    using ok that by (intro push_raw P1) (simp add: emit_ok_def w_gemv_iq_def sh)
  show ?thesis
  proof (cases r)
    case False
    then show ?thesis using b m P1 by (simp add: iq_gemv_def Let_def)
  next
    case True
    show ?thesis using b m True
      by (simp add: iq_gemv_def Let_def split: prod.splits) (intro allI impI raw, simp_all)
  qed
qed

lemma iq: "P s \<Longrightarrow> P (snd (snd (enc_iq G p s)))"
proof -
  assume P: "P s"
  obtain r s1 where g: "iq_grow G (iq_need (src_t G p 1)) s = (r, s1)" by (metis surj_pair)
  have P1: "P s1" using grow [OF P] g by (metis snd_conv)
  obtain q s2 where k: "iq_quant G (the (tsrc G p 1)) s1 = (q, s2)" by (metis surj_pair)
  have P2: "P s2" using quant [OF P1] k by (metis snd_conv)
  show ?thesis using g k P1 P2 gemv [OF P2, of p] by (auto simp: enc_iq_def split: bool.splits)
qed

lemma encs:
  assumes "P s"
  shows "P (snd (snd (enc_binary G p op s)))" "P (snd (snd (enc_unary G p s)))"
    "P (snd (snd (enc_rms G cg i s)))" "P (snd (snd (enc_cpy G p s)))"
    "P (snd (snd (enc_get_rows G p s)))" "P (snd (snd (enc_gemv G p s)))"
    "P (snd (snd (enc_mm G p s)))" "P (snd (snd (enc_rope G p s)))"
    "P (snd (snd (enc_softmax G p s)))" "P (snd (snd (enc_glu G p s)))"
    "P (snd (snd (enc_set_rows G p s)))" "P (snd (snd (enc_flash G p s)))"
  subgoal unfolding enc_binary_def Let_def snd_no_skip
    by (rule push [OF assms]) (simp_all add: word_defs sdef_def)
  subgoal
    by (auto simp: enc_unary_def Let_def assms split: option.splits
        intro!: push [OF assms] simp: word_defs sdef_def)
  subgoal unfolding enc_rms_def Let_def case_prod_beta snd_conv
    by (rule push [OF assms]) (simp_all add: word_defs sdef_def)
  subgoal unfolding enc_cpy_def Let_def snd_no_skip
    by (rule push [OF assms]) (simp_all add: word_defs sdef_def)
  subgoal unfolding enc_get_rows_def Let_def snd_no_skip
    by (rule push [OF assms]) (simp_all add: word_defs sdef_def)
  subgoal unfolding enc_gemv_def Let_def snd_no_skip
    by (rule push3 [OF assms]) (simp_all add: word_defs sdef_def mm_pc_def Let_def pc_mul_mat.extend_def pc_gemv.fields_def)
  subgoal unfolding enc_mm_def Let_def snd_no_skip
    by (rule push3 [OF assms]) (simp_all add: word_defs sdef_def mm_pc_def Let_def)
  subgoal unfolding enc_rope_def Let_def snd_no_skip
    by (rule push [OF assms]) (simp_all add: word_defs sdef_def)
  subgoal unfolding enc_softmax_def Let_def snd_no_skip
    by (rule push [OF assms]) (simp_all add: word_defs sdef_def)
  subgoal
    by (auto simp: enc_glu_def Let_def assms split: option.splits
        intro!: push [OF assms] simp: word_defs sdef_def)
  subgoal unfolding enc_set_rows_def Let_def snd_no_skip
    by (rule push [OF assms]) (simp_all add: word_defs sdef_def)
  subgoal unfolding enc_flash_def Let_def snd_no_skip
    by (rule push3 [OF assms]) (simp_all add: word_defs sdef_def flash_pc_def Let_def)
  done

lemma encode: "P s \<Longrightarrow> P (snd (snd (encode_node G cg i s)))"
  using encs iq by (auto simp: encode_node_def enc_mul_mat_def Let_def split: gop.splits)

lemma forget: "P s \<Longrightarrow> P (forget_qx G ps s)"
  unfolding forget_qx_def by (induction ps arbitrary: s) (auto simp: qx)

lemma loop: "P s \<Longrightarrow> P (snd (graph_loop G cg i s))"
proof (induction "length cg - i" arbitrary: i s rule: less_induct)
  case less
  show ?case
  proof (cases "i < length cg")
    case False
    then show ?thesis using flush [OF less.prems] by (simp add: graph_loop.simps [of G cg i])
  next
    case i: True
    show ?thesis
    proof (cases "op_is_noop G (gg_t G (cg ! i))")
      case True
      then show ?thesis using i less by (simp add: graph_loop.simps [of G cg i])
    next
      case False
      obtain r k s1 where e: "try_encode G cg i s = (r, k, s1)" by (metis surj_pair)
      have P1: "P s1"
        using encode [OF less.prems, of cg i] e less.prems by (auto simp: try_encode_def split: if_splits)
      obtain q s2 where f: "en_flush G s1 = (q, s2)" by (metis surj_pair)
      have P2: "P s2" using flush [OF P1] f by simp
      have IH: "i < j \<Longrightarrow> P u \<Longrightarrow> P (snd (graph_loop G cg j u))" for j u
        using less.hyps [of j u] i by (metis diff_less_mono2 le_neq_implies_less nat_less_le
            diff_is_0_eq' linorder_not_le zero_less_diff)
      show ?thesis
      proof (cases r)
        case True
        then show ?thesis
          using i False e IH [OF _ forget [OF ngpu [OF P1]]] by (simp add: graph_loop.simps [of G cg i])
      next
        case r: False
        then show ?thesis
          using i False e f P2 IH [OF _ forget [OF cpu [OF P2]], of "Suc i"]
          by (cases q) (simp_all add: graph_loop.simps [of G cg i])
      qed
    qed
  qed
qed

end

end
