(* ===== verification/Ggml_Barriers.thy ===== *)
theory Ggml_Barriers
  imports Ggml_Encoder Gpudzc3_Run
begin

text \<open>
  The barriers of a batch, from the encoder of ggml-gpud.cpp to the command buffer of gpud-zc.c:
  which executions of the recorded commands the barriers permit, and why the byte ranges tracked by
  \<open>barrier_flag\<close> make all of them equal to running the stages one after another.
\<close>

section \<open>Steps on memory\<close>

text \<open>
  A stage is a list of steps (its workgroups in the order the device takes them); a step changes
  memory. \<open>confined rs ws f\<close>: \<open>f\<close> writes in the ranges \<open>ws\<close> only, and what it writes depends on the
  bytes of \<open>rs\<close> and \<open>ws\<close> only.
\<close>

type_synonym amem = "nat \<Rightarrow> byte"

definition inr :: "nat \<Rightarrow> rng list \<Rightarrow> bool" where
  "inr a rs \<longleftrightarrow> list_ex (\<lambda>r. fst r \<le> a \<and> a < snd r) rs"

definition confined :: "rng list \<Rightarrow> rng list \<Rightarrow> (amem \<Rightarrow> amem) \<Rightarrow> bool" where
  "confined rs ws f \<longleftrightarrow>
     (\<forall>m a. \<not> inr a ws \<longrightarrow> f m a = m a) \<and>
     (\<forall>m m'. (\<forall>a. inr a rs \<or> inr a ws \<longrightarrow> m a = m' a) \<longrightarrow> (\<forall>a. inr a ws \<longrightarrow> f m a = f m' a))"

definition apart :: "rng list \<Rightarrow> rng list \<Rightarrow> bool" where
  "apart u v \<longleftrightarrow> (\<forall>a. \<not> (inr a u \<and> inr a v))"

definition commutes :: "('m \<Rightarrow> 'm) \<Rightarrow> ('m \<Rightarrow> 'm) \<Rightarrow> bool" where
  "commutes f g \<longleftrightarrow> (\<forall>m. f (g m) = g (f m))"

lemma inr_append [simp]: "inr a (u @ v) \<longleftrightarrow> inr a u \<or> inr a v"
  by (simp add: inr_def)

lemma inr_Nil [simp]: "\<not> inr a []"
  by (simp add: inr_def)

lemma apart_sym: "apart u v \<Longrightarrow> apart v u"
  by (auto simp: apart_def)

lemma confined_commutes:
  assumes f: "confined r1 w1 f" and g: "confined r2 w2 g"
    and a1: "apart w1 r2" "apart w1 w2" "apart w2 r1"
  shows "commutes f g"
  unfolding commutes_def
proof (intro allI ext)
  fix m a
  have f_out: "\<And>m a. \<not> inr a w1 \<Longrightarrow> f m a = m a" and g_out: "\<And>m a. \<not> inr a w2 \<Longrightarrow> g m a = m a"
    using f g by (auto simp: confined_def)
  have fg: "f (g m) a = f m a" if "inr a w1"
  proof -
    have "\<forall>a. inr a r1 \<or> inr a w1 \<longrightarrow> g m a = m a"
      using a1 g_out unfolding apart_def by metis
    then show ?thesis using f that unfolding confined_def by blast
  qed
  have gf: "g (f m) a = g m a" if "inr a w2"
  proof -
    have "\<forall>a. inr a r2 \<or> inr a w2 \<longrightarrow> f m a = m a"
      using a1 f_out unfolding apart_def by metis
    then show ?thesis using g that unfolding confined_def by blast
  qed
  show "f (g m) a = g (f m) a"
  proof (cases "inr a w1")
    case True
    then have "\<not> inr a w2" using a1(2) by (auto simp: apart_def)
    with fg [OF True] g_out show ?thesis by simp
  next
    case False
    then show ?thesis using f_out g_out gf by (cases "inr a w2") auto
  qed
qed

lemma not_ov_apart: "\<not> ov v r \<Longrightarrow> inr a v \<Longrightarrow> \<not> inr a [r]"
  by (fastforce simp: ov_def inr_def list_ex_iff)

lemma no_ov_apart:
  assumes "\<not> list_ex (ov v) rs"
  shows "apart rs v"
  unfolding apart_def
proof (intro allI notI)
  fix a assume "inr a rs \<and> inr a v"
  then obtain r where "r \<in> set rs" "inr a [r]" "inr a v" by (auto simp: inr_def list_ex_iff)
  with assms not_ov_apart [of v r a] show False by (auto simp: list_ex_iff)
qed

lemma need_barrier_apart:
  assumes "\<not> need_barrier rs ws rl wl"
  shows "apart rs wl" "apart ws wl" "apart ws rl"
  using assms no_ov_apart [of wl rs] no_ov_apart [of wl ws] no_ov_apart [of rl ws]
  by (auto simp: need_barrier_def list_ex_iff)

section \<open>Interleavings\<close>

definition run_steps :: "('m \<Rightarrow> 'm) list \<Rightarrow> 'm \<Rightarrow> 'm" where
  "run_steps fs m = fold (\<lambda>f m. f m) fs m"

lemma run_steps_simps [simp]:
  "run_steps [] m = m"
  "run_steps (f # fs) m = run_steps fs (f m)"
  "run_steps (fs @ gs) m = run_steps gs (run_steps fs m)"
  by (simp_all add: run_steps_def)

text \<open>Stages that run at the same time: at each moment the next step of any one of them.\<close>

inductive interleaving :: "'a list list \<Rightarrow> 'a list \<Rightarrow> bool" where
  il_done: "list_all (\<lambda>xs. xs = []) xss \<Longrightarrow> interleaving xss []"
| il_step: "interleaving (xss @ xs # yss) t \<Longrightarrow> interleaving (xss @ (x # xs) # yss) (x # t)"

lemma interleaving_Nil: "interleaving [] t \<longleftrightarrow> t = []"
  by (auto elim: interleaving.cases intro: il_done)

lemma commutes_past:
  assumes "\<forall>g\<in>set gs. commutes g f"
  shows "run_steps gs (f m) = f (run_steps gs m)"
  using assms by (induction gs arbitrary: m) (auto simp: commutes_def)

definition indep :: "('m \<Rightarrow> 'm) list \<Rightarrow> ('m \<Rightarrow> 'm) list \<Rightarrow> bool" where
  "indep fs gs \<longleftrightarrow> (\<forall>f\<in>set fs. \<forall>g\<in>set gs. commutes f g)"

lemma indep_Cons1: "indep (x # xs) ys \<longleftrightarrow> (\<forall>g\<in>set ys. commutes x g) \<and> indep xs ys"
  and indep_Cons2: "indep xs (y # ys) \<longleftrightarrow> (\<forall>f\<in>set xs. commutes f y) \<and> indep xs ys"
  by (auto simp: indep_def)

lemma interleaving_sequential:
  assumes "interleaving xss t" and "sorted_wrt indep xss"
  shows "run_steps t m = run_steps (concat xss) m"
  using assms
proof (induction arbitrary: m rule: interleaving.induct)
  case (il_done xss)
  then have "concat xss = []" by (auto simp: list_all_iff)
  then show ?case by (simp only: run_steps_simps)
next
  case (il_step xss xs yss t x)
  have "sorted_wrt indep (xss @ xs # yss)"
    using il_step.prems by (auto simp: sorted_wrt_append indep_Cons1 indep_Cons2)
  then have "run_steps (x # t) m = run_steps (concat (xss @ xs # yss)) (x m)"
    using il_step.IH by simp
  also have "\<dots> = run_steps (xs @ concat yss) (x (run_steps (concat xss) m))"
  proof -
    have "\<forall>g\<in>set (concat xss). commutes g x"
      using il_step.prems by (auto simp: sorted_wrt_append indep_Cons1 indep_Cons2)
    then have "run_steps (concat xss) (x m) = x (run_steps (concat xss) m)" by (rule commutes_past)
    then show ?thesis by simp
  qed
  also have "\<dots> = run_steps (concat (xss @ (x # xs) # yss)) m" by simp
  finally show ?case .
qed

section \<open>The command buffer\<close>

text \<open>
  The dispatches of a command buffer carry the stages in order. A compute barrier separates what
  comes before it from what comes after; between two barriers the stages run interleaved.
\<close>

fun segments :: "gcmd list \<Rightarrow> 'a list \<Rightarrow> 'a list \<Rightarrow> 'a list list" where
  "segments [] xs cur = [cur]"
| "segments (c # cs) xs cur =
     (if is_dispatch c then (case xs of [] \<Rightarrow> segments cs [] cur | x # xs1 \<Rightarrow> segments cs xs1 (cur @ [x]))
      else if compute_barrier c then cur # segments cs xs []
      else segments cs xs cur)"

definition device_run :: "gcmd list \<Rightarrow> 'a list list \<Rightarrow> 'a list \<Rightarrow> bool" where
  "device_run cs stages t \<longleftrightarrow>
     (\<exists>ts. list_all2 interleaving (segments cs stages []) ts \<and> t = concat ts)"

fun grouped :: "nat list \<Rightarrow> 'a list \<Rightarrow> 'a list \<Rightarrow> 'a list list" where
  "grouped (fl # fls) (x # xs) cur =
     (if even fl then cur # grouped fls xs [x] else grouped fls xs (cur @ [x]))"
| "grouped _ _ cur = [cur]"

lemma segments_stage:
  assumes "slot_get sh (t_sh st) \<noteq> None"
  shows "segments (stage3_cmds sh h st @ cs) (x # xs) cur = segments cs xs (cur @ [x])"
  using assms by (auto simp: stage3_cmds_def is_dispatch_def compute_barrier_def)

lemma segments_record3:
  assumes "even fl" and "list_all (\<lambda>st. slot_get sh (t_sh st) \<noteq> None) sts" and "length xs = length sts"
  shows "segments (record_stages3 False fl sh h sts @ [shader_to_host]) xs cur =
    grouped (map t_flags sts) xs cur"
  using assms
proof (induction sts arbitrary: xs cur)
  case Nil
  then show ?case by (simp add: shader_to_host_def is_dispatch_def compute_barrier_def)
next
  case (Cons st sts)
  then obtain x xs1 where xs: "xs = x # xs1" by (cases xs) auto
  have bar: "\<not> is_dispatch shader_to_shader" "compute_barrier shader_to_shader"
    by (auto simp: shader_to_shader_def is_dispatch_def compute_barrier_def)
  show ?case
    using Cons by (simp add: xs segments_stage bar)
qed

lemma segments_cmd_buffer3:
  assumes "even fl" and "list_all (\<lambda>st. slot_get sh (t_sh st) \<noteq> None) (st # sts)"
    and "length xs = length sts"
  shows "segments (cmd_buffer3 fl sh h (st # sts)) (x # xs) [] = grouped (map t_flags sts) xs [x]"
proof -
  have "\<not> is_dispatch host_to_shader" "\<not> compute_barrier host_to_shader"
    by (auto simp: host_to_shader_def is_dispatch_def compute_barrier_def)
  then show ?thesis
    using assms segments_record3 [of fl sh sts xs h] by (simp add: cmd_buffer3_def segments_stage)
qed

lemma concat_grouped: "length fls = length xs \<Longrightarrow> concat (grouped fls xs cur) = cur @ xs"
  by (induction fls xs cur rule: grouped.induct) auto

section \<open>Tracked batches\<close>

text \<open>The flags \<open>barrier_flag\<close> gives to a sequence of stages, from the lists a batch has so far.\<close>

fun flags_of :: "(rng list \<times> rng list) list \<Rightarrow> rng list \<times> rng list \<Rightarrow> nat list" where
  "flags_of [] rw = []"
| "flags_of ((rs, ws) # es) rw =
     (case barrier_flag rs ws rw of (fl, rw1) \<Rightarrow> fl # flags_of es rw1)"

fun track :: "(rng list \<times> rng list) list \<Rightarrow> rng list \<times> rng list \<Rightarrow> rng list \<times> rng list" where
  "track [] rw = rw"
| "track ((rs, ws) # es) rw = track es (snd (barrier_flag rs ws rw))"

lemma flags_of_append: "flags_of (es @ [(rs, ws)]) rw =
    flags_of es rw @ [fst (barrier_flag rs ws (track es rw))]"
  by (induction es arbitrary: rw) (auto split: prod.splits)

lemma track_append: "track (es @ [(rs, ws)]) rw = snd (barrier_flag rs ws (track es rw))"
  by (induction es rw rule: track.induct) auto

lemma length_flags_of [simp]: "length (flags_of es rw) = length es"
  by (induction es rw rule: flags_of.induct) (auto split: prod.splits)

text \<open>What is in the current group is covered by the tracked lists.\<close>

definition covers :: "rng list \<times> rng list \<Rightarrow> (rng list \<times> rng list) \<Rightarrow> bool" where
  "covers rw e \<longleftrightarrow>
     (\<forall>a. (inr a (fst e) \<or> inr a (snd e) \<longrightarrow> inr a (fst rw)) \<and> (inr a (snd e) \<longrightarrow> inr a (snd rw)))"

definition fits :: "(rng list \<times> rng list) \<Rightarrow> (amem \<Rightarrow> amem) list \<Rightarrow> bool" where
  "fits e fs \<longleftrightarrow> list_all (confined (fst e) (snd e)) fs"

lemma independent_new:
  assumes "covers rw e" "fits e fs" and "fits (rs, ws) gs" and "\<not> need_barrier rs ws (fst rw) (snd rw)"
  shows "indep fs gs"
  unfolding indep_def
proof (intro ballI)
  fix f g assume fg: "f \<in> set fs" "g \<in> set gs"
  note ap = need_barrier_apart [OF assms(4)]
  have "apart (snd e) rs" "apart (snd e) ws" "apart ws (fst e)"
    using ap assms(1) unfolding covers_def apart_def by blast+
  moreover have "confined (fst e) (snd e) f" "confined rs ws g"
    using assms(2,3) fg by (auto simp: fits_def list_all_iff)
  ultimately show "commutes f g" by (blast intro: confined_commutes)
qed

lemma grouped_independent:
  assumes "list_all2 fits es fss" and "list_all2 fits cur cfs" and "list_all (covers rw) cur"
    and "sorted_wrt indep cfs"
  shows "list_all (sorted_wrt indep) (grouped (flags_of es rw) fss cfs)"
  using assms
proof (induction es arbitrary: rw fss cur cfs)
  case Nil
  then show ?case by simp
next
  case (Cons e es)
  obtain rs ws where e: "e = (rs, ws)" by (cases e)
  obtain gs gss where fss: "fss = gs # gss" "fits (rs, ws) gs" "list_all2 fits es gss"
    using Cons.prems(1) e by (auto simp: list_all2_Cons1)
  obtain rl wl where rw: "rw = (rl, wl)" by (cases rw)
  show ?case
  proof (cases "need_barrier rs ws rl wl")
    case True
    let ?rw = "(rs @ ws, ws)"
    have "list_all (sorted_wrt indep) (grouped (flags_of es ?rw) gss [gs])"
      using fss by (intro Cons.IH [where cur = "[(rs, ws)]"]) (auto simp: covers_def)
    then show ?thesis
      using True Cons.prems(4) by (simp add: e rw fss barrier_flag_def)
  next
    case False
    let ?rw = "(rl @ rs @ ws, wl @ ws)"
    have ind: "indep fs gs" if fs: "fs \<in> set cfs" for fs
    proof -
      have len: "length cur = length cfs" using Cons.prems(2) by (rule list_all2_lengthD)
      from fs obtain k where k: "k < length cfs" "fs = cfs ! k" by (auto simp: in_set_conv_nth)
      then have "fits (cur ! k) fs" using Cons.prems(2) len by (auto simp: list_all2_conv_all_nth)
      moreover have "covers rw (cur ! k)" using Cons.prems(3) k len by (simp add: list_all_iff)
      ultimately show ?thesis using fss(2) False by (auto simp: rw intro: independent_new)
    qed
    have "list_all (sorted_wrt indep) (grouped (flags_of es ?rw) gss (cfs @ [gs]))"
    proof (rule Cons.IH [where cur = "cur @ [(rs, ws)]"])
      show "list_all2 fits es gss" by (rule fss(3))
      show "list_all2 fits (cur @ [(rs, ws)]) (cfs @ [gs])"
        using Cons.prems(2) fss(2) by (intro list_all2_appendI) auto
      show "list_all (covers ?rw) (cur @ [(rs, ws)])"
        using Cons.prems(3) by (auto simp: covers_def rw list_all_iff)
      show "sorted_wrt indep (cfs @ [gs])"
        using Cons.prems(4) ind by (simp add: sorted_wrt_append)
    qed
    then show ?thesis using False by (simp add: e rw fss barrier_flag_def)
  qed
qed

lemma run_groups:
  assumes "list_all2 interleaving gss ts" and "list_all (sorted_wrt indep) gss"
  shows "run_steps (concat ts) m = run_steps (concat (concat gss)) m"
  using assms
proof (induction arbitrary: m rule: list_all2_induct)
  case Nil
  then show ?case by simp
next
  case (Cons gs gss t ts)
  then show ?case using interleaving_sequential [of gs t m] by simp
qed

text \<open>
  Every run of the daemon's command buffer that its barriers permit has the effect of the stages one
  after another, when the flags come from \<open>barrier_flag\<close> on ranges the stages keep to.
\<close>

lemma tracked_run:
  assumes run: "device_run (cmd_buffer3 fl sh h sts) fss t" and fl: "even fl"
    and live: "list_all (\<lambda>st. slot_get sh (t_sh st) \<noteq> None) sts"
    and flags: "map t_flags sts = flags_of es ([], [])" and fit: "list_all2 fits es fss"
  shows "run_steps t m = run_steps (concat fss) m"
proof (cases es)
  case Nil
  then have "sts = []" "fss = []" using flags fit by auto
  then have "segments (cmd_buffer3 fl sh h sts) fss [] = [[]]"
    by (simp add: cmd_buffer3_def host_to_shader_def shader_to_host_def is_dispatch_def compute_barrier_def)
  then show ?thesis
    using run \<open>fss = []\<close> by (auto simp: device_run_def list_all2_Cons1 interleaving_Nil)
next
  case (Cons e es1)
  obtain rs ws where e: "e = (rs, ws)" by (cases e)
  have nb: "\<not> need_barrier rs ws [] []" by (auto simp: need_barrier_def ov_def list_ex_iff)
  obtain gs gss where fss: "fss = gs # gss" "fits (rs, ws) gs" "list_all2 fits es1 gss"
    using fit Cons e by (auto simp: list_all2_Cons1)
  obtain st sts1 where sts: "sts = st # sts1" "map t_flags sts1 = flags_of es1 (rs @ ws, ws)"
    using flags Cons e nb by (cases sts) (auto simp: barrier_flag_def)
  have len: "length gss = length sts1"
    using list_all2_lengthD [OF fss(3)] arg_cong [OF sts(2), of length] by simp
  define gr where "gr = grouped (flags_of es1 (rs @ ws, ws)) gss [gs]"
  have "segments (cmd_buffer3 fl sh h sts) fss [] = gr"
    using segments_cmd_buffer3 [OF fl, of sh st sts1 gss h gs] live len
    by (simp add: sts fss(1) gr_def)
  then obtain ts where ts: "list_all2 interleaving gr ts" "t = concat ts"
    using run by (auto simp: device_run_def)
  have "list_all (sorted_wrt indep) gr"
    unfolding gr_def using fss by (intro grouped_independent [where cur = "[(rs, ws)]"]) (auto simp: covers_def)
  then have "run_steps t m = run_steps (concat (concat gr)) m"
    using run_groups [OF ts(1)] ts(2) by simp
  moreover have "concat gr = fss"
    using list_all2_lengthD [OF fss(3)] by (simp add: gr_def concat_grouped fss(1))
  ultimately show ?thesis by simp
qed

end
