(* ===== verification/Ggml_Batches.thy ===== *)
theory Ggml_Batches
  imports Ggml_Inv Ggml_Barriers
begin

text \<open>
  The batches a graph computation of src/src/ggml-gpud/ggml-gpud.cpp sends: their barriers, their
  stages, their size and their predicted time. Each property is an invariant of the encoder, shown
  by interpreting \<open>graph_inv\<close> on it.
\<close>

section \<open>Barriers\<close>

definition batch_tracked :: "cstage3 list \<Rightarrow> gop_trace list \<Rightarrow> bool" where
  "batch_tracked st ops \<longleftrightarrow> map g3_flags st = flags_of (map snd ops) ([], [])"

definition log_all :: "(cstage3 list \<Rightarrow> gop_trace list \<Rightarrow> rat \<Rightarrow> bool) \<Rightarrow> gev list \<Rightarrow> bool" where
  "log_all Q l \<longleftrightarrow> list_all (\<lambda>e. case e of GBatch st ops x r \<Rightarrow> Q st ops x | GCpu p \<Rightarrow> True) l"

lemma log_all_simps [simp]:
  "log_all Q []" "log_all Q (l @ l') \<longleftrightarrow> log_all Q l \<and> log_all Q l'"
  "log_all Q [GBatch st ops x r] \<longleftrightarrow> Q st ops x" "log_all Q [GCpu p]"
  by (simp_all add: log_all_def)

lemma log_allD: "log_all Q l \<Longrightarrow> GBatch st ops x r \<in> set l \<Longrightarrow> Q st ops x"
  unfolding log_all_def list_all_iff by fastforce

definition tracked :: "est \<Rightarrow> bool" where
  "tracked s \<longleftrightarrow>
     batch_tracked (en_st s) (en_ops s) \<and>
     (en_rd s, en_wr s) = track (map snd (en_ops s)) ([], []) \<and>
     log_all (\<lambda>st ops x. batch_tracked st ops) (cx_log s)"

lemma tracked_flush: "tracked s \<Longrightarrow> tracked (snd (en_flush G s))"
proof -
  assume t: "tracked s"
  obtain r s' where f: "en_flush G s = (r, s')" by (metis surj_pair)
  from f show ?thesis
    by (cases rule: en_flush_cases) (use t f in \<open>auto simp: tracked_def en_reset_def batch_tracked_def\<close>)
qed

lemma tracked_emit: "tracked s \<Longrightarrow> tracked (en_emit G x gx gy gz bs pc rs ws s)"
proof -
  assume t: "tracked s"
  obtain fl rl wl where b: "barrier_flag rs ws (en_rd s, en_wr s) = (fl, rl, wl)" by (metis surj_pair)
  then have "barrier_flag rs ws (track (map snd (en_ops s)) ([], [])) = (fl, rl, wl)"
    using t by (simp add: tracked_def)
  then show ?thesis
    using t b by (simp add: tracked_def batch_tracked_def en_emit_def Let_def flags_of_append track_append)
qed

interpretation tr: graph_inv G tracked for G :: ggml
proof unfold_locales
  show "tracked s \<Longrightarrow> tracked (snd (gpud_scratch_ensure G n s))" for s n
    using scratch_keeps [of G n s] by (cases "gpud_scratch_ensure G n s") (simp add: tracked_def)
qed (auto intro: tracked_flush tracked_emit simp: node_on_cpu_def, auto simp: tracked_def)

text \<open>What a graph computation starts from.\<close>

definition graph_start :: "ggml \<Rightarrow> nat list \<Rightarrow> est \<Rightarrow> est" where
  "graph_start G cg s = (hand_over G cg (en_reset s))\<lparr>cx_qx := None\<rparr>"

lemma hand_over_keeps:
  assumes "\<And>u zs ow. f (u\<lparr>g_zs := zs, g_own := ow\<rparr>) = f u"
  shows "f (hand_over G cg s) = f s"
proof -
  have "f (gpud_to_gpu c u) = f u" for c u
    using assms [where u = u and zs = "cpu_end c (g_zs u)" and ow = "(g_own u)(c := True)"]
    by (simp add: gpud_to_gpu_def zc_end_def)
  then have "f (fold gpud_to_gpu cs u) = f u" for cs u
    by (induction cs arbitrary: u) simp_all
  then show ?thesis by (simp add: hand_over_def)
qed

lemma start_simps [simp]:
  "en_st (graph_start G cg s) = []" "en_ops (graph_start G cg s) = []" "en_rd (graph_start G cg s) = []"
  "en_wr (graph_start G cg s) = []" "en_nbd (graph_start G cg s) = 0" "en_pred (graph_start G cg s) = 0"
  "en_wgs (graph_start G cg s) = 0" "cx_log (graph_start G cg s) = cx_log s"
  "g_maxstage (graph_start G cg s) = g_maxstage s" "g_fixed (graph_start G cg s) = g_fixed s"
  "g_budget (graph_start G cg s) = g_budget s" "g_est (graph_start G cg s) = g_est s"
  "g_sh (graph_start G cg s) = g_sh s" "en_ub (graph_start G cg s) = en_ub s"
  "cx_qx (graph_start G cg s) = None" "g_scr_map (graph_start G cg s) = g_scr_map s"
  by (simp_all add: graph_start_def hand_over_keeps [where f = en_st] hand_over_keeps [where f = en_ops]
      hand_over_keeps [where f = en_rd] hand_over_keeps [where f = en_wr] hand_over_keeps [where f = en_nbd]
      hand_over_keeps [where f = en_pred] hand_over_keeps [where f = en_wgs] hand_over_keeps [where f = cx_log]
      hand_over_keeps [where f = g_maxstage] hand_over_keeps [where f = g_fixed]
      hand_over_keeps [where f = g_budget] hand_over_keeps [where f = g_est]
      hand_over_keeps [where f = g_sh] hand_over_keeps [where f = en_ub]
      hand_over_keeps [where f = g_scr_map] en_reset_def)

lemma start_size [simp]: "cb_size (g_zs (graph_start G cg s) c) = cb_size (g_zs s c)"
proof -
  have "cb_size (g_zs (gpud_to_gpu d u) c) = cb_size (g_zs u c)" for d and u :: est
    by (simp add: gpud_to_gpu_def zc_end_def cpu_end_def)
  then have "cb_size (g_zs (fold gpud_to_gpu ds u) c) = cb_size (g_zs u c)" for ds and u :: est
    by (induction ds arbitrary: u) simp_all
  then show ?thesis by (simp add: graph_start_def hand_over_def en_reset_def)
qed

lemma compute_start: "gpud_graph_compute G cg s = graph_loop G cg 0 (graph_start G cg s)"
  by (simp add: gpud_graph_compute_def graph_start_def)

lemma compute_tracked:
  assumes "gpud_graph_compute G cg s = (r, s')" "cx_log s = []"
  shows "log_all (\<lambda>st ops x. batch_tracked st ops) (cx_log s')"
proof -
  have "tracked (graph_start G cg s)" using assms(2) by (simp add: tracked_def batch_tracked_def)
  from tr.loop [OF this, of G cg 0] assms(1) show ?thesis by (simp add: compute_start tracked_def)
qed

section \<open>Shapes\<close>

text \<open>
  A stage as it is sent: the handle of its shader, bindings and push constants as loaded, every
  binding inside of its buffer.
\<close>

definition stage_shaped :: "ggml \<Rightarrow> (shader \<Rightarrow> int) \<Rightarrow> store \<Rightarrow> gop_trace \<Rightarrow> cstage3 \<Rightarrow> bool" where
  "stage_shaped G h zs op st \<longleftrightarrow>
     g3_sh st = h (fst op) \<and> length (g3_binds st) = sd_nbind (g_shaders (fst op)) \<and>
     g3_pcsize st = sd_pcsize (g_shaders (fst op)) \<and>
     (case g3_pc st of None \<Rightarrow> False | Some pc \<Rightarrow> length pc = sd_pcsize (g_shaders (fst op))) \<and>
     list_all (bind_ok G zs) (g3_binds st)"

text \<open>Sizes of buffers do not change during a graph, except that of the scratch.\<close>

definition sizes_kept :: "store \<Rightarrow> store \<Rightarrow> bool" where
  "sizes_kept zs zs' \<longleftrightarrow> (\<forall>c. c \<noteq> SCR \<longrightarrow> cb_size (zs' c) = cb_size (zs c))"

definition batch_shaped ::
  "ggml \<Rightarrow> (shader \<Rightarrow> int) \<Rightarrow> store \<Rightarrow> cstage3 list \<Rightarrow> gop_trace list \<Rightarrow> bool" where
  "batch_shaped G h zs0 st ops \<longleftrightarrow>
     (\<exists>zs. sizes_kept zs0 zs \<and> list_all2 (stage_shaped G h zs) ops st)"

definition shaped :: "ggml \<Rightarrow> (shader \<Rightarrow> int) \<Rightarrow> store \<Rightarrow> est \<Rightarrow> bool" where
  "shaped G h zs0 s \<longleftrightarrow>
     g_sh s = h \<and> sizes_kept zs0 (g_zs s) \<and> list_all2 (stage_shaped G h (g_zs s)) (en_ops s) (en_st s) \<and>
     log_all (\<lambda>st ops x. batch_shaped G h zs0 st ops) (cx_log s)"

lemma shaped_flush: "shaped G h zs0 s \<Longrightarrow> shaped G h zs0 (snd (en_flush G s))"
proof -
  assume t: "shaped G h zs0 s"
  obtain r s' where f: "en_flush G s = (r, s')" by (metis surj_pair)
  have k: "bal (g_zs s) zs \<Longrightarrow> sizes_kept zs0 zs" for zs
    using t by (auto simp: shaped_def sizes_kept_def bal_def)
  have b: "batch_shaped G h zs0 (en_st s) (en_ops s)" using t by (auto simp: shaped_def batch_shaped_def)
  from f show ?thesis
    by (cases rule: en_flush_cases) (use t f k b in \<open>auto simp: shaped_def en_reset_def\<close>)
qed

lemma emit_fields [simp]:
  "g_zs (en_emit G x gx gy gz bs pc rs ws s) = g_zs s"
  "g_sh (en_emit G x gx gy gz bs pc rs ws s) = g_sh s"
  "g_maxstage (en_emit G x gx gy gz bs pc rs ws s) = g_maxstage s"
  "g_fixed (en_emit G x gx gy gz bs pc rs ws s) = g_fixed s"
  "g_budget (en_emit G x gx gy gz bs pc rs ws s) = g_budget s"
  "g_est (en_emit G x gx gy gz bs pc rs ws s) = g_est s"
  "g_scr_map (en_emit G x gx gy gz bs pc rs ws s) = g_scr_map s"
  "cx_log (en_emit G x gx gy gz bs pc rs ws s) = cx_log s"
  "cx_qx (en_emit G x gx gy gz bs pc rs ws s) = cx_qx s"
  "en_ub (en_emit G x gx gy gz bs pc rs ws s) = en_ub s"
  "en_ops (en_emit G x gx gy gz bs pc rs ws s) = en_ops s @ [(x, rs, ws)]"
  by (simp_all add: en_emit_def Let_def split: prod.splits)

lemma emit_stage:
  "\<exists>fl. en_st (en_emit G x gx gy gz bs pc rs ws s) = en_st s @
     [\<lparr>g3_sh = g_sh s x, g3_gx = gx, g3_gy = gy, g3_gz = gz, g3_binds = bs,
       g3_pc = Some (put32s pc), g3_pcsize = 4 * length pc, g3_flags = fl\<rparr>]"
  by (simp add: en_emit_def Let_def split: prod.splits)

lemma shaped_emit:
  assumes t: "shaped G h zs0 s" and e: "emit_ok G (g_zs s) x bs pc"
  shows "shaped G h zs0 (en_emit G x gx gy gz bs pc rs ws s)"
proof -
  obtain fl where st: "en_st (en_emit G x gx gy gz bs pc rs ws s) = en_st s @
     [\<lparr>g3_sh = g_sh s x, g3_gx = gx, g3_gy = gy, g3_gz = gz, g3_binds = bs,
       g3_pc = Some (put32s pc), g3_pcsize = 4 * length pc, g3_flags = fl\<rparr>]"
    using emit_stage by blast
  have "list_all2 (stage_shaped G h (g_zs s)) (en_ops s @ [(x, rs, ws)])
      (en_st (en_emit G x gx gy gz bs pc rs ws s))"
    unfolding st using t e
    by (intro list_all2_appendI) (auto simp: shaped_def stage_shaped_def emit_ok_def)
  then show ?thesis using t by (simp add: shaped_def)
qed

lemma sizes_kept_refl [simp]: "sizes_kept zs zs"
  by (simp add: sizes_kept_def)

lemma sizes_kept_trans: "sizes_kept a b \<Longrightarrow> sizes_kept b c \<Longrightarrow> sizes_kept a c"
  by (auto simp: sizes_kept_def)

lemma bal_sizes: "bal a b \<Longrightarrow> sizes_kept a b"
  by (auto simp: bal_def sizes_kept_def)

lemma zc_sizes:
  "sizes_kept (g_zs s) (g_zs (zc_free SCR s))"
  "zc_alloc G SCR n s = (r, s') \<Longrightarrow> sizes_kept (g_zs s) (g_zs s')"
  "g3_import p s = (r, s') \<Longrightarrow> sizes_kept (g_zs s) (g_zs s')"
  "sizes_kept (g_zs s) (g_zs (g3_release p s))"
proof -
  show "sizes_kept (g_zs s) (g_zs (zc_free SCR s))"
    by (simp add: zc_free_def sizes_kept_def barra_zc_free_def cpu_end_def Let_def)
  show "zc_alloc G SCR n s = (r, s') \<Longrightarrow> sizes_kept (g_zs s) (g_zs s')"
    by (auto simp: zc_alloc_def sizes_kept_def barra_zc_alloc_def cpu_begin_def
        split: prod.splits option.splits if_splits)
  show "g3_import p s = (r, s') \<Longrightarrow> sizes_kept (g_zs s) (g_zs s')"
    using import_bal'(2) [of "[p]" "(g_zs s, g_se s)"]
    by (auto simp: g3_import_def intro: bal_sizes split: prod.splits)
  show "sizes_kept (g_zs s) (g_zs (g3_release p s))"
    using do_release_bal [of "(g_zs s, g_se s)" CGpu GPZ3_MAGIC "[p]"]
    by (auto simp: g3_release_def barra_gpu3_release_def intro: bal_sizes split: prod.splits)
qed

lemma scratch_sizes:
  assumes "gpud_scratch_ensure G n s = (r, s')"
  shows "sizes_kept (g_zs s) (g_zs s')"
proof -
  let ?s1 = "if g_scr_ok s then (zc_free SCR (g3_release SCR s))\<lparr>g_scr_ok := False\<rparr> else s"
  have k1: "sizes_kept (g_zs s) (g_zs ?s1)"
    using sizes_kept_trans [OF zc_sizes(4) [of s SCR] zc_sizes(1) [of "g3_release SCR s"]] by simp
  show ?thesis
  proof (cases "g_scr_ok s \<and> n \<le> g_scr_sz s")
    case True
    then show ?thesis using assms by (auto simp: gpud_scratch_ensure_def)
  next
    case False
    obtain a s2 where al: "zc_alloc G SCR (round_mb n) ?s1 = (a, s2)" by (metis surj_pair)
    obtain b s3 where im: "g3_import SCR s2 = (b, s3)" by (metis surj_pair)
    have "sizes_kept (g_zs s) (g_zs s2)" by (rule sizes_kept_trans [OF k1 zc_sizes(2) [OF al]])
    moreover from this have "sizes_kept (g_zs s) (g_zs s3)"
      by (rule sizes_kept_trans [OF _ zc_sizes(3) [OF im]])
    moreover from this have "sizes_kept (g_zs s) (g_zs (zc_free SCR s3))"
      by (rule sizes_kept_trans [OF _ zc_sizes(1)])
    ultimately show ?thesis
      using assms False al im by (auto simp: gpud_scratch_ensure_def Let_def split: bool.splits)
  qed
qed

interpretation sp: graph_inv G "shaped G h zs0" for G :: ggml and h zs0
proof unfold_locales
  show "shaped G h zs0 s \<Longrightarrow> en_st s = [] \<Longrightarrow> shaped G h zs0 (snd (gpud_scratch_ensure G n s))" for s n
  proof -
    assume a: "shaped G h zs0 s" "en_st s = []"
    obtain r s' where e: "gpud_scratch_ensure G n s = (r, s')" by (metis surj_pair)
    show ?thesis
      using a scratch_keeps [OF e] sizes_kept_trans [OF _ scratch_sizes [OF e], of zs0]
      by (simp add: e shaped_def)
  qed
qed (auto intro: shaped_flush shaped_emit simp: node_on_cpu_def, auto simp: shaped_def)

section \<open>Limits\<close>

text \<open>
  The predicted time of a list of stages under an estimate, and the condition under which one more
  stage may be added.
\<close>

definition stage_wgs :: "cstage3 \<Rightarrow> nat" where
  "stage_wgs t = (g3_gx t * g3_gy t * g3_gz t) mod 2 ^ 64"

definition pred_of :: "ggml \<Rightarrow> rat \<Rightarrow> cstage3 list \<Rightarrow> rat" where
  "pred_of G x ts = fold (\<lambda>t p. gg_rnd G (p + gg_rnd G (gg_rnd G (of_nat (stage_wgs t)) * x))) ts 0"

definition may_add :: "ggml \<Rightarrow> est \<Rightarrow> rat \<Rightarrow> cstage3 list \<Rightarrow> bool" where
  "may_add G s0 x ts \<longleftrightarrow>
     int (length ts) < g_maxstage s0 \<and>
     (g_fixed s0 \<or> (if x \<le> 0 then length ts < 64 else ts = [] \<or> pred_of G x ts < g_budget s0))"

definition batch_limited :: "ggml \<Rightarrow> est \<Rightarrow> rat \<Rightarrow> cstage3 list \<Rightarrow> bool" where
  "batch_limited G s0 x ts \<longleftrightarrow>
     ts \<noteq> [] \<and> may_add G s0 x (butlast ts) \<and>
     sum_list (map (\<lambda>t. length (g3_binds t)) ts) \<le> 4 * GPUD_MAX_STAGE"

definition limited :: "ggml \<Rightarrow> est \<Rightarrow> est \<Rightarrow> bool" where
  "limited G s0 s \<longleftrightarrow>
     g_maxstage s = g_maxstage s0 \<and> g_fixed s = g_fixed s0 \<and> g_budget s = g_budget s0 \<and>
     en_nbd s = sum_list (map (\<lambda>t. length (g3_binds t)) (en_st s)) \<and>
     en_pred s = pred_of G (g_est s) (en_st s) \<and>
     (en_st s = [] \<or> batch_limited G s0 (g_est s) (en_st s)) \<and>
     log_all (\<lambda>st ops x. batch_limited G s0 x st) (cx_log s)"

lemma limited_flush: "limited G s0 s \<Longrightarrow> limited G s0 (snd (en_flush G s))"
proof -
  assume t: "limited G s0 s"
  obtain r s' where f: "en_flush G s = (r, s')" by (metis surj_pair)
  from f show ?thesis
    by (cases rule: en_flush_cases) (use t f in \<open>auto simp: limited_def en_reset_def pred_of_def\<close>)
qed

lemma limited_emit:
  assumes t: "limited G s0 s" and n: "\<not> en_full (length bs) s"
  shows "limited G s0 (en_emit G x gx gy gz bs pc rs ws s)"
proof -
  let ?s = "en_emit G x gx gy gz bs pc rs ws s"
  obtain fl where st: "en_st ?s = en_st s @
     [\<lparr>g3_sh = g_sh s x, g3_gx = gx, g3_gy = gy, g3_gz = gz, g3_binds = bs,
       g3_pc = Some (put32s pc), g3_pcsize = 4 * length pc, g3_flags = fl\<rparr>]"
    using emit_stage by blast
  have nbd: "en_nbd ?s = en_nbd s + length bs"
    and pred: "en_pred ?s = gg_rnd G (en_pred s + gg_rnd G (gg_rnd G (of_nat ((gx * gy * gz) mod 2 ^ 64)) * g_est s))"
    by (simp_all add: en_emit_def Let_def split: prod.splits)
  have "may_add G s0 (g_est s) (en_st s)"
    using n t by (auto simp: may_add_def limited_def en_full_def split: if_splits)
  moreover have "en_nbd s + length bs \<le> 4 * GPUD_MAX_STAGE"
    using n by (auto simp: en_full_def split: if_splits)
  moreover have "pred_of G (g_est s) (en_st ?s) = en_pred ?s"
    using t by (simp add: limited_def st pred pred_of_def stage_wgs_def)
  ultimately show ?thesis
    using t nbd by (simp add: limited_def batch_limited_def st)
qed

interpretation lm: graph_inv G "limited G s0" for G :: ggml and s0
proof unfold_locales
  show "limited G s0 s \<Longrightarrow> limited G s0 (snd (gpud_scratch_ensure G n s))" for s n
    using scratch_keeps [of G n s] by (cases "gpud_scratch_ensure G n s") (simp add: limited_def)
qed (auto intro: limited_flush limited_emit simp: node_on_cpu_def, auto simp: limited_def)

lemma compute_shaped:
  assumes "gpud_graph_compute G cg s = (r, s')" "cx_log s = []"
  shows "log_all (\<lambda>st ops x. batch_shaped G (g_sh s) (g_zs s) st ops) (cx_log s')"
proof -
  have "shaped G (g_sh s) (g_zs s) (graph_start G cg s)"
    using assms(2) by (simp add: shaped_def sizes_kept_def)
  from sp.loop [OF this, of cg 0] assms(1) show ?thesis by (simp add: compute_start shaped_def)
qed

lemma compute_limited:
  assumes "gpud_graph_compute G cg s = (r, s')" "cx_log s = []"
  shows "log_all (\<lambda>st ops x. batch_limited G s x st) (cx_log s')"
proof -
  have "limited G s (graph_start G cg s)" using assms(2) by (simp add: limited_def pred_of_def)
  from lm.loop [OF this, of cg 0] assms(1) show ?thesis by (simp add: compute_start limited_def)
qed

end
