(* ===== verification/Ggml_Device.thy ===== *)
theory Ggml_Device
  imports Ggml_Batches Gpudzc
begin

text \<open>
  The batches of src/src/ggml-gpud/ggml-gpud.cpp on the daemon: the bytes \<open>barra_gpu3_batch\<close> sends for
  a batch are a DISPATCH that gpud-zc accepts, and the command buffer it then submits computes what
  the stages compute one after another.
\<close>

section \<open>A dispatch of fitting stages\<close>

lemma read_stages3_ok:
  assumes "list_all (stage3_fits V fl sh h) sts" and "length sh \<le> MAXSH3" "length h \<le> MAXH"
    and "\<forall>k e. slot_get h k = Some e \<longrightarrow> hb_size e < 2 ^ 32"
    and "stream (cq c) = concat (map (enc_stage3 fl) sts) @ z" and "length is = length sts"
  shows "\<exists>c'. traverse (read_stage3 V fl sh h) is c = (Some sts, c') \<and> stream (cq c') = z \<and>
    co c' = co c \<and> croom c' = croom c"
  using assms
proof (induction sts arbitrary: "is" c)
  case Nil
  then show ?case by simp
next
  case (Cons st sts)
  obtain i js where "is": "is = i # js" "length js = length sts" using Cons.prems by (cases "is") auto
  obtain c1 where r: "read_stage3 V fl sh h i c = (Some st, c1)"
    and c1: "stream (cq c1) = concat (map (enc_stage3 fl) sts) @ z" "co c1 = co c" "croom c1 = croom c"
    using read_stage3_ok [of V fl sh h st c "concat (map (enc_stage3 fl) sts) @ z" i] Cons.prems by auto
  obtain c2 where "traverse (read_stage3 V fl sh h) js c1 = (Some sts, c2)"
    and c2: "stream (cq c2) = z" "co c2 = co c1" "croom c2 = croom c1"
    using Cons.IH [of c1 js] Cons.prems c1 "is" by auto
  with r "is" c1 c2 show ?case by simp
qed

lemma dispatch3_ok:
  assumes ok: "\<forall>k. vk_ok V k" and inv: "z3_inv V L F fds s"
    and n: "1 \<le> length sts" "length sts \<le> MAXSTAGE3"
    and fits: "list_all (stage3_fits V fl (z_sh s) (z_h s)) sts"
    and inp: "stream (cq (z_c s)) = concat (map (enc_stage3 fl) sts) @ z" and out: "4 \<le> croom (z_c s)"
    and sizes: "\<forall>k e. slot_get (z_h s) k = Some e \<longrightarrow> hb_size e < 2 ^ 32"
  shows "let s' = z3_dispatch V fl (length sts) s in
    co (z_c s') = co (z_c s) @ status_ok \<and> stream (cq (z_c s')) = z \<and>
    w_subs (z_w s') = w_subs (z_w s) @ [cmd_buffer3 (z_flags s) (z_sh s) (z_h s) sts]"
proof -
  have lens: "length (z_sh s) \<le> MAXSH3" "length (z_h s) \<le> MAXH"
    using inv by (simp_all add: z3_inv_def z_inv_def owns_def)
  obtain c1 where t: "traverse (read_stage3 V fl (z_sh s) (z_h s)) [0..<length sts] (z_c s) = (Some sts, c1)"
    and c1: "stream (cq c1) = z" "co c1 = co (z_c s)" "croom c1 = croom (z_c s)"
    using read_stages3_ok [OF fits lens sizes inp, of "[0..<length sts]"] by auto
  obtain dp1 w1 where r: "run_stages3 (vk_ok V) (z_dp s) (z_sh s) (z_h s) sts (z_flags s) (z_w s) =
      (True, dp1, w1)" using run_stages3_total [OF ok] by blast
  have "w_live (z_w s) = (L + slot_sum s3_objs (z_sh s) + slot_sum hb_objs (z_h s) +
      slot_sum pent_objs (pc_ents (z_pc s))) + dp_objs (z_dp s)"
    using inv ok by (auto simp: z3_inv_def z3_objs_def z_inv_def owns_def ac_simps)
  from run_stages3_acct [OF r this]
  have subs: "w_subs w1 = w_subs (z_w s) @ [cmd_buffer3 (z_flags s) (z_sh s) (z_h s) sts]" by simp
  have s': "z3_dispatch V fl (length sts) s =
      z_put status_ok (s\<lparr>z_c := c1, z_dp := dp1, z_w := w1, z_ndisp := Suc (z_ndisp s)\<rparr>)"
    using n by (simp add: z3_dispatch_def t r)
  then show ?thesis
    using c1 subs out by (simp add: Let_def put_room status_ok_def)
qed

section \<open>A batch as the daemon reads it\<close>

definition dev_bind :: "store \<Rightarrow> cbind3 \<Rightarrow> nat \<times> nat \<times> nat" where
  "dev_bind zs b = (u32of (cb_gpu (zs (the (bi_buf b)))), bi_off b, bi_range b)"

definition dev_stage :: "store \<Rightarrow> cstage3 \<Rightarrow> stage3" where
  "dev_stage zs t =
     \<lparr>t_sh = u32of (g3_sh t), t_gx = g3_gx t, t_gy = g3_gy t, t_gz = g3_gz t, t_flags = g3_flags t,
      t_binds = map (dev_bind zs) (g3_binds t),
      t_pc = (if g3_pcsize t = 0 then [] else take (g3_pcsize t) (the (g3_pc t)))\<rparr>"

lemma dev_stage_bytes:
  assumes "stage_shaped G h zs' op t"
  shows "enc_stage3 True (dev_stage zs t) = stage3_bytes zs t"
proof -
  have l: "length (take (g3_pcsize t) (the (g3_pc t))) = g3_pcsize t"
    using assms by (auto simp: stage_shaped_def split: option.splits)
  have b: "concat (map bind_words (map (dev_bind zs) bs)) = concat (map (bind3_words zs) bs)" for bs
    by (induction bs) (simp_all add: bind_words_def dev_bind_def bind3_words_def)
  have "length (t_pc (dev_stage zs t)) = g3_pcsize t" using l by (simp add: dev_stage_def)
  then show ?thesis using b by (simp add: enc_stage3_def stage3_bytes_def dev_stage_def)
qed

text \<open>What the client takes for granted about the daemon: its shaders are loaded and its buffers live.\<close>

definition shaders_loaded :: "(shader \<Rightarrow> int) \<Rightarrow> zsess3 \<Rightarrow> bool" where
  "shaders_loaded h d \<longleftrightarrow>
     list_all (\<lambda>x. case slot_get (z_sh d) (u32of (h x)) of None \<Rightarrow> False
       | Some e \<Rightarrow> s3_nbind e = sd_nbind (g_shaders x) \<and> s3_pcsize e = sd_pcsize (g_shaders x)) all_shaders"

definition buffers_held :: "store \<Rightarrow> store \<Rightarrow> cstage3 list \<Rightarrow> zsess3 \<Rightarrow> bool" where
  "buffers_held zs0 zs st d \<longleftrightarrow>
     list_all (\<lambda>t. list_all (\<lambda>b. case bi_buf b of None \<Rightarrow> False
       | Some c \<Rightarrow> (case slot_get (z_h d) (u32of (cb_gpu (zs c))) of None \<Rightarrow> False
           | Some e \<Rightarrow> c = SCR \<or> hb_size e = cb_size (zs0 c))) (g3_binds t)) st"

lemma all_shaders_all [simp]: "x \<in> set all_shaders"
  by (cases x) (simp_all add: all_shaders_def)

lemma shader_bounds: "sd_nbind (g_shaders x) \<le> MAXBUF" "sd_pcsize (g_shaders x) \<le> MAXPC3"
  by (cases x; simp add: sdef_def MAXBUF_def MAXPC3_def)+

lemma flags_of_bit: "fl \<in> set (flags_of es rw) \<Longrightarrow> fl \<le> 1"
  by (induction es rw rule: flags_of.induct) (auto simp: barrier_flag_def Let_def split: prod.splits if_splits)

lemma stage_fits_device:
  assumes sh: "stage_shaped G h zs' op t" and kept: "sizes_kept zs0 zs'"
    and scr: "\<forall>p. tn_buf (gg_t G p) \<noteq> Some SCR"
    and d: "shaders_loaded h d" "buffers_held zs0 zs [t] d"
    and g: "g3_gx t \<le> MAXGRP" "g3_gy t \<le> MAXGRP" "g3_gz t \<le> MAXGRP" and fl: "g3_flags t \<le> 1"
    and al: "64 mod sbo_align V = 0"
  shows "stage3_fits V True (z_sh d) (z_h d) (dev_stage zs t)"
proof -
  have S: "g3_sh t = h (fst op)" "length (g3_binds t) = sd_nbind (g_shaders (fst op))"
    "g3_pcsize t = sd_pcsize (g_shaders (fst op))"
    "list_all (bind_ok G zs') (g3_binds t)"
    "length (take (g3_pcsize t) (the (g3_pc t))) = g3_pcsize t"
    using sh by (auto simp: stage_shaped_def split: option.splits)
  obtain e where e: "slot_get (z_sh d) (u32of (h (fst op))) = Some e"
    "s3_nbind e = sd_nbind (g_shaders (fst op))" "s3_pcsize e = sd_pcsize (g_shaders (fst op))"
    using d(1) all_shaders_all [of "fst op"]
    by (fastforce simp: shaders_loaded_def list_all_iff split: option.splits)
  have "\<exists>e. slot_get (z_h d) k = Some e \<and> off \<le> hb_size e \<and> off mod sbo_align V = 0 \<and> off + rg \<le> hb_size e"
    if kx: "(k, off, rg) \<in> set (map (dev_bind zs) (g3_binds t))" for k off rg
  proof -
    obtain b where b: "b \<in> set (g3_binds t)" "k = u32of (cb_gpu (zs (the (bi_buf b))))"
      "off = bi_off b" "rg = bi_range b" using kx by (auto simp: dev_bind_def)
    have ok: "bind_ok G zs' b" using S(4) b(1) by (simp add: list_all_iff)
    obtain c e where c: "bi_buf b = Some c" "slot_get (z_h d) k = Some e" "c = SCR \<or> hb_size e = cb_size (zs0 c)"
      using d(2) b by (fastforce simp: buffers_held_def list_all_iff split: option.splits)
    have o: "rg = 0" "off mod 64 = 0" "off = 0 \<or> off < cb_size (zs' c) \<and> (\<exists>p. tn_buf (gg_t G p) = Some c)"
      using ok b c(1) by (auto simp: bind_ok_def GPUD_ALIGN_def)
    have "off mod sbo_align V = 0"
      using o(2) al by (metis mod_0_imp_dvd dvd_trans mod_eq_0_iff_dvd)
    moreover have "off \<le> hb_size e"
    proof (cases "off = 0")
      case False
      then have "c \<noteq> SCR" "off < cb_size (zs' c)" using o(3) scr by auto
      then show ?thesis using kept c(3) by (auto simp: sizes_kept_def)
    qed simp
    ultimately show ?thesis using c(2) o(1) by auto
  qed
  then have b: "list_all (\<lambda>(k, off, rg). \<exists>e. slot_get (z_h d) k = Some e \<and> off \<le> hb_size e \<and>
      off mod sbo_align V = 0 \<and> off + rg \<le> hb_size e) (map (dev_bind zs) (g3_binds t))"
    unfolding list_all_iff by blast
  have p: "length (t_pc (dev_stage zs t)) = g3_pcsize t" using S(5) by (simp add: dev_stage_def)
  show ?thesis
    unfolding stage3_fits_def
    using b p e S(1,2,3) g fl shader_bounds [of "fst op"] by (simp add: dev_stage_def)
qed

text \<open>
  A batch of the log, sent to a session with the shaders and buffers it names. The daemon answers
  with status 0, and what it submits has, for every order its barriers permit, the effect of the
  stages in the order they were encoded.
\<close>

definition dev_ready ::
  "ggml \<Rightarrow> vkdev \<Rightarrow> store \<Rightarrow> store \<Rightarrow> (shader \<Rightarrow> int) \<Rightarrow> cstage3 list \<Rightarrow> byte list \<Rightarrow> zsess3 \<Rightarrow> bool" where
  "dev_ready G V zs0 zs h st z d \<longleftrightarrow>
     shaders_loaded h d \<and> buffers_held zs0 zs st d \<and> 64 mod sbo_align V = 0 \<and> even (z_flags d) \<and>
     list_all (\<lambda>t. g3_gx t \<le> MAXGRP \<and> g3_gy t \<le> MAXGRP \<and> g3_gz t \<le> MAXGRP) st \<and>
     stream (cq (z_c d)) = concat (map (stage3_bytes zs) st) @ z \<and> 4 \<le> croom (z_c d) \<and>
     list_all (\<lambda>e. case e of None \<Rightarrow> True | Some e \<Rightarrow> hb_size e < 2 ^ 32) (z_h d)"

lemma slot_sizes: "list_all (\<lambda>e. case e of None \<Rightarrow> True | Some e \<Rightarrow> hb_size e < 2 ^ 32) t \<Longrightarrow>
    \<forall>k e. slot_get t k = Some e \<longrightarrow> hb_size e < 2 ^ 32"
  by (fastforce simp: slot_get_def list_all_length split: if_splits)

lemma batch_on_device:
  assumes ok: "\<forall>k. vk_ok V k" and inv: "z3_inv V L F fds d"
    and tr: "batch_tracked st ops" and sp: "batch_shaped G h zs0 st ops"
    and n: "1 \<le> length st" "length st \<le> 4096"
    and scr: "\<forall>p. tn_buf (gg_t G p) \<noteq> Some SCR" and rdy: "dev_ready G V zs0 zs h st z d"
  shows "let d' = z3_dispatch V True (length st) d;
      cb = cmd_buffer3 (z_flags d) (z_sh d) (z_h d) (map (dev_stage zs) st) in
    co (z_c d') = co (z_c d) @ status_ok \<and> stream (cq (z_c d')) = z \<and>
    w_subs (z_w d') = w_subs (z_w d) @ [cb] \<and>
    (\<forall>fss t m. device_run cb fss t \<and> list_all2 fits (map snd ops) fss \<longrightarrow>
       run_steps t m = run_steps (concat fss) m)"
proof -
  obtain zs' where z': "sizes_kept zs0 zs'" "list_all2 (stage_shaped G h zs') ops st"
    using sp by (auto simp: batch_shaped_def)
  have R: "shaders_loaded h d" "buffers_held zs0 zs st d" "64 mod sbo_align V = 0" "even (z_flags d)"
    "list_all (\<lambda>t. g3_gx t \<le> MAXGRP \<and> g3_gy t \<le> MAXGRP \<and> g3_gz t \<le> MAXGRP) st"
    "stream (cq (z_c d)) = concat (map (stage3_bytes zs) st) @ z" "4 \<le> croom (z_c d)"
    "\<forall>k e. slot_get (z_h d) k = Some e \<longrightarrow> hb_size e < 2 ^ 32"
    using rdy slot_sizes by (auto simp: dev_ready_def)
  have shp: "\<exists>op. stage_shaped G h zs' op t" if "t \<in> set st" for t
    using z'(2) that by (metis in_set_conv_nth list_all2_conv_all_nth)
  have fl: "g3_flags t \<le> 1" if "t \<in> set st" for t
  proof -
    have "g3_flags t \<in> set (map g3_flags st)" using that by simp
    then show ?thesis using tr flags_of_bit by (metis batch_tracked_def)
  qed
  have fit: "list_all (stage3_fits V True (z_sh d) (z_h d)) (map (dev_stage zs) st)"
    unfolding list_all_iff
  proof
    fix u assume "u \<in> set (map (dev_stage zs) st)"
    then obtain t where t: "t \<in> set st" "u = dev_stage zs t" by auto
    obtain op where op: "stage_shaped G h zs' op t" using shp t(1) by blast
    have "buffers_held zs0 zs [t] d" using R(2) t(1) by (simp add: buffers_held_def list_all_iff)
    with stage_fits_device [OF op z'(1) scr R(1) this _ _ _ fl [OF t(1)] R(3)] R(5) t
    show "stage3_fits V True (z_sh d) (z_h d) u" by (simp add: list_all_iff)
  qed
  have bytes: "map (enc_stage3 True) (map (dev_stage zs) st) = map (stage3_bytes zs) st"
    using shp dev_stage_bytes by (simp add: o_def) blast
  note D = dispatch3_ok [OF ok inv _ _ fit _ R(7,8), of z, unfolded length_map bytes MAXSTAGE3_def,
      OF n R(6)]
  have "run_steps t m = run_steps (concat fss) m"
    if "device_run (cmd_buffer3 (z_flags d) (z_sh d) (z_h d) (map (dev_stage zs) st)) fss t"
      "list_all2 fits (map snd ops) fss" for fss t m
  proof (rule tracked_run [OF that(1) R(4) _ _ that(2)])
    show "list_all (\<lambda>st. slot_get (z_sh d) (t_sh st) \<noteq> None) (map (dev_stage zs) st)"
      using fit unfolding list_all_iff stage3_fits_def by (fastforce split: option.splits)
    show "map t_flags (map (dev_stage zs) st) = flags_of (map snd ops) ([], [])"
      using tr by (simp add: batch_tracked_def dev_stage_def o_def)
  qed
  with D show ?thesis unfolding Let_def by blast
qed

end
