(* ===== verification/Ggml_Example.thy ===== *)
theory Ggml_Example
  imports Ggml_Device
begin

text \<open>
  A small backend state and small graphs over one buffer, on which the properties of
  src/src/ggml-gpud/ggml-gpud.cpp are applied.
\<close>

text \<open>Tensors of four floats at offsets 0, 64, 128, 192 of buffer 2, which is mapped at 4096.\<close>

definition tensor0 :: "gop \<Rightarrow> nat \<Rightarrow> nat option list \<Rightarrow> tensor" where
  "tensor0 p k srcs =
     \<lparr>tn_op = p, tn_type = TF32, tn_ne = (\<lambda>i. if i = 0 then 4 else 1),
      tn_nb = (\<lambda>i. if i = 0 then 4 else 16),
      tn_src = (\<lambda>i. if i < length srcs then srcs ! i else None),
      tn_data = 4096 + 64 * k, tn_buf = Some 2\<rparr>"

text \<open>
  Tensor 1 is the ReLU of tensor 0, tensor 2 their sum, tensor 3 of an operation without a shader.
\<close>

definition ggml0 :: ggml where
  "ggml0 =
     \<lparr>gg_t = (\<lambda>p. if p = 1 then tensor0 OpUnary 1 [Some 0] else if p = 2 then tensor0 OpAdd 2 [Some 0, Some 1]
               else if p = 3 then tensor0 (OpOther 0) 3 [Some 2] else tensor0 OpNone 0 []),
      gg_nbytes = (\<lambda>_. 16), gg_nelements = (\<lambda>_. 4), gg_nrows = (\<lambda>_. 1), gg_contig = (\<lambda>_. True),
      gg_contig_rows = (\<lambda>_. True), gg_empty = (\<lambda>_. False), gg_can_repeat = (\<lambda>_ _. True),
      gg_tsize = (\<lambda>_. 4), gg_bsize = (\<lambda>_. 1), gg_pi = (\<lambda>_ _. 0), gg_pf = (\<lambda>_ _. 0),
      gg_uop = (\<lambda>_. URelu), gg_glop = (\<lambda>_. GReglu), gg_uses = (\<lambda>_. 1), gg_max_src = 2,
      gg_buft = (\<lambda>_. BtGpud), gg_base = (\<lambda>_. 4096), gg_spv = (\<lambda>_. [0]), gg_fdiv = (\<lambda>a _. a),
      gg_fofint = nat, gg_powf = (\<lambda>a _. a), gg_rnd = (\<lambda>x. x), gg_dt = (\<lambda>_. 1), gg_heap = Some,
      gg_mmap = (\<lambda>_. True), gg_addr = (\<lambda>_. 0), gg_malloc = (\<lambda>_. (True, True)), ev_maxstage = None,
      ev_budget = None, ev_nobar = False, ev_noiq6 = False, ev_noiq = False, ev_nogemv = False,
      ev_fa = False\<rparr>"

definition zbuf0 :: cbuf where
  "zbuf0 = \<lparr>cb_fd = Some 3, cb_map = True, cb_size = 4096, cb_gpu = 0, cb_tpu = -1, cb_dsp = -1, cb_cpu = 1\<rparr>"

text \<open>An open session whose socket has the given answers.\<close>

definition gst0 :: "byte list \<Rightarrow> gst" where
  "gst0 answers =
     (gpud_session0 \<lparr>cw_env = None, cw_net = (\<lambda>_ _. None), cw_n = 0, cw_done = []\<rparr>
        (\<lambda>_. zbuf0) (\<lambda>_ _. 0))
     \<lparr>g_open := True, g_se := \<lparr>ss_sock = Some \<lparr>k_in = answers, k_out = [], k_room = 10000\<rparr>, ss_n = 0, ss_auto = False\<rparr>,
      g_sh := (\<lambda>x. int (sh_index x))\<rparr>"

definition est0 :: "byte list \<Rightarrow> est" where
  "est0 answers = gst.extend (gst0 answers)
     (est.fields [] 0 [] 0 0 [] [] False None 0 0 0 [])"



lemma ggml0_sel [simp]:
  "gg_t ggml0 0 = tensor0 OpNone 0 []" "gg_t ggml0 (Suc 0) = tensor0 OpUnary 1 [Some 0]"
  "gg_t ggml0 2 = tensor0 OpAdd 2 [Some 0, Some 1]" "gg_t ggml0 3 = tensor0 (OpOther 0) 3 [Some 2]"
  "gg_nbytes ggml0 t = 16" "gg_nelements ggml0 t = 4" "gg_nrows ggml0 t = 1" "gg_contig ggml0 t"
  "gg_contig_rows ggml0 t" "\<not> gg_empty ggml0 t" "gg_can_repeat ggml0 t u" "gg_uop ggml0 t = URelu"
  "gg_uses ggml0 i = 1" "gg_max_src ggml0 = 2" "gg_buft ggml0 c = BtGpud" "gg_base ggml0 c = 4096"
  "gg_rnd ggml0 x = x" "gg_pf ggml0 t i = 0"
  by (simp_all add: ggml0_def)

lemma ggml0_buf [simp]: "tn_buf (gg_t ggml0 p) = Some 2"
  by (simp add: ggml0_def tensor0_def)

lemma tensor0_sel [simp]:
  "tn_op (tensor0 p k srcs) = p" "tn_type (tensor0 p k srcs) = TF32" "tn_data (tensor0 p k srcs) = 4096 + 64 * k"
  "tn_buf (tensor0 p k srcs) = Some 2" "tn_src (tensor0 p k srcs) i = (if i < length srcs then srcs ! i else None)"
  "tn_ne (tensor0 p k srcs) i = (if i = 0 then 4 else 1)" "tn_nb (tensor0 p k srcs) i = (if i = 0 then 4 else 16)"
  by (simp_all add: tensor0_def)

section \<open>Pushing one stage\<close>

lemma push3_ok:
  assumes f: "\<not> en_full (length ts) s" and b: "map (en_bind G (g_zs s)) (binds_list ts) = map Some bs"
    and o: "\<not> list_ex (\<lambda>u. sticks_out G (g_zs s) (the u)) (binds_list ts)" and ub: "length ts \<le> 4"
    and w: "length (words (fx (map snd bs) pc)) = length (words pc)"
  shows "gpud_push3 G x gx gy gz ts words pc fx s =
    (True, en_emit G x gx gy gz (map fst bs) (words (fx (map snd bs) pc))
       (pick_rngs (\<lambda>i. \<not> writes_at x i) (map (\<lambda>u. trange G (the u)) (binds_list ts)))
       (pick_rngs (writes_at x) (map (\<lambda>u. trange G (the u)) (binds_list ts))) s)"
proof -
  have n: "None \<notin> set (map (en_bind G (g_zs s)) (binds_list ts))" unfolding b by simp
  have u: "s\<lparr>en_ub := en_ub s \<or> rems_overrun G ts s\<rparr> = s" using ub by (simp add: rems_overrun_def)
  have p: "en_push G x gx gy gz ts (words pc) s =
     (Some (map snd bs), en_emit G x gx gy gz (map fst bs) (words pc)
       (pick_rngs (\<lambda>i. \<not> writes_at x i) (map (\<lambda>u. trange G (the u)) (binds_list ts)))
       (pick_rngs (writes_at x) (map (\<lambda>u. trange G (the u)) (binds_list ts))) s)"
    unfolding en_push_def Let_def if_not_P [OF f] b using o by (simp add: o_def)
  show ?thesis unfolding gpud_push3_def if_not_P [OF f] by (simp add: Let_def u p set_pc_emit [OF w])
qed

lemma flush_logs:
  assumes "en_st s \<noteq> []"
  shows "\<exists>r. fst (en_flush G s) = r \<and>
    cx_log (snd (en_flush G s)) = cx_log s @ [GBatch (en_st s) (en_ops s) (g_est s) r]"
proof -
  obtain r s' where f: "en_flush G s = (r, s')" by (metis surj_pair)
  then show ?thesis by (cases rule: en_flush_cases) (use assms f in \<open>simp_all add: en_reset_def\<close>)
qed

section \<open>Two nodes\<close>

text \<open>The conditions under which one more stage of the example can be pushed.\<close>

definition room0 :: "est \<Rightarrow> bool" where
  "room0 s \<longleftrightarrow> cb_size (g_zs s 2) = 4096 \<and> \<not> g_fixed s \<and> g_est s = 0 \<and> length (en_st s) < 64 \<and>
     int (length (en_st s)) < g_maxstage s \<and> en_nbd s < 1000"

lemma encode_relu:
  assumes "room0 s" and "cg ! i = 1"
  shows "try_encode ggml0 cg i s = (True, 0, en_emit ggml0 SUnary 1 1 1
    [\<lparr>bi_buf = Some 2, bi_off = 0, bi_range = 0\<rparr>, \<lparr>bi_buf = Some 2, bi_off = 64, bi_range = 0\<rparr>]
    [4, 0, 0, 3, 0, 0] [(4096, 4112)] [(4160, 4176)] s)"
proof -
  have f: "\<not> en_full (length [Some (0::nat), Some (Suc 0)]) s"
    using assms(1) by (simp add: en_full_def room0_def GPUD_MAX_STAGE_def)
  have b: "map (en_bind ggml0 (g_zs s)) (binds_list [Some 0, Some (Suc 0)]) = map Some
     [(\<lparr>bi_buf = Some 2, bi_off = 0, bi_range = 0\<rparr>, 0), (\<lparr>bi_buf = Some 2, bi_off = 64, bi_range = 0\<rparr>, 0)]"
    using assms(1) by (simp add: binds_list_def en_bind_def room0_def gpud_buft_ours_def toff_def GPUD_ALIGN_def)
  have o: "\<not> list_ex (\<lambda>u. sticks_out ggml0 (g_zs s) (the u)) (binds_list [Some 0, Some (Suc 0)])"
    using assms(1) by (simp add: binds_list_def sticks_out_def room0_def toff_def)
  have sup: "gpud_supports_op ggml0 (tensor0 OpUnary 1 [Some 0])"
    by (simp add: gpud_supports_op_def src_is_def is_f32_def unary_code_def)
  note P = push3_ok [OF f b o, of w_unary _ "\<lparr>pu_n = 4, pu_offa = 0, pu_offd = 0, pu_op = 3, pu_s = 0, pu_b = 0\<rparr>"]
  show ?thesis
    using assms(2) sup
    by (simp add: try_encode_def encode_node_def enc_unary_def Let_def unary_code_def u32c_def GRP_def
        no_skip_def gpud_push_def grid2_def tsrc_def P w_unary_def pick_rngs_def writes_at_def sdef_def
        binds_list_def trange_def)
qed

lemma encode_add:
  assumes "room0 s" and "cg ! i = 2"
  shows "try_encode ggml0 cg i s = (True, 0, en_emit ggml0 SBinary 1 1 1
    [\<lparr>bi_buf = Some 2, bi_off = 0, bi_range = 0\<rparr>, \<lparr>bi_buf = Some 2, bi_off = 64, bi_range = 0\<rparr>,
     \<lparr>bi_buf = Some 2, bi_off = 128, bi_range = 0\<rparr>]
    [4, 1, 1, 1, 1, 4, 4, 4, 1, 4, 4, 4, 1, 4, 4, 4, 4, 1, 1, 1, 0, 0, 0, 0, 4]
    [(4096, 4112), (4160, 4176)] [(4224, 4240)] s)"
proof -
  have f: "\<not> en_full (length [Some (0::nat), Some (Suc 0), Some 2]) s"
    using assms(1) by (simp add: en_full_def room0_def GPUD_MAX_STAGE_def)
  have b: "map (en_bind ggml0 (g_zs s)) (binds_list [Some 0, Some (Suc 0), Some 2]) = map Some
     [(\<lparr>bi_buf = Some 2, bi_off = 0, bi_range = 0\<rparr>, 0), (\<lparr>bi_buf = Some 2, bi_off = 64, bi_range = 0\<rparr>, 0),
      (\<lparr>bi_buf = Some 2, bi_off = 128, bi_range = 0\<rparr>, 0)]"
    using assms(1) by (simp add: binds_list_def en_bind_def room0_def gpud_buft_ours_def toff_def GPUD_ALIGN_def)
  have o: "\<not> list_ex (\<lambda>u. sticks_out ggml0 (g_zs s) (the u)) (binds_list [Some 0, Some (Suc 0), Some 2])"
    using assms(1) by (simp add: binds_list_def sticks_out_def room0_def toff_def)
  have sup: "gpud_supports_op ggml0 (tensor0 OpAdd 2 [Some 0, Some (Suc 0)])"
    by (simp add: gpud_supports_op_def src_is_def is_f32_def)
  note P = push3_ok [OF f b o, of w_binary]
  have u4: "[0..<4] = [0, 1, 2, 3 :: nat]" by code_simp
  show ?thesis
    using assms(2) sup
    by (simp add: try_encode_def encode_node_def enc_binary_def Let_def u32c_def GRP_def dims_def strides_def
        no_skip_def gpud_push_def grid2_def tsrc_def src_t_def P w_binary_def pick_rngs_def writes_at_def sdef_def
        binds_list_def trange_def E_def u4)
qed

definition ops12 :: "gop_trace list" where
  "ops12 = [(SUnary, [(4096, 4112)], [(4160, 4176)]), (SBinary, [(4096, 4112), (4160, 4176)], [(4224, 4240)])]"

definition stages12 :: "cstage3 list" where
  "stages12 =
     [\<lparr>g3_sh = 1, g3_gx = 1, g3_gy = 1, g3_gz = 1,
       g3_binds = [\<lparr>bi_buf = Some 2, bi_off = 0, bi_range = 0\<rparr>, \<lparr>bi_buf = Some 2, bi_off = 64, bi_range = 0\<rparr>],
       g3_pc = Some (put32s [4, 0, 0, 3, 0, 0]), g3_pcsize = 24, g3_flags = 1\<rparr>,
      \<lparr>g3_sh = 0, g3_gx = 1, g3_gy = 1, g3_gz = 1,
       g3_binds = [\<lparr>bi_buf = Some 2, bi_off = 0, bi_range = 0\<rparr>, \<lparr>bi_buf = Some 2, bi_off = 64, bi_range = 0\<rparr>,
         \<lparr>bi_buf = Some 2, bi_off = 128, bi_range = 0\<rparr>],
       g3_pc = Some (put32s [4, 1, 1, 1, 1, 4, 4, 4, 1, 4, 4, 4, 1, 4, 4, 4, 4, 1, 1, 1, 0, 0, 0, 0, 4]),
       g3_pcsize = 100, g3_flags = 0\<rparr>]"

lemma graph12:
  "\<exists>r s'. gpud_graph_compute ggml0 [1, 2] (est0 a) = (r, s') \<and> cx_log s' = [GBatch stages12 ops12 0 r]"
proof -
  let ?cg = "[1, 2] :: nat list"
  define s0 where "s0 = graph_start ggml0 ?cg (est0 a)"
  define s1 where "s1 = en_emit ggml0 SUnary 1 1 1
    [\<lparr>bi_buf = Some 2, bi_off = 0, bi_range = 0\<rparr>, \<lparr>bi_buf = Some 2, bi_off = 64, bi_range = 0\<rparr>]
    [4, 0, 0, 3, 0, 0] [(4096, 4112)] [(4160, 4176)] s0"
  define s2 where "s2 = en_emit ggml0 SBinary 1 1 1
    [\<lparr>bi_buf = Some 2, bi_off = 0, bi_range = 0\<rparr>, \<lparr>bi_buf = Some 2, bi_off = 64, bi_range = 0\<rparr>,
     \<lparr>bi_buf = Some 2, bi_off = 128, bi_range = 0\<rparr>]
    [4, 1, 1, 1, 1, 4, 4, 4, 1, 4, 4, 4, 1, 4, 4, 4, 4, 1, 1, 1, 0, 0, 0, 0, 4]
    [(4096, 4112), (4160, 4176)] [(4224, 4240)] (s1\<lparr>cx_ngpu := Suc (cx_ngpu s1)\<rparr>)"
  define s3 where "s3 = s2\<lparr>cx_ngpu := Suc (cx_ngpu s2)\<rparr>"
  have E: "g_maxstage (est0 a) = 512" "\<not> g_fixed (est0 a)" "g_est (est0 a) = 0" "cx_log (est0 a) = []"
    "g_sh (est0 a) = (\<lambda>x. int (sh_index x))"
    by (simp_all add: est0_def gst0_def gpud_session0_def gst.defs est.defs)
  have z: "cb_size (g_zs s0 2) = 4096"
    by (simp add: s0_def) (simp add: est0_def gst0_def gpud_session0_def gst.defs est.defs zbuf0_def)
  have r0: "room0 s0" by (simp add: room0_def z) (simp add: s0_def E)
  have q0: "cx_qx s0 = None" by (simp add: s0_def)
  have r1: "room0 (s1\<lparr>cx_ngpu := Suc (cx_ngpu s1)\<rparr>)" 
    using z by (simp add: room0_def s1_def) (simp add: s0_def E en_emit_def Let_def split: prod.splits)
  have noop: "\<not> op_is_noop ggml0 (gg_t ggml0 (?cg ! 0))" "\<not> op_is_noop ggml0 (gg_t ggml0 (?cg ! 1))"
    by (simp_all add: op_is_noop_def)
  have "gpud_graph_compute ggml0 ?cg (est0 a) = graph_loop ggml0 ?cg 0 s0" by (simp add: compute_start s0_def)
  also have "\<dots> = graph_loop ggml0 ?cg 1 (s1\<lparr>cx_ngpu := Suc (cx_ngpu s1)\<rparr>)"
    using noop q0 encode_relu [OF r0, of ?cg 0] 
    by (simp add: graph_loop.simps [of _ _ 0] s1_def forget_qx_def gpud_writes_over_def)
  also have "\<dots> = graph_loop ggml0 ?cg 2 s3"
    using noop q0 encode_add [OF r1, of ?cg 1] 
    by (simp add: graph_loop.simps [of _ _ "Suc 0"] s3_def s2_def s1_def forget_qx_def gpud_writes_over_def numeral_2_eq_2)
  also have "\<dots> = en_flush ggml0 s3" by (simp add: graph_loop.simps [of _ _ 2])
  finally have c: "gpud_graph_compute ggml0 ?cg (est0 a) = en_flush ggml0 s3" .
  have f: "en_st s3 = stages12" "en_ops s3 = ops12" "g_est s3 = 0" "cx_log s3 = []"
    by (simp_all add: s3_def s2_def s1_def s0_def E en_emit_def barrier_flag_def need_barrier_def ov_def Let_def
        stages12_def ops12_def sh_index_def all_shaders_def del: put32s_simps)
  have "en_st s3 \<noteq> []" by (simp add: f stages12_def)
  from flush_logs [OF this, of ggml0] show ?thesis 
    unfolding c by (cases "en_flush ggml0 s3") (auto simp: f)
qed

end
