(* ===== verification/Ggml_Correct.thy ===== *)
theory Ggml_Correct
  imports Ggml_Example
begin

text \<open>
  The properties of the ggml backend for the GPU, src/src/ggml-gpud/ggml-gpud.cpp, from the batches a
  graph becomes to what the daemon gpud-zc runs.
\<close>

section \<open>Batches on the device\<close>

text \<open>
  C23. Every batch that \<open>gpud_graph_compute\<close> sends, whatever the graph, is a DISPATCH the daemon
  answers with status 0 (a driver that answers, the shaders loaded and the buffers live as the
  client's tables say, at most 65535 groups per axis): it submits one command buffer, and every
  order of the workgroups that the barriers of this command buffer permit has the effect of the
  stages one after another, provided each stage keeps to the byte ranges it was pushed with. So the
  barriers that \<open>barrier_flag\<close> leaves out are never missed.
\<close>

theorem graph_batch_on_device:
  assumes run: "gpud_graph_compute G cg s = (r, s')" "cx_log s = []" "GBatch st ops x b \<in> set (cx_log s')"
    and max: "g_maxstage s \<le> 4096" and scr: "\<forall>p. tn_buf (gg_t G p) \<noteq> Some SCR"
    and dev: "\<forall>k. vk_ok V k" "z3_inv V L F fds d" "dev_ready G V (g_zs s) zs (g_sh s) st z d"
  shows "let d' = z3_dispatch V True (length st) d;
      cb = cmd_buffer3 (z_flags d) (z_sh d) (z_h d) (map (dev_stage zs) st) in
    co (z_c d') = co (z_c d) @ status_ok \<and> stream (cq (z_c d')) = z \<and>
    w_subs (z_w d') = w_subs (z_w d) @ [cb] \<and>
    (\<forall>fss t m. device_run cb fss t \<and> list_all2 fits (map snd ops) fss \<longrightarrow>
       run_steps t m = run_steps (concat fss) m)"
proof (rule batch_on_device [OF dev(1,2) _ _ _ _ scr dev(3)])
  show "batch_tracked st ops"
    by (rule log_allD [OF compute_tracked [OF run(1,2)] run(3)])
  show "batch_shaped G (g_sh s) (g_zs s) st ops"
    by (rule log_allD [OF compute_shaped [OF run(1,2)] run(3)])
  have "batch_limited G s x st"
    by (rule log_allD [OF compute_limited [OF run(1,2)] run(3)])
  then have "st \<noteq> []" "int (length (butlast st)) < g_maxstage s"
    by (auto simp: batch_limited_def may_add_def)
  then have n: "0 < length st" "int (length st - 1) < g_maxstage s" by simp_all
  then show "1 \<le> length st" by (cases st) simp_all
  show "length st \<le> 4096" using n max by linarith
qed

definition shader_table0 :: "sh3 option list" where
  "shader_table0 = map (\<lambda>x. Some \<lparr>s3_nbind = sd_nbind (g_shaders x), s3_pcsize = sd_pcsize (g_shaders x),
     s3_shader = 3, s3_dsl = 4, s3_pll = 5, s3_pipe = 6\<rparr>) all_shaders @ replicate 496 None"

definition gsess3_0 :: "packet list \<Rightarrow> zsess3" where
  "gsess3_0 ps = (sess3_0 ps)\<lparr>z_sh := shader_table0,
     z_w := world0\<lparr>w_live := slot_sum s3_objs shader_table0 + {#1, 2#}\<rparr>\<rparr>"

lemma gsess3_0_inv: "fd_msgs 24 ps \<Longrightarrow> z3_inv dev0 {#} {#} [] (gsess3_0 ps)"
proof -
  have pc: "pcache_wf (pcache_init :: pinent pcache)" "pkeys pcache_init = {}"
    "slot_sum pent_objs (pc_ents (pcache_init :: pinent pcache)) = {#}"
    using daemon_ready_init by (simp_all add: daemon_ready_def) (simp add: pcache_init_def slot_sum_replicate)
  have "length shader_table0 = MAXSH3"
    by (simp add: shader_table0_def MAXSH3_def all_shaders_def)
  then show "fd_msgs 24 ps \<Longrightarrow> z3_inv dev0 {#} {#} [] (gsess3_0 ps)"
    using pc
    by (simp add: z3_inv_def z_inv_def owns_def gsess3_0_def sess3_0_def conn0_def world0_def MAXH_def
        hbuf0_def hb_objs_def slot_sum_replicate z3_objs_def dp_objs_def)
qed

lemma gsess3_0_shaders: "shaders_loaded (\<lambda>x. int (sh_index x)) (gsess3_0 ps)"
proof -
  have "slot_get shader_table0 (sh_index x) = Some \<lparr>s3_nbind = sd_nbind (g_shaders x),
      s3_pcsize = sd_pcsize (g_shaders x), s3_shader = 3, s3_dsl = 4, s3_pll = 5, s3_pipe = 6\<rparr>" for x
    by (cases x) (simp_all add: shader_table0_def slot_get_def sh_index_def all_shaders_def nth_append)
  moreover have "sh_index x < 2 ^ 32" for x
    by (cases x) (simp_all add: sh_index_def all_shaders_def)
  ultimately show ?thesis
    by (simp add: shaders_loaded_def list_all_iff gsess3_0_def u32of_int)
qed

definition store0 :: store where "store0 = (\<lambda>_. zbuf0)"

definition msgs12 :: "packet list" where
  "msgs12 = [(concat (map (stage3_bytes store0) stages12), [])]"

lemma gsess3_0_ready: "dev_ready ggml0 dev0 store0 store0 (\<lambda>x. int (sh_index x)) stages12 [] (gsess3_0 msgs12)"
proof -
  have "buffers_held store0 store0 stages12 (gsess3_0 msgs12)"
    by (simp add: buffers_held_def stages12_def gsess3_0_def sess3_0_def slot_get_def store0_def zbuf0_def
        u32of_def hbuf0_def)
  moreover have "list_all (\<lambda>t. g3_gx t \<le> MAXGRP \<and> g3_gy t \<le> MAXGRP \<and> g3_gz t \<le> MAXGRP) stages12"
    by (simp add: stages12_def MAXGRP_def)
  ultimately show ?thesis
    using gsess3_0_shaders
    by (simp add: dev_ready_def gsess3_0_def sess3_0_def conn0_def msgs12_def dev0_def sbo_align_def hbuf0_def
        list_all_iff)
qed

theorem graph_batch_on_device_witness:
  "\<exists>r s'. gpud_graph_compute ggml0 [1, 2] (est0 (le32 0)) = (r, s') \<and> GBatch stages12 ops12 0 r \<in> set (cx_log s') \<and>
    (let d = gsess3_0 msgs12; d' = z3_dispatch dev0 True (length stages12) d;
      cb = cmd_buffer3 (z_flags d) (z_sh d) (z_h d) (map (dev_stage store0) stages12) in
    co (z_c d') = co (z_c d) @ status_ok \<and> stream (cq (z_c d')) = [] \<and>
    w_subs (z_w d') = w_subs (z_w d) @ [cb] \<and>
    (\<forall>fss t m. device_run cb fss t \<and> list_all2 fits (map snd ops12) fss \<longrightarrow>
       run_steps t m = run_steps (concat fss) m))"
proof -
  obtain r s' where g: "gpud_graph_compute ggml0 [1, 2] (est0 (le32 0)) = (r, s')"
    "cx_log s' = [GBatch stages12 ops12 0 r]" using graph12 by blast
  have E: "g_maxstage (est0 (le32 0)) = 512" "cx_log (est0 (le32 0)) = []"
    "g_sh (est0 (le32 0)) = (\<lambda>x. int (sh_index x))" "g_zs (est0 (le32 0)) = store0"
    by (simp_all add: est0_def gst0_def gpud_session0_def gst.defs est.defs store0_def)
  have b: "GBatch stages12 ops12 0 r \<in> set (cx_log s')" by (simp add: g(2))
  have "let d = gsess3_0 msgs12; d' = z3_dispatch dev0 True (length stages12) d;
      cb = cmd_buffer3 (z_flags d) (z_sh d) (z_h d) (map (dev_stage store0) stages12) in
    co (z_c d') = co (z_c d) @ status_ok \<and> stream (cq (z_c d')) = [] \<and>
    w_subs (z_w d') = w_subs (z_w d) @ [cb] \<and>
    (\<forall>fss t m. device_run cb fss t \<and> list_all2 fits (map snd ops12) fss \<longrightarrow>
       run_steps t m = run_steps (concat fss) m)"
    unfolding Let_def
    by (rule graph_batch_on_device [OF g(1) E(2) b, unfolded E Let_def, OF _ _ _ gsess3_0_inv gsess3_0_ready])
      (simp_all add: SCR_def dev0_def msgs12_def)
  with g b show ?thesis by blast
qed

section \<open>The shape and the size of a batch\<close>

text \<open>
  C24. Every stage of every batch has as many bindings and as many bytes of push constants as the
  shader it names was loaded with, and every binding starts at a 64-byte aligned offset inside a
  buffer of the size it had when the computation began (or at the start of the scratch).
\<close>

theorem graph_stages_shaped:
  assumes "gpud_graph_compute G cg s = (r, s')" "cx_log s = []" "GBatch st ops x b \<in> set (cx_log s')"
  shows "list_all2 (\<lambda>(sh, rs, ws) t. g3_sh t = g_sh s sh \<and> length (g3_binds t) = sd_nbind (g_shaders sh) \<and>
      g3_pcsize t = sd_pcsize (g_shaders sh) \<and> map_option length (g3_pc t) = Some (g3_pcsize t) \<and>
      list_all (\<lambda>y. \<exists>c. bi_buf y = Some c \<and> bi_range y = 0 \<and> bi_off y mod 64 = 0 \<and>
        (bi_off y = 0 \<or> c = SCR \<or> bi_off y < cb_size (g_zs s c))) (g3_binds t)) ops st"
proof -
  have "batch_shaped G (g_sh s) (g_zs s) st ops"
    by (rule log_allD [OF compute_shaped [OF assms(1,2)] assms(3)])
  then obtain zs where zs: "sizes_kept (g_zs s) zs" "list_all2 (stage_shaped G (g_sh s) zs) ops st"
    by (auto simp: batch_shaped_def)
  have "\<exists>c. bi_buf y = Some c \<and> bi_range y = 0 \<and> bi_off y mod 64 = 0 \<and>
      (bi_off y = 0 \<or> c = SCR \<or> bi_off y < cb_size (g_zs s c))" if "bind_ok G zs y" for y
    using that zs(1) by (auto simp: bind_ok_def GPUD_ALIGN_def sizes_kept_def split: option.splits)
  then show ?thesis
    by (intro list_all2_mono [OF zs(2)]) (auto simp: stage_shaped_def list_all_iff split: option.splits)
qed

theorem graph_stages_shaped_witness:
  "list_all2 (\<lambda>(sh, rs, ws) t. g3_sh t = g_sh (est0 (le32 0)) sh \<and>
      length (g3_binds t) = sd_nbind (g_shaders sh) \<and>
      g3_pcsize t = sd_pcsize (g_shaders sh) \<and> map_option length (g3_pc t) = Some (g3_pcsize t) \<and>
      list_all (\<lambda>y. \<exists>c. bi_buf y = Some c \<and> bi_range y = 0 \<and> bi_off y mod 64 = 0 \<and>
        (bi_off y = 0 \<or> c = SCR \<or> bi_off y < cb_size (g_zs (est0 (le32 0)) c))) (g3_binds t)) ops12 stages12"
proof -
  obtain r s' where g: "gpud_graph_compute ggml0 [1, 2] (est0 (le32 0)) = (r, s')"
    "cx_log s' = [GBatch stages12 ops12 0 r]" using graph12 by blast
  show ?thesis
    by (rule graph_stages_shaped [OF g(1), of stages12 ops12 0 r])
      (simp_all add: g(2), simp add: est0_def gst0_def gpud_session0_def gst.defs est.defs)
qed

text \<open>
  No batch is empty or larger than GPUD_MAXSTAGE stages and four times 4096 bindings; and while
  the budget is in force every batch but for its last stage was predicted to take less than the
  budget (at most 64 stages as long as nothing has been measured).
\<close>

theorem graph_batches_limited:
  assumes "gpud_graph_compute G cg s = (r, s')" "cx_log s = []" "GBatch st ops x b \<in> set (cx_log s')"
  shows "st \<noteq> [] \<and> int (length st) \<le> g_maxstage s \<and>
    sum_list (map (\<lambda>t. length (g3_binds t)) st) \<le> 16384 \<and>
    (g_fixed s \<or> (if x \<le> 0 then length st \<le> 64 else length st = 1 \<or> pred_of G x (butlast st) < g_budget s))"
proof -
  have b: "batch_limited G s x st"
    by (rule log_allD [OF compute_limited [OF assms(1,2)] assms(3)])
  have ne: "st \<noteq> []" using b by (simp add: batch_limited_def)
  then have len: "length st = Suc (length (butlast st))" by (cases st) simp_all
  have "butlast st = [] \<longleftrightarrow> length st = 1" using ne by (cases st) auto
  with b ne len show ?thesis
    by (auto simp: batch_limited_def may_add_def GPUD_MAX_STAGE_def simp del: length_butlast split: if_splits)
qed

theorem graph_batches_limited_witness:
  "stages12 \<noteq> [] \<and> int (length stages12) \<le> g_maxstage (est0 (le32 0)) \<and>
    sum_list (map (\<lambda>t. length (g3_binds t)) stages12) \<le> 16384 \<and>
    (g_fixed (est0 (le32 0)) \<or>
     (if (0 :: rat) \<le> 0 then length stages12 \<le> 64
      else length stages12 = 1 \<or> pred_of ggml0 0 (butlast stages12) < g_budget (est0 (le32 0))))"
proof -
  obtain r s' where g: "gpud_graph_compute ggml0 [1, 2] (est0 (le32 0)) = (r, s')"
    "cx_log s' = [GBatch stages12 ops12 0 r]" using graph12 by blast
  show ?thesis
    by (rule graph_batches_limited [OF g(1), of stages12 ops12 0 r])
      (simp_all add: g(2), simp add: est0_def gst0_def gpud_session0_def gst.defs est.defs)
qed

section \<open>A batch that is lost\<close>

text \<open>
  C25. When a batch has to be sent to make room for the next stage and the daemon refuses it, the
  failure is taken for "this node cannot be encoded": the node is computed on the CPU (from inputs
  the lost stages should have produced), the computation goes on, and after the last node it reports
  success.
\<close>

theorem lost_batch_is_swallowed:
  assumes i: "i < length cg" "tn_op (gg_t G (cg ! i)) \<in> {OpAdd, OpMul, OpSub, OpDiv}"
      "gpud_supports_op G (gg_t G (cg ! i))" "\<not> gg_empty G (gg_t G (cg ! i))"
    and s: "en_st s \<noteq> []" "en_full 3 s" "fst (en_flush G s) = False"
  shows "\<exists>s1. cx_log s1 = cx_log s @ [GBatch (en_st s) (en_ops s) (g_est s) False, GCpu (cg ! i)] \<and>
    en_st s1 = [] \<and> graph_loop G cg i s = graph_loop G cg (Suc i) s1 \<and>
    (Suc i = length cg \<longrightarrow> graph_loop G cg i s = (True, s1))"
proof -
  let ?p = "cg ! i"
  obtain s0 where f: "en_flush G s = (False, s0)" using s(3) by (cases "en_flush G s") simp
  have e0: "en_st s0 = []" using flush_empty [of G s] f by simp
  have log: "cx_log s0 = cx_log s @ [GBatch (en_st s) (en_ops s) (g_est s) False]"
    using flush_logs [OF s(1), of G] f by auto
  have p3: "gpud_push3 G x gx gy gz [a, b, c] words pc fx s = (False, s0)"
    for x gx gy gz a b c and words :: "'p \<Rightarrow> nat list" and pc fx
    using s(2) f by (simp add: gpud_push3_def numeral_3_eq_3)
  have "encode_node G cg i s = (False, 0, s0)"
    using i(2) by (auto simp: encode_node_def enc_binary_def Let_def gpud_push_def case_prod_beta p3 no_skip_def)
  then have t: "try_encode G cg i s = (False, 0, s0)" using i(3) by (simp add: try_encode_def)
  have no: "\<not> op_is_noop G (gg_t G ?p)" using i(2,4) by (auto simp: op_is_noop_def)
  have f0: "en_flush G s0 = (True, s0)" using e0 by (simp add: en_flush_def)
  define s1 where "s1 = forget_qx G [?p] (node_on_cpu ?p s0)"
  have k: "en_st s1 = []" "cx_log s1 = cx_log s0 @ [GCpu ?p]"
    by (simp_all add: s1_def forget_qx_def node_on_cpu_def e0)
  have g: "graph_loop G cg i s = graph_loop G cg (Suc i) s1"
    using i(1) no t f0 by (simp add: graph_loop.simps [of G cg i] s1_def)
  have "graph_loop G cg (Suc i) s1 = (True, s1)" if "Suc i = length cg"
    using that k(1) by (simp add: graph_loop.simps [of G cg "length cg"] en_flush_def)
  then show ?thesis using g k log by (intro exI [of _ s1]) simp
qed

text \<open>A state with a batch of one stage, a limit of one stage, and a session that is gone.\<close>

definition est_dead :: est where
  "est_dead = (est0 [])\<lparr>en_st := [hd stages12], en_ops := [hd ops12], g_maxstage := 1,
     g_se := \<lparr>ss_sock = None, ss_n = 0, ss_auto = False\<rparr>\<rparr>"

theorem lost_batch_is_swallowed_witness:
  "\<exists>s1. cx_log s1 = cx_log est_dead @ [GBatch (en_st est_dead) (en_ops est_dead) (g_est est_dead) False, GCpu 2] \<and>
    en_st s1 = [] \<and> graph_loop ggml0 [1, 2] 1 est_dead = (True, s1)"
proof -
  have sup: "gpud_supports_op ggml0 (tensor0 OpAdd 2 [Some 0, Some 1])"
    by (simp add: gpud_supports_op_def src_is_def is_f32_def)
  have full: "en_full 3 est_dead" by (simp add: en_full_def est_dead_def)
  have fl: "fst (en_flush ggml0 est_dead) = False"
    by (simp add: en_flush_def est_dead_def barra_gpu3_batch_def Let_def ggml0_def)
  have ne: "en_st est_dead \<noteq> []" by (simp add: est_dead_def)
  from lost_batch_is_swallowed [of 1 "[1, 2]" ggml0 est_dead] sup full fl ne show ?thesis by auto
qed

section \<open>The grid\<close>

text \<open>
  \<open>grid2\<close> splits a group count over two axes so that both stay within the daemon's limit of
  65535 and the product covers the count, for every count up to 65535 * 32768 (more than the number
  of groups of any tensor whose element count fits 32 bits); above that the second axis is too large
  and the daemon refuses the batch.
\<close>

theorem grid2_covers:
  assumes "n < 2 ^ 32" and "grid2 n = (gx, gy)"
  shows "n \<le> gx * gy \<and> gx \<le> 65535 \<and> (gy \<le> 65535 \<longleftrightarrow> n \<le> 65535 * 32768) \<and>
    (n = 0 \<or> gx * gy < n + 32768)"
proof (cases "n \<le> 65535")
  case True
  then show ?thesis using assms(2) by (auto simp: grid2_def u32c_def)
next
  case False
  define q where "q = (n + 32767) div 32768"
  have "q * 32768 + (n + 32767) mod 32768 = n + 32767" unfolding q_def by (rule div_mult_mod_eq)
  moreover have "(n + 32767) mod 32768 < 32768" by simp
  ultimately have q: "n \<le> 32768 * q" "32768 * q < n + 32768" by linarith+
  have "q < 2 ^ 32" using q(2) assms(1) by simp
  then have "gx = 32768" "gy = q"
    using False assms by (auto simp: grid2_def u32c_def q_def)
  moreover have "q \<le> 65535 \<longleftrightarrow> n \<le> 65535 * 32768" by (rule iffI; use q in linarith)
  ultimately show ?thesis using q by simp
qed

theorem grid2_covers_witness:
  "(100000 :: nat) \<le> 32768 * 4 \<and> (32768 :: nat) \<le> 65535 \<and>
    ((4 :: nat) \<le> 65535 \<longleftrightarrow> (100000 :: nat) \<le> 65535 * 32768) \<and>
    ((100000 :: nat) = 0 \<or> (32768 :: nat) * 4 < 100000 + 32768)"
  by (rule grid2_covers) (simp_all add: grid2_def u32c_def)

end
