(* ===== verification/Ffn_Base.thy ===== *)
theory Ffn_Base
  imports Ggml_Base
begin

text \<open>
  The ggml backend for the TPU, src/src/ggml-barra/ggml-barra.cpp, which computes the feed-forward
  blocks of a language model: its parameters (arithmetic of floats, C library, environment, files,
  ggml, the package on the TPU), the parsing of weight names and of the numbers in its text file, and
  the state of the backend.
\<close>

section \<open>Parameters\<close>

text \<open>
  A weight tensor also has a name; \<open>tn_flag\<close> is \<open>GGML_TENSOR_FLAG_COMPUTE\<close>. Floats are their bits,
  doubles rationals with a rounding.
\<close>

record ntensor = tensor +
  tn_name :: string
  tn_flag :: bool

record flib =
  fl_add :: "f32 \<Rightarrow> f32 \<Rightarrow> f32"
  fl_sub :: "f32 \<Rightarrow> f32 \<Rightarrow> f32"
  fl_mul :: "f32 \<Rightarrow> f32 \<Rightarrow> f32"
  fl_div :: "f32 \<Rightarrow> f32 \<Rightarrow> f32"
  fl_gt :: "f32 \<Rightarrow> f32 \<Rightarrow> bool"
  fl_exp :: "f32 \<Rightarrow> f32"
  fl_rint :: "f32 \<Rightarrow> int"
  fl_int :: "int \<Rightarrow> f32"
  fl_half :: "nat \<Rightarrow> f32"
  fl_strtof :: "string \<Rightarrow> (f32 \<times> string) option"
  fl_atof :: "string \<Rightarrow> rat"
  fl_rnd :: "rat \<Rightarrow> rat"
  fl_float :: "rat \<Rightarrow> f32"
  fl_env :: "string \<Rightarrow> string option"
  fl_file :: "string \<Rightarrow> byte list option"
  fl_heap :: "nat \<Rightarrow> nat option"
  fl_mmap :: "nat \<Rightarrow> bool"
  fl_cpu :: bool
  fl_t :: "nat \<Rightarrow> ntensor"
  fl_contig :: "nat \<Rightarrow> bool"
  fl_glop :: "nat \<Rightarrow> glop"
  fl_tpu :: "nat \<Rightarrow> nat \<Rightarrow> (nat \<Rightarrow> byte) \<Rightarrow> nat \<Rightarrow> byte"
  fl_ffn :: "nat \<Rightarrow> nat \<Rightarrow> nat \<Rightarrow> f32 list list \<Rightarrow> f32 list list"
  fl_node :: "nat \<Rightarrow> (nat \<Rightarrow> f32) \<Rightarrow> nat \<Rightarrow> f32"

definition f_one :: f32 where "f_one = 0x3F800000"
definition f_127 :: f32 where "f_127 = 0x42FE0000"

definition abs_f :: "f32 \<Rightarrow> f32" where
  "abs_f b = b mod 2 ^ 31"

section \<open>Reading text\<close>

definition is_space :: "char \<Rightarrow> bool" where
  "is_space c \<longleftrightarrow> of_char c \<in> {9, 10, 11, 12, 13, 32 :: nat}"

definition is_digit :: "char \<Rightarrow> bool" where
  "is_digit c \<longleftrightarrow> of_char c \<in> {48 ..< 58 :: nat}"

definition is_lower :: "char \<Rightarrow> bool" where
  "is_lower c \<longleftrightarrow> of_char c \<in> {97 ..< 123 :: nat}"

definition digits_val :: "string \<Rightarrow> int" where
  "digits_val ds = foldl (\<lambda>a c. 10 * a + (of_char c - 48)) 0 ds"

text \<open>\<open>%d\<close> of \<open>scanf\<close>: white space, a sign, digits (a value that fits an \<open>int\<close>), and what is left.\<close>

definition scan_d :: "string \<Rightarrow> (int \<times> string) option" where
  "scan_d s =
     (let s1 = dropWhile is_space s;
          sg = (case s1 of [] \<Rightarrow> False | c # _ \<Rightarrow> c = CHR ''-'' \<or> c = CHR ''+'');
          s2 = (if sg then tl s1 else s1);
          ds = takeWhile is_digit s2
      in if ds = [] then None
         else Some ((if sg \<and> hd s1 = CHR ''-'' then - digits_val ds else digits_val ds), drop (length ds) s2))"

definition scan_f :: "flib \<Rightarrow> string \<Rightarrow> (f32 \<times> string) option" where
  "scan_f F s = fl_strtof F (dropWhile is_space s)"

text \<open>\<open>%15[a-z]\<close>, and a literal of the format.\<close>

definition scan_az :: "nat \<Rightarrow> string \<Rightarrow> (string \<times> string) option" where
  "scan_az n s =
     (let w = takeWhile is_lower (take n s) in if w = [] then None else Some (w, drop (length w) s))"

definition scan_lit :: "string \<Rightarrow> string \<Rightarrow> string option" where
  "scan_lit l s = (if take (length l) s = l then Some (drop (length l) s) else None)"

definition atoi :: "string \<Rightarrow> int" where
  "atoi s = (case scan_d s of None \<Rightarrow> 0 | Some (v, _) \<Rightarrow> v)"

text \<open>
  \<open>barra_ffn_kind\<close>: 0 up, 1 gate, 2 down, with the layer. \<open>sscanf\<close> reports two conversions as soon as
  the second is done; the \<open>.weight\<close> behind it is not looked at.
\<close>

definition barra_ffn_kind :: "flib \<Rightarrow> nat option \<Rightarrow> (int \<times> int) option" where
  "barra_ffn_kind F w =
     (case w of
        None \<Rightarrow> None
      | Some p \<Rightarrow>
     (case scan_lit ''blk.'' (tn_name (fl_t F p)) of
        None \<Rightarrow> None
      | Some s1 \<Rightarrow>
     (case scan_d s1 of
        None \<Rightarrow> None
      | Some (l, s2) \<Rightarrow>
     (case scan_lit ''.ffn_'' s2 of
        None \<Rightarrow> None
      | Some s3 \<Rightarrow>
     (case scan_az 15 s3 of
        None \<Rightarrow> None
      | Some (k, _) \<Rightarrow>
          if k = ''up'' then Some (0, l)
          else if k = ''gate'' then Some (1, l)
          else if k = ''down'' then Some (2, l)
          else None)))))"

section \<open>State\<close>

record layer_q =
  lq_isc :: f32
  lq_osc :: f32
  lq_izp :: int
  lq_ozp :: int

record outl =
  ol_kd :: nat
  ol_kf :: nat
  ol_od :: "int list"
  ol_of :: "int list"
  ol_wg :: "nat list"
  ol_wu :: "nat list"
  ol_wd :: "nat list"

definition outl0 :: outl where
  "outl0 = \<lparr>ol_kd = 0, ol_kf = 0, ol_od = [], ol_of = [], ol_wg = [], ol_wu = [], ol_wd = []\<rparr>"

text \<open>
  The buffers of the context: \<open>zi\<close>, \<open>zo\<close>, \<open>zi_d\<close>, \<open>zo_g\<close>, \<open>zo_u\<close>, \<open>zi_ff\<close>, \<open>zo_d\<close>. Beside the fields of
  \<open>ggml_backend_barra_context\<close> the state has the world and the buffers of the client library, the
  bytes of the shared buffers (\<open>fx_mem\<close>), the memory of the tensors (\<open>fx_fm\<close>, by address) and a count of
  the calls to the outside.
\<close>

definition ZI :: nat where "ZI = 0"
definition ZO :: nat where "ZO = 1"
definition ZID :: nat where "ZID = 2"
definition ZOG :: nat where "ZOG = 3"
definition ZOU :: nat where "ZOU = 4"
definition ZIF :: nat where "ZIF = 5"
definition ZOD :: nat where "ZOD = 6"

record fctx =
  fx_ready :: bool
  fx_D :: int
  fx_FF :: int
  fx_B :: int
  fx_bits :: int
  fx_NL :: int
  fx_minb :: int
  fx_log :: bool
  fx_Bd :: int
  fx_q :: "layer_q list"
  fx_split :: int
  fx_smooth :: "f32 list"
  fx_div :: f32
  fx_divgu :: f32
  fx_ol :: "outl list"
  fx_cpu :: bool
  fx_calls :: nat
  fx_rows :: nat
  fx_fb :: nat
  fx_pass2 :: nat
  fx_cw :: cworld
  fx_zs :: store
  fx_se :: sess
  fx_mem :: "nat \<Rightarrow> nat \<Rightarrow> byte"
  fx_fm :: "nat \<Rightarrow> f32"
  fx_tick :: nat

definition fctx0 :: "cworld \<Rightarrow> store \<Rightarrow> (nat \<Rightarrow> nat \<Rightarrow> byte) \<Rightarrow> (nat \<Rightarrow> f32) \<Rightarrow> fctx" where
  "fctx0 w zs mem fm =
     \<lparr>fx_ready = False, fx_D = 0, fx_FF = 0, fx_B = 0, fx_bits = 16, fx_NL = 0, fx_minb = 8,
      fx_log = False, fx_Bd = 0, fx_q = [], fx_split = 1, fx_smooth = [], fx_div = f_one,
      fx_divgu = f_one, fx_ol = [], fx_cpu = False, fx_calls = 0, fx_rows = 0, fx_fb = 0,
      fx_pass2 = 0, fx_cw = w, fx_zs = zs, fx_se = \<lparr>ss_sock = None, ss_n = 0, ss_auto = False\<rparr>,
      fx_mem = mem, fx_fm = fm, fx_tick = 0\<rparr>"

end
