(* ===== verification/Ffn_Load.thy ===== *)
theory Ffn_Load
  imports Ffn_Base
begin

text \<open>
  How the TPU backend of src/src/ggml-barra/ggml-barra.cpp gets ready: \<open>barra_load_outliers\<close>,
  \<open>barra_load_meta\<close>, \<open>ggml_backend_barra_init\<close> and \<open>ggml_backend_barra_free\<close>. The result \<open>None\<close> is an
  exception that nobody catches. What a failed parse leaves in the head fields and in \<open>q\<close> is not kept; the backend
  does not become ready then.
\<close>

section \<open>Files\<close>

definition text_of :: "byte list \<Rightarrow> string" where
  "text_of bs = map (\<lambda>b. char_of (unat b)) bs"

text \<open>\<open>fseek\<close> to an offset and \<open>fread\<close> of \<open>n\<close> bytes, all of them.\<close>

definition fread_at :: "byte list \<Rightarrow> nat \<Rightarrow> nat \<Rightarrow> byte list option" where
  "fread_at f off n =
     (if n = 0 then Some [] else if off + n \<le> length f then Some (take n (drop off f)) else None)"

fun get16s :: "byte list \<Rightarrow> nat list" where
  "get16s (a # b # bs) = (unat a + 256 * unat b) # get16s bs"
| "get16s _ = []"

lemma length_get16s: "length bs = 2 * n \<Longrightarrow> length (get16s bs) = n"
proof (induction n arbitrary: bs)
  case (Suc n)
  then obtain a b cs where "bs = a # b # cs" by (cases bs rule: get16s.cases) auto
  with Suc show ?case by simp
qed simp

section \<open>Outlier channels\<close>

text \<open>\<open>lround\<close>: to the nearest integer, halves away from zero.\<close>

definition lround :: "rat \<Rightarrow> int" where
  "lround x = (if 0 \<le> x then \<lfloor>x + 1 / 2\<rfloor> else - \<lfloor>1 / 2 - x\<rfloor>)"

definition clamp_count :: "int \<Rightarrow> int \<Rightarrow> int" where
  "clamp_count hi k = (let k1 = (if k > hi then hi else k) in if k1 < 0 then 0 else k1)"

definition outlier_counts :: "flib \<Rightarrow> int \<Rightarrow> int \<Rightarrow> int \<Rightarrow> int \<Rightarrow> int \<times> int" where
  "outlier_counts F fD fFF fkd fkf =
     (case fl_env F ''BARRA_OUTLIER_FRAC'' of
        None \<Rightarrow> (fkd, fkf)
      | Some e \<Rightarrow>
         (let fr = fl_atof F e; r = dropWhile (\<lambda>c. c \<noteq> CHR '','') e;
              fr_f = (if r = [] then fr else fl_atof F (tl r))
          in (clamp_count fkd (lround (fl_rnd F (fr * of_int fD))),
              clamp_count fkf (lround (fl_rnd F (fr_f * of_int fFF))))))"

definition rd_f16 :: "byte list \<Rightarrow> nat \<Rightarrow> nat \<Rightarrow> nat \<Rightarrow> nat list option" where
  "rd_f16 f off nrow ncol =
     (if nrow = 0 then Some [] else map_option get16s (fread_at f off (2 * (nrow * ncol))))"

definition ints_of :: "nat \<Rightarrow> byte list \<Rightarrow> int list" where
  "ints_of n bs = map s32 (get32s n bs)"

text \<open>
  One layer of the file: the channels of both sides, of which a prefix is kept, and the rows of the
  weights that belong to it.
\<close>

definition read_outl :: "byte list \<Rightarrow> nat \<Rightarrow> nat \<Rightarrow> nat \<Rightarrow> nat \<Rightarrow> nat \<Rightarrow> nat \<Rightarrow> nat \<Rightarrow> outl option" where
  "read_outl f fD fFF fkd fkf kd kf l =
     (let per_layer = (fkd + fkf) * 4 + (2 * (fkd * fFF) + fkf * fD) * 2;
          base = 28 + l * per_layer;
          wbase = base + (fkd + fkf) * 4;
          wu_off = wbase + fkd * fFF * 2;
          wd_off = wu_off + fkd * fFF * 2
      in
      case (fread_at f base (4 * fkd), fread_at f (base + fkd * 4) (4 * fkf)) of
        (Some b1, Some b2) \<Rightarrow>
         (case (rd_f16 f wbase kd fFF, rd_f16 f wu_off kd fFF, rd_f16 f wd_off kf fD) of
            (Some wg, Some wu, Some wd) \<Rightarrow>
             (let od = take kd (ints_of fkd b1); ofs = take kf (ints_of fkf b2) in
              if list_all (\<lambda>v. 0 \<le> v \<and> v < int fD) od \<and> list_all (\<lambda>v. 0 \<le> v \<and> v < int fFF) ofs
              then Some \<lparr>ol_kd = kd, ol_kf = kf, ol_od = od, ol_of = ofs, ol_wg = wg, ol_wu = wu, ol_wd = wd\<rparr>
              else None)
          | _ \<Rightarrow> None)
      | _ \<Rightarrow> None)"

definition barra_load_outliers :: "flib \<Rightarrow> fctx \<Rightarrow> fctx option" where
  "barra_load_outliers F c =
     (case fl_env F ''BARRA_OUTLIER'' of
        None \<Rightarrow> Some c
      | Some op \<Rightarrow>
     (case fl_file F op of
        None \<Rightarrow> Some c
      | Some f \<Rightarrow>
          if length f < 28 \<or> take 4 f \<noteq> str ''BOL1'' then Some c
          else
         (let h = ints_of 6 (take 24 (drop 4 f));
              fD = h ! 0; fFF = h ! 1; fNL = h ! 2; fkd = h ! 3; fkf = h ! 4 in
          if fD \<noteq> fx_D c \<or> fFF \<noteq> fx_FF c \<or> fNL < fx_NL c \<or> h ! 5 \<noteq> 1 then Some c
          else
         (case outlier_counts F fD fFF fkd fkf of (kd, kf) \<Rightarrow>
            if kd \<le> 0 then Some c
            else if fkf < 0 then None
            else Some (c\<lparr>fx_ol :=
                (case those (map (read_outl f (nat fD) (nat fFF) (nat fkd) (nat fkf) (nat kd) (nat kf))
                         [0..<nat (fx_NL c)]) of
                   None \<Rightarrow> []
                 | Some ls \<Rightarrow> ls)\<rparr>)))))"

section \<open>The meta file\<close>

fun scan_ds :: "nat \<Rightarrow> string \<Rightarrow> int list \<times> string" where
  "scan_ds 0 s = ([], s)"
| "scan_ds (Suc n) s =
     (case scan_d s of
        None \<Rightarrow> ([], s)
      | Some (v, s1) \<Rightarrow> (case scan_ds n s1 of (vs, s2) \<Rightarrow> (v # vs, s2)))"

text \<open>\<open>fgets\<close> of at most 255 characters: the rest of the line with its end, or \<open>None\<close> at the end of the file.\<close>

definition fgets :: "string \<Rightarrow> (string \<times> string) option" where
  "fgets s =
     (if s = [] then None
      else
     (let t = take 255 s; l = takeWhile (\<lambda>c. c \<noteq> CHR 0x0A) t;
          r = (if length l < length t then l @ [CHR 0x0A] else l)
      in Some (r, drop (length r) s)))"

text \<open>Fields 6 to 9 of the first line, as far as they are there.\<close>

definition rest_fields :: "flib \<Rightarrow> string \<Rightarrow> fctx \<Rightarrow> fctx" where
  "rest_fields F r c =
     (case scan_d r of
        None \<Rightarrow> c
      | Some (sp, r1) \<Rightarrow>
     (let c1 = c\<lparr>fx_split := sp\<rparr> in
      case scan_f F r1 of
        None \<Rightarrow> c1
      | Some (od, r2) \<Rightarrow>
     (let c2 = c1\<lparr>fx_div := od, fx_divgu := od\<rparr> in
      case scan_f F r2 of
        None \<Rightarrow> c2
      | Some (odg, r3) \<Rightarrow>
     (let c3 = c2\<lparr>fx_divgu := odg\<rparr> in
      case scan_d r3 of
        None \<Rightarrow> c3
      | Some (bd, _) \<Rightarrow> c3\<lparr>fx_Bd := bd\<rparr>))))"

fun read_lq :: "flib \<Rightarrow> nat \<Rightarrow> string \<Rightarrow> layer_q list option" where
  "read_lq F 0 s = Some []"
| "read_lq F (Suc n) s =
     (case scan_f F s of
        None \<Rightarrow> None
      | Some (isc, s1) \<Rightarrow>
     (case scan_d s1 of
        None \<Rightarrow> None
      | Some (izp, s2) \<Rightarrow>
     (case scan_f F s2 of
        None \<Rightarrow> None
      | Some (osc, s3) \<Rightarrow>
     (case scan_d s3 of
        None \<Rightarrow> None
      | Some (ozp, s4) \<Rightarrow>
          map_option (\<lambda>qs. \<lparr>lq_isc = isc, lq_osc = osc, lq_izp = izp, lq_ozp = ozp\<rparr> # qs)
            (read_lq F n s4)))))"

definition head_ok :: "fctx \<Rightarrow> bool" where
  "head_ok c \<longleftrightarrow>
     1 \<le> fx_D c \<and> fx_D c \<le> 65536 \<and> 1 \<le> fx_FF c \<and> fx_FF c \<le> 262144 \<and> 1 \<le> fx_B c \<and> fx_B c \<le> 65536 \<and>
     1 \<le> fx_NL c \<and> fx_NL c \<le> 512 \<and> (fx_bits c = 8 \<or> fx_bits c = 16)"

text \<open>The position of the last \<open>.meta\<close> in the path decides the name of the smoothing file.\<close>

fun rfind :: "string \<Rightarrow> string \<Rightarrow> nat option" where
  "rfind p [] = (if p = [] then Some 0 else None)"
| "rfind p (c # s) =
     (case rfind p s of
        Some k \<Rightarrow> Some (Suc k)
      | None \<Rightarrow> if take (length p) (c # s) = p then Some 0 else None)"

definition smooth_name :: "string \<Rightarrow> string" where
  "smooth_name mp = (case rfind ''.meta'' mp of None \<Rightarrow> mp | Some k \<Rightarrow> take k mp @ ''.smooth'')"

definition load_smooth :: "flib \<Rightarrow> string \<Rightarrow> fctx \<Rightarrow> fctx" where
  "load_smooth F mp c =
     (case fl_file F (smooth_name mp) of
        None \<Rightarrow> c
      | Some f \<Rightarrow>
         (let n = nat (fx_D c + fx_FF c) * nat (fx_NL c) in
          if length f div 4 < n then c\<lparr>fx_smooth := []\<rparr>
          else c\<lparr>fx_smooth := map (\<lambda>v. if zero_f v then f_one else fl_div F f_one v)
                   (get32s n (take (4 * n) f))\<rparr>))"

text \<open>The dma-bufs one after the other until one fails; the size is cut to 32 bits.\<close>

fun zc_allocs :: "flib \<Rightarrow> (nat \<times> int) list \<Rightarrow> fctx \<Rightarrow> bool \<times> fctx" where
  "zc_allocs F [] c = (True, c)"
| "zc_allocs F ((p, sz) # r) c =
     (case barra_zc_alloc (fl_heap F (fx_tick c)) (fl_mmap F (fx_tick c)) p (nat (sz mod 2 ^ 32)) (fx_zs c) of
        (q, zs) \<Rightarrow>
       (let c1 = c\<lparr>fx_zs := zs, fx_tick := Suc (fx_tick c)\<rparr> in
        if q then zc_allocs F r c1 else (False, c1)))"

definition ctx_bufs :: "fctx \<Rightarrow> (nat \<times> int) list" where
  "ctx_bufs c =
     (if fx_split c = 1
      then let bpe = (if fx_bits c = 16 then 2 else 1) in
        [(ZI, fx_B c * fx_D c * bpe), (ZO, fx_B c * fx_D c * bpe)]
      else [(ZID, fx_B c * fx_D c), (ZOG, fx_B c * fx_FF c), (ZOU, fx_B c * fx_FF c),
            (ZIF, fx_Bd c * fx_FF c), (ZOD, fx_Bd c * fx_D c)])"

definition tpu_close :: "fctx \<Rightarrow> fctx" where
  "tpu_close c = c\<lparr>fx_se := dead (fx_se c)\<rparr>"

text \<open>From the open session on; every failure closes it.\<close>

definition meta_connect :: "flib \<Rightarrow> fctx \<Rightarrow> bool \<times> fctx" where
  "meta_connect F c =
     (case barra_tpu_open (fx_cw c) of
        (False, se, w) \<Rightarrow> (False, c\<lparr>fx_se := se, fx_cw := w\<rparr>)
      | (True, se, w) \<Rightarrow>
     (case barra_tpu_info 0 se of
        (r, nm, se1) \<Rightarrow>
         (let c1 = c\<lparr>fx_se := se1, fx_cw := w\<rparr> in
          if r = None then (False, tpu_close c1)
          else if s32 (case nm of None \<Rightarrow> 0 | Some v \<Rightarrow> v) < fx_NL c then (False, tpu_close c1)
          else if fx_split c \<noteq> 1 \<and> fx_bits c \<noteq> 8 then (False, tpu_close c1)
          else
         (case zc_allocs F (ctx_bufs c1) c1 of
            (False, c2) \<Rightarrow> (False, tpu_close c2)
          | (True, c2) \<Rightarrow> (True, c2\<lparr>fx_cpu := fl_cpu F, fx_ready := True\<rparr>)))))"

definition meta_head :: "flib \<Rightarrow> string \<Rightarrow> fctx \<Rightarrow> bool \<times> fctx" where
  "meta_head F s c =
     (case scan_ds 5 s of (vs, s1) \<Rightarrow>
        if length vs \<noteq> 5 then (False, c)
        else
       (let c1 = c\<lparr>fx_D := vs ! 0, fx_FF := vs ! 1, fx_B := vs ! 2, fx_bits := vs ! 3, fx_NL := vs ! 4\<rparr> in
        if \<not> head_ok c1 then (False, c1)
        else
       (let c2 = c1\<lparr>fx_split := 1, fx_div := f_one, fx_divgu := f_one, fx_Bd := 0\<rparr>;
            (c3, s2) = (case fgets s1 of None \<Rightarrow> (c2, s1) | Some (r, s2) \<Rightarrow> (rest_fields F r c2, s2));
            c4 = (if fx_Bd c3 \<le> 0 \<or> fx_B c3 < fx_Bd c3 then c3\<lparr>fx_Bd := fx_B c3\<rparr> else c3)
        in
        if fx_split c4 \<noteq> 1 \<and> fx_split c4 \<noteq> 3 then (False, c4)
        else
       (case read_lq F (nat (fx_NL c4 * fx_split c4)) s2 of
          None \<Rightarrow> (False, c4)
        | Some qs \<Rightarrow> (True, c4\<lparr>fx_q := qs\<rparr>)))))"

definition barra_load_meta :: "flib \<Rightarrow> fctx \<Rightarrow> (bool \<times> fctx) option" where
  "barra_load_meta F c =
     (case fl_env F ''BARRA_FFN_META'' of
        None \<Rightarrow> Some (False, c)
      | Some mp \<Rightarrow>
     (case fl_file F mp of
        None \<Rightarrow> Some (False, c)
      | Some f \<Rightarrow>
     (case meta_head F (text_of f) c of
        (False, c1) \<Rightarrow> Some (False, c1)
      | (True, c1) \<Rightarrow>
     (case (if fx_split c1 = 3 then barra_load_outliers F (load_smooth F mp c1) else Some c1) of
        None \<Rightarrow> None
      | Some c2 \<Rightarrow>
         (let c3 = (case fl_env F ''BARRA_MIN_BATCH'' of None \<Rightarrow> c2 | Some e \<Rightarrow> c2\<lparr>fx_minb := atoi e\<rparr>);
              c4 = (if fl_env F ''BARRA_FFN_LOG'' = None then c3 else c3\<lparr>fx_log := True\<rparr>)
          in Some (meta_connect F c4))))))"

definition ggml_backend_barra_init :: "flib \<Rightarrow> fctx \<Rightarrow> fctx option" where
  "ggml_backend_barra_init F c = map_option snd (barra_load_meta F c)"

text \<open>The end of the backend: buffers and session of a backend that was ready.\<close>

definition ggml_backend_barra_free :: "fctx \<Rightarrow> fctx" where
  "ggml_backend_barra_free c =
     (if fx_ready c
      then tpu_close (c\<lparr>fx_zs := fold barra_zc_free
             (if fx_split c = 1 then [ZI, ZO] else [ZID, ZOG, ZOU, ZIF, ZOD]) (fx_zs c)\<rparr>)
      else c)"

end
