(* ===== verification/Ffn_Tpu.thy ===== *)
theory Ffn_Tpu
  imports Ffn_Load Ggml_Buffers
begin

text \<open>
  The feed-forward block on the TPU, src/src/ggml-barra/ggml-barra.cpp: rows of floats are quantized
  into a shared buffer, an inference is run, and the result is scaled back; rows that saturate or clip
  go to the CPU (\<open>barra_ffn_fallback\<close>). \<open>barra_ffn_fused\<close> runs the whole block as one package,
  \<open>barra_ffn_split\<close> as three with several passes. What a package computes is the parameter \<open>fl_tpu\<close>.
\<close>

section \<open>Rows\<close>

definition fl_at :: "'a tensor_scheme \<Rightarrow> nat \<Rightarrow> nat \<Rightarrow> nat" where
  "fl_at t r d = tn_data t + r * tn_nb t 1 + 4 * d"

definition get_rowf :: "'a tensor_scheme \<Rightarrow> nat \<Rightarrow> (nat \<Rightarrow> f32) \<Rightarrow> nat \<Rightarrow> f32" where
  "get_rowf t r m = (\<lambda>d. m (fl_at t r d))"

definition put_elem :: "'a tensor_scheme \<Rightarrow> nat \<Rightarrow> nat \<Rightarrow> f32 \<Rightarrow> (nat \<Rightarrow> f32) \<Rightarrow> nat \<Rightarrow> f32" where
  "put_elem t r d v m = m(fl_at t r d := v)"

definition put_row :: "'a tensor_scheme \<Rightarrow> nat \<Rightarrow> nat \<Rightarrow> (nat \<Rightarrow> f32) \<Rightarrow> (nat \<Rightarrow> f32) \<Rightarrow> nat \<Rightarrow> f32" where
  "put_row t r n vs m = fold (\<lambda>d. put_elem t r d (vs d)) [0..<n] m"

text \<open>A quantized value in a shared buffer: \<open>b\<close> bytes, two's complement.\<close>

definition put_z :: "nat \<Rightarrow> int \<Rightarrow> byte list" where
  "put_z b v = le_bytes b (nat (v mod 2 ^ (8 * b)))"

definition get_z :: "nat \<Rightarrow> nat \<Rightarrow> (nat \<Rightarrow> byte) \<Rightarrow> int" where
  "get_z b off m =
     (let u = le_nat (map m [off..<off + b]) in
      if u < 2 ^ (8 * b - 1) then int u else int u - 2 ^ (8 * b))"

definition z_clip :: "int \<Rightarrow> int \<Rightarrow> int \<Rightarrow> int" where
  "z_clip lo hi v = (if v > hi then hi else if v < lo then lo else v)"

definition row_max :: "flib \<Rightarrow> (nat \<Rightarrow> f32) \<Rightarrow> nat \<Rightarrow> f32" where
  "row_max F x n = fold (\<lambda>d mx. if fl_gt F (abs_f (x d)) mx then abs_f (x d) else mx) [0..<n] 0"

text \<open>The scale of the row and its bytes.\<close>

definition barra_q8_row :: "flib \<Rightarrow> (nat \<Rightarrow> f32) \<Rightarrow> nat \<Rightarrow> f32 \<Rightarrow> f32 \<Rightarrow> int \<Rightarrow> f32 \<times> byte list" where
  "barra_q8_row F x n qmax isc izp =
     (let mx = row_max F x n;
          srow = (if fl_gt F mx 0 then fl_div F mx qmax else f_one);
          k = fl_div F f_one (fl_mul F srow isc)
      in (srow, concat (map (\<lambda>d. put_z 1 (z_clip (-128) 127 (fl_rint F (fl_mul F (x d) k) + izp))) [0..<n])))"

text \<open>
  \<open>barra_par_rows\<close>: the calls of the thread pool, here in ascending order. \<open>barra_rank_update\<close> adds
  to \<open>C\<close> the product of \<open>k\<close> columns of \<open>A\<close> with \<open>k\<close> rows of weights, in blocks of 512 columns.
\<close>

definition barra_par_rows :: "nat \<Rightarrow> (nat \<Rightarrow> 's \<Rightarrow> 's) \<Rightarrow> 's \<Rightarrow> 's" where
  "barra_par_rows n f s = fold f [0..<n] s"

definition rk_add ::
  "flib \<Rightarrow> nat \<Rightarrow> nat list \<Rightarrow> nat \<Rightarrow> f32 \<Rightarrow> nat \<Rightarrow> (nat \<Rightarrow> f32) \<Rightarrow> nat \<Rightarrow> f32" where
  "rk_add F ncol W c alpha j cr = cr(j := fl_add F (cr j) (fl_mul F alpha (fl_half F (W ! (c * ncol + j)))))"

definition rk_row ::
  "flib \<Rightarrow> nat \<Rightarrow> (nat \<Rightarrow> f32) \<Rightarrow> int list \<Rightarrow> nat \<Rightarrow> nat list \<Rightarrow> nat \<Rightarrow> nat \<Rightarrow> (nat \<Rightarrow> f32) \<Rightarrow> nat \<Rightarrow> f32" where
  "rk_row F ncol ar idx k W j0 jn cr =
     fold (\<lambda>c cr. let alpha = ar (nat (idx ! c)) in
             if zero_f alpha then cr else fold (\<lambda>j. rk_add F ncol W c alpha (j0 + j)) [0..<jn] cr) [0..<k] cr"

definition rk_block ::
  "flib \<Rightarrow> nat \<Rightarrow> nat \<Rightarrow> (nat \<Rightarrow> nat \<Rightarrow> f32) \<Rightarrow> int list \<Rightarrow> nat \<Rightarrow> nat list \<Rightarrow> nat \<Rightarrow>
   (nat \<Rightarrow> nat \<Rightarrow> f32) \<Rightarrow> nat \<Rightarrow> nat \<Rightarrow> f32" where
  "rk_block F nrow ncol A idx k W b C =
     (let j0 = b * 512; jn = (if ncol - j0 < 512 then ncol - j0 else 512) in
      fold (\<lambda>r C. C(r := rk_row F ncol (A r) idx k W j0 jn (C r))) [0..<nrow] C)"

definition barra_rank_update ::
  "flib \<Rightarrow> (nat \<Rightarrow> nat \<Rightarrow> f32) \<Rightarrow> nat \<Rightarrow> nat \<Rightarrow> (nat \<Rightarrow> nat \<Rightarrow> f32) \<Rightarrow> int list \<Rightarrow> nat \<Rightarrow> nat list \<Rightarrow>
   nat \<Rightarrow> nat \<Rightarrow> f32" where
  "barra_rank_update F C nrow ncol A idx k W =
     (if k = 0 \<or> nrow = 0 then C
      else barra_par_rows ((ncol + 511) div 512) (rk_block F nrow ncol A idx k W) C)"

section \<open>Calls\<close>

text \<open>
  The feed-forward block of the given rows on the CPU, with the original weights; nothing happens
  without a CPU backend.
\<close>

definition barra_ffn_fallback ::
  "flib \<Rightarrow> nat \<Rightarrow> nat \<Rightarrow> nat \<Rightarrow> (nat \<Rightarrow> nat \<Rightarrow> f32) \<Rightarrow> nat \<Rightarrow> nat list \<Rightarrow> fctx \<Rightarrow> fctx" where
  "barra_ffn_fallback F up gate down hb dst rows c =
     (if \<not> fx_cpu c \<or> rows = [] then c
      else
     (let D = nat (fx_D c);
          outs = fl_ffn F up gate down (map (\<lambda>r. map (hb r) [0..<D]) rows) in
      c\<lparr>fx_fm := fold (\<lambda>(r, q). put_row (fl_t F dst) r D (\<lambda>d. q ! d)) (zip rows outs) (fx_fm c),
        fx_fb := fx_fb c + length rows\<rparr>))"

definition f_begin :: "nat \<Rightarrow> fctx \<Rightarrow> fctx" where
  "f_begin p c = c\<lparr>fx_zs := cpu_begin p (fx_zs c)\<rparr>"

definition f_end :: "nat \<Rightarrow> fctx \<Rightarrow> fctx" where
  "f_end p c = c\<lparr>fx_zs := cpu_end p (fx_zs c)\<rparr>"

text \<open>An inference that is answered with 0 leaves its result in the output buffer.\<close>

definition tpu_done :: "flib \<Rightarrow> nat \<Rightarrow> nat \<Rightarrow> nat \<Rightarrow> nat option \<Rightarrow> fctx \<Rightarrow> bool \<times> fctx" where
  "tpu_done F model i q r c =
     (let c1 = c\<lparr>fx_tick := Suc (fx_tick c)\<rparr> in
      if r = None then (False, c1)
      else (True, c1\<lparr>fx_mem := (fx_mem c1)(q := fl_tpu F (fx_tick c) model (fx_mem c1 i))\<rparr>))"

definition f_infer :: "flib \<Rightarrow> nat \<Rightarrow> nat \<Rightarrow> nat \<Rightarrow> fctx \<Rightarrow> bool \<times> fctx" where
  "f_infer F model i q c =
     (case barra_tpu_infer model i q (fx_zs c, fx_se c) of (r, zs, se) \<Rightarrow>
        tpu_done F model i q r (c\<lparr>fx_zs := zs, fx_se := se\<rparr>))"

definition f_submit :: "nat \<Rightarrow> nat \<Rightarrow> nat \<Rightarrow> fctx \<Rightarrow> bool \<times> fctx" where
  "f_submit model i q c =
     (case barra_tpu_submit model i q (fx_zs c, fx_se c) of (r, zs, se) \<Rightarrow>
        (r, c\<lparr>fx_zs := zs, fx_se := se\<rparr>))"

definition f_wait :: "flib \<Rightarrow> nat \<Rightarrow> nat \<Rightarrow> nat \<Rightarrow> fctx \<Rightarrow> bool \<times> fctx" where
  "f_wait F model i q c =
     (case barra_tpu_wait i q (fx_zs c, fx_se c) of (r, zs, se) \<Rightarrow>
        tpu_done F model i q r (c\<lparr>fx_zs := zs, fx_se := se\<rparr>))"

section \<open>One package\<close>

definition z_max :: "nat \<Rightarrow> int" where "z_max b = 2 ^ (8 * b - 1) - 1"
definition z_min :: "nat \<Rightarrow> int" where "z_min b = - (2 ^ (8 * b - 1))"

definition saturates :: "flib \<Rightarrow> layer_q \<Rightarrow> nat \<Rightarrow> f32 \<Rightarrow> f32 \<Rightarrow> bool" where
  "saturates F Q b qi mx \<longleftrightarrow>
     fl_gt F (fl_add F (fl_mul F mx qi) (fl_int F (lq_izp Q))) (fl_int F (z_max b)) \<or>
     fl_gt F (fl_int F (z_min b)) (fl_add F (fl_mul F (neg_f mx) qi) (fl_int F (lq_izp Q)))"

text \<open>Row \<open>r\<close> of the tile at \<open>t0\<close>: its bytes, or zeros and an entry in the list of the CPU.\<close>

definition fused_in ::
  "flib \<Rightarrow> layer_q \<Rightarrow> nat \<Rightarrow> nat \<Rightarrow> (nat \<Rightarrow> nat \<Rightarrow> f32) \<Rightarrow> nat \<Rightarrow> nat \<Rightarrow> nat \<Rightarrow>
   nat list \<times> fctx \<Rightarrow> nat list \<times> fctx" where
  "fused_in F Q b D hb t0 n r s =
     (case s of (fb, c) \<Rightarrow>
       (let qi = fl_div F f_one (lq_isc Q); x = hb (t0 + r);
            z0 = replicate (D * b) 0;
            z = concat (map (\<lambda>d. put_z b (z_clip (z_min b) (z_max b) (fl_rint F (fl_mul F (x d) qi) + lq_izp Q)))
                  [0..<D])
        in
        if n \<le> r then (fb, c\<lparr>fx_mem := mwr ZI (r * D * b) z0 (fx_mem c)\<rparr>)
        else if saturates F Q b qi (row_max F x D)
        then (fb @ [t0 + r], c\<lparr>fx_mem := mwr ZI (r * D * b) z0 (fx_mem c)\<rparr>)
        else (fb, c\<lparr>fx_mem := mwr ZI (r * D * b) z (fx_mem c)\<rparr>)))"

definition fused_out ::
  "flib \<Rightarrow> layer_q \<Rightarrow> nat \<Rightarrow> nat \<Rightarrow> nat \<Rightarrow> nat \<Rightarrow> nat \<Rightarrow> nat list \<times> fctx \<Rightarrow> nat list \<times> fctx" where
  "fused_out F Q b D dst t0 r s =
     (case s of (fb, c) \<Rightarrow>
       (let z = (\<lambda>d. get_z b ((r * D + d) * b) (fx_mem c ZO));
            clip = list_ex (\<lambda>d. z_max b \<le> z d \<or> z d \<le> z_min b) [0..<D]
        in (if clip then fb @ [t0 + r] else fb,
            c\<lparr>fx_fm := put_row (fl_t F dst) (t0 + r) D
                (\<lambda>d. fl_mul F (fl_int F (z d - lq_ozp Q)) (lq_osc Q)) (fx_fm c)\<rparr>)))"

definition fused_tile ::
  "flib \<Rightarrow> nat \<Rightarrow> layer_q \<Rightarrow> nat \<Rightarrow> nat \<Rightarrow> nat \<Rightarrow> nat \<Rightarrow> nat \<Rightarrow> (nat \<Rightarrow> nat \<Rightarrow> f32) \<Rightarrow> nat \<Rightarrow>
   nat list \<times> fctx \<Rightarrow> nat list \<times> fctx" where
  "fused_tile F L Q b D B T dst hb t0 s =
     (case s of (fb, c) \<Rightarrow>
       (let n = min B (T - t0) in
        case fold (fused_in F Q b D hb t0 n) [0..<B] (fb, f_begin ZI c) of (fb1, c1) \<Rightarrow>
       (case f_infer F L ZI ZO (f_end ZI c1) of
          (False, c2) \<Rightarrow> (fb1 @ map (\<lambda>r. t0 + r) [0..<n], c2)
        | (True, c2) \<Rightarrow>
           (case fold (fused_out F Q b D dst t0) [0..<n] (fb1, f_begin ZO c2) of (fb2, c3) \<Rightarrow>
              (fb2, f_end ZO c3)))))"

definition tiles :: "nat \<Rightarrow> nat \<Rightarrow> nat list" where
  "tiles n b = map (\<lambda>i. i * b) [0..<(n + b - 1) div b]"

text \<open>The self test, which also overwrites the result with that of the CPU.\<close>

definition barra_check ::
  "flib \<Rightarrow> nat \<Rightarrow> nat \<Rightarrow> nat \<Rightarrow> (nat \<Rightarrow> nat \<Rightarrow> f32) \<Rightarrow> nat \<Rightarrow> nat \<Rightarrow> fctx \<Rightarrow> fctx" where
  "barra_check F up gate down hb dst T c =
     (if fl_env F ''BARRA_CHECK'' \<noteq> None \<and> fx_cpu c \<and> fx_calls c \<le> 48
      then barra_ffn_fallback F up gate down hb dst [0..<T] c else c)"

definition barra_ffn_fused ::
  "flib \<Rightarrow> nat \<Rightarrow> nat \<Rightarrow> nat \<Rightarrow> nat \<Rightarrow> nat \<Rightarrow> nat \<Rightarrow> fctx \<Rightarrow> fctx" where
  "barra_ffn_fused F L up gate down h dst c =
     (let D = nat (fx_D c); B = nat (fx_B c); T = tn_ne (fl_t F h) 1; Q = fx_q c ! L;
          b = (if fx_bits c = 16 then 2 else 1);
          hb = (\<lambda>r. get_rowf (fl_t F h) r (fx_fm c)) in
      if fl_env F ''BARRA_FORCE_FB'' \<noteq> None
      then (let c1 = barra_ffn_fallback F up gate down hb dst [0..<T] c in
            c1\<lparr>fx_calls := Suc (fx_calls c1), fx_rows := fx_rows c1 + T\<rparr>)
      else
     (case fold (fused_tile F L Q b D B T dst hb) (tiles T B) ([], c) of (fb, c1) \<Rightarrow>
        barra_check F up gate down hb dst T
          (barra_ffn_fallback F up gate down hb dst fb
            (c1\<lparr>fx_calls := Suc (fx_calls c1), fx_rows := fx_rows c1 + T\<rparr>))))"

end
