(* ===== verification/Ffn_Split.thy ===== *)
theory Ffn_Split
  imports Ffn_Tpu
begin

text \<open>
  \<open>barra_ffn_split\<close> of src/src/ggml-barra/ggml-barra.cpp: gate, up and down as three packages. Rows are
  scaled to the range of the package; elements that clip are computed again in a further pass with a
  smaller input, and rows that still clip go to the CPU. The largest channels can be taken out of the
  TPU's input and added on the CPU.
\<close>

text \<open>What does not change during a call, and the local state of a tile.\<close>

record spar =
  sp_L :: nat
  sp_D :: nat
  sp_FF :: nat
  sp_B :: nat
  sp_Bd :: nat
  sp_qmax :: f32
  sp_div :: f32
  sp_divgu :: f32
  sp_qg :: layer_q
  sp_qu :: layer_q
  sp_qd :: layer_q
  sp_ol :: "outl option"
  sp_dst :: nat
  sp_maxpass :: nat
  sp_isa :: "(nat \<Rightarrow> f32) option"

record sst =
  t_c :: fctx
  t_a :: "nat \<Rightarrow> nat \<Rightarrow> f32"
  t_srow :: "nat \<Rightarrow> f32"
  t_clip :: "nat \<Rightarrow> bool"
  t_clip2 :: "nat \<Rightarrow> bool"
  t_ce :: "nat \<Rightarrow> nat \<Rightarrow> bool"
  t_cd :: "nat \<Rightarrow> nat \<Rightarrow> bool"
  t_cg :: "nat \<Rightarrow> nat \<Rightarrow> f32"
  t_cu :: "nat \<Rightarrow> nat \<Rightarrow> f32"
  t_cdn :: "nat \<Rightarrow> nat \<Rightarrow> f32"
  t_todo :: bool
  t_fb :: "nat list"

definition sgn8 :: "(nat \<Rightarrow> byte) \<Rightarrow> nat \<Rightarrow> int" where
  "sgn8 m k = get_z 1 k m"

definition clipped8 :: "int \<Rightarrow> bool" where
  "clipped8 v \<longleftrightarrow> 127 \<le> v \<or> v \<le> -128"

text \<open>Zero the buffer, then quantize each row of the list into it; row \<open>r\<close> goes to place \<open>r - base\<close>.\<close>

definition q8_rows ::
  "flib \<Rightarrow> nat \<Rightarrow> nat \<Rightarrow> nat \<Rightarrow> f32 \<Rightarrow> layer_q \<Rightarrow> (nat \<Rightarrow> nat \<Rightarrow> f32) \<Rightarrow> nat \<Rightarrow> nat list \<Rightarrow> sst \<Rightarrow> sst" where
  "q8_rows F p sz w qm Q x base rows s =
     barra_par_rows (length rows)
       (\<lambda>k s. let r = rows ! k in
          case barra_q8_row F (x r) w qm (lq_isc Q) (lq_izp Q) of (sr, z) \<Rightarrow>
            s\<lparr>t_srow := (t_srow s)(r := sr),
              t_c := (t_c s)\<lparr>fx_mem := mwr p ((r - base) * w) z (fx_mem (t_c s))\<rparr>\<rparr>)
       (s\<lparr>t_c := (t_c s)\<lparr>fx_mem := mwr p 0 (replicate sz 0) (fx_mem (t_c s))\<rparr>\<rparr>)"

text \<open>
  The element of row \<open>r\<close> from the two outputs: the value of the gate, the value of up, and whether one
  of them clips; and the activation.
\<close>

definition gu_elem :: "flib \<Rightarrow> spar \<Rightarrow> nat \<Rightarrow> nat \<Rightarrow> sst \<Rightarrow> f32 \<times> bool" where
  "gu_elem F P r j s =
     (let gq = sgn8 (fx_mem (t_c s) ZOG) (r * sp_FF P + j); uq = sgn8 (fx_mem (t_c s) ZOU) (r * sp_FF P + j);
          sg = fl_mul F (lq_osc (sp_qg P)) (t_srow s r); su = fl_mul F (lq_osc (sp_qu P)) (t_srow s r);
          g0 = fl_mul F (fl_int F (gq - lq_ozp (sp_qg P))) sg;
          u0 = fl_mul F (fl_int F (uq - lq_ozp (sp_qu P))) su;
          g = (if sp_ol P = None then g0 else fl_add F g0 (t_cg s r j));
          u = (if sp_ol P = None then u0 else fl_add F u0 (t_cu s r j))
      in (fl_mul F (fl_div F g (fl_add F f_one (fl_exp F (neg_f g)))) u, clipped8 gq \<or> clipped8 uq))"

definition gu_row :: "flib \<Rightarrow> spar \<Rightarrow> nat \<Rightarrow> sst \<Rightarrow> sst" where
  "gu_row F P r s =
     (let todo = (\<lambda>j. j < sp_FF P \<and> t_ce s r j) in
      s\<lparr>t_a := (t_a s)(r := (\<lambda>j. if todo j then fst (gu_elem F P r j s) else t_a s r j)),
        t_ce := (t_ce s)(r := (\<lambda>j. if todo j then snd (gu_elem F P r j s) else t_ce s r j)),
        t_clip := (t_clip s)(r := list_ex (\<lambda>j. todo j \<and> snd (gu_elem F P r j s)) [0..<sp_FF P])\<rparr>)"

text \<open>
  One of the two inferences of a pass, with the correction of the outlier channels computed while it
  runs.
\<close>

definition gu_infer ::
  "flib \<Rightarrow> spar \<Rightarrow> nat \<Rightarrow> nat \<Rightarrow> (outl \<Rightarrow> sst \<Rightarrow> sst) \<Rightarrow> sst \<Rightarrow> bool \<times> sst" where
  "gu_infer F P model q corr s =
     (case f_submit model ZID q (t_c s) of
        (False, c1) \<Rightarrow> (False, s\<lparr>t_c := c1\<rparr>)
      | (True, c1) \<Rightarrow>
         (let s1 = s\<lparr>t_c := c1\<rparr>;
              s2 = (case sp_ol P of None \<Rightarrow> s1 | Some x \<Rightarrow> if t_todo s1 then corr x s1 else s1)
          in case f_wait F model ZID q (t_c s2) of (r, c2) \<Rightarrow> (r, s2\<lparr>t_c := c2\<rparr>)))"

text \<open>\<open>hsrc\<close>: the rows for the TPU; \<open>horig\<close>: the same with the outlier channels. True: it failed.\<close>

definition run_gu ::
  "flib \<Rightarrow> spar \<Rightarrow> (nat \<Rightarrow> nat \<Rightarrow> f32) \<Rightarrow> (nat \<Rightarrow> nat \<Rightarrow> f32) \<Rightarrow> nat \<Rightarrow> nat list \<Rightarrow> f32 \<Rightarrow> sst \<Rightarrow> bool \<times> sst" where
  "run_gu F P hsrc horig n rows dv s =
     (let s1 = q8_rows F ZID (sp_B P * sp_D P) (sp_D P) (fl_div F (sp_qmax P) dv) (sp_qg P) hsrc 0 rows
                 (s\<lparr>t_c := f_begin ZID (t_c s)\<rparr>);
          s2 = s1\<lparr>t_c := f_end ZID (t_c s1)\<rparr>
      in
      case gu_infer F P (3 * sp_L P) ZOG
             (\<lambda>x s. s\<lparr>t_cg := barra_rank_update F (t_cg s) n (sp_FF P) horig (ol_od x) (ol_kd x) (ol_wg x)\<rparr>) s2 of
        (False, s3) \<Rightarrow> (True, s3\<lparr>t_todo := False\<rparr>)
      | (True, s3) \<Rightarrow>
     (case gu_infer F P (3 * sp_L P + 1) ZOU
             (\<lambda>x s. s\<lparr>t_cu := barra_rank_update F (t_cu s) n (sp_FF P) horig (ol_od x) (ol_kd x) (ol_wu x)\<rparr>) s3 of
        (False, s4) \<Rightarrow> (True, s4\<lparr>t_todo := False\<rparr>)
      | (True, s4) \<Rightarrow>
     (let s5 = s4\<lparr>t_todo := False, t_c := f_begin ZOU (f_begin ZOG (t_c s4))\<rparr>;
          s6 = barra_par_rows (length rows) (\<lambda>k. gu_row F P (rows ! k)) s5
      in (False, s6\<lparr>t_c := f_end ZOU (f_end ZOG (t_c s6))\<rparr>))))"

text \<open>Row \<open>r\<close> of the down package, into the destination.\<close>

definition dn_elem :: "flib \<Rightarrow> spar \<Rightarrow> nat \<Rightarrow> nat \<Rightarrow> nat \<Rightarrow> sst \<Rightarrow> f32 \<times> bool" where
  "dn_elem F P base r d s =
     (let v = sgn8 (fx_mem (t_c s) ZOD) ((r - base) * sp_D P + d) in
      (fl_add F (fl_mul F (fl_int F (v - lq_ozp (sp_qd P))) (fl_mul F (lq_osc (sp_qd P)) (t_srow s r)))
         (if sp_ol P = None then 0 else t_cdn s r d), clipped8 v))"

definition dn_row :: "flib \<Rightarrow> spar \<Rightarrow> nat \<Rightarrow> nat \<Rightarrow> nat \<Rightarrow> sst \<Rightarrow> sst" where
  "dn_row F P t0 base r s =
     (let todo = (\<lambda>d. t_cd s r d) in
      s\<lparr>t_c := (t_c s)\<lparr>fx_fm := fold (\<lambda>d m. if todo d
               then put_elem (fl_t F (sp_dst P)) (t0 + r) d (fst (dn_elem F P base r d s)) m else m)
             [0..<sp_D P] (fx_fm (t_c s))\<rparr>,
        t_cd := (t_cd s)(r := (\<lambda>d. if d < sp_D P \<and> todo d then snd (dn_elem F P base r d s) else t_cd s r d)),
        t_clip2 := (t_clip2 s)(r := list_ex (\<lambda>d. todo d \<and> snd (dn_elem F P base r d s)) [0..<sp_D P])\<rparr>)"

definition run_dn ::
  "flib \<Rightarrow> spar \<Rightarrow> nat \<Rightarrow> nat \<Rightarrow> nat list \<Rightarrow> f32 \<Rightarrow> sst \<Rightarrow> bool \<times> sst" where
  "run_dn F P t0 base rows dv s =
     (let s1 = q8_rows F ZIF (sp_Bd P * sp_FF P) (sp_FF P) (fl_div F (sp_qmax P) dv) (sp_qd P) (t_a s) base rows
                 (s\<lparr>t_c := f_begin ZIF (t_c s)\<rparr>)
      in
      case f_infer F (3 * sp_L P + 2) ZIF ZOD (f_end ZIF (t_c s1)) of
        (False, c2) \<Rightarrow> (True, s1\<lparr>t_c := c2\<rparr>)
      | (True, c2) \<Rightarrow>
         (let s3 = fold (dn_row F P t0 base) rows (s1\<lparr>t_c := f_begin ZOD c2\<rparr>)
          in (False, s3\<lparr>t_c := f_end ZOD (t_c s3)\<rparr>)))"

definition push_fb :: "nat \<Rightarrow> nat list \<Rightarrow> sst \<Rightarrow> sst" where
  "push_fb t0 rows s = s\<lparr>t_fb := t_fb s @ map (\<lambda>r. t0 + r) rows\<rparr>"

definition count_pass :: "nat \<Rightarrow> sst \<Rightarrow> sst" where
  "count_pass pass s = (if 1 < pass then s\<lparr>t_c := (t_c s)\<lparr>fx_pass2 := Suc (fx_pass2 (t_c s))\<rparr>\<rparr> else s)"

text \<open>
  The passes over gate and up: when an inference fails, the rows of this pass go to the CPU and the
  result is True; the rows that an earlier pass has finished are in no list.
\<close>

fun gu_passes ::
  "flib \<Rightarrow> spar \<Rightarrow> nat \<Rightarrow> (nat \<Rightarrow> nat \<Rightarrow> f32) \<Rightarrow> (nat \<Rightarrow> nat \<Rightarrow> f32) \<Rightarrow> nat \<Rightarrow> nat \<Rightarrow> nat \<Rightarrow> nat list \<Rightarrow> f32 \<Rightarrow>
   sst \<Rightarrow> bool \<times> sst" where
  "gu_passes F P t0 hsrc horig n 0 pass rows dv s = (False, s)"
| "gu_passes F P t0 hsrc horig n (Suc m) pass rows dv s =
     (if rows = [] then (False, s)
      else
     (case run_gu F P hsrc horig n rows dv (count_pass pass s) of
        (True, s1) \<Rightarrow> (True, push_fb t0 rows s1)
      | (False, s1) \<Rightarrow>
          if \<not> fl_gt F (sp_divgu P) f_one then (False, s1)
          else gu_passes F P t0 hsrc horig n m (Suc pass) (filter (t_clip s1) rows)
                 (fl_mul F dv (sp_divgu P)) s1))"

text \<open>The passes over a sub-tile of down; the rows left over at the end clip still.\<close>

fun dn_passes ::
  "flib \<Rightarrow> spar \<Rightarrow> nat \<Rightarrow> nat \<Rightarrow> nat \<Rightarrow> nat \<Rightarrow> nat list \<Rightarrow> f32 \<Rightarrow> sst \<Rightarrow> sst" where
  "dn_passes F P t0 base 0 pass rows dv s = push_fb t0 rows s"
| "dn_passes F P t0 base (Suc m) pass rows dv s =
     (if rows = [] then push_fb t0 rows s
      else
     (case run_dn F P t0 base rows dv (count_pass pass s) of
        (True, s1) \<Rightarrow> push_fb t0 rows s1
      | (False, s1) \<Rightarrow>
         (let rest = filter (t_clip2 s1) rows in
          if \<not> fl_gt F (sp_div P) f_one then push_fb t0 rest s1
          else dn_passes F P t0 base m (Suc pass) rest (fl_mul F dv (sp_div P)) s1)))"

definition zero_channels :: "int list \<Rightarrow> nat \<Rightarrow> (nat \<Rightarrow> f32) \<Rightarrow> nat \<Rightarrow> f32" where
  "zero_channels ch k x = fold (\<lambda>c x. x(nat (ch ! c) := 0)) [0..<k] x"

text \<open>Before down: the smoothing, then the outlier channels of \<open>a\<close>.\<close>

definition prep_down :: "flib \<Rightarrow> spar \<Rightarrow> nat \<Rightarrow> nat list \<Rightarrow> sst \<Rightarrow> sst" where
  "prep_down F P n okrows s =
     (let s1 = (case sp_isa P of
                  None \<Rightarrow> s
                | Some isa \<Rightarrow> barra_par_rows (length okrows)
                    (\<lambda>k s. let r = okrows ! k in
                       s\<lparr>t_a := (t_a s)(r := (\<lambda>j. if j < sp_FF P then fl_mul F (t_a s r j) (isa j) else t_a s r j))\<rparr>) s)
      in
      case sp_ol P of
        None \<Rightarrow> s1
      | Some x \<Rightarrow>
         (let zero = (\<lambda>r s. s\<lparr>t_a := (t_a s)(r := zero_channels (ol_of x) (ol_kf x) (t_a s r))\<rparr>);
              s2 = fold zero (filter (\<lambda>r. r \<notin> set okrows) [0..<n]) s1;
              s3 = s2\<lparr>t_cdn := barra_rank_update F (\<lambda>_ _. 0) n (sp_D P) (t_a s2) (ol_of x) (ol_kf x) (ol_wd x)\<rparr>
          in fold zero okrows s3))"

definition split_tile :: "flib \<Rightarrow> spar \<Rightarrow> (nat \<Rightarrow> nat \<Rightarrow> f32) \<Rightarrow> nat \<Rightarrow> nat \<Rightarrow> sst \<Rightarrow> sst" where
  "split_tile F P hq T t0 s =
     (let n = min (sp_B P) (T - t0); horig = (\<lambda>r. hq (t0 + r));
          hsrc = (case sp_ol P of None \<Rightarrow> horig | Some x \<Rightarrow> (\<lambda>r. zero_channels (ol_od x) (ol_kd x) (horig r)));
          s1 = s\<lparr>t_todo := sp_ol P \<noteq> None, t_ce := (\<lambda>_ _. True), t_cd := (\<lambda>_ _. True)\<rparr>;
          s2 = (if sp_ol P = None then s1 else s1\<lparr>t_cg := (\<lambda>_ _. 0), t_cu := (\<lambda>_ _. 0)\<rparr>)
      in
      case gu_passes F P t0 hsrc horig n (sp_maxpass P) 1 [0..<n] f_one s2 of
        (True, s3) \<Rightarrow> s3
      | (False, s3) \<Rightarrow>
         (let s4 = push_fb t0 (filter (t_clip s3) [0..<n]) s3;
              okrows = filter (\<lambda>r. \<not> t_clip s3 r) [0..<n]
          in if okrows = [] then s4
             else fold (\<lambda>base s.
                     let rows = filter (\<lambda>r. base \<le> r \<and> r < base + sp_Bd P) okrows in
                     if rows = [] then s else dn_passes F P t0 base (sp_maxpass P) 1 rows f_one s)
                   (tiles n (sp_Bd P)) (prep_down F P n okrows s4)))"

definition max_pass :: "flib \<Rightarrow> nat" where
  "max_pass F = (case fl_env F ''BARRA_MAX_PASS'' of None \<Rightarrow> 3 | Some e \<Rightarrow> if atoi e < 1 then 1 else nat (atoi e))"

definition barra_qmax :: "flib \<Rightarrow> f32" where
  "barra_qmax F = (case fl_env F ''BARRA_QMAX'' of None \<Rightarrow> f_127 | Some e \<Rightarrow> fl_float F (fl_atof F e))"

definition at_least_one :: "flib \<Rightarrow> f32 \<Rightarrow> f32" where
  "at_least_one F x = (if fl_gt F x f_one then x else f_one)"

definition split_par :: "flib \<Rightarrow> nat \<Rightarrow> nat \<Rightarrow> fctx \<Rightarrow> spar" where
  "split_par F L dst c =
     (let D = nat (fx_D c); FF = nat (fx_FF c) in
      \<lparr>sp_L = L, sp_D = D, sp_FF = FF, sp_B = nat (fx_B c),
       sp_Bd = nat (if fx_Bd c > 0 then fx_Bd c else fx_B c), sp_qmax = barra_qmax F,
       sp_div = at_least_one F (fx_div c), sp_divgu = at_least_one F (fx_divgu c),
       sp_qg = fx_q c ! (3 * L), sp_qu = fx_q c ! (3 * L + 1), sp_qd = fx_q c ! (3 * L + 2),
       sp_ol = (if L < length (fx_ol c) \<and> 0 < ol_kd (fx_ol c ! L) then Some (fx_ol c ! L) else None),
       sp_dst = dst, sp_maxpass = max_pass F,
       sp_isa = (if fx_smooth c = [] then None else Some (\<lambda>j. fx_smooth c ! (L * (D + FF) + D + j)))\<rparr>)"

definition barra_ffn_split ::
  "flib \<Rightarrow> nat \<Rightarrow> nat \<Rightarrow> nat \<Rightarrow> nat \<Rightarrow> nat \<Rightarrow> nat \<Rightarrow> fctx \<Rightarrow> fctx" where
  "barra_ffn_split F L up gate down h dst c =
     (let P = split_par F L dst c; D = sp_D P; T = tn_ne (fl_t F h) 1;
          hb = (\<lambda>r. get_rowf (fl_t F h) r (fx_fm c));
          hq = (if fx_smooth c = [] then hb
                else (\<lambda>r d. fl_mul F (hb r d) (fx_smooth c ! (L * (D + sp_FF P) + d))));
          s0 = \<lparr>t_c = c, t_a = (\<lambda>_ _. 0), t_srow = (\<lambda>_. 0), t_clip = (\<lambda>_. False), t_clip2 = (\<lambda>_. False),
                t_ce = (\<lambda>_ _. True), t_cd = (\<lambda>_ _. True), t_cg = (\<lambda>_ _. 0), t_cu = (\<lambda>_ _. 0),
                t_cdn = (\<lambda>_ _. 0), t_todo = False, t_fb = []\<rparr>;
          s1 = fold (split_tile F P hq T) (tiles T (sp_B P)) s0;
          c1 = (t_c s1)\<lparr>fx_calls := Suc (fx_calls (t_c s1)), fx_rows := fx_rows (t_c s1) + T\<rparr>
      in barra_check F up gate down hb dst T (barra_ffn_fallback F up gate down hb dst (t_fb s1) c1))"

end
