(* ===== verification/Ffn_Graph.thy ===== *)
theory Ffn_Graph
  imports Ffn_Split
begin

text \<open>
  The graph level of src/src/ggml-barra/ggml-barra.cpp: which nodes the scheduler may give to the TPU
  backend (\<open>ggml_backend_barra_device_supports_op\<close>) and what \<open>ggml_backend_barra_graph_compute\<close> does
  with them. \<open>None\<close> is GGML_ABORT.
\<close>

definition f_src :: "flib \<Rightarrow> nat \<Rightarrow> nat \<Rightarrow> nat option" where
  "f_src F p k = tn_src (fl_t F p) k"

definition f_op :: "flib \<Rightarrow> nat \<Rightarrow> gop" where
  "f_op F p = tn_op (fl_t F p)"

text \<open>One node alone, on the CPU backend.\<close>

definition barra_node_on_cpu :: "flib \<Rightarrow> nat \<Rightarrow> fctx \<Rightarrow> fctx option" where
  "barra_node_on_cpu F p c = (if fx_cpu c then Some (c\<lparr>fx_fm := fl_node F p (fx_fm c)\<rparr>) else None)"

text \<open>
  The fusion at a down node: layer, weights of up and gate, and the input, when the node is fed by a
  GLU of the gate and the up product of the same layer and the same input.
\<close>

definition ffn_match :: "flib \<Rightarrow> nat \<Rightarrow> int \<Rightarrow> (nat \<times> nat \<times> nat) option" where
  "ffn_match F p l =
     (case f_src F p 1 of
        None \<Rightarrow> None
      | Some glu \<Rightarrow>
          if f_op F glu \<noteq> OpGlu then None
          else
         (case (f_src F glu 0, f_src F glu 1) of
            (Some g, Some u) \<Rightarrow>
              if f_op F g = OpMulMat \<and> f_op F u = OpMulMat \<and>
                 barra_ffn_kind F (f_src F g 0) = Some (1, l) \<and> barra_ffn_kind F (f_src F u 0) = Some (0, l) \<and>
                 f_src F g 1 = f_src F u 1
              then Some (the (f_src F u 0), the (f_src F g 0), the (f_src F g 1))
              else None
          | _ \<Rightarrow> None))"

definition is_down :: "flib \<Rightarrow> nat \<Rightarrow> bool" where
  "is_down F m \<longleftrightarrow> f_op F m = OpMulMat \<and> map_option fst (barra_ffn_kind F (f_src F m 0)) = Some 2"

text \<open>A later down node takes the product \<open>p\<close> through a GLU, or takes the GLU \<open>p\<close>.\<close>

definition mm_consumed :: "flib \<Rightarrow> nat list \<Rightarrow> nat \<Rightarrow> bool" where
  "mm_consumed F cg i \<longleftrightarrow>
     list_ex (\<lambda>m. is_down F m \<and>
       (case f_src F m 1 of
          None \<Rightarrow> False
        | Some glu \<Rightarrow> f_op F glu = OpGlu \<and> (f_src F glu 0 = Some (cg ! i) \<or> f_src F glu 1 = Some (cg ! i))))
     (drop (Suc i) cg)"

definition glu_consumed :: "flib \<Rightarrow> nat list \<Rightarrow> nat \<Rightarrow> bool" where
  "glu_consumed F cg i \<longleftrightarrow>
     list_ex (\<lambda>m. is_down F m \<and> f_src F m 1 = Some (cg ! i)) (drop (Suc i) cg)"

definition barra_step :: "flib \<Rightarrow> nat list \<Rightarrow> nat \<Rightarrow> fctx \<Rightarrow> fctx option" where
  "barra_step F cg i c =
     (let p = cg ! i in
      if \<not> tn_flag (fl_t F p) then Some c
      else if f_op F p \<in> {OpNone, OpReshape, OpView, OpPermute, OpTranspose} then Some c
      else if f_op F p = OpMulMat
      then (case barra_ffn_kind F (f_src F p 0) of
              Some (k, l) \<Rightarrow>
                if k = 2
                then (case ffn_match F p l of
                        Some (uw, gw, h) \<Rightarrow>
                          Some (if fx_split c = 3
                                then barra_ffn_split F (nat l) uw gw (the (f_src F p 0)) h p c
                                else barra_ffn_fused F (nat l) uw gw (the (f_src F p 0)) h p c)
                      | None \<Rightarrow> barra_node_on_cpu F p c)
                else if mm_consumed F cg i then Some c else barra_node_on_cpu F p c
            | None \<Rightarrow> if mm_consumed F cg i then Some c else barra_node_on_cpu F p c)
      else if f_op F p = OpGlu
      then (if glu_consumed F cg i then Some c else barra_node_on_cpu F p c)
      else None)"

fun barra_loop :: "flib \<Rightarrow> nat list \<Rightarrow> nat list \<Rightarrow> fctx \<Rightarrow> fctx option" where
  "barra_loop F cg [] c = Some c"
| "barra_loop F cg (i # is) c =
     (case barra_step F cg i c of None \<Rightarrow> None | Some c1 \<Rightarrow> barra_loop F cg is c1)"

definition ggml_backend_barra_graph_compute :: "flib \<Rightarrow> nat list \<Rightarrow> fctx \<Rightarrow> fctx option" where
  "ggml_backend_barra_graph_compute F cg c = barra_loop F cg [0..<length cg] c"

section \<open>What the scheduler may offer\<close>

definition sup_ffn_mm :: "flib \<Rightarrow> fctx \<Rightarrow> nat \<Rightarrow> bool" where
  "sup_ffn_mm F c p \<longleftrightarrow>
     (case barra_ffn_kind F (f_src F p 0) of
        None \<Rightarrow> False
      | Some (k, l) \<Rightarrow>
         (let w = fl_t F (the (f_src F p 0)); xp = the (f_src F p 1); x = fl_t F xp;
              din = (if k = 2 then fx_FF c else fx_D c); dout = (if k = 2 then fx_D c else fx_FF c) in
          0 \<le> l \<and> l < fx_NL c \<and> tn_type x = TF32 \<and> fl_contig F xp \<and> tn_ne x 2 = 1 \<and> tn_ne x 3 = 1 \<and>
          fx_minb c \<le> int (tn_ne x 1) \<and> int (tn_ne w 0) = din \<and> int (tn_ne w 1) = dout \<and>
          int (tn_ne x 0) = din))"

definition sup_ffn_glu :: "flib \<Rightarrow> fctx \<Rightarrow> nat \<Rightarrow> bool" where
  "sup_ffn_glu F c p \<longleftrightarrow>
     fl_glop F p = GSwiglu \<and>
     (case f_src F p 1 of
        None \<Rightarrow> False
      | Some u \<Rightarrow>
         (let g = the (f_src F p 0) in
          f_op F g = OpMulMat \<and> f_op F u = OpMulMat \<and>
          (case (barra_ffn_kind F (f_src F g 0), barra_ffn_kind F (f_src F u 0)) of
             (Some (kg, lg), Some (ku, lu)) \<Rightarrow> kg = 1 \<and> ku = 0 \<and> lg = lu
           | _ \<Rightarrow> False) \<and>
          fx_minb c \<le> int (tn_ne (fl_t F p) 1) \<and> int (tn_ne (fl_t F p) 0) = fx_FF c))"

text \<open>\<open>c\<close>: the context of the last \<open>ggml_backend_barra_init\<close>, a global of the source.\<close>

definition ggml_backend_barra_device_supports_op :: "flib \<Rightarrow> fctx option \<Rightarrow> nat \<Rightarrow> bool" where
  "ggml_backend_barra_device_supports_op F c p \<longleftrightarrow>
     (case c of
        None \<Rightarrow> False
      | Some c1 \<Rightarrow>
          fx_ready c1 \<and>
          (case f_op F p of OpMulMat \<Rightarrow> sup_ffn_mm F c1 p | OpGlu \<Rightarrow> sup_ffn_glu F c1 p | _ \<Rightarrow> False))"

text \<open>A buffer type is taken when it is host memory or belongs to a device that is a CPU.\<close>

definition ggml_backend_barra_device_supports_buft :: "bool \<Rightarrow> bool option \<Rightarrow> bool" where
  "ggml_backend_barra_device_supports_buft host cpu_dev \<longleftrightarrow> host \<or> cpu_dev = Some True"

end
