(* ===== verification/Ffn_Rows.thy ===== *)
theory Ffn_Rows
  imports Ffn_Graph
begin

text \<open>
  Lemmas about the row computations of src/src/ggml-barra/ggml-barra.cpp: the blocked update of the
  outlier channels, and what the rows of a tile leave in the buffers and in the destination.
\<close>

section \<open>The blocked update\<close>

lemma fold_upt_Suc: "fold f [0..<Suc n] s = f n (fold f [0..<n] s)"
  by simp

text \<open>One element, channel after channel; and the whole matrix.\<close>

definition rk_elem :: "flib \<Rightarrow> nat \<Rightarrow> (nat \<Rightarrow> f32) \<Rightarrow> int list \<Rightarrow> nat \<Rightarrow> nat list \<Rightarrow> nat \<Rightarrow> f32 \<Rightarrow> f32" where
  "rk_elem F ncol ar idx k W j x =
     fold (\<lambda>c x. if zero_f (ar (nat (idx ! c))) then x
             else fl_add F x (fl_mul F (ar (nat (idx ! c))) (fl_half F (W ! (c * ncol + j))))) [0..<k] x"

definition rank_ref ::
  "flib \<Rightarrow> (nat \<Rightarrow> nat \<Rightarrow> f32) \<Rightarrow> nat \<Rightarrow> nat \<Rightarrow> (nat \<Rightarrow> nat \<Rightarrow> f32) \<Rightarrow> int list \<Rightarrow> nat \<Rightarrow> nat list \<Rightarrow>
   nat \<Rightarrow> nat \<Rightarrow> f32" where
  "rank_ref F C nrow ncol A idx k W r j =
     (if r < nrow \<and> j < ncol then rk_elem F ncol (A r) idx k W j (C r j) else C r j)"

lemma rk_adds:
  "fold (\<lambda>j. rk_add F ncol W c alpha (j0 + j)) [0..<jn] cr =
     (\<lambda>j. if j0 \<le> j \<and> j < j0 + jn then fl_add F (cr j) (fl_mul F alpha (fl_half F (W ! (c * ncol + j))))
          else cr j)"
proof (induction jn)
  case (Suc jn)
  then show ?case unfolding fold_upt_Suc Suc.IH by (auto simp: rk_add_def fun_eq_iff)
qed auto

lemma rk_row_elem:
  "rk_row F ncol ar idx k W j0 jn cr =
     (\<lambda>j. if j0 \<le> j \<and> j < j0 + jn then rk_elem F ncol ar idx k W j (cr j) else cr j)"
  unfolding rk_row_def rk_elem_def
proof (induction k)
  case (Suc k)
  then show ?case unfolding fold_upt_Suc Suc.IH Let_def rk_adds by (auto simp: fun_eq_iff)
qed auto

lemma rk_block_elem:
  "rk_block F nrow ncol A idx k W b C =
     (\<lambda>r j. if r < nrow \<and> b * 512 \<le> j \<and> j < b * 512 + min 512 (ncol - b * 512)
            then rk_elem F ncol (A r) idx k W j (C r j) else C r j)"
proof -
  define jn where "jn = (if ncol - b * 512 < 512 then ncol - b * 512 else 512)"
  have jn: "min 512 (ncol - b * 512) = jn" by (simp add: jn_def min_def)
  have "fold (\<lambda>r C. C(r := rk_row F ncol (A r) idx k W (b * 512) jn (C r))) [0..<n] C =
      (\<lambda>r j. if r < n \<and> b * 512 \<le> j \<and> j < b * 512 + jn
            then rk_elem F ncol (A r) idx k W j (C r j) else C r j)" for n
  proof (induction n)
    case (Suc n)
    then show ?case unfolding fold_upt_Suc Suc.IH by (auto simp: rk_row_elem fun_eq_iff less_Suc_eq)
  qed simp
  then show ?thesis unfolding rk_block_def Let_def jn jn_def by simp
qed

lemma rank_update_ref: "barra_rank_update F C nrow ncol A idx k W = rank_ref F C nrow ncol A idx k W"
proof -
  have blocks: "fold (rk_block F nrow ncol A idx k W) [0..<m] C =
      (\<lambda>r j. if r < nrow \<and> j < min (m * 512) ncol then rk_elem F ncol (A r) idx k W j (C r j) else C r j)" for m
  proof (induction m)
    case (Suc m)
    have hit: "j < min (Suc m * 512) ncol \<longleftrightarrow>
        j < min (m * 512) ncol \<or> m * 512 \<le> j \<and> j < m * 512 + min 512 (ncol - m * 512)" for j
      by auto
    have old: "m * 512 \<le> j \<Longrightarrow> \<not> j < min (m * 512) ncol" for j by simp
    show ?case
      unfolding fold_upt_Suc Suc.IH unfolding rk_block_elem fun_eq_iff hit using old by auto
  qed simp
  show ?thesis
  proof (cases "k = 0 \<or> nrow = 0")
    case True
    then show ?thesis by (auto simp: barra_rank_update_def rank_ref_def rk_elem_def fun_eq_iff)
  next
    case False
    have "min ((ncol + 511) div 512 * 512) ncol = ncol"
      using div_mult_mod_eq [of "ncol + 511" 512] mod_less_divisor [of 512 "ncol + 511"] by linarith
    with False show ?thesis
      by (auto simp: barra_rank_update_def barra_par_rows_def blocks rank_ref_def fun_eq_iff)
  qed
qed

section \<open>Quantized values in a buffer\<close>

lemma length_put_z [simp]: "length (put_z b v) = b"
  by (simp add: put_z_def)

lemma mod_signed:
  assumes "- N \<le> v" "v < (N :: int)"
  shows "v mod (2 * N) = (if v < 0 then v + 2 * N else v)"
proof (cases "v < 0")
  case True
  have "v mod (2 * N) = (v + 2 * N) mod (2 * N)" by simp
  also have "\<dots> = v + 2 * N" using True assms by (intro mod_pos_pos_trivial) simp_all
  finally show ?thesis using True by simp
next
  case False
  then show ?thesis using assms by simp
qed

lemma z_bytes:
  assumes b: "0 < b" and v: "z_min b \<le> v" "v \<le> z_max b" and m: "map m [off..<off + b] = put_z b v"
  shows "get_z b off m = v"
proof -
  define N :: nat where "N = 2 ^ (8 * b - 1)"
  have "8 * b = Suc (8 * b - 1)" using b by simp
  then have two: "(2 :: nat) ^ (8 * b) = 2 * N" unfolding N_def by (metis power_Suc)
  have v2: "- int N \<le> v" "v < int N" using v by (simp_all add: z_min_def z_max_def N_def)
  have two': "(2 :: int) ^ (8 * b) = 2 * int N" using two by (metis of_nat_mult of_nat_numeral of_nat_power)
  have p: "(256 :: nat) ^ b = 2 * N" using two by (simp add: power_mult)
  have "le_nat (map m [off..<off + b]) = nat (v mod (2 * int N)) mod (2 * N)"
    unfolding m put_z_def le_nat_le_bytes two' p by (rule refl)
  also have "\<dots> = nat (v mod (2 * int N))"
    using v2 by (simp add: mod_signed nat_less_iff)
  finally have u: "le_nat (map m [off..<off + b]) = nat (if v < 0 then v + 2 * int N else v)"
    using v2 by (simp add: mod_signed)
  show ?thesis
    unfolding get_z_def Let_def u two' N_def [symmetric] using v2 by auto
qed

lemma z_clip_bounds: "z_min b \<le> z_clip (z_min b) (z_max b) v" "z_clip (z_min b) (z_max b) v \<le> z_max b"
proof -
  have "(0 :: int) < 2 ^ (8 * b - 1)" by simp
  then have "z_min b \<le> z_max b" by (simp add: z_min_def z_max_def)
  then show "z_min b \<le> z_clip (z_min b) (z_max b) v" "z_clip (z_min b) (z_max b) v \<le> z_max b"
    by (auto simp: z_clip_def)
qed

lemma concat_rows:
  assumes "\<And>d. length (f d) = b" and "e < b" and "d < n"
  shows "concat (map f [0..<n]) ! (d * b + e) = f d ! e"
  using assms(3)
proof (induction n)
  case (Suc n)
  have len: "length (concat (map f [0..<n])) = n * b"
    using assms(1) by (simp add: length_concat o_def sum_list_triv)
  show ?case
  proof (cases "d < n")
    case True
    have "d * b + e < Suc d * b" using assms(2) by simp
    also have "\<dots> \<le> n * b" using True by (intro mult_le_mono1) simp
    finally show ?thesis using Suc.IH [OF True] len by (simp add: nth_append)
  next
    case False
    then have "d = n" using Suc.prems by simp
    then show ?thesis using len by (simp add: nth_append)
  qed
qed simp

lemma length_concat_rows:
  "(\<And>d. length (f d) = b) \<Longrightarrow> length (concat (map f [0..<n])) = n * b"
  by (simp add: length_concat o_def sum_list_triv)

text \<open>A row of values written by \<open>mwr\<close> is read back value by value.\<close>

lemma row_read:
  assumes b: "0 < b" and v: "z_min b \<le> v d" "v d \<le> z_max b" and d: "d < n"
    and m: "\<forall>i<n * b. m (off + i) = concat (map (\<lambda>d. put_z b (v d)) [0..<n]) ! i"
  shows "get_z b (off + d * b) m = v d"
proof (rule z_bytes [OF b v], rule nth_equalityI)
  show "length (map m [off + d * b..<off + d * b + b]) = length (put_z b (v d))" by simp
  fix e assume "e < length (map m [off + d * b..<off + d * b + b])"
  then have e: "e < b" by simp
  have "d * b + e < Suc d * b" using e by simp
  also have "\<dots> \<le> n * b" using d by (intro mult_le_mono1) simp
  finally have "m (off + (d * b + e)) = concat (map (\<lambda>d. put_z b (v d)) [0..<n]) ! (d * b + e)"
    using m by blast
  also have "\<dots> = put_z b (v d) ! e" by (rule concat_rows [OF _ e d]) simp
  finally show "map m [off + d * b..<off + d * b + b] ! e = put_z b (v d) ! e"
    using e by (simp add: add.assoc)
qed

section \<open>A tile of the fused package\<close>

text \<open>The quantized input of a row.\<close>

definition q_in :: "flib \<Rightarrow> layer_q \<Rightarrow> nat \<Rightarrow> (nat \<Rightarrow> f32) \<Rightarrow> nat \<Rightarrow> int" where
  "q_in F Q b x d = z_clip (z_min b) (z_max b) (fl_rint F (fl_mul F (x d) (fl_div F f_one (lq_isc Q))) + lq_izp Q)"

lemma q_in_bounds: "z_min b \<le> q_in F Q b x d" "q_in F Q b x d \<le> z_max b"
  unfolding q_in_def by (rule z_clip_bounds)+

lemma mwr_same: "mwr p off bs m p i = (if off \<le> i \<and> i < off + length bs then bs ! (i - off) else m p i)"
  by (simp add: mwr_def)

lemma fused_in_rows:
  assumes "fold (fused_in F Q b D hb t0 n) [0..<k] (fb, c) = (fb1, c1)"
  shows "fb1 = fb @ map (\<lambda>r. t0 + r)
      (filter (\<lambda>r. r < n \<and> saturates F Q b (fl_div F f_one (lq_isc Q)) (row_max F (hb (t0 + r)) D)) [0..<k]) \<and>
    (\<exists>m. c1 = c\<lparr>fx_mem := m\<rparr> \<and>
      (\<forall>r<k. r < n \<and> t0 + r \<notin> set fb1 \<longrightarrow>
        (\<forall>i<D * b. m ZI (r * D * b + i) = concat (map (\<lambda>d. put_z b (q_in F Q b (hb (t0 + r)) d)) [0..<D]) ! i)))"
  using assms
proof (induction k arbitrary: fb1 c1)
  case 0
  then show ?case by (auto intro: exI [of _ "fx_mem c"])
next
  case (Suc k)
  obtain fb0 c0 where s: "fold (fused_in F Q b D hb t0 n) [0..<k] (fb, c) = (fb0, c0)" by (metis surj_pair)
  let ?sat = "\<lambda>r. r < n \<and> saturates F Q b (fl_div F f_one (lq_isc Q)) (row_max F (hb (t0 + r)) D)"
  let ?z = "\<lambda>r. concat (map (\<lambda>d. put_z b (q_in F Q b (hb (t0 + r)) d)) [0..<D])"
  have fb0: "fb0 = fb @ map (\<lambda>r. t0 + r) (filter ?sat [0..<k])" using Suc.IH [OF s] by blast
  obtain m0 where m0: "c0 = c\<lparr>fx_mem := m0\<rparr>"
    "\<forall>r<k. r < n \<and> t0 + r \<notin> set fb0 \<longrightarrow> (\<forall>i<D * b. m0 ZI (r * D * b + i) = ?z r ! i)"
    using Suc.IH [OF s] by blast
  define w where "w = (if n \<le> k \<or> ?sat k then replicate (D * b) 0 else ?z k)"
  have lw: "length w = D * b" by (simp add: w_def length_concat_rows)
  have step: "fused_in F Q b D hb t0 n k (fb0, c0) =
      (if ?sat k then fb0 @ [t0 + k] else fb0, c0\<lparr>fx_mem := mwr ZI (k * D * b) w (fx_mem c0)\<rparr>)"
    by (simp add: fused_in_def Let_def w_def q_in_def)
  have r: "fb1 = (if ?sat k then fb0 @ [t0 + k] else fb0)" "c1 = c\<lparr>fx_mem := mwr ZI (k * D * b) w m0\<rparr>"
    using Suc.prems s step m0(1) by (simp_all add: fold_upt_Suc)
  have bytes: "mwr ZI (k * D * b) w m0 ZI (q * D * b + i) = ?z q ! i"
    if q: "q < Suc k" "q < n" "t0 + q \<notin> set fb1" "i < D * b" for q i
  proof (cases "q = k")
    case True
    then have "w = ?z k" using q r(1) by (auto simp: w_def split: if_splits)
    then show ?thesis using q(4) lw True by (simp add: mwr_same)
  next
    case False
    then have "q < k" using q(1) by simp
    then have "Suc q * (D * b) \<le> k * (D * b)" by (intro mult_le_mono1) simp
    then have "q * D * b + i < k * D * b" using q(4) by (simp add: algebra_simps)
    moreover have "t0 + q \<notin> set fb0" using q(3) r(1) by (auto split: if_splits)
    ultimately show ?thesis using m0(2) \<open>q < k\<close> q by (simp add: mwr_same)
  qed
  show ?case
  proof
    show "fb1 = fb @ map (\<lambda>r. t0 + r) (filter ?sat [0..<Suc k])" using r(1) fb0 by simp
    show "\<exists>m. c1 = c\<lparr>fx_mem := m\<rparr> \<and> (\<forall>q<Suc k. q < n \<and> t0 + q \<notin> set fb1 \<longrightarrow>
        (\<forall>i<D * b. m ZI (q * D * b + i) = ?z q ! i))"
      using r(2) bytes by (intro exI [of _ "mwr ZI (k * D * b) w m0"]) simp
  qed
qed

text \<open>Rows of a tensor do not overlap when its stride is at least a row.\<close>

lemma fl_at_inj:
  assumes "4 * n \<le> tn_nb t 1" "d < n" "d' < n" "fl_at t r d = fl_at t r' d'"
  shows "r = r' \<and> d = d'"
proof -
  have less: "fl_at t q e < fl_at t q' e'" if "q < q'" "e < n" for q q' e e'
  proof -
    have "q * tn_nb t 1 + 4 * e < q * tn_nb t 1 + tn_nb t 1" using that(2) assms(1) by simp
    also have "\<dots> \<le> q' * tn_nb t 1" using that(1) mult_le_mono1 [of "Suc q" q' "tn_nb t 1"] by simp
    finally show ?thesis by (simp add: fl_at_def)
  qed
  have "r = r'" using less [of r r' d d'] less [of r' r d' d] assms by (cases r r' rule: linorder_cases) auto
  with assms(4) show ?thesis by (simp add: fl_at_def)
qed

lemma put_row_out:
  assumes "\<forall>d<n. a \<noteq> fl_at t r d"
  shows "put_row t r n vs m a = m a"
proof -
  have "k \<le> n \<Longrightarrow> fold (\<lambda>d. put_elem t r d (vs d)) [0..<k] m a = m a" for k
    by (induction k) (use assms in \<open>simp_all add: put_elem_def\<close>)
  then show ?thesis unfolding put_row_def by blast
qed

lemma put_row_at:
  assumes "4 * n \<le> tn_nb t 1" and d: "d < n"
  shows "put_row t r n vs m (fl_at t q d) = (if q = r then vs d else m (fl_at t q d))"
proof (cases "q = r")
  case True
  have "d < k \<Longrightarrow> k \<le> n \<Longrightarrow> fold (\<lambda>d. put_elem t r d (vs d)) [0..<k] m (fl_at t r d) = vs d" for k
  proof (induction k)
    case (Suc k)
    show ?case
    proof (cases "d = k")
      case False
      then have "fl_at t r d \<noteq> fl_at t r k" by (simp add: fl_at_def)
      then show ?thesis using Suc False by (simp add: put_elem_def)
    qed (simp add: put_elem_def)
  qed simp
  then show ?thesis using True d by (simp add: put_row_def)
next
  case False
  then have "\<forall>e<n. fl_at t q d \<noteq> fl_at t r e" using fl_at_inj [OF assms(1) d] by blast
  then show ?thesis using False by (simp add: put_row_out)
qed

text \<open>What comes out of the package for row \<open>r\<close> of the tile.\<close>

definition z_out :: "nat \<Rightarrow> nat \<Rightarrow> (nat \<Rightarrow> byte) \<Rightarrow> nat \<Rightarrow> nat \<Rightarrow> int" where
  "z_out b D m r d = get_z b ((r * D + d) * b) m"

definition z_ok :: "nat \<Rightarrow> int \<Rightarrow> bool" where
  "z_ok b v \<longleftrightarrow> z_min b < v \<and> v < z_max b"

definition deq :: "flib \<Rightarrow> layer_q \<Rightarrow> int \<Rightarrow> f32" where
  "deq F Q v = fl_mul F (fl_int F (v - lq_ozp Q)) (lq_osc Q)"

lemma fused_out_one:
  "fused_out F Q b D dst t0 r (fb, c) =
     (if \<exists>d<D. \<not> z_ok b (z_out b D (fx_mem c ZO) r d) then fb @ [t0 + r] else fb,
      c\<lparr>fx_fm := put_row (fl_t F dst) (t0 + r) D (\<lambda>d. deq F Q (z_out b D (fx_mem c ZO) r d)) (fx_fm c)\<rparr>)"
proof -
  have "list_ex (\<lambda>d. z_max b \<le> get_z b ((r * D + d) * b) (fx_mem c ZO) \<or>
      get_z b ((r * D + d) * b) (fx_mem c ZO) \<le> z_min b) [0..<D] \<longleftrightarrow>
      (\<exists>d<D. \<not> z_ok b (z_out b D (fx_mem c ZO) r d))"
    by (auto simp: list_ex_iff z_ok_def z_out_def Bex_def not_less)
  then show ?thesis by (simp add: fused_out_def Let_def deq_def z_out_def)
qed

lemma fused_out_rows:
  assumes "4 * D \<le> tn_nb (fl_t F dst) 1"
    and "fold (fused_out F Q b D dst t0) [0..<k] (fb, c) = (fb1, c1)"
  shows "fb1 = fb @ map (\<lambda>r. t0 + r) (filter (\<lambda>r. \<exists>d<D. \<not> z_ok b (z_out b D (fx_mem c ZO) r d)) [0..<k]) \<and>
    (\<exists>m. c1 = c\<lparr>fx_fm := m\<rparr> \<and>
      (\<forall>r<k. \<forall>d<D. m (fl_at (fl_t F dst) (t0 + r) d) = deq F Q (z_out b D (fx_mem c ZO) r d)) \<and>
      (\<forall>a. (\<forall>r<k. \<forall>d<D. a \<noteq> fl_at (fl_t F dst) (t0 + r) d) \<longrightarrow> m a = fx_fm c a))"
  using assms(2)
proof (induction k arbitrary: fb1 c1)
  case 0
  then show ?case by (auto intro: exI [of _ "fx_fm c"])
next
  case (Suc k)
  let ?t = "fl_t F dst" and ?z = "\<lambda>r d. z_out b D (fx_mem c ZO) r d"
  obtain fb0 c0 where s: "fold (fused_out F Q b D dst t0) [0..<k] (fb, c) = (fb0, c0)" by (metis surj_pair)
  obtain m0 where m0: "c0 = c\<lparr>fx_fm := m0\<rparr>"
    "\<forall>r<k. \<forall>d<D. m0 (fl_at ?t (t0 + r) d) = deq F Q (?z r d)"
    "\<forall>a. (\<forall>r<k. \<forall>d<D. a \<noteq> fl_at ?t (t0 + r) d) \<longrightarrow> m0 a = fx_fm c a"
    using Suc.IH [OF s] by blast
  define m1 where "m1 = put_row ?t (t0 + k) D (\<lambda>d. deq F Q (?z k d)) m0"
  have step: "fused_out F Q b D dst t0 k (fb0, c0) = (fb1, c1)"
    using Suc.prems unfolding fold_upt_Suc s .
  have r: "fb1 = (if \<exists>d<D. \<not> z_ok b (?z k d) then fb0 @ [t0 + k] else fb0)" "c1 = c\<lparr>fx_fm := m1\<rparr>"
    using step unfolding fused_out_one by (simp_all add: m0(1) m1_def)
  note pr = put_row_at [OF assms(1)] put_row_out
  have "fb1 = fb @ map (\<lambda>r. t0 + r) (filter (\<lambda>r. \<exists>d<D. \<not> z_ok b (?z r d)) [0..<Suc k])"
    using r(1) Suc.IH [OF s] by simp
  moreover have "\<forall>r<Suc k. \<forall>d<D. m1 (fl_at ?t (t0 + r) d) = deq F Q (?z r d)"
    using pr(1) m0(2) by (auto simp: m1_def less_Suc_eq)
  moreover have "\<forall>a. (\<forall>r<Suc k. \<forall>d<D. a \<noteq> fl_at ?t (t0 + r) d) \<longrightarrow> m1 a = fx_fm c a"
    using pr(2) [of D _ ?t "t0 + k" "\<lambda>d. deq F Q (?z k d)" m0] m0(3) unfolding m1_def by (metis less_Suc_eq)
  ultimately show ?case using r(2) by blast
qed

text \<open>
  The values \<open>v\<close> are what the package \<open>L\<close> answers for the row \<open>x\<close>: its quantized values were in some
  row of the input, and no value of that row of the output is at a bound.
\<close>

definition tpu_row :: "flib \<Rightarrow> nat \<Rightarrow> layer_q \<Rightarrow> nat \<Rightarrow> nat \<Rightarrow> (nat \<Rightarrow> f32) \<Rightarrow> (nat \<Rightarrow> f32) \<Rightarrow> bool" where
  "tpu_row F L Q b D x v \<longleftrightarrow>
     \<not> saturates F Q b (fl_div F f_one (lq_isc Q)) (row_max F x D) \<and>
     (\<exists>tick m r. (\<forall>d<D. get_z b ((r * D + d) * b) m = q_in F Q b x d) \<and>
       (\<forall>d<D. z_ok b (z_out b D (fl_tpu F tick L m) r d) \<and> v d = deq F Q (z_out b D (fl_tpu F tick L m) r d)))"

lemma f_infer_eff:
  assumes "f_infer F L i q c = (ok, c')"
  shows "fx_fm c' = fx_fm c" "fx_cpu c' = fx_cpu c" "fx_D c' = fx_D c"
    "ok \<Longrightarrow> fx_mem c' = (fx_mem c)(q := fl_tpu F (fx_tick c) L (fx_mem c i))"
  using assms by (auto simp: f_infer_def tpu_done_def Let_def split: prod.splits if_splits)

lemma f_cpu_eff [simp]:
  "fx_fm (f_begin p c) = fx_fm c" "fx_mem (f_begin p c) = fx_mem c" "fx_cpu (f_begin p c) = fx_cpu c"
  "fx_D (f_begin p c) = fx_D c"
  "fx_fm (f_end p c) = fx_fm c" "fx_mem (f_end p c) = fx_mem c" "fx_cpu (f_end p c) = fx_cpu c"
  "fx_D (f_end p c) = fx_D c"
  by (simp_all add: f_begin_def f_end_def)

text \<open>Rows \<open>lo\<close> to \<open>hi\<close> are in the list of the CPU or come from the TPU, and nothing else has changed.\<close>

definition rows_done ::
  "flib \<Rightarrow> nat \<Rightarrow> layer_q \<Rightarrow> nat \<Rightarrow> nat \<Rightarrow> nat \<Rightarrow> (nat \<Rightarrow> nat \<Rightarrow> f32) \<Rightarrow> nat \<Rightarrow> nat \<Rightarrow>
   nat list \<times> fctx \<Rightarrow> nat list \<times> fctx \<Rightarrow> bool" where
  "rows_done F L Q b D dst hb lo hi s s' \<longleftrightarrow>
     set (fst s) \<subseteq> set (fst s') \<and> set (fst s') \<subseteq> set (fst s) \<union> {lo..<hi} \<and>
     fx_cpu (snd s') = fx_cpu (snd s) \<and> fx_D (snd s') = fx_D (snd s) \<and>
     (\<forall>r. lo \<le> r \<and> r < hi \<longrightarrow> r \<in> set (fst s') \<or>
       tpu_row F L Q b D (hb r) (\<lambda>d. fx_fm (snd s') (fl_at (fl_t F dst) r d))) \<and>
     (\<forall>a. (\<forall>r d. lo \<le> r \<and> r < hi \<and> d < D \<longrightarrow> a \<noteq> fl_at (fl_t F dst) r d) \<longrightarrow>
       fx_fm (snd s') a = fx_fm (snd s) a)"

lemma offset_rows: "(lo :: nat) \<le> r \<and> r < lo + n \<longleftrightarrow> (\<exists>q<n. r = lo + q)"
  by (metis add_less_cancel_left le_add1 le_iff_add)

lemma fused_tile_rows:
  assumes b: "0 < b" and nb: "4 * D \<le> tn_nb (fl_t F dst) 1"
  shows "rows_done F L Q b D dst hb t0 (t0 + min B (T - t0)) (fb, c) (fused_tile F L Q b D B T dst hb t0 (fb, c))"
proof -
  define n where "n = min B (T - t0)"
  obtain fb1 c1 where i: "fold (fused_in F Q b D hb t0 n) [0..<B] (fb, f_begin ZI c) = (fb1, c1)" by (metis surj_pair)
  let ?sat = "\<lambda>r. saturates F Q b (fl_div F f_one (lq_isc Q)) (row_max F (hb (t0 + r)) D)"
  let ?q = "\<lambda>r. concat (map (\<lambda>d. put_z b (q_in F Q b (hb (t0 + r)) d)) [0..<D])"
  have fb1: "fb1 = fb @ map (\<lambda>r. t0 + r) (filter (\<lambda>r. r < n \<and> ?sat r) [0..<B])"
    using fused_in_rows [OF i] by blast
  obtain m1 where c1: "c1 = (f_begin ZI c)\<lparr>fx_mem := m1\<rparr>"
    and m1: "\<forall>r<B. r < n \<and> t0 + r \<notin> set fb1 \<longrightarrow> (\<forall>i<D * b. m1 ZI (r * D * b + i) = ?q r ! i)"
    using fused_in_rows [OF i] by blast
  have nB: "n \<le> B" by (simp add: n_def)
  have list1: "set fb \<subseteq> set fb1" "set fb1 \<subseteq> set fb \<union> {t0..<t0 + n}" by (auto simp: fb1)
  obtain ok c2 where f: "f_infer F L ZI ZO (f_end ZI c1) = (ok, c2)" by (metis surj_pair)
  note fe = f_infer_eff [OF f]
  have c2: "fx_fm c2 = fx_fm c" "fx_cpu c2 = fx_cpu c" "fx_D c2 = fx_D c" using fe(1-3) c1 by simp_all
  show ?thesis
  proof (cases ok)
    case False
    then have "fused_tile F L Q b D B T dst hb t0 (fb, c) = (fb1 @ map (\<lambda>r. t0 + r) [0..<n], c2)"
      using i f by (simp add: fused_tile_def n_def)
    then show ?thesis using list1 c2 by (auto simp: rows_done_def n_def)
  next
    case True
    obtain fb2 c3 where o: "fold (fused_out F Q b D dst t0) [0..<n] (fb1, f_begin ZO c2) = (fb2, c3)"
      by (metis surj_pair)
    have r: "fused_tile F L Q b D B T dst hb t0 (fb, c) = (fb2, f_end ZO c3)"
      using i f o True by (simp add: fused_tile_def n_def)
    let ?z = "\<lambda>r d. z_out b D (fx_mem c2 ZO) r d"
    have fb2: "fb2 = fb1 @ map (\<lambda>r. t0 + r) (filter (\<lambda>r. \<exists>d<D. \<not> z_ok b (?z r d)) [0..<n])"
      using fused_out_rows [OF nb o] by simp
    obtain m where c3: "c3 = (f_begin ZO c2)\<lparr>fx_fm := m\<rparr>"
      and m: "\<forall>r<n. \<forall>d<D. m (fl_at (fl_t F dst) (t0 + r) d) = deq F Q (?z r d)"
      and out: "\<forall>a. (\<forall>r<n. \<forall>d<D. a \<noteq> fl_at (fl_t F dst) (t0 + r) d) \<longrightarrow> m a = fx_fm c2 a"
      using fused_out_rows [OF nb o] by auto
    have zo: "fx_mem c2 ZO = fl_tpu F (fx_tick (f_end ZI c1)) L (m1 ZI)" using fe(4) True c1 by (simp add: f_end_def)
    have good: "tpu_row F L Q b D (hb (t0 + r)) (\<lambda>d. m (fl_at (fl_t F dst) (t0 + r) d))"
      if h: "r < n" "t0 + r \<notin> set fb2" for r
    proof -
      have ns: "\<not> ?sat r" using h nB by (auto simp: fb2 fb1)
      have q: "get_z b ((r * D + d) * b) (m1 ZI) = q_in F Q b (hb (t0 + r)) d" if d: "d < D" for d
      proof -
        have "\<forall>i<D * b. m1 ZI (r * D * b + i) = ?q r ! i" using m1 h nB by (auto simp: fb2)
        then have "get_z b (r * D * b + d * b) (m1 ZI) = q_in F Q b (hb (t0 + r)) d"
          by (rule row_read [OF b q_in_bounds d])
        then show ?thesis by (simp add: algebra_simps)
      qed
      have z: "z_ok b (?z r d)" if "d < D" for d using h that by (auto simp: fb2)
      show ?thesis unfolding tpu_row_def using ns q z m h(1) unfolding zo by blast
    qed
    have list2: "set fb \<subseteq> set fb2" "set fb2 \<subseteq> set fb \<union> {t0..<t0 + n}" using list1 by (auto simp: fb2)
    have end3: "fx_fm (f_end ZO c3) = m" "fx_cpu (f_end ZO c3) = fx_cpu c" "fx_D (f_end ZO c3) = fx_D c"
      using c2 c3 by simp_all
    have out2: "\<forall>a. (\<forall>r d. t0 \<le> r \<and> r < t0 + n \<and> d < D \<longrightarrow> a \<noteq> fl_at (fl_t F dst) r d) \<longrightarrow> m a = fx_fm c a"
      using out c2(1) by simp
    have good2: "\<forall>r. t0 \<le> r \<and> r < t0 + n \<longrightarrow> r \<in> set fb2 \<or>
        tpu_row F L Q b D (hb r) (\<lambda>d. m (fl_at (fl_t F dst) r d))"
      unfolding offset_rows using good by blast
    show ?thesis
      unfolding rows_done_def r fst_conv snd_conv n_def [symmetric] end3
      using list2 good2 out2 by simp
  qed
qed


lemma rows_done_trans:
  assumes 1: "rows_done F L Q b D dst hb lo mid s s1" and 2: "rows_done F L Q b D dst hb mid hi s1 s2"
    and nb: "4 * D \<le> tn_nb (fl_t F dst) 1" and le: "lo \<le> mid" "mid \<le> hi"
  shows "rows_done F L Q b D dst hb lo hi s s2"
proof -
  have keep: "fx_fm (snd s2) (fl_at (fl_t F dst) r d) = fx_fm (snd s1) (fl_at (fl_t F dst) r d)"
    if "r < mid" "d < D" for r d
    using 2 that fl_at_inj [OF nb that(2)] unfolding rows_done_def by (metis leD)
  have old: "tpu_row F L Q b D (hb r) (\<lambda>d. fx_fm (snd s2) (fl_at (fl_t F dst) r d))"
    if "tpu_row F L Q b D (hb r) (\<lambda>d. fx_fm (snd s1) (fl_at (fl_t F dst) r d))" "r < mid" for r
    using that keep by (simp add: tpu_row_def)
  have "r \<in> set (fst s2) \<or> tpu_row F L Q b D (hb r) (\<lambda>d. fx_fm (snd s2) (fl_at (fl_t F dst) r d))"
    if r: "lo \<le> r" "r < hi" for r
  proof (cases "r < mid")
    case True
    then show ?thesis using 1 2 r old [of r] unfolding rows_done_def by blast
  next
    case False
    then show ?thesis using 2 r unfolding rows_done_def by simp
  qed
  moreover have "fx_fm (snd s2) a = fx_fm (snd s) a"
    if a: "\<forall>r d. lo \<le> r \<and> r < hi \<and> d < D \<longrightarrow> a \<noteq> fl_at (fl_t F dst) r d" for a
  proof -
    have "fx_fm (snd s2) a = fx_fm (snd s1) a" using 2 a le unfolding rows_done_def by (meson le_trans)
    also have "\<dots> = fx_fm (snd s) a" using 1 a le unfolding rows_done_def by (meson less_le_trans)
    finally show ?thesis .
  qed
  moreover have "set (fst s) \<subseteq> set (fst s2) \<and> set (fst s2) \<subseteq> set (fst s) \<union> {lo..<hi}"
  proof -
    have "set (fst s) \<subseteq> set (fst s1)" "set (fst s1) \<subseteq> set (fst s2)"
      "set (fst s1) \<subseteq> set (fst s) \<union> {lo..<mid}" "set (fst s2) \<subseteq> set (fst s1) \<union> {mid..<hi}"
      using 1 2 unfolding rows_done_def by blast+
    moreover have "{lo..<mid} \<union> {mid..<hi} = {lo..<hi}" using le by (rule ivl_disj_un_two(3))
    ultimately show ?thesis by blast
  qed
  moreover have "fx_cpu (snd s2) = fx_cpu (snd s)" "fx_D (snd s2) = fx_D (snd s)"
    using 1 2 unfolding rows_done_def by simp_all
  ultimately show ?thesis unfolding rows_done_def by blast
qed

lemma fused_tiles_rows:
  assumes b: "0 < b" and B: "0 < B" and nb: "4 * D \<le> tn_nb (fl_t F dst) 1"
  shows "rows_done F L Q b D dst hb 0 T ([], c) (fold (fused_tile F L Q b D B T dst hb) (tiles T B) ([], c))"
proof -
  have "rows_done F L Q b D dst hb 0 (min (k * B) T) ([], c)
      (fold (fused_tile F L Q b D B T dst hb) (map (\<lambda>i. i * B) [0..<k]) ([], c))" for k
  proof (induction k)
    case 0
    then show ?case by (simp add: rows_done_def)
  next
    case (Suc k)
    obtain fb1 c1 where s: "fold (fused_tile F L Q b D B T dst hb) (map (\<lambda>i. i * B) [0..<k]) ([], c) = (fb1, c1)"
      by (metis surj_pair)
    have one: "rows_done F L Q b D dst hb (k * B) (k * B + min B (T - k * B)) (fb1, c1)
        (fused_tile F L Q b D B T dst hb (k * B) (fb1, c1))"
      by (rule fused_tile_rows [OF b nb])
    have e: "min (Suc k * B) T = (if k * B \<le> T then k * B + min B (T - k * B) else T)"
      by (auto simp: min_def)
    show ?case
    proof (cases "k * B \<le> T")
      case True
      then have "min (k * B) T = k * B" by simp
      then have "rows_done F L Q b D dst hb 0 (k * B) ([], c) (fb1, c1)" using Suc.IH s by simp
      from rows_done_trans [OF this one nb] show ?thesis using True e s by simp
    next
      case False
      then have m: "min (k * B) T = T" "min (Suc k * B) T = T" "min B (T - k * B) = 0" by simp_all
      have "rows_done F L Q b D dst hb T T (fb1, c1) (fused_tile F L Q b D B T dst hb (k * B) (fb1, c1))"
        using one unfolding m rows_done_def by auto
      from rows_done_trans [OF _ this nb] show ?thesis using Suc.IH m s by simp
    qed
  qed
  moreover have "min ((T + B - 1) div B * B) T = T"
    using div_mult_mod_eq [of "T + B - 1" B] mod_less_divisor [OF B, of "T + B - 1"] B by linarith
  ultimately show ?thesis unfolding tiles_def by metis
qed

section \<open>The rows of the CPU\<close>

text \<open>The block is computed row by row: \<open>f\<close> is the feed-forward block of a row.\<close>

lemma fold_put_rows:
  assumes "4 * D \<le> tn_nb t 1" "d < D"
  shows "fold (\<lambda>(r, q). put_row t r D ((!) q)) (zip rows (map f rows)) m (fl_at t r d) =
    (if r \<in> set rows then f r ! d else m (fl_at t r d))"
  by (induction rows arbitrary: m) (auto simp: put_row_at [OF assms(1) assms(2)])

lemma fold_put_rows_out:
  "(\<forall>r\<in>set rows. \<forall>d<D. a \<noteq> fl_at t r d) \<Longrightarrow>
   fold (\<lambda>(r, q). put_row t r D ((!) q)) (zip rows (map f rows)) m a = m a"
  by (induction rows arbitrary: m) (auto simp: put_row_out)

lemma fallback_rows:
  assumes "\<forall>xs. fl_ffn F up gate down xs = map f xs" "fx_cpu c" "4 * nat (fx_D c) \<le> tn_nb (fl_t F dst) 1"
  shows "d < nat (fx_D c) \<Longrightarrow> fx_fm (barra_ffn_fallback F up gate down hb dst rows c) (fl_at (fl_t F dst) r d) =
      (if r \<in> set rows then f (map (hb r) [0..<nat (fx_D c)]) ! d else fx_fm c (fl_at (fl_t F dst) r d))"
    and "\<forall>r\<in>set rows. \<forall>d<nat (fx_D c). a \<noteq> fl_at (fl_t F dst) r d \<Longrightarrow>
      fx_fm (barra_ffn_fallback F up gate down hb dst rows c) a = fx_fm c a"
    and "fx_cpu (barra_ffn_fallback F up gate down hb dst rows c) = fx_cpu c"
    and "fx_D (barra_ffn_fallback F up gate down hb dst rows c) = fx_D c"
  using assms(2,3)
  by (auto simp: barra_ffn_fallback_def Let_def assms(1) o_def fold_put_rows fold_put_rows_out)

end
