(* ===== verification/Ffn_Correct.thy ===== *)
theory Ffn_Correct
  imports Ffn_Rows
begin

text \<open>
  Properties of the feed-forward block on the TPU, src/src/ggml-barra/ggml-barra.cpp, and the inputs on
  which they are applied.
\<close>

section \<open>An example\<close>

text \<open>
  Floats are taken as plain numbers here. Tensor \<open>p\<close> is at \<open>1000 * p\<close>; 1 to 3 are the weights up, gate
  and down of layer 0, 4 and 5 the inputs, 6 to 9 the products, the GLU and the result.
\<close>

definition nt0 :: "gop \<Rightarrow> nat \<Rightarrow> nat option list \<Rightarrow> string \<Rightarrow> ntensor" where
  "nt0 x p srcs nm =
     \<lparr>tn_op = x, tn_type = TF32, tn_ne = (\<lambda>i. if i = 1 \<and> 3 < p then 2 else 1), tn_nb = (\<lambda>_. 4),
      tn_src = (\<lambda>i. if i < length srcs then srcs ! i else None), tn_data = 1000 * p, tn_buf = None,
      tn_name = nm, tn_flag = True\<rparr>"

definition tensors0 :: "nat \<Rightarrow> ntensor" where
  "tensors0 p =
     (if p = 1 then nt0 OpNone 1 [] ''blk.0.ffn_up.weight''
      else if p = 2 then nt0 OpNone 2 [] ''blk.0.ffn_gate.weight''
      else if p = 3 then nt0 OpNone 3 [] ''blk.0.ffn_down.weight''
      else if p = 6 then nt0 OpMulMat 6 [Some 1, Some 4] ''up''
      else if p = 7 then nt0 OpMulMat 7 [Some 2, Some 5] ''gate''
      else if p = 8 then nt0 OpGlu 8 [Some 7, Some 6] ''glu''
      else if p = 9 then nt0 OpMulMat 9 [Some 3, Some 8] ''down''
      else nt0 OpNone p [] ''in'')"

definition flib0 :: flib where
  "flib0 =
     \<lparr>fl_add = (\<lambda>a b. a + b), fl_sub = (\<lambda>a b. a - b), fl_mul = (\<lambda>a b. a * b), fl_div = (\<lambda>a b. a div b),
      fl_gt = (\<lambda>a b. a > b), fl_exp = (\<lambda>_. 0), fl_rint = int, fl_int = nat, fl_half = (\<lambda>h. h),
      fl_strtof = (\<lambda>_. None), fl_atof = (\<lambda>_. 0), fl_rnd = (\<lambda>x. x), fl_float = (\<lambda>_. 0),
      fl_env = (\<lambda>_. None), fl_file = (\<lambda>_. None), fl_heap = Some, fl_mmap = (\<lambda>_. True), fl_cpu = True,
      fl_t = tensors0, fl_contig = (\<lambda>_. True), fl_glop = (\<lambda>_. GSwiglu), fl_tpu = (\<lambda>_ _ m. m),
      fl_ffn = (\<lambda>_ _ _ xs. map (map (\<lambda>v. 2 * v)) xs), fl_node = (\<lambda>_ m. m)\<rparr>"

definition fctx_ready :: "fctx" where
  "fctx_ready = (fctx0 \<lparr>cw_env = None, cw_net = (\<lambda>_ _. None), cw_n = 0, cw_done = []\<rparr>
     (\<lambda>_. cb_inert) (\<lambda>_ _. 0) (\<lambda>_. 5))
     \<lparr>fx_ready := True, fx_D := 1, fx_FF := 1, fx_B := 2, fx_NL := 1, fx_cpu := True,
      fx_q := [\<lparr>lq_isc = 1, lq_osc = 1, lq_izp = 0, lq_ozp = 0\<rparr>]\<rparr>"

section \<open>Weight names\<close>

lemma scan_d_digits:
  assumes "ds \<noteq> []" "list_all is_digit ds" "rest = [] \<or> \<not> is_digit (hd rest)"
  shows "scan_d (ds @ rest) = Some (digits_val ds, rest)"
proof -
  obtain x xs where ds: "ds = x # xs" using assms(1) by (cases ds) auto
  have x: "is_digit x" using assms(2) ds by simp
  have "\<not> is_space x" "x \<noteq> CHR ''-''" "x \<noteq> CHR ''+''" using x by (auto simp: is_space_def is_digit_def)
  then have "dropWhile is_space (ds @ rest) = ds @ rest" using ds by simp
  moreover have "takeWhile is_digit (ds @ rest) = ds"
    using assms(2,3) by (cases rest) (auto simp: takeWhile_append list_all_iff)
  ultimately show ?thesis
    using ds \<open>x \<noteq> CHR ''-''\<close> \<open>x \<noteq> CHR ''+''\<close> by (simp add: scan_d_def Let_def)
qed

lemma scan_az_word:
  assumes "w \<noteq> []" "list_all is_lower w" "length w \<le> n" "rest = [] \<or> \<not> is_lower (hd rest)"
  shows "scan_az n (w @ rest) = Some (w, rest)"
proof -
  have "takeWhile is_lower (take (n - length w) rest) = []"
    using assms(4) by (cases rest) (auto simp: take_Cons split: nat.splits)
  then have "takeWhile is_lower (take n (w @ rest)) = w"
    using assms(2,3) by (simp add: takeWhile_append list_all_iff)
  then show ?thesis using assms(1) by (simp add: scan_az_def Let_def)
qed

lemma scan_lit_append [simp]: "scan_lit l (l @ s) = Some s"
  by (simp add: scan_lit_def)

text \<open>
  \<open>barra_ffn_kind\<close> reads the layer and the kind of a weight name \<open>blk.<L>.ffn_<kind>\<close> for every
  number of digits, whatever follows the kind, the suffix \<open>.weight\<close> or another.
\<close>

theorem ffn_kind_reads_name:
  assumes "k < 3" "ds \<noteq> []" "list_all is_digit ds" "rest = [] \<or> \<not> is_lower (hd rest)"
    and "tn_name (fl_t F p) = ''blk.'' @ ds @ ''.ffn_'' @ [''up'', ''gate'', ''down''] ! k @ rest"
  shows "barra_ffn_kind F (Some p) = Some (int k, digits_val ds)"
proof -
  define w where "w = [''up'', ''gate'', ''down''] ! k"
  have k: "k = 0 \<or> k = 1 \<or> k = 2" using assms(1) by auto
  have d: "scan_d (ds @ ''.ffn_'' @ w @ rest) = Some (digits_val ds, ''.ffn_'' @ w @ rest)"
    by (rule scan_d_digits [OF assms(2,3)]) (simp add: is_digit_def)
  have "scan_az 15 (w @ rest) = Some (w, rest)"
    using k by (intro scan_az_word assms(4)) (auto simp: w_def is_lower_def)
  then show ?thesis
    unfolding barra_ffn_kind_def assms(5) w_def [symmetric] option.case scan_lit_append d prod.case
    using k by (auto simp: w_def)
qed

theorem ffn_kind_reads_name_witness:
  "barra_ffn_kind (flib0\<lparr>fl_t := (\<lambda>_. nt0 OpNone 0 [] ''blk.12.ffn_gate_inp.weight'')\<rparr>) (Some 0) =
   Some (1, 12)"
  using ffn_kind_reads_name [of 1 "''12''" "''_inp.weight''"
      "flib0\<lparr>fl_t := (\<lambda>_. nt0 OpNone 0 [] ''blk.12.ffn_gate_inp.weight'')\<rparr>" 0]
  by (simp add: nt0_def is_digit_def is_lower_def digits_val_def)

section \<open>Rows of the fused package\<close>

text \<open>
  C26. With one package per layer every row of the result is the feed-forward block of the same row of
  the input as it was before the call, computed on the CPU with the original weights, or what the TPU
  answers for its quantized values without a saturated input or a clipped output; nothing else of the
  memory changes, whether the result overlaps the input or not, whatever fails on the way.
\<close>

theorem fused_rows_correct:
  fixes F :: flib and h dst :: nat and c :: fctx
  assumes ffn: "\<forall>xs. fl_ffn F up gate down xs = map f xs" and cpu: "fx_cpu c" and B: "0 < nat (fx_B c)"
    and nb: "4 * nat (fx_D c) \<le> tn_nb (fl_t F dst) 1"
    and x: "x = (\<lambda>r. get_rowf (fl_t F h) r (fx_fm c))"
    and m: "m = fx_fm (barra_ffn_fused F L up gate down h dst c)"
  shows "(\<forall>r<tn_ne (fl_t F h) 1.
      (\<forall>d<nat (fx_D c). m (fl_at (fl_t F dst) r d) = f (map (x r) [0..<nat (fx_D c)]) ! d) \<or>
      tpu_row F L (fx_q c ! L) (if fx_bits c = 16 then 2 else 1) (nat (fx_D c)) (x r)
        (\<lambda>d. m (fl_at (fl_t F dst) r d))) \<and>
    (\<forall>a. (\<forall>r<tn_ne (fl_t F h) 1. \<forall>d<nat (fx_D c). a \<noteq> fl_at (fl_t F dst) r d) \<longrightarrow> m a = fx_fm c a)"
proof -
  define T D b where "T = tn_ne (fl_t F h) 1" and "D = nat (fx_D c)" and "b = (if fx_bits c = 16 then 2 else 1 :: nat)"
  let ?P = "\<lambda>m. (\<forall>r<T. (\<forall>d<D. m (fl_at (fl_t F dst) r d) = f (map (x r) [0..<D]) ! d) \<or>
      tpu_row F L (fx_q c ! L) b D (x r) (\<lambda>d. m (fl_at (fl_t F dst) r d))) \<and>
    (\<forall>a. (\<forall>r<T. \<forall>d<D. a \<noteq> fl_at (fl_t F dst) r d) \<longrightarrow> m a = fx_fm c a)"
  have all: "?P (fx_fm (barra_ffn_fallback F up gate down x dst [0..<T] c1))"
    if c1: "fx_cpu c1" "fx_D c1 = fx_D c"
      "\<forall>a. (\<forall>r<T. \<forall>d<D. a \<noteq> fl_at (fl_t F dst) r d) \<longrightarrow> fx_fm c1 a = fx_fm c a" for c1
    using fallback_rows [OF ffn c1(1), of dst] c1(3) nb by (simp add: c1(2) D_def)
  have "?P m"
  proof (cases "fl_env F ''BARRA_FORCE_FB'' = None")
    case False
    then have "m = fx_fm (barra_ffn_fallback F up gate down x dst [0..<T] c)"
      unfolding m barra_ffn_fused_def Let_def T_def x by simp
    then show ?thesis using all [of c] cpu by simp
  next
    case True
    obtain fb c1 where t: "fold (fused_tile F L (fx_q c ! L) b D (nat (fx_B c)) T dst x) (tiles T (nat (fx_B c))) ([], c) = (fb, c1)"
      by (metis surj_pair)
    define c2 where "c2 = c1\<lparr>fx_calls := Suc (fx_calls c1), fx_rows := fx_rows c1 + T\<rparr>"
    define c3 where "c3 = barra_ffn_fallback F up gate down x dst fb c2"
    have m2: "m = fx_fm (barra_check F up gate down x dst T c3)"
      unfolding m barra_ffn_fused_def Let_def
      unfolding T_def [symmetric] D_def [symmetric] b_def [symmetric] x [symmetric] t
      by (simp add: True c2_def c3_def)
    note nbD = nb [folded D_def]
    have "0 < b" by (simp add: b_def)
    from fused_tiles_rows [OF this B nbD, of L "fx_q c ! L" x T c]
    have rd: "rows_done F L (fx_q c ! L) b D dst x 0 T ([], c) (fb, c1)" unfolding t .
    have c2: "fx_cpu c2" "fx_D c2 = fx_D c" "fx_fm c2 = fx_fm c1"
      using rd cpu by (simp_all add: rows_done_def c2_def)
    note fr = fallback_rows [OF ffn c2(1), of dst, unfolded c2 D_def [symmetric], OF nbD]
    have "?P (fx_fm c3)"
    proof (intro conjI allI impI)
      fix r assume r: "r < T"
      show "(\<forall>d<D. fx_fm c3 (fl_at (fl_t F dst) r d) = f (map (x r) [0..<D]) ! d) \<or>
          tpu_row F L (fx_q c ! L) b D (x r) (\<lambda>d. fx_fm c3 (fl_at (fl_t F dst) r d))"
      proof (cases "r \<in> set fb")
        case True
        then show ?thesis using fr(1) by (simp add: c3_def)
      next
        case False
        then have "tpu_row F L (fx_q c ! L) b D (x r) (\<lambda>d. fx_fm c1 (fl_at (fl_t F dst) r d))"
          using rd r unfolding rows_done_def fst_conv snd_conv by blast
        then show ?thesis using False fr(1) by (simp add: c3_def tpu_row_def)
      qed
    next
      fix a assume a: "\<forall>r<T. \<forall>d<D. a \<noteq> fl_at (fl_t F dst) r d"
      have "set fb \<subseteq> {0..<T}" using rd by (simp add: rows_done_def)
      then have "fx_fm c3 a = fx_fm c1 a" using fr(2) a unfolding c3_def by (meson atLeastLessThan_iff subsetD)
      then show "fx_fm c3 a = fx_fm c a" using rd a unfolding rows_done_def fst_conv snd_conv by simp
    qed
    moreover have "fx_cpu c3" "fx_D c3 = fx_D c" using fr(3,4) c2 by (simp_all add: c3_def)
    ultimately show ?thesis unfolding m2 barra_check_def using all [of c3] by simp
  qed
  then show ?thesis unfolding T_def D_def b_def .
qed

theorem fused_rows_correct_witness:
  "fx_fm (barra_ffn_fused flib0 0 1 2 3 4 9 fctx_ready) (fl_at (tensors0 9) 1 0) = 10 \<or>
   tpu_row flib0 0 (fx_q fctx_ready ! 0) 2 1 (get_rowf (tensors0 4) 1 (fx_fm fctx_ready))
     (\<lambda>d. fx_fm (barra_ffn_fused flib0 0 1 2 3 4 9 fctx_ready) (fl_at (tensors0 9) 1 d))"
  using fused_rows_correct [of flib0 1 2 3 "map (\<lambda>v. 2 * v)" fctx_ready 9 _ 4 _ 0, OF _ _ _ _ refl refl]
  by (simp add: flib0_def fctx_ready_def fctx0_def tensors0_def nt0_def get_rowf_def)

section \<open>Outlier channels\<close>

lemma rk_blocks_elem:
  "distinct bs \<Longrightarrow> fold (rk_block F nrow ncol A idx k W) bs C =
     (\<lambda>r j. if r < nrow \<and> j < ncol \<and> j div 512 \<in> set bs then rk_elem F ncol (A r) idx k W j (C r j) else C r j)"
proof (induction bs arbitrary: C)
  case (Cons b bs)
  have hit: "b * 512 \<le> j \<and> j < b * 512 + min 512 (ncol - b * 512) \<longleftrightarrow> j < ncol \<and> j div 512 = b" for j
  proof -
    have "j div 512 = b \<longleftrightarrow> b * 512 \<le> j \<and> j < b * 512 + 512"
      using div_mult_mod_eq [of j 512] mod_less_divisor [of 512 j] by (auto intro: div_nat_eqI)
    then show ?thesis by auto
  qed
  have d: "distinct bs" "b \<notin> set bs" using Cons.prems by simp_all
  show ?case
    unfolding fold.simps comp_apply Cons.IH [OF d(1)] unfolding rk_block_elem hit
    using d(2) by (auto simp: fun_eq_iff)
qed simp

text \<open>
  C27. \<open>barra_rank_update\<close> computes, for every arithmetic of floats, each element exactly as the loop over
  the channels would, in the order of the channels, in whatever order the thread pool takes the blocks
  of columns.
\<close>

theorem rank_update_any_order:
  assumes "mset bs = mset [0..<(ncol + 511) div 512]"
  shows "fold (rk_block F nrow ncol A idx k W) bs C = rank_ref F C nrow ncol A idx k W \<and>
    barra_rank_update F C nrow ncol A idx k W = rank_ref F C nrow ncol A idx k W"
proof
  have "distinct bs" using assms by (metis distinct_upt mset_eq_imp_distinct_iff)
  moreover have "set bs = {0..<(ncol + 511) div 512}" using mset_eq_setD [OF assms] by simp
  moreover have "j < ncol \<Longrightarrow> j div 512 < (ncol + 511) div 512" for j
  proof -
    assume "j < ncol"
    then have "(j + 512) div 512 \<le> (ncol + 511) div 512" by (intro div_le_mono) simp
    then show ?thesis by simp
  qed
  ultimately show "fold (rk_block F nrow ncol A idx k W) bs C = rank_ref F C nrow ncol A idx k W"
    by (auto simp: rk_blocks_elem rank_ref_def fun_eq_iff)
qed (rule rank_update_ref)

theorem rank_update_any_order_witness:
  "fold (rk_block flib0 1 600 (\<lambda>_ _. 3) [0] 1 (replicate 600 2)) [1, 0] (\<lambda>_ _. 0) 0 599 = 6"
  using rank_update_any_order [of "[1, 0]" 600 flib0 1 "\<lambda>_ _. 3" "[0]" 1 "replicate 600 2" "\<lambda>_ _. 0"]
  by (simp add: upt_rec rank_ref_def rk_elem_def flib0_def zero_f_def)

text \<open>A layer of the outlier file as it is used: indices in range, complete weights.\<close>

definition outl_ok :: "fctx \<Rightarrow> outl \<Rightarrow> bool" where
  "outl_ok c x \<longleftrightarrow>
     0 < ol_kd x \<and> length (ol_od x) = ol_kd x \<and> length (ol_of x) = ol_kf x \<and>
     list_all (\<lambda>v. 0 \<le> v \<and> v < fx_D c) (ol_od x) \<and> list_all (\<lambda>v. 0 \<le> v \<and> v < fx_FF c) (ol_of x) \<and>
     length (ol_wg x) = ol_kd x * nat (fx_FF c) \<and> length (ol_wu x) = ol_kd x * nat (fx_FF c) \<and>
     length (ol_wd x) = ol_kf x * nat (fx_D c)"

lemma length_rd_f16: "rd_f16 f off nrow ncol = Some ws \<Longrightarrow> length ws = nrow * ncol"
  by (auto simp: rd_f16_def fread_at_def length_get16s split: if_splits)

lemma length_ints_of: "length (ints_of n bs) = n"
  by (simp add: ints_of_def)

lemma read_outl_ok:
  assumes "read_outl f (nat (fx_D c)) (nat (fx_FF c)) fkd fkf kd kf l = Some x" "0 < kd" "kd \<le> fkd" "kf \<le> fkf"
    and "0 \<le> fx_D c" "0 \<le> fx_FF c"
  shows "outl_ok c x"
  using assms
  by (auto simp: read_outl_def Let_def outl_ok_def length_ints_of list_all_iff
      dest: length_rd_f16 split: option.splits if_splits)

lemma outlier_counts_le:
  "outlier_counts F fD fFF fkd fkf = (kd, kf) \<Longrightarrow> 0 < kd \<Longrightarrow> 0 \<le> fkf \<Longrightarrow> kd \<le> fkd \<and> kf \<le> fkf"
  by (auto simp: outlier_counts_def clamp_count_def Let_def split: option.splits if_splits)

lemma those_list_all:
  "those (map g xs) = Some ys \<Longrightarrow> \<forall>x y. g x = Some y \<longrightarrow> P y \<Longrightarrow> length ys = length xs \<and> list_all P ys"
  by (induction xs arbitrary: ys) (auto split: option.splits)

text \<open>
  After \<open>barra_load_outliers\<close>, whatever the file and \<open>BARRA_OUTLIER_FRAC\<close> hold, the outlier table
  is what it was, or empty, or has one entry for each layer whose channels index the rows of the block
  and whose weights are complete.
\<close>

theorem outliers_in_range:
  assumes "barra_load_outliers F c = Some c'" "0 \<le> fx_D c" "0 \<le> fx_FF c"
  shows "fx_ol c' = fx_ol c \<or> fx_ol c' = [] \<or>
    length (fx_ol c') = nat (fx_NL c) \<and> list_all (outl_ok c) (fx_ol c')"
proof (cases "fx_ol c' = fx_ol c \<or> fx_ol c' = []")
  case False
  then obtain f h kd kf ls where k: "outlier_counts F (fx_D c) (fx_FF c) (h ! 3) (h ! 4) = (kd, kf)" "0 < kd" "0 \<le> h ! 4"
    and ls: "those (map (read_outl f (nat (fx_D c)) (nat (fx_FF c)) (nat (h ! 3)) (nat (h ! 4)) (nat kd) (nat kf))
        [0..<nat (fx_NL c)]) = Some ls" "fx_ol c' = ls"
    using assms(1)
    by (fastforce simp: barra_load_outliers_def Let_def split: option.splits if_splits prod.splits)
  have "nat kd \<le> nat (h ! 3) \<and> nat kf \<le> nat (h ! 4)" using outlier_counts_le [OF k] by linarith
  then have "outl_ok c y" if "read_outl f (nat (fx_D c)) (nat (fx_FF c)) (nat (h ! 3)) (nat (h ! 4)) (nat kd) (nat kf) l = Some y" for l y
    using read_outl_ok [OF that] k(2) assms(2,3) by simp
  then have "length ls = length [0..<nat (fx_NL c)] \<and> list_all (outl_ok c) ls"
    by (intro those_list_all [OF ls(1)]) blast
  then show ?thesis using ls(2) by simp
qed auto

text \<open>A file of one layer with one channel on each side.\<close>

definition bol0 :: "byte list" where
  "bol0 = str ''BOL1'' @ put32s [2, 3, 1, 1, 1, 1] @ put32s [1] @ put32s [2] @
     [1, 0, 2, 0, 3, 0] @ [4, 0, 5, 0, 6, 0] @ [7, 0, 8, 0]"

definition flib_bol :: flib where
  "flib_bol = flib0\<lparr>fl_env := (\<lambda>n. if n = ''BARRA_OUTLIER'' then Some ''o'' else None), fl_file := (\<lambda>_. Some bol0)\<rparr>"

lemma bol0_loads:
  "map_option fx_ol (barra_load_outliers flib_bol (fctx_ready\<lparr>fx_D := 2, fx_FF := 3\<rparr>)) =
     Some [\<lparr>ol_kd = 1, ol_kf = 1, ol_od = [1], ol_of = [2], ol_wg = [1, 2, 3], ol_wu = [4, 5, 6], ol_wd = [7, 8]\<rparr>]"
proof -
  have i6: "ints_of 6 (put32s [2, 3, 1, 1, 1, 1]) = [2, 3, 1, 1, 1, 1]"
    using get32s_put32s_id [of "[2, 3, 1, 1, 1, 1]" 6 "[]"] by (simp add: ints_of_def s32_def)
  have i1: "ints_of 1 (put32s [n]) = [int n]" if "n < 2 ^ 31" for n
    using get32s_put32s_id [of "[n]" 1 "[]"] that by (simp add: ints_of_def s32_def)
  have str4: "length (str ''BOL1'') = 4" by (simp add: str_def)
  note len = str4 length_put32s
  have h: "take 4 bol0 = str ''BOL1''" "take 24 (drop 4 bol0) = put32s [2, 3, 1, 1, 1, 1]" "length bol0 = 52"
    by (simp_all add: bol0_def len del: put32s_simps)
  have hd6: "ints_of 6 (take 24 (drop 4 bol0)) = [2, 3, 1, 1, 1, 1]" unfolding h(2) by (rule i6)
  have p: "fread_at bol0 28 4 = Some (put32s [1])" "fread_at bol0 32 4 = Some (put32s [2])"
    "fread_at bol0 36 6 = Some [1, 0, 2, 0, 3, 0]" "fread_at bol0 42 6 = Some [4, 0, 5, 0, 6, 0]"
    "fread_at bol0 48 4 = Some [7, 0, 8, 0]"
    by (simp_all add: fread_at_def h(3) del: put32s_simps) (simp_all add: bol0_def len del: put32s_simps)
  have r: "read_outl bol0 2 3 1 1 1 1 0 =
      Some \<lparr>ol_kd = 1, ol_kf = 1, ol_od = [1], ol_of = [2], ol_wg = [1, 2, 3], ol_wu = [4, 5, 6], ol_wd = [7, 8]\<rparr>"
    using i1 [of 1] i1 [of 2] by (simp add: read_outl_def Let_def rd_f16_def p)
  show ?thesis
    using r by (simp add: barra_load_outliers_def flib_bol_def h(1,3) hd6 outlier_counts_def Let_def
        fctx_ready_def fctx0_def flib0_def)
qed

theorem outliers_in_range_witness:
  "case barra_load_outliers flib_bol (fctx_ready\<lparr>fx_D := 2, fx_FF := 3\<rparr>) of None \<Rightarrow> False
   | Some c \<Rightarrow> length (fx_ol c) = 1 \<and> list_all (outl_ok (fctx_ready\<lparr>fx_D := 2, fx_FF := 3\<rparr>)) (fx_ol c)"
proof -
  obtain c where c: "barra_load_outliers flib_bol (fctx_ready\<lparr>fx_D := 2, fx_FF := 3\<rparr>) = Some c"
    and l: "fx_ol c \<noteq> []" using bol0_loads by auto
  show ?thesis using outliers_in_range [OF c] c l by (simp add: fctx_ready_def fctx0_def)
qed

section \<open>Buffers\<close>

lemma zc_alloc_sizes:
  assumes "barra_zc_alloc h m p sz zs = (True, zs')"
  shows "cb_size (zs' p) = sz" "q \<noteq> p \<Longrightarrow> zs' q = zs q"
  using assms by (auto simp: barra_zc_alloc_def cpu_begin_def split: option.splits if_splits)

lemma zc_allocs_sizes:
  "zc_allocs F l c = (True, c') \<Longrightarrow> distinct (map fst l) \<Longrightarrow>
   list_all (\<lambda>(p, sz). cb_size (fx_zs c' p) = nat (sz mod 2 ^ 32)) l \<and>
   (\<forall>q. q \<notin> fst ` set l \<longrightarrow> fx_zs c' q = fx_zs c q)"
proof (induction F l c rule: zc_allocs.induct)
  case (2 F p sz r c)
  obtain ok zs where a: "barra_zc_alloc (fl_heap F (fx_tick c)) (fl_mmap F (fx_tick c)) p (nat (sz mod 2 ^ 32)) (fx_zs c) = (ok, zs)"
    by (metis surj_pair)
  then have ok: "ok" "zc_allocs F r (c\<lparr>fx_zs := zs, fx_tick := Suc (fx_tick c)\<rparr>) = (True, c')"
    using "2.prems"(1) by (simp_all add: Let_def split: if_splits)
  have a': "barra_zc_alloc (fl_heap F (fx_tick c)) (fl_mmap F (fx_tick c)) p (nat (sz mod 2 ^ 32)) (fx_zs c) = (True, zs)"
    using a ok(1) by simp
  have d: "distinct (map fst r)" "p \<notin> fst ` set r" using "2.prems"(2) by simp_all
  note IH = "2.IH" [OF a [symmetric] refl ok(1) ok(2) d(1)]
  show ?case using IH d(2) zc_alloc_sizes [OF a'] by auto
qed auto

text \<open>
  When \<open>barra_load_meta\<close> has its buffers, each of them holds the tile it is used for exactly if the
  size of the tile is below 4 GB; the bounds on the head of the file do not give that.
\<close>

theorem buffers_fit_iff:
  assumes "head_ok c" "0 < fx_Bd c" "zc_allocs F (ctx_bufs c) c = (True, c')"
  shows "list_all (\<lambda>(p, sz). int (cb_size (fx_zs c' p)) = sz) (ctx_bufs c) \<longleftrightarrow>
    list_all (\<lambda>(p, sz). sz < 2 ^ 32) (ctx_bufs c)"
proof -
  have "distinct (map fst (ctx_bufs c))"
    by (simp add: ctx_bufs_def ZI_def ZO_def ZID_def ZOG_def ZOU_def ZIF_def ZOD_def)
  then have s: "list_all (\<lambda>(p, sz). cb_size (fx_zs c' p) = nat (sz mod 2 ^ 32)) (ctx_bufs c)"
    using zc_allocs_sizes [OF assms(3)] by blast
  have pos: "list_all (\<lambda>(p, sz). 0 \<le> sz) (ctx_bufs c)"
    using assms(1,2) by (auto simp: ctx_bufs_def head_ok_def Let_def)
  have eq: "int (nat (sz mod 2 ^ 32)) = sz \<longleftrightarrow> sz < 2 ^ 32" if "0 \<le> sz" for sz :: int
    using that pos_mod_bound [of "2 ^ 32" sz] by (auto simp: mod_pos_pos_trivial)
  have "(case x of (p, sz) \<Rightarrow> int (cb_size (fx_zs c' p)) = sz) \<longleftrightarrow> (case x of (p, sz) \<Rightarrow> sz < 2 ^ 32)"
    if x: "x \<in> set (ctx_bufs c)" for x
  proof (cases x)
    case (Pair p sz)
    then have "cb_size (fx_zs c' p) = nat (sz mod 2 ^ 32)" "0 \<le> sz" using s pos x by (auto simp: list_all_iff)
    then show ?thesis using eq [of sz] Pair by simp
  qed
  then show ?thesis unfolding list_all_iff by simp
qed

lemma zc_allocs_ok: "fl_heap F = Some \<Longrightarrow> fl_mmap F = (\<lambda>_. True) \<Longrightarrow> fst (zc_allocs F l c)"
  by (induction F l c rule: zc_allocs.induct) (auto simp: barra_zc_alloc_def Let_def split: prod.splits)

theorem buffers_fit_iff_witness:
  "let c = fctx_ready\<lparr>fx_B := 65536, fx_FF := 65600, fx_bits := 8, fx_split := 3, fx_Bd := 1\<rparr> in
   head_ok c \<and> fst (zc_allocs flib0 (ctx_bufs c) c) \<and>
   \<not> list_all (\<lambda>(p, sz). int (cb_size (fx_zs (snd (zc_allocs flib0 (ctx_bufs c) c)) p)) = sz) (ctx_bufs c)"
proof -
  define c where "c = fctx_ready\<lparr>fx_B := 65536, fx_FF := 65600, fx_bits := 8, fx_split := 3, fx_Bd := 1\<rparr>"
  have h: "head_ok c" "0 < fx_Bd c" by (simp_all add: c_def head_ok_def fctx_ready_def fctx0_def)
  have "fst (zc_allocs flib0 (ctx_bufs c) c)" by (rule zc_allocs_ok) (simp_all add: flib0_def)
  then obtain c' where z: "zc_allocs flib0 (ctx_bufs c) c = (True, c')" by (metis prod.collapse)
  have "\<not> list_all (\<lambda>(p, sz). sz < 2 ^ 32) (ctx_bufs c)"
    by (simp add: c_def ctx_bufs_def fctx_ready_def fctx0_def)
  then show ?thesis using buffers_fit_iff [OF h z] h z unfolding c_def [symmetric] Let_def by simp
qed

section \<open>Nodes that are not fused\<close>

text \<open>
  When the product at a down node is not fused, because gate and up do not have the same input, the
  backend still skips gate, up and the GLU as consumed: it computes the down node alone, on a GLU that
  nobody has computed, and reports success.
\<close>

theorem unfused_inputs_skipped:
  assumes "list_all (\<lambda>p. tn_flag (fl_t F p)) [u, g, glu, dn]"
    and "f_op F u = OpMulMat" "f_op F g = OpMulMat" "f_op F glu = OpGlu" "f_op F dn = OpMulMat"
    and "barra_ffn_kind F (f_src F u 0) = Some (0, l)" "barra_ffn_kind F (f_src F g 0) = Some (1, l)"
      "barra_ffn_kind F (f_src F dn 0) = Some (2, l)"
    and "f_src F glu 0 = Some g" "f_src F glu 1 = Some u" "f_src F dn 1 = Some glu"
    and "f_src F g 1 \<noteq> f_src F u 1" "fx_cpu c"
  shows "ggml_backend_barra_graph_compute F [u, g, glu, dn] c = Some (c\<lparr>fx_fm := fl_node F dn (fx_fm c)\<rparr>)"
  using assms
  by (simp add: ggml_backend_barra_graph_compute_def upt_rec barra_step_def Let_def mm_consumed_def
      glu_consumed_def is_down_def ffn_match_def barra_node_on_cpu_def)

theorem unfused_inputs_skipped_witness:
  "list_all (ggml_backend_barra_device_supports_op flib0 (Some (fctx_ready\<lparr>fx_minb := 1\<rparr>))) [6, 7, 8, 9] \<and>
   ggml_backend_barra_graph_compute (flib0\<lparr>fl_node := (\<lambda>p m a. if a = 1000 * p then 7 else m a)\<rparr>) [6, 7, 8, 9] fctx_ready =
     Some (fctx_ready\<lparr>fx_fm := (\<lambda>a. if a = 9000 then 7 else 5)\<rparr>)"
proof -
  let ?F = "flib0\<lparr>fl_node := (\<lambda>p m a. if a = 1000 * p then 7 else m a)\<rparr>"
  have e: "fl_t ?F = fl_t flib0" by simp
  have t: "f_src ?F p i = f_src flib0 p i" "f_op ?F p = f_op flib0 p" "fl_t ?F = tensors0" "fl_t flib0 = tensors0"
    "barra_ffn_kind ?F w = barra_ffn_kind flib0 w" for p i w
    unfolding f_src_def f_op_def barra_ffn_kind_def e by (simp_all add: flib0_def)
  have kind: "barra_ffn_kind flib0 (Some 1) = Some (0, 0)" "barra_ffn_kind flib0 (Some 2) = Some (1, 0)"
    "barra_ffn_kind flib0 (Some 3) = Some (2, 0)"
    by code_simp+
  have f: "f_src flib0 6 0 = Some 1" "f_src flib0 6 1 = Some 4" "f_src flib0 7 0 = Some 2" "f_src flib0 7 1 = Some 5"
    "f_src flib0 8 0 = Some 7" "f_src flib0 8 1 = Some 6" "f_src flib0 9 0 = Some 3" "f_src flib0 9 1 = Some 8"
    "f_op flib0 6 = OpMulMat" "f_op flib0 7 = OpMulMat" "f_op flib0 8 = OpGlu" "f_op flib0 9 = OpMulMat"
    by code_simp+
  have "ggml_backend_barra_graph_compute ?F [6, 7, 8, 9] fctx_ready =
      Some (fctx_ready\<lparr>fx_fm := fl_node ?F 9 (fx_fm fctx_ready)\<rparr>)"
    by (rule unfused_inputs_skipped [where l = 0])
      (simp_all add: t kind f del: One_nat_def, simp_all add: tensors0_def nt0_def fctx_ready_def)
  moreover have "fl_node ?F 9 (fx_fm fctx_ready) = (\<lambda>a. if a = 9000 then 7 else 5)"
    by (simp add: fctx_ready_def fctx0_def fun_eq_iff)
  moreover have "list_all (ggml_backend_barra_device_supports_op flib0 (Some (fctx_ready\<lparr>fx_minb := 1\<rparr>))) [6, 7, 8, 9]"
    by (simp add: ggml_backend_barra_device_supports_op_def sup_ffn_mm_def sup_ffn_glu_def Let_def kind f t del: One_nat_def)
      (simp add: tensors0_def nt0_def fctx_ready_def fctx0_def flib0_def)
  ultimately show ?thesis by simp
qed

end
