(* ===== verification/Ffn_Pool.thy ===== *)
theory Ffn_Pool
  imports Barra_Prelude
begin

text \<open>
  The thread pool \<open>barra_pool\<close> of src/src/ggml-barra/ggml-barra.cpp as a step relation: the main
  thread in \<open>run\<close> and the workers in \<open>worker\<close>, one atomic operation per step, in any order, with the mutex
  \<open>mu\<close> and the condition variable \<open>cv\<close>: a worker that has spun long enough takes the mutex, tests \<open>gen\<close>
  under it and goes to sleep, releasing it; only \<open>notify_all\<close>, or a spurious wake-up, wakes it again. The
  plain fields \<open>n\<close> and \<open>fn\<close> are published by the increment of \<open>gen\<close>. A round of a spinning thread that
  finds nothing is no step, and how often a worker spins before it takes the mutex is open. The
  counters do not reach \<open>2 ^ 31\<close>. The end of the process (\<open>stop\<close>) is left out.
\<close>

section \<open>Steps\<close>

text \<open>
  A worker spins on \<open>gen\<close> (\<open>WWait\<close>), gives up and waits for the mutex (\<open>WLock\<close>), tests the condition
  (\<open>WTest\<close>), is about to sleep (\<open>WPark\<close>) or asleep (\<open>WSleep\<close>), or leaves with the mutex (\<open>WOut\<close>); it reads
  the new \<open>gen\<close>, takes rows, runs them, counts itself as done. The number beside it is \<open>seen\<close>. The main
  thread resets the counters, takes the mutex (\<open>MGen\<close>), raises \<open>gen\<close>, releases the mutex, notifies, takes
  rows and waits for the workers.
\<close>

datatype wpc = WWait | WLock | WTest | WPark | WSleep | WOut | WLoad | WFetch | WExec nat | WDone
datatype mpc = MIdle | MNext | MDone | MGen | MRaise | MUnlock | MNotify | MFetch | MExec nat | MSpin

text \<open>\<open>po_mu\<close>: the thread that holds the mutex, 0 being the main thread; \<open>po_fn\<close>: the number of the call; \<open>po_log\<close>: the rows that were run, each with its call; \<open>po_calls\<close>:
  the number of rows of each call so far.\<close>

record pool =
  po_nt :: nat
  po_n :: nat
  po_fn :: nat
  po_next :: nat
  po_done :: nat
  po_gen :: nat
  po_mu :: "nat option"
  po_w :: "nat \<Rightarrow> wpc \<times> nat"
  po_m :: mpc
  po_log :: "(nat \<times> nat) list"
  po_calls :: "nat list"

definition pool0 :: "nat \<Rightarrow> pool" where
  "pool0 nt = \<lparr>po_nt = nt, po_n = 0, po_fn = 0, po_next = 0, po_done = 0, po_gen = 0,
     po_mu = None, po_w = (\<lambda>_. (WWait, 0)), po_m = MIdle, po_log = [], po_calls = []\<rparr>"

text \<open>The number of threads, from \<open>BARRA_GLUE_THREADS\<close>.\<close>

definition glue_threads :: "int option \<Rightarrow> nat" where
  "glue_threads e = (let nt = (case e of None \<Rightarrow> 4 | Some v \<Rightarrow> v) in if nt < 1 then 1 else nat nt)"

lemma glue_threads_pos: "1 \<le> glue_threads e"
  by (auto simp: glue_threads_def Let_def split: option.split)

definition set_w :: "nat \<Rightarrow> wpc \<Rightarrow> nat \<Rightarrow> pool \<Rightarrow> pool" where
  "set_w i pc sn s = s\<lparr>po_w := (po_w s)(i := (pc, sn))\<rparr>"

definition take_row :: "pool \<Rightarrow> pool" where
  "take_row s = s\<lparr>po_next := Suc (po_next s)\<rparr>"

definition ran :: "nat \<Rightarrow> pool \<Rightarrow> pool" where
  "ran r s = s\<lparr>po_log := po_log s @ [(po_fn s, r)]\<rparr>"

text \<open>\<open>notify_all\<close>: whoever sleeps goes back to the mutex.\<close>

definition roused :: "wpc \<times> nat \<Rightarrow> wpc \<times> nat" where
  "roused x = (if fst x = WSleep then (WLock, snd x) else x)"

inductive pool_step :: "pool \<Rightarrow> pool \<Rightarrow> bool" where
  call_inline: "po_m s = MIdle \<Longrightarrow> po_nt s = 1 \<or> n < 2 \<Longrightarrow>
    pool_step s (s\<lparr>po_calls := po_calls s @ [n], po_log := po_log s @ map (Pair (length (po_calls s))) [0..<n]\<rparr>)"
| call: "po_m s = MIdle \<Longrightarrow> \<not> (po_nt s = 1 \<or> n < 2) \<Longrightarrow>
    pool_step s (s\<lparr>po_calls := po_calls s @ [n], po_n := n, po_fn := length (po_calls s), po_m := MNext\<rparr>)"
| m_next: "po_m s = MNext \<Longrightarrow> pool_step s (s\<lparr>po_next := 0, po_m := MDone\<rparr>)"
| m_done: "po_m s = MDone \<Longrightarrow> pool_step s (s\<lparr>po_done := 0, po_m := MGen\<rparr>)"
| m_gen: "po_m s = MGen \<Longrightarrow> po_mu s = None \<Longrightarrow> pool_step s (s\<lparr>po_mu := Some 0, po_m := MRaise\<rparr>)"
| m_raise: "po_m s = MRaise \<Longrightarrow> pool_step s (s\<lparr>po_gen := Suc (po_gen s), po_m := MUnlock\<rparr>)"
| m_unlock: "po_m s = MUnlock \<Longrightarrow> pool_step s (s\<lparr>po_mu := None, po_m := MNotify\<rparr>)"
| m_notify: "po_m s = MNotify \<Longrightarrow> pool_step s (s\<lparr>po_w := \<lambda>i. roused (po_w s i), po_m := MFetch\<rparr>)"
| m_row: "po_m s = MFetch \<Longrightarrow> po_next s < po_n s \<Longrightarrow> pool_step s (take_row s\<lparr>po_m := MExec (po_next s)\<rparr>)"
| m_no_row: "po_m s = MFetch \<Longrightarrow> \<not> po_next s < po_n s \<Longrightarrow> pool_step s (take_row s\<lparr>po_m := MSpin\<rparr>)"
| m_exec: "po_m s = MExec r \<Longrightarrow> pool_step s (ran r s\<lparr>po_m := MFetch\<rparr>)"
| m_return: "po_m s = MSpin \<Longrightarrow> \<not> po_done s < po_nt s - 1 \<Longrightarrow> pool_step s (s\<lparr>po_m := MIdle\<rparr>)"
| w_wake: "1 \<le> i \<Longrightarrow> i < po_nt s \<Longrightarrow> po_w s i = (WWait, sn) \<Longrightarrow> po_gen s \<noteq> sn \<Longrightarrow> pool_step s (set_w i WLoad sn s)"
| w_slow: "1 \<le> i \<Longrightarrow> i < po_nt s \<Longrightarrow> po_w s i = (WWait, sn) \<Longrightarrow> po_gen s = sn \<Longrightarrow> pool_step s (set_w i WLock sn s)"
| w_lock: "1 \<le> i \<Longrightarrow> i < po_nt s \<Longrightarrow> po_w s i = (WLock, sn) \<Longrightarrow> po_mu s = None \<Longrightarrow>
    pool_step s (set_w i WTest sn (s\<lparr>po_mu := Some i\<rparr>))"
| w_park: "1 \<le> i \<Longrightarrow> i < po_nt s \<Longrightarrow> po_w s i = (WTest, sn) \<Longrightarrow> po_gen s = sn \<Longrightarrow> pool_step s (set_w i WPark sn s)"
| w_sees: "1 \<le> i \<Longrightarrow> i < po_nt s \<Longrightarrow> po_w s i = (WTest, sn) \<Longrightarrow> po_gen s \<noteq> sn \<Longrightarrow> pool_step s (set_w i WOut sn s)"
| w_sleep: "1 \<le> i \<Longrightarrow> i < po_nt s \<Longrightarrow> po_w s i = (WPark, sn) \<Longrightarrow> pool_step s (set_w i WSleep sn (s\<lparr>po_mu := None\<rparr>))"
| w_spurious: "1 \<le> i \<Longrightarrow> i < po_nt s \<Longrightarrow> po_w s i = (WSleep, sn) \<Longrightarrow> pool_step s (set_w i WLock sn s)"
| w_out: "1 \<le> i \<Longrightarrow> i < po_nt s \<Longrightarrow> po_w s i = (WOut, sn) \<Longrightarrow> pool_step s (set_w i WWait sn (s\<lparr>po_mu := None\<rparr>))"
| w_load: "1 \<le> i \<Longrightarrow> i < po_nt s \<Longrightarrow> po_w s i = (WLoad, sn) \<Longrightarrow> pool_step s (set_w i WFetch (po_gen s) s)"
| w_row: "1 \<le> i \<Longrightarrow> i < po_nt s \<Longrightarrow> po_w s i = (WFetch, sn) \<Longrightarrow> po_next s < po_n s \<Longrightarrow>
    pool_step s (set_w i (WExec (po_next s)) sn (take_row s))"
| w_no_row: "1 \<le> i \<Longrightarrow> i < po_nt s \<Longrightarrow> po_w s i = (WFetch, sn) \<Longrightarrow> \<not> po_next s < po_n s \<Longrightarrow>
    pool_step s (set_w i WDone sn (take_row s))"
| w_exec: "1 \<le> i \<Longrightarrow> i < po_nt s \<Longrightarrow> po_w s i = (WExec r, sn) \<Longrightarrow> pool_step s (set_w i WFetch sn (ran r s))"
| w_done: "1 \<le> i \<Longrightarrow> i < po_nt s \<Longrightarrow> po_w s i = (WDone, sn) \<Longrightarrow>
    pool_step s (set_w i WWait sn (s\<lparr>po_done := Suc (po_done s)\<rparr>))"

text \<open>The rows of a list of calls.\<close>

definition all_rows :: "nat list \<Rightarrow> (nat \<times> nat) multiset" where
  "all_rows cs = mset (concat (map (\<lambda>(f, n). map (Pair f) [0..<n]) (enumerate 0 cs)))"

lemma all_rows_snoc: "all_rows (cs @ [n]) = all_rows cs + mset (map (Pair (length cs)) [0..<n])"
  by (simp add: all_rows_def enumerate_append_eq)

section \<open>The invariant\<close>

text \<open>The rows a thread has taken and not yet finished; a worker that has counted itself.\<close>

definition w_rows :: "nat \<Rightarrow> wpc \<times> nat \<Rightarrow> (nat \<times> nat) multiset" where
  "w_rows f x = (case fst x of WExec r \<Rightarrow> {#(f, r)#} | _ \<Rightarrow> {#})"

definition m_rows :: "nat \<Rightarrow> mpc \<Rightarrow> (nat \<times> nat) multiset" where
  "m_rows f m = (case m of MExec r \<Rightarrow> {#(f, r)#} | _ \<Rightarrow> {#})"

text \<open>Waiting for the next call, spinning or asleep or in between.\<close>

fun waits :: "wpc \<Rightarrow> bool" where
  "waits WWait = True"
| "waits WLock = True"
| "waits WTest = True"
| "waits WPark = True"
| "waits WSleep = True"
| "waits WOut = True"
| "waits _ = False"

definition rests :: "nat \<Rightarrow> wpc \<times> nat \<Rightarrow> bool" where
  "rests g x \<longleftrightarrow> waits (fst x) \<and> snd x = g"

definition w_over :: "nat \<Rightarrow> wpc \<times> nat \<Rightarrow> nat" where
  "w_over g x = (if rests g x then 1 else 0)"

definition w_ok :: "pool \<Rightarrow> wpc \<times> nat \<Rightarrow> bool" where
  "w_ok s x \<longleftrightarrow>
     (case fst x of
        WLoad \<Rightarrow> snd x \<noteq> po_gen s
      | WFetch \<Rightarrow> snd x = po_gen s
      | WExec r \<Rightarrow> snd x = po_gen s
      | WDone \<Rightarrow> snd x = po_gen s \<and> po_n s \<le> po_next s
      | _ \<Rightarrow> snd x \<noteq> po_gen s \<or> po_n s \<le> po_next s)"

definition workers :: "pool \<Rightarrow> nat set" where
  "workers s = {1..<po_nt s}"

definition at_rest :: "pool \<Rightarrow> bool" where
  "at_rest s \<longleftrightarrow> (\<forall>i\<in>workers s. rests (po_gen s) (po_w s i))"

definition current :: "pool \<Rightarrow> bool" where
  "current s \<longleftrightarrow> (\<exists>cs. po_calls s = cs @ [po_n s] \<and> po_fn s = length cs)"

definition in_call :: "pool \<Rightarrow> bool" where
  "in_call s \<longleftrightarrow>
     current s \<and> (\<forall>i\<in>workers s. w_ok s (po_w s i)) \<and>
     po_done s = (\<Sum>i\<in>workers s. w_over (po_gen s) (po_w s i)) \<and>
     mset (po_log s) + m_rows (po_fn s) (po_m s) + (\<Sum>i\<in>workers s. w_rows (po_fn s) (po_w s i)) =
       all_rows (butlast (po_calls s)) + mset (map (Pair (po_fn s)) [0..<min (po_next s) (po_n s)]) \<and>
     (po_m s = MSpin \<longrightarrow> po_n s \<le> po_next s)"

definition pool_inv :: "pool \<Rightarrow> bool" where
  "pool_inv s \<longleftrightarrow> 1 \<le> po_nt s \<and>
     (case po_m s of
        MIdle \<Rightarrow> at_rest s \<and> mset (po_log s) = all_rows (po_calls s)
      | MNext \<Rightarrow> at_rest s \<and> current s \<and> mset (po_log s) = all_rows (butlast (po_calls s))
      | MDone \<Rightarrow> at_rest s \<and> current s \<and> mset (po_log s) = all_rows (butlast (po_calls s)) \<and> po_next s = 0
      | MGen \<Rightarrow> at_rest s \<and> current s \<and> mset (po_log s) = all_rows (butlast (po_calls s)) \<and> po_next s = 0 \<and> po_done s = 0
      | MRaise \<Rightarrow> at_rest s \<and> current s \<and> mset (po_log s) = all_rows (butlast (po_calls s)) \<and> po_next s = 0 \<and> po_done s = 0
      | _ \<Rightarrow> in_call s)"

lemma sum_upd:
  fixes f :: "'a \<Rightarrow> 'b :: comm_monoid_add"
  assumes "finite A" "i \<in> A"
  shows "(\<Sum>j\<in>A. f ((w(i := x)) j)) + f (w i) = (\<Sum>j\<in>A. f (w j)) + f x"
proof -
  have "(\<Sum>j\<in>A. f ((w(i := x)) j)) = f x + (\<Sum>j\<in>A - {i}. f (w j))"
    using assms by (subst sum.remove [of A i]) (auto intro!: sum.cong)
  moreover have "(\<Sum>j\<in>A. f (w j)) = f (w i) + (\<Sum>j\<in>A - {i}. f (w j))"
    using assms by (rule sum.remove)
  ultimately show ?thesis by (simp add: ac_simps)
qed

lemma finite_workers [simp]: "finite (workers s)"
  by (simp add: workers_def)

lemma pool_fields [simp]:
  "po_nt (set_w i pc sn s) = po_nt s" "po_n (set_w i pc sn s) = po_n s" "po_fn (set_w i pc sn s) = po_fn s"
  "po_next (set_w i pc sn s) = po_next s" "po_done (set_w i pc sn s) = po_done s" "po_gen (set_w i pc sn s) = po_gen s"
  "po_m (set_w i pc sn s) = po_m s" "po_mu (set_w i pc sn s) = po_mu s" "po_log (set_w i pc sn s) = po_log s" "po_calls (set_w i pc sn s) = po_calls s"
  "po_w (set_w i pc sn s) = (po_w s)(i := (pc, sn))" "workers (set_w i pc sn s) = workers s"
  by (simp_all add: set_w_def workers_def)

lemma w_ok_mono:
  assumes "w_ok s x" "po_gen s' = po_gen s" "po_n s' = po_n s" "po_next s \<le> po_next s'"
  shows "w_ok s' x"
  using assms by (cases "fst x") (auto simp: w_ok_def)

text \<open>A step of worker \<open>i\<close> that keeps the balance of rows and of the counter.\<close>

lemma in_call_worker:
  assumes c: "in_call s" and i: "i \<in> workers s"
    and same: "po_nt s' = po_nt s" "po_n s' = po_n s" "po_fn s' = po_fn s" "po_gen s' = po_gen s" "po_m s' = po_m s"
      "po_calls s' = po_calls s"
    and w: "po_w s' = (po_w s)(i := x)" and nx: "po_next s \<le> po_next s'" and x: "w_ok s' x"
    and d: "po_done s' + w_over (po_gen s) (po_w s i) = po_done s + w_over (po_gen s) x"
    and l: "mset (po_log s') + w_rows (po_fn s) x + mset (map (Pair (po_fn s)) [0..<min (po_next s) (po_n s)]) =
      mset (po_log s) + w_rows (po_fn s) (po_w s i) + mset (map (Pair (po_fn s)) [0..<min (po_next s') (po_n s)])"
  shows "in_call s'"
proof -
  have ws: "workers s' = workers s" using same by (simp add: workers_def)
  have ok: "w_ok s' (po_w s' j)" if "j \<in> workers s" for j
  proof (cases "j = i")
    case False
    have "w_ok s (po_w s j)" using c that by (simp add: in_call_def)
    then have "w_ok s' (po_w s j)" by (rule w_ok_mono) (simp_all add: same nx)
    then show ?thesis using False by (simp add: w)
  qed (simp add: w x)
  have over: "po_done s' = (\<Sum>j\<in>workers s. w_over (po_gen s) (po_w s' j))"
  proof -
    have "(\<Sum>j\<in>workers s. w_over (po_gen s) (po_w s' j)) + w_over (po_gen s) (po_w s i) =
        po_done s + w_over (po_gen s) x"
      unfolding w using sum_upd [OF finite_workers i, of "w_over (po_gen s)" "po_w s" x] c by (simp add: in_call_def)
    then show ?thesis using d by simp
  qed
  define B where "B = all_rows (butlast (po_calls s))"
  define M where "M = m_rows (po_fn s) (po_m s)"
  define R R' where "R = mset (map (Pair (po_fn s)) [0..<min (po_next s) (po_n s)])"
    and "R' = mset (map (Pair (po_fn s)) [0..<min (po_next s') (po_n s)])"
  define S S' where "S = (\<Sum>j\<in>workers s. w_rows (po_fn s) (po_w s j))"
    and "S' = (\<Sum>j\<in>workers s. w_rows (po_fn s) (po_w s' j))"
  have 1: "mset (po_log s) + M + S = B + R" using c by (simp add: in_call_def M_def S_def B_def R_def)
  have 2: "S' + w_rows (po_fn s) (po_w s i) = S + w_rows (po_fn s) x"
    unfolding S_def S'_def w by (rule sum_upd [OF finite_workers i])
  have 3: "mset (po_log s') + w_rows (po_fn s) x + R = mset (po_log s) + w_rows (po_fn s) (po_w s i) + R'"
    using l by (simp add: R_def R'_def)
  have "mset (po_log s') + M + S' = B + R'"
  proof (rule add_right_imp_eq)
    have "mset (po_log s') + M + S' + (w_rows (po_fn s) x + R + w_rows (po_fn s) (po_w s i)) =
        (mset (po_log s') + w_rows (po_fn s) x + R) + M + (S' + w_rows (po_fn s) (po_w s i))" by (simp add: ac_simps)
    also have "\<dots> = (mset (po_log s) + M + S) + (w_rows (po_fn s) (po_w s i) + R' + w_rows (po_fn s) x)"
      unfolding 2 3 by (simp add: ac_simps)
    also have "\<dots> = B + R' + (w_rows (po_fn s) x + R + w_rows (po_fn s) (po_w s i))" unfolding 1 by (simp add: ac_simps)
    finally show "mset (po_log s') + M + S' + (w_rows (po_fn s) x + R + w_rows (po_fn s) (po_w s i)) =
        B + R' + (w_rows (po_fn s) x + R + w_rows (po_fn s) (po_w s i))" .
  qed
  moreover have "po_m s = MSpin \<longrightarrow> po_n s \<le> po_next s'" using c nx by (auto simp: in_call_def)
  ultimately show ?thesis
    using c ok over unfolding in_call_def ws same current_def
    by (simp add: B_def M_def R'_def S'_def)
qed

lemma rows_Suc: "mset (map (Pair f) [0..<min (Suc k) n]) = mset (map (Pair f) [0..<min k n]) + (if k < n then {#(f, k)#} else {#})"
proof (cases "k < n")
  case True
  then have "min (Suc k) n = Suc (min k n)" "min k n = k" by simp_all
  then show ?thesis using True by simp
next
  case False
  then have "min (Suc k) n = n" "min k n = n" by simp_all
  then show ?thesis using False by simp
qed

text \<open>The main thread is between the publication of a call and its return.\<close>

definition active :: "mpc \<Rightarrow> bool" where
  "active m \<longleftrightarrow> m \<noteq> MIdle \<and> m \<noteq> MNext \<and> m \<noteq> MDone \<and> m \<noteq> MGen \<and> m \<noteq> MRaise"

lemma inv_active: "active (po_m s) \<Longrightarrow> pool_inv s \<longleftrightarrow> 1 \<le> po_nt s \<and> in_call s"
  by (auto simp: active_def pool_inv_def split: mpc.splits)

text \<open>While the pool is at rest only the main thread moves.\<close>

lemma worker_active:
  assumes "pool_inv s" "i \<in> workers s" "\<not> rests (po_gen s) (po_w s i)"
  shows "active (po_m s) \<and> in_call s"
  using assms by (auto simp: pool_inv_def at_rest_def active_def split: mpc.splits)

lemma inv_worker:
  assumes "pool_inv s" "i \<in> workers s" "\<not> rests (po_gen s) (po_w s i)"
    and same: "po_nt s' = po_nt s" "po_n s' = po_n s" "po_fn s' = po_fn s" "po_gen s' = po_gen s" "po_m s' = po_m s"
      "po_calls s' = po_calls s"
    and w: "po_w s' = (po_w s)(i := x)" and nx: "po_next s \<le> po_next s'" and x: "w_ok s (po_w s i) \<Longrightarrow> w_ok s' x"
    and d: "w_ok s (po_w s i) \<Longrightarrow> po_done s' + w_over (po_gen s) (po_w s i) = po_done s + w_over (po_gen s) x"
    and l: "mset (po_log s') + w_rows (po_fn s) x + mset (map (Pair (po_fn s)) [0..<min (po_next s) (po_n s)]) =
      mset (po_log s) + w_rows (po_fn s) (po_w s i) + mset (map (Pair (po_fn s)) [0..<min (po_next s') (po_n s)])"
  shows "pool_inv s'"
proof -
  have a: "active (po_m s)" "in_call s" using worker_active [OF assms(1-3)] by simp_all
  then have ok: "w_ok s (po_w s i)" using assms(2) by (simp add: in_call_def)
  have "in_call s'" by (rule in_call_worker [OF a(2) assms(2) same w nx x [OF ok] d [OF ok] l])
  then show ?thesis using inv_active a(1) assms(1) same by auto
qed

lemma rests_rows: "waits (fst x) \<Longrightarrow> w_rows f x = {#}"
  by (cases "fst x") (simp_all add: w_rows_def)

lemma in_call_rest: "at_rest s \<Longrightarrow> (\<Sum>i\<in>workers s. w_rows f (po_w s i)) = {#}"
  by (simp add: at_rest_def rests_def rests_rows)

text \<open>What the invariant asks of a thread that waits is the same wherever it waits.\<close>

definition alike :: "wpc \<times> nat \<Rightarrow> wpc \<times> nat \<Rightarrow> bool" where
  "alike x y \<longleftrightarrow> snd x = snd y \<and> (fst x = fst y \<or> waits (fst x) \<and> waits (fst y))"

lemma w_ok_waits: "waits (fst x) \<Longrightarrow> w_ok s x \<longleftrightarrow> snd x \<noteq> po_gen s \<or> po_n s \<le> po_next s"
  by (cases "fst x") (simp_all add: w_ok_def)

lemma alike_same:
  assumes "alike x y"
  shows "rests g x = rests g y" "w_over g x = w_over g y" "w_rows f x = w_rows f y" "w_ok s x = w_ok s y"
proof -
  consider "x = y" | "waits (fst x)" "waits (fst y)" "snd x = snd y"
    using assms by (auto simp: alike_def prod_eq_iff)
  note c = this
  show "rests g x = rests g y" by (rule c) (simp_all add: rests_def)
  then show "w_over g x = w_over g y" by (simp add: w_over_def)
  show "w_rows f x = w_rows f y" by (rule c) (simp_all add: rests_rows)
  show "w_ok s x = w_ok s y" by (rule c) (simp_all add: w_ok_waits)
qed

lemma alike_step:
  assumes w: "\<And>i. i \<in> workers s \<Longrightarrow> alike (po_w s i) (po_w s' i)"
    and same: "po_nt s' = po_nt s" "po_n s' = po_n s" "po_fn s' = po_fn s" "po_next s' = po_next s" "po_done s' = po_done s"
      "po_gen s' = po_gen s" "po_calls s' = po_calls s" "po_log s' = po_log s"
  shows "at_rest s' = at_rest s" "po_m s' = po_m s \<or> po_m s = MNotify \<and> po_m s' = MFetch \<Longrightarrow> in_call s' = in_call s"
proof -
  have ws: "workers s' = workers s" using same by (simp add: workers_def)
  show "at_rest s' = at_rest s" unfolding at_rest_def ws same using alike_same(1) [OF w] by blast
  have o: "(\<Sum>i\<in>workers s. w_over g (po_w s' i)) = (\<Sum>i\<in>workers s. w_over g (po_w s i))" for g
    by (rule sum.cong) (use alike_same(2) [OF w] in simp_all)
  have r: "(\<Sum>i\<in>workers s. w_rows f (po_w s' i)) = (\<Sum>i\<in>workers s. w_rows f (po_w s i))" for f
    by (rule sum.cong) (use alike_same(3) [OF w] in simp_all)
  have k: "w_ok s' = w_ok s" by (rule ext) (simp add: w_ok_def same cong: wpc.case_cong)
  have ok: "(\<forall>i\<in>workers s. w_ok s (po_w s' i)) = (\<forall>i\<in>workers s. w_ok s (po_w s i))" using alike_same(4) [OF w] by blast
  assume "po_m s' = po_m s \<or> po_m s = MNotify \<and> po_m s' = MFetch"
  then have "m_rows f (po_m s') = m_rows f (po_m s)" "po_m s' = MSpin \<longleftrightarrow> po_m s = MSpin" for f by (auto simp: m_rows_def)
  then show "in_call s' = in_call s" unfolding in_call_def current_def ws same o r k ok by simp
qed

text \<open>A worker that goes from one place of waiting to another.\<close>

lemma wait_inv:
  assumes "pool_inv s" "po_w s i = (pc, sn)" "waits pc" "waits pc'"
  shows "pool_inv (set_w i pc' sn (s\<lparr>po_mu := m\<rparr>))" (is "pool_inv ?t")
proof -
  have a: "alike (po_w s j) (po_w ?t j)" for j using assms(2-4) by (simp add: alike_def)
  show ?thesis using assms(1) alike_step [of s ?t, OF a] by (simp add: pool_inv_def current_def split: mpc.splits)
qed

lemma rest_done: "at_rest s \<Longrightarrow> in_call s \<Longrightarrow> po_done s = po_nt s - 1"
  by (simp add: in_call_def at_rest_def w_over_def) (simp add: workers_def)

text \<open>When all workers have counted themselves, no row is in work.\<close>

lemma all_over:
  assumes "in_call s" "\<not> po_done s < po_nt s - 1"
  shows "at_rest s"
proof (rule ccontr)
  assume "\<not> at_rest s"
  then obtain i where i: "i \<in> workers s" "\<not> rests (po_gen s) (po_w s i)" by (auto simp: at_rest_def)
  have "(\<Sum>j\<in>workers s. w_over (po_gen s) (po_w s j)) < (\<Sum>j\<in>workers s. 1)"
    by (rule sum_strict_mono_ex1) (use i in \<open>auto simp: w_over_def\<close>)
  then show False using assms by (simp add: in_call_def workers_def)
qed

section \<open>Every step keeps the invariant\<close>

lemma pool_step_inv:
  assumes "pool_inv s" "pool_step s s'"
  shows "pool_inv s'"
proof -
  show ?thesis
    using assms(2)
  proof cases
    case (call_inline n)
    then show ?thesis using assms(1) by (simp add: pool_inv_def at_rest_def workers_def all_rows_snoc)
  next
    case (call n)
    then show ?thesis using assms(1) by (simp add: pool_inv_def at_rest_def workers_def current_def)
  next
    case m_next
    then show ?thesis using assms(1) by (simp add: pool_inv_def at_rest_def workers_def current_def)
  next
    case m_done
    then show ?thesis using assms(1) by (simp add: pool_inv_def at_rest_def workers_def current_def)
  next
    case m_gen
    then show ?thesis using assms(1) by (simp add: pool_inv_def at_rest_def workers_def current_def)
  next
    case m_raise
    then have r: "at_rest s" "current s" "mset (po_log s) = all_rows (butlast (po_calls s))" "po_next s = 0" "po_done s = 0"
      using assms(1) by (simp_all add: pool_inv_def)
    have w: "waits (fst (po_w s i))" "snd (po_w s i) = po_gen s" if "i \<in> workers s" for i
      using r(1) that by (simp_all add: at_rest_def rests_def)
    have "in_call s'" using r m_raise w
      by (simp add: in_call_def workers_def current_def w_ok_waits w_over_def rests_def rests_rows m_rows_def)
    then show ?thesis using assms(1) m_raise by (simp add: pool_inv_def)
  next
    case m_unlock
    then have c: "in_call s" using assms(1) by (simp add: pool_inv_def)
    have "w_ok s' (po_w s j)" if "j \<in> workers s" for j
      by (rule w_ok_mono [of s]) (use c that m_unlock(1) in \<open>simp_all add: in_call_def\<close>)
    then have "in_call s'" using c m_unlock by (simp add: in_call_def current_def workers_def m_rows_def)
    then show ?thesis using assms(1) m_unlock by (simp add: pool_inv_def)
  next
    case m_notify
    have a: "alike (po_w s i) (roused (po_w s i))" for i by (simp add: alike_def roused_def)
    have "in_call s" using assms(1) m_notify by (simp add: pool_inv_def)
    then have "in_call s'" using alike_step(2) [of s s'] a m_notify by simp
    then show ?thesis using assms(1) m_notify by (simp add: pool_inv_def)
  next
    case m_row
    then have c: "in_call s" using assms(1) by (simp add: pool_inv_def)
    have "w_ok s' (po_w s j)" if "j \<in> workers s" for j
      by (rule w_ok_mono [of s]) (use c that m_row(1) in \<open>simp_all add: in_call_def take_row_def\<close>)
    then have "in_call s'" using c m_row
      by (auto simp: in_call_def take_row_def workers_def current_def m_rows_def rows_Suc)
    then show ?thesis using assms(1) m_row by (simp add: pool_inv_def take_row_def)
  next
    case m_no_row
    then have c: "in_call s" using assms(1) by (simp add: pool_inv_def)
    have "w_ok s' (po_w s j)" if "j \<in> workers s" for j
      by (rule w_ok_mono [of s]) (use c that m_no_row(1) in \<open>simp_all add: in_call_def take_row_def\<close>)
    then have "in_call s'" using c m_no_row
      by (auto simp: in_call_def take_row_def workers_def current_def m_rows_def rows_Suc)
    then show ?thesis using assms(1) m_no_row by (simp add: pool_inv_def take_row_def)
  next
    case (m_exec r)
    then have c: "in_call s" using assms(1) by (simp add: pool_inv_def)
    have "w_ok s' (po_w s j)" if "j \<in> workers s" for j
      by (rule w_ok_mono [of s]) (use c that m_exec(1) in \<open>simp_all add: in_call_def ran_def\<close>)
    then have "in_call s'" using c m_exec
      by (auto simp: in_call_def ran_def workers_def current_def m_rows_def)
    then show ?thesis using assms(1) m_exec by (simp add: pool_inv_def ran_def)
  next
    case m_return
    then have c: "in_call s" using assms(1) by (simp add: pool_inv_def)
    then have r: "at_rest s" using all_over m_return by blast
    then have "mset (po_log s) = all_rows (po_calls s)"
      using c m_return by (auto simp: in_call_def in_call_rest m_rows_def current_def all_rows_snoc min_def)
    then show ?thesis using r assms(1) m_return by (simp add: pool_inv_def at_rest_def workers_def)
  next
    case (w_wake i sn)
    show ?thesis
      by (rule inv_worker [OF assms(1), of i s' "(WLoad, sn)"]) (use w_wake in \<open>auto simp: workers_def w_ok_def w_over_def rests_def w_rows_def\<close>)
  next
    case (w_load i sn)
    show ?thesis
      by (rule inv_worker [OF assms(1), of i s' "(WFetch, po_gen s)"]) (use w_load in \<open>auto simp: workers_def w_ok_def w_over_def rests_def w_rows_def\<close>)
  next
    case (w_row i sn)
    show ?thesis
      by (rule inv_worker [OF assms(1), of i s' "(WExec (po_next s), sn)"])
        (use w_row in \<open>auto simp: workers_def w_ok_def w_over_def rests_def w_rows_def take_row_def rows_Suc\<close>)
  next
    case (w_no_row i sn)
    show ?thesis
      by (rule inv_worker [OF assms(1), of i s' "(WDone, sn)"])
        (use w_no_row in \<open>auto simp: workers_def w_ok_def w_over_def rests_def w_rows_def take_row_def rows_Suc\<close>)
  next
    case (w_exec i r sn)
    show ?thesis
      by (rule inv_worker [OF assms(1), of i s' "(WFetch, sn)"])
        (use w_exec in \<open>auto simp: workers_def w_ok_def w_over_def rests_def w_rows_def ran_def\<close>)
  next
    case (w_done i sn)
    show ?thesis
      by (rule inv_worker [OF assms(1), of i s' "(WWait, sn)"])
        (use w_done in \<open>auto simp: workers_def w_ok_def w_over_def rests_def w_rows_def\<close>)
  next
    case (w_slow i sn)
    then show ?thesis using wait_inv [OF assms(1), of i WWait sn WLock "po_mu s"] by simp
  next
    case (w_lock i sn)
    then show ?thesis using wait_inv [OF assms(1), of i WLock sn WTest] by simp
  next
    case (w_park i sn)
    then show ?thesis using wait_inv [OF assms(1), of i WTest sn WPark "po_mu s"] by simp
  next
    case (w_sees i sn)
    then show ?thesis using wait_inv [OF assms(1), of i WTest sn WOut "po_mu s"] by simp
  next
    case (w_sleep i sn)
    then show ?thesis using wait_inv [OF assms(1), of i WPark sn WSleep] by simp
  next
    case (w_spurious i sn)
    then show ?thesis using wait_inv [OF assms(1), of i WSleep sn WLock "po_mu s"] by simp
  next
    case (w_out i sn)
    then show ?thesis using wait_inv [OF assms(1), of i WOut sn WWait] by simp
  qed
qed

lemma pool0_inv: "1 \<le> nt \<Longrightarrow> pool_inv (pool0 nt)"
  by (simp add: pool_inv_def pool0_def at_rest_def rests_def all_rows_def)

lemma pool_reach:
  assumes "pool_step\<^sup>*\<^sup>* s s'" "pool_inv s"
  shows "pool_inv s'"
  using assms by induction (auto intro: pool_step_inv)

text \<open>No row is run twice, at no time.\<close>

lemma in_call_log:
  assumes "in_call s"
  shows "mset (po_log s) \<subseteq># all_rows (po_calls s)"
proof -
  obtain cs where cs: "po_calls s = cs @ [po_n s]" "po_fn s = length cs" using assms by (auto simp: in_call_def current_def)
  have "mset (map (Pair (length cs)) [0..<min (po_next s) (po_n s)]) \<subseteq># mset (map (Pair (length cs)) [0..<po_n s])"
  proof -
    have "[0..<po_n s] = [0..<min (po_next s) (po_n s)] @ [min (po_next s) (po_n s)..<po_n s]"
      using upt_add_eq_append [of 0 "min (po_next s) (po_n s)" "po_n s - min (po_next s) (po_n s)"] by simp
    then show ?thesis by (metis map_append mset_append mset_subset_eq_add_left)
  qed
  then have "all_rows (butlast (po_calls s)) + mset (map (Pair (po_fn s)) [0..<min (po_next s) (po_n s)]) \<subseteq>#
      all_rows (po_calls s)"
    by (simp add: cs all_rows_snoc)
  moreover have "mset (po_log s) \<subseteq># all_rows (butlast (po_calls s)) + mset (map (Pair (po_fn s)) [0..<min (po_next s) (po_n s)])"
  proof -
    have "all_rows (butlast (po_calls s)) + mset (map (Pair (po_fn s)) [0..<min (po_next s) (po_n s)]) =
        mset (po_log s) + (m_rows (po_fn s) (po_m s) + (\<Sum>i\<in>workers s. w_rows (po_fn s) (po_w s i)))"
      using assms unfolding in_call_def by (metis add.assoc)
    then show ?thesis by (simp only: mset_subset_eq_add_left)
  qed
  ultimately show ?thesis by (rule subset_mset.order_trans [rotated])
qed

lemma inv_log: "pool_inv s \<Longrightarrow> mset (po_log s) \<subseteq># all_rows (po_calls s)"
  using in_call_log [of s] by (auto simp: pool_inv_def current_def all_rows_snoc split: mpc.splits)

section \<open>The mutex and the condition variable\<close>

text \<open>
  The mutex is held by the thread whose place says so; a worker about to sleep has seen the current
  \<open>gen\<close>, since \<open>gen\<close> is raised under the mutex; and a worker sleeps through a raised \<open>gen\<close> only as
  long as the main thread has still to notify.
\<close>

definition holds :: "wpc \<Rightarrow> bool" where
  "holds pc \<longleftrightarrow> pc = WTest \<or> pc = WPark \<or> pc = WOut"

definition m_holds :: "mpc \<Rightarrow> bool" where
  "m_holds m \<longleftrightarrow> m = MRaise \<or> m = MUnlock"

definition w_sync :: "pool \<Rightarrow> nat \<Rightarrow> wpc \<times> nat \<Rightarrow> bool" where
  "w_sync s i x \<longleftrightarrow> (po_mu s = Some i \<longleftrightarrow> holds (fst x)) \<and> (fst x = WPark \<longrightarrow> snd x = po_gen s) \<and>
     (fst x = WSleep \<longrightarrow> snd x = po_gen s \<or> po_m s = MUnlock \<or> po_m s = MNotify)"

definition sync_inv :: "pool \<Rightarrow> bool" where
  "sync_inv s \<longleftrightarrow> 1 \<le> po_nt s \<and> (\<forall>i\<in>workers s. w_sync s i (po_w s i)) \<and>
     (po_mu s = Some 0 \<longleftrightarrow> m_holds (po_m s)) \<and> (\<forall>j. po_mu s = Some j \<longrightarrow> j < po_nt s)"

lemma sync_worker:
  assumes "sync_inv s" "po_w s' = (po_w s)(i := x)" "i \<in> workers s"
    and same: "po_nt s' = po_nt s" "po_gen s' = po_gen s" "po_m s' = po_m s"
    and mu: "po_mu s' = po_mu s \<or> po_mu s = None \<and> po_mu s' = Some i \<or> po_mu s = Some i \<and> po_mu s' = None"
    and x: "w_sync s i (po_w s i) \<Longrightarrow> w_sync s' i x"
  shows "sync_inv s'"
proof -
  have i: "i \<noteq> 0" "i < po_nt s" using assms(3) by (auto simp: workers_def)
  have w: "w_sync s j (po_w s j)" if "j \<in> workers s" for j using assms(1) that by (simp add: sync_inv_def)
  have "w_sync s' j (po_w s' j)" if "j \<in> workers s" for j
  proof (cases "j = i")
    case True
    then show ?thesis using x [OF w [OF assms(3)]] by (simp add: assms(2))
  next
    case False
    then have "(po_mu s' = Some j) = (po_mu s = Some j)" using mu by auto
    then show ?thesis using w [OF that] False by (simp add: assms(2) w_sync_def same)
  qed
  then have "\<forall>j\<in>workers s'. w_sync s' j (po_w s' j)" by (simp add: workers_def same)
  moreover have "(po_mu s' = Some 0) = (po_mu s = Some 0)" using mu i by auto
  moreover have "j < po_nt s" if "po_mu s' = Some j" for j using mu i assms(1) that by (auto simp: sync_inv_def)
  ultimately show ?thesis using assms(1) by (simp add: sync_inv_def same)
qed

lemma sync_main:
  assumes "sync_inv s" "po_nt s' = po_nt s" "po_mu s' = po_mu s" "po_w s' = po_w s" "po_gen s' = po_gen s"
    "m_holds (po_m s') = m_holds (po_m s)" "po_m s \<noteq> MUnlock" "po_m s \<noteq> MNotify"
  shows "sync_inv s'"
  using assms by (auto simp: sync_inv_def w_sync_def workers_def)

lemma sync_step:
  assumes "sync_inv s" "pool_step s s'"
  shows "sync_inv s'"
  using assms(2)
proof cases
  case m_gen
  then show ?thesis using assms(1) by (auto simp: sync_inv_def w_sync_def workers_def m_holds_def)
next
  case m_raise
  then have "po_mu s = Some 0" using assms(1) by (simp add: sync_inv_def m_holds_def)
  then show ?thesis using assms(1) m_raise by (fastforce simp: sync_inv_def w_sync_def workers_def m_holds_def holds_def)
next
  case m_unlock
  then have "po_mu s = Some 0" using assms(1) by (simp add: sync_inv_def m_holds_def)
  then show ?thesis using assms(1) m_unlock by (fastforce simp: sync_inv_def w_sync_def workers_def m_holds_def)
next
  case m_notify
  have "w_sync s' i (roused x)" if "w_sync s i x" for i x
    using that m_notify by (auto simp: w_sync_def roused_def holds_def)
  then show ?thesis using assms(1) m_notify by (simp add: sync_inv_def workers_def m_holds_def)
next
  case (w_wake i sn)
  show ?thesis by (rule sync_worker [OF assms(1), of s' i "(WLoad, sn)"]) (use w_wake in \<open>auto simp: workers_def w_sync_def holds_def\<close>)
next
  case (w_slow i sn)
  show ?thesis by (rule sync_worker [OF assms(1), of s' i "(WLock, sn)"]) (use w_slow in \<open>auto simp: workers_def w_sync_def holds_def\<close>)
next
  case (w_lock i sn)
  show ?thesis by (rule sync_worker [OF assms(1), of s' i "(WTest, sn)"]) (use w_lock in \<open>auto simp: workers_def w_sync_def holds_def\<close>)
next
  case (w_park i sn)
  show ?thesis by (rule sync_worker [OF assms(1), of s' i "(WPark, sn)"]) (use w_park in \<open>auto simp: workers_def w_sync_def holds_def\<close>)
next
  case (w_sees i sn)
  show ?thesis by (rule sync_worker [OF assms(1), of s' i "(WOut, sn)"]) (use w_sees in \<open>auto simp: workers_def w_sync_def holds_def\<close>)
next
  case (w_sleep i sn)
  then have "po_mu s = Some i" using assms(1) by (auto simp: sync_inv_def w_sync_def workers_def holds_def)
  then show ?thesis by (intro sync_worker [OF assms(1), of s' i "(WSleep, sn)"])
    (use w_sleep in \<open>auto simp: workers_def w_sync_def holds_def\<close>)
next
  case (w_spurious i sn)
  show ?thesis by (rule sync_worker [OF assms(1), of s' i "(WLock, sn)"])
    (use w_spurious in \<open>auto simp: workers_def w_sync_def holds_def\<close>)
next
  case (w_out i sn)
  then have "po_mu s = Some i" using assms(1) by (auto simp: sync_inv_def w_sync_def workers_def holds_def)
  then show ?thesis by (intro sync_worker [OF assms(1), of s' i "(WWait, sn)"])
    (use w_out in \<open>auto simp: workers_def w_sync_def holds_def\<close>)
next
  case (w_load i sn)
  show ?thesis by (rule sync_worker [OF assms(1), of s' i "(WFetch, po_gen s)"]) (use w_load in \<open>auto simp: workers_def w_sync_def holds_def\<close>)
next
  case (w_row i sn)
  show ?thesis by (rule sync_worker [OF assms(1), of s' i "(WExec (po_next s), sn)"])
    (use w_row in \<open>auto simp: workers_def w_sync_def holds_def take_row_def\<close>)
next
  case (w_no_row i sn)
  show ?thesis by (rule sync_worker [OF assms(1), of s' i "(WDone, sn)"])
    (use w_no_row in \<open>auto simp: workers_def w_sync_def holds_def take_row_def\<close>)
next
  case (w_exec i r sn)
  show ?thesis by (rule sync_worker [OF assms(1), of s' i "(WFetch, sn)"])
    (use w_exec in \<open>auto simp: workers_def w_sync_def holds_def ran_def\<close>)
next
  case (w_done i sn)
  show ?thesis by (rule sync_worker [OF assms(1), of s' i "(WWait, sn)"])
    (use w_done in \<open>auto simp: workers_def w_sync_def holds_def\<close>)
qed (rule sync_main [OF assms(1)], auto simp: m_holds_def take_row_def ran_def)+

lemma pool0_sync: "1 \<le> nt \<Longrightarrow> sync_inv (pool0 nt)"
  by (simp add: sync_inv_def pool0_def w_sync_def holds_def m_holds_def)

definition pool_good :: "pool \<Rightarrow> bool" where
  "pool_good s \<longleftrightarrow> pool_inv s \<and> sync_inv s"

lemma good_step: "pool_good s \<Longrightarrow> pool_step s s' \<Longrightarrow> pool_good s'"
  using pool_step_inv sync_step unfolding pool_good_def by blast

lemma good_reach:
  assumes "pool_step\<^sup>*\<^sup>* (pool0 nt) s" "1 \<le> nt"
  shows "pool_good s"
  using assms(1)
proof induction
  case base
  then show ?case using assms(2) by (simp add: pool_good_def pool0_inv pool0_sync)
qed (rule good_step)

section \<open>Progress\<close>

text \<open>
  The steps still to come in a call, at most: two per row; per worker five for its part, four to
  go back to sleep and five to get out of where it waits.
\<close>

definition w_rank :: "nat \<Rightarrow> wpc \<times> nat \<Rightarrow> nat" where
  "w_rank g x = (case fst x of
       WLoad \<Rightarrow> 8
     | WExec r \<Rightarrow> 7
     | WFetch \<Rightarrow> 6
     | WDone \<Rightarrow> 5
     | WWait \<Rightarrow> if snd x = g then 4 else 9
     | WOut \<Rightarrow> if snd x = g then 5 else 10
     | WTest \<Rightarrow> if snd x = g then 2 else 11
     | WLock \<Rightarrow> if snd x = g then 3 else 12
     | WSleep \<Rightarrow> if snd x = g then 0 else 13
     | WPark \<Rightarrow> if snd x = g then 1 else 14)"

definition all_rank :: "pool \<Rightarrow> nat" where
  "all_rank s = (\<Sum>i\<in>workers s. w_rank (po_gen s) (po_w s i))"

text \<open>Before \<open>gen\<close> is raised, the whole call is still to come.\<close>

definition m_rank :: "pool \<Rightarrow> nat" where
  "m_rank s = (case po_m s of
       MIdle \<Rightarrow> 0
     | MNext \<Rightarrow> 8 + 2 * po_n s + 17 * po_nt s
     | MDone \<Rightarrow> 7 + 2 * po_n s + 17 * po_nt s
     | MGen \<Rightarrow> 6 + 2 * po_n s + 17 * po_nt s
     | MRaise \<Rightarrow> 5 + 2 * po_n s + 17 * po_nt s
     | MUnlock \<Rightarrow> 4 + 3 * po_nt s + 2 * (po_n s - po_next s)
     | MNotify \<Rightarrow> 3 + 3 * po_nt s + 2 * (po_n s - po_next s)
     | MExec r \<Rightarrow> 3 + 2 * (po_n s - po_next s)
     | MFetch \<Rightarrow> 2 + 2 * (po_n s - po_next s)
     | MSpin \<Rightarrow> 1 + 2 * (po_n s - po_next s))"

definition pool_rank :: "pool \<Rightarrow> nat" where
  "pool_rank s = (if po_m s = MIdle then 0 else m_rank s + all_rank s)"

text \<open>A spurious wake-up, and any other step while a call is under way.\<close>

definition spurious :: "pool \<Rightarrow> pool \<Rightarrow> bool" where
  "spurious s s' \<longleftrightarrow> (\<exists>i\<in>workers s. \<exists>sn. po_w s i = (WSleep, sn) \<and> s' = set_w i WLock sn s)"

definition call_step :: "pool \<Rightarrow> pool \<Rightarrow> bool" where
  "call_step s s' \<longleftrightarrow> po_m s \<noteq> MIdle \<and> pool_step s s' \<and> \<not> spurious s s'"

text \<open>\<open>call_run k j\<close>: \<open>k\<close> steps and \<open>j\<close> spurious wake-ups inside of a call, in any order.\<close>

inductive call_run :: "nat \<Rightarrow> nat \<Rightarrow> pool \<Rightarrow> pool \<Rightarrow> bool" where
  run_none: "call_run 0 0 s s"
| run_step: "call_run k j s t \<Longrightarrow> call_step t u \<Longrightarrow> call_run (Suc k) j s u"
| run_spurious: "call_run k j s t \<Longrightarrow> po_m t \<noteq> MIdle \<Longrightarrow> spurious t u \<Longrightarrow> call_run k (Suc j) s u"

lemma spurious_step: "spurious s s' \<Longrightarrow> pool_step s s'"
  by (auto simp: spurious_def workers_def intro: w_spurious)

lemma worker_rank:
  assumes "pool_inv s" "i \<in> workers s" "po_m s \<noteq> MIdle" "waits (fst (po_w s i)) \<and> po_next s' = po_next s \<or> \<not> rests (po_gen s) (po_w s i)"
    and same: "po_nt s' = po_nt s" "po_n s' = po_n s" "po_gen s' = po_gen s" "po_m s' = po_m s"
    and w: "po_w s' = (po_w s)(i := x)"
    and r: "2 * (po_n s - po_next s') + w_rank (po_gen s) x < 2 * (po_n s - po_next s) + w_rank (po_gen s) (po_w s i) + d"
    and nx: "po_next s \<le> po_next s'"
  shows "pool_rank s' < pool_rank s + d"
proof -
  have "all_rank s' + w_rank (po_gen s) (po_w s i) = all_rank s + w_rank (po_gen s) x"
    unfolding all_rank_def w using sum_upd [OF finite_workers assms(2), of "w_rank (po_gen s)" "po_w s" x] same
    by (simp add: workers_def)
  moreover have "po_next s' = po_next s \<or> active (po_m s)" using assms(4) worker_active [OF assms(1,2)] by blast
  ultimately show ?thesis using r nx assms(3) same
    by (cases "po_m s") (auto simp: active_def pool_rank_def m_rank_def)
qed

lemma w_rank_le: "w_rank g x \<le> 14" "w_rank g (roused x) \<le> w_rank g x + 3"
  by (cases "fst x"; simp add: w_rank_def roused_def)+

lemma rank_sum_le:
  fixes f h :: "nat \<Rightarrow> nat"
  assumes "\<And>i. i \<in> workers s \<Longrightarrow> f i \<le> h i + c"
  shows "(\<Sum>i\<in>workers s. f i) \<le> (\<Sum>i\<in>workers s. h i) + c * (po_nt s - 1)"
proof -
  have "(\<Sum>i\<in>workers s. f i) \<le> (\<Sum>i\<in>workers s. h i + c)" by (rule sum_mono) (rule assms)
  then show ?thesis by (simp add: sum.distrib workers_def mult.commute)
qed

lemma call_step_rank:
  assumes "pool_inv s" "call_step s s'"
  shows "pool_rank s' < pool_rank s"
proof -
  have ok: "w_ok s (po_w s i)" if "i \<in> workers s" "\<not> rests (po_gen s) (po_w s i)" for i
    using worker_active [OF assms(1) that] that(1) by (simp add: in_call_def)
  have m: "po_m s \<noteq> MIdle" and sp: "\<not> spurious s s'" using assms(2) by (simp_all add: call_step_def)
  note wr = worker_rank [OF assms(1) _ m, where d = 0 and s' = s', simplified]
  note defs = workers_def w_rank_def rests_def
  have "pool_step s s'" using assms(2) by (simp add: call_step_def)
  then show ?thesis
  proof cases
    case m_raise
    then have "po_next s = 0" "1 \<le> po_nt s" using assms(1) by (simp_all add: pool_inv_def)
    then show ?thesis using m_raise rank_sum_le [of s "\<lambda>i. w_rank (Suc (po_gen s)) (po_w s i)" "\<lambda>i. 0" 14] w_rank_le(1)
      by (simp add: pool_rank_def m_rank_def all_rank_def workers_def)
  next
    case m_notify
    then have "1 \<le> po_nt s" using assms(1) by (simp add: pool_inv_def)
    then show ?thesis using m_notify
        rank_sum_le [of s "\<lambda>i. w_rank (po_gen s) (roused (po_w s i))" "\<lambda>i. w_rank (po_gen s) (po_w s i)" 3] w_rank_le(2)
      by (simp add: pool_rank_def m_rank_def all_rank_def workers_def)
  next
    case (w_wake i sn)
    show ?thesis by (rule wr [of i "(WLoad, sn)"]) (use w_wake in \<open>auto simp: defs\<close>)
  next
    case (w_slow i sn)
    show ?thesis by (rule wr [of i "(WLock, sn)"]) (use w_slow in \<open>auto simp: defs\<close>)
  next
    case (w_lock i sn)
    show ?thesis by (rule wr [of i "(WTest, sn)"]) (use w_lock in \<open>auto simp: defs\<close>)
  next
    case (w_park i sn)
    show ?thesis by (rule wr [of i "(WPark, sn)"]) (use w_park in \<open>auto simp: defs\<close>)
  next
    case (w_sees i sn)
    show ?thesis by (rule wr [of i "(WOut, sn)"]) (use w_sees in \<open>auto simp: defs\<close>)
  next
    case (w_sleep i sn)
    show ?thesis by (rule wr [of i "(WSleep, sn)"]) (use w_sleep in \<open>auto simp: defs\<close>)
  next
    case (w_spurious i sn)
    then show ?thesis using sp by (auto simp: spurious_def workers_def)
  next
    case (w_out i sn)
    show ?thesis by (rule wr [of i "(WWait, sn)"]) (use w_out in \<open>auto simp: defs\<close>)
  next
    case (w_load i sn)
    show ?thesis by (rule wr [of i "(WFetch, po_gen s)"]) (use w_load in \<open>auto simp: defs\<close>)
  next
    case (w_row i sn)
    show ?thesis by (rule wr [of i "(WExec (po_next s), sn)"]) (use w_row in \<open>auto simp: defs take_row_def\<close>)
  next
    case (w_no_row i sn)
    show ?thesis by (rule wr [of i "(WDone, sn)"]) (use w_no_row in \<open>auto simp: defs take_row_def\<close>)
  next
    case (w_exec i r sn)
    show ?thesis by (rule wr [of i "(WFetch, sn)"]) (use w_exec in \<open>auto simp: defs ran_def\<close>)
  next
    case (w_done i sn)
    then have "sn = po_gen s" using ok [of i] by (simp add: workers_def w_ok_def rests_def)
    then show ?thesis by (intro wr [of i "(WWait, sn)"]) (use w_done in \<open>auto simp: defs\<close>)
  qed (use m in \<open>auto simp: pool_rank_def m_rank_def all_rank_def workers_def take_row_def ran_def\<close>)
qed

lemma spurious_rank:
  assumes "pool_inv s" "spurious s s'" "po_m s \<noteq> MIdle"
  shows "pool_rank s' \<le> pool_rank s + 3"
proof -
  obtain i sn where i: "i \<in> workers s" "po_w s i = (WSleep, sn)" "s' = set_w i WLock sn s"
    using assms(2) by (auto simp: spurious_def)
  have "pool_rank s' < pool_rank s + 4"
    by (rule worker_rank [OF assms(1) i(1) assms(3), of s' "(WLock, sn)"]) (use i in \<open>auto simp: w_rank_def\<close>)
  then show ?thesis by simp
qed

lemma call_run_rank:
  "call_run k j s s' \<Longrightarrow> pool_good s \<Longrightarrow> pool_good s' \<and> k + pool_rank s' \<le> pool_rank s + 3 * j"
proof (induction rule: call_run.induct)
  case (run_step k j s t u)
  then show ?case using call_step_rank [of t u] good_step [of t u] by (auto simp: call_step_def pool_good_def)
next
  case (run_spurious k j s t u)
  then show ?case using spurious_rank [of t u] good_step [of t u] spurious_step [of t u] by (auto simp: pool_good_def)
qed simp

text \<open>A call never gets stuck: no wake-up is lost and nobody waits for the mutex for ever.\<close>

lemma call_stepI:
  assumes "pool_step s s'" "po_m s \<noteq> MIdle"
    and "\<And>i. i \<in> workers s \<Longrightarrow> fst (po_w s i) = WSleep \<Longrightarrow> fst (po_w s' i) \<noteq> WLock \<or> po_m s' \<noteq> po_m s"
  shows "call_step s s'"
  using assms
  by (fastforce simp: call_step_def spurious_def)

text \<open>A worker that is neither asleep nor waits for the mutex and has something to do.\<close>

lemma worker_moves:
  assumes "po_m s \<noteq> MIdle" "i \<in> workers s" "fst (po_w s i) \<noteq> WSleep" "fst (po_w s i) = WLock \<Longrightarrow> po_mu s = None"
  shows "\<exists>s'. call_step s s'"
proof -
  obtain pc sn where x: "po_w s i = (pc, sn)" by (cases "po_w s i") auto
  have i: "1 \<le> i" "i < po_nt s" using assms(2) by (simp_all add: workers_def)
  have "\<exists>s' y. pool_step s s' \<and> po_w s' = (po_w s)(i := y)"
  proof (cases pc)
    case WWait
    then show ?thesis using w_wake [OF i, of sn] w_slow [OF i, of sn] x by (cases "po_gen s = sn") (force simp del: fun_upd_apply)+
  next
    case WLock
    then show ?thesis using w_lock [OF i, of sn] x assms(4) by force
  next
    case WTest
    then show ?thesis using w_park [OF i, of sn] w_sees [OF i, of sn] x by (cases "po_gen s = sn") force+
  next
    case WPark
    then show ?thesis using w_sleep [OF i, of sn] x by force
  next
    case WSleep
    then show ?thesis using assms(3) x by simp
  next
    case WOut
    then show ?thesis using w_out [OF i, of sn] x by force
  next
    case WLoad
    then show ?thesis using w_load [OF i, of sn] x by force
  next
    case WFetch
    then show ?thesis using w_row [OF i, of sn] w_no_row [OF i, of sn] x by (cases "po_next s < po_n s") (force simp: take_row_def)+
  next
    case (WExec r)
    then show ?thesis using w_exec [OF i, of r sn] x by (force simp: ran_def)
  next
    case WDone
    then show ?thesis using w_done [OF i, of sn] x by force
  qed
  then obtain s' y where s: "pool_step s s'" "po_w s' = (po_w s)(i := y)" by blast
  have "call_step s s'" by (rule call_stepI [OF s(1) assms(1)]) (use s(2) assms(3) in auto)
  then show ?thesis ..
qed

text \<open>Who holds the mutex gives it back without waiting for anybody.\<close>

lemma mutex_moves:
  assumes "sync_inv s" "po_m s \<noteq> MIdle" "po_mu s = Some j"
  shows "\<exists>s'. call_step s s'"
proof (cases "j = 0")
  case True
  then have "po_m s = MRaise \<or> po_m s = MUnlock" using assms by (simp add: sync_inv_def m_holds_def)
  then show ?thesis using call_stepI [OF m_raise] call_stepI [OF m_unlock] by fastforce
next
  case False
  then have j: "j \<in> workers s" using assms by (auto simp: sync_inv_def workers_def)
  then have "w_sync s j (po_w s j)" using assms(1) by (simp add: sync_inv_def)
  then have "holds (fst (po_w s j))" using assms(3) by (simp add: w_sync_def)
  then show ?thesis by (intro worker_moves [OF assms(2) j]) (auto simp: holds_def)
qed

lemma call_moves:
  assumes "pool_good s" "po_m s \<noteq> MIdle"
  shows "\<exists>s'. call_step s s'"
proof -
  have inv: "pool_inv s" and sync: "sync_inv s" using assms(1) by (simp_all add: pool_good_def)
  show ?thesis
  proof (cases "po_mu s")
    case (Some j)
    then show ?thesis by (rule mutex_moves [OF sync assms(2)])
  next
    case None
    show ?thesis
    proof (cases "po_m s = MSpin \<and> po_done s < po_nt s - 1")
      case True
      then have "\<not> at_rest s" using rest_done [of s] inv by (auto simp: pool_inv_def)
      then obtain i where i: "i \<in> workers s" "\<not> rests (po_gen s) (po_w s i)" by (auto simp: at_rest_def)
      have "w_sync s i (po_w s i)" using sync i(1) by (simp add: sync_inv_def)
      then have "fst (po_w s i) \<noteq> WSleep" using True i(2) by (auto simp: w_sync_def rests_def)
      then show ?thesis by (rule worker_moves [OF assms(2) i(1)]) (rule None)
    next
      case False
      have "\<exists>s'. pool_step s s' \<and> po_m s' \<noteq> po_m s" 
        using assms(2) False None m_next m_done m_gen m_raise m_unlock m_notify m_row m_no_row m_exec m_return
        by (cases "po_m s") (force simp: take_row_def ran_def)+
      then show ?thesis using call_stepI assms(2) by blast
    qed
  qed
qed

section \<open>An executable scheduler\<close>

text \<open>The step of thread \<open>i\<close>, 0 being the main thread inside of a call; a sleeper is not woken for nothing.\<close>

definition main_move :: "pool \<Rightarrow> pool option" where
  "main_move s = (case po_m s of
       MIdle \<Rightarrow> None
     | MNext \<Rightarrow> Some (s\<lparr>po_next := 0, po_m := MDone\<rparr>)
     | MDone \<Rightarrow> Some (s\<lparr>po_done := 0, po_m := MGen\<rparr>)
     | MGen \<Rightarrow> if po_mu s = None then Some (s\<lparr>po_mu := Some 0, po_m := MRaise\<rparr>) else None
     | MRaise \<Rightarrow> Some (s\<lparr>po_gen := Suc (po_gen s), po_m := MUnlock\<rparr>)
     | MUnlock \<Rightarrow> Some (s\<lparr>po_mu := None, po_m := MNotify\<rparr>)
     | MNotify \<Rightarrow> Some (s\<lparr>po_w := \<lambda>i. roused (po_w s i), po_m := MFetch\<rparr>)
     | MFetch \<Rightarrow> Some (if po_next s < po_n s then take_row s\<lparr>po_m := MExec (po_next s)\<rparr> else take_row s\<lparr>po_m := MSpin\<rparr>)
     | MExec r \<Rightarrow> Some (ran r s\<lparr>po_m := MFetch\<rparr>)
     | MSpin \<Rightarrow> if po_done s < po_nt s - 1 then None else Some (s\<lparr>po_m := MIdle\<rparr>))"

definition worker_move :: "nat \<Rightarrow> pool \<Rightarrow> pool option" where
  "worker_move i s = (let sn = snd (po_w s i) in
     case fst (po_w s i) of
       WWait \<Rightarrow> Some (if po_gen s = sn then set_w i WLock sn s else set_w i WLoad sn s)
     | WLock \<Rightarrow> if po_mu s = None then Some (set_w i WTest sn (s\<lparr>po_mu := Some i\<rparr>)) else None
     | WTest \<Rightarrow> Some (if po_gen s = sn then set_w i WPark sn s else set_w i WOut sn s)
     | WPark \<Rightarrow> Some (set_w i WSleep sn (s\<lparr>po_mu := None\<rparr>))
     | WSleep \<Rightarrow> None
     | WOut \<Rightarrow> Some (set_w i WWait sn (s\<lparr>po_mu := None\<rparr>))
     | WLoad \<Rightarrow> Some (set_w i WFetch (po_gen s) s)
     | WFetch \<Rightarrow> Some (if po_next s < po_n s then set_w i (WExec (po_next s)) sn (take_row s) else set_w i WDone sn (take_row s))
     | WExec r \<Rightarrow> Some (set_w i WFetch sn (ran r s))
     | WDone \<Rightarrow> Some (set_w i WWait sn (s\<lparr>po_done := Suc (po_done s)\<rparr>)))"

fun pool_moves :: "nat list \<Rightarrow> pool \<Rightarrow> pool option" where
  "pool_moves [] s = Some s"
| "pool_moves (i # is') s =
     (case (if i = 0 then main_move s else if i < po_nt s then worker_move i s else None) of
        None \<Rightarrow> None | Some s' \<Rightarrow> pool_moves is' s')"

lemma main_move_step:
  assumes "main_move s = Some s'"
  shows "pool_step s s'" "po_m s' \<noteq> po_m s"
  using assms by (auto simp: main_move_def take_row_def ran_def intro: pool_step.intros pool_step.intros [unfolded take_row_def ran_def]
    split: mpc.splits if_splits)

lemma worker_move_step:
  assumes "worker_move i s = Some s'" "1 \<le> i" "i < po_nt s"
  shows "pool_step s s'"
proof -
  obtain pc sn where x: "po_w s i = (pc, sn)" by (cases "po_w s i") auto
  have w: "worker_move i s = Some s'" by (fact assms(1))
  note w = w [unfolded worker_move_def x Let_def fst_conv snd_conv]
  show ?thesis
  proof (cases pc)
    case WWait
    then show ?thesis using w w_wake [OF assms(2,3), of sn] w_slow [OF assms(2,3), of sn] x by (auto split: if_splits)
  next
    case WLock
    then show ?thesis using w w_lock [OF assms(2,3), of sn] x by (auto split: if_splits)
  next
    case WTest
    then show ?thesis using w w_park [OF assms(2,3), of sn] w_sees [OF assms(2,3), of sn] x by (auto split: if_splits)
  next
    case WPark
    then show ?thesis using w w_sleep [OF assms(2,3), of sn] x by auto
  next
    case WSleep
    then show ?thesis using w by simp
  next
    case WOut
    then show ?thesis using w w_out [OF assms(2,3), of sn] x by auto
  next
    case WLoad
    then show ?thesis using w w_load [OF assms(2,3), of sn] x by auto
  next
    case WFetch
    then show ?thesis using w w_row [OF assms(2,3), of sn] w_no_row [OF assms(2,3), of sn] x by (auto split: if_splits)
  next
    case (WExec r)
    then show ?thesis using w w_exec [OF assms(2,3), of r sn] x by auto
  next
    case WDone
    then show ?thesis using w w_done [OF assms(2,3), of sn] x by auto
  qed
qed

lemma pool_moves_reach: "pool_moves is' s = Some s' \<Longrightarrow> pool_step\<^sup>*\<^sup>* s s'"
proof (induction is' arbitrary: s)
  case (Cons i is')
  obtain t where t: "(if i = 0 then main_move s else if i < po_nt s then worker_move i s else None) = Some t"
    "pool_moves is' t = Some s'" using Cons.prems by (simp split: option.splits)
  have "pool_step s t"
  proof (cases "i = 0")
    case True
    then show ?thesis using main_move_step(1) [of s t] t(1) by simp
  next
    case False
    then show ?thesis using worker_move_step [of i s t] t(1) by (simp split: if_splits)
  qed
  then show ?case using Cons.IH [OF t(2)] by (rule converse_rtranclp_into_rtranclp)
qed simp

section \<open>The properties\<close>

text \<open>
  C31. The thread pool of the TPU backend, with any number of threads and under any interleaving of
  their steps, sleeping and waking included: no call ever runs a row twice, and when \<open>run\<close> has
  returned, every row of every call so far was run exactly once, by the function of its own call, and
  all workers wait for the next call, so the function and the buffers of the caller are no longer in
  use.
\<close>

theorem pool_runs_once:
  assumes "nt = glue_threads e" "pool_step\<^sup>*\<^sup>* (pool0 nt) s"
  shows "mset (po_log s) \<subseteq># all_rows (po_calls s) \<and>
    (po_m s = MIdle \<longrightarrow> mset (po_log s) = all_rows (po_calls s) \<and> at_rest s)"
  using pool_reach [OF assms(2) pool0_inv [OF glue_threads_pos [of e, folded assms(1)]]] inv_log [of s]
  by (auto simp: pool_inv_def)

text \<open>
  C32. A call returns whatever the order of the steps, and no wake-up is lost: from any state that can
  arise, workers asleep on the condition variable or on their way to it included, at most \<open>pool_rank\<close>
  steps and three more for every spurious wake-up are possible before \<open>run\<close> returns, and until then
  some thread can make a step that is not a spurious wake-up: the workers that slept are woken by
  \<open>notify_all\<close>, and whoever holds the mutex gives it back. The number of spurious wake-ups is not
  bounded, and the threads are only assumed to be scheduled at all.
\<close>

theorem pool_returns:
  assumes "nt = glue_threads e" "pool_step\<^sup>*\<^sup>* (pool0 nt) s" "call_run k j s s'"
  shows "k \<le> pool_rank s + 3 * j \<and> (po_m s' = MIdle \<or> (\<exists>t. call_step s' t))"
  using call_run_rank [OF assms(3) good_reach [OF assms(2) glue_threads_pos [of e, folded assms(1)]]] call_moves by auto

section \<open>A run\<close>

text \<open>Two threads, a call of three rows: the worker falls asleep, is woken, and both take rows.\<close>

definition pool_demo :: pool where
  "pool_demo = \<lparr>po_nt = 2, po_n = 3, po_fn = 0, po_next = 0, po_done = 0, po_gen = 0, po_mu = None,
     po_w = (\<lambda>_. (WWait, 0)), po_m = MNext, po_log = [], po_calls = [3]\<rparr>"

definition pool_plan :: "nat list" where
  "pool_plan = [1, 1, 1, 1, 0, 0, 0, 0, 0, 0, 1, 1, 1, 1, 1, 1, 0, 0, 1, 0, 1, 0, 1, 0, 0]"

definition pool_over :: "pool option \<Rightarrow> bool" where
  "pool_over x = (case x of None \<Rightarrow> False | Some s \<Rightarrow> po_m s = MIdle \<and> po_nt s = 2 \<and> po_w s 1 = (WWait, po_gen s) \<and>
     po_log s = [(0, 1), (0, 0), (0, 2)])"

lemma pool_demo_reach: "pool_step\<^sup>*\<^sup>* (pool0 2) pool_demo"
  using call [of "pool0 2" 3] by (simp add: pool0_def pool_demo_def r_into_rtranclp)

lemma pool_demo_run: "pool_over (pool_moves pool_plan pool_demo)"
  by (simp add: pool_plan_def pool_demo_def pool_over_def main_move_def worker_move_def take_row_def ran_def set_w_def roused_def
    Let_def)

theorem pool_runs_once_witness:
  "\<exists>s. pool_moves pool_plan pool_demo = Some s \<and>
     po_log s = [(0, 1), (0, 0), (0, 2)] \<and> mset (po_log s) = all_rows (po_calls s) \<and> po_w s 1 = (WWait, po_gen s)"
proof -
  obtain s where s: "pool_moves pool_plan pool_demo = Some s" "po_w s 1 = (WWait, po_gen s)"
    "po_m s = MIdle" "po_log s = [(0, 1), (0, 0), (0, 2)]" and nt: "po_nt s = 2"
    using pool_demo_run by (auto simp: pool_over_def split: option.splits)
  have "pool_step\<^sup>*\<^sup>* (pool0 2) s" using pool_demo_reach pool_moves_reach [OF s(1)] by (rule rtranclp_trans)
  then have "mset (po_log s) = all_rows (po_calls s)" "at_rest s" using pool_runs_once [of 2 "Some 2" s] s(3) by (simp_all add: glue_threads_def)
  then show ?thesis using s by blast
qed

text \<open>The worker is asleep; the main thread resets a counter, and the worker wakes up for nothing.\<close>

definition pool_asleep :: pool where
  "pool_asleep = pool_demo\<lparr>po_w := (\<lambda>_. (WWait, 0))(1 := (WSleep, 0))\<rparr>"

lemma pool_asleep_reach: "pool_step\<^sup>*\<^sup>* (pool0 2) pool_asleep"
proof -
  have "pool_moves [1, 1, 1, 1] pool_demo = Some pool_asleep"
    by (simp add: pool_demo_def pool_asleep_def worker_move_def set_w_def)
  then show ?thesis using pool_demo_reach pool_moves_reach by (metis rtranclp_trans)
qed

lemma pool_asleep_run: "call_run 1 1 pool_asleep (set_w 1 WLock 0 (pool_asleep\<lparr>po_m := MDone\<rparr>))"
proof -
  have "pool_step pool_asleep (pool_asleep\<lparr>po_m := MDone\<rparr>)"
    using m_next [of pool_asleep] by (simp add: pool_asleep_def pool_demo_def)
  then have 1: "call_step pool_asleep (pool_asleep\<lparr>po_m := MDone\<rparr>)"
    by (rule call_stepI) (simp_all add: pool_asleep_def pool_demo_def)
  have 2: "call_run 1 0 pool_asleep (pool_asleep\<lparr>po_m := MDone\<rparr>)" using run_step [OF run_none 1] by simp
  have 3: "spurious (pool_asleep\<lparr>po_m := MDone\<rparr>) (set_w 1 WLock 0 (pool_asleep\<lparr>po_m := MDone\<rparr>))"
    by (auto simp: spurious_def workers_def pool_asleep_def pool_demo_def intro: bexI [of _ 1])
  show ?thesis using run_spurious [OF 2 _ 3] by simp
qed

theorem pool_returns_witness:
  "1 \<le> pool_rank pool_asleep + 3 * 1 \<and> (po_m (set_w 1 WLock 0 (pool_asleep\<lparr>po_m := MDone\<rparr>)) = MIdle \<or>
     (\<exists>t. call_step (set_w 1 WLock 0 (pool_asleep\<lparr>po_m := MDone\<rparr>)) t))"
  by (rule pool_returns [of 2 "Some 2", OF _ pool_asleep_reach pool_asleep_run]) (simp add: glue_threads_def)

end
