(* ===== verification/Voc_Base.thy ===== *)
theory Voc_Base
  imports Ffn_Base
begin

text \<open>
  The vocoder daemon of the text-to-speech, src/src/tts/gpudecd.c: half floats, the scanner for its
  JSON program, and the operations of a program.
\<close>

section \<open>Half floats\<close>

text \<open>
  \<open>f2h\<close> and \<open>h2f\<close> on bit patterns. Sign, exponent and fraction do not overlap, so \<open>|\<close> is a sum and the
  masks are \<open>div\<close> and \<open>mod\<close>.
\<close>

definition f2h :: "f32 \<Rightarrow> nat" where
  "f2h x =
     (let s = x div 2 ^ 31 mod 2 * 2 ^ 15; e = int (x div 2 ^ 23 mod 256) - 127 + 15; m = x div 2 ^ 13 mod 2 ^ 10 in
      if e \<le> 0
      then if e < -10 then s else s + (x mod 2 ^ 23 + 2 ^ 23) div 2 ^ nat (14 - e)
      else if 31 \<le> e then s + 0x7C00
      else s + nat e * 2 ^ 10 + m)"

text \<open>The loop that shifts the fraction of a denormal up; a fraction below 2048 has bit 10 when it is 1024 or more.\<close>

function h_norm :: "nat \<Rightarrow> int \<Rightarrow> nat \<times> int" where
  "h_norm m e = (if m = 0 \<or> 1024 \<le> m then (m, e) else h_norm (2 * m) (e - 1))"
  by auto

termination
  by (relation "measure (\<lambda>(m, e). 1024 - m)") auto

declare h_norm.simps [simp del]

definition h2f :: "nat \<Rightarrow> f32" where
  "h2f h =
     (let s = h div 2 ^ 15 mod 2 * 2 ^ 31; e = h div 2 ^ 10 mod 32; m = h mod 2 ^ 10 in
      if e = 0
      then if m = 0 then s
        else (case h_norm m 1 of (m1, e1) \<Rightarrow> s + nat (e1 - 15 + 127) * 2 ^ 23 + m1 mod 2 ^ 10 * 2 ^ 13)
      else if e = 31 then s + 0x7F800000 + m * 2 ^ 13
      else s + (e + 112) * 2 ^ 23 + m * 2 ^ 13)"

section \<open>The JSON scanner\<close>

text \<open>
  \<open>fk\<close>: behind the first occurrence of the quoted key in a text, spaces and colons skipped. A position is
  the rest of the text there; the text of an object ends with its brace, which stops every scan.
\<close>

fun fk_pat :: "string \<Rightarrow> string \<Rightarrow> string option" where
  "fk_pat pat [] = None"
| "fk_pat pat (c # s) =
     (if length (c # s) \<le> length pat then None
      else if take (length pat) (c # s) = pat
      then Some (dropWhile (\<lambda>c. c = CHR '' '' \<or> c = CHR '':'') (drop (length pat) (c # s)))
      else fk_pat pat s)"

definition fk :: "string \<Rightarrow> string \<Rightarrow> string option" where
  "fk s k = fk_pat (CHR 0x22 # k @ [CHR 0x22]) s"

definition i32_of :: "int \<Rightarrow> int" where
  "i32_of v = (v + 2 ^ 31) mod 2 ^ 32 - 2 ^ 31"

text \<open>\<open>ji\<close>, as it is assigned to an \<open>int\<close>, and \<open>js\<close> with a buffer of \<open>n\<close> characters.\<close>

definition ji :: "string \<Rightarrow> string \<Rightarrow> int" where
  "ji s k = (case fk s k of None \<Rightarrow> 0 | Some v \<Rightarrow> i32_of (atoi v))"

definition js :: "string \<Rightarrow> string \<Rightarrow> nat \<Rightarrow> string" where
  "js s k n =
     (case fk s k of
        None \<Rightarrow> []
      | Some [] \<Rightarrow> []
      | Some (c # v) \<Rightarrow> if c \<noteq> CHR 0x22 then [] else take (n - 1) (takeWhile (\<lambda>c. c \<noteq> CHR 0x22) v))"

text \<open>The number of characters up to the brace that closes, at depth \<open>d\<close>.\<close>

fun obj_len :: "nat \<Rightarrow> string \<Rightarrow> nat option" where
  "obj_len d [] = None"
| "obj_len d (c # s) =
     (if c = CHR ''{'' then map_option Suc (obj_len (Suc d) s)
      else if c = CHR ''}'' then (if d = 1 then Some 1 else map_option Suc (obj_len (d - 1) s))
      else map_option Suc (obj_len d s))"

definition nextobj :: "string \<Rightarrow> (string \<times> string) option" where
  "nextobj s =
     (let s1 = dropWhile (\<lambda>c. c \<noteq> CHR ''{'') s in
      map_option (\<lambda>n. (take n s1, drop n s1)) (obj_len 0 s1))"

lemma obj_len_pos: "obj_len d s = Some n \<Longrightarrow> 0 < n \<and> n \<le> length s"
  by (induction d s arbitrary: n rule: obj_len.induct) (auto split: if_splits)

lemma nextobj_shorter: "nextobj s = Some (x, r) \<Longrightarrow> length r < length s"
proof -
  assume n: "nextobj s = Some (x, r)"
  define s1 where "s1 = dropWhile (\<lambda>c. c \<noteq> CHR ''{'') s"
  obtain k where k: "obj_len 0 s1 = Some k" "r = drop k s1" using n by (auto simp: nextobj_def s1_def Let_def)
  have "length s1 \<le> length s" by (simp add: s1_def length_dropWhile_le)
  then show ?thesis using obj_len_pos [OF k(1)] unfolding k(2) length_drop by linarith
qed

text \<open>The objects the loop over \<open>nextobj\<close> visits.\<close>

function objs :: "string \<Rightarrow> string list" where
  "objs s = (case nextobj s of None \<Rightarrow> [] | Some (x, r) \<Rightarrow> x # objs r)"
  by auto

termination
  by (relation "measure length") (auto dest: nextobj_shorter)

declare objs.simps [simp del]

section \<open>Operations\<close>

record conv =
  cv_src :: string
  cv_dst :: string
  cv_res :: string
  cv_Cin :: int
  cv_K :: int
  cv_dil :: int
  cv_pad :: int
  cv_leaky :: int
  cv_Cout :: int
  cv_Mp :: int
  cv_Kg :: int
  cv_woff :: int
  cv_boff :: int
  cv_tanh :: int
  cv_outpad :: int
  cv_tm :: int

record shuf =
  su_src :: string
  su_dst :: string
  su_r :: int
  su_Cout :: int
  su_pad :: int
  su_K :: int
  su_J :: int

record mrf =
  mf_a :: string
  mf_b :: string
  mf_c :: string
  mf_dst :: string

datatype vop = VConv conv | VShuf shuf | VMrf mrf | VNone

definition conv_of :: "string \<Rightarrow> conv" where
  "conv_of s =
     \<lparr>cv_src = js s ''src'' 20, cv_dst = js s ''dst'' 20, cv_res = js s ''res'' 20, cv_Cin = ji s ''Cin'',
      cv_K = ji s ''K'', cv_dil = ji s ''dil'', cv_pad = ji s ''pad'', cv_leaky = ji s ''leaky'',
      cv_Cout = ji s ''Cout'', cv_Mp = ji s ''Mp'', cv_Kg = ji s ''Kg'', cv_woff = ji s ''woff'',
      cv_boff = ji s ''boff'', cv_tanh = ji s ''tanh'', cv_outpad = ji s ''outpad'', cv_tm = ji s ''tm''\<rparr>"

definition shuf_of :: "string \<Rightarrow> shuf" where
  "shuf_of s =
     \<lparr>su_src = js s ''src'' 20, su_dst = js s ''dst'' 20, su_r = ji s ''r'', su_Cout = ji s ''Cout'',
      su_pad = ji s ''pad'', su_K = ji s ''K'', su_J = ji s ''J''\<rparr>"

definition mrf_of :: "string \<Rightarrow> mrf" where
  "mrf_of s = \<lparr>mf_a = js s ''a'' 20, mf_b = js s ''b'' 20, mf_c = js s ''c'' 20, mf_dst = js s ''dst'' 20\<rparr>"

definition op_of :: "string \<Rightarrow> vop" where
  "op_of s =
     (let k = js s ''op'' 16 in
      if k = ''conv'' then VConv (conv_of s)
      else if k = ''shuffle'' then VShuf (shuf_of s)
      else if k = ''mrf'' then VMrf (mrf_of s)
      else VNone)"

end
