(* ===== verification/Voc_Run.thy ===== *)
theory Voc_Run
  imports Voc_Base Ggml_Buffers
begin

text \<open>
  src/src/tts/gpudecd.c: the buffers of a request (\<open>slot\<close>), the stages that are collected for a batch,
  \<open>process\<close>, and the connections of \<open>main\<close>. What a batch does to the memory is the parameter
  \<open>vl_gpu\<close>, whether it succeeds or not. \<open>VExit\<close> is a call of \<open>exit\<close> or a crash; \<open>VStop\<close> a request that
  ends without a result. Channels and lengths are \<open>int\<close>s and wrap around at \<open>2 ^ 31\<close> (\<open>i32_of\<close>), the sizes
  of slots are \<open>long\<close>s, and what is allocated is such a size, doubled and cut to 32 bits.
\<close>

record vlib =
  vl_conv :: "byte list"
  vl_convs :: "byte list"
  vl_shuf :: "byte list"
  vl_mrf :: "byte list"
  vl_gpu :: "nat \<Rightarrow> bstage list \<Rightarrow> (nat \<Rightarrow> nat \<Rightarrow> byte) \<Rightarrow> nat \<Rightarrow> nat \<Rightarrow> byte"
  vl_heap :: "nat \<Rightarrow> nat option"
  vl_mmap :: "nat \<Rightarrow> bool"
  vl_malloc :: "nat \<Rightarrow> bool"

section \<open>Slots\<close>

record vslot =
  vs_nm :: string
  vs_C :: int
  vs_T :: int
  vs_sz :: int

definition MAXSLOT :: nat where "MAXSLOT = 48"
definition POOL :: nat where "POOL = 30"
definition MAXPEND :: nat where "MAXPEND = 30"

text \<open>The slot of a name, a new one when there is none; \<open>None\<close> when the table is full.\<close>

definition slot :: "string \<Rightarrow> vslot list \<Rightarrow> (nat \<times> vslot list) option" where
  "slot n ss =
     (let i = length (takeWhile (\<lambda>x. vs_nm x \<noteq> n) ss) in
      if i < length ss then Some (i, ss)
      else if MAXSLOT \<le> length ss then None
      else Some (i, ss @ [\<lparr>vs_nm = n, vs_C = 0, vs_T = 0, vs_sz = 0\<rparr>]))"

definition set_dims :: "nat \<Rightarrow> int \<Rightarrow> int \<Rightarrow> vslot list \<Rightarrow> vslot list" where
  "set_dims i C T ss = ss[i := (ss ! i)\<lparr>vs_C := C, vs_T := T\<rparr>]"

definition grow :: "nat \<Rightarrow> int \<Rightarrow> vslot list \<Rightarrow> vslot list" where
  "grow i v ss = (if vs_sz (ss ! i) < v then ss[i := (ss ! i)\<lparr>vs_sz := v\<rparr>] else ss)"

text \<open>The length of a result, computed with \<open>int\<close>s.\<close>

definition conv_T :: "conv \<Rightarrow> int \<Rightarrow> int" where
  "conv_T c T = i32_of (T + cv_outpad c)"

definition shuf_T :: "shuf \<Rightarrow> int \<Rightarrow> int" where
  "shuf_T f T = i32_of ((T - (su_J f - 1) - 1) * su_r f + su_K f - 2 * su_pad f)"

text \<open>The first pass over the program, which sizes the slots.\<close>

definition plan_dst :: "string \<Rightarrow> int \<Rightarrow> int \<Rightarrow> vslot list \<Rightarrow> vslot list option" where
  "plan_dst n C T ss =
     (case slot n ss of None \<Rightarrow> None | Some (di, ss1) \<Rightarrow> Some (set_dims di C T (grow di (C * T) ss1)))"

definition plan_op :: "vop \<Rightarrow> vslot list \<Rightarrow> vslot list option" where
  "plan_op x ss =
     (case x of
        VConv c \<Rightarrow>
         (case slot (cv_src c) ss of
            None \<Rightarrow> None
          | Some (si, ss1) \<Rightarrow> plan_dst (cv_dst c) (cv_Cout c) (conv_T c (vs_T (ss1 ! si))) ss1)
      | VShuf f \<Rightarrow>
         (case slot (su_src f) ss of
            None \<Rightarrow> None
          | Some (si, ss1) \<Rightarrow> plan_dst (su_dst f) (su_Cout f) (shuf_T f (vs_T (ss1 ! si))) ss1)
      | VMrf m \<Rightarrow>
         (case slot (mf_a m) ss of
            None \<Rightarrow> None
          | Some (ai, ss1) \<Rightarrow> plan_dst (mf_dst m) (vs_C (ss1 ! ai)) (vs_T (ss1 ! ai)) ss1)
      | VNone \<Rightarrow> Some ss)"

fun plan :: "vop list \<Rightarrow> vslot list \<Rightarrow> vslot list option" where
  "plan [] ss = Some ss"
| "plan (x # xs) ss = (case plan_op x ss of None \<Rightarrow> None | Some ss1 \<Rightarrow> plan xs ss1)"

section \<open>Stages\<close>

text \<open>
  The buffers \<open>sbuf\<close> are 0 to 47, \<open>ppool\<close> 48 to 77, \<open>ZW\<close> 78 and \<open>ZB\<close> 79. \<open>vd_log\<close> keeps the calls
  of \<open>barra_gpu_batch\<close>: the stages they were given, the memory, and the buffers and the session they
  found, on which it depends whether the GPU gets the stages.
\<close>

definition PP :: "nat \<Rightarrow> nat" where "PP i = 48 + i"
definition ZW :: nat where "ZW = 78"
definition ZB :: nat where "ZB = 79"

record voc =
  vd_slots :: "vslot list"
  vd_pend :: "bstage list"
  vd_pcur :: nat
  vd_fl :: nat
  vd_zs :: store
  vd_se :: sess
  vd_mem :: "nat \<Rightarrow> nat \<Rightarrow> byte"
  vd_tick :: nat
  vd_log :: "(bstage list \<times> (nat \<Rightarrow> nat \<Rightarrow> byte) \<times> cst) list"

datatype vres = VExit | VStop voc | VGo voc

definition flush_batch :: "vlib \<Rightarrow> voc \<Rightarrow> voc" where
  "flush_batch V s =
     (if vd_pend s = [] then s
      else
     (case barra_gpu_batch (vd_pend s) (vd_zs s, vd_se s) of
        (_, zs, se) \<Rightarrow>
          s\<lparr>vd_zs := zs, vd_se := se, vd_mem := vl_gpu V (vd_tick s) (vd_pend s) (vd_mem s),
            vd_tick := Suc (vd_tick s), vd_fl := Suc (vd_fl s), vd_pend := [], vd_pcur := 0,
            vd_log := vd_log s @ [(vd_pend s, vd_mem s, vd_zs s, vd_se s)]\<rparr>))"

definition ensure_room :: "vlib \<Rightarrow> nat \<Rightarrow> voc \<Rightarrow> voc" where
  "ensure_room V n s =
     (if MAXPEND < length (vd_pend s) + n \<or> POOL < vd_pcur s + n then flush_batch V s else s)"

definition addstage :: "byte list \<Rightarrow> nat \<Rightarrow> nat \<Rightarrow> nat \<Rightarrow> nat list \<Rightarrow> voc \<Rightarrow> nat \<times> voc" where
  "addstage spv gx gy gz bufs s =
     (PP (vd_pcur s),
      s\<lparr>vd_pend := vd_pend s @ [\<lparr>bg_spv = Some spv, bg_gx = gx, bg_gy = gy, bg_gz = gz,
          bg_bufs = PP (vd_pcur s) # bufs\<rparr>], vd_pcur := Suc (vd_pcur s)\<rparr>)"

definition v_begin :: "nat \<Rightarrow> voc \<Rightarrow> voc" where
  "v_begin p s = s\<lparr>vd_zs := cpu_begin p (vd_zs s)\<rparr>"

definition v_end :: "nat \<Rightarrow> voc \<Rightarrow> voc" where
  "v_end p s = s\<lparr>vd_zs := cpu_end p (vd_zs s)\<rparr>"

text \<open>A stage with the words of its push constants, and how it is put into the batch.\<close>

record sdesc =
  sd_spv :: "byte list"
  sd_gx :: nat
  sd_gy :: nat
  sd_bufs :: "nat list"
  sd_words :: "int list"

definition put_stage :: "vlib \<Rightarrow> sdesc \<Rightarrow> voc \<Rightarrow> voc" where
  "put_stage V d s =
     (case addstage (sd_spv d) (sd_gx d) (sd_gy d) 1 (sd_bufs d) (ensure_room V 1 s) of
        (p, s1) \<Rightarrow>
         (let s2 = v_begin p s1 in
          v_end p (s2\<lparr>vd_mem := mwr p 0 (put32s (map u32of (sd_words d))) (vd_mem s2)\<rparr>)))"

text \<open>C divides towards zero.\<close>

definition up128 :: "int \<Rightarrow> int" where
  "up128 x = (let y = i32_of (x + 127) in if 0 \<le> y then y div 128 * 128 else - (- y div 128 * 128))"

definition n_groups :: "int \<Rightarrow> int \<Rightarrow> nat" where
  "n_groups C T = (u32of C * u32of T + 255) mod 2 ^ 32 div 256"

definition run_dst :: "string \<Rightarrow> int \<Rightarrow> int \<Rightarrow> vslot list \<Rightarrow> (nat \<times> vslot list) option" where
  "run_dst n C T ss =
     (case slot n ss of None \<Rightarrow> None | Some (di, ss1) \<Rightarrow> Some (di, set_dims di C T ss1))"

text \<open>\<open>res_slot\<close>: the residual, or \<open>z\<close> (slot 0) when there is none.\<close>

definition res_slot :: "string \<Rightarrow> vslot list \<Rightarrow> (nat \<times> vslot list) option" where
  "res_slot n ss = (if n = [] then Some (0, ss) else slot n ss)"

definition conv_words :: "conv \<Rightarrow> int \<Rightarrow> int list" where
  "conv_words c Tin =
     (let Tout = conv_T c Tin in
      [cv_Mp c, up128 Tout, cv_Kg c, cv_Cin c, cv_K c, cv_dil c, cv_pad c, Tout, cv_leaky c, cv_woff c, Tin,
       cv_Cout c, cv_boff c,
       (if cv_res c \<noteq> [] then 1 else 0) + (if cv_tanh c \<noteq> 0 then 2 else 0)])"

text \<open>What an operation asks for: \<open>SExit\<close> when the table is full, \<open>SStop\<close> for an invalid tile.\<close>

datatype sres = SExit | SStop | SGo "sdesc option" "vslot list"

definition conv_stage :: "vlib \<Rightarrow> conv \<Rightarrow> vslot list \<Rightarrow> sres" where
  "conv_stage V c ss =
     (if cv_tm c \<le> 0 then SStop
      else
     (case slot (cv_src c) ss of
        None \<Rightarrow> SExit
      | Some (si, ss1) \<Rightarrow>
     (let Tin = vs_T (ss1 ! si); Tout = conv_T c Tin in
     (case run_dst (cv_dst c) (cv_Cout c) Tout ss1 of
        None \<Rightarrow> SExit
      | Some (di, ss2) \<Rightarrow>
     (case res_slot (cv_res c) ss2 of
        None \<Rightarrow> SExit
      | Some (ri, ss3) \<Rightarrow>
          SGo (Some \<lparr>sd_spv = (if cv_tm c = 32 then vl_convs V else vl_conv V),
            sd_gx = u32of (up128 Tout) div 128, sd_gy = u32of (cv_Mp c) div u32of (cv_tm c),
            sd_bufs = [ZW, si, ZB, ri, di], sd_words = conv_words c Tin\<rparr>) ss3)))))"

definition shuf_stage :: "vlib \<Rightarrow> shuf \<Rightarrow> vslot list \<Rightarrow> sres" where
  "shuf_stage V f ss =
     (case slot (su_src f) ss of
        None \<Rightarrow> SExit
      | Some (si, ss1) \<Rightarrow>
     (let Tconv = vs_T (ss1 ! si); outT = shuf_T f Tconv in
     (case run_dst (su_dst f) (su_Cout f) outT ss1 of
        None \<Rightarrow> SExit
      | Some (di, ss2) \<Rightarrow>
          SGo (Some \<lparr>sd_spv = vl_shuf V, sd_gx = n_groups (su_Cout f) outT, sd_gy = 1, sd_bufs = [si, di],
            sd_words = [su_Cout f, outT, su_r f, su_pad f, Tconv]\<rparr>) ss2)))"

definition mrf_stage :: "vlib \<Rightarrow> mrf \<Rightarrow> vslot list \<Rightarrow> sres" where
  "mrf_stage V m ss =
     (case slot (mf_a m) ss of
        None \<Rightarrow> SExit
      | Some (ai, ss1) \<Rightarrow>
     (case slot (mf_b m) ss1 of
        None \<Rightarrow> SExit
      | Some (bi, ss2) \<Rightarrow>
     (case slot (mf_c m) ss2 of
        None \<Rightarrow> SExit
      | Some (ci, ss3) \<Rightarrow>
     (let C = vs_C (ss3 ! ai); T = vs_T (ss3 ! ai) in
     (case run_dst (mf_dst m) C T ss3 of
        None \<Rightarrow> SExit
      | Some (di, ss4) \<Rightarrow>
          SGo (Some \<lparr>sd_spv = vl_mrf V, sd_gx = n_groups C T, sd_gy = 1, sd_bufs = [ai, bi, ci, di],
            sd_words = [int (u32of C * u32of T mod 2 ^ 32)]\<rparr>) ss4)))))"

definition op_stage :: "vlib \<Rightarrow> vop \<Rightarrow> vslot list \<Rightarrow> sres" where
  "op_stage V x ss =
     (case x of
        VConv c \<Rightarrow> conv_stage V c ss
      | VShuf f \<Rightarrow> shuf_stage V f ss
      | VMrf m \<Rightarrow> mrf_stage V m ss
      | VNone \<Rightarrow> SGo None ss)"

definition run_op :: "vlib \<Rightarrow> vop \<Rightarrow> voc \<Rightarrow> vres" where
  "run_op V x s =
     (case op_stage V x (vd_slots s) of
        SExit \<Rightarrow> VExit
      | SStop \<Rightarrow> VStop s
      | SGo None ss \<Rightarrow> VGo (s\<lparr>vd_slots := ss\<rparr>)
      | SGo (Some d) ss \<Rightarrow> VGo (put_stage V d (s\<lparr>vd_slots := ss\<rparr>)))"

fun run_ops :: "vlib \<Rightarrow> vop list \<Rightarrow> voc \<Rightarrow> vres" where
  "run_ops V [] s = VGo s"
| "run_ops V (x # xs) s = (case run_op V x s of VGo s1 \<Rightarrow> run_ops V xs s1 | r \<Rightarrow> r)"

section \<open>A request\<close>

text \<open>The dma-bufs of the slots; those before a failing one stay allocated.\<close>

fun slot_allocs :: "vlib \<Rightarrow> nat list \<Rightarrow> voc \<Rightarrow> bool \<times> voc" where
  "slot_allocs V [] s = (True, s)"
| "slot_allocs V (i # is) s =
     (case barra_zc_alloc (vl_heap V (vd_tick s)) (vl_mmap V (vd_tick s)) i (u32of (vs_sz (vd_slots s ! i) * 2)) (vd_zs s) of
        (r, zs) \<Rightarrow>
       (let s1 = s\<lparr>vd_zs := zs, vd_tick := Suc (vd_tick s)\<rparr> in
        if r then slot_allocs V is s1 else (False, s1)))"

definition rel_blocks :: "nat \<Rightarrow> nat list list" where
  "rel_blocks n = map (\<lambda>k. take 16 (drop (16 * k) [0..<n])) [0..<(n + 15) div 16]"

definition release_all :: "nat \<Rightarrow> voc \<Rightarrow> voc" where
  "release_all n s =
     (case fold (\<lambda>b st. snd (barra_gpu_release b st)) (rel_blocks n) (vd_zs s, vd_se s) of
        (zs, se) \<Rightarrow> s\<lparr>vd_zs := fold barra_zc_free [0..<n] zs, vd_se := se\<rparr>)"

definition halfs :: "f32 list \<Rightarrow> byte list" where
  "halfs xs = concat (map (\<lambda>x. le_bytes 2 (f2h x)) xs)"

definition floats_of :: "nat \<Rightarrow> (nat \<Rightarrow> byte) \<Rightarrow> f32 list" where
  "floats_of n m = map (\<lambda>t. h2f (le_nat [m (2 * t), m (2 * t + 1)])) [0..<n]"

text \<open>The last part: read the result, then give the buffers back.\<close>

definition finish :: "vlib \<Rightarrow> voc \<Rightarrow> (f32 list option \<times> voc) option" where
  "finish V s =
     (case slot ''wav'' (vd_slots s) of
        None \<Rightarrow> None
      | Some (sw, ss) \<Rightarrow>
     (let s1 = v_begin sw (s\<lparr>vd_slots := ss\<rparr>); Tt = vs_T (ss ! sw) in
      if Tt < 0 \<or> \<not> vl_malloc V (nat (Tt * 4)) then Some (None, s1)
      else Some (Some (floats_of (nat Tt) (vd_mem s1 sw)), release_all (length ss) s1)))"

definition process :: "vlib \<Rightarrow> vop list \<Rightarrow> f32 list \<Rightarrow> int \<Rightarrow> voc \<Rightarrow> (f32 list option \<times> voc) option" where
  "process V prog zf T s =
     (let z = \<lparr>vs_nm = ''z'', vs_C = 192, vs_T = T, vs_sz = 192 * T\<rparr> in
      case plan prog [z] of
        None \<Rightarrow> None
      | Some ss \<Rightarrow>
     (case slot_allocs V [0..<length ss] (s\<lparr>vd_slots := ss, vd_pend := [], vd_pcur := 0\<rparr>) of
        (False, s1) \<Rightarrow> Some (None, s1)
      | (True, s1) \<Rightarrow>
     (let s2 = v_begin 0 s1;
          s3 = v_end 0 (s2\<lparr>vd_mem := mwr 0 0 (halfs zf) (vd_mem s2)\<rparr>)
      in
      case run_ops V prog (s3\<lparr>vd_slots := set_dims 0 192 T (vd_slots s3)\<rparr>) of
        VExit \<Rightarrow> None
      | VStop s4 \<Rightarrow> Some (None, s4)
      | VGo s4 \<Rightarrow> finish V (flush_batch V s4))))"

section \<open>The daemon\<close>

text \<open>
  One connection: the bytes that arrive before it ends or times out, and the bytes that are written.
  \<open>None\<close>: the daemon ends. Without a list of operations in the program (\<open>prog\<close>) the first request reads
  from a null pointer.
\<close>

definition voc_conn :: "vlib \<Rightarrow> vop list option \<Rightarrow> byte list \<Rightarrow> voc \<Rightarrow> (byte list \<times> voc) option" where
  "voc_conn V prog inp s =
     (if length inp < 4 then Some ([], s)
      else
     (let T = s32 (le_nat (take 4 inp)); n = 192 * nat T in
      if T \<le> 0 \<or> 100000 < T then Some ([], s)
      else if \<not> vl_malloc V (n * 4) then Some ([], s)
      else if length inp < 4 + n * 4 then Some ([], s)
      else
     (case prog of
        None \<Rightarrow> None
      | Some xs \<Rightarrow>
     (case process V xs (get32s n (drop 4 inp)) T s of
        None \<Rightarrow> None
      | Some (None, s1) \<Rightarrow> Some (le32 0, s1)
      | Some (Some wav, s1) \<Rightarrow> Some (le32 (length wav) @ put32s wav, s1)))))"

fun voc_serve :: "vlib \<Rightarrow> vop list option \<Rightarrow> byte list list \<Rightarrow> voc \<Rightarrow> (byte list list \<times> voc) option" where
  "voc_serve V prog [] s = Some ([], s)"
| "voc_serve V prog (c # cs) s =
     (case voc_conn V prog c s of
        None \<Rightarrow> None
      | Some (r, s1) \<Rightarrow> map_option (\<lambda>(rs, s2). (r # rs, s2)) (voc_serve V prog cs s1))"

text \<open>The operations behind the key of the JSON text.\<close>

definition voc_prog :: "string \<Rightarrow> vop list option" where
  "voc_prog J = map_option (\<lambda>r. map op_of (objs r)) (fk J ''ops'')"

text \<open>Weights and bias go to their buffers; \<open>memcpy\<close> to a buffer that is not mapped crashes.\<close>

definition load_blob :: "vlib \<Rightarrow> nat \<Rightarrow> byte list \<Rightarrow> voc \<Rightarrow> voc option" where
  "load_blob V p bs s =
     (case barra_zc_alloc (vl_heap V (vd_tick s)) (vl_mmap V (vd_tick s)) p (u32of (int (length bs))) (vd_zs s) of
        (False, zs) \<Rightarrow> None
      | (True, zs) \<Rightarrow>
          Some (v_end p (v_begin p (s\<lparr>vd_zs := zs, vd_tick := Suc (vd_tick s), vd_mem := mwr p 0 bs (vd_mem s)\<rparr>))))"

definition pool_alloc :: "vlib \<Rightarrow> nat \<Rightarrow> voc \<Rightarrow> voc" where
  "pool_alloc V i s =
     s\<lparr>vd_zs := snd (barra_zc_alloc (vl_heap V (vd_tick s)) (vl_mmap V (vd_tick s)) (PP i) 64 (vd_zs s)),
       vd_tick := Suc (vd_tick s)\<rparr>"

definition voc_main ::
  "vlib \<Rightarrow> string \<Rightarrow> byte list \<Rightarrow> byte list \<Rightarrow> byte list list \<Rightarrow> cworld \<Rightarrow> voc \<Rightarrow> (byte list list \<times> voc) option" where
  "voc_main V J wts bias cs w s =
     (case barra_gpu_open w of
        (False, se, w1) \<Rightarrow> None
      | (True, se, w1) \<Rightarrow>
     (case load_blob V ZW wts (s\<lparr>vd_se := se\<rparr>) of
        None \<Rightarrow> None
      | Some s1 \<Rightarrow>
     (case load_blob V ZB bias s1 of
        None \<Rightarrow> None
      | Some s2 \<Rightarrow> voc_serve V (voc_prog J) cs (fold (pool_alloc V) [0..<POOL] s2))))"

end
