(* ===== verification/Voc_Correct.thy ===== *)
theory Voc_Correct
  imports Voc_Run "HOL-Library.Sublist"
begin

text \<open>
  Properties of the vocoder daemon, src/src/tts/gpudecd.c: the conversion of floats, the stages a program
  sends to the GPU, the sizes of the buffers, and what a dead session does.
\<close>

section \<open>Half floats\<close>

lemma h_norm_shift:
  "0 < m \<Longrightarrow> m < 1024 \<Longrightarrow> \<exists>k. h_norm m e = (m * 2 ^ k, e - int k) \<and> 1024 \<le> m * 2 ^ k \<and> m * 2 ^ k < 2048 \<and> 1 \<le> k \<and> k \<le> 10"
proof -
  have gen: "0 < m \<Longrightarrow> m < 2048 \<Longrightarrow> \<exists>k. h_norm m e = (m * 2 ^ k, e - int k) \<and> 1024 \<le> m * 2 ^ k \<and> m * 2 ^ k < 2048" for m e
  proof (induction m e rule: h_norm.induct)
    case (1 m e)
    show ?case
    proof (cases "1024 \<le> m")
      case True
      then show ?thesis using 1 by (intro exI [of _ 0]) (simp add: h_norm.simps)
    next
      case False
      then obtain k where "h_norm (2 * m) (e - 1) = (2 * m * 2 ^ k, e - 1 - int k)"
        "1024 \<le> 2 * m * 2 ^ k" "2 * m * 2 ^ k < 2048"
        using 1 by auto
      then show ?thesis using False 1 by (intro exI [of _ "Suc k"]) (simp add: h_norm.simps [of m])
    qed
  qed
  assume m: "0 < m" "m < 1024"
  then obtain k where k: "h_norm m e = (m * 2 ^ k, e - int k)" "1024 \<le> m * 2 ^ k" "m * 2 ^ k < 2048"
    using gen [of m e] by auto
  have "k \<noteq> 0" using k(2) m(2) by (cases k) auto
  moreover have "k \<le> 10"
  proof (rule ccontr)
    assume "\<not> k \<le> 10"
    then have "(2 :: nat) ^ 11 \<le> 2 ^ k" by (intro power_increasing) simp_all
    also have "\<dots> \<le> m * 2 ^ k" using m(1) by simp
    finally show False using k(3) by simp
  qed
  ultimately show ?thesis using k by (intro exI [of _ k]) simp
qed

text \<open>A float of sign \<open>s\<close>, exponent \<open>e\<close> and fraction \<open>m\<close>, all of whose lower bits are zero.\<close>

lemma f2h_fields:
  assumes "s < 2" "e < 256" "m < 1024"
  shows "f2h (s * 2 ^ 31 + e * 2 ^ 23 + m * 2 ^ 13) =
    (if e \<le> 112 then if e < 102 then s * 2 ^ 15 else s * 2 ^ 15 + (m * 2 ^ 13 + 2 ^ 23) div 2 ^ (126 - e)
     else if 143 \<le> e then s * 2 ^ 15 + 0x7C00
     else s * 2 ^ 15 + (e - 112) * 2 ^ 10 + m)"
proof -
  define x where "x = s * 2 ^ 31 + e * 2 ^ 23 + m * 2 ^ 13"
  have x: "x = (s * 256 + e) * 2 ^ 23 + m * 2 ^ 13" by (simp add: x_def)
  have split: "(a * N + r) div N = a" "(a * N + r) mod N = r" if "r < N" for a N r :: nat using that by simp_all
  have "m * 2 ^ 13 < 2 ^ 23" using assms(3) by simp
  then have 23: "x div 2 ^ 23 = s * 256 + e" "x mod 2 ^ 23 = m * 2 ^ 13" unfolding x using split by blast+
  have "x = ((s * 256 + e) * 1024 + m) * 2 ^ 13" by (simp add: x_def)
  then have 13: "x div 2 ^ 13 = (s * 256 + e) * 1024 + m" by simp
  have "x div 2 ^ 31 = x div 2 ^ 23 div 2 ^ 8" by (simp flip: div_mult2_eq)
  then have "x div 2 ^ 31 = (s * 256 + e) div 2 ^ 8" unfolding 23(1) .
  then have 31: "x div 2 ^ 31 = s" using assms(2) by simp
  have 1: "x div 2 ^ 31 = s" "x div 2 ^ 23 mod 256 = e" "x div 2 ^ 13 mod 2 ^ 10 = m" "x mod 2 ^ 23 = m * 2 ^ 13"
    unfolding 23 13 31 using assms(2) split(1) [of m "2 ^ 10" "s * 256 + e"] split(2) [OF assms(3), of "s * 256 + e"]
    by simp_all
  have 2: "nat (14 - (int e - 127 + 15)) = 126 - e" "nat (int e - 127 + 15) = e - 112" by simp_all
  show ?thesis
    unfolding x_def [symmetric] f2h_def 1 Let_def 2 using assms(1) by auto
qed

text \<open>
  C28. Every half float except a NaN survives the conversion to a float and back: zeros, denormals,
  normal numbers and infinities of both signs.
\<close>

theorem half_roundtrip:
  assumes "h < 2 ^ 16" "\<not> (h div 2 ^ 10 mod 32 = 31 \<and> h mod 2 ^ 10 \<noteq> 0)"
  shows "f2h (h2f h) = h"
proof -
  define s e m where "s = h div 2 ^ 15" and "e = h div 2 ^ 10 mod 32" and "m = h mod 2 ^ 10"
  have b: "s < 2" "e < 32" "m < 1024" using assms(1) by (simp_all add: s_def e_def m_def less_mult_imp_div_less)
  have s2: "h div 2 ^ 15 mod 2 = s" using b(1) by (simp add: s_def)
  have "h div 2 ^ 15 = h div 2 ^ 10 div 32" by (simp flip: div_mult2_eq)
  then have "h div 2 ^ 10 = s * 32 + e" using div_mult_mod_eq [of "h div 2 ^ 10" 32] by (simp add: s_def e_def)
  moreover have "h = h div 2 ^ 10 * 2 ^ 10 + m" using div_mult_mod_eq [of h "2 ^ 10"] by (simp add: m_def)
  ultimately have h: "h = s * 2 ^ 15 + e * 2 ^ 10 + m" by simp
  note F = h2f_def [of h, unfolded s2 e_def [symmetric] m_def [symmetric] Let_def]
  show ?thesis
  proof (cases "e = 0")
    case False
    show ?thesis
    proof (cases "e = 31")
      case True
      then have "m = 0" using assms(2) by (simp add: e_def m_def)
      have "h2f h = s * 2 ^ 31 + 255 * 2 ^ 23 + 0 * 2 ^ 13" unfolding F using False True \<open>m = 0\<close> by simp
      then show ?thesis using f2h_fields [of s 255 0] b(1) h True \<open>m = 0\<close> by simp
    next
      case f: False
      have "h2f h = s * 2 ^ 31 + (e + 112) * 2 ^ 23 + m * 2 ^ 13" unfolding F using False f by simp
      then show ?thesis using f2h_fields [of s "e + 112" m] b h False f by simp
    qed
  next
    case True
    show ?thesis
    proof (cases "m = 0")
      case m0: True
      then have "h2f h = s * 2 ^ 31 + 0 * 2 ^ 23 + 0 * 2 ^ 13" unfolding F using True by simp
      then show ?thesis using f2h_fields [of s 0 0] b h True m0 by simp
    next
      case False
      then obtain k where k: "h_norm m 1 = (m * 2 ^ k, 1 - int k)" "1024 \<le> m * 2 ^ k" "m * 2 ^ k < 2048" "1 \<le> k" "k \<le> 10"
        using h_norm_shift [of m 1] b(3) by auto
      have "nat (1 - int k - 15 + 127) = 113 - k" using k(5) by simp
      then have "h2f h = s * 2 ^ 31 + (113 - k) * 2 ^ 23 + m * 2 ^ k mod 2 ^ 10 * 2 ^ 13"
        unfolding F using True False k(1) by simp
      moreover have "m * 2 ^ k mod 2 ^ 10 = m * 2 ^ k - 1024" using k(2,3) by (simp add: mod_if)
      moreover have "((m * 2 ^ k - 1024) * 2 ^ 13 + 2 ^ 23) div 2 ^ (13 + k) = m"
      proof -
        have "(m * 2 ^ k - 1024) * 2 ^ 13 + 2 ^ 23 = m * 2 ^ (13 + k)" using k(2) by (simp add: diff_mult_distrib power_add)
        then show ?thesis by simp
      qed
      moreover have "126 - (113 - k) = 13 + k" using k(5) by simp
      moreover have "\<not> 113 - k < 102" "113 - k \<le> 112" "113 - k < 256" "m * 2 ^ k - 1024 < 1024"
        using k by linarith+
      ultimately show ?thesis using f2h_fields [of s "113 - k" "m * 2 ^ k - 1024"] b(1) h True by simp
    qed
  qed
qed

theorem half_roundtrip_witness: "f2h (h2f 0x8003) = 0x8003"
  by (rule half_roundtrip) simp_all

section \<open>The stages of a program\<close>

text \<open>The stages a program asks for, one after the other, and the slots it ends with.\<close>

fun prog_stages :: "vlib \<Rightarrow> vop list \<Rightarrow> vslot list \<Rightarrow> (sdesc list \<times> vslot list) option" where
  "prog_stages V [] ss = Some ([], ss)"
| "prog_stages V (x # xs) ss =
     (case op_stage V x ss of
        SGo d ss1 \<Rightarrow> map_option (\<lambda>(ds, ss2). (case_option [] (\<lambda>d. [d]) d @ ds, ss2)) (prog_stages V xs ss1)
      | _ \<Rightarrow> None)"

text \<open>A stage as the GPU sees it in a memory: its code, its groups, its buffers, its push constants.\<close>

definition shown :: "(nat \<Rightarrow> nat \<Rightarrow> byte) \<times> bstage \<Rightarrow> sdesc \<Rightarrow> bool" where
  "shown x d \<longleftrightarrow>
     (case x of (m, b) \<Rightarrow>
       bg_spv b = Some (sd_spv d) \<and> bg_gx b = sd_gx d \<and> bg_gy b = sd_gy d \<and> bg_gz b = 1 \<and>
       tl (bg_bufs b) = sd_bufs d \<and>
       map (m (hd (bg_bufs b))) [0..<4 * length (sd_words d)] = put32s (map u32of (sd_words d)))"

text \<open>
  The stages given to \<open>barra_gpu_batch\<close>, each with the memory at that time, and those of them that the GPU
  has run: the stages of the calls that returned success, for which the whole request has gone out
  and the daemon has answered with status 0.
\<close>

definition given :: "voc \<Rightarrow> ((nat \<Rightarrow> nat \<Rightarrow> byte) \<times> bstage) list" where
  "given s = concat (map (\<lambda>(b, m, st). map (Pair m) b) (vd_log s))"

definition batch_ran :: "bstage list \<times> (nat \<Rightarrow> nat \<Rightarrow> byte) \<times> cst \<Rightarrow> bool" where
  "batch_ran x = (case x of (b, m, st) \<Rightarrow> fst (barra_gpu_batch b st))"

definition ran_stages :: "voc \<Rightarrow> ((nat \<Rightarrow> nat \<Rightarrow> byte) \<times> bstage) list" where
  "ran_stages s = concat (map (\<lambda>(b, m, st). map (Pair m) b) (filter batch_ran (vd_log s)))"

definition batch_inv :: "voc \<Rightarrow> sdesc list \<Rightarrow> bool" where
  "batch_inv s ds \<longleftrightarrow>
     list_all2 shown (given s @ map (Pair (vd_mem s)) (vd_pend s)) ds \<and>
     vd_pcur s = length (vd_pend s) \<and> length (vd_pend s) \<le> MAXPEND \<and>
     map (\<lambda>b. hd (bg_bufs b)) (vd_pend s) = map PP [0..<length (vd_pend s)] \<and>
     list_all (\<lambda>(b, m, st). b \<noteq> [] \<and> length b \<le> MAXPEND) (vd_log s)"

lemma flush_inv: "batch_inv s ds \<Longrightarrow> batch_inv (flush_batch V s) ds \<and> vd_pend (flush_batch V s) = [] \<and>
    vd_slots (flush_batch V s) = vd_slots s"
  by (cases "vd_pend s = []")
    (simp_all add: flush_batch_def batch_inv_def given_def split: prod.splits)

lemma room_inv:
  assumes "batch_inv s ds"
  shows "batch_inv (ensure_room V 1 s) ds" "length (vd_pend (ensure_room V 1 s)) < MAXPEND"
    "vd_slots (ensure_room V 1 s) = vd_slots s"
  using assms flush_inv [OF assms, of V]
  by (auto simp: ensure_room_def batch_inv_def MAXPEND_def POOL_def)

lemma mwr_other: "p \<noteq> q \<Longrightarrow> mwr p off bs m q = m q"
  by (simp add: mwr_def fun_eq_iff)

lemma put_inv:
  assumes "batch_inv s ds"
  shows "batch_inv (put_stage V d s) (ds @ [d])" "vd_slots (put_stage V d s) = vd_slots s"
proof -
  define s1 where "s1 = ensure_room V 1 s"
  note r = room_inv [OF assms, of V, folded s1_def]
  have n: "vd_pcur s1 = length (vd_pend s1)" using r(1) by (simp add: batch_inv_def)
  define n where "n = length (vd_pend s1)"
  define m where "m = mwr (PP n) 0 (put32s (map u32of (sd_words d))) (vd_mem s1)"
  define b where "b = \<lparr>bg_spv = Some (sd_spv d), bg_gx = sd_gx d, bg_gy = sd_gy d, bg_gz = 1,
      bg_bufs = PP n # sd_bufs d\<rparr>"
  have e: "vd_mem (put_stage V d s) = m" "vd_pend (put_stage V d s) = vd_pend s1 @ [b]"
    "vd_log (put_stage V d s) = vd_log s1" "vd_pcur (put_stage V d s) = Suc n" "vd_slots (put_stage V d s) = vd_slots s1"
    unfolding put_stage_def addstage_def s1_def [symmetric]
    using n by (simp_all add: v_begin_def v_end_def Let_def m_def b_def n_def)
  have new: "shown (m, b) d"
    by (auto simp: shown_def b_def m_def mwr_def intro!: nth_equalityI)
  have old: "list_all2 shown (map (Pair m) (vd_pend s1)) ds' = list_all2 shown (map (Pair (vd_mem s1)) (vd_pend s1)) ds'" for ds'
  proof -
    have "m (hd (bg_bufs (vd_pend s1 ! i))) = vd_mem s1 (hd (bg_bufs (vd_pend s1 ! i)))" if i: "i < n" for i
    proof -
      have "map (\<lambda>b. hd (bg_bufs b)) (vd_pend s1) ! i = map PP [0..<n] ! i" using r(1) by (simp add: batch_inv_def n_def)
      then have "hd (bg_bufs (vd_pend s1 ! i)) = PP i" using i by (simp add: n_def)
      then show ?thesis using i unfolding m_def by (subst mwr_other) (simp_all add: PP_def)
    qed
    then show ?thesis by (simp add: list_all2_conv_all_nth shown_def n_def)
  qed
  show "batch_inv (put_stage V d s) (ds @ [d])"
  proof -
    obtain ds1 ds2 where ds: "ds = ds1 @ ds2" "list_all2 shown (given s1) ds1"
      "list_all2 shown (map (Pair (vd_mem s1)) (vd_pend s1)) ds2"
      using r(1) by (auto simp: batch_inv_def list_all2_append1)
    have "list_all2 shown (given s1 @ map (Pair m) (vd_pend s1) @ [(m, b)]) (ds1 @ ds2 @ [d])"
      using ds new by (intro list_all2_appendI) (simp_all add: old)
    moreover have "hd (bg_bufs b) = PP n" by (simp add: b_def)
    ultimately show ?thesis
      using r(1,2) unfolding batch_inv_def e
      by (simp add: ds(1) given_def e n_def [symmetric])
  qed
  show "vd_slots (put_stage V d s) = vd_slots s" using e(5) r(3) by simp
qed

lemma run_ops_inv:
  "batch_inv s ds \<Longrightarrow> prog_stages V xs (vd_slots s) = Some (ds1, ss) \<Longrightarrow>
   \<exists>s'. run_ops V xs s = VGo s' \<and> batch_inv s' (ds @ ds1) \<and> vd_slots s' = ss"
proof (induction xs arbitrary: s ds ds1)
  case (Cons x xs)
  obtain d ss1 ds2 where x: "op_stage V x (vd_slots s) = SGo d ss1" "prog_stages V xs ss1 = Some (ds2, ss)"
    "ds1 = case_option [] (\<lambda>d. [d]) d @ ds2"
    using Cons.prems(2) by (auto split: sres.splits)
  have b: "batch_inv (s\<lparr>vd_slots := ss1\<rparr>) ds" using Cons.prems(1) by (simp add: batch_inv_def given_def)
  show ?case
  proof (cases d)
    case None
    then show ?thesis using Cons.IH [OF b] x by (simp add: run_op_def)
  next
    case (Some d1)
    note p = put_inv [OF b, of V d1]
    have "prog_stages V xs (vd_slots (put_stage V d1 (s\<lparr>vd_slots := ss1\<rparr>))) = Some (ds2, ss)" using p(2) x(2) by simp
    from Cons.IH [OF p(1) this] show ?thesis using x Some by (simp add: run_op_def)
  qed
qed simp

lemma subseq_filter_concat: "subseq (concat (map f (filter P l))) (concat (map f l))"
  by (induction l) (auto intro: list_emb_append_mono list_emb_append2)

lemma given_ran: "list_all batch_ran (vd_log s) \<Longrightarrow> ran_stages s = given s"
  by (simp add: ran_stages_def given_def list_all_iff)

text \<open>
  A call of \<open>barra_gpu_batch\<close> that returns success has sent one request with all stages to the daemon and
  has read status 0; the session is that of the last import before it.
\<close>

lemma batch_ran_request:
  assumes "fst (barra_gpu_batch b st)"
  shows "\<exists>zs se k r k'. batch_imports b st = (True, zs, se) \<and> ss_sock se = Some k \<and>
    c_req [GPZ2_MAGIC, 2, length b, 0, 0, 0] [] (concat (map (stage_msgs (ends (concat (map bg_bufs b)) zs)) b)) 4 k =
      (Some r, k') \<and> le_nat r = 0"
  using assms by (auto simp: barra_gpu_batch_def Let_def split: if_splits prod.splits bool.splits option.splits)

text \<open>
  C29. However long the program is, all its stages are given to \<open>barra_gpu_batch\<close> in the order of the
  program, in batches of at most 30, and at the time of its batch every stage finds its own push
  constants in its first buffer although the pool of these buffers is used again and again. Which of
  them the GPU runs depends on the session: the stages of the calls that succeed, in the order of the
  program, and all of them if every call does; those of a call that fails are lost, and the program goes
  on without them.
\<close>

theorem voc_program_sent:
  assumes "vd_log s = []" "vd_pend s = []" "vd_pcur s = 0" "prog_stages V xs (vd_slots s) = Some (ds, ss)"
  shows "\<exists>s'. run_ops V xs s = VGo s' \<and>
    (let s2 = flush_batch V s' in
     vd_pend s2 = [] \<and> list_all2 shown (given s2) ds \<and> subseq (ran_stages s2) (given s2) \<and>
     (list_all batch_ran (vd_log s2) \<longrightarrow> list_all2 shown (ran_stages s2) ds) \<and>
     list_all (\<lambda>(b, m, st). b \<noteq> [] \<and> length b \<le> MAXPEND) (vd_log s2))"
proof -
  have "batch_inv s []" using assms(1-3) by (simp add: batch_inv_def given_def)
  from run_ops_inv [OF this assms(4)] obtain s' where s': "run_ops V xs s = VGo s'" "batch_inv s' ds" by auto
  define s2 where "s2 = flush_batch V s'"
  have "batch_inv s2 ds" "vd_pend s2 = []" using flush_inv [OF s'(2), of V] by (simp_all add: s2_def)
  then show ?thesis
    using s'(1) given_ran [of s2] subseq_filter_concat [of "\<lambda>(b, m, st). map (Pair m) b" batch_ran "vd_log s2"]
    by (auto simp: batch_inv_def s2_def [symmetric] Let_def ran_stages_def given_def)
qed

section \<open>The sizes of the slots\<close>

text \<open>\<open>n\<close> is the name of slot \<open>i\<close>, the first with this name; a table with more and larger slots.\<close>

definition slot_at :: "string \<Rightarrow> nat \<Rightarrow> vslot list \<Rightarrow> bool" where
  "slot_at n i ss \<longleftrightarrow> i < length ss \<and> vs_nm (ss ! i) = n \<and> (\<forall>j<i. vs_nm (ss ! j) \<noteq> n)"

definition tab_le :: "vslot list \<Rightarrow> vslot list \<Rightarrow> bool" where
  "tab_le p q \<longleftrightarrow> length p \<le> length q \<and>
     (\<forall>i<length p. vs_nm (p ! i) = vs_nm (q ! i) \<and> vs_sz (p ! i) \<le> vs_sz (q ! i))"

definition fits :: "vslot list \<Rightarrow> bool" where
  "fits ss \<longleftrightarrow> list_all (\<lambda>x. vs_C x * vs_T x \<le> vs_sz x) ss"

lemma tab_le_refl [simp]: "tab_le p p"
  by (simp add: tab_le_def)

lemma tab_le_trans:
  assumes "tab_le p q" "tab_le q r"
  shows "tab_le p r"
  unfolding tab_le_def
proof (intro conjI allI impI)
  show "length p \<le> length r" using assms by (simp add: tab_le_def)
  fix i assume i: "i < length p"
  then have "i < length q" using assms(1) by (simp add: tab_le_def)
  then show "vs_nm (p ! i) = vs_nm (r ! i)" "vs_sz (p ! i) \<le> vs_sz (r ! i)"
    using assms i order_trans [of "vs_sz (p ! i)" "vs_sz (q ! i)" "vs_sz (r ! i)"] by (simp_all add: tab_le_def)
qed

lemma tab_le_update: "vs_nm y = vs_nm (p ! i) \<Longrightarrow> vs_sz (p ! i) \<le> vs_sz y \<Longrightarrow> tab_le p (p[i := y])"
  by (cases "i < length p") (auto simp: tab_le_def nth_list_update)

lemma tab_le_dims: "tab_le p (set_dims i C T p)" "tab_le p (set_dims i C T (grow i v p))"
proof -
  show 1: "tab_le p (set_dims i C T p)" for p unfolding set_dims_def by (rule tab_le_update) simp_all
  have "tab_le p (grow i v p)" unfolding grow_def by (auto intro: tab_le_update)
  then show "tab_le p (set_dims i C T (grow i v p))" using 1 tab_le_trans by blast
qed

lemma slot_at_le: "slot_at n i p \<Longrightarrow> tab_le p q \<Longrightarrow> slot_at n i q"
  by (auto simp: slot_at_def tab_le_def)

lemma slot_at_slot:
  assumes "slot_at n i ss"
  shows "slot n ss = Some (i, ss)"
proof -
  have "length (takeWhile (\<lambda>x. vs_nm x \<noteq> n) ss) = i"
    using assms by (auto simp: slot_at_def takeWhile_eq_take_P_nth [of i])
  then show ?thesis using assms by (simp add: slot_def slot_at_def)
qed

lemma slot_some:
  assumes "slot n ss = Some (i, ss1)"
  shows "slot_at n i ss1" "tab_le ss ss1" "\<forall>j<length ss. ss1 ! j = ss ! j" "fits ss \<Longrightarrow> fits ss1"
proof -
  define k where "k = length (takeWhile (\<lambda>x. vs_nm x \<noteq> n) ss)"
  have before: "vs_nm (ss ! j) \<noteq> n" if "j < k" for j
    using nth_mem [of j "takeWhile (\<lambda>x. vs_nm x \<noteq> n) ss"] that set_takeWhileD
    by (fastforce simp: k_def takeWhile_nth)
  have le: "k \<le> length ss" by (simp add: k_def length_takeWhile_le)
  have all: "slot_at n i ss1 \<and> tab_le ss ss1 \<and> (\<forall>j<length ss. ss1 ! j = ss ! j) \<and> (fits ss \<longrightarrow> fits ss1)"
  proof (cases "k < length ss")
    case True
    then have "vs_nm (ss ! k) = n" using nth_length_takeWhile [of "\<lambda>x. vs_nm x \<noteq> n" ss] by (simp add: k_def)
    then show ?thesis using assms True before by (simp add: slot_def Let_def k_def [symmetric] slot_at_def)
  next
    case False
    then show ?thesis
      using assms before le
      by (auto simp: slot_def Let_def k_def [symmetric] slot_at_def tab_le_def nth_append fits_def
          split: if_splits)
  qed
  then show "slot_at n i ss1" "tab_le ss ss1" "\<forall>j<length ss. ss1 ! j = ss ! j" "fits ss \<Longrightarrow> fits ss1" by blast+
qed

text \<open>The second pass at \<open>q\<close> agrees with the first at \<open>p\<close> on the slots \<open>A\<close>.\<close>

definition passes_agree :: "string list \<Rightarrow> vslot list \<Rightarrow> vslot list \<Rightarrow> bool" where
  "passes_agree A p q \<longleftrightarrow> tab_le p q \<and> fits q \<and>
     (\<forall>n\<in>set A. \<exists>i. slot_at n i p \<and> vs_C (p ! i) = vs_C (q ! i) \<and> vs_T (p ! i) = vs_T (q ! i))"

definition same_slots :: "vslot list \<Rightarrow> vslot list \<Rightarrow> bool" where
  "same_slots p q \<longleftrightarrow> map vs_nm p = map vs_nm q \<and> map vs_sz p = map vs_sz q"

lemma same_slots_le: "same_slots q r \<Longrightarrow> tab_le p q \<Longrightarrow> tab_le p r"
  by (auto simp: same_slots_def tab_le_def list_eq_iff_nth_eq)

lemma map_update_same: "f y = f (q ! i) \<Longrightarrow> map f (q[i := y]) = map f q"
  by (cases "i < length q") (metis list_update_id map_update nth_map, simp add: list_update_beyond)

lemma same_set_dims [simp]: "same_slots (set_dims i C T q) q" "same_slots q (set_dims i C T q)"
  by (simp_all add: same_slots_def set_dims_def map_update_same)

lemma agree_reads:
  assumes "passes_agree A p q" "n \<in> set A"
  shows "\<exists>i. slot n p = Some (i, p) \<and> slot n q = Some (i, q) \<and> i < length q \<and>
    vs_C (p ! i) = vs_C (q ! i) \<and> vs_T (p ! i) = vs_T (q ! i)"
proof -
  obtain i where i: "slot_at n i p" "vs_C (p ! i) = vs_C (q ! i)" "vs_T (p ! i) = vs_T (q ! i)"
    using assms by (auto simp: passes_agree_def)
  have q: "slot_at n i q" using slot_at_le [OF i(1)] assms(1) by (simp add: passes_agree_def)
  then have "i < length q" by (simp add: slot_at_def)
  then show ?thesis using slot_at_slot [OF i(1)] slot_at_slot [OF q] i(2,3) by blast
qed

lemma plan_dst_le:
  assumes "plan_dst n C T p = Some p1"
  shows "tab_le p p1"
proof -
  obtain i p' where s: "slot n p = Some (i, p')" "p1 = set_dims i C T (grow i (C * T) p')"
    using assms by (auto simp: plan_dst_def split: option.splits)
  have "tab_le p' p1" unfolding s(2) by (rule tab_le_dims)
  then show ?thesis using tab_le_trans slot_some(2) [OF s(1)] by blast
qed

lemma agree_writes:
  assumes a: "passes_agree A p q" and d: "plan_dst n C T p = Some p1" and le: "tab_le p1 q"
  shows "\<exists>i. run_dst n C T q = Some (i, set_dims i C T q) \<and> i < length q \<and>
    passes_agree (n # A) p1 (set_dims i C T q)"
proof -
  obtain i p' where s: "slot n p = Some (i, p')" "p1 = set_dims i C T (grow i (C * T) p')"
    using d by (auto simp: plan_dst_def split: option.splits)
  note sl = slot_some [OF s(1)]
  have ilen: "i < length p'" using sl(1) by (simp add: slot_at_def)
  have p1: "length p1 = length p'" "vs_C (p1 ! i) = C" "vs_T (p1 ! i) = T" "C * T \<le> vs_sz (p1 ! i)"
    "\<And>j. j \<noteq> i \<Longrightarrow> p1 ! j = p' ! j"
    using ilen by (auto simp: s(2) set_dims_def grow_def nth_list_update)
  have at1: "slot_at n i p1"
  proof (rule slot_at_le [OF sl(1)])
    show "tab_le p' p1" unfolding s(2) by (rule tab_le_dims)
  qed
  have at: "slot_at n i q" using slot_at_le [OF at1 le] .
  define q1 where "q1 = set_dims i C T q"
  have run: "run_dst n C T q = Some (i, q1)" using slot_at_slot [OF at] by (simp add: run_dst_def q1_def)
  have iq: "i < length q" using at by (simp add: slot_at_def)
  have q1: "vs_C (q1 ! i) = C" "vs_T (q1 ! i) = T" "\<And>j. j \<noteq> i \<Longrightarrow> q1 ! j = q ! j"
    using iq by (simp_all add: q1_def set_dims_def)
  have "C * T \<le> vs_sz (q ! i)" using p1(4) le at1 by (force simp: tab_le_def slot_at_def)
  then have fit: "fits q1" using a iq
    by (auto simp: passes_agree_def fits_def q1_def set_dims_def list_all_length nth_list_update)
  have le1: "tab_le p1 q1" using same_slots_le [OF _ le] by (simp add: q1_def)
  have "\<exists>j. slot_at m j p1 \<and> vs_C (p1 ! j) = vs_C (q1 ! j) \<and> vs_T (p1 ! j) = vs_T (q1 ! j)" if m: "m \<in> set (n # A)" for m
  proof (cases "m = n")
    case True
    then show ?thesis using at1 p1 q1 by auto
  next
    case False
    then obtain j where j: "slot_at m j p" "vs_C (p ! j) = vs_C (q ! j)" "vs_T (p ! j) = vs_T (q ! j)"
      using a m by (auto simp: passes_agree_def)
    have mj: "slot_at m j p1" using slot_at_le [OF j(1) plan_dst_le [OF d]] .
    have "j \<noteq> i" using mj at1 False by (auto simp: slot_at_def)
    moreover have "p' ! j = p ! j" using sl(3) j(1) by (simp add: slot_at_def)
    ultimately show ?thesis using mj j p1(5) q1(3) by auto
  qed
  then show ?thesis using run iq fit le1 unfolding passes_agree_def q1_def by blast
qed

text \<open>Every operation reads \<open>z\<close> or what an earlier one has written, and the tiles are valid.\<close>

fun ordered :: "string list \<Rightarrow> vop list \<Rightarrow> bool" where
  "ordered A [] = True"
| "ordered A (VConv c # xs) =
     (0 < cv_tm c \<and> cv_src c \<in> set A \<and> cv_res c \<in> set ([] # cv_dst c # A) \<and> ordered (cv_dst c # A) xs)"
| "ordered A (VShuf f # xs) = (su_src f \<in> set A \<and> ordered (su_dst f # A) xs)"
| "ordered A (VMrf m # xs) = ({mf_a m, mf_b m, mf_c m} \<subseteq> set A \<and> ordered (mf_dst m # A) xs)"
| "ordered A (VNone # xs) = ordered A xs"

definition bufs_ok :: "nat \<Rightarrow> sdesc \<Rightarrow> bool" where
  "bufs_ok n d \<longleftrightarrow> list_all (\<lambda>b. b < n \<or> b = ZW \<or> b = ZB) (sd_bufs d)"

fun op_dst :: "vop \<Rightarrow> string list" where
  "op_dst (VConv c) = [cv_dst c]"
| "op_dst (VShuf f) = [su_dst f]"
| "op_dst (VMrf m) = [mf_dst m]"
| "op_dst VNone = []"

lemma ordered_Cons: "ordered A (x # xs) \<Longrightarrow> ordered (op_dst x @ A) xs"
  by (cases x) auto

lemma agree_op:
  assumes a: "passes_agree A p q" and o: "ordered A (x # xs)" and pl: "plan_op x p = Some p1" and le: "tab_le p1 q"
  shows "\<exists>d q1. op_stage V x q = SGo d q1 \<and> same_slots q1 q \<and> passes_agree (op_dst x @ A) p1 q1 \<and>
    (\<forall>e. d = Some e \<longrightarrow> bufs_ok (length q) e)"
proof (cases x)
  case (VConv c)
  obtain si where si: "slot (cv_src c) p = Some (si, p)" "slot (cv_src c) q = Some (si, q)" "si < length q"
    "vs_T (p ! si) = vs_T (q ! si)"
    using agree_reads [OF a, of "cv_src c"] o VConv by auto
  have "plan_dst (cv_dst c) (cv_Cout c) (conv_T c (vs_T (q ! si))) p = Some p1"
    using pl VConv si by (simp add: plan_op_def)
  from agree_writes [OF a this le] obtain di where di:
    "run_dst (cv_dst c) (cv_Cout c) (conv_T c (vs_T (q ! si))) q =
       Some (di, set_dims di (cv_Cout c) (conv_T c (vs_T (q ! si))) q)" "di < length q"
    "passes_agree (cv_dst c # A) p1 (set_dims di (cv_Cout c) (conv_T c (vs_T (q ! si))) q)"
    by blast
  define q1 where "q1 = set_dims di (cv_Cout c) (conv_T c (vs_T (q ! si))) q"
  have len: "length q1 = length q" by (simp add: q1_def set_dims_def)
  have "\<exists>ri. res_slot (cv_res c) q1 = Some (ri, q1) \<and> ri < length q"
  proof (cases "cv_res c = []")
    case True
    then show ?thesis using si(3) by (auto simp: res_slot_def)
  next
    case False
    then have "cv_res c \<in> set (cv_dst c # A)" using o VConv by auto
    with agree_reads [OF di(3)] False len show ?thesis by (auto simp: res_slot_def q1_def)
  qed
  then obtain ri where "res_slot (cv_res c) q1 = Some (ri, q1)" "ri < length q" by blast
  then show ?thesis using VConv o si di len
    by (auto simp: op_stage_def conv_stage_def Let_def q1_def bufs_ok_def)
next
  case (VShuf f)
  obtain si where si: "slot (su_src f) p = Some (si, p)" "slot (su_src f) q = Some (si, q)" "si < length q"
    "vs_T (p ! si) = vs_T (q ! si)"
    using agree_reads [OF a, of "su_src f"] o VShuf by auto
  have "plan_dst (su_dst f) (su_Cout f) (shuf_T f (vs_T (q ! si))) p = Some p1"
    using pl VShuf si by (simp add: plan_op_def)
  from agree_writes [OF a this le] show ?thesis using VShuf si
    by (auto simp: op_stage_def shuf_stage_def Let_def bufs_ok_def)
next
  case (VMrf m)
  obtain ai where ai: "slot (mf_a m) p = Some (ai, p)" "slot (mf_a m) q = Some (ai, q)" "ai < length q"
    "vs_C (p ! ai) = vs_C (q ! ai)" "vs_T (p ! ai) = vs_T (q ! ai)"
    using agree_reads [OF a, of "mf_a m"] o VMrf by auto
  obtain bi ci where bi: "slot (mf_b m) q = Some (bi, q)" "bi < length q" "slot (mf_c m) q = Some (ci, q)" "ci < length q"
    using agree_reads [OF a, of "mf_b m"] agree_reads [OF a, of "mf_c m"] o VMrf by auto
  have "plan_dst (mf_dst m) (vs_C (q ! ai)) (vs_T (q ! ai)) p = Some p1"
    using pl VMrf ai by (simp add: plan_op_def)
  from agree_writes [OF a this le] show ?thesis using VMrf ai bi
    by (auto simp: op_stage_def mrf_stage_def Let_def bufs_ok_def)
next
  case VNone
  then show ?thesis using a pl by (simp add: op_stage_def plan_op_def same_slots_def)
qed

lemma plan_op_le: "plan_op x p = Some p1 \<Longrightarrow> tab_le p p1"
  by (cases x)
    (auto simp: plan_op_def split: option.splits
      intro: tab_le_trans [OF slot_some(2) plan_dst_le])

lemma plan_le: "plan xs p = Some p1 \<Longrightarrow> tab_le p p1"
proof (induction xs arbitrary: p)
  case (Cons x xs)
  then obtain p' where "plan_op x p = Some p'" "plan xs p' = Some p1" by (auto split: option.splits)
  then show ?case using Cons.IH plan_op_le tab_le_trans by blast
qed simp

lemma plan_append: "plan (xs @ ys) p = (case plan xs p of None \<Rightarrow> None | Some p1 \<Rightarrow> plan ys p1)"
  by (induction xs arbitrary: p) (auto split: option.splits)

lemma plan_dst_fits: "plan_dst n C T p = Some p1 \<Longrightarrow> fits p \<Longrightarrow> fits p1"
proof -
  assume "plan_dst n C T p = Some p1" "fits p"
  then obtain i p' where s: "slot n p = Some (i, p')" "p1 = set_dims i C T (grow i (C * T) p')"
    by (auto simp: plan_dst_def split: option.splits)
  have "fits p'" using slot_some(4) [OF s(1)] \<open>fits p\<close> .
  moreover have "i < length p'" using slot_some(1) [OF s(1)] by (simp add: slot_at_def)
  ultimately show "fits p1"
    by (auto simp: s(2) fits_def set_dims_def grow_def list_all_length nth_list_update)
qed

lemma plan_op_fits: "plan_op x p = Some p1 \<Longrightarrow> fits p \<Longrightarrow> fits p1"
  by (cases x) (auto simp: plan_op_def split: option.splits dest: plan_dst_fits slot_some(4))

lemma plan_fits: "plan xs p = Some p1 \<Longrightarrow> fits p \<Longrightarrow> fits p1"
  by (induction xs arbitrary: p) (auto split: option.splits dest: plan_op_fits)

lemma agree_ops:
  "passes_agree A p q \<Longrightarrow> ordered A (xs @ ys) \<Longrightarrow> plan xs p = Some p1 \<Longrightarrow> tab_le p1 q \<Longrightarrow>
   \<exists>ds q1. prog_stages V xs q = Some (ds, q1) \<and> same_slots q1 q \<and> fits q1 \<and> list_all (bufs_ok (length q)) ds"
proof (induction xs arbitrary: A p q)
  case Nil
  then show ?case by (simp add: passes_agree_def same_slots_def)
next
  case (Cons x xs)
  obtain p' where p': "plan_op x p = Some p'" "plan xs p' = Some p1" using Cons.prems(3) by (auto split: option.splits)
  have le: "tab_le p' q" using plan_le [OF p'(2)] Cons.prems(4) tab_le_trans by blast
  obtain d q1 where q1: "op_stage V x q = SGo d q1" "same_slots q1 q" "passes_agree (op_dst x @ A) p' q1"
    "\<forall>e. d = Some e \<longrightarrow> bufs_ok (length q) e"
    using agree_op [OF Cons.prems(1) _ p'(1) le, of "xs @ ys" V] Cons.prems(2) by auto
  have o: "ordered (op_dst x @ A) (xs @ ys)" using ordered_Cons Cons.prems(2) by simp
  have le1: "tab_le p1 q1" using same_slots_le [OF _ Cons.prems(4), of q1] q1(2) by (simp add: same_slots_def)
  obtain ds q2 where q2: "prog_stages V xs q1 = Some (ds, q2)" "same_slots q2 q1" "fits q2"
    "list_all (bufs_ok (length q1)) ds"
    using Cons.IH [OF q1(3) o p'(2) le1] by blast
  have "length q1 = length q" using q1(2) by (metis same_slots_def length_map)
  then show ?case using q1 q2 by (cases d) (auto simp: same_slots_def)
qed

text \<open>
  The second pass of a program whose operations read only \<open>z\<close> and what earlier operations have written
  finds the slots of the first: at every point the names and sizes are the same, every stage uses slots
  of the table, and channels times length of each slot, as the second pass computes them, are within
  the size the first pass has computed for it. This compares the bookkeeping of the two passes. It does
  not bound what the shaders read of a residual or of the second and third input of a sum, and it says
  nothing of a size that is cut to 32 bits when it is allocated.
\<close>

theorem voc_buffers_fit:
  assumes "ordered [''z''] (xs @ ys)"
    and "plan (xs @ ys) [\<lparr>vs_nm = ''z'', vs_C = 192, vs_T = T, vs_sz = 192 * T\<rparr>] = Some ss"
  shows "\<exists>ds q. prog_stages V xs (set_dims 0 192 T ss) = Some (ds, q) \<and>
    map vs_nm q = map vs_nm ss \<and> map vs_sz q = map vs_sz ss \<and>
    list_all (\<lambda>x. vs_C x * vs_T x \<le> vs_sz x) q \<and> list_all (bufs_ok (length ss)) ds"
proof -
  define z q0 where "z = [\<lparr>vs_nm = ''z'', vs_C = 192, vs_T = T, vs_sz = 192 * T\<rparr>]" and "q0 = set_dims 0 192 T ss"
  obtain p1 where p1: "plan xs z = Some p1" "plan ys p1 = Some ss"
    using assms(2) by (auto simp: plan_append z_def split: option.splits)
  have same: "same_slots q0 ss" "same_slots ss q0" by (simp_all add: q0_def)
  have zs: "tab_le z ss" using plan_le [OF assms(2)] by (simp add: z_def)
  then have 0: "0 < length ss" "192 * T \<le> vs_sz (ss ! 0)" by (auto simp: tab_le_def z_def)
  have "fits z" by (simp add: fits_def z_def)
  then have "fits ss" using plan_fits [OF assms(2)] by (simp add: z_def)
  then have "fits q0" using 0 by (auto simp: fits_def q0_def set_dims_def list_all_length nth_list_update)
  moreover have "slot_at ''z'' 0 z" by (simp add: slot_at_def z_def)
  moreover have "vs_C (z ! 0) = vs_C (q0 ! 0)" "vs_T (z ! 0) = vs_T (q0 ! 0)" using 0(1) by (auto simp: q0_def set_dims_def z_def)
  ultimately have "passes_agree [''z''] z q0" using same_slots_le [OF same(2) zs] by (auto simp: passes_agree_def)
  moreover have "tab_le p1 q0" using same_slots_le [OF same(2)] plan_le [OF p1(2)] by blast
  ultimately obtain ds q where q: "prog_stages V xs q0 = Some (ds, q)" "same_slots q q0" "fits q"
    "list_all (bufs_ok (length q0)) ds"
    using agree_ops assms(1) p1(1) by blast
  moreover have "length q0 = length ss" by (simp add: q0_def set_dims_def)
  ultimately show ?thesis using same(1) unfolding q0_def [symmetric] fits_def same_slots_def by auto
qed

section \<open>A dead session\<close>

definition voc_dead :: "voc \<Rightarrow> bool" where
  "voc_dead s \<longleftrightarrow> ss_sock (vd_se s) = None \<and> list_all (\<lambda>x. \<not> batch_ran x) (vd_log s)"

lemma batch_dead: "ss_sock se = None \<Longrightarrow> barra_gpu_batch xs (zs, se) = (False, zs, se)"
  by (simp add: barra_gpu_batch_def)

lemma flush_dead: "voc_dead s \<Longrightarrow> voc_dead (flush_batch V s)"
  by (auto simp: voc_dead_def flush_batch_def batch_dead batch_ran_def)

lemma put_dead: "voc_dead s \<Longrightarrow> voc_dead (put_stage V d s)"
proof -
  assume "voc_dead s"
  then have "voc_dead (ensure_room V 1 s)" using flush_dead by (simp add: ensure_room_def)
  then show ?thesis
    by (simp add: put_stage_def addstage_def Let_def v_begin_def v_end_def voc_dead_def)
qed

lemma run_ops_dead: "voc_dead s \<Longrightarrow> run_ops V xs s = VGo s' \<Longrightarrow> voc_dead s'"
proof (induction xs arbitrary: s)
  case (Cons x xs)
  then obtain s1 where s1: "run_op V x s = VGo s1" "run_ops V xs s1 = VGo s'" by (auto split: vres.splits)
  have "voc_dead (s\<lparr>vd_slots := ss\<rparr>)" for ss using Cons.prems(1) by (simp add: voc_dead_def)
  then have "voc_dead s1" using s1(1) put_dead by (auto simp: run_op_def split: sres.splits option.splits)
  then show ?case using Cons.IH s1(2) by blast
qed simp

lemma slot_allocs_ok:
  assumes "\<forall>n. vl_heap V n \<noteq> None" "\<forall>n. vl_mmap V n"
  shows "\<exists>zs tick. slot_allocs V ks s = (True, s\<lparr>vd_zs := zs, vd_tick := tick\<rparr>)"
proof (induction ks arbitrary: s)
  case Nil
  then show ?case by (intro exI [of _ "vd_zs s"] exI [of _ "vd_tick s"]) simp
next
  case (Cons i ks)
  obtain f where f: "vl_heap V (vd_tick s) = Some f" using assms(1) by auto
  define zs where "zs = snd (barra_zc_alloc (Some f) True i (u32of (vs_sz (vd_slots s ! i) * 2)) (vd_zs s))"
  have "slot_allocs V (i # ks) s = slot_allocs V ks (s\<lparr>vd_zs := zs, vd_tick := Suc (vd_tick s)\<rparr>)"
    using f assms(2) by (simp add: zs_def barra_zc_alloc_def)
  then show ?case using Cons.IH [of "s\<lparr>vd_zs := zs, vd_tick := Suc (vd_tick s)\<rparr>"] by auto
qed

lemma release_all_log: "vd_log (release_all n s) = vd_log s"
  by (simp add: release_all_def split: prod.splits)

text \<open>
  C30. A request is answered with a full result even when the session to the GPU is dead and every
  batch has failed: \<open>process\<close> ignores what \<open>flush_batch\<close> returns and sends whatever is in the buffer.
\<close>

theorem voc_answers_when_dead:
  assumes "ss_sock (vd_se s) = None" "vd_log s = []"
    and "\<forall>n. vl_heap V n \<noteq> None" "\<forall>n. vl_mmap V n" "\<forall>n. vl_malloc V n"
    and "plan prog [\<lparr>vs_nm = ''z'', vs_C = 192, vs_T = T, vs_sz = 192 * T\<rparr>] = Some ss"
    and "prog_stages V prog (set_dims 0 192 T ss) = Some (ds, q)" "ds \<noteq> []"
    and "slot_at ''wav'' w q" "0 \<le> vs_T (q ! w)"
  shows "\<exists>wav s'. process V prog zf T s = Some (Some wav, s') \<and> length wav = nat (vs_T (q ! w)) \<and>
    vd_log s' \<noteq> [] \<and> ran_stages s' = []"
proof -
  define s0 where "s0 = s\<lparr>vd_slots := ss, vd_pend := [], vd_pcur := 0\<rparr>"
  obtain zs tick where al: "slot_allocs V [0..<length ss] s0 = (True, s0\<lparr>vd_zs := zs, vd_tick := tick\<rparr>)"
    using slot_allocs_ok [OF assms(3,4)] by blast
  define s2 where "s2 = v_begin 0 (s0\<lparr>vd_zs := zs, vd_tick := tick\<rparr>)"
  define s3 where "s3 = v_end 0 (s2\<lparr>vd_mem := mwr 0 0 (halfs zf) (vd_mem s2)\<rparr>)"
  define s4 where "s4 = s3\<lparr>vd_slots := set_dims 0 192 T (vd_slots s3)\<rparr>"
  have s4: "vd_slots s4 = set_dims 0 192 T ss" "vd_log s4 = []" "vd_pend s4 = []" "vd_pcur s4 = 0"
    "ss_sock (vd_se s4) = None"
    using assms(1,2) by (simp_all add: s4_def s3_def s2_def s0_def v_begin_def v_end_def)
  have "batch_inv s4 []" using s4 by (simp add: batch_inv_def given_def)
  from run_ops_inv [OF this, of V prog ds q] obtain s5 where s5: "run_ops V prog s4 = VGo s5" "batch_inv s5 ds" "vd_slots s5 = q"
    using assms(7) s4(1) by auto
  define s6 where "s6 = flush_batch V s5"
  have "voc_dead s4" using s4 by (simp add: voc_dead_def)
  then have dead: "voc_dead s6" using run_ops_dead [OF _ s5(1)] flush_dead by (simp add: s6_def)
  have s6: "vd_slots s6 = q" "vd_pend s6 = []" "batch_inv s6 ds" using flush_inv [OF s5(2), of V] s5(3) by (simp_all add: s6_def)
  then have log: "vd_log s6 \<noteq> []" using assms(8) by (auto simp: batch_inv_def given_def)
  have "slot ''wav'' q = Some (w, q)" using slot_at_slot [OF assms(9)] .
  then have "finish V s6 = Some (Some (floats_of (nat (vs_T (q ! w))) (vd_mem (v_begin w (s6\<lparr>vd_slots := q\<rparr>)) w)),
      release_all (length q) (v_begin w (s6\<lparr>vd_slots := q\<rparr>)))"
    using assms(5,10) s6(1) by (simp add: finish_def Let_def)
  moreover have "process V prog zf T s = finish V s6"
    unfolding process_def Let_def assms(6) option.case s0_def [symmetric] al prod.case bool.case
      s2_def [symmetric] s3_def [symmetric] s4_def [symmetric] s5(1) vres.case s6_def [symmetric] by (rule refl)
  moreover have "length (floats_of n m) = n" for n m by (simp add: floats_of_def)
  moreover have "ran_stages (release_all k (v_begin w (s6\<lparr>vd_slots := q\<rparr>))) = []" for k
    using dead by (auto simp: voc_dead_def list_all_iff ran_stages_def release_all_log v_begin_def)
  ultimately show ?thesis using log by (simp add: release_all_log v_begin_def)
qed

section \<open>An example\<close>

definition vlib0 :: vlib where
  "vlib0 = \<lparr>vl_conv = [1, 0, 0, 0], vl_convs = [2, 0, 0, 0], vl_shuf = [3, 0, 0, 0], vl_mrf = [4, 0, 0, 0],
     vl_gpu = (\<lambda>_ _ m. m), vl_heap = Some, vl_mmap = (\<lambda>_. True), vl_malloc = (\<lambda>_. True)\<rparr>"

definition voc0 :: "vslot list \<Rightarrow> voc" where
  "voc0 ss = \<lparr>vd_slots = ss, vd_pend = [], vd_pcur = 0, vd_fl = 0, vd_zs = (\<lambda>_. cb_inert),
     vd_se = \<lparr>ss_sock = None, ss_n = 0, ss_auto = False\<rparr>, vd_mem = (\<lambda>_ _. 0), vd_tick = 0, vd_log = []\<rparr>"

text \<open>A convolution of \<open>z\<close> and the sum of its result with itself.\<close>

definition conv0 :: conv where
  "conv0 = \<lparr>cv_src = ''z'', cv_dst = ''a'', cv_res = [], cv_Cin = 192, cv_K = 1, cv_dil = 1, cv_pad = 0,
     cv_leaky = 0, cv_Cout = 1, cv_Mp = 32, cv_Kg = 192, cv_woff = 0, cv_boff = 0, cv_tanh = 0, cv_outpad = 0,
     cv_tm = 32\<rparr>"

definition mrf0 :: mrf where
  "mrf0 = \<lparr>mf_a = ''a'', mf_b = ''a'', mf_c = ''a'', mf_dst = ''wav''\<rparr>"

definition slots0 :: "vslot list" where
  "slots0 = [\<lparr>vs_nm = ''z'', vs_C = 192, vs_T = 2, vs_sz = 384\<rparr>, \<lparr>vs_nm = ''a'', vs_C = 1, vs_T = 2, vs_sz = 2\<rparr>,
     \<lparr>vs_nm = ''wav'', vs_C = 1, vs_T = 2, vs_sz = 2\<rparr>]"

definition conv0_stage :: sdesc where
  "conv0_stage = \<lparr>sd_spv = [2, 0, 0, 0], sd_gx = 1, sd_gy = 1, sd_bufs = [78, 0, 79, 0, 1],
     sd_words = [32, 128, 192, 192, 1, 1, 0, 2, 0, 0, 2, 1, 0, 0]\<rparr>"

definition mrf0_stage :: sdesc where
  "mrf0_stage = \<lparr>sd_spv = [4, 0, 0, 0], sd_gx = 1, sd_gy = 1, sd_bufs = [1, 1, 1, 2], sd_words = [2]\<rparr>"

lemma plan0: "plan [VConv conv0, VMrf mrf0] [\<lparr>vs_nm = ''z'', vs_C = 192, vs_T = 2, vs_sz = 192 * 2\<rparr>] = Some slots0"
  by code_simp

lemma dims0: "set_dims 0 192 2 slots0 = slots0"
  by (simp add: set_dims_def slots0_def)

lemma op_conv0: "op_stage vlib0 (VConv conv0) slots0 = SGo (Some conv0_stage) slots0"
  by (simp add: op_stage_def conv_stage_def conv0_def slot_def run_dst_def set_dims_def slots0_def res_slot_def
      conv0_stage_def conv_words_def conv_T_def i32_of_def up128_def Let_def u32of_def vlib0_def ZW_def ZB_def)

lemma op_mrf0: "op_stage vlib0 (VMrf mrf0) slots0 = SGo (Some mrf0_stage) slots0"
  by (simp add: op_stage_def mrf_stage_def mrf0_def slot_def run_dst_def set_dims_def slots0_def
      mrf0_stage_def n_groups_def u32of_def vlib0_def)

lemma stages0: "prog_stages vlib0 [VConv conv0, VMrf mrf0] slots0 = Some ([conv0_stage, mrf0_stage], slots0)"
  by (simp only: prog_stages.simps op_conv0 op_mrf0 sres.case) simp

text \<open>With a session that answers, one batch of two stages goes out and is run.\<close>

definition voc1 :: voc where
  "voc1 = (voc0 slots0)\<lparr>
     vd_zs := (\<lambda>p. \<lparr>cb_fd = Some p, cb_map = True, cb_size = 64, cb_gpu = 7, cb_tpu = -1, cb_dsp = -1, cb_cpu = 0\<rparr>),
     vd_se := \<lparr>ss_sock = Some \<lparr>k_in = [0, 0, 0, 0], k_out = [], k_room = 4096\<rparr>, ss_n = 0, ss_auto = False\<rparr>\<rparr>"

definition voc1_end :: voc where
  "voc1_end = put_stage vlib0 mrf0_stage (put_stage vlib0 conv0_stage voc1)"

lemma voc1_run: "run_ops vlib0 [VConv conv0, VMrf mrf0] voc1 = VGo voc1_end"
proof -
  have u: "v\<lparr>vd_slots := slots0\<rparr> = v" if "vd_slots v = slots0" for v :: voc using that by (cases v) simp
  have s: "vd_slots voc1 = slots0" by (simp add: voc1_def voc0_def)
  have p: "vd_slots (put_stage vlib0 conv0_stage voc1) = slots0"
    by (simp add: put_stage_def ensure_room_def addstage_def v_begin_def v_end_def Let_def voc1_def voc0_def MAXPEND_def POOL_def)
  show ?thesis by (simp add: run_op_def op_conv0 op_mrf0 voc1_end_def s p u [OF s] u [OF p])
qed

lemma wn_all_room:
  "sum_list (map length bss) \<le> k_room k \<Longrightarrow> \<exists>k'. wn_all bss k = (Some (), k') \<and> k_in k' = k_in k"
proof (induction bss arbitrary: k)
  case (Cons bs bss)
  define k1 where "k1 = snd (c_wn bs k)"
  have "c_wn bs k = (Some (), k1)" "k_in k1 = k_in k" "sum_list (map length bss) \<le> k_room k1"
    using Cons.prems by (auto simp: c_wn_def k1_def)
  then show ?case using Cons.IH [of k1] by (simp add: and_then_def)
qed simp

lemma batch_imports_none:
  assumes "\<forall>p. 0 \<le> cb_gpu (zs p)"
  shows "list_all (\<lambda>x. \<not> bstage_bad x) xs \<Longrightarrow> batch_imports xs (zs, se) = (True, zs, se)"
proof (induction xs)
  case (Cons x xs)
  have "\<not> cb_gpu (zs p) < 0" for p using assms by (simp add: not_less)
  then have "need_of CGpu zs need ps = need" for need ps by (induction ps) (simp_all add: zh_def)
  then show ?case using Cons by simp
qed simp

text \<open>All buffers are known to the daemon, the socket has room, and the answer is status 0.\<close>

lemma batch_live:
  assumes "ss_sock se = Some k" "xs \<noteq> []" "length xs \<le> ZC_STAGES" "list_all (\<lambda>x. \<not> bstage_bad x) xs" "\<forall>p. 0 \<le> cb_gpu (zs p)"
    and "24 + sum_list (map length (concat (map (stage_msgs (ends (concat (map bg_bufs xs)) zs)) xs))) \<le> k_room k"
    and "4 \<le> length (k_in k)" "le_nat (take 4 (k_in k)) = 0"
  shows "fst (barra_gpu_batch xs (zs, se))"
proof -
  define ms where "ms = concat (map (stage_msgs (ends (concat (map bg_bufs xs)) zs)) xs)"
  define k1 where "k1 = snd (send_hdr_fds [GPZ2_MAGIC, 2, length xs, 0, 0, 0] [] k)"
  have k1: "send_hdr_fds [GPZ2_MAGIC, 2, length xs, 0, 0, 0] [] k = (Some (), k1)" "k_in k1 = k_in k"
    "sum_list (map length ms) \<le> k_room k1"
    using assms(6) by (simp_all add: send_hdr_fds_def k1_def ms_def)
  obtain k2 where k2: "wn_all ms k1 = (Some (), k2)" "k_in k2 = k_in k" using wn_all_room [OF k1(3)] k1(2) by auto
  obtain k3 where "c_req [GPZ2_MAGIC, 2, length xs, 0, 0, 0] [] ms 4 k = (Some (take 4 (k_in k)), k3)"
    using k1(1) k2 assms(7) by (simp add: c_req_def and_then_def c_rn_def)
  then show ?thesis
    using assms(1-3,8) batch_imports_none [OF assms(5,4), of se]
    by (simp add: barra_gpu_batch_def ms_def Let_def)
qed

lemma voc1_pend: "length (vd_pend voc1_end) = 2" "batch_ran (vd_pend voc1_end, m, vd_zs voc1_end, vd_se voc1_end)"
proof -
  define p where "p = [\<lparr>bg_spv = Some [2, 0, 0, 0], bg_gx = 1, bg_gy = 1, bg_gz = 1, bg_bufs = [48, 78, 0, 79, 0, 1]\<rparr>,
    \<lparr>bg_spv = Some [4, 0, 0, 0], bg_gx = 1, bg_gy = 1, bg_gz = 1, bg_bufs = [49, 1, 1, 1, 2]\<rparr>]"
  have e: "vd_pend voc1_end = p" "vd_se voc1_end = vd_se voc1"
    by (simp_all add: voc1_end_def put_stage_def ensure_room_def addstage_def v_begin_def v_end_def Let_def voc1_def voc0_def
        MAXPEND_def POOL_def PP_def p_def conv0_stage_def mrf0_stage_def)
  have g: "cb_gpu (cpu_begin p zs q) = cb_gpu (zs q)" "cb_gpu (cpu_end p zs q) = cb_gpu (zs q)" for p q zs
    by (simp_all add: cpu_begin_def cpu_end_def)
  have z: "\<forall>p. 0 \<le> cb_gpu (vd_zs voc1_end p)"
    by (simp add: voc1_end_def put_stage_def ensure_room_def addstage_def v_begin_def v_end_def Let_def g voc1_def voc0_def
        MAXPEND_def POOL_def)
  show "length (vd_pend voc1_end) = 2" by (simp add: e p_def)
  have "fst (barra_gpu_batch p (vd_zs voc1_end, vd_se voc1))"
    by (rule batch_live [where k = "\<lparr>k_in = [0, 0, 0, 0], k_out = [], k_room = 4096\<rparr>", OF _ _ _ _ z]) (simp_all add: voc1_def p_def ZC_STAGES_def bstage_bad_def ZC_MAX_def stage_msgs_def)
  then show "batch_ran (vd_pend voc1_end, m, vd_zs voc1_end, vd_se voc1_end)" by (simp add: batch_ran_def e)
qed

theorem voc_program_sent_witness:
  "\<exists>s'. run_ops vlib0 [VConv conv0, VMrf mrf0] voc1 = VGo s' \<and>
    (let s2 = flush_batch vlib0 s' in
     vd_pend s2 = [] \<and> length (vd_log s2) = 1 \<and> list_all2 shown (ran_stages s2) [conv0_stage, mrf0_stage])"
proof -
  have "prog_stages vlib0 [VConv conv0, VMrf mrf0] (vd_slots voc1) = Some ([conv0_stage, mrf0_stage], slots0)"
    using stages0 by (simp add: voc1_def voc0_def del: prog_stages.simps)
  then obtain s' where s': "run_ops vlib0 [VConv conv0, VMrf mrf0] voc1 = VGo s'"
    "vd_pend (flush_batch vlib0 s') = []"
    "list_all batch_ran (vd_log (flush_batch vlib0 s')) \<longrightarrow> list_all2 shown (ran_stages (flush_batch vlib0 s')) [conv0_stage, mrf0_stage]"
    using voc_program_sent [of voc1 vlib0 "[VConv conv0, VMrf mrf0]"] by (auto simp: voc1_def voc0_def Let_def)
  have e: "s' = voc1_end" using s'(1) voc1_run by simp
  have "vd_log voc1_end = []"
    by (simp add: voc1_end_def put_stage_def ensure_room_def addstage_def v_begin_def v_end_def Let_def voc1_def voc0_def
      MAXPEND_def POOL_def)
  then have "vd_log (flush_batch vlib0 s') = [(vd_pend voc1_end, vd_mem voc1_end, vd_zs voc1_end, vd_se voc1_end)]"
    using voc1_pend(1) by (auto simp: e flush_batch_def split: prod.splits)
  then show ?thesis using s' voc1_pend(2) by (simp add: Let_def)
qed

theorem voc_buffers_fit_witness:
  "\<exists>ds q. prog_stages vlib0 [VConv conv0] (set_dims 0 192 2 slots0) = Some (ds, q) \<and>
    map vs_nm q = map vs_nm slots0 \<and> map vs_sz q = map vs_sz slots0 \<and>
    list_all (\<lambda>x. vs_C x * vs_T x \<le> vs_sz x) q \<and> list_all (bufs_ok (length slots0)) ds"
  by (rule voc_buffers_fit [of _ "[VMrf mrf0]"], simp add: conv0_def mrf0_def, simp only: append.simps plan0)

theorem voc_answers_when_dead_witness:
  "\<exists>wav s'. process vlib0 [VConv conv0, VMrf mrf0] (replicate 384 0) 2 (voc0 []) = Some (Some wav, s') \<and>
    length wav = 2 \<and> vd_log s' \<noteq> [] \<and> ran_stages s' = []"
proof -
  have "slot_at ''wav'' 2 slots0" by (auto simp: slot_at_def slots0_def less_Suc_eq numeral_2_eq_2)
  then show ?thesis
    using voc_answers_when_dead [of "voc0 []" vlib0, OF _ _ _ _ _ plan0, unfolded dims0, OF _ _ _ _ _ stages0, of 2 "replicate 384 0"]
    by (simp add: voc0_def vlib0_def slots0_def)
qed

end
