(* ===== verification/Wsp_Base.thy ===== *)
theory Wsp_Base
  imports Ffn_Tpu
begin

text \<open>
  The encoder of the speech recognition on the TPU, src/src/whisper-mali/tpu/whisper-barra.cpp: its
  parameters, state, thread pool, quantization and layer norm.
\<close>

section \<open>Parameters\<close>

text \<open>
  Doubles are their bits too. \<open>wl_tpu\<close>: what a package of the main or of the core daemon computes.
  \<open>barra_tpu_infer2\<close>, \<open>barra_tpu_submit2\<close> and \<open>barra_tpu_wait2\<close> are not in the client library of the
  repository (which has no \<open>nosync\<close> either): they are parameters, and \<open>wl_late\<close> says whether the daemon
  reads the inputs of a pair in flight early or late. \<open>wl_f16\<close>: the conversion of the processor.
\<close>

type_synonym f64 = nat

record wlib = flib +
  wd_add :: "f64 \<Rightarrow> f64 \<Rightarrow> f64"
  wd_sub :: "f64 \<Rightarrow> f64 \<Rightarrow> f64"
  wd_mul :: "f64 \<Rightarrow> f64 \<Rightarrow> f64"
  wd_div :: "f64 \<Rightarrow> f64 \<Rightarrow> f64"
  wd_sqrt :: "f64 \<Rightarrow> f64"
  wd_of :: "f32 \<Rightarrow> f64"
  wd_float :: "f64 \<Rightarrow> f32"
  wd_int :: "int \<Rightarrow> f64"
  wd_trunc :: "f64 \<Rightarrow> int"
  wd_atof :: "string \<Rightarrow> f64"
  wl_tpu :: "bool \<Rightarrow> nat \<Rightarrow> (nat \<Rightarrow> int) \<Rightarrow> nat \<Rightarrow> int"
  wl_infer2 :: "nat \<Rightarrow> nat list \<Rightarrow> cst \<Rightarrow> bool \<times> cst"
  wl_submit2 :: "nat \<Rightarrow> nat list \<Rightarrow> cst \<Rightarrow> bool \<times> cst"
  wl_wait2 :: "nat list \<Rightarrow> cst \<Rightarrow> bool \<times> cst"
  wl_late :: "nat \<Rightarrow> bool"
  wl_f16 :: "f32 \<Rightarrow> nat"
  wl_arm :: bool

definition d_zero :: f64 where "d_zero = 0"
definition d_one :: f64 where "d_one = 0x3FF0000000000000"
definition d_eps :: f64 where "d_eps = 0x3EE4F8B588E368F1"
definition f_eps :: f32 where "f_eps = 0x358637BD"

definition WSP_S :: nat where "WSP_S = 1500"
definition WSP_HD :: nat where "WSP_HD = 64"
definition WSP_BQ :: nat where "WSP_BQ = 375"
definition WSP_NB :: nat where "WSP_NB = WSP_S div WSP_BQ"
definition WSP_MAXL :: int where "WSP_MAXL = 40"
definition WSP_MAXTH :: int where "WSP_MAXTH = 8"

section \<open>State\<close>

text \<open>The scales of a layer, of the keys and values of a decoder layer, and of the two convolutions.\<close>

record wlay =
  la_pin :: f64
  la_pout :: f64
  la_wisc :: f64
  la_wizp :: int
  la_wosc :: f64
  la_wozp :: int
  la_fisc :: f64
  la_fizp :: int
  la_fosc :: f64
  la_fozp :: int

record wcross =
  xr_isc :: f64
  xr_izp :: int
  xr_osc :: f64
  xr_ozp :: int

record wcv =
  cv_isc1 :: f64
  cv_izp1 :: int
  cv_osc1 :: f64
  cv_ozp1 :: int
  cv_isc2 :: f64
  cv_izp2 :: int
  cv_osc2 :: f64
  cv_ozp2 :: int

text \<open>
  The struct \<open>g\<close> and the pool \<open>pl\<close>, with the sessions, the shared buffers and their elements, and the pairs in
  flight: model, buffers, and the inputs at the time they were sent.
\<close>

record wst =
  w_ok :: bool
  w_NL :: int
  w_D :: int
  w_HTOT :: int
  w_HG :: int
  w_PROJW :: int
  w_NG :: int
  w_cin :: f64
  w_cout :: f64
  w_lay :: "wlay list"
  w_NX :: int
  w_x :: "wcross list"
  w_CONV :: int
  w_NMEL :: int
  w_cv :: wcv
  w_LNW :: "f32 list"
  w_pair :: bool
  w_ovl :: bool
  w_T :: sess
  w_TC :: sess
  w_nosync :: bool
  w_zs :: store
  w_mem :: "nat \<Rightarrow> nat \<Rightarrow> int"
  w_hb :: "nat \<Rightarrow> f32"
  w_ctx :: "nat \<Rightarrow> f32"
  w_pool :: bool
  w_nth :: nat
  w_cw :: cworld
  w_tick :: nat
  w_fly :: "(nat \<times> nat list \<times> (nat \<Rightarrow> int) \<times> (nat \<Rightarrow> int)) list"

definition bX :: nat where "bX = 0"
definition bY :: nat where "bY = 1"
definition bC :: nat where "bC = 2"
definition bO :: nat where "bO = 3"
definition bW :: nat where "bW = 4"
definition bA :: nat where "bA = 5"
definition bF :: nat where "bF = 6"
definition bG :: nat where "bG = 7"
definition bJ :: nat where "bJ = 8"
definition bC2 :: nat where "bC2 = 9"
definition bO2 :: nat where "bO2 = 10"
definition bC3 :: nat where "bC3 = 11"
definition bO3 :: nat where "bO3 = 12"
definition bC4 :: nat where "bC4 = 13"
definition bO4 :: nat where "bO4 = 14"

lemmas buf_ids = bX_def bY_def bC_def bO_def bW_def bA_def bF_def bG_def bJ_def bC2_def bO2_def bC3_def bO3_def
  bC4_def bO4_def

text \<open>The elements of the buffers: 16 bits each, but 8 bits in \<open>bW\<close> and \<open>bA\<close>.\<close>

definition wD :: "wst \<Rightarrow> nat" where "wD g = nat (w_D g)"
definition wHG :: "wst \<Rightarrow> nat" where "wHG g = nat (w_HG g)"
definition wSD :: "wst \<Rightarrow> nat" where "wSD g = WSP_S * wD g"

definition c_len :: "wst \<Rightarrow> nat" where
  "c_len g = wHG g * (WSP_BQ + 2 * WSP_S) * WSP_HD"

definition o_len :: "wst \<Rightarrow> nat" where
  "o_len g = wHG g * WSP_BQ * (WSP_HD + 1)"

definition buf_len :: "wst \<Rightarrow> nat \<Rightarrow> nat" where
  "buf_len g b =
     (if b = bY \<or> b = bJ then 3 * wSD g
      else if b \<in> {bC, bC2, bC3, bC4} then c_len g
      else if b \<in> {bO, bO2, bO3, bO4} then o_len g
      else wSD g)"

definition elem_size :: "nat \<Rightarrow> nat" where
  "elem_size b = (if b = bW \<or> b = bA then 1 else 2)"

definition first_n :: "nat \<Rightarrow> (nat \<Rightarrow> int) \<Rightarrow> nat \<Rightarrow> int" where
  "first_n n m = (\<lambda>j. if j < n then m j else 0)"

section \<open>The thread pool\<close>

text \<open>
  The part of \<open>[0, n)\<close> of the thread \<open>id\<close>, 0 being the caller; each thread runs its part in ascending
  order, here one thread after the other. How the workers learn of a call and the caller of its end
  (\<open>seq\<close>, \<open>done\<close>, the mutex and the condition variables of \<open>pl\<close>) is not modelled: that every part is run
  once before \<open>wsp_par_raw\<close> returns is assumed.
\<close>

definition wsp_chunk :: "nat \<Rightarrow> nat \<Rightarrow> nat \<Rightarrow> nat \<times> nat" where
  "wsp_chunk tc n i =
     (let P = tc + 1; c = (n + P - 1) div P; a = i * c; b = a + c in
      (if a > n then n else a, if b > n then n else b))"

definition wsp_worker :: "nat \<Rightarrow> nat \<Rightarrow> (nat \<Rightarrow> 's \<Rightarrow> 's) \<Rightarrow> nat \<Rightarrow> 's \<Rightarrow> 's" where
  "wsp_worker tc n body i s = (case wsp_chunk tc n i of (a, b) \<Rightarrow> fold body [a..<b] s)"

definition wsp_par :: "nat \<Rightarrow> nat \<Rightarrow> (nat \<Rightarrow> 's \<Rightarrow> 's) \<Rightarrow> 's \<Rightarrow> 's" where
  "wsp_par tc n body s =
     (if tc = 0 \<or> n < 256 then fold body [0..<n] s
      else fold (wsp_worker tc n body) [0..<Suc tc] s)"

definition wsp_threads :: "wlib \<Rightarrow> nat" where
  "wsp_threads W =
     (let t = (case fl_env W ''WSP_THREADS'' of None \<Rightarrow> 6 | Some e \<Rightarrow> atoi e);
          t1 = (if t < 1 then 1 else t);
          t2 = (if t1 > WSP_MAXTH + 1 then WSP_MAXTH + 1 else t1)
      in nat (t2 - 1))"

definition wsp_pool_init :: "wlib \<Rightarrow> wst \<Rightarrow> wst" where
  "wsp_pool_init W g = (if w_pool g then g else g\<lparr>w_pool := True, w_nth := wsp_threads W\<rparr>)"

section \<open>Numbers\<close>

text \<open>The conversion to a 32-bit \<open>int\<close>.\<close>

definition to_i32 :: "int \<Rightarrow> int" where
  "to_i32 v = (v + 2 ^ 31) mod 2 ^ 32 - 2 ^ 31"

text \<open>
  The conversion to 16 bits, saturating and not. \<open>quant16\<close> computes with a \<open>long\<close>, \<open>quant8\<close> with an \<open>int\<close>,
  which cuts the rounded value before it is saturated.
\<close>

definition to_short :: "int \<Rightarrow> int" where
  "to_short v = (v + 32768) mod 65536 - 32768"

definition qs16 :: "wlib \<Rightarrow> f32 \<Rightarrow> int" where
  "qs16 W v = z_clip (-32768) 32767 (fl_rint W v)"

definition quant16 :: "wlib \<Rightarrow> f32 \<Rightarrow> f32 \<Rightarrow> int \<Rightarrow> int" where
  "quant16 W x isc izp = z_clip (-32768) 32767 (fl_rint W (fl_div W x isc) + izp)"

definition quant8 :: "wlib \<Rightarrow> f32 \<Rightarrow> f32 \<Rightarrow> int \<Rightarrow> int" where
  "quant8 W x isc izp = z_clip (-128) 127 (to_i32 (to_i32 (fl_rint W (fl_div W x isc)) + izp))"

definition dequant :: "wlib \<Rightarrow> int \<Rightarrow> int \<Rightarrow> f32 \<Rightarrow> f32" where
  "dequant W v zp osc = fl_mul W (fl_int W (v - zp)) osc"

text \<open>\<open>wsp_tof16\<close>: the processor's conversion on the device, bit operations elsewhere.\<close>

definition host_f16 :: "f32 \<Rightarrow> nat" where
  "host_f16 v =
     (let s = (if v div 2 ^ 31 mod 2 = 1 then 0x8000 else 0);
          e = int (v div 2 ^ 23 mod 2 ^ 8) - 127 + 15;
          m = v mod 2 ^ 23
      in if e \<le> 0 then s
         else if e \<ge> 31 then s + 0x7c00
         else s + nat e * 2 ^ 10 + m div 2 ^ 13)"

definition wsp_tof16 :: "wlib \<Rightarrow> f32 \<Rightarrow> nat" where
  "wsp_tof16 W v = (if wl_arm W then wl_f16 W v else host_f16 v)"

section \<open>Rows\<close>

text \<open>Mean and inverse deviation of a row of \<open>n\<close> elements, in doubles; its layer norm.\<close>

definition d_sum :: "wlib \<Rightarrow> nat \<Rightarrow> (nat \<Rightarrow> f64) \<Rightarrow> f64" where
  "d_sum W n x = fold (\<lambda>d m. wd_add W m (x d)) [0..<n] d_zero"

definition ln_mean :: "wlib \<Rightarrow> nat \<Rightarrow> (nat \<Rightarrow> f32) \<Rightarrow> f64" where
  "ln_mean W n x = wd_div W (d_sum W n (\<lambda>d. wd_of W (x d))) (wd_int W (int n))"

definition ln_inv :: "wlib \<Rightarrow> nat \<Rightarrow> (nat \<Rightarrow> f32) \<Rightarrow> f32" where
  "ln_inv W n x =
     (let m = ln_mean W n x;
          e = (\<lambda>d. wd_sub W (wd_of W (x d)) m);
          v = wd_div W (d_sum W n (\<lambda>d. wd_mul W (e d) (e d))) (wd_int W (int n))
      in wd_float W (wd_div W d_one (wd_sqrt W (wd_add W v d_eps))))"

definition ln_elem :: "wlib \<Rightarrow> nat \<Rightarrow> (nat \<Rightarrow> f32) \<Rightarrow> f32 \<Rightarrow> f32 \<Rightarrow> nat \<Rightarrow> f32" where
  "ln_elem W n x gm b d =
     fl_add W
       (fl_mul W (wd_float W (wd_mul W (wd_sub W (wd_of W (x d)) (ln_mean W n x)) (wd_of W (ln_inv W n x)))) gm) b"

definition wsp_ln_row ::
  "wlib \<Rightarrow> nat \<Rightarrow> (nat \<Rightarrow> f32) \<Rightarrow> (nat \<Rightarrow> f32) \<Rightarrow> (nat \<Rightarrow> f32) \<Rightarrow> nat \<Rightarrow> (nat \<Rightarrow> f32) \<Rightarrow> nat \<Rightarrow> f32" where
  "wsp_ln_row W D x gm b off hb =
     fold (\<lambda>d m. m(off + d := ln_elem W D x (gm d) (b d) d)) [0..<D] hb"

text \<open>The two helpers of the patch: \<open>x0\<close> and \<open>enc\<close> are arrays of the caller.\<close>

definition wsp_barra_addpe ::
  "wlib \<Rightarrow> (nat \<Rightarrow> f32) \<Rightarrow> (nat \<Rightarrow> f32) \<Rightarrow> nat \<Rightarrow> nat \<Rightarrow> (nat \<Rightarrow> f32) \<Rightarrow> wst \<Rightarrow> (nat \<Rightarrow> f32) \<times> wst" where
  "wsp_barra_addpe W cv pe T NS x0 g =
     (let g1 = wsp_pool_init W g in
      (wsp_par (w_nth g1) T
         (\<lambda>t. fold (\<lambda>c x. x(t * NS + c := fl_add W (cv (c * T + t)) (pe (t * NS + c)))) [0..<NS]) x0, g1))"

definition lnpost_row :: "wlib \<Rightarrow> (nat \<Rightarrow> f32) \<Rightarrow> (nat \<Rightarrow> f32) \<Rightarrow> nat \<Rightarrow> nat \<Rightarrow> (nat \<Rightarrow> f32) \<Rightarrow> nat \<Rightarrow> f32" where
  "lnpost_row W w b NS t enc = wsp_ln_row W NS (\<lambda>c. enc (t * NS + c)) w b (t * NS) enc"

definition wsp_barra_lnpost ::
  "wlib \<Rightarrow> (nat \<Rightarrow> f32) \<Rightarrow> (nat \<Rightarrow> f32) \<Rightarrow> nat \<Rightarrow> nat \<Rightarrow> (nat \<Rightarrow> f32) \<Rightarrow> wst \<Rightarrow> (nat \<Rightarrow> f32) \<times> wst" where
  "wsp_barra_lnpost W w b T NS enc g =
     (let g1 = wsp_pool_init W g in (wsp_par (w_nth g1) T (lnpost_row W w b NS) enc, g1))"

text \<open>Element \<open>d\<close> of row \<open>s\<close> of head \<open>h\<close>, \<open>part\<close> being query, key or value.\<close>

definition wsp_yget :: "wst \<Rightarrow> (nat \<Rightarrow> int) \<Rightarrow> nat \<Rightarrow> nat \<Rightarrow> nat \<Rightarrow> nat \<Rightarrow> int" where
  "wsp_yget g Y part h s d =
     (if w_PROJW g \<noteq> 0 then Y (s * 3 * wD g + part * wD g + h * WSP_HD + d)
      else Y (((h * 3 + part) * WSP_S + s) * WSP_HD + d))"

section \<open>The daemons\<close>

definition w_infer :: "wlib \<Rightarrow> bool \<Rightarrow> nat \<Rightarrow> nat \<Rightarrow> nat \<Rightarrow> wst \<Rightarrow> bool \<times> wst" where
  "w_infer W core model i q g =
     (case barra_tpu_infer model i q (w_zs g, if core then w_TC g else w_T g) of (r, zs, se) \<Rightarrow>
       (let g1 = (if core then g\<lparr>w_zs := zs, w_TC := se\<rparr> else g\<lparr>w_zs := zs, w_T := se\<rparr>) in
        if r = None then (False, g1)
        else (True, g1\<lparr>w_mem := (w_mem g)(q := wl_tpu W core model (first_n (buf_len g i) (w_mem g i)))\<rparr>)))"

text \<open>The results of a pair, from the given inputs.\<close>

definition pair_done :: "wlib \<Rightarrow> nat \<Rightarrow> nat list \<Rightarrow> (nat \<Rightarrow> int) \<Rightarrow> (nat \<Rightarrow> int) \<Rightarrow> wst \<Rightarrow> wst" where
  "pair_done W model bs m1 m2 g =
     g\<lparr>w_mem := (w_mem g)
        (bs ! 1 := wl_tpu W True model (first_n (c_len g) m1),
         bs ! 3 := wl_tpu W True model (first_n (c_len g) m2))\<rparr>"

text \<open>
  The calls for pairs are not in the client library of the repository, so these three are not translations:
  whether a call succeeds is the parameter's answer, and the effect of a success is an assumption taken
  from the comments of whisper-barra.cpp: \<open>barra_tpu_infer2\<close> has run the package on both inputs,
  \<open>barra_tpu_submit2\<close> puts both in flight, \<open>barra_tpu_wait2\<close> delivers the results of the oldest pair in
  flight, from the inputs as they were at the submission or, where \<open>wl_late\<close> says so, as they are now.
\<close>

definition w_infer2 :: "wlib \<Rightarrow> nat \<Rightarrow> nat list \<Rightarrow> wst \<Rightarrow> bool \<times> wst" where
  "w_infer2 W model bs g =
     (case wl_infer2 W model bs (w_zs g, w_TC g) of (r, zs, se) \<Rightarrow>
       (let g1 = g\<lparr>w_zs := zs, w_TC := se\<rparr> in
        if r then (True, pair_done W model bs (w_mem g (bs ! 0)) (w_mem g (bs ! 2)) g1) else (False, g1)))"

definition w_submit2 :: "wlib \<Rightarrow> nat \<Rightarrow> nat list \<Rightarrow> wst \<Rightarrow> bool \<times> wst" where
  "w_submit2 W model bs g =
     (case wl_submit2 W model bs (w_zs g, w_TC g) of (r, zs, se) \<Rightarrow>
       (let g1 = g\<lparr>w_zs := zs, w_TC := se\<rparr> in
        if r then (True, g1\<lparr>w_fly := w_fly g @ [(model, bs, w_mem g (bs ! 0), w_mem g (bs ! 2))]\<rparr>) else (False, g1)))"

definition w_wait2 :: "wlib \<Rightarrow> nat list \<Rightarrow> wst \<Rightarrow> bool \<times> wst" where
  "w_wait2 W bs g =
     (case wl_wait2 W bs (w_zs g, w_TC g) of (r, zs, se) \<Rightarrow>
       (let g1 = g\<lparr>w_zs := zs, w_TC := se, w_tick := Suc (w_tick g), w_fly := tl (w_fly g)\<rparr> in
        case w_fly g of
          [] \<Rightarrow> (False, g1)
        | (model, bs1, m1, m2) # _ \<Rightarrow>
           (if \<not> r then (False, g1)
            else if wl_late W (w_tick g) then (True, pair_done W model bs1 (w_mem g (bs1 ! 0)) (w_mem g (bs1 ! 2)) g1)
            else (True, pair_done W model bs1 m1 m2 g1))))"

end
