(* ===== verification/Wsp_Init.thy ===== *)
theory Wsp_Init
  imports Wsp_Base
begin

text \<open>
  The start of src/src/whisper-mali/tpu/whisper-barra.cpp, \<open>wsp_init\<close>: parameter files, sessions to the
  two daemons, the optional packages, shared buffers. \<open>None\<close>: the process ends (\<open>exit\<close>, or a division by
  zero).
\<close>

section \<open>Parameter files\<close>

text \<open>\<open>strstr\<close>: the text from the first occurrence of the key on. A text ends at its first 0.\<close>

fun strstr :: "string \<Rightarrow> string \<Rightarrow> string option" where
  "strstr [] key = (if key = [] then Some [] else None)"
| "strstr (c # s) key = (if take (length key) (c # s) = key then Some (c # s) else strstr s key)"

definition wsp_gp :: "wlib \<Rightarrow> string \<Rightarrow> string \<Rightarrow> f64 \<Rightarrow> bool \<Rightarrow> f64 option" where
  "wsp_gp W txt key defv req =
     (case strstr txt key of
        None \<Rightarrow> if req then None else Some defv
      | Some p \<Rightarrow> Some (wd_atof W (drop (length key + 1) p)))"

function dec_str :: "nat \<Rightarrow> string" where
  "dec_str n = (if n < 10 then [char_of (48 + n)] else dec_str (n div 10) @ [char_of (48 + n mod 10)])"
  by pat_completeness auto
termination by (relation "measure id") auto

definition wsp_gpl :: "wlib \<Rightarrow> string \<Rightarrow> nat \<Rightarrow> string \<Rightarrow> f64 option" where
  "wsp_gpl W txt L suf = wsp_gp W txt (''L'' @ dec_str L @ ''_'' @ suf) d_zero True"

definition wsp_rdfile :: "wlib \<Rightarrow> string \<Rightarrow> byte list option" where
  "wsp_rdfile W fn = fl_file W fn"

definition c_text :: "byte list \<Rightarrow> string" where
  "c_text bs = text_of (takeWhile (\<lambda>b. b \<noteq> 0) bs)"

text \<open>The values of several required keys; the ten of a layer, the four of a decoder layer.\<close>

definition gps :: "wlib \<Rightarrow> string \<Rightarrow> string list \<Rightarrow> f64 list option" where
  "gps W txt keys = those (map (\<lambda>k. wsp_gp W txt k d_zero True) keys)"

definition read_lay :: "wlib \<Rightarrow> string \<Rightarrow> nat \<Rightarrow> wlay option" where
  "read_lay W txt L =
     map_option (\<lambda>v. \<lparr>la_pin = v ! 0, la_pout = v ! 1, la_wisc = v ! 2, la_wizp = wd_trunc W (v ! 3),
         la_wosc = v ! 4, la_wozp = wd_trunc W (v ! 5), la_fisc = v ! 6, la_fizp = wd_trunc W (v ! 7),
         la_fosc = v ! 8, la_fozp = wd_trunc W (v ! 9)\<rparr>)
       (those (map (wsp_gpl W txt L)
         [''pin'', ''pout'', ''wisc'', ''wizp'', ''wosc'', ''wozp'', ''fisc'', ''fizp'', ''fosc'', ''fozp'']))"

definition read_cross :: "wlib \<Rightarrow> string \<Rightarrow> nat \<Rightarrow> wcross option" where
  "read_cross W txt L =
     map_option (\<lambda>v. \<lparr>xr_isc = v ! 0, xr_izp = wd_trunc W (v ! 1), xr_osc = v ! 2, xr_ozp = wd_trunc W (v ! 3)\<rparr>)
       (gps W txt (map (\<lambda>s. ''X'' @ dec_str L @ ''_'' @ s) [''isc'', ''izp'', ''osc'', ''ozp'']))"

definition read_cv :: "wlib \<Rightarrow> string \<Rightarrow> wcv option" where
  "read_cv W txt =
     map_option (\<lambda>v. \<lparr>cv_isc1 = v ! 0, cv_izp1 = wd_trunc W (v ! 1), cv_osc1 = v ! 2, cv_ozp1 = wd_trunc W (v ! 3),
         cv_isc2 = v ! 4, cv_izp2 = wd_trunc W (v ! 5), cv_osc2 = v ! 6, cv_ozp2 = wd_trunc W (v ! 7)\<rparr>)
       (gps W txt [''C1_isc'', ''C1_izp'', ''C1_osc'', ''C1_ozp'', ''C2_isc'', ''C2_izp'', ''C2_osc'', ''C2_ozp''])"

section \<open>Steps of the start\<close>

text \<open>The dimensions; heads and groups have to divide.\<close>

definition init_dims :: "wlib \<Rightarrow> string \<Rightarrow> wst \<Rightarrow> (bool \<times> wst) option" where
  "init_dims W par g =
     (case gps W par [''core_in'', ''core_out'', ''nlayers''] of
        None \<Rightarrow> None
      | Some v \<Rightarrow>
     (let g1 = g\<lparr>w_cin := v ! 0, w_cout := v ! 1, w_NL := wd_trunc W (v ! 2)\<rparr> in
      if w_NL g1 < 1 \<or> w_NL g1 > WSP_MAXL then Some (False, g1)
      else
     (case wsp_gp W par ''dim'' (wd_int W 512) False of
        None \<Rightarrow> None
      | Some dD \<Rightarrow>
     (let D = wd_trunc W dD in
      case wsp_gp W par ''heads'' (wd_int W (if D div int WSP_HD > 8 then 20 else 8)) False of
        None \<Rightarrow> None
      | Some dH \<Rightarrow>
     (let HTOT = wd_trunc W dH in
      case (wsp_gp W par ''headgrp'' (wd_int W HTOT) False, wsp_gp W par ''projw'' d_zero False) of
        (Some dG, Some dP) \<Rightarrow>
         (let HG = wd_trunc W dG;
              g2 = g1\<lparr>w_D := D, w_HTOT := HTOT, w_HG := HG, w_PROJW := wd_trunc W dP\<rparr>
          in if HG = 0 then None
             else if HTOT mod HG \<noteq> 0 then Some (False, g2)
             else Some (True, g2\<lparr>w_NG := HTOT div HG\<rparr>))
      | _ \<Rightarrow> None)))))"

definition init_params :: "wlib \<Rightarrow> string \<Rightarrow> wst \<Rightarrow> (bool \<times> wst) option" where
  "init_params W dir g =
     (case wsp_rdfile W (dir @ ''/enc_params.txt'') of
        None \<Rightarrow> Some (False, g)
      | Some f \<Rightarrow>
     (case wsp_rdfile W (dir @ ''/enc_ln.f32'') of
        None \<Rightarrow> Some (False, g\<lparr>w_LNW := []\<rparr>)
      | Some lnb \<Rightarrow>
     (case init_dims W (c_text f) (g\<lparr>w_LNW := get32s (length lnb div 4) lnb\<rparr>) of
        None \<Rightarrow> None
      | Some (False, g1) \<Rightarrow> Some (False, g1)
      | Some (True, g1) \<Rightarrow>
          if int (length lnb) \<noteq> w_NL g1 * 4 * w_D g1 * 4 then Some (False, g1)
          else
         (case those (map (read_lay W (c_text f)) [0..<nat (w_NL g1)]) of
            None \<Rightarrow> None
          | Some ls \<Rightarrow> Some (True, g1\<lparr>w_lay := ls\<rparr>)))))"

definition env_off :: "wlib \<Rightarrow> string \<Rightarrow> bool" where
  "env_off W v = (case fl_env W v of None \<Rightarrow> False | Some e \<Rightarrow> atoi e = 0)"

text \<open>Both sessions; the result has the number of models of the main daemon.\<close>

definition init_daemons :: "wlib \<Rightarrow> wst \<Rightarrow> int option \<times> wst" where
  "init_daemons W g =
     (case (fl_env W ''WSP_SOCK_MAIN'', fl_env W ''WSP_SOCK_CORE'') of
        (Some dm, Some dc) \<Rightarrow>
         (case barra_tpu_open ((w_cw g)\<lparr>cw_env := Some (str dm)\<rparr>) of
            (False, se, w) \<Rightarrow> (None, g\<lparr>w_T := se, w_cw := w\<rparr>)
          | (True, se, w) \<Rightarrow>
         (case barra_tpu_open (w\<lparr>cw_env := Some (str dc)\<rparr>) of
            (False, se2, w2) \<Rightarrow> (None, g\<lparr>w_T := se, w_TC := se2, w_cw := w2\<rparr>)
          | (True, se2, w2) \<Rightarrow>
         (let sync = (case fl_env W ''WSP_SYNC'' of None \<Rightarrow> False | Some e \<Rightarrow> atoi e = 1);
              g1 = g\<lparr>w_nosync := (\<not> sync \<or> w_nosync g)\<rparr>
          in
          case barra_tpu_info 0 se of (_, nm, se1) \<Rightarrow>
          case barra_tpu_info 0 se2 of (_, nmc, se3) \<Rightarrow>
           (let g2 = g1\<lparr>w_T := se1, w_TC := se3, w_cw := w2\<rparr>;
                m = s32 (case nm of None \<Rightarrow> 0 | Some v \<Rightarrow> v);
                mc = (case nmc of None \<Rightarrow> 0 | Some v \<Rightarrow> v)
            in if m < 3 * w_NL g \<or> mc < 1 then (None, g2) else (Some m, g2)))))
      | _ \<Rightarrow> (None, g))"

definition init_cross :: "wlib \<Rightarrow> string \<Rightarrow> int \<Rightarrow> wst \<Rightarrow> wst option" where
  "init_cross W dir nm g =
     (case wsp_rdfile W (dir @ ''/cross_params.txt'') of
        None \<Rightarrow> Some (g\<lparr>w_NX := 0\<rparr>)
      | Some f \<Rightarrow>
     (case wsp_gp W (c_text f) ''ntext'' d_zero True of
        None \<Rightarrow> None
      | Some v \<Rightarrow>
     (let nx = wd_trunc W v in
      if nx > 0 \<and> nx \<le> WSP_MAXL \<and> nm \<ge> 3 * w_NL g + nx
      then map_option (\<lambda>xs. g\<lparr>w_x := xs, w_NX := nx\<rparr>) (those (map (read_cross W (c_text f)) [0..<nat nx]))
      else Some (g\<lparr>w_NX := 0\<rparr>))))"

definition init_conv :: "wlib \<Rightarrow> string \<Rightarrow> int \<Rightarrow> wst \<Rightarrow> wst option" where
  "init_conv W dir nm g =
     (case wsp_rdfile W (dir @ ''/conv_params.txt'') of
        None \<Rightarrow> Some (g\<lparr>w_CONV := 0\<rparr>)
      | Some f \<Rightarrow>
     (case wsp_gp W (c_text f) ''conv'' d_zero True of
        None \<Rightarrow> None
      | Some v \<Rightarrow>
          if wd_trunc W v = 2 \<and> nm \<ge> 3 * w_NL g + w_NX g + 2
          then
           (case (read_cv W (c_text f), wsp_gp W (c_text f) ''C_nmel'' (wd_int W 80) False) of
              (Some cv, Some nmel) \<Rightarrow> Some (g\<lparr>w_cv := cv, w_NMEL := wd_trunc W nmel, w_CONV := 2\<rparr>)
            | _ \<Rightarrow> None)
          else Some (g\<lparr>w_CONV := 0\<rparr>)))"

text \<open>Shared buffers until one fails; sizes are cut to 32 bits.\<close>

definition buf_bytes :: "wst \<Rightarrow> nat \<Rightarrow> int" where
  "buf_bytes g b =
     (let SD = int WSP_S * w_D g in
      (if b = bY \<or> b = bJ then 3 * SD
       else if b \<in> {bC, bC2, bC3, bC4} then w_HG g * int ((WSP_BQ + 2 * WSP_S) * WSP_HD)
       else if b \<in> {bO, bO2, bO3, bO4} then w_HG g * int (WSP_BQ * (WSP_HD + 1))
       else SD) * int (elem_size b))"

fun w_allocs :: "wlib \<Rightarrow> nat list \<Rightarrow> wst \<Rightarrow> bool \<times> wst" where
  "w_allocs W [] g = (True, g)"
| "w_allocs W (b # r) g =
     (case barra_zc_alloc (fl_heap W (w_tick g)) (fl_mmap W (w_tick g)) b (nat (buf_bytes g b mod 2 ^ 32)) (w_zs g) of
        (q, zs) \<Rightarrow>
       (let g1 = g\<lparr>w_zs := zs, w_tick := Suc (w_tick g)\<rparr> in if q then w_allocs W r g1 else (False, g1)))"

definition init_bufs :: "wlib \<Rightarrow> wst \<Rightarrow> bool \<times> wst" where
  "init_bufs W g =
     (case w_allocs W [bX, bY, bC, bO, bW, bA, bF, bG] g of
        (False, g1) \<Rightarrow> (False, g1)
      | (True, g1) \<Rightarrow>
     (case (if w_CONV g1 \<noteq> 0 then w_allocs W [bJ] g1 else (True, g1)) of
        (False, g2) \<Rightarrow> (False, g2)
      | (True, g2) \<Rightarrow>
     (let p = (\<not> env_off W ''WSP_PAIR'');
          g3 = g2\<lparr>w_pair := p, w_ovl := (p \<and> \<not> env_off W ''WSP_OVL'' \<and> WSP_NB = 4)\<rparr>
      in
      case (if w_pair g3 then w_allocs W [bC2, bO2] g3 else (True, g3)) of
        (False, g4) \<Rightarrow> (False, g4)
      | (True, g4) \<Rightarrow>
     (case (if w_ovl g4 then w_allocs W [bC3, bO3, bC4, bO4] g4 else (True, g4)) of
        (False, g5) \<Rightarrow> (False, g5)
      | (True, g5) \<Rightarrow>
          if w_ovl g5
          then
           (case barra_tpu_import [bC, bO, bC2, bO2, bC3, bO3, bC4, bO4] (w_zs g5, w_TC g5) of
              (r, zs, se) \<Rightarrow> (r, g5\<lparr>w_zs := zs, w_TC := se\<rparr>))
          else (True, g5)))))"

definition wsp_init :: "wlib \<Rightarrow> wst \<Rightarrow> (bool \<times> wst) option" where
  "wsp_init W g =
     (if w_ok g then Some (True, g)
      else
     (case fl_env W ''WSP_PKG_DIR'' of
        None \<Rightarrow> Some (False, g)
      | Some dir \<Rightarrow>
     (case init_params W dir g of
        None \<Rightarrow> None
      | Some (False, g1) \<Rightarrow> Some (False, g1)
      | Some (True, g1) \<Rightarrow>
     (case init_daemons W g1 of
        (None, g2) \<Rightarrow> Some (False, g2)
      | (Some nm, g2) \<Rightarrow>
     (case init_cross W dir nm g2 of
        None \<Rightarrow> None
      | Some g3 \<Rightarrow>
     (case init_conv W dir nm g3 of
        None \<Rightarrow> None
      | Some g4 \<Rightarrow>
     (case init_bufs W g4 of
        (False, g5) \<Rightarrow> Some (False, g5)
      | (True, g5) \<Rightarrow> Some (True, (wsp_pool_init W g5)\<lparr>w_ok := True\<rparr>))))))))"

end
