(* ===== verification/Wsp_Encode.thy ===== *)
theory Wsp_Encode
  imports Wsp_Init
begin

text \<open>
  The work of src/src/whisper-mali/tpu/whisper-barra.cpp: keys and values for the decoder, the
  convolutions in front, and the encoder with its three ways to run the attention core: one block at a
  time, in pairs, or in pairs that overlap. Timing is left out.
\<close>

definition w_put :: "nat \<Rightarrow> nat \<Rightarrow> int \<Rightarrow> wst \<Rightarrow> wst" where
  "w_put b j v g = g\<lparr>w_mem := (w_mem g)(b := (w_mem g b)(j := v))\<rparr>"

section \<open>Keys and values for the decoder\<close>

definition wsp_barra_cross_layers :: "wlib \<Rightarrow> wst \<Rightarrow> (int \<times> wst) option" where
  "wsp_barra_cross_layers W g =
     map_option (\<lambda>(r, g1). (if r then w_NX g1 else 0, g1)) (wsp_init W g)"

definition cross_elem :: "wlib \<Rightarrow> wcross \<Rightarrow> int \<Rightarrow> nat" where
  "cross_elem W x v = wsp_tof16 W (dequant W v (xr_ozp x) (wd_float W (xr_osc x)))"

definition cross_row ::
  "wlib \<Rightarrow> wcross \<Rightarrow> nat \<Rightarrow> (nat \<Rightarrow> int) \<Rightarrow> nat \<Rightarrow> (nat \<Rightarrow> nat) \<times> (nat \<Rightarrow> nat) \<Rightarrow> (nat \<Rightarrow> nat) \<times> (nat \<Rightarrow> nat)" where
  "cross_row W x D Y s =
     fold (\<lambda>d (k, v). (k(s * D + d := cross_elem W x (Y (s * 2 * D + d))),
                       v(s * D + d := cross_elem W x (Y (s * 2 * D + D + d))))) [0..<D]"

definition wsp_barra_cross ::
  "wlib \<Rightarrow> int \<Rightarrow> (nat \<Rightarrow> f32) \<Rightarrow> (nat \<Rightarrow> nat) \<times> (nat \<Rightarrow> nat) \<Rightarrow> wst \<Rightarrow> bool \<times> ((nat \<Rightarrow> nat) \<times> (nat \<Rightarrow> nat)) \<times> wst" where
  "wsp_barra_cross W l enc kv g =
     (if \<not> w_ok g \<or> l < 0 \<or> l \<ge> w_NX g then (False, kv, g)
      else
     (let x = w_x g ! nat l;
          g1 = wsp_par (w_nth g) (wSD g) (\<lambda>i. w_put bX i (quant16 W (enc i) (wd_float W (xr_isc x)) (xr_izp x))) g
      in
      case w_infer W False (nat (3 * w_NL g + l)) bX bY g1 of
        (False, g2) \<Rightarrow> (False, kv, g2)
      | (True, g2) \<Rightarrow> (True, wsp_par (w_nth g2) WSP_S (cross_row W x (wD g) (w_mem g2 bY)) kv, g2)))"

section \<open>The convolutions\<close>

definition wsp_barra_conv_ready :: "wlib \<Rightarrow> wst \<Rightarrow> (int \<times> wst) option" where
  "wsp_barra_conv_ready W g =
     map_option (\<lambda>(r, g1). (if r then w_CONV g1 else 0, g1)) (wsp_init W g)"

definition mel_row :: "wlib \<Rightarrow> (nat \<Rightarrow> f32) \<Rightarrow> nat \<Rightarrow> wst \<Rightarrow> wst" where
  "mel_row W mel t g =
     (let NM = nat (w_NMEL g); cv = w_cv g in
      fold (\<lambda>c. w_put bX (t * NM + c)
              (quant16 W (mel (c * (2 * WSP_S) + t)) (wd_float W (cv_isc1 cv)) (cv_izp1 cv))) [0..<NM] g)"

text \<open>The window of row \<open>t\<close>: the rows \<open>2t-1\<close>, \<open>2t\<close>, \<open>2t+1\<close> of the first result, requantized; before
  the first row the zero point of the second package.\<close>

definition seam :: "wlib \<Rightarrow> wcv \<Rightarrow> int \<Rightarrow> int" where
  "seam W cv v =
     z_clip (-32768) 32767
       (fl_rint W (fl_mul W (fl_int W (v - cv_ozp1 cv)) (wd_float W (wd_div W (cv_osc1 cv) (cv_isc2 cv)))) + cv_izp2 cv)"

definition im2col_row :: "wlib \<Rightarrow> nat \<Rightarrow> wst \<Rightarrow> wst" where
  "im2col_row W t g =
     (let D = wD g; cv = w_cv g in
      fold (\<lambda>k g. fold (\<lambda>d g. w_put bJ (t * 3 * D + k * D + d)
                  (if 2 * t + k < 1 then to_short (cv_izp2 cv) else seam W cv (w_mem g bY ((2 * t + k - 1) * D + d))) g)
                [0..<D] g)
        [0..<3] g)"

definition wsp_barra_conv ::
  "wlib \<Rightarrow> (nat \<Rightarrow> f32) \<Rightarrow> (nat \<Rightarrow> f32) \<Rightarrow> (nat \<Rightarrow> f32) \<Rightarrow> wst \<Rightarrow> bool \<times> (nat \<Rightarrow> f32) \<times> wst" where
  "wsp_barra_conv W mel pe x0 g =
     (if \<not> w_ok g \<or> w_CONV g = 0 then (False, x0, g)
      else
     (case w_infer W False (nat (3 * w_NL g + w_NX g)) bX bY (wsp_par (w_nth g) (2 * WSP_S) (mel_row W mel) g) of
        (False, g1) \<Rightarrow> (False, x0, g1)
      | (True, g1) \<Rightarrow>
     (case w_infer W False (nat (3 * w_NL g + w_NX g + 1)) bJ bG (wsp_par (w_nth g1) WSP_S (im2col_row W) g1) of
        (False, g2) \<Rightarrow> (False, x0, g2)
      | (True, g2) \<Rightarrow>
         (True,
          wsp_par (w_nth g2) (wSD g)
            (\<lambda>i x. x(i := fl_add W (dequant W (w_mem g2 bG i) (cv_ozp2 (w_cv g)) (wd_float W (cv_osc2 (w_cv g)))) (pe i))) x0,
          g2))))"

section \<open>The attention core\<close>

text \<open>The scale between the first package and the core; a requantized element of the first result.\<close>

definition core_rq :: "wlib \<Rightarrow> wlay \<Rightarrow> wst \<Rightarrow> f32" where
  "core_rq W la g = wd_float W (wd_div W (la_pout la) (w_cin g))"

definition core_q :: "wlib \<Rightarrow> f32 \<Rightarrow> nat \<Rightarrow> nat \<Rightarrow> nat \<Rightarrow> nat \<Rightarrow> wst \<Rightarrow> int" where
  "core_q W rq part h s d g = qs16 W (fl_mul W (fl_int W (wsp_yget g (w_mem g bY) part h s d)) rq)"

definition c_row :: "nat \<Rightarrow> nat \<Rightarrow> nat" where
  "c_row hl r = (hl * (WSP_BQ + 2 * WSP_S) + r) * WSP_HD"

text \<open>Keys and values of a group of heads, and their copies for the other inputs.\<close>

definition kv_row :: "wlib \<Rightarrow> f32 \<Rightarrow> nat \<Rightarrow> nat \<Rightarrow> wst \<Rightarrow> wst" where
  "kv_row W rq grp i g =
     (let hl = i div WSP_S; s = i mod WSP_S; h = grp * wHG g + hl in
      fold (\<lambda>d g. w_put bC (c_row hl (WSP_BQ + WSP_S + s) + d) (core_q W rq 2 h s d g)
                 (w_put bC (c_row hl (WSP_BQ + s) + d) (core_q W rq 1 h s d g) g)) [0..<WSP_HD] g)"

definition w_copy :: "nat \<Rightarrow> nat \<Rightarrow> nat \<Rightarrow> nat \<Rightarrow> wst \<Rightarrow> wst" where
  "w_copy dst src off n g =
     g\<lparr>w_mem := (w_mem g)(dst := (\<lambda>j. if off \<le> j \<and> j < off + n then w_mem g src j else w_mem g dst j))\<rparr>"

definition kv_copies :: "wst \<Rightarrow> wst" where
  "kv_copies g =
     (if w_pair g
      then fold (\<lambda>hl g.
              (let off = c_row hl WSP_BQ; n = 2 * WSP_S * WSP_HD; g1 = w_copy bC2 bC off n g in
               if w_ovl g then w_copy bC4 bC off n (w_copy bC3 bC off n g1) else g1)) [0..<wHG g] g
      else g)"

text \<open>The queries of block \<open>bb\<close> go into an input, the results of the block into the context.\<close>

definition q_row :: "wlib \<Rightarrow> f32 \<Rightarrow> nat \<Rightarrow> nat \<Rightarrow> nat \<Rightarrow> nat \<Rightarrow> wst \<Rightarrow> wst" where
  "q_row W rq grp bb buf i g =
     (let hl = i div WSP_BQ; r = i mod WSP_BQ; h = grp * wHG g + hl in
      fold (\<lambda>d g. w_put buf (c_row hl r + d) (core_q W rq 0 h (bb * WSP_BQ + r) d g) g) [0..<WSP_HD] g)"

definition qslice :: "wlib \<Rightarrow> f32 \<Rightarrow> nat \<Rightarrow> nat \<Rightarrow> nat \<Rightarrow> wst \<Rightarrow> wst" where
  "qslice W rq grp bb buf g = wsp_par (w_nth g) (wHG g * WSP_BQ) (q_row W rq grp bb buf) g"

definition div_elem :: "wlib \<Rightarrow> f32 \<Rightarrow> (nat \<Rightarrow> int) \<Rightarrow> nat \<Rightarrow> nat \<Rightarrow> f32" where
  "div_elem W cout Ob off d =
     (let den = fl_mul W (fl_int W (Ob (off + WSP_HD))) cout;
          den1 = (if fl_gt W f_eps den then f_eps else den);
          inv = fl_div W f_one den1
      in fl_mul W (fl_mul W (fl_int W (Ob (off + d))) cout) inv)"

definition ctx_row :: "wlib \<Rightarrow> nat \<Rightarrow> nat \<Rightarrow> nat \<Rightarrow> nat \<Rightarrow> wst \<Rightarrow> wst" where
  "ctx_row W grp bb buf i g =
     (let hl = i div WSP_BQ; r = i mod WSP_BQ in
      fold (\<lambda>d g. g\<lparr>w_ctx := (w_ctx g)((bb * WSP_BQ + r) * wD g + (grp * wHG g + hl) * WSP_HD + d :=
                 div_elem W (wd_float W (w_cout g)) (w_mem g buf) ((hl * WSP_BQ + r) * (WSP_HD + 1)) d)\<rparr>)
        [0..<WSP_HD] g)"

definition divb :: "wlib \<Rightarrow> nat \<Rightarrow> nat \<Rightarrow> nat \<Rightarrow> wst \<Rightarrow> wst" where
  "divb W grp bb buf g = wsp_par (w_nth g) (wHG g * WSP_BQ) (ctx_row W grp bb buf) g"

text \<open>Overlapping pairs: the second pair is built and sent while the first one is computed.\<close>

definition core_overlap :: "wlib \<Rightarrow> f32 \<Rightarrow> nat \<Rightarrow> wst \<Rightarrow> bool \<times> wst" where
  "core_overlap W rq grp g =
     (case w_submit2 W 0 [bC, bO, bC2, bO2] (qslice W rq grp 1 bC2 (qslice W rq grp 0 bC g)) of
        (False, g1) \<Rightarrow> (False, g1)
      | (True, g1) \<Rightarrow>
     (case w_submit2 W 0 [bC3, bO3, bC4, bO4] (qslice W rq grp 3 bC4 (qslice W rq grp 2 bC3 g1)) of
        (False, g2) \<Rightarrow> (False, g2)
      | (True, g2) \<Rightarrow>
     (case w_wait2 W [bC, bO, bC2, bO2] g2 of
        (False, g3) \<Rightarrow> (False, g3)
      | (True, g3) \<Rightarrow>
     (case w_wait2 W [bC3, bO3, bC4, bO4] (divb W grp 1 bO2 (divb W grp 0 bO g3)) of
        (False, g4) \<Rightarrow> (False, g4)
      | (True, g4) \<Rightarrow> (True, divb W grp 3 bO4 (divb W grp 2 bO3 g4))))))"

text \<open>One block, or one pair of blocks.\<close>

definition core_block :: "wlib \<Rightarrow> f32 \<Rightarrow> nat \<Rightarrow> nat \<Rightarrow> wst \<Rightarrow> bool \<times> wst" where
  "core_block W rq grp b g =
     (let g1 = qslice W rq grp b bC g in
      if w_pair g
      then
       (case w_infer2 W 0 [bC, bO, bC2, bO2] (qslice W rq grp (b + 1) bC2 g1) of
          (False, g2) \<Rightarrow> (False, g2)
        | (True, g2) \<Rightarrow> (True, divb W grp (b + 1) bO2 (divb W grp b bO g2)))
      else
       (case w_infer W True 0 bC bO g1 of
          (False, g2) \<Rightarrow> (False, g2)
        | (True, g2) \<Rightarrow> (True, divb W grp b bO g2)))"

fun core_blocks :: "wlib \<Rightarrow> f32 \<Rightarrow> nat \<Rightarrow> nat list \<Rightarrow> wst \<Rightarrow> bool \<times> wst" where
  "core_blocks W rq grp [] g = (True, g)"
| "core_blocks W rq grp (b # bs) g =
     (case core_block W rq grp b g of (False, g1) \<Rightarrow> (False, g1) | (True, g1) \<Rightarrow> core_blocks W rq grp bs g1)"

definition core_steps :: "wst \<Rightarrow> nat list" where
  "core_steps g = filter (\<lambda>b. b mod (if w_pair g then 2 else 1) = 0) [0..<WSP_NB]"

definition core_group :: "wlib \<Rightarrow> f32 \<Rightarrow> nat \<Rightarrow> wst \<Rightarrow> bool \<times> wst" where
  "core_group W rq grp g =
     (let g1 = kv_copies (wsp_par (w_nth g) (wHG g * WSP_S) (kv_row W rq grp) g) in
      if w_ovl g1 then core_overlap W rq grp g1 else core_blocks W rq grp (core_steps g1) g1)"

fun core_groups :: "wlib \<Rightarrow> f32 \<Rightarrow> nat list \<Rightarrow> wst \<Rightarrow> bool \<times> wst" where
  "core_groups W rq [] g = (True, g)"
| "core_groups W rq (k # ks) g =
     (case core_group W rq k g of (False, g1) \<Rightarrow> (False, g1) | (True, g1) \<Rightarrow> core_groups W rq ks g1)"

section \<open>The encoder\<close>

text \<open>Layer norm of all rows with the weights \<open>k\<close> and \<open>k + 1\<close> of the layer.\<close>

definition ln_weight :: "wst \<Rightarrow> nat \<Rightarrow> nat \<Rightarrow> nat \<Rightarrow> f32" where
  "ln_weight g L k = (\<lambda>d. w_LNW g ! ((L * 4 + k) * wD g + d))"

definition ln_rows :: "wlib \<Rightarrow> nat \<Rightarrow> nat \<Rightarrow> (nat \<Rightarrow> f32) \<Rightarrow> wst \<Rightarrow> wst" where
  "ln_rows W L k x g =
     wsp_par (w_nth g) WSP_S
       (\<lambda>r g. g\<lparr>w_hb := wsp_ln_row W (wD g) (\<lambda>d. x (r * wD g + d)) (ln_weight g L k) (ln_weight g L (Suc k))
                  (r * wD g) (w_hb g)\<rparr>) g"

definition residual :: "wlib \<Rightarrow> nat \<Rightarrow> (nat \<Rightarrow> int) \<Rightarrow> int \<Rightarrow> f64 \<Rightarrow> nat \<Rightarrow> (nat \<Rightarrow> f32) \<Rightarrow> nat \<Rightarrow> f32" where
  "residual W th A zp osc n x =
     wsp_par th n (\<lambda>i x. x(i := fl_add W (x i) (dequant W (A i) zp (wd_float W osc)))) x"

text \<open>The second half of a layer, from the context on.\<close>

definition enc_ffn :: "wlib \<Rightarrow> nat \<Rightarrow> (nat \<Rightarrow> f32) \<Rightarrow> wst \<Rightarrow> bool \<times> (nat \<Rightarrow> f32) \<times> wst" where
  "enc_ffn W L x g =
     (let la = w_lay g ! L;
          g1 = wsp_par (w_nth g) (wSD g)
                 (\<lambda>i g. w_put bW i (quant8 W (w_ctx g i) (wd_float W (la_wisc la)) (la_wizp la)) g) g
      in
      case w_infer W False (3 * L + 1) bW bA g1 of
        (False, g2) \<Rightarrow> (False, x, g2)
      | (True, g2) \<Rightarrow>
       (let x1 = residual W (w_nth g2) (w_mem g2 bA) (la_wozp la) (la_wosc la) (wSD g) x;
            g3 = ln_rows W L 2 x1 g2;
            g4 = wsp_par (w_nth g3) (wSD g)
                   (\<lambda>i g. w_put bF i (quant16 W (w_hb g i) (wd_float W (la_fisc la)) (la_fizp la)) g) g3
        in
        case w_infer W False (3 * L + 2) bF bG g4 of
          (False, g5) \<Rightarrow> (False, x1, g5)
        | (True, g5) \<Rightarrow> (True, residual W (w_nth g5) (w_mem g5 bG) (la_fozp la) (la_fosc la) (wSD g) x1, g5)))"

definition enc_layer :: "wlib \<Rightarrow> nat \<Rightarrow> (nat \<Rightarrow> f32) \<Rightarrow> wst \<Rightarrow> bool \<times> (nat \<Rightarrow> f32) \<times> wst" where
  "enc_layer W L x g =
     (let la = w_lay g ! L;
          g1 = ln_rows W L 0 x g;
          g2 = wsp_par (w_nth g1) (wSD g)
                 (\<lambda>i g. w_put bX i (quant16 W (w_hb g i) (wd_float W (la_pin la)) 0) g) g1
      in
      case w_infer W False (3 * L) bX bY g2 of
        (False, g3) \<Rightarrow> (False, x, g3)
      | (True, g3) \<Rightarrow>
       (case core_groups W (core_rq W la g) [0..<nat (w_NG g)] g3 of
          (False, g4) \<Rightarrow> (False, x, g4)
        | (True, g4) \<Rightarrow> enc_ffn W L x g4))"

fun enc_layers :: "wlib \<Rightarrow> nat list \<Rightarrow> (nat \<Rightarrow> f32) \<Rightarrow> wst \<Rightarrow> bool \<times> (nat \<Rightarrow> f32) \<times> wst" where
  "enc_layers W [] x g = (True, x, g)"
| "enc_layers W (L # Ls) x g =
     (case enc_layer W L x g of (False, x1, g1) \<Rightarrow> (False, x1, g1) | (True, x1, g1) \<Rightarrow> enc_layers W Ls x1 g1)"

definition wsp_barra_encode ::
  "wlib \<Rightarrow> (nat \<Rightarrow> f32) \<Rightarrow> (nat \<Rightarrow> f32) \<Rightarrow> int \<Rightarrow> int \<Rightarrow> wst \<Rightarrow> (bool \<times> (nat \<Rightarrow> f32) \<times> wst) option" where
  "wsp_barra_encode W x0 out S D g =
     (case wsp_init W g of
        None \<Rightarrow> None
      | Some (False, g1) \<Rightarrow> Some (False, out, g1)
      | Some (True, g1) \<Rightarrow>
          if S \<noteq> int WSP_S \<or> D \<noteq> w_D g1 then Some (False, out, g1)
          else Some (enc_layers W [0..<nat (w_NL g1)] (\<lambda>i. if i < wSD g1 then x0 i else out i) g1))"

end
