(* ===== verification/Wsp_Core.thy ===== *)
theory Wsp_Core
  imports Wsp_Encode
begin

text \<open>
  Closed forms of the loops of the encoder on the TPU: what is in the buffers and in the context after
  each of them, for any number of threads.
\<close>

section \<open>The thread pool runs every index once\<close>

lemma chunk_bounds:
  "wsp_chunk tc n i = (min (i * ((n + tc) div (tc + 1))) n, min (Suc i * ((n + tc) div (tc + 1))) n)"
  by (simp add: wsp_chunk_def Let_def min_def)

lemma chunks_upto:
  "concat (map (\<lambda>i. case wsp_chunk tc n i of (a, b) \<Rightarrow> [a..<b]) [0..<k]) = [0..<min (k * ((n + tc) div (tc + 1))) n]"
proof (induction k)
  case (Suc k)
  define c where "c = (n + tc) div (tc + 1)"
  have "[0..<min (Suc k * c) n] = [0..<min (k * c) n] @ [min (k * c) n..<min (Suc k * c) n]"
    using upt_add_eq_append [of 0 "min (k * c) n" "min (Suc k * c) n - min (k * c) n"] by simp
  then show ?case using Suc by (simp add: chunk_bounds c_def)
qed simp

lemma chunks_all: "(n :: nat) \<le> (tc + 1) * ((n + tc) div (tc + 1))"
proof -
  have "n + tc = (n + tc) div (tc + 1) * (tc + 1) + (n + tc) mod (tc + 1)" by (rule div_mult_mod_eq [symmetric])
  moreover have "(n + tc) mod (tc + 1) \<le> tc" using mod_less_divisor [of "tc + 1" "n + tc"] by simp
  ultimately show ?thesis unfolding mult.commute [of "tc + 1"] by linarith
qed

lemma wsp_workers_fold:
  "fold (wsp_worker tc n body) is' s = fold body (concat (map (\<lambda>i. case wsp_chunk tc n i of (a, b) \<Rightarrow> [a..<b]) is')) s"
  by (induction is' arbitrary: s) (simp_all add: wsp_worker_def split: prod.split)

lemma wsp_par_serial: "wsp_par tc n body s = fold body [0..<n] s"
proof -
  have "min (Suc tc * ((n + tc) div (tc + 1))) n = n" using chunks_all [of n tc] by simp
  then have "concat (map (\<lambda>i. case wsp_chunk tc n i of (a, b) \<Rightarrow> [a..<b]) [0..<Suc tc]) = [0..<n]"
    using chunks_upto [of tc n "Suc tc"] by simp
  then show ?thesis unfolding wsp_par_def wsp_workers_fold by simp
qed

section \<open>Loops that write a region\<close>

lemma fold_sets:
  assumes "\<And>i B. i \<in> set xs \<Longrightarrow> body i (F B) = F (B \<union> A i)"
  shows "fold body xs (F B) = F (B \<union> (\<Union>i\<in>set xs. A i))"
  using assms by (induction xs arbitrary: B) (simp_all add: Un_assoc)

definition fill :: "nat \<Rightarrow> nat set \<Rightarrow> (nat \<Rightarrow> int) \<Rightarrow> wst \<Rightarrow> wst" where
  "fill b B v g = g\<lparr>w_mem := (w_mem g)(b := (\<lambda>j. if j \<in> B then v j else w_mem g b j))\<rparr>"

lemma fill_empty [simp]: "fill b {} v g = g"
  by (simp add: fill_def)

lemma fill_put: "v j = x \<Longrightarrow> w_put b j x (fill b B v g) = fill b (B \<union> {j}) v g"
  by (simp add: fill_def w_put_def) (auto simp: fun_eq_iff)

definition fill_ctx :: "nat set \<Rightarrow> (nat \<Rightarrow> f32) \<Rightarrow> wst \<Rightarrow> wst" where
  "fill_ctx B v g = g\<lparr>w_ctx := (\<lambda>j. if j \<in> B then v j else w_ctx g j)\<rparr>"

lemma fill_ctx_empty [simp]: "fill_ctx {} v g = g"
  by (simp add: fill_ctx_def)

lemma fill_ctx_put: "v j = x \<Longrightarrow> fill_ctx B v g\<lparr>w_ctx := (w_ctx (fill_ctx B v g))(j := x)\<rparr> = fill_ctx (B \<union> {j}) v g"
  by (simp add: fill_ctx_def) (auto simp: fun_eq_iff)

text \<open>What an operation on buffers, sessions and floats leaves alone.\<close>

definition cfg :: "wst \<Rightarrow> wst" where
  "cfg g = g\<lparr>w_T := undefined, w_TC := undefined, w_zs := undefined, w_mem := undefined, w_hb := undefined,
     w_ctx := undefined, w_tick := undefined, w_fly := undefined\<rparr>"

lemma cfg_upd [simp]:
  "cfg (g\<lparr>w_T := a\<rparr>) = cfg g" "cfg (g\<lparr>w_TC := a\<rparr>) = cfg g" "cfg (g\<lparr>w_zs := z\<rparr>) = cfg g" "cfg (g\<lparr>w_mem := m\<rparr>) = cfg g"
  "cfg (g\<lparr>w_hb := x\<rparr>) = cfg g" "cfg (g\<lparr>w_ctx := x\<rparr>) = cfg g" "cfg (g\<lparr>w_tick := n\<rparr>) = cfg g" "cfg (g\<lparr>w_fly := l\<rparr>) = cfg g"
  by (simp_all add: cfg_def)

lemma cfg_get:
  assumes "cfg g = cfg h"
  shows "w_NL g = w_NL h" "w_D g = w_D h" "w_HG g = w_HG h" "w_PROJW g = w_PROJW h" "w_NG g = w_NG h"
    "w_cin g = w_cin h" "w_cout g = w_cout h" "w_lay g = w_lay h" "w_LNW g = w_LNW h" "w_pair g = w_pair h"
    "w_ovl g = w_ovl h" "w_nth g = w_nth h"
  using arg_cong [OF assms, of w_NL] arg_cong [OF assms, of w_D] arg_cong [OF assms, of w_HG] arg_cong [OF assms, of w_PROJW]
    arg_cong [OF assms, of w_NG] arg_cong [OF assms, of w_cin] arg_cong [OF assms, of w_cout] arg_cong [OF assms, of w_lay] arg_cong [OF assms, of w_LNW]
    arg_cong [OF assms, of w_pair] arg_cong [OF assms, of w_ovl] arg_cong [OF assms, of w_nth]
  by (simp_all add: cfg_def)


lemma cfg_dims:
  assumes "cfg g = cfg h"
  shows "wD g = wD h" "wHG g = wHG h" "wSD g = wSD h" "c_len g = c_len h" "buf_len g b = buf_len h b"
    "wsp_yget g Y part k s d = wsp_yget h Y part k s d" "ln_weight g L k = ln_weight h L k"
  using cfg_get [OF assms]
  by (simp_all add: wD_def wHG_def wSD_def c_len_def o_len_def buf_len_def wsp_yget_def ln_weight_def fun_eq_iff)

lemma fill_simps [simp]:
  "cfg (fill b B v g) = cfg g" "w_ctx (fill b B v g) = w_ctx g" "w_fly (fill b B v g) = w_fly g"
  "w_T (fill b B v g) = w_T g" "w_TC (fill b B v g) = w_TC g" "w_zs (fill b B v g) = w_zs g" "w_hb (fill b B v g) = w_hb g"
  "w_mem (fill b B v g) = (w_mem g)(b := (\<lambda>j. if j \<in> B then v j else w_mem g b j))" "w_tick (fill b B v g) = w_tick g"
  by (simp_all add: fill_def)

lemma fill_ctx_simps [simp]:
  "cfg (fill_ctx B v g) = cfg g" "w_mem (fill_ctx B v g) = w_mem g" "w_fly (fill_ctx B v g) = w_fly g"
  "w_T (fill_ctx B v g) = w_T g" "w_TC (fill_ctx B v g) = w_TC g" "w_zs (fill_ctx B v g) = w_zs g" "w_hb (fill_ctx B v g) = w_hb g"
  "w_ctx (fill_ctx B v g) = (\<lambda>j. if j \<in> B then v j else w_ctx g j)" "w_tick (fill_ctx B v g) = w_tick g"
  by (simp_all add: fill_ctx_def)

section \<open>The inputs of the core\<close>

text \<open>
  Reference: element \<open>j\<close> of the input of the core for block \<open>bb\<close> of group \<open>grp\<close>, from the result \<open>Y\<close> of
  the first package: a head has 375 rows of queries, then 1500 of keys and 1500 of values.
\<close>

definition core_qY :: "wlib \<Rightarrow> f32 \<Rightarrow> wst \<Rightarrow> (nat \<Rightarrow> int) \<Rightarrow> nat \<Rightarrow> nat \<Rightarrow> nat \<Rightarrow> nat \<Rightarrow> int" where
  "core_qY W rq g Y part h s d = qs16 W (fl_mul W (fl_int W (wsp_yget g Y part h s d)) rq)"

definition in_head :: "nat \<Rightarrow> nat" where "in_head j = j div WSP_HD div (WSP_BQ + 2 * WSP_S)"
definition in_row :: "nat \<Rightarrow> nat" where "in_row j = j div WSP_HD mod (WSP_BQ + 2 * WSP_S)"

definition core_in :: "wlib \<Rightarrow> f32 \<Rightarrow> wst \<Rightarrow> (nat \<Rightarrow> int) \<Rightarrow> nat \<Rightarrow> nat \<Rightarrow> nat \<Rightarrow> int" where
  "core_in W rq g Y grp bb j =
     (let h = grp * wHG g + in_head j; r = in_row j; d = j mod WSP_HD in
      if r < WSP_BQ then core_qY W rq g Y 0 h (bb * WSP_BQ + r) d
      else if r < WSP_BQ + WSP_S then core_qY W rq g Y 1 h (r - WSP_BQ) d
      else core_qY W rq g Y 2 h (r - WSP_BQ - WSP_S) d)"

lemma wsp_consts: "WSP_S = 1500" "WSP_HD = 64" "WSP_BQ = 375" "WSP_NB = 4"
  by (simp_all add: WSP_S_def WSP_HD_def WSP_BQ_def WSP_NB_def)

lemma block_lt:
  assumes "(a :: nat) < m" "d < n"
  shows "a * n + d < m * n"
proof -
  have "a * n + d < Suc a * n" using assms(2) by simp
  also have "\<dots> \<le> m * n" using assms(1) by (intro mult_le_mono1) simp
  finally show ?thesis .
qed

lemma div_mod_add:
  assumes "(d :: nat) < n"
  shows "(a * n + d) div n = a" "(a * n + d) mod n = d"
  using assms by simp_all

lemma c_row_decode:
  assumes "r < WSP_BQ + 2 * WSP_S" "d < WSP_HD"
  shows "in_head (c_row hl r + d) = hl" "in_row (c_row hl r + d) = r" "(c_row hl r + d) mod WSP_HD = d"
  unfolding in_head_def in_row_def c_row_def div_mod_add [OF assms(2)] div_mod_add [OF assms(1)] by simp_all

lemma c_row_encode: "c_row (in_head j) (in_row j) + j mod WSP_HD = j"
  by (simp only: in_head_def in_row_def c_row_def div_mult_mod_eq)

text \<open>The regions of queries, and of keys and values.\<close>

definition q_set :: "wst \<Rightarrow> nat set" where
  "q_set g = {j. in_head j < wHG g \<and> in_row j < WSP_BQ}"

definition kv_set :: "wst \<Rightarrow> nat set" where
  "kv_set g = {j. in_head j < wHG g \<and> WSP_BQ \<le> in_row j}"

lemma in_sets: "j < c_len g \<Longrightarrow> j \<in> q_set g \<or> j \<in> kv_set g"
proof -
  assume "j < c_len g"
  then have "in_head j < wHG g"
    by (simp add: in_head_def c_len_def wsp_consts div_less_iff_less_mult)
  then show ?thesis by (auto simp: q_set_def kv_set_def)
qed

lemma core_q_same:
  assumes "cfg g' = cfg g" "w_mem g' bY = w_mem g bY"
  shows "core_q W rq part h s d g' = core_qY W rq g (w_mem g bY) part h s d"
  using cfg_dims [OF assms(1)] assms(2) by (simp add: core_q_def core_qY_def)

definition row_set :: "nat \<Rightarrow> nat \<Rightarrow> nat set" where
  "row_set hl r = {j. \<exists>d<WSP_HD. j = c_row hl r + d}"

lemma q_rows: "(\<Union>i<wHG g * WSP_BQ. row_set (i div WSP_BQ) (i mod WSP_BQ)) = q_set g"
proof (intro equalityI subsetI)
  fix j assume "j \<in> (\<Union>i<wHG g * WSP_BQ. row_set (i div WSP_BQ) (i mod WSP_BQ))"
  then obtain i d where i: "i < wHG g * WSP_BQ" "d < WSP_HD" "j = c_row (i div WSP_BQ) (i mod WSP_BQ) + d"
    by (auto simp: row_set_def)
  have "i mod WSP_BQ < WSP_BQ" by (simp add: wsp_consts)
  then show "j \<in> q_set g" using i c_row_decode [of "i mod WSP_BQ" d "i div WSP_BQ"]
    by (simp add: q_set_def less_mult_imp_div_less)
next
  fix j assume j: "j \<in> q_set g"
  define i where "i = in_head j * WSP_BQ + in_row j"
  have r: "in_row j < WSP_BQ" "in_head j < wHG g" using j by (simp_all add: q_set_def)
  then have "i div WSP_BQ = in_head j" "i mod WSP_BQ = in_row j" by (simp_all add: i_def)
  moreover have "i < wHG g * WSP_BQ"
    using block_lt [OF r(2,1)] by (simp add: i_def)
  moreover have "j \<in> row_set (in_head j) (in_row j)"
    using c_row_encode [of j] by (auto simp: row_set_def wsp_consts intro!: exI [of _ "j mod 64"])
  ultimately show "j \<in> (\<Union>i<wHG g * WSP_BQ. row_set (i div WSP_BQ) (i mod WSP_BQ))"
    by (intro UN_I [of i]) simp_all
qed

lemma q_row_fill:
  assumes b: "buf \<noteq> bY" and v: "v = core_in W rq g (w_mem g bY) grp bb"
  shows "q_row W rq grp bb buf i (fill buf B v g) = fill buf (B \<union> row_set (i div WSP_BQ) (i mod WSP_BQ)) v g"
proof -
  define hl r h where "hl = i div WSP_BQ" and "r = i mod WSP_BQ" and "h = grp * wHG g + hl"
  have r: "r < WSP_BQ" by (simp add: r_def wsp_consts)
  have "q_row W rq grp bb buf i (fill buf B v g) =
      fold (\<lambda>d g. w_put buf (c_row hl r + d) (core_q W rq 0 h (bb * WSP_BQ + r) d g) g) [0..<WSP_HD] (fill buf B v g)"
    using cfg_dims [of "fill buf B v g" g] by (simp add: q_row_def Let_def hl_def r_def h_def)
  also have "\<dots> = fill buf (B \<union> (\<Union>d\<in>set [0..<WSP_HD]. {c_row hl r + d})) v g"
  proof (rule fold_sets [where F = "\<lambda>B. fill buf B v g"])
    fix d C assume "d \<in> set [0..<WSP_HD]"
    then have d: "d < WSP_HD" by simp
    have "v (c_row hl r + d) = core_q W rq 0 h (bb * WSP_BQ + r) d (fill buf C v g)"
      using core_q_same [of "fill buf C v g" g] b r d c_row_decode [of r d hl] by (simp add: v core_in_def Let_def h_def)
    then show "w_put buf (c_row hl r + d) (core_q W rq 0 h (bb * WSP_BQ + r) d (fill buf C v g)) (fill buf C v g) =
        fill buf (C \<union> {c_row hl r + d}) v g" by (rule fill_put)
  qed
  also have "(\<Union>d\<in>set [0..<WSP_HD]. {c_row hl r + d}) = row_set hl r" by (auto simp: row_set_def)
  finally show ?thesis by (simp add: hl_def r_def)
qed

lemma qslice_fill:
  assumes "buf \<noteq> bY"
  shows "qslice W rq grp bb buf g = fill buf (q_set g) (core_in W rq g (w_mem g bY) grp bb) g"
proof -
  have "fold (q_row W rq grp bb buf) [0..<wHG g * WSP_BQ] (fill buf {} (core_in W rq g (w_mem g bY) grp bb) g) =
      fill buf ({} \<union> (\<Union>i\<in>set [0..<wHG g * WSP_BQ]. row_set (i div WSP_BQ) (i mod WSP_BQ)))
        (core_in W rq g (w_mem g bY) grp bb) g"
    by (rule fold_sets [where F = "\<lambda>B. fill buf B (core_in W rq g (w_mem g bY) grp bb) g"]) (simp add: q_row_fill [OF assms])
  then show ?thesis by (simp add: qslice_def wsp_par_serial atLeast0LessThan q_rows)
qed


text \<open>Keys and values do not depend on the block.\<close>

lemma core_in_kv: "j \<in> kv_set g \<Longrightarrow> core_in W rq g Y grp bb j = core_in W rq g Y grp 0 j"
  by (simp add: core_in_def kv_set_def Let_def)

lemma kv_rows:
  "(\<Union>i<wHG g * WSP_S. row_set (i div WSP_S) (WSP_BQ + i mod WSP_S) \<union> row_set (i div WSP_S) (WSP_BQ + WSP_S + i mod WSP_S))
     = kv_set g" (is "?U = _")
proof (intro equalityI subsetI)
  fix j assume "j \<in> ?U"
  then obtain i r d where i: "i < wHG g * WSP_S" "d < WSP_HD" "j = c_row (i div WSP_S) r + d"
    "r = WSP_BQ + i mod WSP_S \<or> r = WSP_BQ + WSP_S + i mod WSP_S"
    by (auto simp: row_set_def)
  have "i mod WSP_S < WSP_S" by (simp add: wsp_consts)
  then have "r < WSP_BQ + 2 * WSP_S" "WSP_BQ \<le> r" using i(4) by auto
  then show "j \<in> kv_set g" using i c_row_decode [of r d "i div WSP_S"] by (simp add: kv_set_def less_mult_imp_div_less)
next
  fix j assume j: "j \<in> kv_set g"
  define s where "s = (in_row j - WSP_BQ) mod WSP_S"
  define i where "i = in_head j * WSP_S + s"
  have r: "WSP_BQ \<le> in_row j" "in_head j < wHG g" "in_row j < WSP_BQ + 2 * WSP_S"
    using j by (simp_all add: kv_set_def in_row_def wsp_consts)
  have s: "s < WSP_S" by (simp add: s_def wsp_consts)
  have "in_row j = WSP_BQ + s \<or> in_row j = WSP_BQ + WSP_S + s"
  proof (cases "in_row j < WSP_BQ + WSP_S")
    case True
    then show ?thesis using r by (simp add: s_def)
  next
    case False
    then have "in_row j - WSP_BQ = WSP_S + (in_row j - WSP_BQ - WSP_S)" "in_row j - WSP_BQ - WSP_S < WSP_S" using r by simp_all
    then have "s = in_row j - WSP_BQ - WSP_S" unfolding s_def by (metis mod_add_self1 mod_less)
    then show ?thesis using False by simp
  qed
  moreover have "j \<in> row_set (in_head j) (in_row j)"
    using c_row_encode [of j] by (auto simp: row_set_def wsp_consts intro!: exI [of _ "j mod 64"])
  moreover have "i div WSP_S = in_head j" "i mod WSP_S = s" using s by (simp_all add: i_def)
  moreover have "i < wHG g * WSP_S"
    using block_lt [OF r(2) s] by (simp add: i_def)
  ultimately show "j \<in> ?U" by (intro UN_I [of i]) auto
qed

lemma kv_row_fill:
  assumes v: "v = core_in W rq g (w_mem g bY) grp 0"
  shows "kv_row W rq grp i (fill bC B v g) =
    fill bC (B \<union> (row_set (i div WSP_S) (WSP_BQ + i mod WSP_S) \<union> row_set (i div WSP_S) (WSP_BQ + WSP_S + i mod WSP_S))) v g"
proof -
  define hl r h where "hl = i div WSP_S" and "r = i mod WSP_S" and "h = grp * wHG g + hl"
  have r: "r < WSP_S" by (simp add: r_def wsp_consts)
  have "kv_row W rq grp i (fill bC B v g) =
      fold (\<lambda>d g. w_put bC (c_row hl (WSP_BQ + WSP_S + r) + d) (core_q W rq 2 h r d g)
                 (w_put bC (c_row hl (WSP_BQ + r) + d) (core_q W rq 1 h r d g) g)) [0..<WSP_HD] (fill bC B v g)"
    using cfg_dims [of "fill bC B v g" g] by (simp add: kv_row_def Let_def hl_def r_def h_def)
  also have "\<dots> = fill bC (B \<union> (\<Union>d\<in>set [0..<WSP_HD]. {c_row hl (WSP_BQ + r) + d} \<union> {c_row hl (WSP_BQ + WSP_S + r) + d})) v g"
  proof (rule fold_sets [where F = "\<lambda>B. fill bC B v g"])
    fix d C assume "d \<in> set [0..<WSP_HD]"
    then have d: "d < WSP_HD" by simp
    note q = core_q_same [of "fill bC C v g" g, simplified]
    have "v (c_row hl (WSP_BQ + r) + d) = core_q W rq 1 h r d (fill bC C v g)"
      using q r d c_row_decode [of "WSP_BQ + r" d hl] by (simp add: v core_in_def Let_def h_def bC_def bY_def)
    moreover have "v (c_row hl (WSP_BQ + WSP_S + r) + d) = core_q W rq 2 h r d (fill bC C v g)"
      using q r d c_row_decode [of "WSP_BQ + WSP_S + r" d hl] by (simp add: v core_in_def Let_def h_def bC_def bY_def)
    ultimately show "w_put bC (c_row hl (WSP_BQ + WSP_S + r) + d) (core_q W rq 2 h r d (fill bC C v g))
          (w_put bC (c_row hl (WSP_BQ + r) + d) (core_q W rq 1 h r d (fill bC C v g)) (fill bC C v g)) =
        fill bC (C \<union> ({c_row hl (WSP_BQ + r) + d} \<union> {c_row hl (WSP_BQ + WSP_S + r) + d})) v g"
      by (simp only: fill_put Un_assoc)
  qed
  also have "(\<Union>d\<in>set [0..<WSP_HD]. {c_row hl (WSP_BQ + r) + d} \<union> {c_row hl (WSP_BQ + WSP_S + r) + d}) =
      row_set hl (WSP_BQ + r) \<union> row_set hl (WSP_BQ + WSP_S + r)" by (auto simp: row_set_def)
  finally show ?thesis by (simp add: hl_def r_def)
qed

lemma kv_fill:
  "wsp_par (w_nth g) (wHG g * WSP_S) (kv_row W rq grp) g = fill bC (kv_set g) (core_in W rq g (w_mem g bY) grp 0) g"
proof -
  have "fold (kv_row W rq grp) [0..<wHG g * WSP_S] (fill bC {} (core_in W rq g (w_mem g bY) grp 0) g) =
      fill bC ({} \<union> (\<Union>i\<in>set [0..<wHG g * WSP_S]. row_set (i div WSP_S) (WSP_BQ + i mod WSP_S) \<union>
         row_set (i div WSP_S) (WSP_BQ + WSP_S + i mod WSP_S))) (core_in W rq g (w_mem g bY) grp 0) g"
    by (rule fold_sets [where F = "\<lambda>B. fill bC B (core_in W rq g (w_mem g bY) grp 0) g"]) (simp add: kv_row_fill)
  then show ?thesis by (simp add: wsp_par_serial atLeast0LessThan kv_rows)
qed

text \<open>The copies.\<close>

definition kv_reg :: "nat \<Rightarrow> nat set" where
  "kv_reg hl = {j. c_row hl WSP_BQ \<le> j \<and> j < c_row hl WSP_BQ + 2 * WSP_S * WSP_HD}"

lemma kv_reg_iff: "j \<in> kv_reg hl \<longleftrightarrow> in_head j = hl \<and> WSP_BQ \<le> in_row j"
proof -
  define q where "q = j div 64"
  have "j \<in> kv_reg hl \<longleftrightarrow> (hl * 3375 + 375) * 64 \<le> j \<and> j < (hl * 3375 + 3375) * 64"
    by (auto simp: kv_reg_def c_row_def wsp_consts)
  also have "\<dots> \<longleftrightarrow> hl * 3375 + 375 \<le> q \<and> q < hl * 3375 + 3375"
    unfolding q_def by (simp only: less_eq_div_iff_mult_less_eq div_less_iff_less_mult zero_less_numeral)
  also have "\<dots> \<longleftrightarrow> q div 3375 = hl \<and> 375 \<le> q mod 3375"
  proof
    assume h: "hl * 3375 + 375 \<le> q \<and> q < hl * 3375 + 3375"
    then have "q = hl * 3375 + (q - hl * 3375)" "q - hl * 3375 < 3375" "375 \<le> q - hl * 3375" by auto
    then show "q div 3375 = hl \<and> 375 \<le> q mod 3375" using div_mod_add [of "q - hl * 3375" 3375 hl] by metis
  next
    assume h: "q div 3375 = hl \<and> 375 \<le> q mod 3375"
    have "q = q div 3375 * 3375 + q mod 3375" "q mod 3375 < 3375" by simp_all
    then show "hl * 3375 + 375 \<le> q \<and> q < hl * 3375 + 3375" using h by linarith
  qed
  finally show ?thesis by (simp add: in_head_def in_row_def wsp_consts q_def)
qed

definition fills :: "wst \<Rightarrow> nat set \<Rightarrow> (nat \<Rightarrow> int) \<Rightarrow> wst \<Rightarrow> wst" where
  "fills g0 B v g = (if w_ovl g0 then fill bC4 B v (fill bC3 B v (fill bC2 B v g)) else fill bC2 B v g)"

lemma fill_same: "fill b R v (fill b B v g) = fill b (B \<union> R) v g"
  by (simp add: fill_def) (auto simp: fun_eq_iff)

lemma fill_swap: "a < b \<Longrightarrow> fill a R v (fill b B v g) = fill b B v (fill a R v g)"
  by (simp add: fill_def fun_upd_twist cong: if_cong)

lemma w_copy_fill:
  assumes "w_mem g src = v"
  shows "w_copy dst src off n g = fill dst {j. off \<le> j \<and> j < off + n} v g"
  using assms by (simp add: w_copy_def fill_def cong: if_cong)

lemma kv_copy_step:
  assumes "v = w_mem g bC" "R = {j. off \<le> j \<and> j < off + n}"
  shows "(let g1 = w_copy bC2 bC off n (fills g B v g) in
      if w_ovl (fills g B v g) then w_copy bC4 bC off n (w_copy bC3 bC off n g1) else g1) = fills g (B \<union> R) v g"
proof -
  have o: "w_ovl (fills g B v g) = w_ovl g" by (simp add: fills_def fill_def)
  have c: "w_mem (fills g B v g) bC = v" by (simp add: fills_def assms(1) buf_ids)
  have k: "w_copy dst bC off n h = fill dst R v h" if "w_mem h bC = v" for dst h
    using w_copy_fill [OF that] by (simp add: assms(2))
  have m: "w_mem (fill bC2 R v (fills g B v g)) bC = v" "w_mem (fill bC3 R v (fill bC2 R v (fills g B v g))) bC = v"
    using c by (simp_all add: buf_ids)
  show ?thesis unfolding o Let_def k [OF c] k [OF m(1)] k [OF m(2)]
    by (simp add: fills_def buf_ids fill_swap [of 9 13] fill_swap [of 9 11] fill_swap [of 11 13] fill_same)
qed

lemma kv_copies_fills:
  assumes "w_pair g"
  shows "kv_copies g = fills g (kv_set g) (w_mem g bC) g"
proof -
  have "fold (\<lambda>hl g. (let off = c_row hl WSP_BQ; n = 2 * WSP_S * WSP_HD; g1 = w_copy bC2 bC off n g in
               if w_ovl g then w_copy bC4 bC off n (w_copy bC3 bC off n g1) else g1)) [0..<wHG g]
          (fills g {} (w_mem g bC) g) = fills g ({} \<union> (\<Union>hl\<in>set [0..<wHG g]. kv_reg hl)) (w_mem g bC) g"
    by (rule fold_sets [where F = "\<lambda>B. fills g B (w_mem g bC) g"])
      (simp only: Let_def kv_copy_step [OF refl kv_reg_def, unfolded Let_def])
  moreover have "(\<Union>hl\<in>set [0..<wHG g]. kv_reg hl) = kv_set g" by (auto simp: kv_set_def kv_reg_iff)
  moreover have "fills g {} (w_mem g bC) g = g" by (simp add: fills_def)
  ultimately show ?thesis using assms by (simp add: kv_copies_def)
qed


section \<open>The context\<close>

text \<open>Reference: element \<open>k\<close> of the context, from the output of the core for its block and group.\<close>

definition ctx_blk :: "wst \<Rightarrow> nat \<Rightarrow> nat" where "ctx_blk g k = k div wD g div WSP_BQ"
definition ctx_grp :: "wst \<Rightarrow> nat \<Rightarrow> nat" where "ctx_grp g k = k mod wD g div WSP_HD div wHG g"

definition ctx_elem :: "wlib \<Rightarrow> wst \<Rightarrow> (nat \<Rightarrow> int) \<Rightarrow> nat \<Rightarrow> f32" where
  "ctx_elem W g Ob k =
     (let hl = k mod wD g div WSP_HD mod wHG g; r = k div wD g mod WSP_BQ; d = k mod wD g mod WSP_HD in
      div_elem W (wd_float W (w_cout g)) Ob ((hl * WSP_BQ + r) * (WSP_HD + 1)) d)"

definition blk_set :: "wst \<Rightarrow> nat \<Rightarrow> nat \<Rightarrow> nat set" where
  "blk_set g grp bb = {k. ctx_blk g k = bb \<and> ctx_grp g k = grp}"

text \<open>The heads fill a row exactly.\<close>

definition dims_ok :: "wst \<Rightarrow> bool" where
  "dims_ok g \<longleftrightarrow> 0 < wHG g \<and> wD g = nat (w_NG g) * wHG g * WSP_HD"

lemma ctx_addr:
  assumes "dims_ok g" "grp < nat (w_NG g)" "hl < wHG g" "r < WSP_BQ" "d < WSP_HD"
    and k: "k = (bb * WSP_BQ + r) * wD g + (grp * wHG g + hl) * WSP_HD + d"
  shows "k div wD g = bb * WSP_BQ + r" "k mod wD g = (grp * wHG g + hl) * WSP_HD + d"
proof -
  have "grp * wHG g + hl < nat (w_NG g) * wHG g"
    by (rule block_lt [OF assms(2,3)])
  then have "Suc (grp * wHG g + hl) * WSP_HD \<le> nat (w_NG g) * wHG g * WSP_HD" by (intro mult_le_mono1) simp
  then have c: "(grp * wHG g + hl) * WSP_HD + d < wD g" using assms(1,5) by (simp add: dims_ok_def)
  show "k div wD g = bb * WSP_BQ + r" "k mod wD g = (grp * wHG g + hl) * WSP_HD + d"
    unfolding k add.assoc using div_mod_add [OF c] by simp_all
qed

definition ctx_set :: "wst \<Rightarrow> nat \<Rightarrow> nat \<Rightarrow> nat \<Rightarrow> nat set" where
  "ctx_set g grp bb i =
     {k. \<exists>d<WSP_HD. k = (bb * WSP_BQ + i mod WSP_BQ) * wD g + (grp * wHG g + i div WSP_BQ) * WSP_HD + d}"

lemma ctx_sets:
  assumes "dims_ok g" "grp < nat (w_NG g)"
  shows "(\<Union>i<wHG g * WSP_BQ. ctx_set g grp bb i) = blk_set g grp bb"
proof (intro equalityI subsetI)
  fix k assume "k \<in> (\<Union>i<wHG g * WSP_BQ. ctx_set g grp bb i)"
  then obtain i d where i: "i < wHG g * WSP_BQ" "d < WSP_HD"
    and k: "k = (bb * WSP_BQ + i mod WSP_BQ) * wD g + (grp * wHG g + i div WSP_BQ) * WSP_HD + d"
    by (auto simp: ctx_set_def)
  have hl: "i div WSP_BQ < wHG g" "i mod WSP_BQ < WSP_BQ" using i(1) by (simp_all add: less_mult_imp_div_less wsp_consts)
  note a = ctx_addr [OF assms hl i(2) k]
  then show "k \<in> blk_set g grp bb"
    using div_mod_add [OF hl(1), of grp] div_mod_add [OF hl(2), of bb] div_mod_add [OF i(2), of "grp * wHG g + i div WSP_BQ"]
    by (simp add: blk_set_def ctx_blk_def ctx_grp_def)
next
  fix k assume k: "k \<in> blk_set g grp bb"
  define s c where "s = k div wD g" and "c = k mod wD g"
  define hl r d where "hl = c div WSP_HD mod wHG g" and "r = s mod WSP_BQ" and "d = c mod WSP_HD"
  have "s div WSP_BQ = bb" "c div WSP_HD div wHG g = grp" using k by (simp_all add: blk_set_def ctx_blk_def ctx_grp_def s_def c_def)
  then have "s = bb * WSP_BQ + r" "c div WSP_HD = grp * wHG g + hl" by (auto simp: r_def hl_def)
  moreover from this have "k = s * wD g + ((grp * wHG g + hl) * WSP_HD + d)"
    by (metis c_def s_def d_def div_mult_mod_eq)
  moreover have "hl < wHG g" "r < WSP_BQ" "d < WSP_HD" using assms(1) by (simp_all add: hl_def r_def d_def dims_ok_def wsp_consts)
  moreover have "(hl * WSP_BQ + r) div WSP_BQ = hl" "(hl * WSP_BQ + r) mod WSP_BQ = r"
    using div_mod_add [OF \<open>r < WSP_BQ\<close>] by simp_all
  moreover have "hl * WSP_BQ + r < wHG g * WSP_BQ"
    by (rule block_lt [OF \<open>hl < wHG g\<close> \<open>r < WSP_BQ\<close>])
  ultimately show "k \<in> (\<Union>i<wHG g * WSP_BQ. ctx_set g grp bb i)"
    by (intro UN_I [of "hl * WSP_BQ + r"]) (auto simp: ctx_set_def)
qed

lemma ctx_row_fill:
  assumes "dims_ok g" "grp < nat (w_NG g)" "i < wHG g * WSP_BQ" and v: "v = ctx_elem W g (w_mem g buf)"
  shows "ctx_row W grp bb buf i (fill_ctx B v g) = fill_ctx (B \<union> ctx_set g grp bb i) v g"
proof -
  define hl r where "hl = i div WSP_BQ" and "r = i mod WSP_BQ"
  define a where "a = (\<lambda>d. (bb * WSP_BQ + r) * wD g + (grp * wHG g + hl) * WSP_HD + d)"
  define x where "x = (\<lambda>d. div_elem W (wd_float W (w_cout g)) (w_mem g buf) ((hl * WSP_BQ + r) * (WSP_HD + 1)) d)"
  have hl: "hl < wHG g" "r < WSP_BQ" using assms(3) by (simp_all add: hl_def r_def less_mult_imp_div_less wsp_consts)
  have va: "v (a d) = x d" if d: "d < WSP_HD" for d
    using ctx_addr [OF assms(1,2) hl d, of "a d" bb] div_mod_add [OF hl(1), of grp] div_mod_add [OF hl(2), of bb]
      div_mod_add [OF d, of "grp * wHG g + hl"]
    by (simp add: a_def x_def v ctx_elem_def Let_def add.assoc)
  have "ctx_row W grp bb buf i (fill_ctx B v g) =
      fold (\<lambda>d g'. g'\<lparr>w_ctx := (w_ctx g')((bb * WSP_BQ + r) * wD g' + (grp * wHG g' + hl) * WSP_HD + d :=
          div_elem W (wd_float W (w_cout g')) (w_mem g' buf) ((hl * WSP_BQ + r) * (WSP_HD + 1)) d)\<rparr>)
        [0..<WSP_HD] (fill_ctx B v g)"
    by (simp add: ctx_row_def Let_def hl_def r_def)
  also have "\<dots> = fill_ctx (B \<union> (\<Union>d\<in>set [0..<WSP_HD]. {a d})) v g"
  proof (rule fold_sets [where F = "\<lambda>B. fill_ctx B v g"])
    fix d C assume "d \<in> set [0..<WSP_HD]"
    then have d: "d < WSP_HD" by simp
    have e: "wD (fill_ctx C v g) = wD g" "wHG (fill_ctx C v g) = wHG g" "w_cout (fill_ctx C v g) = w_cout g"
      using cfg_dims [of "fill_ctx C v g" g] cfg_get [of "fill_ctx C v g" g] by simp_all
    show "fill_ctx C v g\<lparr>w_ctx := (w_ctx (fill_ctx C v g))
        ((bb * WSP_BQ + r) * wD (fill_ctx C v g) + (grp * wHG (fill_ctx C v g) + hl) * WSP_HD + d :=
          div_elem W (wd_float W (w_cout (fill_ctx C v g))) (w_mem (fill_ctx C v g) buf) ((hl * WSP_BQ + r) * (WSP_HD + 1)) d)\<rparr> =
      fill_ctx (C \<union> {a d}) v g"
      unfolding e fill_ctx_simps(2) using fill_ctx_put [of v "a d" "x d" C g, OF va [OF d]] by (simp only: a_def x_def)
  qed
  also have "(\<Union>d\<in>set [0..<WSP_HD]. {a d}) = ctx_set g grp bb i" by (auto simp: ctx_set_def a_def hl_def r_def)
  finally show ?thesis .
qed

lemma divb_fill:
  assumes "dims_ok g" "grp < nat (w_NG g)"
  shows "divb W grp bb buf g = fill_ctx (blk_set g grp bb) (ctx_elem W g (w_mem g buf)) g"
proof -
  have "fold (ctx_row W grp bb buf) [0..<wHG g * WSP_BQ] (fill_ctx {} (ctx_elem W g (w_mem g buf)) g) =
      fill_ctx ({} \<union> (\<Union>i\<in>set [0..<wHG g * WSP_BQ]. ctx_set g grp bb i)) (ctx_elem W g (w_mem g buf)) g"
    by (rule fold_sets [where F = "\<lambda>B. fill_ctx B (ctx_elem W g (w_mem g buf)) g"]) (simp add: ctx_row_fill [OF assms])
  then show ?thesis by (simp add: divb_def wsp_par_serial atLeast0LessThan ctx_sets [OF assms])
qed

end
