(* ===== verification/Wsp_Correct.thy ===== *)
theory Wsp_Correct
  imports Wsp_Core
begin

text \<open>
  The encoder on the TPU computes the same result however the attention core is scheduled and however
  many threads there are: a reference without buffers and threads.
\<close>

section \<open>Daemon calls\<close>

lemma w_infer_ok:
  assumes "w_infer W core m i q g = (True, g')"
  shows "cfg g' = cfg g" "w_ctx g' = w_ctx g" "w_fly g' = w_fly g" "w_hb g' = w_hb g"
    "w_mem g' = (w_mem g)(q := wl_tpu W core m (first_n (buf_len g i) (w_mem g i)))"
  using assms by (auto simp: w_infer_def Let_def split: prod.splits if_splits)

lemma w_infer2_ok:
  assumes "w_infer2 W m [i1, q1, i2, q2] g = (True, g')"
  shows "cfg g' = cfg g" "w_ctx g' = w_ctx g" "w_fly g' = w_fly g"
    "w_mem g' = (w_mem g)(q1 := wl_tpu W True m (first_n (c_len g) (w_mem g i1)),
       q2 := wl_tpu W True m (first_n (c_len g) (w_mem g i2)))"
  using assms cfg_dims(4) [of "g\<lparr>w_zs := _, w_TC := _\<rparr>" g]
  by (auto simp: w_infer2_def pair_done_def Let_def split: prod.splits if_splits)

lemma w_submit2_ok:
  assumes "w_submit2 W m [i1, q1, i2, q2] g = (True, g')"
  shows "cfg g' = cfg g" "w_ctx g' = w_ctx g" "w_mem g' = w_mem g"
    "w_fly g' = w_fly g @ [(m, [i1, q1, i2, q2], w_mem g i1, w_mem g i2)]"
  using assms by (auto simp: w_submit2_def Let_def split: prod.splits if_splits)

text \<open>Early or late, the daemon sees the same inputs if they have not been written in between.\<close>

lemma w_wait2_ok:
  assumes "w_wait2 W bs g = (True, g')" "w_fly g = (m, [i1, q1, i2, q2], m1, m2) # r"
    and "first_n (c_len g) (w_mem g i1) = first_n (c_len g) m1" "first_n (c_len g) (w_mem g i2) = first_n (c_len g) m2"
  shows "cfg g' = cfg g" "w_ctx g' = w_ctx g" "w_fly g' = r"
    "w_mem g' = (w_mem g)(q1 := wl_tpu W True m (first_n (c_len g) m1), q2 := wl_tpu W True m (first_n (c_len g) m2))"
proof -
  obtain z se where h: "wl_wait2 W bs (w_zs g, w_TC g) = (True, z, se)"
    using assms(1,2) by (auto simp: w_wait2_def Let_def split: prod.splits if_splits)
  define g1 where "g1 = g\<lparr>w_zs := z, w_TC := se, w_tick := Suc (w_tick g), w_fly := tl (w_fly g)\<rparr>"
  have c: "c_len g1 = c_len g" "cfg g1 = cfg g" using cfg_dims(4) [of g1 g] by (simp_all add: g1_def)
  have "g' = (if wl_late W (wst.w_tick g) then pair_done W m [i1, q1, i2, q2] (w_mem g i1) (w_mem g i2) g1
      else pair_done W m [i1, q1, i2, q2] m1 m2 g1)"
    using assms(1) h by (simp add: w_wait2_def g1_def Let_def assms(2) split: if_splits)
  also have "\<dots> = pair_done W m [i1, q1, i2, q2] m1 m2 g1" by (simp add: pair_done_def c(1) assms(3,4))
  finally have "g' = pair_done W m [i1, q1, i2, q2] m1 m2 g1" .
  then show "cfg g' = cfg g" "w_ctx g' = w_ctx g" "w_fly g' = r"
    "w_mem g' = (w_mem g)(q1 := wl_tpu W True m (first_n (c_len g) m1), q2 := wl_tpu W True m (first_n (c_len g) m2))"
    using c assms(2) by (simp_all add: pair_done_def g1_def)
qed


section \<open>One group of heads\<close>

definition core_out :: "wlib \<Rightarrow> f32 \<Rightarrow> wst \<Rightarrow> (nat \<Rightarrow> int) \<Rightarrow> nat \<Rightarrow> nat \<Rightarrow> nat \<Rightarrow> int" where
  "core_out W rq g Y grp bb = wl_tpu W True 0 (first_n (c_len g) (core_in W rq g Y grp bb))"

definition ref_ctx :: "wlib \<Rightarrow> f32 \<Rightarrow> wst \<Rightarrow> (nat \<Rightarrow> int) \<Rightarrow> nat \<Rightarrow> f32" where
  "ref_ctx W rq g Y k = ctx_elem W g (core_out W rq g Y (ctx_grp g k) (ctx_blk g k)) k"

lemma cfg_core:
  assumes "cfg g = cfg h"
  shows "core_in W rq g = core_in W rq h" "ctx_elem W g = ctx_elem W h" "blk_set g = blk_set h" "kv_set g = kv_set h"
    "q_set g = q_set h" "dims_ok g = dims_ok h" "core_out W rq g = core_out W rq h" "ref_ctx W rq g = ref_ctx W rq h"
proof -
  note d = cfg_dims [OF assms] cfg_get [OF assms]
  have q: "core_qY W rq g = core_qY W rq h" by (simp add: fun_eq_iff core_qY_def d)
  show 1: "core_in W rq g = core_in W rq h" "ctx_elem W g = ctx_elem W h" "blk_set g = blk_set h" "kv_set g = kv_set h"
    "q_set g = q_set h" "dims_ok g = dims_ok h"
    by (simp_all add: fun_eq_iff core_in_def q ctx_elem_def Let_def blk_set_def ctx_blk_def ctx_grp_def kv_set_def q_set_def
        dims_ok_def d)
  show 2: "core_out W rq g = core_out W rq h" by (simp add: fun_eq_iff core_out_def 1 d)
  show "ref_ctx W rq g = ref_ctx W rq h" by (simp add: fun_eq_iff ref_ctx_def 1 2 ctx_blk_def ctx_grp_def d)
qed

definition in_bufs :: "wst \<Rightarrow> nat set" where
  "in_bufs g = {bC} \<union> (if w_pair g then {bC2} else {}) \<union> (if w_pair g \<and> w_ovl g then {bC3, bC4} else {})"

text \<open>The inputs hold the keys and values of the group.\<close>

definition core_ready :: "wlib \<Rightarrow> f32 \<Rightarrow> nat \<Rightarrow> wst \<Rightarrow> (nat \<Rightarrow> int) \<Rightarrow> wst \<Rightarrow> bool" where
  "core_ready W rq grp g Y g' \<longleftrightarrow> cfg g' = cfg g \<and> w_mem g' bY = Y \<and>
     (\<forall>b\<in>in_bufs g. \<forall>j\<in>kv_set g. w_mem g' b j = core_in W rq g Y grp 0 j)"

lemma kv_phase:
  fixes g W rq grp
  defines "g1 \<equiv> kv_copies (wsp_par (w_nth g) (wHG g * WSP_S) (kv_row W rq grp) g)"
  shows "core_ready W rq grp g (w_mem g bY) g1" "w_ctx g1 = w_ctx g" "w_fly g1 = w_fly g"
proof -
  define v where "v = core_in W rq g (w_mem g bY) grp 0"
  define g0 where "g0 = fill bC (kv_set g) v g"
  have g1: "g1 = kv_copies g0" by (simp add: g1_def kv_fill g0_def v_def)
  have c: "cfg g0 = cfg g" "kv_set g0 = kv_set g" using cfg_core(4) [of g0 g] by (simp_all add: g0_def)
  note f = cfg_get [OF c(1)]
  have "core_ready W rq grp g (w_mem g bY) g1 \<and> w_ctx g1 = w_ctx g \<and> w_fly g1 = w_fly g"
  proof (cases "w_pair g")
    case True
    then have "g1 = fills g0 (kv_set g) (w_mem g0 bC) g0" unfolding g1 using kv_copies_fills [of g0] f c(2) by simp
    then show ?thesis using True f
      by (auto simp: core_ready_def in_bufs_def fills_def g0_def v_def buf_ids split: if_splits)
  next
    case False
    then have "g1 = g0" unfolding g1 kv_copies_def using f by simp
    then show ?thesis using False by (simp add: core_ready_def in_bufs_def g0_def v_def buf_ids)
  qed
  then show "core_ready W rq grp g (w_mem g bY) g1" "w_ctx g1 = w_ctx g" "w_fly g1 = w_fly g" by simp_all
qed

lemma ready_qslice:
  assumes "core_ready W rq grp g Y g'" "b \<noteq> bY"
  shows "core_ready W rq grp g Y (qslice W rq grp bb b g')"
  using assms cfg_core(5) [of g' g]
  by (auto simp: core_ready_def qslice_fill [OF assms(2)] q_set_def kv_set_def)

text \<open>With the queries of a block an input is complete.\<close>

lemma ready_input:
  assumes "core_ready W rq grp g Y g'" "b \<in> in_bufs g" "b \<noteq> bY"
  shows "first_n (c_len g) (w_mem (qslice W rq grp bb b g') b) = first_n (c_len g) (core_in W rq g Y grp bb)"
proof
  fix j
  have c: "cfg g' = cfg g" "w_mem g' bY = Y" using assms(1) by (simp_all add: core_ready_def)
  have "w_mem g' b j = core_in W rq g Y grp bb j" if "j < c_len g" "j \<notin> q_set g"
    using that in_sets [OF that(1)] assms(1,2) core_in_kv [of j g W rq Y grp bb] by (auto simp: core_ready_def)
  then show "first_n (c_len g) (w_mem (qslice W rq grp bb b g') b) j = first_n (c_len g) (core_in W rq g Y grp bb) j"
    by (simp add: first_n_def qslice_fill [OF assms(3)] cfg_core [OF c(1)] c(2))
qed

text \<open>What is left after a block: outputs and sessions change, and the context has the block.\<close>

lemma divb_ref:
  assumes "core_ready W rq grp g Y g'" "dims_ok g" "grp < nat (w_NG g)" "w_mem g' buf = core_out W rq g Y grp bb"
  shows "divb W grp bb buf g' = fill_ctx (blk_set g grp bb) (ref_ctx W rq g Y) g'"
proof -
  have c: "cfg g' = cfg g" using assms(1) by (simp add: core_ready_def)
  have "divb W grp bb buf g' = fill_ctx (blk_set g grp bb) (ctx_elem W g (core_out W rq g Y grp bb)) g'"
    using divb_fill [of g' grp W bb buf] assms(2-4) cfg_core [OF c] cfg_get [OF c] by simp
  then show ?thesis by (simp add: fill_ctx_def ref_ctx_def blk_set_def fun_eq_iff cong: if_cong)
qed

lemma ready_fill_ctx [simp]: "core_ready W rq grp g Y (fill_ctx B v g') = core_ready W rq grp g Y g'"
  by (simp add: core_ready_def)

lemma ready_outputs:
  assumes "core_ready W rq grp g Y g'" "cfg h = cfg g'" "\<And>b. b \<in> in_bufs g \<Longrightarrow> w_mem h b = w_mem g' b" "w_mem h bY = w_mem g' bY"
  shows "core_ready W rq grp g Y h"
  using assms by (simp add: core_ready_def)

lemma fill_ctx_Un: "fill_ctx A v (fill_ctx B v g) = fill_ctx (B \<union> A) v g"
  by (simp add: fill_ctx_def) (auto simp: fun_eq_iff)


lemma buf_ids_ne:
  "bC \<noteq> bY" "bC2 \<noteq> bY" "bC3 \<noteq> bY" "bC4 \<noteq> bY" "bO \<noteq> bY" "bO2 \<noteq> bY" "bO3 \<noteq> bY" "bO4 \<noteq> bY"
  "buf_len g bC = c_len g" "bO2 \<noteq> bO" "bO \<noteq> bO2" "bO3 \<noteq> bO4" "bO4 \<noteq> bO3" "bC2 \<noteq> bC" "bC \<noteq> bC2" "bC3 \<noteq> bC4" "bC4 \<noteq> bC3"
  "b \<in> in_bufs g \<Longrightarrow> b \<noteq> bO \<and> b \<noteq> bO2 \<and> b \<noteq> bO3 \<and> b \<noteq> bO4 \<and> b \<noteq> bY"
  by (auto simp: buf_ids buf_len_def in_bufs_def split: if_splits)

lemma core_block_ok:
  assumes rd: "core_ready W rq grp g Y g'" and dm: "dims_ok g" "grp < nat (w_NG g)"
    and ok: "core_block W rq grp b g' = (True, h)"
  shows "core_ready W rq grp g Y h \<and> w_fly h = w_fly g' \<and>
    w_ctx h = w_ctx (fill_ctx (\<Union>bb\<in>(if w_pair g then {b, b + 1} else {b}). blk_set g grp bb) (ref_ctx W rq g Y) g')"
proof -
  have c: "cfg g' = cfg g" using rd by (simp add: core_ready_def)
  define g1 where "g1 = qslice W rq grp b bC g'"
  have r1: "core_ready W rq grp g Y g1" unfolding g1_def by (rule ready_qslice [OF rd]) (simp add: buf_ids_ne)
  have c1: "cfg g1 = cfg g" "w_pair g' = w_pair g" "c_len g1 = c_len g" "w_ctx g1 = w_ctx g'" "w_fly g1 = w_fly g'"
    using r1 cfg_get [OF c] cfg_dims [of g1 g] by (simp_all add: core_ready_def g1_def qslice_fill buf_ids_ne)
  have i1: "first_n (c_len g) (w_mem g1 bC) = first_n (c_len g) (core_in W rq g Y grp b)"
    unfolding g1_def by (rule ready_input [OF rd]) (simp_all add: in_bufs_def buf_ids_ne)
  show ?thesis
  proof (cases "w_pair g")
    case False
    obtain g2 where g2: "w_infer W True 0 bC bO g1 = (True, g2)" "h = divb W grp b bO g2"
      using ok False c1(2) by (auto simp: core_block_def Let_def g1_def split: prod.splits bool.splits)
    note f = w_infer_ok [OF g2(1)]
    have r2: "core_ready W rq grp g Y g2"
      by (rule ready_outputs [OF r1 f(1)]) (use f(5) buf_ids_ne in auto)
    have "w_mem g2 bO = core_out W rq g Y grp b" using f(5) i1 by (simp add: core_out_def buf_ids_ne c1(3))
    then have "h = fill_ctx (blk_set g grp b) (ref_ctx W rq g Y) g2" using divb_ref [OF r2 dm] g2(2) by simp
    then show ?thesis using r2 f c1 False by (simp cong: if_cong)
  next
    case True
    define g2 where "g2 = qslice W rq grp (b + 1) bC2 g1"
    have r2: "core_ready W rq grp g Y g2" unfolding g2_def by (rule ready_qslice [OF r1]) (simp add: buf_ids_ne)
    have c2: "c_len g2 = c_len g" "w_ctx g2 = w_ctx g'" "w_fly g2 = w_fly g'" "w_mem g2 bC = w_mem g1 bC"
      using r2 c1 cfg_dims [of g2 g] by (simp_all add: core_ready_def g2_def qslice_fill buf_ids_ne)
    have i2: "first_n (c_len g) (w_mem g2 bC2) = first_n (c_len g) (core_in W rq g Y grp (b + 1))"
      unfolding g2_def by (rule ready_input [OF r1]) (simp_all add: in_bufs_def buf_ids_ne True)
    obtain g3 where g3: "w_infer2 W 0 [bC, bO, bC2, bO2] g2 = (True, g3)" "h = divb W grp (b + 1) bO2 (divb W grp b bO g3)"
      using ok True c1(2) by (auto simp: core_block_def Let_def g1_def g2_def split: prod.splits bool.splits)
    note f = w_infer2_ok [OF g3(1)]
    have r3: "core_ready W rq grp g Y g3"
      by (rule ready_outputs [OF r2 f(1)]) (use f(4) buf_ids_ne in auto)
    have m: "w_mem g3 bO = core_out W rq g Y grp b" "w_mem g3 bO2 = core_out W rq g Y grp (b + 1)"
      using f(4) i1 i2 by (simp_all add: core_out_def buf_ids_ne c2)
    have d1: "divb W grp b bO g3 = fill_ctx (blk_set g grp b) (ref_ctx W rq g Y) g3" using divb_ref [OF r3 dm m(1)] .
    have "h = fill_ctx (blk_set g grp (b + 1)) (ref_ctx W rq g Y) (fill_ctx (blk_set g grp b) (ref_ctx W rq g Y) g3)"
      unfolding g3(2) d1 by (rule divb_ref [OF _ dm]) (use r3 m(2) in simp_all)
    then show ?thesis using r3 f c2 True by (simp add: fill_ctx_Un) (auto simp: fun_eq_iff)
  qed
qed

lemma core_blocks_ok:
  assumes "core_ready W rq grp g Y g'" "dims_ok g" "grp < nat (w_NG g)" "core_blocks W rq grp bs g' = (True, h)"
  shows "core_ready W rq grp g Y h \<and> w_fly h = w_fly g' \<and>
    w_ctx h = w_ctx (fill_ctx (\<Union>b\<in>set bs. \<Union>bb\<in>(if w_pair g then {b, b + 1} else {b}). blk_set g grp bb) (ref_ctx W rq g Y) g')"
  using assms(1,4)
proof (induction bs arbitrary: g')
  case (Cons b bs)
  obtain g1 where g1: "core_block W rq grp b g' = (True, g1)" "core_blocks W rq grp bs g1 = (True, h)"
    using Cons.prems(2) by (auto split: prod.splits bool.splits)
  note a = core_block_ok [OF Cons.prems(1) assms(2,3) g1(1)]
  then show ?case using Cons.IH [of g1] g1(2) by (auto simp: fun_eq_iff)
qed simp

lemma core_overlap_ok:
  assumes rd: "core_ready W rq grp g Y g'" and dm: "dims_ok g" "grp < nat (w_NG g)" and p: "w_pair g" "w_ovl g" "w_fly g' = []"
    and ok: "core_overlap W rq grp g' = (True, h)"
  shows "core_ready W rq grp g Y h \<and> w_fly h = [] \<and>
    w_ctx h = w_ctx (fill_ctx (\<Union>bb\<in>{0, 1, 2, 3}. blk_set g grp bb) (ref_ctx W rq g Y) g')"
proof -
  define a1 a2 where "a1 = qslice W rq grp 0 bC g'" and "a2 = qslice W rq grp 1 bC2 a1"
  have ra1: "core_ready W rq grp g Y a1" unfolding a1_def by (rule ready_qslice [OF rd]) (simp add: buf_ids_ne)
  have ra2: "core_ready W rq grp g Y a2" unfolding a2_def by (rule ready_qslice [OF ra1]) (simp add: buf_ids_ne)
  have ib: "bC \<in> in_bufs g" "bC2 \<in> in_bufs g" "bC3 \<in> in_bufs g" "bC4 \<in> in_bufs g" using p by (simp_all add: in_bufs_def)
  let ?n = "first_n (c_len g)" and ?c = "core_in W rq g Y grp"
  have i0: "?n (w_mem a2 bC) = ?n (?c 0)"
    using ready_input [OF rd ib(1), of 0] by (simp add: a2_def a1_def qslice_fill buf_ids_ne)
  have i1: "?n (w_mem a2 bC2) = ?n (?c 1)" unfolding a2_def by (rule ready_input [OF ra1 ib(2)]) (simp add: buf_ids_ne)
  obtain s1 where s1: "w_submit2 W 0 [bC, bO, bC2, bO2] a2 = (True, s1)"
    using ok by (auto simp: core_overlap_def a1_def a2_def split: prod.splits bool.splits)
  note f1 = w_submit2_ok [OF s1]
  have rs1: "core_ready W rq grp g Y s1" by (rule ready_outputs [OF ra2 f1(1)]) (use f1 in simp_all)
  define a3 a4 where "a3 = qslice W rq grp 2 bC3 s1" and "a4 = qslice W rq grp 3 bC4 a3"
  have ra3: "core_ready W rq grp g Y a3" unfolding a3_def by (rule ready_qslice [OF rs1]) (simp add: buf_ids_ne)
  have ra4: "core_ready W rq grp g Y a4" unfolding a4_def by (rule ready_qslice [OF ra3]) (simp add: buf_ids_ne)
  have i2: "?n (w_mem a4 bC3) = ?n (?c 2)"
    using ready_input [OF rs1 ib(3), of 2] by (simp add: a4_def a3_def qslice_fill buf_ids_ne)
  have i3: "?n (w_mem a4 bC4) = ?n (?c 3)" unfolding a4_def by (rule ready_input [OF ra3 ib(4)]) (simp add: buf_ids_ne)
  have i01: "w_mem a4 bC = w_mem a2 bC" "w_mem a4 bC2 = w_mem a2 bC2" "w_fly a4 = w_fly s1"
    using f1 by (simp_all add: a4_def a3_def qslice_fill buf_ids)
  obtain s2 where s2: "w_submit2 W 0 [bC3, bO3, bC4, bO4] a4 = (True, s2)"
    using ok s1 by (auto simp: core_overlap_def a1_def a2_def a3_def a4_def split: prod.splits bool.splits)
  note f2 = w_submit2_ok [OF s2]
  have rs2: "core_ready W rq grp g Y s2" by (rule ready_outputs [OF ra4 f2(1)]) (use f2 in simp_all)
  have cl: "c_len x = c_len g" if "core_ready W rq grp g Y x" for x using cfg_dims [of x g] that by (simp add: core_ready_def)
  have fl2: "w_fly s2 = [(0, [bC, bO, bC2, bO2], w_mem a2 bC, w_mem a2 bC2), (0, [bC3, bO3, bC4, bO4], w_mem a4 bC3, w_mem a4 bC4)]"
    using f1(4) f2(4) i01(3) p(3) by (simp add: a2_def a1_def qslice_fill buf_ids_ne)
  obtain s3 where s3: "w_wait2 W [bC, bO, bC2, bO2] s2 = (True, s3)"
    using ok s1 s2 by (auto simp: core_overlap_def a1_def a2_def a3_def a4_def split: prod.splits bool.splits)
  have "w_mem s2 bC = w_mem a2 bC" "w_mem s2 bC2 = w_mem a2 bC2" using f2(3) i01 by simp_all
  note f3 = w_wait2_ok [OF s3 fl2, unfolded this, OF refl refl]
  have rs3: "core_ready W rq grp g Y s3" by (rule ready_outputs [OF rs2 f3(1)]) (use f3(4) buf_ids_ne in auto)
  have m: "w_mem s3 bO = core_out W rq g Y grp 0" "w_mem s3 bO2 = core_out W rq g Y grp 1"
    using f3(4) i0 i1 by (simp_all add: core_out_def buf_ids_ne cl [OF rs2])
  define d1 d2 where "d1 = divb W grp 0 bO s3" and "d2 = divb W grp 1 bO2 d1"
  have d1: "d1 = fill_ctx (blk_set g grp 0) (ref_ctx W rq g Y) s3" unfolding d1_def by (rule divb_ref [OF rs3 dm m(1)])
  have d2: "d2 = fill_ctx (blk_set g grp 1) (ref_ctx W rq g Y) d1"
    unfolding d2_def by (rule divb_ref [OF _ dm]) (use rs3 m(2) in \<open>simp_all add: d1\<close>)
  have rd2: "core_ready W rq grp g Y d2" using rs3 by (simp add: d1 d2)
  have "w_mem d2 = w_mem s3" by (simp add: d1 d2)
  then have m4: "w_mem d2 bC3 = w_mem a4 bC3" "w_mem d2 bC4 = w_mem a4 bC4" using f3(4) f2(3) by (simp_all add: buf_ids)
  have fl3: "w_fly d2 = [(0, [bC3, bO3, bC4, bO4], w_mem a4 bC3, w_mem a4 bC4)]" using f3(3) by (simp add: d1 d2)
  obtain s4 where s4: "w_wait2 W [bC3, bO3, bC4, bO4] d2 = (True, s4)" "h = divb W grp 3 bO4 (divb W grp 2 bO3 s4)"
    using ok s1 s2 s3 by (auto simp: core_overlap_def a1_def a2_def a3_def a4_def d1_def d2_def split: prod.splits bool.splits)
  note f4 = w_wait2_ok [OF s4(1) fl3, unfolded m4, OF refl refl]
  have rs4: "core_ready W rq grp g Y s4" by (rule ready_outputs [OF rd2 f4(1)]) (use f4(4) buf_ids_ne in auto)
  have m2: "w_mem s4 bO3 = core_out W rq g Y grp 2" "w_mem s4 bO4 = core_out W rq g Y grp 3"
    using f4(4) i2 i3 by (simp_all add: core_out_def buf_ids_ne cl [OF rd2])
  have d3: "divb W grp 2 bO3 s4 = fill_ctx (blk_set g grp 2) (ref_ctx W rq g Y) s4" by (rule divb_ref [OF rs4 dm m2(1)])
  have "h = fill_ctx (blk_set g grp 3) (ref_ctx W rq g Y) (fill_ctx (blk_set g grp 2) (ref_ctx W rq g Y) s4)"
    unfolding s4(2) d3 by (rule divb_ref [OF _ dm]) (use rs4 m2(2) in simp_all)
  moreover have "w_ctx s3 = w_ctx g'" using f3(2) f2(2) f1(2) by (simp add: a1_def a2_def a3_def a4_def qslice_fill buf_ids_ne)
  ultimately show ?thesis using rs4 f4 by (simp add: d1 d2) (auto simp: fun_eq_iff)
qed


lemma core_group_ok:
  assumes dm: "dims_ok g" "grp < nat (w_NG g)" and p: "w_ovl g \<Longrightarrow> w_pair g" "w_fly g = []"
    and ok: "core_group W rq grp g = (True, h)"
  shows "cfg h = cfg g \<and> w_mem h bY = w_mem g bY \<and> w_fly h = [] \<and>
    w_ctx h = (\<lambda>k. if ctx_grp g k = grp \<and> ctx_blk g k < WSP_NB then ref_ctx W rq g (w_mem g bY) k else w_ctx g k)"
proof -
  define g1 where "g1 = kv_copies (wsp_par (w_nth g) (wHG g * WSP_S) (kv_row W rq grp) g)"
  note kv = kv_phase [where W = W and rq = rq and grp = grp and g = g, folded g1_def]
  have c: "w_ovl g1 = w_ovl g" "w_pair g1 = w_pair g" "w_fly g1 = []"
    using kv cfg_get [of g1 g] p(2) by (simp_all add: core_ready_def)
  have "\<exists>B. core_ready W rq grp g (w_mem g bY) h \<and> w_fly h = [] \<and> B = {0..<WSP_NB} \<and>
      w_ctx h = w_ctx (fill_ctx (\<Union>bb\<in>B. blk_set g grp bb) (ref_ctx W rq g (w_mem g bY)) g1)"
  proof (cases "w_ovl g")
    case True
    have "{0..<WSP_NB} = {0, 1, 2, 3}" by (auto simp: wsp_consts)
    then show ?thesis
      using core_overlap_ok [OF kv(1) dm p(1) [OF True] True c(3)] ok True c
      by (simp add: core_group_def g1_def Let_def)
  next
    case False
    have st: "core_steps g1 = (if w_pair g then [0, 2] else [0, 1, 2, 3])"
      by (simp add: core_steps_def c wsp_consts upt_rec)
    have "(\<Union>b\<in>set (core_steps g1). \<Union>bb\<in>(if w_pair g then {b, b + 1} else {b}). blk_set g grp bb) =
        (\<Union>bb\<in>{0..<WSP_NB}. blk_set g grp bb)" by (auto simp: st wsp_consts less_Suc_eq numeral_eq_Suc)
    then show ?thesis
      using core_blocks_ok [OF kv(1) dm, of "core_steps g1" h] ok False c
      by (simp add: core_group_def g1_def Let_def)
  qed
  then show ?thesis using kv(2) by (auto simp: core_ready_def blk_set_def fun_eq_iff)
qed

section \<open>All groups\<close>

lemma core_groups_ok:
  assumes "dims_ok g" "w_ovl g \<Longrightarrow> w_pair g" "w_fly g = []" "core_groups W rq ks g = (True, h)" "\<forall>k\<in>set ks. k < nat (w_NG g)"
  shows "cfg h = cfg g \<and> w_mem h bY = w_mem g bY \<and> w_fly h = [] \<and>
    w_ctx h = (\<lambda>k. if ctx_grp g k \<in> set ks \<and> ctx_blk g k < WSP_NB then ref_ctx W rq g (w_mem g bY) k else w_ctx g k)"
  using assms
proof (induction ks arbitrary: g)
  case (Cons k ks)
  obtain g1 where g1: "core_group W rq k g = (True, g1)" "core_groups W rq ks g1 = (True, h)"
    using Cons.prems(4) by (auto split: prod.splits bool.splits)
  note a = core_group_ok [OF Cons.prems(1) _ Cons.prems(2,3) g1(1)]
  have a: "cfg g1 = cfg g" "w_mem g1 bY = w_mem g bY" "w_fly g1 = []"
    "w_ctx g1 = (\<lambda>j. if ctx_grp g j = k \<and> ctx_blk g j < WSP_NB then ref_ctx W rq g (w_mem g bY) j else w_ctx g j)"
    using a Cons.prems(5) by simp_all
  have e: "ctx_grp g1 = ctx_grp g" "ctx_blk g1 = ctx_blk g"
    using cfg_dims [OF a(1)] by (simp_all add: fun_eq_iff ctx_grp_def ctx_blk_def)
  have "cfg h = cfg g1 \<and> w_mem h bY = w_mem g1 bY \<and> w_fly h = [] \<and>
      w_ctx h = (\<lambda>j. if ctx_grp g1 j \<in> set ks \<and> ctx_blk g1 j < WSP_NB then ref_ctx W rq g1 (w_mem g1 bY) j else w_ctx g1 j)"
    by (rule Cons.IH) (use Cons.prems g1 a cfg_core [OF a(1)] cfg_get [OF a(1)] in auto)
  moreover have "ref_ctx W rq g1 = ref_ctx W rq g" by (rule cfg_core(8) [OF a(1)])
  ultimately have "cfg h = cfg g" "w_mem h bY = w_mem g bY" "w_fly h = []"
    "w_ctx h = (\<lambda>j. if ctx_grp g j \<in> set ks \<and> ctx_blk g j < WSP_NB then ref_ctx W rq g (w_mem g bY) j else w_ctx g1 j)"
    by (simp_all add: e a(1-3) cong: if_cong)
  then show ?case using a(4) by auto
qed simp

text \<open>Every element of the context belongs to a group and a block.\<close>

lemma ctx_all:
  assumes "dims_ok g" "k < wSD g"
  shows "ctx_grp g k < nat (w_NG g)" "ctx_blk g k < WSP_NB"
proof -
  have "0 < wD g" using assms(2) by (cases "wD g") (simp_all add: wSD_def)
  then have "k mod wD g < nat (w_NG g) * wHG g * WSP_HD" using assms(1) by (metis dims_ok_def mod_less_divisor)
  then have "k mod wD g div WSP_HD < nat (w_NG g) * wHG g" by (rule less_mult_imp_div_less)
  then show "ctx_grp g k < nat (w_NG g)" unfolding ctx_grp_def by (rule less_mult_imp_div_less)
  have "k div wD g < WSP_S" using assms(2) by (intro less_mult_imp_div_less) (simp add: wSD_def)
  then show "ctx_blk g k < WSP_NB" by (simp add: ctx_blk_def wsp_consts div_less_iff_less_mult)
qed


section \<open>The layers\<close>

text \<open>Reference: layer norm and one layer as functions of the row values, without buffers and threads.\<close>

definition ref_ln :: "wlib \<Rightarrow> wst \<Rightarrow> nat \<Rightarrow> nat \<Rightarrow> (nat \<Rightarrow> f32) \<Rightarrow> nat \<Rightarrow> f32" where
  "ref_ln W g L k x i =
     ln_elem W (wD g) (\<lambda>d. x (i div wD g * wD g + d)) (ln_weight g L k (i mod wD g)) (ln_weight g L (Suc k) (i mod wD g))
       (i mod wD g)"

definition ref_pack :: "wlib \<Rightarrow> wst \<Rightarrow> nat \<Rightarrow> (nat \<Rightarrow> int) \<Rightarrow> nat \<Rightarrow> int" where
  "ref_pack W g m v = wl_tpu W False m (first_n (wSD g) v)"

definition ref_proj :: "wlib \<Rightarrow> wst \<Rightarrow> nat \<Rightarrow> (nat \<Rightarrow> f32) \<Rightarrow> nat \<Rightarrow> int" where
  "ref_proj W g L x =
     ref_pack W g (3 * L) (\<lambda>i. quant16 W (ref_ln W g L 0 x i) (wd_float W (la_pin (w_lay g ! L))) 0)"

definition ref_attn :: "wlib \<Rightarrow> wst \<Rightarrow> nat \<Rightarrow> (nat \<Rightarrow> f32) \<Rightarrow> nat \<Rightarrow> f32" where
  "ref_attn W g L x i =
     (let la = w_lay g ! L;
          A = ref_pack W g (3 * L + 1)
                (\<lambda>i. quant8 W (ref_ctx W (core_rq W la g) g (ref_proj W g L x) i) (wd_float W (la_wisc la)) (la_wizp la))
      in fl_add W (x i) (dequant W (A i) (la_wozp la) (wd_float W (la_wosc la))))"

definition ref_layer :: "wlib \<Rightarrow> wst \<Rightarrow> nat \<Rightarrow> (nat \<Rightarrow> f32) \<Rightarrow> nat \<Rightarrow> f32" where
  "ref_layer W g L x i =
     (let la = w_lay g ! L; x1 = ref_attn W g L x;
          G = ref_pack W g (3 * L + 2)
                (\<lambda>i. quant16 W (ref_ln W g L 2 x1 i) (wd_float W (la_fisc la)) (la_fizp la))
      in fl_add W (x1 i) (dequant W (G i) (la_fozp la) (wd_float W (la_fosc la))))"

definition enc_ref :: "wlib \<Rightarrow> wst \<Rightarrow> (nat \<Rightarrow> f32) \<Rightarrow> nat \<Rightarrow> f32" where
  "enc_ref W g x = fold (ref_layer W g) [0..<nat (w_NL g)] x"

text \<open>Closed forms of the remaining loops.\<close>

lemma fold_put_mem:
  assumes "\<And>i h. cfg h = cfg g \<Longrightarrow> w_hb h = w_hb g \<Longrightarrow> w_ctx h = w_ctx g \<Longrightarrow> f i h = v i"
  shows "fold (\<lambda>i g. w_put b i (f i g) g) [0..<n] g = fill b {0..<n} v g"
proof -
  have "fold (\<lambda>i g. w_put b i (f i g) g) [0..<n] (fill b {} v g) = fill b ({} \<union> (\<Union>i\<in>set [0..<n]. {i})) v g"
    by (rule fold_sets [where F = "\<lambda>B. fill b B v g"]) (rule fill_put, rule assms [symmetric], simp_all)
  then show ?thesis by simp
qed

lemma fold_upd: "fold (\<lambda>i x. x(i := f i (x i))) [0..<n] x = (\<lambda>i. if i < n then f i (x i) else x i)"
  by (induction n) (auto simp: fun_eq_iff less_Suc_eq)

lemma residual_eq: "residual W th A zp osc n x = (\<lambda>i. if i < n then fl_add W (x i) (dequant W (A i) zp (wd_float W osc)) else x i)"
  unfolding residual_def wsp_par_serial by (rule fold_upd)

definition fill_hb :: "nat set \<Rightarrow> (nat \<Rightarrow> f32) \<Rightarrow> wst \<Rightarrow> wst" where
  "fill_hb B v g = g\<lparr>w_hb := (\<lambda>j. if j \<in> B then v j else w_hb g j)\<rparr>"

lemma fill_hb_simps [simp]:
  "cfg (fill_hb B v g) = cfg g" "w_mem (fill_hb B v g) = w_mem g" "w_fly (fill_hb B v g) = w_fly g" "w_ctx (fill_hb B v g) = w_ctx g"
  "w_hb (fill_hb B v g) = (\<lambda>j. if j \<in> B then v j else w_hb g j)" "fill_hb {} v g = g" "w_T (fill_hb B v g) = w_T g"
  "w_zs (fill_hb B v g) = w_zs g"
  by (simp_all add: fill_hb_def)

lemma ln_row_fill:
  "wsp_ln_row W D x gm b off hb = (\<lambda>j. if off \<le> j \<and> j < off + D then ln_elem W D x (gm (j - off)) (b (j - off)) (j - off) else hb j)"
proof -
  have "fold (\<lambda>d m. m(off + d := ln_elem W D x (gm d) (b d) d)) [0..<n] hb =
      (\<lambda>j. if off \<le> j \<and> j < off + n then ln_elem W D x (gm (j - off)) (b (j - off)) (j - off) else hb j)" for n
    by (induction n) (auto simp: fun_eq_iff less_Suc_eq)
  then show ?thesis by (simp add: wsp_ln_row_def)
qed

lemma ln_rows_fill: "ln_rows W L k x g = fill_hb {0..<wSD g} (ref_ln W g L k x) g"
proof -
  define v where "v = ref_ln W g L k x"
  define A where "A = (\<lambda>r. {r * wD g..<r * wD g + wD g})"
  have "fold (\<lambda>r g. g\<lparr>w_hb := wsp_ln_row W (wD g) (\<lambda>d. x (r * wD g + d)) (ln_weight g L k) (ln_weight g L (Suc k))
                  (r * wD g) (w_hb g)\<rparr>) [0..<WSP_S] (fill_hb {} v g) =
      fill_hb ({} \<union> (\<Union>r\<in>set [0..<WSP_S]. A r)) v g"
  proof (rule fold_sets [where F = "\<lambda>B. fill_hb B v g"])
    fix r B assume "r \<in> set [0..<WSP_S]"
    have e: "wD (fill_hb B v g) = wD g" "ln_weight (fill_hb B v g) L k' = ln_weight g L k'" for k'
      using cfg_dims [of "fill_hb B v g" g] by (simp_all add: fun_eq_iff)
    have va: "v j = ln_elem W (wD g) (\<lambda>d. x (r * wD g + d)) (ln_weight g L k (j - r * wD g)) (ln_weight g L (Suc k) (j - r * wD g))
        (j - r * wD g)" if "j \<in> A r" for j
    proof -
      have j: "j = r * wD g + (j - r * wD g)" "j - r * wD g < wD g" using that by (auto simp: A_def)
      then have "j div wD g = r" "j mod wD g = j - r * wD g" by (metis div_mod_add)+
      then show ?thesis by (simp add: v_def ref_ln_def)
    qed
    show "fill_hb B v g\<lparr>w_hb := wsp_ln_row W (wD (fill_hb B v g)) (\<lambda>d. x (r * wD (fill_hb B v g) + d))
            (ln_weight (fill_hb B v g) L k) (ln_weight (fill_hb B v g) L (Suc k)) (r * wD (fill_hb B v g)) (w_hb (fill_hb B v g))\<rparr> =
        fill_hb (B \<union> A r) v g"
      unfolding e ln_row_fill using va by (simp add: fill_hb_def) (auto simp: fun_eq_iff A_def)
  qed
  moreover have "(\<Union>r\<in>set [0..<WSP_S]. A r) = {0..<wSD g}"
  proof (intro equalityI subsetI)
    fix j assume "j \<in> (\<Union>r\<in>set [0..<WSP_S]. A r)"
    then obtain r d where "r < WSP_S" "d < wD g" "j = r * wD g + d" by (auto simp: A_def dest!: le_Suc_ex)
    then show "j \<in> {0..<wSD g}" using block_lt [of r WSP_S d "wD g"] by (simp add: wSD_def)
  next
    fix j assume "j \<in> {0..<wSD g}"
    then have j: "j < WSP_S * wD g" by (simp add: wSD_def)
    then have "0 < wD g" by (cases "wD g") simp_all
    then have "j div wD g * wD g \<le> j" "j < j div wD g * wD g + wD g" "j div wD g < WSP_S"
      using j dividend_less_div_times [of "wD g" j] by (simp_all add: less_mult_imp_div_less add.commute)
    then show "j \<in> (\<Union>r\<in>set [0..<WSP_S]. A r)" by (intro UN_I [of "j div wD g"]) (simp_all add: A_def)
  qed
  ultimately show ?thesis by (simp add: ln_rows_def wsp_par_serial v_def)
qed


lemma cfg_ref:
  assumes "cfg g = cfg h"
  shows "ref_ln W g = ref_ln W h" "ref_pack W g = ref_pack W h" "ref_proj W g = ref_proj W h" "ref_attn W g = ref_attn W h"
    "ref_layer W g = ref_layer W h" "core_rq W la g = core_rq W la h"
proof -
  note d = cfg_dims [OF assms] cfg_get [OF assms] cfg_core [OF assms]
  show 1: "ref_ln W g = ref_ln W h" "ref_pack W g = ref_pack W h" "core_rq W la g = core_rq W la h" for la
    by (simp_all add: fun_eq_iff ref_ln_def ref_pack_def core_rq_def d)
  show 2: "ref_proj W g = ref_proj W h" by (simp add: fun_eq_iff ref_proj_def 1 d)
  show 3: "ref_attn W g = ref_attn W h" by (simp add: fun_eq_iff ref_attn_def Let_def 1 2 d)
  show "ref_layer W g = ref_layer W h" by (simp add: fun_eq_iff ref_layer_def Let_def 1 3 d)
qed

lemma first_n_eq: "(\<And>i. i < n \<Longrightarrow> f i = h i) \<Longrightarrow> first_n n f = first_n n h"
  by (simp add: first_n_def fun_eq_iff)

lemma row_index: "i < wSD g \<Longrightarrow> d < wD g \<Longrightarrow> i div wD g * wD g + d < wSD g"
  unfolding wSD_def by (intro block_lt less_mult_imp_div_less)

lemma fold_cong_bound:
  assumes "\<And>d. d < n \<Longrightarrow> x d = y d"
  shows "d_sum W n x = d_sum W n y"
  unfolding d_sum_def by (rule List.fold_cong) (use assms in auto)

lemma ln_elem_cong:
  assumes "\<And>d. d < n \<Longrightarrow> x d = y d" "d < n"
  shows "ln_elem W n x gm b d = ln_elem W n y gm b d"
proof -
  have m: "ln_mean W n x = ln_mean W n y" unfolding ln_mean_def using assms(1) by (simp cong: fold_cong_bound)
  have "ln_inv W n x = ln_inv W n y"
    unfolding ln_inv_def Let_def m using fold_cong_bound [of n "\<lambda>d. wd_mul W (wd_sub W (wd_of W (x d)) (ln_mean W n y)) (wd_sub W (wd_of W (x d)) (ln_mean W n y))"]
      assms(1) by simp
  then show ?thesis by (simp add: ln_elem_def m assms)
qed

lemma ref_ln_cong:
  assumes "\<And>j. j < wSD g \<Longrightarrow> x j = y j" "i < wSD g"
  shows "ref_ln W g L k x i = ref_ln W g L k y i"
proof -
  have "0 < wD g" using assms(2) by (cases "wD g") (simp_all add: wSD_def)
  then show ?thesis unfolding ref_ln_def
    by (intro ln_elem_cong) (use assms row_index [OF assms(2)] in simp_all)
qed

lemma ref_layer_cong:
  assumes "\<And>j. j < wSD g \<Longrightarrow> x j = y j" "i < wSD g"
  shows "ref_layer W g L x i = ref_layer W g L y i"
proof -
  have p: "ref_proj W g L x = ref_proj W g L y"
    unfolding ref_proj_def ref_pack_def using assms(1) by (simp cong: first_n_eq ref_ln_cong)
  have a: "ref_attn W g L x j = ref_attn W g L y j" if "j < wSD g" for j
    unfolding ref_attn_def p using assms(1) [OF that] by simp
  have "ref_pack W g m (\<lambda>i. quant16 W (ref_ln W g L 2 (ref_attn W g L x) i) s z) =
      ref_pack W g m (\<lambda>i. quant16 W (ref_ln W g L 2 (ref_attn W g L y) i) s z)" for m s z
    unfolding ref_pack_def using a by (simp cong: first_n_eq ref_ln_cong)
  then show ?thesis unfolding ref_layer_def Let_def by (simp add: a [OF assms(2)])
qed

lemma buf_len_SD: "buf_len g bX = wSD g" "buf_len g bW = wSD g" "buf_len g bF = wSD g"
  by (simp_all add: buf_len_def buf_ids)

lemma enc_ffn_ok:
  assumes dm: "dims_ok g" and ok: "enc_ffn W L x g = (True, y, h)"
    and cx: "\<And>i. i < wSD g \<Longrightarrow> w_ctx g i = c i"
  defines "x1 \<equiv> \<lambda>i. fl_add W (x i) (dequant W (ref_pack W g (3 * L + 1)
       (\<lambda>i. quant8 W (c i) (wd_float W (la_wisc (w_lay g ! L))) (la_wizp (w_lay g ! L))) i)
       (la_wozp (w_lay g ! L)) (wd_float W (la_wosc (w_lay g ! L))))"
  shows "cfg h = cfg g \<and> w_fly h = w_fly g \<and> (\<forall>i<wSD g. y i = fl_add W (x1 i) (dequant W (ref_pack W g (3 * L + 2)
       (\<lambda>i. quant16 W (ref_ln W g L 2 x1 i) (wd_float W (la_fisc (w_lay g ! L))) (la_fizp (w_lay g ! L))) i)
       (la_fozp (w_lay g ! L)) (wd_float W (la_fosc (w_lay g ! L))))) \<and> (\<forall>i\<ge>wSD g. y i = x i)"
proof -
  define la where "la = w_lay g ! L"
  define g1 where "g1 = wsp_par (w_nth g) (wSD g) (\<lambda>i g. w_put bW i (quant8 W (w_ctx g i) (wd_float W (la_wisc la)) (la_wizp la)) g) g"
  have g1: "g1 = fill bW {0..<wSD g} (\<lambda>i. quant8 W (w_ctx g i) (wd_float W (la_wisc la)) (la_wizp la)) g"
    unfolding g1_def wsp_par_serial by (rule fold_put_mem) simp
  obtain g2 where g2: "w_infer W False (3 * L + 1) bW bA g1 = (True, g2)"
    using ok unfolding enc_ffn_def Let_def la_def [symmetric] g1_def [symmetric] by (auto split: prod.splits bool.splits)
  note f2 = w_infer_ok [OF g2]
  define A where "A = ref_pack W g (3 * L + 1) (\<lambda>i. quant8 W (c i) (wd_float W (la_wisc la)) (la_wizp la))"
  have "first_n (wSD g) (w_mem g1 bW) = first_n (wSD g) (\<lambda>i. quant8 W (c i) (wd_float W (la_wisc la)) (la_wizp la))"
    by (rule first_n_eq) (simp add: g1 cx)
  then have A: "w_mem g2 bA = A"
    using f2(5) cfg_dims(5) [of g1 g bW] by (simp add: A_def ref_pack_def g1 buf_len_SD)
  have c2: "cfg g2 = cfg g" using f2(1) by (simp add: g1)
  define X1 where "X1 = residual W (w_nth g2) (w_mem g2 bA) (la_wozp la) (la_wosc la) (wSD g) x"
  define g3 where "g3 = ln_rows W L 2 X1 g2"
  have g3: "g3 = fill_hb {0..<wSD g} (ref_ln W g L 2 X1) g2"
    unfolding g3_def ln_rows_fill using cfg_dims(3) [OF c2] cfg_ref(1) [OF c2] by simp
  define g4 where "g4 = wsp_par (w_nth g3) (wSD g) (\<lambda>i g. w_put bF i (quant16 W (w_hb g i) (wd_float W (la_fisc la)) (la_fizp la)) g) g3"
  have g4: "g4 = fill bF {0..<wSD g} (\<lambda>i. quant16 W (w_hb g3 i) (wd_float W (la_fisc la)) (la_fizp la)) g3"
    unfolding g4_def wsp_par_serial by (rule fold_put_mem) simp
  have "(case w_infer W False (3 * L + 2) bF bG g4 of
          (False, g5) \<Rightarrow> (False, X1, g5)
        | (True, g5) \<Rightarrow> (True, residual W (w_nth g5) (w_mem g5 bG) (la_fozp la) (la_fosc la) (wSD g) X1, g5)) = (True, y, h)"
    using ok unfolding enc_ffn_def Let_def la_def [symmetric] g1_def [symmetric] g2 prod.case bool.case
      X1_def [symmetric] g3_def [symmetric] g4_def [symmetric] .
  note last = this
  obtain r g5 where wi: "w_infer W False (3 * L + 2) bF bG g4 = (r, g5)" by (metis surj_pair)
  have r: r using last unfolding wi by (cases r) simp_all
  have g5: "w_infer W False (3 * L + 2) bF bG g4 = (True, g5)"
      "y = residual W (w_nth g5) (w_mem g5 bG) (la_fozp la) (la_fosc la) (wSD g) X1" "h = g5"
    using last r unfolding wi by auto
  note f5 = w_infer_ok [OF g5(1)]
  have x1: "X1 i = x1 i" if "i < wSD g" for i using that by (simp add: X1_def residual_eq A x1_def A_def la_def)
  have "first_n (wSD g) (w_mem g4 bF) =
      first_n (wSD g) (\<lambda>i. quant16 W (ref_ln W g L 2 x1 i) (wd_float W (la_fisc la)) (la_fizp la))"
    by (rule first_n_eq) (use ref_ln_cong [of g X1 x1] x1 in \<open>simp add: g4 g3\<close>)
  then have G: "w_mem g5 bG = ref_pack W g (3 * L + 2) (\<lambda>i. quant16 W (ref_ln W g L 2 x1 i) (wd_float W (la_fisc la)) (la_fizp la))"
    using f5(5) cfg_dims(5) [of g4 g bF] c2 by (simp add: ref_pack_def g4 g3 buf_len_SD)
  have "cfg h = cfg g" "w_fly h = w_fly g" using f5 f2 g5(3) by (simp_all add: g4 g3 g1)
  moreover have "y i = x i" if "wSD g \<le> i" for i using that by (simp add: g5(2) residual_eq X1_def)
  ultimately show ?thesis using x1 by (simp add: g5(2) residual_eq G la_def)
qed


lemma enc_layer_ok:
  assumes dm: "dims_ok g" and p: "w_ovl g \<Longrightarrow> w_pair g" "w_fly g = []" and ok: "enc_layer W L x g = (True, y, h)"
  shows "cfg h = cfg g \<and> w_fly h = [] \<and> (\<forall>i<wSD g. y i = ref_layer W g L x i) \<and> (\<forall>i\<ge>wSD g. y i = x i)"
proof -
  define la where "la = w_lay g ! L"
  define g1 where "g1 = ln_rows W L 0 x g"
  have g1: "g1 = fill_hb {0..<wSD g} (ref_ln W g L 0 x) g" unfolding g1_def by (rule ln_rows_fill)
  define g2 where "g2 = wsp_par (w_nth g1) (wSD g) (\<lambda>i g. w_put bX i (quant16 W (w_hb g i) (wd_float W (la_pin la)) 0) g) g1"
  have g2: "g2 = fill bX {0..<wSD g} (\<lambda>i. quant16 W (w_hb g1 i) (wd_float W (la_pin la)) 0) g1"
    unfolding g2_def wsp_par_serial by (rule fold_put_mem) simp
  obtain g3 where g3: "w_infer W False (3 * L) bX bY g2 = (True, g3)"
    using ok unfolding enc_layer_def Let_def la_def [symmetric] g1_def [symmetric] g2_def [symmetric]
    by (auto split: prod.splits bool.splits)
  note f3 = w_infer_ok [OF g3]
  have "first_n (wSD g) (w_mem g2 bX) = first_n (wSD g) (\<lambda>i. quant16 W (ref_ln W g L 0 x i) (wd_float W (la_pin la)) 0)"
    by (rule first_n_eq) (simp add: g2 g1)
  then have Y: "w_mem g3 bY = ref_proj W g L x"
    using f3(5) cfg_dims(5) [of g2 g bX] by (simp add: ref_proj_def ref_pack_def g2 g1 buf_len_SD la_def)
  have c3: "cfg g3 = cfg g" "w_fly g3 = []" using f3 p(2) by (simp_all add: g2 g1)
  define rq where "rq = core_rq W la g"
  have "(case core_groups W rq [0..<nat (w_NG g)] g3 of (False, g4) \<Rightarrow> (False, x, g4) | (True, g4) \<Rightarrow> enc_ffn W L x g4) = (True, y, h)"
    using ok unfolding enc_layer_def Let_def la_def [symmetric] g1_def [symmetric] g2_def [symmetric] g3 prod.case bool.case
      rq_def [symmetric] .
  then obtain g4 where g4: "core_groups W rq [0..<nat (w_NG g)] g3 = (True, g4)" "enc_ffn W L x g4 = (True, y, h)"
    by (auto split: prod.splits bool.splits)
  have grp: "cfg g4 = cfg g3 \<and> w_mem g4 bY = w_mem g3 bY \<and> w_fly g4 = [] \<and>
    w_ctx g4 = (\<lambda>k. if ctx_grp g3 k \<in> set [0..<nat (w_NG g)] \<and> ctx_blk g3 k < WSP_NB then ref_ctx W rq g3 (w_mem g3 bY) k
      else w_ctx g3 k)"
    by (rule core_groups_ok [OF _ _ c3(2) g4(1)]) (use dm p(1) cfg_core [OF c3(1)] cfg_get [OF c3(1)] in auto)
  then have c4: "cfg g4 = cfg g" "w_fly g4 = []" using c3 by simp_all
  have cx: "w_ctx g4 i = ref_ctx W rq g (ref_proj W g L x) i" if "i < wSD g" for i
  proof -
    have "ctx_grp g3 i < nat (w_NG g)" "ctx_blk g3 i < WSP_NB"
      using ctx_all [OF dm that] cfg_dims [OF c3(1)] by (simp_all add: ctx_grp_def ctx_blk_def)
    then show ?thesis using grp Y cfg_core(8) [OF c3(1)] by simp
  qed
  have cx4: "w_ctx g4 i = ref_ctx W rq g (ref_proj W g L x) i" if "i < wSD g4" for i
    using cx [of i] that cfg_dims(3) [OF c4(1)] by simp
  have dm4: "dims_ok g4" using dm cfg_core(6) [OF c4(1)] by simp
  have xa: "ref_attn W g L x = (\<lambda>i. fl_add W (x i) (dequant W (ref_pack W g (3 * L + 1)
       (\<lambda>i. quant8 W (ref_ctx W rq g (ref_proj W g L x) i) (wd_float W (la_wisc (w_lay g ! L))) (la_wizp (w_lay g ! L))) i)
       (la_wozp (w_lay g ! L)) (wd_float W (la_wosc (w_lay g ! L)))))"
    by (rule ext) (simp add: ref_attn_def Let_def rq_def la_def)
  note e = enc_ffn_ok [OF dm4 g4(2) cx4, unfolded cfg_dims(3) [OF c4(1)] cfg_get(8) [OF c4(1)] cfg_ref(1,2) [OF c4(1)] c4]
  show ?thesis unfolding ref_layer_def Let_def xa by (rule e)
qed


lemma fold_layer_cong:
  assumes "\<And>j. j < wSD g \<Longrightarrow> x j = y j" "i < wSD g"
  shows "fold (ref_layer W g) Ls x i = fold (ref_layer W g) Ls y i"
  using assms(1)
proof (induction Ls arbitrary: x y)
  case (Cons L Ls)
  have "ref_layer W g L x j = ref_layer W g L y j" if "j < wSD g" for j using Cons.prems that by (rule ref_layer_cong)
  from Cons.IH [OF this] show ?case by simp
qed (simp add: assms(2))

lemma enc_layers_ok:
  assumes "dims_ok g" "w_ovl g \<Longrightarrow> w_pair g" "w_fly g = []" "enc_layers W Ls x g = (True, y, h)"
  shows "cfg h = cfg g \<and> w_fly h = [] \<and> (\<forall>i<wSD g. y i = fold (ref_layer W g) Ls x i) \<and> (\<forall>i\<ge>wSD g. y i = x i)"
  using assms
proof (induction Ls arbitrary: g x)
  case (Cons L Ls)
  obtain x1 g1 where 1: "enc_layer W L x g = (True, x1, g1)" "enc_layers W Ls x1 g1 = (True, y, h)"
    using Cons.prems(4) by (auto split: prod.splits bool.splits)
  note a = enc_layer_ok [OF Cons.prems(1-3) 1(1)]
  then have c: "cfg g1 = cfg g" by simp
  have "dims_ok g1" "w_fly g1 = []" "w_ovl g1 \<Longrightarrow> w_pair g1"
    using Cons.prems(1,2) a cfg_core(6) [OF c] cfg_get(10,11) [OF c] by simp_all
  note ih = Cons.IH [OF this(1,3,2) 1(2)]
  have e: "fold (ref_layer W g) Ls x1 i = fold (ref_layer W g) (L # Ls) x i" if "i < wSD g" for i
    using fold_layer_cong [of g x1 "ref_layer W g L x", OF _ that] a by simp
  note ih = ih [unfolded cfg_dims(3) [OF c] cfg_ref(5) [OF c] c]
  show ?case
  proof (intro conjI allI impI)
    show "cfg h = cfg g" "w_fly h = []" using ih by blast+
    show "y i = fold (ref_layer W g) (L # Ls) x i" if "i < wSD g" for i using ih e that by metis
    show "y i = x i" if "wSD g \<le> i" for i using ih a that by metis
  qed
qed simp

section \<open>Calls that succeed\<close>

text \<open>The daemon answers \<open>n\<close> more requests with status 0; the calls for pairs succeed.\<close>

definition answers :: "nat \<Rightarrow> sess \<Rightarrow> bool" where
  "answers n se \<longleftrightarrow> (\<exists>k. ss_sock se = Some k \<and> 24 * n \<le> k_room k \<and> 8 * n \<le> length (k_in k) \<and>
     (\<forall>i<n. le_nat (take 4 (drop (8 * i) (k_in k))) = 0))"

definition pairs_ok :: "wlib \<Rightarrow> bool" where
  "pairs_ok W \<longleftrightarrow> wl_infer2 W = (\<lambda>_ _ st. (True, st)) \<and> wl_submit2 W = (\<lambda>_ _ st. (True, st)) \<and> wl_wait2 W = (\<lambda>_ st. (True, st))"

definition wsp_live :: "nat \<Rightarrow> nat \<Rightarrow> wst \<Rightarrow> bool" where
  "wsp_live n m g \<longleftrightarrow> answers n (w_T g) \<and> answers m (w_TC g) \<and> (\<forall>b. 0 \<le> cb_tpu (w_zs g b))"

lemma brackets_tpu: "cb_tpu (ends bs zs b) = cb_tpu (zs b)" "cb_tpu (begins bs zs b) = cb_tpu (zs b)"
proof -
  have e: "cb_tpu (cpu_end p z b) = cb_tpu (z b)" "cb_tpu (cpu_begin p z b) = cb_tpu (z b)" for p z
    by (simp_all add: cpu_end_def cpu_begin_def)
  show "cb_tpu (ends bs zs b) = cb_tpu (zs b)" unfolding ends_def by (induction bs arbitrary: zs) (simp_all add: e)
  show "cb_tpu (begins bs zs b) = cb_tpu (zs b)" unfolding begins_def by (induction bs arbitrary: zs) (simp_all add: e)
qed

lemma tpu_infer_answers:
  assumes a: "answers (Suc n) se" and "i \<noteq> q" and im: "0 \<le> cb_tpu (zs i)" "0 \<le> cb_tpu (zs q)"
  shows "\<exists>us zs1 se1. barra_tpu_infer mo i q (zs, se) = (Some us, zs1, se1) \<and> answers n se1 \<and> (\<forall>b. cb_tpu (zs1 b) = cb_tpu (zs b))"
proof -
  obtain k where k: "ss_sock se = Some k" "24 * Suc n \<le> k_room k" "8 * Suc n \<le> length (k_in k)"
    "\<And>i. i < Suc n \<Longrightarrow> le_nat (take 4 (drop (8 * i) (k_in k))) = 0"
    using a unfolding answers_def by blast
  define k1 where "k1 = k\<lparr>k_out := k_out k @ [(put32s (infer_hdr mo i q (ends [i, q] zs)), [])], k_room := k_room k - 24, k_in := drop 8 (k_in k)\<rparr>"
  have r: "c_req (infer_hdr mo i q (ends [i, q] zs)) [] [] 8 k = (Some (take 8 (k_in k)), k1)"
    using k(2,3) by (simp add: c_req_def and_then_def send_hdr_fds_def c_rn_def k1_def)
  have z: "le_nat (take 4 (take 8 (k_in k))) = 0" using k(4) [of 0] by (simp add: take_take)
  have "le_nat (take 4 (drop (8 * j) (drop 8 (k_in k)))) = 0" if "j < n" for j
    using k(4) [of "Suc j"] that by (simp add: add.commute)
  then have "answers n (se\<lparr>ss_sock := Some k1\<rparr>)" using k(2,3) by (auto simp: answers_def k1_def)
  moreover have "tpu_need i q zs = []" using im by (simp add: tpu_need_def)
  ultimately show ?thesis using assms(2) k(1) r z
    by (simp add: barra_tpu_infer_def Let_def brackets_tpu)
qed

lemma w_infer_live:
  assumes "wsp_live (Suc n) m g" "i \<noteq> q"
  shows "\<exists>h. w_infer W False mo i q g = (True, h) \<and> wsp_live n m h"
  using tpu_infer_answers [of n "w_T g" i q "w_zs g" mo] assms by (auto simp: w_infer_def wsp_live_def Let_def)

lemma w_infer_live_core:
  assumes "wsp_live n (Suc m) g" "i \<noteq> q"
  shows "\<exists>h. w_infer W True mo i q g = (True, h) \<and> wsp_live n m h"
  using tpu_infer_answers [of m "w_TC g" i q "w_zs g" mo] assms by (auto simp: w_infer_def wsp_live_def Let_def)

lemma wsp_live_upd [simp]:
  "wsp_live n m (fill b B v g) = wsp_live n m g" "wsp_live n m (fill_ctx B c g) = wsp_live n m g" "wsp_live n m (fill_hb B c g) = wsp_live n m g"
  "wsp_live n m (g\<lparr>w_fly := l\<rparr>) = wsp_live n m g" "wsp_live n m (g\<lparr>w_tick := t\<rparr>) = wsp_live n m g" "wsp_live n m (g\<lparr>w_mem := y\<rparr>) = wsp_live n m g"
  by (simp_all add: wsp_live_def fill_def fill_ctx_def fill_hb_def)

lemma pair_done_simps: "cfg (pair_done W mo bs a b g) = cfg g" "wsp_live n m (pair_done W mo bs a b g) = wsp_live n m g"
  "w_fly (pair_done W mo bs a b g) = w_fly g"
  by (simp_all add: pair_done_def)

lemma pairs_calls:
  assumes "pairs_ok W"
  shows "w_infer2 W mo bs g = (True, pair_done W mo bs (w_mem g (bs ! 0)) (w_mem g (bs ! 2)) g)"
    "w_submit2 W mo bs g = (True, g\<lparr>w_fly := w_fly g @ [(mo, bs, w_mem g (bs ! 0), w_mem g (bs ! 2))]\<rparr>)"
    "w_fly g = (mo', bs', a, b) # r \<Longrightarrow> \<exists>a' b'. w_wait2 W bs g = (True, pair_done W mo' bs' a' b' (g\<lparr>w_tick := Suc (wst.w_tick g), w_fly := r\<rparr>))"
  using assms by (auto simp: pairs_ok_def w_infer2_def w_submit2_def w_wait2_def Let_def)


lemma qslice_live:
  assumes "b \<noteq> bY"
  shows "wsp_live n m (qslice W rq grp bb b g) = wsp_live n m g" "cfg (qslice W rq grp bb b g) = cfg g" "w_fly (qslice W rq grp bb b g) = w_fly g"
  by (simp_all add: qslice_fill [OF assms])

lemma divb_live:
  assumes "dims_ok g0" "grp < nat (w_NG g0)" "cfg g = cfg g0"
  shows "wsp_live n m (divb W grp bb b g) = wsp_live n m g" "cfg (divb W grp bb b g) = cfg g0" "w_fly (divb W grp bb b g) = w_fly g"
  using divb_fill [of g grp W bb b] assms cfg_core(6) [OF assms(3)] cfg_get(5) [OF assms(3)] by simp_all

definition core_calls :: "wst \<Rightarrow> nat" where "core_calls g = (if w_pair g then 0 else 1)"

lemma core_block_live:
  assumes "pairs_ok W" "dims_ok g0" "grp < nat (w_NG g0)" "cfg g = cfg g0" "wsp_live n (m + core_calls g0) g"
  shows "\<exists>h. core_block W rq grp b g = (True, h) \<and> cfg h = cfg g0 \<and> wsp_live n m h"
proof -
  define g1 where "g1 = qslice W rq grp b bC g"
  have g1: "wsp_live n (m + core_calls g0) g1" "cfg g1 = cfg g0" using assms(4,5) by (simp_all add: g1_def qslice_live buf_ids_ne)
  have p: "w_pair g = w_pair g0" using cfg_get(10) [OF assms(4)] .
  show ?thesis
  proof (cases "w_pair g0")
    case True
    define g2 where "g2 = qslice W rq grp (b + 1) bC2 g1"
    have g2: "wsp_live n m g2" "cfg g2 = cfg g0" using g1 True by (simp_all add: g2_def qslice_live buf_ids_ne core_calls_def)
    note d = divb_live [OF assms(2,3)]
    show ?thesis using g2 True p pairs_calls(1) [OF assms(1), of 0 "[bC, bO, bC2, bO2]" g2]
      by (simp add: core_block_def g1_def [symmetric] g2_def [symmetric, simplified] d pair_done_simps)
  next
    case False
    then have "wsp_live n (Suc m) g1" using g1(1) by (simp add: core_calls_def)
    from w_infer_live_core [OF this, of bC bO W 0] obtain g2 where g2: "w_infer W True 0 bC bO g1 = (True, g2)" "wsp_live n m g2"
      by (auto simp: buf_ids)
    have "cfg g2 = cfg g0" using w_infer_ok(1) [OF g2(1)] g1(2) by simp
    then show ?thesis using g2 False p divb_live [OF assms(2,3)]
      by (simp add: core_block_def g1_def [symmetric])
  qed
qed

lemma core_blocks_live:
  assumes "pairs_ok W" "dims_ok g0" "grp < nat (w_NG g0)" "cfg g = cfg g0" "wsp_live n (m + length bs * core_calls g0) g"
  shows "\<exists>h. core_blocks W rq grp bs g = (True, h) \<and> cfg h = cfg g0 \<and> wsp_live n m h"
  using assms(4,5)
proof (induction bs arbitrary: g)
  case (Cons b bs)
  have "wsp_live n ((m + length bs * core_calls g0) + core_calls g0) g" using Cons.prems(2) by (simp add: algebra_simps)
  from core_block_live [OF assms(1-3) Cons.prems(1) this, of rq b] obtain g1 where
    "core_block W rq grp b g = (True, g1)" "cfg g1 = cfg g0" "wsp_live n (m + length bs * core_calls g0) g1" by blast
  with Cons.IH [of g1] show ?case by simp
qed simp

lemma core_overlap_live:
  assumes "pairs_ok W" "dims_ok g0" "grp < nat (w_NG g0)" "cfg g = cfg g0" "w_fly g = []" "wsp_live n m g"
  shows "\<exists>h. core_overlap W rq grp g = (True, h) \<and> cfg h = cfg g0 \<and> wsp_live n m h"
proof -
  note q = qslice_live [OF buf_ids_ne(1)] qslice_live [OF buf_ids_ne(2)] qslice_live [OF buf_ids_ne(3)] qslice_live [OF buf_ids_ne(4)]
  note d = divb_live [OF assms(2,3)]
  define a where "a = qslice W rq grp 1 bC2 (qslice W rq grp 0 bC g)"
  obtain f1 where s1: "w_submit2 W 0 [bC, bO, bC2, bO2] a = (True, a\<lparr>w_fly := [(0, [bC, bO, bC2, bO2], f1)]\<rparr>)"
    using pairs_calls(2) [OF assms(1)] assms(5) by (simp add: a_def q)
  define b where "b = qslice W rq grp 3 bC4 (qslice W rq grp 2 bC3 (a\<lparr>w_fly := [(0, [bC, bO, bC2, bO2], f1)]\<rparr>))"
  obtain f2 where s2: "w_submit2 W 0 [bC3, bO3, bC4, bO4] b =
      (True, b\<lparr>w_fly := [(0, [bC, bO, bC2, bO2], f1), (0, [bC3, bO3, bC4, bO4], f2)]\<rparr>)"
    using pairs_calls(2) [OF assms(1)] by (simp add: b_def q)
  define c where "c = b\<lparr>w_fly := [(0, [bC, bO, bC2, bO2], f1), (0, [bC3, bO3, bC4, bO4], f2)]\<rparr>"
  have c: "cfg c = cfg g0" "wsp_live n m c" using assms(4,6) by (simp_all add: c_def b_def a_def q)
  obtain x y x' y' where f: "f1 = (x, y)" "f2 = (x', y')" by (metis surj_pair)
  obtain e where e: "w_wait2 W [bC, bO, bC2, bO2] c = (True, e)" "cfg e = cfg g0" "wsp_live n m e"
    "w_fly e = [(0, [bC3, bO3, bC4, bO4], x', y')]"
    using pairs_calls(3) [OF assms(1), of c 0 "[bC, bO, bC2, bO2]" x y] c
    by (fastforce simp: c_def f pair_done_simps)
  define u where "u = divb W grp 1 bO2 (divb W grp 0 bO e)"
  have u: "cfg u = cfg g0" "wsp_live n m u" "w_fly u = [(0, [bC3, bO3, bC4, bO4], x', y')]" using e by (simp_all add: u_def d)
  obtain v where v: "w_wait2 W [bC3, bO3, bC4, bO4] u = (True, v)" "cfg v = cfg g0" "wsp_live n m v"
    using pairs_calls(3) [OF assms(1) u(3)] u by (fastforce simp: pair_done_simps)
  have "core_overlap W rq grp g = (True, divb W grp 3 bO4 (divb W grp 2 bO3 v))"
    unfolding core_overlap_def a_def [symmetric] s1 prod.case bool.case b_def [symmetric] s2 c_def [symmetric] e(1) u_def [symmetric] v(1) ..
  then show ?thesis using v by (simp add: d)
qed

lemma core_group_live:
  assumes "pairs_ok W" "dims_ok g" "grp < nat (w_NG g)" "w_fly g = []" "wsp_live n (m + 4 * core_calls g) g"
  shows "\<exists>h. core_group W rq grp g = (True, h) \<and> cfg h = cfg g \<and> wsp_live n m h"
proof -
  define g1 where "g1 = kv_copies (wsp_par (w_nth g) (wHG g * WSP_S) (kv_row W rq grp) g)"
  note kv = kv_phase [where W = W and rq = rq and grp = grp and g = g, folded g1_def]
  have "wsp_live n' m' g1 = wsp_live n' m' g" for n' m'
    unfolding g1_def kv_fill by (cases "w_pair (fill bC (kv_set g) (core_in W rq g (w_mem g bY) grp 0) g)")
      (simp_all add: kv_copies_fills fills_def, simp add: kv_copies_def)
  then have l: "wsp_live n (m + 4 * core_calls g) g1" using assms(5) by simp
  have c: "cfg g1 = cfg g" "w_fly g1 = []" using kv assms(4) by (simp_all add: core_ready_def)
  have st: "length (core_steps g1) * core_calls g = 4 * core_calls g"
    using cfg_get(10) [OF c(1)] by (simp add: core_steps_def core_calls_def wsp_consts upt_rec)
  have l2: "wsp_live n m g1" if "w_pair g" using l that by (simp add: core_calls_def)
  have l3: "wsp_live n m g1"
  proof -
    have "answers m' se" if "answers (m' + k) se" for m' k se using that by (fastforce simp: answers_def)
    then show ?thesis using l by (auto simp: wsp_live_def)
  qed
  show ?thesis
  proof (cases "w_ovl g1")
    case True
    then show ?thesis using core_overlap_live [OF assms(1-3) c l3] by (simp add: core_group_def g1_def [symmetric] Let_def)
  next
    case False
    then show ?thesis using core_blocks_live [OF assms(1-3) c(1), of n m "core_steps g1" rq] l st
      by (simp add: core_group_def g1_def [symmetric] Let_def)
  qed
qed

end
