(* ===== verification/Wsp_Props.thy ===== *)
theory Wsp_Props
  imports Wsp_Correct Ffn_Correct
begin

text \<open>
  The properties of the encoder on the TPU, with concrete runs.
\<close>

section \<open>Whole runs that succeed\<close>

lemma core_groups_live:
  assumes "pairs_ok W" "dims_ok g" "w_ovl g \<Longrightarrow> w_pair g" "w_fly g = []" "\<forall>k\<in>set ks. k < nat (w_NG g)"
    "wsp_live n (m + length ks * (4 * core_calls g)) g"
  shows "\<exists>h. core_groups W rq ks g = (True, h) \<and> cfg h = cfg g \<and> wsp_live n m h"
  using assms(2-)
proof (induction ks arbitrary: g)
  case (Cons k ks)
  have "wsp_live n ((m + length ks * (4 * core_calls g)) + 4 * core_calls g) g" using Cons.prems(5) by (simp add: algebra_simps)
  from core_group_live [OF assms(1) Cons.prems(1) _ Cons.prems(3) this, of k rq] Cons.prems(4) obtain g1 where
    g1: "core_group W rq k g = (True, g1)" "cfg g1 = cfg g" "wsp_live n (m + length ks * (4 * core_calls g)) g1" by auto
  have f: "w_fly g1 = []" using core_group_ok [OF Cons.prems(1) _ Cons.prems(2,3) g1(1)] Cons.prems(4) by simp
  have "dims_ok g1" "w_ovl g1 \<Longrightarrow> w_pair g1" "\<forall>k\<in>set ks. k < nat (w_NG g1)" "core_calls g1 = core_calls g"
    using Cons.prems(1,2,4) cfg_core(6) [OF g1(2)] cfg_get [OF g1(2)] by (simp_all add: core_calls_def)
  with Cons.IH [of g1] g1 f show ?case by simp
qed simp

lemma enc_layer_live:
  assumes "pairs_ok W" "dims_ok g" "w_ovl g \<Longrightarrow> w_pair g" "w_fly g = []" "wsp_live (Suc (Suc (Suc n))) (m + nat (w_NG g) * (4 * core_calls g)) g"
  shows "\<exists>y h. enc_layer W L x g = (True, y, h) \<and> cfg h = cfg g \<and> wsp_live n m h"
proof -
  define la where "la = w_lay g ! L"
  define g2 where "g2 = wsp_par (w_nth (ln_rows W L 0 x g)) (wSD g)
      (\<lambda>i g. w_put bX i (quant16 W (w_hb g i) (wd_float W (la_pin la)) 0) g) (ln_rows W L 0 x g)"
  have g2: "g2 = fill bX {0..<wSD g} (\<lambda>i. quant16 W (w_hb (ln_rows W L 0 x g) i) (wd_float W (la_pin la)) 0) (ln_rows W L 0 x g)"
    unfolding g2_def wsp_par_serial by (rule fold_put_mem) simp
  have "wsp_live (Suc (Suc (Suc n))) (m + nat (w_NG g) * (4 * core_calls g)) g2" using assms(5) by (simp add: g2 ln_rows_fill)
  from w_infer_live [OF this, of bX bY W "3 * L"] obtain g3 where
    g3: "w_infer W False (3 * L) bX bY g2 = (True, g3)" "wsp_live (Suc (Suc n)) (m + nat (w_NG g) * (4 * core_calls g)) g3"
    by (auto simp: buf_ids)
  have c3: "cfg g3 = cfg g" "w_fly g3 = []" using w_infer_ok [OF g3(1)] assms(4) by (simp_all add: g2 ln_rows_fill)
  have d3: "dims_ok g3" "w_ovl g3 \<Longrightarrow> w_pair g3" "core_calls g3 = core_calls g" "w_NG g3 = w_NG g"
    using assms(2,3) cfg_core(6) [OF c3(1)] cfg_get [OF c3(1)] by (simp_all add: core_calls_def)
  obtain g4 where g4: "core_groups W (core_rq W la g) [0..<nat (w_NG g)] g3 = (True, g4)" "cfg g4 = cfg g" "wsp_live (Suc (Suc n)) m g4"
    using core_groups_live [OF assms(1) d3(1,2) c3(2), of "[0..<nat (w_NG g)]" "Suc (Suc n)" m "core_rq W la g"] g3(2) d3 c3(1) by auto
  have e: "enc_layer W L x g = enc_ffn W L x g4"
    unfolding enc_layer_def Let_def la_def [symmetric] g2_def [symmetric] g3(1) prod.case bool.case g4(1) ..
  define la4 where "la4 = w_lay g4 ! L"
  define g5 where "g5 = wsp_par (w_nth g4) (wSD g4)
      (\<lambda>i g. w_put bW i (quant8 W (w_ctx g i) (wd_float W (la_wisc la4)) (la_wizp la4)) g) g4"
  have g5: "g5 = fill bW {0..<wSD g4} (\<lambda>i. quant8 W (w_ctx g4 i) (wd_float W (la_wisc la4)) (la_wizp la4)) g4"
    unfolding g5_def wsp_par_serial by (rule fold_put_mem) simp
  have "wsp_live (Suc (Suc n)) m g5" using g4(3) by (simp add: g5)
  from w_infer_live [OF this, of bW bA W "3 * L + 1"] obtain g6 where
    g6: "w_infer W False (3 * L + 1) bW bA g5 = (True, g6)" "wsp_live (Suc n) m g6" by (auto simp: buf_ids)
  define x1 where "x1 = residual W (w_nth g6) (w_mem g6 bA) (la_wozp la4) (la_wosc la4) (wSD g4) x"
  define g7 where "g7 = wsp_par (w_nth (ln_rows W L 2 x1 g6)) (wSD g4)
      (\<lambda>i g. w_put bF i (quant16 W (w_hb g i) (wd_float W (la_fisc la4)) (la_fizp la4)) g) (ln_rows W L 2 x1 g6)"
  have g7: "g7 = fill bF {0..<wSD g4} (\<lambda>i. quant16 W (w_hb (ln_rows W L 2 x1 g6) i) (wd_float W (la_fisc la4)) (la_fizp la4)) (ln_rows W L 2 x1 g6)"
    unfolding g7_def wsp_par_serial by (rule fold_put_mem) simp
  have "wsp_live (Suc n) m g7" using g6(2) by (simp add: g7 ln_rows_fill)
  from w_infer_live [OF this, of bF bG W "3 * L + 2"] obtain g8 where
    g8: "w_infer W False (3 * L + 2) bF bG g7 = (True, g8)" "wsp_live n m g8" by (auto simp: buf_ids)
  have "enc_ffn W L x g4 = (True, residual W (w_nth g8) (w_mem g8 bG) (la_fozp la4) (la_fosc la4) (wSD g4) x1, g8)"
    unfolding enc_ffn_def Let_def la4_def [symmetric] g5_def [symmetric] g6(1) prod.case bool.case x1_def [symmetric] g7_def [symmetric] g8(1) ..
  moreover have "cfg g8 = cfg g" using w_infer_ok(1) [OF g8(1)] w_infer_ok(1) [OF g6(1)] g4(2) by (simp add: g7 g5 ln_rows_fill)
  ultimately show ?thesis using e g8(2) by simp
qed

lemma enc_layers_live:
  assumes "pairs_ok W" "dims_ok g" "w_ovl g \<Longrightarrow> w_pair g" "w_fly g = []"
    "wsp_live (length Ls * 3) (length Ls * (nat (w_NG g) * (4 * core_calls g))) g"
  shows "\<exists>y h. enc_layers W Ls x g = (True, y, h)"
  using assms(2-)
proof (induction Ls arbitrary: g x)
  case (Cons L Ls)
  have "wsp_live (Suc (Suc (Suc (length Ls * 3)))) (length Ls * (nat (w_NG g) * (4 * core_calls g)) + nat (w_NG g) * (4 * core_calls g)) g"
  proof -
    have "length (L # Ls) * 3 = Suc (Suc (Suc (length Ls * 3)))"
      "length (L # Ls) * (nat (w_NG g) * (4 * core_calls g)) = length Ls * (nat (w_NG g) * (4 * core_calls g)) + nat (w_NG g) * (4 * core_calls g)"
      by simp_all
    then show ?thesis using Cons.prems(4) by metis
  qed
  from enc_layer_live [OF assms(1) Cons.prems(1-3) this] obtain y g1 where
    1: "enc_layer W L x g = (True, y, g1)" "cfg g1 = cfg g" "wsp_live (length Ls * 3) (length Ls * (nat (w_NG g) * (4 * core_calls g))) g1" by blast
  have "w_fly g1 = []" using enc_layer_ok [OF Cons.prems(1-3) 1(1)] by simp
  moreover have "dims_ok g1" "w_ovl g1 \<Longrightarrow> w_pair g1" "core_calls g1 = core_calls g" "w_NG g1 = w_NG g"
    using Cons.prems(1,2) cfg_core(6) [OF 1(2)] cfg_get [OF 1(2)] by (simp_all add: core_calls_def)
  ultimately show ?case using Cons.IH [of g1 y] 1 by simp
qed simp

lemma encode_live:
  assumes "w_ok g" "pairs_ok W" "dims_ok g" "w_ovl g \<Longrightarrow> w_pair g" "w_fly g = []" "D = w_D g"
    "wsp_live (nat (w_NL g) * 3) (nat (w_NL g) * (nat (w_NG g) * (4 * core_calls g))) g"
  shows "\<exists>y h. wsp_barra_encode W x0 out 1500 D g = Some (True, y, h)"
  using enc_layers_live [OF assms(2-5), of "[0..<nat (w_NL g)]" "\<lambda>i. if i < wSD g then x0 i else out i"] assms(1,6,7)
  by (simp add: wsp_barra_encode_def wsp_init_def WSP_S_def)

section \<open>The properties\<close>

lemma encode_ok:
  assumes "wsp_init W g = Some (True, g1)" "dims_ok g1" "w_ovl g1 \<longrightarrow> w_pair g1" "w_fly g1 = []"
    and "wsp_barra_encode W x0 out S D g = Some (True, y, h)"
  shows "(\<forall>i<wSD g1. y i = enc_ref W g1 x0 i) \<and> (\<forall>i\<ge>wSD g1. y i = out i) \<and> w_fly h = []"
proof -
  have "enc_layers W [0..<nat (w_NL g1)] (\<lambda>i. if i < wSD g1 then x0 i else out i) g1 = (True, y, h)"
    using assms(1,5) by (simp add: wsp_barra_encode_def split: if_splits)
  note e = enc_layers_ok [OF assms(2) mp [OF assms(3)] assms(4) this]
  have "fold (ref_layer W g1) [0..<nat (w_NL g1)] (\<lambda>i. if i < wSD g1 then x0 i else out i) i = enc_ref W g1 x0 i" if "i < wSD g1" for i
    unfolding enc_ref_def by (rule fold_layer_cong) (use that in simp_all)
  then show ?thesis using e by auto
qed

text \<open>
  C33. An encoding that returns success has computed the reference: layer norms, projections, attention
  and feed-forward blocks of every layer as functions of the rows, whatever the number of threads, the
  schedule of the attention core and the moment the daemon reads the inputs of a pair in flight.
  Nothing beyond the result is written, and no pair is left in flight. Two conditions are not checked by
  the code, and an encoding that succeeds without them may be wrong: the heads must fit the model's
  dimension (\<open>dims_ok\<close>, whisper-barra.cpp:267), and no pair may be left in flight by an earlier encoding
  that failed (line 442). Assumed of the calls for pairs, which are not part of the repository: success
  means that the package has run on both inputs.
\<close>

theorem encode_is_reference:
  assumes "wsp_init W g = Some (True, g1)" "dims_ok g1" "w_ovl g1 \<longrightarrow> w_pair g1" "w_fly g1 = []"
    and "wsp_barra_encode W x0 out S D g = Some (True, y, h)"
  shows "(\<forall>i<wSD g1. y i = enc_ref W g1 x0 i) \<and> (\<forall>i\<ge>wSD g1. y i = out i) \<and> w_fly h = []"
  by (rule encode_ok [OF assms])

text \<open>
  C34. The three schedules of the attention core (single blocks, pairs, overlapping pairs) and all numbers
  of threads give the same result.
\<close>

theorem encode_schedules_agree:
  assumes "w_ok g" "dims_ok g" "w_fly g = []" "v \<longrightarrow> p" "v' \<longrightarrow> p'"
    and "wsp_barra_encode W x0 out S D (g\<lparr>w_pair := p, w_ovl := v, w_nth := t\<rparr>) = Some (True, y, h)"
    and "wsp_barra_encode W x0 out S D (g\<lparr>w_pair := p', w_ovl := v', w_nth := t'\<rparr>) = Some (True, y', h')"
  shows "y = y'"
proof -
  have r: "y = (\<lambda>i. if i < wSD g then enc_ref W g x0 i else out i)"
    if v: "v \<longrightarrow> p" and e: "wsp_barra_encode W x0 out S D (g\<lparr>w_pair := p, w_ovl := v, w_nth := t\<rparr>) = Some (True, y, h)" for p v t y h
  proof -
    define g1 where "g1 = g\<lparr>w_pair := p, w_ovl := v, w_nth := t\<rparr>"
    have i: "wsp_init W g1 = Some (True, g1)" using assms(1) by (simp add: wsp_init_def g1_def)
    have d: "wD g1 = wD g" "wHG g1 = wHG g" "wSD g1 = wSD g" "c_len g1 = c_len g" "dims_ok g1 = dims_ok g"
      "wsp_yget g1 = wsp_yget g" "ln_weight g1 = ln_weight g" "w_lay g1 = w_lay g" "w_NL g1 = w_NL g" "w_cout g1 = w_cout g" "w_cin g1 = w_cin g"
      by (simp_all add: g1_def wD_def wHG_def wSD_def c_len_def dims_ok_def wsp_yget_def ln_weight_def fun_eq_iff)
    have q: "core_qY W rq g1 = core_qY W rq g" for rq by (simp add: fun_eq_iff core_qY_def d)
    have ci: "core_in W rq g1 = core_in W rq g" for rq by (simp add: fun_eq_iff core_in_def d q Let_def)
    have ce: "ctx_elem W g1 = ctx_elem W g" by (simp add: fun_eq_iff ctx_elem_def d Let_def)
    have c: "core_out W rq g1 = core_out W rq g" for rq by (simp add: fun_eq_iff core_out_def d ci)
    have c: "ref_ctx W rq g1 = ref_ctx W rq g" "core_rq W la g1 = core_rq W la g" for rq la
      by (simp_all add: fun_eq_iff ref_ctx_def ctx_grp_def ctx_blk_def core_rq_def d c ce)
    have l: "ref_ln W g1 = ref_ln W g" "ref_pack W g1 = ref_pack W g" by (simp_all add: fun_eq_iff ref_ln_def ref_pack_def d)
    have pr: "ref_proj W g1 = ref_proj W g" by (simp add: fun_eq_iff ref_proj_def d l)
    have at: "ref_attn W g1 = ref_attn W g" by (simp add: fun_eq_iff ref_attn_def Let_def c d l pr)
    have "ref_layer W g1 = ref_layer W g" by (simp add: fun_eq_iff ref_layer_def Let_def d l at)
    then have "enc_ref W g1 x0 = enc_ref W g x0" by (simp add: enc_ref_def d)
    moreover have "dims_ok g1" "w_ovl g1 \<longrightarrow> w_pair g1" "w_fly g1 = []" using v assms(2,3) d(5) by (simp_all add: g1_def)
    note encode_ok [OF i this e [folded g1_def]]
    ultimately show ?thesis by (auto simp: d(3) fun_eq_iff not_less)
  qed
  show ?thesis using r [OF assms(4,6)] r [OF assms(5,7)] by simp
qed


text \<open>
  The pool hands every index to exactly one thread, and for work on different indices that commutes,
  the result is the one of the plain loop, in whatever order the threads get their turn.
\<close>

theorem wsp_par_any_order:
  assumes "\<And>i j s. i < n \<Longrightarrow> j < n \<Longrightarrow> i \<noteq> j \<Longrightarrow> body i (body j s) = body j (body i s)"
    and "mset is' = mset [0..<Suc tc]"
  shows "fold (wsp_worker tc n body) is' s = fold body [0..<n] s \<and> wsp_par tc n body s = fold body [0..<n] s"
proof -
  let ?c = "\<lambda>i. case wsp_chunk tc n i of (a, b) \<Rightarrow> [a..<b]"
  have "min (Suc tc * ((n + tc) div (tc + 1))) n = n" using chunks_all [of n tc] by simp
  then have all: "concat (map ?c [0..<Suc tc]) = [0..<n]" using chunks_upto [of tc n "Suc tc"] by simp
  have c: "mset (concat (map f xs)) = (\<Sum>i\<in>#mset xs. mset (f i))" for f :: "nat \<Rightarrow> nat list" and xs
    by (induction xs) simp_all
  have m: "mset (concat (map ?c is')) = mset [0..<n]" using c [of ?c is'] c [of ?c "[0..<Suc tc]"] unfolding assms(2) all by metis
  then have st: "set (concat (map ?c is')) = {0..<n}" by (metis atLeast_upt set_mset_mset lessThan_atLeast0)
  have "fold body (concat (map ?c is')) = fold body [0..<n]"
  proof (rule fold_multiset_equiv [OF _ m])
    fix x y assume "x \<in> set (concat (map ?c is'))" "y \<in> set (concat (map ?c is'))"
    then have "x < n" "y < n" unfolding st by simp_all
    then show "body x \<circ> body y = body y \<circ> body x" using assms(1) [of x y] by (cases "x = y") (simp_all add: fun_eq_iff)
  qed
  then show ?thesis by (simp add: wsp_workers_fold wsp_par_serial)
qed

text \<open>What a successful start has checked.\<close>

definition wsp_good :: "wst \<Rightarrow> bool" where
  "wsp_good g \<longleftrightarrow>
     1 \<le> w_NL g \<and> w_NL g \<le> WSP_MAXL \<and> w_HG g \<noteq> 0 \<and> w_HTOT g = w_NG g * w_HG g \<and>
     int (length (w_LNW g)) = w_NL g * 4 * w_D g \<and> length (w_lay g) = nat (w_NL g) \<and>
     0 \<le> w_NX g \<and> w_NX g \<le> WSP_MAXL \<and> (0 < w_NX g \<longrightarrow> length (w_x g) = nat (w_NX g)) \<and>
     (w_CONV g = 0 \<or> w_CONV g = 2) \<and> (w_ovl g \<longrightarrow> w_pair g)"

lemma those_length: "those xs = Some ys \<Longrightarrow> length ys = length xs"
  by (induction xs arbitrary: ys) (auto split: option.splits)

lemma init_dims_good:
  assumes "init_dims W par g = Some (r, g1)"
  shows "w_ok g1 = w_ok g \<and> w_LNW g1 = w_LNW g \<and>
    (r \<longrightarrow> 1 \<le> w_NL g1 \<and> w_NL g1 \<le> WSP_MAXL \<and> w_HG g1 \<noteq> 0 \<and> w_HTOT g1 = w_NG g1 * w_HG g1)"
  using assms by (auto simp: init_dims_def Let_def split: option.splits if_splits)

lemma init_params_good:
  assumes "init_params W dir g = Some (r, g1)"
  shows "w_ok g1 = w_ok g \<and>
    (r \<longrightarrow> 1 \<le> w_NL g1 \<and> w_NL g1 \<le> WSP_MAXL \<and> w_HG g1 \<noteq> 0 \<and> w_HTOT g1 = w_NG g1 * w_HG g1 \<and>
      int (length (w_LNW g1)) = w_NL g1 * 4 * w_D g1 \<and> length (w_lay g1) = nat (w_NL g1))"
proof (cases "wsp_rdfile W (dir @ ''/enc_params.txt'')")
  case None
  then show ?thesis using assms by (simp add: init_params_def)
next
  case f: (Some f)
  show ?thesis
  proof (cases "wsp_rdfile W (dir @ ''/enc_ln.f32'')")
    case None
    then show ?thesis using assms f by (auto simp: init_params_def)
  next
    case l: (Some lnb)
    obtain q g2 where d: "init_dims W (c_text f) (g\<lparr>w_LNW := get32s (length lnb div 4) lnb\<rparr>) = Some (q, g2)"
      using assms f l by (auto simp: init_params_def split: option.splits)
    note dg = init_dims_good [OF d]
    show ?thesis
    proof (cases q)
      case False
      then show ?thesis using assms f l d dg by (auto simp: init_params_def)
    next
      case True
      show ?thesis
      proof (cases "int (length lnb) = w_NL g2 * 4 * w_D g2 * 4")
        case False
        then show ?thesis using assms f l d dg True by (auto simp: init_params_def)
      next
        case len: True
        then obtain ls where ls: "those (map (read_lay W (c_text f)) [0..<nat (w_NL g2)]) = Some ls" "r" "g1 = g2\<lparr>w_lay := ls\<rparr>"
          using assms f l d True by (auto simp: init_params_def split: option.splits)
        have "int (length lnb div 4) = w_NL g2 * 4 * w_D g2" using len by (simp add: zdiv_int)
        then show ?thesis using dg True ls those_length [OF ls(1)] by simp
      qed
    qed
  qed
qed

definition same_head :: "wst \<Rightarrow> wst \<Rightarrow> bool" where
  "same_head g h \<longleftrightarrow> w_ok h = w_ok g \<and> w_NL h = w_NL g \<and> w_D h = w_D g \<and> w_HG h = w_HG g \<and> w_HTOT h = w_HTOT g \<and> w_NG h = w_NG g \<and>
     w_LNW h = w_LNW g \<and> w_lay h = w_lay g"

lemma init_daemons_head: "init_daemons W g = (r, h) \<Longrightarrow> same_head g h"
  by (auto simp: init_daemons_def same_head_def Let_def split: option.splits prod.splits if_splits bool.splits)

lemma init_cross_head:
  assumes "init_cross W dir nm g = Some h"
  shows "same_head g h \<and> 0 \<le> w_NX h \<and> w_NX h \<le> WSP_MAXL \<and> (0 < w_NX h \<longrightarrow> length (w_x h) = nat (w_NX h))"
  using assms
  by (auto simp: init_cross_def same_head_def Let_def WSP_MAXL_def dest: those_length split: option.splits if_splits)

lemma init_conv_head:
  assumes "init_conv W dir nm g = Some h"
  shows "same_head g h \<and> w_NX h = w_NX g \<and> w_x h = w_x g \<and> (w_CONV h = 0 \<or> w_CONV h = 2)"
  using assms by (auto simp: init_conv_def same_head_def split: option.splits if_splits)

lemma w_allocs_same: "w_allocs W bs g = (r, h) \<Longrightarrow> \<exists>zs t. h = g\<lparr>w_zs := zs, w_tick := t\<rparr>"
proof (induction bs arbitrary: g)
  case Nil
  then have "h = g\<lparr>w_zs := w_zs g, w_tick := wst.w_tick g\<rparr>" by simp
  then show ?case by blast
next
  case (Cons b bs)
  show ?case
  proof (cases "barra_zc_alloc (fl_heap W (wst.w_tick g)) (fl_mmap W (wst.w_tick g)) b (nat (buf_bytes g b mod 2 ^ 32)) (w_zs g)")
    case (Pair q zs)
    then show ?thesis using Cons.prems Cons.IH [of "g\<lparr>w_zs := zs, w_tick := Suc (wst.w_tick g)\<rparr>"]
      by (cases q) (auto simp: Let_def)
  qed
qed

definition same_init :: "wst \<Rightarrow> wst \<Rightarrow> bool" where
  "same_init g h \<longleftrightarrow> same_head g h \<and> w_NX h = w_NX g \<and> w_x h = w_x g \<and> w_CONV h = w_CONV g"

lemma w_allocs_init:
  assumes "(if c then w_allocs W bs g else (True, g)) = (r, h)"
  shows "same_init g h \<and> w_pair h = w_pair g \<and> w_ovl h = w_ovl g"
  using assms w_allocs_same [of W bs g r h] by (cases c) (auto simp: same_init_def same_head_def)

lemma same_init_trans: "same_init g h \<Longrightarrow> same_init h k \<Longrightarrow> same_init g k"
  by (simp add: same_init_def same_head_def)

lemma init_bufs_head:
  assumes "init_bufs W g = (r, h)"
  shows "same_init g h \<and> (r \<longrightarrow> w_ovl h \<longrightarrow> w_pair h)"
proof -
  obtain a g1 where 1: "w_allocs W [bX, bY, bC, bO, bW, bA, bF, bG] g = (a, g1)" by (metis surj_pair)
  have s1: "same_init g g1" using w_allocs_init [of True, unfolded if_True, OF 1] by blast
  obtain b g2 where 2: "(if w_CONV g1 \<noteq> 0 then w_allocs W [bJ] g1 else (True, g1)) = (b, g2)" by (metis surj_pair)
  have s2: "same_init g g2" using same_init_trans [OF s1] w_allocs_init [OF 2] by blast
  define p where "p = (\<not> env_off W ''WSP_PAIR'')"
  define g3 where "g3 = g2\<lparr>w_pair := p, w_ovl := (p \<and> \<not> env_off W ''WSP_OVL'' \<and> WSP_NB = 4)\<rparr>"
  have s3: "same_init g g3" "w_ovl g3 \<longrightarrow> w_pair g3" using s2 by (simp_all add: g3_def same_init_def same_head_def)
  obtain c g4 where 4: "(if w_pair g3 then w_allocs W [bC2, bO2] g3 else (True, g3)) = (c, g4)" by (metis surj_pair)
  have s4: "same_init g g4" "w_ovl g4 \<longrightarrow> w_pair g4"
    using same_init_trans [OF s3(1)] s3(2) w_allocs_init [OF 4] by auto
  obtain d g5 where 5: "(if w_ovl g4 then w_allocs W [bC3, bO3, bC4, bO4] g4 else (True, g4)) = (d, g5)" by (metis surj_pair)
  have s5: "same_init g g5" "w_ovl g5 \<longrightarrow> w_pair g5"
    using same_init_trans [OF s4(1)] s4(2) w_allocs_init [OF 5] by auto
  obtain q zs se where i: "barra_tpu_import [bC, bO, bC2, bO2, bC3, bO3, bC4, bO4] (w_zs g5, w_TC g5) = (q, zs, se)" by (metis surj_pair)
  define g6 where "g6 = g5\<lparr>w_zs := zs, w_TC := se\<rparr>"
  have s6: "same_init g g6" "w_ovl g6 \<longrightarrow> w_pair g6" using s5 by (simp_all add: same_init_def same_head_def g6_def)
  have "init_bufs W g = (if \<not> a then (False, g1) else if \<not> b then (False, g2) else if \<not> c then (False, g4)
      else if \<not> d then (False, g5) else if w_ovl g5 then (q, g6) else (True, g5))"
    by (cases a; cases b; cases c; cases d)
      (simp_all only: init_bufs_def 1 2 4 5 i prod.case bool.case Let_def p_def [symmetric] g3_def [symmetric] g6_def [symmetric]
        if_True if_False not_True_eq_False not_False_eq_True)
  then have e: "(r, h) = (if \<not> a then (False, g1) else if \<not> b then (False, g2) else if \<not> c then (False, g4)
      else if \<not> d then (False, g5) else if w_ovl g5 then (q, g6) else (True, g5))" unfolding assms .
  show ?thesis
    using e s1 s2 s4 s5 s6 by (cases a; cases b; cases c; cases d; cases "w_ovl g5") simp_all
qed

text \<open>
  A start that reports success has read between 1 and 40 layers, with groups that divide the heads,
  weights and scales for each of them, and keys and values for at most 40 decoder layers; overlap only
  with pairs. Every later call keeps this.
\<close>

theorem wsp_init_good:
  assumes "w_ok g \<longrightarrow> wsp_good g" "wsp_init W g = Some (r, g1)"
  shows "(w_ok g1 \<longrightarrow> wsp_good g1) \<and> (r \<longrightarrow> w_ok g1)"
proof (cases "w_ok g")
  case True
  then show ?thesis using assms by (simp add: wsp_init_def)
next
  case False
  show ?thesis
  proof (cases "fl_env W ''WSP_PKG_DIR''")
    case None
    then show ?thesis using assms(2) False by (simp add: wsp_init_def)
  next
    case dir: (Some dir)
    obtain q p where p: "init_params W dir g = Some (q, p)" using assms(2) False dir by (auto simp: wsp_init_def split: option.splits)
    note ip = init_params_good [OF p]
    obtain m d where d: "init_daemons W p = (m, d)" by (metis surj_pair)
    note dh = init_daemons_head [OF d]
    show ?thesis
    proof (cases "q \<and> m \<noteq> None")
      case bad: False
      then show ?thesis using assms(2) False dir p ip d dh by (auto simp: wsp_init_def same_head_def split: option.splits bool.splits)
    next
      case ok: True
      then obtain nm where nm: "m = Some nm" q by auto
      obtain x where x: "init_cross W dir nm d = Some x" using assms(2) False dir p d nm by (auto simp: wsp_init_def split: option.splits)
      obtain c where c: "init_conv W dir nm x = Some c" using assms(2) False dir p d nm x by (auto simp: wsp_init_def split: option.splits)
      obtain t b where b: "init_bufs W c = (t, b)" by (metis surj_pair)
      have r: "r = t" "g1 = (if t then (wsp_pool_init W b)\<lparr>w_ok := True\<rparr> else b)"
        using assms(2) False dir p d nm x c b by (auto simp: wsp_init_def split: bool.splits if_splits)
      have h: "same_head p b" "w_NX b = w_NX x" "w_x b = w_x x" "w_CONV b = w_CONV c" "t \<longrightarrow> w_ovl b \<longrightarrow> w_pair b"
        using dh init_cross_head [OF x] init_conv_head [OF c] init_bufs_head [OF b] by (simp_all add: same_head_def same_init_def)
      show ?thesis
        using r h ip nm False init_cross_head [OF x] init_conv_head [OF c]
        by (auto simp: wsp_good_def same_head_def wsp_pool_init_def)
    qed
  qed
qed

section \<open>Concrete runs\<close>

text \<open>One layer, one head; both daemons answer.\<close>

definition wlib0 :: wlib where
  "wlib0 = \<lparr>fl_add = (\<lambda>a b. a + b), fl_sub = (\<lambda>a b. a - b), fl_mul = (\<lambda>a b. a * b), fl_div = (\<lambda>a b. a div b),
      fl_gt = (\<lambda>a b. a > b), fl_exp = (\<lambda>_. 0), fl_rint = int, fl_int = nat, fl_half = (\<lambda>h. h),
      fl_strtof = (\<lambda>_. None), fl_atof = (\<lambda>_. 0), fl_rnd = (\<lambda>x. x), fl_float = (\<lambda>_. 0),
      fl_env = (\<lambda>_. None), fl_file = (\<lambda>_. None), fl_heap = Some, fl_mmap = (\<lambda>_. True), fl_cpu = True,
      fl_t = tensors0, fl_contig = (\<lambda>_. True), fl_glop = (\<lambda>_. GSwiglu), fl_tpu = (\<lambda>_ _ m. m),
      fl_ffn = (\<lambda>_ _ _ xs. xs), fl_node = (\<lambda>_ m. m),
      wd_add = (\<lambda>a b. a + b), wd_sub = (\<lambda>a b. a - b), wd_mul = (\<lambda>a b. a * b), wd_div = (\<lambda>a b. a div b), wd_sqrt = (\<lambda>a. a),
      wd_of = (\<lambda>a. a), wd_float = (\<lambda>a. a), wd_int = nat, wd_trunc = int, wd_atof = (\<lambda>_. 0),
      wl_tpu = (\<lambda>_ _ m. m), wl_infer2 = (\<lambda>_ _ st. (True, st)), wl_submit2 = (\<lambda>_ _ st. (True, st)),
      wl_wait2 = (\<lambda>_ st. (True, st)), wl_late = even, wl_f16 = (\<lambda>v. v), wl_arm = True\<rparr>"

definition sess0 :: sess where
  "sess0 = \<lparr>ss_sock = Some \<lparr>k_in = replicate 64 0, k_out = [], k_room = 1000\<rparr>, ss_n = 0, ss_auto = True\<rparr>"

definition wst0 :: wst where
  "wst0 = \<lparr>w_ok = True, w_NL = 1, w_D = 64, w_HTOT = 1, w_HG = 1, w_PROJW = 0, w_NG = 1, w_cin = 1, w_cout = 1,
     w_lay = [\<lparr>la_pin = 1, la_pout = 1, la_wisc = 1, la_wizp = 0, la_wosc = 1, la_wozp = 0, la_fisc = 1, la_fizp = 0, la_fosc = 1, la_fozp = 0\<rparr>],
     w_NX = 0, w_x = [], w_CONV = 0, w_NMEL = 0,
     w_cv = \<lparr>cv_isc1 = 1, cv_izp1 = 0, cv_osc1 = 1, cv_ozp1 = 0, cv_isc2 = 1, cv_izp2 = 0, cv_osc2 = 1, cv_ozp2 = 0\<rparr>,
     w_LNW = replicate 256 1, w_pair = True, w_ovl = True, w_T = sess0, w_TC = sess0, w_nosync = True,
     w_zs = (\<lambda>_. \<lparr>cb_fd = Some 3, cb_map = True, cb_size = 0, cb_gpu = -1, cb_tpu = 0, cb_dsp = -1, cb_cpu = 1\<rparr>),
     w_mem = (\<lambda>_ _. 0), w_hb = (\<lambda>_. 0), w_ctx = (\<lambda>_. 0), w_pool = True, w_nth = 5,
     w_cw = \<lparr>cw_env = None, cw_net = (\<lambda>_ _. None), cw_n = 0, cw_done = []\<rparr>, w_tick = 0, w_fly = []\<rparr>"

lemma le_nat_zeros: "le_nat (replicate k 0) = 0"
  by (induction k) simp_all

lemma sess0_answers: "n \<le> 8 \<Longrightarrow> answers n sess0"
  by (auto simp: answers_def sess0_def le_nat_zeros min_def)

lemma wst0_runs:
  assumes "v \<longrightarrow> p"
  shows "\<exists>y h. wsp_barra_encode wlib0 x0 out 1500 64 (wst0\<lparr>w_pair := p, w_ovl := v, w_nth := t\<rparr>) = Some (True, y, h)"
  by (rule encode_live)
    (use assms sess0_answers [of 3] sess0_answers [of 4] sess0_answers [of 0] in
      \<open>simp_all add: wst0_def wlib0_def pairs_ok_def dims_ok_def wD_def wHG_def WSP_HD_def core_calls_def wsp_live_def\<close>)


theorem encode_is_reference_witness:
  "\<exists>y h. wsp_barra_encode wlib0 (\<lambda>_. 5) (\<lambda>_. 9) 1500 64 wst0 = Some (True, y, h) \<and>
     y 7 = enc_ref wlib0 wst0 (\<lambda>_. 5) 7 \<and> y 96000 = 9"
proof -
  have w: "wst0\<lparr>w_pair := True, w_ovl := True, w_nth := 5\<rparr> = wst0" by (simp add: wst0_def)
  obtain y h where r: "wsp_barra_encode wlib0 (\<lambda>_. 5) (\<lambda>_. 9) 1500 64 wst0 = Some (True, y, h)"
    using wst0_runs [of True True "\<lambda>_. 5" "\<lambda>_. 9" 5] unfolding w by blast
  have d: "dims_ok wst0" "w_ovl wst0 \<longrightarrow> w_pair wst0" "w_fly wst0 = []" "wsp_init wlib0 wst0 = Some (True, wst0)" "wSD wst0 = 96000"
    by (simp_all add: wst0_def dims_ok_def wD_def wHG_def wSD_def WSP_HD_def WSP_S_def wsp_init_def)
  from encode_is_reference [OF d(4,1-3) r] show ?thesis using r d(5) by auto
qed

theorem encode_schedules_agree_witness:
  "\<exists>y h h'. wsp_barra_encode wlib0 (\<lambda>_. 5) (\<lambda>_. 9) 1500 64 (wst0\<lparr>w_pair := False, w_ovl := False, w_nth := 0\<rparr>) = Some (True, y, h) \<and>
     wsp_barra_encode wlib0 (\<lambda>_. 5) (\<lambda>_. 9) 1500 64 (wst0\<lparr>w_pair := True, w_ovl := True, w_nth := 5\<rparr>) = Some (True, y, h')"
proof -
  obtain y h where 1: "wsp_barra_encode wlib0 (\<lambda>_. 5) (\<lambda>_. 9) 1500 64 (wst0\<lparr>w_pair := False, w_ovl := False, w_nth := 0\<rparr>) = Some (True, y, h)"
    using wst0_runs [of False False "\<lambda>_. 5" "\<lambda>_. 9" 0] by blast
  obtain y' h' where 2: "wsp_barra_encode wlib0 (\<lambda>_. 5) (\<lambda>_. 9) 1500 64 (wst0\<lparr>w_pair := True, w_ovl := True, w_nth := 5\<rparr>) = Some (True, y', h')"
    using wst0_runs [of True True "\<lambda>_. 5" "\<lambda>_. 9" 5] by blast
  have "w_ok wst0" "dims_ok wst0" "w_fly wst0 = []" by (simp_all add: wst0_def dims_ok_def wD_def wHG_def WSP_HD_def)
  from encode_schedules_agree [OF this _ _ 1 2] show ?thesis using 1 2 by blast
qed

theorem wsp_par_any_order_witness:
  "fold (wsp_worker 5 300 (\<lambda>i s. s + i)) [3, 0, 5, 1, 4, 2] (0 :: nat) = fold (\<lambda>i s. s + i) [0..<300] 0 \<and>
     wsp_par 5 300 (\<lambda>i s. s + i) (0 :: nat) = fold (\<lambda>i s. s + i) [0..<300] 0"
proof (rule wsp_par_any_order)
  show "mset [3, 0, 5, 1, 4, 2] = mset [0..<Suc 5]" by (simp add: upt_rec eval_nat_numeral)
qed simp


theorem wsp_init_good_witness: "w_ok wst0 \<and> wsp_good wst0"
proof -
  have "wsp_good wst0" by (simp add: wsp_good_def wst0_def WSP_MAXL_def)
  moreover have "wsp_init wlib0 wst0 = Some (True, wst0)" by (simp add: wsp_init_def wst0_def)
  ultimately show ?thesis using wsp_init_good [of wst0 wlib0 True wst0] by simp
qed

end
