(* ===== verification/Emb_Base.thy ===== *)
theory Emb_Base
  imports Wsp_Base
begin

text \<open>
  The speaker embeddings on the TPU, src/src/pyannote/speaker-embedding-extractor-barra-impl.h: its
  parameters, state and the files it reads. A function of the class ends normally, or ends the process
  (\<open>SHERPA_ONNX_EXIT\<close>), throws an exception, or accesses memory outside of an array or a shared buffer.
\<close>

section \<open>Parameters\<close>

text \<open>
  Beside the arithmetic, files and environment of \<^typ>\<open>wlib\<close>: the comparison and rounding of doubles,
  the C library's \<open>%lf\<close>; \<open>barra_tpu_info2\<close> and \<open>barra_tpu_infer_multi\<close> with what a package with several
  outputs computes (neither is in the client library of the repository); the mean, inner product, maximum
  with 0 and exponential of Eigen; sessions of the ONNX runtime by the path of the model: the shapes of the
  inputs, the shape of the first output, and a run (\<open>None\<close>: an exception).
\<close>

record elib = wlib +
  el_lt :: "f64 \<Rightarrow> f64 \<Rightarrow> bool"
  el_lrint :: "f64 \<Rightarrow> int"
  el_strtod :: "string \<Rightarrow> (f64 \<times> string) option"
  el_info2 :: "nat \<Rightarrow> sess \<Rightarrow> (nat \<times> nat \<times> nat list \<times> nat list) option \<times> sess"
  el_multi :: "nat \<Rightarrow> nat list \<Rightarrow> nat list \<Rightarrow> cst \<Rightarrow> bool \<times> cst"
  el_pkg :: "nat \<Rightarrow> (nat \<Rightarrow> int) \<Rightarrow> nat \<Rightarrow> nat \<Rightarrow> int"
  el_mean :: "f32 list \<Rightarrow> f32"
  el_dot :: "f32 list \<Rightarrow> f32 list \<Rightarrow> f32"
  el_max0 :: "f32 \<Rightarrow> f32"
  el_exp :: "f32 \<Rightarrow> f32"
  el_shapes :: "string \<Rightarrow> int list list option"
  el_oshape :: "string \<Rightarrow> int list"
  el_run :: "string \<Rightarrow> (int list \<times> f32 list) list \<Rightarrow> f32 list option"

definition d_tiny :: f64 where "d_tiny = 0x3E45798EE2308C3A"

definition kFrames :: nat where "kFrames = 300"
definition kFeat :: nat where "kFeat = 80"
definition kF :: nat where "kF = 10"
definition kT :: nat where "kT = 38"

lemmas emb_consts = kFrames_def kFeat_def kF_def kT_def

section \<open>Ends of a function\<close>

datatype emb_end = EExit | EThrow | EFault

definition ebind :: "emb_end + 'a \<Rightarrow> ('a \<Rightarrow> emb_end + 'b) \<Rightarrow> emb_end + 'b" where
  "ebind r f = (case r of Inl e \<Rightarrow> Inl e | Inr x \<Rightarrow> f x)"

lemma ebind_simps [simp]:
  "ebind (Inl e) f = Inl e"
  "ebind (Inr x) f = f x"
  by (simp_all add: ebind_def)

lemma ebind_Inr: "ebind r f = Inr y \<longleftrightarrow> (\<exists>x. r = Inr x \<and> f x = Inr y)"
  by (cases r) auto

lemma ebind_split: "P (ebind r f) \<longleftrightarrow> (\<forall>e. r = Inl e \<longrightarrow> P (Inl e)) \<and> (\<forall>x. r = Inr x \<longrightarrow> P (f x))"
  by (cases r) auto

definition need_ok :: "bool \<Rightarrow> emb_end \<Rightarrow> emb_end + unit" where
  "need_ok b e = (if b then Inr () else Inl e)"

lemma need_ok_Inr [simp]: "need_ok b e = Inr u \<longleftrightarrow> b"
  by (simp add: need_ok_def)

lemma need_ok_Inl [simp]: "need_ok b e = Inl e' \<longleftrightarrow> \<not> b \<and> e' = e"
  by (auto simp: need_ok_def)

section \<open>State\<close>

text \<open>
  The fields of the class; the arrays of the five segments by their index. \<open>es_mem\<close> has the 16-bit
  elements of the shared buffers, \<open>es_tick\<close> counts the calls to the outside.
\<close>

record est =
  es_dim :: int
  es_C :: nat
  es_eres :: bool
  es_tita :: bool
  es_nout :: "nat \<Rightarrow> nat"
  es_tosz :: "nat \<Rightarrow> nat \<Rightarrow> nat"
  es_isc :: "nat \<Rightarrow> f64"
  es_osc :: "nat \<Rightarrow> nat \<Rightarrow> f64"
  es_ozp :: "nat \<Rightarrow> nat \<Rightarrow> int"
  es_skip :: "nat \<Rightarrow> int"
  es_cin :: "nat \<Rightarrow> int"
  es_chid :: "nat \<Rightarrow> int"
  es_fc1 :: "nat \<Rightarrow> f32 list"
  es_fc2 :: "nat \<Rightarrow> f32 list"
  es_eisc :: f64
  es_eosc :: "nat \<Rightarrow> f64"
  es_osz :: "nat \<Rightarrow> nat"
  es_tail :: string
  es_shapes :: "int list list"
  es_sizes :: "int list"
  es_in_scale :: f64
  es_out_scale :: f64
  es_W :: "f32 list"
  es_b :: "f32 list"
  es_mv :: "f32 list"
  es_tpu :: sess
  es_zs :: store
  es_mem :: "nat \<Rightarrow> nat \<Rightarrow> int"
  es_cw :: cworld
  es_tick :: nat

text \<open>The buffers \<open>in_\<close>, \<open>out_\<close>, \<open>outs_[i]\<close>, \<open>tita_in_[s]\<close> and \<open>tita_out_[s][j]\<close>.\<close>

definition b_in :: nat where "b_in = 0"
definition b_out :: nat where "b_out = 1"
definition b_outs :: "nat \<Rightarrow> nat" where "b_outs i = 2 + i"
definition t_in :: "nat \<Rightarrow> nat" where "t_in s = 5 + s"
definition t_out :: "nat \<Rightarrow> nat \<Rightarrow> nat" where "t_out s j = 10 + 2 * s + j"

lemmas emb_bufs = b_in_def b_out_def b_outs_def t_in_def t_out_def

text \<open>A fresh object: the initializers of the class.\<close>

definition emb_fresh :: "cworld \<Rightarrow> store \<Rightarrow> est" where
  "emb_fresh w zs =
     \<lparr>es_dim = 0, es_C = 256, es_eres = False, es_tita = False, es_nout = (\<lambda>_. 0), es_tosz = (\<lambda>_ _. 0),
      es_isc = (\<lambda>_. d_zero), es_osc = (\<lambda>_ _. d_zero), es_ozp = (\<lambda>_ _. 0), es_skip = (\<lambda>_. 0), es_cin = (\<lambda>_. 0),
      es_chid = (\<lambda>_. 0), es_fc1 = (\<lambda>_. []), es_fc2 = (\<lambda>_. []), es_eisc = d_zero, es_eosc = (\<lambda>_. d_zero),
      es_osz = (\<lambda>_. 0), es_tail = [], es_shapes = [], es_sizes = [], es_in_scale = d_zero, es_out_scale = d_zero,
      es_W = [], es_b = [], es_mv = [], es_tpu = \<lparr>ss_sock = None, ss_n = 0, ss_auto = True\<rparr>,
      es_zs = (\<lambda>b. if b < 20 then cb_inert else zs b), es_mem = (\<lambda>_ _. 0), es_cw = w, es_tick = 0\<rparr>"

text \<open>\<open>n\<close> elements are inside of the buffer \<open>b\<close>.\<close>

definition in_buf :: "est \<Rightarrow> nat \<Rightarrow> nat \<Rightarrow> bool" where
  "in_buf g b n \<longleftrightarrow> 2 * n \<le> cb_size (es_zs g b)"

section \<open>Binary files\<close>

text \<open>\<open>fread\<close> of \<open>n\<close> values of 4 bytes, of one of 8, and what is left.\<close>

definition fread4 :: "nat \<Rightarrow> byte list \<Rightarrow> (nat list \<times> byte list) option" where
  "fread4 n bs = (if length bs < 4 * n then None else Some (get32s n bs, drop (4 * n) bs))"

definition fread8 :: "byte list \<Rightarrow> (f64 \<times> byte list) option" where
  "fread8 bs = (if length bs < 8 then None else Some (le_nat (take 8 bs), drop 8 bs))"

definition head_rest :: "byte list \<Rightarrow> nat \<Rightarrow> nat \<Rightarrow> est \<Rightarrow> est option" where
  "head_rest bs dm stat g =
     (case fread8 bs of
        None \<Rightarrow> None
      | Some (isc, b1) \<Rightarrow>
     (case fread8 b1 of
        None \<Rightarrow> None
      | Some (osc, b2) \<Rightarrow>
     (case fread4 (dm * stat * 2) b2 of
        None \<Rightarrow> None
      | Some (w, b3) \<Rightarrow>
     (case fread4 dm b3 of
        None \<Rightarrow> None
      | Some (b, b4) \<Rightarrow>
     (case fread4 dm b4 of
        None \<Rightarrow> None
      | Some (mv, _) \<Rightarrow>
          Some (g\<lparr>es_dim := s32 dm, es_C := stat div kF, es_in_scale := isc, es_out_scale := osc,
                  es_W := w, es_b := b, es_mv := mv\<rparr>))))))"

definition LoadHead :: "elib \<Rightarrow> string \<Rightarrow> est \<Rightarrow> est option" where
  "LoadHead L path g =
     (case fl_file L path of
        None \<Rightarrow> None
      | Some f \<Rightarrow>
     (case fread4 3 f of
        None \<Rightarrow> None
      | Some (h, r) \<Rightarrow>
          if h ! 0 = 0x42454831 \<and> h ! 1 > 0 \<and> h ! 2 > 0 \<and> h ! 2 mod kF = 0
          then head_rest r (h ! 1) (h ! 2) g
          else None))"

text \<open>The weights of the blocks from \<open>b\<close> on, \<open>n\<close> of them.\<close>

fun glue_blocks :: "nat \<Rightarrow> nat \<Rightarrow> byte list \<Rightarrow> est \<Rightarrow> est option" where
  "glue_blocks b 0 bs g = Some g"
| "glue_blocks b (Suc n) bs g =
     (case fread4 3 bs of
        None \<Rightarrow> None
      | Some (h, r) \<Rightarrow>
     (case fread4 (h ! 1 * h ! 2) r of
        None \<Rightarrow> None
      | Some (f1, r1) \<Rightarrow>
     (case fread4 (h ! 2 * h ! 1) r1 of
        None \<Rightarrow> None
      | Some (f2, r2) \<Rightarrow>
          glue_blocks (Suc b) n r2
            (g\<lparr>es_skip := (es_skip g)(b := s32 (h ! 0)), es_cin := (es_cin g)(b := s32 (h ! 1)),
               es_chid := (es_chid g)(b := s32 (h ! 2)), es_fc1 := (es_fc1 g)(b := f1),
               es_fc2 := (es_fc2 g)(b := f2)\<rparr>))))"

definition LoadTitaGlue :: "elib \<Rightarrow> string \<Rightarrow> est \<Rightarrow> est option" where
  "LoadTitaGlue L path g =
     (case fl_file L path of
        None \<Rightarrow> None
      | Some f \<Rightarrow>
     (case fread4 2 f of
        None \<Rightarrow> None
      | Some (h, r) \<Rightarrow> if h ! 0 = 0x42544731 \<and> h ! 1 = 5 then glue_blocks 0 5 r g else None))"

section \<open>Parameter files\<close>

text \<open>The lines as \<open>fgets\<close> with a buffer of 128 gives them, each up to its first 0.\<close>

definition fgets128 :: "string \<Rightarrow> string \<times> string" where
  "fgets128 s =
     (let t = take 127 s; l = takeWhile (\<lambda>c. c \<noteq> CHR 0x0A) t;
          r = (if length l < length t then l @ [CHR 0x0A] else l)
      in (r, drop (length r) s))"

lemma fgets128_shorter: "s \<noteq> [] \<Longrightarrow> length (snd (fgets128 s)) < length s"
  by (cases s) (auto simp: fgets128_def Let_def take_Cons')

function lines128 :: "string \<Rightarrow> string list" where
  "lines128 s =
     (if s = [] then []
      else takeWhile (\<lambda>c. c \<noteq> CHR 0x00) (fst (fgets128 s)) # lines128 (snd (fgets128 s)))"
  by auto

termination
  by (relation "measure length") (auto dest: fgets128_shorter)

declare lines128.simps [simp del]

text \<open>\<open>%lf\<close>, and the formats: how many conversions succeed decides.\<close>

definition scan_lf :: "elib \<Rightarrow> string \<Rightarrow> f64 option" where
  "scan_lf L s = map_option fst (el_strtod L (dropWhile is_space s))"

definition scan_key_lf :: "elib \<Rightarrow> string \<Rightarrow> string \<Rightarrow> f64 option" where
  "scan_key_lf L key s = Option.bind (scan_lit key s) (scan_lf L)"

definition scan_sd :: "string \<Rightarrow> (int \<times> string) option" where
  "scan_sd s = Option.bind (scan_lit ''s'' s) scan_d"

definition scan_so :: "string \<Rightarrow> (int \<times> int \<times> string) option" where
  "scan_so s =
     (case scan_sd s of
        None \<Rightarrow> None
      | Some (k, r) \<Rightarrow>
          map_option (\<lambda>(j, r1). (k, j, r1)) (Option.bind (scan_lit ''_o'' r) scan_d))"

definition line_isc :: "elib \<Rightarrow> string \<Rightarrow> (int \<times> f64) option" where
  "line_isc L s =
     (case scan_sd s of
        None \<Rightarrow> None
      | Some (k, r) \<Rightarrow> map_option (\<lambda>v. (k, v)) (scan_key_lf L ''_isc='' r))"

definition line_osc :: "elib \<Rightarrow> string \<Rightarrow> (int \<times> int \<times> f64) option" where
  "line_osc L s =
     (case scan_so s of
        None \<Rightarrow> None
      | Some (k, j, r) \<Rightarrow> map_option (\<lambda>v. (k, j, v)) (scan_key_lf L ''_osc='' r))"

definition line_ozp :: "string \<Rightarrow> (int \<times> int \<times> int) option" where
  "line_ozp s =
     (case scan_so s of
        None \<Rightarrow> None
      | Some (k, j, r) \<Rightarrow> map_option (\<lambda>(v, _). (k, j, v)) (Option.bind (scan_lit ''_ozp='' r) scan_d))"

text \<open>One line; a negative index, which passes the checks, is outside of the arrays.\<close>

definition tita_line :: "elib \<Rightarrow> string \<Rightarrow> est \<Rightarrow> emb_end + est" where
  "tita_line L l g =
     (case line_isc L l of
        Some (s, v) \<Rightarrow>
          if s < 5 then ebind (need_ok (0 \<le> s) EFault) (\<lambda>_. Inr (g\<lparr>es_isc := (es_isc g)(nat s := v)\<rparr>))
          else Inr g
      | None \<Rightarrow>
     (case line_osc L l of
        Some (s, j, v) \<Rightarrow>
          if s < 5 \<and> j < 2
          then ebind (need_ok (0 \<le> s \<and> 0 \<le> j) EFault)
            (\<lambda>_. Inr (g\<lparr>es_osc := (es_osc g)(nat s := (es_osc g (nat s))(nat j := v))\<rparr>))
          else Inr g
      | None \<Rightarrow>
     (case line_ozp l of
        Some (s, j, v) \<Rightarrow>
          if s < 5 \<and> j < 2
          then ebind (need_ok (0 \<le> s \<and> 0 \<le> j) EFault)
            (\<lambda>_. Inr (g\<lparr>es_ozp := (es_ozp g)(nat s := (es_ozp g (nat s))(nat j := to_i32 v))\<rparr>))
          else Inr g
      | None \<Rightarrow> Inr g)))"

fun tita_lines :: "elib \<Rightarrow> string list \<Rightarrow> est \<Rightarrow> emb_end + est" where
  "tita_lines L [] g = Inr g"
| "tita_lines L (l # ls) g = ebind (tita_line L l g) (tita_lines L ls)"

definition LoadTitaParams :: "elib \<Rightarrow> string \<Rightarrow> est \<Rightarrow> emb_end + bool \<times> est" where
  "LoadTitaParams L path g =
     (case fl_file L path of
        None \<Rightarrow> Inr (False, g)
      | Some f \<Rightarrow>
          ebind (tita_lines L (lines128 (text_of f)) g)
            (\<lambda>g1. Inr (list_all (\<lambda>s. el_lt L d_zero (es_isc g1 s)) [0..<5], g1)))"

text \<open>\<open>osc_%lu=%lf\<close>: the scale of each output with this size.\<close>

definition line_osz :: "elib \<Rightarrow> string \<Rightarrow> (nat \<times> f64) option" where
  "line_osz L s =
     (case Option.bind (scan_lit ''osc_'' s) scan_d of
        None \<Rightarrow> None
      | Some (sz, r) \<Rightarrow> map_option (\<lambda>v. (nat (sz mod 2 ^ 32), v)) (scan_key_lf L ''='' r))"

definition eres_line :: "elib \<Rightarrow> string \<Rightarrow> est \<Rightarrow> est" where
  "eres_line L l g =
     (case scan_key_lf L ''in_isc='' l of
        Some v \<Rightarrow> g\<lparr>es_eisc := v\<rparr>
      | None \<Rightarrow>
     (case line_osz L l of
        Some (sz, v) \<Rightarrow> g\<lparr>es_eosc := (\<lambda>i. if i < 3 \<and> es_osz g i = sz then v else es_eosc g i)\<rparr>
      | None \<Rightarrow> g))"

definition LoadEresParams :: "elib \<Rightarrow> string \<Rightarrow> est \<Rightarrow> bool \<times> est" where
  "LoadEresParams L path g =
     (case fl_file L path of
        None \<Rightarrow> (False, g)
      | Some f \<Rightarrow>
         (let g1 = fold (eres_line L) (lines128 (text_of f)) g;
              ok = (el_lt L d_zero (es_eisc g1) \<and> list_all (\<lambda>i. el_lt L d_zero (es_eosc g1 i)) [0..<3])
          in (ok, if ok then g1\<lparr>es_in_scale := es_eisc g1\<rparr> else g1)))"

definition FileExists :: "elib \<Rightarrow> string \<Rightarrow> bool" where
  "FileExists L p \<longleftrightarrow> fl_file L p \<noteq> None"

text \<open>The directory of the head file: everything before the last slash.\<close>

definition head_dir :: "string \<Rightarrow> string" where
  "head_dir hp =
     (if CHR ''/'' \<in> set hp
      then rev (drop 1 (dropWhile (\<lambda>c. c \<noteq> CHR ''/'') (rev hp))) else ''.'')"

end
