(* ===== verification/Emb_Run.thy ===== *)
theory Emb_Run
  imports Emb_Base
begin

text \<open>
  The operations of src/src/pyannote/speaker-embedding-extractor-barra-impl.h: the constructor with its
  three modes, the runs on the TPU, \<open>Compute\<close> and the destructor.
\<close>

section \<open>The constructor\<close>

definition nth0 :: "nat list \<Rightarrow> nat \<Rightarrow> nat" where
  "nth0 xs i = (if i < length xs then xs ! i else 0)"

text \<open>A shared buffer; without it the process ends.\<close>

definition emb_alloc :: "elib \<Rightarrow> nat \<Rightarrow> nat \<Rightarrow> est \<Rightarrow> emb_end + est" where
  "emb_alloc L b sz g =
     (case barra_zc_alloc (fl_heap L (es_tick g)) (fl_mmap L (es_tick g)) b sz (es_zs g) of
        (q, zs) \<Rightarrow> if q then Inr (g\<lparr>es_zs := zs, es_tick := Suc (es_tick g)\<rparr>) else Inl EExit)"

fun emb_allocs :: "elib \<Rightarrow> (nat \<times> nat) list \<Rightarrow> est \<Rightarrow> emb_end + est" where
  "emb_allocs L [] g = Inr g"
| "emb_allocs L ((b, sz) # r) g = ebind (emb_alloc L b sz g) (emb_allocs L r)"

text \<open>Segment \<open>s\<close> of the chain: sizes from the daemon, its input and one or two outputs.\<close>

definition tita_seg :: "elib \<Rightarrow> nat \<Rightarrow> est \<Rightarrow> emb_end + est" where
  "tita_seg L s g =
     (case el_info2 L s (es_tpu g) of
        (None, se) \<Rightarrow> Inl EExit
      | (Some (nin, nout, isz, osz), se) \<Rightarrow>
          if nin \<noteq> 1 \<or> nout < 1 \<or> nout > 2 \<or> nth0 isz 0 = 0 \<or> (s = 0 \<and> nth0 isz 0 < kFrames * kFeat * 2)
          then Inl EExit
          else emb_allocs L ((t_in s, nth0 isz 0) # map (\<lambda>j. (t_out s j, nth0 osz j)) [0..<nout])
            (g\<lparr>es_tpu := se, es_nout := (es_nout g)(s := nout),
               es_tosz := (es_tosz g)(s := (\<lambda>j. if j < nout then nth0 osz j else es_tosz g s j))\<rparr>))"

fun tita_segs :: "elib \<Rightarrow> nat list \<Rightarrow> est \<Rightarrow> emb_end + est" where
  "tita_segs L [] g = Inr g"
| "tita_segs L (s # r) g = ebind (tita_seg L s g) (tita_segs L r)"

definition new_tita :: "elib \<Rightarrow> string \<Rightarrow> est \<Rightarrow> emb_end + est" where
  "new_tita L dir g =
     (case LoadTitaGlue L (dir @ ''/tita_glue.bin'') g of
        None \<Rightarrow> Inl EExit
      | Some g1 \<Rightarrow>
          ebind (LoadTitaParams L (dir @ ''/tita_params.txt'') g1) (\<lambda>(ok, g2).
            if \<not> ok then Inl EExit
            else ebind (tita_segs L [0..<5] g2) (\<lambda>g3.
           (case el_shapes L (es_tail g3) of
              None \<Rightarrow> Inl EThrow
            | Some [] \<Rightarrow> Inl EThrow
            | Some (sh # _) \<Rightarrow>
                if el_oshape L (es_tail g3) = [] then Inl EFault
                else Inr (g3\<lparr>es_shapes := [sh], es_dim := to_i32 (last (el_oshape L (es_tail g3)))\<rparr>)))))"

definition new_eres :: "elib \<Rightarrow> string \<Rightarrow> est \<Rightarrow> emb_end + est" where
  "new_eres L dir g =
     (case el_info2 L 0 (es_tpu g) of
        (None, se) \<Rightarrow> Inl EExit
      | (Some (nin, nout, isz, osz), se) \<Rightarrow>
          if nin \<noteq> 1 \<or> nout \<noteq> 3 \<or> nth0 isz 0 \<noteq> kFeat * kFrames * 2 then Inl EExit
          else
            ebind (emb_allocs L ((b_in, nth0 isz 0) # map (\<lambda>i. (b_outs i, nth0 osz i)) [0..<3])
                (g\<lparr>es_tpu := se, es_osz := (\<lambda>i. if i < 3 then nth0 osz i else es_osz g i)\<rparr>)) (\<lambda>g1.
           (case LoadEresParams L (dir @ ''/eres_params.txt'') g1 of
              (False, _) \<Rightarrow> Inl EExit
            | (True, g2) \<Rightarrow>
               (case el_shapes L (es_tail g2) of
                  None \<Rightarrow> Inl EThrow
                | Some shs \<Rightarrow> Inr (g2\<lparr>es_shapes := shs, es_sizes := map prod_list shs\<rparr>)))))"

text \<open>The comparison computes \<open>C_ * kF * kT * 2\<close> as an \<open>int\<close>.\<close>

definition fm_len :: "est \<Rightarrow> nat" where
  "fm_len g = es_C g * kF * kT"

definition new_head :: "elib \<Rightarrow> est \<Rightarrow> emb_end + est" where
  "new_head L g =
     (case barra_tpu_info 0 (es_tpu g) of
        (None, _, se) \<Rightarrow> Inl EExit
      | (Some (isz, osz), _, se) \<Rightarrow>
          if isz \<noteq> kFeat * kFrames * 2 then Inl EExit
          else ebind (need_ok (fm_len g * 2 < 2 ^ 31) EFault) (\<lambda>_.
            if osz \<noteq> fm_len g * 2 then Inl EExit
            else emb_allocs L [(b_in, isz), (b_out, osz)] (g\<lparr>es_tpu := se\<rparr>)))"

definition new_mode :: "elib \<Rightarrow> string \<Rightarrow> est \<Rightarrow> emb_end + est" where
  "new_mode L dir g =
     (case barra_tpu_open (es_cw g) of
        (False, se, w) \<Rightarrow> Inl EExit
      | (True, se, w) \<Rightarrow>
         (let g1 = g\<lparr>es_tpu := se, es_cw := w\<rparr> in
          if es_tita g then new_tita L dir g1
          else if es_eres g then new_eres L dir g1
          else new_head L g1))"

definition new_extractor :: "elib \<Rightarrow> est \<Rightarrow> emb_end + est" where
  "new_extractor L g =
     (let hp = (case fl_env L ''BARRA_EMB_HEAD'' of
          Some h \<Rightarrow> if h = [] then ''/root/pya/head.bin'' else h | None \<Rightarrow> ''/root/pya/head.bin'');
          dir = head_dir hp;
          tita = FileExists L (dir @ ''/tita_tail.onnx'')
      in
      case (if tita then Some g else LoadHead L hp g) of
        None \<Rightarrow> Inl EExit
      | Some g1 \<Rightarrow>
         (let tail = (if tita then dir @ ''/tita_tail.onnx'' else dir @ ''/eres_tail.onnx'') in
          new_mode L dir (g1\<lparr>es_tita := tita, es_tail := tail, es_eres := (\<not> tita \<and> FileExists L tail)\<rparr>)))"

definition free_extractor :: "est \<Rightarrow> est" where
  "free_extractor g =
     g\<lparr>es_zs := fold barra_zc_free
         ([b_in, b_out] @ map b_outs [0..<3] @ concat (map (\<lambda>s. [t_in s, t_out s 0, t_out s 1]) [0..<5])) (es_zs g),
       es_tpu := dead (es_tpu g)\<rparr>"

section \<open>The chain of five segments\<close>

definition sat16 :: "int \<Rightarrow> int" where
  "sat16 v = z_clip (-32768) 32767 (to_i32 v)"

definition quant_in :: "elib \<Rightarrow> nat \<Rightarrow> f32 list \<Rightarrow> est \<Rightarrow> emb_end + est" where
  "quant_in L s src g =
     ebind (need_ok (in_buf g (t_in s) (length src)) EFault) (\<lambda>_.
       Inr (g\<lparr>es_mem := (es_mem g)(t_in s :=
           fold (\<lambda>i m. m(i := sat16 (el_lrint L (wd_div L (wd_of L (src ! i)) (es_isc g s))))) [0..<length src]
             (es_mem g (t_in s)))\<rparr>))"

definition deq_out :: "elib \<Rightarrow> nat \<Rightarrow> nat \<Rightarrow> est \<Rightarrow> f32 list" where
  "deq_out L s j g =
     map (\<lambda>i. wd_float L (wd_mul L (wd_int L (es_mem g (t_out s j) i - es_ozp g s j)) (es_osc g s j)))
       [0..<es_tosz g s j div 2]"

text \<open>The daemon replaces the outputs by what the package computes from the whole input buffer.\<close>

definition emb_multi :: "elib \<Rightarrow> nat \<Rightarrow> nat \<Rightarrow> nat list \<Rightarrow> est \<Rightarrow> bool \<times> est" where
  "emb_multi L model i qs g =
     (case el_multi L model [i] qs (es_zs g, es_tpu g) of
        (r, zs, se) \<Rightarrow>
         (let g1 = g\<lparr>es_zs := zs, es_tpu := se\<rparr>;
              res = el_pkg L model (first_n (cb_size (es_zs g i) div 2) (es_mem g i))
          in if r
             then (True, g1\<lparr>es_mem := fold (\<lambda>j m. m(qs ! j := res j)) [0..<length qs] (es_mem g)\<rparr>)
             else (False, g1)))"

definition infer_seg :: "elib \<Rightarrow> nat \<Rightarrow> est \<Rightarrow> bool \<times> est" where
  "infer_seg L s g = emb_multi L s (t_in s) (map (t_out s) [0..<es_nout g s]) g"

text \<open>
  \<open>TitaGlue\<close> on \<open>kFrames\<close> rows of \<open>C\<close> channels: every channel is scaled by a gate, computed from the
  means of all channels, and added to the skip connection. The first \<open>kFrames * C\<close> elements of \<open>y\<close>
  are replaced. The maps of Eigen check nothing.
\<close>

definition tg_ok :: "est \<Rightarrow> nat \<Rightarrow> f32 list option \<Rightarrow> nat \<Rightarrow> bool" where
  "tg_ok g b skip C \<longleftrightarrow>
     0 \<le> es_chid g b \<and> C * nat (es_chid g b) \<le> length (es_fc1 g b) \<and> nat (es_chid g b) * C \<le> length (es_fc2 g b) \<and>
     (case skip of None \<Rightarrow> True | Some s \<Rightarrow> kFrames * C \<le> length s)"

definition tg_mean :: "elib \<Rightarrow> f32 list \<Rightarrow> nat \<Rightarrow> f32 list" where
  "tg_mean L x C = map (\<lambda>c. el_mean L (map (\<lambda>t. x ! (t * C + c)) [0..<kFrames])) [0..<C]"

definition tg_hidden :: "elib \<Rightarrow> est \<Rightarrow> nat \<Rightarrow> f32 list \<Rightarrow> nat \<Rightarrow> f32 list" where
  "tg_hidden L g b x C =
     (let H = nat (es_chid g b) in
      map (\<lambda>h. el_max0 L (el_dot L (tg_mean L x C) (map (\<lambda>c. es_fc1 g b ! (c * H + h)) [0..<C]))) [0..<H])"

text \<open>The sign of a float flipped, and \<open>(1 + exp(-v)).inverse()\<close>.\<close>

definition neg_f :: "f32 \<Rightarrow> f32" where
  "neg_f v = (v + 2 ^ 31) mod 2 ^ 32"

definition sigm :: "elib \<Rightarrow> f32 \<Rightarrow> f32" where
  "sigm L v = fl_div L f_one (fl_add L f_one (el_exp L (neg_f v)))"

definition tg_gate :: "elib \<Rightarrow> est \<Rightarrow> nat \<Rightarrow> f32 list \<Rightarrow> nat \<Rightarrow> f32 list" where
  "tg_gate L g b x C =
     (let H = nat (es_chid g b) in
      map (\<lambda>c. sigm L (el_dot L (tg_hidden L g b x C) (map (\<lambda>h. es_fc2 g b ! (h * C + c)) [0..<H]))) [0..<C])"

definition TitaGlue :: "elib \<Rightarrow> est \<Rightarrow> nat \<Rightarrow> f32 list \<Rightarrow> f32 list option \<Rightarrow> f32 list \<Rightarrow> nat \<Rightarrow> emb_end + f32 list" where
  "TitaGlue L g b x skip y C =
     ebind (need_ok (tg_ok g b skip C) EFault) (\<lambda>_.
      (let gate = tg_gate L g b x C;
           out = map (\<lambda>i.
             let v = fl_mul L (x ! i) (gate ! (i mod C)) in
             el_max0 L (case skip of None \<Rightarrow> v | Some s \<Rightarrow> fl_add L v (s ! i))) [0..<kFrames * C]
       in Inr (out @ drop (kFrames * C) y)))"

text \<open>\<open>resize\<close> of a vector.\<close>

definition resize :: "nat \<Rightarrow> f32 list \<Rightarrow> f32 list" where
  "resize n y = take n y @ replicate (n - length y) 0"

text \<open>One segment and its glue; \<open>Inr (None, _)\<close>: the daemon has refused.\<close>

definition tita_link :: "elib \<Rightarrow> nat \<Rightarrow> bool \<Rightarrow> f32 list \<Rightarrow> f32 list \<Rightarrow> est \<Rightarrow> emb_end + f32 list option \<times> est" where
  "tita_link L s skips src y g =
     ebind (quant_in L s src g) (\<lambda>g1.
     (case infer_seg L s g1 of
        (False, g2) \<Rightarrow> Inr (None, g2)
      | (True, g2) \<Rightarrow>
         (let x = deq_out L s 0 g2;
              skip = (if skips then Some (deq_out L s 1 g2) else None)
          in ebind (TitaGlue L g2 s x skip (resize (length x) y) (length x div kFrames))
               (\<lambda>y1. Inr (Some y1, g2)))))"

text \<open>The segments \<open>ss\<close> in order, each on the result of the one before.\<close>

fun tita_links :: "elib \<Rightarrow> nat list \<Rightarrow> f32 list \<Rightarrow> est \<Rightarrow> emb_end + f32 list option \<times> est" where
  "tita_links L [] y g = Inr (Some y, g)"
| "tita_links L (s # r) y g =
     ebind (tita_link L s (1 \<le> s \<and> s \<le> 3) y y g) (\<lambda>(q, g1).
       case q of None \<Rightarrow> Inr (None, g1) | Some y1 \<Rightarrow> tita_links L r y1 g1)"

definition nchw :: "f32 list \<Rightarrow> nat \<Rightarrow> f32 list" where
  "nchw y C = concat (map (\<lambda>c. map (\<lambda>t. y ! (t * C + c)) [0..<kFrames]) [0..<C])"

definition RunTitaChain :: "elib \<Rightarrow> f32 list \<Rightarrow> est \<Rightarrow> emb_end + f32 list option \<times> est" where
  "RunTitaChain L win g =
     ebind (tita_link L 0 False win [] g) (\<lambda>(q, g1).
       case q of
         None \<Rightarrow> Inr (None, g1)
       | Some y \<Rightarrow>
           ebind (tita_links L [1, 2, 3, 4] y g1) (\<lambda>(q2, g2).
             case q2 of
               None \<Rightarrow> Inr (None, g2)
             | Some y2 \<Rightarrow>
                (case el_run L (es_tail g2) [(hd (es_shapes g2), nchw y2 (length y2 div kFrames))] of
                   None \<Rightarrow> Inl EThrow
                 | Some p \<Rightarrow>
                     ebind (need_ok (0 \<le> es_dim g2 \<and> nat (es_dim g2) \<le> length p) EFault)
                       (\<lambda>_. Inr (Some (take (nat (es_dim g2)) p), g2)))))"

section \<open>The trunk with three outputs\<close>

text \<open>The last output with as many elements as an input of the tail needs, dequantized.\<close>

definition tail_src :: "est \<Rightarrow> int \<Rightarrow> nat option" where
  "tail_src g want = List.find (\<lambda>k. int (es_osz g k div 2) = want) [2, 1, 0]"

definition tail_input :: "elib \<Rightarrow> est \<Rightarrow> nat \<Rightarrow> int \<Rightarrow> f32 list" where
  "tail_input L g k want =
     map (\<lambda>j. wd_float L (wd_mul L (wd_int L (es_mem g (b_outs k) j)) (es_eosc g k))) [0..<nat want]"

fun tail_inputs :: "elib \<Rightarrow> est \<Rightarrow> (int list \<times> int) list \<Rightarrow> (int list \<times> f32 list) list option" where
  "tail_inputs L g [] = Some []"
| "tail_inputs L g ((sh, want) # r) =
     (case tail_src g want of
        None \<Rightarrow> None
      | Some k \<Rightarrow> map_option (Cons (sh, tail_input L g k want)) (tail_inputs L g r))"

definition RunEres :: "elib \<Rightarrow> est \<Rightarrow> emb_end + (nat \<Rightarrow> f32) option \<times> est" where
  "RunEres L g =
     (case emb_multi L 0 b_in (map b_outs [0..<3]) g of
        (False, g1) \<Rightarrow> Inr (None, g1)
      | (True, g1) \<Rightarrow>
     (case tail_inputs L g1 (zip (es_shapes g1) (es_sizes g1)) of
        None \<Rightarrow> Inr (None, g1)
      | Some ins \<Rightarrow>
     (case el_run L (es_tail g1) ins of
        None \<Rightarrow> Inl EThrow
      | Some p \<Rightarrow> ebind (need_ok (fm_len g1 \<le> length p) EFault) (\<lambda>_. Inr (Some (\<lambda>i. p ! i), g1)))))"

text \<open>The trunk with one output, through the client library.\<close>

definition RunTrunk :: "elib \<Rightarrow> est \<Rightarrow> emb_end + (nat \<Rightarrow> f32) option \<times> est" where
  "RunTrunk L g =
     (case barra_tpu_infer 0 b_in b_out (es_zs g, es_tpu g) of
        (r, zs, se) \<Rightarrow>
         (let g1 = g\<lparr>es_zs := zs, es_tpu := se\<rparr> in
          if r = None then Inr (None, g1)
          else
         (let g2 = g1\<lparr>es_mem := (es_mem g)(b_out :=
                wl_tpu L False 0 (first_n (cb_size (es_zs g b_in) div 2) (es_mem g b_in)))\<rparr>
          in ebind (need_ok (in_buf g2 b_out (fm_len g2)) EFault) (\<lambda>_.
               Inr (Some (\<lambda>i. wd_float L (wd_mul L (wd_int L (es_mem g2 b_out i)) (es_out_scale g2))), g2)))))"

section \<open>Streams and windows\<close>

text \<open>
  A stream of sherpa: frames ready, frames taken, and \<open>GetFrames\<close>. The configuration of a stream is
  the default of sherpa with some fields set.
\<close>

record stream =
  os_ready :: int
  os_done :: int
  os_get :: "int \<Rightarrow> int \<Rightarrow> f32 list"

record fconf =
  fc_rate :: int
  fc_dim :: int
  fc_norm :: bool
  fc_snip :: bool
  fc_low :: int
  fc_librosa :: bool
  fc_dc :: bool
  fc_window :: string

definition CreateStream :: "fconf \<Rightarrow> est \<Rightarrow> fconf" where
  "CreateStream dflt g =
     (let c = dflt\<lparr>fc_rate := 16000\<rparr> in
      if es_tita g
      then c\<lparr>fc_dim := int kFeat, fc_norm := True, fc_snip := True, fc_low := 0, fc_librosa := True,
             fc_dc := False, fc_window := ''hann''\<rparr>
      else c\<lparr>fc_norm := False\<rparr>)"

definition IsReady :: "stream \<Rightarrow> bool" where
  "IsReady s \<longleftrightarrow> os_done s < os_ready s"

function tiles :: "nat \<Rightarrow> nat \<Rightarrow> nat list" where
  "tiles T s0 = (if s0 + kFrames \<le> T then s0 # tiles T (s0 + kFrames) else [])"
  by auto

termination
  by (relation "measure (\<lambda>(T, s0). T - s0)") (auto simp: kFrames_def)

declare tiles.simps [simp del]

definition starts_of :: "nat \<Rightarrow> nat list" where
  "starts_of T =
     (if T \<le> kFrames then [0]
      else let ts = tiles T 0 in if last ts + kFrames < T then ts @ [T - kFrames] else ts)"

definition src_frame :: "nat \<Rightarrow> nat \<Rightarrow> nat \<Rightarrow> nat" where
  "src_frame T s0 t = (if T \<le> kFrames then t mod T else s0 + t)"

text \<open>All frames of a window are in the vector of features.\<close>

definition frames_in :: "f32 list \<Rightarrow> nat \<Rightarrow> nat \<Rightarrow> bool" where
  "frames_in fs T s0 \<longleftrightarrow> list_all (\<lambda>t. src_frame T s0 t * kFeat + kFeat \<le> length fs) [0..<kFrames]"

section \<open>Compute\<close>

text \<open>
  A window goes into the input buffer feature by feature; each access to the features, the buffer and
  the head has to be inside of its array.
\<close>

definition win_elem :: "elib \<Rightarrow> f64 \<Rightarrow> f32 list \<Rightarrow> nat \<Rightarrow> nat \<Rightarrow> nat \<Rightarrow> nat \<Rightarrow> int" where
  "win_elem L isc fs T s0 f t =
     sat16 (fl_rint L (fl_div L (fs ! (src_frame T s0 t * kFeat + f)) (wd_float L isc)))"

definition put_window :: "elib \<Rightarrow> f32 list \<Rightarrow> nat \<Rightarrow> nat \<Rightarrow> est \<Rightarrow> emb_end + est" where
  "put_window L fs T s0 g =
     ebind (need_ok (frames_in fs T s0 \<and> in_buf g b_in (kFeat * kFrames)) EFault) (\<lambda>_.
       Inr (g\<lparr>es_mem := (es_mem g)(b_in :=
           fold (\<lambda>f. fold (\<lambda>t m. m(f * kFrames + t := win_elem L (es_in_scale g) fs T s0 f t)) [0..<kFrames])
             [0..<kFeat] (es_mem g b_in))\<rparr>))"

text \<open>The sums of a row of the feature map and of its squares, added to those so far.\<close>

definition row_sums :: "elib \<Rightarrow> (nat \<Rightarrow> f32) \<Rightarrow> f64 \<times> f64" where
  "row_sums L r =
     fold (\<lambda>t (a, a2). (wd_add L a (wd_of L (r t)), wd_add L a2 (wd_mul L (wd_of L (r t)) (wd_of L (r t)))))
       [0..<kT] (d_zero, d_zero)"

type_synonym accs = "(nat \<Rightarrow> f64) \<times> (nat \<Rightarrow> f64)"

definition add_rows :: "elib \<Rightarrow> nat \<Rightarrow> (nat \<Rightarrow> f32) \<Rightarrow> accs \<Rightarrow> accs" where
  "add_rows L stat fm acc =
     fold (\<lambda>cf (su, sq). case row_sums L (\<lambda>t. fm (cf * kT + t)) of
         (a, a2) \<Rightarrow> (su(cf := wd_add L (su cf) a), sq(cf := wd_add L (sq cf) a2))) [0..<stat] acc"

fun emb_windows :: "elib \<Rightarrow> f32 list \<Rightarrow> nat \<Rightarrow> nat list \<Rightarrow> accs \<Rightarrow> est \<Rightarrow> emb_end + accs option \<times> est" where
  "emb_windows L fs T [] acc g = Inr (Some acc, g)"
| "emb_windows L fs T (s0 # r) acc g =
     ebind (put_window L fs T s0 g) (\<lambda>g1.
     ebind (if es_eres g1 then RunEres L g1 else RunTrunk L g1) (\<lambda>(q, g2).
       case q of
         None \<Rightarrow> Inr (None, g2)
       | Some fm \<Rightarrow> emb_windows L fs T r (add_rows L (es_C g2 * kF) fm acc) g2))"

text \<open>Mean and deviation of each row over \<open>n\<close> columns; the head.\<close>

definition pool_mean :: "elib \<Rightarrow> int \<Rightarrow> f64 \<Rightarrow> f64" where
  "pool_mean L n s = wd_div L s (wd_int L n)"

definition pool_dev :: "elib \<Rightarrow> int \<Rightarrow> f64 \<Rightarrow> f64 \<Rightarrow> f64" where
  "pool_dev L n s q =
     (let m = pool_mean L n s;
          v = wd_div L (wd_mul L (wd_sub L (wd_div L q (wd_int L n)) (wd_mul L m m)) (wd_int L n)) (wd_int L (n - 1));
          v1 = (if el_lt L v d_zero then d_zero else v)
      in wd_sqrt L (wd_add L v1 d_tiny))"

definition pool_x :: "elib \<Rightarrow> nat \<Rightarrow> int \<Rightarrow> accs \<Rightarrow> f64 list" where
  "pool_x L stat n acc =
     map (\<lambda>i. pool_mean L n (fst acc i)) [0..<stat] @ map (\<lambda>i. pool_dev L n (fst acc i) (snd acc i)) [0..<stat]"

definition head_elem :: "elib \<Rightarrow> est \<Rightarrow> f64 list \<Rightarrow> nat \<Rightarrow> f32" where
  "head_elem L g x r =
     (let n = length x;
          acc = fold (\<lambda>i a. wd_add L a (wd_mul L (wd_of L (es_W g ! (r * n + i))) (x ! i))) [0..<n] d_zero
      in wd_float L (wd_sub L (wd_add L acc (wd_of L (es_b g ! r))) (wd_of L (es_mv g ! r))))"

definition head_fits :: "est \<Rightarrow> bool" where
  "head_fits g \<longleftrightarrow>
     nat (es_dim g) * (es_C g * kF * 2) \<le> length (es_W g) \<and>
     nat (es_dim g) \<le> length (es_b g) \<and> nat (es_dim g) \<le> length (es_mv g)"

definition compute_head :: "elib \<Rightarrow> f32 list \<Rightarrow> nat \<Rightarrow> est \<Rightarrow> emb_end + f32 list \<times> est" where
  "compute_head L fs T g =
     ebind (emb_windows L fs T (starts_of T) (\<lambda>_. d_zero, \<lambda>_. d_zero) g) (\<lambda>(q, g1).
       case q of
         None \<Rightarrow> Inr ([], g1)
       | Some acc \<Rightarrow>
           if es_dim g1 < 0 then Inl EThrow
           else ebind (need_ok (head_fits g1) EFault) (\<lambda>_.
             Inr (map (head_elem L g1
                 (pool_x L (es_C g1 * kF) (int (length (starts_of T) * kT)) acc)) [0..<nat (es_dim g1)], g1)))"

text \<open>The window for the chain: copied, then normalized feature by feature.\<close>

definition tita_win :: "f32 list \<Rightarrow> nat \<Rightarrow> nat \<Rightarrow> f32 list" where
  "tita_win fs T s0 = map (\<lambda>i. fs ! (src_frame T s0 (i div kFeat) * kFeat + i mod kFeat)) [0..<kFrames * kFeat]"

definition feat_mu :: "elib \<Rightarrow> f32 list \<Rightarrow> nat \<Rightarrow> f64" where
  "feat_mu L w f =
     wd_div L (fold (\<lambda>t a. wd_add L a (wd_of L (w ! (t * kFeat + f)))) [0..<kFrames] d_zero) (wd_int L (int kFrames))"

definition feat_sd :: "elib \<Rightarrow> f32 list \<Rightarrow> nat \<Rightarrow> f64" where
  "feat_sd L w f =
     (let d = (\<lambda>t. wd_sub L (wd_of L (w ! (t * kFeat + f))) (feat_mu L w f)) in
      wd_add L (wd_sqrt L (wd_div L (fold (\<lambda>t a. wd_add L a (wd_mul L (d t) (d t))) [0..<kFrames] d_zero)
        (wd_int L (int kFrames)))) d_eps)"

definition tita_norm :: "elib \<Rightarrow> f32 list \<Rightarrow> f32 list" where
  "tita_norm L w =
     map (\<lambda>i. wd_float L (wd_div L (wd_sub L (wd_of L (w ! i)) (feat_mu L w (i mod kFeat))) (feat_sd L w (i mod kFeat))))
       [0..<kFrames * kFeat]"

fun tita_windows :: "elib \<Rightarrow> f32 list \<Rightarrow> nat \<Rightarrow> nat list \<Rightarrow> f64 list \<Rightarrow> est \<Rightarrow> emb_end + f64 list option \<times> est" where
  "tita_windows L fs T [] acc g = Inr (Some acc, g)"
| "tita_windows L fs T (s0 # r) acc g =
     ebind (need_ok (frames_in fs T s0) EFault) (\<lambda>_.
     ebind (RunTitaChain L (tita_norm L (tita_win fs T s0)) g) (\<lambda>(q, g1).
       case q of
         None \<Rightarrow> Inr (None, g1)
       | Some e \<Rightarrow> tita_windows L fs T r (map (\<lambda>i. wd_add L (acc ! i) (wd_of L (e ! i))) [0..<length acc]) g1))"

definition compute_tita :: "elib \<Rightarrow> f32 list \<Rightarrow> nat \<Rightarrow> est \<Rightarrow> emb_end + f32 list \<times> est" where
  "compute_tita L fs T g =
     (if es_dim g < 0 then Inl EThrow
      else
     ebind (tita_windows L fs T (starts_of T) (replicate (nat (es_dim g)) d_zero) g) (\<lambda>(q, g1).
       case q of
         None \<Rightarrow> Inr ([], g1)
       | Some acc \<Rightarrow>
           Inr (map (\<lambda>v. wd_float L (wd_div L v (wd_int L (int (length (starts_of T)))))) acc, g1)))"

text \<open>\<open>Compute\<close>: the empty vector reports an error. The stream loses the frames that were ready.\<close>

definition Compute :: "elib \<Rightarrow> stream \<Rightarrow> est \<Rightarrow> emb_end + f32 list \<times> stream \<times> est" where
  "Compute L s g =
     (let n = os_ready s - os_done s in
      if n \<le> 0 then Inr ([], s, g)
      else
     (let fs = os_get s (os_done s) n; s1 = s\<lparr>os_done := os_done s + n\<rparr>; T = nat n in
      if length fs \<noteq> T * kFeat then Inr ([], s1, g)
      else ebind (if es_tita g then compute_tita L fs T g else compute_head L fs T g)
             (\<lambda>(v, g1). Inr (v, s1, g1))))"

end
