(* ===== verification/Emb_Correct.thy ===== *)
theory Emb_Correct
  imports Emb_Run Client_Correct Ffn_Rows
begin

text \<open>
  Properties of the speaker embeddings: what a successful start guarantees, the windows, the safety of
  \<open>Compute\<close> with the head, its reference without buffers, and a chain of packages that is accepted
  although it overruns a buffer.
\<close>

section \<open>The start\<close>

text \<open>The head has the sizes its file announces.\<close>

definition head_good :: "est \<Rightarrow> bool" where
  "head_good g \<longleftrightarrow>
     0 < length (es_b g) \<and> es_dim g = s32 (length (es_b g)) \<and> length (es_mv g) = length (es_b g) \<and> 1 \<le> es_C g \<and>
     length (es_W g) = length (es_b g) * (es_C g * kF * 2)"

definition tita_good :: "est \<Rightarrow> nat \<Rightarrow> bool" where
  "tita_good g s \<longleftrightarrow>
     1 \<le> es_nout g s \<and> es_nout g s \<le> 2 \<and> 0 < cb_size (es_zs g (t_in s)) \<and>
     (\<forall>j<es_nout g s. cb_size (es_zs g (t_out s j)) = es_tosz g s j) \<and>
     (s = 0 \<longrightarrow> 2 * (kFrames * kFeat) \<le> cb_size (es_zs g (t_in 0)))"

definition emb_good :: "est \<Rightarrow> bool" where
  "emb_good g \<longleftrightarrow>
     (if es_tita g then (\<forall>s<5. tita_good g s)
      else head_good g \<and> cb_size (es_zs g b_in) = 2 * (kFeat * kFrames) \<and>
        (if es_eres g then (\<forall>i<3. cb_size (es_zs g (b_outs i)) = es_osz g i)
         else cb_size (es_zs g b_out) = 2 * fm_len g))"

text \<open>
  What the start has checked of the parameters: the weights of each glue block have as many values as
  the two counts of its own header say, and the scales that divide are positive. Nothing relates
  the counts of a block to the channels of the segment in front of it.
\<close>

definition glue_counts :: "est \<Rightarrow> nat \<Rightarrow> bool" where
  "glue_counts g b \<longleftrightarrow>
     (\<exists>ci ch. es_cin g b = s32 ci \<and> es_chid g b = s32 ch \<and> length (es_fc1 g b) = ci * ch \<and>
        length (es_fc2 g b) = ch * ci)"

definition start_ok :: "elib \<Rightarrow> est \<Rightarrow> bool" where
  "start_ok L g \<longleftrightarrow>
     (if es_tita g then (\<forall>b<5. glue_counts g b) \<and> (\<forall>s<5. el_lt L d_zero (es_isc g s))
      else if es_eres g then el_lt L d_zero (es_eisc g) \<and> (\<forall>i<3. el_lt L d_zero (es_eosc g i))
      else True)"

lemma fread4_Some: "fread4 n bs = Some (xs, r) \<Longrightarrow> length xs = n"
  by (auto simp: fread4_def split: if_splits)

lemma LoadHead_good: "LoadHead L path g = Some g1 \<Longrightarrow> head_good g1"
  by (auto simp: LoadHead_def head_rest_def head_good_def kF_def mult.assoc dest!: fread4_Some
      split: option.splits prod.splits if_splits)

lemma zc_alloc_size:
  "barra_zc_alloc hp mp b sz zs = (True, zs1) \<Longrightarrow> cb_size (zs1 b) = sz \<and> (\<forall>p. p \<noteq> b \<longrightarrow> zs1 p = zs p)"
  by (auto simp: barra_zc_alloc_def cpu_begin_def split: option.splits if_splits)

lemma emb_alloc_Inr:
  assumes "emb_alloc L b sz g = Inr g1"
  shows "\<exists>zs t. g1 = g\<lparr>es_zs := zs, es_tick := t\<rparr> \<and> cb_size (zs b) = sz \<and> (\<forall>p. p \<noteq> b \<longrightarrow> zs p = es_zs g p)"
  using assms by (auto simp: emb_alloc_def dest!: zc_alloc_size split: prod.splits if_splits)

text \<open>A list of buffers: each has its size, nothing else has changed.\<close>

lemma emb_allocs_Inr:
  assumes "emb_allocs L xs g = Inr g1" "distinct (map fst xs)"
  shows "\<exists>zs t. g1 = g\<lparr>es_zs := zs, es_tick := t\<rparr> \<and> (\<forall>(b, sz)\<in>set xs. cb_size (zs b) = sz) \<and>
    (\<forall>p. p \<notin> fst ` set xs \<longrightarrow> zs p = es_zs g p)"
  using assms
proof (induction xs arbitrary: g)
  case Nil
  then have "g1 = g\<lparr>es_zs := es_zs g, es_tick := es_tick g\<rparr>" by simp
  then show ?case by fastforce
next
  case (Cons x xs)
  obtain b sz where x: "x = (b, sz)" by fastforce
  obtain g2 where 1: "emb_alloc L b sz g = Inr g2" "emb_allocs L xs g2 = Inr g1"
    using Cons.prems(1) by (auto simp: x ebind_Inr)
  obtain zs2 t2 where 2: "g2 = g\<lparr>es_zs := zs2, es_tick := t2\<rparr>" "cb_size (zs2 b) = sz" "\<forall>p. p \<noteq> b \<longrightarrow> zs2 p = es_zs g p"
    using emb_alloc_Inr [OF 1(1)] by blast
  obtain zs t where 3: "g1 = g2\<lparr>es_zs := zs, es_tick := t\<rparr>" "\<forall>(b, sz)\<in>set xs. cb_size (zs b) = sz"
    "\<forall>p. p \<notin> fst ` set xs \<longrightarrow> zs p = es_zs g2 p"
    using Cons.IH [OF 1(2)] Cons.prems(2) by auto
  have b: "zs b = zs2 b" using 3(3) Cons.prems(2) by (simp add: x 2(1))
  have "g1 = g\<lparr>es_zs := zs, es_tick := t\<rparr>" by (simp add: 3(1) 2(1))
  moreover have "\<forall>(b, sz)\<in>set (x # xs). cb_size (zs b) = sz" using 3(2) 2(2) b by (simp add: x)
  moreover have "\<forall>p. p \<notin> fst ` set (x # xs) \<longrightarrow> zs p = es_zs g p" using 3(3) 2 by (simp add: x)
  ultimately show ?case by blast
qed

lemma new_head_good:
  assumes "new_head L g = Inr g1" "head_good g" "\<not> es_tita g" "\<not> es_eres g"
  shows "emb_good g1 \<and> start_ok L g1"
proof -
  obtain isz osz n se where i: "barra_tpu_info 0 (es_tpu g) = (Some (isz, osz), n, se)" "isz = kFeat * kFrames * 2"
    "osz = fm_len g * 2" "emb_allocs L [(b_in, isz), (b_out, osz)] (g\<lparr>es_tpu := se\<rparr>) = Inr g1"
    using assms(1) by (auto simp: new_head_def ebind_Inr split: prod.splits option.splits if_splits)
  have "distinct (map fst [(b_in, isz), (b_out, osz)])" by (simp add: emb_bufs)
  from emb_allocs_Inr [OF i(4) this] obtain zs t where
    g1: "g1 = g\<lparr>es_tpu := se\<rparr>\<lparr>es_zs := zs, es_tick := t\<rparr>" "cb_size (zs b_in) = isz" "cb_size (zs b_out) = osz"
    by auto
  with assms i(2,3) show ?thesis by (simp add: emb_good_def head_good_def fm_len_def start_ok_def)
qed

lemma LoadEresParams_keeps:
  assumes "LoadEresParams L path g = (r, g1)"
  shows "es_zs g1 = es_zs g" "es_osz g1 = es_osz g" "head_good g1 = head_good g" "es_tita g1 = es_tita g"
    "es_eres g1 = es_eres g"
proof -
  define keeps where "keeps = (\<lambda>a b. es_zs a = es_zs b \<and> es_osz a = es_osz b \<and> head_good a = head_good b \<and>
    es_tita a = es_tita b \<and> es_eres a = es_eres b)"
  have line: "keeps (eres_line L l a) a" for l a
    by (auto simp: eres_line_def keeps_def head_good_def split: option.splits)
  have "keeps (fold (eres_line L) ls a) a" for ls a
  proof (induction ls arbitrary: a)
    case (Cons l ls)
    with line [of l a] show ?case by (simp add: keeps_def)
  qed (simp add: keeps_def)
  then have f: "keeps (fold (eres_line L) ls a) a" "keeps (fold (eres_line L) ls a\<lparr>es_in_scale := v\<rparr>) a" for ls a v
    unfolding keeps_def head_good_def by simp_all
  have "keeps g g" by (simp add: keeps_def)
  with assms f have "keeps g1 g"
    by (auto simp: LoadEresParams_def Let_def simp del: fold_simps split: option.splits if_splits)
  then show "es_zs g1 = es_zs g" "es_osz g1 = es_osz g" "head_good g1 = head_good g" "es_tita g1 = es_tita g"
    "es_eres g1 = es_eres g" by (simp_all add: keeps_def)
qed

lemma LoadEresParams_ok:
  "LoadEresParams L path g = (True, g1) \<Longrightarrow> el_lt L d_zero (es_eisc g1) \<and> (\<forall>i<3. el_lt L d_zero (es_eosc g1 i))"
  by (auto simp: LoadEresParams_def Let_def list_all_iff split: option.splits if_splits)

lemma new_eres_good:
  assumes "new_eres L dir g = Inr g1" "head_good g" "\<not> es_tita g" "es_eres g"
  shows "emb_good g1 \<and> start_ok L g1"
proof -
  obtain isz osz se g2 g3 shs where
    i: "nth0 isz 0 = kFeat * kFrames * 2"
      "emb_allocs L ((b_in, nth0 isz 0) # map (\<lambda>i. (b_outs i, nth0 osz i)) [0..<3])
         (g\<lparr>es_tpu := se, es_osz := (\<lambda>i. if i < 3 then nth0 osz i else es_osz g i)\<rparr>) = Inr g2"
      "LoadEresParams L (dir @ ''/eres_params.txt'') g2 = (True, g3)"
      "g1 = g3\<lparr>es_shapes := shs, es_sizes := map prod_list shs\<rparr>"
  proof -
    obtain nin nout isz osz se where e: "el_info2 L 0 (es_tpu g) = (Some (nin, nout, isz, osz), se)"
      using assms(1) by (auto simp: new_eres_def split: prod.splits option.splits)
    have c: "nth0 isz 0 = kFeat * kFrames * 2" using assms(1) by (simp add: new_eres_def e split: if_splits)
    obtain g2 where 2: "emb_allocs L ((b_in, nth0 isz 0) # map (\<lambda>i. (b_outs i, nth0 osz i)) [0..<3])
         (g\<lparr>es_tpu := se, es_osz := (\<lambda>i. if i < 3 then nth0 osz i else es_osz g i)\<rparr>) = Inr g2"
      using assms(1) by (auto simp: new_eres_def e ebind_Inr simp del: emb_allocs.simps upt_rec_numeral split: if_splits)
    obtain g3 where 3: "LoadEresParams L (dir @ ''/eres_params.txt'') g2 = (True, g3)"
      using assms(1) by (auto simp: new_eres_def e c 2 [unfolded c] simp del: emb_allocs.simps upt_rec_numeral
          split: if_splits prod.splits bool.splits)
    obtain shs where 4: "el_shapes L (es_tail g3) = Some shs"
      using assms(1) by (auto simp: new_eres_def e c 2 [unfolded c] 3 simp del: emb_allocs.simps upt_rec_numeral
          split: if_splits option.splits)
    show thesis
      by (rule that [OF c 2 3, of shs])
        (use assms(1) in \<open>simp add: new_eres_def e c 2 [unfolded c] 3 4 del: emb_allocs.simps upt_rec_numeral split: if_splits\<close>)
  qed
  have "distinct (map fst ((b_in, nth0 isz 0) # map (\<lambda>i. (b_outs i, nth0 osz i)) [0..<3]))"
    by (simp add: emb_bufs upt_rec)
  from emb_allocs_Inr [OF i(2) this] obtain zs t where
    g2: "g2 = g\<lparr>es_tpu := se, es_osz := (\<lambda>i. if i < 3 then nth0 osz i else es_osz g i)\<rparr>\<lparr>es_zs := zs, es_tick := t\<rparr>"
      "\<forall>(b, sz)\<in>set ((b_in, nth0 isz 0) # map (\<lambda>i. (b_outs i, nth0 osz i)) [0..<3]). cb_size (zs b) = sz"
    by blast
  have sz: "cb_size (zs b_in) = nth0 isz 0" "\<forall>i<3. cb_size (zs (b_outs i)) = nth0 osz i" using g2(2) by simp_all
  have "head_good g2" using assms(2) by (simp add: g2(1) head_good_def)
  then have "head_good g3" using LoadEresParams_keeps(3) [OF i(3)] by simp
  then have "head_good g1" by (simp add: i(4) head_good_def)
  moreover have "es_zs g1 = zs" "\<not> es_tita g1" "es_eres g1" "es_osz g1 = (\<lambda>i. if i < 3 then nth0 osz i else es_osz g i)"
    using LoadEresParams_keeps [OF i(3)] assms(3,4) by (simp_all add: i(4) g2(1))
  moreover have "el_lt L d_zero (es_eisc g1) \<and> (\<forall>i<3. el_lt L d_zero (es_eosc g1 i))"
    using LoadEresParams_ok [OF i(3)] by (simp add: i(4))
  ultimately show ?thesis using sz i(1) by (simp add: emb_good_def start_ok_def)
qed

lemma tita_seg_good:
  assumes "tita_seg L s g = Inr g1" "s < 5"
  shows "tita_good g1 s" "es_tita g1 = es_tita g" "es_isc g1 = es_isc g \<and> (\<forall>b. glue_counts g1 b = glue_counts g b)"
    "s' < 5 \<Longrightarrow> s' \<noteq> s \<Longrightarrow> tita_good g s' \<Longrightarrow> tita_good g1 s'"
proof -
  obtain nout isz osz se where
    i: "1 \<le> nout" "nout \<le> 2" "nth0 isz 0 \<noteq> 0" "s = 0 \<longrightarrow> kFrames * kFeat * 2 \<le> nth0 isz 0"
      "emb_allocs L ((t_in s, nth0 isz 0) # map (\<lambda>j. (t_out s j, nth0 osz j)) [0..<nout])
        (g\<lparr>es_tpu := se, es_nout := (es_nout g)(s := nout),
           es_tosz := (es_tosz g)(s := (\<lambda>j. if j < nout then nth0 osz j else es_tosz g s j))\<rparr>) = Inr g1"
  proof -
    obtain nin nout isz osz se where e: "el_info2 L s (es_tpu g) = (Some (nin, nout, isz, osz), se)"
      using assms(1) by (auto simp: tita_seg_def split: prod.splits option.splits)
    show thesis
      by (rule that [of nout isz osz se])
        (use assms(1) in \<open>auto simp add: tita_seg_def e simp del: emb_allocs.simps split: if_splits\<close>)
  qed
  have "distinct (map fst ((t_in s, nth0 isz 0) # map (\<lambda>j. (t_out s j, nth0 osz j)) [0..<nout]))"
    using assms(2) by (auto simp: emb_bufs distinct_map comp_def inj_on_def)
  from emb_allocs_Inr [OF i(5) this] obtain zs t where
    g1: "g1 = g\<lparr>es_tpu := se, es_nout := (es_nout g)(s := nout),
           es_tosz := (es_tosz g)(s := (\<lambda>j. if j < nout then nth0 osz j else es_tosz g s j))\<rparr>\<lparr>es_zs := zs, es_tick := t\<rparr>"
      "\<forall>(b, sz)\<in>set ((t_in s, nth0 isz 0) # map (\<lambda>j. (t_out s j, nth0 osz j)) [0..<nout]). cb_size (zs b) = sz"
      "\<forall>p. p \<notin> fst ` set ((t_in s, nth0 isz 0) # map (\<lambda>j. (t_out s j, nth0 osz j)) [0..<nout]) \<longrightarrow> zs p = es_zs g p"
    by (auto simp del: emb_allocs.simps)
  have "cb_size (zs (t_in s)) = nth0 isz 0" "\<forall>j<nout. cb_size (zs (t_out s j)) = nth0 osz j" using g1(2) by auto
  then show "tita_good g1 s" using i(1-4) by (auto simp: tita_good_def g1(1))
  show "es_tita g1 = es_tita g" "es_isc g1 = es_isc g \<and> (\<forall>b. glue_counts g1 b = glue_counts g b)"
    by (simp_all add: g1(1) glue_counts_def)
  assume s: "s' < 5" "s' \<noteq> s" and gd: "tita_good g s'"
  have n: "es_nout g s' \<le> 2" using gd by (simp add: tita_good_def)
  have "zs (t_in s') = es_zs g (t_in s')" using g1(3) [rule_format, of "t_in s'"] s assms(2) by (auto simp: emb_bufs image_iff)
  moreover have "zs (t_out s' j) = es_zs g (t_out s' j)" if "j < es_nout g s'" for j
    using g1(3) [rule_format, of "t_out s' j"] s assms(2) that n i(2) by (auto simp: emb_bufs image_iff)
  ultimately show "tita_good g1 s'" using gd s(2) by (auto simp: tita_good_def g1(1))
qed

lemma tita_segs_good:
  assumes "tita_segs L ss g = Inr g1" "\<forall>s\<in>set ss. s < 5"
  shows "(\<forall>s\<in>set ss. tita_good g1 s) \<and> (\<forall>s<5. tita_good g s \<longrightarrow> tita_good g1 s) \<and> es_tita g1 = es_tita g \<and>
    es_isc g1 = es_isc g \<and> (\<forall>b. glue_counts g1 b = glue_counts g b)"
  using assms
proof (induction ss arbitrary: g)
  case (Cons s r)
  obtain g2 where 1: "tita_seg L s g = Inr g2" "tita_segs L r g2 = Inr g1"
    using Cons.prems(1) by (auto simp: ebind_Inr)
  have s: "s < 5" using Cons.prems(2) by simp
  note 2 = tita_seg_good [OF 1(1) s] and 3 = Cons.IH [OF 1(2)]
  have "\<forall>s'<5. tita_good g s' \<longrightarrow> tita_good g2 s'" using 2(1) 2(4) by blast
  with 2(1-3) 3 Cons.prems(2) s show ?case by simp
qed simp

text \<open>The glue: every block gets as many weights as its header says; the rest of the load keeps them.\<close>

lemma glue_blocks_counts:
  "glue_blocks b n bs g = Some g1 \<Longrightarrow>
     es_tita g1 = es_tita g \<and> (\<forall>k<b. glue_counts g k \<longrightarrow> glue_counts g1 k) \<and> (\<forall>k. b \<le> k \<and> k < b + n \<longrightarrow> glue_counts g1 k)"
proof (induction b n bs g rule: glue_blocks.induct)
  case (2 b n bs g)
  obtain h r f1 r1 f2 r2 where f: "fread4 3 bs = Some (h, r)" "fread4 (h ! 1 * h ! 2) r = Some (f1, r1)"
    "fread4 (h ! 2 * h ! 1) r1 = Some (f2, r2)"
    using "2.prems" by (auto split: option.splits prod.splits)
  define g2 where "g2 = g\<lparr>es_skip := (es_skip g)(b := s32 (h ! 0)), es_cin := (es_cin g)(b := s32 (h ! 1)),
     es_chid := (es_chid g)(b := s32 (h ! 2)), es_fc1 := (es_fc1 g)(b := f1), es_fc2 := (es_fc2 g)(b := f2)\<rparr>"
  have "glue_blocks (Suc b) n r2 g2 = Some g1"
    using "2.prems" unfolding glue_blocks.simps f option.case prod.case by (simp add: g2_def)
  with "2.IH" [OF f(1) _ f(2) _ f(3)] have
    ih: "es_tita g1 = es_tita g2" "\<forall>k<Suc b. glue_counts g2 k \<longrightarrow> glue_counts g1 k"
      "\<forall>k. Suc b \<le> k \<and> k < Suc b + n \<longrightarrow> glue_counts g1 k"
    by (simp_all add: g2_def)
  have c: "glue_counts g2 b" using fread4_Some [OF f(2)] fread4_Some [OF f(3)] by (auto simp: glue_counts_def g2_def)
  have k: "glue_counts g2 k = glue_counts g k" if "k < b" for k using that by (simp add: glue_counts_def g2_def)
  have t: "es_tita g1 = es_tita g" using ih(1) by (simp add: g2_def)
  have a: "glue_counts g1 k" if "k < b" "glue_counts g k" for k
    using ih(2) [rule_format, of k] k [OF that(1)] that by simp
  have z: "glue_counts g1 k" if "b \<le> k" "k < b + Suc n" for k
  proof (cases "k = b")
    case True
    then show ?thesis using ih(2) c by simp
  next
    case False
    then show ?thesis using ih(3) that by simp
  qed
  show ?case using t a z by blast
qed auto

lemma tita_lines_keep:
  "tita_lines L ls g = Inr g1 \<Longrightarrow> es_tita g1 = es_tita g \<and> (\<forall>b. glue_counts g1 b = glue_counts g b)"
proof (induction ls arbitrary: g)
  case (Cons l ls)
  have line: "es_tita a' = es_tita a \<and> (\<forall>b. glue_counts a' b = glue_counts a b)" if "tita_line L l a = Inr a'" for a a'
  proof -
    have "es_tita a' = es_tita a \<and> es_cin a' = es_cin a \<and> es_chid a' = es_chid a \<and> es_fc1 a' = es_fc1 a \<and> es_fc2 a' = es_fc2 a"
      using that by (auto simp: tita_line_def ebind_Inr split: option.splits prod.splits if_splits)
    then show ?thesis by (simp add: glue_counts_def)
  qed
  obtain g2 where "tita_line L l g = Inr g2" "tita_lines L ls g2 = Inr g1" using Cons.prems by (auto simp: ebind_Inr)
  with line Cons.IH show ?case by fastforce
qed simp

lemma new_tita_good:
  assumes "new_tita L dir g = Inr g1" "es_tita g"
  shows "emb_good g1 \<and> start_ok L g1"
proof -
  obtain g2 g3 g4 sh where
    i: "LoadTitaGlue L (dir @ ''/tita_glue.bin'') g = Some g2"
      "LoadTitaParams L (dir @ ''/tita_params.txt'') g2 = Inr (True, g3)" "tita_segs L [0..<5] g3 = Inr g4"
      "g1 = g4\<lparr>es_shapes := [sh], es_dim := to_i32 (last (el_oshape L (es_tail g4)))\<rparr>"
  proof -
    obtain g2 where 2: "LoadTitaGlue L (dir @ ''/tita_glue.bin'') g = Some g2"
      using assms(1) by (auto simp: new_tita_def split: option.splits)
    obtain ok g3 where 3: "LoadTitaParams L (dir @ ''/tita_params.txt'') g2 = Inr (ok, g3)"
      using assms(1) by (auto simp: new_tita_def 2 ebind_Inr)
    have ok: "ok" using assms(1) by (auto simp: new_tita_def 2 3 split: if_splits)
    obtain g4 where 4: "tita_segs L [0..<5] g3 = Inr g4"
      using assms(1) by (auto simp: new_tita_def 2 3 ok ebind_Inr simp del: upt_rec_numeral)
    obtain sh r where 5: "el_shapes L (es_tail g4) = Some (sh # r)"
      using assms(1) by (auto simp: new_tita_def 2 3 ok 4 simp del: upt_rec_numeral split: option.splits list.splits)
    show thesis
      by (rule that [OF 2 3 [unfolded eqTrueI [OF ok]] 4, of sh])
        (use assms(1) in \<open>simp add: new_tita_def 2 3 ok 4 5 del: upt_rec_numeral split: if_splits\<close>)
  qed
  have 1: "es_tita g2 = es_tita g" "\<forall>b<5. glue_counts g2 b"
    using i(1) by (auto simp: LoadTitaGlue_def dest!: glue_blocks_counts split: option.splits prod.splits if_splits)
  have 2: "es_tita g3 = es_tita g2" "\<forall>b. glue_counts g3 b = glue_counts g2 b" "\<forall>s<5. el_lt L d_zero (es_isc g3 s)"
    using i(2) by (auto simp: LoadTitaParams_def ebind_Inr list_all_iff dest!: tita_lines_keep split: option.splits)
  have 3: "\<forall>s<5. tita_good g4 s" "es_tita g4 = es_tita g3" "es_isc g4 = es_isc g3" "\<forall>b. glue_counts g4 b = glue_counts g3 b"
    using tita_segs_good [OF i(3)] by auto
  have "glue_counts g1 b = glue_counts g4 b" for b by (simp add: glue_counts_def i(4))
  then show ?thesis using 1 2 3 assms(2) by (simp add: emb_good_def start_ok_def i(4) tita_good_def)
qed

lemma new_good:
  assumes "new_extractor L (emb_fresh w zs) = Inr g"
  shows "emb_good g" "start_ok L g"
proof -
  have mode: "emb_good g1 \<and> start_ok L g1" if "new_mode L d h = Inr g1" "es_tita h \<longrightarrow> \<not> es_eres h" "es_tita h \<or> head_good h" for d h g1
  proof -
    obtain q se w1 where q: "barra_tpu_open (es_cw h) = (q, se, w1)" by (metis prod_cases3)
    then have o: "barra_tpu_open (es_cw h) = (True, se, w1)" using that(1) by (cases q) (simp_all add: new_mode_def)
    have "head_good (h\<lparr>es_tpu := se, es_cw := w1\<rparr>) = head_good h" by (simp add: head_good_def)
    with that o show ?thesis
      by (auto simp: new_mode_def Let_def dest: new_tita_good new_eres_good new_head_good split: if_splits)
  qed
  have keep: "head_good (h\<lparr>es_tita := a, es_tail := b, es_eres := c\<rparr>) = head_good h" for h a b c
    by (simp add: head_good_def)
  from assms have "emb_good g \<and> start_ok L g"
    by (auto simp: new_extractor_def Let_def keep split: option.splits if_splits dest!: LoadHead_good dest: mode)
  then show "emb_good g" "start_ok L g" by simp_all
qed

section \<open>Windows\<close>

lemma tiles_eq: "tiles T s0 = map (\<lambda>k. s0 + k * kFrames) [0..<(T - s0) div kFrames]"
proof (induction T s0 rule: tiles.induct)
  case (1 T s0)
  show ?case
  proof (cases "s0 + kFrames \<le> T")
    case True
    then obtain n where n: "(T - s0) div kFrames = Suc n"
      by (cases "(T - s0) div kFrames") (auto simp: kFrames_def div_eq_0_iff)
    have "(T - (s0 + kFrames)) div kFrames = n"
      using n True by (simp add: kFrames_def le_div_geq)
    then have "tiles T s0 = s0 # map (\<lambda>k. s0 + kFrames + k * kFrames) [0..<n]"
      using 1 True by (subst tiles.simps) simp
    also have "\<dots> = map (\<lambda>k. s0 + k * kFrames) (0 # map Suc [0..<n])"
      by (simp add: algebra_simps comp_def)
    also have "0 # map Suc [0..<n] = [0..<Suc n]" by (simp only: map_Suc_upt upt_conv_Cons zero_less_Suc)
    finally show ?thesis by (simp only: n)
  next
    case False
    then show ?thesis by (subst tiles.simps) (simp add: kFrames_def)
  qed
qed

lemma starts_long:
  assumes "300 < T"
  shows "starts_of T = map (\<lambda>k. k * 300) [0..<T div 300] @ (if T mod 300 = 0 then [] else [T - 300])"
proof -
  have d: "T div 300 \<noteq> 0" using assms by (simp add: div_eq_0_iff)
  have t: "tiles T 0 = map (\<lambda>k. k * 300) [0..<T div 300]" by (simp add: tiles_eq kFrames_def)
  have "last (tiles T 0) = (T div 300 - 1) * 300" using d by (simp add: t last_map)
  moreover have "(T div 300 - 1) * 300 + 300 = T div 300 * 300" using d by (cases "T div 300") simp_all
  moreover have "T div 300 * 300 < T \<longleftrightarrow> T mod 300 \<noteq> 0" using div_mult_mod_eq [of T 300] by linarith
  ultimately show ?thesis using assms t by (simp add: starts_of_def kFrames_def)
qed

lemma starts_in:
  assumes "1 \<le> T" "s0 \<in> set (starts_of T)" "t < kFrames"
  shows "src_frame T s0 t < T"
proof (cases "T \<le> 300")
  case True
  then show ?thesis using assms by (simp add: src_frame_def kFrames_def)
next
  case False
  then have T: "300 < T" by simp
  from assms(2) consider k where "k < T div 300" "s0 = k * 300" | "s0 = T - 300"
    by (auto simp: starts_long [OF T] split: if_splits)
  then show ?thesis
  proof cases
    case 1
    then have "(k + 1) * 300 \<le> T div 300 * 300" by (intro mult_right_mono) simp_all
    also have "\<dots> \<le> T" by simp
    finally show ?thesis using 1 assms(3) T by (simp add: src_frame_def kFrames_def)
  next
    case 2
    then show ?thesis using assms(3) T by (simp add: src_frame_def kFrames_def)
  qed
qed

lemma starts_cover:
  assumes "j < T"
  shows "\<exists>s0\<in>set (starts_of T). \<exists>t<kFrames. src_frame T s0 t = j"
proof (cases "T \<le> 300")
  case True
  then have "src_frame T 0 j = j" "0 \<in> set (starts_of T)" "j < kFrames"
    using assms by (simp_all add: src_frame_def kFrames_def starts_of_def)
  then show ?thesis by blast
next
  case False
  then have T: "300 < T" by simp
  show ?thesis
  proof (cases "j div 300 < T div 300")
    case True
    then have "j div 300 * 300 \<in> set (starts_of T)" by (auto simp: starts_long [OF T])
    moreover have "src_frame T (j div 300 * 300) (j mod 300) = j" using T by (simp add: src_frame_def kFrames_def)
    moreover have "j mod 300 < kFrames" by (simp add: kFrames_def)
    ultimately show ?thesis by blast
  next
    case False
    have "j div 300 \<le> T div 300" using assms by (intro div_le_mono) simp
    with False have e: "j div 300 = T div 300" by simp
    have "T mod 300 \<noteq> 0"
      using e assms div_mult_mod_eq [of T 300] div_mult_mod_eq [of j 300] by (metis add.right_neutral add_lessD1 le_add1 not_less)
    then have "T - 300 \<in> set (starts_of T)" by (simp add: starts_long [OF T])
    moreover have "T - 300 \<le> j"
      using e T div_mult_mod_eq [of T 300] div_mult_mod_eq [of j 300] mod_less_divisor [of 300 T] by linarith
    then have "src_frame T (T - 300) (j - (T - 300)) = j" "j - (T - 300) < kFrames"
      using T assms by (auto simp: src_frame_def kFrames_def)
    ultimately show ?thesis by blast
  qed
qed

lemma length_starts: "1 \<le> T \<Longrightarrow> length (starts_of T) = (T + 299) div 300"
proof (cases "T \<le> 300")
  case True
  assume "1 \<le> T"
  then have "(T + 299) div 300 = 1" using True by (intro div_nat_eqI) simp_all
  with True show ?thesis by (simp add: starts_of_def kFrames_def)
next
  case False
  have "(T + 299) div 300 = T div 300 + (if T mod 300 = 0 then 0 else 1)"
    by (cases "T mod 300 = 0"; intro div_nat_eqI; use div_mult_mod_eq [of T 300] mod_less_divisor [of 300 T] in \<open>simp; linarith\<close>)
  with False show ?thesis by (simp add: starts_long)
qed

section \<open>What a window leaves alone\<close>

definition emb_same :: "est \<Rightarrow> est \<Rightarrow> bool" where
  "emb_same g h \<longleftrightarrow>
     (\<exists>zs se m. h = g\<lparr>es_zs := zs, es_tpu := se, es_mem := m\<rparr> \<and> (\<forall>b. cb_size (zs b) = cb_size (es_zs g b)))"

lemma emb_same_I: "\<forall>b. cb_size (zs b) = cb_size (es_zs g b) \<Longrightarrow> emb_same g (g\<lparr>es_zs := zs, es_tpu := se, es_mem := m\<rparr>)"
  unfolding emb_same_def by blast

lemma emb_same_refl: "emb_same g g"
  using emb_same_I [of "es_zs g" g "es_mem g" "es_tpu g"] by simp

lemma emb_same_trans: "emb_same a b \<Longrightarrow> emb_same b c \<Longrightarrow> emb_same a c"
proof -
  assume "emb_same a b" "emb_same b c"
  then obtain zs se m zs2 se2 m2 where b: "b = a\<lparr>es_zs := zs, es_tpu := se, es_mem := m\<rparr>"
    "\<forall>p. cb_size (zs p) = cb_size (es_zs a p)"
    and c: "c = b\<lparr>es_zs := zs2, es_tpu := se2, es_mem := m2\<rparr>" "\<forall>p. cb_size (zs2 p) = cb_size (es_zs b p)"
    unfolding emb_same_def by blast
  have "c = a\<lparr>es_zs := zs2, es_tpu := se2, es_mem := m2\<rparr>" by (simp add: b(1) c(1))
  moreover have "\<forall>p. cb_size (zs2 p) = cb_size (es_zs a p)" using b c by simp
  ultimately show ?thesis using emb_same_I [of zs2 a m2 se2] by simp
qed

lemma emb_same_sel:
  assumes "emb_same g h"
  shows "es_dim h = es_dim g" "es_C h = es_C g" "es_eres h = es_eres g" "es_tita h = es_tita g"
    "es_in_scale h = es_in_scale g" "es_out_scale h = es_out_scale g" "es_W h = es_W g" "es_b h = es_b g"
    "es_mv h = es_mv g" "es_nout h = es_nout g" "es_tosz h = es_tosz g" "es_osz h = es_osz g" "es_tail h = es_tail g"
    "cb_size (es_zs h b) = cb_size (es_zs g b)"
  using assms unfolding emb_same_def by auto

lemma emb_same_good: "emb_same g h \<Longrightarrow> emb_good h = emb_good g"
  using emb_same_sel [of g h]
  by (simp add: emb_good_def head_good_def tita_good_def fm_len_def)

definition keeps_sizes :: "elib \<Rightarrow> bool" where
  "keeps_sizes L \<longleftrightarrow> (\<forall>m is qs st b. cb_size (fst (snd (el_multi L m is qs st)) b) = cb_size (fst st b))"

lemma put_window_same: "put_window L fs T s0 g = Inr h \<Longrightarrow> emb_same g h"
  using emb_same_I [of "es_zs g" g _ "es_tpu g"] by (auto simp: put_window_def ebind_Inr)

lemma RunTrunk_same: "RunTrunk L g = Inr (q, h) \<Longrightarrow> emb_same g h"
  using tpu_infer_bal [of "(es_zs g, es_tpu g)" 0 b_in b_out] emb_same_I [of _ g "es_mem g"]
  by (auto simp: RunTrunk_def ebind_Inr bal_def Let_def intro!: emb_same_I split: prod.splits if_splits)

lemma emb_multi_same: "emb_multi L m i qs g = (q, h) \<Longrightarrow> keeps_sizes L \<Longrightarrow> emb_same g h"
  unfolding keeps_sizes_def
  by (drule spec [where x = m], drule spec [where x = "[i]"], drule spec [where x = qs],
      drule spec [where x = "(es_zs g, es_tpu g)"])
    (use emb_same_I [of _ g "es_mem g"] in
      \<open>auto simp: emb_multi_def Let_def intro!: emb_same_I split: prod.splits if_splits\<close>)

lemma RunEres_same: "RunEres L g = Inr (q, h) \<Longrightarrow> keeps_sizes L \<Longrightarrow> emb_same g h"
  by (auto simp: RunEres_def ebind_Inr dest: emb_multi_same split: prod.splits bool.splits option.splits)

lemma emb_windows_same:
  "emb_windows L fs T ss acc g = Inr (q, h) \<Longrightarrow> es_eres g \<longrightarrow> keeps_sizes L \<Longrightarrow> emb_same g h"
proof (induction ss arbitrary: acc g)
  case Nil
  then show ?case by (auto simp: emb_same_refl)
next
  case (Cons s0 r)
  obtain g1 p g2 where 1: "put_window L fs T s0 g = Inr g1"
    "(if es_eres g1 then RunEres L g1 else RunTrunk L g1) = Inr (p, g2)"
    "(case p of None \<Rightarrow> Inr (None, g2) | Some fm \<Rightarrow> emb_windows L fs T r (add_rows L (es_C g2 * kF) fm acc) g2) = Inr (q, h)"
    using Cons.prems(1) by (auto simp: ebind_Inr)
  have s1: "emb_same g g1" by (rule put_window_same [OF 1(1)])
  have "emb_same g1 g2"
    using 1(2) Cons.prems(2) emb_same_sel(3) [OF s1] by (auto split: if_splits dest: RunTrunk_same RunEres_same)
  with s1 have s2: "emb_same g g2" by (rule emb_same_trans)
  show ?case
  proof (cases p)
    case None
    with 1(3) s2 show ?thesis by simp
  next
    case (Some fm)
    with 1(3) Cons.prems(2) emb_same_sel(3) [OF s2] have "emb_same g2 h" by (intro Cons.IH) simp_all
    with s2 show ?thesis by (rule emb_same_trans)
  qed
qed

section \<open>Safety\<close>

lemma put_window_fits:
  assumes "emb_good g" "\<not> es_tita g" "frames_in fs T s0"
  shows "\<exists>h. put_window L fs T s0 g = Inr h"
  using assms by (simp add: put_window_def need_ok_def emb_good_def in_buf_def)

lemma RunTrunk_safe:
  assumes "emb_good g" "\<not> es_tita g" "\<not> es_eres g"
  shows "RunTrunk L g \<noteq> Inl e"
proof -
  obtain r zs se where i: "barra_tpu_infer 0 b_in b_out (es_zs g, es_tpu g) = (r, zs, se)" by (metis prod_cases3)
  then have "cb_size (zs b_out) = cb_size (es_zs g b_out)"
    using tpu_infer_bal [of "(es_zs g, es_tpu g)" 0 b_in b_out] by (simp add: bal_def)
  with assms show ?thesis
    by (simp add: RunTrunk_def i Let_def need_ok_def in_buf_def emb_good_def fm_len_def)
qed

lemma RunEres_safe:
  assumes "\<forall>path ins out. el_run L path ins = Some out \<longrightarrow> fm_len g \<le> length out" "keeps_sizes L"
  shows "RunEres L g \<noteq> Inl EFault"
proof -
  obtain q g1 where m: "emb_multi L 0 b_in (map b_outs [0..<3]) g = (q, g1)" by fastforce
  have "fm_len g1 = fm_len g" using emb_same_sel(2) [OF emb_multi_same [OF m assms(2)]] by (simp add: fm_len_def)
  with assms(1) show ?thesis
    by (auto simp: RunEres_def m need_ok_def simp del: upt_rec_numeral split: bool.splits option.splits)
qed

lemma emb_windows_safe:
  assumes "emb_good g" "\<not> es_tita g" "\<forall>s0\<in>set ss. frames_in fs T s0"
    and "es_eres g \<longrightarrow> keeps_sizes L \<and> (\<forall>path ins out. el_run L path ins = Some out \<longrightarrow> fm_len g \<le> length out)"
  shows "emb_windows L fs T ss acc g \<noteq> Inl EFault"
  using assms
proof (induction ss arbitrary: acc g)
  case Nil
  then show ?case by simp
next
  case (Cons s0 r)
  have "frames_in fs T s0" using Cons.prems(3) by simp
  from put_window_fits [OF Cons.prems(1,2) this] obtain g1 where 1: "put_window L fs T s0 g = Inr g1" by blast
  note s1 = put_window_same [OF 1]
  have g1: "emb_good g1" "\<not> es_tita g1" "es_eres g1 = es_eres g" "fm_len g1 = fm_len g"
    using Cons.prems(1,2) emb_same_good [OF s1] emb_same_sel [OF s1] by (simp_all add: fm_len_def)
  have r: "(if es_eres g1 then RunEres L g1 else RunTrunk L g1) \<noteq> Inl EFault"
    using Cons.prems(4) RunTrunk_safe [OF g1(1,2)] RunEres_safe [of L g1] g1(3,4) by auto
  show ?case
  proof (cases "if es_eres g1 then RunEres L g1 else RunTrunk L g1")
    case (Inl e)
    with r show ?thesis by (simp add: 1 Inl del: if_split_asm)
  next
    case (Inr x)
    obtain p g2 where x: "x = (p, g2)" by fastforce
    have s2: "emb_same g1 g2"
      using Inr Cons.prems(4) g1(3) by (auto simp: x split: if_splits dest: RunTrunk_same RunEres_same)
    have g2: "emb_good g2" "\<not> es_tita g2" "es_eres g2 = es_eres g" "fm_len g2 = fm_len g"
      using g1 emb_same_good [OF s2] emb_same_sel [OF s2] by (simp_all add: fm_len_def)
    have "emb_windows L fs T r a g2 \<noteq> Inl EFault" for a
      using Cons.prems(3,4) g2 by (intro Cons.IH) simp_all
    then show ?thesis by (simp add: 1 Inr x split: option.splits)
  qed
qed

lemma frames_all:
  assumes "1 \<le> T" "length fs = T * kFeat" "s0 \<in> set (starts_of T)"
  shows "frames_in fs T s0"
proof -
  have "src_frame T s0 t * kFeat + kFeat \<le> T * kFeat" if "t < kFrames" for t
  proof -
    have "(src_frame T s0 t + 1) * kFeat \<le> T * kFeat"
      using starts_in [OF assms(1,3) that] by (intro mult_right_mono) simp_all
    then show ?thesis by simp
  qed
  with assms(2) show ?thesis by (simp add: frames_in_def list_all_iff)
qed

lemma head_good_fits: "head_good g \<Longrightarrow> head_fits g"
proof -
  assume h: "head_good g"
  have "nat (es_dim g) \<le> length (es_b g)" using h by (auto simp: head_good_def s32_def)
  with h show ?thesis by (simp add: head_good_def head_fits_def)
qed

section \<open>The embedding without buffers\<close>

text \<open>
  What the package computes from the window at \<open>s0\<close>, dequantized; the sums of a row over all windows;
  the result.
\<close>

definition ref_input :: "elib \<Rightarrow> est \<Rightarrow> f32 list \<Rightarrow> nat \<Rightarrow> nat \<Rightarrow> nat \<Rightarrow> int" where
  "ref_input L g fs T s0 =
     first_n (kFeat * kFrames) (\<lambda>j. win_elem L (es_in_scale g) fs T s0 (j div kFrames) (j mod kFrames))"

definition ref_fm :: "elib \<Rightarrow> est \<Rightarrow> f32 list \<Rightarrow> nat \<Rightarrow> nat \<Rightarrow> nat \<Rightarrow> f32" where
  "ref_fm L g fs T s0 i =
     wd_float L (wd_mul L (wd_int L (wl_tpu L False 0 (ref_input L g fs T s0) i)) (es_out_scale g))"

definition ref_sums :: "elib \<Rightarrow> est \<Rightarrow> f32 list \<Rightarrow> nat \<Rightarrow> nat \<Rightarrow> nat \<Rightarrow> f64 \<times> f64" where
  "ref_sums L g fs T s0 cf = row_sums L (\<lambda>t. ref_fm L g fs T s0 (cf * kT + t))"

definition emb_ref :: "elib \<Rightarrow> est \<Rightarrow> f32 list \<Rightarrow> nat \<Rightarrow> f32 list" where
  "emb_ref L g fs T =
     (let su = (\<lambda>cf. fold (\<lambda>s0 a. wd_add L a (fst (ref_sums L g fs T s0 cf))) (starts_of T) d_zero);
          sq = (\<lambda>cf. fold (\<lambda>s0 a. wd_add L a (snd (ref_sums L g fs T s0 cf))) (starts_of T) d_zero)
      in map (head_elem L g (pool_x L (es_C g * kF) (int (length (starts_of T) * kT)) (su, sq)))
           [0..<nat (es_dim g)])"

lemma fold_window_row:
  "fold (\<lambda>t m. m(o' + t := v t)) [0..<n] m = (\<lambda>j. if o' \<le> j \<and> j < o' + n then v (j - o') else m j)"
  by (induction n) (auto simp: fun_eq_iff)

lemma fold_window:
  assumes "0 < n"
  shows "fold (\<lambda>f. fold (\<lambda>t m. m(f * n + t := v f t)) [0..<n]) [0..<k] m =
    (\<lambda>j. if j < k * n then v (j div n) (j mod n) else m j)"
proof (induction k)
  case 0
  then show ?case by simp
next
  case (Suc k)
  have d: "j div n = k \<and> j mod n = j - k * n" if "k * n \<le> j" "j < k * n + n" for j
  proof -
    have "j div n = k" by (rule div_nat_eqI) (use that in \<open>simp_all add: algebra_simps\<close>)
    then show ?thesis by (simp add: minus_div_mult_eq_mod [symmetric])
  qed
  show ?case
    by (simp only: fold_upt_Suc Suc.IH, simp only: fold_window_row) (auto simp: fun_eq_iff d)
qed

lemma put_window_mem:
  assumes "put_window L fs T s0 g = Inr h"
  shows "first_n (kFeat * kFrames) (es_mem h b_in) = ref_input L g fs T s0"
  using assms
  by (auto simp: put_window_def ebind_Inr ref_input_def first_n_def fun_eq_iff fold_window kFrames_def)

lemma add_rows_eq:
  "add_rows L n fm acc =
     (\<lambda>cf. if cf < n then wd_add L (fst acc cf) (fst (row_sums L (\<lambda>t. fm (cf * kT + t)))) else fst acc cf,
      \<lambda>cf. if cf < n then wd_add L (snd acc cf) (snd (row_sums L (\<lambda>t. fm (cf * kT + t)))) else snd acc cf)"
proof (induction n)
  case 0
  then show ?case by (simp add: add_rows_def)
next
  case (Suc n)
  show ?case
    using Suc.IH unfolding add_rows_def fold_upt_Suc
    by (simp add: split_beta fun_eq_iff)
qed

lemma RunTrunk_fm:
  assumes "RunTrunk L g = Inr (Some fm, h)"
  shows "fm i = wd_float L (wd_mul L (wd_int L (wl_tpu L False 0
    (first_n (cb_size (es_zs g b_in) div 2) (es_mem g b_in)) i)) (es_out_scale g))"
  using assms by (auto simp: RunTrunk_def Let_def ebind_Inr split: prod.splits if_splits)

lemma emb_windows_ref:
  assumes "emb_windows L fs T ss acc g = Inr (Some acc', h)" "emb_good g" "\<not> es_tita g" "\<not> es_eres g" "cf < es_C g * kF"
  shows "fst acc' cf = fold (\<lambda>s0 a. wd_add L a (fst (ref_sums L g fs T s0 cf))) ss (fst acc cf)"
    and "snd acc' cf = fold (\<lambda>s0 a. wd_add L a (snd (ref_sums L g fs T s0 cf))) ss (snd acc cf)"
proof -
  have "fst acc' cf = fold (\<lambda>s0 a. wd_add L a (fst (ref_sums L g fs T s0 cf))) ss (fst acc cf) \<and>
    snd acc' cf = fold (\<lambda>s0 a. wd_add L a (snd (ref_sums L g fs T s0 cf))) ss (snd acc cf)"
    using assms
  proof (induction ss arbitrary: acc g)
    case Nil
    then show ?case by simp
  next
    case (Cons s0 r)
    obtain g1 p g2 where 1: "put_window L fs T s0 g = Inr g1"
      "(if es_eres g1 then RunEres L g1 else RunTrunk L g1) = Inr (p, g2)"
      "(case p of None \<Rightarrow> Inr (None, g2) | Some fm \<Rightarrow> emb_windows L fs T r (add_rows L (es_C g2 * kF) fm acc) g2) = Inr (Some acc', h)"
      using Cons.prems(1) by (auto simp: ebind_Inr)
    obtain fm where p: "p = Some fm" using 1(3) by (cases p) simp_all
    note s1 = put_window_same [OF 1(1)]
    have e1: "\<not> es_eres g1" using Cons.prems(4) emb_same_sel(3) [OF s1] by simp
    have r: "RunTrunk L g1 = Inr (Some fm, g2)" using 1(2) e1 by (simp add: p)
    have s: "emb_same g g2" by (rule emb_same_trans [OF s1 RunTrunk_same [OF r]])
    note sel = emb_same_sel [OF s]
    have "cb_size (es_zs g1 b_in) div 2 = kFeat * kFrames"
      using Cons.prems(2,3) emb_same_sel(14) [OF s1] by (simp add: emb_good_def)
    then have fm: "fm = ref_fm L g fs T s0"
      using RunTrunk_fm [OF r] put_window_mem [OF 1(1)] emb_same_sel(6) [OF s1] by (simp add: ref_fm_def fun_eq_iff)
    have ref: "ref_sums L g2 fs T s c = ref_sums L g fs T s c" for s c
      using sel(5,6) by (simp add: ref_sums_def ref_fm_def [abs_def] ref_input_def)
    have "emb_windows L fs T r (add_rows L (es_C g2 * kF) fm acc) g2 = Inr (Some acc', h)" using 1(3) by (simp add: p)
    from Cons.IH [OF this] Cons.prems(2-5) emb_same_good [OF s] sel(2,3,4) show ?case
      by (simp add: ref add_rows_eq fm ref_sums_def [of L g, symmetric])
  qed
  then show "fst acc' cf = fold (\<lambda>s0 a. wd_add L a (fst (ref_sums L g fs T s0 cf))) ss (fst acc cf)"
    "snd acc' cf = fold (\<lambda>s0 a. wd_add L a (snd (ref_sums L g fs T s0 cf))) ss (snd acc cf)" by simp_all
qed

lemma compute_head_ref:
  assumes "compute_head L fs T g = Inr (v, h)" "v \<noteq> []" "emb_good g" "\<not> es_tita g" "\<not> es_eres g"
  shows "v = emb_ref L g fs T"
proof -
  obtain acc where w: "emb_windows L fs T (starts_of T) (\<lambda>_. d_zero, \<lambda>_. d_zero) g = Inr (Some acc, h)"
    and v: "v = map (head_elem L h (pool_x L (es_C h * kF) (int (length (starts_of T) * kT)) acc)) [0..<nat (es_dim h)]"
    using assms(1,2) by (auto simp: compute_head_def ebind_Inr split: option.splits if_splits)
  note sel = emb_same_sel [OF emb_windows_same [OF w]]
  have sel': "es_C h = es_C g" "es_dim h = es_dim g" "es_W h = es_W g" "es_b h = es_b g" "es_mv h = es_mv g"
    using sel assms(5) by simp_all
  have "head_elem L h x r = head_elem L g x r" for x r by (simp add: head_elem_def sel')
  moreover have "pool_x L (es_C g * kF) n acc =
      pool_x L (es_C g * kF) n
        (\<lambda>cf. fold (\<lambda>s0 a. wd_add L a (fst (ref_sums L g fs T s0 cf))) (starts_of T) d_zero,
         \<lambda>cf. fold (\<lambda>s0 a. wd_add L a (snd (ref_sums L g fs T s0 cf))) (starts_of T) d_zero)" for n
    using emb_windows_ref [OF w assms(3-5)] by (simp add: pool_x_def)
  ultimately show ?thesis by (simp add: v sel' emb_ref_def)
qed

section \<open>The chain\<close>

lemma TitaGlue_length:
  assumes "TitaGlue L g b x skip y C = Inr y1" "kFrames * C \<le> length y"
  shows "length y1 = length y"
  using assms by (auto simp: TitaGlue_def ebind_Inr Let_def)

lemma length_resize [simp]: "length (resize n y) = n"
  by (simp add: resize_def)

lemma infer_seg_same: "infer_seg L s g = (q, h) \<Longrightarrow> keeps_sizes L \<Longrightarrow> emb_same g h"
  unfolding infer_seg_def by (rule emb_multi_same)

lemma quant_in_same: "quant_in L s src g = Inr h \<Longrightarrow> emb_same g h"
  using emb_same_I [of "es_zs g" g _ "es_tpu g"] by (auto simp: quant_in_def ebind_Inr)

lemma tita_link_Inr:
  assumes "tita_link L s k src y g = Inr (q, h)" "keeps_sizes L"
  shows "emb_same g h" "q = Some y1 \<Longrightarrow> length y1 = es_tosz g s 0 div 2"
proof -
  obtain g1 where 1: "quant_in L s src g = Inr g1" using assms(1) by (auto simp: tita_link_def ebind_Inr)
  obtain r g2 where 2: "infer_seg L s g1 = (r, g2)" by fastforce
  have s: "emb_same g g2" using quant_in_same [OF 1] infer_seg_same [OF 2 assms(2)] emb_same_trans by blast
  have g2: "h = g2" using assms(1) by (auto simp: tita_link_def 1 2 ebind_Inr Let_def split: bool.splits)
  with s show "emb_same g h" by simp
  assume q: "q = Some y1"
  have x: "length (deq_out L s 0 g2) = es_tosz g s 0 div 2" using emb_same_sel(11) [OF s] by (simp add: deq_out_def)
  from assms(1) q have "r"
    by (cases r) (auto simp: tita_link_def 1 2)
  with assms(1) q 1 2 obtain sk where
    "TitaGlue L g2 s (deq_out L s 0 g2) sk (resize (length (deq_out L s 0 g2)) y) (length (deq_out L s 0 g2) div kFrames) = Inr y1"
    by (auto simp: tita_link_def ebind_Inr Let_def)
  from TitaGlue_length [OF this] show "length y1 = es_tosz g s 0 div 2"
    by (simp add: x kFrames_def)
qed

lemma chain_overrun:
  assumes "tita_good g 0" "keeps_sizes L" "\<forall>m is qs st. fst (el_multi L m is qs st)"
    and "cb_size (es_zs g (t_in 1)) < 2 * (es_tosz g 0 0 div 2)" "length win = kFrames * kFeat"
  shows "RunTitaChain L win g = Inl EFault"
proof -
  have "in_buf g (t_in 0) (length win)" using assms(1,5) by (simp add: in_buf_def tita_good_def)
  then obtain g1 where 1: "quant_in L 0 win g = Inr g1" by (simp add: quant_in_def need_ok_def)
  have "fst (infer_seg L 0 g1)"
    using assms(3) by (simp add: infer_seg_def emb_multi_def split_beta Let_def)
  then obtain g2 where 2: "infer_seg L 0 g1 = (True, g2)" by (cases "infer_seg L 0 g1") auto
  show ?thesis
  proof (cases "tita_link L 0 False win [] g")
    case (Inl e)
    then have "e = EFault" by (auto simp: tita_link_def 1 2 Let_def TitaGlue_def need_ok_def split: if_splits)
    with Inl show ?thesis by (simp add: RunTitaChain_def)
  next
    case (Inr x)
    obtain q h where x: "x = (q, h)" by fastforce
    note link = tita_link_Inr [OF Inr [unfolded x] assms(2)]
    obtain y where q: "q = Some y" using Inr by (auto simp: x tita_link_def 1 2 Let_def ebind_Inr)
    have "\<not> in_buf h (t_in 1) (length y)"
      using link(2) [OF q] emb_same_sel(14) [OF link(1)] assms(4) by (simp add: in_buf_def)
    then have "tita_link L 1 True y y h = Inl EFault" by (simp add: tita_link_def quant_in_def need_ok_def)
    then show ?thesis by (simp add: RunTitaChain_def Inr x q)
  qed
qed

lemma starts_Cons: "\<exists>s0 r. starts_of T = s0 # r"
proof (cases "starts_of T")
  case Nil
  moreover have "starts_of 0 = [0]" by (simp add: starts_of_def)
  ultimately show ?thesis using length_starts [of T] by (cases T) (simp_all add: div_eq_0_iff)
qed simp

end
