(* ===== verification/Emb_Props.thy ===== *)
theory Emb_Props
  imports Emb_Correct Wsp_Props
begin

text \<open>The properties of the speaker embeddings, with concrete starts and runs.\<close>

section \<open>Properties\<close>

text \<open>
  C35. What a successful start of the extractor has established. With the head, the weights have the
  dimensions of the file and the shared buffers exactly the size of a window and of a feature map; with
  the three outputs, the weights too, each buffer has the announced size, and the scales are positive.
  With the chain, every segment has one or two outputs with buffers of the announced sizes, the
  first input holds a window, each block of the glue has as many weights as the two counts of its own header say,
  and the scales of the inputs are positive. That is all for the chain: the counts of the glue are not compared with
  the channels of the segments, and the sizes of one segment are not compared with those of the next.
\<close>

theorem emb_start_good:
  assumes "new_extractor L (emb_fresh w zs) = Inr g"
  shows "emb_good g \<and>
    (if es_tita g then (\<forall>b<5. glue_counts g b) \<and> (\<forall>s<5. el_lt L d_zero (es_isc g s))
     else if es_eres g then el_lt L d_zero (es_eisc g) \<and> (\<forall>i<3. el_lt L d_zero (es_eosc g i))
     else True)"
  using new_good [OF assms] by (simp add: start_ok_def)

text \<open>
  The windows of a segment of any length read only frames of the segment, read every frame of it,
  and there are as many as 300-frame windows are needed.
\<close>

theorem windows_cover:
  assumes "1 \<le> T"
  shows "length (starts_of T) = (T + 299) div 300 \<and>
    (\<forall>s0\<in>set (starts_of T). \<forall>t<kFrames. src_frame T s0 t < T) \<and>
    (\<forall>j<T. \<exists>s0\<in>set (starts_of T). \<exists>t<kFrames. src_frame T s0 t = j)"
  using length_starts [OF assms] starts_in [OF assms] starts_cover by blast

text \<open>
  C36. After a successful start with the head, \<open>Compute\<close> never reads or writes outside of the features, the
  buffers and the weights, whatever the stream and the daemon give it; it keeps the object consistent,
  and its answer is empty or has one value per dimension. With the three-output trunk this needs a
  tail that returns a whole feature map.
\<close>

theorem compute_head_safe:
  assumes "emb_good g" "\<not> es_tita g"
    and "es_eres g \<Longrightarrow> keeps_sizes L"
    and "es_eres g \<Longrightarrow> \<forall>path ins out. el_run L path ins = Some out \<longrightarrow> fm_len g \<le> length out"
  shows "Compute L s g \<noteq> Inl EFault \<and>
    (\<forall>v s1 h. Compute L s g = Inr (v, s1, h) \<longrightarrow> emb_good h \<and> (v = [] \<or> length v = nat (es_dim g)))"
proof -
  define n where "n = os_ready s - os_done s"
  define fs where "fs = os_get s (os_done s) n"
  show ?thesis
  proof (cases "n \<le> 0 \<or> length fs \<noteq> nat n * kFeat")
    case True
    with assms(1) show ?thesis by (auto simp: Compute_def n_def fs_def Let_def)
  next
    case False
    then have T: "1 \<le> nat n" "length fs = nat n * kFeat" by auto
    have c: "Compute L s g = ebind (compute_head L fs (nat n) g)
        (\<lambda>(v, g1). Inr (v, s\<lparr>os_done := os_done s + n\<rparr>, g1))"
      using False assms(2) by (simp add: Compute_def n_def fs_def Let_def)
    have w: "emb_windows L fs (nat n) (starts_of (nat n)) (\<lambda>_. d_zero, \<lambda>_. d_zero) g \<noteq> Inl EFault"
      using assms frames_all [OF T] by (intro emb_windows_safe) auto
    have good: "emb_good h \<and> es_dim h = es_dim g \<and> head_fits h"
      if "emb_windows L fs (nat n) (starts_of (nat n)) (\<lambda>_. d_zero, \<lambda>_. d_zero) g = Inr (q, h)" for q h
    proof -
      have s: "emb_same g h" using emb_windows_same [OF that] assms(3) by blast
      have h: "emb_good h" "\<not> es_tita h" using assms(1,2) emb_same_good [OF s] emb_same_sel(4) [OF s] by simp_all
      then have "head_good h" by (simp add: emb_good_def)
      then show ?thesis using h emb_same_sel(1) [OF s] head_good_fits by blast
    qed
    show ?thesis
    proof (cases "emb_windows L fs (nat n) (starts_of (nat n)) (\<lambda>_. d_zero, \<lambda>_. d_zero) g")
      case (Inl e)
      with w show ?thesis by (simp add: c compute_head_def)
    next
      case (Inr x)
      obtain q h where x: "x = (q, h)" by fastforce
      from good [of q h] Inr have "emb_good h" "es_dim h = es_dim g" "head_fits h" by (simp_all add: x)
      then show ?thesis by (cases q) (simp_all add: c compute_head_def Inr x need_ok_def)
    qed
  qed
qed

text \<open>
  C37. With the head, every answer of \<open>Compute\<close> is the head applied to the means and deviations over the
  columns of all windows of the quantized features as the package maps them; nothing left in the buffers
  by an earlier call has an influence.
\<close>

theorem emb_is_reference:
  assumes "emb_good g" "\<not> es_tita g" "\<not> es_eres g"
    and "Compute L s g = Inr (v, s1, h)" "v \<noteq> []"
  shows "v = emb_ref L g (os_get s (os_done s) (os_ready s - os_done s)) (nat (os_ready s - os_done s))"
proof -
  have "compute_head L (os_get s (os_done s) (os_ready s - os_done s)) (nat (os_ready s - os_done s)) g = Inr (v, h)"
    using assms(2,4,5) by (auto simp: Compute_def Let_def ebind_Inr split: if_splits)
  from compute_head_ref [OF this assms(5,1-3)] show ?thesis .
qed

text \<open>
  C38. The start compares no output of a segment of the chain with the input of the next: if the second
  segment takes less than the first delivers, which the start accepts, every call of \<open>Compute\<close> on a
  stream with frames writes behind the shared buffer, although the daemon answers every request.
\<close>

theorem tita_overrun:
  assumes "emb_good g" "es_tita g" "0 \<le> es_dim g" "keeps_sizes L" "\<forall>m is qs st. fst (el_multi L m is qs st)"
    and "cb_size (es_zs g (t_in 1)) < 2 * (es_tosz g 0 0 div 2)"
    and "os_done s < os_ready s" "length (os_get s (os_done s) (os_ready s - os_done s)) = nat (os_ready s - os_done s) * kFeat"
  shows "Compute L s g = Inl EFault"
proof -
  define T where "T = nat (os_ready s - os_done s)"
  define fs where "fs = os_get s (os_done s) (os_ready s - os_done s)"
  have T: "1 \<le> T" "length fs = T * kFeat" using assms(7,8) by (simp_all add: T_def fs_def)
  obtain s0 r where st: "starts_of T = s0 # r" using starts_Cons by blast
  have "frames_in fs T s0" using frames_all [OF T] by (simp add: st)
  moreover have "RunTitaChain L (tita_norm L (tita_win fs T s0)) g = Inl EFault"
    using assms(1,2) by (intro chain_overrun assms(4-6)) (simp_all add: emb_good_def tita_norm_def)
  ultimately have "compute_tita L fs T g = Inl EFault"
    using assms(3) by (simp add: compute_tita_def st need_ok_def)
  then show ?thesis
    using assms(2,7,8) by (simp add: Compute_def Let_def T_def fs_def)
qed

section \<open>Concrete runs\<close>

text \<open>A head with one dimension and one channel; a stream with one frame ready.\<close>

definition elib0 :: elib where
  "elib0 = \<lparr>fl_add = (\<lambda>a b. a + b), fl_sub = (\<lambda>a b. a - b), fl_mul = (\<lambda>a b. a * b), fl_div = (\<lambda>a b. a div b),
      fl_gt = (\<lambda>a b. a > b), fl_exp = (\<lambda>_. 0), fl_rint = int, fl_int = nat, fl_half = (\<lambda>h. h),
      fl_strtof = (\<lambda>_. None), fl_atof = (\<lambda>_. 0), fl_rnd = (\<lambda>x. x), fl_float = (\<lambda>_. 0),
      fl_env = (\<lambda>_. None), fl_file = (\<lambda>_. None), fl_heap = Some, fl_mmap = (\<lambda>_. True), fl_cpu = True,
      fl_t = tensors0, fl_contig = (\<lambda>_. True), fl_glop = (\<lambda>_. GSwiglu), fl_tpu = (\<lambda>_ _ m. m),
      fl_ffn = (\<lambda>_ _ _ xs. xs), fl_node = (\<lambda>_ m. m),
      wd_add = (\<lambda>a b. a + b), wd_sub = (\<lambda>a b. a - b), wd_mul = (\<lambda>a b. a * b), wd_div = (\<lambda>a b. a div b), wd_sqrt = (\<lambda>a. a),
      wd_of = (\<lambda>a. a), wd_float = (\<lambda>a. a), wd_int = nat, wd_trunc = int, wd_atof = (\<lambda>_. 0),
      wl_tpu = (\<lambda>_ _ m. m), wl_infer2 = (\<lambda>_ _ st. (True, st)), wl_submit2 = (\<lambda>_ _ st. (True, st)),
      wl_wait2 = (\<lambda>_ st. (True, st)), wl_late = even, wl_f16 = (\<lambda>v. v), wl_arm = True,
      el_lt = (\<lambda>a b. a < b), el_lrint = int, el_strtod = (\<lambda>_. Some (1, [])),
      el_info2 = (\<lambda>s se. (Some (1, 2, [if s = 1 then 2 else 48000], [600, 600]), se)),
      el_multi = (\<lambda>_ _ _ st. (True, st)), el_pkg = (\<lambda>_ m _. m), el_mean = (\<lambda>_. 0), el_dot = (\<lambda>_ _. 0),
      el_max0 = (\<lambda>v. v), el_exp = (\<lambda>v. v), el_shapes = (\<lambda>_. Some [[1, 1, 300]]), el_oshape = (\<lambda>_. [1, 1]),
      el_run = (\<lambda>_ _. Some [0])\<rparr>"

definition emb0 :: est where
  "emb0 = (emb_fresh \<lparr>cw_env = None, cw_net = (\<lambda>_ _. None), cw_n = 0, cw_done = []\<rparr> (\<lambda>_. cb_inert))
     \<lparr>es_dim := 1, es_C := 1, es_W := replicate 20 1, es_b := [7], es_mv := [0], es_tpu := sess0,
      es_zs := (\<lambda>b. \<lparr>cb_fd = Some b, cb_map = True, cb_size = (if b = 1 then 760 else 48000), cb_gpu = -1,
        cb_tpu = 0, cb_dsp = -1, cb_cpu = 1\<rparr>)\<rparr>"

definition stream0 :: stream where
  "stream0 = \<lparr>os_ready = 1, os_done = 0, os_get = (\<lambda>_ _. replicate 80 0)\<rparr>"

lemma emb0_good: "emb_good emb0" "\<not> es_tita emb0" "\<not> es_eres emb0"
  by (simp_all add: emb0_def emb_good_def head_good_def s32_def kF_def kT_def kFeat_def kFrames_def fm_len_def emb_bufs emb_fresh_def)

theorem windows_cover_witness:
  "length (starts_of 700) = 3 \<and> (\<exists>s0\<in>set (starts_of 700). \<exists>t<kFrames. src_frame 700 s0 t = 699)"
proof -
  have "(1 :: nat) \<le> 700" by simp
  from windows_cover [OF this] show ?thesis by simp
qed

theorem compute_head_safe_witness: "Compute elib0 stream0 emb0 \<noteq> Inl EFault"
  using compute_head_safe [OF emb0_good(1,2), of elib0 stream0] emb0_good(3) by blast


lemma infer0:
  "\<exists>zs se. barra_tpu_infer 0 b_in b_out (es_zs emb0, sess0) = (Some 0, zs, se) \<and> cb_size (zs b_out) = 760"
proof -
  obtain r zs se where i: "barra_tpu_infer 0 b_in b_out (es_zs emb0, sess0) = (r, zs, se)" by (metis prod_cases3)
  have "r = Some 0"
    using i by (simp add: barra_tpu_infer_def emb_bufs sess0_def emb0_def tpu_need_def infer_hdr_def c_req_def
        send_hdr_fds_def and_then_def c_rn_def ends_def begins_def cpu_end_def cpu_begin_def le_nat_zeros Let_def)
  moreover have "cb_size (zs b_out) = 760"
    using tpu_infer_bal [of "(es_zs emb0, sess0)" 0 b_in b_out] i by (simp add: bal_def emb0_def emb_bufs)
  ultimately show ?thesis using i by blast
qed

lemma emb0_runs: "\<exists>v s h. Compute elib0 stream0 emb0 = Inr (v, s, h) \<and> length v = 1"
proof -
  have f: "frames_in (replicate 80 0) 1 0" by (simp add: frames_in_def src_frame_def emb_consts list_all_iff)
  have T: "starts_of 1 = [0]" by (simp add: starts_of_def kFrames_def)
  obtain g1 where g1: "put_window elib0 (replicate 80 0) 1 0 emb0 = Inr g1"
    using put_window_fits [OF emb0_good(1,2) f] by blast
  then obtain m where m: "g1 = emb0\<lparr>es_mem := m\<rparr>" by (auto simp: put_window_def ebind_Inr)
  have fm: "fm_len emb0 = 380" by (simp add: fm_len_def emb0_def kF_def kT_def)
  obtain zs se where i: "barra_tpu_infer 0 b_in b_out (es_zs emb0, sess0) = (Some 0, zs, se)" "cb_size (zs b_out) = 760"
    using infer0 by blast
  have t: "es_tpu emb0 = sess0" by (simp add: emb0_def)
  have "\<exists>fm h. RunTrunk elib0 g1 = Inr (Some fm, h)"
    using i fm by (simp add: RunTrunk_def m t need_ok_def in_buf_def Let_def fm_len_def)
  then obtain fm h where r: "RunTrunk elib0 g1 = Inr (Some fm, h)" by blast
  have e: "\<not> es_eres g1" "\<not> es_tita emb0" using emb0_good by (simp_all add: m)
  note s = emb_same_trans [OF put_window_same [OF g1] RunTrunk_same [OF r]]
  have "emb_good h" "\<not> es_tita h" "es_dim h = 1"
    using emb_same_good [OF s] emb_same_sel [OF s] emb0_good by (simp_all add: emb0_def)
  then have "head_fits h" "es_dim h = 1" using head_good_fits by (simp_all add: emb_good_def)
  then show ?thesis
    by (simp add: Compute_def stream0_def Let_def kFeat_def e(2) compute_head_def T [unfolded One_nat_def] g1 [unfolded One_nat_def]
        e(1) r need_ok_def)
qed

theorem emb_is_reference_witness:
  "\<exists>v s h. Compute elib0 stream0 emb0 = Inr (v, s, h) \<and> v = emb_ref elib0 emb0 (replicate 80 0) 1"
proof -
  obtain v s h where r: "Compute elib0 stream0 emb0 = Inr (v, s, h)" "v \<noteq> []" using emb0_runs by fastforce
  from emb_is_reference [OF emb0_good r] r(1) show ?thesis by (auto simp: stream0_def)
qed

section \<open>Concrete starts\<close>

text \<open>A head file, and a daemon that answers with the sizes of its model.\<close>

definition head_file :: "byte list" where
  "head_file = put32s ([0x42454831, 1, 10] @ replicate 26 0)"

definition world1 :: cworld where
  "world1 = \<lparr>cw_env = None,
     cw_net = (\<lambda>_ _. Some \<lparr>k_in = put32s [0, 48000, 760, 1], k_out = [], k_room = 1000\<rparr>), cw_n = 0, cw_done = []\<rparr>"

definition elib1 :: elib where
  "elib1 = elib0\<lparr>fl_file := (\<lambda>p. if p = ''/root/pya/head.bin'' then Some head_file else None)\<rparr>"

lemma head_dir0: "head_dir ''/root/pya/head.bin'' = ''/root/pya''"
  by (simp add: head_dir_def)

lemma drop_put32s: "drop (4 * n) (put32s xs) = put32s (drop n xs)"
proof (induction n arbitrary: xs)
  case (Suc n)
  then show ?case by (cases xs) simp_all
qed simp

lemma fread4_put: "n \<le> length xs \<Longrightarrow> \<exists>ys. fread4 n (put32s xs) = Some (ys, put32s (drop n xs))"
  by (simp add: fread4_def drop_put32s)

lemma fread4_put_id:
  assumes "\<forall>x\<in>set xs. x < 2 ^ 32" "n = length xs"
  shows "fread4 n (put32s (xs @ ys)) = Some (xs, put32s ys)"
  using get32s_put32s_id [OF assms, of "put32s ys"] drop_put32s [of n "xs @ ys"] assms(2)
  by (simp add: fread4_def)

lemma fread8_put: "2 \<le> length xs \<Longrightarrow> \<exists>v. fread8 (put32s xs) = Some (v, put32s (drop 2 xs))"
  using drop_put32s [of 2 xs] by (simp add: fread8_def)

lemma head1: "\<exists>h. LoadHead elib1 ''/root/pya/head.bin'' g = Some h \<and> es_C h = 1 \<and> es_cw h = es_cw g"
proof -
  have f: "fread4 3 head_file = Some ([0x42454831, 1, 10], put32s (replicate 26 0))"
    unfolding head_file_def by (rule fread4_put_id) simp_all
  obtain i b1 where 1: "fread8 (put32s (replicate 26 0)) = Some (i, b1)" "b1 = put32s (replicate 24 0)"
    using fread8_put [of "replicate 26 0"] by auto
  obtain q b2 where 2: "fread8 b1 = Some (q, b2)" "b2 = put32s (replicate 22 0)"
    using fread8_put [of "replicate 24 0"] 1(2) by auto
  obtain w b3 where 3: "fread4 20 b2 = Some (w, b3)" "b3 = put32s (replicate 2 0)"
    using fread4_put [of 20 "replicate 22 0"] 2(2) by auto
  obtain b b4 where 4: "fread4 1 b3 = Some (b, b4)" "b4 = put32s (replicate 1 0)"
    using fread4_put [of 1 "replicate 2 0"] 3(2) by auto
  obtain mv b5 where 5: "fread4 1 b4 = Some (mv, b5)"
    using fread4_put [of 1 "replicate 1 0"] 4(2) by auto
  show ?thesis
    by (simp add: LoadHead_def elib1_def f head_rest_def 1(1) 2(1) 3(1) 4(1) [unfolded One_nat_def] 5 [unfolded One_nat_def] kF_def)
qed

lemma info1:
  "\<exists>se. barra_open (str ''tpu.sock'') world1 = (True, se, world1\<lparr>cw_n := 1\<rparr>) \<and>
     (\<exists>n se2. barra_tpu_info 0 se = (Some (48000, 760), n, se2))"
  using get32s_put32s_id [of "[0, 48000, 760, 1]" 4 "[]"]
  by (simp add: barra_open_def dial_def sock_path_def sock_dir_def world1_def str_def barra_tpu_info_def c_req_def
      send_hdr_fds_def and_then_def c_rn_def Let_def)

lemma start1: "\<exists>g. new_extractor elib1 (emb_fresh world1 (\<lambda>_. cb_inert)) = Inr g"
proof -
  obtain h where h: "LoadHead elib1 ''/root/pya/head.bin'' (emb_fresh world1 (\<lambda>_. cb_inert)) = Some h" "es_C h = 1"
    "es_cw h = world1"
    using head1 [of "emb_fresh world1 (\<lambda>_. cb_inert)"] by (auto simp: emb_fresh_def)
  obtain se n se2 where o: "barra_open (str ''tpu.sock'') world1 = (True, se, world1\<lparr>cw_n := 1\<rparr>)"
    "barra_tpu_info 0 se = (Some (48000, 760), n, se2)"
    using info1 by blast
  have e: "fl_env elib1 k = None" "fl_file elib1 ''/root/pya/tita_tail.onnx'' = None"
    "fl_file elib1 ''/root/pya/eres_tail.onnx'' = None" "fl_heap elib1 = Some" "fl_mmap elib1 k2" for k k2
    by (simp_all add: elib1_def elib0_def)
  show ?thesis
    by (simp add: new_extractor_def e head_dir0 FileExists_def h new_mode_def barra_tpu_open_def o new_head_def
        need_ok_def fm_len_def emb_consts emb_alloc_def barra_zc_alloc_def Let_def)
qed

text \<open>
  A chain whose second segment takes one value, while the first delivers 300: the start accepts it.
\<close>

definition glue_file :: "byte list" where
  "glue_file = put32s ([0x42544731, 5] @ concat (replicate 5 [0, 1, 1, 1, 1]))"

definition tita_file :: "byte list" where
  "tita_file = str (''s0_isc=1'' @ [CHR 0x0A] @ ''s1_isc=1'' @ [CHR 0x0A] @ ''s2_isc=1'' @ [CHR 0x0A] @ ''s3_isc=1'' @ [CHR 0x0A] @ ''s4_isc=1'')"

definition elib2 :: elib where
  "elib2 = elib0\<lparr>fl_file :=
     [''/root/pya/tita_tail.onnx'' \<mapsto> [], ''/root/pya/tita_glue.bin'' \<mapsto> glue_file,
      ''/root/pya/tita_params.txt'' \<mapsto> tita_file]\<rparr>"

lemma glue_block2: "\<exists>h. glue_blocks b n (put32s (concat (replicate n [0, 1, 1, 1, 1]))) g = Some h \<and> es_cw h = es_cw g \<and>
  es_tail h = es_tail g \<and> es_tpu h = es_tpu g \<and> es_tick h = es_tick g \<and> es_tita h = es_tita g"
proof (induction n arbitrary: b g)
  case (Suc n)
  let ?r = "concat (replicate n [0 :: nat, 1, 1, 1, 1])"
  have 1: "fread4 3 (put32s ([0, 1, 1] @ ([1, 1] @ ?r))) = Some ([0, 1, 1], put32s ([1, 1] @ ?r))"
    by (rule fread4_put_id) simp_all
  have 2: "fread4 1 (put32s ([1] @ ([1] @ ?r))) = Some ([1], put32s ([1] @ ?r))"
    and 3: "fread4 1 (put32s ([1] @ ?r)) = Some ([1], put32s ?r)"
    by (rule fread4_put_id; simp)+
  show ?case using 1 2 3
    by (simp del: put32s_simps put32s_append) (insert Suc.IH, fastforce)
qed simp

lemma lines2: "lines128 (text_of tita_file) =
  [''s0_isc=1'' @ [CHR 0x0A], ''s1_isc=1'' @ [CHR 0x0A], ''s2_isc=1'' @ [CHR 0x0A], ''s3_isc=1'' @ [CHR 0x0A], ''s4_isc=1'']"
  by code_simp

lemma line2:
  "line_isc elib2 (''s0_isc=1'' @ [CHR 0x0A]) = Some (0, 1)" "line_isc elib2 (''s1_isc=1'' @ [CHR 0x0A]) = Some (1, 1)"
  "line_isc elib2 (''s2_isc=1'' @ [CHR 0x0A]) = Some (2, 1)" "line_isc elib2 (''s3_isc=1'' @ [CHR 0x0A]) = Some (3, 1)"
  "line_isc elib2 ''s4_isc=1'' = Some (4, 1)"
  by (simp_all add: line_isc_def scan_sd_def scan_lit_def scan_d_def is_space_def is_digit_def digits_val_def
      scan_key_lf_def scan_lf_def elib2_def elib0_def Let_def)

lemma params2:
  "\<exists>f. LoadTitaParams elib2 ''/root/pya/tita_params.txt'' g = Inr (True, g\<lparr>es_isc := f\<rparr>)"
proof -
  have f: "fl_file elib2 ''/root/pya/tita_params.txt'' = Some tita_file" "el_lt elib2 = (\<lambda>a b. a < b)"
    by (simp_all add: elib2_def elib0_def)
  have "tita_lines elib2 (lines128 (text_of tita_file)) g = Inr (g\<lparr>es_isc := (es_isc g)(0 := 1, 1 := 1, 2 := 1, 3 := 1, 4 := 1)\<rparr>)"
    unfolding lines2 by (simp add: tita_line_def line2 [simplified] need_ok_def)
  then have "LoadTitaParams elib2 ''/root/pya/tita_params.txt'' g =
      Inr (True, g\<lparr>es_isc := (es_isc g)(0 := 1, 1 := 1, 2 := 1, 3 := 1, 4 := 1)\<rparr>)"
    by (simp add: LoadTitaParams_def f d_zero_def upt_rec)
  then show ?thesis by blast
qed

lemma start2: "\<exists>g. new_extractor elib2 (emb_fresh world1 (\<lambda>_. cb_inert)) = Inr g \<and> es_tita g \<and> es_dim g = 1 \<and>
  cb_size (es_zs g (t_in 1)) = 2 \<and> es_tosz g 0 0 = 600"
proof -
  obtain se where o: "barra_open (str ''tpu.sock'') world1 = (True, se, world1\<lparr>cw_n := 1\<rparr>)" using info1 by blast
  have e: "fl_env elib2 k = None" "fl_file elib2 ''/root/pya/tita_tail.onnx'' = Some []"
    "fl_file elib2 ''/root/pya/tita_glue.bin'' = Some glue_file" "fl_heap elib2 = Some" "fl_mmap elib2 k2"
    "el_info2 elib2 s = (\<lambda>se. (Some (1, 2, [if s = 1 then 2 else 48000], [600, 600]), se))"
    "el_shapes elib2 p = Some [[1, 1, 300]]" "el_oshape elib2 p = [1, 1]" for k k2 s p
    by (simp_all add: elib2_def elib0_def)
  have f: "fread4 2 glue_file = Some ([0x42544731, 5], put32s (concat (replicate 5 [0, 1, 1, 1, 1])))"
    unfolding glue_file_def by (rule fread4_put_id) simp_all
  define g0 where "g0 = (emb_fresh world1 (\<lambda>_. cb_inert))\<lparr>es_tita := True, es_tail := ''/root/pya/tita_tail.onnx'',
    es_eres := False, es_tpu := se, es_cw := world1\<lparr>cw_n := 1\<rparr>\<rparr>"
  have n: "new_extractor elib2 (emb_fresh world1 (\<lambda>_. cb_inert)) = new_tita elib2 ''/root/pya'' g0"
    using o by (simp add: new_extractor_def e head_dir0 FileExists_def new_mode_def barra_tpu_open_def Let_def g0_def
        emb_fresh_def)
  obtain h where h: "glue_blocks 0 5 (put32s (concat (replicate 5 [0, 1, 1, 1, 1]))) g0 = Some h" "es_tita h"
    using glue_block2 [of 0 5 g0] by (auto simp: g0_def)
  obtain q where p: "LoadTitaParams elib2 ''/root/pya/tita_params.txt'' h = Inr (True, h\<lparr>es_isc := q\<rparr>)"
    using params2 by blast
  have five: "[0..<5] = [0, 1, 2, 3, 4 :: nat]" "[0..<2] = [0, 1 :: nat]" by (simp_all add: upt_rec)
  have "\<exists>k. tita_segs elib2 [0..<5] (h\<lparr>es_isc := q\<rparr>) = Inr k \<and> es_tita k \<and> cb_size (es_zs k (t_in 1)) = 2 \<and> es_tosz k 0 0 = 600"
    using h(2) by (simp add: five tita_seg_def e nth0_def emb_consts emb_alloc_def barra_zc_alloc_def emb_bufs cpu_begin_def)
  moreover have "LoadTitaGlue elib2 ''/root/pya/tita_glue.bin'' g0 = Some h"
    unfolding LoadTitaGlue_def e option.case f prod.case using h(1) by simp
  ultimately show ?thesis
    by (auto simp: n new_tita_def e p to_i32_def simp del: upt_rec_numeral)
qed

theorem emb_start_good_witness:
  "(\<exists>g. new_extractor elib1 (emb_fresh world1 (\<lambda>_. cb_inert)) = Inr g \<and> emb_good g) \<and>
   (\<exists>g. new_extractor elib2 (emb_fresh world1 (\<lambda>_. cb_inert)) = Inr g \<and> es_tita g \<and> emb_good g \<and>
      (\<forall>b<5. glue_counts g b) \<and> 0 < es_isc g 4)"
proof -
  obtain g1 where 1: "new_extractor elib1 (emb_fresh world1 (\<lambda>_. cb_inert)) = Inr g1" using start1 by blast
  obtain g2 where 2: "new_extractor elib2 (emb_fresh world1 (\<lambda>_. cb_inert)) = Inr g2" "es_tita g2" using start2 by blast
  have z: "el_lt elib2 = (\<lambda>a b. a < b)" "d_zero = 0" by (simp_all add: elib2_def elib0_def d_zero_def)
  from emb_start_good [OF 1] emb_start_good [OF 2(1)] 1 2 show ?thesis by (auto simp: z)
qed

theorem tita_overrun_witness:
  "\<exists>g. new_extractor elib2 (emb_fresh world1 (\<lambda>_. cb_inert)) = Inr g \<and> Compute elib2 stream0 g = Inl EFault"
proof -
  obtain g where g: "new_extractor elib2 (emb_fresh world1 (\<lambda>_. cb_inert)) = Inr g" "es_tita g" "es_dim g = 1"
    "cb_size (es_zs g (t_in 1)) = 2" "es_tosz g 0 0 = 600"
    using start2 by blast
  have "keeps_sizes elib2" "\<forall>m is qs st. fst (el_multi elib2 m is qs st)"
    by (simp_all add: keeps_sizes_def elib2_def elib0_def)
  with tita_overrun [OF new_good(1) [OF g(1)] g(2)] g show ?thesis by (simp add: stream0_def kFeat_def)
qed

end
