(* ===== verification/Btn.thy ===== *)
theory Btn
  imports Ffn_Load
begin

text \<open>
  The daemon of the side keys, src/src/hwbridge/btnd.c: it runs as root, reads key events and runs the
  action that the configuration has for a key; a power press is short or long. Each event comes with the
  configuration file and the clock at the time it is handled.
\<close>

section \<open>Configuration\<close>

text \<open>What a C string has up to its 0, and \<open>strstr(s,"..")\<close>.\<close>

definition c_str :: "string \<Rightarrow> string" where
  "c_str s = takeWhile (\<lambda>c. c \<noteq> CHR 0x00) s"

fun has_dots :: "string \<Rightarrow> bool" where
  "has_dots (a # b # s) \<longleftrightarrow> (a = CHR ''.'' \<and> b = CHR ''.'') \<or> has_dots (b # s)"
| "has_dots s \<longleftrightarrow> False"

text \<open>Key and value of a line, if it has an equals sign.\<close>

definition conf_line :: "string \<Rightarrow> (string \<times> string) option" where
  "conf_line l =
     (let s = c_str l; k = takeWhile (\<lambda>c. c \<noteq> CHR ''='') s; r = drop (length k) s in
      if r = [] then None
      else Some (dropWhile (\<lambda>c. c = CHR '' '') k,
                 dropWhile (\<lambda>c. c = CHR '' '') (takeWhile (\<lambda>c. c \<noteq> CHR 0x0A) (tl r))))"

lemma fgets_shorter: "fgets s = Some (l, r) \<Longrightarrow> length r < length s"
  by (cases s) (auto simp: fgets_def Let_def take_Cons' split: if_splits)

function find_action :: "string \<Rightarrow> string \<Rightarrow> string" where
  "find_action key s =
     (case fgets s of
        None \<Rightarrow> []
      | Some (l, r) \<Rightarrow>
         (case conf_line l of
            Some (k, v) \<Rightarrow> if k = key then take 127 v else find_action key r
          | None \<Rightarrow> find_action key r))"
  by auto

termination
  by (relation "measure (\<lambda>(_, s). length s)") (auto dest: fgets_shorter)

declare find_action.simps [simp del]

definition get_action :: "string \<Rightarrow> string option \<Rightarrow> string" where
  "get_action key conf = (case conf of None \<Rightarrow> [] | Some s \<Rightarrow> find_action key s)"

section \<open>Actions\<close>

text \<open>What leaves the daemon: lines of its log, and commands for the shell.\<close>

datatype bout = BLog string | BSys string

definition actions_dir :: string where "actions_dir = ''/data/adb/hwbridge/actions/''"

text \<open>The prefix of an action, \<open>strncmp\<close>; both texts are without a 0.\<close>

definition starts :: "string \<Rightarrow> string \<Rightarrow> bool" where
  "starts p s \<longleftrightarrow> take (length p) s = p"

definition action_cmd :: "string \<Rightarrow> string option" where
  "action_cmd a =
     (if a = ''shutdown'' then Some ''setprop sys.powerctl shutdown''
      else if a = ''reboot'' then Some ''setprop sys.powerctl reboot''
      else if a = ''volup'' then Some ''sh /data/adb/hwbridge/vol.sh up 2>/dev/null''
      else if a = ''voldown'' then Some ''sh /data/adb/hwbridge/vol.sh down 2>/dev/null''
      else if a = ''display'' then Some ''sh /data/adb/hwbridge/dispctl.sh toggle 2>/dev/null &''
      else if a = ''displayon'' then Some ''sh /data/adb/hwbridge/dispctl.sh on 2>/dev/null &''
      else if a = ''displayoff'' then Some ''sh /data/adb/hwbridge/dispctl.sh off 2>/dev/null &''
      else if starts ''exec:'' a \<and> starts actions_dir (drop 5 a) \<and> \<not> has_dots (drop 5 a)
      then Some (take 299 (''sh '' @ drop 5 a @ '' &''))
      else None)"

definition run_action :: "string \<Rightarrow> bout list" where
  "run_action a =
     BLog (take 255 (''Aktion: '' @ a)) # (case action_cmd a of None \<Rightarrow> [] | Some c \<Rightarrow> [BSys c])"

section \<open>Events\<close>

record bevent =
  ev_type :: int
  ev_code :: int
  ev_value :: int
  ev_conf :: "string option"
  ev_sec :: int
  ev_nsec :: int

record bstate =
  bs_sec :: int
  bs_nsec :: int
  bs_down :: bool

definition key_name :: "int \<Rightarrow> string option" where
  "key_name c =
     (if c = 116 then Some ''POWER'' else if c = 115 then Some ''VOLUMEUP'' else if c = 114 then Some ''VOLUMEDOWN''
      else None)"

text \<open>The division of C rounds towards 0.\<close>

definition press_ms :: "bstate \<Rightarrow> bevent \<Rightarrow> int" where
  "press_ms s e =
     (let n = ev_nsec e - bs_nsec s in
      (ev_sec e - bs_sec s) * 1000 + (if n < 0 then - ((- n) div 1000000) else n div 1000000))"

definition power_action :: "bstate \<Rightarrow> bevent \<Rightarrow> string" where
  "power_action s e =
     (if press_ms s e \<ge> 800
      then let a = get_action ''POWER_LONG'' (ev_conf e) in
        if a = [] then get_action ''POWER'' (ev_conf e) else a
      else get_action ''POWER'' (ev_conf e))"

definition act :: "string \<Rightarrow> bout list" where
  "act a = (if a = [] then [] else run_action a)"

definition btn_step :: "bevent \<Rightarrow> bstate \<Rightarrow> bout list \<times> bstate" where
  "btn_step e s =
     (if ev_type e \<noteq> 1 then ([], s)
      else
     (case key_name (ev_code e) of
        None \<Rightarrow> ([], s)
      | Some key \<Rightarrow>
          if ev_value e = 1
          then if ev_code e = 116 then ([], s\<lparr>bs_sec := ev_sec e, bs_nsec := ev_nsec e, bs_down := True\<rparr>)
            else (act (get_action key (ev_conf e)), s)
          else if ev_value e = 0 \<and> ev_code e = 116 \<and> bs_down s
          then (act (power_action s e), s\<lparr>bs_down := False\<rparr>)
          else ([], s)))"

text \<open>The loop of \<open>main\<close>, until \<open>read\<close> fails; \<open>None\<close> for the device: it cannot be opened.\<close>

fun btn_loop :: "bevent list \<Rightarrow> bstate \<Rightarrow> bout list \<times> bstate" where
  "btn_loop [] s = ([], s)"
| "btn_loop (e # es) s =
     (case btn_step e s of (o1, s1) \<Rightarrow> case btn_loop es s1 of (o2, s2) \<Rightarrow> (o1 @ o2, s2))"

definition btn_main :: "bevent list option \<Rightarrow> bstate \<Rightarrow> int \<times> bout list" where
  "btn_main dev s =
     (case dev of
        None \<Rightarrow> (1, [BLog ''kann event-Device nicht oeffnen''])
      | Some es \<Rightarrow> (0, BLog ''gestartet'' # fst (btn_loop es (s\<lparr>bs_down := False\<rparr>))))"

section \<open>Lemmas\<close>

definition fixed_cmds :: "string set" where
  "fixed_cmds = {''setprop sys.powerctl shutdown'', ''setprop sys.powerctl reboot'',
     ''sh /data/adb/hwbridge/vol.sh up 2>/dev/null'', ''sh /data/adb/hwbridge/vol.sh down 2>/dev/null'',
     ''sh /data/adb/hwbridge/dispctl.sh toggle 2>/dev/null &'', ''sh /data/adb/hwbridge/dispctl.sh on 2>/dev/null &'',
     ''sh /data/adb/hwbridge/dispctl.sh off 2>/dev/null &''}"

definition allowed :: "string \<Rightarrow> bool" where
  "allowed c \<longleftrightarrow>
     c \<in> fixed_cmds \<or> (\<exists>n. c = ''sh '' @ actions_dir @ n @ '' &'' \<and> \<not> has_dots (actions_dir @ n))"

lemma find_action_length: "length (find_action key s) \<le> 127"
proof (induction key s rule: find_action.induct)
  case (1 key s)
  then show ?case
    by (subst find_action.simps) (auto split: option.splits)
qed

lemma get_action_length: "length (get_action key conf) \<le> 127"
  by (simp add: get_action_def find_action_length split: option.splits)

lemma action_cmd_allowed:
  assumes "action_cmd a = Some c" "length a \<le> 127"
  shows "allowed c"
proof (cases "c \<in> fixed_cmds")
  case True
  then show ?thesis by (simp add: allowed_def)
next
  case False
  then have e: "starts actions_dir (drop 5 a)" "\<not> has_dots (drop 5 a)" "c = take 299 (''sh '' @ drop 5 a @ '' &'')"
    using assms(1) unfolding action_cmd_def fixed_cmds_def by (auto simp del: take_append split: if_splits)
  obtain n where n: "drop 5 a = actions_dir @ n"
    using e(1) append_take_drop_id [of "length actions_dir" "drop 5 a"] unfolding starts_def by metis
  have "length (''sh '' @ drop 5 a @ '' &'') \<le> 299" using assms(2) by simp
  then have "c = ''sh '' @ drop 5 a @ '' &''" unfolding e(3) by (rule take_all)
  with e(2) n show ?thesis by (auto simp: allowed_def)
qed

lemma act_allowed: "BSys c \<in> set (act a) \<Longrightarrow> length a \<le> 127 \<Longrightarrow> allowed c"
  by (auto simp: act_def run_action_def intro: action_cmd_allowed split: if_splits option.splits)

lemma power_action_length: "length (power_action s e) \<le> 127"
  by (simp add: power_action_def Let_def get_action_length)

lemma btn_step_allowed: "BSys c \<in> set (fst (btn_step e s)) \<Longrightarrow> allowed c"
  by (auto simp: btn_step_def split: if_splits option.splits
      intro: act_allowed [OF _ get_action_length] act_allowed [OF _ power_action_length])

lemma btn_loop_allowed: "BSys c \<in> set (fst (btn_loop es s)) \<Longrightarrow> allowed c"
proof (induction es arbitrary: s)
  case (Cons e es)
  then show ?case using btn_step_allowed [of c e s] by (auto simp: split_beta)
qed simp

lemma btn_loop_append:
  "btn_loop (xs @ ys) s = (case btn_loop xs s of (o1, s1) \<Rightarrow> case btn_loop ys s1 of (o2, s2) \<Rightarrow> (o1 @ o2, s2))"
  by (induction xs arbitrary: s) (auto split: prod.splits)

text \<open>Events that leave the state of the power key alone.\<close>

definition not_power :: "bevent \<Rightarrow> bool" where
  "not_power e \<longleftrightarrow> ev_type e \<noteq> 1 \<or> ev_code e \<noteq> 116 \<or> (ev_value e \<noteq> 0 \<and> ev_value e \<noteq> 1)"

lemma not_power_state: "not_power e \<Longrightarrow> snd (btn_step e s) = s"
  by (auto simp: not_power_def btn_step_def split: option.splits)

lemma not_power_loop: "list_all not_power es \<Longrightarrow> snd (btn_loop es s) = s"
proof (induction es arbitrary: s)
  case (Cons e es)
  then show ?case using not_power_state [of e s] by (simp add: split_beta)
qed simp

text \<open>The true length of a press, in nanoseconds.\<close>

definition press_ns :: "bstate \<Rightarrow> bevent \<Rightarrow> int" where
  "press_ns s e = (ev_sec e - bs_sec s) * 1000000000 + (ev_nsec e - bs_nsec s)"

lemma press_ms_bounds:
  "800000000 \<le> press_ns s e \<Longrightarrow> 800 \<le> press_ms s e"
  "800 \<le> press_ms s e \<Longrightarrow> 799000000 < press_ns s e"
  unfolding press_ns_def press_ms_def Let_def by (auto split: if_splits)

section \<open>Properties\<close>

text \<open>
  C39. Whatever the configuration and the keys are, the daemon gives the shell only one of seven fixed
  commands, or \<open>sh\<close> with a text that starts with the directory of the actions and has no two dots in a
  row; commands are never cut. (The text may go on behind the name of a script: see the witness.)
\<close>

theorem btn_commands_allowed:
  assumes "BSys c \<in> set (snd (btn_main dev s))"
  shows "allowed c"
  using assms by (auto simp: btn_main_def split: option.splits dest: btn_loop_allowed)

text \<open>
  C40. A press of the power key, with any other events in between, runs when the key is released the
  action that is configured for it, and nothing if none is: the long one, if there is one, for a press
  of more than 800 ms, the short one for 799 ms and less. Between the two the code, which rounds and
  compares with \<open>\<ge>\<close>, and its comment, which says more than 800 ms, do not agree, and nothing is stated
  here. A second release does nothing.
\<close>

theorem btn_power_press:
  assumes "ev_type d = 1" "ev_code d = 116" "ev_value d = 1" "list_all not_power mid"
    and "ev_type u = 1" "ev_code u = 116" "ev_value u = 0" "ev_type v = 1" "ev_code v = 116" "ev_value v = 0"
  shows "\<exists>s1 long. s1 = s\<lparr>bs_sec := ev_sec d, bs_nsec := ev_nsec d, bs_down := True\<rparr> \<and>
    btn_loop (d # mid @ [u, v]) s =
      (fst (btn_loop mid s1) @
       act (if long \<and> get_action ''POWER_LONG'' (ev_conf u) \<noteq> [] then get_action ''POWER_LONG'' (ev_conf u)
            else get_action ''POWER'' (ev_conf u)), s1\<lparr>bs_down := False\<rparr>) \<and>
    (800000000 < press_ns s1 u \<longrightarrow> long) \<and> (press_ns s1 u \<le> 799000000 \<longrightarrow> \<not> long)"
proof -
  define s1 where "s1 = s\<lparr>bs_sec := ev_sec d, bs_nsec := ev_nsec d, bs_down := True\<rparr>"
  have d: "btn_step d s = ([], s1)" using assms(1-3) by (simp add: btn_step_def key_name_def s1_def)
  obtain o1 where m: "btn_loop mid s1 = (o1, s1)" using not_power_loop [OF assms(4), of s1] by (cases "btn_loop mid s1") simp
  have u: "btn_step u s1 = (act (power_action s1 u), s1\<lparr>bs_down := False\<rparr>)"
    using assms(5-7) by (simp add: btn_step_def key_name_def s1_def)
  have v: "btn_step v (s1\<lparr>bs_down := False\<rparr>) = ([], s1\<lparr>bs_down := False\<rparr>)"
    using assms(8-10) by (simp add: btn_step_def key_name_def)
  have "btn_loop (d # mid @ [u, v]) s = (o1 @ act (power_action s1 u), s1\<lparr>bs_down := False\<rparr>)"
    by (simp add: d btn_loop_append m u v)
  then show ?thesis
    unfolding s1_def [symmetric]
    by (intro exI [of _ s1] exI [of _ "800 \<le> press_ms s1 u"])
      (use press_ms_bounds [of s1 u] in \<open>auto simp: m power_action_def Let_def\<close>)
qed

section \<open>Concrete events\<close>

definition key_ev :: "int \<Rightarrow> int \<Rightarrow> string \<Rightarrow> int \<Rightarrow> bevent" where
  "key_ev c v conf ms =
     \<lparr>ev_type = 1, ev_code = c, ev_value = v, ev_conf = Some conf, ev_sec = ms div 1000, ev_nsec = ms mod 1000 * 1000000\<rparr>"

definition bstate0 :: bstate where
  "bstate0 = \<lparr>bs_sec = 0, bs_nsec = 0, bs_down = False\<rparr>"

text \<open>The shell runs two commands here, the second outside of the directory.\<close>

theorem btn_commands_allowed_witness:
  "BSys ''sh /data/adb/hwbridge/actions/x;reboot &'' \<in>
     set (snd (btn_main (Some [key_ev 115 1 ''VOLUMEUP=exec:/data/adb/hwbridge/actions/x;reboot'' 0]) bstate0)) \<and>
   allowed ''sh /data/adb/hwbridge/actions/x;reboot &''"
proof -
  have "get_action ''VOLUMEUP'' (Some ''VOLUMEUP=exec:/data/adb/hwbridge/actions/x;reboot'') =
      ''exec:/data/adb/hwbridge/actions/x;reboot''"
    by code_simp
  moreover have "action_cmd ''exec:/data/adb/hwbridge/actions/x;reboot'' = Some ''sh /data/adb/hwbridge/actions/x;reboot &''"
    by code_simp
  ultimately have "BSys ''sh /data/adb/hwbridge/actions/x;reboot &'' \<in>
     set (snd (btn_main (Some [key_ev 115 1 ''VOLUMEUP=exec:/data/adb/hwbridge/actions/x;reboot'' 0]) bstate0))"
    by (simp add: btn_main_def btn_step_def key_ev_def key_name_def act_def run_action_def)
  from btn_commands_allowed [OF this] this show ?thesis by blast
qed

theorem btn_power_press_witness:
  "fst (btn_loop (key_ev 116 1 [] 0 # [] @ [key_ev 116 0 ''POWER_LONG=shutdown'' 900, key_ev 116 0 [] 950]) bstate0) =
     [BLog ''Aktion: shutdown'', BSys ''setprop sys.powerctl shutdown'']"
proof -
  have "get_action ''POWER_LONG'' (Some ''POWER_LONG=shutdown'') = ''shutdown''" by code_simp
  moreover have "run_action ''shutdown'' = [BLog ''Aktion: shutdown'', BSys ''setprop sys.powerctl shutdown'']" by code_simp
  ultimately show ?thesis
    using btn_power_press [of "key_ev 116 1 [] 0" "[]" "key_ev 116 0 ''POWER_LONG=shutdown'' 900" "key_ev 116 0 [] 950" bstate0]
    by (auto simp: key_ev_def press_ns_def act_def simp del: append_Nil)
qed

end
