(* ===== verification/Spec2Isabelle.thy ===== *)
theory Spec2Isabelle
  imports Gpudzc Tpud_Correct End_To_End Ggml_Correct Ffn_Correct Ffn_Pool Voc_Correct Wsp_Props Emb_Props Btn
begin

text \<open>
  Verification of barra: a phone whose GPU, TPU and DSP are used from a Linux container through small
  daemons on the Android side ("bridges"). A program in the container links the client library
  src/src/barra/barra.c; the library talks to the daemons of src/src/hwbridge over Unix sockets.
  Payload is sent inline on the socket, or stays in dma-bufs whose descriptors travel with the
  messages (SCM_RIGHTS).

  The parts and their theories

  \<^item> Foundations. \<^theory_text>\<open>Barra_Prelude\<close>: bytes, the little-endian encoding of the wire formats, slot tables
    with a \<open>used\<close> flag. \<^theory_text>\<open>Transport\<close>: the loops \<open>rn\<close> and \<open>wn\<close> (barra.c), \<open>read_full\<close> and
    \<open>write_full\<close> (daemons) against every schedule of partial transfers, and the socket as the
    handlers see it: a list of messages with descriptors. \<^theory_text>\<open>Sys\<close>: the process of a daemon; open
    descriptors and driver objects are multisets, so "gives back what it took" is an equation, and
    a double release is recorded. The locale \<open>session_loop\<close> states what the loop of every session
    needs from its steps and proves once that the loop ends and keeps the accounts; every daemon
    interprets it on its own steps.
  \<^item> gpud-zc.c, the zero-copy GPU daemon. \<^theory_text>\<open>Pipeline_Cache\<close>: \<open>get_pipe\<close>, \<open>fnv1a\<close>, the cache of 16
    pipelines with pins. \<^theory_text>\<open>Gpu_Device\<close>: \<open>pick_mem\<close>, \<open>import_buf\<close>, command buffers. \<^theory_text>\<open>Gpudzc_Run\<close>:
    \<open>run_stages\<close>, \<open>serve_v1\<close>. \<^theory_text>\<open>Gpudzc_Session\<close>: \<open>serve_v2\<close>. \<^theory_text>\<open>Gpudzc3_Run\<close> and
    \<^theory_text>\<open>Gpudzc3_Session\<close>: \<open>serve_v3\<close> with shaders, offsets, push constants, native buffers and copies,
    and \<open>serve\<close>, which tells the protocols apart. \<^theory_text>\<open>Gpudzc\<close>: the properties.
  \<^item> tpud.c, the TPU daemon. \<^theory_text>\<open>Tpud_Infer\<close>: wakelock, the three ways to wait for an output,
    \<open>tpu_infer_multi\<close>, \<open>tpu_infer_pair\<close>, \<open>load_model\<close>, \<open>warmup\<close>. What the accelerator does is a parameter:
    the graph, whether it fills an imported output with zeros (the comments name packages that do), and for two
    requests in flight which one ends last and which bytes of the first result the other finds. \<^theory_text>\<open>Tpud_Session\<close>: \<open>serve_inline\<close>,
    \<open>serve_zc\<close>, \<open>handle_conn\<close>. \<^theory_text>\<open>Tpud\<close> and \<^theory_text>\<open>Tpud_Correct\<close>: the properties.
  \<^item> gxpd3.c, the DSP daemon. \<^theory_text>\<open>Gxpd3_Dsp\<close>: kernel table, name resolution, \<open>gxp_run\<close>, inline
    requests. \<^theory_text>\<open>Gxpd3_Session\<close>: \<open>serve_zc\<close> with up to 32 jobs in flight. \<^theory_text>\<open>Gxpd3\<close> and
    \<^theory_text>\<open>Gxpd3_Correct\<close>: the properties.
  \<^item> gpud.c, the copying GPU daemon. \<^theory_text>\<open>Gpud_Run\<close>: GPU1, one request per connection.
    \<^theory_text>\<open>Gpud_Session\<close>: GPU2, buffers that live as long as the connection. \<^theory_text>\<open>Gpud\<close>, \<^theory_text>\<open>Gpud_Correct\<close>:
    the cache without pins and the session invariant. \<^theory_text>\<open>Gpud_Refine\<close>: an abstract session (a partial
    map from handles to byte strings) and the proof that every command implements its abstract one.
  \<^item> barra.c and barra.h, the client. \<^theory_text>\<open>Client_Base\<close>: one-shot calls, \<open>barra_run\<close>, \<open>barra_pipeline\<close>.
    \<^theory_text>\<open>Client_Zc\<close>: shared buffers, CPU access brackets, the GPU, TPU and DSP sessions.
    \<^theory_text>\<open>Client_Correct\<close>: the properties. \<^theory_text>\<open>End_To_End\<close>: client composed with a daemon, where the bytes
    one writes are the bytes the other reads.
  \<^item> ggml-gpud.cpp, the ggml backend that turns a tensor graph into batches for gpud-zc.
    \<^theory_text>\<open>Ggml_Base\<close>: tensors, shader table, push constants; ggml, the clock and the environment are the
    parameter \<open>ggml\<close>. \<^theory_text>\<open>Ggml_Buffers\<close>: session, scratch, dma-buf and native buffers, the repacking of
    q6_K. \<^theory_text>\<open>Ggml_Encoder\<close>: \<open>gpud_encoder\<close>, its barriers, limits and \<open>flush\<close>. \<^theory_text>\<open>Ggml_Nodes\<close>:
    \<open>gpud_supports_op\<close> and \<open>encode_node\<close>. \<^theory_text>\<open>Ggml_Graph\<close>: \<open>gpud_graph_compute\<close>. \<^theory_text>\<open>Ggml_Barriers\<close>: which
    executions of a command buffer its barriers permit. \<^theory_text>\<open>Ggml_Inv\<close>: the locale \<open>graph_inv\<close>, which
    carries an invariant of the encoder through a whole graph; \<^theory_text>\<open>Ggml_Batches\<close> interprets it for the
    barriers, the shapes and the limits of the batches. \<^theory_text>\<open>Ggml_Device\<close>: a batch as the daemon reads
    and runs it. \<^theory_text>\<open>Ggml_Example\<close>: a small graph. \<^theory_text>\<open>Ggml_Correct\<close>: the properties.
  \<^item> ggml-barra.cpp, the ggml backend that computes feed-forward blocks on the TPU. \<^theory_text>\<open>Ffn_Base\<close>:
    arithmetic of floats, files, environment and ggml as the parameter \<open>flib\<close>, weight names, state.
    \<^theory_text>\<open>Ffn_Load\<close>: the meta, smoothing and outlier files, init and free. \<^theory_text>\<open>Ffn_Tpu\<close>: quantized rows, the
    outlier update, the CPU fallback, \<open>barra_ffn_fused\<close>. \<^theory_text>\<open>Ffn_Split\<close>: \<open>barra_ffn_split\<close> with its
    passes. \<^theory_text>\<open>Ffn_Graph\<close>: fusion and \<open>supports_op\<close>. \<^theory_text>\<open>Ffn_Rows\<close>: lemmas on rows and tiles.
    \<^theory_text>\<open>Ffn_Correct\<close>: the properties. \<^theory_text>\<open>Ffn_Pool\<close>: the thread pool as a step relation
    over atomic operations, with its mutex, its condition variable, notification and spurious wake-ups; no row
    is run twice, and no wake-up is lost.
  \<^item> gpudecd.c, the vocoder of the text-to-speech. \<^theory_text>\<open>Voc_Base\<close>: half floats, the JSON scanner, the
    operations of a program. \<^theory_text>\<open>Voc_Run\<close>: slots, batches of stages, \<open>process\<close>, connections.
    A batch is logged with the session it meets, so \<open>given\<close>, what the program hands to \<open>barra_gpu_batch\<close>, and
    \<open>ran_stages\<close>, what the GPU is asked to run, are told apart. \<^theory_text>\<open>Voc_Correct\<close>: the properties.
  \<^item> whisper-barra.cpp, the encoder of the speech recognition on the TPU. \<^theory_text>\<open>Wsp_Base\<close>: parameters, state,
    thread pool, quantization, layer norm, calls of the daemons. The calls for pairs are not in the repository's
    client library; their effect on success is an assumption from the comments. \<^theory_text>\<open>Wsp_Init\<close>: \<open>wsp_init\<close>. \<^theory_text>\<open>Wsp_Encode\<close>:
    decoder inputs, convolutions, the layers with three schedules of the attention core. \<^theory_text>\<open>Wsp_Core\<close>: what
    each loop leaves in buffers and context. \<^theory_text>\<open>Wsp_Correct\<close>: the reference encoder, and that every schedule
    computes it. \<^theory_text>\<open>Wsp_Props\<close>: the properties.
  \<^item> speaker-embedding-extractor-barra-impl.h, the speaker embeddings of pyannote on the TPU. \<^theory_text>\<open>Emb_Base\<close>:
    state and files. \<^theory_text>\<open>Emb_Run\<close>: constructor, the chain of five segments, the trunks, windows, pooling,
    \<open>Compute\<close>; every access outside of an array is the result \<open>EFault\<close>. \<^theory_text>\<open>Emb_Correct\<close>: sizes after a start,
    windows, safety, the embedding without buffers. \<^theory_text>\<open>Emb_Props\<close>: the properties.
  \<^item> btnd.c, the daemon of the side keys. \<^theory_text>\<open>Btn\<close>: configuration, actions, short and long presses, properties.


  How the model reads the code

  State is a record with the fields of the C structs and passed explicitly. A handler is a function
  from the state to the new state together with whether the connection goes on; every guard, early
  return and \<open>break\<close> is a branch. Integers of the code are natural numbers with the reduction
  modulo \<open>2 ^ 32\<close> or \<open>2 ^ 64\<close> written where a conversion or a sum can wrap; bytes, hashes and masks
  are words. The vendor drivers (Vulkan, Darwinn, libgxp) and the kernels are not part of the
  repository and are parameters: an oracle says which calls succeed, a function what a kernel
  computes, and the theorems hold for every oracle unless a hypothesis says otherwise.

  What the groups of lemmas show

  \<^item> Conservation: whatever the client sends and whichever driver calls fail, a connection ends and
    leaves the descriptors and driver objects as they were, up to cached pipelines and bounce buffers
    (tpud, gxpd3, gpud). For gpud-zc this needs the conditions the statement lists (whole headers, a
    driver that does not fail except under protocol 2, no exit): without them the code leaks.
  \<^item> Function: a well-formed request does what the protocol says (import, dispatch, inference, run,
    upload and download), on every buffer and nowhere else.
  \<^item> Refinement of abstract specifications (gpud sessions, name resolution, the pipeline of stages).
  \<^item> Bounds: bindings inside their buffers, the capacity of the cache, the model table.
  \<^item> Termination and waiting: sessions end with their input; the stability poll ends within two looks
    per interval, and does not with an interval of zero.
  \<^item> Errors: the places where the code lets something slip are theorems too, with concrete inputs.

  Termination. The loop of a session is a recursive function on the bytes still unread, the only
  bound it has; \<open>session_loop\<close> turns the facts about one step into facts about the whole session.
  The waiting loops of tpud may not end, so they are partial functions where not returning is the
  value \<open>None\<close>, and the theorems about them say when they return.

  What is not modelled

  Device setup (\<open>gpu_init\<close>, \<open>tpu_init\<close>), the accept loops and threads: connections are served one
  after another in the model, and the daemons hold a lock around device work. The threads of whisper-barra.cpp run
  their chunks one after the other, without the handshake between them. Logging and statistics
  are left out. Not modelled at all: generated SPIR-V arrays, the vendored stb_image.h, demos,
  benchmarks and hardware experiments, drawing and audio programs, shaders and DSP assembly (another
  language), model conversion tools, setup scripts; the registration of the backends
  with ggml; the earlier
  versions of the daemons.
\<close>

end
